(* ===== verification/Sc_Prelude.thy ===== *)
theory Sc_Prelude
  imports Main "HOL-Library.Word" "HOL-Library.Monad_Syntax"
begin

text \<open>
  Shared vocabulary of the development: return codes, the reading of aborts and invalid
  memory accesses as \<open>None\<close>, and the generic lemmas on \<open>option\<close>, maps and lists that the
  components use.

  A model function that the C++ code may leave through \<open>assert\<close>, \<open>SC_ASSERT\<close>,
  \<open>SC_ABORT\<close>, an uncaught exception or the dereference of an invalid pointer has an
  \<open>option\<close> result; \<open>None\<close> is that exit. A return code of the code (\<open>sc_retval\<close>) is an
  ordinary value of the result and never \<open>None\<close>.
\<close>

unbundle bit_operations_syntax

named_theorems sc_monad \<open>unfolding the option monad\<close>
named_theorems sc_frame \<open>what an operation leaves unchanged\<close>

section \<open>Return codes (\<open>sc_types.h\<close>)\<close>

type_synonym sc_retval = int

abbreviation (input) RV_OK :: sc_retval where
  "RV_OK \<equiv> 0"

abbreviation (input) RV_ERR_GEN :: sc_retval where
  "RV_ERR_GEN \<equiv> - 1"

abbreviation (input) RV_ELSE_GEN :: sc_retval where
  "RV_ELSE_GEN \<equiv> 1"

definition RV_IS_ERR :: "sc_retval \<Rightarrow> bool" where
  "RV_IS_ERR rv = (rv < 0)"

definition RV_IS_ELSE :: "sc_retval \<Rightarrow> bool" where
  "RV_IS_ELSE rv = (rv > 0)"

section \<open>Assertions\<close>

definition ensure :: "bool \<Rightarrow> unit option" where
  "ensure b = (if b then Some () else None)"

lemma ensure_simps [simp]:
  "ensure True = Some ()" "ensure False = None"
  by (simp_all add: ensure_def)

lemma ensure_eq_Some [simp]: "ensure b = Some u \<longleftrightarrow> b"
  by (simp add: ensure_def)

lemma ensure_bind_eq_Some [simp]: "Option.bind (ensure b) f = Some x \<longleftrightarrow> b \<and> f () = Some x"
  by (simp add: ensure_def)

lemmas bind_Some_iff [sc_monad] = Option.bind_eq_Some_conv

section \<open>Lists\<close>

lemma distinct_remove1_iff [simp]: "distinct xs \<Longrightarrow> x \<in> set (remove1 y xs) \<longleftrightarrow> x \<in> set xs \<and> x \<noteq> y"
  by auto

lemma filter_remove1: "filter P (remove1 x xs) = (if P x then remove1 x (filter P xs) else filter P xs)"
  by (induction xs) auto

lemma map_filter_cong_set: "(\<And>x. x \<in> set xs \<Longrightarrow> P x = Q x) \<Longrightarrow> (\<And>x. x \<in> set xs \<Longrightarrow> f x = g x)
    \<Longrightarrow> map f (filter P xs) = map g (filter Q xs)"
  by (induction xs) auto

lemma length_remove1_in [simp]: "x \<in> set xs \<Longrightarrow> length (remove1 x xs) = length xs - 1"
  by (simp add: length_remove1)

end
