(* ===== verification/Sc_Types.thy ===== *)
theory Sc_Types
  imports Sc_Prelude
begin

text \<open>
  The type masks of sc-elements (\<open>libsc/libsc/sc_types.h\<close>) and the normalisation of a type
  that the session performs before it creates or retypes an element
  (\<open>session_base::verify_type\<close>, \<open>libsc/libsc/sc_core.cpp\<close>). \<open>sc_type\<close> is the code's
  \<open>sc_uint16\<close>. The masks of the three groups of bits are the code's own numbers.
\<close>

type_synonym sc_type = "16 word"

section \<open>Masks\<close>

abbreviation SC_EMPTY :: sc_type where "SC_EMPTY \<equiv> 0"
abbreviation SC_UNDF :: sc_type where "SC_UNDF \<equiv> 0x01"
abbreviation SC_NODE :: sc_type where "SC_NODE \<equiv> 0x02"
abbreviation SC_EDGE :: sc_type where "SC_EDGE \<equiv> 0x04"
abbreviation SC_ARC :: sc_type where "SC_ARC \<equiv> 0x08"
abbreviation SC_ARC_ACCESSORY :: sc_type where "SC_ARC_ACCESSORY \<equiv> 0x10"
abbreviation SC_LINK :: sc_type where "SC_LINK \<equiv> 0x20"

definition SC_SYNTACTIC_MASK :: sc_type where
  "SC_SYNTACTIC_MASK = SC_UNDF OR SC_NODE OR SC_EDGE OR SC_ARC OR SC_ARC_ACCESSORY OR SC_LINK"

definition SC_CONNECTOR_MASK :: sc_type where
  "SC_CONNECTOR_MASK = SC_EDGE OR SC_ARC OR SC_ARC_ACCESSORY"

abbreviation SC_CONST :: sc_type where "SC_CONST \<equiv> 0x40"
abbreviation SC_VAR :: sc_type where "SC_VAR \<equiv> 0x80"
abbreviation SC_METAVAR :: sc_type where "SC_METAVAR \<equiv> 0x100"

definition SC_CONSTANCY_MASK :: sc_type where
  "SC_CONSTANCY_MASK = SC_CONST OR SC_VAR OR SC_METAVAR"

abbreviation SC_FUZ :: sc_type where "SC_FUZ \<equiv> 0x200"
abbreviation SC_POS :: sc_type where "SC_POS \<equiv> 0x400"
abbreviation SC_NEG :: sc_type where "SC_NEG \<equiv> 0x800"

definition SC_FUZZYNESS_MASK :: sc_type where
  "SC_FUZZYNESS_MASK = SC_FUZ OR SC_POS OR SC_NEG"

abbreviation SC_PERMANENT :: sc_type where "SC_PERMANENT \<equiv> 0x1000"
abbreviation SC_TEMPORARY :: sc_type where "SC_TEMPORARY \<equiv> 0x2000"

definition SC_PERMANENCY_MASK :: sc_type where
  "SC_PERMANENCY_MASK = SC_PERMANENT OR SC_TEMPORARY"

definition SC_ARC_MAIN :: sc_type where
  "SC_ARC_MAIN = SC_ARC_ACCESSORY OR SC_CONST OR SC_POS OR SC_PERMANENT"

definition SC_A_CONST :: sc_type where
  "SC_A_CONST = SC_ARC_ACCESSORY OR SC_CONST"

abbreviation SC_TUPLE :: sc_type where "SC_TUPLE \<equiv> 0x200"
abbreviation SC_STRUCT :: sc_type where "SC_STRUCT \<equiv> 0x400"
abbreviation SC_ROLE :: sc_type where "SC_ROLE \<equiv> 0x800"
abbreviation SC_BINARY :: sc_type where "SC_BINARY \<equiv> 0x1000"
abbreviation SC_CONCEPT :: sc_type where "SC_CONCEPT \<equiv> 0x2000"
abbreviation SC_ABSTRACT :: sc_type where "SC_ABSTRACT \<equiv> 0x4000"

definition SC_STRUCTURE_MASK :: sc_type where
  "SC_STRUCTURE_MASK =
     SC_TUPLE OR SC_STRUCT OR SC_ROLE OR SC_BINARY OR SC_CONCEPT OR SC_ABSTRACT"

definition SC_N_CONST :: sc_type where
  "SC_N_CONST = SC_NODE OR SC_CONST"

definition SC_POOR_MASK :: sc_type where
  "SC_POOR_MASK = SC_CONSTANCY_MASK OR SC_FUZZYNESS_MASK OR SC_SYNTACTIC_MASK
     OR SC_PERMANENCY_MASK OR SC_STRUCTURE_MASK"

named_theorems sc_masks \<open>the numeric values of the masks\<close>

lemmas sc_mask_defs [sc_masks] =
  SC_SYNTACTIC_MASK_def SC_CONNECTOR_MASK_def SC_CONSTANCY_MASK_def SC_FUZZYNESS_MASK_def
  SC_PERMANENCY_MASK_def SC_ARC_MAIN_def SC_A_CONST_def SC_STRUCTURE_MASK_def SC_N_CONST_def
  SC_POOR_MASK_def

section \<open>Tests on types\<close>

definition sc_isa :: "sc_type \<Rightarrow> sc_type \<Rightarrow> bool" where
  "sc_isa type super \<longleftrightarrow> type AND super = super"

definition check_sc_type_raw :: "sc_type \<Rightarrow> sc_type \<Rightarrow> bool" where
  "check_sc_type_raw val msk \<longleftrightarrow> val = val AND msk"

definition sc_type_add_default :: "sc_type \<Rightarrow> sc_type \<Rightarrow> sc_type \<Rightarrow> sc_type" where
  "sc_type_add_default type msk def = (if type AND msk \<noteq> 0 then type else type OR def)"

definition sc_type_extend_mask_group :: "sc_type \<Rightarrow> sc_type \<Rightarrow> sc_type" where
  "sc_type_extend_mask_group msk grp = (if msk AND grp \<noteq> 0 then msk else msk OR grp)"

definition sc_type_extend_mask :: "sc_type \<Rightarrow> sc_type" where
  "sc_type_extend_mask msk0 =
     (let msk = sc_type_extend_mask_group msk0 SC_CONSTANCY_MASK in
      if msk AND SC_NODE = 0 then
        let msk = (if msk AND SC_SYNTACTIC_MASK = 0
                    then sc_type_extend_mask_group msk SC_SYNTACTIC_MASK else msk);
            msk = sc_type_extend_mask_group msk SC_FUZZYNESS_MASK;
            msk = sc_type_extend_mask_group msk SC_PERMANENCY_MASK
        in msk
      else msk)"

definition check_sc_type :: "sc_type \<Rightarrow> sc_type \<Rightarrow> bool" where
  "check_sc_type val msk = check_sc_type_raw val (sc_type_extend_mask msk)"

section \<open>Normalisation before creation (\<open>session_base::verify_type\<close>)\<close>

text \<open>The code's \<open>verify_type\<close> returns the completed type, or \<open>SC_EMPTY\<close> after setting the
  session's error.\<close>

definition verify_type :: "sc_type \<Rightarrow> sc_type" where
  "verify_type type0 =
     (let type = sc_type_add_default type0 SC_CONSTANCY_MASK SC_CONST;
          type = sc_type_add_default type SC_SYNTACTIC_MASK SC_UNDF
      in if sc_isa type SC_ARC_ACCESSORY then
           let type = sc_type_add_default type SC_FUZZYNESS_MASK SC_FUZ
           in sc_type_add_default type SC_PERMANENCY_MASK SC_PERMANENT
         else if type AND SC_FUZZYNESS_MASK \<noteq> 0 \<or> type AND SC_PERMANENCY_MASK \<noteq> 0
         then SC_EMPTY
         else type)"

section \<open>Lemmas\<close>

lemma word_or_zero [simp]: "(a :: 'a::len word) OR b = 0 \<longleftrightarrow> a = 0 \<and> b = 0"
  by (auto simp: bit_eq_iff bit_simps)

lemma check_raw_bits: "check_sc_type_raw v m \<longleftrightarrow> (\<forall>n. bit v n \<longrightarrow> bit m n)"
proof
  assume "check_sc_type_raw v m"
  then have eq: "v AND m = v"
    by (simp add: check_sc_type_raw_def)
  have "bit v n \<longrightarrow> bit m n" for n
    using bit_and_iff [of v m n] by (simp only: eq) blast
  then show "\<forall>n. bit v n \<longrightarrow> bit m n" by blast
next
  assume "\<forall>n. bit v n \<longrightarrow> bit m n"
  then show "check_sc_type_raw v m"
    by (auto simp: check_sc_type_raw_def bit_eq_iff bit_simps)
qed

lemma check_raw_compl: "check_sc_type_raw t c \<longleftrightarrow> t AND NOT c = 0"
  by (auto simp: check_sc_type_raw_def bit_eq_iff bit_simps)

lemma check_raw_trans:
  "check_sc_type_raw a b \<Longrightarrow> check_sc_type_raw b c \<Longrightarrow> check_sc_type_raw a c"
  by (simp add: check_raw_bits)

lemma extend_mask_superset: "check_sc_type_raw m (sc_type_extend_mask m)"
  unfolding check_raw_bits
  by (auto simp: sc_type_extend_mask_def sc_type_extend_mask_group_def Let_def bit_simps)

lemma extend_mask_zero: "sc_type_extend_mask 0 = 0x3FFF"
  by (simp add: sc_type_extend_mask_def sc_type_extend_mask_group_def Let_def sc_masks)

lemma check_sc_type_refl: "check_sc_type t t"
  by (simp add: check_sc_type_def extend_mask_superset)

lemma verify_type_zero:
  "verify_type t = 0 \<longleftrightarrow>
     \<not> sc_isa t SC_ARC_ACCESSORY \<and> (t AND SC_FUZZYNESS_MASK \<noteq> 0 \<or> t AND SC_PERMANENCY_MASK \<noteq> 0)"
  by (auto simp: verify_type_def sc_type_add_default_def Let_def sc_masks word_ao_dist sc_isa_def)

lemma sc_isa_bits: "sc_isa t s \<longleftrightarrow> check_sc_type_raw s t"
  by (auto simp: sc_isa_def check_sc_type_raw_def and.commute)

lemma sc_isa_trans: "sc_isa a b \<Longrightarrow> sc_isa b c \<Longrightarrow> sc_isa a c"
  by (auto simp: sc_isa_bits intro: check_raw_trans)

lemma sc_isa_add_default: "sc_isa t s \<Longrightarrow> sc_isa (sc_type_add_default t m d) s"
  by (auto simp: sc_isa_bits sc_type_add_default_def check_raw_bits bit_simps)

lemma sc_isa_refl: "sc_isa t t"
  by (simp add: sc_isa_def)

lemma verify_type_isa: "verify_type t \<noteq> 0 \<Longrightarrow> sc_isa (verify_type t) t"
  by (auto simp: verify_type_def Let_def sc_isa_refl intro!: sc_isa_add_default split: if_splits)

lemma verify_type_connector:
  "verify_type t \<noteq> 0 \<Longrightarrow> verify_type t AND SC_CONNECTOR_MASK = t AND SC_CONNECTOR_MASK"
  by (auto simp: verify_type_def sc_type_add_default_def Let_def sc_masks word_ao_dist sc_isa_def
      split: if_splits)

section \<open>Properties\<close>

text \<open>C39. A type that \<open>verify_type\<close> accepts keeps every bit the caller gave and carries a
  constancy and a syntactic property; an accessory arc also carries a fuzzyness and a permanency
  property, and every other type carries none of the two.\<close>

theorem verify_type_complete:
  assumes "verify_type t \<noteq> SC_EMPTY"
  shows "sc_isa (verify_type t) t \<and>
    verify_type t AND SC_CONSTANCY_MASK \<noteq> 0 \<and> verify_type t AND SC_SYNTACTIC_MASK \<noteq> 0 \<and>
    (if sc_isa t SC_ARC_ACCESSORY
     then verify_type t AND SC_FUZZYNESS_MASK \<noteq> 0 \<and> verify_type t AND SC_PERMANENCY_MASK \<noteq> 0
     else verify_type t AND SC_FUZZYNESS_MASK = 0 \<and> verify_type t AND SC_PERMANENCY_MASK = 0) \<and>
    verify_type (verify_type t) = verify_type t"
proof -
  have "verify_type (verify_type t) = verify_type t"
    using assms
    by (auto simp: verify_type_def sc_type_add_default_def Let_def sc_masks word_ao_dist sc_isa_def
        split: if_splits)
  then show ?thesis
    using assms verify_type_isa [OF assms]
    by (auto simp: verify_type_def sc_type_add_default_def Let_def sc_masks word_ao_dist sc_isa_def
        word_bw_assocs split: if_splits)
qed

theorem verify_type_complete_witness:
  "verify_type SC_A_CONST \<noteq> SC_EMPTY \<and> sc_isa (verify_type SC_A_CONST) SC_A_CONST"
proof -
  have h: "verify_type SC_A_CONST \<noteq> SC_EMPTY"
    by (simp add: verify_type_def sc_type_add_default_def sc_isa_def sc_masks)
  show ?thesis
    using h verify_type_complete [OF h] by blast
qed

text \<open>The structure bits of a node (\<open>SC_TUPLE\<close>, \<open>SC_STRUCT\<close>, \<open>SC_ROLE\<close>, \<open>SC_BINARY\<close>,
  \<open>SC_CONCEPT\<close>) share their positions with the arc's fuzzyness and permanency bits, so
  \<open>verify_type\<close> rejects every type of a structured node: of all structure bits only
  \<open>SC_ABSTRACT\<close> passes.\<close>

theorem verify_type_structured_node:
  assumes "t AND SC_SYNTACTIC_MASK = SC_NODE"
  shows "verify_type t = SC_EMPTY \<longleftrightarrow> t AND (SC_STRUCTURE_MASK AND NOT SC_ABSTRACT) \<noteq> 0"
proof -
  have "bit t 4 = bit (t AND SC_SYNTACTIC_MASK) 4"
    by (simp add: sc_masks bit_simps)
  then have acc: "\<not> bit t 4"
    by (simp add: assms bit_simps)
  have "\<not> sc_isa t SC_ARC_ACCESSORY"
  proof
    assume "sc_isa t SC_ARC_ACCESSORY"
    then have "bit (t AND SC_ARC_ACCESSORY) 4"
      by (simp add: sc_isa_def)
    then show False using acc by (simp add: bit_and_iff)
  qed
  moreover have "t AND (SC_STRUCTURE_MASK AND NOT SC_ABSTRACT) =
      t AND SC_FUZZYNESS_MASK OR t AND SC_PERMANENCY_MASK"
    by (simp add: sc_masks flip: word_ao_dist2)
  ultimately show ?thesis
    by (simp add: verify_type_zero)
qed

theorem verify_type_structured_node_witness:
  "verify_type (SC_NODE OR SC_CONST OR SC_TUPLE) = SC_EMPTY"
proof -
  have h: "(SC_NODE OR SC_CONST OR SC_TUPLE) AND SC_SYNTACTIC_MASK = SC_NODE"
    by (simp add: sc_masks)
  show ?thesis
    using verify_type_structured_node [OF h] by (simp add: sc_masks)
qed

text \<open>Extending a search mask is idempotent and never drops a bit; the empty mask accepts a
  type exactly when it has neither \<open>SC_ABSTRACT\<close> nor the unused top bit, so the wildcard of a
  search does not match abstract nodes; the mask \<open>SC_N_CONST\<close> accepts no bit beyond its own two.\<close>

theorem check_sc_type_masks:
  "sc_type_extend_mask (sc_type_extend_mask m) = sc_type_extend_mask m
   \<and> check_sc_type_raw m (sc_type_extend_mask m)
   \<and> (check_sc_type t 0 \<longleftrightarrow> t AND SC_ABSTRACT = 0 \<and> t AND 0x8000 = 0)
   \<and> (check_sc_type t SC_N_CONST \<longleftrightarrow> t AND NOT SC_N_CONST = 0)"
proof (intro conjI)
  show "sc_type_extend_mask (sc_type_extend_mask m) = sc_type_extend_mask m"
    by (simp add: sc_type_extend_mask_def sc_type_extend_mask_group_def Let_def sc_masks
        word_ao_dist)
  show "check_sc_type_raw m (sc_type_extend_mask m)"
    by (rule extend_mask_superset)
  have "NOT (0x3FFF :: sc_type) = 0x4000 OR 0x8000"
    by simp
  then have "t AND NOT 0x3FFF = t AND SC_ABSTRACT OR t AND 0x8000"
    by (simp only: word_ao_dist2)
  then show "check_sc_type t 0 \<longleftrightarrow> t AND SC_ABSTRACT = 0 \<and> t AND 0x8000 = 0"
    by (simp only: check_sc_type_def extend_mask_zero check_raw_compl word_or_zero)
  have "sc_type_extend_mask SC_N_CONST = SC_N_CONST"
    by (simp add: sc_type_extend_mask_def sc_type_extend_mask_group_def Let_def sc_masks)
  then show "check_sc_type t SC_N_CONST \<longleftrightarrow> t AND NOT SC_N_CONST = 0"
    by (simp only: check_sc_type_def check_raw_compl)
qed

end
