(* ===== verification/Sc_Content.thy ===== *)
theory Sc_Content
  imports Sc_Prelude
begin

text \<open>
  The content of an element (\<open>libsc/libsc/sc_content.h\<close>, \<open>sc_content.cpp\<close>): a tagged union of
  a string, a number or binary data. Bytes are \<open>8 word\<close>; the strings carry their terminating
  zero as the code's \<open>cdata\<close> does. A \<open>cint\<close> is a 64-bit word; a \<open>creal\<close> is the bit pattern of an
  IEEE double, with the language's comparison of doubles and its conversion from \<open>long\<close> written
  out. A comparison that reads the numeric member of a union holding data is \<open>None\<close>.
\<close>

type_synonym bytes = "8 word list"

datatype content =
    CEmpty
  | CString bytes
  | CInt "64 word"
  | CReal "64 word"
  | CData bytes
  | CLazy bytes

text \<open>\<open>enum TCont\<close>.\<close>

primrec cont_type :: "content \<Rightarrow> nat" where
  "cont_type CEmpty = 0"
| "cont_type (CString b) = 1"
| "cont_type (CInt i) = 2"
| "cont_type (CReal r) = 3"
| "cont_type (CData b) = 4"
| "cont_type (CLazy b) = 5"

section \<open>Doubles\<close>

definition d_magnitude :: "64 word \<Rightarrow> 64 word" where
  "d_magnitude r = r AND 0x7FFFFFFFFFFFFFFF"

definition d_nan :: "64 word \<Rightarrow> bool" where
  "d_nan r \<longleftrightarrow> d_magnitude r > 0x7FF0000000000000"

text \<open>Doubles that are numbers are ordered as sign and magnitude of their bits.\<close>

definition d_key :: "64 word \<Rightarrow> int" where
  "d_key r = (if r < 0x8000000000000000 then uint (d_magnitude r) else - uint (d_magnitude r))"

definition d_eq :: "64 word \<Rightarrow> 64 word \<Rightarrow> bool" where
  "d_eq a b \<longleftrightarrow> \<not> d_nan a \<and> \<not> d_nan b \<and> d_key a = d_key b"

definition d_less :: "64 word \<Rightarrow> 64 word \<Rightarrow> bool" where
  "d_less a b \<longleftrightarrow> \<not> d_nan a \<and> \<not> d_nan b \<and> d_key a < d_key b"

fun bitlen :: "nat \<Rightarrow> nat" where
  "bitlen n = (if n = 0 then 0 else Suc (bitlen (n div 2)))"

declare bitlen.simps [simp del]

text \<open>The implicit conversion of a \<open>long\<close> to \<open>double\<close>: round to nearest, ties to even.\<close>

definition d_of_int :: "64 word \<Rightarrow> 64 word" where
  "d_of_int i =
     (let a = nat \<bar>sint i\<bar>; n = bitlen a in
      if a = 0 then 0
      else
        let m = (if n \<le> 53 then a * 2 ^ (53 - n)
                 else let sh = n - 53; q = a div 2 ^ sh; r = a mod 2 ^ sh; half = 2 ^ (sh - 1)
                      in if r > half \<or> r = half \<and> odd q then q + 1 else q)
        in word_of_nat ((n + 1021) * 2 ^ 52 + m)
           OR (if sint i < 0 then 0x8000000000000000 else 0))"

section \<open>Comparisons\<close>

text \<open>\<open>memcmp\<close> on the first \<open>n\<close> bytes: the sign of the result.\<close>

fun memcmp :: "bytes \<Rightarrow> bytes \<Rightarrow> nat \<Rightarrow> int" where
  "memcmp (a # as) (b # bs) (Suc n) =
     (if a < b then -1 else if b < a then 1 else memcmp as bs n)"
| "memcmp _ _ _ = 0"

definition numeric :: "content \<Rightarrow> bool" where
  "numeric c \<longleftrightarrow> cont_type c = 2 \<or> cont_type c = 3"

definition as_double :: "content \<Rightarrow> 64 word option" where
  "as_double c = (case c of CReal r \<Rightarrow> Some r | CInt i \<Rightarrow> Some (d_of_int i) | _ \<Rightarrow> None)"

definition cont_data :: "content \<Rightarrow> bytes" where
  "cont_data c = (case c of CString b \<Rightarrow> b | CData b \<Rightarrow> b | CLazy b \<Rightarrow> b | _ \<Rightarrow> [])"

definition content_eq :: "content \<Rightarrow> content \<Rightarrow> bool option" where
  "content_eq this c =
     (if (\<not> numeric c \<or> \<not> numeric this) \<and> cont_type c \<noteq> cont_type this then Some False
      else case this of
        CString a \<Rightarrow> Some (length a = length (cont_data c) \<and> memcmp (cont_data c) a (length a) = 0)
      | CData a \<Rightarrow> Some (length a = length (cont_data c) \<and> memcmp (cont_data c) a (length a) = 0)
      | CLazy a \<Rightarrow> Some (length a = length (cont_data c) \<and> memcmp (cont_data c) a (length a) = 0)
      | CEmpty \<Rightarrow> Some True
      | _ \<Rightarrow> do { v1 \<leftarrow> as_double this; v2 \<leftarrow> as_double c; Some (d_eq v1 v2) })"

definition content_greater :: "content \<Rightarrow> content \<Rightarrow> bool option" where
  "content_greater this c =
     (if (\<not> numeric c \<or> \<not> numeric this) \<and> cont_type c \<noteq> cont_type this
      then Some (cont_type this > cont_type c)
      else if cont_type this = 1 \<or> cont_type this = 4 then
        let a = cont_data this; b = cont_data c in
        Some (if length a < length b then memcmp a b (length a) > 0
              else memcmp a b (length b) \<ge> 0)
      else if cont_type this = 0 then Some False
      else do { v1 \<leftarrow> as_double this; v2 \<leftarrow> as_double c; Some (d_less v2 v1) })"

definition content_less :: "content \<Rightarrow> content \<Rightarrow> bool option" where
  "content_less this c =
     (if (\<not> numeric c \<or> \<not> numeric this) \<and> cont_type c \<noteq> cont_type this
      then Some (cont_type this < cont_type c)
      else if cont_type this = 1 \<or> cont_type this = 4 then
        let a = cont_data this; b = cont_data c in
        Some (if length a < length b then memcmp a b (length a) < 0
              else memcmp a b (length b) \<le> 0)
      else if cont_type this = 0 then Some False
      else do { v1 \<leftarrow> as_double this; v2 \<leftarrow> as_double c; Some (d_less v1 v2) })"

section \<open>Construction\<close>

text \<open>\<open>Content(const sc_string \&)\<close> and \<open>Content::string\<close> store the characters with a terminating
  zero; \<open>operator sc_string\<close> reads up to the first zero byte.\<close>

definition content_of_string :: "bytes \<Rightarrow> content" where
  "content_of_string s = CString (s @ [0])"

definition content_to_string :: "content \<Rightarrow> bytes" where
  "content_to_string c = (case c of CString b \<Rightarrow> takeWhile (\<lambda>x. x \<noteq> 0) b | _ \<Rightarrow> [])"

section \<open>Lemmas\<close>

lemma memcmp_refl [simp]: "memcmp a a n = 0"
proof (induction n arbitrary: a)
  case (Suc n)
  then show ?case by (cases a) auto
qed simp

lemma memcmp_eq: "length a = length b \<Longrightarrow> memcmp a b (length b) = 0 \<longleftrightarrow> a = b"
proof (induction a arbitrary: b)
  case (Cons x a)
  then show ?case by (cases b) auto
qed simp

lemma memcmp_same: "length a = length b \<and> memcmp b a (length a) = 0 \<longleftrightarrow> a = b"
  by (metis memcmp_eq)

lemma bitlen_num [simp]:
  "bitlen 0 = 0" "bitlen (numeral n) = Suc (bitlen (numeral n div 2))" "bitlen (Suc 0) = 1"
  by (simp_all add: bitlen.simps [of "numeral n"] bitlen.simps [of 0] bitlen.simps [of "Suc 0"])

lemma d_of_int_values:
  "d_of_int 9007199254740992 = 0x4340000000000000"
  "d_of_int 9007199254740993 = 0x4340000000000000"
  "d_of_int 9007199254740991 = 0x433FFFFFFFFFFFFF"
  "d_of_int 9007199254740990 = 0x433FFFFFFFFFFFFE"
  "d_of_int (- 3) = 0xC008000000000000"
  by (simp_all add: d_of_int_def Let_def)

lemma cont_type_cases:
  "cont_type c = 0 \<longleftrightarrow> c = CEmpty" "cont_type c = 1 \<longleftrightarrow> (\<exists>b. c = CString b)"
  "cont_type c = 2 \<longleftrightarrow> (\<exists>i. c = CInt i)" "cont_type c = 3 \<longleftrightarrow> (\<exists>r. c = CReal r)"
  "cont_type c = 4 \<longleftrightarrow> (\<exists>b. c = CData b)" "cont_type c = 5 \<longleftrightarrow> (\<exists>b. c = CLazy b)"
  by (cases c; simp)+

section \<open>Properties\<close>

text \<open>Equality of contents that are not both numbers never fails and is identity: same type
  and same bytes. A string built from characters without a zero byte reads back as it was.\<close>

theorem content_eq_identity:
  "(\<not> numeric c \<or> \<not> numeric d \<longrightarrow> content_eq c d = Some (c = d))
   \<and> (0 \<notin> set s \<longrightarrow> content_to_string (content_of_string s) = s)"
proof (intro conjI impI)
  assume "\<not> numeric c \<or> \<not> numeric d"
  then show "content_eq c d = Some (c = d)"
    by (cases c; cases d) (simp_all add: content_eq_def numeric_def cont_data_def memcmp_same)
next
  assume "0 \<notin> set s"
  then have "takeWhile (\<lambda>x. x \<noteq> 0) (s @ [0]) = s"
    by (induction s) auto
  then show "content_to_string (content_of_string s) = s"
    by (simp add: content_to_string_def content_of_string_def)
qed

theorem content_eq_identity_witness:
  "content_eq (CString [1, 0]) (CData [1, 0]) = Some False
   \<and> content_to_string (content_of_string [104, 105]) = [104, 105]"
  using content_eq_identity [of "CString [1, 0]" "CData [1, 0]" "[104, 105]"]
  by (simp add: numeric_def)

text \<open>\<open>operator==\<close> compares two integer contents as doubles, so integers that differ beyond the
  53 bits of a double are equal: \<open>2^53\<close> and \<open>2^53 + 1\<close>.\<close>

theorem content_eq_int_rounds:
  "content_eq (CInt 9007199254740992) (CInt 9007199254740993) = Some True
   \<and> content_less (CInt 9007199254740992) (CInt 9007199254740993) = Some False
   \<and> content_eq (CInt 9007199254740991) (CInt 9007199254740990) = Some False
   \<and> content_eq (CInt (- 3)) (CReal 0xC008000000000000) = Some True"
  by (simp add: content_eq_def content_less_def numeric_def as_double_def d_of_int_values
      d_eq_def d_less_def d_nan_def d_key_def d_magnitude_def del: of_int_numeral)

text \<open>The order operators are not strict on strings and data: such a content is less than itself
  and greater than itself, so \<open>operator<\<close> is no strict weak order for ordered containers.\<close>

theorem content_less_reflexive:
  "content_less (CString b) (CString b) = Some True
   \<and> content_greater (CString b) (CString b) = Some True
   \<and> content_less (CData b) (CData b) = Some True
   \<and> content_less CEmpty CEmpty = Some False"
  by (simp add: content_less_def content_greater_def numeric_def cont_data_def)

end
