(* ===== verification/Content_Index.thy ===== *)
theory Content_Index
  imports Sc_Content "HOL-Library.AList"
begin

text \<open>
  The index of elements by content (\<open>libsc/libsc/content_index.cpp\<close>, \<open>content_index_p.h\<close>): a map
  from the checksum of a content to the elements that carry it. The checksum \<open>md5_buffer\<close> is the
  vendored C library's and a parameter \<open>md5\<close> here; no two byte strings of the store share a
  checksum is the hypothesis \<open>inj md5\<close> of the theorem on searching. The signature of an element is
  a pointer to its key in the map, or null; the key itself stands for it.
\<close>

type_synonym 'sig cindex = "('sig \<times> nat list) list"

definition is_indexed_type :: "nat \<Rightarrow> bool" where
  "is_indexed_type t \<longleftrightarrow> t \<noteq> 0"

text \<open>The bytes of a number as they lie in memory (little endian).\<close>

definition le_bytes :: "64 word \<Rightarrow> bytes" where
  "le_bytes w = map (\<lambda>i. ucast (drop_bit (8 * i) w)) [0 ..< 8]"

definition content_bytes :: "content \<Rightarrow> bytes option" where
  "content_bytes c =
     (case c of
        CString b \<Rightarrow> Some b
      | CData b \<Rightarrow> Some b
      | CInt i \<Rightarrow> Some (le_bytes i)
      | CReal r \<Rightarrow> Some (le_bytes r)
      | _ \<Rightarrow> None)"

definition calc_signature :: "(bytes \<Rightarrow> 'sig) \<Rightarrow> content \<Rightarrow> 'sig option" where
  "calc_signature md5 c = map_option md5 (content_bytes c)"

definition ci_clear :: "nat \<Rightarrow> 'sig option \<Rightarrow> 'sig cindex \<Rightarrow> 'sig cindex option" where
  "ci_clear ll cur idx =
     (case cur of
        None \<Rightarrow> Some idx
      | Some s \<Rightarrow>
          (case map_of idx s of
             None \<Rightarrow> None
           | Some l \<Rightarrow>
               let l' = removeAll ll l in
               Some (if l' = [] then AList.delete s idx else AList.update s l' idx)))"

definition ci_update ::
  "(bytes \<Rightarrow> 'sig) \<Rightarrow> nat \<Rightarrow> 'sig option \<Rightarrow> content \<Rightarrow> 'sig cindex \<Rightarrow>
   ('sig cindex \<times> 'sig option) option" where
  "ci_update md5 ll cur c idx =
     do {
       idx \<leftarrow> ci_clear ll cur idx;
       if is_indexed_type (cont_type c) then
         do {
           s \<leftarrow> calc_signature md5 c;
           (case map_of idx s of
              Some l \<Rightarrow> Some (AList.update s (l @ [ll]) idx, Some s)
            | None \<Rightarrow> Some (AList.update s [ll] idx, Some s))
         }
       else Some (idx, None)
     }"

definition ci_find :: "(bytes \<Rightarrow> 'sig) \<Rightarrow> content \<Rightarrow> 'sig cindex \<Rightarrow> nat list option" where
  "ci_find md5 c idx =
     (if is_indexed_type (cont_type c) \<and> idx \<noteq> [] then
        do {
          s \<leftarrow> calc_signature md5 c;
          Some (case map_of idx s of Some l \<Rightarrow> l | None \<Rightarrow> [])
        }
      else Some [])"

section \<open>Invariant\<close>

text \<open>\<open>sg ll\<close> is the signature that element \<open>ll\<close> holds.\<close>

definition ci_inv :: "'sig cindex \<Rightarrow> (nat \<Rightarrow> 'sig option) \<Rightarrow> bool" where
  "ci_inv idx sg \<longleftrightarrow>
     (\<forall>s l. map_of idx s = Some l \<longrightarrow> l \<noteq> [] \<and> distinct l \<and> set l = {ll. sg ll = Some s}) \<and>
     (\<forall>ll s. sg ll = Some s \<longrightarrow> map_of idx s \<noteq> None)"

lemma ci_invD:
  assumes "ci_inv idx sg" "map_of idx s = Some l"
  shows "l \<noteq> []" "distinct l" "set l = {ll. sg ll = Some s}"
  using assms by (auto simp: ci_inv_def)

lemma ci_inv_present: "ci_inv idx sg \<Longrightarrow> sg ll = Some s \<Longrightarrow> \<exists>l. map_of idx s = Some l"
  by (auto simp: ci_inv_def)

lemma ci_bucket:
  assumes "ci_inv idx sg"
  shows "set (case map_of idx s of Some l \<Rightarrow> l | None \<Rightarrow> []) = {ll. sg ll = Some s}"
    and "distinct (case map_of idx s of Some l \<Rightarrow> l | None \<Rightarrow> [])"
proof -
  have "(\<forall>ll. sg ll \<noteq> Some s) \<or> (\<exists>l. map_of idx s = Some l)"
    using ci_inv_present [OF assms] by blast
  then have "set (case map_of idx s of Some l \<Rightarrow> l | None \<Rightarrow> []) = {ll. sg ll = Some s} \<and>
      distinct (case map_of idx s of Some l \<Rightarrow> l | None \<Rightarrow> [])"
    using ci_invD [OF assms, of s] by (cases "map_of idx s") auto
  then show "set (case map_of idx s of Some l \<Rightarrow> l | None \<Rightarrow> []) = {ll. sg ll = Some s}"
    and "distinct (case map_of idx s of Some l \<Rightarrow> l | None \<Rightarrow> [])" by auto
qed

lemma ci_inv_empty: "ci_inv [] (\<lambda>_. None)"
  by (simp add: ci_inv_def)

lemma ci_clear_inv:
  assumes "ci_inv idx sg"
  shows "\<exists>idx'. ci_clear ll (sg ll) idx = Some idx' \<and> ci_inv idx' (sg(ll := None))"
proof (cases "sg ll")
  case None
  then have "sg(ll := None) = sg" by auto
  with None assms show ?thesis by (simp add: ci_clear_def)
next
  case (Some s)
  then obtain l where l: "map_of idx s = Some l" using ci_inv_present [OF assms] by blast
  note inv = ci_invD [OF assms l]
  let ?idx = "if removeAll ll l = [] then AList.delete s idx else AList.update s (removeAll ll l) idx"
  have mo: "map_of ?idx t = (if t = s then if removeAll ll l = [] then None else Some (removeAll ll l)
      else map_of idx t)" for t
    by (auto simp: delete_conv' update_conv')
  have set: "set (removeAll ll l) = {x. (sg(ll := None)) x = Some s}"
    using inv(3) by auto
  have "ci_inv ?idx (sg(ll := None))"
    unfolding ci_inv_def
  proof (intro conjI allI impI)
    fix t l' assume t: "map_of ?idx t = Some l'"
    have "l' \<noteq> [] \<and> distinct l' \<and> set l' = {x. (sg(ll := None)) x = Some t}"
    proof (cases "t = s")
      case True
      then have "l' = removeAll ll l" "removeAll ll l \<noteq> []" using t mo by (auto split: if_splits)
      then show ?thesis using inv(2) set True by (simp add: distinct_removeAll)
    next
      case False
      then have t': "map_of idx t = Some l'" using t mo by simp
      from ci_invD [OF assms this] False Some show ?thesis by auto
    qed
    then show "l' \<noteq> []" "distinct l'" "set l' = {x. (sg(ll := None)) x = Some t}" by auto
  next
    fix x t assume x: "(sg(ll := None)) x = Some t"
    then have "sg x = Some t" "x \<noteq> ll" by (auto split: if_splits)
    then obtain m where m: "map_of idx t = Some m" using ci_inv_present [OF assms] by blast
    show "map_of ?idx t \<noteq> None"
    proof (cases "t = s")
      case True
      have "x \<in> set (removeAll ll l)" using set x True by simp
      then have "removeAll ll l \<noteq> []" by (metis empty_iff list.set(1))
      then show ?thesis using mo True by simp
    next
      case False
      then show ?thesis using mo m by simp
    qed
  qed
  then show ?thesis using Some l by (simp add: ci_clear_def Let_def)
qed

lemma ci_insert_inv:
  assumes "ci_inv idx sg" "sg ll = None"
  shows "ci_inv (AList.update s ((case map_of idx s of Some l \<Rightarrow> l | None \<Rightarrow> []) @ [ll]) idx)
    (sg(ll \<mapsto> s))"
proof -
  let ?l = "case map_of idx s of Some l \<Rightarrow> l | None \<Rightarrow> []"
  have old: "set ?l = {x. sg x = Some s}" "distinct ?l"
    using ci_bucket [OF assms(1)] by auto
  have ll: "ll \<notin> set ?l" using old(1) assms(2) by auto
  show ?thesis
    unfolding ci_inv_def update_conv'
  proof (intro conjI allI impI)
    fix t l' assume t: "((map_of idx)(s \<mapsto> ?l @ [ll])) t = Some l'"
    have "l' \<noteq> [] \<and> distinct l' \<and> set l' = {x. (sg(ll \<mapsto> s)) x = Some t}"
    proof (cases "t = s")
      case True
      with t have l': "l' = ?l @ [ll]" by simp
      have "set l' = insert ll {x. sg x = Some s}" unfolding l' set_append old(1) by auto
      then have "set l' = {x. (sg(ll \<mapsto> s)) x = Some t}" using True assms(2) by auto
      moreover have "distinct l'" unfolding l' using old(2) ll by simp
      ultimately show ?thesis unfolding l' by simp
    next
      case False
      then have t': "map_of idx t = Some l'" using t by simp
      from ci_invD [OF assms(1) this] False assms(2) show ?thesis by auto
    qed
    then show "l' \<noteq> []" "distinct l'" "set l' = {x. (sg(ll \<mapsto> s)) x = Some t}" by auto
  next
    fix x t assume "(sg(ll \<mapsto> s)) x = Some t"
    then show "((map_of idx)(s \<mapsto> ?l @ [ll])) t \<noteq> None"
      using ci_inv_present [OF assms(1), of x t] by (auto split: if_splits)
  qed
qed

lemma calc_signature_None: "calc_signature md5 c = None \<longleftrightarrow> cont_type c = 0 \<or> cont_type c = 5"
  by (cases c) (auto simp: calc_signature_def content_bytes_def)

lemma ci_update_eq:
  assumes "ci_clear ll cur idx = Some idx'" "calc_signature md5 c = Some s"
  shows "ci_update md5 ll cur c idx = Some (AList.update s
    ((case map_of idx' s of Some l \<Rightarrow> l | None \<Rightarrow> []) @ [ll]) idx', Some s)"
proof -
  have "cont_type c \<noteq> 0" using assms(2) calc_signature_None [of md5 c] by auto
  then show ?thesis
    using assms by (simp add: ci_update_def is_indexed_type_def split: option.split)
qed

lemma ci_update_inv:
  assumes "ci_inv idx sg" "cont_type c \<noteq> 5"
  shows "\<exists>idx'. ci_update md5 ll (sg ll) c idx = Some (idx', calc_signature md5 c)
    \<and> ci_inv idx' (sg(ll := calc_signature md5 c))"
proof -
  obtain idx1 where c1: "ci_clear ll (sg ll) idx = Some idx1" "ci_inv idx1 (sg(ll := None))"
    using ci_clear_inv [OF assms(1)] by blast
  show ?thesis
  proof (cases "calc_signature md5 c")
    case None
    then have "cont_type c = 0" using assms(2) by (simp add: calc_signature_None)
    then show ?thesis using c1 None by (simp add: ci_update_def is_indexed_type_def)
  next
    case (Some s)
    from ci_insert_inv [OF c1(2), of ll s] ci_update_eq [OF c1(1) Some] Some
    show ?thesis by simp
  qed
qed

section \<open>Properties\<close>

text \<open>C35. Updating the index for an element whose content becomes \<open>c\<close> keeps the index exact for
  every content but an unloaded (\<open>TCLAZY\<close>) one; for that the checksum routine aborts, although
  the index accepts its type as indexable.\<close>

theorem content_index_update_exact:
  assumes "ci_inv idx sg"
  shows "if cont_type c = 5 then ci_update md5 ll (sg ll) c idx = None
    else \<exists>idx'. ci_update md5 ll (sg ll) c idx = Some (idx', calc_signature md5 c)
      \<and> ci_inv idx' (sg(ll := calc_signature md5 c))"
proof (cases "cont_type c = 5")
  case True
  obtain idx1 where "ci_clear ll (sg ll) idx = Some idx1"
    using ci_clear_inv [OF assms] by blast
  moreover have "calc_signature md5 c = None" using True by (simp add: calc_signature_None)
  ultimately show ?thesis using True by (simp add: ci_update_def is_indexed_type_def)
next
  case False
  then show ?thesis using ci_update_inv [OF assms False] by simp
qed

theorem content_index_update_exact_witness:
  "\<exists>idx'. ci_update (\<lambda>b. b) 7 None (CData [1, 2]) [] = Some (idx', Some [1, 2])
     \<and> ci_update (\<lambda>b. b) 7 None (CLazy [1]) [] = None"
  using content_index_update_exact [OF ci_inv_empty, of "CData [1, 2]" "\<lambda>b. b" 7]
    content_index_update_exact [OF ci_inv_empty, of "CLazy [1]" "\<lambda>b. b" 7]
  by (auto simp: calc_signature_def content_bytes_def)

lemma ci_find_spec:
  assumes "ci_inv idx sg" "\<forall>ll. sg ll = calc_signature md5 (conts ll)" "content_bytes c = Some b"
  shows "\<exists>l. ci_find md5 c idx = Some l \<and> distinct l \<and>
    set l = {ll. \<exists>b'. content_bytes (conts ll) = Some b' \<and> md5 b' = md5 b} \<and>
    ((\<forall>ll b'. content_bytes (conts ll) = Some b' \<longrightarrow> md5 b' = md5 b \<longrightarrow> b' = b) \<longrightarrow>
      set l = {ll. content_bytes (conts ll) = Some b})"
proof -
  have ct: "cont_type c \<noteq> 0" using assms(3) by (cases c) (auto simp: content_bytes_def)
  have sig: "calc_signature md5 c = Some (md5 b)" using assms(3) by (simp add: calc_signature_def)
  have eq: "sg ll = Some (md5 b) \<longleftrightarrow> (\<exists>b'. content_bytes (conts ll) = Some b' \<and> md5 b' = md5 b)" for ll
    using assms(2) by (auto simp: calc_signature_def)
  let ?l = "case map_of idx (md5 b) of Some l \<Rightarrow> l | None \<Rightarrow> []"
  have find: "ci_find md5 c idx = Some ?l"
    using ct sig by (auto simp: ci_find_def is_indexed_type_def)
  have l: "distinct ?l" "set ?l = {ll. \<exists>b'. content_bytes (conts ll) = Some b' \<and> md5 b' = md5 b}"
    using ci_bucket [OF assms(1)] eq by auto
  have "set ?l = {ll. content_bytes (conts ll) = Some b}"
    if "\<forall>ll b'. content_bytes (conts ll) = Some b' \<longrightarrow> md5 b' = md5 b \<longrightarrow> b' = b"
    unfolding l(2) using that by blast
  then show ?thesis using find l by blast
qed

text \<open>C34. Searching by content returns, each once, exactly the elements whose content has bytes with
  the checksum of the given bytes, whatever function the checksum is. When the checksum tells the
  given bytes from those of all other contents in the index, these are exactly the elements with the
  same bytes. The type of the content takes no part in the checksum, so an integer is found by data
  that spells its bytes.\<close>

theorem content_index_find_exact:
  assumes "ci_inv idx sg" "\<forall>ll. sg ll = calc_signature md5 (conts ll)" "content_bytes c = Some b"
  shows "\<exists>l. ci_find md5 c idx = Some l \<and> distinct l \<and>
    set l = {ll. \<exists>b'. content_bytes (conts ll) = Some b' \<and> md5 b' = md5 b} \<and>
    ((\<forall>ll b'. content_bytes (conts ll) = Some b' \<longrightarrow> md5 b' = md5 b \<longrightarrow> b' = b) \<longrightarrow>
      set l = {ll. content_bytes (conts ll) = Some b})"
  by (rule ci_find_spec [OF assms])

text \<open>A checksum of at most 16 bytes, as the length of an MD5 is.\<close>

theorem content_index_find_exact_witness:
  "\<exists>idx. ci_update (take 16) 7 None (CInt 1) [] = Some (idx, Some [1, 0, 0, 0, 0, 0, 0, 0]) \<and>
     (\<exists>l. ci_find (take 16) (CData [1, 0, 0, 0, 0, 0, 0, 0]) idx = Some l \<and> set l = {7})"
proof -
  let ?b = "[1, 0, 0, 0, 0, 0, 0, 0] :: bytes"
  let ?conts = "(\<lambda>_. CEmpty)(7 := CInt 1)"
  have b: "content_bytes (CInt 1) = Some ?b"
    by (simp add: content_bytes_def le_bytes_def upt_rec)
  obtain idx where u: "ci_update (take 16) 7 None (CInt 1) [] = Some (idx, Some ?b)"
    and inv: "ci_inv idx ((\<lambda>_. None)(7 := Some ?b))"
    using ci_update_inv [OF ci_inv_empty, of "CInt 1" "take 16" 7] b
    by (auto simp: calc_signature_def)
  have sg: "\<forall>ll. ((\<lambda>_. None)(7 := Some ?b)) ll = calc_signature (take 16) (?conts ll)"
    using b by (auto simp: calc_signature_def content_bytes_def)
  have c: "content_bytes (CData ?b) = Some ?b" by (simp add: content_bytes_def)
  have e: "content_bytes CEmpty = None" by (simp add: content_bytes_def)
  have "\<forall>ll b'. content_bytes (?conts ll) = Some b' \<longrightarrow> take 16 b' = take 16 ?b \<longrightarrow> b' = ?b"
    and s: "{ll. content_bytes (?conts ll) = Some ?b} = {7}"
    using b e by auto
  then obtain l where "ci_find (take 16) (CData ?b) idx = Some l" "set l = {7}"
    using content_index_find_exact [OF inv sg c] unfolding s by blast
  then show ?thesis using u by blast
qed

end
