(* ===== verification/Event_Fifo.thy ===== *)
theory Event_Fifo
  imports Sc_Types Sc_Content
begin

text \<open>
  The stream of a segment's events (\<open>libsc/libsc/event_stream.h\<close>): a ring buffer of 32 reusable
  event structures with a sink that is fed when the buffer is full or when \<open>sync\<close> is called. A
  \<open>put\<close> fills only the fields of its event: the others keep what the slot held before. The sink is
  modelled by the list of structures it was given. Strings are \<open>string\<close>.
\<close>

datatype sc_event_type =
    SCEV_GENEL | SCEV_CREATELINK | SCEV_SETBEG | SCEV_SETEND | SCEV_SETIDTF | SCEV_ERASEEL
  | SCEV_SETCONT | SCEV_CHANGETYPE | SCEV_UNLINK

record event_struct =
  ev_type :: sc_event_type
  ev_idtf :: string
  ev_aux :: string
  ev_t :: sc_type
  ev_t2 :: sc_type
  ev_cont :: content

abbreviation fifo_size :: nat where
  "fifo_size \<equiv> 32"

record event_fifo =
  fifo :: "event_struct list"
  ff_head :: nat
  ff_tail :: nat
  ff_sink :: "event_struct list"

text \<open>The loop of \<open>__sync\<close> runs until the tail meets the head; the buffer's size is enough fuel.\<close>

fun ff_sync_loop :: "nat \<Rightarrow> event_fifo \<Rightarrow> event_fifo option" where
  "ff_sync_loop 0 q = None"
| "ff_sync_loop (Suc n) q =
     (let q' = q\<lparr>ff_sink := ff_sink q @ [fifo q ! ff_tail q],
                 ff_tail := (ff_tail q + 1) mod fifo_size\<rparr>
      in if ff_tail q' = ff_head q' then Some q' else ff_sync_loop n q')"

definition ff_sync_all :: "event_fifo \<Rightarrow> event_fifo option" where
  "ff_sync_all q = ff_sync_loop fifo_size q"

definition ff_sync :: "event_fifo \<Rightarrow> event_fifo option" where
  "ff_sync q = (if ff_tail q \<noteq> ff_head q then ff_sync_all q else Some q)"

text \<open>\<open>get_struct\<close>, the assignments to the structure, and \<open>release_struct\<close>.\<close>

definition ff_put :: "(event_struct \<Rightarrow> event_struct) \<Rightarrow> event_fifo \<Rightarrow> event_fifo option" where
  "ff_put f q =
     (let h = ff_head q;
          q = q\<lparr>ff_head := (h + 1) mod fifo_size, fifo := (fifo q)[h := f (fifo q ! h)]\<rparr>
      in if ff_head q = ff_tail q then ff_sync_all q else Some q)"

definition put_genel :: "string \<Rightarrow> sc_type \<Rightarrow> event_fifo \<Rightarrow> event_fifo option" where
  "put_genel idtf t = ff_put (\<lambda>e. e\<lparr>ev_type := SCEV_GENEL, ev_idtf := idtf, ev_t := t\<rparr>)"

definition put_create_link :: "string \<Rightarrow> event_fifo \<Rightarrow> event_fifo option" where
  "put_create_link idtf = ff_put (\<lambda>e. e\<lparr>ev_type := SCEV_CREATELINK, ev_idtf := idtf\<rparr>)"

definition put_erase_el :: "string \<Rightarrow> event_fifo \<Rightarrow> event_fifo option" where
  "put_erase_el idtf = ff_put (\<lambda>e. e\<lparr>ev_type := SCEV_ERASEEL, ev_idtf := idtf\<rparr>)"

definition put_setbeg :: "string \<Rightarrow> string \<Rightarrow> event_fifo \<Rightarrow> event_fifo option" where
  "put_setbeg idtf aux =
     ff_put (\<lambda>e. e\<lparr>ev_type := SCEV_SETBEG, ev_idtf := idtf, ev_aux := aux\<rparr>)"

definition put_setend :: "string \<Rightarrow> string \<Rightarrow> event_fifo \<Rightarrow> event_fifo option" where
  "put_setend idtf aux =
     ff_put (\<lambda>e. e\<lparr>ev_type := SCEV_SETEND, ev_idtf := idtf, ev_aux := aux\<rparr>)"

definition put_setidtf :: "string \<Rightarrow> string \<Rightarrow> event_fifo \<Rightarrow> event_fifo option" where
  "put_setidtf idtf aux =
     ff_put (\<lambda>e. e\<lparr>ev_type := SCEV_SETIDTF, ev_idtf := idtf, ev_aux := aux\<rparr>)"

definition put_setcont :: "string \<Rightarrow> content \<Rightarrow> event_fifo \<Rightarrow> event_fifo option" where
  "put_setcont idtf c =
     ff_put (\<lambda>e. e\<lparr>ev_type := SCEV_SETCONT, ev_idtf := idtf, ev_cont := c\<rparr>)"

definition put_unlink :: "event_fifo \<Rightarrow> event_fifo option" where
  "put_unlink = ff_put (\<lambda>e. e\<lparr>ev_type := SCEV_UNLINK\<rparr>)"

definition put_changetype :: "string \<Rightarrow> sc_type \<Rightarrow> sc_type \<Rightarrow> event_fifo \<Rightarrow> event_fifo option" where
  "put_changetype idtf t t2 =
     ff_put (\<lambda>e. e\<lparr>ev_type := SCEV_CHANGETYPE, ev_idtf := idtf, ev_t := t, ev_t2 := t2\<rparr>)"

text \<open>The constructor: the slots are default-built structures, whose plain fields are
  indeterminate (\<open>junk\<close>).\<close>

definition ff_new :: "event_struct \<Rightarrow> event_fifo" where
  "ff_new junk = \<lparr>fifo = replicate fifo_size junk, ff_head = 0, ff_tail = 0, ff_sink = []\<rparr>"

section \<open>The stream as a sequence of events\<close>

text \<open>Abstract view: an event with the fields that belong to its type.\<close>

datatype sc_event =
    Ev_genel string sc_type
  | Ev_create_link string
  | Ev_erase_el string
  | Ev_setbeg string string
  | Ev_setend string string
  | Ev_setidtf string string
  | Ev_setcont string content
  | Ev_unlink
  | Ev_changetype string sc_type sc_type

definition ev_read :: "event_struct \<Rightarrow> sc_event" where
  "ev_read e =
     (case ev_type e of
        SCEV_GENEL \<Rightarrow> Ev_genel (ev_idtf e) (ev_t e)
      | SCEV_CREATELINK \<Rightarrow> Ev_create_link (ev_idtf e)
      | SCEV_ERASEEL \<Rightarrow> Ev_erase_el (ev_idtf e)
      | SCEV_SETBEG \<Rightarrow> Ev_setbeg (ev_idtf e) (ev_aux e)
      | SCEV_SETEND \<Rightarrow> Ev_setend (ev_idtf e) (ev_aux e)
      | SCEV_SETIDTF \<Rightarrow> Ev_setidtf (ev_idtf e) (ev_aux e)
      | SCEV_SETCONT \<Rightarrow> Ev_setcont (ev_idtf e) (ev_cont e)
      | SCEV_UNLINK \<Rightarrow> Ev_unlink
      | SCEV_CHANGETYPE \<Rightarrow> Ev_changetype (ev_idtf e) (ev_t e) (ev_t2 e))"

primrec ff_event :: "sc_event \<Rightarrow> event_fifo \<Rightarrow> event_fifo option" where
  "ff_event (Ev_genel i t) = put_genel i t"
| "ff_event (Ev_create_link i) = put_create_link i"
| "ff_event (Ev_erase_el i) = put_erase_el i"
| "ff_event (Ev_setbeg i a) = put_setbeg i a"
| "ff_event (Ev_setend i a) = put_setend i a"
| "ff_event (Ev_setidtf i a) = put_setidtf i a"
| "ff_event (Ev_setcont i c) = put_setcont i c"
| "ff_event Ev_unlink = put_unlink"
| "ff_event (Ev_changetype i t t2) = put_changetype i t t2"

fun ff_run :: "sc_event list \<Rightarrow> event_fifo \<Rightarrow> event_fifo option" where
  "ff_run [] q = Some q"
| "ff_run (e # es) q = do { q \<leftarrow> ff_event e q; ff_run es q }"

definition ff_ok :: "event_fifo \<Rightarrow> bool" where
  "ff_ok q \<longleftrightarrow> length (fifo q) = fifo_size \<and> ff_head q < fifo_size \<and> ff_tail q < fifo_size"

definition ff_dist :: "event_fifo \<Rightarrow> nat" where
  "ff_dist q = (ff_head q + fifo_size - ff_tail q) mod fifo_size"

definition ff_slots :: "nat \<Rightarrow> event_fifo \<Rightarrow> event_struct list" where
  "ff_slots k q = map (\<lambda>i. fifo q ! ((ff_tail q + i) mod fifo_size)) [0 ..< k]"

definition ff_pending :: "event_fifo \<Rightarrow> event_struct list" where
  "ff_pending q = ff_slots (ff_dist q) q"

lemma ring_index_Suc:
  fixes t N :: nat
  shows "((t + 1) mod N + i) mod N = (t + Suc i) mod N"
  by (metis add.assoc mod_add_left_eq plus_1_eq_Suc)

lemma mod_add_self_dvd:
  fixes a k N :: nat
  shows "(a + k) mod N = a mod N \<Longrightarrow> N dvd k"
  by (metis diff_add_inverse le_add1 mod_eq_dvd_iff_nat)

lemma ring_slots_Suc:
  fixes t N :: nat
  assumes "t < N"
  shows "map (\<lambda>i. f ((t + i) mod N)) [0 ..< Suc k] =
    f t # map (\<lambda>i. f (((t + 1) mod N + i) mod N)) [0 ..< k]"
proof -
  have "[0 ..< Suc k] = 0 # map Suc [0 ..< k]"
    by (simp add: map_Suc_upt upt_conv_Cons del: upt_Suc)
  then show ?thesis
    using assms by (simp only: list.map map_map o_def ring_index_Suc) simp
qed

lemma ff_slots_Suc:
  assumes "ff_tail q < fifo_size"
  shows "ff_slots (Suc k) q = fifo q ! ff_tail q #
    ff_slots k (q\<lparr>ff_sink := s, ff_tail := (ff_tail q + 1) mod fifo_size\<rparr>)"
  using ring_slots_Suc [OF assms, of "(!) (fifo q)" k] by (simp only: ff_slots_def) simp

lemma ff_sync_loop_eq:
  assumes "ff_ok q" "(ff_tail q + k) mod fifo_size = ff_head q" "0 < k" "k \<le> fifo_size" "k \<le> n"
  shows "ff_sync_loop n q =
    Some (q\<lparr>ff_sink := ff_sink q @ ff_slots k q, ff_tail := ff_head q\<rparr>)"
  using assms
proof (induction k arbitrary: q n)
  case 0
  then show ?case by simp
next
  case (Suc k)
  obtain m where n: "n = Suc m" using Suc.prems(5) by (cases n) auto
  let ?q = "q\<lparr>ff_sink := ff_sink q @ [fifo q ! ff_tail q], ff_tail := (ff_tail q + 1) mod fifo_size\<rparr>"
  have tail: "ff_tail q < fifo_size" using Suc.prems(1) by (simp add: ff_ok_def)
  have step: "(ff_tail ?q + k) mod fifo_size = ff_head ?q"
    using Suc.prems(2) ring_index_Suc [of "ff_tail q" fifo_size k] by simp
  show ?case
  proof (cases k)
    case 0
    then have "ff_tail ?q = ff_head ?q" using Suc.prems(2) by simp
    then show ?thesis
      using n 0 tail by (simp add: ff_slots_def)
  next
    case (Suc j)
    have ne: "ff_tail ?q \<noteq> ff_head ?q"
    proof
      assume "ff_tail ?q = ff_head ?q"
      with step have "(ff_tail ?q + k) mod fifo_size = ff_tail ?q mod fifo_size" by simp
      then have "fifo_size dvd k" by (rule mod_add_self_dvd)
      then have "fifo_size \<le> k" using Suc by (intro dvd_imp_le) simp_all
      then show False using Suc.prems(4) by simp
    qed
    have "ff_ok ?q" using Suc.prems(1) by (simp add: ff_ok_def)
    moreover have "0 < k" "k \<le> fifo_size" "k \<le> m" using Suc.prems(4,5) Suc n by simp_all
    ultimately have "ff_sync_loop m ?q =
        Some (?q\<lparr>ff_sink := ff_sink ?q @ ff_slots k ?q, ff_tail := ff_head ?q\<rparr>)"
      using Suc.IH [OF _ step] by blast
    moreover have "ff_sync_loop n q = ff_sync_loop m ?q"
      using ne n by (simp only: ff_sync_loop.simps Let_def if_False)
    ultimately show ?thesis
      using ff_slots_Suc [OF tail, of k "ff_sink q @ [fifo q ! ff_tail q]"] by simp
  qed
qed

lemma ring_next:
  fixes t d N :: nat
  shows "(t + Suc d) mod N = ((t + d) mod N + 1) mod N"
  by (metis Suc_eq_plus1 add_Suc_right mod_Suc_eq)

lemma ring_index_le:
  fixes t i j N :: nat
  assumes "(t + i) mod N = (t + j) mod N" "i \<le> j" "j < N"
  shows "i = j"
proof -
  have "(t + i + (j - i)) mod N = (t + i) mod N" using assms(1,2) by simp
  then have "N dvd j - i" by (rule mod_add_self_dvd)
  then have "j - i = 0 \<or> N \<le> j - i" using dvd_imp_le by blast
  then show ?thesis using assms(2,3) by linarith
qed

lemma ring_index_inj:
  fixes t i j N :: nat
  assumes "(t + i) mod N = (t + j) mod N" "i < N" "j < N"
  shows "i = j"
  using ring_index_le [of t i N j] ring_index_le [of t j N i] assms by (cases "i \<le> j") auto

lemma ff_dist_spec:
  assumes "ff_ok q"
  shows "(ff_tail q + ff_dist q) mod fifo_size = ff_head q" "ff_dist q < fifo_size"
proof -
  have t: "ff_tail q < fifo_size" "ff_head q < fifo_size" using assms by (simp_all add: ff_ok_def)
  have "(ff_tail q + ff_dist q) mod fifo_size = (ff_tail q + (ff_head q + fifo_size - ff_tail q)) mod fifo_size"
    unfolding ff_dist_def by (rule mod_add_right_eq)
  also have "ff_tail q + (ff_head q + fifo_size - ff_tail q) = ff_head q + fifo_size" using t by linarith
  also have "(ff_head q + fifo_size) mod fifo_size = ff_head q" using t(2) by simp
  finally show "(ff_tail q + ff_dist q) mod fifo_size = ff_head q" .
  show "ff_dist q < fifo_size" by (simp add: ff_dist_def)
qed

lemma ff_dist_unique:
  assumes "ff_ok q" "(ff_tail q + k) mod fifo_size = ff_head q" "k < fifo_size"
  shows "ff_dist q = k"
  using ring_index_inj [of "ff_tail q" "ff_dist q" fifo_size k] ff_dist_spec [OF assms(1)] assms
  by simp

lemma ff_sync_all_eq:
  assumes "ff_ok q" "(ff_tail q + k) mod fifo_size = ff_head q" "0 < k" "k \<le> fifo_size"
  shows "ff_sync_all q = Some (q\<lparr>ff_sink := ff_sink q @ ff_slots k q, ff_tail := ff_head q\<rparr>)"
  unfolding ff_sync_all_def by (rule ff_sync_loop_eq [OF assms assms(4)])

lemma ff_pending_empty: "ff_tail q = ff_head q \<Longrightarrow> ff_ok q \<Longrightarrow> ff_pending q = []"
  by (simp add: ff_pending_def ff_dist_def ff_slots_def)

lemma ff_sync_spec:
  assumes "ff_ok q"
  shows "\<exists>q'. ff_sync q = Some q' \<and> ff_ok q' \<and> ff_pending q' = [] \<and>
    ff_sink q' = ff_sink q @ ff_pending q"
proof (cases "ff_tail q = ff_head q")
  case True
  then show ?thesis using assms ff_pending_empty [OF True assms]
    by (intro exI [of _ q]) (simp add: ff_sync_def)
next
  case False
  note d = ff_dist_spec [OF assms]
  have "0 < ff_dist q"
  proof (rule ccontr)
    assume "\<not> 0 < ff_dist q"
    then show False using d(1) False assms by (simp add: ff_ok_def)
  qed
  from ff_sync_all_eq [OF assms d(1) this] d(2) False assms show ?thesis
    by (simp add: ff_sync_def ff_pending_def ff_pending_empty ff_ok_def ff_dist_def ff_slots_def)
qed

lemma ff_put_spec:
  assumes "ff_ok q"
  shows "\<exists>q'. ff_put f q = Some q' \<and> ff_ok q' \<and>
    ff_sink q' @ ff_pending q' = ff_sink q @ ff_pending q @ [f (fifo q ! ff_head q)] \<and>
    (ff_dist q = fifo_size - 1 \<longrightarrow> ff_pending q' = [])"
proof -
  let ?h = "ff_head q" and ?d = "ff_dist q"
  let ?q = "q\<lparr>ff_head := (?h + 1) mod fifo_size, fifo := (fifo q)[?h := f (fifo q ! ?h)]\<rparr>"
  note d = ff_dist_spec [OF assms]
  have ok: "ff_ok ?q" using assms by (simp add: ff_ok_def)
  have len: "?h < length (fifo q)" using assms by (simp add: ff_ok_def)
  have other: "?h \<noteq> (ff_tail q + i) mod fifo_size" if "i < ?d" for i
    using ring_index_inj [of "ff_tail q" i fifo_size ?d] d that by auto
  have slots: "ff_slots (Suc ?d) ?q = ff_pending q @ [f (fifo q ! ?h)]"
    using d(1) len other by (simp add: ff_slots_def ff_pending_def)
  have head: "(ff_tail ?q + Suc ?d) mod fifo_size = ff_head ?q"
    using ring_next [of "ff_tail q" ?d fifo_size] d(1) by simp
  show ?thesis
  proof (cases "?d = fifo_size - 1")
    case True
    then have "ff_head ?q = ff_tail ?q" using head assms by (simp add: ff_ok_def)
    then have "ff_put f q = ff_sync_all ?q" by (simp add: ff_put_def Let_def)
    also have "\<dots> = Some (?q\<lparr>ff_sink := ff_sink ?q @ ff_slots (Suc ?d) ?q, ff_tail := ff_head ?q\<rparr>)"
      using True by (intro ff_sync_all_eq ok head) simp_all
    finally show ?thesis
      using slots ok by (simp add: ff_pending_empty ff_ok_def)
  next
    case False
    then have d': "Suc ?d < fifo_size" using d(2) by simp
    have "ff_dist ?q = Suc ?d" using ok head d' by (rule ff_dist_unique)
    moreover from this have "ff_head ?q \<noteq> ff_tail ?q"
      using ok by (auto simp: ff_dist_def)
    then have "ff_put f q = Some ?q" by (simp add: ff_put_def Let_def)
    ultimately show ?thesis
      using slots ok False by (simp add: ff_pending_def)
  qed
qed

lemmas ff_put_defs = put_genel_def put_create_link_def put_erase_el_def put_setbeg_def
  put_setend_def put_setidtf_def put_setcont_def put_unlink_def put_changetype_def

lemma ff_event_put: "\<exists>f. ff_event e = ff_put f \<and> (\<forall>s. ev_read (f s) = e)"
  by (cases e) (auto simp: ff_put_defs ev_read_def intro!: exI)

lemma ff_run_spec:
  "ff_ok q \<Longrightarrow> \<exists>q'. ff_run es q = Some q' \<and> ff_ok q' \<and>
     map ev_read (ff_sink q' @ ff_pending q') = map ev_read (ff_sink q @ ff_pending q) @ es"
proof (induction es arbitrary: q)
  case (Cons e es)
  obtain f where f: "ff_event e = ff_put f" "\<And>s. ev_read (f s) = e"
    using ff_event_put by blast
  obtain q1 where q1: "ff_put f q = Some q1" "ff_ok q1"
    "ff_sink q1 @ ff_pending q1 = ff_sink q @ ff_pending q @ [f (fifo q ! ff_head q)]"
    using ff_put_spec [OF Cons.prems, of f] by blast
  from Cons.IH [OF q1(2)] q1 f show ?case by auto
qed auto

section \<open>Properties\<close>

text \<open>C32. The stream is a bounded queue: whatever events are put into a new buffer, it never fails
  or overwrites an event that the sink has not seen; what the sink has received followed by at most
  31 pending events is the sequence of events put, in order and with their fields, and \<open>sync\<close>
  delivers all of them.\<close>

theorem event_fifo_in_order:
  "\<exists>q q'. ff_run es (ff_new junk) = Some q
    \<and> map ev_read (ff_sink q @ ff_pending q) = es \<and> length (ff_pending q) < fifo_size
    \<and> ff_sync q = Some q' \<and> map ev_read (ff_sink q') = es \<and> ff_pending q' = []"
proof -
  have new: "ff_ok (ff_new junk)" "ff_sink (ff_new junk) @ ff_pending (ff_new junk) = []"
    by (simp_all add: ff_ok_def ff_new_def ff_pending_def ff_slots_def ff_dist_def)
  obtain q where q: "ff_run es (ff_new junk) = Some q" "ff_ok q"
    "map ev_read (ff_sink q @ ff_pending q) = es"
    using ff_run_spec [OF new(1), of es] new(2) by auto
  obtain q' where "ff_sync q = Some q'" "ff_pending q' = []" "ff_sink q' = ff_sink q @ ff_pending q"
    using ff_sync_spec [OF q(2)] by blast
  moreover have "length (ff_pending q) < fifo_size"
    using ff_dist_spec(2) [OF q(2)] by (simp add: ff_pending_def ff_slots_def)
  ultimately show ?thesis using q by auto
qed

end
