(* ===== verification/Tmp_Segment.thy ===== *)
theory Tmp_Segment
  imports Sc_Types Content_Index Event_Fifo
begin

text \<open>
  The in-memory segment (\<open>libsc/libsc/tmp_segment.cpp\<close>, \<open>tmp_segment_p.h\<close>): the store of the
  elements with their types, ends, adjacency lists, identifiers and contents. Objects have numbers
  instead of addresses, \<open>0\<close> is the null pointer, and an access to an object that does not exist is
  \<open>None\<close>. The rings of elements and of element links are lists (theory \<open>List_Head\<close>): \<open>prepend\<close> on
  the head adds at the end, \<open>append\<close> on the head adds at the front. A segment object also carries
  the fields of its base classes (\<open>sc_segment.h\<close>, \<open>sc_segment_base_p.h\<close>). The checksum of the
  content index is the parameter \<open>md5\<close>.
\<close>

section \<open>Objects\<close>

record element_link =
  lk_value :: nat
  lk_refcnt :: int
  lk_dead :: bool

abbreviation TMP_LINK :: "8 word" where "TMP_LINK \<equiv> 1"
abbreviation TMP_MISSING_IDTF :: "8 word" where "TMP_MISSING_IDTF \<equiv> 2"

record element =
  el_in_qnt :: int
  el_out_qnt :: int
  el_addr :: nat
  el_type :: sc_type
  el_input :: "nat list"
  el_output :: "nat list"
  el_beg :: nat
  el_end :: nat
  el_beg_hint :: nat
  el_end_hint :: nat
  el_cont :: content
  el_sig :: "bytes option"
  el_idtf :: string
  el_flags :: "8 word"

definition new_element :: "sc_type \<Rightarrow> 8 word \<Rightarrow> element" where
  "new_element type flags =
     \<lparr>el_in_qnt = 0, el_out_qnt = 0, el_addr = 0, el_type = type, el_input = [], el_output = [],
      el_beg = 0, el_end = 0, el_beg_hint = 0, el_end_hint = 0, el_cont = CEmpty, el_sig = None,
      el_idtf = '''', el_flags = flags\<rparr>"

definition el_set_flags :: "8 word \<Rightarrow> element \<Rightarrow> element" where
  "el_set_flags fl e = e\<lparr>el_flags := el_flags e OR fl\<rparr>"

definition el_unset_flags :: "8 word \<Rightarrow> element \<Rightarrow> element" where
  "el_unset_flags fl e = e\<lparr>el_flags := el_flags e AND NOT fl\<rparr>"

definition el_has_idtf :: "element \<Rightarrow> bool" where
  "el_has_idtf e \<longleftrightarrow> el_flags e AND TMP_MISSING_IDTF \<noteq> TMP_MISSING_IDTF"

definition el_set_idtf :: "string \<Rightarrow> element \<Rightarrow> element" where
  "el_set_idtf str e = el_unset_flags TMP_MISSING_IDTF (e\<lparr>el_idtf := str\<rparr>)"

definition el_is_link :: "element \<Rightarrow> bool" where
  "el_is_link e \<longleftrightarrow> el_flags e AND TMP_LINK = TMP_LINK"

text \<open>The segment: its base class fields (\<open>sg_index\<close> is the slot in the segment table, \<open>sg_prefix\<close>
  the repository's \<open>current_tmp_prefix\<close>, \<open>sg_repo_uri\<close> the repository's URI) and its own.\<close>

record segment =
  sg_refcnt :: int
  sg_sign :: nat
  sg_index :: nat
  sg_dead :: bool
  sg_ring_0 :: bool
  sg_evstream :: "event_fifo option"
  sg_on_add :: "nat list"
  sg_on_remove :: "nat list"
  sg_uri :: string
  sg_repo_uri :: string
  sg_prefix :: string
  sg_list :: "nat list"
  sg_idtf_map :: "(string \<times> nat) list"
  sg_cindex :: "bytes cindex"

record store =
  st_els :: "nat \<Rightarrow> element option"
  st_links :: "nat \<Rightarrow> element_link option"
  st_segs :: "nat \<Rightarrow> segment option"
  st_fresh :: nat
  st_idtf_counter :: "32 word"

definition new_segment :: "nat \<Rightarrow> string \<Rightarrow> string \<Rightarrow> string \<Rightarrow> segment" where
  "new_segment index uri repo_uri prefix =
     \<lparr>sg_refcnt = 1, sg_sign = 0, sg_index = index, sg_dead = False, sg_ring_0 = False,
      sg_evstream = None, sg_on_add = [], sg_on_remove = [], sg_uri = uri, sg_repo_uri = repo_uri,
      sg_prefix = prefix, sg_list = [], sg_idtf_map = [], sg_cindex = []\<rparr>"

definition upd_el :: "nat \<Rightarrow> (element \<Rightarrow> element) \<Rightarrow> 'a store_scheme \<Rightarrow> 'a store_scheme option" where
  "upd_el a f st =
     do { e \<leftarrow> st_els st a; Some (st\<lparr>st_els := (st_els st)(a \<mapsto> f e)\<rparr>) }"

definition upd_seg :: "nat \<Rightarrow> (segment \<Rightarrow> segment) \<Rightarrow> 'a store_scheme \<Rightarrow> 'a store_scheme option" where
  "upd_seg s f st =
     do { g \<leftarrow> st_segs st s; Some (st\<lparr>st_segs := (st_segs st)(s \<mapsto> f g)\<rparr>) }"

section \<open>Adjacency lists\<close>

text \<open>A link object lies in the ring \<open>output\<close> (\<open>Beg\<close>) or \<open>input\<close> (\<open>End\<close>) of an element.\<close>

datatype side = Beg | End

definition adj :: "side \<Rightarrow> element \<Rightarrow> nat list" where
  "adj sd e = (case sd of Beg \<Rightarrow> el_output e | End \<Rightarrow> el_input e)"

definition adj_update :: "side \<Rightarrow> (nat list \<Rightarrow> nat list) \<Rightarrow> element \<Rightarrow> element" where
  "adj_update sd f e =
     (case sd of Beg \<Rightarrow> e\<lparr>el_output := f (el_output e)\<rparr> | End \<Rightarrow> e\<lparr>el_input := f (el_input e)\<rparr>)"

text \<open>\<open>remove(); delete this;\<close> of a link in a ring of element \<open>e\<close>.\<close>

definition link_delete :: "side \<Rightarrow> nat \<Rightarrow> nat \<Rightarrow> 'a store_scheme \<Rightarrow> 'a store_scheme option" where
  "link_delete sd e l st =
     upd_el e (adj_update sd (remove1 l)) (st\<lparr>st_links := (st_links st)(l := None)\<rparr>)"

definition link_ref :: "nat \<Rightarrow> 'a store_scheme \<Rightarrow> 'a store_scheme option" where
  "link_ref l st =
     do {
       k \<leftarrow> st_links st l;
       Some (st\<lparr>st_links := (st_links st)(l \<mapsto> k\<lparr>lk_refcnt := lk_refcnt k + 1\<rparr>)\<rparr>)
     }"

definition link_unref :: "side \<Rightarrow> nat \<Rightarrow> nat \<Rightarrow> 'a store_scheme \<Rightarrow> 'a store_scheme option" where
  "link_unref sd e l st =
     do {
       k \<leftarrow> st_links st l;
       if lk_refcnt k - 1 = 0 then link_delete sd e l st
       else Some (st\<lparr>st_links := (st_links st)(l \<mapsto> k\<lparr>lk_refcnt := lk_refcnt k - 1\<rparr>)\<rparr>)
     }"

definition link_die :: "side \<Rightarrow> nat \<Rightarrow> nat \<Rightarrow> 'a store_scheme \<Rightarrow> 'a store_scheme option" where
  "link_die sd e l st =
     do {
       k \<leftarrow> st_links st l;
       if lk_refcnt k - 1 = 0 then link_delete sd e l st
       else Some (st\<lparr>st_links := (st_links st)(l \<mapsto>
              k\<lparr>lk_refcnt := lk_refcnt k - 1, lk_dead := True\<rparr>)\<rparr>)
     }"

definition new_link :: "nat \<Rightarrow> 'a store_scheme \<Rightarrow> nat \<times> 'a store_scheme" where
  "new_link arc st =
     (st_fresh st,
      st\<lparr>st_links := (st_links st)(st_fresh st \<mapsto> \<lparr>lk_value = arc, lk_refcnt = 1, lk_dead = False\<rparr>),
         st_fresh := st_fresh st + 1\<rparr>)"

definition attach_input_arc :: "nat \<Rightarrow> nat \<Rightarrow> 'a store_scheme \<Rightarrow> 'a store_scheme option" where
  "attach_input_arc el arc st =
     do {
       st \<leftarrow> upd_el el (\<lambda>e. e\<lparr>el_in_qnt := el_in_qnt e + 1\<rparr>) st;
       let (link, st) = new_link arc st;
       st \<leftarrow> upd_el arc (\<lambda>e. e\<lparr>el_end_hint := link\<rparr>) st;
       upd_el el (\<lambda>e. e\<lparr>el_input := el_input e @ [link]\<rparr>) st
     }"

definition attach_output_arc :: "nat \<Rightarrow> nat \<Rightarrow> 'a store_scheme \<Rightarrow> 'a store_scheme option" where
  "attach_output_arc el arc st =
     do {
       st \<leftarrow> upd_el el (\<lambda>e. e\<lparr>el_out_qnt := el_out_qnt e + 1\<rparr>) st;
       let (link, st) = new_link arc st;
       st \<leftarrow> upd_el arc (\<lambda>e. e\<lparr>el_beg_hint := link\<rparr>) st;
       upd_el el (\<lambda>e. e\<lparr>el_output := el_output e @ [link]\<rparr>) st
     }"

definition detach_input_arc :: "nat \<Rightarrow> nat \<Rightarrow> 'a store_scheme \<Rightarrow> 'a store_scheme option" where
  "detach_input_arc el arc st =
     do {
       a \<leftarrow> st_els st arc;
       ensure (el_end a = el);
       st \<leftarrow> upd_el el (\<lambda>e. e\<lparr>el_in_qnt := el_in_qnt e - 1\<rparr>) st;
       link_die End el (el_end_hint a) st
     }"

definition detach_output_arc :: "nat \<Rightarrow> nat \<Rightarrow> 'a store_scheme \<Rightarrow> 'a store_scheme option" where
  "detach_output_arc el arc st =
     do {
       a \<leftarrow> st_els st arc;
       ensure (el_beg a = el);
       st \<leftarrow> upd_el el (\<lambda>e. e\<lparr>el_out_qnt := el_out_qnt e - 1\<rparr>) st;
       link_die Beg el (el_beg_hint a) st
     }"

section \<open>Elements\<close>

definition create_element :: "nat \<Rightarrow> sc_type \<Rightarrow> 'a store_scheme \<Rightarrow> (nat \<times> 'a store_scheme) option" where
  "create_element s type st =
     (let e = st_fresh st;
          st = st\<lparr>st_els := (st_els st)(e \<mapsto> new_element type TMP_MISSING_IDTF),
                  st_fresh := e + 1\<rparr>
      in do {
        st \<leftarrow> upd_seg s (\<lambda>g. g\<lparr>sg_list := sg_list g @ [e]\<rparr>) st;
        Some (e, st)
      })"

definition sg_gen_el :: "nat \<Rightarrow> sc_type \<Rightarrow> 'a store_scheme \<Rightarrow> (nat \<times> 'a store_scheme) option" where
  "sg_gen_el s type st = create_element s type st"

definition sg_get_in_qnt :: "nat \<Rightarrow> 'a store_scheme \<Rightarrow> int option" where
  "sg_get_in_qnt a st = map_option el_in_qnt (st_els st a)"

definition sg_get_out_qnt :: "nat \<Rightarrow> 'a store_scheme \<Rightarrow> int option" where
  "sg_get_out_qnt a st = map_option el_out_qnt (st_els st a)"

definition sg_get_type :: "nat \<Rightarrow> 'a store_scheme \<Rightarrow> sc_type option" where
  "sg_get_type a st =
     do { e \<leftarrow> st_els st a; ensure (\<not> el_is_link e); Some (el_type e) }"

definition sg_change_type :: "nat \<Rightarrow> sc_type \<Rightarrow> 'a store_scheme \<Rightarrow> (sc_retval \<times> 'a store_scheme) option" where
  "sg_change_type a type st =
     do {
       e \<leftarrow> st_els st a;
       ensure (\<not> el_is_link e);
       st \<leftarrow> upd_el a (\<lambda>e. e\<lparr>el_type := type\<rparr>) st;
       Some (RV_OK, st)
     }"

definition sg_is_link :: "nat \<Rightarrow> 'a store_scheme \<Rightarrow> bool option" where
  "sg_is_link a st = map_option el_is_link (st_els st a)"

definition sg_create_link :: "nat \<Rightarrow> string \<Rightarrow> 'a store_scheme \<Rightarrow> (nat \<times> 'a store_scheme) option" where
  "sg_create_link s target_uri st =
     (let e = st_fresh st;
          st = st\<lparr>st_els := (st_els st)(e \<mapsto> new_element SC_EMPTY TMP_LINK), st_fresh := e + 1\<rparr>
      in do {
        st \<leftarrow> upd_seg s (\<lambda>g. g\<lparr>sg_list := e # sg_list g\<rparr>) st;
        st \<leftarrow> upd_el e (\<lambda>x. x\<lparr>el_idtf := target_uri\<rparr>) st;
        Some (e, st)
      })"

definition sg_get_link_target :: "nat \<Rightarrow> 'a store_scheme \<Rightarrow> string option" where
  "sg_get_link_target a st =
     do { e \<leftarrow> st_els st a; ensure (el_is_link e); Some (el_idtf e) }"

definition sg_set_link_target :: "nat \<Rightarrow> string \<Rightarrow> 'a store_scheme \<Rightarrow> 'a store_scheme option" where
  "sg_set_link_target a uri st =
     do {
       e \<leftarrow> st_els st a;
       ensure (el_is_link e);
       upd_el a (\<lambda>e. e\<lparr>el_idtf := uri\<rparr>) st
     }"

definition sg_get_beg :: "nat \<Rightarrow> 'a store_scheme \<Rightarrow> nat option" where
  "sg_get_beg a st =
     do { e \<leftarrow> st_els st a; ensure (el_type e AND SC_CONNECTOR_MASK \<noteq> 0); Some (el_beg e) }"

definition sg_get_end :: "nat \<Rightarrow> 'a store_scheme \<Rightarrow> nat option" where
  "sg_get_end a st =
     do { e \<leftarrow> st_els st a; ensure (el_type e AND SC_CONNECTOR_MASK \<noteq> 0); Some (el_end e) }"

definition sg_set_beg :: "nat \<Rightarrow> nat \<Rightarrow> 'a store_scheme \<Rightarrow> (sc_retval \<times> 'a store_scheme) option" where
  "sg_set_beg addr beg st =
     do {
       a \<leftarrow> st_els st addr;
       st \<leftarrow> (if el_beg a \<noteq> 0 then detach_output_arc (el_beg a) addr st else Some st);
       st \<leftarrow> upd_el addr (\<lambda>e. e\<lparr>el_beg := 0, el_beg_hint := 0\<rparr>) st;
       st \<leftarrow> (if beg \<noteq> 0 then
                do {
                  st \<leftarrow> attach_output_arc beg addr st;
                  upd_el addr (\<lambda>e. e\<lparr>el_beg := beg\<rparr>) st
                }
              else Some st);
       Some (RV_OK, st)
     }"

definition sg_set_end :: "nat \<Rightarrow> nat \<Rightarrow> 'a store_scheme \<Rightarrow> (sc_retval \<times> 'a store_scheme) option" where
  "sg_set_end addr en st =
     do {
       a \<leftarrow> st_els st addr;
       st \<leftarrow> (if el_end a \<noteq> 0 then detach_input_arc (el_end a) addr st else Some st);
       st \<leftarrow> upd_el addr (\<lambda>e. e\<lparr>el_end := 0, el_end_hint := 0\<rparr>) st;
       st \<leftarrow> (if en \<noteq> 0 then
                do {
                  st \<leftarrow> attach_input_arc en addr st;
                  upd_el addr (\<lambda>e. e\<lparr>el_end := en\<rparr>) st
                }
              else Some st);
       Some (RV_OK, st)
     }"

definition sg_get_element_addr :: "nat \<Rightarrow> 'a store_scheme \<Rightarrow> nat option" where
  "sg_get_element_addr a st = map_option el_addr (st_els st a)"

definition sg_set_element_addr :: "nat \<Rightarrow> nat \<Rightarrow> 'a store_scheme \<Rightarrow> 'a store_scheme option" where
  "sg_set_element_addr a addr st = upd_el a (\<lambda>e. e\<lparr>el_addr := addr\<rparr>) st"

section \<open>Contents\<close>

definition update_cindex ::
  "(bytes \<Rightarrow> bytes) \<Rightarrow> nat \<Rightarrow> nat \<Rightarrow> 'a store_scheme \<Rightarrow> 'a store_scheme option" where
  "update_cindex md5 s a st =
     do {
       e \<leftarrow> st_els st a;
       g \<leftarrow> st_segs st s;
       (if cont_type (el_cont e) = 0 then
          do {
            idx \<leftarrow> ci_clear a (el_sig e) (sg_cindex g);
            st \<leftarrow> upd_seg s (\<lambda>g. g\<lparr>sg_cindex := idx\<rparr>) st;
            upd_el a (\<lambda>e. e\<lparr>el_sig := None\<rparr>) st
          }
        else
          do {
            (idx, sig) \<leftarrow> ci_update md5 a (el_sig e) (el_cont e) (sg_cindex g);
            st \<leftarrow> upd_seg s (\<lambda>g. g\<lparr>sg_cindex := idx\<rparr>) st;
            upd_el a (\<lambda>e. e\<lparr>el_sig := sig\<rparr>) st
          })
     }"

definition sg_get_content :: "nat \<Rightarrow> 'a store_scheme \<Rightarrow> content option" where
  "sg_get_content a st =
     do { e \<leftarrow> st_els st a; ensure (\<not> el_is_link e); Some (el_cont e) }"

definition sg_set_content ::
  "(bytes \<Rightarrow> bytes) \<Rightarrow> nat \<Rightarrow> nat \<Rightarrow> content \<Rightarrow> 'a store_scheme \<Rightarrow> (sc_retval \<times> 'a store_scheme) option" where
  "sg_set_content md5 s a c st =
     do {
       e \<leftarrow> st_els st a;
       ensure (\<not> el_is_link e);
       st \<leftarrow> upd_el a (\<lambda>e. e\<lparr>el_cont := c\<rparr>) st;
       st \<leftarrow> update_cindex md5 s a st;
       Some (RV_OK, st)
     }"

definition sg_erase_content ::
  "(bytes \<Rightarrow> bytes) \<Rightarrow> nat \<Rightarrow> nat \<Rightarrow> 'a store_scheme \<Rightarrow> (sc_retval \<times> 'a store_scheme) option" where
  "sg_erase_content md5 s a st =
     do {
       e \<leftarrow> st_els st a;
       ensure (\<not> el_is_link e);
       st \<leftarrow> upd_el a (\<lambda>e. e\<lparr>el_cont := CEmpty\<rparr>) st;
       st \<leftarrow> update_cindex md5 s a st;
       Some (RV_OK, st)
     }"

text \<open>The result is appended to the list the caller passes.\<close>

definition sg_find_by_content ::
  "(bytes \<Rightarrow> bytes) \<Rightarrow> nat \<Rightarrow> content \<Rightarrow> nat list \<Rightarrow> 'a store_scheme \<Rightarrow> (bool \<times> nat list) option" where
  "sg_find_by_content md5 s c result st =
     do {
       g \<leftarrow> st_segs st s;
       l \<leftarrow> ci_find md5 c (sg_cindex g);
       Some (if l = [] then (False, result) else (True, result @ l))
     }"

section \<open>Identifiers\<close>

definition register_idtf :: "string \<Rightarrow> nat \<Rightarrow> segment \<Rightarrow> bool \<times> segment" where
  "register_idtf idtf el g =
     (case map_of (sg_idtf_map g) idtf of
        Some _ \<Rightarrow> (False, g)
      | None \<Rightarrow> (True, g\<lparr>sg_idtf_map := AList.update idtf el (sg_idtf_map g)\<rparr>))"

definition deregister_idtf :: "string \<Rightarrow> segment \<Rightarrow> segment" where
  "deregister_idtf idtf g = g\<lparr>sg_idtf_map := AList.delete idtf (sg_idtf_map g)\<rparr>"

text \<open>\<open>snprintf\<close> with \<open>%x\<close>.\<close>

definition hex_digit :: "nat \<Rightarrow> char" where
  "hex_digit n = (if n < 10 then char_of (48 + n) else char_of (87 + n))"

fun hex_nat :: "nat \<Rightarrow> string" where
  "hex_nat n = (if n < 16 then [hex_digit n] else hex_nat (n div 16) @ [hex_digit (n mod 16)])"

declare hex_nat.simps [simp del]

definition generate_idtf :: "nat \<Rightarrow> nat \<Rightarrow> 'a store_scheme \<Rightarrow> 'a store_scheme option" where
  "generate_idtf s a st =
     do {
       g \<leftarrow> st_segs st s;
       let str = ''@@'' @ sg_prefix g @ ''@'' @ hex_nat (unat (st_idtf_counter st));
       let st = st\<lparr>st_idtf_counter := st_idtf_counter st + 1\<rparr>;
       let (ok, g) = register_idtf str a g;
       ensure ok;
       st \<leftarrow> upd_seg s (\<lambda>_. g) st;
       upd_el a (el_set_idtf str) st
     }"

definition sg_get_idtf :: "nat \<Rightarrow> nat \<Rightarrow> 'a store_scheme \<Rightarrow> (string \<times> 'a store_scheme) option" where
  "sg_get_idtf s a st =
     do {
       e \<leftarrow> st_els st a;
       ensure (\<not> el_is_link e);
       st \<leftarrow> (if \<not> el_has_idtf e then generate_idtf s a st else Some st);
       e \<leftarrow> st_els st a;
       Some (el_idtf e, st)
     }"

definition sg_has_erased_idtf :: "nat \<Rightarrow> 'a store_scheme \<Rightarrow> sc_retval option" where
  "sg_has_erased_idtf a st =
     do {
       e \<leftarrow> st_els st a;
       ensure (\<not> el_is_link e);
       Some (if \<not> el_has_idtf e then RV_OK else RV_ELSE_GEN)
     }"

definition sg_erase_idtf :: "nat \<Rightarrow> nat \<Rightarrow> 'a store_scheme \<Rightarrow> (sc_retval \<times> 'a store_scheme) option" where
  "sg_erase_idtf s a st =
     do {
       e \<leftarrow> st_els st a;
       ensure (\<not> el_is_link e);
       st \<leftarrow> (if el_has_idtf e then
                do {
                  st \<leftarrow> upd_seg s (deregister_idtf (el_idtf e)) st;
                  upd_el a (el_set_flags TMP_MISSING_IDTF) st
                }
              else Some st);
       Some (RV_OK, st)
     }"

definition sg_set_idtf ::
  "nat \<Rightarrow> nat \<Rightarrow> string \<Rightarrow> 'a store_scheme \<Rightarrow> (sc_retval \<times> 'a store_scheme) option" where
  "sg_set_idtf s a idtf st =
     do {
       e \<leftarrow> st_els st a;
       ensure (\<not> el_is_link e);
       g \<leftarrow> st_segs st s;
       (if idtf = '''' then sg_erase_idtf s a st
        else if el_has_idtf e \<and> el_idtf e = idtf then Some (RV_OK, st)
        else let (ok, g) = register_idtf idtf a g in
          if ok then
            let g = (if el_has_idtf e then deregister_idtf (el_idtf e) g else g) in
            do {
              st \<leftarrow> upd_seg s (\<lambda>_. g) st;
              st \<leftarrow> upd_el a (el_set_idtf idtf) st;
              Some (RV_OK, st)
            }
          else Some (RV_ERR_GEN, st))
     }"

definition sg_find_by_idtf :: "nat \<Rightarrow> string \<Rightarrow> 'a store_scheme \<Rightarrow> nat option" where
  "sg_find_by_idtf s idtf st =
     do {
       g \<leftarrow> st_segs st s;
       Some (case map_of (sg_idtf_map g) idtf of None \<Rightarrow> 0 | Some a \<Rightarrow> a)
     }"

text \<open>\<open>delete el\<close> takes the element out of the ring of its segment.\<close>

definition sg_erase_el :: "nat \<Rightarrow> nat \<Rightarrow> 'a store_scheme \<Rightarrow> 'a store_scheme option" where
  "sg_erase_el s a st =
     do {
       e \<leftarrow> st_els st a;
       st \<leftarrow> (if el_flags e AND (TMP_LINK OR TMP_MISSING_IDTF) = 0
              then upd_seg s (deregister_idtf (el_idtf e)) st else Some st);
       g \<leftarrow> st_segs st s;
       idx \<leftarrow> ci_clear a (el_sig e) (sg_cindex g);
       st \<leftarrow> upd_seg s (\<lambda>g. g\<lparr>sg_cindex := idx, sg_list := remove1 a (sg_list g)\<rparr>) st;
       Some (st\<lparr>st_els := (st_els st)(a := None)\<rparr>)
     }"

section \<open>Iterators over the elements of a segment\<close>

text \<open>The iterators hold the element they stand on, \<open>0\<close> for the head of the ring. The iterator over
  links stops at the first element that is no link. It asks \<open>is_link\<close> of the head of the ring too, which
  is no element: the read is outside the head.\<close>

fun ring_succ :: "nat list \<Rightarrow> nat \<Rightarrow> nat" where
  "ring_succ [] a = 0"
| "ring_succ (x # xs) a = (if x = a then (case xs of [] \<Rightarrow> 0 | y # _ \<Rightarrow> y) else ring_succ xs a)"

definition seg_iter_new :: "nat \<Rightarrow> 'a store_scheme \<Rightarrow> nat option" where
  "seg_iter_new s st =
     do { g \<leftarrow> st_segs st s; Some (case sg_list g of [] \<Rightarrow> 0 | a # _ \<Rightarrow> a) }"

definition seg_iter_next :: "nat \<Rightarrow> nat \<Rightarrow> 'a store_scheme \<Rightarrow> (nat \<times> nat) option" where
  "seg_iter_next s current st =
     (if current = 0 then Some (0, 0)
      else do { g \<leftarrow> st_segs st s; Some (current, ring_succ (sg_list g) current) })"

definition link_stop :: "nat \<Rightarrow> 'a store_scheme \<Rightarrow> nat option" where
  "link_stop current st =
     do { ensure (current \<noteq> 0); b \<leftarrow> sg_is_link current st; Some (if b then current else 0) }"

definition links_iter_new :: "nat \<Rightarrow> 'a store_scheme \<Rightarrow> nat option" where
  "links_iter_new s st = do { c \<leftarrow> seg_iter_new s st; link_stop c st }"

definition links_iter_next :: "nat \<Rightarrow> nat \<Rightarrow> 'a store_scheme \<Rightarrow> (nat \<times> nat) option" where
  "links_iter_next s current st =
     do {
       (rv, c) \<leftarrow> seg_iter_next s current st;
       if rv = 0 then Some (0, c) else do { c \<leftarrow> link_stop c st; Some (rv, c) }
     }"

end
