(* ===== verification/Segment_Adj.thy ===== *)
theory Segment_Adj
  imports Tmp_Segment
begin

text \<open>
  The adjacency structure of a store: every element keeps a list of link objects for its input arcs
  and one for its output arcs, every arc points at its two ends and at its two link objects, and
  every element counts its arcs. This theory states that structure once for both sides (\<open>Beg\<close> and
  output lists, \<open>End\<close> and input lists), first on plain functions, then on the store, and shows that
  \<open>set_beg\<close> and \<open>set_end\<close> keep it and what they do to the arcs of an element.
\<close>

section \<open>One side of the structure, as functions\<close>

text \<open>\<open>D\<close> elements, \<open>A e\<close> list of links, \<open>Q e\<close> counter, \<open>T a\<close> end of arc, \<open>H a\<close> its link, \<open>L\<close> links.\<close>

definition quiet_link :: "nat \<Rightarrow> element_link" where
  "quiet_link a = \<lparr>lk_value = a, lk_refcnt = 1, lk_dead = False\<rparr>"

definition adj_inv ::
  "(nat \<Rightarrow> bool) \<Rightarrow> (nat \<Rightarrow> nat list) \<Rightarrow> (nat \<Rightarrow> int) \<Rightarrow> (nat \<Rightarrow> nat) \<Rightarrow> (nat \<Rightarrow> nat) \<Rightarrow>
   (nat \<Rightarrow> element_link option) \<Rightarrow> bool" where
  "adj_inv D A Q T H L \<longleftrightarrow>
     (\<forall>e. distinct (A e) \<and> Q e = int (length (A e))) \<and>
     (\<forall>e l. l \<in> set (A e) \<longrightarrow> (\<exists>a. L l = Some (quiet_link a) \<and> T a = e \<and> H a = l)) \<and>
     (\<forall>a. T a \<noteq> 0 \<longrightarrow> D a \<and> D (T a) \<and> H a \<in> set (A (T a)) \<and> L (H a) = Some (quiet_link a)) \<and>
     (\<forall>e. \<not> D e \<longrightarrow> A e = []) \<and> \<not> D 0"

lemma adj_invD:
  assumes "adj_inv D A Q T H L"
  shows "distinct (A e)" "Q e = int (length (A e))"
    "l \<in> set (A e) \<Longrightarrow> \<exists>a. L l = Some (quiet_link a) \<and> T a = e \<and> H a = l"
    "T a \<noteq> 0 \<Longrightarrow> D a" "T a \<noteq> 0 \<Longrightarrow> D (T a)" "T a \<noteq> 0 \<Longrightarrow> H a \<in> set (A (T a))"
    "T a \<noteq> 0 \<Longrightarrow> L (H a) = Some (quiet_link a)" "\<not> D 0" "\<not> D e \<Longrightarrow> A e = []"
  using assms by (auto simp: adj_inv_def)

lemma quiet_link_inj [simp]: "quiet_link a = quiet_link b \<longleftrightarrow> a = b"
  by (simp add: quiet_link_def)

lemma adj_inv_pos:
  assumes "adj_inv D A Q T H L" "l \<in> set (A e)"
  shows "e \<noteq> 0"
proof
  assume "e = 0"
  with adj_invD(8) [OF assms(1)] adj_invD(9) [OF assms(1), of e] assms(2) show False by simp
qed

lemma adj_inv_detach:
  assumes inv: "adj_inv D A Q T H L" and T: "T a = e" "e \<noteq> 0"
  shows "adj_inv D (A(e := remove1 (H a) (A e))) (Q(e := Q e - 1)) (T(a := 0)) (H(a := 0)) (L(H a := None))"
proof -
  note I = adj_invD [OF inv]
  have a: "D a" "D e" "H a \<in> set (A e)" "L (H a) = Some (quiet_link a)"
    using I(4-7) [of a] T by auto
  have uniq: "H b = H a \<Longrightarrow> T b \<noteq> 0 \<Longrightarrow> b = a" for b
    using I(7) [of b] a(4) by (metis option.inject quiet_link_inj)
  have own: "H a \<in> set (A e') \<Longrightarrow> e' = e" for e'
    using I(3) [of "H a" e'] a(4) T(1) by (metis option.inject quiet_link_inj)
  show ?thesis
    unfolding adj_inv_def
  proof (intro conjI allI impI)
    fix e'
    show "distinct ((A(e := remove1 (H a) (A e))) e')" using I(1) by simp
    show "(Q(e := Q e - 1)) e' = int (length ((A(e := remove1 (H a) (A e))) e'))"
      using I(2) [of e'] a(3) length_pos_if_in_set [OF a(3)]
      by (cases "e' = e") (simp_all add: length_remove1 of_nat_diff Suc_leI)
  next
    fix e' l assume l: "l \<in> set ((A(e := remove1 (H a) (A e))) e')"
    have "l \<in> set (A e')" "l \<noteq> H a"
      using l I(1) own by (auto split: if_splits)
    then obtain b where b: "L l = Some (quiet_link b)" "T b = e'" "H b = l" using I(3) by blast
    then have "b \<noteq> a" using \<open>l \<noteq> H a\<close> by auto
    then show "\<exists>b. (L(H a := None)) l = Some (quiet_link b) \<and> (T(a := 0)) b = e' \<and> (H(a := 0)) b = l"
      using b \<open>l \<noteq> H a\<close> by auto
  next
    fix b assume b: "(T(a := 0)) b \<noteq> 0"
    then have "b \<noteq> a" "T b \<noteq> 0" by (auto split: if_splits)
    moreover from this have "H b \<noteq> H a" using uniq by blast
    ultimately show "D b" "D ((T(a := 0)) b)" "(L(H a := None)) ((H(a := 0)) b) = Some (quiet_link b)"
      "(H(a := 0)) b \<in> set ((A(e := remove1 (H a) (A e))) ((T(a := 0)) b))"
      using I(4-7) [of b] I(1) by auto
  next
    fix e' assume "\<not> D e'"
    then show "(A(e := remove1 (H a) (A e))) e' = []" using I(9) a(2) by auto
  next
    show "\<not> D 0" by (rule I(8))
  qed
qed

lemma adj_inv_attach:
  assumes inv: "adj_inv D A Q T H L" and T: "T a = 0" and x: "D x" "D a" and l: "L l = None"
  shows "adj_inv D (A(x := A x @ [l])) (Q(x := Q x + 1)) (T(a := x)) (H(a := l)) (L(l \<mapsto> quiet_link a))"
proof -
  note I = adj_invD [OF inv]
  have new: "l \<notin> set (A e)" for e using I(3) [of l e] l by auto
  have x0: "x \<noteq> 0" using x(1) I(8) by (cases "x = 0") auto
  show ?thesis
    unfolding adj_inv_def
  proof (intro conjI allI impI)
    fix e
    show "distinct ((A(x := A x @ [l])) e)" using I(1) new by simp
    show "(Q(x := Q x + 1)) e = int (length ((A(x := A x @ [l])) e))" using I(2) by simp
  next
    fix e k assume k: "k \<in> set ((A(x := A x @ [l])) e)"
    show "\<exists>b. (L(l \<mapsto> quiet_link a)) k = Some (quiet_link b) \<and> (T(a := x)) b = e \<and> (H(a := l)) b = k"
    proof (cases "k = l")
      case True
      then show ?thesis using k new by (auto split: if_splits)
    next
      case False
      then have "k \<in> set (A e)" using k by (auto split: if_splits)
      then obtain b where b: "L k = Some (quiet_link b)" "T b = e" "H b = k" using I(3) by blast
      have "b \<noteq> a"
        using b(2) T adj_inv_pos [OF inv \<open>k \<in> set (A e)\<close>] by auto
      then show ?thesis using b False by auto
    qed
  next
    fix b assume b: "(T(a := x)) b \<noteq> 0"
    have "b \<noteq> a \<Longrightarrow> H b \<noteq> l" using b I(7) [of b] l by auto
    then show "D b" "D ((T(a := x)) b)" "(L(l \<mapsto> quiet_link a)) ((H(a := l)) b) = Some (quiet_link b)"
      "(H(a := l)) b \<in> set ((A(x := A x @ [l])) ((T(a := x)) b))"
      using I(4-7) [of b] b x by (auto split: if_splits)
  next
    fix e assume "\<not> D e"
    then show "(A(x := A x @ [l])) e = []" using I(9) x by auto
  next
    show "\<not> D 0" by (rule I(8))
  qed
qed

text \<open>A change of the links that this side does not use.\<close>

lemma adj_inv_other:
  assumes "adj_inv D A Q T H L" "\<And>e l. l \<in> set (A e) \<Longrightarrow> L' l = L l"
  shows "adj_inv D A Q T H L'"
  using assms(1) adj_invD(6) [OF assms(1)] assms(2) unfolding adj_inv_def by simp metis

lemma adj_inv_new:
  assumes "adj_inv D A Q T H L" "\<not> D n" "n \<noteq> 0" "T n = 0"
  shows "adj_inv (D(n := True)) A Q T H L"
  using assms unfolding adj_inv_def by auto

lemma adj_inv_delete:
  assumes "adj_inv D A Q T H L" "A n = []" "T n = 0"
  shows "adj_inv (D(n := False)) A Q T H L"
proof -
  have "T a \<noteq> 0 \<Longrightarrow> a \<noteq> n \<and> T a \<noteq> n" for a
    using adj_invD(6) [OF assms(1), of a] assms(2,3) by auto
  with assms show ?thesis unfolding adj_inv_def by auto
qed

lemma adj_inv_hint:
  assumes inv: "adj_inv D A Q T H L" and T: "T a = 0"
  shows "adj_inv D A Q T (H(a := h)) L"
  unfolding adj_inv_def
proof (intro conjI allI impI)
  note I = adj_invD [OF inv]
  fix e l assume l: "l \<in> set (A e)"
  then obtain b where b: "L l = Some (quiet_link b)" "T b = e" "H b = l"
    using I(3) by blast
  have "b \<noteq> a" using b(2) T adj_inv_pos [OF inv l] by auto
  then show "\<exists>b. L l = Some (quiet_link b) \<and> T b = e \<and> (H(a := h)) b = l"
    using b by (intro exI [of _ b]) simp
next
  fix b assume b: "T b \<noteq> 0"
  then have "b \<noteq> a" using T by auto
  then show "D b" "D (T b)" "(H(a := h)) b \<in> set (A (T b))" "L ((H(a := h)) b) = Some (quiet_link b)"
    using adj_invD(4-7) [OF inv b] by auto
qed (use adj_invD [OF inv] in auto)

text \<open>The arcs of an element on this side, in the order of its list.\<close>

definition adj_arcs :: "(nat \<Rightarrow> nat list) \<Rightarrow> (nat \<Rightarrow> element_link option) \<Rightarrow> nat \<Rightarrow> nat list" where
  "adj_arcs A L e = map (\<lambda>l. case L l of Some k \<Rightarrow> lk_value k | None \<Rightarrow> 0) (A e)"

lemma adj_arcs_set:
  assumes "adj_inv D A Q T H L" "e \<noteq> 0"
  shows "set (adj_arcs A L e) = {a. T a = e}" and "distinct (adj_arcs A L e)"
proof -
  note I = adj_invD [OF assms(1)]
  show "set (adj_arcs A L e) = {a. T a = e}"
  proof (intro subset_antisym subsetI)
    fix a assume "a \<in> set (adj_arcs A L e)"
    then obtain l where "l \<in> set (A e)" "a = (case L l of Some k \<Rightarrow> lk_value k | None \<Rightarrow> 0)"
      by (auto simp: adj_arcs_def)
    with I(3) [of l e] show "a \<in> {a. T a = e}" by (auto simp: quiet_link_def)
  next
    fix a assume "a \<in> {a. T a = e}"
    with I(6,7) [of a] assms(2) have "H a \<in> set (A e)" "L (H a) = Some (quiet_link a)" by auto
    then show "a \<in> set (adj_arcs A L e)"
      unfolding adj_arcs_def by (force simp: quiet_link_def)
  qed
  show "distinct (adj_arcs A L e)"
    unfolding adj_arcs_def distinct_map
  proof (intro conjI inj_onI)
    show "distinct (A e)" by (rule I(1))
    fix k l assume k: "k \<in> set (A e)" and l: "l \<in> set (A e)"
      and eq: "(case L k of Some k \<Rightarrow> lk_value k | None \<Rightarrow> 0) = (case L l of Some k \<Rightarrow> lk_value k | None \<Rightarrow> 0)"
    obtain a where a: "L k = Some (quiet_link a)" "H a = k" using I(3) [OF k] by blast
    obtain b where b: "L l = Some (quiet_link b)" "H b = l" using I(3) [OF l] by blast
    have "a = b" using eq a(1) b(1) by (simp add: quiet_link_def)
    then show "k = l" using a(2) b(2) by simp
  qed
qed

section \<open>The store\<close>

definition vD :: "'a store_scheme \<Rightarrow> nat \<Rightarrow> bool" where
  "vD st a \<longleftrightarrow> st_els st a \<noteq> None"

definition vA :: "side \<Rightarrow> 'a store_scheme \<Rightarrow> nat \<Rightarrow> nat list" where
  "vA sd st a = (case st_els st a of None \<Rightarrow> [] | Some x \<Rightarrow> adj sd x)"

definition vQ :: "side \<Rightarrow> 'a store_scheme \<Rightarrow> nat \<Rightarrow> int" where
  "vQ sd st a = (case st_els st a of None \<Rightarrow> 0 | Some x \<Rightarrow>
     (case sd of Beg \<Rightarrow> el_out_qnt x | End \<Rightarrow> el_in_qnt x))"

definition vT :: "side \<Rightarrow> 'a store_scheme \<Rightarrow> nat \<Rightarrow> nat" where
  "vT sd st a = (case st_els st a of None \<Rightarrow> 0 | Some x \<Rightarrow>
     (case sd of Beg \<Rightarrow> el_beg x | End \<Rightarrow> el_end x))"

definition vH :: "side \<Rightarrow> 'a store_scheme \<Rightarrow> nat \<Rightarrow> nat" where
  "vH sd st a = (case st_els st a of None \<Rightarrow> 0 | Some x \<Rightarrow>
     (case sd of Beg \<Rightarrow> el_beg_hint x | End \<Rightarrow> el_end_hint x))"

definition el_core :: "element \<Rightarrow> nat \<times> sc_type \<times> content \<times> bytes option \<times> string \<times> 8 word" where
  "el_core e = (el_addr e, el_type e, el_cont e, el_sig e, el_idtf e, el_flags e)"

definition vC :: "'a store_scheme \<Rightarrow> nat \<Rightarrow> (nat \<times> sc_type \<times> content \<times> bytes option \<times> string \<times> 8 word) option" where
  "vC st a = map_option el_core (st_els st a)"

lemmas view_defs = vD_def vA_def vQ_def vT_def vH_def vC_def

definition adj_ok :: "side \<Rightarrow> 'a store_scheme \<Rightarrow> bool" where
  "adj_ok sd st \<longleftrightarrow> adj_inv (vD st) (vA sd st) (vQ sd st) (vT sd st) (vH sd st) (st_links st)"

definition fresh_ok :: "'a store_scheme \<Rightarrow> bool" where
  "fresh_ok st \<longleftrightarrow> 0 < st_fresh st \<and>
     (\<forall>n \<ge> st_fresh st. st_els st n = None \<and> st_links st n = None)"

definition store_adj :: "'a store_scheme \<Rightarrow> bool" where
  "store_adj st \<longleftrightarrow> adj_ok Beg st \<and> adj_ok End st \<and> fresh_ok st \<and>
     (\<forall>e e' l. l \<in> set (vA Beg st e) \<longrightarrow> l \<notin> set (vA End st e'))"

primrec other :: "side \<Rightarrow> side" where
  "other Beg = End"
| "other End = Beg"

lemma store_adjD:
  assumes "store_adj st"
  shows "adj_ok sd st" "adj_ok (other sd) st" "fresh_ok st"
    "l \<in> set (vA sd st e) \<Longrightarrow> l \<notin> set (vA (other sd) st e')"
  using assms by (cases sd; auto simp: store_adj_def)+

lemma store_adjI:
  assumes "adj_ok sd st" "adj_ok (other sd) st" "fresh_ok st"
    "\<And>e e' l. l \<in> set (vA sd st e) \<Longrightarrow> l \<notin> set (vA (other sd) st e')"
  shows "store_adj st"
  using assms by (cases sd) (auto simp: store_adj_def)

section \<open>Attaching and detaching\<close>

definition attach :: "side \<Rightarrow> nat \<Rightarrow> nat \<Rightarrow> 'a store_scheme \<Rightarrow> 'a store_scheme option" where
  "attach sd = (case sd of Beg \<Rightarrow> attach_output_arc | End \<Rightarrow> attach_input_arc)"

definition detach :: "side \<Rightarrow> nat \<Rightarrow> nat \<Rightarrow> 'a store_scheme \<Rightarrow> 'a store_scheme option" where
  "detach sd = (case sd of Beg \<Rightarrow> detach_output_arc | End \<Rightarrow> detach_input_arc)"

definition clear_end :: "side \<Rightarrow> element \<Rightarrow> element" where
  "clear_end sd e = (case sd of Beg \<Rightarrow> e\<lparr>el_beg := 0, el_beg_hint := 0\<rparr>
     | End \<Rightarrow> e\<lparr>el_end := 0, el_end_hint := 0\<rparr>)"

definition set_end_field :: "side \<Rightarrow> nat \<Rightarrow> element \<Rightarrow> element" where
  "set_end_field sd x e = (case sd of Beg \<Rightarrow> e\<lparr>el_beg := x\<rparr> | End \<Rightarrow> e\<lparr>el_end := x\<rparr>)"

definition set_at :: "side \<Rightarrow> nat \<Rightarrow> nat \<Rightarrow> 'a store_scheme \<Rightarrow> (sc_retval \<times> 'a store_scheme) option" where
  "set_at sd addr x st =
     do {
       a \<leftarrow> st_els st addr;
       st \<leftarrow> (if vT sd st addr \<noteq> 0 then detach sd (vT sd st addr) addr st else Some st);
       st \<leftarrow> upd_el addr (clear_end sd) st;
       st \<leftarrow> (if x \<noteq> 0 then
                do {
                  st \<leftarrow> attach sd x addr st;
                  upd_el addr (set_end_field sd x) st
                }
              else Some st);
       Some (RV_OK, st)
     }"

lemma side_fields:
  "clear_end Beg = (\<lambda>e. e\<lparr>el_beg := 0, el_beg_hint := 0\<rparr>)"
  "clear_end End = (\<lambda>e. e\<lparr>el_end := 0, el_end_hint := 0\<rparr>)"
  "set_end_field Beg x = (\<lambda>e. e\<lparr>el_beg := x\<rparr>)"
  "set_end_field End x = (\<lambda>e. e\<lparr>el_end := x\<rparr>)"
  "attach Beg = attach_output_arc" "attach End = attach_input_arc"
  "detach Beg = detach_output_arc" "detach End = detach_input_arc"
  by (simp_all add: clear_end_def set_end_field_def attach_def detach_def fun_eq_iff)

lemma sg_set_beg_at: "sg_set_beg addr x st = set_at Beg addr x st"
  by (cases "st_els st addr")
    (simp_all add: sg_set_beg_def set_at_def vT_def side_fields cong: if_cong)

lemma sg_set_end_at: "sg_set_end addr x st = set_at End addr x st"
  by (cases "st_els st addr")
    (simp_all add: sg_set_end_def set_at_def vT_def side_fields cong: if_cong)

lemma upd_el_Some: "st_els st a = Some e \<Longrightarrow> upd_el a f st = Some (st\<lparr>st_els := (st_els st)(a \<mapsto> f e)\<rparr>)"
  by (simp add: upd_el_def)

lemmas attach_defs = attach_output_arc_def attach_input_arc_def new_link_def upd_el_def Let_def

text \<open>What the other side and the rest of the elements see of an operation on one side.\<close>

definition same_rest :: "side \<Rightarrow> 'a store_scheme \<Rightarrow> 'a store_scheme \<Rightarrow> bool" where
  "same_rest sd st st' \<longleftrightarrow> vD st' = vD st \<and> vC st' = vC st \<and> st_segs st' = st_segs st \<and>
     vA (other sd) st' = vA (other sd) st \<and> vQ (other sd) st' = vQ (other sd) st \<and>
     vT (other sd) st' = vT (other sd) st \<and> vH (other sd) st' = vH (other sd) st"

definition step_views where
  "step_views sd st st' A Q T H L f \<longleftrightarrow> same_rest sd st st' \<and> vA sd st' = A \<and> vQ sd st' = Q \<and>
     vT sd st' = T \<and> vH sd st' = H \<and> st_links st' = L \<and> st_fresh st' = f"

lemma same_rest_trans: "same_rest sd a b \<Longrightarrow> same_rest sd b c \<Longrightarrow> same_rest sd a c"
  by (simp add: same_rest_def)

lemma step_views_refl:
  "step_views sd st st (vA sd st) (vQ sd st) (vT sd st) (vH sd st) (st_links st) (st_fresh st)"
  by (simp add: step_views_def same_rest_def)

lemma step_views_trans:
  "step_views sd st st' A Q T H L f \<Longrightarrow> step_views sd st' st'' A' Q' T' H' L' f' \<Longrightarrow>
   step_views sd st st'' A' Q' T' H' L' f'"
  by (simp add: step_views_def same_rest_def)

lemma step_viewsD:
  assumes "step_views sd st st' A Q T H L f"
  shows "vA sd st' = A" "vQ sd st' = Q" "vT sd st' = T" "vH sd st' = H" "st_links st' = L"
    "st_fresh st' = f" "same_rest sd st st'" "vD st' = vD st"
  using assms by (simp_all add: step_views_def same_rest_def)

lemma attach_views:
  assumes "vD st el" "vD st arc"
  shows "\<exists>st'. attach sd el arc st = Some st' \<and> step_views sd st st'
    ((vA sd st)(el := vA sd st el @ [st_fresh st])) ((vQ sd st)(el := vQ sd st el + 1))
    (vT sd st) ((vH sd st)(arc := st_fresh st)) ((st_links st)(st_fresh st \<mapsto> quiet_link arc))
    (st_fresh st + 1)"
proof -
  obtain e a where e: "st_els st el = Some e" "st_els st arc = Some a"
    using assms by (auto simp: vD_def)
  show ?thesis
    unfolding step_views_def same_rest_def
    using e
    by (cases sd; cases "el = arc")
      (auto simp: side_fields attach_defs view_defs adj_def el_core_def quiet_link_def fun_eq_iff
        split: option.split)
qed

lemma detach_views:
  assumes "vT sd st arc = el" "vD st el" "vD st arc" "st_links st (vH sd st arc) = Some (quiet_link arc)"
  shows "\<exists>st'. detach sd el arc st = Some st' \<and> step_views sd st st'
    ((vA sd st)(el := remove1 (vH sd st arc) (vA sd st el))) ((vQ sd st)(el := vQ sd st el - 1))
    (vT sd st) (vH sd st) ((st_links st)(vH sd st arc := None)) (st_fresh st)"
proof -
  obtain e a where e: "st_els st el = Some e" "st_els st arc = Some a"
    using assms by (auto simp: vD_def)
  show ?thesis
    unfolding step_views_def same_rest_def
    using e assms
    by (cases sd; cases "el = arc")
      (auto simp: side_fields detach_output_arc_def detach_input_arc_def link_die_def link_delete_def
        upd_el_def view_defs adj_def adj_update_def el_core_def quiet_link_def fun_eq_iff
        split: option.split)
qed

lemma upd_clear_views:
  assumes "vD st a"
  shows "\<exists>st'. upd_el a (clear_end sd) st = Some st' \<and> step_views sd st st'
    (vA sd st) (vQ sd st) ((vT sd st)(a := 0)) ((vH sd st)(a := 0)) (st_links st) (st_fresh st)"
proof -
  obtain e where e: "st_els st a = Some e" using assms by (auto simp: vD_def)
  show ?thesis
    unfolding step_views_def same_rest_def
    using e by (cases sd) (auto simp: upd_el_def view_defs adj_def el_core_def clear_end_def fun_eq_iff)
qed

lemma upd_set_views:
  assumes "vD st a"
  shows "\<exists>st'. upd_el a (set_end_field sd x) st = Some st' \<and> step_views sd st st'
    (vA sd st) (vQ sd st) ((vT sd st)(a := x)) (vH sd st) (st_links st) (st_fresh st)"
proof -
  obtain e where e: "st_els st a = Some e" using assms by (auto simp: vD_def)
  show ?thesis
    unfolding step_views_def same_rest_def
    using e by (cases sd) (auto simp: upd_el_def view_defs adj_def el_core_def set_end_field_def fun_eq_iff)
qed

lemma fresh_ok_vD: "fresh_ok st \<longleftrightarrow> 0 < st_fresh st \<and>
    (\<forall>n \<ge> st_fresh st. \<not> vD st n \<and> st_links st n = None)"
  by (simp add: fresh_ok_def vD_def)

lemma adj_okD:
  "store_adj st \<Longrightarrow> adj_inv (vD st) (vA sd st) (vQ sd st) (vT sd st) (vH sd st) (st_links st)"
  using store_adjD(1) [of st sd] by (simp add: adj_ok_def)

text \<open>An operation on one side keeps the structure of the store when it keeps that side's, does not
  touch links of the other side, and takes link numbers from the fresh ones.\<close>

lemma store_adj_step:
  assumes st: "store_adj st" and v: "step_views sd st st' A Q T H L f"
    and inv: "adj_inv (vD st) A Q T H L"
    and L: "\<And>e l. l \<in> set (vA (other sd) st e) \<Longrightarrow> L l = st_links st l"
    and disj: "\<And>e e' l. l \<in> set (A e) \<Longrightarrow> l \<notin> set (vA (other sd) st e')"
    and f: "0 < f" "\<And>n. f \<le> n \<Longrightarrow> \<not> vD st n \<and> L n = None"
  shows "store_adj st'"
proof (rule store_adjI [of sd])
  note D = step_viewsD [OF v]
  note R = D(7) [unfolded same_rest_def]
  show "adj_ok sd st'" unfolding adj_ok_def D(1-5,8) by (rule inv)
  have "adj_inv (vD st) (vA (other sd) st) (vQ (other sd) st) (vT (other sd) st) (vH (other sd) st) L"
    using adj_okD [OF st] L by (rule adj_inv_other)
  then show "adj_ok (other sd) st'" unfolding adj_ok_def using R D(5) by simp
  show "fresh_ok st'" unfolding fresh_ok_vD D(5,6,8) using f by blast
  show "l \<notin> set (vA (other sd) st' e')" if "l \<in> set (vA sd st' e)" for e e' l
    using disj that R D(1) by simp
qed

definition arcs :: "side \<Rightarrow> 'a store_scheme \<Rightarrow> nat \<Rightarrow> nat list" where
  "arcs sd st e = adj_arcs (vA sd st) (st_links st) e"

lemma arcs_set:
  "store_adj st \<Longrightarrow> e \<noteq> 0 \<Longrightarrow> set (arcs sd st e) = {a. vT sd st a = e}"
  unfolding arcs_def by (rule adj_arcs_set(1) [OF adj_okD])

lemma arcs_distinct: "store_adj st \<Longrightarrow> e \<noteq> 0 \<Longrightarrow> distinct (arcs sd st e)"
  unfolding arcs_def by (rule adj_arcs_set(2) [OF adj_okD])

lemma arcs_length: "store_adj st \<Longrightarrow> vQ sd st e = int (length (arcs sd st e))"
  using adj_invD(2) [OF adj_okD] by (simp add: arcs_def adj_arcs_def)

lemma adj_arcs_detach:
  assumes inv: "adj_inv D A Q T H L" and T: "T a = e" "e \<noteq> 0"
  shows "adj_arcs (A(e := remove1 (H a) (A e))) (L(H a := None)) e' = removeAll a (adj_arcs A L e')"
proof -
  note I = adj_invD [OF inv]
  have val: "(case L l of Some k \<Rightarrow> lk_value k | None \<Rightarrow> 0) = a \<longleftrightarrow> l = H a" if lin: "l \<in> set (A e'')" for l e''
  proof -
    obtain b where b: "L l = Some (quiet_link b)" "H b = l" using I(3) [OF lin] by blast
    have "L (H a) = Some (quiet_link a)" using I(7) T by blast
    then show ?thesis using b by (metis element_link.select_convs(1) option.simps(5) quiet_link_def)
  qed
  have own: "H a \<in> set (A e'') \<Longrightarrow> e'' = e" for e''
    using I(3) [of "H a" e''] I(7) [of a] T by (metis option.inject quiet_link_inj)
  have "(A(e := remove1 (H a) (A e))) e' = filter (\<lambda>l. l \<noteq> H a) (A e')"
  proof (cases "e' = e")
    case True
    have "remove1 (H a) (A e) = filter (\<lambda>l. H a \<noteq> l) (A e)"
      using I(1) [of e] by (simp only: distinct_remove1_removeAll removeAll_filter_not_eq)
    moreover have "(\<lambda>l. H a \<noteq> l) = (\<lambda>l. l \<noteq> H a)" by auto
    ultimately show ?thesis using True by simp
  next
    case False
    then have "H a \<notin> set (A e')" using own by blast
    then show ?thesis using False by (auto intro!: filter_True [symmetric])
  qed
  moreover have "map (\<lambda>l. case (L(H a := None)) l of Some k \<Rightarrow> lk_value k | None \<Rightarrow> 0)
      (filter (\<lambda>l. l \<noteq> H a) (A e')) =
      map (\<lambda>l. case L l of Some k \<Rightarrow> lk_value k | None \<Rightarrow> 0) (filter (\<lambda>l. l \<noteq> H a) (A e'))"
    by (intro map_cong) auto
  moreover have "filter (\<lambda>l. l \<noteq> H a) (A e') =
      filter (\<lambda>l. a \<noteq> (case L l of Some k \<Rightarrow> lk_value k | None \<Rightarrow> 0)) (A e')"
    using val [of _ e'] by (intro filter_cong) fastforce+
  then have "map (\<lambda>l. case L l of Some k \<Rightarrow> lk_value k | None \<Rightarrow> 0) (filter (\<lambda>l. l \<noteq> H a) (A e')) =
      removeAll a (adj_arcs A L e')"
    unfolding adj_arcs_def removeAll_filter_not_eq filter_map o_def by simp
  ultimately show ?thesis unfolding adj_arcs_def by simp
qed

lemma detach_clear:
  assumes st: "store_adj st" and a: "vD st a"
  shows "\<exists>st1 A Q H L. (do {
      st \<leftarrow> (if vT sd st a \<noteq> 0 then detach sd (vT sd st a) a st else Some st);
      upd_el a (clear_end sd) st }) = Some st1 \<and>
      step_views sd st st1 A Q ((vT sd st)(a := 0)) H L (st_fresh st) \<and> store_adj st1 \<and>
      (\<forall>e. arcs sd st1 e = removeAll a (arcs sd st e))"
proof (cases "vT sd st a = 0")
  case True
  note inv = adj_okD [OF st, of sd]
  from upd_clear_views [OF a, of sd] obtain st1 where
    st1: "upd_el a (clear_end sd) st = Some st1" and
    v: "step_views sd st st1 (vA sd st) (vQ sd st) ((vT sd st)(a := 0)) ((vH sd st)(a := 0))
      (st_links st) (st_fresh st)" by blast
  have T: "(vT sd st)(a := 0) = vT sd st" using True by auto
  have unused: "b \<noteq> a" if "l \<in> set (vA sd st e)" "vT sd st b = e" for l b e
    using adj_inv_pos [OF inv that(1)] that(2) True by auto
  have inv': "adj_inv (vD st) (vA sd st) (vQ sd st) ((vT sd st)(a := 0)) ((vH sd st)(a := 0)) (st_links st)"
    unfolding T using inv True by (rule adj_inv_hint)
  have "store_adj st1"
    using st v inv' by (rule store_adj_step)
      (use store_adjD(3,4) [OF st] in \<open>auto simp: fresh_ok_vD\<close>)
  moreover have "a \<notin> set (arcs sd st e)" for e
  proof
    assume "a \<in> set (arcs sd st e)"
    then obtain l where l: "l \<in> set (vA sd st e)" "a = (case st_links st l of Some k \<Rightarrow> lk_value k | None \<Rightarrow> 0)"
      by (auto simp: arcs_def adj_arcs_def)
    with adj_invD(3) [OF inv l(1)] have "vT sd st a = e" by (auto simp: quiet_link_def)
    then show False using unused [OF l(1)] by blast
  qed
  then have "\<forall>e. arcs sd st1 e = removeAll a (arcs sd st e)"
    using step_viewsD(1,5) [OF v] by (simp add: arcs_def)
  ultimately show ?thesis using True st1 v by auto
next
  case False
  note inv = adj_okD [OF st, of sd]
  let ?e = "vT sd st a"
  have d: "vD st ?e" "st_links st (vH sd st a) = Some (quiet_link a)"
    using adj_invD(5,7) [OF inv] False by auto
  from detach_views [OF refl d(1) a d(2)] obtain st0 where
    st0: "detach sd ?e a st = Some st0" and
    v0: "step_views sd st st0 ((vA sd st)(?e := remove1 (vH sd st a) (vA sd st ?e)))
      ((vQ sd st)(?e := vQ sd st ?e - 1)) (vT sd st) (vH sd st) ((st_links st)(vH sd st a := None)) (st_fresh st)"
    by blast
  note V0 = step_viewsD [OF v0]
  have "vD st0 a" using a V0(8) by simp
  from upd_clear_views [OF this, of sd, unfolded V0] obtain st1 where
    st1: "upd_el a (clear_end sd) st0 = Some st1" and
    v1: "step_views sd st0 st1 ((vA sd st)(?e := remove1 (vH sd st a) (vA sd st ?e)))
      ((vQ sd st)(?e := vQ sd st ?e - 1)) ((vT sd st)(a := 0)) ((vH sd st)(a := 0))
      ((st_links st)(vH sd st a := None)) (st_fresh st)"
    by blast
  note v = step_views_trans [OF v0 v1]
  have "store_adj st1"
    using st v adj_inv_detach [OF inv refl False]
  proof (rule store_adj_step)
    show "((st_links st)(vH sd st a := None)) l = st_links st l" if "l \<in> set (vA (other sd) st e)" for e l
      using store_adjD(4) [OF st, of _ sd] adj_invD(6) [OF inv False] that by auto
    show "l \<notin> set (vA (other sd) st e')"
      if "l \<in> set (((vA sd st)(?e := remove1 (vH sd st a) (vA sd st ?e))) e)" for e e' l
      using store_adjD(4) [OF st, of l sd] that by (auto split: if_splits dest: notin_set_remove1)
  qed (use store_adjD(3) [OF st] in \<open>auto simp: fresh_ok_vD\<close>)
  moreover have "\<forall>e. arcs sd st1 e = removeAll a (arcs sd st e)"
    unfolding arcs_def step_viewsD(1,5) [OF v] using adj_arcs_detach [OF inv refl False] by blast
  ultimately show ?thesis using False st0 st1 v by auto
qed

lemma set_at_spec:
  assumes st: "store_adj st" and a: "vD st a" and x: "x = 0 \<or> vD st x"
  shows "\<exists>st'. set_at sd a x st = Some (RV_OK, st') \<and> store_adj st' \<and> same_rest sd st st' \<and>
    vT sd st' = (vT sd st)(a := x) \<and> st_fresh st' \<ge> st_fresh st \<and>
    (\<forall>e. e \<noteq> 0 \<longrightarrow> arcs sd st' e = removeAll a (arcs sd st e) @ (if e = x then [a] else []))"
proof -
  obtain el where el: "st_els st a = Some el" using a by (auto simp: vD_def)
  from detach_clear [OF st a, of sd] obtain st1 A Q H L where
    st1: "(do { st \<leftarrow> (if vT sd st a \<noteq> 0 then detach sd (vT sd st a) a st else Some st);
      upd_el a (clear_end sd) st }) = Some st1" and
    v1: "step_views sd st st1 A Q ((vT sd st)(a := 0)) H L (st_fresh st)" and
    ok1: "store_adj st1" and arcs1: "\<forall>e. arcs sd st1 e = removeAll a (arcs sd st e)"
    by blast
  note V1 = step_viewsD [OF v1]
  have eq: "set_at sd a x st = (do {
      st \<leftarrow> (if x \<noteq> 0 then do { st \<leftarrow> attach sd x a st1; upd_el a (set_end_field sd x) st } else Some st1);
      Some (RV_OK, st) })"
    unfolding set_at_def using el st1 by (simp add: Option.bind_assoc [symmetric] del: Option.bind_assoc)
  show ?thesis
  proof (cases "x = 0")
    case True
    then show ?thesis using eq ok1 V1 arcs1 by auto
  next
    case False
    with x V1(8) a have d: "vD st1 x" "vD st1 a" by auto
    from attach_views [OF d, of sd] obtain st2 where
      st2: "attach sd x a st1 = Some st2" and
      v2: "step_views sd st1 st2 ((vA sd st1)(x := vA sd st1 x @ [st_fresh st1]))
        ((vQ sd st1)(x := vQ sd st1 x + 1)) (vT sd st1) ((vH sd st1)(a := st_fresh st1))
        ((st_links st1)(st_fresh st1 \<mapsto> quiet_link a)) (st_fresh st1 + 1)"
      by blast
    note V2 = step_viewsD [OF v2]
    have "vD st2 a" using d V2(8) by simp
    from upd_set_views [OF this, of sd x, unfolded V2] obtain st3 where
      st3: "upd_el a (set_end_field sd x) st2 = Some st3" and
      v3: "step_views sd st2 st3 ((vA sd st1)(x := vA sd st1 x @ [st_fresh st1]))
        ((vQ sd st1)(x := vQ sd st1 x + 1)) ((vT sd st1)(a := x)) ((vH sd st1)(a := st_fresh st1))
        ((st_links st1)(st_fresh st1 \<mapsto> quiet_link a)) (st_fresh st1 + 1)"
      by blast
    note v = step_views_trans [OF v2 v3]
    have fr: "fresh_ok st1" using store_adjD(3) [OF ok1] .
    have l: "st_links st1 (st_fresh st1) = None" using fr by (simp add: fresh_ok_vD)
    have T0: "vT sd st1 a = 0" using V1(3) by simp
    have notin: "st_fresh st1 \<notin> set (vA s st1 e)" for s e
      using adj_invD(3) [OF adj_okD [OF ok1, of s]] l by fastforce
    have ok3: "store_adj st3"
      using ok1 v adj_inv_attach [OF adj_okD [OF ok1] T0 d l]
    proof (rule store_adj_step)
      show "((st_links st1)(st_fresh st1 \<mapsto> quiet_link a)) l = st_links st1 l"
        if "l \<in> set (vA (other sd) st1 e)" for e l
        using that notin by auto
      show "l \<notin> set (vA (other sd) st1 e')"
        if "l \<in> set (((vA sd st1)(x := vA sd st1 x @ [st_fresh st1])) e)" for e e' l
        using store_adjD(4) [OF ok1, of l sd] notin that by (auto split: if_splits)
    qed (use fr in \<open>auto simp: fresh_ok_vD\<close>)
    have "arcs sd st3 e = arcs sd st1 e @ (if e = x then [a] else [])" for e
      unfolding arcs_def step_viewsD(1,5) [OF v] adj_arcs_def
      using notin [of sd] by (auto simp: quiet_link_def intro!: map_cong)
    then show ?thesis
      using eq False st2 st3 ok3 same_rest_trans [OF V1(7) step_viewsD(7) [OF v]]
        step_viewsD(3,6) [OF v] V1(3,6) arcs1
      by (simp add: same_rest_def)
  qed
qed

section \<open>The other operations\<close>

text \<open>Operations that do not touch the adjacency structure.\<close>

definition adj_eq :: "'a store_scheme \<Rightarrow> 'b store_scheme \<Rightarrow> bool" where
  "adj_eq st st' \<longleftrightarrow> vD st' = vD st \<and>
     (\<forall>sd. vA sd st' = vA sd st \<and> vQ sd st' = vQ sd st \<and> vT sd st' = vT sd st \<and> vH sd st' = vH sd st) \<and>
     st_links st' = st_links st \<and> st_fresh st' = st_fresh st"

lemma adj_eq_refl [simp]: "adj_eq st st"
  by (simp add: adj_eq_def)

lemma adj_eq_trans: "adj_eq a b \<Longrightarrow> adj_eq b c \<Longrightarrow> adj_eq a c"
  by (simp add: adj_eq_def)

lemma adj_eq_store_adj: "adj_eq st st' \<Longrightarrow> store_adj st \<Longrightarrow> store_adj st'"
  by (simp add: adj_eq_def store_adj_def adj_ok_def fresh_ok_vD)

lemma arcs_eq: "vA sd st' = vA sd st \<Longrightarrow> st_links st' = st_links st \<Longrightarrow> arcs sd st' = arcs sd st"
  by (intro ext) (simp add: arcs_def)

lemma adj_eq_arcs: "adj_eq st st' \<Longrightarrow> arcs sd st' = arcs sd st"
  by (intro ext) (simp add: adj_eq_def arcs_def)

lemma adj_eq_upd_seg: "upd_seg s f st = Some st' \<Longrightarrow> adj_eq st st'"
  by (auto simp: upd_seg_def adj_eq_def view_defs fun_eq_iff bind_Some_iff)

definition core_only :: "(element \<Rightarrow> element) \<Rightarrow> bool" where
  "core_only f \<longleftrightarrow> (\<forall>e. el_in_qnt (f e) = el_in_qnt e \<and> el_out_qnt (f e) = el_out_qnt e \<and>
     el_input (f e) = el_input e \<and> el_output (f e) = el_output e \<and> el_beg (f e) = el_beg e \<and>
     el_end (f e) = el_end e \<and> el_beg_hint (f e) = el_beg_hint e \<and> el_end_hint (f e) = el_end_hint e)"

lemma adj_eq_upd_el: "upd_el a f st = Some st' \<Longrightarrow> core_only f \<Longrightarrow> adj_eq st st'"
  by (auto simp: upd_el_def adj_eq_def view_defs adj_def fun_eq_iff bind_Some_iff core_only_def
      split: side.split if_splits)

lemma core_only_intros [intro]:
  "core_only (\<lambda>e. e\<lparr>el_type := t\<rparr>)" "core_only (\<lambda>e. e\<lparr>el_cont := c\<rparr>)"
  "core_only (\<lambda>e. e\<lparr>el_sig := sig\<rparr>)" "core_only (\<lambda>e. e\<lparr>el_idtf := n\<rparr>)"
  "core_only (\<lambda>e. e\<lparr>el_addr := x\<rparr>)" "core_only (el_set_idtf n)" "core_only (el_set_flags fl)"
  by (simp_all add: core_only_def el_set_idtf_def el_set_flags_def el_unset_flags_def)

text \<open>A new element (of \<open>gen_el\<close> or \<open>create_link\<close>) has no arcs and is the end of none.\<close>

definition with_new :: "element \<Rightarrow> 'a store_scheme \<Rightarrow> 'a store_scheme" where
  "with_new e st = st\<lparr>st_els := (st_els st)(st_fresh st \<mapsto> e), st_fresh := st_fresh st + 1\<rparr>"

lemma store_adj_new_element:
  assumes "store_adj st"
  shows "store_adj (with_new (new_element t fl) st)"
    and "arcs sd (with_new (new_element t fl) st) = arcs sd st"
    and "vT sd (with_new (new_element t fl) st) = vT sd st"
proof -
  let ?st = "with_new (new_element t fl) st"
  have fr: "\<not> vD st (st_fresh st)" "st_fresh st \<noteq> 0" "st_els st (st_fresh st) = None"
    using store_adjD(3) [OF assms] by (simp_all add: fresh_ok_def vD_def)
  have v: "vD ?st = (vD st)(st_fresh st := True)" "vA s ?st = vA s st" "vQ s ?st = vQ s st"
    "vT s ?st = vT s st" "vH s ?st = vH s st" for s
    unfolding with_new_def
    using fr(3) by (cases s; auto simp: view_defs adj_def new_element_def fun_eq_iff)+
  have l: "st_links ?st = st_links st" by (simp add: with_new_def)
  have "adj_ok s ?st" for s
    unfolding adj_ok_def v l using adj_inv_new [OF adj_okD [OF assms] fr(1,2)] fr(3)
    by (simp add: vT_def)
  moreover have "fresh_ok ?st" using store_adjD(3) [OF assms] by (simp add: fresh_ok_def with_new_def)
  ultimately show "store_adj ?st"
    using store_adjD(4) [OF assms, of _ Beg] by (auto simp: store_adj_def v)
  show "arcs sd ?st = arcs sd st" "vT sd ?st = vT sd st"
    by (rule arcs_eq [OF v(2) l], rule v(4))
qed

lemma store_adj_gen_el:
  assumes "store_adj st" "st_segs st s = Some g"
  shows "\<exists>st'. sg_gen_el s t st = Some (st_fresh st, st') \<and> store_adj st' \<and>
    arcs sd st' = arcs sd st \<and> vT sd st' = vT sd st \<and> vD st' = (vD st)(st_fresh st := True) \<and>
    st_segs st' = (st_segs st)(s \<mapsto> g\<lparr>sg_list := sg_list g @ [st_fresh st]\<rparr>) \<and>
    st_els st' = (st_els st)(st_fresh st \<mapsto> new_element t TMP_MISSING_IDTF) \<and>
    st_fresh st' = st_fresh st + 1"
proof -
  let ?st = "with_new (new_element t TMP_MISSING_IDTF) st"
  note n = store_adj_new_element [OF assms(1), where t = t and fl = TMP_MISSING_IDTF]
  obtain st' where st': "upd_seg s (\<lambda>g. g\<lparr>sg_list := sg_list g @ [st_fresh st]\<rparr>) ?st = Some st'"
    using assms(2) by (simp add: upd_seg_def with_new_def)
  note eq = adj_eq_upd_seg [OF st']
  show ?thesis
    using st' adj_eq_store_adj [OF eq n(1)] adj_eq_arcs [OF eq] eq n(2,3) assms(2)
    by (auto simp: sg_gen_el_def create_element_def Let_def adj_eq_def vD_def upd_seg_def fun_eq_iff
        with_new_def)
qed

lemma store_adj_erase_el:
  assumes "store_adj st" "sg_erase_el s a st = Some st'" "a \<noteq> 0"
    and "\<And>sd. arcs sd st a = []" "\<And>sd. vT sd st a = 0"
  shows "store_adj st' \<and> arcs sd st' = arcs sd st \<and> vD st' = (vD st)(a := False)"
proof -
  obtain st1 where st1: "adj_eq st st1" "st' = st1\<lparr>st_els := (st_els st1)(a := None)\<rparr>"
    using assms(2) by (auto simp: sg_erase_el_def bind_Some_iff split: if_splits
        intro: adj_eq_trans dest!: adj_eq_upd_seg)
  have ok: "store_adj st1" by (rule adj_eq_store_adj [OF st1(1) assms(1)])
  have T0: "vT s st1 a = 0" for s using st1(1) assms(5) by (simp add: adj_eq_def)
  have A0: "vA s st1 a = []" for s
    using st1(1) assms(4) [of s] by (simp add: adj_eq_def arcs_def adj_arcs_def)
  have Q0: "vQ s st1 a = 0" for s
    using adj_invD(2) [OF adj_okD [OF ok, of s], of a] A0 by simp
  have v: "vD st' = (vD st1)(a := False)" "vA s st' = vA s st1" "vQ s st' = vQ s st1"
    "vT s st' = vT s st1" "vH s st' = (vH s st1)(a := 0)" for s
    unfolding st1(2) using T0 [of s] A0 [of s] Q0 [of s]
    by (auto simp: view_defs fun_eq_iff split: option.splits)
  have l: "st_links st' = st_links st1" by (simp add: st1(2))
  have "adj_ok s st'" for s
    unfolding adj_ok_def v l
    by (intro adj_inv_delete adj_inv_hint adj_okD [OF ok] T0 A0)
  moreover have "fresh_ok st'" using store_adjD(3) [OF ok] by (simp add: fresh_ok_def st1(2))
  ultimately have "store_adj st'" using store_adjD(4) [OF ok, of _ Beg] by (auto simp: store_adj_def v)
  moreover have "arcs sd st' = arcs sd st"
    using arcs_eq [OF v(2) l] adj_eq_arcs [OF st1(1)] by simp
  moreover have "vD st' = (vD st)(a := False)" using v(1) st1(1) by (simp add: adj_eq_def)
  ultimately show ?thesis by blast
qed

section \<open>Properties\<close>

text \<open>C1. \<open>set_beg\<close> and \<open>set_end\<close> of a segment refine the relation of arcs to their ends: the arc
  leaves the list of its old end and becomes the last of its new end's list (null just detaches),
  all other lists keep their order, the element's counters stay the lengths of its lists, an element
  is in a list exactly if the end points there, and the other end of every arc is untouched.\<close>

theorem set_ends_refine:
  assumes "store_adj st" "vD st a" "x = 0 \<or> vD st x"
  shows "(\<exists>st'. sg_set_beg a x st = Some (RV_OK, st') \<and> store_adj st'
      \<and> vT Beg st' = (vT Beg st)(a := x) \<and> vT End st' = vT End st
      \<and> (\<forall>e. e \<noteq> 0 \<longrightarrow> arcs Beg st' e = removeAll a (arcs Beg st e) @ (if e = x then [a] else [])
           \<and> set (arcs Beg st' e) = {b. vT Beg st' b = e}
           \<and> vQ Beg st' e = int (length (arcs Beg st' e))))
    \<and> (\<exists>st'. sg_set_end a x st = Some (RV_OK, st') \<and> store_adj st'
      \<and> vT End st' = (vT End st)(a := x) \<and> vT Beg st' = vT Beg st
      \<and> (\<forall>e. e \<noteq> 0 \<longrightarrow> arcs End st' e = removeAll a (arcs End st e) @ (if e = x then [a] else [])
           \<and> set (arcs End st' e) = {b. vT End st' b = e}
           \<and> vQ End st' e = int (length (arcs End st' e))))"
proof -
  have "\<exists>st'. set_at sd a x st = Some (RV_OK, st') \<and> store_adj st'
      \<and> vT sd st' = (vT sd st)(a := x) \<and> vT (other sd) st' = vT (other sd) st
      \<and> (\<forall>e. e \<noteq> 0 \<longrightarrow> arcs sd st' e = removeAll a (arcs sd st e) @ (if e = x then [a] else [])
           \<and> set (arcs sd st' e) = {b. vT sd st' b = e}
           \<and> vQ sd st' e = int (length (arcs sd st' e)))" for sd
  proof -
    from set_at_spec [OF assms, of sd] obtain st1 where
      s: "set_at sd a x st = Some (RV_OK, st1)" "store_adj st1" "same_rest sd st st1"
      "vT sd st1 = (vT sd st)(a := x)"
      "\<forall>e. e \<noteq> 0 \<longrightarrow> arcs sd st1 e = removeAll a (arcs sd st e) @ (if e = x then [a] else [])"
      by blast
    have "vT (other sd) st1 = vT (other sd) st" using s(3) by (simp add: same_rest_def)
    then show ?thesis
      using s(1,2,4,5) arcs_set [OF s(2), of _ sd] arcs_length [OF s(2), of sd] by blast
  qed
  from this [of Beg] this [of End] show ?thesis
    unfolding sg_set_beg_at sg_set_end_at other.simps by (rule conjI)
qed

text \<open>A store with one segment and three elements made by \<open>gen_el\<close>.\<close>

definition store0 :: store where
  "store0 = \<lparr>st_els = (\<lambda>_. None), st_links = (\<lambda>_. None),
     st_segs = [1 \<mapsto> new_segment 0 ''s'' ''/'' ''p''], st_fresh = 2, st_idtf_counter = 0\<rparr>"

lemma store0_adj: "store_adj store0"
  by (simp add: store_adj_def adj_ok_def adj_inv_def fresh_ok_def store0_def view_defs)

definition store1 :: store where
  "store1 = (case do { (a, st) \<leftarrow> sg_gen_el 1 SC_N_CONST store0; (b, st) \<leftarrow> sg_gen_el 1 SC_N_CONST st;
     sg_gen_el 1 SC_ARC_MAIN st } of None \<Rightarrow> store0 | Some (c, st) \<Rightarrow> st)"

lemma store1_adj: "store_adj store1" "vD store1 2" "vD store1 3" "vD store1 4"
  "vT sd store1 = (\<lambda>_. 0)"
proof -
  have g0: "st_segs store0 1 = Some (new_segment 0 ''s'' ''/'' ''p'')" "st_fresh store0 = 2"
    "vT sd store0 = (\<lambda>_. 0)" by (auto simp: store0_def vT_def)
  from store_adj_gen_el [OF store0_adj g0(1), of SC_N_CONST sd] g0 obtain s1 where
    s1: "sg_gen_el 1 SC_N_CONST store0 = Some (2, s1)" "store_adj s1" "st_fresh s1 = 3" "vT sd s1 = (\<lambda>_. 0)"
      "vD s1 = (vD store0)(2 := True)" "\<exists>g. st_segs s1 1 = Some g" by auto
  then obtain g1 where g1: "st_segs s1 1 = Some g1" by blast
  from store_adj_gen_el [OF s1(2) g1, of SC_N_CONST sd] s1 obtain s2 where
    s2: "sg_gen_el 1 SC_N_CONST s1 = Some (3, s2)" "store_adj s2" "st_fresh s2 = 4" "vT sd s2 = (\<lambda>_. 0)"
      "vD s2 = (vD s1)(3 := True)" "\<exists>g. st_segs s2 1 = Some g" by auto
  then obtain g2 where g2: "st_segs s2 1 = Some g2" by blast
  from store_adj_gen_el [OF s2(2) g2, of SC_ARC_MAIN sd] s2 obtain s3 where
    s3: "sg_gen_el 1 SC_ARC_MAIN s2 = Some (4, s3)" "store_adj s3" "vT sd s3 = (\<lambda>_. 0)"
      "vD s3 = (vD s2)(4 := True)" by auto
  have "store1 = s3" using s1(1) s2(1) s3(1) by (simp add: store1_def)
  then show "store_adj store1" "vD store1 2" "vD store1 3" "vD store1 4" "vT sd store1 = (\<lambda>_. 0)"
    using s3 s2(5) s1(5) by simp_all
qed

theorem set_ends_refine_witness:
  "\<exists>st. sg_set_beg 4 2 store1 = Some (RV_OK, st) \<and> set (arcs Beg st 2) = {4}"
  using conjunct1 [OF set_ends_refine [OF store1_adj(1,4), of 2]] store1_adj(2,5)
  by (force split: if_splits)

end
