(* ===== verification/Segment_Names.thy ===== *)
theory Segment_Names
  imports Segment_Adj
begin

text \<open>
  Identifiers, contents and element order of an in-memory segment (\<open>tmp_segment.cpp\<close>): the
  invariant of a segment and that its operations keep it. The identifier map holds exactly the
  names of the segment's named elements, the content index exactly the signatures of their
  contents, and the links come before all other elements in the segment's list, which is what the
  iterator over links relies on.
\<close>

section \<open>Flags\<close>

lemma bit_two: "bit (2 :: 8 word) n \<longleftrightarrow> n = 1"
  using bit_exp_iff [of 1 n, where 'a = "8 word"] by auto

lemma bit_one: "bit (1 :: 8 word) n \<longleftrightarrow> n = 0"
  by (simp add: bit_1_iff)

lemma has_idtf_bit: "el_has_idtf e \<longleftrightarrow> \<not> bit (el_flags e) 1"
proof -
  have "el_flags e AND 2 = 2 \<longleftrightarrow> bit (el_flags e) 1"
    by (subst bit_eq_iff, simp only: bit_and_iff bit_two) (auto dest: spec [of _ "Suc 0"])
  then show ?thesis by (simp add: el_has_idtf_def)
qed

lemma is_link_bit: "el_is_link e \<longleftrightarrow> bit (el_flags e) 0"
proof -
  have "el_flags e AND 1 = 1 \<longleftrightarrow> bit (el_flags e) 0"
    by (subst bit_eq_iff, simp only: bit_and_iff bit_one) (auto dest: spec [of _ 0])
  then show ?thesis by (simp add: el_is_link_def)
qed

lemma plain_named_flags: "el_flags e AND (TMP_LINK OR TMP_MISSING_IDTF) = 0 \<longleftrightarrow>
    \<not> el_is_link e \<and> el_has_idtf e"
proof -
  have "el_flags e AND (1 OR 2) = 0 \<longleftrightarrow> \<not> bit (el_flags e) 0 \<and> \<not> bit (el_flags e) 1"
    by (subst bit_eq_iff, simp only: bit_and_iff bit_or_iff bit_two bit_one bit_0_eq)
      (auto dest: spec [of _ 0] spec [of _ "Suc 0"] intro: gr0I)
  then show ?thesis by (simp add: has_idtf_bit is_link_bit)
qed

lemma plain_named_flags': "el_flags e AND 3 = 0 \<longleftrightarrow> \<not> el_is_link e \<and> el_has_idtf e"
  using plain_named_flags [of e] by simp

lemma flag_updates [simp]:
  "el_has_idtf (el_set_idtf n e)" "el_is_link (el_set_idtf n e) = el_is_link e"
  "el_idtf (el_set_idtf n e) = n" "el_cont (el_set_idtf n e) = el_cont e" "el_sig (el_set_idtf n e) = el_sig e"
  "\<not> el_has_idtf (el_set_flags TMP_MISSING_IDTF e)"
  "el_is_link (el_set_flags TMP_MISSING_IDTF e) = el_is_link e"
  "el_cont (el_set_flags TMP_MISSING_IDTF e) = el_cont e"
  "el_sig (el_set_flags TMP_MISSING_IDTF e) = el_sig e"
  "\<not> el_has_idtf (new_element t TMP_MISSING_IDTF)" "\<not> el_is_link (new_element t TMP_MISSING_IDTF)"
  "el_is_link (new_element t TMP_LINK)"
  by (auto simp: has_idtf_bit is_link_bit el_set_idtf_def el_set_flags_def el_unset_flags_def
      new_element_def bit_or_iff bit_and_iff bit_not_iff bit_two bit_one)

section \<open>The invariant\<close>

definition named :: "'a store_scheme \<Rightarrow> nat \<Rightarrow> string \<Rightarrow> bool" where
  "named st a n \<longleftrightarrow>
     (\<exists>e. st_els st a = Some e \<and> \<not> el_is_link e \<and> el_has_idtf e \<and> el_idtf e = n)"

definition seg_sig :: "'a store_scheme \<Rightarrow> segment \<Rightarrow> nat \<Rightarrow> bytes option" where
  "seg_sig st g a =
     (if a \<in> set (sg_list g) then (case st_els st a of None \<Rightarrow> None | Some e \<Rightarrow> el_sig e) else None)"

definition is_link_at :: "'a store_scheme \<Rightarrow> nat \<Rightarrow> bool" where
  "is_link_at st a = (case st_els st a of None \<Rightarrow> False | Some e \<Rightarrow> el_is_link e)"

definition links_first :: "'a store_scheme \<Rightarrow> nat list \<Rightarrow> bool" where
  "links_first st xs \<longleftrightarrow>
     xs = filter (is_link_at st) xs @ filter (\<lambda>a. \<not> is_link_at st a) xs"

definition names_ok :: "'a store_scheme \<Rightarrow> segment \<Rightarrow> bool" where
  "names_ok st g \<longleftrightarrow>
     (\<forall>n a. map_of (sg_idtf_map g) n = Some a \<longleftrightarrow> a \<in> set (sg_list g) \<and> named st a n)"

definition conts_ok :: "(bytes \<Rightarrow> bytes) \<Rightarrow> 'a store_scheme \<Rightarrow> segment \<Rightarrow> bool" where
  "conts_ok md5 st g \<longleftrightarrow> ci_inv (sg_cindex g) (seg_sig st g) \<and>
     (\<forall>a \<in> set (sg_list g). \<forall>e. st_els st a = Some e \<longrightarrow> el_sig e = calc_signature md5 (el_cont e))"

definition list_ok :: "'a store_scheme \<Rightarrow> segment \<Rightarrow> bool" where
  "list_ok st g \<longleftrightarrow> distinct (sg_list g) \<and> (\<forall>a \<in> set (sg_list g). a \<noteq> 0 \<and> st_els st a \<noteq> None) \<and>
     links_first st (sg_list g)"

definition seg_ok :: "(bytes \<Rightarrow> bytes) \<Rightarrow> nat \<Rightarrow> 'a store_scheme \<Rightarrow> bool" where
  "seg_ok md5 s st \<longleftrightarrow>
     (\<exists>g. st_segs st s = Some g \<and> list_ok st g \<and> names_ok st g \<and> conts_ok md5 st g)"

definition name_of_seg :: "segment \<Rightarrow> string \<Rightarrow> nat" where
  "name_of_seg g n = (case map_of (sg_idtf_map g) n of None \<Rightarrow> 0 | Some a \<Rightarrow> a)"

lemma find_by_idtf_eq: "st_segs st s = Some g \<Longrightarrow> sg_find_by_idtf s n st = Some (name_of_seg g n)"
  by (simp add: sg_find_by_idtf_def name_of_seg_def)

lemma named_fun: "named st a n \<Longrightarrow> named st a m \<Longrightarrow> m = n"
  by (auto simp: named_def)

text \<open>A name belongs to one element and an element has one name.\<close>

lemma name_of_seg_iff:
  assumes "names_ok st g" "a \<noteq> 0"
  shows "name_of_seg g n = a \<longleftrightarrow> a \<in> set (sg_list g) \<and> named st a n"
proof -
  have "a \<in> set (sg_list g) \<and> named st a n \<longleftrightarrow> map_of (sg_idtf_map g) n = Some a"
    using assms(1) by (simp add: names_ok_def)
  then show ?thesis using assms(2) by (auto simp: name_of_seg_def split: option.splits)
qed

section \<open>Changing one element\<close>

text \<open>The effect of the operations that update one element of the segment and the segment itself.\<close>

definition upd1 :: "nat \<Rightarrow> nat \<Rightarrow> element \<Rightarrow> segment \<Rightarrow> 'a store_scheme \<Rightarrow> 'a store_scheme" where
  "upd1 s a e g st = st\<lparr>st_els := (st_els st)(a \<mapsto> e), st_segs := (st_segs st)(s \<mapsto> g)\<rparr>"

lemma upd1_simps [simp]:
  "st_els (upd1 s a e g st) = (st_els st)(a \<mapsto> e)" "st_segs (upd1 s a e g st) = (st_segs st)(s \<mapsto> g)"
  by (simp_all add: upd1_def)

lemma list_ok_upd1:
  assumes "list_ok st g" "st_els st a = Some e" "el_is_link e' = el_is_link e" "sg_list g' = sg_list g"
  shows "list_ok (upd1 s a e' g' st) g'"
proof -
  have "is_link_at (upd1 s a e' g' st) = is_link_at st"
    using assms(2,3) by (auto simp: is_link_at_def fun_eq_iff)
  then show ?thesis using assms by (auto simp: list_ok_def links_first_def)
qed

lemma conts_ok_upd1:
  assumes "conts_ok md5 st g" "st_els st a = Some e" "el_sig e' = el_sig e" "el_cont e' = el_cont e"
    and "sg_list g' = sg_list g" "sg_cindex g' = sg_cindex g"
  shows "conts_ok md5 (upd1 s a e' g' st) g'"
proof -
  have "seg_sig (upd1 s a e' g' st) g' = seg_sig st g"
    using assms(2,3,5) by (auto simp: seg_sig_def fun_eq_iff)
  then show ?thesis using assms by (auto simp: conts_ok_def)
qed

lemma named_upd1: "named (upd1 s a e g st) b n \<longleftrightarrow>
    (if b = a then \<not> el_is_link e \<and> el_has_idtf e \<and> el_idtf e = n else named st b n)"
  by (simp add: named_def)

lemma names_ok_upd1:
  assumes "names_ok st g" "sg_list g' = sg_list g" "sg_idtf_map g' = sg_idtf_map g"
    and "\<And>n. named st a n \<longleftrightarrow> \<not> el_is_link e \<and> el_has_idtf e \<and> el_idtf e = n"
  shows "names_ok (upd1 s a e g' st) g'"
  using assms by (auto simp: names_ok_def named_upd1)

section \<open>Identifiers\<close>

lemma set_idtf_new:
  assumes ok: "list_ok st g" "names_ok st g" "conts_ok md5 st g" and g: "st_segs st s = Some g"
    and a: "a \<in> set (sg_list g)" "st_els st a = Some e" "\<not> el_is_link e"
    and n: "n \<noteq> ''''" "name_of_seg g n = 0"
  shows "\<exists>g'. sg_set_idtf s a n st = Some (RV_OK, upd1 s a (el_set_idtf n e) g' st) \<and>
    list_ok (upd1 s a (el_set_idtf n e) g' st) g' \<and> names_ok (upd1 s a (el_set_idtf n e) g' st) g' \<and>
    conts_ok md5 (upd1 s a (el_set_idtf n e) g' st) g' \<and> sg_list g' = sg_list g \<and>
    (\<forall>m. name_of_seg g' m = (if m = n then a else if name_of_seg g m = a then 0 else name_of_seg g m))"
proof -
  have a0: "a \<noteq> 0" using ok(1) a(1) by (auto simp: list_ok_def)
  have free: "map_of (sg_idtf_map g) n = None"
  proof (rule ccontr)
    assume "map_of (sg_idtf_map g) n \<noteq> None"
    then obtain b where b: "map_of (sg_idtf_map g) n = Some b" by blast
    then have "b \<in> set (sg_list g)" using ok(2) by (auto simp: names_ok_def)
    then show False using ok(1) b n(2) by (auto simp: list_ok_def name_of_seg_def)
  qed
  have own: "el_has_idtf e \<Longrightarrow> map_of (sg_idtf_map g) (el_idtf e) = Some a"
    using ok(2) a by (auto simp: names_ok_def named_def)
  have nn: "el_has_idtf e \<Longrightarrow> el_idtf e \<noteq> n" using own free by auto
  define g' where "g' = (if el_has_idtf e
    then g\<lparr>sg_idtf_map := AList.delete (el_idtf e) (AList.update n a (sg_idtf_map g))\<rparr>
    else g\<lparr>sg_idtf_map := AList.update n a (sg_idtf_map g)\<rparr>)"
  have set: "sg_set_idtf s a n st = Some (RV_OK, upd1 s a (el_set_idtf n e) g' st)"
    using a(2,3) g n(1) free nn
    by (auto simp: sg_set_idtf_def register_idtf_def deregister_idtf_def upd_seg_def upd_el_def g'_def
        upd1_def)
  have mo: "map_of (sg_idtf_map g') m = (if m = n then Some a
      else if map_of (sg_idtf_map g) m = Some a then None else map_of (sg_idtf_map g) m)" for m
  proof -
    have "map_of (sg_idtf_map g) m = Some a \<longleftrightarrow> el_has_idtf e \<and> m = el_idtf e"
      using ok(2) a unfolding names_ok_def named_def by auto
    then show ?thesis using nn by (auto simp: g'_def delete_conv' update_conv')
  qed
  have lst: "sg_list g' = sg_list g" "sg_cindex g' = sg_cindex g" by (simp_all add: g'_def)
  have "names_ok (upd1 s a (el_set_idtf n e) g' st) g'"
    unfolding names_ok_def named_upd1 mo lst
  proof (intro allI)
    fix m b
    have iff: "c \<in> set (sg_list g) \<and> named st c k \<longleftrightarrow> map_of (sg_idtf_map g) k = Some c" for c k
      using ok(2) by (simp add: names_ok_def)
    show "((if m = n then Some a else if map_of (sg_idtf_map g) m = Some a then None
        else map_of (sg_idtf_map g) m) = Some b) = (b \<in> set (sg_list g) \<and>
        (if b = a then \<not> el_is_link (el_set_idtf n e) \<and> el_has_idtf (el_set_idtf n e) \<and>
           el_idtf (el_set_idtf n e) = m else named st b m))"
    proof (cases "b = a")
      case True
      then show ?thesis using a(1,3) by auto
    next
      case False
      then show ?thesis using iff [of b m] free by auto
    qed
  qed
  moreover have "name_of_seg g' m = (if m = n then a else if name_of_seg g m = a then 0 else name_of_seg g m)" for m
    using a0 by (auto simp: name_of_seg_def mo split: option.splits)
  ultimately show ?thesis
    using set lst list_ok_upd1 [OF ok(1) a(2), of "el_set_idtf n e" g' s]
      conts_ok_upd1 [OF ok(3) a(2), of "el_set_idtf n e" g' s]
    by (intro exI [of _ g']) simp
qed

lemma erase_idtf_spec:
  assumes ok: "list_ok st g" "names_ok st g" "conts_ok md5 st g" and g: "st_segs st s = Some g"
    and a: "a \<in> set (sg_list g)" "st_els st a = Some e" "\<not> el_is_link e"
  shows "\<exists>st' g'. sg_erase_idtf s a st = Some (RV_OK, st') \<and> st_segs st' s = Some g' \<and>
    list_ok st' g' \<and> names_ok st' g' \<and> conts_ok md5 st' g' \<and> sg_list g' = sg_list g \<and>
    (\<forall>m. name_of_seg g' m = (if name_of_seg g m = a then 0 else name_of_seg g m))"
proof -
  have a0: "a \<noteq> 0" using ok(1) a(1) by (auto simp: list_ok_def)
  have own: "map_of (sg_idtf_map g) m = Some a \<longleftrightarrow> el_has_idtf e \<and> m = el_idtf e" for m
    using ok(2) a unfolding names_ok_def named_def by auto
  show ?thesis
  proof (cases "el_has_idtf e")
    case False
    then have "sg_erase_idtf s a st = Some (RV_OK, st)"
      using a by (simp add: sg_erase_idtf_def)
    moreover have "name_of_seg g m \<noteq> a" for m
      using own False a0 by (auto simp: name_of_seg_def split: option.splits)
    ultimately show ?thesis using g ok by auto
  next
    case True
    define g' where "g' = deregister_idtf (el_idtf e) g"
    let ?e = "el_set_flags TMP_MISSING_IDTF e"
    have er: "sg_erase_idtf s a st = Some (RV_OK, upd1 s a ?e g' st)"
      using a g True by (simp add: sg_erase_idtf_def upd_seg_def upd_el_def g'_def upd1_def)
    have mo: "map_of (sg_idtf_map g') m = (if m = el_idtf e then None else map_of (sg_idtf_map g) m)" for m
      by (simp add: g'_def deregister_idtf_def delete_conv')
    have lst: "sg_list g' = sg_list g" "sg_cindex g' = sg_cindex g"
      by (simp_all add: g'_def deregister_idtf_def)
    have own': "map_of (sg_idtf_map g) (el_idtf e) = Some a" using own True by blast
    have "names_ok (upd1 s a ?e g' st) g'"
      unfolding names_ok_def named_upd1 mo lst
    proof (intro allI)
      fix n b
      show "((if n = el_idtf e then None else map_of (sg_idtf_map g) n) = Some b) =
        (b \<in> set (sg_list g) \<and> (if b = a then \<not> el_is_link ?e \<and> el_has_idtf ?e \<and> el_idtf ?e = n
           else named st b n))"
      proof (cases "b = a")
        case True
        then show ?thesis using own [of n] own' by auto
      next
        case False
        have "b \<in> set (sg_list g) \<and> named st b n \<longleftrightarrow> map_of (sg_idtf_map g) n = Some b"
          using ok(2) by (simp add: names_ok_def)
        then show ?thesis using False own' by auto
      qed
    qed
    moreover have "name_of_seg g' m = (if name_of_seg g m = a then 0 else name_of_seg g m)" for m
    proof (cases "map_of (sg_idtf_map g) m")
      case None
      then show ?thesis using a0 by (simp add: name_of_seg_def mo)
    next
      case (Some b)
      then have "b = a \<longleftrightarrow> m = el_idtf e" using own [of m] own' True by auto
      then show ?thesis using Some by (simp add: name_of_seg_def mo)
    qed
    ultimately show ?thesis
      using er lst list_ok_upd1 [OF ok(1) a(2), of ?e g' s]
        conts_ok_upd1 [OF ok(3) a(2), of ?e g' s]
      by (intro exI [of _ "upd1 s a ?e g' st"] exI [of _ g']) simp
  qed
qed

section \<open>Contents\<close>

lemma seg_sig_upd1:
  assumes "a \<in> set (sg_list g)" "sg_list g' = sg_list g"
  shows "seg_sig (upd1 s a e g' st) g' = (seg_sig st g)(a := el_sig e)"
  using assms by (auto simp: seg_sig_def fun_eq_iff)

lemma update_cindex_spec:
  assumes ok: "list_ok st g" "names_ok st g" "conts_ok md5 st g" and g: "st_segs st s = Some g"
    and a: "a \<in> set (sg_list g)" "st_els st a = Some e" and c: "cont_type c \<noteq> 5"
  shows "\<exists>g'. (do { st \<leftarrow> upd_el a (\<lambda>e. e\<lparr>el_cont := c\<rparr>) st; update_cindex md5 s a st }) =
      Some (upd1 s a (e\<lparr>el_cont := c, el_sig := calc_signature md5 c\<rparr>) g' st) \<and>
    list_ok (upd1 s a (e\<lparr>el_cont := c, el_sig := calc_signature md5 c\<rparr>) g' st) g' \<and>
    names_ok (upd1 s a (e\<lparr>el_cont := c, el_sig := calc_signature md5 c\<rparr>) g' st) g' \<and>
    conts_ok md5 (upd1 s a (e\<lparr>el_cont := c, el_sig := calc_signature md5 c\<rparr>) g' st) g' \<and>
    sg_list g' = sg_list g"
proof -
  let ?e = "e\<lparr>el_cont := c, el_sig := calc_signature md5 c\<rparr>"
  have inv: "ci_inv (sg_cindex g) (seg_sig st g)" using ok(3) by (simp add: conts_ok_def)
  have sg: "seg_sig st g a = el_sig e" using a by (simp add: seg_sig_def)
  have "\<exists>idx. (do { st \<leftarrow> upd_el a (\<lambda>e. e\<lparr>el_cont := c\<rparr>) st; update_cindex md5 s a st }) =
      Some (upd1 s a ?e (g\<lparr>sg_cindex := idx\<rparr>) st) \<and>
      ci_inv idx ((seg_sig st g)(a := calc_signature md5 c))"
  proof (cases "cont_type c = 0")
    case True
    then have "calc_signature md5 c = None" by (simp add: calc_signature_None)
    moreover obtain idx where "ci_clear a (el_sig e) (sg_cindex g) = Some idx"
      "ci_inv idx ((seg_sig st g)(a := None))"
      using ci_clear_inv [OF inv, of a] sg by auto
    ultimately show ?thesis
      using g a(2) True by (intro exI [of _ idx])
        (simp add: update_cindex_def upd_el_def upd_seg_def upd1_def)
  next
    case False
    obtain idx where "ci_update md5 a (el_sig e) c (sg_cindex g) = Some (idx, calc_signature md5 c)"
      "ci_inv idx ((seg_sig st g)(a := calc_signature md5 c))"
      using ci_update_inv [OF inv c, of md5 a] sg by auto
    then show ?thesis
      using g a(2) False by (intro exI [of _ idx])
        (simp add: update_cindex_def upd_el_def upd_seg_def upd1_def)
  qed
  then obtain idx where u: "(do { st \<leftarrow> upd_el a (\<lambda>e. e\<lparr>el_cont := c\<rparr>) st; update_cindex md5 s a st }) =
      Some (upd1 s a ?e (g\<lparr>sg_cindex := idx\<rparr>) st)" "ci_inv idx ((seg_sig st g)(a := calc_signature md5 c))"
    by blast
  let ?g = "g\<lparr>sg_cindex := idx\<rparr>"
  have fl: "el_is_link ?e = el_is_link e" "el_has_idtf ?e = el_has_idtf e"
    by (simp_all add: is_link_bit has_idtf_bit)
  have "list_ok (upd1 s a ?e ?g st) ?g" using ok(1) a(2) fl by (intro list_ok_upd1) auto
  moreover have "names_ok (upd1 s a ?e ?g st) ?g"
    using ok(2) a(2) fl by (intro names_ok_upd1) (auto simp: named_def)
  moreover have "conts_ok md5 (upd1 s a ?e ?g st) ?g"
    using ok(3) u(2) seg_sig_upd1 [OF a(1), of ?g s ?e st] by (auto simp: conts_ok_def)
  ultimately show ?thesis using u(1) by (intro exI [of _ ?g]) simp
qed

section \<open>New and erased elements\<close>

lemma fresh_notin: "fresh_ok st \<Longrightarrow> list_ok st g \<Longrightarrow> st_fresh st \<notin> set (sg_list g)"
  by (auto simp: fresh_ok_def list_ok_def)

lemma links_first_iff:
  "links_first st xs \<longleftrightarrow> (\<exists>ls ns. xs = ls @ ns \<and> (\<forall>a \<in> set ls. is_link_at st a) \<and>
     (\<forall>a \<in> set ns. \<not> is_link_at st a))"
proof
  assume "links_first st xs"
  then show "\<exists>ls ns. xs = ls @ ns \<and> (\<forall>a \<in> set ls. is_link_at st a) \<and> (\<forall>a \<in> set ns. \<not> is_link_at st a)"
    unfolding links_first_def by (metis (mono_tags, lifting) mem_Collect_eq set_filter)
next
  assume "\<exists>ls ns. xs = ls @ ns \<and> (\<forall>a \<in> set ls. is_link_at st a) \<and> (\<forall>a \<in> set ns. \<not> is_link_at st a)"
  then obtain ls ns where "xs = ls @ ns" "\<forall>a \<in> set ls. is_link_at st a" "\<forall>a \<in> set ns. \<not> is_link_at st a"
    by blast
  moreover from this have "filter (is_link_at st) xs = ls" "filter (\<lambda>a. \<not> is_link_at st a) xs = ns"
    by (auto simp: filter_id_conv filter_empty_conv)
  ultimately show "links_first st xs" unfolding links_first_def by simp
qed

text \<open>Adding an element without name and content, at the end or, if it is a link, at the front.\<close>

lemma seg_parts_add:
  assumes ok: "list_ok st g" "names_ok st g" "conts_ok md5 st g" "fresh_ok st"
    and e: "\<not> el_has_idtf e \<or> el_is_link e" "el_sig e = None" "el_cont e = CEmpty"
    and xs: "xs = (if el_is_link e then st_fresh st # sg_list g else sg_list g @ [st_fresh st])"
    and g': "g' = g\<lparr>sg_list := xs\<rparr>" and st': "st_els st' = (st_els st)(st_fresh st \<mapsto> e)"
  shows "list_ok st' g' \<and> names_ok st' g' \<and> conts_ok md5 st' g'"
proof (intro conjI)
  let ?n = "st_fresh st"
  have new: "?n \<notin> set (sg_list g)" "?n \<noteq> 0" using fresh_notin [OF ok(4,1)] ok(4) by (auto simp: fresh_ok_def)
  have set: "set xs = insert ?n (set (sg_list g))" using xs by auto
  have link: "is_link_at st' a = (if a = ?n then el_is_link e else is_link_at st a)" for a
    using st' by (simp add: is_link_at_def)
  obtain ls ns where l: "sg_list g = ls @ ns" "\<forall>a \<in> set ls. is_link_at st a" "\<forall>a \<in> set ns. \<not> is_link_at st a"
    using ok(1) unfolding list_ok_def links_first_iff by blast
  have "links_first st' xs"
    unfolding links_first_iff
  proof (cases "el_is_link e")
    case True
    then show "\<exists>ls ns. xs = ls @ ns \<and> (\<forall>a \<in> set ls. is_link_at st' a) \<and> (\<forall>a \<in> set ns. \<not> is_link_at st' a)"
      using l new xs link by (intro exI [of _ "?n # ls"] exI [of _ ns]) auto
  next
    case False
    then show "\<exists>ls ns. xs = ls @ ns \<and> (\<forall>a \<in> set ls. is_link_at st' a) \<and> (\<forall>a \<in> set ns. \<not> is_link_at st' a)"
      using l new xs link by (intro exI [of _ ls] exI [of _ "ns @ [?n]"]) auto
  qed
  moreover have "distinct xs" using ok(1) new xs by (simp add: list_ok_def)
  ultimately show "list_ok st' g'"
    using ok(1) new(2) set st' unfolding list_ok_def g' by auto
  have "named st' a n \<longleftrightarrow> a \<noteq> ?n \<and> named st a n" for a n
    using st' e(1) by (auto simp: named_def)
  then show "names_ok st' g'"
    using ok(2) new(1) set unfolding names_ok_def g' by auto
  have "seg_sig st' g' = seg_sig st g"
    using st' e(2) new(1) set unfolding g' by (auto simp: seg_sig_def fun_eq_iff)
  then show "conts_ok md5 st' g'"
    using ok(3) set st' e(2,3) unfolding conts_ok_def g'
    by (auto simp: calc_signature_def content_bytes_def)
qed

lemma new_element_simps [simp]:
  "el_sig (new_element t fl) = None" "el_cont (new_element t fl) = CEmpty"
  "el_flags (new_element t fl) = fl" "el_type (new_element t fl) = t" "el_addr (new_element t fl) = 0"
  "el_beg (new_element t fl) = 0" "el_end (new_element t fl) = 0"
  by (simp_all add: new_element_def)

lemma gen_el_seg_ok:
  assumes "seg_ok md5 s st" "fresh_ok st"
  shows "\<exists>st'. sg_gen_el s t st = Some (st_fresh st, st') \<and> seg_ok md5 s st' \<and>
    st_els st' = (st_els st)(st_fresh st \<mapsto> new_element t TMP_MISSING_IDTF)"
proof -
  obtain g where g: "st_segs st s = Some g" "list_ok st g" "names_ok st g" "conts_ok md5 st g"
    using assms(1) by (auto simp: seg_ok_def)
  let ?g = "g\<lparr>sg_list := sg_list g @ [st_fresh st]\<rparr>"
  let ?st = "st\<lparr>st_els := (st_els st)(st_fresh st \<mapsto> new_element t TMP_MISSING_IDTF),
    st_fresh := st_fresh st + 1, st_segs := (st_segs st)(s \<mapsto> ?g)\<rparr>"
  have "list_ok ?st ?g \<and> names_ok ?st ?g \<and> conts_ok md5 ?st ?g"
    using g assms(2) by (intro seg_parts_add [where e = "new_element t TMP_MISSING_IDTF"]) auto
  then show ?thesis
    using g(1) by (auto simp: sg_gen_el_def create_element_def upd_seg_def Let_def seg_ok_def)
qed

lemma create_link_seg_ok:
  assumes "seg_ok md5 s st" "fresh_ok st"
  shows "\<exists>st'. sg_create_link s uri st = Some (st_fresh st, st') \<and> seg_ok md5 s st' \<and>
    st_els st' = (st_els st)(st_fresh st \<mapsto> (new_element SC_EMPTY TMP_LINK)\<lparr>el_idtf := uri\<rparr>)"
proof -
  obtain g where g: "st_segs st s = Some g" "list_ok st g" "names_ok st g" "conts_ok md5 st g"
    using assms(1) by (auto simp: seg_ok_def)
  let ?e = "(new_element SC_EMPTY TMP_LINK)\<lparr>el_idtf := uri\<rparr>"
  let ?g = "g\<lparr>sg_list := st_fresh st # sg_list g\<rparr>"
  let ?st = "st\<lparr>st_fresh := st_fresh st + 1, st_segs := (st_segs st)(s \<mapsto> ?g),
    st_els := (st_els st)(st_fresh st \<mapsto> ?e)\<rparr>"
  have "el_is_link ?e" by (simp add: is_link_bit bit_one)
  then have "list_ok ?st ?g \<and> names_ok ?st ?g \<and> conts_ok md5 ?st ?g"
    using g assms(2) by (intro seg_parts_add [where e = ?e]) auto
  then show ?thesis
    using g(1) by (auto simp: sg_create_link_def upd_seg_def upd_el_def Let_def seg_ok_def)
qed

lemma links_first_cong:
  assumes "\<And>b. b \<in> set xs \<Longrightarrow> is_link_at st' b = is_link_at st b"
  shows "links_first st' xs = links_first st xs"
proof -
  have "filter (is_link_at st') xs = filter (is_link_at st) xs"
    "filter (\<lambda>a. \<not> is_link_at st' a) xs = filter (\<lambda>a. \<not> is_link_at st a) xs"
    using assms by (auto intro!: filter_cong)
  then show ?thesis by (simp add: links_first_def)
qed

lemma links_first_filter: "links_first st xs \<Longrightarrow> links_first st (filter P xs)"
  unfolding links_first_iff by (metis filter_append filter_is_subset subsetD)

lemma erase_el_seg_ok:
  assumes "seg_ok md5 s st" "st_segs st s = Some g" "a \<in> set (sg_list g)"
  shows "\<exists>st' g'. sg_erase_el s a st = Some st' \<and> seg_ok md5 s st' \<and> st_segs st' s = Some g' \<and>
    sg_list g' = remove1 a (sg_list g) \<and> st_els st' = (st_els st)(a := None)"
proof -
  have ok: "list_ok st g" "names_ok st g" "conts_ok md5 st g" using assms(1,2) by (auto simp: seg_ok_def)
  obtain e where e: "st_els st a = Some e" using ok(1) assms(3) by (auto simp: list_ok_def)
  have "ci_inv (sg_cindex g) (seg_sig st g)" using ok(3) by (simp add: conts_ok_def)
  from ci_clear_inv [OF this, of a] obtain idx where
    idx: "ci_clear a (el_sig e) (sg_cindex g) = Some idx" "ci_inv idx ((seg_sig st g)(a := None))"
    using assms(3) e by (auto simp: seg_sig_def)
  define g1 where "g1 = (if \<not> el_is_link e \<and> el_has_idtf e then deregister_idtf (el_idtf e) g else g)"
  define g' where "g' = g1\<lparr>sg_cindex := idx, sg_list := remove1 a (sg_list g1)\<rparr>"
  define st' where "st' = st\<lparr>st_segs := (st_segs st)(s \<mapsto> g'), st_els := (st_els st)(a := None)\<rparr>"
  have g1: "sg_cindex g1 = sg_cindex g" "sg_list g1 = sg_list g"
    by (simp_all add: g1_def deregister_idtf_def)
  have er: "sg_erase_el s a st = Some st'"
    using e assms(2) idx(1) g1
    by (auto simp: sg_erase_el_def plain_named_flags' upd_seg_def g1_def g'_def st'_def)
  have dist: "distinct (sg_list g)" using ok(1) by (simp add: list_ok_def)
  have rem: "remove1 a (sg_list g) = filter (\<lambda>b. a \<noteq> b) (sg_list g)"
    using dist by (simp add: distinct_remove1_removeAll removeAll_filter_not_eq)
  have set: "set (sg_list g') = set (sg_list g) - {a}" using dist g1 by (simp add: g'_def)
  have link: "b \<noteq> a \<Longrightarrow> is_link_at st' b = is_link_at st b" for b by (simp add: is_link_at_def st'_def)
  have "links_first st (filter (\<lambda>b. a \<noteq> b) (sg_list g))"
    using ok(1) by (intro links_first_filter) (simp add: list_ok_def)
  then have "links_first st' (filter (\<lambda>b. a \<noteq> b) (sg_list g))"
    using links_first_cong [of "filter (\<lambda>b. a \<noteq> b) (sg_list g)" st' st] link by auto
  then have "list_ok st' g'"
    using ok(1) set dist unfolding list_ok_def
    by (auto simp: g'_def g1 rem st'_def)
  moreover have "names_ok st' g'"
    unfolding names_ok_def
  proof (intro allI)
    fix n b
    have iff: "map_of (sg_idtf_map g) n = Some c \<longleftrightarrow> c \<in> set (sg_list g) \<and> named st c n" for c
      using ok(2) by (simp add: names_ok_def)
    have na: "named st a n \<longleftrightarrow> \<not> el_is_link e \<and> el_has_idtf e \<and> el_idtf e = n"
      using e by (simp add: named_def)
    have mo: "map_of (sg_idtf_map g') n = (if named st a n then None else map_of (sg_idtf_map g) n)"
      using na by (auto simp: g'_def g1_def deregister_idtf_def delete_conv')
    have nb: "named st' b n \<longleftrightarrow> b \<noteq> a \<and> named st b n" by (simp add: named_def st'_def)
    have "named st a n \<Longrightarrow> map_of (sg_idtf_map g) n = Some a" using iff assms(3) by blast
    then show "(map_of (sg_idtf_map g') n = Some b) = (b \<in> set (sg_list g') \<and> named st' b n)"
      unfolding mo nb set using iff [of b] by auto
  qed
  moreover have "seg_sig st' g' = (seg_sig st g)(a := None)"
    using set by (auto simp: seg_sig_def st'_def fun_eq_iff)
  then have "conts_ok md5 st' g'"
    using idx(2) ok(3) set unfolding conts_ok_def by (auto simp: g'_def st'_def)
  ultimately show ?thesis
    using er g1 by (intro exI [of _ st'] exI [of _ g']) (auto simp: seg_ok_def st'_def g'_def)
qed

section \<open>The iterators of a segment\<close>

text \<open>The loop of the clients: \<open>while (!iter->is_over()) ... iter->next()\<close>, collecting the
  elements.\<close>

fun iter_all :: "(nat \<Rightarrow> (nat \<times> nat) option) \<Rightarrow> nat \<Rightarrow> nat \<Rightarrow> nat list option" where
  "iter_all step 0 c = None"
| "iter_all step (Suc n) c =
     (if c = 0 then Some []
      else do { (rv, c) \<leftarrow> step c; rest \<leftarrow> iter_all step n c; Some (rv # rest) })"

text \<open>The contract of \<open>sc_segment::iterator\<close>: it starts on the first item and steps through them,
  \<open>0\<close> being the end.\<close>

locale seg_cursor =
  fixes ok :: "'st \<Rightarrow> bool"
    and items :: "'st \<Rightarrow> nat list"
    and start :: "'st \<Rightarrow> nat option"
    and step :: "'st \<Rightarrow> nat \<Rightarrow> (nat \<times> nat) option"
  assumes items_pos: "ok st \<Longrightarrow> 0 \<notin> set (items st)"
    and start_first: "ok st \<Longrightarrow> start st = Some (hd (items st @ [0]))"
    and step_next: "ok st \<Longrightarrow> items st = xs @ x # ys \<Longrightarrow> step st x = Some (x, hd (ys @ [0]))"
begin

lemma collect_from:
  "ok st \<Longrightarrow> items st = xs @ ys \<Longrightarrow> length ys < n \<Longrightarrow> iter_all (step st) n (hd (ys @ [0])) = Some ys"
proof (induction ys arbitrary: xs n)
  case Nil
  then show ?case by (cases n) auto
next
  case (Cons y ys)
  obtain m where n: "n = Suc m" using Cons.prems(3) by (cases n) auto
  have "y \<noteq> 0" using items_pos [OF Cons.prems(1)] Cons.prems(2) by (cases "y = 0") auto
  moreover have "step st y = Some (y, hd (ys @ [0]))"
    using step_next [OF Cons.prems(1,2)] .
  moreover have "iter_all (step st) m (hd (ys @ [0])) = Some ys"
    using Cons.prems n by (intro Cons.IH [of "xs @ [y]"]) auto
  ultimately show ?case using n by simp
qed

lemma collect_all:
  assumes "ok st" "length (items st) < n"
  shows "(do { c \<leftarrow> start st; iter_all (step st) n c }) = Some (items st)"
  using start_first [OF assms(1)] collect_from [OF assms(1), of "[]" "items st" n] assms(2) by simp

end

definition seg_items :: "nat \<Rightarrow> 'a store_scheme \<Rightarrow> nat list" where
  "seg_items s st = (case st_segs st s of None \<Rightarrow> [] | Some g \<Rightarrow> sg_list g)"

definition seg_listed :: "nat \<Rightarrow> 'a store_scheme \<Rightarrow> bool" where
  "seg_listed s st \<longleftrightarrow> (\<exists>g. st_segs st s = Some g \<and> list_ok st g)"

lemma ring_succ_append: "distinct (xs @ x # ys) \<Longrightarrow> ring_succ (xs @ x # ys) x = hd (ys @ [0])"
  by (induction xs) (auto split: list.split)

lemma seg_items_pos: "seg_listed s st \<Longrightarrow> 0 \<notin> set (seg_items s st)"
  by (auto simp: seg_listed_def seg_items_def list_ok_def)

lemma seg_iter_start: "seg_listed s st \<Longrightarrow> seg_iter_new s st = Some (hd (seg_items s st @ [0]))"
  by (auto simp: seg_listed_def seg_items_def seg_iter_new_def split: list.split)

lemma seg_iter_step:
  assumes "seg_listed s st" "seg_items s st = xs @ x # ys"
  shows "seg_iter_next s x st = Some (x, hd (ys @ [0]))"
proof -
  have "x \<noteq> 0" using seg_items_pos [OF assms(1)] assms(2) by (cases "x = 0") auto
  moreover have "distinct (xs @ x # ys)"
    using assms by (auto simp: seg_listed_def seg_items_def list_ok_def)
  ultimately show ?thesis
    using assms ring_succ_append [of xs x ys]
    by (auto simp: seg_iter_next_def seg_listed_def seg_items_def)
qed

interpretation elements_iter: seg_cursor "seg_listed s" "seg_items s" "seg_iter_new s"
  "\<lambda>st c. seg_iter_next s c st" for s :: nat
  by unfold_locales (rule seg_items_pos seg_iter_start seg_iter_step; assumption)+

definition link_items :: "nat \<Rightarrow> 'a store_scheme \<Rightarrow> nat list" where
  "link_items s st = filter (is_link_at st) (seg_items s st)"

lemma seg_items_links:
  assumes "seg_listed s st"
  shows "seg_items s st = link_items s st @ filter (\<lambda>a. \<not> is_link_at st a) (seg_items s st)"
  using assms by (auto simp: seg_listed_def seg_items_def list_ok_def links_first_def link_items_def)

lemma link_stop_eq:
  assumes "seg_listed s st" "c \<in> set (seg_items s st)"
  shows "link_stop c st = Some (if is_link_at st c then c else 0)"
proof -
  have "c \<noteq> 0" using seg_items_pos [OF assms(1)] assms(2) by (cases "c = 0") auto
  moreover obtain g where "st_segs st s = Some g" "list_ok st g" "c \<in> set (sg_list g)"
    using assms by (auto simp: seg_listed_def seg_items_def)
  then obtain e where "st_els st c = Some e" unfolding list_ok_def by blast
  ultimately show ?thesis by (auto simp: link_stop_def sg_is_link_def is_link_at_def)
qed

lemma link_stop_head: "link_stop 0 st = None"
  by (simp add: link_stop_def)

text \<open>The iterator needs an element after the links.\<close>

definition links_end :: "nat \<Rightarrow> 'a store_scheme \<Rightarrow> bool" where
  "links_end s st \<longleftrightarrow> seg_listed s st \<and> (\<exists>a \<in> set (seg_items s st). \<not> is_link_at st a)"

lemma links_endE:
  assumes "links_end s st"
  obtains n ns where "seg_items s st = link_items s st @ n # ns" "\<not> is_link_at st n"
proof (cases "filter (\<lambda>a. \<not> is_link_at st a) (seg_items s st)")
  case Nil
  then show thesis using assms by (auto simp: links_end_def filter_empty_conv)
next
  case (Cons n ns)
  have "n \<in> set (filter (\<lambda>a. \<not> is_link_at st a) (seg_items s st))" unfolding Cons by simp
  then have "\<not> is_link_at st n" by simp
  moreover have "seg_items s st = link_items s st @ n # ns"
    using seg_items_links [of s st] assms unfolding Cons links_end_def by blast
  ultimately show thesis using that by blast
qed

lemma hd_prefix:
  assumes "\<forall>a \<in> set ls. is_link_at st a" "\<not> is_link_at st n"
  shows "(if is_link_at st (hd (ls @ n # ns)) then hd (ls @ n # ns) else 0) = hd (ls @ [0])"
  using assms by (cases ls) auto

lemma links_iter_start:
  assumes "links_end s st"
  shows "links_iter_new s st = Some (hd (link_items s st @ [0]))"
proof -
  obtain n ns where n: "seg_items s st = link_items s st @ n # ns" "\<not> is_link_at st n" using assms by (rule links_endE)
  have ok: "seg_listed s st" using assms by (simp add: links_end_def)
  have hd: "hd (seg_items s st @ [0]) = hd (link_items s st @ n # ns)" "hd (link_items s st @ n # ns) \<in> set (seg_items s st)"
    using n(1) by (cases "link_items s st"; simp)+
  have "links_iter_new s st = link_stop (hd (link_items s st @ n # ns)) st"
    using seg_iter_start [OF ok] hd(1) by (simp add: links_iter_new_def)
  also have "\<dots> = Some (hd (link_items s st @ [0]))"
    unfolding link_stop_eq [OF ok hd(2)] using n(2) by (subst hd_prefix) (auto simp: link_items_def)
  finally show ?thesis .
qed

lemma links_iter_step:
  assumes "links_end s st" "link_items s st = xs @ x # ys"
  shows "links_iter_next s x st = Some (x, hd (ys @ [0]))"
proof -
  obtain n ns where n: "seg_items s st = link_items s st @ n # ns" "\<not> is_link_at st n" using assms(1) by (rule links_endE)
  have ok: "seg_listed s st" using assms(1) by (simp add: links_end_def)
  have eq: "seg_items s st = xs @ x # (ys @ n # ns)" using n(1) assms(2) by simp
  have x: "x \<noteq> 0" using seg_items_pos [OF ok] eq by (cases "x = 0") auto
  have hd: "hd ((ys @ n # ns) @ [0]) = hd (ys @ n # ns)" "hd (ys @ n # ns) \<in> set (seg_items s st)"
    unfolding eq by (cases ys; simp)+
  have "\<forall>a \<in> set (xs @ x # ys). is_link_at st a" unfolding assms(2) [symmetric] by (simp add: link_items_def)
  then have "(if is_link_at st (hd (ys @ n # ns)) then hd (ys @ n # ns) else 0) = hd (ys @ [0])"
    using n(2) by (intro hd_prefix) auto
  then show ?thesis
    using seg_iter_step [OF ok eq] x link_stop_eq [OF ok hd(2)] unfolding hd(1) by (simp add: links_iter_next_def)
qed

text \<open>Where nothing follows the links, the iterator asks the head.\<close>

lemma links_iter_empty: "seg_listed s st \<Longrightarrow> seg_items s st = [] \<Longrightarrow> links_iter_new s st = None"
  using seg_iter_start [of s st] by (simp add: links_iter_new_def link_stop_head)

lemma links_iter_last:
  assumes "seg_listed s st" "seg_items s st = xs @ [x]"
  shows "links_iter_next s x st = None"
proof -
  have "x \<noteq> 0" using seg_items_pos [OF assms(1)] assms(2) by (cases "x = 0") auto
  then show ?thesis using seg_iter_step [OF assms] by (simp add: links_iter_next_def link_stop_head)
qed

lemma link_items_pos: "links_end s st \<Longrightarrow> 0 \<notin> set (link_items s st)"
  using seg_items_pos [of s st] by (auto simp: link_items_def links_end_def)

interpretation links_iter: seg_cursor "links_end s" "link_items s" "links_iter_new s"
  "\<lambda>st c. links_iter_next s c st" for s :: nat
  by unfold_locales (rule link_items_pos links_iter_start links_iter_step; assumption)+

lemma seg_ok_cong:
  assumes "st_els st' = st_els st" "st_segs st' = st_segs st"
  shows "seg_ok md5 s st' = seg_ok md5 s st"
proof -
  have "named st' = named st" "is_link_at st' = is_link_at st" "seg_sig st' = seg_sig st"
    using assms(1) by (intro ext, simp add: named_def is_link_at_def seg_sig_def)+
  then show ?thesis
    using assms by (simp add: seg_ok_def list_ok_def links_first_def names_ok_def conts_ok_def)
qed

lemma hex_zero: "hex_nat 0 = ''0''"
  by code_simp

section \<open>Properties\<close>

text \<open>C20. Identifiers of a segment are a partial injection that \<open>set_idtf\<close> updates: a name held by
  another element is refused and nothing changes; otherwise the element gets the name, loses its
  former one, and every other lookup answers as before; the empty name erases; the segment's
  invariant is kept.\<close>

theorem set_idtf_functional:
  assumes "seg_ok md5 s st" "st_segs st s = Some g" "a \<in> set (sg_list g)" "\<not> is_link_at st a"
  shows "if n \<noteq> '''' \<and> name_of_seg g n \<noteq> 0 \<and> name_of_seg g n \<noteq> a
    then sg_set_idtf s a n st = Some (RV_ERR_GEN, st)
    else \<exists>st'. sg_set_idtf s a n st = Some (RV_OK, st') \<and> seg_ok md5 s st' \<and>
      (\<forall>m. sg_find_by_idtf s m st' = Some (if m = n \<and> n \<noteq> '''' then a
         else if name_of_seg g m = a then 0 else name_of_seg g m))"
proof -
  have ok: "list_ok st g" "names_ok st g" "conts_ok md5 st g" using assms(1,2) by (auto simp: seg_ok_def)
  have a0: "a \<noteq> 0" using ok(1) assms(3) by (auto simp: list_ok_def)
  obtain e where e: "st_els st a = Some e" using ok(1) assms(3) by (auto simp: list_ok_def)
  have nl: "\<not> el_is_link e" using assms(4) e by (simp add: is_link_at_def)
  have has: "name_of_seg g m = a \<longleftrightarrow> el_has_idtf e \<and> el_idtf e = m" for m
    using name_of_seg_iff [OF ok(2) a0] assms(3) e nl by (simp add: named_def)
  consider (er) "n = ''''" | (own) "n \<noteq> ''''" "name_of_seg g n = a"
    | (new) "n \<noteq> ''''" "name_of_seg g n = 0"
    | (taken) "n \<noteq> ''''" "name_of_seg g n \<noteq> 0" "name_of_seg g n \<noteq> a" by blast
  then show ?thesis
  proof cases
    case er
    obtain st' g' where st': "sg_erase_idtf s a st = Some (RV_OK, st')" "st_segs st' s = Some g'"
      "list_ok st' g'" "names_ok st' g'" "conts_ok md5 st' g'"
      "\<forall>m. name_of_seg g' m = (if name_of_seg g m = a then 0 else name_of_seg g m)"
      using erase_idtf_spec [OF ok assms(2,3) e nl] by blast
    have "sg_set_idtf s a n st = Some (RV_OK, st')"
      using e nl assms(2) er st'(1) by (simp add: sg_set_idtf_def)
    then show ?thesis using er st' find_by_idtf_eq [of st' s] by (auto simp: seg_ok_def)
  next
    case own
    then have "sg_set_idtf s a n st = Some (RV_OK, st)"
      using e nl assms(2) has by (simp add: sg_set_idtf_def)
    then show ?thesis using own assms(1,2) find_by_idtf_eq [of st s] has by auto
  next
    case new
    obtain g' where g': "sg_set_idtf s a n st = Some (RV_OK, upd1 s a (el_set_idtf n e) g' st)"
      "list_ok (upd1 s a (el_set_idtf n e) g' st) g'" "names_ok (upd1 s a (el_set_idtf n e) g' st) g'"
      "conts_ok md5 (upd1 s a (el_set_idtf n e) g' st) g'"
      "\<forall>m. name_of_seg g' m = (if m = n then a else if name_of_seg g m = a then 0 else name_of_seg g m)"
      using set_idtf_new [OF ok assms(2,3) e nl new] by blast
    then show ?thesis
      using new find_by_idtf_eq [of "upd1 s a (el_set_idtf n e) g' st" s] by (auto simp: seg_ok_def)
  next
    case taken
    then obtain b where "map_of (sg_idtf_map g) n = Some b"
      by (auto simp: name_of_seg_def split: option.splits)
    then show ?thesis
      using taken e nl assms(2) has by (simp add: sg_set_idtf_def register_idtf_def)
  qed
qed

lemma store1_seg:
  "seg_ok md5 1 store1" "\<exists>g. st_segs store1 1 = Some g \<and> sg_list g = [2, 3, 4] \<and> sg_idtf_map g = []"
  "\<not> is_link_at store1 2"
  by (simp_all add: store1_def store0_def sg_gen_el_def create_element_def upd_seg_def Let_def
      new_segment_def seg_ok_def list_ok_def links_first_def is_link_at_def names_ok_def named_def
      conts_ok_def ci_inv_def seg_sig_def calc_signature_def content_bytes_def)

theorem set_idtf_functional_witness:
  "\<exists>st. sg_set_idtf 1 2 ''x'' store1 = Some (RV_OK, st) \<and> sg_find_by_idtf 1 ''x'' st = Some 2"
proof -
  obtain g where g: "st_segs store1 1 = Some g" "sg_list g = [2, 3, 4]" "sg_idtf_map g = []"
    using store1_seg(2) by blast
  have a: "2 \<in> set (sg_list g)" using g(2) by simp
  show ?thesis
    using set_idtf_functional [OF store1_seg(1) [of "\<lambda>b. b"] g(1) a store1_seg(3), of "''x''"] g(3)
    by (auto simp: name_of_seg_def)
qed

text \<open>Asking for the identifier of an element that has none registers a generated name for it:
  the segment keeps its invariant and finds the element under that name. When the generated name is
  already taken the program aborts.\<close>

theorem get_idtf_generates:
  assumes "seg_ok md5 s st" "st_segs st s = Some g" "a \<in> set (sg_list g)" "\<not> is_link_at st a"
    and "\<forall>m. \<not> named st a m"
    and "n = ''@@'' @ sg_prefix g @ ''@'' @ hex_nat (unat (st_idtf_counter st))"
  shows "if name_of_seg g n \<noteq> 0 then sg_get_idtf s a st = None
    else \<exists>st'. sg_get_idtf s a st = Some (n, st') \<and> seg_ok md5 s st' \<and>
      sg_find_by_idtf s n st' = Some a \<and> st_idtf_counter st' = st_idtf_counter st + 1"
proof -
  have ok: "list_ok st g" "names_ok st g" "conts_ok md5 st g" using assms(1,2) by (auto simp: seg_ok_def)
  obtain e where e: "st_els st a = Some e" using ok(1) assms(3) by (auto simp: list_ok_def)
  have nl: "\<not> el_is_link e" using assms(4) e by (simp add: is_link_at_def)
  have nh: "\<not> el_has_idtf e" using assms(5) e nl by (auto simp: named_def)
  show ?thesis
  proof (cases "name_of_seg g n = 0")
    case False
    then obtain b where "map_of (sg_idtf_map g) n = Some b"
      by (auto simp: name_of_seg_def split: option.splits)
    then show ?thesis
      using False e nl nh assms(2,6)
      by (simp add: sg_get_idtf_def generate_idtf_def register_idtf_def Let_def)
  next
    case True
    have n0: "n \<noteq> ''''" using assms(6) by simp
    obtain g' where g': "sg_set_idtf s a n st = Some (RV_OK, upd1 s a (el_set_idtf n e) g' st)"
      "list_ok (upd1 s a (el_set_idtf n e) g' st) g'" "names_ok (upd1 s a (el_set_idtf n e) g' st) g'"
      "conts_ok md5 (upd1 s a (el_set_idtf n e) g' st) g'"
      "\<forall>m. name_of_seg g' m = (if m = n then a else if name_of_seg g m = a then 0 else name_of_seg g m)"
      using set_idtf_new [OF ok assms(2,3) e nl n0 True] by blast
    define st' where "st' = (upd1 s a (el_set_idtf n e) g' st)\<lparr>st_idtf_counter := st_idtf_counter st + 1\<rparr>"
    have free: "map_of (sg_idtf_map g) n = None"
    proof (rule ccontr)
      assume "map_of (sg_idtf_map g) n \<noteq> None"
      then obtain b where "map_of (sg_idtf_map g) n = Some b" by blast
      moreover from this have "b \<in> set (sg_list g)" using ok(2) by (auto simp: names_ok_def)
      ultimately show False using True ok(1) by (auto simp: name_of_seg_def list_ok_def)
    qed
    have get: "sg_get_idtf s a st = Some (n, st')"
    proof -
      have "st_segs (upd1 s a (el_set_idtf n e) g' st) s = st_segs (upd1 s a (el_set_idtf n e)
          (g\<lparr>sg_idtf_map := AList.update n a (sg_idtf_map g)\<rparr>) st) s"
      proof -
        have "sg_set_idtf s a n st = Some (RV_OK, upd1 s a (el_set_idtf n e)
          (g\<lparr>sg_idtf_map := AList.update n a (sg_idtf_map g)\<rparr>) st)"
          using e nl nh assms(2) n0 free
          by (simp add: sg_set_idtf_def register_idtf_def upd_seg_def upd_el_def upd1_def)
        then show ?thesis using g'(1) by simp
      qed
      then have "g' = g\<lparr>sg_idtf_map := AList.update n a (sg_idtf_map g)\<rparr>" by simp
      then show ?thesis
        using e nl nh assms(2) free unfolding st'_def
        by (simp add: sg_get_idtf_def generate_idtf_def register_idtf_def Let_def upd_seg_def upd_el_def
            upd1_def assms(6))
    qed
    have els: "st_els st' = st_els (upd1 s a (el_set_idtf n e) g' st)" "st_segs st' s = Some g'"
      by (simp_all add: st'_def)
    have "seg_ok md5 s st'"
      using g'(2-4) seg_ok_cong [of st' "upd1 s a (el_set_idtf n e) g' st" md5 s]
      by (auto simp: st'_def seg_ok_def)
    moreover have "sg_find_by_idtf s n st' = Some a"
      using g'(5) els(2) by (simp add: find_by_idtf_eq)
    ultimately show ?thesis using True get by (simp add: st'_def)
  qed
qed

theorem get_idtf_generates_witness:
  "\<exists>st. sg_get_idtf 1 2 store1 = Some (''@@p@0'', st) \<and> sg_find_by_idtf 1 ''@@p@0'' st = Some 2"
proof -
  obtain g where g: "st_segs store1 1 = Some g" "sg_list g = [2, 3, 4]" "sg_idtf_map g = []"
    using store1_seg(2) by blast
  have a: "2 \<in> set (sg_list g)" using g(2) by simp
  have un: "\<forall>m. \<not> named store1 2 m" and p: "sg_prefix g = ''p''" "st_idtf_counter store1 = 0"
    using g(1) by (auto simp: named_def store1_def store0_def sg_gen_el_def create_element_def
        upd_seg_def Let_def new_segment_def)
  have n: "''@@p@0'' = ''@@'' @ sg_prefix g @ ''@'' @ hex_nat (unat (st_idtf_counter store1))"
    by (simp add: p hex_zero)
  show ?thesis
    using get_idtf_generates [OF store1_seg(1) [of "\<lambda>b. b"] g(1) a store1_seg(3) un n] g(3)
    by (auto simp: name_of_seg_def)
qed

lemma set_content_lazy:
  assumes "conts_ok md5 st g" "st_segs st s = Some g" "a \<in> set (sg_list g)" "st_els st a = Some e" "\<not> el_is_link e"
    and c: "cont_type c = 5"
  shows "sg_set_content md5 s a c st = None"
proof -
  have inv: "ci_inv (sg_cindex g) (seg_sig st g)" using assms(1) by (simp add: conts_ok_def)
  have "seg_sig st g a = el_sig e" using assms(3,4) by (simp add: seg_sig_def)
  then have "ci_update md5 a (el_sig e) c (sg_cindex g) = None"
    using ci_clear_inv [OF inv, of a] c calc_signature_None [of md5 c]
    by (auto simp: ci_update_def is_indexed_type_def)
  then show ?thesis
    using assms(2,4,5) c by (simp add: sg_set_content_def upd_el_def update_cindex_def)
qed

text \<open>The search in a segment whose index is exact, for the content of one of its elements.\<close>

lemma find_by_content_spec:
  assumes "st_segs st s = Some g" "conts_ok md5 st g" "content_bytes c = Some b"
    and "a \<in> set (sg_list g)" "st_els st a = Some e" "el_cont e = c"
  shows "\<exists>l. sg_find_by_content md5 s c [] st = Some (True, l) \<and> distinct l \<and> a \<in> set l \<and>
    set l = {x \<in> set (sg_list g). \<exists>e b'. st_els st x = Some e \<and> content_bytes (el_cont e) = Some b' \<and> md5 b' = md5 b}"
proof -
  let ?conts = "\<lambda>x. if x \<in> set (sg_list g) then (case st_els st x of None \<Rightarrow> CEmpty | Some e \<Rightarrow> el_cont e) else CEmpty"
  have inv: "ci_inv (sg_cindex g) (seg_sig st g)" using assms(2) by (simp add: conts_ok_def)
  have sg: "\<forall>x. seg_sig st g x = calc_signature md5 (?conts x)"
    using assms(2) by (auto simp: conts_ok_def seg_sig_def calc_signature_def content_bytes_def split: option.split)
  from ci_find_spec [OF inv sg assms(3)] obtain l where
    l: "ci_find md5 c (sg_cindex g) = Some l" "distinct l"
      "set l = {x. \<exists>b'. content_bytes (?conts x) = Some b' \<and> md5 b' = md5 b}" by blast
  have set_l: "set l = {x \<in> set (sg_list g). \<exists>e b'. st_els st x = Some e \<and> content_bytes (el_cont e) = Some b' \<and> md5 b' = md5 b}"
    unfolding l(3) by (auto simp: content_bytes_def split: option.splits)
  have "a \<in> set l" unfolding set_l using assms(3-6) by simp
  moreover from this have "l \<noteq> []" by auto
  ultimately show ?thesis using l(1,2) set_l assms(1) by (intro exI [of _ l]) (simp add: sg_find_by_content_def)
qed

text \<open>C21. Setting a content that is loaded makes the element findable by it: the search in the
  segment returns exactly the elements whose contents have bytes with the same checksum, the element
  among them, and the invariant is kept; these are the elements with the same bytes when the checksum
  tells the new content from the others of the segment. Setting an unloaded content aborts the
  program.\<close>

theorem set_content_indexed:
  assumes "seg_ok md5 s st" "st_segs st s = Some g" "a \<in> set (sg_list g)" "\<not> is_link_at st a"
  shows "(cont_type c = 5 \<longrightarrow> sg_set_content md5 s a c st = None) \<and>
    (\<forall>b. content_bytes c = Some b \<longrightarrow>
       (\<exists>st' l. sg_set_content md5 s a c st = Some (RV_OK, st') \<and> seg_ok md5 s st' \<and>
          sg_find_by_content md5 s c [] st' = Some (True, l) \<and> distinct l \<and> a \<in> set l \<and>
          set l = {x \<in> set (sg_list g). \<exists>e b'. st_els st' x = Some e \<and> content_bytes (el_cont e) = Some b' \<and> md5 b' = md5 b} \<and>
          ((\<forall>x \<in> set (sg_list g). \<forall>e b'. st_els st x = Some e \<longrightarrow> content_bytes (el_cont e) = Some b' \<longrightarrow> md5 b' = md5 b \<longrightarrow> b' = b) \<longrightarrow>
            set l = {x \<in> set (sg_list g). \<exists>e. st_els st' x = Some e \<and> content_bytes (el_cont e) = Some b})))"
proof (intro conjI allI impI)
  have ok: "list_ok st g" "names_ok st g" "conts_ok md5 st g" using assms(1,2) by (auto simp: seg_ok_def)
  obtain e where e: "st_els st a = Some e" using ok(1) assms(3) by (auto simp: list_ok_def)
  have nl: "\<not> el_is_link e" using assms(4) e by (simp add: is_link_at_def)
  show "sg_set_content md5 s a c st = None" if "cont_type c = 5"
    using that by (rule set_content_lazy [OF ok(3) assms(2,3) e nl])
  fix b assume b: "content_bytes c = Some b"
  then have c: "cont_type c \<noteq> 5" by (cases c) (auto simp: content_bytes_def)
  let ?e = "e\<lparr>el_cont := c, el_sig := calc_signature md5 c\<rparr>"
  from update_cindex_spec [OF ok assms(2,3) e c] obtain g' where
    g': "(do { st \<leftarrow> upd_el a (\<lambda>e. e\<lparr>el_cont := c\<rparr>) st; update_cindex md5 s a st }) =
      Some (upd1 s a ?e g' st)" "list_ok (upd1 s a ?e g' st) g'" "names_ok (upd1 s a ?e g' st) g'"
      "conts_ok md5 (upd1 s a ?e g' st) g'" "sg_list g' = sg_list g"
    by blast
  let ?st = "upd1 s a ?e g' st"
  have set: "sg_set_content md5 s a c st = Some (RV_OK, ?st)" "seg_ok md5 s ?st"
    using e nl g' by (auto simp: sg_set_content_def upd_el_def seg_ok_def)
  obtain l where l: "sg_find_by_content md5 s c [] ?st = Some (True, l)" "distinct l" "a \<in> set l"
    "set l = {x \<in> set (sg_list g). \<exists>e b'. st_els ?st x = Some e \<and> content_bytes (el_cont e) = Some b' \<and> md5 b' = md5 b}"
    using find_by_content_spec [of ?st s g' md5 c b a ?e] g'(4,5) b assms(3) by auto
  have "set l = {x \<in> set (sg_list g). \<exists>e. st_els ?st x = Some e \<and> content_bytes (el_cont e) = Some b}"
    if tells: "\<forall>x \<in> set (sg_list g). \<forall>e b'. st_els st x = Some e \<longrightarrow> content_bytes (el_cont e) = Some b' \<longrightarrow> md5 b' = md5 b \<longrightarrow> b' = b"
  proof -
    have "b' = b" if "x \<in> set (sg_list g)" "st_els ?st x = Some e" "content_bytes (el_cont e) = Some b'" "md5 b' = md5 b" for x e b'
      using that tells b by (cases "x = a") auto
    then show ?thesis unfolding l(4) by blast
  qed
  then show "\<exists>st' l. sg_set_content md5 s a c st = Some (RV_OK, st') \<and> seg_ok md5 s st' \<and>
      sg_find_by_content md5 s c [] st' = Some (True, l) \<and> distinct l \<and> a \<in> set l \<and>
      set l = {x \<in> set (sg_list g). \<exists>e b'. st_els st' x = Some e \<and> content_bytes (el_cont e) = Some b' \<and> md5 b' = md5 b} \<and>
      ((\<forall>x \<in> set (sg_list g). \<forall>e b'. st_els st x = Some e \<longrightarrow> content_bytes (el_cont e) = Some b' \<longrightarrow> md5 b' = md5 b \<longrightarrow> b' = b) \<longrightarrow>
        set l = {x \<in> set (sg_list g). \<exists>e. st_els st' x = Some e \<and> content_bytes (el_cont e) = Some b})"
    using set l by blast
qed

theorem set_content_indexed_witness:
  "\<exists>st l. sg_set_content (take 16) 1 2 (CString [104, 0]) store1 = Some (RV_OK, st)
     \<and> sg_find_by_content (take 16) 1 (CString [104, 0]) [] st = Some (True, l) \<and> 2 \<in> set l"
proof -
  obtain g where g: "st_segs store1 1 = Some g" "sg_list g = [2, 3, 4]" "sg_idtf_map g = []"
    using store1_seg(2) by blast
  have a: "2 \<in> set (sg_list g)" using g(2) by simp
  have b: "content_bytes (CString [104, 0]) = Some [104, 0]" by (simp add: content_bytes_def)
  show ?thesis
    using set_content_indexed [OF store1_seg(1) g(1) a store1_seg(3), of "CString [104, 0]"] b
    by blast
qed

text \<open>C30. The two iterators of a segment. The iterator over elements visits every element of
  the segment once, in order. The iterator over links, which stops at the first element that is no
  link, visits every link and nothing else when some element of the segment is no link. In a segment
  without such an element it reads outside of the segment: its constructor when the segment is
  empty, and otherwise its step from the last element, because it asks the head of the list, which
  is no element, whether it is a link.\<close>

theorem segment_iterators_complete:
  assumes "seg_ok md5 s st" "st_segs st s = Some g" "length (sg_list g) < n"
  shows "(do { c \<leftarrow> seg_iter_new s st; iter_all (\<lambda>c. seg_iter_next s c st) n c }) = Some (sg_list g)
    \<and> ((\<exists>a \<in> set (sg_list g). \<not> is_link_at st a) \<longrightarrow>
        (do { c \<leftarrow> links_iter_new s st; iter_all (\<lambda>c. links_iter_next s c st) n c }) =
          Some (filter (is_link_at st) (sg_list g)))
    \<and> (sg_list g = [] \<longrightarrow> links_iter_new s st = None)
    \<and> (sg_list g \<noteq> [] \<longrightarrow> links_iter_next s (last (sg_list g)) st = None)"
proof -
  have ok: "seg_listed s st" using assms(1) by (auto simp: seg_ok_def seg_listed_def)
  have it: "seg_items s st = sg_list g" using assms(2) by (simp add: seg_items_def)
  have "length (link_items s st) < n"
    using le_less_trans [OF length_filter_le assms(3)] by (simp add: link_items_def it)
  then have links: "(do { c \<leftarrow> links_iter_new s st; iter_all (\<lambda>c. links_iter_next s c st) n c }) =
      Some (filter (is_link_at st) (sg_list g))" if "\<exists>a \<in> set (sg_list g). \<not> is_link_at st a"
    using that ok links_iter.collect_all [of s st n] by (simp add: links_end_def link_items_def it)
  have "links_iter_next s (last (sg_list g)) st = None" if "sg_list g \<noteq> []"
    using that links_iter_last [OF ok, of "butlast (sg_list g)" "last (sg_list g)"] it by simp
  then show ?thesis
    using elements_iter.collect_all [OF ok] links_iter_empty [OF ok] links assms(3) by (simp add: it)
qed

definition store_link :: store where
  "store_link = (case sg_create_link 1 ''/t'' store1 of None \<Rightarrow> store0 | Some (c, st) \<Rightarrow> st)"

lemma store_link_seg:
  "seg_ok md5 1 store_link" "\<exists>g. st_segs store_link 1 = Some g \<and> sg_list g = [5, 2, 3, 4]"
  "is_link_at store_link 5" "\<not> is_link_at store_link 2" "\<not> is_link_at store_link 3" "\<not> is_link_at store_link 4"
  by (simp_all add: store_link_def sg_create_link_def store1_def store0_def sg_gen_el_def create_element_def upd_seg_def upd_el_def
      Let_def new_element_def el_is_link_def is_link_bit el_has_idtf_def
      new_segment_def seg_ok_def list_ok_def links_first_def is_link_at_def names_ok_def named_def
      conts_ok_def ci_inv_def seg_sig_def calc_signature_def content_bytes_def)

theorem segment_iterators_complete_witness:
  "(do { c \<leftarrow> seg_iter_new 1 store_link; iter_all (\<lambda>c. seg_iter_next 1 c store_link) 5 c }) = Some [5, 2, 3, 4]
   \<and> (do { c \<leftarrow> links_iter_new 1 store_link; iter_all (\<lambda>c. links_iter_next 1 c store_link) 5 c }) = Some [5]
   \<and> links_iter_next 1 4 store_link = None"
proof -
  obtain g where g: "st_segs store_link 1 = Some g" "sg_list g = [5, 2, 3, 4]"
    using store_link_seg(2) by blast
  have n: "length (sg_list g) < 5" using g(2) by simp
  show ?thesis
    using segment_iterators_complete [OF store_link_seg(1) [of "\<lambda>b. b"] g(1) n] g(2) store_link_seg(3-6) by simp
qed

end
