(* ===== verification/Seg_Table.thy ===== *)
theory Seg_Table
  imports Sc_Prelude
begin

text \<open>
  The segment table and the segment bit set (\<open>libsc/libsc/segtable.h\<close>). A segment is named by
  a number; \<open>segment_table\<close> is the array of \<open>SC_MAX_SEGMENTS\<close> pointers, \<open>None\<close> for a null
  pointer. A \<open>segment_set\<close> is the array of 32-bit words that every session keeps for its opened
  segments; the \<open>assert\<close> on the index is the \<open>None\<close> result. \<open>segs_of\<close> reads a set as the
  list of its indices, the specification that the operations and the macro
  \<open>FOR_ALL_SEGMENTS\<close> are proved against.
\<close>

section \<open>The table\<close>

definition SC_MAX_SEGMENTS :: nat where
  "SC_MAX_SEGMENTS = 1024"

type_synonym segment_table = "nat option list"

definition segment_table_new :: segment_table where
  "segment_table_new = replicate SC_MAX_SEGMENTS None"

text \<open>The loop of \<open>segment_table::assign\<close>; \<open>None\<close> is the exception \<open>segments_exausted\<close>.\<close>

fun assign_from :: "segment_table \<Rightarrow> nat \<Rightarrow> nat option" where
  "assign_from [] i = None"
| "assign_from (None # _) i = Some i"
| "assign_from (Some _ # ts) i = assign_from ts (Suc i)"

definition segment_table_assign :: "segment_table \<Rightarrow> nat \<Rightarrow> (segment_table \<times> nat) option" where
  "segment_table_assign tab seg =
     (case assign_from tab 0 of None \<Rightarrow> None | Some i \<Rightarrow> Some (tab[i := Some seg], i))"

definition segment_table_release :: "segment_table \<Rightarrow> nat \<Rightarrow> segment_table option" where
  "segment_table_release tab i =
     (if i < length tab \<and> tab ! i \<noteq> None then Some (tab[i := None]) else None)"

section \<open>The bit set\<close>

type_synonym segment_set = "32 word list"

definition bpe :: nat where
  "bpe = 32"

definition segment_set_new :: segment_set where
  "segment_set_new = replicate ((SC_MAX_SEGMENTS + bpe - 1) div bpe) 0"

definition segset_set :: "nat \<Rightarrow> segment_set \<Rightarrow> segment_set option" where
  "segset_set i dat =
     (if i < SC_MAX_SEGMENTS
      then Some (dat[i div bpe := (dat ! (i div bpe)) OR push_bit (i mod bpe) 1]) else None)"

definition segset_reset :: "nat \<Rightarrow> segment_set \<Rightarrow> segment_set option" where
  "segset_reset i dat =
     (if i < SC_MAX_SEGMENTS
      then Some (dat[i div bpe := (dat ! (i div bpe)) AND ((- 1) XOR push_bit (i mod bpe) 1)])
      else None)"

definition segset_is_set :: "segment_set \<Rightarrow> nat \<Rightarrow> 32 word option" where
  "segset_is_set dat i =
     (if i < SC_MAX_SEGMENTS
      then Some ((dat ! (i div bpe)) AND push_bit (i mod bpe) 1) else None)"

text \<open>
  \<open>__segnext\<close>: the counter is a 32-bit unsigned that is incremented first, so the macro's start
  value \<open>UINT_MAX\<close> wraps to index 0. The result is the counter and the table's pointer when the
  loop stopped at a member.
\<close>

function segnext :: "segment_set \<Rightarrow> segment_table \<Rightarrow> 32 word \<Rightarrow> (32 word \<times> nat option) option" where
  "segnext dat tab c =
     (let c1 = c + 1 in
      if SC_MAX_SEGMENTS \<le> unat c1 then Some (c1, None)
      else if (dat ! (unat c1 div bpe)) AND push_bit (unat c1 mod bpe) 1 = 0
      then segnext dat tab c1
      else case tab ! unat c1 of None \<Rightarrow> None | Some seg \<Rightarrow> Some (c1, Some seg))"
  by pat_completeness auto
termination
proof (relation "measure (\<lambda>(dat, tab, c). SC_MAX_SEGMENTS - unat (c + 1))")
  show "wf (measure (\<lambda>(dat :: segment_set, tab :: segment_table, c :: 32 word).
      SC_MAX_SEGMENTS - unat (c + 1)))" by simp
next
  fix dat :: segment_set and tab :: segment_table and c x :: "32 word"
  assume x: "x = c + 1" and small: "\<not> SC_MAX_SEGMENTS \<le> unat x"
  then have "unat x + 1 < 2 ^ 32" by (simp add: SC_MAX_SEGMENTS_def)
  then have "unat (x + 1) = unat x + 1"
    by (simp add: unat_word_ariths)
  with x small show "((dat, tab, x), dat, tab, c) \<in> measure (\<lambda>(dat :: segment_set,
      tab :: segment_table, c :: 32 word). SC_MAX_SEGMENTS - unat (c + 1))"
    by simp
qed

declare segnext.simps [simp del]

lemma unat_succ_small: "unat (c :: 32 word) < SC_MAX_SEGMENTS \<Longrightarrow> unat (c + 1) = Suc (unat c)"
  by (simp add: SC_MAX_SEGMENTS_def unat_word_ariths)

lemma segnext_Some:
  "segnext dat tab c = Some (c1, Some seg) \<Longrightarrow>
     unat (c + 1) \<le> unat c1 \<and> unat c1 < SC_MAX_SEGMENTS"
proof (induction dat tab c rule: segnext.induct)
  case (1 dat tab c)
  show ?case
  proof (cases "unat (c + 1) < SC_MAX_SEGMENTS \<and>
      (dat ! (unat (c + 1) div bpe)) AND push_bit (unat (c + 1) mod bpe) 1 = 0")
    case True
    with "1.prems" have "segnext dat tab (c + 1) = Some (c1, Some seg)"
      by (subst (asm) segnext.simps) (simp add: Let_def)
    with "1.IH" True have "unat (c + 1 + 1) \<le> unat c1 \<and> unat c1 < SC_MAX_SEGMENTS"
      by simp
    moreover have "unat (c + 1 + 1) = Suc (unat (c + 1))"
      using True by (intro unat_succ_small) blast
    ultimately show ?thesis by linarith
  next
    case False
    with "1.prems" show ?thesis
      by (subst (asm) segnext.simps) (auto simp: Let_def split: if_splits option.splits)
  qed
qed

text \<open>The macro \<open>FOR_ALL_SEGMENTS\<close>: the segments its body runs on, in order, from a counter.\<close>

function segs_from :: "segment_set \<Rightarrow> segment_table \<Rightarrow> 32 word \<Rightarrow> nat list option" where
  "segs_from dat tab c =
     (case segnext dat tab c of
        None \<Rightarrow> None
      | Some (c1, None) \<Rightarrow> Some []
      | Some (c1, Some seg) \<Rightarrow> map_option ((#) seg) (segs_from dat tab c1))"
  by pat_completeness auto
termination
proof (relation "measure (\<lambda>(dat, tab, c). SC_MAX_SEGMENTS - unat (c + 1))")
  show "wf (measure (\<lambda>(dat :: segment_set, tab :: segment_table, c :: 32 word).
      SC_MAX_SEGMENTS - unat (c + 1)))" by simp
next
  fix dat :: segment_set and tab :: segment_table and c c1 :: "32 word" and x y seg
  assume "segnext dat tab c = Some x" "(c1, y) = x" "y = Some seg"
  then have "segnext dat tab c = Some (c1, Some seg)" by simp
  then have "unat (c + 1) \<le> unat c1 \<and> unat c1 < SC_MAX_SEGMENTS"
    by (rule segnext_Some)
  then show "((dat, tab, c1), dat, tab, c) \<in> measure (\<lambda>(dat :: segment_set,
      tab :: segment_table, c :: 32 word). SC_MAX_SEGMENTS - unat (c + 1))"
    using unat_succ_small [of c1] by (simp add: diff_less_mono2 less_Suc_eq_le)
qed

declare segs_from.simps [simp del]

definition for_all_segments :: "segment_set \<Rightarrow> segment_table \<Rightarrow> nat list option" where
  "for_all_segments dat tab = segs_from dat tab (- 1)"

section \<open>The specification: a set of indices\<close>

definition segset_ok :: "segment_set \<Rightarrow> bool" where
  "segset_ok dat \<longleftrightarrow> length dat = 32"

definition segset_mem :: "segment_set \<Rightarrow> nat \<Rightarrow> bool" where
  "segset_mem dat i \<longleftrightarrow> i < SC_MAX_SEGMENTS \<and> bit (dat ! (i div bpe)) (i mod bpe)"

lemma and_push_bit_zero: "(w :: 32 word) AND push_bit n 1 = 0 \<longleftrightarrow> \<not> bit w n"
  by (simp only: bit_iff_and_push_bit_not_eq_0 not_not)

lemma bit_or_push: "n < 32 \<Longrightarrow> bit ((w :: 32 word) OR push_bit n 1) m \<longleftrightarrow> m = n \<or> bit w m"
  by (cases "m < 32") (auto simp: bit_or_iff bit_exp_iff dest: bit_imp_le_length)

lemma bit_and_clear:
  "n < 32 \<Longrightarrow> bit ((w :: 32 word) AND ((- 1) XOR push_bit n 1)) m \<longleftrightarrow> m \<noteq> n \<and> bit w m"
  by (cases "m < 32")
    (auto simp: bit_and_iff bit_not_iff bit_exp_iff dest: bit_imp_le_length)

lemma is_set_mem: "segset_is_set dat i = Some w \<Longrightarrow> w \<noteq> 0 \<longleftrightarrow> segset_mem dat i"
  using and_push_bit_zero [of "dat ! (i div bpe)" "i mod bpe"]
  by (auto simp: segset_is_set_def segset_mem_def split: if_splits)

lemma is_set_defined: "i < SC_MAX_SEGMENTS \<Longrightarrow> \<exists>w. segset_is_set dat i = Some w"
  by (simp add: segset_is_set_def)

lemma segset_ok_new [simp]: "segset_ok segment_set_new"
  by (simp add: segset_ok_def segment_set_new_def SC_MAX_SEGMENTS_def bpe_def)

lemma segset_mem_new [simp]: "\<not> segset_mem segment_set_new i"
  by (simp add: segset_mem_def segment_set_new_def SC_MAX_SEGMENTS_def bpe_def)

lemma div_mod_eq_iff: "(i :: nat) div 32 = j div 32 \<and> i mod 32 = j mod 32 \<longleftrightarrow> i = j"
  by (metis div_mult_mod_eq)

lemma segset_ok_set: "segset_ok dat \<Longrightarrow> segset_set i dat = Some d \<Longrightarrow> segset_ok d"
  by (auto simp: segset_ok_def segset_set_def split: if_splits)

lemma segset_ok_reset: "segset_ok dat \<Longrightarrow> segset_reset i dat = Some d \<Longrightarrow> segset_ok d"
  by (auto simp: segset_ok_def segset_reset_def split: if_splits)

lemma bit_at_update:
  assumes "segset_ok dat" "i < 1024"
    and "\<And>m. bit w m \<longleftrightarrow> (if m = i mod 32 then v else bit (dat ! (i div 32)) m)"
  shows "bit (dat[i div 32 := w] ! (j div 32)) (j mod 32) \<longleftrightarrow>
    (if j = i then v else bit (dat ! (j div 32)) (j mod 32))"
proof -
  have "i div 32 < length dat"
    using assms(1,2) by (simp add: segset_ok_def)
  moreover have "j = i \<longleftrightarrow> i div 32 = j div 32 \<and> j mod 32 = i mod 32"
    using div_mod_eq_iff [of i j] by auto
  ultimately show ?thesis
    by (cases "i div 32 = j div 32") (simp_all add: assms(3))
qed

lemma segset_mem_set:
  assumes "segset_ok dat" "segset_set i dat = Some d"
  shows "segset_mem d j \<longleftrightarrow> j = i \<or> segset_mem dat j"
proof -
  from assms(2) have i: "i < 1024"
    and d: "d = dat[i div 32 := (dat ! (i div 32)) OR push_bit (i mod 32) 1]"
    by (simp_all only: segset_set_def SC_MAX_SEGMENTS_def bpe_def split: if_splits) simp_all
  have "bit (d ! (j div 32)) (j mod 32) \<longleftrightarrow> (if j = i then True else bit (dat ! (j div 32)) (j mod 32))"
    unfolding d by (rule bit_at_update [OF assms(1) i]) (simp only: bit_or_push, simp)
  then show ?thesis
    using i by (auto simp: segset_mem_def SC_MAX_SEGMENTS_def bpe_def)
qed

lemma segset_mem_reset:
  assumes "segset_ok dat" "segset_reset i dat = Some d"
  shows "segset_mem d j \<longleftrightarrow> j \<noteq> i \<and> segset_mem dat j"
proof -
  from assms(2) have i: "i < 1024"
    and d: "d = dat[i div 32 := (dat ! (i div 32)) AND ((- 1) XOR push_bit (i mod 32) 1)]"
    by (simp_all only: segset_reset_def SC_MAX_SEGMENTS_def bpe_def split: if_splits) simp_all
  have "bit (d ! (j div 32)) (j mod 32) \<longleftrightarrow> (if j = i then False else bit (dat ! (j div 32)) (j mod 32))"
    unfolding d by (rule bit_at_update [OF assms(1) i]) (subst bit_and_clear; simp)
  then show ?thesis
    using i by (auto simp: segset_mem_def SC_MAX_SEGMENTS_def bpe_def)
qed

section \<open>Iteration meets the specification\<close>

definition members_from :: "segment_set \<Rightarrow> nat \<Rightarrow> nat list" where
  "members_from dat i = filter (segset_mem dat) [i..<SC_MAX_SEGMENTS]"

lemma members_from_end: "SC_MAX_SEGMENTS \<le> i \<Longrightarrow> members_from dat i = []"
  by (simp add: members_from_def)

lemma members_from_step:
  "i < SC_MAX_SEGMENTS \<Longrightarrow> members_from dat i =
     (if segset_mem dat i then i # members_from dat (Suc i) else members_from dat (Suc i))"
  by (simp add: members_from_def upt_conv_Cons)

lemma filter_upt_tail: "filter P [a..<b] = j # js \<Longrightarrow> js = filter P [Suc j..<b]"
proof (induction "b - a" arbitrary: a)
  case (Suc n)
  then have "n = b - Suc a" and a: "a < b" by auto
  with Suc show ?case by (auto simp: upt_conv_Cons split: if_splits)
qed simp

lemma segnext_members:
  "segnext dat tab c =
     (case members_from dat (unat (c + 1)) of
        [] \<Rightarrow> segnext dat tab c
      | j # js \<Rightarrow> (case tab ! j of None \<Rightarrow> None | Some seg \<Rightarrow> Some (of_nat j, Some seg)))
   \<and> (members_from dat (unat (c + 1)) = [] \<longrightarrow> (\<exists>c1. segnext dat tab c = Some (c1, None)))"
proof (induction dat tab c rule: segnext.induct)
  case (1 dat tab c)
  let ?i = "unat (c + 1)"
  show ?case
  proof (cases "SC_MAX_SEGMENTS \<le> ?i")
    case True
    then show ?thesis
      by (simp add: members_from_end segnext.simps [of dat tab c] Let_def)
  next
    case small: False
    show ?thesis
    proof (cases "segset_mem dat ?i")
      case True
      then have "(dat ! (?i div bpe)) AND push_bit (?i mod bpe) 1 \<noteq> 0"
        using and_push_bit_zero [of "dat ! (?i div bpe)" "?i mod bpe"]
        unfolding segset_mem_def by blast
      with True small show ?thesis
        by (subst segnext.simps) (simp add: Let_def members_from_step split: option.splits)
    next
      case False
      with small have zero: "(dat ! (?i div bpe)) AND push_bit (?i mod bpe) 1 = 0"
        using and_push_bit_zero [of "dat ! (?i div bpe)" "?i mod bpe"]
        unfolding segset_mem_def by linarith
      with small have eq: "segnext dat tab c = segnext dat tab (c + 1)"
        by (subst segnext.simps) (simp add: Let_def)
      have "unat (c + 1 + 1) = Suc ?i"
        using small by (intro unat_succ_small) simp
      then have "members_from dat (unat (c + 1 + 1)) = members_from dat ?i"
        using False small by (simp add: members_from_step [of ?i])
      with "1.IH" small zero show ?thesis
        unfolding eq by simp
    qed
  qed
qed

lemma segs_from_members:
  assumes "\<And>j. segset_mem dat j \<Longrightarrow> tab ! j \<noteq> None"
  shows "segs_from dat tab c = Some (map (\<lambda>j. the (tab ! j)) (members_from dat (unat (c + 1))))"
  using assms
proof (induction dat tab c rule: segs_from.induct)
  case (1 dat tab c)
  show ?case
  proof (cases "members_from dat (unat (c + 1))")
    case Nil
    then obtain c1 where "segnext dat tab c = Some (c1, None)"
      using segnext_members [of dat tab c] by blast
    with Nil show ?thesis by (simp add: segs_from.simps [of dat tab c])
  next
    case (Cons j js)
    then have "j \<in> set (members_from dat (unat (c + 1)))" by simp
    then have "segset_mem dat j" by (simp add: members_from_def)
    with "1.prems" obtain seg where seg: "tab ! j = Some seg" by blast
    with Cons have next_eq: "segnext dat tab c = Some (of_nat j, Some seg)"
      using segnext_members [of dat tab c] by simp
    have j: "j < SC_MAX_SEGMENTS"
      using \<open>segset_mem dat j\<close> by (simp add: segset_mem_def)
    then have "unat (of_nat j :: 32 word) = j"
      by (simp add: SC_MAX_SEGMENTS_def unat_of_nat)
    with j have "unat ((of_nat j :: 32 word) + 1) = Suc j"
      by (metis unat_succ_small)
    moreover have "js = members_from dat (Suc j)"
      using Cons unfolding members_from_def by (rule filter_upt_tail)
    ultimately show ?thesis
      using "1.IH" [OF next_eq refl refl "1.prems"] Cons seg
      by (simp add: segs_from.simps [of dat tab c] next_eq)
  qed
qed

section \<open>Assignment of table slots\<close>

lemma assign_from_Some:
  "assign_from tab i = Some k \<Longrightarrow>
     i \<le> k \<and> k - i < length tab \<and> tab ! (k - i) = None \<and> (\<forall>j < k - i. tab ! j \<noteq> None)"
proof (induction tab i rule: assign_from.induct)
  case (3 x ts i)
  then have IH: "Suc i \<le> k" "k - Suc i < length ts" "ts ! (k - Suc i) = None"
    "\<forall>j < k - Suc i. ts ! j \<noteq> None" by auto
  then have k: "k - i = Suc (k - Suc i)" by simp
  show ?case
    unfolding k using IH by (auto simp: less_Suc_eq_0_disj)
qed auto

lemma assign_from_None: "assign_from tab i = None \<longleftrightarrow> (\<forall>j < length tab. tab ! j \<noteq> None)"
  by (induction tab i rule: assign_from.induct) (auto simp: less_Suc_eq_0_disj)

section \<open>Properties\<close>

text \<open>C38. A new segment gets the least free slot of the table, a slot no other segment has, and
  nothing else of the table changes; with a full table \<open>assign\<close> throws.\<close>

theorem segment_table_assign_least:
  "(segment_table_assign tab seg = Some (tab', i) \<longleftrightarrow>
      i < length tab \<and> tab ! i = None \<and> (\<forall>j < i. tab ! j \<noteq> None) \<and> tab' = tab[i := Some seg])
   \<and> (segment_table_assign tab seg = None \<longleftrightarrow> (\<forall>j < length tab. tab ! j \<noteq> None))"
proof (cases "assign_from tab 0")
  case None
  then have full: "\<forall>j < length tab. tab ! j \<noteq> None"
    by (simp only: assign_from_None)
  with None show ?thesis
    by (simp add: segment_table_assign_def)
next
  case (Some k)
  then have k: "k < length tab" "tab ! k = None" "\<forall>j < k. tab ! j \<noteq> None"
    using assign_from_Some [OF Some] by auto
  then have "i = k" if "i < length tab" "tab ! i = None" "\<forall>j < i. tab ! j \<noteq> None"
    using that by (metis linorder_neqE_nat)
  with k Some show ?thesis
    by (auto simp: segment_table_assign_def)
qed

theorem segment_table_assign_least_witness:
  "segment_table_assign [Some 7, None, None] 9 = Some ([Some 7, Some 9, None], 1)"
  using segment_table_assign_least [of "[Some 7, None, None]" 9 "[Some 7, Some 9, None]" 1]
  by simp

text \<open>C37. A \<open>segment_set\<close> behaves as a set of the indices below \<open>SC_MAX_SEGMENTS\<close>: \<open>set\<close> inserts,
  \<open>reset\<close> removes, \<open>is_set\<close> is membership, a fresh set is empty, and \<open>FOR_ALL_SEGMENTS\<close>, whose counter
  starts at \<open>UINT_MAX\<close> and wraps, visits the segments of exactly the members, once each and in
  ascending order of their index, when the table has a segment at every member.\<close>

theorem segment_set_correct:
  assumes "segset_ok dat" and "i < SC_MAX_SEGMENTS"
    and "\<And>j. segset_mem dat j \<Longrightarrow> tab ! j \<noteq> None"
  shows "(\<exists>d. segset_set i dat = Some d \<and> segset_ok d \<and> (\<forall>j. segset_mem d j \<longleftrightarrow> j = i \<or> segset_mem dat j))
    \<and> (\<exists>d. segset_reset i dat = Some d \<and> segset_ok d \<and>
          (\<forall>j. segset_mem d j \<longleftrightarrow> j \<noteq> i \<and> segset_mem dat j))
    \<and> (\<exists>w. segset_is_set dat i = Some w \<and> (w \<noteq> 0 \<longleftrightarrow> segset_mem dat i))
    \<and> for_all_segments dat tab =
        Some (map (\<lambda>j. the (tab ! j)) (filter (segset_mem dat) [0..<SC_MAX_SEGMENTS]))
    \<and> segset_ok segment_set_new \<and> (\<forall>j. \<not> segset_mem segment_set_new j)
    \<and> segset_is_set segment_set_new i = Some 0 \<and> for_all_segments segment_set_new tab = Some []"
proof (intro conjI)
  show "segset_ok segment_set_new" "\<forall>j. \<not> segset_mem segment_set_new j"
    by (simp_all add: segset_ok_new)
  show "segset_is_set segment_set_new i = Some 0"
    using is_set_defined [OF assms(2)] is_set_mem [of segment_set_new i] segset_mem_new by (metis (full_types))
  show "for_all_segments segment_set_new tab = Some []"
    using segs_from_members [of segment_set_new tab "- 1"] by (simp add: for_all_segments_def members_from_def)
  obtain d where d: "segset_set i dat = Some d"
    using assms(2) by (simp add: segset_set_def)
  then show "\<exists>d. segset_set i dat = Some d \<and> segset_ok d \<and> (\<forall>j. segset_mem d j \<longleftrightarrow> j = i \<or> segset_mem dat j)"
    using segset_mem_set [OF assms(1) d] segset_ok_set [OF assms(1) d] by blast
  obtain d where d: "segset_reset i dat = Some d"
    using assms(2) by (simp add: segset_reset_def)
  then show "\<exists>d. segset_reset i dat = Some d \<and> segset_ok d \<and> (\<forall>j. segset_mem d j \<longleftrightarrow> j \<noteq> i \<and> segset_mem dat j)"
    using segset_mem_reset [OF assms(1) d] segset_ok_reset [OF assms(1) d] by blast
  show "\<exists>w. segset_is_set dat i = Some w \<and> (w \<noteq> 0 \<longleftrightarrow> segset_mem dat i)"
    using is_set_defined [OF assms(2)] is_set_mem by blast
  show "for_all_segments dat tab =
      Some (map (\<lambda>j. the (tab ! j)) (filter (segset_mem dat) [0..<SC_MAX_SEGMENTS]))"
    using segs_from_members [OF assms(3), where c = "- 1"]
    by (simp add: for_all_segments_def members_from_def)
qed

theorem segment_set_correct_witness:
  "\<exists>d. segset_set 37 segment_set_new = Some d \<and> segset_mem d 37 \<and> \<not> segset_mem d 5"
proof -
  have i: "(37::nat) < SC_MAX_SEGMENTS" by (simp add: SC_MAX_SEGMENTS_def)
  have t: "\<And>j. segset_mem segment_set_new j \<Longrightarrow> [] ! j \<noteq> (None :: nat option)" by simp
  obtain d where d: "segset_set 37 segment_set_new = Some d"
    and mem: "\<forall>j. segset_mem d j \<longleftrightarrow> j = 37 \<or> segset_mem segment_set_new j"
    using segment_set_correct [OF segset_ok_new i t] by blast
  have "segset_mem d 37" "\<not> segset_mem d 5"
    by (simp_all only: mem segset_mem_new) simp_all
  with d show ?thesis by blast
qed

end
