(* ===== verification/List_Head.thy ===== *)
theory List_Head
  imports Sc_Prelude
begin

text \<open>
  The intrusive circular lists of \<open>libsc/libsc/sc_list_head.h\<close> at the level of the pointers. A
  node is a number, the heap holds the fields \<open>next\<close> and \<open>prev\<close> of every node. A list head and
  its items form a ring; \<open>ring hp h xs\<close> is the representation relation between the heap and the
  list of items in \<open>next\<close> order. The rest of the development works with these lists:
  \<open>prepend\<close> on a head adds at the end of the list, \<open>append\<close> on a head adds at its front.
\<close>

section \<open>Nodes and the operations\<close>

record heads =
  next_of :: "nat \<Rightarrow> nat"
  prev_of :: "nat \<Rightarrow> nat"

definition set_next :: "nat \<Rightarrow> nat \<Rightarrow> heads \<Rightarrow> heads" where
  "set_next n m hp = hp\<lparr>next_of := (next_of hp)(n := m)\<rparr>"

definition set_prev :: "nat \<Rightarrow> nat \<Rightarrow> heads \<Rightarrow> heads" where
  "set_prev n m hp = hp\<lparr>prev_of := (prev_of hp)(n := m)\<rparr>"

lemma heads_simps [simp]:
  "next_of (set_next n m hp) = (next_of hp)(n := m)" "prev_of (set_next n m hp) = prev_of hp"
  "next_of (set_prev n m hp) = next_of hp" "prev_of (set_prev n m hp) = (prev_of hp)(n := m)"
  by (simp_all add: set_next_def set_prev_def)

text \<open>The constructor \<open>__sc_listhead()\<close>: \<open>next = prev = this\<close>.\<close>

definition lh_new :: "nat \<Rightarrow> heads \<Rightarrow> heads" where
  "lh_new n hp = set_next n n (set_prev n n hp)"

definition lh_remove :: "nat \<Rightarrow> heads \<Rightarrow> heads" where
  "lh_remove n hp =
     (let hp = set_next (prev_of hp n) (next_of hp n) hp;
          hp = set_prev (next_of hp n) (prev_of hp n) hp;
          hp = set_prev n n hp
      in set_next n n hp)"

definition lh_link_after :: "nat \<Rightarrow> nat \<Rightarrow> heads \<Rightarrow> heads" where
  "lh_link_after this new hp =
     (let hp = set_prev new this hp;
          hp = set_prev (next_of hp this) new hp;
          hp = set_next new (next_of hp this) hp
      in set_next this new hp)"

definition lh_append :: "nat \<Rightarrow> nat \<Rightarrow> heads \<Rightarrow> heads option" where
  "lh_append this new hp =
     (if prev_of hp new = new \<and> next_of hp new = new then Some (lh_link_after this new hp)
      else None)"

definition lh_prepend :: "nat \<Rightarrow> nat \<Rightarrow> heads \<Rightarrow> heads option" where
  "lh_prepend this new hp =
     (if prev_of hp new = new \<and> next_of hp new = new then
        Some (let hp = set_next new this hp;
                  hp = set_next (prev_of hp this) new hp;
                  hp = set_prev new (prev_of hp this) hp
              in set_prev this new hp)
      else None)"

text \<open>
  The class for children with virtual methods (\<open>__sc_listhead_virtual\<close>, the base of every
  wait) differs in \<open>append\<close>: instead of an assertion it calls \<open>remove()\<close> on itself when the new
  node is still linked.
\<close>

definition lhv_append :: "nat \<Rightarrow> nat \<Rightarrow> heads \<Rightarrow> heads" where
  "lhv_append this new hp =
     (let hp = (if prev_of hp new \<noteq> new then lh_remove this hp else hp)
      in lh_link_after this new hp)"

section \<open>Rings\<close>

fun chain :: "heads \<Rightarrow> nat \<Rightarrow> nat list \<Rightarrow> nat \<Rightarrow> bool" where
  "chain hp a [] b \<longleftrightarrow> next_of hp a = b \<and> prev_of hp b = a"
| "chain hp a (x # xs) b \<longleftrightarrow> next_of hp a = x \<and> prev_of hp x = a \<and> chain hp x xs b"

definition ring :: "heads \<Rightarrow> nat \<Rightarrow> nat list \<Rightarrow> bool" where
  "ring hp h xs \<longleftrightarrow> distinct (h # xs) \<and> chain hp h xs h"

lemma chain_append [simp]:
  "chain hp a (xs @ x # ys) b \<longleftrightarrow> chain hp a xs x \<and> chain hp x ys b"
  by (induction xs arbitrary: a) auto

lemma chain_cong:
  assumes "\<And>n. n \<in> set (a # xs) \<Longrightarrow> next_of hp' n = next_of hp n"
    and "\<And>n. n \<in> set (xs @ [b]) \<Longrightarrow> prev_of hp' n = prev_of hp n"
  shows "chain hp' a xs b = chain hp a xs b"
  using assms by (induction xs arbitrary: a) auto

lemma chain_next: "chain hp a xs b \<Longrightarrow> next_of hp a = hd (xs @ [b])"
  by (cases xs) auto

lemma chain_prev: "chain hp a xs b \<Longrightarrow> prev_of hp b = last (a # xs)"
  by (induction xs arbitrary: a) auto

text \<open>Rotation: any node of a ring is a head of the ring.\<close>

lemma ring_rotate: "ring hp h (xs @ x # ys) \<Longrightarrow> ring hp x (ys @ h # xs)"
  by (auto simp: ring_def)

lemma ring_frame:
  assumes "ring hp g zs"
    and "\<And>n. n \<in> set (g # zs) \<Longrightarrow> next_of hp' n = next_of hp n \<and> prev_of hp' n = prev_of hp n"
  shows "ring hp' g zs"
proof -
  have "chain hp' g zs g = chain hp g zs g"
    using assms(2) by (intro chain_cong) auto
  with assms(1) show ?thesis by (simp add: ring_def)
qed

lemma ring_new: "ring (lh_new n hp) n []"
  by (simp add: ring_def lh_new_def)

lemma ring_link_after:
  assumes "ring hp h xs" "new \<notin> set (h # xs)"
  shows "ring (lh_link_after h new hp) h (new # xs)"
proof (cases xs)
  case Nil
  with assms show ?thesis
    by (auto simp: ring_def lh_link_after_def Let_def)
next
  case (Cons y ys)
  with assms(1) have y: "next_of hp h = y" "chain hp y ys h" "y \<noteq> h" "distinct (h # y # ys)"
    by (auto simp: ring_def)
  have "chain (lh_link_after h new hp) y ys h = chain hp y ys h"
    using assms(2) Cons y by (intro chain_cong) (auto simp: lh_link_after_def Let_def)
  with assms Cons y show ?thesis
    by (auto simp: ring_def lh_link_after_def Let_def)
qed

lemma lh_prepend_eq:
  assumes "ring hp h xs" "new \<notin> set (h # xs)" "ring hp new []"
  shows "lh_prepend h new hp = Some (lh_link_after (last (h # xs)) new hp)"
proof -
  have last: "prev_of hp h = last (h # xs)"
    using assms(1) unfolding ring_def by (blast dest: chain_prev)
  have "next_of hp (last (h # xs)) = h"
  proof (cases xs rule: rev_cases)
    case Nil
    with assms(1) show ?thesis by (simp add: ring_def)
  next
    case (snoc ys y)
    with assms(1) show ?thesis by (simp add: ring_def)
  qed
  moreover have "last (h # xs) \<noteq> new"
    using assms(2) by (metis last_in_set list.distinct(1))
  ultimately show ?thesis
    using assms(2,3) last
    by (auto simp: lh_prepend_def lh_link_after_def Let_def ring_def set_next_def set_prev_def
        fun_upd_twist)
qed

lemma ring_prepend:
  assumes "ring hp h xs" "new \<notin> set (h # xs)"
  shows "ring (lh_link_after (last (h # xs)) new hp) h (xs @ [new])"
proof (cases xs rule: rev_cases)
  case Nil
  with assms show ?thesis using ring_link_after by simp
next
  case (snoc ys y)
  with assms have "ring hp y (h # ys)"
    using ring_rotate [of hp h ys y "[]"] by simp
  then have "ring (lh_link_after y new hp) y ([new] @ h # ys)"
    using ring_link_after [of hp y "h # ys" new] assms(2) snoc by auto
  then have "ring (lh_link_after y new hp) h (ys @ y # [new])"
    by (rule ring_rotate)
  with snoc show ?thesis by simp
qed

lemma ring_remove_first:
  assumes "ring hp x (h # xs)"
  shows "ring (lh_remove x hp) h xs" and "ring (lh_remove x hp) x []"
proof -
  have dist: "distinct (x # h # xs)" and ch: "chain hp x (h # xs) x"
    using assms by (auto simp: ring_def)
  then have nx: "next_of hp x = h" "prev_of hp h = x" and ch': "chain hp h xs x"
    by auto
  then have px: "prev_of hp x = last (h # xs)" by (auto dest: chain_prev)
  show "ring (lh_remove x hp) x []"
    by (simp add: ring_def lh_remove_def Let_def)
  show "ring (lh_remove x hp) h xs"
  proof (cases xs rule: rev_cases)
    case Nil
    with dist nx px show ?thesis by (auto simp: ring_def lh_remove_def Let_def)
  next
    case (snoc ys y)
    with ch' have "chain hp h ys y" "next_of hp y = x" by auto
    moreover have "chain (lh_remove x hp) h ys y = chain hp h ys y"
      using dist snoc nx px by (intro chain_cong) (auto simp: lh_remove_def Let_def)
    ultimately show ?thesis
      using dist snoc nx px by (auto simp: ring_def lh_remove_def Let_def)
  qed
qed

lemma ring_remove:
  assumes "ring hp h (xs @ x # ys)"
  shows "ring (lh_remove x hp) h (xs @ ys)" and "ring (lh_remove x hp) x []"
proof -
  have rot: "ring hp x (ys @ h # xs)"
    using assms by (rule ring_rotate)
  have "ring (lh_remove x hp) h (xs @ ys) \<and> ring (lh_remove x hp) x []"
  proof (cases ys)
    case Nil
    with rot show ?thesis using ring_remove_first [of hp x h xs] by simp
  next
    case (Cons y zs)
    with rot have "ring hp x (y # (zs @ h # xs))" by simp
    then have "ring (lh_remove x hp) y (zs @ h # xs)" "ring (lh_remove x hp) x []"
      by (rule ring_remove_first)+
    then show ?thesis
      using ring_rotate [of "lh_remove x hp" y zs h xs] Cons by simp
  qed
  then show "ring (lh_remove x hp) h (xs @ ys)" and "ring (lh_remove x hp) x []" by auto
qed

lemma chain_next_mem: "chain hp a xs b \<Longrightarrow> next_of hp a \<in> set (xs @ [b])"
  by (cases xs) simp_all

lemma chain_prev_mem: "chain hp a xs b \<Longrightarrow> prev_of hp b \<in> set (a # xs)"
  using chain_prev [of hp a xs b] last_in_set [of "a # xs"] by simp

lemma ring_neighbours:
  assumes "ring hp h xs" "x \<in> set (h # xs)"
  shows "next_of hp x \<in> set (h # xs) \<and> prev_of hp x \<in> set (h # xs)"
proof (cases "x = h")
  case True
  with assms(1) have "chain hp x xs x" by (simp add: ring_def)
  from chain_next_mem [OF this] chain_prev_mem [OF this] True show ?thesis by auto
next
  case False
  with assms(2) obtain ys zs where xs: "xs = ys @ x # zs" by (auto simp: in_set_conv_decomp)
  with assms(1) have "chain hp h ys x" "chain hp x zs h" by (auto simp: ring_def)
  from chain_next_mem [OF this(2)] chain_prev_mem [OF this(1)] show ?thesis
    by (auto simp: xs)
qed

lemma ring_other_remove:
  assumes "ring hp h xs" "x \<in> set (h # xs)" "ring hp g zs" "set (g # zs) \<inter> set (h # xs) = {}"
  shows "ring (lh_remove x hp) g zs"
proof (rule ring_frame [OF assms(3)])
  fix n assume "n \<in> set (g # zs)"
  with assms(4) ring_neighbours [OF assms(1,2)] assms(2)
  have "n \<noteq> x" "n \<noteq> next_of hp x" "n \<noteq> prev_of hp x" by auto
  then show "next_of (lh_remove x hp) n = next_of hp n \<and> prev_of (lh_remove x hp) n = prev_of hp n"
    by (auto simp: lh_remove_def Let_def)
qed

lemma ring_other_link:
  assumes "ring hp h xs" "x \<in> set (h # xs)" "ring hp g zs"
    and "set (g # zs) \<inter> set (new # h # xs) = {}"
  shows "ring (lh_link_after x new hp) g zs"
proof (rule ring_frame [OF assms(3)])
  fix n assume "n \<in> set (g # zs)"
  with assms(4) ring_neighbours [OF assms(1,2)] assms(2)
  have "n \<noteq> x" "n \<noteq> new" "n \<noteq> next_of hp x" by auto
  then show "next_of (lh_link_after x new hp) n = next_of hp n \<and>
      prev_of (lh_link_after x new hp) n = prev_of hp n"
    by (auto simp: lh_link_after_def Let_def)
qed

section \<open>Properties\<close>

text \<open>C31. The list head operations refine list operations: on a ring with items \<open>xs\<close> and an
  unlinked node, \<open>append\<close> on the head yields the items \<open>new # xs\<close> and \<open>prepend\<close> yields
  \<open>xs @ [new]\<close>; removing an item yields the list without it and leaves the item unlinked; rings
  of other heads are untouched by all three.\<close>

theorem list_head_refines:
  assumes "ring hp h xs" "ring hp new []" "new \<notin> set (h # xs)"
    and "ring hp g zs" "set (g # zs) \<inter> set (new # h # xs) = {}"
  shows "(\<exists>hp'. lh_append h new hp = Some hp' \<and> ring hp' h (new # xs) \<and> ring hp' g zs)
    \<and> (\<exists>hp'. lh_prepend h new hp = Some hp' \<and> ring hp' h (xs @ [new]) \<and> ring hp' g zs)
    \<and> (\<forall>x \<in> set xs. ring (lh_remove x hp) h (remove1 x xs) \<and> ring (lh_remove x hp) x []
         \<and> ring (lh_remove x hp) g zs)"
proof (intro conjI ballI)
  have "lh_append h new hp = Some (lh_link_after h new hp)"
    using assms(2) by (simp add: lh_append_def ring_def)
  moreover have "ring (lh_link_after h new hp) g zs"
    using assms by (intro ring_other_link [of hp h xs]) auto
  ultimately show "\<exists>hp'. lh_append h new hp = Some hp' \<and> ring hp' h (new # xs) \<and> ring hp' g zs"
    using ring_link_after [OF assms(1,3)] by blast
  have "ring (lh_link_after (last (h # xs)) new hp) g zs"
    using assms by (intro ring_other_link [of hp h xs]) auto
  then show "\<exists>hp'. lh_prepend h new hp = Some hp' \<and> ring hp' h (xs @ [new]) \<and> ring hp' g zs"
    using lh_prepend_eq [OF assms(1,3,2)] ring_prepend [OF assms(1,3)] by blast
next
  fix x assume x: "x \<in> set xs"
  then obtain ys vs where xs: "xs = ys @ x # vs" "x \<notin> set ys"
    by (meson split_list_first)
  with assms(1) have r: "ring hp h (ys @ x # vs)" by simp
  show "ring (lh_remove x hp) h (remove1 x xs)"
    using ring_remove(1) [OF r] xs by (simp add: remove1_append)
  show "ring (lh_remove x hp) x []"
    by (rule ring_remove(2) [OF r])
  show "ring (lh_remove x hp) g zs"
    using assms x by (intro ring_other_remove [of hp h xs]) auto
qed

theorem list_head_refines_witness:
  "\<exists>hp. ring hp 1 [] \<and> (\<exists>hp'. lh_prepend 1 2 hp = Some hp' \<and> ring hp' 1 [2])"
proof -
  let ?hp = "lh_new 3 (lh_new 2 (lh_new 1 \<lparr>next_of = (\<lambda>_. 0), prev_of = (\<lambda>_. 0)\<rparr>))"
  have h: "ring ?hp 1 []" "ring ?hp 2 []" "2 \<notin> set [1 :: nat]" "ring ?hp 3 []"
    "set [3 :: nat] \<inter> set [2, 1] = {}"
    by (simp_all add: ring_def lh_new_def)
  show ?thesis
    using list_head_refines [OF h] h(1) by auto
qed

text \<open>\<open>append\<close> of the virtual list class, given a node that is still linked in another list,
  removes the head instead of the node: afterwards the head's list holds the new node alone, all
  its former items are unreachable from the head, and the other list still points at the node.\<close>

theorem lhv_append_linked_drops_items:
  assumes "ring hp h xs" "ring hp g [w]" "set (h # xs) \<inter> set [g, w] = {}"
  shows "ring (lhv_append h w hp) h [w] \<and> next_of (lhv_append h w hp) g = w
    \<and> (xs \<noteq> [] \<longrightarrow> ring (lhv_append h w hp) (hd xs) (tl xs))"
proof (intro conjI impI)
  have g: "prev_of hp w = g" "next_of hp g = w" "g \<noteq> w"
    using assms(2) by (auto simp: ring_def)
  have sep: "h \<noteq> w" "h \<noteq> g" "w \<notin> set xs" "g \<notin> set xs"
    using assms(3) by auto
  have nb: "next_of hp h \<in> set (h # xs)" "prev_of hp h \<in> set (h # xs)"
    using ring_neighbours [OF assms(1), of h] by simp_all
  then have nn: "next_of hp h \<noteq> w" "prev_of hp h \<noteq> w" "next_of hp h \<noteq> g" "prev_of hp h \<noteq> g"
    using sep by auto
  have eq: "lhv_append h w hp = lh_link_after h w (lh_remove h hp)"
    using g by (simp add: lhv_append_def)
  have rh: "ring (lh_remove h hp) h []"
    using sep by (simp add: ring_def lh_remove_def Let_def)
  then have "ring (lh_link_after h w (lh_remove h hp)) h [w]"
    using sep by (intro ring_link_after) auto
  then show "ring (lhv_append h w hp) h [w]" unfolding eq .
  show "next_of (lhv_append h w hp) g = w"
    unfolding eq using g sep nn by (simp add: lh_link_after_def lh_remove_def Let_def)
  assume "xs \<noteq> []"
  then obtain y ys where xs: "xs = y # ys" by (cases xs) auto
  with assms(1) have "ring (lh_remove h hp) y ys"
    using ring_remove_first(1) [of hp h y ys] by simp
  moreover have "set (y # ys) \<inter> {h, w} = {}"
    using assms(1) sep xs by (auto simp: ring_def)
  ultimately have "ring (lh_link_after h w (lh_remove h hp)) y ys"
    using rh by (intro ring_other_link [of "lh_remove h hp" h "[]"]) auto
  then show "ring (lhv_append h w hp) (hd xs) (tl xs)" unfolding eq xs by simp
qed

theorem lhv_append_linked_drops_items_witness:
  "\<exists>hp. ring hp 1 [2] \<and> ring hp 3 [4] \<and> ring (lhv_append 1 4 hp) 1 [4]"
proof -
  let ?hp = "\<lparr>next_of = (\<lambda>n. n)(1 := 2, 2 := 1, 3 := 4, 4 := 3 :: nat),
    prev_of = (\<lambda>n. n)(1 := 2, 2 := 1, 3 := 4, 4 := 3)\<rparr>"
  have h: "ring ?hp 1 [2]" "ring ?hp 3 [4]" "set [1, 2] \<inter> set [3, 4 :: nat] = {}"
    by (simp_all add: ring_def)
  show ?thesis
    using lhv_append_linked_drops_items [OF h] h by blast
qed

end
