(* ===== verification/Sc_Event.thy ===== *)
theory Sc_Event
  imports List_Head
begin

text \<open>
  Events of an element (\<open>libsc/libsc/sc_event.h\<close>): the wait types, the holder of the waits
  attached to an element (\<open>sc_waits_holder\<close>), and the activation of its handlers. The waits of
  one type form a ring of list nodes (theory \<open>List_Head\<close>); activation walks the ring while the
  handlers may change it, so it is modelled on the ring's pointers with fuel for the loop.
  A handler is a parameter: \<open>act p ty prm len\<close> is the virtual method \<open>activate\<close> of the wait at
  node \<open>p\<close>; it answers a boolean and may change the pointers and the rest of the state.
  \<open>check_prm_access\<close> (\<open>sc_core.cpp\<close>) decides which waits of a session hear of an event.
\<close>

section \<open>Wait types\<close>

datatype sc_wait_type =
    SC_WAIT_DIE | SC_WAIT_ATTACH_INPUT | SC_WAIT_ATTACH_OUTPUT | SC_WAIT_CHANGE_TYPE
  | SC_WAIT_DETACH_INPUT | SC_WAIT_DETACH_OUTPUT | SC_WAIT_ARC_BEG | SC_WAIT_ARC_END
  | SC_WAIT_ARCS_ENDS | SC_WAIT_CONT | SC_WAIT_IDTF | SC_WAIT_HACK_SET_MEMBER
  | SC_WAIT_HACK_IN_SET | SC_WAIT_MERGE | SC_WAIT_DIE_PRE_REAL | SC_WAIT_ATTACH_INPUT_PRE
  | SC_WAIT_ATTACH_OUTPUT_PRE | SC_WAIT_CHANGE_TYPE_PRE | SC_WAIT_DETACH_INPUT_PRE
  | SC_WAIT_DETACH_OUTPUT_PRE | SC_WAIT_HACK_SET_MEMBER_PRE | SC_WAIT_HACK_IN_SET_PRE
  | SC_WAIT_COUNT | SC_WAIT_SEGMENT_CREATE | SC_WAIT_SEGMENT_ON_ADD | SC_WAIT_SEGMENT_ON_REMOVE

primrec wait_code :: "sc_wait_type \<Rightarrow> nat" where
  "wait_code SC_WAIT_DIE = 0"
| "wait_code SC_WAIT_ATTACH_INPUT = 1"
| "wait_code SC_WAIT_ATTACH_OUTPUT = 2"
| "wait_code SC_WAIT_CHANGE_TYPE = 3"
| "wait_code SC_WAIT_DETACH_INPUT = 4"
| "wait_code SC_WAIT_DETACH_OUTPUT = 5"
| "wait_code SC_WAIT_ARC_BEG = 6"
| "wait_code SC_WAIT_ARC_END = 7"
| "wait_code SC_WAIT_ARCS_ENDS = 8"
| "wait_code SC_WAIT_CONT = 9"
| "wait_code SC_WAIT_IDTF = 10"
| "wait_code SC_WAIT_HACK_SET_MEMBER = 11"
| "wait_code SC_WAIT_HACK_IN_SET = 12"
| "wait_code SC_WAIT_MERGE = 13"
| "wait_code SC_WAIT_DIE_PRE_REAL = 14"
| "wait_code SC_WAIT_ATTACH_INPUT_PRE = 15"
| "wait_code SC_WAIT_ATTACH_OUTPUT_PRE = 16"
| "wait_code SC_WAIT_CHANGE_TYPE_PRE = 17"
| "wait_code SC_WAIT_DETACH_INPUT_PRE = 18"
| "wait_code SC_WAIT_DETACH_OUTPUT_PRE = 19"
| "wait_code SC_WAIT_HACK_SET_MEMBER_PRE = 20"
| "wait_code SC_WAIT_HACK_IN_SET_PRE = 21"
| "wait_code SC_WAIT_COUNT = 22"
| "wait_code SC_WAIT_SEGMENT_CREATE = 23"
| "wait_code SC_WAIT_SEGMENT_ON_ADD = 24"
| "wait_code SC_WAIT_SEGMENT_ON_REMOVE = 25"

definition wait_is_pre :: "sc_wait_type \<Rightarrow> bool" where
  "wait_is_pre ty \<longleftrightarrow> wait_code ty \<ge> wait_code SC_WAIT_DIE_PRE_REAL"

text \<open>A parameter is a machine word (a C++ union); here the number of the object it names, \<open>0\<close>
  for the null pointer.\<close>

type_synonym sc_param = nat

section \<open>Access of a session to the parameters of an event\<close>

text \<open>\<open>opened\<close> is \<open>is_segment_opened\<close> of the session and \<open>seg_of\<close> the \<open>seg\<close> field of an
  address; a parameter that is not an address is an invalid dereference. The loop of the code
  decrements \<open>len\<close>, down to and including \<open>0\<close>, and never \<open>i\<close>; with no parameter it reads before
  the start of the array.\<close>

fun check_prm_access_loop ::
  "(nat \<Rightarrow> bool) \<Rightarrow> (nat \<Rightarrow> nat option) \<Rightarrow> sc_param list \<Rightarrow> int \<Rightarrow> nat \<Rightarrow> bool option" where
  "check_prm_access_loop opened seg_of prm i len =
     do {
       ensure (0 \<le> i \<and> nat i < length prm);
       s \<leftarrow> seg_of (prm ! nat i);
       if \<not> opened s then Some False
       else if len = 0 then Some True
       else check_prm_access_loop opened seg_of prm i (len - 1)
     }"

declare check_prm_access_loop.simps [simp del]

definition check_prm_access ::
  "(nat \<Rightarrow> bool) \<Rightarrow> (nat \<Rightarrow> nat option) \<Rightarrow> sc_param list \<Rightarrow> nat \<Rightarrow> bool option" where
  "check_prm_access opened seg_of prm len =
     check_prm_access_loop opened seg_of prm (int len - 1) len"

section \<open>The holder of an element's waits (\<open>sc_waits_holder\<close>)\<close>

text \<open>\<open>heads\<close> is the array of \<open>SC_WAIT_COUNT\<close> list heads, absent until the first wait is added:
  the head of type \<open>ty\<close> is the node \<open>base + wait_code ty\<close>.\<close>

record holder =
  wh_heads :: "nat option"

definition wh_new :: holder where
  "wh_new = \<lparr>wh_heads = None\<rparr>"

definition wh_head :: "nat \<Rightarrow> sc_wait_type \<Rightarrow> nat" where
  "wh_head base ty = base + wait_code ty"

definition wh_init_heads :: "nat \<Rightarrow> heads \<Rightarrow> heads" where
  "wh_init_heads base hp = fold lh_new [base ..< base + wait_code SC_WAIT_COUNT] hp"

text \<open>\<open>alloc\<close> is the address at which \<open>new\<close> puts the array.\<close>

definition wh_add ::
  "nat \<Rightarrow> sc_wait_type \<Rightarrow> nat \<Rightarrow> holder \<times> heads \<Rightarrow> (holder \<times> heads) option" where
  "wh_add alloc ty w st =
     do {
       ensure (wait_code ty < wait_code SC_WAIT_COUNT);
       (let (h, hp) =
          (case wh_heads (fst st) of
             None \<Rightarrow> ((fst st)\<lparr>wh_heads := Some alloc\<rparr>, wh_init_heads alloc (snd st))
           | Some base \<Rightarrow> st)
        in case wh_heads h of
             None \<Rightarrow> None
           | Some base \<Rightarrow> Some (h, lhv_append (wh_head base ty) w hp))
     }"

definition wh_is_empty :: "sc_wait_type \<Rightarrow> holder \<Rightarrow> heads \<Rightarrow> bool option" where
  "wh_is_empty ty h hp =
     do {
       ensure (wait_code ty < wait_code SC_WAIT_COUNT);
       Some (case wh_heads h of
               None \<Rightarrow> True
             | Some base \<Rightarrow> next_of hp (wh_head base ty) = wh_head base ty)
     }"

section \<open>Activation\<close>

type_synonym 's handler =
  "nat \<Rightarrow> sc_wait_type \<Rightarrow> sc_param list \<Rightarrow> nat \<Rightarrow> heads \<times> 's \<Rightarrow> bool \<times> heads \<times> 's"

text \<open>The loop for ordinary events: the next wait is read before the handler runs, and a wait
  that belongs to a session is asked only when \<open>check_prm_access\<close> of that session holds
  (\<open>acc p\<close>; a wait without session gives \<open>Some True\<close>).\<close>

fun activate_post ::
  "nat \<Rightarrow> 's handler \<Rightarrow> (nat \<Rightarrow> bool option) \<Rightarrow> sc_wait_type \<Rightarrow> sc_param list \<Rightarrow> nat \<Rightarrow> nat \<Rightarrow> nat \<Rightarrow>
   heads \<times> 's \<Rightarrow> (bool \<times> heads \<times> 's) option" where
  "activate_post 0 act acc ty prm len head p st = None"
| "activate_post (Suc fuel) act acc ty prm len head p st =
     (if p = head then Some (False, st)
      else do {
        let next = next_of (fst st) p;
        a \<leftarrow> acc p;
        activate_post fuel act acc ty prm len head next
          (if a then snd (act p ty prm len st) else st)
      })"

text \<open>The loop for \<open>_PRE\<close> events stops at the first handler that answers true.\<close>

fun activate_pre ::
  "nat \<Rightarrow> 's handler \<Rightarrow> sc_wait_type \<Rightarrow> sc_param list \<Rightarrow> nat \<Rightarrow> nat \<Rightarrow> nat \<Rightarrow>
   heads \<times> 's \<Rightarrow> (bool \<times> heads \<times> 's) option" where
  "activate_pre 0 act ty prm len head p st = None"
| "activate_pre (Suc fuel) act ty prm len head p st =
     (if p = head then Some (False, st)
      else let next = next_of (fst st) p;
               (b, st') = act p ty prm len st
           in if b then Some (True, st')
              else activate_pre fuel act ty prm len head next st')"

definition wh_activate ::
  "nat \<Rightarrow> 's handler \<Rightarrow> (nat \<Rightarrow> bool option) \<Rightarrow> sc_wait_type \<Rightarrow> sc_param list \<Rightarrow> nat \<Rightarrow> holder \<Rightarrow>
   heads \<times> 's \<Rightarrow> (bool \<times> heads \<times> 's) option" where
  "wh_activate fuel act acc ty prm len h st =
     do {
       ensure (wait_code ty < wait_code SC_WAIT_COUNT);
       (case wh_heads h of
          None \<Rightarrow> Some (False, st)
        | Some base \<Rightarrow>
            let head = wh_head base ty; p = next_of (fst st) head
            in if wait_is_pre ty then activate_pre fuel act ty prm len head p st
               else activate_post fuel act acc ty prm len head p st)
     }"

section \<open>Handlers that remove at most themselves\<close>

text \<open>The contract that the code's comment (\<open>wait can remove itself\<close>) gives to handlers.\<close>

definition self_handler ::
  "(nat \<Rightarrow> 's \<Rightarrow> bool) \<Rightarrow> (nat \<Rightarrow> 's \<Rightarrow> bool) \<Rightarrow> (nat \<Rightarrow> 's \<Rightarrow> 's) \<Rightarrow> 's handler" where
  "self_handler ans rm upd p ty prm len st =
     (ans p (snd st), (if rm p (snd st) then lh_remove p (fst st) else fst st), upd p (snd st))"

text \<open>What activation means on the list of waits.\<close>

fun pre_spec :: "(nat \<Rightarrow> 's \<Rightarrow> bool) \<Rightarrow> (nat \<Rightarrow> 's \<Rightarrow> 's) \<Rightarrow> nat list \<Rightarrow> 's \<Rightarrow> bool \<times> 's" where
  "pre_spec ans upd [] s = (False, s)"
| "pre_spec ans upd (p # ps) s =
     (if ans p s then (True, upd p s) else pre_spec ans upd ps (upd p s))"

definition post_spec :: "(nat \<Rightarrow> bool) \<Rightarrow> (nat \<Rightarrow> 's \<Rightarrow> 's) \<Rightarrow> nat list \<Rightarrow> 's \<Rightarrow> 's" where
  "post_spec acc upd ps s = fold upd (filter acc ps) s"

lemma post_spec_simps [simp]:
  "post_spec acc upd [] s = s"
  "post_spec acc upd (p # ps) s = post_spec acc upd ps (if acc p then upd p s else s)"
  by (simp_all add: post_spec_def)

lemma ring_first: "ring hp h (xs @ p # ps) \<Longrightarrow> next_of hp p = hd (ps @ [h])"
  by (auto simp: ring_def dest: chain_next)

lemma self_handler_ring:
  assumes "ring (fst st) head (done @ q # ps)"
  shows "\<exists>done2. ring (fst (snd (self_handler ans rm upd q ty prm len st))) head (done2 @ ps)
    \<and> set done2 \<subseteq> set (done @ [q])"
proof (cases "rm q (snd st)")
  case True
  then show ?thesis
    using ring_remove(1) [OF assms] by (intro exI [of _ "done"]) (auto simp: self_handler_def)
next
  case False
  then show ?thesis
    using assms by (intro exI [of _ "done @ [q]"]) (auto simp: self_handler_def)
qed

lemma ring_skip: "ring hp head (done @ q # ps) \<Longrightarrow>
    \<exists>done2. ring hp head (done2 @ ps) \<and> set done2 \<subseteq> set (done @ [q])"
  by (intro exI [of _ "done @ [q]"]) auto

lemma activate_post_self:
  assumes "ring (fst st) head (done @ ps)" "length ps < fuel"
    and "p = hd (ps @ [head])" "\<And>q. q \<in> set ps \<Longrightarrow> acc q = Some (ok q)"
  shows "\<exists>hp' done'. activate_post fuel (self_handler ans rm upd) acc ty prm len head p st =
      Some (False, hp', post_spec ok upd ps (snd st)) \<and> ring hp' head done'
      \<and> set done' \<subseteq> set (done @ ps)"
  using assms
proof (induction ps arbitrary: "done" p st fuel)
  case Nil
  then show ?case by (cases fuel; cases st) auto
next
  case (Cons q ps)
  obtain n where n: "fuel = Suc n" using Cons.prems(2) by (cases fuel) auto
  have r: "ring (fst st) head (done @ q # ps)" and q: "p = q" using Cons.prems by auto
  have nh: "q \<noteq> head" using r by (auto simp: ring_def)
  let ?act = "self_handler ans rm upd q ty prm len st"
  let ?st = "if ok q then snd ?act else st"
  obtain done2 where d: "ring (fst ?st) head (done2 @ ps)" "set done2 \<subseteq> set (done @ [q])"
    using self_handler_ring [OF r, of ans rm upd ty prm len] ring_skip [OF r]
    by (cases "ok q") auto
  have "length ps < n" using Cons.prems(2) n by simp
  from Cons.IH [OF d(1) this refl] Cons.prems(4) obtain hp' done' where
    IH: "activate_post n (self_handler ans rm upd) acc ty prm len head (hd (ps @ [head])) ?st =
      Some (False, hp', post_spec ok upd ps (snd ?st))" "ring hp' head done'"
      "set done' \<subseteq> set (done2 @ ps)"
    by auto
  have "snd ?st = (if ok q then upd q (snd st) else snd st)"
    by (simp add: self_handler_def)
  then show ?case
    using IH d(2) nh q n Cons.prems(4) [of q] ring_first [OF r] by (intro exI) auto
qed

lemma activate_pre_self:
  assumes "ring (fst st) head (done @ ps)" "length ps < fuel" "p = hd (ps @ [head])"
  shows "\<exists>hp' done'. activate_pre fuel (self_handler ans rm upd) ty prm len head p st =
      Some (fst (pre_spec ans upd ps (snd st)), hp', snd (pre_spec ans upd ps (snd st)))
      \<and> ring hp' head done' \<and> set done' \<subseteq> set (done @ ps)"
  using assms
proof (induction ps arbitrary: "done" p st fuel)
  case Nil
  then show ?case by (cases fuel; cases st) auto
next
  case (Cons q ps)
  obtain n where n: "fuel = Suc n" using Cons.prems(2) by (cases fuel) auto
  have r: "ring (fst st) head (done @ q # ps)" and q: "p = q" using Cons.prems by auto
  have nh: "q \<noteq> head" using r by (auto simp: ring_def)
  let ?act = "self_handler ans rm upd q ty prm len st"
  obtain done2 where d: "ring (fst (snd ?act)) head (done2 @ ps)" "set done2 \<subseteq> set (done @ [q])"
    using self_handler_ring [OF r, of ans rm upd ty prm len] by blast
  show ?case
  proof (cases "ans q (snd st)")
    case True
    then show ?thesis
      using d nh q n by (intro exI [of _ "fst (snd ?act)"] exI [of _ "done2 @ ps"])
        (auto simp: self_handler_def)
  next
    case False
    have "length ps < n" using Cons.prems(2) n by simp
    obtain st' where a: "?act = (False, st')" "snd st' = upd q (snd st)"
      using False by (simp add: self_handler_def)
    have "ring (fst st') head (done2 @ ps)" using d(1) a(1) by simp
    from Cons.IH [OF this \<open>length ps < n\<close> refl] obtain hp' done' where
      IH: "activate_pre n (self_handler ans rm upd) ty prm len head (hd (ps @ [head])) st' =
        Some (fst (pre_spec ans upd ps (snd st')), hp', snd (pre_spec ans upd ps (snd st')))"
        "ring hp' head done'" "set done' \<subseteq> set (done2 @ ps)"
      by blast
    have "activate_pre fuel (self_handler ans rm upd) ty prm len head p st =
        activate_pre n (self_handler ans rm upd) ty prm len head (hd (ps @ [head])) st'"
      using nh q n ring_first [OF r] by (simp add: Let_def a(1))
    moreover have "set done' \<subseteq> set (done @ q # ps)" using IH(3) d(2) by auto
    ultimately show ?thesis
      using IH(1,2) False a(2) by (intro exI [of _ hp'] exI [of _ done']) simp
  qed
qed

section \<open>Properties\<close>

text \<open>C7. Activation of a holder whose handlers remove at most themselves visits the waits of
  the type in list order, each once, and returns: for an ordinary event it runs the handlers whose
  session has access and answers false; for a \<open>_PRE\<close> event it stops at the first handler that
  answers true and passes its answer on. Fuel above the number of waits is enough.\<close>

theorem waits_activate_refines:
  assumes "wait_code ty < wait_code SC_WAIT_COUNT" "wh_heads h = Some base"
    and "ring (fst st) (wh_head base ty) ws" "length ws < fuel"
    and "\<forall>q \<in> set ws. acc q = Some (ok q)"
  shows "\<exists>hp' ws'. wh_activate fuel (self_handler ans rm upd) acc ty prm len h st =
      Some (if wait_is_pre ty
            then (fst (pre_spec ans upd ws (snd st)), hp', snd (pre_spec ans upd ws (snd st)))
            else (False, hp', post_spec ok upd ws (snd st)))
      \<and> ring hp' (wh_head base ty) ws' \<and> set ws' \<subseteq> set ws"
proof -
  have p: "next_of (fst st) (wh_head base ty) = hd (ws @ [wh_head base ty])"
    using assms(3) by (auto simp: ring_def dest: chain_next)
  have r: "ring (fst st) (wh_head base ty) ([] @ ws)" using assms(3) by simp
  have a: "\<And>q. q \<in> set ws \<Longrightarrow> acc q = Some (ok q)" using assms(5) by blast
  show ?thesis
    using activate_post_self [OF r assms(4) p a, where ans = ans and rm = rm and upd = upd]
      activate_pre_self [OF r assms(4) p, where ans = ans and rm = rm and upd = upd] assms(1,2)
    by (auto simp: wh_activate_def Let_def)
qed

theorem waits_activate_refines_witness:
  "\<exists>hp hp'. ring hp (wh_head 100 SC_WAIT_CONT) [1, 2] \<and>
     wh_activate 3 (self_handler (\<lambda>_ _. False) (\<lambda>p _. p = 1) (\<lambda>p s. s @ [p])) (\<lambda>q. Some (q = 2))
       SC_WAIT_CONT [5] 1 \<lparr>wh_heads = Some 100\<rparr> (hp, []) = Some (False, hp', [2])"
proof -
  let ?hp = "\<lparr>next_of = (\<lambda>n. n)(109 := 1, 1 := 2, 2 := 109 :: nat),
    prev_of = (\<lambda>n. n)(1 := 109, 2 := 1, 109 := 2)\<rparr>"
  let ?st = "(?hp, [] :: nat list)"
  have h: "wait_code SC_WAIT_CONT < wait_code SC_WAIT_COUNT"
    "wh_heads \<lparr>wh_heads = Some 100\<rparr> = Some 100"
    "ring (fst ?st) (wh_head 100 SC_WAIT_CONT) [1, 2]" "length [1, 2 :: nat] < 3"
    by (simp_all add: ring_def wh_head_def)
  have a: "\<forall>q \<in> set [1, 2 :: nat]. (\<lambda>q. Some (q = (2::nat))) q = Some ((\<lambda>q. q = 2) q)"
    by simp
  show ?thesis
    using waits_activate_refines [OF h a, where ans = "\<lambda>_ _. False" and rm = "\<lambda>p _. p = 1"
        and upd = "\<lambda>p s. s @ [p]" and prm = "[5]" and len = 1] h(3)
    by (auto simp: wait_is_pre_def)
qed

text \<open>A handler may remove only itself: when the first of two waits removes the second, the
  saved \<open>next\<close> is a node that points at itself, and activation never comes back to the head,
  whatever the fuel.\<close>

theorem activate_removing_next_spins:
  assumes "ring hp head [p, q]"
  shows "activate_post fuel (\<lambda>r ty prm len st. (False, lh_remove q (fst st), snd st))
    (\<lambda>_. Some True) ty prm len head p (hp, s) = None"
proof -
  let ?act = "\<lambda>r ty prm len st. (False, lh_remove q (fst st), snd st)"
  have sep: "p \<noteq> head" "q \<noteq> head" "p \<noteq> q" "next_of hp p = q"
    using assms by (auto simp: ring_def)
  have self: "next_of (lh_remove q hp') q = q" for hp'
    by (simp add: lh_remove_def Let_def)
  have spin: "activate_post n ?act (\<lambda>_. Some True) ty prm len head q (hp', s) = None"
    if "next_of hp' q = q" for n hp'
    using that
  proof (induction n arbitrary: hp')
    case (Suc n)
    show ?case
      using Suc.IH [OF self] Suc.prems sep(2) by simp
  qed simp
  show ?thesis
  proof (cases fuel)
    case (Suc n)
    show ?thesis
      using spin [OF self] sep(1,4) by (simp add: Suc)
  qed simp
qed

theorem activate_removing_next_spins_witness:
  "\<exists>hp. ring hp 1 [2, 3] \<and> activate_post 1000
     (\<lambda>r ty prm len st. (False, lh_remove 3 (fst st), snd st)) (\<lambda>_. Some True)
     SC_WAIT_CONT [] 0 1 2 (hp, ()) = None"
proof -
  let ?hp = "\<lparr>next_of = (\<lambda>n. n)(1 := 2, 2 := 3, 3 := 1 :: nat),
    prev_of = (\<lambda>n. n)(1 := 3, 2 := 1, 3 := 2)\<rparr>"
  have h: "ring ?hp 1 [2, 3]" by (simp add: ring_def)
  show ?thesis
    by (intro exI [of _ ?hp] conjI h activate_removing_next_spins [OF h])
qed

lemma check_prm_access_loop_eq:
  "i < length prm \<Longrightarrow> check_prm_access_loop opened seg_of prm (int i) n =
     map_option opened (seg_of (prm ! i))"
  by (induction n; subst check_prm_access_loop.simps) (auto split: option.splits bind_splits)

lemma check_prm_access_eq:
  "prm \<noteq> [] \<Longrightarrow> check_prm_access opened seg_of prm (length prm) = map_option opened (seg_of (last prm))"
  using check_prm_access_loop_eq [of "length prm - 1" prm opened seg_of "length prm"]
  by (simp add: check_prm_access_def last_conv_nth of_nat_diff Suc_leI)

text \<open>\<open>check_prm_access\<close> looks at the last parameter only: the loop counts \<open>len\<close> down and
  never moves the index. Of the other parameters nothing is checked, so a session hears of events
  whose other ends lie in segments it has not opened; without parameters the first turn of the
  loop reads outside the array.\<close>

theorem check_prm_access_only_last:
  "check_prm_access opened seg_of [] 0 = None \<and>
   check_prm_access opened seg_of (ps @ [a]) (length (ps @ [a])) = map_option opened (seg_of a)"
proof
  show "check_prm_access opened seg_of [] 0 = None"
    by (simp add: check_prm_access_def check_prm_access_loop.simps [of _ _ _ "- 1"])
qed (simp only: check_prm_access_eq last_snoc append_is_Nil_conv list.distinct simp_thms not_Cons_self2)

end
