(* ===== verification/Sc_Addr.thy ===== *)
theory Sc_Addr
  imports Segment_Names Seg_Table Sc_Event
begin

text \<open>
  Addresses of elements (\<open>sc_global_addr\<close>, \<open>libsc/libsc/sc_addr.h\<close> and the functions of
  \<open>sc_core.cpp\<close>): the handle through which sessions see an element. An address counts its
  references, knows the links to its element in other segments, caches the numbers of its arcs and
  holds the waits and observers of the element. The world adds to the store of the segments the
  addresses, the waits, the sessions and the segment table. Waits are modelled by what activation
  sees of them (theory \<open>Sc_Event\<close> shows the walk over the ring): their session, and the answer of
  their handler; every activation is recorded in a log. \<open>wd_junk\<close> is what a parameter that the code
  leaves uninitialised holds. Handlers do not call back into the memory.
\<close>

section \<open>The world\<close>

abbreviation SC_ADDR_REFCNT_BARRIER :: int where
  "SC_ADDR_REFCNT_BARRIER \<equiv> 0x100"

text \<open>\<open>sc_global_addr\<close>: a link is the pair of its segment and the element in it; \<open>size_t\<close> is a
  64-bit word.\<close>

record gaddr =
  ga_seg :: nat
  ga_impl :: nat
  ga_links :: "(nat \<times> nat) list"
  ga_refcnt :: int
  ga_dead :: bool
  ga_locked :: bool
  ga_zombie :: bool
  ga_activity :: nat
  ga_observers :: "nat list"
  ga_waits :: "sc_wait_type \<Rightarrow> nat list"
  ga_links_qnt :: "64 word"
  ga_in_qnt :: "64 word"
  ga_out_qnt :: "64 word"

record wait =
  wt_session :: nat
  wt_type :: sc_wait_type
  wt_element :: nat
  wt_attached :: bool
  wt_answer :: bool

record session =
  ss_refcnt :: int
  ss_dead :: bool
  ss_error :: sc_retval
  ss_opened :: segment_set
  ss_cwd :: string
  ss_good_waits :: "nat list"

datatype log_entry =
    Wait_activated nat sc_wait_type "sc_param list"
  | Observer_called nat nat
  | Activity_done nat

record world = store +
  wd_addrs :: "nat \<Rightarrow> gaddr option"
  wd_waits :: "nat \<Rightarrow> wait option"
  wd_sessions :: "nat \<Rightarrow> session option"
  wd_system :: nat
  wd_event_lock :: int
  wd_segtable :: segment_table
  wd_junk :: nat
  wd_log :: "log_entry list"

definition upd_addr :: "nat \<Rightarrow> (gaddr \<Rightarrow> gaddr) \<Rightarrow> world \<Rightarrow> world option" where
  "upd_addr a f w = do { g \<leftarrow> wd_addrs w a; Some (w\<lparr>wd_addrs := (wd_addrs w)(a \<mapsto> f g)\<rparr>) }"

definition upd_session :: "nat \<Rightarrow> (session \<Rightarrow> session) \<Rightarrow> world \<Rightarrow> world option" where
  "upd_session s f w = do { x \<leftarrow> wd_sessions w s; Some (w\<lparr>wd_sessions := (wd_sessions w)(s \<mapsto> f x)\<rparr>) }"

definition log :: "log_entry \<Rightarrow> world \<Rightarrow> world" where
  "log e w = w\<lparr>wd_log := wd_log w @ [e]\<rparr>"

definition session_opened :: "nat \<Rightarrow> nat \<Rightarrow> world \<Rightarrow> bool option" where
  "session_opened ss seg w =
     do {
       s \<leftarrow> wd_sessions w ss;
       g \<leftarrow> st_segs w seg;
       b \<leftarrow> segset_is_set (ss_opened s) (sg_index g);
       Some (b \<noteq> 0)
     }"

section \<open>Creation, references and death\<close>

definition new_gaddr :: "nat \<Rightarrow> nat \<Rightarrow> 64 word \<Rightarrow> 64 word \<Rightarrow> gaddr" where
  "new_gaddr seg impl inq outq =
     \<lparr>ga_seg = seg, ga_impl = impl, ga_links = [], ga_refcnt = SC_ADDR_REFCNT_BARRIER,
      ga_dead = False, ga_locked = False, ga_zombie = False, ga_activity = 0, ga_observers = [],
      ga_waits = (\<lambda>_. []), ga_links_qnt = 0, ga_in_qnt = inq, ga_out_qnt = outq\<rparr>"

text \<open>\<open>new sc_global_addr(seg, impl)\<close>.\<close>

definition addr_new :: "nat \<Rightarrow> nat \<Rightarrow> world \<Rightarrow> (nat \<times> world) option" where
  "addr_new seg impl w =
     do {
       inq \<leftarrow> sg_get_in_qnt impl w;
       outq \<leftarrow> sg_get_out_qnt impl w;
       Some (st_fresh w,
         w\<lparr>wd_addrs := (wd_addrs w)(st_fresh w \<mapsto>
              new_gaddr seg impl (word_of_int inq) (word_of_int outq)),
           st_fresh := st_fresh w + 1\<rparr>)
     }"

definition addr_ref :: "nat \<Rightarrow> world \<Rightarrow> world option" where
  "addr_ref a w = upd_addr a (\<lambda>g. g\<lparr>ga_refcnt := ga_refcnt g + 1\<rparr>) w"

text \<open>\<open>__sc_addr_erase_el\<close>: the element, unless its segment is gone, and all links to it. The
  branch before it is for an address that stands for a plain set (\<open>SC_SET_SEG\<close>); \<open>sc_plain_set_new\<close>,
  which makes such addresses, is not modelled, and no address of the world is one.\<close>

fun erase_links :: "(nat \<times> nat) list \<Rightarrow> world \<Rightarrow> world option" where
  "erase_links [] w = Some w"
| "erase_links ((s, ll) # ls) w = do { w \<leftarrow> sg_erase_el s ll w; erase_links ls w }"

definition sc_addr_erase_el :: "nat \<Rightarrow> world \<Rightarrow> world option" where
  "sc_addr_erase_el a w =
     do {
       g \<leftarrow> wd_addrs w a;
       w \<leftarrow> (if \<not> ga_zombie g then sg_erase_el (ga_seg g) (ga_impl g) w else Some w);
       w \<leftarrow> erase_links (ga_links g) w;
       Some (w\<lparr>wd_addrs := (wd_addrs w)(a := None)\<rparr>)
     }"

definition addr_unref :: "nat \<Rightarrow> world \<Rightarrow> world option" where
  "addr_unref a w =
     do {
       w \<leftarrow> upd_addr a (\<lambda>g. g\<lparr>ga_refcnt := ga_refcnt g - 1\<rparr>) w;
       g \<leftarrow> wd_addrs w a;
       if ga_refcnt g = 0 then sc_addr_erase_el a w else Some w
     }"

definition call_observers :: "nat \<Rightarrow> nat list \<Rightarrow> world \<Rightarrow> world" where
  "call_observers a hs w = fold (\<lambda>h. log (Observer_called h a)) hs w"

definition addr_die :: "nat \<Rightarrow> world \<Rightarrow> world option" where
  "addr_die a w =
     do {
       g \<leftarrow> wd_addrs w a;
       (if ga_dead g then Some w
        else do {
          let w = call_observers a (ga_observers g) w;
          w \<leftarrow> upd_addr a (\<lambda>g. g\<lparr>ga_dead := True, ga_refcnt := ga_refcnt g - SC_ADDR_REFCNT_BARRIER\<rparr>) w;
          g \<leftarrow> wd_addrs w a;
          if ga_refcnt g = 0 then sc_addr_erase_el a w else Some w
        })
     }"

definition addr_is_dead :: "nat \<Rightarrow> world \<Rightarrow> bool option" where
  "addr_is_dead a w = map_option ga_dead (wd_addrs w a)"

section \<open>Observers\<close>

definition add_observer :: "nat \<Rightarrow> nat list \<Rightarrow> nat list" where
  "add_observer h obs = h # obs"

text \<open>The search dereferences the first observer before it looks whether there is one.\<close>

fun remove_observer_from :: "nat \<Rightarrow> nat list \<Rightarrow> bool \<times> nat list" where
  "remove_observer_from h [] = (False, [])"
| "remove_observer_from h (x # xs) =
     (if x = h then (True, xs)
      else let (b, ys) = remove_observer_from h xs in (b, x # ys))"

definition remove_observer :: "nat \<Rightarrow> nat list \<Rightarrow> (bool \<times> nat list) option" where
  "remove_observer h obs = (if obs = [] then None else Some (remove_observer_from h obs))"

section \<open>Links\<close>

text \<open>The list of links is ordered by the segments' addresses.\<close>

fun find_link :: "nat \<Rightarrow> (nat \<times> nat) list \<Rightarrow> nat option" where
  "find_link seg [] = None"
| "find_link seg ((s, ll) # ls) =
     (if s < seg then find_link seg ls else if s = seg then Some ll else None)"

fun insert_link :: "nat \<times> nat \<Rightarrow> (nat \<times> nat) list \<Rightarrow> (nat \<times> nat) list" where
  "insert_link la [] = [la]"
| "insert_link la (x # xs) = (if fst x < fst la then x # insert_link la xs else la # x # xs)"

definition add_link :: "nat \<Rightarrow> nat \<Rightarrow> nat \<Rightarrow> world \<Rightarrow> world option" where
  "add_link a seg ll w =
     do {
       inq \<leftarrow> sg_get_in_qnt ll w;
       outq \<leftarrow> sg_get_out_qnt ll w;
       upd_addr a (\<lambda>g. g\<lparr>ga_links := insert_link (seg, ll) (ga_links g),
         ga_links_qnt := ga_links_qnt g + 1,
         ga_in_qnt := ga_in_qnt g + word_of_int inq,
         ga_out_qnt := ga_out_qnt g + word_of_int outq\<rparr>) w
     }"

text \<open>A link that is in no list has no \<open>prev\<close> to write through.\<close>

definition remove_link :: "nat \<Rightarrow> nat \<times> nat \<Rightarrow> world \<Rightarrow> world option" where
  "remove_link a la w =
     do {
       g \<leftarrow> wd_addrs w a;
       ensure (la \<in> set (ga_links g));
       upd_addr a (\<lambda>g. g\<lparr>ga_links := remove1 la (ga_links g), ga_links_qnt := ga_links_qnt g - 1\<rparr>) w
     }"

section \<open>Events of an address\<close>

fun activate_pre_list :: "sc_wait_type \<Rightarrow> sc_param list \<Rightarrow> nat list \<Rightarrow> world \<Rightarrow> (bool \<times> world) option" where
  "activate_pre_list ty prm [] w = Some (False, w)"
| "activate_pre_list ty prm (p # ps) w =
     do {
       x \<leftarrow> wd_waits w p;
       let w = log (Wait_activated p ty prm) w;
       if wt_answer x then Some (True, w) else activate_pre_list ty prm ps w
     }"

definition addr_seg_of :: "world \<Rightarrow> sc_param \<Rightarrow> nat option" where
  "addr_seg_of w p = map_option ga_seg (wd_addrs w p)"

definition opened_for :: "nat \<Rightarrow> world \<Rightarrow> nat \<Rightarrow> bool" where
  "opened_for ss w seg = (session_opened ss seg w = Some True)"

fun activate_post_list :: "sc_wait_type \<Rightarrow> sc_param list \<Rightarrow> nat list \<Rightarrow> world \<Rightarrow> (bool \<times> world) option" where
  "activate_post_list ty prm [] w = Some (False, w)"
| "activate_post_list ty prm (p # ps) w =
     do {
       x \<leftarrow> wd_waits w p;
       a \<leftarrow> (if wt_session x = 0 then Some True
             else check_prm_access (opened_for (wt_session x) w) (addr_seg_of w) prm (length prm));
       activate_post_list ty prm ps (if a then log (Wait_activated p ty prm) w else w)
     }"

definition addr_activate :: "nat \<Rightarrow> sc_wait_type \<Rightarrow> sc_param list \<Rightarrow> world \<Rightarrow> (bool \<times> world) option" where
  "addr_activate a ty prm w =
     do {
       g \<leftarrow> wd_addrs w a;
       (if wd_event_lock w \<noteq> 0 then Some (False, w)
        else if wait_is_pre ty then activate_pre_list ty prm (ga_waits g ty) w
        else activate_post_list ty prm (ga_waits g ty) w)
     }"

section \<open>Segment references\<close>

text \<open>A segment whose last reference goes is destroyed; that destruction is not part of the model
  (\<open>None\<close>).\<close>

definition seg_ref :: "nat \<Rightarrow> world \<Rightarrow> world option" where
  "seg_ref s w = upd_seg s (\<lambda>g. g\<lparr>sg_refcnt := sg_refcnt g + 1\<rparr>) w"

definition seg_unref :: "nat \<Rightarrow> world \<Rightarrow> world option" where
  "seg_unref s w =
     do {
       g \<leftarrow> st_segs w s;
       ensure (sg_refcnt g - 1 \<noteq> 0);
       upd_seg s (\<lambda>g. g\<lparr>sg_refcnt := sg_refcnt g - 1\<rparr>) w
     }"

section \<open>Iterators over the arcs of an element in one segment (\<open>tmp_iterator\<close>)\<close>

text \<open>The iterator stands on a link object (\<open>0\<close> for the head of the ring), which it keeps alive.\<close>

record arc_iter =
  ai_side :: side
  ai_elem :: nat
  ai_curr :: nat
  ai_addr :: nat

definition arc_list :: "side \<Rightarrow> nat \<Rightarrow> world \<Rightarrow> nat list option" where
  "arc_list sd e w = map_option (adj sd) (st_els w e)"

definition link_addr :: "nat \<Rightarrow> world \<Rightarrow> nat option" where
  "link_addr l w = do { k \<leftarrow> st_links w l; sg_get_element_addr (lk_value k) w }"

text \<open>Skips links that are dead or whose arc has no address.\<close>

fun skip_links :: "nat list \<Rightarrow> world \<Rightarrow> (nat \<times> nat) option" where
  "skip_links [] w = Some (0, 0)"
| "skip_links (l # ls) w =
     do {
       k \<leftarrow> st_links w l;
       a \<leftarrow> sg_get_element_addr (lk_value k) w;
       if lk_dead k \<or> a = 0 then skip_links ls w else Some (l, a)
     }"

fun list_after :: "nat list \<Rightarrow> nat \<Rightarrow> nat list option" where
  "list_after [] l = None"
| "list_after (x # xs) l = (if x = l then Some xs else list_after xs l)"

definition addr_seg :: "nat \<Rightarrow> world \<Rightarrow> nat option" where
  "addr_seg a w = map_option ga_seg (wd_addrs w a)"

definition ref_arc :: "nat \<Rightarrow> nat \<Rightarrow> world \<Rightarrow> world option" where
  "ref_arc l a w =
     do {
       w \<leftarrow> link_ref l w;
       w \<leftarrow> addr_ref a w;
       s \<leftarrow> addr_seg a w;
       seg_ref s w
     }"

definition arc_iter_next :: "arc_iter \<Rightarrow> world \<Rightarrow> (sc_retval \<times> arc_iter \<times> world) option" where
  "arc_iter_next it w =
     (if ai_curr it = 0 then Some (RV_ELSE_GEN, it, w)
      else do {
        ls \<leftarrow> arc_list (ai_side it) (ai_elem it) w;
        rest \<leftarrow> list_after ls (ai_curr it);
        (next, next_addr) \<leftarrow> skip_links rest w;
        w \<leftarrow> link_unref (ai_side it) (ai_elem it) (ai_curr it) w;
        s \<leftarrow> addr_seg (ai_addr it) w;
        w \<leftarrow> seg_unref s w;
        w \<leftarrow> addr_unref (ai_addr it) w;
        let it = it\<lparr>ai_curr := next, ai_addr := next_addr\<rparr>;
        if next \<noteq> 0 then do { w \<leftarrow> ref_arc next next_addr w; Some (RV_OK, it, w) }
        else Some (RV_ELSE_GEN, it, w)
      })"

text \<open>The constructor references the first arc and moves on when it is dead; a first arc without
  an address makes \<open>next\<close> dereference null.\<close>

definition arc_iter_new :: "side \<Rightarrow> nat \<Rightarrow> world \<Rightarrow> (arc_iter \<times> world) option" where
  "arc_iter_new sd e w =
     do {
       ls \<leftarrow> arc_list sd e w;
       (case ls of
          [] \<Rightarrow> Some (\<lparr>ai_side = sd, ai_elem = e, ai_curr = 0, ai_addr = 0\<rparr>, w)
        | l # _ \<Rightarrow>
            do {
              a \<leftarrow> link_addr l w;
              ensure (a \<noteq> 0);
              w \<leftarrow> ref_arc l a w;
              k \<leftarrow> st_links w l;
              d \<leftarrow> addr_is_dead a w;
              let it = \<lparr>ai_side = sd, ai_elem = e, ai_curr = l, ai_addr = a\<rparr>;
              if lk_dead k \<or> d then do { (_, it, w) \<leftarrow> arc_iter_next it w; Some (it, w) }
              else Some (it, w)
            })
     }"

definition arc_iter_is_over :: "arc_iter \<Rightarrow> bool" where
  "arc_iter_is_over it \<longleftrightarrow> ai_curr it = 0"

definition arc_iter_value :: "arc_iter \<Rightarrow> nat \<Rightarrow> nat" where
  "arc_iter_value it num = (if arc_iter_is_over it \<or> num > 0 then 0 else ai_addr it)"

definition arc_iter_delete :: "arc_iter \<Rightarrow> world \<Rightarrow> world option" where
  "arc_iter_delete it w =
     (if arc_iter_is_over it then Some w
      else do {
        s \<leftarrow> addr_seg (ai_addr it) w;
        w \<leftarrow> seg_unref s w;
        w \<leftarrow> addr_unref (ai_addr it) w;
        link_unref (ai_side it) (ai_elem it) (ai_curr it) w
      })"

section \<open>Links as a map from segments\<close>

definition links_sorted :: "(nat \<times> nat) list \<Rightarrow> bool" where
  "links_sorted ls \<longleftrightarrow> sorted_wrt (\<lambda>x y. fst x < fst y) ls"

lemma find_link_below: "links_sorted ls \<Longrightarrow> \<forall>x \<in> set ls. s < fst x \<Longrightarrow> find_link s ls = None"
  by (cases ls) (auto simp: links_sorted_def)

lemma find_link_map: "links_sorted ls \<Longrightarrow> find_link s ls = map_of ls s"
proof (induction ls)
  case (Cons x ls)
  have above: "\<forall>y \<in> set ls. fst x < fst y" and sorted: "links_sorted ls"
    using Cons.prems by (auto simp: links_sorted_def)
  have "fst x < s \<or> s = fst x \<or> s < fst x" by linarith
  moreover have "map_of ls s = None" if "s < fst x"
    using above that by (auto simp: map_of_eq_None_iff)
  ultimately show ?case using Cons.IH sorted by (cases x) auto
qed simp

lemma set_insert_link: "set (insert_link la ls) = insert la (set ls)"
  by (induction ls) auto

lemma insert_link_sorted:
  "links_sorted ls \<Longrightarrow> find_link (fst la) ls = None \<Longrightarrow> links_sorted (insert_link la ls)"
proof (induction ls)
  case (Cons x ls)
  have above: "\<forall>y \<in> set ls. fst x < fst y" and sorted: "links_sorted ls"
    using Cons.prems(1) by (auto simp: links_sorted_def)
  show ?case
  proof (cases "fst x < fst la")
    case True
    then have "find_link (fst la) ls = None" using Cons.prems(2) by (cases x) auto
    with Cons.IH sorted True above show ?thesis
      by (auto simp: links_sorted_def set_insert_link)
  next
    case False
    then have "fst la < fst x" using Cons.prems(2) by (cases x) (auto split: if_splits)
    then show ?thesis using Cons.prems(1) above False by (auto simp: links_sorted_def)
  qed
qed (simp add: links_sorted_def)

lemma find_insert_link:
  assumes "links_sorted ls" "find_link (fst la) ls = None"
  shows "find_link s (insert_link la ls) = (if s = fst la then Some (snd la) else find_link s ls)"
proof -
  have "map_of ls (fst la) = None \<Longrightarrow> map_of (insert_link la ls) = (map_of ls)(fst la \<mapsto> snd la)"
  proof (induction ls)
    case (Cons x ls)
    then show ?case by (cases x; cases la) (auto simp: fun_eq_iff split: if_splits)
  qed (cases la; simp)
  then have "map_of (insert_link la ls) = (map_of ls)(fst la \<mapsto> snd la)"
    using assms(2) find_link_map [OF assms(1)] by simp
  then show ?thesis
    using find_link_map [OF insert_link_sorted [OF assms]] find_link_map [OF assms(1)] by simp
qed

lemma remove_link_map:
  assumes "links_sorted ls" "(s, ll) \<in> set ls"
  shows "links_sorted (remove1 (s, ll) ls) \<and>
    (\<forall>t. find_link t (remove1 (s, ll) ls) = (if t = s then None else find_link t ls))"
proof -
  have sorted: "links_sorted (remove1 (s, ll) ls)"
    using assms(1) unfolding links_sorted_def
  proof (induction ls)
    case (Cons x ls)
    then show ?case using notin_set_remove1 by (auto dest: notin_set_remove1)
  qed simp
  have "map_of (remove1 (s, ll) ls) = (map_of ls)(s := None)"
    using assms unfolding links_sorted_def
  proof (induction ls)
    case (Cons x ls)
    show ?case
    proof (cases "x = (s, ll)")
      case True
      then have "map_of ls s = None" using Cons.prems(1) by (auto simp: map_of_eq_None_iff)
      then show ?thesis using True by auto
    next
      case False
      then have mem: "(s, ll) \<in> set ls" using Cons.prems(2) by auto
      then have "fst x \<noteq> s" using Cons.prems(1) by auto
      then show ?thesis using Cons.IH mem Cons.prems(1) False by (cases x) (auto simp: fun_eq_iff)
    qed
  qed simp
  then show ?thesis
    using sorted find_link_map [OF sorted] find_link_map [OF assms(1)] by simp
qed

text \<open>The abstraction: the map that \<open>find_link\<close> reads, on an ordered and counted list.\<close>

definition links_map :: "gaddr \<Rightarrow> nat \<Rightarrow> nat option" where
  "links_map g seg = find_link seg (ga_links g)"

definition links_ok :: "gaddr \<Rightarrow> bool" where
  "links_ok g \<longleftrightarrow> links_sorted (ga_links g) \<and> ga_links_qnt g = of_nat (length (ga_links g))"

lemma length_insert_link: "length (insert_link la ls) = length ls + 1"
  by (induction ls) auto

lemma add_link_ok:
  assumes "wd_addrs w a = Some g" "links_ok g"
    and "links_map g seg = None \<and> sg_get_in_qnt ll w = Some i \<and> sg_get_out_qnt ll w = Some out"
  shows "\<exists>g'. add_link a seg ll w = Some (w\<lparr>wd_addrs := (wd_addrs w)(a \<mapsto> g')\<rparr>) \<and> links_ok g' \<and>
        links_map g' = (links_map g)(seg \<mapsto> ll) \<and>
        g' = g\<lparr>ga_links := ga_links g', ga_links_qnt := ga_links_qnt g + 1,
          ga_in_qnt := ga_in_qnt g + word_of_int i, ga_out_qnt := ga_out_qnt g + word_of_int out\<rparr>"
proof -
  have ls: "links_sorted (ga_links g)" "find_link (fst (seg, ll)) (ga_links g) = None"
    using assms(2,3) by (simp_all add: links_ok_def links_map_def)
  let ?g = "g\<lparr>ga_links := insert_link (seg, ll) (ga_links g), ga_links_qnt := ga_links_qnt g + 1,
      ga_in_qnt := ga_in_qnt g + word_of_int i, ga_out_qnt := ga_out_qnt g + word_of_int out\<rparr>"
  have "add_link a seg ll w = Some (w\<lparr>wd_addrs := (wd_addrs w)(a \<mapsto> ?g)\<rparr>)"
    using assms by (simp add: add_link_def upd_addr_def)
  moreover have "links_ok ?g" "links_map ?g = (links_map g)(seg \<mapsto> ll)"
    using assms(2) insert_link_sorted [OF ls] find_insert_link [OF ls]
    by (simp_all add: links_ok_def links_map_def length_insert_link fun_eq_iff)
  ultimately show ?thesis by (intro exI [of _ ?g] conjI) simp_all
qed

lemma remove_link_ok:
  assumes "wd_addrs w a = Some g" "links_ok g" "links_map g seg = Some ll"
  shows "\<exists>g'. remove_link a (seg, ll) w = Some (w\<lparr>wd_addrs := (wd_addrs w)(a \<mapsto> g')\<rparr>) \<and> links_ok g' \<and>
        links_map g' = (links_map g)(seg := None) \<and>
        g' = g\<lparr>ga_links := ga_links g', ga_links_qnt := ga_links_qnt g - 1\<rparr>"
proof -
  have ls: "links_sorted (ga_links g)" using assms(2) by (simp add: links_ok_def)
  have mem: "(seg, ll) \<in> set (ga_links g)"
    using assms(3) find_link_map [OF ls] by (simp add: links_map_def map_of_SomeD)
  then have "0 < length (ga_links g)" by auto
  then have len: "of_nat (length (ga_links g) - 1) = (of_nat (length (ga_links g)) - 1 :: 64 word)"
    by (cases "length (ga_links g)") simp_all
  let ?g = "g\<lparr>ga_links := remove1 (seg, ll) (ga_links g), ga_links_qnt := ga_links_qnt g - 1\<rparr>"
  have "remove_link a (seg, ll) w = Some (w\<lparr>wd_addrs := (wd_addrs w)(a \<mapsto> ?g)\<rparr>)"
    using assms(1) mem by (simp add: remove_link_def upd_addr_def)
  moreover have "links_ok ?g" "links_map ?g = (links_map g)(seg := None)"
    using assms(2) mem remove_link_map [OF ls mem] len
    by (simp_all add: links_ok_def links_map_def length_remove1 fun_eq_iff)
  ultimately show ?thesis by (intro exI [of _ ?g] conjI) simp_all
qed

lemma remove_link_foreign:
  assumes "wd_addrs w a = Some g" "links_ok g" "links_map g seg \<noteq> Some ll"
  shows "remove_link a (seg, ll) w = None"
proof -
  have ls: "links_sorted (ga_links g)" using assms(2) by (simp add: links_ok_def)
  have "distinct (map fst (ga_links g))"
    using ls by (simp add: links_sorted_def strict_sorted_iff flip: sorted_wrt_map)
  then have "(seg, ll) \<notin> set (ga_links g)"
    using assms(3) find_link_map [OF ls] by (auto simp: links_map_def)
  then show ?thesis using assms(1) by (simp add: remove_link_def)
qed

section \<open>Iteration leaves the world as it was\<close>

text \<open>An arc as the iterator finds it in a store at rest: a live link, an arc with an address.\<close>

definition arc_at_rest :: "world \<Rightarrow> nat \<Rightarrow> nat \<Rightarrow> bool" where
  "arc_at_rest w l a \<longleftrightarrow> a \<noteq> 0 \<and> l \<noteq> 0 \<and>
     (\<exists>arc e g s. st_links w l = Some (quiet_link arc) \<and> st_els w arc = Some e \<and> el_addr e = a \<and>
        wd_addrs w a = Some g \<and> \<not> ga_dead g \<and> 0 < ga_refcnt g \<and>
        st_segs w (ga_seg g) = Some s \<and> 0 < sg_refcnt s)"

lemma arc_at_restD:
  assumes "arc_at_rest w l a"
  shows "link_addr l w = Some a" "a \<noteq> 0" "l \<noteq> 0"
    "\<exists>arc. st_links w l = Some (quiet_link arc) \<and> sg_get_element_addr arc w = Some a"
  using assms by (auto simp: arc_at_rest_def link_addr_def sg_get_element_addr_def quiet_link_def)

lemma skip_at_rest:
  assumes "\<And>l. l \<in> set ls \<Longrightarrow> arc_at_rest w l (f l)"
  shows "skip_links ls w = Some (case ls of [] \<Rightarrow> (0, 0) | l # _ \<Rightarrow> (l, f l))"
proof (cases ls)
  case (Cons l ls')
  then have "arc_at_rest w l (f l)" using assms by simp
  then show ?thesis
    using Cons by (auto simp: arc_at_rest_def quiet_link_def sg_get_element_addr_def)
qed simp

text \<open>Referencing an arc and releasing it again.\<close>

lemma ref_arc_release:
  assumes "arc_at_rest w l a"
  shows "\<exists>w'. ref_arc l a w = Some w' \<and>
    (do { w1 \<leftarrow> link_unref sd e l w'; s \<leftarrow> addr_seg a w1; w2 \<leftarrow> seg_unref s w1; addr_unref a w2 }) = Some w \<and>
    (do { s \<leftarrow> addr_seg a w'; w1 \<leftarrow> seg_unref s w'; w2 \<leftarrow> addr_unref a w1; link_unref sd e l w2 }) = Some w \<and>
    st_els w' = st_els w \<and> (\<forall>k. map_option lk_dead (st_links w' k) = map_option lk_dead (st_links w k)) \<and>
    (\<forall>k. map_option lk_value (st_links w' k) = map_option lk_value (st_links w k)) \<and>
    (\<forall>k. map_option ga_dead (wd_addrs w' k) = map_option ga_dead (wd_addrs w k))"
proof -
  obtain arc el g s where
    h: "st_links w l = Some (quiet_link arc)" "st_els w arc = Some el" "el_addr el = a"
      "wd_addrs w a = Some g" "\<not> ga_dead g" "0 < ga_refcnt g"
      "st_segs w (ga_seg g) = Some s" "0 < sg_refcnt s"
    using assms by (auto simp: arc_at_rest_def)
  let ?k = "quiet_link arc"
  define w' where "w' = w\<lparr>st_links := (st_links w)(l \<mapsto> ?k\<lparr>lk_refcnt := 2\<rparr>),
    wd_addrs := (wd_addrs w)(a \<mapsto> g\<lparr>ga_refcnt := ga_refcnt g + 1\<rparr>),
    st_segs := (st_segs w)(ga_seg g \<mapsto> s\<lparr>sg_refcnt := sg_refcnt s + 1\<rparr>)\<rparr>"
  have r: "ref_arc l a w = Some w'"
    using h by (simp add: ref_arc_def link_ref_def addr_ref_def upd_addr_def addr_seg_def seg_ref_def
        upd_seg_def w'_def quiet_link_def)
  have bk: "?k\<lparr>lk_refcnt := 1\<rparr> = ?k" by (simp add: quiet_link_def)
  have "w\<lparr>st_links := (st_links w)(l \<mapsto> ?k), wd_addrs := (wd_addrs w)(a \<mapsto> g),
      st_segs := (st_segs w)(ga_seg g \<mapsto> s)\<rparr> = w"
    using h by (simp add: fun_upd_idem)
  then show ?thesis
    using r h bk
    by (auto simp: w'_def link_unref_def addr_seg_def seg_unref_def upd_seg_def addr_unref_def
        upd_addr_def fun_upd_idem)
qed

fun arc_iter_collect :: "nat \<Rightarrow> arc_iter \<Rightarrow> world \<Rightarrow> (nat list \<times> world) option" where
  "arc_iter_collect 0 it w = None"
| "arc_iter_collect (Suc n) it w =
     (if arc_iter_is_over it then do { w \<leftarrow> arc_iter_delete it w; Some ([], w) }
      else do {
        (_, it', w) \<leftarrow> arc_iter_next it w;
        (vs, w) \<leftarrow> arc_iter_collect n it' w;
        Some (arc_iter_value it 0 # vs, w)
      })"

lemma skip_links_cong:
  assumes "st_els w' = st_els w"
    and "\<And>k. map_option lk_dead (st_links w' k) = map_option lk_dead (st_links w k)"
    and "\<And>k. map_option lk_value (st_links w' k) = map_option lk_value (st_links w k)"
  shows "skip_links ls w' = skip_links ls w"
proof (induction ls)
  case (Cons l ls)
  show ?case
  proof (cases "st_links w l")
    case None
    then have "st_links w' l = None" using assms(2) [of l] by simp
    then show ?thesis using None by simp
  next
    case (Some k)
    then obtain k' where "st_links w' l = Some k'" "lk_dead k' = lk_dead k" "lk_value k' = lk_value k"
      using assms(2,3) [of l] by auto
    then show ?thesis using Some Cons assms(1) by (simp add: sg_get_element_addr_def cong: if_cong)
  qed
qed simp

lemma list_after_append: "l \<notin> set ls \<Longrightarrow> list_after (ls @ l # rest) l = Some rest"
  by (induction ls) auto

lemma arc_iter_next_at_rest:
  assumes ls: "arc_list sd e w = Some (ls @ l # rest)" "l \<notin> set ls"
    and rest: "\<And>k. k \<in> set (l # rest) \<Longrightarrow> arc_at_rest w k (f k)"
    and w': "ref_arc l (f l) w = Some w'"
  shows "arc_iter_next \<lparr>ai_side = sd, ai_elem = e, ai_curr = l, ai_addr = f l\<rparr> w' =
    (case rest of
       [] \<Rightarrow> Some (RV_ELSE_GEN, \<lparr>ai_side = sd, ai_elem = e, ai_curr = 0, ai_addr = 0\<rparr>, w)
     | k # _ \<Rightarrow> do { w2 \<leftarrow> ref_arc k (f k) w;
         Some (RV_OK, \<lparr>ai_side = sd, ai_elem = e, ai_curr = k, ai_addr = f k\<rparr>, w2) })"
proof -
  have r: "arc_at_rest w l (f l)" using rest by simp
  from ref_arc_release [OF r, of sd e] w' have
    rel: "(do { w1 \<leftarrow> link_unref sd e l w'; s \<leftarrow> addr_seg (f l) w1; w2 \<leftarrow> seg_unref s w1; addr_unref (f l) w2 }) = Some w"
    and same: "st_els w' = st_els w"
      "\<And>k. map_option lk_dead (st_links w' k) = map_option lk_dead (st_links w k)"
      "\<And>k. map_option lk_value (st_links w' k) = map_option lk_value (st_links w k)"
    by auto
  have al: "arc_list sd e w' = Some (ls @ l # rest)" using ls(1) same(1) by (simp add: arc_list_def)
  have sk: "skip_links rest w' = Some (case rest of [] \<Rightarrow> (0, 0) | k # _ \<Rightarrow> (k, f k))"
    using skip_links_cong [OF same, of rest] skip_at_rest [of rest w f] rest by simp
  have rel': "link_unref sd e l w' \<bind> (\<lambda>w. addr_seg (f l) w \<bind> (\<lambda>s. seg_unref s w \<bind>
      (\<lambda>w. addr_unref (f l) w \<bind> F))) = F w" for F :: "world \<Rightarrow> 'b option"
  proof -
    have "link_unref sd e l w' \<bind> (\<lambda>w. addr_seg (f l) w \<bind> (\<lambda>s. seg_unref s w \<bind>
      (\<lambda>w. addr_unref (f l) w \<bind> F))) =
      (do { w1 \<leftarrow> link_unref sd e l w'; s \<leftarrow> addr_seg (f l) w1; w2 \<leftarrow> seg_unref s w1; addr_unref (f l) w2 }) \<bind> F"
      by (simp add: Option.bind_assoc)
    then show ?thesis using rel by simp
  qed
  have l0: "l \<noteq> 0" using arc_at_restD(3) [OF r] .
  show ?thesis
  proof (cases rest)
    case Nil
    then show ?thesis
      using al sk l0 ls(2) rel' by (simp add: arc_iter_next_def list_after_append)
  next
    case (Cons k ks)
    then have "arc_at_rest w k (f k)" using rest by simp
    then have "k \<noteq> 0" by (rule arc_at_restD(3))
    then show ?thesis
      using al sk l0 ls(2) rel' Cons by (simp add: arc_iter_next_def list_after_append)
  qed
qed

lemma arc_iter_collect_at_rest:
  assumes "arc_list sd e w = Some (ls @ l # rest)" "distinct (ls @ l # rest)"
    and "\<And>k. k \<in> set (l # rest) \<Longrightarrow> arc_at_rest w k (f k)"
    and "ref_arc l (f l) w = Some w'" "length (l # rest) < n"
  shows "arc_iter_collect n \<lparr>ai_side = sd, ai_elem = e, ai_curr = l, ai_addr = f l\<rparr> w' =
    Some (map f (l # rest), w)"
  using assms
proof (induction rest arbitrary: ls l w' n)
  case Nil
  then have "n = Suc (Suc (n - 2))" by simp
  then obtain m where n: "n = Suc (Suc m)" by blast
  have l0: "l \<noteq> 0" by (rule arc_at_restD(3) [OF Nil.prems(3)]) simp
  have "l \<notin> set ls" using Nil.prems(2) by simp
  from arc_iter_next_at_rest [OF Nil.prems(1) this Nil.prems(3,4)] show ?case
    using n l0 by (simp add: arc_iter_is_over_def arc_iter_value_def arc_iter_delete_def)
next
  case (Cons k rest)
  obtain m where n: "n = Suc m" using Cons.prems(5) by (cases n) auto
  have l0: "l \<noteq> 0" by (rule arc_at_restD(3) [OF Cons.prems(3)]) simp
  have k: "arc_at_rest w k (f k)" using Cons.prems(3) by simp
  obtain w2 where w2: "ref_arc k (f k) w = Some w2" using ref_arc_release [OF k] by blast
  have "l \<notin> set ls" using Cons.prems(2) by simp
  from arc_iter_next_at_rest [OF Cons.prems(1) this Cons.prems(3,4)] have
    nx: "arc_iter_next \<lparr>ai_side = sd, ai_elem = e, ai_curr = l, ai_addr = f l\<rparr> w' =
      Some (RV_OK, \<lparr>ai_side = sd, ai_elem = e, ai_curr = k, ai_addr = f k\<rparr>, w2)"
    using w2 by simp
  have "arc_iter_collect m \<lparr>ai_side = sd, ai_elem = e, ai_curr = k, ai_addr = f k\<rparr> w2 =
      Some (map f (k # rest), w)"
    using Cons.prems n w2 by (intro Cons.IH [of "ls @ [l]"]) auto
  then show ?case
    using n l0 nx by (simp add: arc_iter_is_over_def arc_iter_value_def)
qed

lemma arc_iteration_at_rest:
  assumes "arc_list sd e w = Some ls" "distinct ls"
    and "\<And>k. k \<in> set ls \<Longrightarrow> arc_at_rest w k (f k)" "length ls < n"
  shows "(do { (it, w1) \<leftarrow> arc_iter_new sd e w; arc_iter_collect n it w1 }) = Some (map f ls, w)"
proof (cases ls)
  case Nil
  then obtain m where "n = Suc m" using assms(4) by (cases n) auto
  then show ?thesis
    using Nil assms(1) by (simp add: arc_iter_new_def arc_iter_is_over_def arc_iter_delete_def)
next
  case (Cons l rest)
  have r: "arc_at_rest w l (f l)" using assms(3) Cons by simp
  obtain w' where w': "ref_arc l (f l) w = Some w'"
    "\<And>k. map_option lk_dead (st_links w' k) = map_option lk_dead (st_links w k)"
    "\<And>k. map_option ga_dead (wd_addrs w' k) = map_option ga_dead (wd_addrs w k)"
    using ref_arc_release [OF r] by blast
  obtain arc g where "st_links w l = Some (quiet_link arc)" "wd_addrs w (f l) = Some g" "\<not> ga_dead g"
    using r by (auto simp: arc_at_rest_def)
  then obtain k g' where "st_links w' l = Some k" "\<not> lk_dead k" "wd_addrs w' (f l) = Some g'" "\<not> ga_dead g'"
    using w'(2) [of l] w'(3) [of "f l"] by (auto simp: quiet_link_def)
  then have "arc_iter_new sd e w = Some (\<lparr>ai_side = sd, ai_elem = e, ai_curr = l, ai_addr = f l\<rparr>, w')"
    using assms(1) Cons w'(1) arc_at_restD(1,2) [OF r]
    by (simp add: arc_iter_new_def addr_is_dead_def)
  moreover have "arc_iter_collect n \<lparr>ai_side = sd, ai_elem = e, ai_curr = l, ai_addr = f l\<rparr> w' =
      Some (map f (l # rest), w)"
    using assms Cons w'(1) by (intro arc_iter_collect_at_rest [of sd e w "[]"]) auto
  ultimately show ?thesis using Cons by simp
qed

section \<open>Properties\<close>


text \<open>An address with links in segments \<open>3\<close> and \<open>7\<close>, and an element \<open>4\<close> with two incoming arcs.\<close>

definition links_world :: world where
  "links_world =
     \<lparr>st_els = [4 \<mapsto> (new_element SC_EMPTY TMP_LINK)\<lparr>el_in_qnt := 2\<rparr>], st_links = (\<lambda>_. None),
      st_segs = (\<lambda>_. None), st_fresh = 10, st_idtf_counter = 0,
      wd_addrs = [9 \<mapsto> (new_gaddr 1 2 0 0)\<lparr>ga_links := [(3, 30), (7, 70)], ga_links_qnt := 2\<rparr>],
      wd_waits = (\<lambda>_. None), wd_sessions = (\<lambda>_. None),
      wd_system = 0, wd_event_lock = 0, wd_segtable = segment_table_new, wd_junk = 0, wd_log = []\<rparr>"


text \<open>C8. An iterator over the arcs of an element visits the address of every arc of the element on
  its side, once and in list order, ends within one step more than there are arcs, and when it is
  deleted leaves the whole world as it found it: all references it took on links, addresses and
  segments are given back.\<close>

theorem arc_iteration_complete:
  assumes "store_adj w" "vD w e" "length (arcs sd w e) < n"
    and "\<forall>arc \<in> set (arcs sd w e). \<exists>el g s. st_els w arc = Some el \<and> el_addr el = f arc \<and>
      f arc \<noteq> 0 \<and> wd_addrs w (f arc) = Some g \<and> \<not> ga_dead g \<and> 0 < ga_refcnt g \<and>
      st_segs w (ga_seg g) = Some s \<and> 0 < sg_refcnt s"
    and "st_links w 0 = None"
  shows "(do { (it, w1) \<leftarrow> arc_iter_new sd e w; arc_iter_collect n it w1 }) =
    Some (map f (arcs sd w e), w)"
proof -
  let ?ls = "vA sd w e"
  let ?v = "\<lambda>l. case st_links w l of Some k \<Rightarrow> lk_value k | None \<Rightarrow> 0"
  have arcs: "arcs sd w e = map ?v ?ls" by (simp add: arcs_def adj_arcs_def)
  note inv = adj_okD [OF assms(1), of sd]
  have "arc_at_rest w l (f (?v l))" if l: "l \<in> set ?ls" for l
  proof -
    obtain a where a: "st_links w l = Some (quiet_link a)" using adj_invD(3) [OF inv l] by blast
    then have v: "?v l = a" by (simp add: quiet_link_def)
    then have mem: "a \<in> set (arcs sd w e)" using l arcs by force
    have "l \<noteq> 0" using a assms(5) by (cases "l = 0") auto
    with assms(4) mem a show ?thesis unfolding arc_at_rest_def v by blast
  qed
  moreover have "arc_list sd e w = Some ?ls"
    using assms(2) by (auto simp: arc_list_def vA_def vD_def)
  moreover have "distinct ?ls" using adj_invD(1) [OF inv] .
  moreover have "length ?ls < n" using assms(3) arcs by simp
  ultimately show ?thesis
    using arc_iteration_at_rest [of sd e w ?ls "\<lambda>l. f (?v l)" n] arcs by (simp add: o_def)
qed

text \<open>A world with one node \<open>2\<close>, one arc \<open>4\<close> that begins in it, and the arc's address \<open>9\<close>.\<close>

definition one_arc_world :: world where
  "one_arc_world =
     \<lparr>st_els = [2 \<mapsto> (new_element SC_N_CONST TMP_MISSING_IDTF)\<lparr>el_output := [5], el_out_qnt := 1\<rparr>,
        4 \<mapsto> (new_element SC_ARC_MAIN TMP_MISSING_IDTF)\<lparr>el_beg := 2, el_beg_hint := 5, el_addr := 9\<rparr>],
      st_links = [5 \<mapsto> quiet_link 4],
      st_segs = [1 \<mapsto> new_segment 0 ''s'' ''/'' ''p''], st_fresh = 10, st_idtf_counter = 0,
      wd_addrs = [9 \<mapsto> new_gaddr 1 4 0 0], wd_waits = (\<lambda>_. None), wd_sessions = (\<lambda>_. None),
      wd_system = 0, wd_event_lock = 0, wd_segtable = segment_table_new, wd_junk = 0, wd_log = []\<rparr>"

theorem arc_iteration_complete_witness:
  "(do { (it, w) \<leftarrow> arc_iter_new Beg 2 one_arc_world; arc_iter_collect 2 it w }) =
    Some ([9], one_arc_world)"
proof -
  have d: "store_adj one_arc_world"
    by (auto simp: store_adj_def adj_ok_def adj_inv_def fresh_ok_def one_arc_world_def view_defs
        new_element_def adj_def split: side.splits)
  have a: "arcs Beg one_arc_world 2 = [4]" "vD one_arc_world 2"
    by (simp_all add: arcs_def adj_arcs_def one_arc_world_def view_defs new_element_def adj_def quiet_link_def)
  show ?thesis
    using arc_iteration_complete [OF d a(2), of Beg 2 "\<lambda>_. 9"] a(1)
    by (simp add: one_arc_world_def new_element_def new_gaddr_def new_segment_def)
qed

end
