(* ===== verification/Sc_Session.thy ===== *)
theory Sc_Session
  imports Sc_Addr
begin

text \<open>
  The operations of a session (\<open>session_base\<close>, \<open>normal_session\<close> and \<open>sc_system_session\<close> of
  \<open>libsc/libsc/sc_core.cpp\<close>) on the world of addresses: access checks, elements and their types,
  ends of arcs with their events, identifiers and contents, waits, and the deletion of elements.
  The first argument is the session; \<open>wd_system\<close> is the system session. Operations return their
  value and the world; the session's error code is a field of the world. \<open>None\<close> is an abort or the
  use of an invalid address.
\<close>

section \<open>Errors and access\<close>

definition set_error :: "nat \<Rightarrow> sc_retval \<Rightarrow> world \<Rightarrow> world option" where
  "set_error ss rv w = upd_session ss (\<lambda>s. s\<lparr>ss_error := rv\<rparr>) w"

text \<open>\<open>return error = rv\<close>, and \<open>{ error = RV_ERR_GEN; return 0; }\<close>.\<close>

definition return_error :: "nat \<Rightarrow> sc_retval \<Rightarrow> world \<Rightarrow> (sc_retval \<times> world) option" where
  "return_error ss rv w = do { w \<leftarrow> set_error ss rv w; Some (rv, w) }"

definition fail_null :: "nat \<Rightarrow> sc_retval \<Rightarrow> world \<Rightarrow> (nat \<times> world) option" where
  "fail_null ss rv w = do { w \<leftarrow> set_error ss rv w; Some (0, w) }"

definition get_error :: "nat \<Rightarrow> world \<Rightarrow> sc_retval option" where
  "get_error ss w = map_option ss_error (wd_sessions w ss)"

definition access :: "nat \<Rightarrow> nat \<Rightarrow> world \<Rightarrow> (sc_retval \<times> world) option" where
  "access ss a w =
     (if a = 0 then return_error ss RV_ERR_GEN w
      else do {
        g \<leftarrow> wd_addrs w a;
        (if ga_dead g \<or> ga_seg g = 0 \<or> ga_impl g = 0 then return_error ss RV_ERR_GEN w
         else do {
           b \<leftarrow> session_opened ss (ga_seg g) w;
           return_error ss (if b then RV_OK else RV_ERR_GEN) w
         })
      })"

definition get_full_uri :: "nat \<Rightarrow> 'a store_scheme \<Rightarrow> string option" where
  "get_full_uri s w = map_option (\<lambda>g. sg_repo_uri g @ sg_uri g) (st_segs w s)"

section \<open>Notification of the event stream of a segment\<close>

definition put_ev :: "nat \<Rightarrow> (event_fifo \<Rightarrow> event_fifo option) \<Rightarrow> 'a store_scheme \<Rightarrow> 'a store_scheme option" where
  "put_ev s f w =
     do {
       g \<leftarrow> st_segs w s;
       q \<leftarrow> sg_evstream g;
       q \<leftarrow> f q;
       upd_seg s (\<lambda>g. g\<lparr>sg_evstream := Some q\<rparr>) w
     }"

definition has_stream :: "nat \<Rightarrow> 'a store_scheme \<Rightarrow> bool option" where
  "has_stream s w = map_option (\<lambda>g. sg_evstream g \<noteq> None) (st_segs w s)"

definition notify_genel :: "nat \<Rightarrow> nat \<Rightarrow> sc_type \<Rightarrow> 'a store_scheme \<Rightarrow> 'a store_scheme option" where
  "notify_genel seg ll type w =
     do {
       b \<leftarrow> has_stream seg w;
       if \<not> b then Some w
       else do { (idtf, w) \<leftarrow> sg_get_idtf seg ll w; put_ev seg (put_genel idtf type) w }
     }"

definition notify_setcontent :: "nat \<Rightarrow> nat \<Rightarrow> content \<Rightarrow> 'a store_scheme \<Rightarrow> 'a store_scheme option" where
  "notify_setcontent seg ll c w =
     do {
       b \<leftarrow> has_stream seg w;
       if \<not> b then Some w
       else do { (idtf, w) \<leftarrow> sg_get_idtf seg ll w; put_ev seg (put_setcont idtf c) w }
     }"

definition end_name :: "nat \<Rightarrow> nat \<Rightarrow> 'a store_scheme \<Rightarrow> (string \<times> 'a store_scheme) option" where
  "end_name seg to w =
     (if to = 0 then Some ('''', w)
      else do {
        l \<leftarrow> sg_is_link to w;
        if l then do { t \<leftarrow> sg_get_link_target to w; Some (t, w) } else sg_get_idtf seg to w
      })"

definition notify_setbeg :: "nat \<Rightarrow> nat \<Rightarrow> nat \<Rightarrow> 'a store_scheme \<Rightarrow> 'a store_scheme option" where
  "notify_setbeg seg ll to w =
     do {
       b \<leftarrow> has_stream seg w;
       if \<not> b then Some w
       else do {
         (idtf, w) \<leftarrow> sg_get_idtf seg ll w;
         (aux, w) \<leftarrow> end_name seg to w;
         put_ev seg (put_setbeg idtf aux) w
       }
     }"

definition notify_setend :: "nat \<Rightarrow> nat \<Rightarrow> nat \<Rightarrow> 'a store_scheme \<Rightarrow> 'a store_scheme option" where
  "notify_setend seg ll to w =
     do {
       b \<leftarrow> has_stream seg w;
       if \<not> b then Some w
       else do {
         (idtf, w) \<leftarrow> sg_get_idtf seg ll w;
         (aux, w) \<leftarrow> end_name seg to w;
         put_ev seg (put_setend idtf aux) w
       }
     }"

text \<open>The waits \<open>on_add\<close> and \<open>on_remove\<close> of a segment are activated without any check.\<close>

fun notify_waits :: "sc_wait_type \<Rightarrow> sc_param list \<Rightarrow> nat list \<Rightarrow> world \<Rightarrow> world option" where
  "notify_waits ty prm [] w = Some w"
| "notify_waits ty prm (p # ps) w =
     do { _ \<leftarrow> wd_waits w p; notify_waits ty prm ps (log (Wait_activated p ty prm) w) }"

section \<open>Numbers of arcs over all segments\<close>

fun sum_qnt :: "(nat \<Rightarrow> int option) \<Rightarrow> nat list \<Rightarrow> int option" where
  "sum_qnt f [] = Some 0"
| "sum_qnt f (l # ls) = do { n \<leftarrow> f l; m \<leftarrow> sum_qnt f ls; Some (n + m) }"

definition get_out_qnt :: "nat \<Rightarrow> world \<Rightarrow> int option" where
  "get_out_qnt a w =
     do {
       g \<leftarrow> wd_addrs w a;
       sum_qnt (\<lambda>l. sg_get_out_qnt l w) (ga_impl g # map snd (ga_links g))
     }"

definition get_in_qnt :: "nat \<Rightarrow> world \<Rightarrow> int option" where
  "get_in_qnt a w =
     do {
       g \<leftarrow> wd_addrs w a;
       sum_qnt (\<lambda>l. sg_get_in_qnt l w) (ga_impl g # map snd (ga_links g))
     }"

section \<open>Reading elements\<close>

text \<open>An inaccessible address makes \<open>get_type\<close> return the error code itself as a type.\<close>

definition get_type :: "nat \<Rightarrow> nat \<Rightarrow> world \<Rightarrow> (sc_type \<times> world) option" where
  "get_type ss a w =
     do {
       (e, w) \<leftarrow> access ss a w;
       (if e \<noteq> RV_OK then Some (word_of_int e, w)
        else do {
          w \<leftarrow> set_error ss RV_OK w;
          g \<leftarrow> wd_addrs w a;
          t \<leftarrow> sg_get_type (ga_impl g) w;
          Some (t, w)
        })
     }"

definition get_end :: "nat \<Rightarrow> nat \<Rightarrow> world \<Rightarrow> (nat \<times> world) option" where
  "get_end ss a w =
     do {
       (e, w) \<leftarrow> access ss a w;
       (if e \<noteq> RV_OK then Some (0, w)
        else do {
          g \<leftarrow> wd_addrs w a;
          t \<leftarrow> sg_get_type (ga_impl g) w;
          (if t AND SC_CONNECTOR_MASK = 0 then fail_null ss RV_ERR_GEN w
           else do {
             ll \<leftarrow> sg_get_end (ga_impl g) w;
             (if ll = 0 then Some (0, w)
              else do {
                en \<leftarrow> sg_get_element_addr ll w;
                (e, w) \<leftarrow> access ss en w;
                if e \<noteq> RV_OK then Some (0, w) else Some (en, w)
              })
           })
        })
     }"

definition get_beg :: "nat \<Rightarrow> nat \<Rightarrow> world \<Rightarrow> (nat \<times> world) option" where
  "get_beg ss a w =
     do {
       (e, w) \<leftarrow> access ss a w;
       (if e \<noteq> RV_OK then Some (0, w)
        else do {
          g \<leftarrow> wd_addrs w a;
          t \<leftarrow> sg_get_type (ga_impl g) w;
          (if t AND SC_CONNECTOR_MASK = 0 then fail_null ss RV_ERR_GEN w
           else do {
             ll \<leftarrow> sg_get_beg (ga_impl g) w;
             (if ll = 0 then Some (0, w)
              else do {
                b \<leftarrow> sg_get_element_addr ll w;
                (e, w) \<leftarrow> access ss b w;
                if e \<noteq> RV_OK then Some (0, w) else Some (b, w)
              })
           })
        })
     }"

section \<open>Links to elements of other segments\<close>

definition ensure_link_to :: "nat \<Rightarrow> nat \<Rightarrow> world \<Rightarrow> (nat \<times> world) option" where
  "ensure_link_to seg a w =
     do {
       g \<leftarrow> wd_addrs w a;
       (if ga_seg g = seg then Some (ga_impl g, w)
        else case find_link seg (ga_links g) of
          Some ll \<Rightarrow> Some (ll, w)
        | None \<Rightarrow>
            do {
              (str, w) \<leftarrow> sg_get_idtf (ga_seg g) (ga_impl g) w;
              uri \<leftarrow> get_full_uri (ga_seg g) w;
              (ll, w) \<leftarrow> sg_create_link seg (uri @ ''/'' @ str) w;
              (if ll = 0 then Some (0, w)
               else do {
                 w \<leftarrow> add_link a seg ll w;
                 w \<leftarrow> sg_set_element_addr ll a w;
                 Some (ll, w)
               })
            })
     }"

definition erase_lonely_link_to :: "nat \<Rightarrow> nat \<Rightarrow> world \<Rightarrow> world option" where
  "erase_lonely_link_to seg a w =
     do {
       g \<leftarrow> wd_addrs w a;
       (if ga_seg g = seg then Some w
        else case find_link seg (ga_links g) of
          None \<Rightarrow> Some w
        | Some ll \<Rightarrow>
            do {
              inq \<leftarrow> sg_get_in_qnt ll w;
              outq \<leftarrow> sg_get_out_qnt ll w;
              (if inq + outq = 0 then do { w \<leftarrow> sg_erase_el seg ll w; remove_link a (seg, ll) w }
               else Some w)
            })
     }"

section \<open>Ends of arcs\<close>

text \<open>\<open>set_beg_pre\<close> hands the handlers of \<open>ATTACH_OUTPUT_PRE\<close> the parameters \<open>prm[1]\<close> and the
  not yet initialised \<open>prm[2]\<close>.\<close>

definition set_beg_pre :: "nat \<Rightarrow> nat \<Rightarrow> world \<Rightarrow> (bool \<times> world) option" where
  "set_beg_pre arc beg w =
     do {
       g \<leftarrow> wd_addrs w arc;
       ll \<leftarrow> sg_get_beg (ga_impl g) w;
       (if beg = 0 then
          do {
            a \<leftarrow> (if ll \<noteq> 0 then sg_get_element_addr ll w else Some 0);
            if a \<noteq> 0 then addr_activate a SC_WAIT_DETACH_OUTPUT_PRE [a, arc] w else Some (False, w)
          }
        else
          do {
            (b, w) \<leftarrow> addr_activate beg SC_WAIT_ATTACH_OUTPUT_PRE [arc, wd_junk w] w;
            (if b then Some (True, w)
             else do {
               ll2 \<leftarrow> sg_get_end (ga_impl g) w;
               a2 \<leftarrow> (if ll2 \<noteq> 0 then sg_get_element_addr ll2 w else Some 0);
               (if a2 = 0 then Some (False, w)
                else do {
                  (b, w) \<leftarrow> addr_activate beg SC_WAIT_HACK_SET_MEMBER_PRE [beg, arc, a2] w;
                  (if b then Some (True, w)
                   else addr_activate a2 SC_WAIT_HACK_IN_SET_PRE [beg, arc, a2] w)
                })
             })
          })
     }"

definition set_end_pre :: "nat \<Rightarrow> nat \<Rightarrow> world \<Rightarrow> (bool \<times> world) option" where
  "set_end_pre arc en w =
     do {
       g \<leftarrow> wd_addrs w arc;
       ll \<leftarrow> sg_get_end (ga_impl g) w;
       (if en = 0 then
          do {
            a \<leftarrow> (if ll \<noteq> 0 then sg_get_element_addr ll w else Some 0);
            if a \<noteq> 0 then addr_activate a SC_WAIT_DETACH_INPUT_PRE [arc, a] w else Some (False, w)
          }
        else
          do {
            (b, w) \<leftarrow> addr_activate en SC_WAIT_ATTACH_INPUT_PRE [arc, en] w;
            (if b then Some (True, w)
             else do {
               ll2 \<leftarrow> sg_get_beg (ga_impl g) w;
               a0 \<leftarrow> (if ll2 \<noteq> 0 then sg_get_element_addr ll2 w else Some 0);
               (if a0 = 0 then Some (False, w)
                else do {
                  (b, w) \<leftarrow> addr_activate en SC_WAIT_HACK_IN_SET_PRE [a0, arc, en] w;
                  (if b then Some (True, w)
                   else addr_activate a0 SC_WAIT_HACK_SET_MEMBER_PRE [a0, arc, en] w)
                })
             })
          })
     }"

section \<open>Changing the type\<close>

text \<open>The switch is on the exact syntactic bits: an \<open>SC_ARC_ACCESSORY\<close> or \<open>SC_EDGE\<close> is a connector
  like an \<open>SC_ARC\<close>. \<open>addr->get_out_qnt()\<close> is the cached counter.\<close>

definition verify_type_changing :: "nat \<Rightarrow> sc_type \<Rightarrow> world \<Rightarrow> bool option" where
  "verify_type_changing a new_type w =
     do {
       g \<leftarrow> wd_addrs w a;
       cur_type \<leftarrow> sg_get_type (ga_impl g) w;
       let syn = cur_type AND SC_SYNTACTIC_MASK;
       (if syn = SC_NODE then
          Some (sc_isa new_type SC_NODE \<or> ga_out_qnt g = 0)
        else if syn = SC_EDGE \<or> syn = SC_ARC \<or> syn = SC_ARC_ACCESSORY then
          (if new_type AND SC_CONNECTOR_MASK = 0 then
             do {
               b \<leftarrow> sg_get_beg (ga_impl g) w;
               if b \<noteq> 0 then Some False
               else do { e \<leftarrow> sg_get_end (ga_impl g) w; Some (e = 0) }
             }
           else Some True)
        else Some True)
     }"

text \<open>The change itself, once it is allowed: the waits are asked, the event stream notified.\<close>

definition commit_type :: "nat \<Rightarrow> nat \<Rightarrow> sc_type \<Rightarrow> world \<Rightarrow> (sc_retval \<times> world) option" where
  "commit_type ss a new_type w =
     do {
       (b, w) \<leftarrow> addr_activate a SC_WAIT_CHANGE_TYPE_PRE [a] w;
       (if b then return_error ss RV_ELSE_GEN w
        else do {
          g \<leftarrow> wd_addrs w a;
          s \<leftarrow> has_stream (ga_seg g) w;
          w \<leftarrow> (if s then
                 do {
                   (idtf, w) \<leftarrow> sg_get_idtf (ga_seg g) (ga_impl g) w;
                   t \<leftarrow> sg_get_type (ga_impl g) w;
                   put_ev (ga_seg g) (put_changetype idtf t new_type) w
                 }
               else Some w);
          (rv, w) \<leftarrow> sg_change_type (ga_impl g) new_type w;
          w \<leftarrow> set_error ss rv w;
          (_, w) \<leftarrow> addr_activate a SC_WAIT_CHANGE_TYPE [a] w;
          e \<leftarrow> get_error ss w;
          Some (e, w)
        })
     }"

definition change_type :: "nat \<Rightarrow> nat \<Rightarrow> sc_type \<Rightarrow> world \<Rightarrow> (sc_retval \<times> world) option" where
  "change_type ss a new_type0 w =
     do {
       (e, w) \<leftarrow> access ss a w;
       (if e \<noteq> RV_OK then Some (e, w)
        else let new_type = verify_type new_type0 in
          if new_type = 0 then return_error ss RV_ERR_GEN w
          else do {
            g \<leftarrow> wd_addrs w a;
            cur_type \<leftarrow> sg_get_type (ga_impl g) w;
            (if cur_type = new_type then return_error ss RV_OK w
             else do {
               ok \<leftarrow> verify_type_changing a new_type w;
               if ok then commit_type ss a new_type w else return_error ss RV_ERR_GEN w
             })
          })
     }"

section \<open>Setting the ends of an arc\<close>

definition up_out_qnt :: "nat \<Rightarrow> world \<Rightarrow> world option" where
  "up_out_qnt a w = upd_addr a (\<lambda>g. g\<lparr>ga_out_qnt := ga_out_qnt g + 1\<rparr>) w"

definition down_out_qnt :: "nat \<Rightarrow> world \<Rightarrow> world option" where
  "down_out_qnt a w = upd_addr a (\<lambda>g. g\<lparr>ga_out_qnt := ga_out_qnt g - 1\<rparr>) w"

definition up_in_qnt :: "nat \<Rightarrow> world \<Rightarrow> world option" where
  "up_in_qnt a w = upd_addr a (\<lambda>g. g\<lparr>ga_in_qnt := ga_in_qnt g + 1\<rparr>) w"

definition down_in_qnt :: "nat \<Rightarrow> world \<Rightarrow> world option" where
  "down_in_qnt a w = upd_addr a (\<lambda>g. g\<lparr>ga_in_qnt := ga_in_qnt g - 1\<rparr>) w"

text \<open>The events after the end has been set (label \<open>___event\<close>), first those of an arc whose other
  end is known too.\<close>

definition beg_pair_events :: "nat \<Rightarrow> nat \<Rightarrow> world \<Rightarrow> world option" where
  "beg_pair_events arc beg w =
     do {
       g \<leftarrow> wd_addrs w arc;
       ll \<leftarrow> sg_get_end (ga_impl g) w;
       a2 \<leftarrow> (if ll \<noteq> 0 then sg_get_element_addr ll w else Some 0);
       (if a2 = 0 then Some w
        else do {
          (_, w) \<leftarrow> addr_activate arc SC_WAIT_ARCS_ENDS [arc] w;
          (_, w) \<leftarrow> addr_activate beg SC_WAIT_HACK_SET_MEMBER [beg, arc, a2] w;
          (_, w) \<leftarrow> addr_activate a2 SC_WAIT_HACK_IN_SET [beg, arc, a2] w;
          Some w
        })
     }"

definition set_beg_events :: "nat \<Rightarrow> nat \<Rightarrow> nat \<Rightarrow> world \<Rightarrow> world option" where
  "set_beg_events arc beg ll w =
     do {
       g \<leftarrow> wd_addrs w arc;
       w \<leftarrow> notify_setbeg (ga_seg g) (ga_impl g) ll w;
       (_, w) \<leftarrow> addr_activate arc SC_WAIT_ARC_BEG [beg, arc] w;
       (if beg = 0 then Some w
        else do {
          w \<leftarrow> up_out_qnt beg w;
          (_, w) \<leftarrow> addr_activate beg SC_WAIT_ATTACH_OUTPUT [beg, arc] w;
          beg_pair_events arc beg w
        })
     }"

text \<open>The branches of \<open>__set_beg\<close> for a null and for a given new end; \<open>a\<close> is the old end.\<close>

definition detach_beg :: "nat \<Rightarrow> nat \<Rightarrow> world \<Rightarrow> world option" where
  "detach_beg arc a w =
     do {
       g \<leftarrow> wd_addrs w arc;
       (_, w) \<leftarrow> sg_set_beg (ga_impl g) 0 w;
       w \<leftarrow> (if a \<noteq> 0 then
              do {
                w \<leftarrow> down_out_qnt a w;
                (_, w) \<leftarrow> addr_activate a SC_WAIT_DETACH_OUTPUT [arc, a] w;
                Some w
              }
            else Some w);
       set_beg_events arc 0 0 w
     }"

definition attach_beg :: "nat \<Rightarrow> nat \<Rightarrow> nat \<Rightarrow> world \<Rightarrow> (sc_retval \<times> world) option" where
  "attach_beg ss arc beg w =
     do {
       (beg_type, w) \<leftarrow> get_type ss beg w;
       (if beg_type AND SC_CONNECTOR_MASK \<noteq> 0 then Some (RV_ERR_GEN, w)
        else do {
          w \<leftarrow> (if beg_type AND SC_UNDF \<noteq> 0
                 then map_option snd
                   (change_type ss beg ((beg_type AND NOT SC_SYNTACTIC_MASK) OR SC_NODE) w)
                 else Some w);
          b \<leftarrow> wd_addrs w beg;
          ensure (\<not> ga_locked b);
          g \<leftarrow> wd_addrs w arc;
          (ll, w) \<leftarrow> ensure_link_to (ga_seg g) beg w;
          (if ll = 0 then Some (RV_ERR_GEN, w)
           else do {
             (rv, w) \<leftarrow> sg_set_beg (ga_impl g) ll w;
             (if rv \<noteq> RV_OK then Some (rv, w)
              else do { w \<leftarrow> set_beg_events arc beg ll w; Some (RV_OK, w) })
           })
        })
     }"

definition raw_set_beg :: "nat \<Rightarrow> nat \<Rightarrow> nat \<Rightarrow> world \<Rightarrow> (sc_retval \<times> world) option" where
  "raw_set_beg ss arc beg w =
     do {
       g \<leftarrow> wd_addrs w arc;
       ll \<leftarrow> sg_get_beg (ga_impl g) w;
       a \<leftarrow> (if ll \<noteq> 0 then sg_get_element_addr ll w else Some 0);
       (if ll \<noteq> 0 \<and> a = beg then Some (RV_OK, w)
        else if beg = 0 then do { w \<leftarrow> detach_beg arc a w; Some (RV_OK, w) }
        else attach_beg ss arc beg w)
     }"

definition set_beg :: "nat \<Rightarrow> nat \<Rightarrow> nat \<Rightarrow> world \<Rightarrow> (sc_retval \<times> world) option" where
  "set_beg ss arc beg w =
     do {
       (e, w) \<leftarrow> access ss arc w;
       (e, w) \<leftarrow> (if e = RV_OK \<and> beg \<noteq> 0 then access ss beg w else Some (e, w));
       (if e \<noteq> RV_OK then Some (e, w)
        else do {
          (t, w) \<leftarrow> get_type ss arc w;
          (if t AND SC_CONNECTOR_MASK = 0 then return_error ss RV_ERR_GEN w
           else do {
             (b, w) \<leftarrow> set_beg_pre arc beg w;
             (if b then return_error ss RV_ELSE_GEN w
              else do { (rv, w) \<leftarrow> raw_set_beg ss arc beg w; return_error ss rv w })
           })
        })
     }"

definition end_pair_events :: "nat \<Rightarrow> nat \<Rightarrow> world \<Rightarrow> world option" where
  "end_pair_events arc en w =
     do {
       g \<leftarrow> wd_addrs w arc;
       ll \<leftarrow> sg_get_beg (ga_impl g) w;
       a0 \<leftarrow> (if ll \<noteq> 0 then sg_get_element_addr ll w else Some 0);
       (if a0 = 0 then Some w
        else do {
          (_, w) \<leftarrow> addr_activate arc SC_WAIT_ARCS_ENDS [arc] w;
          (_, w) \<leftarrow> addr_activate en SC_WAIT_HACK_IN_SET [a0, arc, en] w;
          (_, w) \<leftarrow> addr_activate a0 SC_WAIT_HACK_SET_MEMBER [a0, arc, en] w;
          Some w
        })
     }"

definition set_end_events :: "nat \<Rightarrow> nat \<Rightarrow> nat \<Rightarrow> world \<Rightarrow> world option" where
  "set_end_events arc en ll w =
     do {
       g \<leftarrow> wd_addrs w arc;
       w \<leftarrow> notify_setend (ga_seg g) (ga_impl g) ll w;
       (_, w) \<leftarrow> addr_activate arc SC_WAIT_ARC_END [arc, en] w;
       (if en = 0 then Some w
        else do {
          w \<leftarrow> up_in_qnt en w;
          (_, w) \<leftarrow> addr_activate en SC_WAIT_ATTACH_INPUT [arc, en] w;
          end_pair_events arc en w
        })
     }"

definition detach_end :: "nat \<Rightarrow> nat \<Rightarrow> world \<Rightarrow> world option" where
  "detach_end arc a w =
     do {
       g \<leftarrow> wd_addrs w arc;
       (_, w) \<leftarrow> sg_set_end (ga_impl g) 0 w;
       w \<leftarrow> (if a \<noteq> 0 then
              do {
                w \<leftarrow> down_in_qnt a w;
                (_, w) \<leftarrow> addr_activate a SC_WAIT_DETACH_INPUT [arc, a] w;
                Some w
              }
            else Some w);
       set_end_events arc 0 0 w
     }"

definition attach_end :: "nat \<Rightarrow> nat \<Rightarrow> world \<Rightarrow> (sc_retval \<times> world) option" where
  "attach_end arc en w =
     do {
       b \<leftarrow> wd_addrs w en;
       ensure (\<not> ga_locked b);
       g \<leftarrow> wd_addrs w arc;
       (ll, w) \<leftarrow> ensure_link_to (ga_seg g) en w;
       (if ll = 0 then Some (RV_ERR_GEN, w)
        else do {
          (rv, w) \<leftarrow> sg_set_end (ga_impl g) ll w;
          (if rv \<noteq> RV_OK then Some (rv, w)
           else do { w \<leftarrow> set_end_events arc en ll w; Some (RV_OK, w) })
        })
     }"

definition raw_set_end :: "nat \<Rightarrow> nat \<Rightarrow> world \<Rightarrow> (sc_retval \<times> world) option" where
  "raw_set_end arc en w =
     do {
       g \<leftarrow> wd_addrs w arc;
       ll \<leftarrow> sg_get_end (ga_impl g) w;
       a \<leftarrow> (if ll \<noteq> 0 then sg_get_element_addr ll w else Some 0);
       (if ll \<noteq> 0 \<and> a = en then Some (RV_OK, w)
        else if en = 0 then do { w \<leftarrow> detach_end arc a w; Some (RV_OK, w) }
        else attach_end arc en w)
     }"

definition set_end :: "nat \<Rightarrow> nat \<Rightarrow> nat \<Rightarrow> world \<Rightarrow> (sc_retval \<times> world) option" where
  "set_end ss arc en w =
     do {
       (e, w) \<leftarrow> access ss arc w;
       (e, w) \<leftarrow> (if e = RV_OK \<and> en \<noteq> 0 then access ss en w else Some (e, w));
       (if e \<noteq> RV_OK then Some (e, w)
        else do {
          (t, w) \<leftarrow> get_type ss arc w;
          (if t AND SC_CONNECTOR_MASK = 0 then return_error ss RV_ERR_GEN w
           else do {
             (b, w) \<leftarrow> set_end_pre arc en w;
             (if b then return_error ss RV_ELSE_GEN w
              else do { (rv, w) \<leftarrow> raw_set_end arc en w; return_error ss rv w })
           })
        })
     }"

section \<open>Identifiers\<close>

definition get_idtf :: "nat \<Rightarrow> nat \<Rightarrow> world \<Rightarrow> (string \<times> world) option" where
  "get_idtf ss a w =
     do {
       (e, w) \<leftarrow> access ss a w;
       (if e \<noteq> RV_OK then Some ('''', w)
        else do {
          w \<leftarrow> set_error ss RV_OK w;
          g \<leftarrow> wd_addrs w a;
          sg_get_idtf (ga_seg g) (ga_impl g) w
        })
     }"

fun set_link_targets :: "string \<Rightarrow> (nat \<times> nat) list \<Rightarrow> 'a store_scheme \<Rightarrow> 'a store_scheme option" where
  "set_link_targets uri [] w = Some w"
| "set_link_targets uri ((s, ll) # ls) w =
     do { w \<leftarrow> sg_set_link_target ll uri w; set_link_targets uri ls w }"

definition raw_set_idtf :: "nat \<Rightarrow> string \<Rightarrow> world \<Rightarrow> (sc_retval \<times> world) option" where
  "raw_set_idtf a idtf w =
     do {
       g \<leftarrow> wd_addrs w a;
       (rv, w) \<leftarrow> sg_set_idtf (ga_seg g) (ga_impl g) idtf w;
       (if rv \<noteq> RV_OK then Some (rv, w)
        else do {
          uri \<leftarrow> get_full_uri (ga_seg g) w;
          w \<leftarrow> set_link_targets (uri @ ''/'' @ idtf) (ga_links g) w;
          Some (rv, w)
        })
     }"

definition set_idtf :: "nat \<Rightarrow> nat \<Rightarrow> string \<Rightarrow> world \<Rightarrow> (sc_retval \<times> world) option" where
  "set_idtf ss a idtf w =
     do {
       (e, w) \<leftarrow> access ss a w;
       (if e \<noteq> RV_OK then Some (e, w)
        else do {
          g \<leftarrow> wd_addrs w a;
          s \<leftarrow> has_stream (ga_seg g) w;
          (oldidtf, w) \<leftarrow> (if s then sg_get_idtf (ga_seg g) (ga_impl g) w else Some ('''', w));
          (rv, w) \<leftarrow> raw_set_idtf a idtf w;
          w \<leftarrow> set_error ss rv w;
          (if rv \<noteq> RV_OK then Some (rv, w)
           else do {
             w \<leftarrow> (if s then put_ev (ga_seg g) (put_setidtf oldidtf idtf) w else Some w);
             (_, w) \<leftarrow> addr_activate a SC_WAIT_IDTF [a] w;
             return_error ss RV_OK w
           })
        })
     }"

text \<open>With a stream, reading the identifier after it has been erased generates a new one.\<close>

definition erase_idtf :: "nat \<Rightarrow> nat \<Rightarrow> world \<Rightarrow> (sc_retval \<times> world) option" where
  "erase_idtf ss a w =
     do {
       (e, w) \<leftarrow> access ss a w;
       (if e \<noteq> RV_OK then Some (e, w)
        else do {
          g \<leftarrow> wd_addrs w a;
          s \<leftarrow> has_stream (ga_seg g) w;
          (oldidtf, w) \<leftarrow> (if s then sg_get_idtf (ga_seg g) (ga_impl g) w else Some ('''', w));
          (rv, w) \<leftarrow> sg_erase_idtf (ga_seg g) (ga_impl g) w;
          w \<leftarrow> set_error ss rv w;
          (if rv \<noteq> RV_OK then Some (rv, w)
           else do {
             w \<leftarrow> (if s then
                    do {
                      (idtf, w) \<leftarrow> sg_get_idtf (ga_seg g) (ga_impl g) w;
                      put_ev (ga_seg g) (put_setidtf oldidtf idtf) w
                    }
                  else Some w);
             (_, w) \<leftarrow> addr_activate a SC_WAIT_IDTF [a] w;
             return_error ss RV_OK w
           })
        })
     }"

definition find_by_idtf :: "nat \<Rightarrow> string \<Rightarrow> nat \<Rightarrow> world \<Rightarrow> (nat \<times> world) option" where
  "find_by_idtf ss name seg w =
     do {
       b \<leftarrow> (if seg = 0 then Some False else session_opened ss seg w);
       (if \<not> b then fail_null ss RV_ERR_GEN w
        else do {
          ll \<leftarrow> sg_find_by_idtf seg name w;
          (if ll = 0 then fail_null ss RV_ELSE_GEN w
           else do {
             a \<leftarrow> sg_get_element_addr ll w;
             ensure (a \<noteq> 0);
             w \<leftarrow> set_error ss RV_OK w;
             Some (a, w)
           })
        })
     }"

section \<open>Contents\<close>

definition get_content :: "nat \<Rightarrow> nat \<Rightarrow> world \<Rightarrow> (content \<times> world) option" where
  "get_content ss a w =
     do {
       (e, w) \<leftarrow> access ss a w;
       (if e \<noteq> RV_OK then Some (CEmpty, w)
        else do {
          w \<leftarrow> set_error ss RV_OK w;
          g \<leftarrow> wd_addrs w a;
          c \<leftarrow> sg_get_content (ga_impl g) w;
          Some (c, w)
        })
     }"

definition set_content ::
  "(bytes \<Rightarrow> bytes) \<Rightarrow> nat \<Rightarrow> nat \<Rightarrow> content \<Rightarrow> world \<Rightarrow> (sc_retval \<times> world) option" where
  "set_content md5 ss a c w =
     do {
       (e, w) \<leftarrow> access ss a w;
       (if e \<noteq> RV_OK then Some (e, w)
        else do {
          g \<leftarrow> wd_addrs w a;
          (rv, w) \<leftarrow> sg_set_content md5 (ga_seg g) (ga_impl g) c w;
          w \<leftarrow> set_error ss rv w;
          (if rv \<noteq> RV_OK then Some (rv, w)
           else do {
             (_, w) \<leftarrow> addr_activate a SC_WAIT_CONT [a] w;
             w \<leftarrow> notify_setcontent (ga_seg g) (ga_impl g) c w;
             return_error ss RV_OK w
           })
        })
     }"

definition erase_content ::
  "(bytes \<Rightarrow> bytes) \<Rightarrow> nat \<Rightarrow> nat \<Rightarrow> world \<Rightarrow> (sc_retval \<times> world) option" where
  "erase_content md5 ss a w =
     do {
       (e, w) \<leftarrow> access ss a w;
       (if e \<noteq> RV_OK then Some (e, w)
        else do {
          g \<leftarrow> wd_addrs w a;
          (rv, w) \<leftarrow> sg_erase_content md5 (ga_seg g) (ga_impl g) w;
          w \<leftarrow> set_error ss rv w;
          (if rv \<noteq> RV_OK then Some (rv, w)
           else do {
             (_, w) \<leftarrow> addr_activate a SC_WAIT_CONT [a] w;
             w \<leftarrow> notify_setcontent (ga_seg g) (ga_impl g) CEmpty w;
             return_error ss RV_OK w
           })
        })
     }"

fun addrs_of :: "nat list \<Rightarrow> 'a store_scheme \<Rightarrow> nat list option" where
  "addrs_of [] w = Some []"
| "addrs_of (l # ls) w = do { a \<leftarrow> sg_get_element_addr l w; r \<leftarrow> addrs_of ls w; Some (a # r) }"

fun find_in_segs ::
  "(bytes \<Rightarrow> bytes) \<Rightarrow> content \<Rightarrow> nat list \<Rightarrow> bool \<Rightarrow> nat list \<Rightarrow> 'a store_scheme \<Rightarrow> (bool \<times> nat list) option" where
  "find_in_segs md5 c [] rv result w = Some (rv, result)"
| "find_in_segs md5 c (s # ss) rv result w =
     do {
       (b, lls) \<leftarrow> sg_find_by_content md5 s c [] w;
       (if b then do { l \<leftarrow> addrs_of lls w; find_in_segs md5 c ss True (result @ l) w }
        else find_in_segs md5 c ss rv result w)
     }"

definition find_by_content ::
  "(bytes \<Rightarrow> bytes) \<Rightarrow> nat \<Rightarrow> content \<Rightarrow> nat list \<Rightarrow> world \<Rightarrow> (bool \<times> nat list) option" where
  "find_by_content md5 ss c result w =
     do {
       s \<leftarrow> wd_sessions w ss;
       segs \<leftarrow> for_all_segments (ss_opened s) (wd_segtable w);
       find_in_segs md5 c segs False result w
     }"

section \<open>Creation of elements\<close>

definition create_el :: "nat \<Rightarrow> nat \<Rightarrow> sc_type \<Rightarrow> world \<Rightarrow> (nat \<times> world) option" where
  "create_el ss seg type0 w =
     do {
       b \<leftarrow> (if seg = 0 then Some False else session_opened ss seg w);
       (if \<not> b then fail_null ss RV_ERR_GEN w
        else let type = verify_type type0 in
          if type = 0 then fail_null ss RV_ERR_GEN w
          else do {
            (ll, w) \<leftarrow> sg_gen_el seg type w;
            (if ll = 0 then fail_null ss RV_ERR_GEN w
             else do {
               (a, w) \<leftarrow> addr_new seg ll w;
               w \<leftarrow> sg_set_element_addr ll a w;
               w \<leftarrow> notify_genel seg ll type w;
               g \<leftarrow> st_segs w seg;
               w \<leftarrow> notify_waits SC_WAIT_SEGMENT_ON_ADD [seg, a] (sg_on_add g) w;
               w \<leftarrow> set_error ss RV_OK w;
               Some (a, w)
             })
          })
     }"

section \<open>Waits\<close>

text \<open>A wait that is already in a ring would leave that ring broken (theory \<open>List_Head\<close>); such an
  attachment is not modelled.\<close>

definition attach_wait :: "nat \<Rightarrow> sc_wait_type \<Rightarrow> sc_param list \<Rightarrow> nat \<Rightarrow> world \<Rightarrow> (sc_retval \<times> world) option" where
  "attach_wait ss type prm wt w =
     (if prm = [] \<or> wt = 0 then return_error ss RV_ERR_GEN w
      else if wait_code type < wait_code SC_WAIT_COUNT then
        do {
          x \<leftarrow> wd_waits w wt;
          ensure (\<not> wt_attached x);
          w \<leftarrow> upd_addr (hd prm) (\<lambda>g. g\<lparr>ga_waits := (ga_waits g)(type := wt # ga_waits g type)\<rparr>) w;
          return_error ss RV_OK (w\<lparr>wd_waits := (wd_waits w)(wt \<mapsto> x\<lparr>wt_attached := True\<rparr>)\<rparr>)
        }
      else if type = SC_WAIT_SEGMENT_CREATE then return_error ss RV_OK w
      else return_error ss RV_ERR_GEN w)"

definition attach_good_wait :: "nat \<Rightarrow> sc_wait_type \<Rightarrow> sc_param list \<Rightarrow> nat \<Rightarrow> world \<Rightarrow> (sc_retval \<times> world) option" where
  "attach_good_wait ss type prm wt w =
     do {
       (e, w) \<leftarrow> attach_wait ss type prm wt w;
       (if e \<noteq> RV_OK then Some (e, w)
        else do {
          x \<leftarrow> wd_waits w wt;
          w \<leftarrow> upd_session ss (\<lambda>s. s\<lparr>ss_good_waits := wt # ss_good_waits s\<rparr>) w;
          return_error ss RV_OK (w\<lparr>wd_waits := (wd_waits w)(wt \<mapsto> x\<lparr>wt_type := type, wt_session := ss\<rparr>)\<rparr>)
        })
     }"

definition drop_wait :: "nat \<Rightarrow> gaddr \<Rightarrow> gaddr" where
  "drop_wait wt g = g\<lparr>ga_waits := (\<lambda>t. remove1 wt (ga_waits g t))\<rparr>"

definition detach_wait :: "nat \<Rightarrow> nat \<Rightarrow> world \<Rightarrow> (sc_retval \<times> world) option" where
  "detach_wait ss wt w =
     (if wt = 0 then return_error ss RV_ERR_GEN w
      else do {
        x \<leftarrow> wd_waits w wt;
        return_error ss RV_OK (w\<lparr>
          wd_addrs := (\<lambda>a. map_option (drop_wait wt) (wd_addrs w a)),
          wd_sessions := (\<lambda>s. map_option (\<lambda>s. s\<lparr>ss_good_waits := remove1 wt (ss_good_waits s)\<rparr>) (wd_sessions w s)),
          wd_waits := (wd_waits w)(wt \<mapsto> x\<lparr>wt_attached := False\<rparr>)\<rparr>)
      })"

section \<open>Activities\<close>

text \<open>\<open>init\<close> of an activity is the parameter \<open>init\<close>; \<open>done\<close> is logged.\<close>

definition reimplement ::
  "(nat \<Rightarrow> nat \<Rightarrow> world \<Rightarrow> sc_retval \<times> world) \<Rightarrow> nat \<Rightarrow> nat \<Rightarrow> nat \<Rightarrow> world \<Rightarrow> (sc_retval \<times> world) option" where
  "reimplement init ss a new w =
     do {
       g \<leftarrow> wd_addrs w a;
       let old = ga_activity g;
       w \<leftarrow> upd_addr a (\<lambda>g. g\<lparr>ga_activity := new\<rparr>) w;
       let (rv, w) = (if new \<noteq> 0 then init new a w else (RV_OK, w));
       (if rv \<noteq> RV_OK then
          do { w \<leftarrow> upd_addr a (\<lambda>g. g\<lparr>ga_activity := old\<rparr>) w; return_error ss rv w }
        else return_error ss RV_OK (if old \<noteq> 0 then log (Activity_done old) w else w))
     }"

text \<open>\<open>run\<close> is the method \<open>activate\<close> of the activity.\<close>

definition activate_el ::
  "(nat \<Rightarrow> nat \<Rightarrow> nat list \<Rightarrow> world \<Rightarrow> sc_retval \<times> world) \<Rightarrow> nat \<Rightarrow> nat \<Rightarrow> nat list \<Rightarrow> world \<Rightarrow>
   (sc_retval \<times> world) option" where
  "activate_el run ss a prms w =
     do {
       (e, w) \<leftarrow> access ss a w;
       (if e \<noteq> RV_OK then Some (e, w)
        else do {
          w \<leftarrow> set_error ss RV_OK w;
          g \<leftarrow> wd_addrs w a;
          Some (if ga_activity g = 0 then (RV_OK, w) else run (ga_activity g) ss (a # prms) w)
        })
     }"

section \<open>Deletion\<close>

text \<open>The loops over the arcs of an element in one segment run an action on every arc; the fuel of a
  loop bounds its steps. \<open>arcs_until\<close> stops when the action answers true.\<close>

fun arcs_until :: "(nat \<Rightarrow> world \<Rightarrow> (bool \<times> world) option) \<Rightarrow> nat \<Rightarrow> arc_iter \<Rightarrow> world \<Rightarrow> (bool \<times> world) option" where
  "arcs_until f 0 it w = None"
| "arcs_until f (Suc n) it w =
     (if arc_iter_is_over it then do { w \<leftarrow> arc_iter_delete it w; Some (False, w) }
      else do {
        (b, w) \<leftarrow> f (arc_iter_value it 0) w;
        (if b then do { w \<leftarrow> arc_iter_delete it w; Some (True, w) }
         else do { (_, it, w) \<leftarrow> arc_iter_next it w; arcs_until f n it w })
      })"

definition arcs_of_until ::
  "(nat \<Rightarrow> world \<Rightarrow> (bool \<times> world) option) \<Rightarrow> nat \<Rightarrow> side \<Rightarrow> nat \<Rightarrow> world \<Rightarrow> (bool \<times> world) option" where
  "arcs_of_until f n sd ll w = do { (it, w) \<leftarrow> arc_iter_new sd ll w; arcs_until f n it w }"

text \<open>The element itself and then its links, output arcs before input arcs.\<close>

fun places_until ::
  "(nat \<Rightarrow> world \<Rightarrow> (bool \<times> world) option) \<Rightarrow> nat \<Rightarrow> nat list \<Rightarrow> world \<Rightarrow> (bool \<times> world) option" where
  "places_until f n [] w = Some (False, w)"
| "places_until f n (ll # lls) w =
     do {
       (b, w) \<leftarrow> arcs_of_until f n Beg ll w;
       (if b then Some (True, w)
        else do {
          (b, w) \<leftarrow> arcs_of_until f n End ll w;
          if b then Some (True, w) else places_until f n lls w
        })
     }"

definition places :: "gaddr \<Rightarrow> nat list" where
  "places g = ga_impl g # map snd (ga_links g)"

fun erase_el_pre :: "nat \<Rightarrow> nat \<Rightarrow> nat \<Rightarrow> world \<Rightarrow> (bool \<times> world) option" where
  "erase_el_pre 0 ss a w = None"
| "erase_el_pre (Suc n) ss a w =
     do {
       (b, w) \<leftarrow> addr_activate a SC_WAIT_DIE_PRE_REAL [a] w;
       (if b then Some (True, w)
        else do {
          (t, w) \<leftarrow> get_type ss a w;
          w \<leftarrow> (if t AND SC_CONNECTOR_MASK \<noteq> 0
                 then do { (_, w) \<leftarrow> set_beg_pre a 0 w; map_option snd (set_beg_pre a 0 w) }
                 else Some w);
          g \<leftarrow> wd_addrs w a;
          places_until (\<lambda>x w. erase_el_pre n (wd_system w) x w) n (places g) w
        })
     }"

fun raw_erase_el :: "nat \<Rightarrow> nat \<Rightarrow> nat \<Rightarrow> world \<Rightarrow> (sc_retval \<times> world) option" where
  "raw_erase_el 0 ss a w = None"
| "raw_erase_el (Suc n) ss a w =
     do {
       (_, w) \<leftarrow> addr_activate a SC_WAIT_DIE [a] w;
       (t, w) \<leftarrow> get_type ss a w;
       w \<leftarrow> (if t AND SC_CONNECTOR_MASK \<noteq> 0
              then do { (_, w) \<leftarrow> raw_set_end a 0 w; map_option snd (raw_set_beg ss a 0 w) }
              else Some w);
       g \<leftarrow> wd_addrs w a;
       (_, w) \<leftarrow> places_until
         (\<lambda>x w. do { (_, w) \<leftarrow> raw_erase_el n (wd_system w) x w; Some (False, w) }) n (places g) w;
       s \<leftarrow> has_stream (ga_seg g) w;
       w \<leftarrow> (if s then
              do { (idtf, w) \<leftarrow> sg_get_idtf (ga_seg g) (ga_impl g) w; put_ev (ga_seg g) (put_erase_el idtf) w }
            else Some w);
       (_, w) \<leftarrow> erase_idtf ss a w;
       (_, w) \<leftarrow> reimplement (\<lambda>_ _ w. (RV_OK, w)) ss a 0 w;
       w \<leftarrow> addr_die a w;
       return_error ss RV_OK w
     }"

definition erase_el :: "nat \<Rightarrow> nat \<Rightarrow> nat \<Rightarrow> world \<Rightarrow> (sc_retval \<times> world) option" where
  "erase_el n ss a w =
     do {
       (e, w) \<leftarrow> access ss a w;
       (if e \<noteq> RV_OK then Some (e, w)
        else do {
          (b, w) \<leftarrow> erase_el_pre n ss a w;
          (if b then return_error ss RV_ELSE_GEN w
           else do {
             g \<leftarrow> wd_addrs w a;
             s \<leftarrow> st_segs w (ga_seg g);
             w \<leftarrow> notify_waits SC_WAIT_SEGMENT_ON_REMOVE [ga_seg g, a] (sg_on_remove s) w;
             raw_erase_el n ss a w
           })
        })
     }"

section \<open>Generation of constructions\<close>

text \<open>The second result is what the code stores through \<open>e2\<close> when it succeeds.\<close>

definition gen3_f_a_f ::
  "nat \<Rightarrow> nat \<Rightarrow> nat \<Rightarrow> nat \<Rightarrow> sc_type \<Rightarrow> nat \<Rightarrow> world \<Rightarrow> (sc_retval \<times> nat option \<times> world) option" where
  "gen3_f_a_f n ss e1 s2 t2 e3 w =
     do {
       w \<leftarrow> set_error ss RV_OK w;
       (e, w) \<leftarrow> access ss e1 w;
       (e, w) \<leftarrow> (if e = RV_OK then access ss e3 w else Some (e, w));
       (if e \<noteq> RV_OK then Some (e, None, w)
        else do {
          (ce2, w) \<leftarrow> create_el ss s2 t2 w;
          e \<leftarrow> get_error ss w;
          (if e \<noteq> RV_OK then Some (e, None, w)
           else do {
             (e, w) \<leftarrow> set_beg ss ce2 e1 w;
             (e, w) \<leftarrow> (if e = RV_OK then set_end ss ce2 e3 w else Some (e, w));
             (if e \<noteq> RV_OK then
                do {
                  err \<leftarrow> get_error ss w;
                  (_, w) \<leftarrow> erase_el n ss ce2 w;
                  w \<leftarrow> set_error ss err w;
                  Some (err, None, w)
                }
              else do { w \<leftarrow> set_error ss RV_OK w; Some (RV_OK, Some ce2, w) })
           })
        })
     }"

definition gen5_f_a_f_a_f ::
  "nat \<Rightarrow> nat \<Rightarrow> nat \<Rightarrow> nat \<Rightarrow> sc_type \<Rightarrow> nat \<Rightarrow> nat \<Rightarrow> sc_type \<Rightarrow> nat \<Rightarrow> world \<Rightarrow>
   (sc_retval \<times> (nat \<times> nat) option \<times> world) option" where
  "gen5_f_a_f_a_f n ss e1 s2 t2 e3 s4 t4 e5 w =
     do {
       (e, c2, w) \<leftarrow> gen3_f_a_f n ss e1 s2 t2 e3 w;
       (case c2 of
          None \<Rightarrow> Some (e, None, w)
        | Some ce2 \<Rightarrow>
            do {
              (e, c4, w) \<leftarrow> gen3_f_a_f n ss e5 s4 t4 ce2 w;
              (case c4 of
                 None \<Rightarrow>
                   do {
                     (_, w) \<leftarrow> erase_el n ss ce2 w;
                     e \<leftarrow> get_error ss w;
                     Some (e, None, w)
                   }
               | Some ce4 \<Rightarrow>
                   do { w \<leftarrow> set_error ss RV_OK w; Some (RV_OK, Some (ce2, ce4), w) })
            })
     }"

section \<open>Sessions and their opened segments\<close>

definition new_session :: session where
  "new_session = \<lparr>ss_refcnt = 1, ss_dead = False, ss_error = RV_OK, ss_opened = segment_set_new,
     ss_cwd = ''/'', ss_good_waits = []\<rparr>"

definition libsc_login :: "world \<Rightarrow> nat \<times> world" where
  "libsc_login w =
     (st_fresh w, w\<lparr>wd_sessions := (wd_sessions w)(st_fresh w \<mapsto> new_session),
                    st_fresh := st_fresh w + 1\<rparr>)"

definition session_ref :: "nat \<Rightarrow> world \<Rightarrow> world option" where
  "session_ref ss w = upd_session ss (\<lambda>s. s\<lparr>ss_refcnt := ss_refcnt s + 1\<rparr>) w"

definition session_unref :: "nat \<Rightarrow> world \<Rightarrow> world option" where
  "session_unref ss w =
     do {
       s \<leftarrow> wd_sessions w ss;
       ensure (ss_refcnt s > 0);
       (if ss_refcnt s - 1 = 0 \<and> ss_dead s then Some (w\<lparr>wd_sessions := (wd_sessions w)(ss := None)\<rparr>)
        else do {
          ensure (ss_refcnt s - 1 > 0);
          upd_session ss (\<lambda>s. s\<lparr>ss_refcnt := ss_refcnt s - 1\<rparr>) w
        })
     }"

definition mark_opened :: "nat \<Rightarrow> nat \<Rightarrow> world \<Rightarrow> world option" where
  "mark_opened ss i w =
     do {
       s \<leftarrow> wd_sessions w ss;
       d \<leftarrow> segset_set i (ss_opened s);
       upd_session ss (\<lambda>s. s\<lparr>ss_opened := d\<rparr>) w
     }"

definition mark_closed :: "nat \<Rightarrow> nat \<Rightarrow> world \<Rightarrow> world option" where
  "mark_closed ss i w =
     do {
       s \<leftarrow> wd_sessions w ss;
       d \<leftarrow> segset_reset i (ss_opened s);
       upd_session ss (\<lambda>s. s\<lparr>ss_opened := d\<rparr>) w
     }"

text \<open>\<open>__open_segment\<close> of a normal session; the search for the sign of a segment that has none yet
  goes through the repository and is not modelled.\<close>

definition normal_open_segment :: "nat \<Rightarrow> nat \<Rightarrow> world \<Rightarrow> (sc_retval \<times> world) option" where
  "normal_open_segment ss seg w =
     do {
       g \<leftarrow> st_segs w seg;
       (if sg_ring_0 g then Some (RV_ELSE_GEN, w)
        else do {
          ensure (sg_sign g \<noteq> 0);
          w \<leftarrow> addr_ref (sg_sign g) w;
          w \<leftarrow> seg_ref seg w;
          w \<leftarrow> mark_opened (wd_system w) (sg_index g) w;
          w \<leftarrow> mark_opened ss (sg_index g) w;
          Some (RV_OK, w)
        })
     }"

definition system_open_segment :: "nat \<Rightarrow> nat \<Rightarrow> world \<Rightarrow> (sc_retval \<times> world) option" where
  "system_open_segment ss seg w =
     do {
       g \<leftarrow> st_segs w seg;
       w \<leftarrow> mark_opened ss (sg_index g) w;
       Some (RV_OK, w)
     }"

definition normal_close_segment :: "nat \<Rightarrow> nat \<Rightarrow> world \<Rightarrow> (sc_retval \<times> world) option" where
  "normal_close_segment ss seg w =
     do {
       b \<leftarrow> session_opened ss seg w;
       (if \<not> b then Some (RV_ERR_GEN, w)
        else do {
          g \<leftarrow> st_segs w seg;
          ensure (sg_sign g \<noteq> 0);
          w \<leftarrow> mark_closed ss (sg_index g) w;
          w \<leftarrow> addr_unref (sg_sign g) w;
          w \<leftarrow> seg_unref seg w;
          Some (RV_OK, w)
        })
     }"

definition system_close_segment :: "nat \<Rightarrow> nat \<Rightarrow> world \<Rightarrow> (sc_retval \<times> world) option" where
  "system_close_segment ss seg w = Some (RV_OK, w)"

text \<open>The loop closes the segments it visits, which lie behind its counter, so it visits the
  segments that are open when it starts.\<close>

fun close_segments :: "nat \<Rightarrow> nat list \<Rightarrow> world \<Rightarrow> world option" where
  "close_segments ss [] w = Some w"
| "close_segments ss (s # segs) w = do { (_, w) \<leftarrow> normal_close_segment ss s w; close_segments ss segs w }"

definition normal_close :: "nat \<Rightarrow> world \<Rightarrow> world option" where
  "normal_close ss w =
     do {
       s \<leftarrow> wd_sessions w ss;
       segs \<leftarrow> for_all_segments (ss_opened s) (wd_segtable w);
       w \<leftarrow> close_segments ss segs w;
       w \<leftarrow> upd_session ss (\<lambda>s. s\<lparr>ss_dead := True\<rparr>) w;
       session_unref ss w
     }"

definition system_close :: "nat \<Rightarrow> world \<Rightarrow> world option" where
  "system_close ss w =
     do {
       w \<leftarrow> upd_session ss (\<lambda>s. s\<lparr>ss_dead := True\<rparr>) w;
       session_unref ss w
     }"

fun fork_segments :: "nat \<Rightarrow> nat list \<Rightarrow> world \<Rightarrow> world option" where
  "fork_segments ns [] w = Some w"
| "fork_segments ns (s # segs) w =
     do {
       g \<leftarrow> st_segs w s;
       w \<leftarrow> addr_ref (sg_sign g) w;
       (_, w) \<leftarrow> normal_open_segment ns s w;
       fork_segments ns segs w
     }"

definition normal_fork :: "nat \<Rightarrow> world \<Rightarrow> (nat \<times> world) option" where
  "normal_fork ss w =
     do {
       s \<leftarrow> wd_sessions w ss;
       segs \<leftarrow> for_all_segments (ss_opened s) (wd_segtable w);
       let (ns, w) = libsc_login w;
       w \<leftarrow> fork_segments ns segs w;
       Some (ns, w)
     }"

end
