(* ===== verification/Session_Inv.thy ===== *)
theory Session_Inv
  imports Sc_Session
begin

text \<open>
  The invariant of the world of sessions and addresses, and what the operations of a session leave
  unchanged. \<open>light\<close> relates worlds that differ only in error codes and the log,
  \<open>calm\<close> worlds that also differ in types, names and contents. The invariant \<open>wd_inv\<close> ties addresses
  to elements: every address stands for its element, its links are elements of other segments that
  carry the same address, and whatever an operation will dereference exists.
\<close>

section \<open>Frames\<close>

definition addr_core :: "world \<Rightarrow> nat \<Rightarrow> gaddr option" where
  "addr_core w a = map_option (\<lambda>g. g\<lparr>ga_in_qnt := 0, ga_out_qnt := 0\<rparr>) (wd_addrs w a)"

definition sess_core :: "world \<Rightarrow> nat \<Rightarrow> session option" where
  "sess_core w s = map_option (\<lambda>s. s\<lparr>ss_error := 0\<rparr>) (wd_sessions w s)"

definition seg_core :: "'a store_scheme \<Rightarrow> nat \<Rightarrow> segment option" where
  "seg_core w s = map_option (\<lambda>g. g\<lparr>sg_evstream := None, sg_list := [], sg_idtf_map := [], sg_cindex := []\<rparr>)
     (st_segs w s)"

definition streams :: "'a store_scheme \<Rightarrow> nat \<Rightarrow> bool option" where
  "streams w s = map_option (\<lambda>g. sg_evstream g \<noteq> None) (st_segs w s)"

definition cells :: "'a store_scheme \<Rightarrow> nat \<Rightarrow> (nat \<times> bool) option" where
  "cells w l = map_option (\<lambda>e. (el_addr e, el_is_link e)) (st_els w l)"

definition same_env :: "world \<Rightarrow> world \<Rightarrow> bool" where
  "same_env w w' \<longleftrightarrow> addr_core w' = addr_core w \<and> sess_core w' = sess_core w \<and> wd_waits w' = wd_waits w \<and>
     wd_system w' = wd_system w \<and> wd_event_lock w' = wd_event_lock w \<and>
     wd_segtable w' = wd_segtable w \<and> wd_junk w' = wd_junk w"

definition same_store :: "world \<Rightarrow> world \<Rightarrow> bool" where
  "same_store w w' \<longleftrightarrow> st_els w' = st_els w \<and> st_links w' = st_links w \<and> st_segs w' = st_segs w \<and>
     st_fresh w' = st_fresh w \<and> st_idtf_counter w' = st_idtf_counter w"

definition light :: "world \<Rightarrow> world \<Rightarrow> bool" where
  "light w w' \<longleftrightarrow> same_env w w' \<and> same_store w w' \<and> wd_addrs w' = wd_addrs w"

definition calm :: "world \<Rightarrow> world \<Rightarrow> bool" where
  "calm w w' \<longleftrightarrow> same_env w w' \<and> adj_eq w w' \<and> cells w' = cells w \<and> seg_core w' = seg_core w \<and>
     streams w' = streams w"

lemmas core_defs = addr_core_def sess_core_def seg_core_def streams_def cells_def

lemma same_env_refl [simp, intro]: "same_env w w" by (simp add: same_env_def)

lemma same_env_trans: "same_env a b \<Longrightarrow> same_env b c \<Longrightarrow> same_env a c" by (simp add: same_env_def)

lemma light_refl [simp, intro]: "light w w" by (simp add: light_def same_store_def)

lemma light_trans: "light a b \<Longrightarrow> light b c \<Longrightarrow> light a c"
  by (auto simp: light_def same_store_def intro: same_env_trans)

lemma light_store: "light w w' \<Longrightarrow> st_els w' = st_els w \<and> st_links w' = st_links w \<and>
    st_segs w' = st_segs w \<and> st_fresh w' = st_fresh w"
  by (simp add: light_def same_store_def)

lemma light_adj_eq: "light w w' \<Longrightarrow> adj_eq w w'"
  by (auto simp: light_def same_store_def adj_eq_def view_defs fun_eq_iff)

lemma light_calm: "light w w' \<Longrightarrow> calm w w'"
  using light_adj_eq [of w w'] by (auto simp: light_def calm_def same_store_def core_defs fun_eq_iff)

lemma calm_refl [simp, intro]: "calm w w" by (simp add: calm_def)

lemma calm_trans: "calm a b \<Longrightarrow> calm b c \<Longrightarrow> calm a c"
  by (auto simp: calm_def intro: same_env_trans adj_eq_trans)

lemma more_env: "store.more w' = store.more w \<Longrightarrow> same_env w w'"
  by (cases w, cases w') (auto simp: same_env_def core_defs fun_eq_iff)

lemma more_upd_el: "upd_el a f w = Some w' \<Longrightarrow> store.more w' = store.more w"
  by (auto simp: upd_el_def bind_Some_iff)

lemma more_upd_seg: "upd_seg a f w = Some w' \<Longrightarrow> store.more w' = store.more w"
  by (auto simp: upd_seg_def bind_Some_iff)

text \<open>The primitive updates.\<close>

lemma light_log [simp, intro]: "light w (log e w)"
  by (simp add: light_def same_env_def same_store_def log_def core_defs fun_eq_iff)

lemma light_upd_session:
  assumes "upd_session ss f w = Some w'" "\<And>s. (f s)\<lparr>ss_error := 0\<rparr> = s\<lparr>ss_error := 0\<rparr>"
  shows "light w w'"
  using assms by (auto simp: upd_session_def bind_Some_iff light_def same_env_def same_store_def core_defs fun_eq_iff)

lemma calm_upd_addr:
  assumes "upd_addr a f w = Some w'"
    and "\<And>g. (f g)\<lparr>ga_in_qnt := 0, ga_out_qnt := 0\<rparr> = g\<lparr>ga_in_qnt := 0, ga_out_qnt := 0\<rparr>"
  shows "calm w w'"
  using assms by (auto simp: upd_addr_def bind_Some_iff calm_def same_env_def adj_eq_def view_defs core_defs fun_eq_iff)

definition cell_only :: "(element \<Rightarrow> element) \<Rightarrow> bool" where
  "cell_only f \<longleftrightarrow> core_only f \<and> (\<forall>e. el_addr (f e) = el_addr e \<and> el_is_link (f e) = el_is_link e)"

lemma calm_upd_el: "upd_el a f w = Some w' \<Longrightarrow> cell_only f \<Longrightarrow> calm w w'"
  using adj_eq_upd_el [of a f w w'] more_env [OF more_upd_el, of a f w w']
  by (auto simp: cell_only_def calm_def upd_el_def bind_Some_iff core_defs fun_eq_iff)

lemma calm_upd_seg:
  assumes "upd_seg s f w = Some w'"
    and "\<And>g. st_segs w s = Some g \<Longrightarrow> (f g)\<lparr>sg_evstream := None, sg_list := [], sg_idtf_map := [], sg_cindex := []\<rparr> =
      g\<lparr>sg_evstream := None, sg_list := [], sg_idtf_map := [], sg_cindex := []\<rparr> \<and>
      (sg_evstream (f g) = None \<longleftrightarrow> sg_evstream g = None)"
  shows "calm w w'"
  using assms adj_eq_upd_seg [of s f w w'] more_env [OF more_upd_seg, of s f w w']
  by (auto simp: calm_def upd_seg_def bind_Some_iff core_defs fun_eq_iff)

lemma el_addr_set [simp]: "el_addr (el_set_idtf n e) = el_addr e" "el_addr (el_set_flags fl e) = el_addr e"
  by (simp_all add: el_set_idtf_def el_set_flags_def el_unset_flags_def)

lemma el_is_link_update [simp]:
  "el_is_link (e\<lparr>el_type := t\<rparr>) = el_is_link e" "el_is_link (e\<lparr>el_cont := c\<rparr>) = el_is_link e"
  "el_is_link (e\<lparr>el_sig := sig\<rparr>) = el_is_link e" "el_is_link (e\<lparr>el_idtf := n\<rparr>) = el_is_link e"
  "el_is_link (e\<lparr>el_addr := a\<rparr>) = el_is_link e"
  by (simp_all add: el_is_link_def)

lemma cell_only_intros [intro, simp]:
  "cell_only (\<lambda>e. e\<lparr>el_type := t\<rparr>)" "cell_only (\<lambda>e. e\<lparr>el_cont := c\<rparr>)"
  "cell_only (\<lambda>e. e\<lparr>el_sig := sig\<rparr>)" "cell_only (\<lambda>e. e\<lparr>el_idtf := n\<rparr>)"
  "cell_only (el_set_idtf n)" "cell_only (el_set_flags TMP_MISSING_IDTF)"
  by (auto simp: cell_only_def)

lemma calm_with_counter: "calm w (w\<lparr>st_idtf_counter := n\<rparr>)"
  by (simp add: calm_def adj_eq_def same_env_def core_defs view_defs fun_eq_iff)

section \<open>Runs that return\<close>

text \<open>\<open>yields m P\<close>: the run \<open>m\<close> returns, with a result that satisfies \<open>P\<close>.\<close>

definition yields :: "'r option \<Rightarrow> ('r \<Rightarrow> bool) \<Rightarrow> bool" where
  "yields m P \<longleftrightarrow> (\<exists>r. m = Some r \<and> P r)"

lemma yields_Some [simp]: "yields (Some r) P = P r"
  by (simp add: yields_def)

lemma yields_None [simp]: "\<not> yields None P"
  by (simp add: yields_def)

lemma yields_bind: "yields (Option.bind m f) P \<longleftrightarrow> yields m (\<lambda>r. yields (f r) P)"
  by (cases m) simp_all

lemma yields_case: "yields (case r of (x, y) \<Rightarrow> f x y) P \<longleftrightarrow> (case r of (x, y) \<Rightarrow> yields (f x y) P)"
  by (cases r) auto

lemma bind_case: "Option.bind (case r of (x, y) \<Rightarrow> g x y) f = (case r of (x, y) \<Rightarrow> Option.bind (g x y) f)"
  by (cases r) auto

lemma yields_if: "yields (if b then m else n) P \<longleftrightarrow> (if b then yields m P else yields n P)"
  by simp

lemma yields_bindI: "yields m Q \<Longrightarrow> (\<And>r. Q r \<Longrightarrow> yields (f r) P) \<Longrightarrow> yields (Option.bind m f) P"
  by (auto simp: yields_def)

lemma yields_mono: "yields m Q \<Longrightarrow> (\<And>r. Q r \<Longrightarrow> P r) \<Longrightarrow> yields m P"
  by (auto simp: yields_def)

lemma yields_map [simp]: "yields (map_option f m) P = yields m (\<lambda>r. P (f r))"
  by (cases m) simp_all

lemma yields_ensure [simp]: "yields (Option.bind (ensure b) f) P \<longleftrightarrow> b \<and> yields (f ()) P"
  by (auto simp: ensure_def)

lemma yields_unfold: "m = Some r \<Longrightarrow> yields m P = P r"
  by simp

section \<open>The invariant\<close>

definition wait_ok :: "world \<Rightarrow> nat \<Rightarrow> bool" where
  "wait_ok w p \<longleftrightarrow> (\<exists>x. wd_waits w p = Some x \<and> (wt_session x = 0 \<or> wd_sessions w (wt_session x) \<noteq> None))"

definition gaddr_ok :: "world \<Rightarrow> nat \<Rightarrow> gaddr \<Rightarrow> bool" where
  "gaddr_ok w a g \<longleftrightarrow> 0 < a \<and> a < st_fresh w \<and> links_sorted (ga_links g) \<and> st_segs w (ga_seg g) \<noteq> None \<and>
     (\<forall>x \<in> set (ga_links g). fst x \<noteq> ga_seg g \<and> cells w (snd x) = Some (a, True)) \<and>
     (\<not> ga_zombie g \<longrightarrow> cells w (ga_impl g) = Some (a, False)) \<and>
     (\<forall>t. \<forall>p \<in> set (ga_waits g t). wait_ok w p)"

definition wd_inv :: "world \<Rightarrow> bool" where
  "wd_inv w \<longleftrightarrow> store_adj w \<and> (\<forall>a g. wd_addrs w a = Some g \<longrightarrow> gaddr_ok w a g) \<and>
     (\<forall>l a k. cells w l = Some (a, k) \<longrightarrow> a \<noteq> 0 \<longrightarrow> wd_addrs w a \<noteq> None) \<and>
     (\<forall>s g. st_segs w s = Some g \<longrightarrow> sg_index g < SC_MAX_SEGMENTS)"

definition accessible :: "nat \<Rightarrow> world \<Rightarrow> nat \<Rightarrow> bool" where
  "accessible ss w a \<longleftrightarrow> a \<noteq> 0 \<and> wd_sessions w ss \<noteq> None \<and> (\<exists>g. wd_addrs w a = Some g \<and> \<not> ga_dead g \<and> ga_seg g \<noteq> 0 \<and>
     ga_impl g \<noteq> 0 \<and> session_opened ss (ga_seg g) w = Some True)"

lemma addr_core_eqD:
  assumes "addr_core w' = addr_core w" "wd_addrs w' a = Some g'"
  shows "\<exists>g. wd_addrs w a = Some g \<and> g'\<lparr>ga_in_qnt := 0, ga_out_qnt := 0\<rparr> = g\<lparr>ga_in_qnt := 0, ga_out_qnt := 0\<rparr>"
  using fun_cong [OF assms(1), of a] assms(2) by (cases "wd_addrs w a") (auto simp: addr_core_def)

lemma gaddr_core_fields:
  assumes "g'\<lparr>ga_in_qnt := 0, ga_out_qnt := 0\<rparr> = g\<lparr>ga_in_qnt := 0, ga_out_qnt := 0\<rparr>"
  shows "ga_seg g' = ga_seg g" "ga_impl g' = ga_impl g" "ga_links g' = ga_links g"
    "ga_refcnt g' = ga_refcnt g" "ga_dead g' = ga_dead g" "ga_locked g' = ga_locked g"
    "ga_zombie g' = ga_zombie g" "ga_activity g' = ga_activity g" "ga_observers g' = ga_observers g"
    "ga_waits g' = ga_waits g"
  using assms by (cases g, cases g', simp)+

lemma addr_core_fields:
  assumes "addr_core w' = addr_core w" "wd_addrs w' a = Some g'" "wd_addrs w a = Some g"
  shows "ga_seg g' = ga_seg g" "ga_impl g' = ga_impl g" "ga_links g' = ga_links g"
    "ga_refcnt g' = ga_refcnt g" "ga_dead g' = ga_dead g" "ga_locked g' = ga_locked g"
    "ga_zombie g' = ga_zombie g" "ga_activity g' = ga_activity g" "ga_observers g' = ga_observers g"
    "ga_waits g' = ga_waits g"
  using addr_core_eqD [OF assms(1,2)] assms(3) by (auto dest: gaddr_core_fields)

lemma addr_core_dom: "addr_core w' = addr_core w \<Longrightarrow> (wd_addrs w' a = None) = (wd_addrs w a = None)"
  by (drule fun_cong [where x = a]) (auto simp: addr_core_def)

lemma sess_core_opened: "sess_core w' = sess_core w \<Longrightarrow>
    map_option ss_opened (wd_sessions w' s) = map_option ss_opened (wd_sessions w s)"
proof (drule fun_cong [where x = s])
  assume h: "sess_core w' s = sess_core w s"
  have "map_option ss_opened (wd_sessions x s) = map_option ss_opened (sess_core x s)" for x
    by (cases "wd_sessions x s") (simp_all add: sess_core_def)
  then show ?thesis using h by simp
qed

lemma sess_core_dom: "sess_core w' = sess_core w \<Longrightarrow> (wd_sessions w' a = None) = (wd_sessions w a = None)"
  by (drule fun_cong [where x = a]) (auto simp: sess_core_def)

lemma seg_core_fields:
  assumes "seg_core w' = seg_core w"
  shows "map_option sg_index (st_segs w' s) = map_option sg_index (st_segs w s)"
    "map_option sg_sign (st_segs w' s) = map_option sg_sign (st_segs w s)"
    "map_option sg_uri (st_segs w' s) = map_option sg_uri (st_segs w s)"
    "map_option sg_repo_uri (st_segs w' s) = map_option sg_repo_uri (st_segs w s)"
    "(st_segs w' s = None) = (st_segs w s = None)"
proof -
  have c: "map_option sg_index (st_segs x s) = map_option sg_index (seg_core x s)"
    "map_option sg_sign (st_segs x s) = map_option sg_sign (seg_core x s)"
    "map_option sg_uri (st_segs x s) = map_option sg_uri (seg_core x s)"
    "map_option sg_repo_uri (st_segs x s) = map_option sg_repo_uri (seg_core x s)"
    "(st_segs x s = None) = (seg_core x s = None)" for x :: "'c store_scheme"
    by (cases "st_segs x s"; simp add: seg_core_def)+
  show "map_option sg_index (st_segs w' s) = map_option sg_index (st_segs w s)"
    "map_option sg_sign (st_segs w' s) = map_option sg_sign (st_segs w s)"
    "map_option sg_uri (st_segs w' s) = map_option sg_uri (st_segs w s)"
    "map_option sg_repo_uri (st_segs w' s) = map_option sg_repo_uri (st_segs w s)"
    "(st_segs w' s = None) = (st_segs w s = None)"
    using c [of w] c [of w'] assms by simp_all
qed

lemma session_opened_alt: "session_opened ss seg w =
    do { d \<leftarrow> map_option ss_opened (wd_sessions w ss); i \<leftarrow> map_option sg_index (st_segs w seg);
         b \<leftarrow> segset_is_set d i; Some (b \<noteq> 0) }"
  by (cases "wd_sessions w ss"; cases "st_segs w seg"; simp add: session_opened_def)

lemma session_opened_cong:
  assumes "sess_core w' = sess_core w" "seg_core w' = seg_core w"
  shows "session_opened ss seg w' = session_opened ss seg w"
  by (simp add: session_opened_alt sess_core_opened [OF assms(1)] seg_core_fields(1) [OF assms(2)])

lemma wait_ok_env: "same_env w w' \<Longrightarrow> wait_ok w' p = wait_ok w p"
  using sess_core_dom [of w' w] by (simp add: wait_ok_def same_env_def)

lemma gaddr_ok_calm:
  assumes "calm w w'" "wd_addrs w' a = Some g'" "wd_addrs w a = Some g" "gaddr_ok w a g"
  shows "gaddr_ok w' a g'"
proof -
  have c: "addr_core w' = addr_core w" "seg_core w' = seg_core w" "cells w' = cells w"
    "st_fresh w' = st_fresh w" "same_env w w'"
    using assms(1) by (simp_all add: calm_def same_env_def adj_eq_def)
  note f = addr_core_fields [OF c(1) assms(2,3)]
  show ?thesis
    using assms(4) wait_ok_env [OF c(5)] seg_core_fields(5) [OF c(2)]
    unfolding gaddr_ok_def f c(3,4) by simp
qed

lemma calm_wd_inv:
  assumes "calm w w'" "wd_inv w"
  shows "wd_inv w'"
  unfolding wd_inv_def
proof (intro conjI allI impI)
  have c: "addr_core w' = addr_core w" "seg_core w' = seg_core w" "cells w' = cells w" "adj_eq w w'"
    using assms(1) by (simp_all add: calm_def same_env_def)
  show "store_adj w'" using adj_eq_store_adj [OF c(4)] assms(2) by (simp add: wd_inv_def)
  show "gaddr_ok w' a g'" if g': "wd_addrs w' a = Some g'" for a g'
  proof -
    obtain g where g: "wd_addrs w a = Some g" using addr_core_eqD [OF c(1) g'] by blast
    then have "gaddr_ok w a g" using assms(2) by (simp add: wd_inv_def)
    then show ?thesis by (rule gaddr_ok_calm [OF assms(1) g' g])
  qed
  show "wd_addrs w' a \<noteq> None" if "cells w' l = Some (a, k)" "a \<noteq> 0" for l a k
    using that assms(2) addr_core_dom [OF c(1), of a] unfolding wd_inv_def c(3) by blast
  show "sg_index g' < SC_MAX_SEGMENTS" if "st_segs w' s = Some g'" for s g'
  proof -
    have "map_option sg_index (st_segs w s) = Some (sg_index g')"
      using seg_core_fields(1) [OF c(2), of s] that by simp
    then obtain g where "st_segs w s = Some g" "sg_index g = sg_index g'" by (auto)
    then show ?thesis using assms(2) unfolding wd_inv_def by metis
  qed
qed

lemma calm_accessible:
  assumes "calm w w'" "accessible ss w a"
  shows "accessible ss w' a"
proof -
  have c: "addr_core w' = addr_core w" "seg_core w' = seg_core w" "sess_core w' = sess_core w"
    using assms(1) by (simp_all add: calm_def same_env_def)
  obtain g where g: "wd_addrs w a = Some g" "\<not> ga_dead g" "ga_seg g \<noteq> 0" "ga_impl g \<noteq> 0"
    "session_opened ss (ga_seg g) w = Some True" "a \<noteq> 0" "wd_sessions w ss \<noteq> None"
    using assms(2) by (auto simp: accessible_def)
  then obtain g' where g': "wd_addrs w' a = Some g'" using addr_core_dom [OF c(1), of a] by auto
  show ?thesis
    using g g' addr_core_fields [OF c(1) g' g(1)] session_opened_cong [OF c(3,2)]
      sess_core_dom [OF c(3)] by (simp add: accessible_def)
qed

lemma wd_invD:
  assumes "wd_inv w"
  shows "store_adj w" "wd_addrs w a = Some g \<Longrightarrow> gaddr_ok w a g"
    "cells w l = Some (a, k) \<Longrightarrow> a \<noteq> 0 \<Longrightarrow> wd_addrs w a \<noteq> None"
    "st_segs w s = Some sg \<Longrightarrow> sg_index sg < SC_MAX_SEGMENTS"
  using assms unfolding wd_inv_def by blast+

lemma gaddr_okD:
  assumes "gaddr_ok w a g"
  shows "0 < a" "a < st_fresh w" "links_sorted (ga_links g)" "st_segs w (ga_seg g) \<noteq> None"
    "x \<in> set (ga_links g) \<Longrightarrow> fst x \<noteq> ga_seg g \<and> cells w (snd x) = Some (a, True)"
    "\<not> ga_zombie g \<Longrightarrow> cells w (ga_impl g) = Some (a, False)"
    "p \<in> set (ga_waits g t) \<Longrightarrow> wait_ok w p"
  using assms by (auto simp: gaddr_ok_def)

section \<open>Access, errors and events return\<close>

lemma set_error_wp:
  assumes "wd_sessions w ss \<noteq> None"
    and "\<And>w'. light w w' \<Longrightarrow> get_error ss w' = Some rv \<Longrightarrow> P w'"
  shows "yields (set_error ss rv w) P"
proof -
  obtain s where s: "wd_sessions w ss = Some s" using assms(1) by blast
  let ?w = "w\<lparr>wd_sessions := (wd_sessions w)(ss \<mapsto> s\<lparr>ss_error := rv\<rparr>)\<rparr>"
  have e: "set_error ss rv w = Some ?w" using s by (simp add: set_error_def upd_session_def)
  have "light w ?w" by (rule light_upd_session [OF e [unfolded set_error_def]]) simp
  then show ?thesis using e assms(2) by (simp add: get_error_def)
qed

lemma return_error_wp:
  assumes "wd_sessions w ss \<noteq> None"
    and "\<And>w'. light w w' \<Longrightarrow> get_error ss w' = Some rv \<Longrightarrow> P (rv, w')"
  shows "yields (return_error ss rv w) P"
  unfolding return_error_def yields_bind using assms by (intro set_error_wp) simp_all

lemma session_opened_total:
  assumes "wd_inv w" "wd_sessions w ss \<noteq> None" "st_segs w seg \<noteq> None"
  shows "\<exists>b. session_opened ss seg w = Some b"
proof -
  obtain s g where "wd_sessions w ss = Some s" "st_segs w seg = Some g" using assms(2,3) by blast
  moreover from this have "sg_index g < SC_MAX_SEGMENTS" using wd_invD(4) [OF assms(1)] by blast
  ultimately show ?thesis by (simp add: session_opened_def segset_is_set_def)
qed

text \<open>Access is decided by \<open>accessible\<close>, and the answer is also the session's error code.\<close>

lemma access_wp:
  assumes "wd_inv w" "wd_sessions w ss \<noteq> None" "a = 0 \<or> wd_addrs w a \<noteq> None"
    and "\<And>w'. light w w' \<Longrightarrow> get_error ss w' = Some (if accessible ss w a then RV_OK else RV_ERR_GEN) \<Longrightarrow>
      P (if accessible ss w a then RV_OK else RV_ERR_GEN, w')"
  shows "yields (access ss a w) P"
proof (cases "a = 0")
  case True
  then have "\<not> accessible ss w a" by (simp add: accessible_def)
  then show ?thesis using True assms(2,4) by (auto simp: access_def intro!: return_error_wp)
next
  case False
  then obtain g where g: "wd_addrs w a = Some g" using assms(3) by blast
  show ?thesis
  proof (cases "ga_dead g \<or> ga_seg g = 0 \<or> ga_impl g = 0")
    case True
    then have "\<not> accessible ss w a" using g by (auto simp: accessible_def)
    then show ?thesis using True False g assms(2,4) by (auto simp: access_def intro!: return_error_wp)
  next
    case live: False
    obtain b where b: "session_opened ss (ga_seg g) w = Some b"
      using session_opened_total [OF assms(1,2)] gaddr_okD(4) [OF wd_invD(2) [OF assms(1) g]] by blast
    have acc: "accessible ss w a \<longleftrightarrow> b" using live g b False assms(2) by (auto simp: accessible_def)
    show ?thesis
      using live False g b assms(2,4) acc by (auto simp: access_def intro!: return_error_wp)
  qed
qed

lemma access_ok_wp:
  assumes "wd_inv w" "accessible ss w a" "\<And>w'. light w w' \<Longrightarrow> P (RV_OK, w')"
  shows "yields (access ss a w) P"
  using assms by (intro access_wp) (auto simp: accessible_def)

definition logged :: "world \<Rightarrow> world \<Rightarrow> bool" where
  "logged w w' \<longleftrightarrow> (\<exists>l. w' = w\<lparr>wd_log := l\<rparr>)"

lemma logged_refl [simp, intro]: "logged w w"
  by (auto simp: logged_def intro: exI [of _ "wd_log w"])

lemma logged_log [simp, intro]: "logged w (log e w)"
  by (auto simp: logged_def log_def)

lemma logged_trans: "logged a b \<Longrightarrow> logged b c \<Longrightarrow> logged a c"
  by (auto simp: logged_def)

lemma logged_light: "logged w w' \<Longrightarrow> light w w'"
  by (auto simp: logged_def light_def same_env_def same_store_def core_defs fun_eq_iff)

lemma logged_same: "logged w w' \<Longrightarrow> wd_sessions w' = wd_sessions w \<and> wd_addrs w' = wd_addrs w"
  by (auto simp: logged_def)

lemma activate_pre_list_wp:
  assumes "\<And>p. p \<in> set ps \<Longrightarrow> wd_waits w p \<noteq> None" "\<And>b w'. logged w w' \<Longrightarrow> P (b, w')"
  shows "yields (activate_pre_list ty prm ps w) P"
  using assms
proof (induction ps arbitrary: w)
  case (Cons p ps)
  obtain x where x: "wd_waits w p = Some x" using Cons.prems(1) by fastforce
  let ?w = "log (Wait_activated p ty prm) w"
  have l: "logged w ?w" by simp
  have "yields (activate_pre_list ty prm ps ?w) P"
    using Cons.prems logged_trans [OF l] by (intro Cons.IH) (auto simp: log_def)
  then show ?case using x Cons.prems(2) [OF l] by (simp add: Let_def cong: if_cong)
qed simp

lemma activate_post_list_wp:
  assumes "wd_inv w" "\<And>p. p \<in> set ps \<Longrightarrow> wait_ok w p" "prm \<noteq> []" "wd_addrs w (last prm) \<noteq> None"
    and "\<And>w'. logged w w' \<Longrightarrow> P (False, w')"
  shows "yields (activate_post_list ty prm ps w) P"
  using assms
proof (induction ps arbitrary: w)
  case (Cons p ps)
  obtain x where x: "wd_waits w p = Some x" "wt_session x = 0 \<or> wd_sessions w (wt_session x) \<noteq> None"
    using Cons.prems(2) [of p] by (auto simp: wait_ok_def)
  obtain g where g: "wd_addrs w (last prm) = Some g" using Cons.prems(4) by blast
  have chk: "check_prm_access f (addr_seg_of w) prm (length prm) = Some (f (ga_seg g))" for f
    using g Cons.prems(3) by (simp add: check_prm_access_eq addr_seg_of_def)
  let ?w = "log (Wait_activated p ty prm) w"
  have l: "logged w ?w" by simp
  have inv: "wd_inv ?w" by (rule calm_wd_inv [OF light_calm [OF logged_light [OF l]] Cons.prems(1)])
  have env: "same_env w ?w" using logged_light [OF l] by (simp add: light_def)
  have "yields (activate_post_list ty prm ps ?w) P"
    using Cons.prems logged_trans [OF l] inv wait_ok_env [OF env]
    by (intro Cons.IH) (auto simp: log_def)
  moreover have "yields (activate_post_list ty prm ps w) P"
    using Cons.prems by (intro Cons.IH) auto
  ultimately show ?case using x chk by (simp add: Let_def)
qed simp

lemma addr_activate_wp:
  assumes "wd_inv w" "wd_addrs w a \<noteq> None" "prm \<noteq> []" "wait_is_pre ty \<or> wd_addrs w (last prm) \<noteq> None"
    and "\<And>b w'. logged w w' \<Longrightarrow> (\<not> wait_is_pre ty \<Longrightarrow> \<not> b) \<Longrightarrow> P (b, w')"
  shows "yields (addr_activate a ty prm w) P"
proof -
  obtain g where g: "wd_addrs w a = Some g" using assms(2) by blast
  have ok: "wait_ok w p" if "p \<in> set (ga_waits g ty)" for p
    using gaddr_okD(7) [OF wd_invD(2) [OF assms(1) g] that] .
  then have ex: "wd_waits w p \<noteq> None" if "p \<in> set (ga_waits g ty)" for p
    using that by (auto simp: wait_ok_def)
  have "wait_is_pre ty \<Longrightarrow> yields (activate_pre_list ty prm (ga_waits g ty) w) P"
    using ex assms(5) by (intro activate_pre_list_wp) auto
  moreover have "\<not> wait_is_pre ty \<Longrightarrow> yields (activate_post_list ty prm (ga_waits g ty) w) P"
    using ok assms by (intro activate_post_list_wp) auto
  ultimately show ?thesis
    using g assms(5) [of w False] by (simp add: addr_activate_def)
qed

text \<open>What \<open>light\<close> and \<open>calm\<close> keep for the next step of a run.\<close>

lemma light_keep:
  assumes "light w w'"
  shows "wd_inv w \<Longrightarrow> wd_inv w'" "accessible ss w a \<Longrightarrow> accessible ss w' a"
    "wd_sessions w ss \<noteq> None \<Longrightarrow> wd_sessions w' ss \<noteq> None" "wd_addrs w a \<noteq> None \<Longrightarrow> wd_addrs w' a \<noteq> None"
  using calm_wd_inv [OF light_calm [OF assms]] calm_accessible [OF light_calm [OF assms]] assms
    sess_core_dom [of w' w] addr_core_dom [of w' w]
  by (auto simp: light_def same_env_def)

lemma light_addr:
  assumes "light w w'" "wd_addrs w a = Some g"
  shows "\<exists>g'. wd_addrs w' a = Some g' \<and> ga_seg g' = ga_seg g \<and> ga_impl g' = ga_impl g \<and>
    ga_links g' = ga_links g \<and> ga_locked g' = ga_locked g \<and> ga_dead g' = ga_dead g \<and> ga_zombie g' = ga_zombie g"
proof -
  have c: "addr_core w' = addr_core w" using assms(1) by (simp add: light_def same_env_def)
  then obtain g' where "wd_addrs w' a = Some g'" using addr_core_dom [OF c, of a] assms(2) by auto
  then show ?thesis using addr_core_fields [OF c _ assms(2)] by simp
qed

section \<open>Operations on the store\<close>

text \<open>\<open>kept\<close>: the adjacency structure may change, addresses and elements do not.\<close>

definition kept :: "world \<Rightarrow> world \<Rightarrow> bool" where
  "kept w w' \<longleftrightarrow> same_env w w' \<and> cells w' = cells w \<and> seg_core w' = seg_core w \<and>
     streams w' = streams w \<and> st_fresh w \<le> st_fresh w'"

lemma kept_refl [simp, intro]: "kept w w" by (simp add: kept_def)

lemma kept_trans: "kept a b \<Longrightarrow> kept b c \<Longrightarrow> kept a c"
  by (auto simp: kept_def intro: same_env_trans)

lemma calm_kept: "calm w w' \<Longrightarrow> kept w w'"
  by (simp add: calm_def kept_def adj_eq_def)

lemma light_kept: "light w w' \<Longrightarrow> kept w w'"
  by (rule calm_kept [OF light_calm])

lemma kept_addr:
  assumes "kept w w'" "wd_addrs w a = Some g"
  shows "\<exists>g'. wd_addrs w' a = Some g' \<and> ga_seg g' = ga_seg g \<and> ga_impl g' = ga_impl g \<and>
    ga_links g' = ga_links g \<and> ga_locked g' = ga_locked g \<and> ga_dead g' = ga_dead g \<and>
    ga_zombie g' = ga_zombie g \<and> ga_waits g' = ga_waits g"
proof -
  have c: "addr_core w' = addr_core w" using assms(1) by (simp add: kept_def same_env_def)
  then obtain g' where "wd_addrs w' a = Some g'" using addr_core_dom [OF c, of a] assms(2) by auto
  then show ?thesis using addr_core_fields [OF c _ assms(2)] by simp
qed

lemma kept_accessible: "kept w w' \<Longrightarrow> accessible ss w a \<Longrightarrow> accessible ss w' a"
proof -
  assume k: "kept w w'" and a: "accessible ss w a"
  have c: "seg_core w' = seg_core w" "sess_core w' = sess_core w"
    using k by (simp_all add: kept_def same_env_def)
  obtain g where g: "wd_addrs w a = Some g" "\<not> ga_dead g" "ga_seg g \<noteq> 0" "ga_impl g \<noteq> 0"
    "session_opened ss (ga_seg g) w = Some True" "a \<noteq> 0" "wd_sessions w ss \<noteq> None"
    using a by (auto simp: accessible_def)
  from kept_addr [OF k g(1)] show ?thesis
    using g session_opened_cong [OF c(2,1)] sess_core_dom [OF c(2)] by (auto simp: accessible_def)
qed

lemma kept_wd_inv:
  assumes "kept w w'" "wd_inv w" "store_adj w'"
  shows "wd_inv w'"
  unfolding wd_inv_def
proof (intro conjI allI impI)
  have c: "addr_core w' = addr_core w" "seg_core w' = seg_core w" "cells w' = cells w" "same_env w w'"
      "st_fresh w \<le> st_fresh w'"
    using assms(1) by (simp_all add: kept_def same_env_def)
  show "store_adj w'" by fact
  show "gaddr_ok w' a g'" if g': "wd_addrs w' a = Some g'" for a g'
  proof -
    obtain g where g: "wd_addrs w a = Some g" using addr_core_eqD [OF c(1) g'] by blast
    then have "gaddr_ok w a g" using assms(2) by (simp add: wd_inv_def)
    then show ?thesis
      using wait_ok_env [OF c(4)] seg_core_fields(5) [OF c(2)] c(5)
      unfolding gaddr_ok_def addr_core_fields [OF c(1) g' g] c(3) by auto
  qed
  show "wd_addrs w' a \<noteq> None" if "cells w' l = Some (a, k)" "a \<noteq> 0" for l a k
    using that assms(2) addr_core_dom [OF c(1), of a] unfolding wd_inv_def c(3) by blast
  show "sg_index g' < SC_MAX_SEGMENTS" if "st_segs w' s = Some g'" for s g'
  proof -
    have "map_option sg_index (st_segs w s) = Some (sg_index g')"
      using seg_core_fields(1) [OF c(2), of s] that by simp
    then show ?thesis using assms(2) unfolding wd_inv_def by (metis map_option_eq_Some)
  qed
qed

definition conn :: "'a store_scheme \<Rightarrow> nat \<Rightarrow> bool" where
  "conn w l \<longleftrightarrow> (\<exists>e. st_els w l = Some e \<and> el_type e AND SC_CONNECTOR_MASK \<noteq> 0)"

definition type_of :: "'a store_scheme \<Rightarrow> nat \<Rightarrow> sc_type" where
  "type_of w l = (case st_els w l of None \<Rightarrow> 0 | Some e \<Rightarrow> el_type e)"

lemma sg_get_type_eq: "cells w l = Some (a, False) \<Longrightarrow> sg_get_type l w = Some (type_of w l)"
  by (auto simp: cells_def sg_get_type_def type_of_def)

lemma sg_get_ends_eq:
  "conn w l \<Longrightarrow> sg_get_beg l w = Some (vT Beg w l)"
  "conn w l \<Longrightarrow> sg_get_end l w = Some (vT End w l)"
  by (auto simp: conn_def sg_get_beg_def sg_get_end_def vT_def)

lemma sg_get_element_addr_eq: "cells w l = Some (a, k) \<Longrightarrow> sg_get_element_addr l w = Some a"
  by (auto simp: cells_def sg_get_element_addr_def)

lemma end_cell:
  assumes "wd_inv w" "vT sd w l \<noteq> 0"
  shows "\<exists>a k. cells w (vT sd w l) = Some (a, k) \<and> (a \<noteq> 0 \<longrightarrow> wd_addrs w a \<noteq> None)"
proof -
  have "vD w (vT sd w l)" using adj_invD(5) [OF adj_okD [OF wd_invD(1) [OF assms(1)]] assms(2)] .
  then obtain e where "st_els w (vT sd w l) = Some e" by (auto simp: vD_def)
  then have c: "cells w (vT sd w l) = Some (el_addr e, el_is_link e)" by (simp add: cells_def)
  then show ?thesis using wd_invD(3) [OF assms(1) c] by auto
qed

text \<open>The address of the end of a connector, null when it has none.\<close>

definition end_addr :: "side \<Rightarrow> world \<Rightarrow> nat \<Rightarrow> nat" where
  "end_addr sd w l = (if vT sd w l = 0 then 0
     else case cells w (vT sd w l) of None \<Rightarrow> 0 | Some (a, k) \<Rightarrow> a)"

lemma end_addr_eq:
  assumes "wd_inv w"
  shows "(if vT sd w l \<noteq> 0 then sg_get_element_addr (vT sd w l) w else Some 0) = Some (end_addr sd w l)"
    "end_addr sd w l \<noteq> 0 \<Longrightarrow> wd_addrs w (end_addr sd w l) \<noteq> None"
  using end_cell [OF assms, of sd l] sg_get_element_addr_eq [of w "vT sd w l"]
  by (auto simp: end_addr_def split: option.splits if_splits)

section \<open>Operations of a session\<close>

lemma light_views:
  assumes "light w w'"
  shows "vT sd w' l = vT sd w l" "conn w' l = conn w l" "cells w' = cells w" "type_of w' l = type_of w l"
    "end_addr sd w' l = end_addr sd w l" "streams w' = streams w" "st_segs w' = st_segs w"
    "st_els w' = st_els w"
  using light_store [OF assms]
  by (simp_all add: view_defs conn_def cells_def type_of_def end_addr_def streams_def fun_eq_iff)

lemma live_impl:
  assumes "wd_inv w" "wd_addrs w a = Some g" "\<not> ga_zombie g"
  shows "cells w (ga_impl g) = Some (a, False)"
  using gaddr_okD(6) [OF wd_invD(2) [OF assms(1,2)] assms(3)] .

lemma get_type_wp:
  assumes "wd_inv w" "accessible ss w a" "wd_addrs w a = Some g" "\<not> ga_zombie g"
    and "\<And>w'. light w w' \<Longrightarrow> P (type_of w (ga_impl g), w')"
  shows "yields (get_type ss a w) P"
  unfolding get_type_def yields_bind
proof (rule access_ok_wp [OF assms(1,2)], simp add: yields_bind, rule set_error_wp)
  fix w1 assume l1: "light w w1"
  show "wd_sessions w1 ss \<noteq> None" using light_keep(3) [OF l1] assms(2) by (auto simp: accessible_def)
  fix w2 assume "light w1 w2"
  with l1 have l2: "light w w2" by (rule light_trans)
  obtain g' where g': "wd_addrs w2 a = Some g'" "ga_impl g' = ga_impl g"
    using light_addr [OF l2 assms(3)] by blast
  have "sg_get_type (ga_impl g) w2 = Some (type_of w (ga_impl g))"
    using sg_get_type_eq [of w2 "ga_impl g" a] live_impl [OF assms(1,3,4)] light_views [OF l2] by simp
  then show "yields (wd_addrs w2 a) (\<lambda>g. yields (sg_get_type (ga_impl g) w2) (\<lambda>t. P (t, w2)))"
    using g' assms(5) [OF l2] by simp
qed

lemma activate_step_wp:
  assumes "wd_inv w" "light w w'" "wd_addrs w a \<noteq> None" "prm \<noteq> []"
    "wait_is_pre ty \<or> wd_addrs w (last prm) \<noteq> None"
    and "\<And>b w'. light w w' \<Longrightarrow> P (b, w')"
  shows "yields (addr_activate a ty prm w') P"
proof (rule addr_activate_wp)
  show "wd_inv w'" "wd_addrs w' a \<noteq> None" "prm \<noteq> []" "wait_is_pre ty \<or> wd_addrs w' (last prm) \<noteq> None"
    using light_keep [OF assms(2)] assms by blast+
  show "P (b, v)" if "logged w' v" for b v
    by (rule assms(6) [OF light_trans [OF assms(2) logged_light [OF that]]])
qed

text \<open>A step may be followed by anything that returns from every \<open>light\<close> successor.\<close>

lemma activate_then_wp:
  assumes "wd_inv w" "light w w'" "wd_addrs w a \<noteq> None" "prm \<noteq> []"
    "wait_is_pre ty \<or> wd_addrs w (last prm) \<noteq> None"
    and "\<And>b w'. light w w' \<Longrightarrow> yields (f b w') P"
  shows "yields (addr_activate a ty prm w' \<bind> (\<lambda>(b, w). f b w)) P"
  unfolding yields_bind yields_case
  by (rule activate_step_wp [OF assms(1-5)]) (use assms(6) in auto)

lemma pre_types [simp]:
  "wait_is_pre SC_WAIT_DETACH_OUTPUT_PRE" "wait_is_pre SC_WAIT_ATTACH_OUTPUT_PRE"
  "wait_is_pre SC_WAIT_DETACH_INPUT_PRE" "wait_is_pre SC_WAIT_ATTACH_INPUT_PRE"
  "wait_is_pre SC_WAIT_HACK_SET_MEMBER_PRE" "wait_is_pre SC_WAIT_HACK_IN_SET_PRE"
  "wait_is_pre SC_WAIT_CHANGE_TYPE_PRE" "wait_is_pre SC_WAIT_DIE_PRE_REAL"
  by (simp_all add: wait_is_pre_def)

text \<open>Both handlers of an arc whose two ends are known are asked, the second when the first agrees.\<close>

lemma pre_chain_wp:
  assumes "wd_inv w" "light w w1" "wd_addrs w x \<noteq> None" "wd_addrs w y \<noteq> None" "prm \<noteq> []"
    "wait_is_pre ty" "wait_is_pre ty2" "\<And>b w'. light w w' \<Longrightarrow> P (b, w')"
  shows "yields (do { (b, w) \<leftarrow> addr_activate x ty prm w1;
      if b then Some (True, w) else addr_activate y ty2 prm w }) P"
  using assms by (auto intro!: activate_then_wp [OF assms(1-3)] activate_step_wp [OF assms(1)])

lemma set_beg_pre_wp:
  assumes "wd_inv w" "wd_addrs w arc = Some g" "conn w (ga_impl g)" "beg = 0 \<or> wd_addrs w beg \<noteq> None"
    and P: "\<And>b w'. light w w' \<Longrightarrow> P (b, w')"
  shows "yields (set_beg_pre arc beg w) P"
proof (cases "beg = 0")
  case True
  note e = end_addr_eq [OF assms(1), of Beg "ga_impl g"]
  show ?thesis
    unfolding set_beg_pre_def assms(2) sg_get_ends_eq(1) [OF assms(3)] Option.bind.simps True e(1)
    using e(2) P by (auto intro!: activate_step_wp [OF assms(1) light_refl])
next
  case False
  then have beg: "wd_addrs w beg \<noteq> None" using assms(4) by blast
  have "yields (do { (b, w) \<leftarrow> addr_activate beg SC_WAIT_ATTACH_OUTPUT_PRE [arc, wd_junk w] w;
      (if b then Some (True, w)
       else do {
         ll2 \<leftarrow> sg_get_end (ga_impl g) w;
         a2 \<leftarrow> (if ll2 \<noteq> 0 then sg_get_element_addr ll2 w else Some 0);
         (if a2 = 0 then Some (False, w)
          else do {
            (b, w) \<leftarrow> addr_activate beg SC_WAIT_HACK_SET_MEMBER_PRE [beg, arc, a2] w;
            (if b then Some (True, w) else addr_activate a2 SC_WAIT_HACK_IN_SET_PRE [beg, arc, a2] w)
          }) }) }) P"
  proof (rule activate_then_wp [OF assms(1) light_refl beg])
    fix b w1 assume l1: "light w w1"
    note v = light_views [OF l1]
    note e = end_addr_eq [OF light_keep(1) [OF l1 assms(1)], of End "ga_impl g", unfolded v(5)]
    have c: "conn w1 (ga_impl g)" using assms(3) v(2) by blast
    note e2 = end_addr_eq(2) [OF assms(1), of End "ga_impl g"]
    show "yields (if b then Some (True, w1) else do {
         ll2 \<leftarrow> sg_get_end (ga_impl g) w1;
         a2 \<leftarrow> (if ll2 \<noteq> 0 then sg_get_element_addr ll2 w1 else Some 0);
         (if a2 = 0 then Some (False, w1)
          else do {
            (b, w) \<leftarrow> addr_activate beg SC_WAIT_HACK_SET_MEMBER_PRE [beg, arc, a2] w1;
            (if b then Some (True, w) else addr_activate a2 SC_WAIT_HACK_IN_SET_PRE [beg, arc, a2] w)
          }) }) P"
      unfolding sg_get_ends_eq(2) [OF c] Option.bind.simps e(1)
      using P [OF l1] pre_chain_wp [OF assms(1) l1 beg e2, of "[beg, arc, end_addr End w (ga_impl g)]"] P
      by auto
  qed simp_all
  then show ?thesis
    using False assms(2) sg_get_ends_eq(1) [OF assms(3)] by (simp add: set_beg_pre_def)
qed

lemma set_end_pre_wp:
  assumes "wd_inv w" "wd_addrs w arc = Some g" "conn w (ga_impl g)" "en = 0 \<or> wd_addrs w en \<noteq> None"
    and P: "\<And>b w'. light w w' \<Longrightarrow> P (b, w')"
  shows "yields (set_end_pre arc en w) P"
proof (cases "en = 0")
  case True
  note e = end_addr_eq [OF assms(1), of End "ga_impl g"]
  show ?thesis
    unfolding set_end_pre_def assms(2) sg_get_ends_eq(2) [OF assms(3)] Option.bind.simps True e(1)
    using e(2) P by (auto intro!: activate_step_wp [OF assms(1) light_refl])
next
  case False
  then have en: "wd_addrs w en \<noteq> None" using assms(4) by blast
  have "yields (do { (b, w) \<leftarrow> addr_activate en SC_WAIT_ATTACH_INPUT_PRE [arc, en] w;
      (if b then Some (True, w)
       else do {
         ll2 \<leftarrow> sg_get_beg (ga_impl g) w;
         a0 \<leftarrow> (if ll2 \<noteq> 0 then sg_get_element_addr ll2 w else Some 0);
         (if a0 = 0 then Some (False, w)
          else do {
            (b, w) \<leftarrow> addr_activate en SC_WAIT_HACK_IN_SET_PRE [a0, arc, en] w;
            (if b then Some (True, w) else addr_activate a0 SC_WAIT_HACK_SET_MEMBER_PRE [a0, arc, en] w)
          }) }) }) P"
  proof (rule activate_then_wp [OF assms(1) light_refl en])
    fix b w1 assume l1: "light w w1"
    note v = light_views [OF l1]
    note e = end_addr_eq [OF light_keep(1) [OF l1 assms(1)], of Beg "ga_impl g", unfolded v(5)]
    have c: "conn w1 (ga_impl g)" using assms(3) v(2) by blast
    note e2 = end_addr_eq(2) [OF assms(1), of Beg "ga_impl g"]
    show "yields (if b then Some (True, w1) else do {
         ll2 \<leftarrow> sg_get_beg (ga_impl g) w1;
         a0 \<leftarrow> (if ll2 \<noteq> 0 then sg_get_element_addr ll2 w1 else Some 0);
         (if a0 = 0 then Some (False, w1)
          else do {
            (b, w) \<leftarrow> addr_activate en SC_WAIT_HACK_IN_SET_PRE [a0, arc, en] w1;
            (if b then Some (True, w) else addr_activate a0 SC_WAIT_HACK_SET_MEMBER_PRE [a0, arc, en] w)
          }) }) P"
      unfolding sg_get_ends_eq(1) [OF c] Option.bind.simps e(1)
      using P [OF l1] pre_chain_wp [OF assms(1) l1 en e2, of "[end_addr Beg w (ga_impl g), arc, en]"] P
      by auto
  qed simp_all
  then show ?thesis
    using False assms(2) sg_get_ends_eq(2) [OF assms(3)] by (simp add: set_end_pre_def)
qed

end
