(* ===== verification/Session_Ends.thy ===== *)
theory Session_Ends
  imports Session_Inv
begin

text \<open>
  Types of elements, links to other segments and the ends of arcs: the runs of \<open>change_type\<close>,
  \<open>ensure_link_to\<close>, \<open>set_beg\<close> and \<open>set_end\<close> return on every world that satisfies the invariant, keep
  it, and do what they promise. \<open>grown\<close> relates worlds in which addresses and elements may be added,
  \<open>attached\<close> and \<open>detached\<close> are the contracts of the two setters.
\<close>

section \<open>Types\<close>

definition type_change_ok :: "world \<Rightarrow> gaddr \<Rightarrow> sc_type \<Rightarrow> bool" where
  "type_change_ok w g new \<longleftrightarrow>
     (let t = type_of w (ga_impl g); syn = t AND SC_SYNTACTIC_MASK
      in (syn = SC_NODE \<longrightarrow> sc_isa new SC_NODE \<or> ga_out_qnt g = 0) \<and>
         (syn \<in> {SC_EDGE, SC_ARC, SC_ARC_ACCESSORY} \<longrightarrow>
            new AND SC_CONNECTOR_MASK \<noteq> 0 \<or> vT Beg w (ga_impl g) = 0 \<and> vT End w (ga_impl g) = 0))"

lemma mask_values: "SC_SYNTACTIC_MASK = 0x3F" "SC_CONNECTOR_MASK = 0x1C"
  by (simp_all add: SC_SYNTACTIC_MASK_def SC_CONNECTOR_MASK_def)

lemma syn_conn:
  assumes "t AND SC_SYNTACTIC_MASK \<in> {SC_EDGE, SC_ARC, SC_ARC_ACCESSORY}"
  shows "t AND SC_CONNECTOR_MASK \<noteq> 0"
proof -
  have "t AND SC_CONNECTOR_MASK = (t AND SC_SYNTACTIC_MASK) AND SC_CONNECTOR_MASK"
    by (simp add: mask_values and.assoc)
  then show ?thesis using assms by (auto simp: mask_values)
qed

lemma verify_type_changing_eq:
  assumes "wd_inv w" "wd_addrs w a = Some g" "\<not> ga_zombie g"
  shows "verify_type_changing a new w = Some (type_change_ok w g new)"
proof -
  let ?t = "type_of w (ga_impl g)"
  note c = live_impl [OF assms]
  obtain e where e: "st_els w (ga_impl g) = Some e" using c by (auto simp: cells_def)
  have "?t AND SC_SYNTACTIC_MASK \<in> {SC_EDGE, SC_ARC, SC_ARC_ACCESSORY} \<Longrightarrow> conn w (ga_impl g)"
    using syn_conn [of ?t] e by (simp add: conn_def type_of_def)
  then show ?thesis
    using assms(2) sg_get_type_eq [OF c] sg_get_ends_eq [of w "ga_impl g"]
    by (auto simp: verify_type_changing_def type_change_ok_def Let_def)
qed

text \<open>What \<open>change_type\<close> may change beside the log and the error code: the type of the element.\<close>

definition typed :: "nat \<Rightarrow> world \<Rightarrow> world \<Rightarrow> bool" where
  "typed l w w' \<longleftrightarrow> same_env w w' \<and> st_links w' = st_links w \<and> st_segs w' = st_segs w \<and>
     st_fresh w' = st_fresh w \<and> st_idtf_counter w' = st_idtf_counter w \<and>
     (\<exists>t. st_els w' = (st_els w)(l := map_option (\<lambda>e. e\<lparr>el_type := t\<rparr>) (st_els w l)))"

lemma light_typed: "light w w' \<Longrightarrow> typed l w w'"
proof -
  assume l: "light w w'"
  have "st_els w = (st_els w)(l := map_option (\<lambda>e. e\<lparr>el_type := type_of w l\<rparr>) (st_els w l))"
    by (auto simp: fun_eq_iff type_of_def split: option.splits)
  then show ?thesis using l unfolding typed_def light_def same_store_def by metis
qed

lemma typed_light: "typed l w w' \<Longrightarrow> light w' w'' \<Longrightarrow> typed l w w''"
  by (auto simp: typed_def light_def same_store_def intro: same_env_trans)

lemma light_typed_trans: "light w w' \<Longrightarrow> typed l w' w'' \<Longrightarrow> typed l w w''"
  by (auto simp: typed_def light_def same_store_def intro: same_env_trans)

lemma typed_calm:
  assumes "typed l w w'"
  shows "calm w w'"
proof -
  obtain t where t: "st_els w' = (st_els w)(l := map_option (\<lambda>e. e\<lparr>el_type := t\<rparr>) (st_els w l))"
    using assms by (auto simp: typed_def)
  have o: "same_env w w'" "st_links w' = st_links w" "st_segs w' = st_segs w" "st_fresh w' = st_fresh w"
    using assms by (simp_all add: typed_def)
  show ?thesis
  proof (cases "st_els w l")
    case None
    then have "st_els w' = st_els w" using t by (simp add: fun_upd_idem)
    then show ?thesis using o by (simp add: calm_def adj_eq_def core_defs view_defs fun_eq_iff)
  next
    case (Some e)
    then have "st_els w' = (st_els w)(l \<mapsto> e\<lparr>el_type := t\<rparr>)" using t by simp
    then show ?thesis
      using o Some by (simp add: calm_def adj_eq_def core_defs view_defs adj_def fun_eq_iff split: side.splits)
  qed
qed

text \<open>A \<open>_PRE\<close> event of an element is denied when events are not locked and some handler that waits
  for it answers so.\<close>

definition denied :: "world \<Rightarrow> gaddr \<Rightarrow> sc_wait_type \<Rightarrow> bool" where
  "denied w g ty \<longleftrightarrow> wd_event_lock w = 0 \<and>
     (\<exists>p \<in> set (ga_waits g ty). \<exists>x. wd_waits w p = Some x \<and> wt_answer x)"

lemma activate_pre_list_denies:
  assumes "\<And>p. p \<in> set ps \<Longrightarrow> wd_waits w p \<noteq> None"
    and "\<And>w'. logged w w' \<Longrightarrow> P (\<exists>p \<in> set ps. \<exists>x. wd_waits w p = Some x \<and> wt_answer x, w')"
  shows "yields (activate_pre_list ty prm ps w) P"
  using assms
proof (induction ps arbitrary: w)
  case (Cons p ps)
  obtain x where x: "wd_waits w p = Some x" using Cons.prems(1) by fastforce
  let ?w = "log (Wait_activated p ty prm) w"
  have l: "logged w ?w" by simp
  have ww: "wd_waits ?w = wd_waits w" by (simp add: log_def)
  show ?case
  proof (cases "wt_answer x")
    case True
    then show ?thesis using x Cons.prems(2) [OF l] by (simp add: Let_def)
  next
    case False
    have "yields (activate_pre_list ty prm ps ?w) P"
    proof (rule Cons.IH)
      show "wd_waits ?w q \<noteq> None" if "q \<in> set ps" for q using Cons.prems(1) [of q] that ww by simp
      show "P (\<exists>q \<in> set ps. \<exists>x. wd_waits ?w q = Some x \<and> wt_answer x, w')" if "logged ?w w'" for w'
        using Cons.prems(2) [OF logged_trans [OF l that]] x False ww by simp
    qed
    then show ?thesis using x False by (simp add: Let_def)
  qed
qed simp

lemma addr_activate_denies:
  assumes "wd_inv w" "wd_addrs w a = Some g" "wait_is_pre ty"
    and "\<And>w'. logged w w' \<Longrightarrow> P (denied w g ty, w')"
  shows "yields (addr_activate a ty prm w) P"
proof (cases "wd_event_lock w = 0")
  case True
  have "wd_waits w p \<noteq> None" if "p \<in> set (ga_waits g ty)" for p
    using gaddr_okD(7) [OF wd_invD(2) [OF assms(1,2)] that] by (auto simp: wait_ok_def)
  then have "yields (activate_pre_list ty prm (ga_waits g ty) w) P"
    using assms(4) True by (intro activate_pre_list_denies) (auto simp: denied_def)
  then show ?thesis using assms(2,3) True by (simp add: addr_activate_def)
next
  case False
  then show ?thesis using assms(2,3) assms(4) [of w] by (simp add: addr_activate_def denied_def)
qed

lemma light_denied: "light w w' \<Longrightarrow> denied w' g ty = denied w g ty"
  by (simp add: denied_def light_def same_env_def)

definition change_result :: "world \<Rightarrow> gaddr \<Rightarrow> sc_type \<Rightarrow> sc_retval \<Rightarrow> world \<Rightarrow> bool" where
  "change_result w g new rv w' \<longleftrightarrow>
     (if verify_type new = 0 then rv = RV_ERR_GEN \<and> light w w'
      else if type_of w (ga_impl g) = verify_type new then rv = RV_OK \<and> light w w'
      else if \<not> type_change_ok w g (verify_type new) then rv = RV_ERR_GEN \<and> light w w'
      else if denied w g SC_WAIT_CHANGE_TYPE_PRE then rv = RV_ELSE_GEN \<and> light w w'
      else rv = RV_OK \<and> type_of w' (ga_impl g) = verify_type new)"

lemma sess_some: "wd_sessions w ss \<noteq> None \<Longrightarrow> light w w' \<Longrightarrow> wd_sessions w' ss \<noteq> None"
  by (rule light_keep(3))

lemma sg_change_type_wp:
  assumes "cells w l = Some (a, False)"
    and "\<And>w'. typed l w w' \<Longrightarrow> type_of w' l = t \<Longrightarrow> wd_sessions w' = wd_sessions w \<Longrightarrow> P (RV_OK, w')"
  shows "yields (sg_change_type l t w) P"
proof -
  obtain e where e: "st_els w l = Some e" "\<not> el_is_link e" using assms(1) by (auto simp: cells_def)
  let ?w = "w\<lparr>st_els := (st_els w)(l \<mapsto> e\<lparr>el_type := t\<rparr>)\<rparr>"
  have "same_env w ?w" by (rule more_env) simp
  then have "typed l w ?w" using e by (auto simp: typed_def)
  then show ?thesis using e assms(2) [of ?w] by (simp add: sg_change_type_def upd_el_def type_of_def)
qed

lemma change_type_commit_wp:
  assumes "wd_inv w" "accessible ss w a" "wd_addrs w a = Some g" "\<not> ga_zombie g"
    and "\<And>w'. typed (ga_impl g) w w' \<Longrightarrow> type_of w' (ga_impl g) = t \<Longrightarrow>
      get_error ss w' = Some RV_OK \<Longrightarrow> P (RV_OK, w')"
  shows "yields (do { (rv, w) \<leftarrow> sg_change_type (ga_impl g) t w; w \<leftarrow> set_error ss rv w;
      (_, w) \<leftarrow> addr_activate a SC_WAIT_CHANGE_TYPE [a] w; e \<leftarrow> get_error ss w; Some (e, w) }) P"
  unfolding yields_bind yields_case
proof (rule sg_change_type_wp [OF live_impl [OF assms(1,3,4)]], unfold prod.case, rule set_error_wp)
  fix w1 assume w1: "typed (ga_impl g) w w1" "type_of w1 (ga_impl g) = t" "wd_sessions w1 = wd_sessions w"
  show s1: "wd_sessions w1 ss \<noteq> None" using assms(2) w1(3) by (auto simp: accessible_def)
  have inv1: "wd_inv w1" by (rule calm_wd_inv [OF typed_calm [OF w1(1)] assms(1)])
  have a1: "wd_addrs w1 a \<noteq> None"
    using kept_addr [OF calm_kept [OF typed_calm [OF w1(1)]] assms(3)] by auto
  fix w2 assume l2: "light w1 w2" and e2: "get_error ss w2 = Some RV_OK"
  obtain g2 where g2: "wd_addrs w2 a = Some g2" using light_keep(4) [OF l2 a1] by auto
  show "yields (addr_activate a SC_WAIT_CHANGE_TYPE [a] w2)
      (\<lambda>(_, w). yields (get_error ss w) (\<lambda>e. yields (Some (e, w)) P))"
  proof (rule addr_activate_wp)
    show "wd_inv w2" "wd_addrs w2 a \<noteq> None" "wait_is_pre SC_WAIT_CHANGE_TYPE \<or> wd_addrs w2 (last [a]) \<noteq> None"
      using light_keep(1) [OF l2 inv1] g2 by simp_all
  next
    fix b w3 assume "logged w2 w3"
    then have l3: "light w2 w3" and "get_error ss w3 = Some RV_OK"
      using logged_light logged_same e2 by (auto simp: get_error_def)
    then show "case (b, w3) of (_, w) \<Rightarrow> yields (get_error ss w) (\<lambda>e. yields (Some (e, w)) P)"
      using assms(5) [OF typed_light [OF w1(1) light_trans [OF l2 l3]]] w1(2)
        light_views(4) [OF light_trans [OF l2 l3]] by simp
  qed simp
qed

lemma light_same_addr: "light w w' \<Longrightarrow> wd_addrs w' = wd_addrs w"
  by (simp add: light_def)

lemma has_stream_eq: "has_stream s w = streams w s"
  by (simp add: has_stream_def streams_def)

lemma commit_type_wp:
  assumes "wd_inv w" "accessible ss w a" "wd_addrs w a = Some g" "\<not> ga_zombie g"
    "streams w (ga_seg g) = Some False"
    and "\<And>rv w'. typed (ga_impl g) w w' \<Longrightarrow> get_error ss w' = Some rv \<Longrightarrow>
      (if denied w g SC_WAIT_CHANGE_TYPE_PRE then rv = RV_ELSE_GEN \<and> light w w'
       else rv = RV_OK \<and> type_of w' (ga_impl g) = t) \<Longrightarrow> P (rv, w')"
  shows "yields (commit_type ss a t w) P"
  unfolding commit_type_def yields_bind yields_case
proof (rule addr_activate_denies [OF assms(1,3)])
  let ?b = "denied w g SC_WAIT_CHANGE_TYPE_PRE"
  fix w1 assume "logged w w1"
  then have l1: "light w w1" by (rule logged_light)
  note k = light_keep [OF l1] and v = light_views [OF l1]
  have s1: "wd_sessions w1 ss \<noteq> None" using k(3) assms(2) by (simp add: accessible_def)
  have g1: "wd_addrs w1 a = Some g" using light_same_addr [OF l1] assms(3) by simp
  have str: "has_stream (ga_seg g) w1 = Some False" using assms(5) v(6) by (simp add: has_stream_eq)
  have "?b \<Longrightarrow> yields (return_error ss RV_ELSE_GEN w1) P"
    using s1 assms(6) light_typed light_trans [OF l1] by (intro return_error_wp) auto
  moreover have "\<not> ?b \<Longrightarrow> yields (do { (rv, w) \<leftarrow> sg_change_type (ga_impl g) t w1; w \<leftarrow> set_error ss rv w;
      (_, w) \<leftarrow> addr_activate a SC_WAIT_CHANGE_TYPE [a] w; e \<leftarrow> get_error ss w; Some (e, w) }) P"
    using assms(6) light_typed_trans [OF l1]
    by (intro change_type_commit_wp [OF k(1) [OF assms(1)] k(2) [OF assms(2)] g1 assms(4)]) simp
  ultimately show "case (?b, w1) of (b, w1) \<Rightarrow> yields (if b then return_error ss RV_ELSE_GEN w1 else do {
          g \<leftarrow> wd_addrs w1 a;
          s \<leftarrow> has_stream (ga_seg g) w1;
          w \<leftarrow> (if s then
                 do {
                   (idtf, w) \<leftarrow> sg_get_idtf (ga_seg g) (ga_impl g) w1;
                   t' \<leftarrow> sg_get_type (ga_impl g) w;
                   put_ev (ga_seg g) (put_changetype idtf t' t) w
                 }
               else Some w1);
          (rv, w) \<leftarrow> sg_change_type (ga_impl g) t w;
          w \<leftarrow> set_error ss rv w;
          (_, w) \<leftarrow> addr_activate a SC_WAIT_CHANGE_TYPE [a] w;
          e \<leftarrow> get_error ss w;
          Some (e, w) }) P"
    using g1 str by (simp del: yields_bind)
qed simp

lemma change_type_wp:
  assumes inv: "wd_inv w" and acc: "accessible ss w a" and g: "wd_addrs w a = Some g" "\<not> ga_zombie g"
    and str: "streams w (ga_seg g) = Some False"
    and P: "\<And>rv w'. typed (ga_impl g) w w' \<Longrightarrow> get_error ss w' = Some rv \<Longrightarrow>
      change_result w g new rv w' \<Longrightarrow> P (rv, w')"
  shows "yields (change_type ss a new w) P"
  unfolding change_type_def yields_bind yields_case
proof (rule access_ok_wp [OF inv acc])
  fix w1 assume l1: "light w w1"
  note k = light_keep [OF l1] and v = light_views [OF l1]
  have inv1: "wd_inv w1" and g1: "wd_addrs w1 a = Some g" and acc1: "accessible ss w1 a"
    using k(1) [OF inv] k(2) [OF acc] light_same_addr [OF l1] g(1) by simp_all
  have ty: "sg_get_type (ga_impl g) w1 = Some (type_of w (ga_impl g))"
    using sg_get_type_eq [OF live_impl [OF inv1 g1 g(2)]] v(4) by simp
  have ok: "verify_type_changing a t w1 = Some (type_change_ok w g t)" for t
    using verify_type_changing_eq [OF inv1 g1 g(2)] v(1,4) by (simp add: type_change_ok_def)
  have ret: "change_result w g new rv w1 \<Longrightarrow> rv = RV_OK \<or> rv = RV_ERR_GEN \<Longrightarrow>
      type_of w (ga_impl g) = verify_type new \<or> rv = RV_ERR_GEN \<Longrightarrow> yields (return_error ss rv w1) P" for rv
    using P light_typed light_trans [OF l1] k(3) acc
    by (intro return_error_wp) (auto simp: accessible_def change_result_def split: if_splits)
  have com: "verify_type new \<noteq> 0 \<Longrightarrow> type_of w (ga_impl g) \<noteq> verify_type new \<Longrightarrow>
      type_change_ok w g (verify_type new) \<Longrightarrow> yields (commit_type ss a (verify_type new) w1) P"
    using str P light_typed_trans [OF l1] light_trans [OF l1]
    by (intro commit_type_wp [OF inv1 acc1 g1 g(2)]) (auto simp: v(6) change_result_def light_denied [OF l1])
  show "case (RV_OK, w1) of (e, w) \<Rightarrow> yields (if e \<noteq> RV_OK then Some (e, w)
        else let new_type = verify_type new in
          if new_type = 0 then return_error ss RV_ERR_GEN w
          else do {
            g \<leftarrow> wd_addrs w a;
            cur_type \<leftarrow> sg_get_type (ga_impl g) w;
            (if cur_type = new_type then return_error ss RV_OK w
             else do {
               ok \<leftarrow> verify_type_changing a new_type w;
               if ok then commit_type ss a new_type w else return_error ss RV_ERR_GEN w
             }) }) P"
    using g1 ty ok ret com l1 by (simp add: Let_def change_result_def)
qed

section \<open>Links\<close>

declare set_insert_link [simp]

lemma store_adj_create_link:
  assumes "store_adj w" "st_segs w s = Some g"
  shows "\<exists>w'. sg_create_link s uri w = Some (st_fresh w, w') \<and> store_adj w' \<and> (\<forall>sd. vT sd w' = vT sd w) \<and>
    st_els w' = (st_els w)(st_fresh w \<mapsto> (new_element SC_EMPTY TMP_LINK)\<lparr>el_idtf := uri\<rparr>) \<and>
    st_fresh w' = st_fresh w + 1 \<and> seg_core w' = seg_core w \<and> streams w' = streams w \<and>
    store.more w' = store.more w"
proof -
  let ?e = "new_element SC_EMPTY TMP_LINK" and ?n = "st_fresh w"
  let ?w0 = "with_new ?e w"
  note n = store_adj_new_element [OF assms(1), where t = SC_EMPTY and fl = TMP_LINK]
  obtain w1 where w1: "upd_seg s (\<lambda>g. g\<lparr>sg_list := ?n # sg_list g\<rparr>) ?w0 = Some w1"
    using assms(2) by (simp add: upd_seg_def with_new_def)
  have els1: "st_els w1 ?n = Some ?e"
    using w1 assms(2) by (auto simp: upd_seg_def with_new_def bind_Some_iff)
  obtain w2 where w2: "upd_el ?n (\<lambda>x. x\<lparr>el_idtf := uri\<rparr>) w1 = Some w2"
    using els1 by (simp add: upd_el_def)
  note eq = adj_eq_trans [OF adj_eq_upd_seg [OF w1] adj_eq_upd_el [OF w2 core_only_intros(4)]]
  have "sg_create_link s uri w = Some (?n, w2)"
    using w1 w2 by (simp add: sg_create_link_def with_new_def Let_def)
  moreover have "store_adj w2" by (rule adj_eq_store_adj [OF eq n(1)])
  moreover have "vT sd w2 = vT sd w" for sd using eq n(3) [of sd] by (simp add: adj_eq_def)
  moreover have "st_els w2 = (st_els w)(?n \<mapsto> ?e\<lparr>el_idtf := uri\<rparr>)" "st_fresh w2 = ?n + 1"
    "seg_core w2 = seg_core w" "streams w2 = streams w" "store.more w2 = store.more w"
    using w1 w2 assms(2)
    by (auto simp: upd_seg_def upd_el_def bind_Some_iff with_new_def seg_core_def streams_def fun_eq_iff)
  ultimately show ?thesis by blast
qed

text \<open>A world in which no handler can deny anything.\<close>

definition unwatched :: "world \<Rightarrow> bool" where
  "unwatched w \<longleftrightarrow> wd_event_lock w \<noteq> 0 \<or>
     (\<forall>a g t. wd_addrs w a = Some g \<longrightarrow> wait_is_pre t \<longrightarrow> ga_waits g t = [])"

text \<open>\<open>grown\<close>: addresses may get links, segments may get elements.\<close>

definition addr_frame :: "world \<Rightarrow> nat \<Rightarrow> gaddr option" where
  "addr_frame w a = map_option (\<lambda>g. g\<lparr>ga_links := [], ga_links_qnt := 0, ga_in_qnt := 0, ga_out_qnt := 0\<rparr>)
     (wd_addrs w a)"

definition grown :: "world \<Rightarrow> world \<Rightarrow> bool" where
  "grown w w' \<longleftrightarrow> (\<forall>a g. addr_frame w a = Some g \<longrightarrow> addr_frame w' a = Some g) \<and> sess_core w' = sess_core w \<and> seg_core w' = seg_core w \<and>
     streams w' = streams w \<and> wd_waits w' = wd_waits w \<and> st_fresh w \<le> st_fresh w' \<and>
     (unwatched w \<longrightarrow> unwatched w') \<and> (\<forall>l c. cells w l = Some c \<longrightarrow> cells w' l = Some c)"

lemma grown_trans: "grown a b \<Longrightarrow> grown b c \<Longrightarrow> grown a c"
  by (auto simp: grown_def)

lemma core_frame: "addr_core w' = addr_core w \<Longrightarrow> addr_frame w' = addr_frame w"
proof
  fix a assume "addr_core w' = addr_core w"
  then have "addr_core w' a = addr_core w a" by simp
  moreover have "addr_frame v a = map_option (\<lambda>g. g\<lparr>ga_links := [], ga_links_qnt := 0\<rparr>) (addr_core v a)" for v
    by (cases "wd_addrs v a") (simp_all add: addr_frame_def addr_core_def)
  ultimately show "addr_frame w' a = addr_frame w a" by simp
qed

lemma kept_unwatched:
  assumes "kept w w'" "unwatched w"
  shows "unwatched w'"
proof -
  have c: "addr_core w' = addr_core w" "wd_event_lock w' = wd_event_lock w"
    using assms(1) by (simp_all add: kept_def same_env_def)
  have "ga_waits g' t = []" if g': "wd_addrs w' a = Some g'" and t: "wait_is_pre t" and l: "wd_event_lock w = 0" for a g' t
  proof -
    obtain g where g: "wd_addrs w a = Some g" using addr_core_eqD [OF c(1) g'] by blast
    then show ?thesis using assms(2) t l addr_core_fields(10) [OF c(1) g' g] by (simp add: unwatched_def)
  qed
  then show ?thesis using c(2) by (auto simp: unwatched_def)
qed

lemma kept_grown: "kept w w' \<Longrightarrow> grown w w'"
  using kept_unwatched [of w w'] by (auto simp: kept_def grown_def same_env_def dest: core_frame)

lemma frame_fields:
  assumes "grown w w'" "wd_addrs w a = Some g"
  shows "\<exists>g'. wd_addrs w' a = Some g' \<and> ga_seg g' = ga_seg g \<and> ga_impl g' = ga_impl g \<and>
    ga_locked g' = ga_locked g \<and> ga_dead g' = ga_dead g \<and> ga_zombie g' = ga_zombie g \<and> ga_waits g' = ga_waits g"
proof -
  have "addr_frame w a = Some (g\<lparr>ga_links := [], ga_links_qnt := 0, ga_in_qnt := 0, ga_out_qnt := 0\<rparr>)"
    using assms(2) by (simp add: addr_frame_def)
  then have "addr_frame w' a = Some (g\<lparr>ga_links := [], ga_links_qnt := 0, ga_in_qnt := 0, ga_out_qnt := 0\<rparr>)"
    using assms(1) unfolding grown_def by blast
  then obtain g' where g': "wd_addrs w' a = Some g'" and
    eq: "g'\<lparr>ga_links := [], ga_links_qnt := 0, ga_in_qnt := 0, ga_out_qnt := 0\<rparr> =
      g\<lparr>ga_links := [], ga_links_qnt := 0, ga_in_qnt := 0, ga_out_qnt := 0\<rparr>"
    using assms(2) by (cases "wd_addrs w' a") (auto simp: addr_frame_def)
  then show ?thesis by (cases g, cases g') auto
qed

lemma grown_accessible:
  assumes "grown w w'" "accessible ss w a"
  shows "accessible ss w' a"
proof -
  have c: "seg_core w' = seg_core w" "sess_core w' = sess_core w"
    using assms(1) by (simp_all add: grown_def)
  obtain g where g: "wd_addrs w a = Some g" "\<not> ga_dead g" "ga_seg g \<noteq> 0" "ga_impl g \<noteq> 0"
    "session_opened ss (ga_seg g) w = Some True" "a \<noteq> 0" "wd_sessions w ss \<noteq> None"
    using assms(2) by (auto simp: accessible_def)
  from frame_fields [OF assms(1) g(1)] show ?thesis
    using g session_opened_cong [OF c(2,1)] sess_core_dom [OF c(2)] by (auto simp: accessible_def)
qed

lemma link_added_inv:
  assumes inv: "wd_inv w" and adj: "store_adj w'" and g: "wd_addrs w a = Some g"
    and addrs: "wd_addrs w' = (wd_addrs w)(a \<mapsto> g')"
    and g': "ga_links g' = insert_link (s, ll) (ga_links g)" "ga_seg g' = ga_seg g" "ga_impl g' = ga_impl g"
      "ga_zombie g' = ga_zombie g" "ga_waits g' = ga_waits g"
    and new: "find_link s (ga_links g) = None" "ga_seg g \<noteq> s" "cells w ll = None"
    and frame: "grown w w'" "cells w' = (cells w)(ll \<mapsto> (a, True))"
  shows "wd_inv w'"
  unfolding wd_inv_def
proof (intro conjI allI impI)
  have c: "seg_core w' = seg_core w" "sess_core w' = sess_core w" "wd_waits w' = wd_waits w"
    "st_fresh w \<le> st_fresh w'" using frame(1) by (simp_all add: grown_def)
  have wok: "wait_ok w' p = wait_ok w p" for p
    using sess_core_dom [OF c(2)] c(3) by (simp add: wait_ok_def)
  have cell: "cells w' l = Some x" if "cells w l = Some x" for l x
    using that frame(2) new(3) by auto
  have lift: "gaddr_ok w' b k'" if "gaddr_ok w b k" "ga_links k' = ga_links k" "ga_seg k' = ga_seg k"
    "ga_impl k' = ga_impl k" "ga_zombie k' = ga_zombie k" "ga_waits k' = ga_waits k" for b k k'
    using that cell wok seg_core_fields(5) [OF c(1)] c(4) by (auto simp: gaddr_ok_def)
  show "store_adj w'" by fact
  show "gaddr_ok w' b k" if k: "wd_addrs w' b = Some k" for b k
  proof (cases "b = a")
    case False
    then have "gaddr_ok w b k" using k addrs wd_invD(2) [OF inv, of b] by simp
    then show ?thesis by (rule lift) simp_all
  next
    case True
    then have k': "k = g'" using k addrs by simp
    have ok: "gaddr_ok w a g" by (rule wd_invD(2) [OF inv g])
    have "gaddr_ok w' a (g'\<lparr>ga_links := ga_links g\<rparr>)" by (rule lift [OF ok]) (simp_all add: g')
    moreover have "links_sorted (insert_link (s, ll) (ga_links g))"
      using insert_link_sorted [OF gaddr_okD(3) [OF ok], of "(s, ll)"] new(1) by simp
    ultimately show ?thesis
      unfolding True k' gaddr_ok_def using g'(1,2) new(2) frame(2) by simp
  qed
  show "wd_addrs w' b \<noteq> None" if "cells w' l = Some (b, k)" "b \<noteq> 0" for l b k
    using that wd_invD(3) [OF inv, of l b k] addrs frame(2) by (auto split: if_splits)
  show "sg_index k < SC_MAX_SEGMENTS" if "st_segs w' t = Some k" for t k
  proof -
    have "map_option sg_index (st_segs w t) = Some (sg_index k)"
      using seg_core_fields(1) [OF c(1), of t] that by simp
    then obtain k0 where "st_segs w t = Some k0" "sg_index k0 = sg_index k" by auto
    then show ?thesis using wd_invD(4) [OF inv, of t k0] by simp
  qed
qed

text \<open>The identifier of an element can be read: it has one, or the one generated for it is free.\<close>

definition idtf_ready :: "world \<Rightarrow> nat \<Rightarrow> nat \<Rightarrow> bool" where
  "idtf_ready w s l \<longleftrightarrow> (\<exists>e g. st_els w l = Some e \<and> st_segs w s = Some g \<and> \<not> el_is_link e \<and>
     (el_has_idtf e \<or> map_of (sg_idtf_map g) (''@@'' @ sg_prefix g @ ''@'' @ hex_nat (unat (st_idtf_counter w))) = None))"

lemma get_idtf_wp:
  assumes "idtf_ready w s l"
    and "\<And>str w'. calm w w' \<Longrightarrow> (\<And>k. type_of w' k = type_of w k) \<Longrightarrow> wd_addrs w' = wd_addrs w \<Longrightarrow> P (str, w')"
  shows "yields (sg_get_idtf s l w) P"
proof -
  obtain e g where eg: "st_els w l = Some e" "st_segs w s = Some g" "\<not> el_is_link e"
    "el_has_idtf e \<or> map_of (sg_idtf_map g) (''@@'' @ sg_prefix g @ ''@'' @ hex_nat (unat (st_idtf_counter w))) = None"
    using assms(1) by (auto simp: idtf_ready_def)
  show ?thesis
  proof (cases "el_has_idtf e")
    case True
    then show ?thesis using eg assms(2) by (simp add: sg_get_idtf_def)
  next
    case False
    let ?n = "''@@'' @ sg_prefix g @ ''@'' @ hex_nat (unat (st_idtf_counter w))"
    let ?g = "g\<lparr>sg_idtf_map := AList.update ?n l (sg_idtf_map g)\<rparr>"
    define w0 where "w0 = w\<lparr>st_idtf_counter := st_idtf_counter w + 1\<rparr>"
    obtain w1 where w1: "upd_seg s (\<lambda>_. ?g) w0 = Some w1" using eg by (simp add: upd_seg_def w0_def)
    have e1: "st_els w1 l = Some e" using w1 eg by (auto simp: upd_seg_def bind_Some_iff w0_def)
    obtain w2 where w2: "upd_el l (el_set_idtf ?n) w1 = Some w2" using e1 by (simp add: upd_el_def)
    have gen: "generate_idtf s l w = Some w2"
      using eg False w1 w2 by (simp add: generate_idtf_def register_idtf_def w0_def Let_def)
    have "calm w0 w1" by (rule calm_upd_seg [OF w1]) (use eg in \<open>simp add: w0_def\<close>)
    then have "calm w w2"
      using calm_trans calm_upd_el [OF w2] calm_with_counter unfolding w0_def by blast
    moreover have "type_of w2 k = type_of w k" for k
      using w1 w2 by (auto simp: upd_seg_def upd_el_def bind_Some_iff type_of_def w0_def
          el_set_idtf_def el_unset_flags_def)
    moreover have "wd_addrs w2 = wd_addrs w"
      using w1 w2 by (auto simp: upd_seg_def upd_el_def bind_Some_iff w0_def)
    moreover obtain e2 where "st_els w2 l = Some e2" using w2 by (auto simp: upd_el_def bind_Some_iff)
    ultimately show ?thesis using eg False gen assms(2) by (simp add: sg_get_idtf_def)
  qed
qed

lemma cell_pos: "wd_inv w \<Longrightarrow> cells w l = Some c \<Longrightarrow> l \<noteq> 0"
  using adj_invD(8) [OF adj_okD [OF wd_invD(1), of w Beg]] by (cases "l = 0") (auto simp: vD_def cells_def)

lemma cells_fresh: "store_adj w \<Longrightarrow> cells w (st_fresh w) = None"
  using store_adjD(3) by (auto simp: fresh_ok_def cells_def)

definition link_post :: "world \<Rightarrow> nat \<Rightarrow> nat \<Rightarrow> world \<Rightarrow> bool" where
  "link_post w a ll w' \<longleftrightarrow> wd_inv w' \<and> grown w w' \<and> (\<exists>k. cells w' ll = Some (a, k)) \<and>
     (\<forall>sd. vT sd w' = vT sd w) \<and> (\<forall>l. cells w l \<noteq> None \<longrightarrow> type_of w' l = type_of w l)"

lemma new_link_wp:
  assumes inv: "wd_inv w" and g: "wd_addrs w a = Some g" and seg: "ga_seg g \<noteq> seg" "st_segs w seg \<noteq> None"
    and none: "find_link seg (ga_links g) = None"
    and P: "\<And>ll w'. ll \<noteq> 0 \<Longrightarrow> link_post w a ll w' \<Longrightarrow> P (ll, w')"
  shows "yields (do { (ll, w) \<leftarrow> sg_create_link seg uri w;
      (if ll = 0 then Some (0, w)
       else do { w \<leftarrow> add_link a seg ll w; w \<leftarrow> sg_set_element_addr ll a w; Some (ll, w) }) }) P"
proof -
  let ?n = "st_fresh w" and ?e = "(new_element SC_EMPTY TMP_LINK)\<lparr>el_idtf := uri\<rparr>"
  obtain s where s: "st_segs w seg = Some s" using seg(2) by blast
  from store_adj_create_link [OF wd_invD(1) [OF inv] s, of uri] obtain w1 where
    w1: "sg_create_link seg uri w = Some (?n, w1)" "store_adj w1" "\<And>sd. vT sd w1 = vT sd w"
      "st_els w1 = (st_els w)(?n \<mapsto> ?e)" "st_fresh w1 = ?n + 1" "seg_core w1 = seg_core w"
      "streams w1 = streams w" "store.more w1 = store.more w" by blast
  have env1: "same_env w w1" by (rule more_env [OF w1(8)])
  have addrs1: "wd_addrs w1 = wd_addrs w" using w1(8) by (cases w, cases w1) simp
  have n0: "?n \<noteq> 0" using store_adjD(3) [OF wd_invD(1) [OF inv]] by (simp add: fresh_ok_def)
  let ?g' = "g\<lparr>ga_links := insert_link (seg, ?n) (ga_links g), ga_links_qnt := ga_links_qnt g + 1\<rparr>"
  let ?w2 = "w1\<lparr>wd_addrs := (wd_addrs w)(a \<mapsto> ?g')\<rparr>"
  have e0: "sg_get_in_qnt ?n w1 = Some 0" "sg_get_out_qnt ?n w1 = Some 0"
    using w1(4) by (simp_all add: sg_get_in_qnt_def sg_get_out_qnt_def new_element_def)
  have w2: "add_link a seg ?n w1 = Some ?w2"
    using g e0 by (simp add: add_link_def upd_addr_def addrs1)
  let ?w3 = "?w2\<lparr>st_els := (st_els w)(?n \<mapsto> ?e\<lparr>el_addr := a\<rparr>)\<rparr>"
  have w3: "sg_set_element_addr ?n a ?w2 = Some ?w3"
    using w1(4) by (simp add: sg_set_element_addr_def upd_el_def)
  have adj3: "store_adj ?w3"
  proof (rule adj_eq_store_adj [OF _ w1(2)])
    show "adj_eq w1 ?w3"
      using w1(4) by (auto simp: adj_eq_def view_defs adj_def fun_eq_iff split: side.splits)
  qed
  have new: "cells w ?n = None" by (rule cells_fresh [OF wd_invD(1) [OF inv]])
  have lnk: "el_is_link ?e" by (simp add: el_is_link_def new_element_def)
  have cells3: "cells ?w3 = (cells w)(?n \<mapsto> (a, True))"
    using lnk by (auto simp: cells_def fun_eq_iff)
  have grown3: "grown w ?w3"
    using env1 w1(5-7) cells3 new g addrs1
    by (auto simp: grown_def unwatched_def same_env_def addr_frame_def sess_core_def seg_core_def streams_def fun_eq_iff)
  have inv3: "wd_inv ?w3"
    by (rule link_added_inv [OF inv adj3 g, where g' = ?g' and ll = ?n and s = seg])
      (use none seg new grown3 cells3 in simp_all)
  have "vT sd ?w3 = vT sd w" for sd
    using w1(4) unfolding w1(3) [symmetric] by (cases sd) (auto simp: vT_def fun_eq_iff)
  moreover have "type_of ?w3 l = type_of w l" if "cells w l \<noteq> None" for l
    using that new by (auto simp: type_of_def)
  ultimately have "link_post w a ?n ?w3"
    using inv3 grown3 fun_cong [OF cells3, of ?n] unfolding link_post_def fun_upd_same by blast
  then show ?thesis using w1(1) w2 w3 n0 P [OF n0] by simp
qed

lemma link_post_calm:
  assumes "calm w w1" "\<And>k. type_of w1 k = type_of w k" "link_post w1 a ll w'"
  shows "link_post w a ll w'"
proof -
  have "vT sd w1 = vT sd w" for sd using assms(1) by (simp add: calm_def adj_eq_def)
  moreover have "cells w1 = cells w" using assms(1) by (simp add: calm_def)
  moreover have "grown w w'"
    using grown_trans [OF kept_grown [OF calm_kept [OF assms(1)]]] assms(3) by (simp add: link_post_def)
  ultimately show ?thesis using assms(2,3) by (simp add: link_post_def)
qed

definition linkable :: "world \<Rightarrow> nat \<Rightarrow> gaddr \<Rightarrow> bool" where
  "linkable w seg g \<longleftrightarrow> ga_seg g = seg \<or> find_link seg (ga_links g) \<noteq> None \<or>
     idtf_ready w (ga_seg g) (ga_impl g)"

lemma ensure_link_to_wp:
  assumes inv: "wd_inv w" and g: "wd_addrs w a = Some g" "\<not> ga_zombie g" and seg: "st_segs w seg \<noteq> None"
    and lnk: "linkable w seg g"
    and P: "\<And>ll w'. ll \<noteq> 0 \<Longrightarrow> link_post w a ll w' \<Longrightarrow> P (ll, w')"
  shows "yields (ensure_link_to seg a w) P"
proof -
  have post: "link_post w a ll w" if "cells w ll = Some (a, k)" for ll k
    using that inv kept_grown [OF kept_refl] by (auto simp: link_post_def)
  note ok = wd_invD(2) [OF inv g(1)]
  consider "ga_seg g = seg" | ll where "ga_seg g \<noteq> seg" "find_link seg (ga_links g) = Some ll"
    | "ga_seg g \<noteq> seg" "find_link seg (ga_links g) = None" "idtf_ready w (ga_seg g) (ga_impl g)"
    using lnk by (auto simp: linkable_def)
  then show ?thesis
  proof cases
    case 1
    note c = live_impl [OF inv g]
    show ?thesis using 1 g P [OF cell_pos [OF inv c] post [OF c]] by (simp add: ensure_link_to_def)
  next
    case 2
    then have "(seg, ll) \<in> set (ga_links g)"
      using find_link_map [OF gaddr_okD(3) [OF ok]] by (simp add: map_of_SomeD)
    then have c: "cells w ll = Some (a, True)" using gaddr_okD(5) [OF ok] by fastforce
    show ?thesis using 2 g P [OF cell_pos [OF inv c] post [OF c]] by (simp add: ensure_link_to_def)
  next
    case 3
    have "yields (do { (str, w) \<leftarrow> sg_get_idtf (ga_seg g) (ga_impl g) w; uri \<leftarrow> get_full_uri (ga_seg g) w;
        (ll, w) \<leftarrow> sg_create_link seg (uri @ ''/'' @ str) w;
        (if ll = 0 then Some (0, w)
         else do { w \<leftarrow> add_link a seg ll w; w \<leftarrow> sg_set_element_addr ll a w; Some (ll, w) }) }) P"
      unfolding yields_bind [of "sg_get_idtf _ _ _"] yields_case
    proof (rule get_idtf_wp [OF 3(3)], unfold prod.case)
      fix str w1 assume c1: "calm w w1" and t1: "\<And>k. type_of w1 k = type_of w k" and a1: "wd_addrs w1 = wd_addrs w"
      have "seg_core w1 = seg_core w" using c1 by (simp add: calm_def)
      then have segs: "st_segs w1 seg \<noteq> None" "st_segs w1 (ga_seg g) \<noteq> None"
        using seg_core_fields(5) [of w1 w] seg gaddr_okD(4) [OF ok] by simp_all
      then obtain uri where uri: "get_full_uri (ga_seg g) w1 = Some uri" by (auto simp: get_full_uri_def)
      have "wd_addrs w1 a = Some g" using a1 g(1) by simp
      from new_link_wp [OF calm_wd_inv [OF c1 inv] this 3(1) segs(1) 3(2), of P "uri @ ''/'' @ str"]
      show "yields (do { uri \<leftarrow> get_full_uri (ga_seg g) w1; (ll, w) \<leftarrow> sg_create_link seg (uri @ ''/'' @ str) w1;
        (if ll = 0 then Some (0, w)
         else do { w \<leftarrow> add_link a seg ll w; w \<leftarrow> sg_set_element_addr ll a w; Some (ll, w) }) }) P"
        using uri P link_post_calm [OF c1 t1] by simp
    qed
    then show ?thesis using 3 g by (simp add: ensure_link_to_def)
  qed
qed

section \<open>Setting ends\<close>

lemma more_set_at: "set_at sd a x st = Some (rv, st') \<Longrightarrow> store.more st' = store.more st"
  by (cases sd) (auto simp: set_at_def side_fields attach_defs detach_output_arc_def detach_input_arc_def
      link_die_def link_delete_def bind_Some_iff split: if_splits)

lemma more_world: "store.more w' = store.more w \<Longrightarrow> wd_addrs w' = wd_addrs w \<and> wd_sessions w' = wd_sessions w"
  by (cases w, cases w') simp

lemma set_at_wp:
  assumes inv: "wd_inv w" and l: "cells w l = Some c" and x: "x = 0 \<or> cells w x \<noteq> None"
    and P: "\<And>w'. wd_inv w' \<Longrightarrow> kept w w' \<Longrightarrow> vT sd w' = (vT sd w)(l := x) \<Longrightarrow>
      vT (other sd) w' = vT (other sd) w \<Longrightarrow> (\<And>k. type_of w' k = type_of w k) \<Longrightarrow>
      wd_addrs w' = wd_addrs w \<Longrightarrow> wd_sessions w' = wd_sessions w \<Longrightarrow> P (RV_OK, w')"
  shows "yields (set_at sd l x w) P"
proof -
  have d: "vD w l" "x = 0 \<or> vD w x" using l x by (auto simp: vD_def cells_def)
  from set_at_spec [OF wd_invD(1) [OF inv] d, of sd] obtain w' where
    w': "set_at sd l x w = Some (RV_OK, w')" "store_adj w'" "same_rest sd w w'"
      "vT sd w' = (vT sd w)(l := x)" "st_fresh w' \<ge> st_fresh w" by blast
  have vC: "vC w' = vC w" and segs: "st_segs w' = st_segs w" and o: "vT (other sd) w' = vT (other sd) w"
    using w'(3) by (simp_all add: same_rest_def)
  have c: "cells v k = map_option (\<lambda>(a, t, c, sg, n, fl). (a, fl AND TMP_LINK = TMP_LINK)) (vC v k)"
    and t: "type_of v k = (case vC v k of None \<Rightarrow> 0 | Some (a, t, _) \<Rightarrow> t)" for v :: world and k
    by (cases "st_els v k"; simp add: cells_def type_of_def vC_def el_core_def el_is_link_def)+
  have env: "same_env w w'" "wd_addrs w' = wd_addrs w" "wd_sessions w' = wd_sessions w"
    using more_env more_world more_set_at [OF w'(1)] by blast+
  have "kept w w'"
    using env(1) w'(5) c vC segs by (simp add: kept_def seg_core_def streams_def fun_eq_iff)
  moreover from kept_wd_inv [OF this inv w'(2)] have "wd_inv w'" .
  ultimately show ?thesis using w'(1) P [of w'] w'(4) o t vC env(2,3) by simp
qed

text \<open>The events of an end change nothing but the log and the counters.\<close>

definition counted :: "world \<Rightarrow> world \<Rightarrow> bool" where
  "counted w w' \<longleftrightarrow> same_env w w' \<and> same_store w w' \<and> wd_sessions w' = wd_sessions w"

lemma counted_refl [simp, intro]: "counted w w" by (simp add: counted_def same_store_def)

lemma counted_trans: "counted a b \<Longrightarrow> counted b c \<Longrightarrow> counted a c"
  by (auto simp: counted_def same_store_def intro: same_env_trans)

lemma logged_counted: "logged w w' \<Longrightarrow> counted w w'"
  by (auto simp: logged_def counted_def same_env_def same_store_def core_defs fun_eq_iff)

lemma counted_upd_addr:
  assumes "upd_addr a f w = Some w'"
    and "\<And>g. (f g)\<lparr>ga_in_qnt := 0, ga_out_qnt := 0\<rparr> = g\<lparr>ga_in_qnt := 0, ga_out_qnt := 0\<rparr>"
  shows "counted w w'"
  using assms by (auto simp: upd_addr_def bind_Some_iff counted_def same_env_def same_store_def core_defs fun_eq_iff)

lemma counted_calm: "counted w w' \<Longrightarrow> calm w w'"
  by (auto simp: counted_def same_store_def calm_def adj_eq_def view_defs core_defs fun_eq_iff)

lemma counted_views:
  assumes "counted w w'"
  shows "vT sd w' l = vT sd w l" "conn w' l = conn w l" "cells w' = cells w" "type_of w' l = type_of w l"
    "end_addr sd w' l = end_addr sd w l" "streams w' = streams w" "wd_sessions w' = wd_sessions w"
  using assms
  by (simp_all add: counted_def same_store_def view_defs conn_def cells_def type_of_def end_addr_def
      streams_def fun_eq_iff)

lemma counted_keep:
  assumes "counted w w'"
  shows "wd_inv w \<Longrightarrow> wd_inv w'" "wd_addrs w a \<noteq> None \<Longrightarrow> wd_addrs w' a \<noteq> None"
    "wd_addrs w a = Some g \<Longrightarrow> \<exists>g'. wd_addrs w' a = Some g' \<and> ga_impl g' = ga_impl g \<and> ga_seg g' = ga_seg g"
  using calm_wd_inv [OF counted_calm [OF assms]] addr_core_dom [of w' w] assms
    kept_addr [OF calm_kept [OF counted_calm [OF assms]], of a]
  by (auto simp: counted_def same_env_def)

text \<open>One event after another.\<close>

lemma event_wp:
  assumes "wd_inv w" "counted w w'" "wd_addrs w a \<noteq> None" "prm \<noteq> []" "wd_addrs w (last prm) \<noteq> None"
    and "\<And>b w'. counted w w' \<Longrightarrow> yields (f b w') P"
  shows "yields (addr_activate a ty prm w' \<bind> (\<lambda>(b, w). f b w)) P"
  unfolding yields_bind yields_case
proof (rule addr_activate_wp)
  show "wd_inv w'" "wd_addrs w' a \<noteq> None" "prm \<noteq> []" "wait_is_pre ty \<or> wd_addrs w' (last prm) \<noteq> None"
    using counted_keep [OF assms(2)] assms by blast+
  show "case (b, v) of (x, y) \<Rightarrow> yields (f x y) P" if "logged w' v" for b v
    using assms(6) [OF counted_trans [OF assms(2) logged_counted [OF that]]] by simp
qed

lemma qnt_wp:
  assumes "wd_addrs w a \<noteq> None" "counted w w'" "\<And>w'. counted w w' \<Longrightarrow> P w'"
    and "\<And>g. (f g)\<lparr>ga_in_qnt := 0, ga_out_qnt := 0\<rparr> = g\<lparr>ga_in_qnt := 0, ga_out_qnt := 0\<rparr>"
  shows "yields (upd_addr a f w') P"
proof -
  obtain g where g: "wd_addrs w' a = Some g" using counted_keep(2) [OF assms(2,1)] by blast
  then obtain w2 where "upd_addr a f w' = Some w2" by (simp add: upd_addr_def)
  moreover from counted_upd_addr [OF this assms(4)] assms(2) have "counted w w2" by (rule counted_trans [rotated])
  ultimately show ?thesis using assms(3) by simp
qed

lemma qnt_then_wp:
  assumes "wd_addrs w a \<noteq> None" "counted w w'" "\<And>w'. counted w w' \<Longrightarrow> yields (f w') P"
    and "\<And>g. (h g)\<lparr>ga_in_qnt := 0, ga_out_qnt := 0\<rparr> = g\<lparr>ga_in_qnt := 0, ga_out_qnt := 0\<rparr>"
  shows "yields (upd_addr a h w' \<bind> f) P"
  unfolding yields_bind by (rule qnt_wp [OF assms])

lemma beg_pair_events_wp:
  assumes inv: "wd_inv w" and c1: "counted w w1" and g: "wd_addrs w arc = Some g" and con: "conn w (ga_impl g)"
    and beg: "wd_addrs w beg \<noteq> None" and P: "\<And>w'. counted w w' \<Longrightarrow> P w'"
  shows "yields (beg_pair_events arc beg w1) P"
proof -
  obtain g1 where g1: "wd_addrs w1 arc = Some g1" "ga_impl g1 = ga_impl g"
    using counted_keep(3) [OF c1 g] by blast
  note v = counted_views [OF c1] and e = end_addr_eq [OF counted_keep(1) [OF c1 inv], of End "ga_impl g"]
  have c: "conn w1 (ga_impl g)" using con v(2) by blast
  have arc: "wd_addrs w arc \<noteq> None" using g by simp
  show ?thesis
    unfolding beg_pair_events_def g1 Option.bind.simps sg_get_ends_eq(2) [OF c] e(1) v(5)
    using P [OF c1] end_addr_eq(2) [OF inv, of End "ga_impl g"] P
    by (auto intro!: event_wp [OF inv c1 arc] event_wp [OF inv _ beg] event_wp [OF inv] simp: arc g)
qed

lemma set_beg_events_wp:
  assumes inv: "wd_inv w" and g: "wd_addrs w arc = Some g" and con: "conn w (ga_impl g)"
    and str: "streams w (ga_seg g) = Some False" and beg: "beg = 0 \<or> wd_addrs w beg \<noteq> None"
    and P: "\<And>w'. counted w w' \<Longrightarrow> P w'"
  shows "yields (set_beg_events arc beg ll w) P"
proof -
  have arc: "wd_addrs w arc \<noteq> None" using g by simp
  have n: "notify_setbeg (ga_seg g) (ga_impl g) ll w = Some w"
    using str by (simp add: notify_setbeg_def has_stream_eq)
  show ?thesis
    unfolding set_beg_events_def g Option.bind.simps n up_out_qnt_def
  proof (rule event_wp [OF inv counted_refl arc])
    show "yields (if beg = 0 then Some w1 else do {
        w \<leftarrow> upd_addr beg (\<lambda>g. g\<lparr>ga_out_qnt := ga_out_qnt g + 1\<rparr>) w1;
        (_, w) \<leftarrow> addr_activate beg SC_WAIT_ATTACH_OUTPUT [beg, arc] w;
        beg_pair_events arc beg w }) P" if c1: "counted w w1" for w1
    proof (cases "beg = 0")
      case False
      then have b: "wd_addrs w beg \<noteq> None" using beg by blast
      show ?thesis
        using False b arc P
        by (auto intro!: qnt_then_wp [OF b c1] event_wp [OF inv _ b] beg_pair_events_wp [OF inv _ g con])
    qed (use P [OF c1] in simp)
  qed (use arc in simp_all)
qed

lemma end_pair_events_wp:
  assumes inv: "wd_inv w" and c1: "counted w w1" and g: "wd_addrs w arc = Some g" and con: "conn w (ga_impl g)"
    and en: "wd_addrs w en \<noteq> None" and P: "\<And>w'. counted w w' \<Longrightarrow> P w'"
  shows "yields (end_pair_events arc en w1) P"
proof -
  obtain g1 where g1: "wd_addrs w1 arc = Some g1" "ga_impl g1 = ga_impl g"
    using counted_keep(3) [OF c1 g] by blast
  note v = counted_views [OF c1] and e = end_addr_eq [OF counted_keep(1) [OF c1 inv], of Beg "ga_impl g"]
  have c: "conn w1 (ga_impl g)" using con v(2) by blast
  have arc: "wd_addrs w arc \<noteq> None" using g by simp
  show ?thesis
    unfolding end_pair_events_def g1 Option.bind.simps sg_get_ends_eq(1) [OF c] e(1) v(5)
    using P [OF c1] end_addr_eq(2) [OF inv, of Beg "ga_impl g"] P en
    by (auto intro!: event_wp [OF inv c1 arc] event_wp [OF inv _ en] event_wp [OF inv] simp: arc g)
qed

text \<open>A wait without a session is activated without any look at the parameters.\<close>

definition free_waits :: "world \<Rightarrow> gaddr \<Rightarrow> sc_wait_type \<Rightarrow> bool" where
  "free_waits w g ty \<longleftrightarrow> wd_event_lock w \<noteq> 0 \<or>
     (\<forall>p \<in> set (ga_waits g ty). \<exists>x. wd_waits w p = Some x \<and> wt_session x = 0)"

lemma free_list_wp:
  assumes "\<And>p. p \<in> set ps \<Longrightarrow> \<exists>x. wd_waits w p = Some x \<and> wt_session x = 0"
    and "\<And>w'. logged w w' \<Longrightarrow> P (False, w')"
  shows "yields (activate_post_list ty prm ps w) P"
  using assms
proof (induction ps arbitrary: w)
  case (Cons p ps)
  obtain x where x: "wd_waits w p = Some x" "wt_session x = 0" using Cons.prems(1) by fastforce
  let ?w = "log (Wait_activated p ty prm) w"
  have l: "logged w ?w" by simp
  have "yields (activate_post_list ty prm ps ?w) P"
    using Cons.prems logged_trans [OF l] by (intro Cons.IH) (auto simp: log_def)
  then show ?case using x by simp
qed simp

lemma free_event_wp:
  assumes "wd_addrs w a = Some g" "free_waits w g ty" "\<not> wait_is_pre ty"
    and "\<And>b w'. counted w w' \<Longrightarrow> yields (f b w') P"
  shows "yields (addr_activate a ty prm w \<bind> (\<lambda>(b, w). f b w)) P"
proof -
  have fin: "case (False, v) of (x, y) \<Rightarrow> yields (f x y) P" if "logged w v" for v
    using assms(4) [OF logged_counted [OF that]] by simp
  show ?thesis
  proof (cases "wd_event_lock w = 0")
    case True
    then have w: "\<exists>x. wd_waits w p = Some x \<and> wt_session x = 0" if "p \<in> set (ga_waits g ty)" for p
      using assms(2) that by (auto simp: free_waits_def)
    have "yields (activate_post_list ty prm (ga_waits g ty) w) (\<lambda>(x, y). yields (f x y) P)"
      by (rule free_list_wp [OF w]) (use fin in auto)
    then show ?thesis using assms(1,3) True by (simp add: addr_activate_def yields_bind yields_case)
  next
    case False
    then show ?thesis using assms(1) fin [of w] by (simp add: addr_activate_def)
  qed
qed

lemma set_end_events_wp:
  assumes inv: "wd_inv w" and g: "wd_addrs w arc = Some g" and con: "conn w (ga_impl g)"
    and str: "streams w (ga_seg g) = Some False"
    and en: "if en = 0 then free_waits w g SC_WAIT_ARC_END else wd_addrs w en \<noteq> None"
    and P: "\<And>w'. counted w w' \<Longrightarrow> P w'"
  shows "yields (set_end_events arc en ll w) P"
proof -
  have arc: "wd_addrs w arc \<noteq> None" using g by simp
  have n: "notify_setend (ga_seg g) (ga_impl g) ll w = Some w"
    using str by (simp add: notify_setend_def has_stream_eq)
  show ?thesis
  proof (cases "en = 0")
    case True
    then show ?thesis
      unfolding set_end_events_def g Option.bind.simps n
      using en P by (intro free_event_wp [OF g]) (simp_all add: wait_is_pre_def)
  next
    case False
    then have b: "wd_addrs w en \<noteq> None" using en by simp
    show ?thesis
      unfolding set_end_events_def g Option.bind.simps n up_in_qnt_def
      using False b arc P
      by (intro event_wp [OF inv counted_refl arc])
        (auto intro!: qnt_then_wp [OF b] event_wp [OF inv _ b] end_pair_events_wp [OF inv _ g con])
  qed
qed

section \<open>\<open>set_beg\<close> and \<open>set_end\<close>\<close>

text \<open>What an arc looks like when its end is known: \<open>l\<close> is the arc, \<open>x\<close> the address of the end.\<close>

definition end_is :: "side \<Rightarrow> world \<Rightarrow> nat \<Rightarrow> nat \<Rightarrow> bool" where
  "end_is sd w l x \<longleftrightarrow> (if x = 0 then vT sd w l = 0
     else vT sd w l \<noteq> 0 \<and> (\<exists>k. cells w (vT sd w l) = Some (x, k)))"

lemma conn_type: "conn w l \<longleftrightarrow> type_of w l AND SC_CONNECTOR_MASK \<noteq> 0"
  by (cases "st_els w l") (simp_all add: conn_def type_of_def)

lemma detach_beg_wp:
  assumes inv: "wd_inv w" and g: "wd_addrs w arc = Some g" "\<not> ga_zombie g" and con: "conn w (ga_impl g)"
    and str: "streams w (ga_seg g) = Some False" and a: "a = 0 \<or> wd_addrs w a \<noteq> None"
    and P: "\<And>w'. wd_inv w' \<Longrightarrow> kept w w' \<Longrightarrow> vT Beg w' = (vT Beg w)(ga_impl g := 0) \<Longrightarrow>
      vT End w' = vT End w \<Longrightarrow> (\<And>k. type_of w' k = type_of w k) \<Longrightarrow> wd_sessions w' = wd_sessions w \<Longrightarrow> P w'"
  shows "yields (detach_beg arc a w) P"
  unfolding detach_beg_def g(1) Option.bind.simps sg_set_beg_at yields_bind [of "set_at _ _ _ _"] yields_case
proof (rule set_at_wp [OF inv live_impl [OF inv g]], simp, unfold prod.case)
  fix w1 assume w1: "wd_inv w1" "kept w w1" "vT Beg w1 = (vT Beg w)(ga_impl g := 0)"
    "vT (other Beg) w1 = vT (other Beg) w" "\<And>k. type_of w1 k = type_of w k" "wd_addrs w1 = wd_addrs w"
    and s1: "wd_sessions w1 = wd_sessions w"
  have con1: "conn w1 (ga_impl g)" using con w1(5) by (simp add: conn_type)
  have str1: "streams w1 (ga_seg g) = Some False" using w1(2) str by (simp add: kept_def)
  have fin: "yields (set_beg_events arc 0 0 w2) P" if c2: "counted w1 w2" for w2
  proof -
    obtain g2 where g2: "wd_addrs w2 arc = Some g2" "ga_impl g2 = ga_impl g" "ga_seg g2 = ga_seg g"
      using counted_keep(3) [OF c2, of arc g] w1(6) g(1) by auto
    note v = counted_views [OF c2]
    show ?thesis
    proof (rule set_beg_events_wp [OF counted_keep(1) [OF c2 w1(1)] g2(1)])
      show "conn w2 (ga_impl g2)" using con1 v(2) g2(2) by simp
      show "streams w2 (ga_seg g2) = Some False" using str1 v(6) g2(3) by simp
      fix w' assume c': "counted w2 w'"
      note c = counted_trans [OF c2 c'] and k = calm_kept [OF counted_calm [OF counted_trans [OF c2 c']]]
      show "P w'"
        using counted_views [OF c] w1 s1 kept_trans [OF w1(2) k]
        by (intro P counted_keep(1) [OF c w1(1)]) (auto simp: fun_eq_iff)
    qed simp
  qed
  show "yields (do { w \<leftarrow> (if a \<noteq> 0 then do { w \<leftarrow> down_out_qnt a w1;
        (_, w) \<leftarrow> addr_activate a SC_WAIT_DETACH_OUTPUT [arc, a] w; Some w } else Some w1);
      set_beg_events arc 0 0 w }) P"
    using a fin [OF counted_refl] fin w1(6) unfolding down_out_qnt_def
    by (auto intro!: qnt_then_wp [OF _ counted_refl] event_wp [OF w1(1)] simp: bind_case)
qed

lemma detach_end_wp:
  assumes inv: "wd_inv w" and g: "wd_addrs w arc = Some g" "\<not> ga_zombie g" and con: "conn w (ga_impl g)"
    and str: "streams w (ga_seg g) = Some False" and a: "a = 0 \<or> wd_addrs w a \<noteq> None"
    and free: "ga_waits g SC_WAIT_ARC_END = []"
    and P: "\<And>w'. wd_inv w' \<Longrightarrow> kept w w' \<Longrightarrow> vT End w' = (vT End w)(ga_impl g := 0) \<Longrightarrow>
      vT Beg w' = vT Beg w \<Longrightarrow> (\<And>k. type_of w' k = type_of w k) \<Longrightarrow> wd_sessions w' = wd_sessions w \<Longrightarrow> P w'"
  shows "yields (detach_end arc a w) P"
  unfolding detach_end_def g(1) Option.bind.simps sg_set_end_at yields_bind [of "set_at _ _ _ _"] yields_case
proof (rule set_at_wp [OF inv live_impl [OF inv g]], simp, unfold prod.case)
  fix w1 assume w1: "wd_inv w1" "kept w w1" "vT End w1 = (vT End w)(ga_impl g := 0)"
    "vT (other End) w1 = vT (other End) w" "\<And>k. type_of w1 k = type_of w k" "wd_addrs w1 = wd_addrs w"
    and s1: "wd_sessions w1 = wd_sessions w"
  have con1: "conn w1 (ga_impl g)" using con w1(5) by (simp add: conn_type)
  have str1: "streams w1 (ga_seg g) = Some False" using w1(2) str by (simp add: kept_def)
  have fin: "yields (set_end_events arc 0 0 w2) P" if c2: "counted w1 w2" for w2
  proof -
    obtain g2 where g2: "wd_addrs w2 arc = Some g2" "ga_impl g2 = ga_impl g" "ga_seg g2 = ga_seg g" "ga_waits g2 = ga_waits g"
      using kept_addr [OF calm_kept [OF counted_calm [OF c2]], of arc g] w1(6) g(1) by auto
    note v = counted_views [OF c2]
    show ?thesis
    proof (rule set_end_events_wp [OF counted_keep(1) [OF c2 w1(1)] g2(1)])
      show "conn w2 (ga_impl g2)" using con1 v(2) g2(2) by simp
      show "streams w2 (ga_seg g2) = Some False" using str1 v(6) g2(3) by simp
      fix w' assume c': "counted w2 w'"
      note c = counted_trans [OF c2 c'] and k = calm_kept [OF counted_calm [OF counted_trans [OF c2 c']]]
      show "P w'"
        using counted_views [OF c] w1 s1 kept_trans [OF w1(2) k]
        by (intro P counted_keep(1) [OF c w1(1)]) (auto simp: fun_eq_iff)
    qed (simp add: free_waits_def g2(4) free)
  qed
  show "yields (do { w \<leftarrow> (if a \<noteq> 0 then do { w \<leftarrow> down_in_qnt a w1;
        (_, w) \<leftarrow> addr_activate a SC_WAIT_DETACH_INPUT [arc, a] w; Some w } else Some w1);
      set_end_events arc 0 0 w }) P"
    using a fin [OF counted_refl] fin w1(6) unfolding down_in_qnt_def
    by (auto intro!: qnt_then_wp [OF _ counted_refl] event_wp [OF w1(1)] simp: bind_case)
qed

lemma typed_type_of: "typed l w w' \<Longrightarrow> k \<noteq> l \<Longrightarrow> type_of w' k = type_of w k"
  by (auto simp: typed_def type_of_def)

lemma typed_idtf_ready: "typed l w w' \<Longrightarrow> idtf_ready w s k \<Longrightarrow> idtf_ready w' s k"
proof -
  assume t: "typed l w w'" and r: "idtf_ready w s k"
  obtain ty where els: "st_els w' = (st_els w)(l := map_option (\<lambda>e. e\<lparr>el_type := ty\<rparr>) (st_els w l))"
    and o: "st_segs w' = st_segs w" "st_idtf_counter w' = st_idtf_counter w"
    using t by (auto simp: typed_def)
  obtain e where e: "st_els w k = Some e" using r by (auto simp: idtf_ready_def)
  have "\<exists>e'. st_els w' k = Some e' \<and> el_is_link e' = el_is_link e \<and> el_has_idtf e' = el_has_idtf e"
    using els e by (cases "k = l") (auto simp: el_has_idtf_def)
  then show ?thesis using r e o by (auto simp: idtf_ready_def)
qed

lemma typed_linkable:
  assumes "typed l w w'" "wd_addrs w a = Some g" "linkable w s g"
  shows "\<exists>g'. wd_addrs w' a = Some g' \<and> ga_seg g' = ga_seg g \<and> ga_impl g' = ga_impl g \<and>
    ga_locked g' = ga_locked g \<and> ga_zombie g' = ga_zombie g \<and> linkable w' s g'"
  using kept_addr [OF calm_kept [OF typed_calm [OF assms(1)]] assms(2)] typed_idtf_ready [OF assms(1)] assms(3)
  by (auto simp: linkable_def)

text \<open>The last part of an attachment: the arc gets a link element \<open>ll\<close> of the end's address as its
  end, and the events run.\<close>

definition attached :: "side \<Rightarrow> world \<Rightarrow> nat \<Rightarrow> nat \<Rightarrow> world \<Rightarrow> bool" where
  "attached sd w l x w' \<longleftrightarrow> wd_inv w' \<and> grown w w' \<and> end_is sd w' l x \<and>
     vT (other sd) w' = vT (other sd) w \<and> (\<forall>k. k \<noteq> l \<longrightarrow> vT sd w' k = vT sd w k) \<and> conn w' l"

lemma attach_tail_wp:
  assumes w0: "wd_inv w0" "wd_addrs w0 arc = Some g" "\<not> ga_zombie g" "conn w0 (ga_impl g)"
      "streams w0 (ga_seg g) = Some False" "wd_addrs w0 x \<noteq> None" "x \<noteq> 0"
    and lp: "link_post w0 x ll w" and ll: "ll \<noteq> 0"
    and ev: "\<And>w' g'. wd_inv w' \<Longrightarrow> wd_addrs w' arc = Some g' \<Longrightarrow> conn w' (ga_impl g') \<Longrightarrow>
      streams w' (ga_seg g') = Some False \<Longrightarrow> wd_addrs w' x \<noteq> None \<Longrightarrow>
      yields (events w') (counted w')"
    and P: "\<And>w'. attached sd w0 (ga_impl g) x w' \<Longrightarrow> P (RV_OK, w')"
  shows "yields (do { (rv, w) \<leftarrow> set_at sd (ga_impl g) ll w;
      (if rv \<noteq> RV_OK then Some (rv, w) else do { w \<leftarrow> events w; Some (RV_OK, w) }) }) P"
  unfolding yields_bind [of "set_at _ _ _ _"] yields_case
proof -
  have inv: "wd_inv w" and gr: "grown w0 w" and T: "\<And>s. vT s w = vT s w0"
    and ty: "\<And>k. cells w0 k \<noteq> None \<Longrightarrow> type_of w k = type_of w0 k"
    using lp by (simp_all add: link_post_def)
  obtain k where cl: "cells w ll = Some (x, k)" using lp by (auto simp: link_post_def)
  have c0: "cells w0 (ga_impl g) = Some (arc, False)" by (rule live_impl [OF w0(1-3)])
  then have c: "cells w (ga_impl g) = Some (arc, False)" using gr by (simp add: grown_def)
  obtain gx where "wd_addrs w0 x = Some gx" using w0(6) by blast
  then have x: "wd_addrs w x \<noteq> None" using frame_fields [OF gr] by blast
  obtain g1 where g1: "wd_addrs w arc = Some g1" "ga_impl g1 = ga_impl g" "ga_seg g1 = ga_seg g"
    using frame_fields [OF gr w0(2)] by blast
  show "yields (set_at sd (ga_impl g) ll w) (\<lambda>(rv, w).
      yields (if rv \<noteq> RV_OK then Some (rv, w) else do { w \<leftarrow> events w; Some (RV_OK, w) }) P)"
  proof (rule set_at_wp [OF inv c], use cl in simp, unfold prod.case)
    fix w1 assume w1: "wd_inv w1" "kept w w1" "vT sd w1 = (vT sd w)(ga_impl g := ll)"
      "vT (other sd) w1 = vT (other sd) w" "\<And>k. type_of w1 k = type_of w k" "wd_addrs w1 = wd_addrs w"
    have con1: "conn w1 (ga_impl g)" using w0(4) w1(5) ty [of "ga_impl g"] c0 by (simp add: conn_type)
    have gr1: "grown w0 w1" by (rule grown_trans [OF gr kept_grown [OF w1(2)]])
    have str1: "streams w1 (ga_seg g) = Some False" using gr1 w0(5) by (simp add: grown_def)
    have "yields (events w1) (counted w1)"
      using ev [OF w1(1), of g1] g1 con1 str1 x w1(6) by simp
    then obtain w2 where w2: "events w1 = Some w2" "counted w1 w2" by (auto simp: yields_def)
    note v = counted_views [OF w2(2)]
    have "end_is sd w2 (ga_impl g) x"
      using w1(2,3) cl ll w0(7) v(1,3) by (auto simp: end_is_def kept_def)
    moreover have "grown w0 w2"
      by (rule grown_trans [OF gr1 kept_grown [OF calm_kept [OF counted_calm [OF w2(2)]]]])
    ultimately have "attached sd w0 (ga_impl g) x w2"
      using counted_keep(1) [OF w2(2) w1(1)] con1 v w1(3,4) T
      by (simp add: attached_def fun_eq_iff)
    then show "yields (if RV_OK \<noteq> RV_OK then Some (RV_OK, w1) else do { w \<leftarrow> events w1; Some (RV_OK, w) }) P"
      using w2(1) P by simp
  qed
qed


lemma attach_beg_wp:
  assumes inv: "wd_inv w" and arc: "wd_addrs w arc = Some g" "\<not> ga_zombie g" "conn w (ga_impl g)"
      "streams w (ga_seg g) = Some False"
    and beg: "wd_addrs w beg = Some b" "\<not> ga_zombie b" "\<not> ga_locked b" "accessible ss w beg"
      "\<not> conn w (ga_impl b)" "streams w (ga_seg b) = Some False" "linkable w (ga_seg g) b"
    and P: "\<And>w'. attached Beg w (ga_impl g) beg w' \<Longrightarrow> P (RV_OK, w')"
  shows "yields (attach_beg ss arc beg w) P"
proof -
  have seg: "st_segs w (ga_seg g) \<noteq> None" using gaddr_okD(4) [OF wd_invD(2) [OF inv arc(1)]] .
  have b0: "beg \<noteq> 0" using beg(4) by (simp add: accessible_def)
  have fin: "yields (do {
          b \<leftarrow> wd_addrs w2 beg; ensure (\<not> ga_locked b); g \<leftarrow> wd_addrs w2 arc;
          (ll, w) \<leftarrow> ensure_link_to (ga_seg g) beg w2;
          (if ll = 0 then Some (RV_ERR_GEN, w)
           else do {
             (rv, w) \<leftarrow> sg_set_beg (ga_impl g) ll w;
             (if rv \<noteq> RV_OK then Some (rv, w)
              else do { w \<leftarrow> set_beg_events arc beg ll w; Some (RV_OK, w) })
           }) }) P" if t: "typed (ga_impl b) w w2" for w2
  proof -
    note c = typed_calm [OF t]
    note inv2 = calm_wd_inv [OF c inv]
    obtain b2 where b2: "wd_addrs w2 beg = Some b2" "\<not> ga_locked b2" "\<not> ga_zombie b2" "linkable w2 (ga_seg g) b2"
      using typed_linkable [OF t beg(1,7)] beg(2,3) by auto
    obtain g2 where g2: "wd_addrs w2 arc = Some g2" "ga_impl g2 = ga_impl g" "ga_seg g2 = ga_seg g" "\<not> ga_zombie g2"
      using kept_addr [OF calm_kept [OF c] arc(1)] arc(2) by auto
    have ne: "ga_impl g \<noteq> ga_impl b" using arc(3) beg(5) by auto
    have con2: "conn w2 (ga_impl g)" using arc(3) typed_type_of [OF t ne] by (simp add: conn_type)
    have str2: "streams w2 (ga_seg g) = Some False" using c arc(4) by (simp add: calm_def)
    have seg2: "st_segs w2 (ga_seg g) \<noteq> None" using str2 by (auto simp: streams_def)
    have vT2: "vT s w2 = vT s w" for s using c by (simp add: calm_def adj_eq_def)
    have "yields (do { (ll, w) \<leftarrow> ensure_link_to (ga_seg g) beg w2;
          (if ll = 0 then Some (RV_ERR_GEN, w)
           else do {
             (rv, w) \<leftarrow> set_at Beg (ga_impl g) ll w;
             (if rv \<noteq> RV_OK then Some (rv, w)
              else do { w \<leftarrow> set_beg_events arc beg ll w; Some (RV_OK, w) })
           }) }) P"
      unfolding yields_bind [of "ensure_link_to _ _ _"] yields_case
    proof (rule ensure_link_to_wp [OF inv2 b2(1,3) seg2 b2(4)], unfold prod.case)
      fix ll w3 assume ll: "ll \<noteq> 0" and lp: "link_post w2 beg ll w3"
      have "yields (do { (rv, w) \<leftarrow> set_at Beg (ga_impl g2) ll w3;
             (if rv \<noteq> RV_OK then Some (rv, w)
              else do { w \<leftarrow> set_beg_events arc beg ll w; Some (RV_OK, w) }) }) P"
      proof (rule attach_tail_wp [OF inv2 g2(1,4)])
        show "conn w2 (ga_impl g2)" "streams w2 (ga_seg g2) = Some False" using con2 str2 g2 by simp_all
        show "yields (set_beg_events arc beg ll w') (counted w')" if "wd_inv w'" "wd_addrs w' arc = Some g'"
          "conn w' (ga_impl g')" "streams w' (ga_seg g') = Some False" "wd_addrs w' beg \<noteq> None" for w' g'
          using that by (intro set_beg_events_wp) auto
        show "P (RV_OK, w')" if "attached Beg w2 (ga_impl g2) beg w'" for w'
          using that P g2(2) vT2 grown_trans [OF kept_grown [OF calm_kept [OF c]]] by (simp add: attached_def)
      qed (use b2(1) b0 ll lp in simp_all)
      then show "yields (if ll = 0 then Some (RV_ERR_GEN, w3)
           else do {
             (rv, w) \<leftarrow> set_at Beg (ga_impl g) ll w3;
             (if rv \<noteq> RV_OK then Some (rv, w)
              else do { w \<leftarrow> set_beg_events arc beg ll w; Some (RV_OK, w) })
           }) P" using ll g2(2) by simp
    qed
    then show ?thesis using b2 g2 by (simp add: sg_set_beg_at cong: if_cong)
  qed
  show ?thesis
    unfolding attach_beg_def yields_bind [of "get_type _ _ _"] yields_case
  proof (rule get_type_wp [OF inv beg(4,1,2)], unfold prod.case)
    fix w1 assume l1: "light w w1"
    note k = light_keep [OF l1] and v = light_views [OF l1]
    have b1: "wd_addrs w1 beg = Some b" using light_same_addr [OF l1] beg(1) by simp
    have ct: "yields (change_type ss beg t w1) (\<lambda>(rv, w2). typed (ga_impl b) w w2)" for t
      using beg(6) v(6) light_typed_trans [OF l1]
      by (intro change_type_wp [OF k(1) [OF inv] k(2) [OF beg(4)] b1 beg(2)]) auto
    have nc: "\<not> type_of w (ga_impl b) AND SC_CONNECTOR_MASK \<noteq> 0" using beg(5) by (simp add: conn_type)
    have m: "yields (if u then map_option snd (change_type ss beg t w1) else Some w1)
        (typed (ga_impl b) w)" for u t
      using ct [of t] light_typed [OF l1] by (auto elim!: yields_mono)
    show "yields (if type_of w (ga_impl b) AND SC_CONNECTOR_MASK \<noteq> 0 then Some (RV_ERR_GEN, w1)
        else do {
          w \<leftarrow> (if type_of w (ga_impl b) AND SC_UNDF \<noteq> 0
                 then map_option snd (change_type ss beg
                        ((type_of w (ga_impl b) AND NOT SC_SYNTACTIC_MASK) OR SC_NODE) w1)
                 else Some w1);
          b \<leftarrow> wd_addrs w beg; ensure (\<not> ga_locked b); g \<leftarrow> wd_addrs w arc;
          (ll, w) \<leftarrow> ensure_link_to (ga_seg g) beg w;
          (if ll = 0 then Some (RV_ERR_GEN, w)
           else do {
             (rv, w) \<leftarrow> sg_set_beg (ga_impl g) ll w;
             (if rv \<noteq> RV_OK then Some (rv, w)
              else do { w \<leftarrow> set_beg_events arc beg ll w; Some (RV_OK, w) })
           }) }) P"
      unfolding if_not_P [OF nc] by (rule yields_bindI [OF m]) (rule fin)
  qed
qed

lemma attached_light: "attached sd w l x w1 \<Longrightarrow> light w1 w2 \<Longrightarrow> attached sd w l x w2"
  using light_views [of w1 w2] light_keep(1) [of w1 w2] grown_trans [OF _ kept_grown [OF light_kept], of w w1 w2]
  by (simp add: attached_def end_is_def fun_eq_iff)

lemma light_attached: "light w w1 \<Longrightarrow> attached sd w1 l x w2 \<Longrightarrow> attached sd w l x w2"
  using light_views [of w w1] grown_trans [OF kept_grown [OF light_kept], of w w1 w2]
  by (simp add: attached_def fun_eq_iff)

lemma attached_already:
  assumes "wd_inv w" "conn w l" "vT sd w l \<noteq> 0" "end_addr sd w l = x" "x \<noteq> 0"
  shows "attached sd w l x w"
  using assms kept_grown [OF kept_refl]
  by (auto simp: attached_def end_is_def end_addr_def split: option.splits)

text \<open>What has to hold of an arc, and of the element it is attached to.\<close>

definition arc_ready :: "nat \<Rightarrow> world \<Rightarrow> nat \<Rightarrow> gaddr \<Rightarrow> bool" where
  "arc_ready ss w arc g \<longleftrightarrow> wd_addrs w arc = Some g \<and> \<not> ga_zombie g \<and> accessible ss w arc \<and>
     conn w (ga_impl g) \<and> streams w (ga_seg g) = Some False"

definition end_ready :: "nat \<Rightarrow> world \<Rightarrow> nat \<Rightarrow> nat \<Rightarrow> bool" where
  "end_ready ss w seg x \<longleftrightarrow> (\<exists>b. wd_addrs w x = Some b \<and> \<not> ga_zombie b \<and> \<not> ga_locked b \<and> accessible ss w x \<and>
     streams w (ga_seg b) = Some False \<and> linkable w seg b)"

definition plain_ready :: "world \<Rightarrow> nat \<Rightarrow> bool" where
  "plain_ready w x \<longleftrightarrow> (\<exists>b. wd_addrs w x = Some b \<and> \<not> conn w (ga_impl b))"

lemma light_ready:
  assumes "light w w'"
  shows "arc_ready ss w arc g \<Longrightarrow> arc_ready ss w' arc g" "end_ready ss w seg x \<Longrightarrow> end_ready ss w' seg x"
    "plain_ready w x \<Longrightarrow> plain_ready w' x"
proof -
  have i: "idtf_ready w' s l = idtf_ready w s l" for s l
    using assms by (simp add: idtf_ready_def light_def same_store_def)
  note v = light_views [OF assms] and a = light_same_addr [OF assms] and k = light_keep(2) [OF assms]
  show "arc_ready ss w arc g \<Longrightarrow> arc_ready ss w' arc g" using v a k by (simp add: arc_ready_def)
  show "end_ready ss w seg x \<Longrightarrow> end_ready ss w' seg x"
    using v(6) a k i by (auto simp: end_ready_def linkable_def)
  show "plain_ready w x \<Longrightarrow> plain_ready w' x" using v a by (simp add: plain_ready_def)
qed

lemma raw_set_beg_wp:
  assumes "wd_inv w" "arc_ready ss w arc g" "end_ready ss w (ga_seg g) beg" "plain_ready w beg"
    and P: "\<And>w'. attached Beg w (ga_impl g) beg w' \<Longrightarrow> P (RV_OK, w')"
  shows "yields (raw_set_beg ss arc beg w) P"
proof -
  have g: "wd_addrs w arc = Some g" "\<not> ga_zombie g" "conn w (ga_impl g)" "streams w (ga_seg g) = Some False"
    using assms(2) by (simp_all add: arc_ready_def)
  obtain b where b: "wd_addrs w beg = Some b" "\<not> ga_zombie b" "\<not> ga_locked b" "accessible ss w beg"
    "\<not> conn w (ga_impl b)" "streams w (ga_seg b) = Some False" "linkable w (ga_seg g) b"
    using assms(3,4) by (auto simp: end_ready_def plain_ready_def)
  have b0: "beg \<noteq> 0" using b(4) by (simp add: accessible_def)
  have "yields (attach_beg ss arc beg w) P" by (rule attach_beg_wp [OF assms(1) g b]) (rule P)
  moreover have "vT Beg w (ga_impl g) \<noteq> 0 \<Longrightarrow> end_addr Beg w (ga_impl g) = beg \<Longrightarrow> P (RV_OK, w)"
    by (rule P [OF attached_already [OF assms(1) g(3) _ _ b0]])
  ultimately show ?thesis
    unfolding raw_set_beg_def g(1) Option.bind.simps sg_get_ends_eq(1) [OF g(3)] end_addr_eq(1) [OF assms(1)]
    using b0 by auto
qed

text \<open>The frame that \<open>set_beg\<close> and \<open>set_end\<close> share: access, type, handlers, work.\<close>

definition guarded ::
  "nat \<Rightarrow> nat \<Rightarrow> nat \<Rightarrow> (world \<Rightarrow> (bool \<times> world) option) \<Rightarrow> (world \<Rightarrow> (sc_retval \<times> world) option) \<Rightarrow>
   world \<Rightarrow> (sc_retval \<times> world) option" where
  "guarded ss arc x pre raw w =
     do {
       (e, w) \<leftarrow> access ss arc w;
       (e, w) \<leftarrow> (if e = RV_OK \<and> x \<noteq> 0 then access ss x w else Some (e, w));
       (if e \<noteq> RV_OK then Some (e, w)
        else do {
          (t, w) \<leftarrow> get_type ss arc w;
          (if t AND SC_CONNECTOR_MASK = 0 then return_error ss RV_ERR_GEN w
           else do {
             (b, w) \<leftarrow> pre w;
             (if b then return_error ss RV_ELSE_GEN w
              else do { (rv, w) \<leftarrow> raw w; return_error ss rv w })
           })
        })
     }"

lemma set_beg_guarded: "set_beg ss arc beg w = guarded ss arc beg (set_beg_pre arc beg) (raw_set_beg ss arc beg) w"
  by (simp add: set_beg_def guarded_def)

lemma set_end_guarded: "set_end ss arc en w = guarded ss arc en (set_end_pre arc en) (raw_set_end arc en) w"
  by (simp add: set_end_def guarded_def)

text \<open>The part after the access checks.\<close>

lemma guarded_rest_wp:
  assumes inv: "wd_inv w" and arc: "arc_ready ss w arc g" and l2: "light w w2"
    and pre: "\<And>v. light w v \<Longrightarrow> yields (pre v) (\<lambda>(b, v'). light v v' \<and> (b \<longrightarrow> D))"
    and raw: "\<And>v. light w v \<Longrightarrow> yields (raw v) (\<lambda>(rv, v'). Q rv v' \<and> wd_sessions v' ss \<noteq> None)"
    and P1: "\<And>w'. D \<Longrightarrow> light w w' \<Longrightarrow> get_error ss w' = Some RV_ELSE_GEN \<Longrightarrow> P (RV_ELSE_GEN, w')"
    and P2: "\<And>rv v w'. Q rv v \<Longrightarrow> light v w' \<Longrightarrow> get_error ss w' = Some rv \<Longrightarrow> P (rv, w')"
  shows "yields (do {
          (t, w) \<leftarrow> get_type ss arc w2;
          (if t AND SC_CONNECTOR_MASK = 0 then return_error ss RV_ERR_GEN w
           else do {
             (b, w) \<leftarrow> pre w;
             (if b then return_error ss RV_ELSE_GEN w
              else do { (rv, w) \<leftarrow> raw w; return_error ss rv w })
           }) }) P"
proof -
  note inv2 = light_keep(1) [OF l2 inv]
  have g2: "wd_addrs w2 arc = Some g" "\<not> ga_zombie g" "accessible ss w2 arc" "conn w2 (ga_impl g)"
    using light_ready(1) [OF l2 arc] by (simp_all add: arc_ready_def)
  have nz: "\<not> type_of w2 (ga_impl g) AND SC_CONNECTOR_MASK = 0" using g2(4) by (simp add: conn_type)
  show ?thesis
    unfolding yields_bind [of "get_type _ _ _"] yields_case
  proof (rule get_type_wp [OF inv2 g2(3,1,2)], unfold prod.case if_not_P [OF nz])
    fix w3 assume "light w2 w3"
    with l2 have l3: "light w w3" by (rule light_trans)
    have fin: "yields (if b then return_error ss RV_ELSE_GEN w4
              else do { (rv, w) \<leftarrow> raw w4; return_error ss rv w }) P" if l: "light w3 w4" and d: "b \<longrightarrow> D" for b w4
    proof -
      have l4: "light w w4" using l3 l by (rule light_trans)
      have s4: "wd_sessions w4 ss \<noteq> None" using light_ready(1) [OF l4 arc] by (simp add: arc_ready_def accessible_def)
      have "b \<Longrightarrow> yields (return_error ss RV_ELSE_GEN w4) P"
        using P1 d light_trans [OF l4] by (intro return_error_wp [OF s4]) blast
      moreover have "yields (do { (rv, w) \<leftarrow> raw w4; return_error ss rv w }) P"
        by (rule yields_bindI [OF raw [OF l4]]) (auto intro!: return_error_wp P2)
      ultimately show ?thesis by simp
    qed
    show "yields (do { (b, w) \<leftarrow> pre w3;
             (if b then return_error ss RV_ELSE_GEN w
              else do { (rv, w) \<leftarrow> raw w; return_error ss rv w }) }) P"
      by (rule yields_bindI [OF pre [OF l3]]) (use fin in auto)
  qed
qed

lemma guarded_wp:
  assumes inv: "wd_inv w" and arc: "arc_ready ss w arc g" and x: "x = 0 \<or> accessible ss w x"
    and pre: "\<And>v. light w v \<Longrightarrow> yields (pre v) (\<lambda>(b, v'). light v v' \<and> (b \<longrightarrow> D))"
    and raw: "\<And>v. light w v \<Longrightarrow> yields (raw v) (\<lambda>(rv, v'). Q rv v' \<and> wd_sessions v' ss \<noteq> None)"
    and P1: "\<And>w'. D \<Longrightarrow> light w w' \<Longrightarrow> get_error ss w' = Some RV_ELSE_GEN \<Longrightarrow> P (RV_ELSE_GEN, w')"
    and P2: "\<And>rv v w'. Q rv v \<Longrightarrow> light v w' \<Longrightarrow> get_error ss w' = Some rv \<Longrightarrow> P (rv, w')"
  shows "yields (guarded ss arc x pre raw w) P"
  unfolding guarded_def yields_bind [of "access _ arc _"] yields_case
proof (rule access_ok_wp [OF inv], use arc in \<open>simp add: arc_ready_def\<close>, unfold prod.case)
  fix w1 assume l1: "light w w1"
  have acc: "yields (if RV_OK = RV_OK \<and> x \<noteq> 0 then access ss x w1 else Some (RV_OK, w1)) (\<lambda>(e, w2). e = RV_OK \<and> light w w2)"
    using x light_trans [OF l1] light_keep(2) [OF l1] l1
    by (auto intro!: access_ok_wp [OF light_keep(1) [OF l1 inv]])
  show "yields (do {
       (e, w) \<leftarrow> (if RV_OK = RV_OK \<and> x \<noteq> 0 then access ss x w1 else Some (RV_OK, w1));
       (if e \<noteq> RV_OK then Some (e, w)
        else do {
          (t, w) \<leftarrow> get_type ss arc w;
          (if t AND SC_CONNECTOR_MASK = 0 then return_error ss RV_ERR_GEN w
           else do {
             (b, w) \<leftarrow> pre w;
             (if b then return_error ss RV_ELSE_GEN w
              else do { (rv, w) \<leftarrow> raw w; return_error ss rv w })
           }) }) }) P"
    by (rule yields_bindI [OF acc]) (clarify, simp only: prod.case simp_thms if_False
        guarded_rest_wp [where pre = pre and raw = raw and Q = Q and P = P and D = D, OF inv arc _ pre raw P1 P2])
qed

lemma unwatched_activate: "unwatched w \<Longrightarrow> wait_is_pre ty \<Longrightarrow>
    addr_activate a ty prm w = map_option (\<lambda>_. (False, w)) (wd_addrs w a)"
  by (cases "wd_addrs w a") (auto simp: unwatched_def addr_activate_def)

lemma unwatched_pre:
  assumes "unwatched w"
  shows "set_beg_pre arc beg w \<noteq> Some (True, w')" "set_end_pre arc beg w \<noteq> Some (True, w')"
  by (auto simp: set_beg_pre_def set_end_pre_def unwatched_activate [OF assms] bind_Some_iff split: if_splits)

lemma light_unwatched: "light w w' \<Longrightarrow> unwatched w' = unwatched w"
  by (auto simp: unwatched_def light_def same_env_def)

lemma yields_deny:
  "yields m (\<lambda>(b, v). Q v) \<Longrightarrow> (\<And>v. D \<Longrightarrow> m \<noteq> Some (True, v)) \<Longrightarrow> yields m (\<lambda>(b, v). Q v \<and> (b \<longrightarrow> \<not> D))"
  by (auto simp: yields_def)

lemma attached_session: "attached sd w l x w' \<Longrightarrow> wd_sessions w ss \<noteq> None \<Longrightarrow> wd_sessions w' ss \<noteq> None"
  using sess_core_dom [of w' w ss] by (auto simp: attached_def grown_def)

lemma set_beg_wp:
  assumes inv: "wd_inv w" and arc: "arc_ready ss w arc g" and beg: "end_ready ss w (ga_seg g) beg" "plain_ready w beg"
    and P1: "\<And>w'. \<not> unwatched w \<Longrightarrow> light w w' \<Longrightarrow> get_error ss w' = Some RV_ELSE_GEN \<Longrightarrow> P (RV_ELSE_GEN, w')"
    and P2: "\<And>w'. attached Beg w (ga_impl g) beg w' \<Longrightarrow> get_error ss w' = Some RV_OK \<Longrightarrow> P (RV_OK, w')"
  shows "yields (set_beg ss arc beg w) P"
  unfolding set_beg_guarded
proof (rule guarded_wp [OF inv arc, where D = "\<not> unwatched w" and Q = "\<lambda>rv v. rv = RV_OK \<and> attached Beg w (ga_impl g) beg v"])
  show "beg = 0 \<or> accessible ss w beg" using beg(1) by (auto simp: end_ready_def)
  fix v assume l: "light w v"
  note r = light_ready [OF l]
  have g: "wd_addrs v arc = Some g" "conn v (ga_impl g)" "wd_sessions v ss \<noteq> None"
    using r(1) [OF arc] by (simp_all add: arc_ready_def accessible_def)
  have "wd_addrs v beg \<noteq> None" using r(2) [OF beg(1)] by (auto simp: end_ready_def)
  then show "yields (set_beg_pre arc beg v) (\<lambda>(b, v'). light v v' \<and> (b \<longrightarrow> \<not> unwatched w))"
    using unwatched_pre(1) [of v] light_unwatched [OF l]
    by (intro yields_deny set_beg_pre_wp [OF light_keep(1) [OF l inv] g(1,2)]) auto
  show "yields (raw_set_beg ss arc beg v)
      (\<lambda>(rv, v'). (rv = RV_OK \<and> attached Beg w (ga_impl g) beg v') \<and> wd_sessions v' ss \<noteq> None)"
    using light_attached [OF l] attached_session [OF _ g(3)]
    by (intro raw_set_beg_wp [OF light_keep(1) [OF l inv] r(1) [OF arc] r(2) [OF beg(1)] r(3) [OF beg(2)]]) auto
qed (use P1 P2 attached_light in auto)

text \<open>A connector as the begin: accepted only where it is the begin already.\<close>

definition connector_code :: "world \<Rightarrow> nat \<Rightarrow> nat \<Rightarrow> sc_retval" where
  "connector_code w l beg = (if vT Beg w l \<noteq> 0 \<and> end_addr Beg w l = beg then RV_OK else RV_ERR_GEN)"

lemma light_connector_code: "light w w' \<Longrightarrow> connector_code w' = connector_code w"
  using light_views(1,5) [of w w' Beg] by (simp add: connector_code_def fun_eq_iff)

lemma raw_set_beg_connector_wp:
  assumes "wd_inv w" "arc_ready ss w arc g" "end_ready ss w (ga_seg g) beg" "\<not> plain_ready w beg"
    and P: "\<And>w'. light w w' \<Longrightarrow> P (connector_code w (ga_impl g) beg, w')"
  shows "yields (raw_set_beg ss arc beg w) P"
proof -
  have g: "wd_addrs w arc = Some g" "conn w (ga_impl g)"
    using assms(2) by (simp_all add: arc_ready_def)
  obtain b where b: "wd_addrs w beg = Some b" "\<not> ga_zombie b" "accessible ss w beg" "conn w (ga_impl b)"
    using assms(3,4) by (auto simp: end_ready_def plain_ready_def)
  have b0: "beg \<noteq> 0" using b(3) by (simp add: accessible_def)
  have "connector_code w (ga_impl g) beg = RV_ERR_GEN \<Longrightarrow> yields (attach_beg ss arc beg w) P"
    unfolding attach_beg_def yields_bind [of "get_type _ _ _"] yields_case
    by (rule get_type_wp [OF assms(1) b(3,1,2)]) (use P b(4) in \<open>simp add: conn_type\<close>)
  then show ?thesis
    unfolding raw_set_beg_def g(1) Option.bind.simps sg_get_ends_eq(1) [OF g(2)] end_addr_eq(1) [OF assms(1)]
    using b0 P [OF light_refl] by (auto simp: connector_code_def)
qed

lemma set_beg_connector_wp:
  assumes inv: "wd_inv w" and arc: "arc_ready ss w arc g" and beg: "end_ready ss w (ga_seg g) beg" "\<not> plain_ready w beg"
    and P1: "\<And>w'. \<not> unwatched w \<Longrightarrow> light w w' \<Longrightarrow> get_error ss w' = Some RV_ELSE_GEN \<Longrightarrow> P (RV_ELSE_GEN, w')"
    and P2: "\<And>w'. light w w' \<Longrightarrow> get_error ss w' = Some (connector_code w (ga_impl g) beg) \<Longrightarrow>
      P (connector_code w (ga_impl g) beg, w')"
  shows "yields (set_beg ss arc beg w) P"
  unfolding set_beg_guarded
proof (rule guarded_wp [OF inv arc, where D = "\<not> unwatched w" and
      Q = "\<lambda>rv v. rv = connector_code w (ga_impl g) beg \<and> light w v"])
  show "beg = 0 \<or> accessible ss w beg" using beg(1) by (auto simp: end_ready_def)
  fix v assume l: "light w v"
  note r = light_ready [OF l]
  have g: "wd_addrs v arc = Some g" "conn v (ga_impl g)" "wd_sessions v ss \<noteq> None"
    using r(1) [OF arc] by (simp_all add: arc_ready_def accessible_def)
  have "wd_addrs v beg \<noteq> None" using r(2) [OF beg(1)] by (auto simp: end_ready_def)
  then show "yields (set_beg_pre arc beg v) (\<lambda>(b, v'). light v v' \<and> (b \<longrightarrow> \<not> unwatched w))"
    using unwatched_pre(1) [of v] light_unwatched [OF l]
    by (intro yields_deny set_beg_pre_wp [OF light_keep(1) [OF l inv] g(1,2)]) auto
  have "\<not> plain_ready v beg" using beg(2) light_same_addr [OF l] light_views(2) [OF l] by (simp add: plain_ready_def)
  then show "yields (raw_set_beg ss arc beg v)
      (\<lambda>(rv, v'). (rv = connector_code w (ga_impl g) beg \<and> light w v') \<and> wd_sessions v' ss \<noteq> None)"
    using light_trans [OF l] light_connector_code [OF l] light_keep(3) [OF _ g(3)]
    by (intro raw_set_beg_connector_wp [OF light_keep(1) [OF l inv] r(1) [OF arc] r(2) [OF beg(1)]]) auto
next
  fix rv v w' assume "rv = connector_code w (ga_impl g) beg \<and> light w v" "light v w'" "get_error ss w' = Some rv"
  then show "P (rv, w')" using P2 [of w'] light_trans [of w v w'] by blast
qed (use P1 in auto)

section \<open>Detaching\<close>

definition detached :: "side \<Rightarrow> world \<Rightarrow> nat \<Rightarrow> world \<Rightarrow> bool" where
  "detached sd w l w' \<longleftrightarrow> wd_inv w' \<and> kept w w' \<and> vT sd w' = (vT sd w)(l := 0) \<and>
     vT (other sd) w' = vT (other sd) w \<and> (\<forall>k. type_of w' k = type_of w k)"

lemma detached_light: "detached sd w l w1 \<Longrightarrow> light w1 w2 \<Longrightarrow> detached sd w l w2"
  using light_views [of w1 w2] light_keep(1) [of w1 w2] kept_trans [OF _ light_kept, of w w1 w2]
  by (simp add: detached_def fun_eq_iff)

lemma light_detached: "light w w1 \<Longrightarrow> detached sd w1 l w2 \<Longrightarrow> detached sd w l w2"
  using light_views [of w w1] kept_trans [OF light_kept, of w w1 w2]
  by (simp add: detached_def fun_eq_iff)

lemma detached_session: "detached sd w l w' \<Longrightarrow> wd_sessions w ss \<noteq> None \<Longrightarrow> wd_sessions w' ss \<noteq> None"
  using sess_core_dom [of w' w ss] by (auto simp: detached_def kept_def same_env_def)

lemma set_beg_null_wp:
  assumes inv: "wd_inv w" and arc: "arc_ready ss w arc g"
    and named: "vT Beg w (ga_impl g) \<noteq> 0 \<longrightarrow> end_addr Beg w (ga_impl g) \<noteq> 0"
    and P1: "\<And>w'. \<not> unwatched w \<Longrightarrow> light w w' \<Longrightarrow> get_error ss w' = Some RV_ELSE_GEN \<Longrightarrow> P (RV_ELSE_GEN, w')"
    and P2: "\<And>w'. detached Beg w (ga_impl g) w' \<Longrightarrow> get_error ss w' = Some RV_OK \<Longrightarrow> P (RV_OK, w')"
  shows "yields (set_beg ss arc 0 w) P"
  unfolding set_beg_guarded
proof (rule guarded_wp [OF inv arc, where D = "\<not> unwatched w" and Q = "\<lambda>rv v. rv = RV_OK \<and> detached Beg w (ga_impl g) v"])
  fix v assume l: "light w v"
  have r: "arc_ready ss v arc g" by (rule light_ready(1) [OF l arc])
  then have g: "wd_addrs v arc = Some g" "\<not> ga_zombie g" "conn v (ga_impl g)" "streams v (ga_seg g) = Some False"
    "wd_sessions v ss \<noteq> None" by (simp_all add: arc_ready_def accessible_def)
  note iv = light_keep(1) [OF l inv]
  show "yields (set_beg_pre arc 0 v) (\<lambda>(b, v'). light v v' \<and> (b \<longrightarrow> \<not> unwatched w))"
    using unwatched_pre(1) [of v] light_unwatched [OF l]
    by (intro yields_deny set_beg_pre_wp [OF iv g(1,3)]) auto
  have nm: "\<not> (vT Beg v (ga_impl g) \<noteq> 0 \<and> end_addr Beg v (ga_impl g) = 0)"
    using named light_views(1,5) [OF l] by auto
  have "yields (detach_beg arc (end_addr Beg v (ga_impl g)) v) (\<lambda>v'. detached Beg w (ga_impl g) v' \<and> wd_sessions v' ss \<noteq> None)"
  proof (rule detach_beg_wp [OF iv g(1-4)])
    show "end_addr Beg v (ga_impl g) = 0 \<or> wd_addrs v (end_addr Beg v (ga_impl g)) \<noteq> None"
      using end_addr_eq(2) [OF iv] by blast
    show "detached Beg w (ga_impl g) v' \<and> wd_sessions v' ss \<noteq> None" if "wd_inv v'" "kept v v'"
      "vT Beg v' = (vT Beg v)(ga_impl g := 0)" "vT End v' = vT End v" "\<And>k. type_of v' k = type_of v k"
      "wd_sessions v' = wd_sessions v" for v'
      using that light_detached [OF l, of Beg "ga_impl g" v'] g(5) by (simp add: detached_def)
  qed
  then show "yields (raw_set_beg ss arc 0 v)
      (\<lambda>(rv, v'). (rv = RV_OK \<and> detached Beg w (ga_impl g) v') \<and> wd_sessions v' ss \<noteq> None)"
    unfolding raw_set_beg_def g(1) Option.bind.simps sg_get_ends_eq(1) [OF g(3)] end_addr_eq(1) [OF iv] if_not_P [OF nm]
    by (simp add: yields_bind)
qed (use P1 P2 detached_light in auto)

text \<open>Where the arc has a wait with a session for \<open>ARC_END\<close>, the check of its parameters asks the null
  address for its segment.\<close>

lemma set_end_null_wp:
  assumes inv: "wd_inv w" and arc: "arc_ready ss w arc g"
    and named: "vT End w (ga_impl g) \<noteq> 0 \<longrightarrow> end_addr End w (ga_impl g) \<noteq> 0"
    and free: "ga_waits g SC_WAIT_ARC_END = []"
    and P1: "\<And>w'. \<not> unwatched w \<Longrightarrow> light w w' \<Longrightarrow> get_error ss w' = Some RV_ELSE_GEN \<Longrightarrow> P (RV_ELSE_GEN, w')"
    and P2: "\<And>w'. detached End w (ga_impl g) w' \<Longrightarrow> get_error ss w' = Some RV_OK \<Longrightarrow> P (RV_OK, w')"
  shows "yields (set_end ss arc 0 w) P"
  unfolding set_end_guarded
proof (rule guarded_wp [OF inv arc, where D = "\<not> unwatched w" and Q = "\<lambda>rv v. rv = RV_OK \<and> detached End w (ga_impl g) v"])
  fix v assume l: "light w v"
  have r: "arc_ready ss v arc g" by (rule light_ready(1) [OF l arc])
  then have g: "wd_addrs v arc = Some g" "\<not> ga_zombie g" "conn v (ga_impl g)" "streams v (ga_seg g) = Some False"
    "wd_sessions v ss \<noteq> None" by (simp_all add: arc_ready_def accessible_def)
  note iv = light_keep(1) [OF l inv]
  show "yields (set_end_pre arc 0 v) (\<lambda>(b, v'). light v v' \<and> (b \<longrightarrow> \<not> unwatched w))"
    using unwatched_pre(2) [of v] light_unwatched [OF l]
    by (intro yields_deny set_end_pre_wp [OF iv g(1,3)]) auto
  have nm: "\<not> (vT End v (ga_impl g) \<noteq> 0 \<and> end_addr End v (ga_impl g) = 0)"
    using named light_views(1,5) [OF l] by auto
  have "yields (detach_end arc (end_addr End v (ga_impl g)) v) (\<lambda>v'. detached End w (ga_impl g) v' \<and> wd_sessions v' ss \<noteq> None)"
  proof (rule detach_end_wp [OF iv g(1-4)])
    show "end_addr End v (ga_impl g) = 0 \<or> wd_addrs v (end_addr End v (ga_impl g)) \<noteq> None"
      using end_addr_eq(2) [OF iv] by blast
    show "detached End w (ga_impl g) v' \<and> wd_sessions v' ss \<noteq> None" if "wd_inv v'" "kept v v'"
      "vT End v' = (vT End v)(ga_impl g := 0)" "vT Beg v' = vT Beg v" "\<And>k. type_of v' k = type_of v k"
      "wd_sessions v' = wd_sessions v" for v'
      using that light_detached [OF l, of End "ga_impl g" v'] g(5) by (simp add: detached_def)
  qed (rule free)
  then show "yields (raw_set_end arc 0 v)
      (\<lambda>(rv, v'). (rv = RV_OK \<and> detached End w (ga_impl g) v') \<and> wd_sessions v' ss \<noteq> None)"
    unfolding raw_set_end_def g(1) Option.bind.simps sg_get_ends_eq(2) [OF g(3)] end_addr_eq(1) [OF iv] if_not_P [OF nm]
    by (simp add: yields_bind)
qed (use P1 P2 detached_light in auto)

section \<open>\<open>set_end\<close>\<close>

lemma attach_end_wp:
  assumes inv: "wd_inv w" and arc: "wd_addrs w arc = Some g" "\<not> ga_zombie g" "conn w (ga_impl g)"
      "streams w (ga_seg g) = Some False"
    and en: "wd_addrs w en = Some b" "\<not> ga_zombie b" "\<not> ga_locked b" "en \<noteq> 0" "linkable w (ga_seg g) b"
    and P: "\<And>w'. attached End w (ga_impl g) en w' \<Longrightarrow> P (RV_OK, w')"
  shows "yields (attach_end arc en w) P"
proof -
  have seg: "st_segs w (ga_seg g) \<noteq> None" using gaddr_okD(4) [OF wd_invD(2) [OF inv arc(1)]] .
  have "yields (do { (ll, w) \<leftarrow> ensure_link_to (ga_seg g) en w;
          (if ll = 0 then Some (RV_ERR_GEN, w)
           else do {
             (rv, w) \<leftarrow> set_at End (ga_impl g) ll w;
             (if rv \<noteq> RV_OK then Some (rv, w)
              else do { w \<leftarrow> set_end_events arc en ll w; Some (RV_OK, w) })
           }) }) P"
    unfolding yields_bind [of "ensure_link_to _ _ _"] yields_case
  proof (rule ensure_link_to_wp [OF inv en(1,2) seg en(5)], unfold prod.case)
    fix ll w1 assume ll: "ll \<noteq> 0" and lp: "link_post w en ll w1"
    have "yields (do { (rv, w) \<leftarrow> set_at End (ga_impl g) ll w1;
             (if rv \<noteq> RV_OK then Some (rv, w)
              else do { w \<leftarrow> set_end_events arc en ll w; Some (RV_OK, w) }) }) P"
    proof (rule attach_tail_wp [OF inv arc _ en(4) lp ll])
      show "wd_addrs w en \<noteq> None" using en(1) by simp
      show "yields (set_end_events arc en ll w') (counted w')" if "wd_inv w'" "wd_addrs w' arc = Some g'"
        "conn w' (ga_impl g')" "streams w' (ga_seg g') = Some False" "wd_addrs w' en \<noteq> None" for w' g'
        using that en(4) by (intro set_end_events_wp) auto
    qed (rule P)
    then show "yields (if ll = 0 then Some (RV_ERR_GEN, w1)
           else do {
             (rv, w) \<leftarrow> set_at End (ga_impl g) ll w1;
             (if rv \<noteq> RV_OK then Some (rv, w)
              else do { w \<leftarrow> set_end_events arc en ll w; Some (RV_OK, w) })
           }) P" using ll by simp
  qed
  then show ?thesis using en(1,3) arc(1) by (simp add: attach_end_def sg_set_end_at cong: if_cong)
qed

lemma set_end_wp:
  assumes inv: "wd_inv w" and arc: "arc_ready ss w arc g" and en: "end_ready ss w (ga_seg g) en"
    and P1: "\<And>w'. \<not> unwatched w \<Longrightarrow> light w w' \<Longrightarrow> get_error ss w' = Some RV_ELSE_GEN \<Longrightarrow> P (RV_ELSE_GEN, w')"
    and P2: "\<And>w'. attached End w (ga_impl g) en w' \<Longrightarrow> get_error ss w' = Some RV_OK \<Longrightarrow> P (RV_OK, w')"
  shows "yields (set_end ss arc en w) P"
  unfolding set_end_guarded
proof (rule guarded_wp [OF inv arc, where D = "\<not> unwatched w" and Q = "\<lambda>rv v. rv = RV_OK \<and> attached End w (ga_impl g) en v"])
  show "en = 0 \<or> accessible ss w en" using en by (auto simp: end_ready_def)
  fix v assume l: "light w v"
  note r = light_ready [OF l] and iv = light_keep(1) [OF l inv]
  have g: "wd_addrs v arc = Some g" "\<not> ga_zombie g" "conn v (ga_impl g)" "streams v (ga_seg g) = Some False"
    "wd_sessions v ss \<noteq> None" using r(1) [OF arc] by (simp_all add: arc_ready_def accessible_def)
  obtain b where b: "wd_addrs v en = Some b" "\<not> ga_zombie b" "\<not> ga_locked b" "en \<noteq> 0" "linkable v (ga_seg g) b"
    using r(2) [OF en] by (auto simp: end_ready_def accessible_def)
  then show "yields (set_end_pre arc en v) (\<lambda>(b, v'). light v v' \<and> (b \<longrightarrow> \<not> unwatched w))"
    using unwatched_pre(2) [of v] light_unwatched [OF l]
    by (intro yields_deny set_end_pre_wp [OF iv g(1,3)]) auto
  have "yields (attach_end arc en v) (\<lambda>(rv, v'). (rv = RV_OK \<and> attached End w (ga_impl g) en v') \<and> wd_sessions v' ss \<noteq> None)"
    using light_attached [OF l] attached_session [OF _ g(5)]
    by (intro attach_end_wp [OF iv g(1-4) b]) auto
  moreover have "vT End v (ga_impl g) \<noteq> 0 \<Longrightarrow> end_addr End v (ga_impl g) = en \<Longrightarrow> attached End w (ga_impl g) en v"
    by (rule light_attached [OF l attached_already [OF iv g(3) _ _ b(4)]])
  ultimately show "yields (raw_set_end arc en v)
      (\<lambda>(rv, v'). (rv = RV_OK \<and> attached End w (ga_impl g) en v') \<and> wd_sessions v' ss \<noteq> None)"
    unfolding raw_set_end_def g(1) Option.bind.simps sg_get_ends_eq(2) [OF g(3)] end_addr_eq(1) [OF iv]
    using b(4) g(5) by auto
qed (use P1 P2 attached_light in auto)

end
