(* ===== verification/Session_Props.thy ===== *)
theory Session_Props
  imports Session_Ends
begin

text \<open>
  Creation of elements, reading of ends, generation of three-element constructions, and the
  properties of sessions as theorems with their witnesses on small worlds.
\<close>

section \<open>Creation\<close>

lemma more_gen_el: "sg_gen_el s t w = Some (l, w') \<Longrightarrow> store.more w' = store.more w"
  by (auto simp: sg_gen_el_def create_element_def Let_def bind_Some_iff upd_seg_def)

lemma fresh_views: "vD (w\<lparr>st_fresh := n\<rparr>) = vD w" "vA sd (w\<lparr>st_fresh := n\<rparr>) = vA sd w"
  "vQ sd (w\<lparr>st_fresh := n\<rparr>) = vQ sd w" "vT sd (w\<lparr>st_fresh := n\<rparr>) = vT sd w" "vH sd (w\<lparr>st_fresh := n\<rparr>) = vH sd w"
  by (simp_all add: view_defs fun_eq_iff)

lemma store_adj_fresh: "store_adj w \<Longrightarrow> st_fresh w \<le> n \<Longrightarrow> store_adj (w\<lparr>st_fresh := n\<rparr>)"
  by (simp add: store_adj_def adj_ok_def fresh_ok_def fresh_views)

lemma store_adj_env: "store_adj w \<Longrightarrow> store_adj (w\<lparr>wd_addrs := x\<rparr>)"
  by (erule adj_eq_store_adj [rotated]) (simp add: adj_eq_def view_defs fun_eq_iff)

definition created :: "nat \<Rightarrow> world \<Rightarrow> nat \<Rightarrow> sc_type \<Rightarrow> nat \<Rightarrow> world \<Rightarrow> bool" where
  "created ss w seg t a w' \<longleftrightarrow> wd_inv w' \<and> wd_addrs w a = None \<and> accessible ss w' a \<and> grown w w' \<and>
     (\<exists>g. wd_addrs w' a = Some g \<and> ga_seg g = seg \<and> \<not> ga_zombie g \<and> \<not> ga_locked g \<and>
        ga_refcnt g = SC_ADDR_REFCNT_BARRIER \<and> (\<forall>ty. ga_waits g ty = []) \<and>
        cells w (ga_impl g) = None \<and> type_of w' (ga_impl g) = t \<and>
        (\<forall>sd. vT sd w' (ga_impl g) = 0)) \<and>
     (\<forall>sd. vT sd w' = vT sd w) \<and> (\<forall>l. cells w l \<noteq> None \<longrightarrow> type_of w' l = type_of w l) \<and>
     (\<forall>b. b \<noteq> a \<longrightarrow> wd_addrs w' b = wd_addrs w b) \<and> wd_event_lock w' = wd_event_lock w"

lemma notify_waits_wp:
  assumes "\<And>p. p \<in> set ps \<Longrightarrow> wd_waits w p \<noteq> None" "\<And>w'. logged w w' \<Longrightarrow> P w'"
  shows "yields (notify_waits ty prm ps w) P"
  using assms
proof (induction ps arbitrary: w)
  case (Cons p ps)
  obtain x where x: "wd_waits w p = Some x" using Cons.prems(1) by fastforce
  let ?w = "log (Wait_activated p ty prm) w"
  have l: "logged w ?w" by simp
  have "yields (notify_waits ty prm ps ?w) P"
    using Cons.prems logged_trans [OF l] by (intro Cons.IH) (auto simp: log_def)
  then show ?case using x by simp
qed simp

text \<open>The element and its address, before the notifications.\<close>

lemma new_element_addr:
  assumes inv: "wd_inv w" and op: "session_opened ss seg w = Some True" and seg: "seg \<noteq> 0"
    and s: "st_segs w seg = Some s" and ss: "wd_sessions w ss \<noteq> None"
  shows "\<exists>ll w1 a w2 w3. sg_gen_el seg t w = Some (ll, w1) \<and> ll \<noteq> 0 \<and> addr_new seg ll w1 = Some (a, w2) \<and>
    sg_set_element_addr ll a w2 = Some w3 \<and> created ss w seg t a w3 \<and>
    (\<exists>s3. st_segs w3 seg = Some s3 \<and> sg_on_add s3 = sg_on_add s \<and> sg_evstream s3 = sg_evstream s) \<and>
    wd_waits w3 = wd_waits w"
proof -
  let ?l = "st_fresh w" and ?a = "st_fresh w + 1"
  from store_adj_gen_el [OF wd_invD(1) [OF inv] s, of t] obtain w1 where
    w1: "sg_gen_el seg t w = Some (?l, w1)" "store_adj w1"
      "st_segs w1 = (st_segs w)(seg \<mapsto> s\<lparr>sg_list := sg_list s @ [?l]\<rparr>)"
      "st_els w1 = (st_els w)(?l \<mapsto> new_element t TMP_MISSING_IDTF)" "st_fresh w1 = ?a" by auto
  have env: "same_env w w1" "wd_addrs w1 = wd_addrs w" "wd_sessions w1 = wd_sessions w"
    using more_env more_world more_gen_el [OF w1(1)] by blast+
  have l0: "?l \<noteq> 0" using store_adjD(3) [OF wd_invD(1) [OF inv]] by (simp add: fresh_ok_def)
  have new: "cells w ?l = None" by (rule cells_fresh [OF wd_invD(1) [OF inv]])
  have anone: "wd_addrs w ?a = None" "wd_addrs w ?l = None"
    using gaddr_okD(2) [OF wd_invD(2) [OF inv]] by (metis less_irrefl not_less_eq not_None_eq Suc_eq_plus1 less_Suc_eq)+
  let ?g = "new_gaddr seg ?l 0 0"
  define w2 where "w2 = w1\<lparr>wd_addrs := (wd_addrs w)(?a \<mapsto> ?g), st_fresh := ?l + 2\<rparr>"
  have n: "addr_new seg ?l w1 = Some (?a, w2)"
    using w1(4,5) env(2) by (simp add: addr_new_def sg_get_in_qnt_def sg_get_out_qnt_def new_element_def w2_def)
  have adj2: "store_adj w2"
    unfolding w2_def by (rule store_adj_fresh [OF store_adj_env [OF w1(2)]]) (simp add: w1(5))
  let ?e = "(new_element t TMP_MISSING_IDTF)\<lparr>el_addr := ?a\<rparr>"
  define w3 where "w3 = w2\<lparr>st_els := (st_els w)(?l \<mapsto> ?e)\<rparr>"
  have set: "sg_set_element_addr ?l ?a w2 = Some w3"
    using w1(4) by (simp add: sg_set_element_addr_def upd_el_def w2_def w3_def)
  have adj3: "store_adj w3"
    by (rule adj_eq_store_adj [OF adj_eq_upd_el [OF set [unfolded sg_set_element_addr_def] core_only_intros(5)] adj2])
  have els3: "st_els w3 = (st_els w)(?l \<mapsto> ?e)" and addrs3: "wd_addrs w3 = (wd_addrs w)(?a \<mapsto> ?g)"
    and segs3: "st_segs w3 = st_segs w1" and fresh3: "st_fresh w3 = ?l + 2"
    and o3: "wd_sessions w3 = wd_sessions w" "wd_waits w3 = wd_waits w" "wd_event_lock w3 = wd_event_lock w"
    using env by (simp_all add: w3_def w2_def same_env_def)
  have nl: "\<not> el_is_link ?e" by simp
  have cells3: "cells w3 = (cells w)(?l \<mapsto> (?a, False))"
    using nl by (auto simp: cells_def els3 fun_eq_iff)
  have sc3: "seg_core w3 = seg_core w" "streams w3 = streams w"
    using s by (auto simp: seg_core_def streams_def segs3 w1(3) fun_eq_iff)
  have sess3: "sess_core w3 = sess_core w" by (simp add: sess_core_def o3 fun_eq_iff)
  have gr: "grown w w3"
    using anone new cells3 sc3 sess3 o3 fresh3
    by (auto simp: grown_def addr_frame_def addrs3 unwatched_def new_gaddr_def)
  have vT3: "vT sd w3 = vT sd w" for sd
    using new by (auto simp: vT_def els3 fun_eq_iff cells_def new_element_def split: side.splits)
  have inv3: "wd_inv w3"
    unfolding wd_inv_def
  proof (intro conjI allI impI)
    have wok: "wait_ok w3 p = wait_ok w p" for p by (simp add: wait_ok_def o3)
    show "store_adj w3" by (rule adj3)
    show "gaddr_ok w3 b k" if k: "wd_addrs w3 b = Some k" for b k
    proof (cases "b = ?a")
      case True
      then have "k = ?g" using k addrs3 by simp
      then show ?thesis
        using True cells3 fresh3 segs3 w1(3) by (auto simp: gaddr_ok_def new_gaddr_def links_sorted_def)
    next
      case False
      then have "gaddr_ok w b k" using k addrs3 wd_invD(2) [OF inv, of b] by simp
      then show ?thesis
        using wok cells3 new fresh3 seg_core_fields(5) [OF sc3(1)] by (auto simp: gaddr_ok_def)
    qed
    show "wd_addrs w3 b \<noteq> None" if "cells w3 m = Some (b, k)" "b \<noteq> 0" for m b k
      using that wd_invD(3) [OF inv, of m b k] cells3 addrs3 by (auto split: if_splits)
    show "sg_index k < SC_MAX_SEGMENTS" if "st_segs w3 m = Some k" for m k
      using that wd_invD(4) [OF inv, of m] wd_invD(4) [OF inv s] segs3 w1(3) by (auto split: if_splits)
  qed
  have op3: "session_opened ss seg w3 = Some True"
    using session_opened_cong [OF sess3 sc3(1)] op by simp
  have acc: "accessible ss w3 ?a"
    using op3 seg l0 ss o3(1) by (auto simp: accessible_def addrs3 new_gaddr_def)
  have ty: "type_of w3 ?l = t" by (simp add: type_of_def els3 new_element_def)
  have ty': "type_of w3 k = type_of w k" if "cells w k \<noteq> None" for k
    using that new by (auto simp: type_of_def els3)
  have v0: "vT sd w3 ?l = 0" for sd unfolding vT3 using new by (auto simp: vT_def cells_def)
  have "created ss w seg t ?a w3"
    unfolding created_def using inv3 anone acc gr ty ty' v0 vT3 new o3(3)
    by (auto simp: addrs3 new_gaddr_def)
  then show ?thesis
    using w1(1) l0 n set o3(2) segs3 w1(3) by auto
qed

lemma created_light:
  assumes "created ss w seg t a w1" "light w1 w2"
  shows "created ss w seg t a w2"
proof -
  note v = light_views [OF assms(2)] and k = light_keep [OF assms(2)] and ad = light_same_addr [OF assms(2)]
  have lock: "wd_event_lock w2 = wd_event_lock w1" using assms(2) by (simp add: light_def same_env_def)
  have vT: "vT sd w2 = vT sd w1" for sd using v(1) by (simp add: fun_eq_iff)
  have "grown w w2"
    using assms(1) grown_trans [OF _ kept_grown [OF light_kept [OF assms(2)]], of w] by (simp add: created_def)
  then show ?thesis
    using assms(1) k(1,2) unfolding created_def vT v(4) ad lock by blast
qed

lemma create_el_wp:
  assumes inv: "wd_inv w" and ss: "wd_sessions w ss \<noteq> None" and seg: "seg \<noteq> 0" "st_segs w seg = Some s"
    and op: "session_opened ss seg w = Some True" and t: "verify_type type \<noteq> 0"
    and quiet: "sg_evstream s = None" "\<And>p. p \<in> set (sg_on_add s) \<Longrightarrow> wd_waits w p \<noteq> None"
    and P: "\<And>a w'. created ss w seg (verify_type type) a w' \<Longrightarrow> get_error ss w' = Some RV_OK \<Longrightarrow> P (a, w')"
  shows "yields (create_el ss seg type w) P"
proof -
  from new_element_addr [OF inv op seg ss, of "verify_type type"] obtain ll w1 a w2 w3 s3 where
    r: "sg_gen_el seg (verify_type type) w = Some (ll, w1)" "ll \<noteq> 0" "addr_new seg ll w1 = Some (a, w2)"
      "sg_set_element_addr ll a w2 = Some w3" "created ss w seg (verify_type type) a w3"
      "st_segs w3 seg = Some s3" "sg_on_add s3 = sg_on_add s" "sg_evstream s3 = sg_evstream s"
      "wd_waits w3 = wd_waits w" by blast
  have n: "notify_genel seg ll (verify_type type) w3 = Some w3"
    using r(6,8) quiet(1) by (simp add: notify_genel_def has_stream_def)
  have sess: "wd_sessions w3 ss \<noteq> None"
    using r(5) ss sess_core_dom [of w3 w] by (auto simp: created_def grown_def)
  have "yields (notify_waits SC_WAIT_SEGMENT_ON_ADD [seg, a] (sg_on_add s) w3)
      (\<lambda>w4. yields (set_error ss RV_OK w4) (\<lambda>w5. P (a, w5)))"
  proof (rule notify_waits_wp)
    show "wd_waits w3 p \<noteq> None" if "p \<in> set (sg_on_add s)" for p using quiet(2) [OF that] r(9) by simp
    fix w4 assume "logged w3 w4"
    then have l4: "light w3 w4" by (rule logged_light)
    show "yields (set_error ss RV_OK w4) (\<lambda>w5. P (a, w5))"
      using P created_light [OF r(5)] light_trans [OF l4]
      by (intro set_error_wp [OF light_keep(3) [OF l4 sess]]) blast
  qed
  then show ?thesis
    using seg op t r(1-4,6,7) n by (simp add: create_el_def Let_def yields_bind)
qed

section \<open>Reading the ends\<close>

lemma get_beg_wp:
  assumes inv: "wd_inv w" and g: "wd_addrs w arc = Some g" "\<not> ga_zombie g" and acc: "accessible ss w arc"
    and con: "conn w (ga_impl g)" and e: "end_is Beg w (ga_impl g) x" "x = 0 \<or> accessible ss w x"
    and P: "\<And>w'. light w w' \<Longrightarrow> P (x, w')"
  shows "yields (get_beg ss arc w) P"
  unfolding get_beg_def yields_bind [of "access _ _ _"] yields_case
proof (rule access_ok_wp [OF inv acc])
  fix w1 assume l1: "light w w1"
  note v = light_views [OF l1] and iv = light_keep(1) [OF l1 inv]
  have g1: "wd_addrs w1 arc = Some g" using light_same_addr [OF l1] g(1) by simp
  have ty: "sg_get_type (ga_impl g) w1 = Some (type_of w1 (ga_impl g))" "type_of w1 (ga_impl g) AND SC_CONNECTOR_MASK \<noteq> 0"
    using sg_get_type_eq [OF live_impl [OF iv g1 g(2)]] con v(4) by (simp_all add: conn_type)
  have b: "sg_get_beg (ga_impl g) w1 = Some (vT Beg w (ga_impl g))"
    using sg_get_ends_eq(1) [of w1 "ga_impl g"] con v(1,2) by simp
  show "case (RV_OK, w1) of (e, w) \<Rightarrow> yields (if e \<noteq> RV_OK then Some (0, w) else do {
          g \<leftarrow> wd_addrs w arc;
          t \<leftarrow> sg_get_type (ga_impl g) w;
          (if t AND SC_CONNECTOR_MASK = 0 then fail_null ss RV_ERR_GEN w
           else do {
             ll \<leftarrow> sg_get_beg (ga_impl g) w;
             (if ll = 0 then Some (0, w)
              else do {
                b \<leftarrow> sg_get_element_addr ll w;
                (e, w) \<leftarrow> access ss b w;
                if e \<noteq> RV_OK then Some (0, w) else Some (b, w)
              })
           }) }) P"
  proof (cases "x = 0")
    case True
    then show ?thesis using g1 ty b e(1) P [OF l1] by (simp add: end_is_def)
  next
    case False
    then obtain k where k: "vT Beg w (ga_impl g) \<noteq> 0" "cells w1 (vT Beg w (ga_impl g)) = Some (x, k)"
      using e(1) v(3) by (auto simp: end_is_def)
    have "yields (access ss x w1) (\<lambda>(e, w). yields (if e \<noteq> RV_OK then Some (0, w) else Some (x, w)) P)"
      using False e(2) light_keep(2) [OF l1] P light_trans [OF l1]
      by (intro access_ok_wp [OF iv]) auto
    then show ?thesis
      using g1 ty b k sg_get_element_addr_eq [OF k(2)] by (simp add: yields_bind yields_case)
  qed
qed

lemma get_end_wp:
  assumes inv: "wd_inv w" and g: "wd_addrs w arc = Some g" "\<not> ga_zombie g" and acc: "accessible ss w arc"
    and con: "conn w (ga_impl g)" and e: "end_is End w (ga_impl g) x" "x = 0 \<or> accessible ss w x"
    and P: "\<And>w'. light w w' \<Longrightarrow> P (x, w')"
  shows "yields (get_end ss arc w) P"
  unfolding get_end_def yields_bind [of "access _ _ _"] yields_case
proof (rule access_ok_wp [OF inv acc])
  fix w1 assume l1: "light w w1"
  note v = light_views [OF l1] and iv = light_keep(1) [OF l1 inv]
  have g1: "wd_addrs w1 arc = Some g" using light_same_addr [OF l1] g(1) by simp
  have ty: "sg_get_type (ga_impl g) w1 = Some (type_of w1 (ga_impl g))" "type_of w1 (ga_impl g) AND SC_CONNECTOR_MASK \<noteq> 0"
    using sg_get_type_eq [OF live_impl [OF iv g1 g(2)]] con v(4) by (simp_all add: conn_type)
  have b: "sg_get_end (ga_impl g) w1 = Some (vT End w (ga_impl g))"
    using sg_get_ends_eq(2) [of w1 "ga_impl g"] con v(1,2) by simp
  show "case (RV_OK, w1) of (e, w) \<Rightarrow> yields (if e \<noteq> RV_OK then Some (0, w) else do {
          g \<leftarrow> wd_addrs w arc;
          t \<leftarrow> sg_get_type (ga_impl g) w;
          (if t AND SC_CONNECTOR_MASK = 0 then fail_null ss RV_ERR_GEN w
           else do {
             ll \<leftarrow> sg_get_end (ga_impl g) w;
             (if ll = 0 then Some (0, w)
              else do {
                en \<leftarrow> sg_get_element_addr ll w;
                (e, w) \<leftarrow> access ss en w;
                if e \<noteq> RV_OK then Some (0, w) else Some (en, w)
              })
           }) }) P"
  proof (cases "x = 0")
    case True
    then show ?thesis using g1 ty b e(1) P [OF l1] by (simp add: end_is_def)
  next
    case False
    then obtain k where k: "vT End w (ga_impl g) \<noteq> 0" "cells w1 (vT End w (ga_impl g)) = Some (x, k)"
      using e(1) v(3) by (auto simp: end_is_def)
    have "yields (access ss x w1) (\<lambda>(e, w). yields (if e \<noteq> RV_OK then Some (0, w) else Some (x, w)) P)"
      using False e(2) light_keep(2) [OF l1] P light_trans [OF l1]
      by (intro access_ok_wp [OF iv]) auto
    then show ?thesis
      using g1 ty b k sg_get_element_addr_eq [OF k(2)] by (simp add: yields_bind yields_case)
  qed
qed

section \<open>Generation of an arc between two elements\<close>

text \<open>An element near an arc: in the arc's own segment.\<close>

definition near :: "nat \<Rightarrow> world \<Rightarrow> nat \<Rightarrow> nat \<Rightarrow> bool" where
  "near ss w seg x \<longleftrightarrow> accessible ss w x \<and>
     (\<exists>g. wd_addrs w x = Some g \<and> ga_seg g = seg \<and> \<not> ga_zombie g \<and> \<not> ga_locked g)"

lemma grown_near:
  assumes "grown w w'" "near ss w seg x"
  shows "near ss w' seg x"
  using assms(2) grown_accessible [OF assms(1)] frame_fields [OF assms(1)] unfolding near_def by metis

lemma near_end_ready: "near ss w seg x \<Longrightarrow> streams w seg = Some False \<Longrightarrow> end_ready ss w seg x"
  by (auto simp: near_def end_ready_def linkable_def)

lemma grown_streams: "grown w w' \<Longrightarrow> streams w' = streams w"
  by (simp add: grown_def)

lemma grown_sess: "grown w w' \<Longrightarrow> wd_sessions w ss \<noteq> None \<Longrightarrow> wd_sessions w' ss \<noteq> None"
  using sess_core_dom [of w' w ss] by (auto simp: grown_def)

lemma attached_arc_ready:
  assumes "attached sd w l x w'" "arc_ready ss w arc g" "l = ga_impl g"
  shows "\<exists>g'. arc_ready ss w' arc g' \<and> ga_impl g' = l \<and> ga_seg g' = ga_seg g"
proof -
  have gr: "grown w w'" "conn w' l" using assms(1) by (simp_all add: attached_def)
  have g: "wd_addrs w arc = Some g" "\<not> ga_zombie g" "accessible ss w arc" "streams w (ga_seg g) = Some False"
    using assms(2) by (simp_all add: arc_ready_def)
  obtain g' where g': "wd_addrs w' arc = Some g'" "ga_seg g' = ga_seg g" "ga_impl g' = ga_impl g" "ga_zombie g' = ga_zombie g"
    using frame_fields [OF gr(1) g(1)] by blast
  then have "arc_ready ss w' arc g'"
    using g gr assms(3) grown_accessible [OF gr(1) g(3)] grown_streams [OF gr(1)] by (simp add: arc_ready_def)
  then show ?thesis using g' assms(3) by blast
qed

definition arc_between :: "nat \<Rightarrow> world \<Rightarrow> nat \<Rightarrow> nat \<Rightarrow> nat \<Rightarrow> bool" where
  "arc_between ss w arc b e \<longleftrightarrow> accessible ss w arc \<and>
     (\<exists>g. wd_addrs w arc = Some g \<and> \<not> ga_zombie g \<and> conn w (ga_impl g) \<and>
        end_is Beg w (ga_impl g) b \<and> end_is End w (ga_impl g) e)"

lemma light_end_is: "light w w' \<Longrightarrow> end_is sd w' l x = end_is sd w l x"
  by (simp only: end_is_def light_views)

lemma light_arc_between:
  assumes "light w w'" "arc_between ss w arc b e"
  shows "arc_between ss w' arc b e"
  using assms(2) light_keep(2) [OF assms(1)]
  unfolding arc_between_def light_end_is [OF assms(1)] light_views(2) [OF assms(1)] light_same_addr [OF assms(1)]
  by blast

lemma attach_both_wp:
  assumes inv: "wd_inv w" and un: "unwatched w" and arc: "arc_ready ss w arc g"
    and b: "near ss w (ga_seg g) b" "plain_ready w b" and e: "near ss w (ga_seg g) e"
    and P: "\<And>w'. wd_inv w' \<Longrightarrow> grown w w' \<Longrightarrow> arc_between ss w' arc b e \<Longrightarrow> P (RV_OK, w')"
  shows "yields (do { (rv, w) \<leftarrow> set_beg ss arc b w; if rv = RV_OK then set_end ss arc e w else Some (rv, w) }) P"
  unfolding yields_bind yields_case
proof (rule set_beg_wp [OF inv arc near_end_ready [OF b(1)] b(2)])
  show str: "streams w (ga_seg g) = Some False" using arc by (simp add: arc_ready_def)
  fix w1 assume a1: "attached Beg w (ga_impl g) b w1"
  have gr1: "grown w w1" and inv1: "wd_inv w1" and b1: "end_is Beg w1 (ga_impl g) b"
    using a1 by (simp_all add: attached_def)
  have un1: "unwatched w1" using gr1 un by (simp add: grown_def)
  obtain g1 where g1: "arc_ready ss w1 arc g1" "ga_impl g1 = ga_impl g" "ga_seg g1 = ga_seg g"
    using attached_arc_ready [OF a1 arc] by blast
  have er: "end_ready ss w1 (ga_seg g1) e"
    using near_end_ready [OF grown_near [OF gr1 e]] grown_streams [OF gr1] str g1(3) by simp
  have "yields (set_end ss arc e w1) P"
  proof (rule set_end_wp [OF inv1 g1(1) er])
    fix w2 assume a2: "attached End w1 (ga_impl g1) e w2"
    have gr2: "grown w1 w2" and inv2: "wd_inv w2" and e2: "end_is End w2 (ga_impl g) e"
      and vT2: "vT Beg w2 = vT Beg w1" using a2 g1(2) by (simp_all add: attached_def)
    obtain g2 where g2: "arc_ready ss w2 arc g2" "ga_impl g2 = ga_impl g"
      using attached_arc_ready [OF a2 g1(1) refl] g1(2) by auto
    have "end_is Beg w2 (ga_impl g) b"
      using b1 gr2 vT2 by (auto simp: end_is_def grown_def split: if_splits)
    then have "arc_between ss w2 arc b e" using g2 e2 by (auto simp: arc_between_def arc_ready_def)
    then show "P (RV_OK, w2)" by (rule P [OF inv2 grown_trans [OF gr1 gr2]])
  qed (use un1 in simp)
  then show "case (RV_OK, w1) of (rv, w) \<Rightarrow> yields (if rv = RV_OK then set_end ss arc e w else Some (rv, w)) P"
    by simp
qed (use un in simp)

lemma bind_assoc2: "Option.bind m (\<lambda>(x, y). Option.bind (f x y) g) = Option.bind (Option.bind m (\<lambda>(x, y). f x y)) g"
  by (cases m) auto

lemma gen3_wp:
  assumes inv: "wd_inv w" and un: "unwatched w"
    and seg: "s2 \<noteq> 0" "st_segs w s2 = Some s" "session_opened ss s2 w = Some True"
    and quiet: "sg_evstream s = None" "\<And>p. p \<in> set (sg_on_add s) \<Longrightarrow> wd_waits w p \<noteq> None"
    and t: "verify_type t2 AND SC_CONNECTOR_MASK \<noteq> 0"
    and e1: "near ss w s2 e1" "plain_ready w e1" and e3: "near ss w s2 e3"
    and P: "\<And>c w'. wd_inv w' \<Longrightarrow> grown w w' \<Longrightarrow> wd_addrs w c = None \<Longrightarrow> arc_between ss w' c e1 e3 \<Longrightarrow>
      get_error ss w' = Some RV_OK \<Longrightarrow> P (RV_OK, Some c, w')"
  shows "yields (gen3_f_a_f n ss e1 s2 t2 e3 w) P"
proof -
  have ss: "wd_sessions w ss \<noteq> None" using e1(1) by (auto simp: near_def accessible_def)
  have t0: "verify_type t2 \<noteq> 0" using t by auto
  have str: "streams w s2 = Some False" using seg(2) quiet(1) by (simp add: streams_def)
  have tail: "yields (do {
       (ce2, w) \<leftarrow> create_el ss s2 t2 v;
       e \<leftarrow> get_error ss w;
       (if e \<noteq> RV_OK then Some (e, None, w)
        else do {
          (e, w) \<leftarrow> set_beg ss ce2 e1 w;
          (e, w) \<leftarrow> (if e = RV_OK then set_end ss ce2 e3 w else Some (e, w));
          (if e \<noteq> RV_OK then
             do { err \<leftarrow> get_error ss w; (_, w) \<leftarrow> erase_el n ss ce2 w; w \<leftarrow> set_error ss err w; Some (err, None, w) }
           else do { w \<leftarrow> set_error ss RV_OK w; Some (RV_OK, Some ce2, w) })
        }) }) P" if l: "light w v" for v
    unfolding yields_bind [of "create_el _ _ _ _"] yields_case
  proof (rule create_el_wp [OF light_keep(1) [OF l inv] light_keep(3) [OF l ss] seg(1) _ _ t0 quiet(1)],
      use light_store [OF l] seg in simp)
    have sc: "seg_core v = seg_core w" "sess_core v = sess_core w" and wt: "wd_waits v = wd_waits w"
      using light_calm [OF l] by (simp_all add: calm_def same_env_def)
    show "session_opened ss s2 v = Some True" using session_opened_cong [OF sc(2,1)] seg(3) by simp
    show "wd_waits v p \<noteq> None" if "p \<in> set (sg_on_add s)" for p using quiet(2) [OF that] wt by simp
    fix c w1 assume c: "created ss v s2 (verify_type t2) c w1" and err: "get_error ss w1 = Some RV_OK"
    have gr: "grown w w1" using grown_trans [OF kept_grown [OF light_kept [OF l]]] c by (simp add: created_def)
    have c1: "wd_inv w1" "accessible ss w1 c" using c by (simp_all add: created_def)
    obtain g where g: "wd_addrs w1 c = Some g" "ga_seg g = s2" "\<not> ga_zombie g" "type_of w1 (ga_impl g) = verify_type t2"
      "cells v (ga_impl g) = None"
      using c by (auto simp: created_def)
    have ar: "arc_ready ss w1 c g"
      using g c1(2) t str grown_streams [OF gr] by (simp add: arc_ready_def conn_type)
    obtain b where b: "wd_addrs v e1 = Some b" "\<not> conn v (ga_impl b)" "\<not> ga_zombie b"
      using e1 light_ready(3) [OF l e1(2)] light_same_addr [OF l] by (auto simp: plain_ready_def near_def)
    have "cells v (ga_impl b) = Some (e1, False)" by (rule live_impl [OF light_keep(1) [OF l inv] b(1,3)])
    then have "type_of w1 (ga_impl b) = type_of v (ga_impl b)" using c unfolding created_def by blast
    moreover obtain b1 where "wd_addrs w1 e1 = Some b1" "ga_impl b1 = ga_impl b"
      using frame_fields [of v w1 e1 b] c b(1) by (auto simp: created_def)
    ultimately have "plain_ready w1 e1" using b(2) by (simp add: plain_ready_def conn_type)
    then have "yields (do { (rv, w) \<leftarrow> set_beg ss c e1 w1; if rv = RV_OK then set_end ss c e3 w else Some (rv, w) })
        (\<lambda>(rv, w2). rv = RV_OK \<and> wd_inv w2 \<and> grown w1 w2 \<and> arc_between ss w2 c e1 e3)"
      using gr un grown_near [OF gr e1(1)] grown_near [OF gr e3] g(2)
      by (intro attach_both_wp [OF c1(1) _ ar]) (auto simp: grown_def)
    moreover have "yields (set_error ss RV_OK w2) (\<lambda>w. P (RV_OK, Some c, w))"
      if r: "wd_inv w2" "grown w1 w2" "arc_between ss w2 c e1 e3" for w2
    proof (rule set_error_wp)
      show "wd_sessions w2 ss \<noteq> None" by (rule grown_sess [OF grown_trans [OF gr r(2)] ss])
      fix w3 assume l3: "light w2 w3" and e: "get_error ss w3 = Some RV_OK"
      have new: "wd_addrs w c = None" using c light_same_addr [OF l] by (simp add: created_def)
      have ab: "arc_between ss w3 c e1 e3"
        by (rule light_arc_between [OF l3 r(3)])
      show "P (RV_OK, Some c, w3)"
        by (rule P [OF light_keep(1) [OF l3 r(1)] _ new ab e])
          (intro grown_trans [OF gr] grown_trans [OF r(2)] kept_grown light_kept l3)
    qed
    ultimately show "case (c, w1) of (ce2, w) \<Rightarrow> yields (do {
       e \<leftarrow> get_error ss w;
       (if e \<noteq> RV_OK then Some (e, None, w)
        else do {
          (e, w) \<leftarrow> set_beg ss ce2 e1 w;
          (e, w) \<leftarrow> (if e = RV_OK then set_end ss ce2 e3 w else Some (e, w));
          (if e \<noteq> RV_OK then
             do { err \<leftarrow> get_error ss w; (_, w) \<leftarrow> erase_el n ss ce2 w; w \<leftarrow> set_error ss err w; Some (err, None, w) }
           else do { w \<leftarrow> set_error ss RV_OK w; Some (RV_OK, Some ce2, w) })
        }) }) P"
      using err by (simp only: prod.case Option.bind.simps simp_thms if_False bind_assoc2)
        (erule yields_bindI, clarsimp simp: yields_bind)
  qed
  have acc: "yields (do { (e, w) \<leftarrow> access ss e1 v; if e = RV_OK then access ss e3 w else Some (e, w) })
      (\<lambda>(e, v'). e = RV_OK \<and> light w v')" if l: "light w v" for v
    unfolding yields_bind yields_case
  proof (rule access_ok_wp [OF light_keep(1) [OF l inv]])
    show "accessible ss v e1" using light_keep(2) [OF l] e1(1) by (simp add: near_def)
    fix v1 assume "light v v1"
    then have l1: "light w v1" using light_trans [OF l] by blast
    have "accessible ss v1 e3" using light_keep(2) [OF l1] e3 by (simp add: near_def)
    then show "case (RV_OK, v1) of (e, w') \<Rightarrow> yields (if e = RV_OK then access ss e3 w' else Some (e, w'))
        (\<lambda>(e, v'). e = RV_OK \<and> light w v')"
      using light_trans [OF l1] by (auto intro!: access_ok_wp [OF light_keep(1) [OF l1 inv]])
  qed
  show ?thesis
    unfolding gen3_f_a_f_def yields_bind [of "set_error _ _ _"] bind_assoc2 [where g = "\<lambda>(e, w). if e \<noteq> RV_OK then Some (e, None, w) else _ w"]
    by (rule set_error_wp [OF ss], rule yields_bindI [OF acc], assumption, clarify,
        simp only: prod.case simp_thms if_False tail)
qed

section \<open>A small world\<close>

text \<open>Two nodes (addresses \<open>7\<close> and \<open>8\<close>) and an arc (\<open>9\<close>) in segment \<open>1\<close>, which session \<open>5\<close> and the
  system session \<open>6\<close> have opened.\<close>

definition opened0 :: segment_set where
  "opened0 = segment_set_new[0 := 1]"

definition small_world :: world where
  "small_world =
     \<lparr>st_els = [2 \<mapsto> (new_element SC_N_CONST TMP_MISSING_IDTF)\<lparr>el_addr := 7\<rparr>,
        3 \<mapsto> (new_element SC_N_CONST TMP_MISSING_IDTF)\<lparr>el_addr := 8\<rparr>,
        4 \<mapsto> (new_element SC_ARC_MAIN TMP_MISSING_IDTF)\<lparr>el_addr := 9\<rparr>],
      st_links = (\<lambda>_. None),
      st_segs = [1 \<mapsto> (new_segment 0 ''s'' ''/'' ''p'')\<lparr>sg_list := [2, 3, 4]\<rparr>],
      st_fresh = 20, st_idtf_counter = 0,
      wd_addrs = [7 \<mapsto> new_gaddr 1 2 0 0, 8 \<mapsto> new_gaddr 1 3 0 0, 9 \<mapsto> new_gaddr 1 4 0 0],
      wd_waits = (\<lambda>_. None),
      wd_sessions = [5 \<mapsto> new_session\<lparr>ss_opened := opened0\<rparr>, 6 \<mapsto> new_session\<lparr>ss_opened := opened0\<rparr>],
      wd_system = 6, wd_event_lock = 0, wd_segtable = segment_table_new[0 := Some 1], wd_junk = 0, wd_log = []\<rparr>"

lemma small_simps [simp]:
  "st_segs small_world = [1 \<mapsto> (new_segment 0 ''s'' ''/'' ''p'')\<lparr>sg_list := [2, 3, 4]\<rparr>]"
  "wd_addrs small_world = [7 \<mapsto> new_gaddr 1 2 0 0, 8 \<mapsto> new_gaddr 1 3 0 0, 9 \<mapsto> new_gaddr 1 4 0 0]"
  "wd_sessions small_world = [5 \<mapsto> new_session\<lparr>ss_opened := opened0\<rparr>, 6 \<mapsto> new_session\<lparr>ss_opened := opened0\<rparr>]"
  by (simp_all add: small_world_def)

lemma small_opened: "ss = 5 \<or> ss = 6 \<Longrightarrow> session_opened ss 1 small_world = Some True"
  by (auto simp: session_opened_def new_segment_def new_session_def opened0_def segset_is_set_def
      SC_MAX_SEGMENTS_def segment_set_new_def bpe_def)

lemma small_inv: "wd_inv small_world"
proof -
  have "store_adj small_world"
    by (auto simp: store_adj_def adj_ok_def adj_inv_def fresh_ok_def small_world_def view_defs
        new_element_def adj_def split: side.splits)
  then show ?thesis
    by (auto simp: wd_inv_def gaddr_ok_def new_gaddr_def links_sorted_def cells_def small_world_def
        new_element_def el_is_link_def new_segment_def SC_MAX_SEGMENTS_def split: if_splits)
qed

lemma small_near: "x = 7 \<or> x = 8 \<or> x = 9 \<Longrightarrow> near 5 small_world 1 x"
  using small_opened [of 5] by (auto simp: near_def accessible_def new_gaddr_def)

lemma small_misc: "unwatched small_world" "streams small_world 1 = Some False"
  "conn small_world 4" "\<not> conn small_world 2" "\<not> conn small_world 3"
  "vT sd small_world 4 = 0"
  by (auto simp: unwatched_def new_gaddr_def streams_def new_segment_def conn_def small_world_def
      new_element_def mask_values SC_ARC_MAIN_def SC_N_CONST_def vT_def split: side.splits)

lemma small_ready: "arc_ready 5 small_world 9 (new_gaddr 1 4 0 0)" "plain_ready small_world 7" "plain_ready small_world 8"
  using small_near [of 9] small_misc by (auto simp: arc_ready_def near_def plain_ready_def new_gaddr_def)

section \<open>Properties\<close>

text \<open>C6. Access to an address is decided exactly: the check answers \<open>RV_OK\<close> if the address is not
  null, its element is alive and has a segment and an implementation, and the session has that
  segment open, otherwise \<open>RV_ERR_GEN\<close>; the answer becomes the session's error code and nothing else
  in the world changes but the log.\<close>

theorem access_decides:
  assumes "wd_inv w" "wd_sessions w ss \<noteq> None" "a = 0 \<or> wd_addrs w a \<noteq> None"
  shows "\<exists>rv w'. access ss a w = Some (rv, w') \<and> get_error ss w' = Some rv \<and> light w w' \<and>
    (rv = RV_OK \<longleftrightarrow> accessible ss w a) \<and> (rv = RV_OK \<or> rv = RV_ERR_GEN)"
proof -
  have "yields (access ss a w) (\<lambda>(rv, w'). get_error ss w' = Some rv \<and> light w w' \<and>
    (rv = RV_OK \<longleftrightarrow> accessible ss w a) \<and> (rv = RV_OK \<or> rv = RV_ERR_GEN))"
    by (rule access_wp [OF assms]) auto
  then show ?thesis by (auto simp: yields_def)
qed

theorem access_decides_witness:
  "\<exists>w'. access 5 7 small_world = Some (RV_OK, w') \<and> get_error 5 w' = Some RV_OK"
proof -
  have "wd_sessions small_world 5 \<noteq> None" "(7::nat) = 0 \<or> wd_addrs small_world 7 \<noteq> None" by simp_all
  from access_decides [OF small_inv this] show ?thesis
    using small_near [of 7] by (auto simp: near_def)
qed

lemma yieldsD2: "yields m (\<lambda>(x, y). P x y) \<Longrightarrow> \<exists>x y. m = Some (x, y) \<and> P x y"
  by (auto simp: yields_def)

lemma yieldsD3: "yields m (\<lambda>(x, y, z). P x y z) \<Longrightarrow> \<exists>x y z. m = Some (x, y, z) \<and> P x y z"
  by (auto simp: yields_def)

text \<open>C5. Creating an element in an opened segment that has no event stream, and whose \<open>on_add\<close> waits
  exist, always returns. A type that verification rejects gives no element, the error code and an
  unchanged memory. Any other type gives a fresh address that the session can access, whose element is
  new, has the completed type, one owner's references, no ends and no waits; all other addresses, ends
  and types stay as they were and the invariant of the memory is kept.\<close>

theorem create_el_contract:
  assumes "wd_inv w" "wd_sessions w ss \<noteq> None" "seg \<noteq> 0" "st_segs w seg = Some s"
    "session_opened ss seg w = Some True" "sg_evstream s = None" "\<forall>p \<in> set (sg_on_add s). wd_waits w p \<noteq> None"
  shows "\<exists>a w'. create_el ss seg type w = Some (a, w') \<and>
    (if verify_type type = 0 then a = 0 \<and> light w w' \<and> get_error ss w' = Some RV_ERR_GEN
     else created ss w seg (verify_type type) a w' \<and> get_error ss w' = Some RV_OK)"
proof (rule yieldsD2, cases "verify_type type = 0")
  case True
  obtain x where "wd_sessions w ss = Some x" using assms(2) by blast
  with True have "yields (fail_null ss RV_ERR_GEN w) (\<lambda>(a, w'). a = 0 \<and> light w w' \<and> get_error ss w' = Some RV_ERR_GEN)"
    unfolding fail_null_def yields_bind
    by (intro set_error_wp [OF assms(2)]) auto
  then show "yields (create_el ss seg type w) (\<lambda>(a, w'). if verify_type type = 0 then a = 0 \<and> light w w' \<and> get_error ss w' = Some RV_ERR_GEN
     else created ss w seg (verify_type type) a w' \<and> get_error ss w' = Some RV_OK)"
    using True assms(3,5) by (simp add: create_el_def)
next
  case False
  show "yields (create_el ss seg type w) (\<lambda>(a, w'). if verify_type type = 0 then a = 0 \<and> light w w' \<and> get_error ss w' = Some RV_ERR_GEN
     else created ss w seg (verify_type type) a w' \<and> get_error ss w' = Some RV_OK)"
    by (rule create_el_wp [OF assms(1-5) False assms(6)]) (use assms(7) False in auto)
qed

theorem create_el_contract_witness:
  "(\<exists>a w'. create_el 5 1 SC_NODE small_world = Some (a, w') \<and> accessible 5 w' a \<and> wd_inv w') \<and>
   (\<exists>w'. create_el 5 1 (SC_NODE OR SC_TUPLE) small_world = Some (0, w') \<and> light small_world w')"
proof -
  have h: "wd_sessions small_world 5 \<noteq> None" "(1::nat) \<noteq> 0" by simp_all
  have s: "st_segs small_world 1 = Some ((new_segment 0 ''s'' ''/'' ''p'')\<lparr>sg_list := [2, 3, 4]\<rparr>)" by simp
  have o: "session_opened 5 1 small_world = Some True" by (rule small_opened) simp
  note c = create_el_contract [OF small_inv h s o]
  have t: "verify_type SC_NODE \<noteq> 0" "verify_type (SC_NODE OR SC_TUPLE) = 0" by code_simp+
  show ?thesis
    using c [of SC_NODE] c [of "SC_NODE OR SC_TUPLE"] t
    by (auto simp: new_segment_def created_def)
qed

text \<open>C2. Setting the begin of an arc returns, with the return code as the session's error code, for
  an accessible connector as the arc and an accessible element that is not locked as the begin, both
  of live segments without event streams. When the element is no connector, the begin is set: reading
  it back gives that element, the arc is still a connector, the ends of all other arcs and the arc's
  own end are untouched and the invariant of the memory holds. When the element is a connector, the
  call fails with \<open>RV_ERR_GEN\<close> and an unchanged memory, unless it is the begin already, which is
  \<open>RV_OK\<close>. In both cases an attached \<open>_PRE\<close> wait may deny it before, with \<open>RV_ELSE_GEN\<close> and an
  unchanged memory; without such waits or with events locked nothing denies it.\<close>

theorem set_beg_contract:
  assumes "wd_inv w" "arc_ready ss w arc g" "end_ready ss w (ga_seg g) beg"
  shows "\<exists>rv w'. set_beg ss arc beg w = Some (rv, w') \<and> get_error ss w' = Some rv \<and>
    (plain_ready w beg \<and> rv = RV_OK \<and> wd_inv w' \<and> conn w' (ga_impl g) \<and> vT End w' = vT End w \<and>
       (\<forall>k. k \<noteq> ga_impl g \<longrightarrow> vT Beg w' k = vT Beg w k) \<and> (\<exists>w''. get_beg ss arc w' = Some (beg, w''))
     \<or> \<not> plain_ready w beg \<and> rv = connector_code w (ga_impl g) beg \<and> light w w'
     \<or> rv = RV_ELSE_GEN \<and> \<not> unwatched w \<and> light w w')"
proof (rule yieldsD2, cases "plain_ready w beg")
  case True
  show "yields (set_beg ss arc beg w) (\<lambda>(rv, w'). get_error ss w' = Some rv \<and>
    (plain_ready w beg \<and> rv = RV_OK \<and> wd_inv w' \<and> conn w' (ga_impl g) \<and> vT End w' = vT End w \<and>
       (\<forall>k. k \<noteq> ga_impl g \<longrightarrow> vT Beg w' k = vT Beg w k) \<and> (\<exists>w''. get_beg ss arc w' = Some (beg, w''))
     \<or> \<not> plain_ready w beg \<and> rv = connector_code w (ga_impl g) beg \<and> light w w'
     \<or> rv = RV_ELSE_GEN \<and> \<not> unwatched w \<and> light w w'))"
  proof (rule set_beg_wp [OF assms True])
    fix w' assume a: "attached Beg w (ga_impl g) beg w'" "get_error ss w' = Some RV_OK"
    obtain g' where g': "arc_ready ss w' arc g'" "ga_impl g' = ga_impl g"
      using attached_arc_ready [OF a(1) assms(2) refl] by blast
    have "accessible ss w' beg" using assms(3) a(1) grown_accessible [of w w' ss beg] by (auto simp: attached_def end_ready_def)
    then have "yields (get_beg ss arc w') (\<lambda>(x, _). x = beg)"
      using a(1) g' by (intro get_beg_wp [where g = g']) (auto simp: arc_ready_def attached_def)
    then show "case (RV_OK, w') of (rv, w') \<Rightarrow> get_error ss w' = Some rv \<and>
      (plain_ready w beg \<and> rv = RV_OK \<and> wd_inv w' \<and> conn w' (ga_impl g) \<and> vT End w' = vT End w \<and>
         (\<forall>k. k \<noteq> ga_impl g \<longrightarrow> vT Beg w' k = vT Beg w k) \<and> (\<exists>w''. get_beg ss arc w' = Some (beg, w''))
       \<or> \<not> plain_ready w beg \<and> rv = connector_code w (ga_impl g) beg \<and> light w w'
       \<or> rv = RV_ELSE_GEN \<and> \<not> unwatched w \<and> light w w')"
      using a True by (auto simp: attached_def yields_def)
  qed auto
next
  case False
  show "yields (set_beg ss arc beg w) (\<lambda>(rv, w'). get_error ss w' = Some rv \<and>
    (plain_ready w beg \<and> rv = RV_OK \<and> wd_inv w' \<and> conn w' (ga_impl g) \<and> vT End w' = vT End w \<and>
       (\<forall>k. k \<noteq> ga_impl g \<longrightarrow> vT Beg w' k = vT Beg w k) \<and> (\<exists>w''. get_beg ss arc w' = Some (beg, w''))
     \<or> \<not> plain_ready w beg \<and> rv = connector_code w (ga_impl g) beg \<and> light w w'
     \<or> rv = RV_ELSE_GEN \<and> \<not> unwatched w \<and> light w w'))"
    by (rule set_beg_connector_wp [OF assms False]) (use False in auto)
qed

theorem set_beg_contract_witness:
  "(\<exists>w' w''. set_beg 5 9 7 small_world = Some (RV_OK, w') \<and> get_beg 5 9 w' = Some (7, w'')) \<and>
   (\<exists>w'. set_beg 5 9 9 small_world = Some (RV_ERR_GEN, w') \<and> light small_world w')"
proof -
  have r: "end_ready 5 small_world (ga_seg (new_gaddr 1 4 0 0)) x" if "x = 7 \<or> x = 9" for x
    using near_end_ready [of 5 small_world 1 x] small_near [of x] small_misc(2) that by (auto simp: new_gaddr_def)
  have "\<not> plain_ready small_world 9" "connector_code small_world 4 9 = RV_ERR_GEN"
    using small_misc(3,6) by (auto simp: plain_ready_def connector_code_def new_gaddr_def)
  then show ?thesis
    using set_beg_contract [OF small_inv small_ready(1) r, of 7] set_beg_contract [OF small_inv small_ready(1) r, of 9]
      small_ready(2) small_misc(1) by (auto simp: new_gaddr_def)
qed

text \<open>C3. Setting the end of an arc has the same contract as setting its begin to an element that is
  no connector, but for any element as the end, nodes and connectors: for an accessible connector as
  the arc and an accessible element that is not locked as the end, both of live segments without event
  streams, either reading the end back gives that element and the other ends are untouched, or an
  attached \<open>_PRE\<close> wait denied it with \<open>RV_ELSE_GEN\<close> and an unchanged memory.\<close>

theorem set_end_contract:
  assumes "wd_inv w" "arc_ready ss w arc g" "end_ready ss w (ga_seg g) en"
  shows "\<exists>rv w'. set_end ss arc en w = Some (rv, w') \<and> get_error ss w' = Some rv \<and>
    (rv = RV_OK \<and> wd_inv w' \<and> conn w' (ga_impl g) \<and> vT Beg w' = vT Beg w \<and>
       (\<forall>k. k \<noteq> ga_impl g \<longrightarrow> vT End w' k = vT End w k) \<and> (\<exists>w''. get_end ss arc w' = Some (en, w''))
     \<or> rv = RV_ELSE_GEN \<and> \<not> unwatched w \<and> light w w')"
proof (rule yieldsD2, rule set_end_wp [OF assms])
  fix w' assume a: "attached End w (ga_impl g) en w'" "get_error ss w' = Some RV_OK"
  obtain g' where g': "arc_ready ss w' arc g'" "ga_impl g' = ga_impl g"
    using attached_arc_ready [OF a(1) assms(2) refl] by blast
  have "accessible ss w' en" using assms(3) a(1) grown_accessible [of w w' ss en] by (auto simp: attached_def end_ready_def)
  then have "yields (get_end ss arc w') (\<lambda>(x, _). x = en)"
    using a(1) g' by (intro get_end_wp [where g = g']) (auto simp: arc_ready_def attached_def)
  then show "case (RV_OK, w') of (rv, w') \<Rightarrow> get_error ss w' = Some rv \<and>
    (rv = RV_OK \<and> wd_inv w' \<and> conn w' (ga_impl g) \<and> vT Beg w' = vT Beg w \<and>
       (\<forall>k. k \<noteq> ga_impl g \<longrightarrow> vT End w' k = vT End w k) \<and> (\<exists>w''. get_end ss arc w' = Some (en, w''))
     \<or> rv = RV_ELSE_GEN \<and> \<not> unwatched w \<and> light w w')"
    using a by (auto simp: attached_def yields_def)
qed auto

theorem set_end_contract_witness:
  "\<exists>w' w''. set_end 5 9 9 small_world = Some (RV_OK, w') \<and> get_end 5 9 w' = Some (9, w'')"
  using set_end_contract [OF small_inv small_ready(1), of 9] small_near [of 9] small_misc(1,2)
    near_end_ready [of 5 small_world 1 9]
  by (auto simp: new_gaddr_def)

text \<open>C25. Taking the begin of an arc away (\<open>set_beg\<close> with the null address) returns, for an accessible
  connector of a live segment without an event stream whose begin, if it has one, is known by an
  address: the arc has no begin any more, every other end and every type is as before and the
  invariant holds; or an attached \<open>_PRE\<close> wait denied it and the memory is unchanged, which cannot be
  without such waits or with events locked.\<close>

theorem set_beg_null_contract:
  assumes "wd_inv w" "arc_ready ss w arc g" "vT Beg w (ga_impl g) \<noteq> 0 \<longrightarrow> end_addr Beg w (ga_impl g) \<noteq> 0"
  shows "\<exists>rv w'. set_beg ss arc 0 w = Some (rv, w') \<and> get_error ss w' = Some rv \<and>
    (rv = RV_OK \<and> wd_inv w' \<and> vT Beg w' = (vT Beg w)(ga_impl g := 0) \<and> vT End w' = vT End w \<and>
       (\<forall>k. type_of w' k = type_of w k)
     \<or> rv = RV_ELSE_GEN \<and> \<not> unwatched w \<and> light w w')"
  by (rule yieldsD2, rule set_beg_null_wp [OF assms]) (auto simp: detached_def other.simps)

theorem set_beg_null_contract_witness:
  "\<exists>w' w''. set_beg 5 9 7 small_world = Some (RV_OK, w') \<and> set_beg 5 9 0 w' = Some (RV_OK, w'') \<and> vT Beg w'' 4 = 0"
proof -
  let ?g = "new_gaddr 1 4 0 0"
  have e: "end_ready 5 small_world (ga_seg ?g) 7"
    using near_end_ready [OF small_near [of 7] small_misc(2)] by (simp add: new_gaddr_def)
  have "yields (set_beg 5 9 7 small_world) (\<lambda>(rv, w'). rv = RV_OK \<and> attached Beg small_world (ga_impl ?g) 7 w')"
    by (rule set_beg_wp [OF small_inv small_ready(1) e small_ready(2)]) (use small_misc(1) in auto)
  then obtain w' where w': "set_beg 5 9 7 small_world = Some (RV_OK, w')" and a: "attached Beg small_world (ga_impl ?g) 7 w'"
    by (auto simp: yields_def)
  obtain g where g: "arc_ready 5 w' 9 g" "ga_impl g = 4"
    using attached_arc_ready [OF a small_ready(1) refl] by (auto simp: new_gaddr_def)
  have "wd_inv w'" "unwatched w'" "end_addr Beg w' (ga_impl g) \<noteq> 0"
    using a g(2) small_misc(1) by (auto simp: attached_def grown_def end_is_def end_addr_def new_gaddr_def cells_def)
  then show ?thesis using set_beg_null_contract [of w' 5 9 g] g w' by auto
qed

text \<open>C4. Generating an arc (\<open>gen3_f_a_f\<close>) succeeds under these conditions: the segment is open in
  the session, has no event stream and its \<open>on_add\<close> waits exist; no wait that could deny watches the
  memory; the completed type is a connector's; both ends are accessible elements of that same segment,
  neither locked nor released with a segment, and the first of them is no connector (a connector as the
  begin is refused with \<open>RV_ERR_GEN\<close>, as \<open>set_beg\<close> does). Then the call returns \<open>RV_OK\<close>: the new arc is an accessible connector
  from the first to the second element, its address was free before, and the memory keeps its
  invariant and everything that existed.\<close>

theorem gen3_contract:
  assumes "wd_inv w" "unwatched w" "s2 \<noteq> 0" "st_segs w s2 = Some s" "session_opened ss s2 w = Some True"
    "sg_evstream s = None" "\<forall>p \<in> set (sg_on_add s). wd_waits w p \<noteq> None"
    "verify_type t2 AND SC_CONNECTOR_MASK \<noteq> 0"
    "near ss w s2 e1" "plain_ready w e1" "near ss w s2 e3"
  shows "\<exists>c w'. gen3_f_a_f n ss e1 s2 t2 e3 w = Some (RV_OK, Some c, w') \<and> wd_inv w' \<and> grown w w' \<and>
    wd_addrs w c = None \<and> arc_between ss w' c e1 e3 \<and> get_error ss w' = Some RV_OK"
proof -
  have "yields (gen3_f_a_f n ss e1 s2 t2 e3 w) (\<lambda>(rv, c, w'). rv = RV_OK \<and> (\<exists>x. c = Some x \<and> wd_inv w' \<and> grown w w' \<and>
    wd_addrs w x = None \<and> arc_between ss w' x e1 e3 \<and> get_error ss w' = Some RV_OK))"
    by (rule gen3_wp [OF assms(1-6) _ assms(8-11)]) (use assms(7) in auto)
  from yieldsD3 [OF this] show ?thesis by auto
qed

theorem gen3_contract_witness:
  "\<exists>c w'. gen3_f_a_f 0 5 7 1 SC_ARC_MAIN 8 small_world = Some (RV_OK, Some c, w') \<and> arc_between 5 w' c 7 8"
proof -
  have s: "(1::nat) \<noteq> 0" "st_segs small_world 1 = Some ((new_segment 0 ''s'' ''/'' ''p'')\<lparr>sg_list := [2, 3, 4]\<rparr>)" by simp_all
  have o: "session_opened 5 1 small_world = Some True" by (rule small_opened) simp
  have t: "verify_type SC_ARC_MAIN AND SC_CONNECTOR_MASK \<noteq> 0" by code_simp
  show ?thesis
    using gen3_contract [OF small_inv small_misc(1) s o _ _ t small_near small_ready(2) small_near, of 8 0]
    by (auto simp: new_segment_def)
qed

text \<open>C24. Changing the type of an accessible element, of a live segment that has no event stream,
  always returns, and how it ends is decided: an impossible type, or one that the element's arcs
  forbid, is refused with \<open>RV_ERR_GEN\<close> and the memory unchanged; the element's own type is accepted
  with nothing changed; any other type is refused with \<open>RV_ELSE_GEN\<close>, and the memory unchanged,
  exactly when events are not locked and some handler that waits for \<open>CHANGE_TYPE_PRE\<close> of the element
  denies it; otherwise the call succeeds and the element has the completed type. No other element
  changes.\<close>

theorem change_type_contract:
  assumes "wd_inv w" "accessible ss w a" "wd_addrs w a = Some g" "\<not> ga_zombie g"
    "streams w (ga_seg g) = Some False"
  shows "\<exists>rv w'. change_type ss a new w = Some (rv, w') \<and> get_error ss w' = Some rv \<and>
    change_result w g new rv w' \<and> typed (ga_impl g) w w'"
  by (rule yieldsD2, rule change_type_wp [OF assms]) simp

text \<open>The small world with a handler that denies every change of the type of \<open>9\<close>.\<close>

definition denying_world :: world where
  "denying_world = small_world\<lparr>
     wd_waits := [11 \<mapsto> \<lparr>wt_session = 0, wt_type = SC_WAIT_CHANGE_TYPE_PRE, wt_element = 9, wt_attached = True, wt_answer = True\<rparr>],
     wd_addrs := (wd_addrs small_world)(9 \<mapsto> (new_gaddr 1 4 0 0)\<lparr>ga_waits := (\<lambda>_. [])(SC_WAIT_CHANGE_TYPE_PRE := [11])\<rparr>)\<rparr>"

lemma denying_inv: "wd_inv denying_world"
proof -
  have "store_adj denying_world"
    by (auto simp: denying_world_def store_adj_def adj_ok_def adj_inv_def fresh_ok_def small_world_def view_defs
        new_element_def adj_def split: side.splits)
  then show ?thesis
    by (auto simp: denying_world_def wd_inv_def gaddr_ok_def new_gaddr_def links_sorted_def cells_def small_world_def
        new_element_def el_is_link_def new_segment_def SC_MAX_SEGMENTS_def wait_ok_def split: if_splits)
qed

theorem change_type_contract_witness:
  "(\<exists>w'. change_type 5 9 SC_NODE small_world = Some (RV_OK, w') \<and> type_of w' 4 = verify_type SC_NODE) \<and>
   (\<exists>w'. change_type 5 9 SC_NODE denying_world = Some (RV_ELSE_GEN, w') \<and> light denying_world w') \<and>
   type_of small_world 4 \<noteq> verify_type SC_NODE"
proof -
  let ?d = "(new_gaddr 1 4 0 0)\<lparr>ga_waits := (\<lambda>_. [])(SC_WAIT_CHANGE_TYPE_PRE := [11])\<rparr>"
  have acc: "accessible 5 small_world 9" "streams small_world 1 = Some False"
    using small_near [of 9] small_misc(2) by (auto simp: near_def)
  have "session_opened 5 1 denying_world = Some True"
    using small_opened [of 5] by (simp add: denying_world_def session_opened_def)
  then have "accessible 5 denying_world 9" "streams denying_world 1 = Some False"
    using acc(2) by (simp_all add: accessible_def denying_world_def new_gaddr_def streams_def)
  then have "\<exists>rv w'. change_type 5 9 SC_NODE denying_world = Some (rv, w') \<and> change_result denying_world ?d SC_NODE rv w'"
    using change_type_contract [OF denying_inv, of 5 9 ?d SC_NODE] by (auto simp: new_gaddr_def denying_world_def)
  moreover have "\<exists>rv w'. change_type 5 9 SC_NODE small_world = Some (rv, w') \<and>
      change_result small_world (new_gaddr 1 4 0 0) SC_NODE rv w'"
    using change_type_contract [OF small_inv, of 5 9 "new_gaddr 1 4 0 0" SC_NODE] acc by (auto simp: new_gaddr_def)
  moreover have "verify_type SC_NODE \<noteq> 0" "SC_ARC_MAIN \<noteq> verify_type SC_NODE" by code_simp+
  moreover have "type_of small_world 4 = SC_ARC_MAIN" "type_of denying_world 4 = SC_ARC_MAIN"
    "ga_impl (new_gaddr 1 4 0 0) = 4" "ga_impl ?d = 4"
    by (simp_all add: type_of_def denying_world_def small_world_def new_element_def new_gaddr_def)
  moreover have "type_change_ok small_world (new_gaddr 1 4 0 0) t" "type_change_ok denying_world ?d t" for t
    using small_misc(6)
    by (auto simp: type_change_ok_def Let_def type_of_def denying_world_def small_world_def new_gaddr_def new_element_def vT_def
        split: side.splits)
  moreover have "\<not> denied small_world (new_gaddr 1 4 0 0) SC_WAIT_CHANGE_TYPE_PRE"
    "denied denying_world ?d SC_WAIT_CHANGE_TYPE_PRE"
    by (simp_all add: denied_def new_gaddr_def denying_world_def small_world_def)
  ultimately show ?thesis by (auto simp: change_result_def)
qed
end
