(* ===== verification/Session_Errors.thy ===== *)
theory Session_Errors
  imports Session_Props
begin

text \<open>
  Two paths of \<open>sc_core.cpp\<close> on which a session does not do what it means to: the event of an end
  that is taken away, which asks a session about the null address, and the references on the sign
  of a segment that a forked session keeps for ever.
\<close>

section \<open>Taking an end away\<close>

lemma activate_pre_logged: "activate_pre_list ty prm ps w = Some (b, w') \<Longrightarrow> logged w w'"
proof (induction ps arbitrary: w)
  case (Cons p ps)
  then show ?case using logged_trans [OF logged_log] by (auto simp: bind_Some_iff Let_def split: if_splits)
qed simp

lemma activate_post_logged: "activate_post_list ty prm ps w = Some (b, w') \<Longrightarrow> logged w w'"
proof (induction ps arbitrary: w)
  case (Cons p ps)
  then show ?case using logged_trans [OF logged_log] by (auto simp: bind_Some_iff Let_def split: if_splits)
qed simp

lemma addr_activate_logged: "addr_activate a ty prm w = Some (b, w') \<Longrightarrow> logged w w'"
  by (auto simp: addr_activate_def bind_Some_iff split: if_splits
      dest: activate_pre_logged activate_post_logged)

lemma set_at_env:
  assumes "set_at sd l x w = Some (rv, w')"
  shows "wd_addrs w' = wd_addrs w" "wd_waits w' = wd_waits w" "wd_event_lock w' = wd_event_lock w" "st_segs w' = st_segs w"
proof -
  have "store.more w' = store.more w" by (rule more_set_at [OF assms])
  then show "wd_addrs w' = wd_addrs w" "wd_waits w' = wd_waits w" "wd_event_lock w' = wd_event_lock w"
    by (cases w, cases w', simp)+
  show "st_segs w' = st_segs w"
    using assms by (cases sd) (auto simp: set_at_def side_fields attach_defs detach_output_arc_def
        detach_input_arc_def link_die_def link_delete_def upd_el_def bind_Some_iff split: if_splits)
qed

text \<open>An end that nobody streams and on which a session waits.\<close>

definition end_watched :: "world \<Rightarrow> nat \<Rightarrow> bool" where
  "end_watched w arc \<longleftrightarrow> wd_event_lock w = 0 \<and> (\<exists>g p ps x. wd_addrs w arc = Some g \<and>
     streams w (ga_seg g) = Some False \<and> ga_waits g SC_WAIT_ARC_END = p # ps \<and>
     wd_waits w p = Some x \<and> wt_session x \<noteq> 0)"

lemma null_end_event: 
  assumes "end_watched w arc" "wd_addrs w 0 = None"
  shows "set_end_events arc 0 ll w = None"
proof -
  obtain g p ps x where g: "wd_addrs w arc = Some g" "streams w (ga_seg g) = Some False"
    "ga_waits g SC_WAIT_ARC_END = p # ps" "wd_waits w p = Some x" "wt_session x \<noteq> 0" "wd_event_lock w = 0"
    using assms(1) by (auto simp: end_watched_def)
  have "check_prm_access f (addr_seg_of w) [arc, 0] 2 = None" for f
    using check_prm_access_eq [of "[arc, 0]" f "addr_seg_of w"] assms(2) by (simp add: addr_seg_of_def numeral_2_eq_2)
  then have "addr_activate arc SC_WAIT_ARC_END [arc, 0] w = None"
    using g by (simp add: addr_activate_def wait_is_pre_def numeral_2_eq_2)
  moreover have "notify_setend (ga_seg g) (ga_impl g) ll w = Some w"
    using g(2) by (simp add: notify_setend_def has_stream_eq)
  ultimately show ?thesis using g(1) by (simp add: set_end_events_def)
qed

text \<open>Taking away the end of an arc on which a session waits with \<open>SC_WAIT_ARC_END\<close> never
  succeeds: after the end is cut, the event is raised with the null address as its last
  parameter, and the check whether the session may hear of it dereferences that address.\<close>

theorem detach_watched_end_aborts:
  assumes "end_watched w arc" "wd_addrs w 0 = None" "wd_addrs w arc = Some g"
    "sg_get_end (ga_impl g) w = Some ll" "ll = 0 \<or> (\<exists>a. sg_get_element_addr ll w = Some a \<and> a \<noteq> 0)"
  shows "raw_set_end arc 0 w = None"
proof -
  have keep: "end_watched w' arc \<and> wd_addrs w' 0 = None"
    if "wd_addrs w' = wd_addrs w" "wd_waits w' = wd_waits w" "wd_event_lock w' = wd_event_lock w" "streams w' = streams w" for w'
    using that assms(1,2) by (simp add: end_watched_def)
  have logged: "end_watched v' arc \<and> wd_addrs v' 0 = None"
    if "logged v v'" "end_watched v arc" "wd_addrs v 0 = None" for v v'
    using that by (auto simp: logged_def end_watched_def streams_def)
  have down: "end_watched v' arc \<and> wd_addrs v' 0 = None"
    if "down_in_qnt a v = Some v'" "end_watched v arc" "wd_addrs v 0 = None" for a v v'
    using that by (cases "a = 0") (auto simp: down_in_qnt_def upd_addr_def bind_Some_iff end_watched_def streams_def)
  have "detach_end arc a w = None" for a
  proof (cases "sg_set_end (ga_impl g) 0 w")
    case (Some r)
    obtain rv w1 where r: "sg_set_end (ga_impl g) 0 w = Some (rv, w1)" using Some by (cases r) auto
    note e = set_at_env [OF r [unfolded sg_set_end_at]]
    have "streams w1 = streams w" using e(4) by (simp add: streams_def fun_eq_iff)
    then have k1: "end_watched w1 arc" "wd_addrs w1 0 = None" using keep [OF e(1-3)] by simp_all
    have "set_end_events arc 0 0 w3 = None"
      if "down_in_qnt a w1 = Some w2" "addr_activate a SC_WAIT_DETACH_INPUT [arc, a] w2 = Some (b, w3)" for w2 w3 b
      using logged [OF addr_activate_logged [OF that(2)]] down [OF that(1) k1] by (intro null_end_event) simp_all
    then have "Option.bind (if a \<noteq> 0 then do { w \<leftarrow> down_in_qnt a w1;
         (_, w) \<leftarrow> addr_activate a SC_WAIT_DETACH_INPUT [arc, a] w; Some w } else Some w1) (set_end_events arc 0 0) = None"
      using null_end_event [OF k1] by (auto split: bind_splits if_splits prod.splits)
    then show ?thesis using assms(3) r by (simp add: detach_end_def)
  qed (simp add: detach_end_def assms(3))
  then show ?thesis using assms(3-5) by (auto simp: raw_set_end_def)
qed

text \<open>The small world with an end and a session's wait on the arc.\<close>

definition watched_world :: world where
  "watched_world = small_world\<lparr>st_els := (st_els small_world)(4 \<mapsto>
       (new_element SC_ARC_MAIN TMP_MISSING_IDTF)\<lparr>el_addr := 9, el_end := 3, el_end_hint := 11\<rparr>),
     wd_addrs := (wd_addrs small_world)(9 \<mapsto> (new_gaddr 1 4 0 0)\<lparr>ga_waits := (\<lambda>_. [])(SC_WAIT_ARC_END := [12])\<rparr>),
     wd_waits := [12 \<mapsto> \<lparr>wt_session = 5, wt_type = SC_WAIT_ARC_END, wt_element = 9, wt_attached = True, wt_answer = False\<rparr>]\<rparr>"

theorem detach_watched_end_aborts_witness: "raw_set_end 9 0 watched_world = None"
proof (rule detach_watched_end_aborts)
  show "end_watched watched_world 9"
    by (simp add: end_watched_def watched_world_def small_world_def new_gaddr_def streams_def new_segment_def)
  show "wd_addrs watched_world 9 = Some ((new_gaddr 1 4 0 0)\<lparr>ga_waits := (\<lambda>_. [])(SC_WAIT_ARC_END := [12])\<rparr>)"
    by (simp add: watched_world_def)
  show "sg_get_end (ga_impl ((new_gaddr 1 4 0 0)\<lparr>ga_waits := (\<lambda>_. [])(SC_WAIT_ARC_END := [12])\<rparr>)) watched_world = Some 3"
    by (simp add: watched_world_def new_gaddr_def sg_get_end_def new_element_def SC_ARC_MAIN_def SC_CONNECTOR_MASK_def)
qed (simp_all add: watched_world_def small_world_def sg_get_element_addr_def new_element_def)

section \<open>References on the sign of a segment\<close>

text \<open>A forked session takes two references on the sign of every segment that it opens and
  gives one back when it closes the segment: the count of the sign's address grows by one with
  every fork and close, so its element can never be freed.\<close>

theorem fork_leaks_sign_reference:
  assumes "st_segs w s = Some g" "\<not> sg_ring_0 g" "sg_index g < SC_MAX_SEGMENTS" "0 < sg_refcnt g"
    "sg_sign g \<noteq> 0" "wd_addrs w (sg_sign g) = Some x" "0 \<le> ga_refcnt x"
    "wd_sessions w ns = Some t" "segset_ok (ss_opened t)" "wd_sessions w (wd_system w) = Some y" "wd_system w \<noteq> ns"
  shows "\<exists>w1 w2. fork_segments ns [s] w = Some w1 \<and> normal_close_segment ns s w1 = Some (RV_OK, w2) \<and>
    map_option ga_refcnt (wd_addrs w2 (sg_sign g)) = Some (ga_refcnt x + 1) \<and>
    map_option sg_refcnt (st_segs w2 s) = Some (sg_refcnt g)"
proof -
  obtain d1 d2 where d: "segset_set (sg_index g) (ss_opened y) = Some d1" "segset_set (sg_index g) (ss_opened t) = Some d2"
    using assms(3) by (simp add: segset_set_def)
  have mem: "segset_mem d2 (sg_index g)" using segset_mem_set [OF assms(9) d(2)] by simp
  obtain b where b: "segset_is_set d2 (sg_index g) = Some b" "b \<noteq> 0"
    using is_set_defined [OF assms(3), of d2] is_set_mem mem by blast
  obtain d3 where d3: "segset_reset (sg_index g) d2 = Some d3"
    using assms(3) by (simp add: segset_reset_def)
  show ?thesis
    using assms d b d3
    by (simp add: addr_ref_def upd_addr_def normal_open_segment_def seg_ref_def upd_seg_def mark_opened_def upd_session_def
        normal_close_segment_def session_opened_def mark_closed_def addr_unref_def seg_unref_def)
qed

theorem fork_leaks_sign_reference_witness:
  "\<exists>w w1 w2. fork_segments 5 [1] w = Some w1 \<and> normal_close_segment 5 1 w1 = Some (RV_OK, w2) \<and>
    map_option ga_refcnt (wd_addrs w2 7) = Some (SC_ADDR_REFCNT_BARRIER + 1)"
proof -
  let ?g = "(new_segment 0 ''s'' ''/'' ''p'')\<lparr>sg_list := [2, 3, 4], sg_sign := 7\<rparr>"
  let ?w = "small_world\<lparr>st_segs := [1 \<mapsto> ?g]\<rparr>"
  have sign: "sg_sign ?g = 7" by simp
  have "wd_sessions ?w 5 = Some (new_session\<lparr>ss_opened := opened0\<rparr>)" "segset_ok opened0"
    by (simp_all add: opened0_def segset_ok_def segment_set_new_def SC_MAX_SEGMENTS_def bpe_def)
  moreover have "wd_sessions ?w (wd_system ?w) = Some (new_session\<lparr>ss_opened := opened0\<rparr>)" "wd_system ?w \<noteq> 5"
    by (simp_all add: small_world_def)
  ultimately have "\<exists>w1 w2. fork_segments 5 [1] ?w = Some w1 \<and> normal_close_segment 5 1 w1 = Some (RV_OK, w2) \<and>
      map_option ga_refcnt (wd_addrs w2 (sg_sign ?g)) = Some (ga_refcnt (new_gaddr 1 2 0 0) + 1) \<and>
      map_option sg_refcnt (st_segs w2 1) = Some (sg_refcnt ?g)"
    by (intro fork_leaks_sign_reference [where t = "new_session\<lparr>ss_opened := opened0\<rparr>"]) (simp_all add: new_segment_def new_gaddr_def new_session_def SC_MAX_SEGMENTS_def)
  then have "\<exists>w1 w2. fork_segments 5 [1] ?w = Some w1 \<and> normal_close_segment 5 1 w1 = Some (RV_OK, w2) \<and>
      map_option ga_refcnt (wd_addrs w2 7) = Some (SC_ADDR_REFCNT_BARRIER + 1)"
    using sign unfolding new_gaddr_def gaddr.simps by metis
  then show ?thesis by blast
qed

end
