(* ===== verification/Segment_Life.thy ===== *)
theory Segment_Life
  imports Session_Errors
begin

text \<open>
  The end and the beginning of a segment: the release of its addresses
  (\<open>release_segment_addreses\<close> and \<open>__release_erase\<close> in \<open>sc_core.cpp\<close>), the destructors
  \<open>~tmp_segment\<close> and \<open>~sc_segment\<close>, the references of a segment (\<open>sc_segment.h\<close>), and the iterator
  over the arcs of an element in all opened segments (\<open>meta_iterator\<close>, \<open>base_iterators_p.h\<close>).
  The loops over the elements of a segment take the length of its list as fuel. A link object
  that was deleted while its address still points at it is the link \<open>(0, 0)\<close>, whose use is \<open>None\<close>.
\<close>

section \<open>Releasing the addresses of a segment\<close>

text \<open>All arcs at one place are erased by the system session.\<close>

definition erase_arcs :: "nat \<Rightarrow> side \<Rightarrow> nat \<Rightarrow> world \<Rightarrow> world option" where
  "erase_arcs n sd ll w = map_option snd
     (arcs_of_until (\<lambda>x w. do { (_, w) \<leftarrow> raw_erase_el n (wd_system w) x w; Some (False, w) }) n sd ll w)"

fun release_erase_links :: "nat \<Rightarrow> (nat \<times> nat) list \<Rightarrow> world \<Rightarrow> world option" where
  "release_erase_links n [] w = Some w"
| "release_erase_links n ((s, ll) # ls) w =
     do {
       w \<leftarrow> erase_arcs n Beg ll w;
       w \<leftarrow> erase_arcs n End ll w;
       w \<leftarrow> sg_erase_el s ll w;
       release_erase_links n ls w
     }"

definition release_erase :: "nat \<Rightarrow> nat \<Rightarrow> world \<Rightarrow> world option" where
  "release_erase n a w =
     do {
       g \<leftarrow> wd_addrs w a;
       w \<leftarrow> upd_addr a (\<lambda>g. g\<lparr>ga_links := []\<rparr>) w;
       release_erase_links n (ga_links g) w
     }"

text \<open>Stage 1: the links in the segment are taken from the addresses they stand for.\<close>

fun release_links :: "nat \<Rightarrow> nat \<Rightarrow> nat \<Rightarrow> world \<Rightarrow> world option" where
  "release_links 0 seg current w = (if current = 0 then Some w else None)"
| "release_links (Suc n) seg current w =
     (if current = 0 then Some w
      else do {
        (ll, current) \<leftarrow> links_iter_next seg current w;
        a \<leftarrow> sg_get_element_addr ll w;
        (if a = 0 then release_links n seg current w
         else do {
           w \<leftarrow> sg_set_element_addr ll 0 w;
           g \<leftarrow> wd_addrs w a;
           ensure (ga_seg g \<noteq> seg);
           link \<leftarrow> find_link seg (ga_links g);
           w \<leftarrow> remove_link a (seg, link) w;
           release_links n seg current w
         })
      })"

fun forget_links :: "(nat \<times> nat) list \<Rightarrow> world \<Rightarrow> world option" where
  "forget_links [] w = Some w"
| "forget_links ((s, ll) # ls) w = do { w \<leftarrow> sg_set_element_addr ll 0 w; forget_links ls w }"

definition release_addr :: "nat \<Rightarrow> bool \<Rightarrow> nat \<Rightarrow> nat \<Rightarrow> world \<Rightarrow> world option" where
  "release_addr n erase seg a w =
     do {
       g \<leftarrow> wd_addrs w a;
       ensure (ga_seg g = seg);
       w \<leftarrow> (if erase then do { (_, w) \<leftarrow> addr_activate a SC_WAIT_DIE [a] w; release_erase n a w }
             else do {
               w \<leftarrow> forget_links (ga_links g) w;
               upd_addr a (\<lambda>g. g\<lparr>ga_links := map (\<lambda>_. (0, 0)) (ga_links g)\<rparr>) w
             });
       w \<leftarrow> upd_addr a (\<lambda>g. g\<lparr>ga_zombie := True\<rparr>) w;
       addr_die a w
     }"

text \<open>Stage 2: the addresses of the segment's own elements become zombies and die.\<close>

fun release_elements :: "nat \<Rightarrow> nat \<Rightarrow> bool \<Rightarrow> nat \<Rightarrow> nat \<Rightarrow> world \<Rightarrow> world option" where
  "release_elements 0 n erase seg current w = (if current = 0 then Some w else None)"
| "release_elements (Suc k) n erase seg current w =
     (if current = 0 then Some w
      else do {
        (ll, current) \<leftarrow> seg_iter_next seg current w;
        a \<leftarrow> sg_get_element_addr ll w;
        w \<leftarrow> (if a = 0 then Some w else release_addr n erase seg a w);
        release_elements k n erase seg current w
      })"

definition release_segment_addreses :: "nat \<Rightarrow> nat \<Rightarrow> bool \<Rightarrow> world \<Rightarrow> world option" where
  "release_segment_addreses n seg erase w =
     do {
       g \<leftarrow> st_segs w seg;
       current \<leftarrow> links_iter_new seg w;
       w \<leftarrow> release_links (length (sg_list g)) seg current w;
       current \<leftarrow> seg_iter_new seg w;
       release_elements (length (sg_list g)) n erase seg current w
     }"

section \<open>Destruction of a segment\<close>

definition clear_links :: "nat list \<Rightarrow> world \<Rightarrow> world" where
  "clear_links ls w = w\<lparr>st_links := (\<lambda>l. if l \<in> set ls then None else st_links w l)\<rparr>"

fun delete_elements :: "nat list \<Rightarrow> world \<Rightarrow> world option" where
  "delete_elements [] w = Some w"
| "delete_elements (l # ls) w =
     do {
       e \<leftarrow> st_els w l;
       let w = clear_links (el_output e) (clear_links (el_input e) w);
       delete_elements ls (w\<lparr>st_els := (st_els w)(l := None)\<rparr>)
     }"

text \<open>\<open>~tmp_segment\<close> and then \<open>~sc_segment\<close>.\<close>

definition segment_delete :: "nat \<Rightarrow> nat \<Rightarrow> world \<Rightarrow> world option" where
  "segment_delete n seg w =
     do {
       g \<leftarrow> st_segs w seg;
       w \<leftarrow> release_segment_addreses n seg (sg_dead g) w;
       g \<leftarrow> st_segs w seg;
       w \<leftarrow> delete_elements (sg_list g) w;
       tab \<leftarrow> segment_table_release (wd_segtable w) (sg_index g);
       Some (w\<lparr>wd_segtable := tab, st_segs := (st_segs w)(seg := None),
         wd_waits := (\<lambda>p. if p \<in> set (sg_on_add g) \<union> set (sg_on_remove g) then None else wd_waits w p)\<rparr>)
     }"

definition segment_unref :: "nat \<Rightarrow> nat \<Rightarrow> world \<Rightarrow> world option" where
  "segment_unref n seg w =
     do {
       w \<leftarrow> upd_seg seg (\<lambda>g. g\<lparr>sg_refcnt := sg_refcnt g - 1\<rparr>) w;
       g \<leftarrow> st_segs w seg;
       if sg_refcnt g = 0 then segment_delete n seg w else Some w
     }"

definition segment_die :: "nat \<Rightarrow> nat \<Rightarrow> world \<Rightarrow> world option" where
  "segment_die n seg w =
     do { w \<leftarrow> upd_seg seg (\<lambda>g. g\<lparr>sg_dead := True\<rparr>) w; segment_unref n seg w }"

text \<open>\<open>listen_segment\<close> and \<open>unlisten_segment\<close>: \<open>str\<close> is the stream given; only the segment's own one,
  recognised by \<open>same\<close>, is taken off.\<close>

definition listen_segment :: "nat \<Rightarrow> event_fifo \<Rightarrow> world \<Rightarrow> (sc_retval \<times> world) option" where
  "listen_segment seg str w =
     do {
       g \<leftarrow> st_segs w seg;
       (if sg_evstream g \<noteq> None then Some (RV_ELSE_GEN, w)
        else do { w \<leftarrow> upd_seg seg (\<lambda>g. g\<lparr>sg_evstream := Some str\<rparr>) w; Some (RV_OK, w) })
     }"

definition unlisten_segment :: "nat \<Rightarrow> bool \<Rightarrow> world \<Rightarrow> (sc_retval \<times> world) option" where
  "unlisten_segment seg same w =
     do {
       g \<leftarrow> st_segs w seg;
       (if \<not> same then Some (RV_ELSE_GEN, w)
        else do { w \<leftarrow> upd_seg seg (\<lambda>g. g\<lparr>sg_evstream := None\<rparr>) w; Some (RV_OK, w) })
     }"

section \<open>Arcs in all opened segments (\<open>meta_iterator\<close>)\<close>

text \<open>\<open>mi_links\<close> are the links not yet visited; \<open>mi_iter\<close> is the iterator over the current place.\<close>

record meta_iter =
  mi_links :: "(nat \<times> nat) list"
  mi_iter :: "arc_iter option"
  mi_from :: nat
  mi_session :: nat

text \<open>The part of \<open>next\<close> from the label \<open>__again\<close>: \<open>citer\<close> is an exhausted iterator.\<close>

fun meta_again :: "side \<Rightarrow> nat \<Rightarrow> (nat \<times> nat) list \<Rightarrow> arc_iter \<Rightarrow> world \<Rightarrow>
    (sc_retval \<times> (nat \<times> nat) list \<times> arc_iter option \<times> world) option" where
  "meta_again sd ss [] it w = do { w \<leftarrow> arc_iter_delete it w; Some (RV_ELSE_GEN, [], None, w) }"
| "meta_again sd ss ((s, ll) # ls) it w =
     do {
       b \<leftarrow> session_opened ss s w;
       (if \<not> b then meta_again sd ss ls it w
        else do {
          w \<leftarrow> arc_iter_delete it w;
          (it, w) \<leftarrow> arc_iter_new sd ll w;
          if arc_iter_is_over it then meta_again sd ss ls it w else Some (RV_OK, ls, Some it, w)
        })
     }"

definition meta_next :: "side \<Rightarrow> meta_iter \<Rightarrow> world \<Rightarrow> (sc_retval \<times> meta_iter \<times> world) option" where
  "meta_next sd m w =
     (case mi_iter m of
        None \<Rightarrow> Some (RV_ELSE_GEN, m, w)
      | Some it \<Rightarrow>
          do {
            (it, w) \<leftarrow> (if arc_iter_is_over it then Some (it, w)
                        else do { (_, it, w) \<leftarrow> arc_iter_next it w; Some (it, w) });
            (if \<not> arc_iter_is_over it then Some (RV_OK, m\<lparr>mi_iter := Some it\<rparr>, w)
             else do {
               (rv, ls, it, w) \<leftarrow> meta_again sd (mi_session m) (mi_links m) it w;
               Some (rv, m\<lparr>mi_links := ls, mi_iter := it\<rparr>, w)
             })
          })"

definition meta_new :: "side \<Rightarrow> nat \<Rightarrow> nat \<Rightarrow> world \<Rightarrow> (meta_iter \<times> world) option" where
  "meta_new sd from ss w =
     do {
       g \<leftarrow> wd_addrs w from;
       w \<leftarrow> addr_ref from w;
       w \<leftarrow> session_ref ss w;
       (it, w) \<leftarrow> arc_iter_new sd (ga_impl g) w;
       let m = \<lparr>mi_links = ga_links g, mi_iter = Some it, mi_from = from, mi_session = ss\<rparr>;
       if arc_iter_is_over it then do { (_, m, w) \<leftarrow> meta_next sd m w; Some (m, w) } else Some (m, w)
     }"

definition meta_is_over :: "meta_iter \<Rightarrow> bool" where
  "meta_is_over m \<longleftrightarrow> mi_iter m = None"

definition meta_value :: "meta_iter \<Rightarrow> nat \<Rightarrow> nat" where
  "meta_value m num =
     (case mi_iter m of
        None \<Rightarrow> 0
      | Some it \<Rightarrow> if num = 0 then mi_from m else if num = 1 then arc_iter_value it 0 else 0)"

definition meta_delete :: "meta_iter \<Rightarrow> world \<Rightarrow> world option" where
  "meta_delete m w =
     do {
       w \<leftarrow> (case mi_iter m of None \<Rightarrow> Some w | Some it \<Rightarrow> arc_iter_delete it w);
       w \<leftarrow> addr_unref (mi_from m) w;
       session_unref (mi_session m) w
     }"
end
