(* ===== verification/Meta_Iter.thy ===== *)
theory Meta_Iter
  imports Segment_Life
begin

text \<open>
  The iterator over the arcs of an element in its own segment and in all opened segments that hold
  a link to it (\<open>meta_iterator\<close>): it visits every such arc once and gives back all references.
\<close>

fun meta_collect :: "nat \<Rightarrow> side \<Rightarrow> meta_iter \<Rightarrow> world \<Rightarrow> (nat list \<times> world) option" where
  "meta_collect 0 sd m w = None"
| "meta_collect (Suc n) sd m w =
     (if meta_is_over m then do { w \<leftarrow> meta_delete m w; Some ([], w) }
      else do {
        (_, m', w) \<leftarrow> meta_next sd m w;
        (vs, w) \<leftarrow> meta_collect n sd m' w;
        Some (meta_value m 1 # vs, w)
      })"

definition place_at_rest :: "side \<Rightarrow> world \<Rightarrow> (nat \<Rightarrow> nat) \<Rightarrow> nat \<Rightarrow> bool" where
  "place_at_rest sd w f ll \<longleftrightarrow>
     (\<exists>ls. arc_list sd ll w = Some ls \<and> distinct ls \<and> (\<forall>k \<in> set ls. arc_at_rest w k (f k)))"

definition place_arcs :: "side \<Rightarrow> world \<Rightarrow> (nat \<Rightarrow> nat) \<Rightarrow> nat \<Rightarrow> nat list" where
  "place_arcs sd w f ll = (case arc_list sd ll w of None \<Rightarrow> [] | Some ls \<Rightarrow> map f ls)"

fun visible :: "nat \<Rightarrow> world \<Rightarrow> (nat \<times> nat) list \<Rightarrow> nat list" where
  "visible ss w [] = []"
| "visible ss w ((s, ll) # ls) =
     (if session_opened ss s w = Some True then ll # visible ss w ls else visible ss w ls)"

lemma arc_iter_new_at_rest:
  assumes "arc_list sd e w = Some ls" "\<And>k. k \<in> set ls \<Longrightarrow> arc_at_rest w k (f k)"
  shows "arc_iter_new sd e w = (case ls of [] \<Rightarrow> Some (\<lparr>ai_side = sd, ai_elem = e, ai_curr = 0, ai_addr = 0\<rparr>, w)
    | l # _ \<Rightarrow> map_option (\<lambda>w'. (\<lparr>ai_side = sd, ai_elem = e, ai_curr = l, ai_addr = f l\<rparr>, w')) (ref_arc l (f l) w))"
proof (cases ls)
  case (Cons l rest)
  have r: "arc_at_rest w l (f l)" using assms(2) Cons by simp
  obtain w' where w': "ref_arc l (f l) w = Some w'"
    "\<And>k. map_option lk_dead (st_links w' k) = map_option lk_dead (st_links w k)"
    "\<And>k. map_option ga_dead (wd_addrs w' k) = map_option ga_dead (wd_addrs w k)"
    using ref_arc_release [OF r] by blast
  obtain arc g where "st_links w l = Some (quiet_link arc)" "wd_addrs w (f l) = Some g" "\<not> ga_dead g"
    using r by (auto simp: arc_at_rest_def)
  then obtain k g' where "st_links w' l = Some k" "\<not> lk_dead k" "wd_addrs w' (f l) = Some g'" "\<not> ga_dead g'"
    using w'(2) [of l] w'(3) [of "f l"] by (auto simp: quiet_link_def)
  then show ?thesis
    using assms(1) Cons w'(1) arc_at_restD(1,2) [OF r] by (simp add: arc_iter_new_def addr_is_dead_def)
qed (simp add: arc_iter_new_def assms(1))

text \<open>The iterator in a world at rest, \<open>w0\<close> the world once its own references are given back.\<close>

definition meta_done :: "side \<Rightarrow> world \<Rightarrow> (nat \<Rightarrow> nat) \<Rightarrow> nat \<Rightarrow> nat \<Rightarrow> world \<Rightarrow> (nat \<times> nat) list \<Rightarrow> bool" where
  "meta_done sd w f from ss w0 ls \<longleftrightarrow>
     (do { w \<leftarrow> addr_unref from w; session_unref ss w }) = Some w0 \<and>
     (\<forall>(s, ll) \<in> set ls. session_opened ss s w \<noteq> None \<and> place_at_rest sd w f ll)"

definition run_again where
  "run_again n sd from ss ls it w = do {
     (rv, ls, it, w) \<leftarrow> meta_again sd ss ls it w;
     meta_collect n sd \<lparr>mi_links = ls, mi_iter = it, mi_from = from, mi_session = ss\<rparr> w }"

lemma meta_collect_inner:
  assumes again: "\<And>n it. length tail < n \<Longrightarrow> ai_curr it = 0 \<Longrightarrow> run_again n sd from ss ls it w = Some (tail, w0)"
    and al: "arc_list sd e w = Some (pre @ l # rest)" "distinct (pre @ l # rest)"
    and rest: "\<And>k. k \<in> set (l # rest) \<Longrightarrow> arc_at_rest w k (f k)"
    and w': "ref_arc l (f l) w = Some w'" and n: "length (l # rest) + length tail < n"
  shows "meta_collect n sd \<lparr>mi_links = ls, mi_iter = Some \<lparr>ai_side = sd, ai_elem = e, ai_curr = l, ai_addr = f l\<rparr>,
      mi_from = from, mi_session = ss\<rparr> w' = Some (map f (l # rest) @ tail, w0)"
  using al rest w' n
proof (induction rest arbitrary: pre l w' n)
  case Nil
  obtain m where m: "n = Suc m" using Nil.prems(5) by (cases n) auto
  have l0: "l \<noteq> 0" by (rule arc_at_restD(3) [OF Nil.prems(3)]) simp
  have "l \<notin> set pre" using Nil.prems(2) by simp
  note nx = arc_iter_next_at_rest [OF Nil.prems(1) this Nil.prems(3,4)]
  have "run_again m sd from ss ls \<lparr>ai_side = sd, ai_elem = e, ai_curr = 0, ai_addr = 0\<rparr> w = Some (tail, w0)"
    using Nil.prems(5) m by (intro again) simp_all
  then obtain rv ls' it' v where
    "meta_again sd ss ls \<lparr>ai_side = sd, ai_elem = e, ai_curr = 0, ai_addr = 0\<rparr> w = Some (rv, ls', it', v)"
    "meta_collect m sd \<lparr>mi_links = ls', mi_iter = it', mi_from = from, mi_session = ss\<rparr> v = Some (tail, w0)"
    by (auto simp: run_again_def bind_Some_iff)
  then show ?case
    using m l0 nx by (simp add: meta_is_over_def meta_next_def meta_value_def arc_iter_is_over_def arc_iter_value_def)
next
  case (Cons k rest)
  obtain m where m: "n = Suc m" using Cons.prems(5) by (cases n) auto
  have l0: "l \<noteq> 0" "k \<noteq> 0" by (rule arc_at_restD(3) [OF Cons.prems(3)], simp)+
  have "arc_at_rest w k (f k)" using Cons.prems(3) by simp
  then obtain w2 where w2: "ref_arc k (f k) w = Some w2" using ref_arc_release by blast
  have "l \<notin> set pre" using Cons.prems(2) by simp
  from arc_iter_next_at_rest [OF Cons.prems(1) this Cons.prems(3,4)] have
    nx: "arc_iter_next \<lparr>ai_side = sd, ai_elem = e, ai_curr = l, ai_addr = f l\<rparr> w' =
      Some (RV_OK, \<lparr>ai_side = sd, ai_elem = e, ai_curr = k, ai_addr = f k\<rparr>, w2)"
    using w2 by simp
  have "meta_collect m sd \<lparr>mi_links = ls, mi_iter = Some \<lparr>ai_side = sd, ai_elem = e, ai_curr = k, ai_addr = f k\<rparr>,
      mi_from = from, mi_session = ss\<rparr> w2 = Some (map f (k # rest) @ tail, w0)"
    using Cons.prems m w2 by (intro Cons.IH [of "pre @ [l]"]) auto
  then show ?case
    using m l0 nx by (simp add: meta_is_over_def meta_next_def meta_value_def arc_iter_is_over_def arc_iter_value_def)
qed

lemma meta_place:
  assumes again: "\<And>n it. length tail < n \<Longrightarrow> ai_curr it = 0 \<Longrightarrow> run_again n sd from ss ls it w = Some (tail, w0)"
    and pl: "place_at_rest sd w f ll" and n: "length (place_arcs sd w f ll) + length tail < n"
  shows "(do { (it, w) \<leftarrow> arc_iter_new sd ll w;
      if arc_iter_is_over it then run_again n sd from ss ls it w
      else meta_collect n sd \<lparr>mi_links = ls, mi_iter = Some it, mi_from = from, mi_session = ss\<rparr> w })
    = Some (place_arcs sd w f ll @ tail, w0)"
proof -
  obtain L where L: "arc_list sd ll w = Some L" "distinct L" "\<And>k. k \<in> set L \<Longrightarrow> arc_at_rest w k (f k)"
    using pl by (auto simp: place_at_rest_def)
  have pa: "place_arcs sd w f ll = map f L" using L(1) by (simp add: place_arcs_def)
  note new = arc_iter_new_at_rest [OF L(1,3)]
  show ?thesis
  proof (cases L)
    case Nil
    then show ?thesis using new pa n again by (simp add: arc_iter_is_over_def)
  next
    case (Cons l rest)
    have r: "arc_at_rest w l (f l)" using L(3) Cons by simp
    obtain w' where w': "ref_arc l (f l) w = Some w'" using ref_arc_release [OF r] by blast
    have "meta_collect n sd \<lparr>mi_links = ls, mi_iter = Some \<lparr>ai_side = sd, ai_elem = ll, ai_curr = l, ai_addr = f l\<rparr>,
        mi_from = from, mi_session = ss\<rparr> w' = Some (map f (l # rest) @ tail, w0)"
      using L Cons w' n pa by (intro meta_collect_inner [where pre = "[]", OF again]) auto
    then show ?thesis
      using new Cons w' pa arc_at_restD(3) [OF r] by (simp add: arc_iter_is_over_def)
  qed
qed

lemma run_again_spec:
  assumes "meta_done sd w f from ss w0 ls" "length (concat (map (place_arcs sd w f) (visible ss w ls))) < n" "ai_curr it = 0"
  shows "run_again n sd from ss ls it w = Some (concat (map (place_arcs sd w f) (visible ss w ls)), w0)"
  using assms
proof (induction ls arbitrary: n it)
  case Nil
  then show ?case
    by (cases n) (auto simp: run_again_def arc_iter_delete_def arc_iter_is_over_def meta_is_over_def
        meta_delete_def meta_done_def bind_Some_iff)
next
  case (Cons x ls)
  obtain s ll where x: "x = (s, ll)" by (cases x)
  have d: "meta_done sd w f from ss w0 ls" using Cons.prems(1) by (auto simp: meta_done_def)
  obtain b where b: "session_opened ss s w = Some b" and pl: "place_at_rest sd w f ll"
    using Cons.prems(1) x by (auto simp: meta_done_def)
  note IH = Cons.IH [OF d]
  show ?case
  proof (cases b)
    case False
    then show ?thesis using IH [of n it] Cons.prems b x by (simp add: run_again_def)
  next
    case True
    have "length (place_arcs sd w f ll) + length (concat (map (place_arcs sd w f) (visible ss w ls))) < n"
      using Cons.prems(2) True b x by simp
    from meta_place [where ls = ls, OF IH pl this] show ?thesis
      using True b x Cons.prems(3)
      by (auto simp: run_again_def arc_iter_delete_def arc_iter_is_over_def split: bind_splits)
  qed
qed

text \<open>Taking the iterator's own references.\<close>

definition meta_refs :: "nat \<Rightarrow> nat \<Rightarrow> world \<Rightarrow> world option" where
  "meta_refs from ss w = do { w \<leftarrow> addr_ref from w; session_ref ss w }"

lemma meta_refs_done:
  assumes "wd_addrs w from = Some g" "0 < ga_refcnt g" "wd_sessions w ss = Some s" "0 < ss_refcnt s"
  shows "\<exists>w'. meta_refs from ss w = Some w' \<and> (do { w \<leftarrow> addr_unref from w'; session_unref ss w }) = Some w \<and>
    (\<forall>seg. session_opened ss seg w' = session_opened ss seg w) \<and>
    (\<forall>sd ll. arc_list sd ll w' = arc_list sd ll w) \<and> (\<forall>k a. arc_at_rest w k a \<longrightarrow> arc_at_rest w' k a)"
proof -
  let ?w = "w\<lparr>wd_addrs := (wd_addrs w)(from \<mapsto> g\<lparr>ga_refcnt := ga_refcnt g + 1\<rparr>),
    wd_sessions := (wd_sessions w)(ss \<mapsto> s\<lparr>ss_refcnt := ss_refcnt s + 1\<rparr>)\<rparr>"
  have "w\<lparr>wd_addrs := (wd_addrs w)(from \<mapsto> g), wd_sessions := (wd_sessions w)(ss \<mapsto> s)\<rparr> = w"
    using assms by (simp add: fun_upd_idem)
  then have "(do { w \<leftarrow> addr_unref from ?w; session_unref ss w }) = Some w"
    using assms by (simp add: addr_unref_def upd_addr_def session_unref_def upd_session_def)
  moreover have "arc_at_rest w k a \<longrightarrow> arc_at_rest ?w k a" for k a
    using assms by (auto simp: arc_at_rest_def)
  ultimately show ?thesis
    using assms by (intro exI [of _ ?w])
      (simp add: meta_refs_def addr_ref_def session_ref_def upd_addr_def upd_session_def session_opened_def arc_list_def)
qed

text \<open>C12. Iterating over the arcs of an element through a session visits the arcs in the element's own
  segment and then those at its links in the segments the session has opened, each once and in
  list order, skips the links in all other segments, and leaves the world exactly as it was.\<close>

theorem meta_iteration_complete:
  assumes "wd_addrs w from = Some g" "0 < ga_refcnt g" "wd_sessions w ss = Some s" "0 < ss_refcnt s"
    and "place_at_rest sd w f (ga_impl g)"
    and "\<forall>(t, ll) \<in> set (ga_links g). session_opened ss t w \<noteq> None \<and> place_at_rest sd w f ll"
    and "length (concat (map (place_arcs sd w f) (ga_impl g # visible ss w (ga_links g)))) < n"
  shows "(do { (m, w1) \<leftarrow> meta_new sd from ss w; meta_collect n sd m w1 }) =
    Some (concat (map (place_arcs sd w f) (ga_impl g # visible ss w (ga_links g))), w)"
proof -
  obtain w' where r: "meta_refs from ss w = Some w'" "(do { w \<leftarrow> addr_unref from w'; session_unref ss w }) = Some w"
    "\<And>seg. session_opened ss seg w' = session_opened ss seg w" "\<And>sd ll. arc_list sd ll w' = arc_list sd ll w"
    "\<And>k a. arc_at_rest w k a \<Longrightarrow> arc_at_rest w' k a"
    using meta_refs_done [OF assms(1-4)] by blast
  have pl: "place_at_rest sd w f ll \<Longrightarrow> place_at_rest sd w' f ll" for ll
    using r(4,5) by (auto simp: place_at_rest_def)
  have vis: "visible ss w' ls = visible ss w ls" for ls 
  proof (induction ls)
    case (Cons x ls)
    then show ?case by (cases x) (simp add: r(3))
  qed simp
  have pa: "place_arcs sd w' f = place_arcs sd w f" by (simp add: fun_eq_iff place_arcs_def r(4))
  have d: "meta_done sd w' f from ss w (ga_links g)"
    using assms(6) r(2,3) pl by (auto simp: meta_done_def)
  let ?tail = "concat (map (place_arcs sd w' f) (visible ss w' (ga_links g)))"
  have "length (place_arcs sd w' f (ga_impl g)) + length ?tail < n" using assms(7) by (simp add: vis pa)
  from meta_place [where ls = "ga_links g", OF run_again_spec [OF d] pl [OF assms(5)] this]
  have main: "(do { (it, w) \<leftarrow> arc_iter_new sd (ga_impl g) w';
      if arc_iter_is_over it then run_again n sd from ss (ga_links g) it w
      else meta_collect n sd \<lparr>mi_links = ga_links g, mi_iter = Some it, mi_from = from, mi_session = ss\<rparr> w })
    = Some (place_arcs sd w f (ga_impl g) @ concat (map (place_arcs sd w f) (visible ss w (ga_links g))), w)"
    by (simp add: vis pa)
  have "meta_new sd from ss w = do {
      (it, w) \<leftarrow> arc_iter_new sd (ga_impl g) w';
      let m = \<lparr>mi_links = ga_links g, mi_iter = Some it, mi_from = from, mi_session = ss\<rparr>;
      if arc_iter_is_over it then do { (_, m, w) \<leftarrow> meta_next sd m w; Some (m, w) } else Some (m, w) }"
    using assms(1) r(1) by (auto simp: meta_new_def meta_refs_def bind_Some_iff)
  then show ?thesis
    using main by (auto simp: meta_next_def run_again_def split: bind_splits prod.splits if_splits)
qed

text \<open>A node (address \<open>7\<close>) with an output arc in its own segment \<open>1\<close>, a link in the opened segment \<open>2\<close>
  with another one, and a link in segment \<open>3\<close>, which is not opened.\<close>

definition linked_world :: world where
  "linked_world = small_world\<lparr>
     st_els := [2 \<mapsto> (new_element SC_N_CONST TMP_MISSING_IDTF)\<lparr>el_addr := 7, el_output := [21]\<rparr>,
        4 \<mapsto> (new_element SC_ARC_MAIN TMP_MISSING_IDTF)\<lparr>el_addr := 9, el_beg := 2, el_beg_hint := 21\<rparr>,
        6 \<mapsto> (new_element SC_EMPTY TMP_LINK)\<lparr>el_addr := 7, el_output := [22]\<rparr>,
        5 \<mapsto> (new_element SC_ARC_MAIN TMP_MISSING_IDTF)\<lparr>el_addr := 10, el_beg := 6, el_beg_hint := 22\<rparr>,
        8 \<mapsto> (new_element SC_EMPTY TMP_LINK)\<lparr>el_addr := 7\<rparr>],
     st_links := [21 \<mapsto> quiet_link 4, 22 \<mapsto> quiet_link 5],
     st_segs := [1 \<mapsto> new_segment 0 ''s'' ''/'' ''p'', 2 \<mapsto> new_segment 1 ''t'' ''/'' ''p'', 3 \<mapsto> new_segment 2 ''u'' ''/'' ''p''],
     wd_addrs := [7 \<mapsto> (new_gaddr 1 2 0 1)\<lparr>ga_links := [(2, 6), (3, 8)]\<rparr>, 9 \<mapsto> new_gaddr 1 4 0 0, 10 \<mapsto> new_gaddr 2 5 0 0],
     wd_sessions := [5 \<mapsto> new_session\<lparr>ss_opened := segment_set_new[0 := 3]\<rparr>]\<rparr>"

theorem meta_iteration_complete_witness:
  "(do { (m, w1) \<leftarrow> meta_new Beg 7 5 linked_world; meta_collect 10 Beg m w1 }) = Some ([9, 10], linked_world)"
proof -
  let ?g = "(new_gaddr 1 2 0 1)\<lparr>ga_links := [(2, 6), (3, 8)]\<rparr>"
  let ?f = "\<lambda>l. if l = 21 then 9 else (10 :: nat)"
  note defs = linked_world_def small_world_def new_gaddr_def new_segment_def new_element_def
  have opened: "session_opened 5 1 linked_world = Some True" "session_opened 5 2 linked_world = Some True"
    "session_opened 5 3 linked_world = Some False"
    by (simp_all add: defs session_opened_def new_session_def segset_is_set_def SC_MAX_SEGMENTS_def segment_set_new_def bpe_def)
  have al: "arc_list Beg 2 linked_world = Some [21]" "arc_list Beg 6 linked_world = Some [22]" "arc_list Beg 8 linked_world = Some []"
    by (simp_all add: defs arc_list_def adj_def)
  have rest: "arc_at_rest linked_world 21 9" "arc_at_rest linked_world 22 10"
    by (simp_all add: defs arc_at_rest_def quiet_link_def)
  have p: "place_at_rest Beg linked_world ?f 2" "place_at_rest Beg linked_world ?f 6" "place_at_rest Beg linked_world ?f 8"
    using al rest by (simp_all add: place_at_rest_def)
  have g: "wd_addrs linked_world 7 = Some ?g" "0 < ga_refcnt ?g"
    and s: "wd_sessions linked_world 5 = Some (new_session\<lparr>ss_opened := segment_set_new[0 := 3]\<rparr>)" "0 < ss_refcnt (new_session\<lparr>ss_opened := segment_set_new[0 := 3]\<rparr>)"
    by (simp_all add: defs new_session_def)
  have arcs: "concat (map (place_arcs Beg linked_world ?f) (ga_impl ?g # visible 5 linked_world (ga_links ?g))) = [9, 10]"
    using opened al by (simp add: place_arcs_def new_gaddr_def)
  show ?thesis
    using meta_iteration_complete [OF g s, of Beg ?f 10] p opened
    unfolding arcs by (auto simp: new_gaddr_def)
qed

end
