(* ===== verification/Sc_Uri.thy ===== *)
theory Sc_Uri
  imports Sc_Prelude
begin

text \<open>
  URIs as strings (\<open>libsc/libsc/string_util.h\<close>, \<open>normalize_uri\<close> of \<open>sc_core.cpp\<close>): the searches for
  slashes, the split of a path into directory and base name, and the removal of repeated slashes.
  \<open>char_at\<close> is \<open>operator[]\<close> of a constant \<open>std::string\<close>: the position one past the end reads a
  null character, any other position outside is \<open>None\<close>.
\<close>

section \<open>Searching slashes\<close>

abbreviation SLASH :: char where "SLASH \<equiv> CHR ''/''"

definition char_at :: "string \<Rightarrow> int \<Rightarrow> char option" where
  "char_at s i = (if 0 \<le> i \<and> nat i < length s then Some (s ! nat i)
     else if i = int (length s) then Some (CHR 0x00) else None)"

text \<open>\<open>for (;i>0 && uri[i]!='/';i--);\<close>\<close>

fun last_slash_from :: "string \<Rightarrow> nat \<Rightarrow> nat option" where
  "last_slash_from uri 0 = Some 0"
| "last_slash_from uri (Suc i) =
     do {
       c \<leftarrow> char_at uri (int (Suc i));
       if c \<noteq> SLASH then last_slash_from uri i else Some (Suc i)
     }"

definition find_last_slash :: "string \<Rightarrow> int \<Rightarrow> int option" where
  "find_last_slash uri start =
     (let i = (if start < 0 then int (length uri) - 1 else start)
      in if i \<le> 0 then Some i else map_option int (last_slash_from uri (nat i)))"

function first_slash_from :: "string \<Rightarrow> nat \<Rightarrow> nat" where
  "first_slash_from uri i =
     (if i < length uri \<and> uri ! i \<noteq> SLASH then first_slash_from uri (i + 1) else i)"
  by auto
termination by (relation "measure (\<lambda>(uri, i). length uri - i)") auto

declare first_slash_from.simps [simp del]

definition find_first_slash :: "string \<Rightarrow> int \<Rightarrow> nat option" where
  "find_first_slash uri start = do { ensure (0 \<le> start); Some (first_slash_from uri (nat start)) }"

section \<open>Base name and directory\<close>

text \<open>\<open>while (uri[len-1]=='/') len--;\<close> reads before the string when nothing else is left.\<close>

fun strip_slashes :: "string \<Rightarrow> nat \<Rightarrow> nat option" where
  "strip_slashes uri 0 = None"
| "strip_slashes uri (Suc n) =
     do {
       c \<leftarrow> char_at uri (int n);
       if c = SLASH then strip_slashes uri n else Some (Suc n)
     }"

definition uri_basename :: "string \<Rightarrow> string option" where
  "uri_basename uri =
     do {
       len \<leftarrow> strip_slashes uri (length uri);
       j \<leftarrow> find_last_slash uri (int len - 1);
       let i = nat (j + 1);
       Some (take (len - i) (drop i uri))
     }"

text \<open>\<open>while (i>0 && uri[i] == '/') i--;\<close>\<close>

fun skip_back :: "string \<Rightarrow> nat \<Rightarrow> nat option" where
  "skip_back uri 0 = Some 0"
| "skip_back uri (Suc i) =
     do {
       c \<leftarrow> char_at uri (int (Suc i));
       if c = SLASH then skip_back uri i else Some (Suc i)
     }"

definition uri_dirname :: "string \<Rightarrow> string option" where
  "uri_dirname uri =
     do {
       len \<leftarrow> strip_slashes uri (length uri);
       j \<leftarrow> find_last_slash uri (int len - 1);
       i \<leftarrow> (if j > 0 then skip_back uri (nat j) else Some (nat j));
       Some (take (i + 1) uri)
     }"

section \<open>Repeated slashes (\<open>normalize_uri\<close>)\<close>

text \<open>\<open>for (;i<n-1;i++) if (uri[i+1] != '/') break;\<close>\<close>

function norm_skip :: "string \<Rightarrow> nat \<Rightarrow> nat" where
  "norm_skip uri i =
     (if i + 1 < length uri \<and> uri ! (i + 1) = SLASH then norm_skip uri (i + 1) else i)"
  by auto
termination by (relation "measure (\<lambda>(uri, i). length uri - i)") auto

declare norm_skip.simps [simp del]

lemma norm_skip_ge: "i \<le> norm_skip uri i"
proof (induction uri i rule: norm_skip.induct)
  case (1 uri i)
  then show ?case by (subst norm_skip.simps) (auto dest: Suc_leD)
qed

text \<open>The outer loop: \<open>res\<close> is the part of the result written so far, of length \<open>k\<close>.\<close>

function norm_loop :: "string \<Rightarrow> nat \<Rightarrow> string \<Rightarrow> string" where
  "norm_loop uri i res =
     (if i < length uri then
        let res = res @ [uri ! i];
            i = (if uri ! i = SLASH then norm_skip uri i else i)
        in norm_loop uri (i + 1) res
      else res)"
  by auto
termination
  by (relation "measure (\<lambda>(uri, i, res). length uri - i)")
    (auto intro: diff_less_mono2 simp: less_Suc_eq_le norm_skip_ge)

declare norm_loop.simps [simp del]

definition normalize_uri :: "string \<Rightarrow> string" where
  "normalize_uri uri = norm_loop uri 0 []"

section \<open>Paths\<close>

text \<open>A path is read as its non-empty components.\<close>

fun components_from :: "string \<Rightarrow> string \<Rightarrow> string list" where
  "components_from acc [] = (if acc = [] then [] else [acc])"
| "components_from acc (c # cs) =
     (if c = SLASH then (if acc = [] then [] else [acc]) @ components_from [] cs
      else components_from (acc @ [c]) cs)"

definition components :: "string \<Rightarrow> string list" where
  "components uri = components_from [] uri"

fun squeeze :: "string \<Rightarrow> string" where
  "squeeze (a # b # cs) = (if a = SLASH \<and> b = SLASH then squeeze (b # cs) else a # squeeze (b # cs))"
| "squeeze cs = cs"

text \<open>No two slashes side by side.\<close>

fun single_slashes :: "string \<Rightarrow> bool" where
  "single_slashes (a # b # cs) \<longleftrightarrow> \<not> (a = SLASH \<and> b = SLASH) \<and> single_slashes (b # cs)"
| "single_slashes cs \<longleftrightarrow> True"

lemma squeeze_Cons: "squeeze (c # cs) = c # squeeze (if c = SLASH then dropWhile (\<lambda>x. x = SLASH) cs else cs)"
proof (cases "c = SLASH")
  case True
  have "squeeze (SLASH # cs) = SLASH # squeeze (dropWhile (\<lambda>x. x = SLASH) cs)" for cs
    by (induction cs) (auto split: list.splits elim: squeeze.elims)
  then show ?thesis using True by simp
next
  case False
  then show ?thesis by (cases cs) simp_all
qed

lemma norm_skip_drop: "drop (norm_skip uri i + 1) uri = dropWhile (\<lambda>x. x = SLASH) (drop (i + 1) uri)"
proof (induction uri i rule: norm_skip.induct)
  case (1 uri i)
  show ?case
  proof (cases "i + 1 < length uri \<and> uri ! (i + 1) = SLASH")
    case True
    then have "drop (i + 1) uri = SLASH # drop (i + 2) uri"
      using Cons_nth_drop_Suc [of "i + 1" uri] by simp
    then show ?thesis using 1 [OF True] True by (subst norm_skip.simps) simp
  next
    case False
    then have "drop (i + 1) uri = [] \<or> (\<exists>x xs. drop (i + 1) uri = x # xs \<and> x \<noteq> SLASH)"
      using Cons_nth_drop_Suc [of "i + 1" uri, symmetric] by (cases "i + 1 < length uri") simp_all
    then show ?thesis using False by (subst norm_skip.simps) auto
  qed
qed

lemma norm_loop_squeeze: "norm_loop uri i res = res @ squeeze (drop i uri)"
proof (induction uri i res rule: norm_loop.induct)
  case (1 uri i res)
  show ?case
  proof (cases "i < length uri")
    case True
    have d: "drop i uri = uri ! i # drop (i + 1) uri" using True by (simp add: Cons_nth_drop_Suc)
    let ?j = "if uri ! i = SLASH then norm_skip uri i else i"
    have "norm_loop uri i res = norm_loop uri (?j + 1) (res @ [uri ! i])"
      using True by (subst norm_loop.simps) (simp add: Let_def)
    also have "\<dots> = (res @ [uri ! i]) @ squeeze (drop (?j + 1) uri)"
      using 1 [OF True refl refl] .
    also have "\<dots> = res @ squeeze (drop i uri)"
      using norm_skip_drop [of uri i] by (simp add: d squeeze_Cons)
    finally show ?thesis .
  qed (subst norm_loop.simps, simp)
qed

lemma squeeze_single: "single_slashes (squeeze s)"
proof (induction s rule: squeeze.induct)
  case (1 a b cs)
  obtain r where "squeeze (b # cs) = b # r" using squeeze_Cons [of b cs] by blast
  then show ?case using 1 by auto
qed simp_all

lemma squeeze_id: "single_slashes s \<Longrightarrow> squeeze s = s"
  by (induction s rule: single_slashes.induct) auto

lemma components_squeeze: "components_from acc (squeeze s) = components_from acc s"
  by (induction s arbitrary: acc rule: squeeze.induct) auto

text \<open>C36. Normalising a URI only removes repeated slashes: the result has no two slashes side by side,
  the same components, a URI without repeated slashes is left as it is, and normalising again
  changes nothing.\<close>

theorem normalize_uri_correct:
  "single_slashes (normalize_uri uri) \<and> components (normalize_uri uri) = components uri \<and>
   (single_slashes uri \<longrightarrow> normalize_uri uri = uri) \<and> normalize_uri (normalize_uri uri) = normalize_uri uri"
  using squeeze_single [of uri] squeeze_id
  by (simp add: normalize_uri_def norm_loop_squeeze components_def components_squeeze)

theorem normalize_uri_correct_witness:
  "normalize_uri ''/a/b'' = ''/a/b'' \<and> normalize_uri ''//a///b/'' = ''/a/b/''"
proof
  show "normalize_uri ''/a/b'' = ''/a/b''" using normalize_uri_correct [of "''/a/b''"] by simp
qed (simp add: normalize_uri_def norm_loop_squeeze)

section \<open>Splitting a path\<close>

lemma char_at_append:
  "i < length s \<Longrightarrow> char_at (s @ t) (int i) = Some (s ! i)"
  "char_at (s @ c # t) (int (length s)) = Some c"
  by (simp_all add: char_at_def nth_append)

lemma char_at_neg [simp]: "char_at s (- 1) = None"
  by (simp add: char_at_def)

lemma strip_slashes_eq:
  assumes "s \<noteq> []" "last s \<noteq> SLASH"
  shows "strip_slashes (s @ replicate n SLASH) (length s + n) = Some (length s)"
proof (induction n)
  case 0
  obtain m where m: "length s = Suc m" using assms(1) by (cases s) auto
  then have "char_at (s @ replicate 0 SLASH) (int m) = Some (last s)"
    using char_at_append(1) [of m s "[]"] assms(1) by (simp add: last_conv_nth)
  then show ?case using m assms(2) by simp
next
  case (Suc n)
  have eq: "s @ replicate (Suc n) SLASH = (s @ replicate n SLASH) @ [SLASH]"
    by (simp add: replicate_append_same)
  have ext: "strip_slashes (t @ [c]) m = strip_slashes t m" if "m \<le> length t" for t c m
    using that
  proof (induction m)
    case (Suc m)
    then show ?case by (simp add: char_at_def nth_append)
  qed simp
  have "char_at (s @ replicate (Suc n) SLASH) (int (length s + n)) = Some SLASH"
    unfolding eq using char_at_append(2) [of "s @ replicate n SLASH" SLASH "[]"] by simp
  moreover have "strip_slashes (s @ replicate (Suc n) SLASH) (length s + n) = Some (length s)"
    unfolding eq by (subst ext) (simp_all add: Suc.IH)
  ultimately show ?case by simp
qed

lemma last_slash_eq:
  assumes "\<forall>c \<in> set n. c \<noteq> SLASH"
  shows "last_slash_from (d @ SLASH # n @ r) (length d + length n) = Some (length d)"
  using assms
proof (induction n arbitrary: r rule: rev_induct)
  case Nil
  show ?case using char_at_append(2) [of d SLASH r] by (cases "length d") simp_all
next
  case (snoc c n)
  have "char_at (d @ SLASH # n @ c # r) (int (Suc (length d + length n))) = Some c"
    using char_at_append(2) [of "d @ SLASH # n" c r] by simp
  then show ?case using snoc.prems snoc.IH [of "c # r"] by simp
qed

lemma skip_back_eq:
  assumes "d \<noteq> []" "last d \<noteq> SLASH"
  shows "skip_back (d @ replicate k SLASH @ r) (length d + k - 1) = Some (length d - 1)"
proof (induction k arbitrary: r)
  case 0
  obtain m where m: "length d = Suc m" using assms(1) by (cases d) auto
  have "char_at (d @ r) (int m) = Some (last d)"
    using char_at_append(1) [of m d r] m assms(1) by (simp add: last_conv_nth)
  then show ?case using m assms(2) by (cases m) simp_all
next
  case (Suc k)
  obtain m where m: "length d + k = Suc m" using assms(1) by (cases d) auto
  have "char_at (d @ replicate (Suc k) SLASH @ r) (int (length d + k)) = Some SLASH"
    using char_at_append(2) [of "d @ replicate k SLASH" SLASH r] by (simp add: replicate_app_Cons_same)
  then show ?case using Suc.IH [of "SLASH # r"] m by (simp add: replicate_app_Cons_same)
qed

lemma find_last_slash_pos: "0 < j \<Longrightarrow> last_slash_from u j = Some r \<Longrightarrow> find_last_slash u (int j) = Some (int r)"
  by (simp add: find_last_slash_def)

text \<open>A path of a directory and a name is split where the name begins, whatever slashes follow the
  name or separate the two: \<open>basename\<close> is the name and \<open>dirname\<close> the directory without the slashes
  that end it.\<close>

theorem uri_split:
  assumes "d \<noteq> []" "last d \<noteq> SLASH" "n \<noteq> []" "\<forall>c \<in> set n. c \<noteq> SLASH"
  shows "uri_basename (d @ replicate (Suc k) SLASH @ n @ replicate m SLASH) = Some n \<and>
    uri_dirname (d @ replicate (Suc k) SLASH @ n @ replicate m SLASH) = Some d"
proof -
  let ?d = "d @ replicate k SLASH"
  let ?u = "(?d @ SLASH # n) @ replicate m SLASH"
  have u: "d @ replicate (Suc k) SLASH @ n @ replicate m SLASH = ?u"
    by (simp add: replicate_app_Cons_same)
  have "last (?d @ SLASH # n) \<noteq> SLASH" using assms(3,4) by simp
  from strip_slashes_eq [OF _ this, of m] have len: "strip_slashes ?u (length ?u) = Some (length d + k + Suc (length n))"
    by (simp add: add.assoc)
  have "last_slash_from ?u (length ?d + length n) = Some (length ?d)"
    using last_slash_eq [OF assms(4), of ?d "replicate m SLASH"] by simp
  then have slash: "find_last_slash ?u (int (length d + k + Suc (length n)) - 1) = Some (int (length d + k))"
    using find_last_slash_pos [of "length d + k + length n" ?u] assms(1) by simp
  have "skip_back ?u (length d + k) = Some (length d - 1)"
    using skip_back_eq [OF assms(1,2), of "Suc k" "n @ replicate m SLASH"] by (simp add: replicate_app_Cons_same)
  then show ?thesis
    using len slash assms(1) unfolding u uri_basename_def uri_dirname_def
    by (cases d) (simp_all add: nat_add_distrib del: append_assoc)
qed

theorem uri_split_witness:
  "uri_basename ''/tmp/seg'' = Some ''seg'' \<and> uri_dirname ''/tmp/seg'' = Some ''/tmp''"
  using uri_split [of "''/tmp''" "''seg''" 0 0] by simp

text \<open>\<open>find_last_slash\<close> does not answer a negative number when there is no slash, as its
  documentation says, but \<open>0\<close>, and so \<open>basename\<close> of a name without a slash loses the first
  character.\<close>

theorem basename_drops_first:
  assumes "n \<noteq> []" "\<forall>c \<in> set n. c \<noteq> SLASH"
  shows "find_last_slash n (- 1) = Some 0 \<and> uri_basename n = Some (tl n) \<and> uri_dirname n = Some [hd n]"
proof -
  obtain c r where n: "n = c # r" using assms(1) by (cases n) auto
  have 1: "last_slash_from (c # r @ t) (length r) = Some 0" for t
    using assms(2) unfolding n
  proof (induction r arbitrary: t rule: rev_induct)
    case (snoc x r)
    have "char_at (c # r @ x # t) (int (Suc (length r))) = Some x"
      using char_at_append(2) [of "c # r" x t] by simp
    then show ?case using snoc.prems snoc.IH [of "x # t"] by simp
  qed simp
  have "last n \<noteq> SLASH" using assms by (cases n rule: rev_cases) auto
  from strip_slashes_eq [OF assms(1) this, of 0] have len: "strip_slashes n (length n) = Some (length n)" by simp
  have fl: "find_last_slash n (- 1) = Some 0" "find_last_slash n (int (length n) - 1) = Some 0"
    using 1 [of "[]"] by (auto simp: n find_last_slash_def Let_def)
  then show ?thesis using len n by (simp add: uri_basename_def uri_dirname_def)
qed

theorem basename_drops_first_witness: "uri_basename ''seg'' = Some ''eg''"
  using basename_drops_first [of "''seg''"] by simp

end
