(* ===== verification/Tmp_Repo.thy ===== *)
theory Tmp_Repo
  imports Meta_Iter Sc_Uri
begin

text \<open>
  The in-memory repository (\<open>libsc/libsc/tmp_repo.cpp\<close>): a tree of directories whose entries are
  directories or segments. Directories and entries have numbers, \<open>0\<close> is the null pointer; the
  entries of a directory are the live items of its safe list (theory \<open>Safe_List\<close>) in order. An entry
  that is removed is freed, so a pointer to it that the code goes on to use is an access to no
  entry, \<open>None\<close>. The repository is a value beside the world of segments.
\<close>

section \<open>Directories\<close>

record tmp_dirent =
  de_name :: string
  de_dir :: bool
  de_obj :: nat

record tmp_repo =
  rp_root :: nat
  rp_loc :: string
  rp_prefix :: string
  rp_dirs :: "nat \<Rightarrow> nat list option"
  rp_ents :: "nat \<Rightarrow> tmp_dirent option"
  rp_fresh :: nat

text \<open>\<open>create_tmp_repo\<close>: the prefix is what \<open>generate_uid\<close> gave.\<close>

definition create_tmp_repo :: "string \<Rightarrow> string \<Rightarrow> tmp_repo" where
  "create_tmp_repo loc prefix =
     \<lparr>rp_root = 1, rp_loc = loc, rp_prefix = prefix, rp_dirs = [1 \<mapsto> []], rp_ents = (\<lambda>_. None), rp_fresh = 2\<rparr>"

fun find_entry :: "(nat \<Rightarrow> tmp_dirent option) \<Rightarrow> string \<Rightarrow> nat list \<Rightarrow> nat option" where
  "find_entry ents str [] = Some 0"
| "find_entry ents str (e # es) =
     do { x \<leftarrow> ents e; if de_name x = str then Some e else find_entry ents str es }"

definition dir_find :: "nat \<Rightarrow> string \<Rightarrow> tmp_repo \<Rightarrow> nat option" where
  "dir_find d str r = do { es \<leftarrow> rp_dirs r d; find_entry (rp_ents r) str es }"

definition dir_add :: "nat \<Rightarrow> tmp_dirent \<Rightarrow> tmp_repo \<Rightarrow> tmp_repo option" where
  "dir_add d x r =
     do {
       es \<leftarrow> rp_dirs r d;
       let e = rp_fresh r;
       Some (r\<lparr>rp_dirs := (rp_dirs r)(d \<mapsto> es @ [e]), rp_ents := (rp_ents r)(e \<mapsto> x), rp_fresh := e + 1\<rparr>)
     }"

definition dir_drop :: "nat \<Rightarrow> nat \<Rightarrow> tmp_repo \<Rightarrow> tmp_repo option" where
  "dir_drop d e r =
     do {
       es \<leftarrow> rp_dirs r d;
       Some (r\<lparr>rp_dirs := (rp_dirs r)(d \<mapsto> remove1 e es), rp_ents := (rp_ents r)(e := None)\<rparr>)
     }"

text \<open>\<open>remove\<close> by name and by pointer.\<close>

definition dir_remove :: "nat \<Rightarrow> string \<Rightarrow> tmp_repo \<Rightarrow> (bool \<times> tmp_repo) option" where
  "dir_remove d str r =
     do {
       e \<leftarrow> dir_find d str r;
       (if e = 0 then Some (False, r) else do { r \<leftarrow> dir_drop d e r; Some (True, r) })
     }"

definition dir_remove_entry :: "nat \<Rightarrow> nat \<Rightarrow> tmp_repo \<Rightarrow> (bool \<times> tmp_repo) option" where
  "dir_remove_entry d e r =
     do {
       es \<leftarrow> rp_dirs r d;
       (if e \<notin> set es then Some (False, r) else do { r \<leftarrow> dir_drop d e r; Some (True, r) })
     }"

section \<open>Finding entries\<close>

text \<open>\<open>while (name[++i] == '/');\<close>\<close>

function skip_run :: "string \<Rightarrow> nat \<Rightarrow> nat" where
  "skip_run name i = (if i + 1 < length name \<and> name ! (i + 1) = SLASH then skip_run name (i + 1) else i + 1)"
  by auto
termination by (relation "measure (\<lambda>(name, i). length name - i)") auto

declare skip_run.simps [simp del]

lemma skip_run_gt: "i < skip_run name i"
proof (induction name i rule: skip_run.induct)
  case (1 name i)
  then show ?case by (subst skip_run.simps) auto
qed

lemma first_slash_ge: "i \<le> first_slash_from uri i"
proof (induction uri i rule: first_slash_from.induct)
  case (1 uri i)
  then show ?case by (subst first_slash_from.simps) auto
qed

function find_from :: "tmp_repo \<Rightarrow> string \<Rightarrow> nat \<Rightarrow> nat \<Rightarrow> nat option" where
  "find_from r name start cdir =
     (let i = first_slash_from name start in
      do {
        e \<leftarrow> dir_find cdir (take (i - start) (drop start name)) r;
        (if e = 0 then Some 0
         else do {
           x \<leftarrow> rp_ents r e;
           (if \<not> de_dir x then Some (if i < length name then 0 else e)
            else if i \<ge> length name then Some e
            else find_from r name (skip_run name i) (de_obj x))
         })
      })"
  by auto
termination
proof (relation "measure (\<lambda>(r, name, start, cdir). length name - start)", goal_cases)
  case (2 r name start cdir i e x)
  then show ?case
    using first_slash_ge [of start name] skip_run_gt [of "first_slash_from name start" name] by simp
qed simp

declare find_from.simps [simp del]

definition find_dirent :: "string \<Rightarrow> tmp_repo \<Rightarrow> nat option" where
  "find_dirent name r =
     do {
       c \<leftarrow> char_at name 0;
       ensure (c \<noteq> SLASH);
       find_from r name 0 (rp_root r)
     }"

text \<open>\<open>while (i>0) if (s[--i] == '/') break;\<close>\<close>

fun slash_before :: "string \<Rightarrow> nat \<Rightarrow> nat" where
  "slash_before s 0 = 0"
| "slash_before s (Suc i) = (if s ! i = SLASH then i else slash_before s i)"

text \<open>The directory in which \<open>s\<close> lies, null when there is none, and the position of the name.\<close>

definition find_directory :: "string \<Rightarrow> bool \<Rightarrow> tmp_repo \<Rightarrow> (nat \<times> nat) option" where
  "find_directory s dirp r =
     (if s = [] then Some (0, 0)
      else do {
        ensure (1 < length s \<or> s ! 0 \<noteq> SLASH);
        len \<leftarrow> (if dirp then strip_slashes s (length s) else Some (length s));
        (if \<not> dirp \<and> last s = SLASH then Some (0, 0)
         else let i = slash_before s (len - 1) in
           if i = 0 then Some (rp_root r, 0)
           else do {
             k \<leftarrow> strip_slashes s i;
             dent \<leftarrow> find_dirent (take k s) r;
             (if dent = 0 then Some (0, i)
              else do { x \<leftarrow> rp_ents r dent; Some (if de_dir x then (de_obj x, i + 1) else (0, i)) })
           })
      })"

section \<open>Operations of the repository\<close>

definition new_tmp_segment :: "string \<Rightarrow> tmp_repo \<Rightarrow> world \<Rightarrow> (nat \<times> world) option" where
  "new_tmp_segment uri r w =
     do {
       (tab, i) \<leftarrow> segment_table_assign (wd_segtable w) (st_fresh w);
       Some (st_fresh w, w\<lparr>wd_segtable := tab,
         st_segs := (st_segs w)(st_fresh w \<mapsto> new_segment i uri (rp_loc r) (rp_prefix r)),
         st_fresh := st_fresh w + 1\<rparr>)
     }"

text \<open>\<open>custom\<close> is the segment to enter, \<open>0\<close> to make a new one.\<close>

definition create_dirent :: "string \<Rightarrow> bool \<Rightarrow> nat \<Rightarrow> tmp_repo \<Rightarrow> world \<Rightarrow> (bool \<times> tmp_repo \<times> world) option" where
  "create_dirent s dirp custom r w =
     do {
       (d, i) \<leftarrow> find_directory s dirp r;
       (if d = 0 then Some (False, r, w)
        else if dirp then
          do {
            let newdir = rp_fresh r;
            let r = r\<lparr>rp_dirs := (rp_dirs r)(newdir \<mapsto> []), rp_fresh := newdir + 1\<rparr>;
            r \<leftarrow> dir_add d \<lparr>de_name = drop i s, de_dir = True, de_obj = newdir\<rparr> r;
            Some (True, r, w)
          }
        else do {
          (seg, w) \<leftarrow> (if custom \<noteq> 0 then
              do {
                w \<leftarrow> upd_seg custom (\<lambda>g. g\<lparr>sg_uri := s, sg_repo_uri := rp_loc r, sg_prefix := rp_prefix r\<rparr>) w;
                Some (custom, w)
              }
            else new_tmp_segment s r w);
          r \<leftarrow> dir_add d \<lparr>de_name = drop i s, de_dir = False, de_obj = seg\<rparr> r;
          Some (True, r, w)
        })
     }"

definition repo_stat :: "string \<Rightarrow> tmp_repo \<Rightarrow> sc_retval option" where
  "repo_stat s r =
     (if s = [] then Some RV_ELSE_GEN
      else do {
        e \<leftarrow> find_dirent s r;
        (if e = 0 then Some RV_ERR_GEN
         else do { x \<leftarrow> rp_ents r e; Some (if de_dir x then RV_ELSE_GEN else RV_OK) })
      })"

fun entry_names :: "(nat \<Rightarrow> tmp_dirent option) \<Rightarrow> nat list \<Rightarrow> string list option" where
  "entry_names ents [] = Some []"
| "entry_names ents (e # es) = do { x \<leftarrow> ents e; ns \<leftarrow> entry_names ents es; Some (de_name x # ns) }"

text \<open>What the directory iterator of \<open>search_dir\<close> will show; a null iterator is \<open>Some None\<close>.\<close>

definition search_dir :: "string \<Rightarrow> tmp_repo \<Rightarrow> string list option option" where
  "search_dir s r =
     (if s = [] then do { es \<leftarrow> rp_dirs r (rp_root r); map_option Some (entry_names (rp_ents r) es) }
      else do {
        e \<leftarrow> find_dirent s r;
        (if e = 0 then Some None
         else do {
           x \<leftarrow> rp_ents r e;
           (if \<not> de_dir x then Some None
            else do { es \<leftarrow> rp_dirs r (de_obj x); map_option Some (entry_names (rp_ents r) es) })
         })
      })"

definition map_segment :: "string \<Rightarrow> tmp_repo \<Rightarrow> nat option" where
  "map_segment s r =
     do {
       e \<leftarrow> find_dirent s r;
       (if e = 0 then Some 0 else do { x \<leftarrow> rp_ents r e; Some (if de_dir x then 0 else de_obj x) })
     }"

definition unmap_segment :: "nat \<Rightarrow> sc_retval" where
  "unmap_segment seg = RV_OK"

definition repo_create_segment :: "string \<Rightarrow> nat \<Rightarrow> tmp_repo \<Rightarrow> world \<Rightarrow> (sc_retval \<times> tmp_repo \<times> world) option" where
  "repo_create_segment s custom r w =
     do {
       seg \<leftarrow> map_segment s r;
       (if seg \<noteq> 0 then Some (RV_OK, r, w)
        else do { (b, r, w) \<leftarrow> create_dirent s False custom r w; Some (if b then RV_OK else RV_ERR_GEN, r, w) })
     }"

definition repo_mkdir :: "string \<Rightarrow> tmp_repo \<Rightarrow> world \<Rightarrow> (sc_retval \<times> tmp_repo \<times> world) option" where
  "repo_mkdir s r w =
     do { (b, r, w) \<leftarrow> create_dirent s True 0 r w; Some (if b then RV_OK else RV_ERR_GEN, r, w) }"

text \<open>\<open>n\<close> is the fuel of the destruction of the segment.\<close>

definition repo_unlink :: "nat \<Rightarrow> string \<Rightarrow> tmp_repo \<Rightarrow> world \<Rightarrow> (sc_retval \<times> tmp_repo \<times> world) option" where
  "repo_unlink n s r w =
     do {
       (d, pos) \<leftarrow> find_directory s False r;
       (if d = 0 then Some (RV_ERR_GEN, r, w)
        else do {
          let str = drop pos s;
          e \<leftarrow> dir_find d str r;
          (if e = 0 then Some (RV_ERR_GEN, r, w)
           else do {
             x \<leftarrow> rp_ents r e;
             (if \<not> de_dir x then
                do {
                  w \<leftarrow> segment_die n (de_obj x) w;
                  (_, r) \<leftarrow> dir_remove d str r;
                  Some (RV_OK, r, w)
                }
              else do {
                es \<leftarrow> rp_dirs r (de_obj x);
                (if es \<noteq> [] then Some (RV_ERR_GEN, r, w)
                 else do {
                   (_, r) \<leftarrow> dir_remove_entry d e r;
                   y \<leftarrow> rp_ents r e;
                   Some (RV_OK, r\<lparr>rp_dirs := (rp_dirs r)(de_obj y := None)\<rparr>, w)
                 })
              })
           })
        })
     }"

definition repo_rename :: "string \<Rightarrow> string \<Rightarrow> tmp_repo \<Rightarrow> world \<Rightarrow> (sc_retval \<times> tmp_repo \<times> world) option" where
  "repo_rename oldname newname r w =
     do {
       (olddir, pos) \<leftarrow> find_directory oldname False r;
       (if olddir = 0 then Some (RV_ERR_GEN, r, w)
        else do {
          e \<leftarrow> dir_find olddir (drop pos oldname) r;
          (newdir, pos2) \<leftarrow> find_directory newname False r;
          (if newdir = 0 then Some (RV_ERR_GEN, r, w)
           else do {
             x \<leftarrow> rp_ents r e;
             w \<leftarrow> (if \<not> de_dir x then upd_seg (de_obj x) (\<lambda>g. g\<lparr>sg_uri := newname\<rparr>) w else Some w);
             (_, r) \<leftarrow> dir_remove_entry olddir e r;
             y \<leftarrow> rp_ents r e;
             let y = y\<lparr>de_name := drop pos oldname\<rparr>;
             r \<leftarrow> dir_add newdir y (r\<lparr>rp_ents := (rp_ents r)(e \<mapsto> y)\<rparr>);
             Some (RV_OK, r\<lparr>rp_ents := (rp_ents r)(e := None)\<rparr>, w)
           })
        })
     }"
end
