(* ===== verification/Repo_Props.thy ===== *)
theory Repo_Props
  imports Tmp_Repo
begin

text \<open>
  The in-memory repository against its abstract reading: a path is a list of names, and looking an
  entry up walks the directories along it. The code's index arithmetic on strings implements that
  walk; creation extends it and disturbs nothing; three operations go wrong.
\<close>

section \<open>Paths and walks\<close>

fun join :: "string list \<Rightarrow> string" where
  "join [] = []"
| "join [c] = c"
| "join (c # cs) = c @ SLASH # join cs"

definition valid_path :: "string list \<Rightarrow> bool" where
  "valid_path cs \<longleftrightarrow> cs \<noteq> [] \<and> (\<forall>c \<in> set cs. c \<noteq> [] \<and> SLASH \<notin> set c)"

text \<open>The directory at the end of a path, null when some name is missing or is a segment.\<close>

fun dir_at :: "tmp_repo \<Rightarrow> nat \<Rightarrow> string list \<Rightarrow> nat option" where
  "dir_at r d [] = Some d"
| "dir_at r d (c # cs) =
     do {
       e \<leftarrow> dir_find d c r;
       (if e = 0 then Some 0
        else do { x \<leftarrow> rp_ents r e; if de_dir x then dir_at r (de_obj x) cs else Some 0 })
     }"

definition entry_at :: "tmp_repo \<Rightarrow> string list \<Rightarrow> nat option" where
  "entry_at r cs = do { d \<leftarrow> dir_at r (rp_root r) (butlast cs); if d = 0 then Some 0 else dir_find d (last cs) r }"

definition repo_ok :: "tmp_repo \<Rightarrow> bool" where
  "repo_ok r \<longleftrightarrow> rp_root r \<noteq> 0 \<and> rp_dirs r (rp_root r) \<noteq> None \<and> rp_ents r 0 = None \<and>
     (\<forall>d es. rp_dirs r d = Some es \<longrightarrow> d \<noteq> 0 \<and> d < rp_fresh r \<and> distinct es) \<and>
     (\<forall>d es e. rp_dirs r d = Some es \<longrightarrow> e \<in> set es \<longrightarrow> e < rp_fresh r \<and>
        (\<exists>x. rp_ents r e = Some x \<and> de_obj x \<noteq> 0 \<and> (de_dir x \<longrightarrow> rp_dirs r (de_obj x) \<noteq> None)))"

lemma repo_okD:
  assumes "repo_ok r"
  shows "rp_root r \<noteq> 0" "rp_dirs r (rp_root r) \<noteq> None" "rp_ents r 0 = None"
    "rp_dirs r d = Some es \<Longrightarrow> d \<noteq> 0 \<and> d < rp_fresh r \<and> distinct es"
    "rp_dirs r d = Some es \<Longrightarrow> e \<in> set es \<Longrightarrow> e < rp_fresh r \<and>
        (\<exists>x. rp_ents r e = Some x \<and> de_obj x \<noteq> 0 \<and> (de_dir x \<longrightarrow> rp_dirs r (de_obj x) \<noteq> None))"
  using assms unfolding repo_ok_def by blast+

lemma find_entry_cases:
  assumes "find_entry ents str es = Some e"
  shows "e = 0 \<or> e \<in> set es \<and> (\<exists>x. ents e = Some x \<and> de_name x = str)"
  using assms by (induction es) (auto simp: bind_Some_iff split: if_splits)

lemma find_entry_total: "(\<And>e. e \<in> set es \<Longrightarrow> ents e \<noteq> None) \<Longrightarrow> \<exists>e. find_entry ents str es = Some e"
  by (induction es) (auto split: bind_splits)

lemma find_entry_append:
  assumes "find_entry ents str es = Some e" "\<And>k. k \<in> set es \<Longrightarrow> ents' k = ents k" "ents 0 = None"
  shows "find_entry ents' str (es @ fs) = (if e = 0 then find_entry ents' str fs else Some e)"
  using assms
proof (induction es)
  case (Cons k es)
  then obtain x where x: "ents k = Some x" by (auto simp: bind_Some_iff)
  then have "k \<noteq> 0" using Cons.prems(3) by (cases "k = 0") auto
  then show ?case using Cons x by (auto split: if_splits)
qed simp

lemma dir_find_entry:
  assumes "repo_ok r" "dir_find d c r = Some e" "e \<noteq> 0"
  shows "\<exists>x. rp_ents r e = Some x \<and> de_obj x \<noteq> 0 \<and> (de_dir x \<longrightarrow> rp_dirs r (de_obj x) \<noteq> None)"
  using assms(2,3) repo_okD(5) [OF assms(1)] find_entry_cases [of "rp_ents r" c _ e]
  by (fastforce simp: dir_find_def bind_Some_iff)

lemma dir_find_total: "repo_ok r \<Longrightarrow> rp_dirs r d \<noteq> None \<Longrightarrow> \<exists>e. dir_find d c r = Some e"
  using find_entry_total [of _ "rp_ents r" c] repo_okD(5) [of r d] by (fastforce simp: dir_find_def)

lemma dir_at_total:
  "repo_ok r \<Longrightarrow> rp_dirs r d \<noteq> None \<Longrightarrow> \<exists>e. dir_at r d cs = Some e \<and> (e \<noteq> 0 \<longrightarrow> rp_dirs r e \<noteq> None)"
proof (induction cs arbitrary: d)
  case Nil
  then show ?case by simp
next
  case (Cons c cs)
  obtain e where e: "dir_find d c r = Some e" using dir_find_total [OF Cons.prems] by blast
  show ?case
  proof (cases "e = 0")
    case False
    obtain x where x: "rp_ents r e = Some x" "de_dir x \<longrightarrow> rp_dirs r (de_obj x) \<noteq> None"
      using dir_find_entry [OF Cons.prems(1) e False] by blast
    show ?thesis
    proof (cases "de_dir x")
      case True
      then show ?thesis using Cons.IH [of "de_obj x"] Cons.prems(1) e x by (auto split: if_splits)
    qed (use e x in simp)
  qed (use e in simp)
qed

section \<open>The index loops walk the path\<close>

lemma first_slash_end: "SLASH \<notin> set c \<Longrightarrow> first_slash_from (p @ c) (length p) = length p + length c"
proof (induction c arbitrary: p)
  case (Cons x c)
  then show ?case using Cons.IH [of "p @ [x]"] by (subst first_slash_from.simps) (auto simp: nth_append)
qed (subst first_slash_from.simps, simp)

lemma first_slash_at: "SLASH \<notin> set c \<Longrightarrow> first_slash_from (p @ c @ SLASH # t) (length p) = length p + length c"
proof (induction c arbitrary: p)
  case (Cons x c)
  then show ?case using Cons.IH [of "p @ [x]"] by (subst first_slash_from.simps) (auto simp: nth_append)
qed (subst first_slash_from.simps, simp add: nth_append)

lemma skip_run_at: "t \<noteq> [] \<Longrightarrow> hd t \<noteq> SLASH \<Longrightarrow> skip_run (p @ SLASH # t) (length p) = length p + 1"
  by (subst skip_run.simps) (cases t, auto simp: nth_append)

lemma hd_join: "valid_path cs \<Longrightarrow> join cs \<noteq> [] \<and> hd (join cs) \<noteq> SLASH"
  by (cases cs rule: join.cases) (auto simp: valid_path_def dest: hd_in_set)

definition walk :: "tmp_repo \<Rightarrow> nat \<Rightarrow> string list \<Rightarrow> nat option" where
  "walk r d cs = do { d' \<leftarrow> dir_at r d (butlast cs); if d' = 0 then Some 0 else dir_find d' (last cs) r }"

lemma walk_Cons: "walk r d (c # b # cs) = do { e \<leftarrow> dir_find d c r; if e = 0 then Some 0 else
    do { x \<leftarrow> rp_ents r e; if de_dir x then walk r (de_obj x) (b # cs) else Some 0 } }"
  by (auto simp: walk_def split: bind_splits if_splits cong: if_cong)

lemma find_from_walk:
  assumes "repo_ok r" "valid_path cs" "rp_dirs r d \<noteq> None"
  shows "find_from r (p @ join cs) (length p) d = walk r d cs"
  using assms(2,3)
proof (induction cs arbitrary: p d rule: join.induct)
  case (2 c)
  then have c: "SLASH \<notin> set c" by (simp add: valid_path_def)
  have d: "d \<noteq> 0" using repo_okD(4) [OF assms(1)] "2.prems"(2) by blast
  obtain e where e: "dir_find d c r = Some e" using dir_find_total [OF assms(1) "2.prems"(2)] by blast
  moreover have "e \<noteq> 0 \<Longrightarrow> rp_ents r e \<noteq> None" using dir_find_entry [OF assms(1) e] by auto
  ultimately show ?case
    using d first_slash_end [OF c, of p] by (subst find_from.simps) (auto simp: walk_def Let_def)
next
  case (3 c b cs)
  then have c: "SLASH \<notin> set c" and v: "valid_path (b # cs)" by (simp_all add: valid_path_def)
  obtain e where e: "dir_find d c r = Some e" using dir_find_total [OF assms(1) "3.prems"(2)] by blast
  note h = hd_join [OF v]
  have fs: "first_slash_from (p @ join (c # b # cs)) (length p) = length p + length c"
    using first_slash_at [OF c] by simp
  have sk: "skip_run (p @ join (c # b # cs)) (length p + length c) = length (p @ c @ [SLASH])"
    using skip_run_at [of "join (b # cs)" "p @ c"] h by simp
  show ?case
  proof (cases "e = 0")
    case True
    then show ?thesis using fs e by (subst find_from.simps) (simp add: walk_def Let_def)
  next
    case False
    obtain x where x: "rp_ents r e = Some x" "de_dir x \<longrightarrow> rp_dirs r (de_obj x) \<noteq> None"
      using dir_find_entry [OF assms(1) e False] by blast
    have "find_from r (p @ join (c # b # cs)) (length (p @ c @ [SLASH])) (de_obj x) = walk r (de_obj x) (b # cs)"
      if "de_dir x" using "3.IH" [OF v, of "de_obj x" "p @ c @ [SLASH]"] x(2) that by simp
    then show ?thesis using fs sk e x(1) False by (subst find_from.simps) (auto simp: walk_Cons Let_def)
  qed
qed (simp add: valid_path_def)

lemma find_dirent_entry:
  assumes "repo_ok r" "valid_path cs"
  shows "find_dirent (join cs) r = entry_at r cs"
proof -
  have "char_at (join cs) 0 = Some (hd (join cs))"
    using hd_join [OF assms(2)] by (cases "join cs") (simp_all add: char_at_def)
  then show ?thesis
    using hd_join [OF assms(2)] find_from_walk [OF assms repo_okD(2) [OF assms(1)], of "[]"]
    by (simp add: find_dirent_def entry_at_def walk_def)
qed

text \<open>C22. Looking up a path by its string walks the directories along the names of the path: the index
  arithmetic of \<open>find_dirent\<close> implements the walk, for every path of non-empty names.\<close>

theorem find_dirent_walks:
  assumes "repo_ok r" "valid_path cs"
  shows "find_dirent (join cs) r = entry_at r cs"
  by (rule find_dirent_entry [OF assms])

theorem find_dirent_walks_witness:
  "let r = \<lparr>rp_root = 1, rp_loc = ''/'', rp_prefix = ''u'', rp_dirs = [1 \<mapsto> [3], 2 \<mapsto> [4]],
             rp_ents = [3 \<mapsto> \<lparr>de_name = ''dir'', de_dir = True, de_obj = 2\<rparr>, 4 \<mapsto> \<lparr>de_name = ''seg'', de_dir = False, de_obj = 9\<rparr>],
             rp_fresh = 5\<rparr>
   in find_dirent ''dir/seg'' r = Some 4"
proof -
  let ?r = "\<lparr>rp_root = 1, rp_loc = ''/'', rp_prefix = ''u'', rp_dirs = [1 \<mapsto> [3], 2 \<mapsto> [4]],
             rp_ents = [3 \<mapsto> \<lparr>de_name = ''dir'', de_dir = True, de_obj = 2\<rparr>, 4 \<mapsto> \<lparr>de_name = ''seg'', de_dir = False, de_obj = 9\<rparr>],
             rp_fresh = 5\<rparr>"
  have "repo_ok ?r" "valid_path [''dir'', ''seg'']" by (auto simp: repo_ok_def valid_path_def split: if_splits)
  then have "find_dirent (join [''dir'', ''seg'']) ?r = entry_at ?r [''dir'', ''seg'']" by (rule find_dirent_walks)
  then show ?thesis by (simp add: entry_at_def dir_find_def)
qed

lemma slash_before_append: "i \<le> length s \<Longrightarrow> slash_before (s @ t) i = slash_before s i"
  by (induction i) (auto simp: nth_append)

lemma slash_before_none: "SLASH \<notin> set s \<Longrightarrow> i \<le> length s \<Longrightarrow> slash_before s i = 0"
  by (induction i) (auto simp: in_set_conv_nth)

lemma slash_before_at:
  "SLASH \<notin> set n \<Longrightarrow> i \<le> length n \<Longrightarrow> slash_before (p @ SLASH # n) (length p + 1 + i) = length p"
  by (induction i) (auto simp: nth_append in_set_conv_nth Suc_le_eq)

lemma join_snoc: "cs \<noteq> [] \<Longrightarrow> join (cs @ [n]) = join cs @ SLASH # n"
  by (induction cs rule: join.induct) (auto simp: neq_Nil_conv)

lemma last_join: "valid_path cs \<Longrightarrow> join cs \<noteq> [] \<and> last (join cs) \<noteq> SLASH"
proof (induction cs rule: join.induct)
  case (2 c)
  then show ?case by (auto simp: valid_path_def dest: last_in_set)
next
  case (3 c b cs)
  then show ?case by (simp add: valid_path_def)
qed (simp add: valid_path_def)

lemma dir_at_snoc:
  assumes "repo_ok r" "rp_dirs r x \<noteq> None"
  shows "dir_at r x (cs @ [c]) = do { d \<leftarrow> dir_at r x cs; if d = 0 then Some 0 else
    do { e \<leftarrow> dir_find d c r; if e = 0 then Some 0 else
      do { y \<leftarrow> rp_ents r e; Some (if de_dir y then de_obj y else 0) } } }"
  using assms(2)
proof (induction cs arbitrary: x)
  case Nil
  then have "x \<noteq> 0" using repo_okD(4) [OF assms(1)] by blast
  then show ?case by (auto cong: if_cong split: bind_splits)
next
  case (Cons b cs)
  obtain e where e: "dir_find x b r = Some e" using dir_find_total [OF assms(1) Cons.prems] by blast
  show ?case
  proof (cases "e = 0")
    case False
    obtain y where y: "rp_ents r e = Some y" "de_dir y \<longrightarrow> rp_dirs r (de_obj y) \<noteq> None"
      using dir_find_entry [OF assms(1) e False] by blast
    show ?thesis
    proof (cases "de_dir y")
      case True
      then show ?thesis using Cons.IH [of "de_obj y"] e y False by (simp cong: if_cong)
    qed (use e y False in simp)
  qed (use e in simp)
qed

lemma strip_slashes_append: "k \<le> length t \<Longrightarrow> strip_slashes (t @ u) k = strip_slashes t k"
  by (induction k) (simp_all add: char_at_def nth_append)

lemma find_directory_walk:
  assumes ok: "repo_ok r" and v: "valid_path (cs @ [n])" and d: "dir_at r (rp_root r) cs = Some d" "d \<noteq> 0"
    and m: "m = 0 \<or> dirp"
  shows "find_directory (join (cs @ [n]) @ replicate m SLASH) dirp r = Some (d, length (join (cs @ [n])) - length n)"
proof -
  let ?t = "join (cs @ [n])"
  let ?s = "?t @ replicate m SLASH"
  have n: "n \<noteq> []" "SLASH \<notin> set n" using v by (simp_all add: valid_path_def)
  note s = last_join [OF v] hd_join [OF v]
  have "strip_slashes ?s (length ?s) = Some (length ?t)" "strip_slashes ?t (length ?t) = Some (length ?t)"
    using strip_slashes_eq [of ?t m] strip_slashes_eq [of ?t 0] s(1) by simp_all
  moreover have "1 < length ?s \<or> ?s ! 0 \<noteq> SLASH" using s by (cases ?t) auto
  ultimately have fd: "find_directory ?s dirp r = (let i = slash_before ?s (length ?t - 1) in
        if i = 0 then Some (rp_root r, 0)
        else do {
            k \<leftarrow> strip_slashes ?s i;
            dent \<leftarrow> find_dirent (take k ?s) r;
            (if dent = 0 then Some (0, i)
             else do { x \<leftarrow> rp_ents r dent; Some (if de_dir x then (de_obj x, i + 1) else (0, i)) })
        })"
    using s m by (auto simp: find_directory_def cong: if_cong)
  have sb0: "slash_before ?s (length ?t - 1) = slash_before ?t (length ?t - 1)" by (rule slash_before_append) simp
  show ?thesis
  proof (cases "cs = []")
    case True
    then have "slash_before ?t (length ?t - 1) = 0" using n by (intro slash_before_none) auto
    then show ?thesis using fd sb0 True d by simp
  next
    case False
    then have vc: "valid_path cs" using v by (simp add: valid_path_def)
    have s': "?t = join cs @ SLASH # n" by (rule join_snoc [OF False])
    obtain k where k: "length n = Suc k" using n by (cases n) auto
    have sb: "slash_before ?s (length ?t - 1) = length (join cs)"
      unfolding sb0 using slash_before_at [OF n(2), of k "join cs"] k by (simp add: s')
    have st: "strip_slashes ?s (length (join cs)) = Some (length (join cs))"
      using strip_slashes_eq [of "join cs" 0] last_join [OF vc]
        strip_slashes_append [of "length (join cs)" "join cs" "SLASH # n @ replicate m SLASH"] by (simp add: s')
    have dent: "find_dirent (take (length (join cs)) ?s) r = entry_at r cs"
      using find_dirent_entry [OF ok vc] by (simp add: s')
    obtain c0 cn where cs: "cs = c0 @ [cn]" using False by (cases cs rule: rev_cases) auto
    have "\<exists>e x. entry_at r cs = Some e \<and> e \<noteq> 0 \<and> rp_ents r e = Some x \<and> de_dir x \<and> de_obj x = d"
      using d dir_at_snoc [OF ok repo_okD(2) [OF ok]] repo_okD(3) [OF ok]
      by (auto simp: cs entry_at_def bind_Some_iff split: if_splits)
    then obtain e x where "entry_at r cs = Some e" "e \<noteq> 0" "rp_ents r e = Some x" "de_dir x" "de_obj x = d" by blast
    then show ?thesis using fd sb st dent last_join [OF vc] d(2) by (simp add: s')
  qed
qed

lemma find_directory_path:
  assumes "repo_ok r" "valid_path (cs @ [n])" "dir_at r (rp_root r) cs = Some d" "d \<noteq> 0"
  shows "find_directory (join (cs @ [n])) dirp r = Some (d, length (join (cs @ [n])) - length n)"
  using find_directory_walk [OF assms, of 0 dirp] by simp

section \<open>Creating entries\<close>

text \<open>What every creation does to the repository: a new entry at the end of a directory.\<close>

definition entry_added :: "nat \<Rightarrow> tmp_dirent \<Rightarrow> tmp_repo \<Rightarrow> tmp_repo \<Rightarrow> bool" where
  "entry_added d x r r' \<longleftrightarrow> repo_ok r \<and> rp_dirs r d \<noteq> None \<and> rp_root r' = rp_root r \<and> rp_loc r' = rp_loc r \<and>
     rp_prefix r' = rp_prefix r \<and> (\<exists>e. rp_fresh r \<le> e \<and> e < rp_fresh r' \<and> rp_ents r' = (rp_ents r)(e \<mapsto> x) \<and> e \<noteq> 0 \<and>
       (\<forall>k es. rp_dirs r k = Some es \<longrightarrow> rp_dirs r' k = Some (if k = d then es @ [e] else es)) \<and>
       (\<forall>k. rp_dirs r k = None \<longrightarrow> rp_dirs r' k = None \<or> rp_dirs r' k = Some [] \<and> k \<noteq> 0 \<and> k < rp_fresh r'))"

lemma entry_added_ok:
  assumes "entry_added d x r r'" "de_obj x \<noteq> 0" "de_dir x \<longrightarrow> rp_dirs r' (de_obj x) \<noteq> None"
  shows "repo_ok r'"
proof -
  obtain e where e: "rp_fresh r \<le> e" "e < rp_fresh r'" "rp_ents r' = (rp_ents r)(e \<mapsto> x)" "e \<noteq> 0"
    "\<And>k es. rp_dirs r k = Some es \<Longrightarrow> rp_dirs r' k = Some (if k = d then es @ [e] else es)"
    "\<And>k. rp_dirs r k = None \<Longrightarrow> rp_dirs r' k = None \<or> rp_dirs r' k = Some [] \<and> k \<noteq> 0 \<and> k < rp_fresh r'"
    and ok: "repo_ok r" and rt: "rp_root r' = rp_root r"
    using assms(1) by (auto simp: entry_added_def)
  note D = repo_okD [OF ok]
  have keep: "rp_dirs r k \<noteq> None \<Longrightarrow> rp_dirs r' k \<noteq> None" for k using e(5) by fastforce
  have old: "rp_dirs r' k = Some es \<Longrightarrow> (\<exists>fs. rp_dirs r k = Some fs \<and> es = (if k = d then fs @ [e] else fs)) \<or>
      rp_dirs r k = None \<and> es = [] \<and> k \<noteq> 0 \<and> k < rp_fresh r'" for k es
    using e(5,6) [of k] by (cases "rp_dirs r k") auto
  have new: "e \<notin> set fs" if "rp_dirs r k = Some fs" for k fs using D(5) [OF that, of e] e(1) by auto
  have dirs: "k \<noteq> 0 \<and> k < rp_fresh r' \<and> distinct es" if "rp_dirs r' k = Some es" for k es
    using old [OF that] D(4) [of k] e(1,2) new by (auto split: if_splits)
  have ents: "i < rp_fresh r' \<and> (\<exists>y. rp_ents r' i = Some y \<and> de_obj y \<noteq> 0 \<and> (de_dir y \<longrightarrow> rp_dirs r' (de_obj y) \<noteq> None))"
    if h: "rp_dirs r' k = Some es" "i \<in> set es" for k es i
  proof (cases "i = e")
    case True
    then show ?thesis using e(2,3) assms(2,3) by simp
  next
    case False
    then obtain fs where "rp_dirs r k = Some fs" "i \<in> set fs" using old [OF h(1)] h(2) by (auto split: if_splits)
    from D(5) [OF this] show ?thesis using e(1-3) False keep by force
  qed
  show ?thesis
    unfolding repo_ok_def rt using D(1) keep [OF D(2)] dirs ents e(3,4) D(3) by (auto simp del: not_None_eq)
qed

lemma entry_added_find:
  assumes "entry_added d x r r'" "dir_find k c r = Some e" "e \<noteq> 0"
  shows "dir_find k c r' = Some e"
proof -
  obtain n where n: "rp_fresh r \<le> n" "rp_ents r' = (rp_ents r)(n \<mapsto> x)"
    "\<And>k es. rp_dirs r k = Some es \<Longrightarrow> rp_dirs r' k = Some (if k = d then es @ [n] else es)"
    and ok: "repo_ok r" using assms(1) by (auto simp: entry_added_def)
  obtain es where es: "rp_dirs r k = Some es" "find_entry (rp_ents r) c es = Some e"
    using assms(2) by (auto simp: dir_find_def bind_Some_iff)
  have same: "rp_ents r' i = rp_ents r i" if "i \<in> set es" for i
    using repo_okD(5) [OF ok es(1) that] n(1,2) by auto
  show ?thesis
    using find_entry_append [OF es(2) same repo_okD(3) [OF ok], of "[n]"]
      find_entry_append [OF es(2) same repo_okD(3) [OF ok], of "[]"] assms(3) n(3) [OF es(1)]
    by (simp add: dir_find_def)
qed

lemma entry_added_dir_at:
  assumes "entry_added d x r r'" "rp_dirs r k \<noteq> None" "dir_at r k cs = Some e" "e \<noteq> 0"
  shows "dir_at r' k cs = Some e"
  using assms(2,3)
proof (induction cs arbitrary: k)
  case (Cons c cs)
  have ok: "repo_ok r" using assms(1) by (simp add: entry_added_def)
  obtain i where i: "dir_find k c r = Some i" "i \<noteq> 0"
    using Cons.prems(2) assms(4) by (auto simp: bind_Some_iff split: if_splits)
  obtain y where y: "rp_ents r i = Some y" "de_dir y" "dir_at r (de_obj y) cs = Some e"
    using Cons.prems(2) i assms(4) by (auto simp: bind_Some_iff split: if_splits)
  obtain es where "rp_dirs r k = Some es" "i \<in> set es"
    using i find_entry_cases [of "rp_ents r" c _ i] by (auto simp: dir_find_def bind_Some_iff)
  then have "i < rp_fresh r" "rp_dirs r (de_obj y) \<noteq> None" using repo_okD(5) [OF ok, of k es i] y by auto
  moreover from this have "rp_ents r' i = Some y" using assms(1) y(1) by (auto simp: entry_added_def)
  ultimately show ?case
    using Cons.IH [OF _ y(3)] entry_added_find [OF assms(1) i] i(2) y(2) by simp
qed simp

lemma entry_added_entry_at:
  assumes "entry_added d x r r'" "entry_at r cs = Some e" "e \<noteq> 0"
  shows "entry_at r' cs = Some e"
proof -
  have ok: "repo_ok r" and rt: "rp_root r' = rp_root r" using assms(1) by (simp_all add: entry_added_def)
  obtain k where "dir_at r (rp_root r) (butlast cs) = Some k" "k \<noteq> 0" "dir_find k (last cs) r = Some e"
    using assms(2,3) by (auto simp: entry_at_def bind_Some_iff split: if_splits)
  then show ?thesis
    using entry_added_dir_at [OF assms(1) repo_okD(2) [OF ok]] entry_added_find [OF assms(1) _ assms(3)]
    by (simp add: entry_at_def rt)
qed

lemma entry_added_here:
  assumes "entry_added d x r r'" "dir_at r (rp_root r) cs = Some d" "d \<noteq> 0" "dir_find d (de_name x) r = Some 0"
  shows "\<exists>e. entry_at r' (cs @ [de_name x]) = Some e \<and> e \<noteq> 0 \<and> rp_ents r' e = Some x"
proof -
  have ok: "repo_ok r" and rt: "rp_root r' = rp_root r" using assms(1) by (simp_all add: entry_added_def)
  obtain n where n: "rp_fresh r \<le> n" "rp_ents r' = (rp_ents r)(n \<mapsto> x)" "n \<noteq> 0"
    "\<And>k es. rp_dirs r k = Some es \<Longrightarrow> rp_dirs r' k = Some (if k = d then es @ [n] else es)"
    using assms(1) by (auto simp: entry_added_def)
  obtain es where es: "rp_dirs r d = Some es" "find_entry (rp_ents r) (de_name x) es = Some 0"
    using assms(4) by (auto simp: dir_find_def bind_Some_iff)
  have same: "rp_ents r' i = rp_ents r i" if "i \<in> set es" for i
    using repo_okD(5) [OF ok es(1) that] n(1,2) by auto
  have "rp_ents r' n = Some x" using n(2) by simp
  then have "dir_find d (de_name x) r' = Some n"
    using find_entry_append [OF es(2) same repo_okD(3) [OF ok], of "[n]"] n(4) [OF es(1)] by (simp add: dir_find_def)
  then show ?thesis
    using entry_added_dir_at [OF assms(1) repo_okD(2) [OF ok] assms(2,3)] n(2,3) assms(3) rt by (simp add: entry_at_def)
qed


lemma dir_add_added:
  assumes "repo_ok r" "rp_dirs r d \<noteq> None" "dir_add d x r = Some r'"
  shows "entry_added d x r r'"
  using assms repo_okD(4) [OF assms(1), of "rp_root r"] repo_okD(2) [OF assms(1)]
  by (auto simp: dir_add_def bind_Some_iff entry_added_def Let_def split: if_splits intro!: exI [of _ "rp_fresh r"])

lemma dir_at_dirs:
  assumes "repo_ok r" "dir_at r (rp_root r) cs = Some d" "d \<noteq> 0"
  shows "rp_dirs r d \<noteq> None"
  using dir_at_total [OF assms(1) repo_okD(2) [OF assms(1)], of cs] assms(2,3) by simp

lemma drop_name: "drop (length (join (cs @ [n])) - length n) (join (cs @ [n]) @ t) = n @ t"
  by (cases "cs = []") (simp_all add: join_snoc)

lemma drop_name': "drop (length (join (cs @ [n])) - length n) (join (cs @ [n])) = n"
  using drop_name [of cs n "[]"] by simp

lemma valid_butlast: "entry_at r (cs @ [n]) = (do { d \<leftarrow> dir_at r (rp_root r) cs; if d = 0 then Some 0 else dir_find d n r })"
  by (simp add: entry_at_def cong: if_cong)

text \<open>C23. Creating a segment at a free name in an existing directory succeeds as long as the segment
  table has room: the repository stays well formed, looking the path up maps the new segment, whose
  slot in the table is its index and which knows its own URI, the path is reported to be a segment,
  and every path that named an entry before names the same entry.\<close>

theorem repo_create_contract:
  assumes "repo_ok r" "valid_path (cs @ [n])" "dir_at r (rp_root r) cs = Some d" "d \<noteq> 0" "dir_find d n r = Some 0"
    "segment_table_assign (wd_segtable w) (st_fresh w) = Some (tab, i)" "0 < st_fresh w"
  shows "\<exists>r' w'. repo_create_segment (join (cs @ [n])) 0 r w = Some (RV_OK, r', w') \<and> repo_ok r' \<and>
    map_segment (join (cs @ [n])) r' = Some (st_fresh w) \<and> repo_stat (join (cs @ [n])) r' = Some RV_OK \<and>
    st_segs w' (st_fresh w) = Some (new_segment i (join (cs @ [n])) (rp_loc r) (rp_prefix r)) \<and> wd_segtable w' = tab \<and>
    (\<forall>ps e. valid_path ps \<and> find_dirent (join ps) r = Some e \<and> e \<noteq> 0 \<longrightarrow> find_dirent (join ps) r' = Some e)"
proof -
  let ?s = "join (cs @ [n])" and ?x = "\<lparr>de_name = n, de_dir = False, de_obj = st_fresh w\<rparr>"
  note ok = assms(1) and fde = find_dirent_entry
  have dd: "rp_dirs r d \<noteq> None" by (rule dir_at_dirs [OF ok assms(3,4)])
  then obtain r' where r': "dir_add d ?x r = Some r'" by (auto simp: dir_add_def Let_def)
  note add = dir_add_added [OF ok dd r']
  have ok': "repo_ok r'" by (rule entry_added_ok [OF add]) (use assms(7) in simp_all)
  obtain e where e: "entry_at r' (cs @ [n]) = Some e" "e \<noteq> 0" "rp_ents r' e = Some ?x"
    using entry_added_here [OF add assms(3,4)] assms(5) by auto
  have none: "find_dirent ?s r = Some 0" using fde [OF ok assms(2)] assms(3-5) by (simp add: valid_butlast)
  have ent: "find_dirent ?s r' = Some e" using fde [OF ok' assms(2)] e(1) by simp
  have "find_directory ?s False r = Some (d, length ?s - length n)"
    by (rule find_directory_path [OF ok assms(2-4)])
  then have "repo_create_segment ?s 0 r w = Some (RV_OK, r', w\<lparr>wd_segtable := tab,
       st_segs := (st_segs w)(st_fresh w \<mapsto> new_segment i ?s (rp_loc r) (rp_prefix r)), st_fresh := st_fresh w + 1\<rparr>)"
    using none r' assms(4,6) by (simp add: repo_create_segment_def map_segment_def create_dirent_def new_tmp_segment_def drop_name')
  moreover have "?s \<noteq> []" using hd_join [OF assms(2)] by simp
  ultimately show ?thesis
    using ok' ent e(2,3) entry_added_entry_at [OF add] fde [OF ok] fde [OF ok']
    by (auto simp: map_segment_def repo_stat_def)
qed

theorem repo_create_contract_witness:
  "\<exists>r' w'. repo_create_segment ''seg'' 0 (create_tmp_repo ''/tmp/'' ''u'') small_world = Some (RV_OK, r', w') \<and>
    map_segment ''seg'' r' = Some 20"
proof -
  let ?r = "create_tmp_repo ''/tmp/'' ''u''"
  have ok: "repo_ok ?r" by (simp add: repo_ok_def create_tmp_repo_def)
  have tab: "segment_table_assign (wd_segtable small_world) (st_fresh small_world) =
      Some ((segment_table_new[0 := Some 1])[1 := Some 20], 1)"
    by (simp add: small_world_def segment_table_assign_def segment_table_new_def SC_MAX_SEGMENTS_def numeral_eq_Suc)
  have h: "valid_path ([] @ [''seg''])" "dir_at ?r (rp_root ?r) [] = Some 1" "(1::nat) \<noteq> 0" "dir_find 1 ''seg'' ?r = Some 0"
    "0 < st_fresh small_world"
    by (simp_all add: valid_path_def create_tmp_repo_def dir_find_def small_world_def)
  have "st_fresh small_world = 20" by (simp add: small_world_def)
  then show ?thesis using repo_create_contract [OF ok h(1-4) tab h(5)] by auto
qed

text \<open>The run of \<open>mkdir\<close>, for a path that may end with slashes.\<close>

lemma mkdir_run:
  assumes ok: "repo_ok r" and "valid_path (cs @ [n])" "dir_at r (rp_root r) cs = Some d" "d \<noteq> 0"
  shows "\<exists>r'. repo_mkdir (join (cs @ [n]) @ replicate m SLASH) r w = Some (RV_OK, r', w) \<and> repo_ok r' \<and>
    entry_added d \<lparr>de_name = n @ replicate m SLASH, de_dir = True, de_obj = rp_fresh r\<rparr> r r' \<and>
    rp_dirs r' (rp_fresh r) = Some []"
proof -
  let ?s = "join (cs @ [n]) @ replicate m SLASH" and ?m = "rp_fresh r"
  let ?x = "\<lparr>de_name = n @ replicate m SLASH, de_dir = True, de_obj = ?m\<rparr>"
    and ?r = "r\<lparr>rp_dirs := (rp_dirs r)(?m \<mapsto> []), rp_fresh := ?m + 1\<rparr>"
  have dd: "rp_dirs r d \<noteq> None" by (rule dir_at_dirs [OF ok assms(3,4)])
  then obtain es where es: "rp_dirs r d = Some es" by blast
  then have lt: "d < ?m" using repo_okD(4) [OF ok] by blast
  obtain r' where r': "dir_add d ?x ?r = Some r'" using es lt by (auto simp: dir_add_def Let_def)
  have fresh: "rp_dirs r ?m = None" using repo_okD(4) [OF ok, of ?m] by (cases "rp_dirs r ?m") auto
  have add: "entry_added d ?x r r'"
    unfolding entry_added_def
  proof (intro conjI exI [of _ "?m + 1"])
    show "\<forall>k fs. rp_dirs r k = Some fs \<longrightarrow> rp_dirs r' k = Some (if k = d then fs @ [?m + 1] else fs)"
      using r' es lt fresh by (auto simp: dir_add_def Let_def)
    show "\<forall>k. rp_dirs r k = None \<longrightarrow> rp_dirs r' k = None \<or> rp_dirs r' k = Some [] \<and> k \<noteq> 0 \<and> k < rp_fresh r'"
      using r' es lt by (auto simp: dir_add_def Let_def split: if_splits)
  qed (use r' es lt ok in \<open>auto simp: dir_add_def Let_def\<close>)
  have new: "rp_dirs r' ?m = Some []" using r' es lt by (auto simp: dir_add_def Let_def)
  have ok': "repo_ok r'" by (rule entry_added_ok [OF add]) (use new lt in simp_all)
  have "find_directory ?s True r = Some (d, length (join (cs @ [n])) - length n)"
    by (rule find_directory_walk [OF assms]) simp
  then have "repo_mkdir ?s r w = Some (RV_OK, r', w)"
    using r' assms(4) by (simp add: repo_mkdir_def create_dirent_def drop_name Let_def del: drop_append)
  then show ?thesis using ok' add new by blast
qed

text \<open>Making a directory of a free name in an existing directory succeeds, and the new directory is
  found, reported as a directory and empty; the repository stays well formed and keeps all entries.\<close>

theorem repo_mkdir_contract:
  assumes "repo_ok r" "valid_path (cs @ [n])" "dir_at r (rp_root r) cs = Some d" "d \<noteq> 0" "dir_find d n r = Some 0"
  shows "\<exists>r'. repo_mkdir (join (cs @ [n])) r w = Some (RV_OK, r', w) \<and> repo_ok r' \<and>
    repo_stat (join (cs @ [n])) r' = Some RV_ELSE_GEN \<and> search_dir (join (cs @ [n])) r' = Some (Some []) \<and>
    (\<forall>ps e. valid_path ps \<and> find_dirent (join ps) r = Some e \<and> e \<noteq> 0 \<longrightarrow> find_dirent (join ps) r' = Some e)"
proof -
  note fde = find_dirent_entry
  obtain r' where r': "repo_mkdir (join (cs @ [n])) r w = Some (RV_OK, r', w)" "repo_ok r'"
    "entry_added d \<lparr>de_name = n, de_dir = True, de_obj = rp_fresh r\<rparr> r r'" "rp_dirs r' (rp_fresh r) = Some []"
    using mkdir_run [OF assms(1-4), of 0 w] by auto
  obtain e where e: "entry_at r' (cs @ [n]) = Some e" "e \<noteq> 0"
    "rp_ents r' e = Some \<lparr>de_name = n, de_dir = True, de_obj = rp_fresh r\<rparr>"
    using entry_added_here [OF r'(3) assms(3,4)] assms(5) by auto
  then have "find_dirent (join (cs @ [n])) r' = Some e" using fde [OF r'(2) assms(2)] by simp
  moreover have "join (cs @ [n]) \<noteq> []" using hd_join [OF assms(2)] by simp
  ultimately show ?thesis
    using r' e(2,3) entry_added_entry_at [OF r'(3)] fde [OF assms(1)] fde [OF r'(2)]
    by (auto simp: search_dir_def repo_stat_def)
qed

lemma fresh_repo_dir:
  "repo_ok (create_tmp_repo l p)" "dir_at (create_tmp_repo l p) (rp_root (create_tmp_repo l p)) [] = Some 1"
  "dir_find 1 n (create_tmp_repo l p) = Some 0"
  by (simp_all add: repo_ok_def create_tmp_repo_def dir_find_def)

theorem repo_mkdir_contract_witness:
  "\<exists>r'. repo_mkdir ''dir'' (create_tmp_repo ''/tmp/'' ''u'') small_world = Some (RV_OK, r', small_world) \<and>
    repo_stat ''dir'' r' = Some RV_ELSE_GEN"
  using repo_mkdir_contract [OF fresh_repo_dir(1) _ fresh_repo_dir(2) _ fresh_repo_dir(3), of "''dir''" "''/tmp/''" "''u''" small_world]
  by (auto simp: valid_path_def)

section \<open>Operations that go wrong\<close>

text \<open>\<open>mkdir\<close> of a path that ends with a slash answers success but enters the directory under a
  name that contains the slash: the path, with or without the slash, is still not found.\<close>

theorem mkdir_trailing_slash_lost:
  assumes "repo_ok r" "valid_path (cs @ [n])" "dir_at r (rp_root r) cs = Some d" "d \<noteq> 0" "dir_find d n r = Some 0"
  shows "\<exists>r'. repo_mkdir (join (cs @ [n]) @ [SLASH]) r w = Some (RV_OK, r', w) \<and>
    repo_stat (join (cs @ [n])) r' = Some RV_ERR_GEN \<and> (\<exists>e. e \<noteq> 0 \<and> dir_find d (n @ [SLASH]) r' = Some e)"
proof -
  obtain r' where r': "repo_mkdir (join (cs @ [n]) @ [SLASH]) r w = Some (RV_OK, r', w)" "repo_ok r'"
    and add: "entry_added d \<lparr>de_name = n @ [SLASH], de_dir = True, de_obj = rp_fresh r\<rparr> r r'" (is "entry_added d ?x r r'")
    using mkdir_run [OF assms(1-4), of 1 w] by auto
  obtain k where k: "rp_fresh r \<le> k" "rp_ents r' = (rp_ents r)(k \<mapsto> ?x)" "k \<noteq> 0" "rp_root r' = rp_root r"
    "\<And>i es. rp_dirs r i = Some es \<Longrightarrow> rp_dirs r' i = Some (if i = d then es @ [k] else es)"
    using add by (auto simp: entry_added_def)
  obtain es where es: "rp_dirs r d = Some es" "find_entry (rp_ents r) n es = Some 0"
    using assms(5) by (auto simp: dir_find_def bind_Some_iff)
  have same: "rp_ents r' i = rp_ents r i" if "i \<in> set es" for i
    using repo_okD(5) [OF assms(1) es(1) that] k(1,2) by auto
  have new: "rp_ents r' k = Some ?x" using k(2) by simp
  then have "dir_find d n r' = Some 0"
    using find_entry_append [OF es(2) same repo_okD(3) [OF assms(1)], of "[k]"] k(5) [OF es(1)] by (simp add: dir_find_def)
  then have "find_dirent (join (cs @ [n])) r' = Some 0"
    using find_dirent_entry [OF r'(2) assms(2)] entry_added_dir_at [OF add repo_okD(2) [OF assms(1)] assms(3,4)] k(4)
    by (simp add: valid_butlast)
  moreover have "join (cs @ [n]) \<noteq> []" using hd_join [OF assms(2)] by simp
  moreover have "\<exists>e. e \<noteq> 0 \<and> dir_find d (n @ [SLASH]) r' = Some e"
  proof -
    obtain e where e: "find_entry (rp_ents r) (n @ [SLASH]) es = Some e"
      using find_entry_total [of es "rp_ents r"] repo_okD(5) [OF assms(1) es(1)] by blast
    show ?thesis
      using find_entry_append [OF e same repo_okD(3) [OF assms(1)], of "[k]"] new k(3) k(5) [OF es(1)]
      by (cases "e = 0") (simp_all add: dir_find_def)
  qed
  ultimately show ?thesis using r'(1) by (auto simp: repo_stat_def)
qed

theorem mkdir_trailing_slash_lost_witness:
  "\<exists>r'. repo_mkdir ''dir/'' (create_tmp_repo ''/tmp/'' ''u'') small_world = Some (RV_OK, r', small_world) \<and>
    repo_stat ''dir'' r' = Some RV_ERR_GEN"
  using mkdir_trailing_slash_lost [OF fresh_repo_dir(1) _ fresh_repo_dir(2) _ fresh_repo_dir(3), of "''dir''" "''/tmp/''" "''u''" small_world]
  by (auto simp: valid_path_def)

lemma dir_drop_gone: "dir_drop d e r = Some r' \<Longrightarrow> rp_ents r' e = None"
  by (auto simp: dir_drop_def bind_Some_iff)

text \<open>Unlinking an empty directory uses its entry after it was freed: the entry is removed from the
  parent directory, and then the directory is reached through it.\<close>

theorem unlink_empty_dir_use_after_free:
  assumes "repo_ok r" "valid_path (cs @ [n])" "dir_at r (rp_root r) cs = Some d" "d \<noteq> 0" "dir_find d n r = Some e" "e \<noteq> 0"
    "rp_ents r e = Some x" "de_dir x" "rp_dirs r (de_obj x) = Some []"
  shows "repo_unlink k (join (cs @ [n])) r w = None"
proof -
  obtain es where es: "rp_dirs r d = Some es" "e \<in> set es"
    using assms(5,6) find_entry_cases [of "rp_ents r" n _ e] by (auto simp: dir_find_def bind_Some_iff)
  then obtain r' where r': "dir_drop d e r = Some r'" by (simp add: dir_drop_def)
  show ?thesis
    using find_directory_path [OF assms(1-4), of False] assms(4-9) es r' dir_drop_gone [OF r']
    by (simp add: repo_unlink_def drop_name' dir_remove_entry_def)
qed

theorem unlink_empty_dir_use_after_free_witness:
  "\<exists>r. repo_mkdir ''dir'' (create_tmp_repo ''/tmp/'' ''u'') small_world = Some (RV_OK, r, small_world) \<and>
    repo_unlink 9 ''dir'' r small_world = None"
proof -
  obtain r' where r': "repo_mkdir (join ([] @ [''dir''])) (create_tmp_repo ''/tmp/'' ''u'') small_world = Some (RV_OK, r', small_world)"
    "repo_ok r'" "entry_added 1 \<lparr>de_name = ''dir'', de_dir = True, de_obj = 2\<rparr> (create_tmp_repo ''/tmp/'' ''u'') r'" "rp_dirs r' 2 = Some []"
    using mkdir_run [OF fresh_repo_dir(1), of "[]" "''dir''" "''/tmp/''" "''u''" 1 0 small_world]
    by (auto simp: valid_path_def create_tmp_repo_def)
  obtain e where e: "entry_at r' ([] @ [''dir'']) = Some e" "e \<noteq> 0" "rp_ents r' e = Some \<lparr>de_name = ''dir'', de_dir = True, de_obj = 2\<rparr>"
    using entry_added_here [OF r'(3), of "[]"] fresh_repo_dir(3) by (auto simp: create_tmp_repo_def)
  have "rp_root r' = 1" using r'(3) by (simp add: entry_added_def create_tmp_repo_def)
  then have "repo_unlink 9 (join ([] @ [''dir''])) r' small_world = None"
    using e r'(2,4) by (intro unlink_empty_dir_use_after_free) (auto simp: entry_at_def valid_path_def)
  then show ?thesis using r'(1) by auto
qed

text \<open>Renaming never succeeds once both directories are found: the code removes the entry from its
  old directory, which frees it, and then writes to it; a name that is not there is a null entry.\<close>

theorem rename_never_succeeds:
  assumes "repo_ok r" "find_directory oldname False r = Some (d, pos)" "d \<noteq> 0"
    "find_directory newname False r = Some (d2, pos2)" "d2 \<noteq> 0"
  shows "repo_rename oldname newname r w = None"
proof (cases "dir_find d (drop pos oldname) r")
  case (Some e)
  show ?thesis
  proof (cases "e = 0")
    case True
    then show ?thesis using assms(2-5) Some repo_okD(3) [OF assms(1)] by (simp add: repo_rename_def)
  next
    case False
    have gone: "Option.bind (dir_remove_entry d e r) (\<lambda>(_, r). Option.bind (rp_ents r e) (F r)) = None"
      for F :: "tmp_repo \<Rightarrow> tmp_dirent \<Rightarrow> 'a option"
      using Some False find_entry_cases [of "rp_ents r" "drop pos oldname" _ e] dir_drop_gone [of d e r]
      by (auto simp: dir_remove_entry_def dir_find_def bind_Some_iff split: bind_splits)
    show ?thesis
      using assms(2-5) Some False by (simp add: repo_rename_def gone)
  qed
qed (use assms(2-5) in \<open>simp add: repo_rename_def\<close>)

theorem rename_never_succeeds_witness: "repo_rename ''a'' ''b'' (create_tmp_repo ''/tmp/'' ''u'') small_world = None"
proof (rule rename_never_succeeds [OF fresh_repo_dir(1)])
  show "find_directory ''a'' False (create_tmp_repo ''/tmp/'' ''u'') = Some (1, 0)"
    using find_directory_path [OF fresh_repo_dir(1), of "[]" "''a''" "''/tmp/''" "''u''" 1 False] by (simp add: valid_path_def create_tmp_repo_def)
  show "find_directory ''b'' False (create_tmp_repo ''/tmp/'' ''u'') = Some (1, 0)"
    using find_directory_path [OF fresh_repo_dir(1), of "[]" "''b''" "''/tmp/''" "''u''" 1 False] by (simp add: valid_path_def create_tmp_repo_def)
qed simp_all

end
