(* ===== verification/Session_Repo.thy ===== *)
theory Session_Repo
  imports Repo_Props
begin

text \<open>
  Sessions and repositories (\<open>sc_core.cpp\<close>): which repository a URI belongs to, opening, closing
  and finding segments by URI, the signs of segments in the \<open>META\<close> segments, unlinking, the current
  directory, and the resolution of the links of a segment that is being loaded. The memory is the
  world of segments with the three repositories \<open>root\<close>, \<open>tmp\<close> and \<open>proc\<close>, all in memory as
  without a file-system repository. \<open>n\<close> is the fuel for what a segment's destruction or the deletion
  of an element may need, \<open>triples\<close> the three-element iterators of the constraint engine, which the
  build generates: it gives for a wait type and an element the second and third addresses.
\<close>

section \<open>Memory and repositories\<close>

datatype repo_id = Root_repo | Tmp_repo_id | Proc_repo

record memory =
  mm_world :: world
  mm_repos :: "repo_id \<Rightarrow> tmp_repo"
  mm_inited :: bool

type_synonym triples = "sc_wait_type \<Rightarrow> nat \<Rightarrow> world \<Rightarrow> ((nat \<times> nat) list \<times> world) option"

definition on_world :: "(world \<Rightarrow> ('a \<times> world) option) \<Rightarrow> memory \<Rightarrow> ('a \<times> memory) option" where
  "on_world f m = do { (x, w) \<leftarrow> f (mm_world m); Some (x, m\<lparr>mm_world := w\<rparr>) }"

definition find_repo :: "string \<Rightarrow> memory \<Rightarrow> (repo_id \<times> nat) option" where
  "find_repo str m =
     (if \<not> mm_inited m then Some (Root_repo, 1)
      else do {
        ensure (str \<noteq> [] \<and> str ! 0 = SLASH);
        Some (if take 5 str = ''/tmp/'' then (Tmp_repo_id, 5)
              else if take 6 str = ''/proc/'' then (Proc_repo, 6)
              else (Root_repo, 1))
      })"

text \<open>\<open>uri.substr(pos)\<close> throws when the string is shorter.\<close>

definition substr_from :: "string \<Rightarrow> nat \<Rightarrow> string option" where
  "substr_from s pos = (if pos \<le> length s then Some (drop pos s) else None)"

definition locate :: "string \<Rightarrow> memory \<Rightarrow> (repo_id \<times> string) option" where
  "locate uri m = do { (i, pos) \<leftarrow> find_repo uri m; s \<leftarrow> substr_from uri pos; Some (i, s) }"

definition map_uri :: "string \<Rightarrow> memory \<Rightarrow> nat option" where
  "map_uri uri m = do { (i, s) \<leftarrow> locate uri m; map_segment s (mm_repos m i) }"

definition session_stat :: "string \<Rightarrow> memory \<Rightarrow> sc_retval option" where
  "session_stat uri m = do { (i, s) \<leftarrow> locate uri m; repo_stat s (mm_repos m i) }"

definition session_search_dir :: "nat \<Rightarrow> string \<Rightarrow> memory \<Rightarrow> (string list option \<times> memory) option" where
  "session_search_dir ss uri m =
     do {
       (i, s) \<leftarrow> locate uri m;
       iter \<leftarrow> search_dir s (mm_repos m i);
       (_, m) \<leftarrow> on_world (return_error ss (if iter = None then RV_ERR_GEN else RV_OK)) m;
       Some (iter, m)
     }"

text \<open>\<open>newcwd[newcwd.size()-1]\<close> and \<open>uri[0]\<close> of an empty string: the second reads the null character.\<close>

definition session_chdir :: "nat \<Rightarrow> string \<Rightarrow> memory \<Rightarrow> (sc_retval \<times> memory) option" where
  "session_chdir ss uri m =
     do {
       s \<leftarrow> wd_sessions (mm_world m) ss;
       let newcwd = (if uri \<noteq> [] \<and> uri ! 0 = SLASH then uri else ss_cwd s @ uri);
       ensure (newcwd \<noteq> []);
       let newcwd = (if last newcwd \<noteq> SLASH then newcwd @ [SLASH] else newcwd);
       rv \<leftarrow> session_stat newcwd m;
       (if rv \<noteq> RV_ELSE_GEN then Some (RV_ERR_GEN, m)
        else do {
          w \<leftarrow> upd_session ss (\<lambda>s. s\<lparr>ss_cwd := newcwd\<rparr>) (mm_world m);
          Some (RV_OK, m\<lparr>mm_world := w\<rparr>)
        })
     }"

section \<open>Events of a segment that was just opened (\<open>scan_new_events\<close>)\<close>

text \<open>A wait is called directly; \<open>k\<close> is the fuel of a loop over arcs.\<close>

definition call_wait :: "nat \<Rightarrow> sc_wait_type \<Rightarrow> sc_param list \<Rightarrow> world \<Rightarrow> world" where
  "call_wait p ty prm w = log (Wait_activated p ty prm) w"

fun scan_arcs ::
  "nat \<Rightarrow> side \<Rightarrow> nat \<Rightarrow> sc_wait_type \<Rightarrow> (nat \<Rightarrow> sc_param list) \<Rightarrow> nat \<Rightarrow> meta_iter \<Rightarrow> world \<Rightarrow> world option" where
  "scan_arcs 0 sd p ty prm seg it w = None"
| "scan_arcs (Suc k) sd p ty prm seg it w =
     (if meta_is_over it then meta_delete it w
      else do {
        let a1 = meta_value it 1;
        s \<leftarrow> addr_seg a1 w;
        (_, it, w) \<leftarrow> meta_next sd it (if s = seg then call_wait p ty (prm a1) w else w);
        scan_arcs k sd p ty prm seg it w
      })"

fun scan_triples :: "nat \<Rightarrow> sc_wait_type \<Rightarrow> (nat \<Rightarrow> nat \<Rightarrow> sc_param list) \<Rightarrow> nat \<Rightarrow> (nat \<times> nat) list \<Rightarrow> world \<Rightarrow> world option" where
  "scan_triples p ty prm seg [] w = Some w"
| "scan_triples p ty prm seg ((a1, a2) # xs) w =
     do {
       s1 \<leftarrow> addr_seg a1 w;
       s2 \<leftarrow> addr_seg a2 w;
       scan_triples p ty prm seg xs (if s1 = seg \<or> s2 = seg then call_wait p ty (prm a1 a2) w else w)
     }"

definition scan_wait :: "triples \<Rightarrow> nat \<Rightarrow> nat \<Rightarrow> nat \<Rightarrow> nat \<Rightarrow> world \<Rightarrow> world option" where
  "scan_wait tr k ss seg p w =
     do {
       x \<leftarrow> wd_waits w p;
       ensure (wt_session x = ss);
       let e = wt_element x;
       (case wt_type x of
          SC_WAIT_ARC_BEG \<Rightarrow>
            do {
              (a1, w) \<leftarrow> get_beg ss e w;
              (if a1 = 0 then Some w
               else do { s \<leftarrow> addr_seg a1 w; Some (if s = seg then call_wait p SC_WAIT_ARC_BEG [a1, e] w else w) })
            }
        | SC_WAIT_ARC_END \<Rightarrow>
            do {
              (a1, w) \<leftarrow> get_end ss e w;
              (if a1 = 0 then Some w
               else do { s \<leftarrow> addr_seg a1 w; Some (if s = seg then call_wait p SC_WAIT_ARC_END [e, a1] w else w) })
            }
        | SC_WAIT_ARCS_ENDS \<Rightarrow>
            do {
              (a1, w) \<leftarrow> get_beg ss e w;
              (a2, w) \<leftarrow> get_end ss e w;
              (if a1 = 0 \<or> a2 = 0 then Some w
               else do {
                 s1 \<leftarrow> addr_seg a1 w;
                 s2 \<leftarrow> addr_seg a2 w;
                 Some (if s1 = seg \<or> s2 = seg then call_wait p SC_WAIT_ARCS_ENDS [a1] w else w)
               })
            }
        | SC_WAIT_ATTACH_INPUT \<Rightarrow>
            do { (it, w) \<leftarrow> meta_new End e ss w; scan_arcs k End p SC_WAIT_ATTACH_INPUT (\<lambda>a. [a, e]) seg it w }
        | SC_WAIT_ATTACH_OUTPUT \<Rightarrow>
            do { (it, w) \<leftarrow> meta_new Beg e ss w; scan_arcs k Beg p SC_WAIT_ATTACH_OUTPUT (\<lambda>a. [e, a]) seg it w }
        | SC_WAIT_HACK_SET_MEMBER \<Rightarrow>
            do {
              (xs, w) \<leftarrow> tr SC_WAIT_HACK_SET_MEMBER e w;
              scan_triples p SC_WAIT_HACK_SET_MEMBER (\<lambda>a1 a2. [e, a1, a2]) seg xs w
            }
        | SC_WAIT_HACK_IN_SET \<Rightarrow>
            do {
              (xs, w) \<leftarrow> tr SC_WAIT_HACK_IN_SET e w;
              scan_triples p SC_WAIT_HACK_IN_SET (\<lambda>a1 a2. [a1, a2, e]) seg xs w
            }
        | _ \<Rightarrow> Some w)
     }"

fun scan_waits :: "triples \<Rightarrow> nat \<Rightarrow> nat \<Rightarrow> nat \<Rightarrow> nat list \<Rightarrow> world \<Rightarrow> world option" where
  "scan_waits tr k ss seg [] w = Some w"
| "scan_waits tr k ss seg (p # ps) w = do { w \<leftarrow> scan_wait tr k ss seg p w; scan_waits tr k ss seg ps w }"

definition scan_new_events :: "triples \<Rightarrow> nat \<Rightarrow> nat \<Rightarrow> nat \<Rightarrow> world \<Rightarrow> world option" where
  "scan_new_events tr k ss seg w =
     do { s \<leftarrow> wd_sessions w ss; scan_waits tr k ss seg (ss_good_waits s) w }"

section \<open>Opening segments by URI\<close>

text \<open>\<open>open_segment\<close> with the session's own \<open>__open_segment\<close> as the argument \<open>op\<close>.\<close>

definition open_segment_with ::
  "(nat \<Rightarrow> memory \<Rightarrow> (sc_retval \<times> memory) option) \<Rightarrow> triples \<Rightarrow> nat \<Rightarrow> nat \<Rightarrow> string \<Rightarrow> memory \<Rightarrow> (nat \<times> memory) option" where
  "open_segment_with op tr k ss uri m =
     do {
       seg \<leftarrow> map_uri uri m;
       (if seg = 0 then on_world (fail_null ss RV_ERR_GEN) m
        else do {
          (_, m) \<leftarrow> on_world (return_error ss RV_OK) m;
          b \<leftarrow> session_opened ss seg (mm_world m);
          (if b then Some (seg, m)
           else do {
             (rv, m) \<leftarrow> op seg m;
             (if rv \<noteq> RV_OK then Some (0, m)
              else do {
                w \<leftarrow> scan_new_events tr k ss seg (mm_world m);
                Some (seg, m\<lparr>mm_world := w\<rparr>)
              })
           })
        })
     }"

definition system_open :: "triples \<Rightarrow> nat \<Rightarrow> string \<Rightarrow> memory \<Rightarrow> (nat \<times> memory) option" where
  "system_open tr k uri m =
     (let ss = wd_system (mm_world m)
      in open_segment_with (\<lambda>seg. on_world (system_open_segment ss seg)) tr k ss uri m)"

section \<open>Signs of segments\<close>

text \<open>\<open>while (len>=0 && uri[len] == '/') len--;\<close> and \<open>rfind('/',len)\<close>; \<open>- 1\<close> when there is none. A
  \<open>len\<close> of \<open>- 1\<close> makes \<open>rfind\<close> search the whole string.\<close>

fun trim_slashes :: "string \<Rightarrow> nat \<Rightarrow> int" where
  "trim_slashes uri 0 = - 1"
| "trim_slashes uri (Suc l) = (if uri ! l = SLASH then trim_slashes uri l else int l)"

fun rfind_slash :: "string \<Rightarrow> nat \<Rightarrow> int" where
  "rfind_slash uri 0 = - 1"
| "rfind_slash uri (Suc l) = (if uri ! l = SLASH then int l else rfind_slash uri l)"

definition meta_name :: "string \<Rightarrow> string \<times> string" where
  "meta_name uri0 =
     (let uri = normalize_uri uri0 in
      if uri = ''/'' then (''/META'', ''ROOT'')
      else let len = trim_slashes uri (length uri);
               pos = rfind_slash uri (if len < 0 then length uri else nat len + 1)
           in (take (nat (pos + 1)) uri @ ''META'', take (nat (len - pos)) (drop (nat (pos + 1)) uri)))"

definition find_meta :: "triples \<Rightarrow> nat \<Rightarrow> string \<Rightarrow> memory \<Rightarrow> (nat \<times> string \<times> memory) option" where
  "find_meta tr k uri m =
     do {
       let (meta, res) = meta_name uri;
       (seg, m) \<leftarrow> system_open tr k meta m;
       Some (seg, res, m)
     }"

text \<open>\<open>__open_segment\<close> of a normal session, with the search for the sign.\<close>

definition find_sign :: "triples \<Rightarrow> nat \<Rightarrow> nat \<Rightarrow> memory \<Rightarrow> memory option" where
  "find_sign tr k seg m =
     do {
       uri \<leftarrow> get_full_uri seg (mm_world m);
       (meta, _, m) \<leftarrow> find_meta tr k uri m;
       ensure (meta \<noteq> 0);
       name \<leftarrow> uri_basename uri;
       (sign, m) \<leftarrow> on_world (find_by_idtf (wd_system (mm_world m)) name meta) m;
       ensure (sign \<noteq> 0);
       w \<leftarrow> upd_seg seg (\<lambda>g. g\<lparr>sg_sign := sign\<rparr>) (mm_world m);
       Some (m\<lparr>mm_world := w\<rparr>)
     }"

definition open_with_sign :: "triples \<Rightarrow> nat \<Rightarrow> nat \<Rightarrow> nat \<Rightarrow> memory \<Rightarrow> (sc_retval \<times> memory) option" where
  "open_with_sign tr k ss seg m =
     do {
       g \<leftarrow> st_segs (mm_world m) seg;
       m \<leftarrow> (if \<not> sg_ring_0 g \<and> sg_sign g = 0 then find_sign tr k seg m else Some m);
       on_world (normal_open_segment ss seg) m
     }"

definition normal_open :: "triples \<Rightarrow> nat \<Rightarrow> nat \<Rightarrow> string \<Rightarrow> memory \<Rightarrow> (nat \<times> memory) option" where
  "normal_open tr k ss uri m = open_segment_with (open_with_sign tr k ss) tr k ss uri m"

definition find_segment :: "nat \<Rightarrow> string \<Rightarrow> memory \<Rightarrow> (nat \<times> memory) option" where
  "find_segment ss uri m =
     do {
       seg \<leftarrow> map_uri uri m;
       b \<leftarrow> (if seg = 0 then Some False else session_opened ss seg (mm_world m));
       (if \<not> b then on_world (fail_null ss RV_ERR_GEN) m
        else do { (_, m) \<leftarrow> on_world (return_error ss RV_OK) m; Some (seg, m) })
     }"

definition close_by_uri :: "nat \<Rightarrow> string \<Rightarrow> memory \<Rightarrow> (sc_retval \<times> memory) option" where
  "close_by_uri ss uri m =
     do {
       seg \<leftarrow> map_uri uri m;
       (if seg = 0 then Some (RV_ERR_GEN, m) else on_world (normal_close_segment ss seg) m)
     }"

text \<open>\<open>sign2uri\<close>: \<open>metauri.substr(metauri.size()-5)\<close> throws when the URI is shorter.\<close>

definition sign2uri :: "nat \<Rightarrow> nat \<Rightarrow> memory \<Rightarrow> (string \<times> memory) option" where
  "sign2uri ss a m =
     do {
       g \<leftarrow> wd_addrs (mm_world m) a;
       metauri \<leftarrow> get_full_uri (ga_seg g) (mm_world m);
       (_, m) \<leftarrow> on_world (return_error ss RV_OK) m;
       ensure (5 \<le> length metauri);
       (if drop (length metauri - 5) metauri \<noteq> ''/META'' then
          do { (_, m) \<leftarrow> on_world (return_error ss RV_ERR_GEN) m; Some ([], m) }
        else do {
          (idtf, m) \<leftarrow> on_world (sg_get_idtf (ga_seg g) (ga_impl g)) m;
          (if metauri = ''/META'' \<and> idtf = ''ROOT'' then Some (''/'', m)
           else Some (take (length metauri - 4) metauri @ idtf, m))
        })
     }"

definition uri2sign :: "triples \<Rightarrow> nat \<Rightarrow> nat \<Rightarrow> string \<Rightarrow> memory \<Rightarrow> (nat \<times> memory) option" where
  "uri2sign tr k ss uri m =
     do {
       (meta, name, m) \<leftarrow> find_meta tr k uri m;
       (if meta = 0 then on_world (fail_null ss RV_ERR_GEN) m
        else do {
          ll \<leftarrow> sg_find_by_idtf meta name (mm_world m);
          (if ll = 0 then on_world (fail_null ss RV_ERR_GEN) m
           else do {
             a \<leftarrow> sg_get_element_addr ll (mm_world m);
             (if a = 0 then on_world (fail_null ss RV_ERR_GEN) m
              else do {
                g \<leftarrow> wd_addrs (mm_world m) a;
                ensure (ga_seg g = meta);
                (_, m) \<leftarrow> open_with_sign tr k ss meta m;
                (_, m) \<leftarrow> on_world (return_error ss RV_OK) m;
                Some (a, m)
              })
           })
        })
     }"

definition erase_sign :: "triples \<Rightarrow> nat \<Rightarrow> nat \<Rightarrow> string \<Rightarrow> memory \<Rightarrow> (sc_retval \<times> memory) option" where
  "erase_sign tr k n uri m =
     do {
       (meta, name, m) \<leftarrow> find_meta tr k uri m;
       (if meta = 0 then Some (RV_ERR_GEN, m)
        else do {
          ll \<leftarrow> sg_find_by_idtf meta name (mm_world m);
          (if ll = 0 then Some (RV_ERR_GEN, m)
           else do {
             a \<leftarrow> sg_get_element_addr ll (mm_world m);
             (if a = 0 then Some (RV_ERR_GEN, m)
              else do {
                g \<leftarrow> wd_addrs (mm_world m) a;
                ensure (ga_seg g = meta);
                (if ga_refcnt g \<le> SC_ADDR_REFCNT_BARRIER + 1
                 then do { (_, m) \<leftarrow> on_world (erase_el n (wd_system (mm_world m)) a) m; Some (RV_OK, m) }
                 else Some (RV_OK, m))
              })
           })
        })
     }"

text \<open>\<open>unlink\<close> of a segment by a normal session; that of a directory ends in \<open>repo_unlink\<close>.\<close>

definition repo_step ::
  "repo_id \<Rightarrow> (tmp_repo \<Rightarrow> world \<Rightarrow> (sc_retval \<times> tmp_repo \<times> world) option) \<Rightarrow> memory \<Rightarrow> (sc_retval \<times> memory) option" where
  "repo_step i f m =
     do {
       (rv, r, w) \<leftarrow> f (mm_repos m i) (mm_world m);
       Some (rv, m\<lparr>mm_world := w, mm_repos := (mm_repos m)(i := r)\<rparr>)
     }"

definition unlink_segment :: "triples \<Rightarrow> nat \<Rightarrow> nat \<Rightarrow> nat \<Rightarrow> string \<Rightarrow> repo_id \<Rightarrow> string \<Rightarrow> memory \<Rightarrow> (sc_retval \<times> memory) option" where
  "unlink_segment tr k n ss uri i s m =
     do {
       seg \<leftarrow> map_segment s (mm_repos m i);
       ensure (seg \<noteq> 0);
       str \<leftarrow> has_stream seg (mm_world m);
       w \<leftarrow> (if str then do { w \<leftarrow> put_ev seg put_unlink (mm_world m); map_option snd (unlisten_segment seg True w) }
             else Some (mm_world m));
       let m = m\<lparr>mm_world := w\<rparr>;
       (_, m) \<leftarrow> on_world (normal_close_segment ss seg) m;
       (_, m) \<leftarrow> erase_sign tr k n uri m;
       repo_step i (repo_unlink n s) m
     }"

text \<open>The directory must hold nothing but \<open>META\<close>; \<open>value\<close> of an iterator over nothing aborts.\<close>

definition unlink_dir :: "triples \<Rightarrow> nat \<Rightarrow> nat \<Rightarrow> nat \<Rightarrow> string \<Rightarrow> repo_id \<Rightarrow> string \<Rightarrow> memory \<Rightarrow> (sc_retval \<times> memory) option" where
  "unlink_dir tr k n ss uri i s m =
     do {
       iter \<leftarrow> search_dir s (mm_repos m i);
       names \<leftarrow> iter;
       ensure (names \<noteq> []);
       (if names \<noteq> [''META''] then on_world (return_error ss RV_ERR_GEN) m
        else do {
          (_, m) \<leftarrow> repo_step i (repo_unlink n (s @ ''/META'')) m;
          (_, m) \<leftarrow> erase_sign tr k n uri m;
          (rv, m) \<leftarrow> repo_step i (repo_unlink n s) m;
          on_world (return_error ss rv) m
        })
     }"

definition session_unlink :: "triples \<Rightarrow> nat \<Rightarrow> nat \<Rightarrow> nat \<Rightarrow> string \<Rightarrow> memory \<Rightarrow> (sc_retval \<times> memory) option" where
  "session_unlink tr k n ss uri m =
     do {
       (i, s) \<leftarrow> locate uri m;
       rv \<leftarrow> repo_stat s (mm_repos m i);
       (if rv = RV_OK then unlink_segment tr k n ss uri i s m
        else if \<not> RV_IS_ERR rv then unlink_dir tr k n ss uri i s m
        else on_world (return_error ss RV_ERR_GEN) m)
     }"

section \<open>Loading a segment\<close>

definition resolve_link_target_addr :: "nat \<Rightarrow> nat \<Rightarrow> memory \<Rightarrow> (nat \<times> memory) option" where
  "resolve_link_target_addr source link m =
     do {
       uri \<leftarrow> sg_get_link_target link (mm_world m);
       (i, s) \<leftarrow> locate uri m;
       dir \<leftarrow> uri_dirname s;
       seg \<leftarrow> map_segment dir (mm_repos m i);
       (if seg = 0 then Some (0, m)
        else do {
          g \<leftarrow> st_segs (mm_world m) seg;
          w \<leftarrow> mark_opened (wd_system (mm_world m)) (sg_index g) (mm_world m);
          let m = m\<lparr>mm_world := w\<rparr>;
          name \<leftarrow> uri_basename s;
          ll \<leftarrow> sg_find_by_idtf seg name w;
          (if ll = 0 then Some (0, m) else do { a \<leftarrow> sg_get_element_addr ll w; Some (a, m) })
        })
     }"

fun init_elements :: "nat \<Rightarrow> nat \<Rightarrow> nat \<Rightarrow> world \<Rightarrow> world option" where
  "init_elements 0 seg current w = (if current = 0 then Some w else None)"
| "init_elements (Suc k) seg current w =
     (if current = 0 then Some w
      else do {
        (ll, current) \<leftarrow> seg_iter_next seg current w;
        b \<leftarrow> sg_is_link ll w;
        w \<leftarrow> (if \<not> b then do { (a, w) \<leftarrow> addr_new seg ll w; sg_set_element_addr ll a w } else Some w);
        init_elements k seg current w
      })"

text \<open>\<open>allow\<close> is the flag \<open>allow_unresolved_links\<close>.\<close>

fun init_links :: "bool \<Rightarrow> nat \<Rightarrow> nat \<Rightarrow> nat \<Rightarrow> bool \<Rightarrow> memory \<Rightarrow> (bool \<times> memory) option" where
  "init_links allow 0 seg current success m = (if current = 0 then Some (success, m) else None)"
| "init_links allow (Suc k) seg current success m =
     (if current = 0 then Some (success, m)
      else do {
        (ll, current) \<leftarrow> links_iter_next seg current (mm_world m);
        (a, m) \<leftarrow> resolve_link_target_addr seg ll m;
        w \<leftarrow> sg_set_element_addr ll a (mm_world m);
        w \<leftarrow> (if a \<noteq> 0 then add_link a seg ll w else Some w);
        init_links allow k seg current (success \<and> (a \<noteq> 0 \<or> allow)) (m\<lparr>mm_world := w\<rparr>)
      })"

definition init_segment :: "bool \<Rightarrow> nat \<Rightarrow> memory \<Rightarrow> (bool \<times> memory) option" where
  "init_segment allow seg m =
     do {
       g \<leftarrow> st_segs (mm_world m) seg;
       current \<leftarrow> seg_iter_new seg (mm_world m);
       w \<leftarrow> init_elements (length (sg_list g)) seg current (mm_world m);
       current \<leftarrow> links_iter_new seg w;
       init_links allow (length (sg_list g)) seg current True (m\<lparr>mm_world := w\<rparr>)
     }"

section \<open>The current directory\<close>

definition named_entries :: "tmp_repo \<Rightarrow> bool" where
  "named_entries r \<longleftrightarrow> (\<forall>d. dir_find d [] r = None \<or> dir_find d [] r = Some 0)"

lemma first_slash_last:
  assumes "name \<noteq> []" "last name = SLASH" "start < length name"
  shows "first_slash_from name start < length name"
  using assms
proof (induction name start rule: first_slash_from.induct)
  case (1 uri i)
  show ?case
  proof (cases "uri ! i = SLASH")
    case True
    then show ?thesis using "1.prems" by (subst first_slash_from.simps) simp
  next
    case False
    then have "i + 1 < length uri" using "1.prems" by (cases "i = length uri - 1") (auto simp: last_conv_nth)
    then show ?thesis using 1 False by (subst first_slash_from.simps) simp
  qed
qed

lemma skip_run_le: "i < length name \<Longrightarrow> skip_run name i \<le> length name"
proof (induction name i rule: skip_run.induct)
  case (1 name i)
  then show ?case by (subst skip_run.simps) auto
qed

lemma find_from_slash_end:
  assumes "named_entries r" "name \<noteq> []" "last name = SLASH" "start \<le> length name" "find_from r name start d = Some e"
  shows "e = 0"
  using assms
proof (induction r name start d rule: find_from.induct)
  case (1 r name start d)
  show ?case
  proof (cases "start = length name")
    case True
    then have "first_slash_from name start = start" by (subst first_slash_from.simps) simp
    then show ?thesis using "1.prems"(1,5) True by (subst (asm) find_from.simps) (auto simp: named_entries_def bind_Some_iff dest: spec [of _ d])
  next
    case False
    then have i: "first_slash_from name start < length name" using first_slash_last "1.prems"(2-4) by simp
    show ?thesis using "1.prems"(5) i 1(1) [OF refl _ _ _ _ _ "1.prems"(1-3) skip_run_le [OF i]]
      by (subst (asm) find_from.simps) (auto simp: Let_def bind_Some_iff split: if_splits)
  qed
qed

lemma stat_slash_end:
  assumes "named_entries r" "repo_stat s r = Some RV_ELSE_GEN" "s \<noteq> []"
  shows "last s \<noteq> SLASH"
proof
  assume "last s = SLASH"
  then have "find_dirent s r = Some e \<Longrightarrow> e = 0" for e
    using find_from_slash_end [OF assms(1,3), of 0] by (auto simp: find_dirent_def bind_Some_iff ensure_def split: if_splits)
  then show False using assms(2,3) by (auto simp: repo_stat_def bind_Some_iff split: if_splits)
qed

text \<open>The current directory of a session is always a root: \<open>chdir\<close> appends a slash to the new directory,
  and a repository finds no directory whose path ends in a slash, so only \<open>/\<close>, \<open>/tmp/\<close> and \<open>/proc/\<close>
  are ever accepted.\<close>

theorem chdir_reaches_roots:
  assumes "mm_inited m" "\<And>i. named_entries (mm_repos m i)" "session_chdir ss uri m = Some (RV_OK, m')"
  shows "\<exists>s. wd_sessions (mm_world m') ss = Some s \<and> ss_cwd s \<in> {''/'', ''/tmp/'', ''/proc/''}"
proof -
  obtain s where s: "wd_sessions (mm_world m) ss = Some s" using assms(3) by (auto simp: session_chdir_def bind_Some_iff)
  define c where "c = (if uri \<noteq> [] \<and> uri ! 0 = SLASH then uri else ss_cwd s @ uri)"
  define c' where "c' = (if last c \<noteq> SLASH then c @ [SLASH] else c)"
  have eq: "session_chdir ss uri m = do {
       ensure (c \<noteq> []);
       rv \<leftarrow> session_stat c' m;
       (if rv \<noteq> RV_ELSE_GEN then Some (RV_ERR_GEN, m)
        else do {
          w \<leftarrow> upd_session ss (\<lambda>s. s\<lparr>ss_cwd := c'\<rparr>) (mm_world m);
          Some (RV_OK, m\<lparr>mm_world := w\<rparr>)
        })
     }" unfolding session_chdir_def s c_def c'_def Let_def by simp
  have c: "c \<noteq> []" "session_stat c' m = Some RV_ELSE_GEN"
    and m': "\<exists>w. upd_session ss (\<lambda>s. s\<lparr>ss_cwd := c'\<rparr>) (mm_world m) = Some w \<and> m' = m\<lparr>mm_world := w\<rparr>"
    using assms(3) unfolding eq by (auto simp: bind_Some_iff ensure_def split: if_splits)
  have l: "last c' = SLASH" "c' \<noteq> []" using c(1) by (auto simp: c'_def)
  obtain i pos where f: "find_repo c' m = Some (i, pos)" "pos \<le> length c'"
    "repo_stat (drop pos c') (mm_repos m i) = Some RV_ELSE_GEN"
    using c(2) by (auto simp: session_stat_def locate_def substr_from_def bind_Some_iff split: if_splits)
  have "drop pos c' = []"
  proof (rule ccontr)
    assume "drop pos c' \<noteq> []"
    then show False using stat_slash_end [OF assms(2) f(3)] l by (simp add: last_drop)
  qed
  then have "length c' = pos" using f(2) by simp
  moreover have "c' ! 0 = SLASH" and fp: "(i, pos) = (if take 5 c' = ''/tmp/'' then (Tmp_repo_id, 5)
              else if take 6 c' = ''/proc/'' then (Proc_repo, 6) else (Root_repo, 1))"
    using f(1) assms(1) by (auto simp: find_repo_def bind_Some_iff ensure_def split: if_splits)
  ultimately have "c' \<in> {''/'', ''/tmp/'', ''/proc/''}" using l
    by (cases c') (auto split: if_splits)
  then show ?thesis using m' by (auto simp: upd_session_def bind_Some_iff)
qed


lemma fresh_named: "named_entries (create_tmp_repo l p)"
  by (simp add: named_entries_def dir_find_def create_tmp_repo_def)

theorem chdir_reaches_roots_witness:
  "let m = \<lparr>mm_world = small_world, mm_repos = (\<lambda>_. create_tmp_repo ''/'' ''u''), mm_inited = True\<rparr>
   in \<exists>m'. session_chdir 5 ''/tmp'' m = Some (RV_OK, m') \<and>
        (\<exists>s. wd_sessions (mm_world m') 5 = Some s \<and> ss_cwd s \<in> {''/'', ''/tmp/'', ''/proc/''})"
proof -
  let ?m = "\<lparr>mm_world = small_world, mm_repos = (\<lambda>_. create_tmp_repo ''/'' ''u''), mm_inited = True\<rparr>"
  have "\<exists>m'. session_chdir 5 ''/tmp'' ?m = Some (RV_OK, m')"
    by (simp add: session_chdir_def small_world_def session_stat_def locate_def find_repo_def substr_from_def repo_stat_def
        upd_session_def ensure_def)
  then show ?thesis using chdir_reaches_roots [of ?m 5 "''/tmp''"] fresh_named by auto
qed

end
