(* ===== verification/Safe_List.thy ===== *)
theory Safe_List
  imports Sc_Prelude
begin

text \<open>
  The list with safe iterators (\<open>libsc/libsc/safe_list_p.h\<close>): items are reference counted, a
  removed item is marked dead and stays linked until the last iterator on it moves away. The ring
  of items is the list of their addresses in order (theory \<open>List_Head\<close> shows that view of the
  ring); address \<open>0\<close> is the head inside the list object. An access to an item that was freed is
  \<open>None\<close>.
\<close>

record 'a sitem =
  si_refcnt :: int
  si_dead :: bool
  si_data :: 'a

record 'a slist =
  sl_items :: "nat list"
  sl_heap :: "nat \<Rightarrow> 'a sitem option"
  sl_refcnt :: int
  sl_fresh :: nat

definition sl_new :: "'a slist" where
  "sl_new = \<lparr>sl_items = [], sl_heap = (\<lambda>_. None), sl_refcnt = 1, sl_fresh = 1\<rparr>"

fun list_succ :: "nat list \<Rightarrow> nat \<Rightarrow> nat" where
  "list_succ [] p = p"
| "list_succ (x # xs) p = (if x = p then (case xs of [] \<Rightarrow> 0 | y # _ \<Rightarrow> y) else list_succ xs p)"

definition sl_next :: "'a slist \<Rightarrow> nat \<Rightarrow> nat" where
  "sl_next l p = list_succ (0 # sl_items l) p"

definition sl_prev :: "'a slist \<Rightarrow> nat \<Rightarrow> nat" where
  "sl_prev l p = list_succ (0 # rev (sl_items l)) p"

section \<open>Items\<close>

definition si_ref :: "nat \<Rightarrow> 'a slist \<Rightarrow> 'a slist option" where
  "si_ref p l =
     do {
       it \<leftarrow> sl_heap l p;
       Some (l\<lparr>sl_heap := (sl_heap l)(p \<mapsto> it\<lparr>si_refcnt := si_refcnt it + 1\<rparr>)\<rparr>)
     }"

definition si_unref :: "nat \<Rightarrow> 'a slist \<Rightarrow> 'a slist option" where
  "si_unref p l =
     do {
       it \<leftarrow> sl_heap l p;
       Some (if si_refcnt it - 1 = 0
             then l\<lparr>sl_items := remove1 p (sl_items l), sl_heap := (sl_heap l)(p := None)\<rparr>
             else l\<lparr>sl_heap := (sl_heap l)(p \<mapsto> it\<lparr>si_refcnt := si_refcnt it - 1\<rparr>)\<rparr>)
     }"

definition si_die :: "nat \<Rightarrow> 'a slist \<Rightarrow> 'a slist option" where
  "si_die p l =
     do {
       it \<leftarrow> sl_heap l p;
       si_unref p (l\<lparr>sl_heap := (sl_heap l)(p \<mapsto> it\<lparr>si_dead := True\<rparr>)\<rparr>)
     }"

section \<open>Iterators\<close>

text \<open>An iterator is the address it stands on. References are counted on items only.\<close>

definition it_ref :: "nat \<Rightarrow> 'a slist \<Rightarrow> 'a slist option" where
  "it_ref p l = (if p \<noteq> 0 then si_ref p l else Some l)"

definition it_unref :: "nat \<Rightarrow> 'a slist \<Rightarrow> 'a slist option" where
  "it_unref p l = (if p \<noteq> 0 then si_unref p l else Some l)"

fun it_skip :: "nat \<Rightarrow> ('a slist \<Rightarrow> nat \<Rightarrow> nat) \<Rightarrow> 'a slist \<Rightarrow> nat \<Rightarrow> nat option" where
  "it_skip 0 step l p = None"
| "it_skip (Suc n) step l p =
     (if p = 0 then Some 0
      else do {
        it \<leftarrow> sl_heap l p;
        if si_dead it then it_skip n step l (step l p) else Some p
      })"

definition it_fuel :: "'a slist \<Rightarrow> nat" where
  "it_fuel l = Suc (length (sl_items l))"

definition it_goto_next :: "nat \<Rightarrow> 'a slist \<Rightarrow> (nat \<times> 'a slist) option" where
  "it_goto_next p l =
     do {
       q \<leftarrow> it_skip (it_fuel l) sl_next l (sl_next l p);
       l \<leftarrow> it_ref q l;
       l \<leftarrow> it_unref p l;
       Some (q, l)
     }"

definition it_goto_prev :: "nat \<Rightarrow> 'a slist \<Rightarrow> (nat \<times> 'a slist) option" where
  "it_goto_prev p l =
     do {
       q \<leftarrow> it_skip (it_fuel l) sl_prev l (sl_prev l p);
       l \<leftarrow> it_ref q l;
       l \<leftarrow> it_unref p l;
       Some (q, l)
     }"

text \<open>\<open>begin()\<close>: the constructor that counts the iterator in the list's \<open>refcnt\<close>.\<close>

definition sl_begin :: "'a slist \<Rightarrow> (nat \<times> 'a slist) option" where
  "sl_begin l0 =
     (let l = l0\<lparr>sl_refcnt := sl_refcnt l0 + 1\<rparr> in
      do {
        p \<leftarrow> it_skip (it_fuel l) sl_next l (sl_next l 0);
        l \<leftarrow> it_ref p l;
        Some (p, l)
      })"

definition it_copy :: "nat \<Rightarrow> 'a slist \<Rightarrow> 'a slist option" where
  "it_copy p l = do { l \<leftarrow> it_ref p l; Some (l\<lparr>sl_refcnt := sl_refcnt l + 1\<rparr>) }"

definition it_destroy :: "nat \<Rightarrow> 'a slist \<Rightarrow> 'a slist option" where
  "it_destroy p l = it_unref p (l\<lparr>sl_refcnt := sl_refcnt l - 1\<rparr>)"

text \<open>\<open>iter != list.end()\<close>: the constructor behind \<open>end()\<close> does not count the iterator, the
  destructor of the temporary does.\<close>

definition it_not_end :: "nat \<Rightarrow> 'a slist \<Rightarrow> (bool \<times> 'a slist) option" where
  "it_not_end p l = do { l \<leftarrow> it_destroy 0 l; Some (p \<noteq> 0, l) }"

definition it_data :: "nat \<Rightarrow> 'a slist \<Rightarrow> 'a option" where
  "it_data p l = map_option si_data (sl_heap l p)"

definition it_remove :: "nat \<Rightarrow> 'a slist \<Rightarrow> 'a slist option" where
  "it_remove p l = (if p \<noteq> 0 then si_die p l else Some l)"

section \<open>The list\<close>

definition sl_alloc :: "'a \<Rightarrow> 'a slist \<Rightarrow> nat \<times> 'a slist" where
  "sl_alloc d l =
     (sl_fresh l, l\<lparr>sl_heap := (sl_heap l)(sl_fresh l \<mapsto>
        \<lparr>si_refcnt = 1, si_dead = False, si_data = d\<rparr>), sl_fresh := sl_fresh l + 1\<rparr>)"

definition sl_append :: "nat \<Rightarrow> 'a slist \<Rightarrow> 'a slist" where
  "sl_append p l = l\<lparr>sl_items := sl_items l @ [p]\<rparr>"

definition sl_prepend :: "nat \<Rightarrow> 'a slist \<Rightarrow> 'a slist" where
  "sl_prepend p l = l\<lparr>sl_items := p # sl_items l\<rparr>"

definition sl_insert_before :: "nat \<Rightarrow> nat \<Rightarrow> 'a slist \<Rightarrow> 'a slist" where
  "sl_insert_before at p l =
     l\<lparr>sl_items := (if at = 0 then sl_items l @ [p]
        else concat (map (\<lambda>x. if x = at then [p, x] else [x]) (sl_items l)))\<rparr>"

definition sl_insert_after :: "nat \<Rightarrow> nat \<Rightarrow> 'a slist \<Rightarrow> 'a slist" where
  "sl_insert_after at p l =
     l\<lparr>sl_items := concat (map (\<lambda>x. if x = at then [x, p] else [x]) (sl_items l))\<rparr>"

text \<open>\<open>insert(iter, data)\<close>.\<close>

definition sl_insert :: "nat \<Rightarrow> 'a \<Rightarrow> 'a slist \<Rightarrow> 'a slist" where
  "sl_insert at d l = (let (p, l) = sl_alloc d l in sl_insert_before at p l)"

text \<open>The loop of \<open>die()\<close>: \<open>while (iter != end()) (iter++).remove()\<close>.\<close>

fun sl_die_loop :: "nat \<Rightarrow> nat \<Rightarrow> 'a slist \<Rightarrow> (nat \<times> 'a slist) option" where
  "sl_die_loop 0 p l = None"
| "sl_die_loop (Suc n) p l =
     do {
       (more, l) \<leftarrow> it_not_end p l;
       if \<not> more then Some (p, l)
       else do {
         l \<leftarrow> it_copy p l;
         (q, l) \<leftarrow> it_goto_next p l;
         l \<leftarrow> it_remove p l;
         l \<leftarrow> it_destroy p l;
         sl_die_loop n q l
       }
     }"

text \<open>\<open>die()\<close> deletes the list when its count reaches zero; its iterator is destroyed afterwards,
  which writes to the list: \<open>None\<close> when the list is gone.\<close>

definition sl_die :: "'a slist \<Rightarrow> 'a slist option" where
  "sl_die l =
     do {
       (p, l) \<leftarrow> sl_begin l;
       (p, l) \<leftarrow> sl_die_loop (it_fuel l) p l;
       let l = l\<lparr>sl_refcnt := sl_refcnt l - 1\<rparr>;
       if sl_refcnt l = 0 then None else it_destroy p l
     }"

section \<open>Invariant\<close>

text \<open>\<open>sl_state xs d c p l\<close>: the list has the live items \<open>xs\<close> with data \<open>d\<close> and count \<open>c\<close>, and one
  iterator on \<open>p\<close> (none when \<open>p\<close> is the head).\<close>

definition sl_state :: "nat list \<Rightarrow> (nat \<Rightarrow> 'a) \<Rightarrow> int \<Rightarrow> nat \<Rightarrow> 'a slist \<Rightarrow> bool" where
  "sl_state xs d c p l \<longleftrightarrow> distinct (0 # xs) \<and> sl_items l = xs \<and> sl_refcnt l = c \<and>
     sl_heap l = (\<lambda>q. if q \<in> set xs
       then Some \<lparr>si_refcnt = (if q = p then 2 else 1), si_dead = False, si_data = d q\<rparr> else None) \<and>
     (\<forall>q \<in> set xs. q < sl_fresh l) \<and> 0 < sl_fresh l \<and> p \<in> set (xs @ [0])"

lemma sl_state_new: "sl_state [] d 1 0 sl_new"
  by (simp add: sl_state_def sl_new_def fun_eq_iff)

lemma list_succ_append: "p \<notin> set ys \<Longrightarrow> list_succ (ys @ p # zs) p = (case zs of [] \<Rightarrow> 0 | z # _ \<Rightarrow> z)"
  by (induction ys) auto

lemma sl_next_state:
  assumes "sl_state (ys @ p # zs) d c r l"
  shows "sl_next l p = hd (zs @ [0])"
proof -
  have "p \<notin> set (0 # ys)" "sl_items l = ys @ p # zs" using assms by (auto simp: sl_state_def)
  then show ?thesis
    using list_succ_append [of p "0 # ys" zs] by (cases zs) (auto simp: sl_next_def)
qed

lemma sl_next_head: "sl_state xs d c r l \<Longrightarrow> sl_next l 0 = hd (xs @ [0])"
  by (cases xs) (auto simp: sl_state_def sl_next_def)

lemma it_skip_live:
  assumes "sl_state xs d c r l" "p \<in> set (xs @ [0])"
  shows "it_skip (Suc n) step l p = Some p"
  using assms by (auto simp: sl_state_def)

lemma hd_mem: "hd (xs @ [a]) \<in> set (xs @ [a])"
  by (cases xs) auto

lemma it_ref_state:
  assumes "sl_state xs d c 0 l" "p \<in> set (xs @ [0])"
  shows "\<exists>l'. it_ref p l = Some l' \<and> sl_state xs d c p l'"
  using assms by (cases "p = 0") (auto simp: sl_state_def it_ref_def si_ref_def fun_eq_iff)

lemma sl_state_refcnt: "sl_state xs d c p l \<Longrightarrow> sl_state xs d c' p (l\<lparr>sl_refcnt := c'\<rparr>)"
  by (simp add: sl_state_def)

lemma sl_begin_state:
  assumes "sl_state xs d c 0 l"
  shows "\<exists>l'. sl_begin l = Some (hd (xs @ [0]), l') \<and> sl_state xs d (c + 1) (hd (xs @ [0])) l'"
proof -
  let ?l = "l\<lparr>sl_refcnt := sl_refcnt l + 1\<rparr>"
  have c: "sl_refcnt l = c" using assms by (simp add: sl_state_def)
  have s: "sl_state xs d (c + 1) 0 ?l" unfolding c by (rule sl_state_refcnt [OF assms])
  have "it_skip (it_fuel ?l) sl_next ?l (sl_next ?l 0) = Some (hd (xs @ [0]))"
    unfolding it_fuel_def sl_next_head [OF s] by (rule it_skip_live [OF s hd_mem])
  with it_ref_state [OF s hd_mem] show ?thesis
    by (auto simp: sl_begin_def)
qed

lemma it_unref_state:
  assumes "sl_state xs d c p l"
  shows "\<exists>l'. it_unref p l = Some l' \<and> sl_state xs d c 0 l'"
  using assms
  by (cases "p = 0") (auto simp: sl_state_def it_unref_def si_unref_def fun_eq_iff)

lemma it_goto_next_state:
  assumes "sl_state (ys @ p # zs) d c p l"
  shows "\<exists>l'. it_goto_next p l = Some (hd (zs @ [0]), l') \<and>
    sl_state (ys @ p # zs) d c (hd (zs @ [0])) l'"
proof -
  let ?q = "hd (zs @ [0])"
  have q: "?q \<in> set ((ys @ p # zs) @ [0])" "?q \<noteq> p"
    using assms by (cases zs; auto simp: sl_state_def)+
  have "it_skip (it_fuel l) sl_next l (sl_next l p) = Some ?q"
    unfolding it_fuel_def sl_next_state [OF assms] by (rule it_skip_live [OF assms q(1)])
  then show ?thesis
    using assms q
    by (cases "?q = 0") (auto simp: it_goto_next_def it_ref_def it_unref_def si_ref_def si_unref_def
        sl_state_def fun_eq_iff)
qed

text \<open>An item under the iterator that is removed stays linked, and moving on from it frees it.\<close>

definition sl_dying :: "nat list \<Rightarrow> (nat \<Rightarrow> 'a) \<Rightarrow> int \<Rightarrow> nat \<Rightarrow> 'a slist \<Rightarrow> bool" where
  "sl_dying xs d c p l \<longleftrightarrow> p \<in> set xs \<and> (\<exists>l0. sl_state xs d c p l0 \<and>
     l = l0\<lparr>sl_heap := (sl_heap l0)(p \<mapsto> \<lparr>si_refcnt = 1, si_dead = True, si_data = d p\<rparr>)\<rparr>)"

lemma it_remove_state:
  assumes "sl_state xs d c p l" "p \<in> set xs"
  shows "\<exists>l'. it_remove p l = Some l' \<and> sl_dying xs d c p l'"
proof -
  have "p \<noteq> 0" "sl_heap l p = Some \<lparr>si_refcnt = 2, si_dead = False, si_data = d p\<rparr>"
    using assms by (cases "p = 0"; auto simp: sl_state_def)+
  then have "it_remove p l =
      Some (l\<lparr>sl_heap := (sl_heap l)(p \<mapsto> \<lparr>si_refcnt = 1, si_dead = True, si_data = d p\<rparr>)\<rparr>)"
    by (simp add: it_remove_def si_die_def si_unref_def)
  then show ?thesis using assms by (auto simp: sl_dying_def)
qed

lemma sl_dying_free:
  assumes "sl_dying (ys @ p # zs) d c p l"
  shows "\<exists>l'. it_unref p l = Some l' \<and> sl_state (ys @ zs) d c 0 l'"
  using assms
  by (auto simp: sl_dying_def sl_state_def it_unref_def si_unref_def fun_eq_iff remove1_append)

lemma it_goto_next_dying:
  assumes "sl_dying (ys @ p # zs) d c p l"
  shows "\<exists>l'. it_goto_next p l = Some (hd (zs @ [0]), l') \<and>
    sl_state (ys @ zs) d c (hd (zs @ [0])) l'"
proof -
  let ?q = "hd (zs @ [0])"
  obtain l0 where l0: "sl_state (ys @ p # zs) d c p l0"
    "l = l0\<lparr>sl_heap := (sl_heap l0)(p \<mapsto> \<lparr>si_refcnt = 1, si_dead = True, si_data = d p\<rparr>)\<rparr>"
    using assms by (auto simp: sl_dying_def)
  have q: "?q \<in> set ((ys @ p # zs) @ [0])" "?q \<in> set ((ys @ zs) @ [0])" "?q \<noteq> p"
    using l0(1) by (cases zs; auto simp: sl_state_def)+
  have "sl_next l p = ?q" using sl_next_state [OF l0(1)] l0(2) by (simp add: sl_next_def)
  moreover have "it_skip (it_fuel l) sl_next l ?q = Some ?q"
    using it_skip_live [OF l0(1) q(1)] l0 q by (auto simp: it_fuel_def sl_state_def)
  ultimately show ?thesis
    using l0 q
    by (cases "?q = 0") (auto simp: it_goto_next_def it_ref_def it_unref_def si_ref_def si_unref_def
        sl_state_def fun_eq_iff remove1_append)
qed

lemma it_not_end_state:
  assumes "sl_state xs d c p l"
  shows "it_not_end p l = Some (p \<noteq> 0, l\<lparr>sl_refcnt := c - 1\<rparr>)"
    and "sl_state xs d (c - 1) p (l\<lparr>sl_refcnt := c - 1\<rparr>)"
  using assms by (simp_all add: it_not_end_def it_destroy_def it_unref_def sl_state_def)

lemma sl_die_body:
  assumes "sl_state (p # zs) d c p l"
  shows "\<exists>l1 l2 l3 l4. it_copy p l = Some l1 \<and> it_goto_next p l1 = Some (hd (zs @ [0]), l2) \<and>
    it_remove p l2 = Some l3 \<and> it_destroy p l3 = Some l4 \<and> sl_state zs d c (hd (zs @ [0])) l4"
proof -
  let ?q = "hd (zs @ [0])"
  have q: "?q \<in> set ((p # zs) @ [0])" "?q \<in> set (zs @ [0])" "?q \<noteq> p" "p \<noteq> 0"
    using assms by (cases zs; auto simp: sl_state_def)+
  define l1 where "l1 = l\<lparr>sl_heap := (sl_heap l)(p \<mapsto> \<lparr>si_refcnt = 3, si_dead = False, si_data = d p\<rparr>),
    sl_refcnt := c + 1\<rparr>"
  have l1: "it_copy p l = Some l1"
    using assms q(4) by (auto simp: it_copy_def it_ref_def si_ref_def sl_state_def l1_def)
  have "sl_next l1 p = ?q"
    using sl_next_state [of "[]" p zs d c p l] assms by (simp add: sl_next_def l1_def)
  moreover have "it_skip (it_fuel l1) sl_next l1 ?q = Some ?q"
    using it_skip_live [OF assms q(1)] assms q by (auto simp: it_fuel_def sl_state_def l1_def)
  ultimately have "\<exists>l2. it_goto_next p l1 = Some (?q, l2) \<and> sl_items l2 = p # zs \<and>
      sl_refcnt l2 = c + 1 \<and> sl_fresh l2 = sl_fresh l \<and> sl_heap l2 = (\<lambda>x. if x \<in> set (p # zs)
       then Some \<lparr>si_refcnt = (if x = p \<or> x = ?q then 2 else 1), si_dead = False, si_data = d x\<rparr>
       else None)"
    using assms q
    by (cases "?q = 0") (auto simp: it_goto_next_def it_ref_def it_unref_def si_ref_def si_unref_def
        sl_state_def l1_def fun_eq_iff)
  then obtain l2 where l2: "it_goto_next p l1 = Some (?q, l2)" "sl_items l2 = p # zs"
    "sl_refcnt l2 = c + 1" "sl_fresh l2 = sl_fresh l"
    "sl_heap l2 = (\<lambda>x. if x \<in> set (p # zs)
       then Some \<lparr>si_refcnt = (if x = p \<or> x = ?q then 2 else 1), si_dead = False, si_data = d x\<rparr>
       else None)"
    by blast
  define l3 where "l3 = l2\<lparr>sl_heap := (sl_heap l2)(p \<mapsto> \<lparr>si_refcnt = 1, si_dead = True, si_data = d p\<rparr>)\<rparr>"
  have l3: "it_remove p l2 = Some l3"
    using l2 q(4) by (simp add: it_remove_def si_die_def si_unref_def l3_def)
  have "\<exists>l4. it_destroy p l3 = Some l4 \<and> sl_state zs d c ?q l4"
    using assms q l2(2-5)
    by (auto simp: it_destroy_def it_unref_def si_unref_def sl_state_def l3_def fun_eq_iff)
  then show ?thesis using l1 l2(1) l3 by blast
qed

lemma sl_die_loop_state:
  assumes "sl_state xs d c (hd (xs @ [0])) l" "length xs < n"
  shows "\<exists>l'. sl_die_loop n (hd (xs @ [0])) l = Some (0, l') \<and>
    sl_state [] d (c - int (length xs) - 1) 0 l'"
  using assms
proof (induction xs arbitrary: c l n)
  case Nil
  then obtain m where "n = Suc m" by (cases n) auto
  then show ?case using it_not_end_state [OF Nil.prems(1)] by simp
next
  case (Cons p zs)
  then obtain m where n: "n = Suc m" by (cases n) auto
  have st: "sl_state (p # zs) d c p l" and p: "p \<noteq> 0" using Cons.prems(1) by (auto simp: sl_state_def)
  from sl_die_body [OF it_not_end_state(2) [OF st]] obtain l1 l2 l3 l4 where
    b: "it_copy p (l\<lparr>sl_refcnt := c - 1\<rparr>) = Some l1" "it_goto_next p l1 = Some (hd (zs @ [0]), l2)"
    "it_remove p l2 = Some l3" "it_destroy p l3 = Some l4" "sl_state zs d (c - 1) (hd (zs @ [0])) l4"
    by blast
  obtain l' where "sl_die_loop m (hd (zs @ [0])) l4 = Some (0, l')"
    "sl_state [] d (c - 1 - int (length zs) - 1) 0 l'"
    using Cons.IH [OF b(5)] Cons.prems(2) n by auto
  then show ?case
    using b it_not_end_state(1) [OF st] p n by (intro exI [of _ l']) (simp add: algebra_simps)
qed

section \<open>Properties\<close>

text \<open>C33. Deleting the item under an iterator is safe: the item is marked dead and stays in the
  list until the iterator moves, the move goes to the item that follows it and frees the deleted
  one, and every other item keeps its place and its data.\<close>

theorem safe_list_delete_under_iterator:
  assumes "sl_state (ys @ p # zs) d c p l" "p \<noteq> 0"
  shows "\<exists>l1 l2. it_remove p l = Some l1 \<and> sl_items l1 = ys @ p # zs \<and>
    map_option si_dead (sl_heap l1 p) = Some True \<and>
    it_goto_next p l1 = Some (hd (zs @ [0]), l2) \<and> sl_state (ys @ zs) d c (hd (zs @ [0])) l2 \<and>
    sl_heap l2 p = None"
proof -
  obtain l1 where l1: "it_remove p l = Some l1" "sl_dying (ys @ p # zs) d c p l1"
    using it_remove_state [OF assms(1)] by auto
  obtain l2 where l2: "it_goto_next p l1 = Some (hd (zs @ [0]), l2)" "sl_state (ys @ zs) d c (hd (zs @ [0])) l2"
    using it_goto_next_dying [OF l1(2)] by blast
  have "sl_items l1 = ys @ p # zs" "map_option si_dead (sl_heap l1 p) = Some True"
    using l1(2) by (auto simp: sl_dying_def sl_state_def)
  moreover have "p \<notin> set (ys @ zs)" using assms(1) by (auto simp: sl_state_def)
  then have "sl_heap l2 p = None" using l2(2) by (simp add: sl_state_def)
  ultimately show ?thesis using l1(1) l2 by blast
qed

theorem safe_list_delete_under_iterator_witness:
  "\<exists>l1 l2 l3. sl_begin (sl_insert 0 (8 :: nat) (sl_insert 0 7 sl_new)) = Some (1, l1) \<and>
     it_remove 1 l1 = Some l2 \<and> it_goto_next 1 l2 = Some (2, l3) \<and> sl_items l3 = [2]"
proof -
  let ?l = "sl_insert 0 (8 :: nat) (sl_insert 0 7 sl_new)"
  have "sl_state [1, 2] (\<lambda>q. q + 6) 1 0 ?l"
    by (auto simp: sl_state_def sl_insert_def sl_alloc_def sl_insert_before_def sl_new_def fun_eq_iff)
  from sl_begin_state [OF this] obtain l1 where
    l1: "sl_begin ?l = Some (1, l1)" "sl_state ([] @ 1 # [2]) (\<lambda>q. q + 6) (1 + 1) 1 l1"
    by auto
  from safe_list_delete_under_iterator [OF l1(2)] obtain l2 l3 where
    "it_remove 1 l1 = Some l2" "it_goto_next 1 l2 = Some (2, l3)"
    "sl_state [2] (\<lambda>q. q + 6) (1 + 1) 2 l3"
    by auto
  then show ?thesis using l1(1) by (auto simp: sl_state_def)
qed

text \<open>\<open>die()\<close> of a dynamically allocated list frees every item, but not the list: each
  comparison with \<open>end()\<close> takes one from the list's reference count without having added one, so
  for a list with items the count is negative when it is tested and the list is leaked; and for an
  empty list the count is zero while the iterator is still there, so the list is deleted under it.\<close>

theorem safe_list_die_miscounts:
  assumes "sl_state xs d 1 0 l"
  shows "(xs = [] \<longrightarrow> sl_die l = None) \<and>
    (xs \<noteq> [] \<longrightarrow> (\<exists>l'. sl_die l = Some l' \<and> sl_items l' = [] \<and> sl_heap l' = (\<lambda>_. None)
       \<and> sl_refcnt l' = - int (length xs) - 1))"
proof -
  obtain l1 where l1: "sl_begin l = Some (hd (xs @ [0]), l1)" "sl_state xs d 2 (hd (xs @ [0])) l1"
    using sl_begin_state [OF assms] by auto
  have "length xs < it_fuel l1" using l1(2) by (simp add: it_fuel_def sl_state_def)
  from sl_die_loop_state [OF l1(2) this] obtain l2 where
    l2: "sl_die_loop (it_fuel l1) (hd (xs @ [0])) l1 = Some (0, l2)"
      "sl_state [] d (1 - int (length xs)) 0 l2"
    by auto
  then show ?thesis
    using l1(1) by (auto simp: sl_die_def sl_state_def it_destroy_def it_unref_def Let_def fun_eq_iff)
qed

theorem safe_list_die_miscounts_witness:
  "sl_die (sl_new :: nat slist) = None \<and>
   (\<exists>l. sl_die (sl_insert 0 (5 :: nat) sl_new) = Some l \<and> sl_refcnt l = - 2)"
proof -
  have "sl_state [1] (\<lambda>_. 5) 1 0 (sl_insert 0 (5 :: nat) sl_new)"
    by (auto simp: sl_state_def sl_insert_def sl_alloc_def sl_insert_before_def sl_new_def fun_eq_iff)
  from safe_list_die_miscounts [OF this] safe_list_die_miscounts [OF sl_state_new]
  show ?thesis by auto
qed

end
