(* ===== verification/Constr_Prog.thy ===== *)
theory Constr_Prog
  imports Sc_Types
begin

text \<open>
  Search constraints (\<open>libsc/libsc/sc_constraint.h\<close>, \<open>sc_constraint.cpp\<close>). A constraint is a pattern
  with parameters; its \<open>deconstruct\<close> is a straight-line program over registers that finds the
  instances: the first registers are the parameters, a command asks another constraint, checks a
  filter, calls a function or walks a set, and the last command returns registers. The registry
  knows constraints, filters and functions by their numbers and names. Registration replaces the
  names in a program by numbers (\<open>realize\<close>) and inlines the constraints it asks; a constraint that
  is asked with sets in place of addresses gets a program of its own.

  A pointer to a function of the code is its name here; a null name is \<open>None\<close>. Numbers of registers
  are integers, \<open>- 1\<close> for none.
\<close>

section \<open>Programs\<close>

text \<open>\<open>union sc_param\<close>, with the member that was written last.\<close>

datatype cparam = P_addr nat | P_type sc_type | P_int int | P_seg nat | P_flag bool

text \<open>Reading a member that was not written: only the null pointer and the zero have the same bits
  in all of them.\<close>

fun p_addr :: "cparam \<Rightarrow> nat option" where
  "p_addr (P_addr a) = Some a"
| "p_addr (P_type t) = (if t = 0 then Some 0 else None)"
| "p_addr (P_int i) = (if i = 0 then Some 0 else None)"
| "p_addr _ = None"

fun p_type :: "cparam \<Rightarrow> sc_type option" where
  "p_type (P_type t) = Some t"
| "p_type (P_int i) = Some (word_of_int i)"
| "p_type (P_addr a) = (if a = 0 then Some 0 else None)"
| "p_type _ = None"

fun p_int :: "cparam \<Rightarrow> int option" where
  "p_int (P_int i) = Some i"
| "p_int (P_type t) = Some (sint t)"
| "p_int (P_addr a) = (if a = 0 then Some 0 else None)"
| "p_int _ = None"

datatype param_spec =
  SC_PD_TYPE | SC_PD_ADDR | SC_PD_INT | SC_PD_ADDR_0 | SC_PD_SET | SC_PD_SEGMENT | SC_PD_BOOLEAN

datatype item_type = SCD_RETURN | SCD_FILTER | SCD_CONSTR | SCD_FUNC | SCD_SET_EACH

record prg_item =
  pi_type :: item_type
  pi_in :: "int list"
  pi_out :: "int list"
  pi_name :: "string option"
  pi_id :: int

record deconstruct =
  dc_input_cnt :: nat
  dc_reg_cnt :: nat
  dc_commands :: "prg_item list"

datatype iter_factory = Std5_f_a_a_a_f | Std_on_segment

record constraint_info =
  cn_name :: "string option"
  cn_spec :: "param_spec list"
  cn_factory :: "iter_factory option"
  cn_dec :: "deconstruct option"

section \<open>The registry\<close>

datatype reg_entry = R_constr constraint_info | R_func string | R_filter string

text \<open>The array of entries up to \<open>reg_cnt\<close>, and the map of the constraints made for sets.\<close>

record registry =
  rg_entries :: "reg_entry list"
  rg_sets :: "((nat \<times> nat) \<times> nat) list"

definition MAX_REG_ITEMS :: nat where
  "MAX_REG_ITEMS = 8192"

fun entry_name :: "reg_entry \<Rightarrow> string option" where
  "entry_name (R_constr c) = cn_name c"
| "entry_name (R_func n) = Some n"
| "entry_name (R_filter n) = Some n"

text \<open>\<open>find_holder_id_by_name\<close>; no entry is found under a null name.\<close>

fun find_name :: "string \<Rightarrow> reg_entry list \<Rightarrow> nat \<Rightarrow> int" where
  "find_name nm [] i = - 1"
| "find_name nm (e # es) i = (if entry_name e = Some nm then int i else find_name nm es (i + 1))"

definition find_holder_id_by_name :: "string \<Rightarrow> registry \<Rightarrow> int" where
  "find_holder_id_by_name nm rg = find_name nm (rg_entries rg) 0"

text \<open>Entering an item at \<open>reg_cnt\<close>, beyond which there is no array; a name that is taken is an error.\<close>

definition reg_add :: "reg_entry \<Rightarrow> registry \<Rightarrow> (sc_retval \<times> nat \<times> registry) option" where
  "reg_add e rg =
     do {
       ensure (length (rg_entries rg) < MAX_REG_ITEMS);
       (case entry_name e of
          Some nm \<Rightarrow>
            if find_holder_id_by_name nm rg \<ge> 0 then Some (RV_ERR_GEN, 0, rg)
            else Some (RV_OK, length (rg_entries rg), rg\<lparr>rg_entries := rg_entries rg @ [e]\<rparr>)
        | None \<Rightarrow> Some (RV_OK, length (rg_entries rg), rg\<lparr>rg_entries := rg_entries rg @ [e]\<rparr>))
     }"

definition register_filter :: "string \<Rightarrow> registry \<Rightarrow> (sc_retval \<times> nat \<times> registry) option" where
  "register_filter nm rg =
     (if find_holder_id_by_name nm rg \<ge> 0 then Some (RV_ERR_GEN, 0, rg) else reg_add (R_filter nm) rg)"

definition register_function :: "string \<Rightarrow> registry \<Rightarrow> (sc_retval \<times> nat \<times> registry) option" where
  "register_function nm rg =
     (if find_holder_id_by_name nm rg \<ge> 0 then Some (RV_ERR_GEN, 0, rg) else reg_add (R_func nm) rg)"

text \<open>\<open>sc_constraint_get_info\<close>, \<open>get_filter\<close> and \<open>get_function\<close>: \<open>None\<close> is the null pointer.\<close>

definition get_info :: "int \<Rightarrow> registry \<Rightarrow> constraint_info option" where
  "get_info cid rg =
     (if 0 \<le> cid \<and> nat cid < length (rg_entries rg)
      then case rg_entries rg ! nat cid of R_constr c \<Rightarrow> Some c | _ \<Rightarrow> None else None)"

definition get_filter :: "int \<Rightarrow> registry \<Rightarrow> string option" where
  "get_filter cid rg =
     (if 0 \<le> cid \<and> nat cid < length (rg_entries rg)
      then case rg_entries rg ! nat cid of R_filter n \<Rightarrow> Some n | _ \<Rightarrow> None else None)"

definition get_function :: "int \<Rightarrow> registry \<Rightarrow> string option" where
  "get_function cid rg =
     (if 0 \<le> cid \<and> nat cid < length (rg_entries rg)
      then case rg_entries rg ! nat cid of R_func n \<Rightarrow> Some n | _ \<Rightarrow> None else None)"

text \<open>\<open>sc_deconstruct_realize\<close>: \<open>None\<close> when a name is not registered.\<close>

fun realize :: "registry \<Rightarrow> prg_item list \<Rightarrow> prg_item list option" where
  "realize rg [] = Some []"
| "realize rg (c # cs) =
     do {
       cs \<leftarrow> realize rg cs;
       (if pi_type c = SCD_RETURN then Some (c # cs)
        else do {
          nm \<leftarrow> pi_name c;
          let i = find_holder_id_by_name nm rg;
          if i < 0 then None else Some (c\<lparr>pi_id := i\<rparr> # cs)
        })
     }"

section \<open>Inlining\<close>

definition MAX_REG_CNT :: nat where
  "MAX_REG_CNT = 512"

definition MAX_COMMANDS_LEN :: nat where
  "MAX_COMMANDS_LEN = 4096"

definition is_primitive :: "string option \<Rightarrow> bool" where
  "is_primitive nm \<longleftrightarrow> nm = Some ''all_input'' \<or> nm = Some ''all_output''"

text \<open>Reading the map of registers, and writing the output registers of the caller into it.\<close>

definition map_reg :: "int list \<Rightarrow> int \<Rightarrow> int option" where
  "map_reg rm k = (if 0 \<le> k \<and> nat k < length rm then Some (rm ! nat k) else None)"

fun map_regs :: "int list \<Rightarrow> int list \<Rightarrow> int list option" where
  "map_regs rm [] = Some []"
| "map_regs rm (k # ks) = do { x \<leftarrow> map_reg rm k; xs \<leftarrow> map_regs rm ks; Some (x # xs) }"

fun map_outs :: "int list \<Rightarrow> int list \<Rightarrow> int list option" where
  "map_outs rm [] = Some []"
| "map_outs rm (k # ks) =
     do { x \<leftarrow> (if k \<ge> 0 then map_reg rm k else Some (- 1)); xs \<leftarrow> map_outs rm ks; Some (x # xs) }"

fun set_outs :: "int list \<Rightarrow> int list \<Rightarrow> int list \<Rightarrow> int list option" where
  "set_outs (r # rs) (out # os) rm =
     (if out \<ge> 0
      then do { ensure (0 \<le> r \<and> nat r < length rm); set_outs rs os (rm[nat r := out]) }
      else set_outs rs os rm)"
| "set_outs rs os rm = Some rm"

text \<open>New registers for the entries of the map from \<open>i\<close> on that are still free; \<open>k\<close> is the next one.\<close>

fun new_regs :: "int list \<Rightarrow> int \<Rightarrow> int list" where
  "new_regs [] k = []"
| "new_regs (r # rs) k = (if r \<ge> 0 then r # new_regs rs k else k # new_regs rs (k + 1))"

definition count_free :: "int list \<Rightarrow> nat" where
  "count_free rs = length (filter (\<lambda>r. r < 0) rs)"

text \<open>The map for the registers of \<open>idec\<close>, called by the command \<open>par\<close> of a program with \<open>rc\<close>
  registers beside its \<open>ic\<close> inputs, and the new number of registers.\<close>

definition inline_regmap :: "nat \<Rightarrow> nat \<Rightarrow> prg_item \<Rightarrow> deconstruct \<Rightarrow> (int list \<times> nat) option" where
  "inline_regmap ic rc par idec =
     do {
       ensure (pi_type par = SCD_CONSTR);
       let total = dc_reg_cnt idec + dc_input_cnt idec;
       ensure (max total (length (pi_in par)) \<le> MAX_REG_CNT);
       let rm = pi_in par @ replicate (total - length (pi_in par)) (- 1);
       ensure (dc_commands idec \<noteq> []);
       let ret = last (dc_commands idec);
       ensure (pi_type ret = SCD_RETURN);
       rm \<leftarrow> set_outs (pi_in ret) (pi_out par) rm;
       let acc = take (dc_input_cnt idec) rm;
       let rest = drop (dc_input_cnt idec) (take total rm);
       Some (acc @ new_regs rest (int (rc + ic)), rc + count_free rest)
     }"

definition rename_item :: "int list \<Rightarrow> prg_item \<Rightarrow> prg_item option" where
  "rename_item rm item =
     do {
       ins \<leftarrow> map_regs rm (pi_in item);
       outs \<leftarrow> map_outs rm (pi_out item);
       Some (item\<lparr>pi_in := ins, pi_out := outs\<rparr>)
     }"

definition asks_constraint :: "prg_item \<Rightarrow> bool" where
  "asks_constraint item \<longleftrightarrow> pi_type item = SCD_CONSTR \<and> \<not> is_primitive (pi_name item)"

definition dec_of :: "prg_item \<Rightarrow> registry \<Rightarrow> deconstruct option" where
  "dec_of item rg = do { c \<leftarrow> get_info (pi_id item) rg; cn_dec c }"

text \<open>\<open>__inline_dec\<close>, with \<open>n\<close> for the depth of the recursion. The commands of the program so far
  are \<open>acc\<close>, the last of them the one to be replaced.\<close>

function inline_dec :: "nat \<Rightarrow> registry \<Rightarrow> nat \<Rightarrow> deconstruct \<Rightarrow> prg_item list \<Rightarrow> nat \<Rightarrow> (prg_item list \<times> nat) option"
  and inline_items :: "nat \<Rightarrow> registry \<Rightarrow> nat \<Rightarrow> int list \<Rightarrow> prg_item list \<Rightarrow> prg_item list \<Rightarrow> nat \<Rightarrow> (prg_item list \<times> nat) option"
where
  "inline_dec 0 rg ic idec acc rc = None"
| "inline_dec (Suc n) rg ic idec acc rc =
     do {
       ensure (acc \<noteq> []);
       (rm, rc) \<leftarrow> inline_regmap ic rc (last acc) idec;
       inline_items n rg ic rm (butlast (dc_commands idec)) (butlast acc) rc
     }"
| "inline_items n rg ic rm [] acc rc = Some (acc, rc)"
| "inline_items n rg ic rm (item # items) acc rc =
     do {
       item' \<leftarrow> rename_item rm item;
       ensure (length acc < MAX_COMMANDS_LEN);
       (acc, rc) \<leftarrow> (if asks_constraint item'
           then do { d \<leftarrow> dec_of item' rg; inline_dec n rg ic d (acc @ [item']) rc }
           else Some (acc @ [item'], rc));
       inline_items n rg ic rm items acc rc
     }"
  by pat_completeness auto
termination
  by (relation "measures [\<lambda>x. case x of Inl (n, _) \<Rightarrow> 2 * n | Inr (n, _) \<Rightarrow> 2 * n + 1,
        \<lambda>x. case x of Inl _ \<Rightarrow> 0 | Inr (n, rg, ic, rm, items, _) \<Rightarrow> length items]") auto

text \<open>\<open>inline_deconstruct\<close>: an output register below zero becomes \<open>- 1\<close>.\<close>

definition copy_item :: "prg_item \<Rightarrow> prg_item" where
  "copy_item item = item\<lparr>pi_out := map (\<lambda>k. if k \<ge> 0 then k else - 1) (pi_out item)\<rparr>"

fun inline_top :: "nat \<Rightarrow> registry \<Rightarrow> nat \<Rightarrow> prg_item list \<Rightarrow> prg_item list \<Rightarrow> nat \<Rightarrow> (prg_item list \<times> nat) option" where
  "inline_top n rg ic [] acc rc = Some (acc, rc)"
| "inline_top n rg ic (item # items) acc rc =
     do {
       ensure (length acc < MAX_COMMANDS_LEN);
       let item' = copy_item item;
       (acc, rc) \<leftarrow> (if asks_constraint item'
           then do { d \<leftarrow> dec_of item' rg; inline_dec n rg ic d (acc @ [item']) rc }
           else Some (acc @ [item'], rc));
       inline_top n rg ic items acc rc
     }"

definition inline_deconstruct :: "nat \<Rightarrow> registry \<Rightarrow> deconstruct \<Rightarrow> deconstruct option" where
  "inline_deconstruct n rg idec =
     do {
       (cs, rc) \<leftarrow> inline_top n rg (dc_input_cnt idec) (dc_commands idec) [] (dc_reg_cnt idec);
       Some (idec\<lparr>dc_reg_cnt := rc, dc_commands := cs\<rparr>)
     }"

text \<open>\<open>sc_constraint_register\<close>: a constraint of the build always has a name.\<close>

definition register_constraint :: "nat \<Rightarrow> constraint_info \<Rightarrow> registry \<Rightarrow> (sc_retval \<times> nat \<times> registry) option" where
  "register_constraint n c rg =
     (case cn_dec c of
        None \<Rightarrow> reg_add (R_constr c) rg
      | Some d \<Rightarrow>
          (case realize rg (dc_commands d) of
             None \<Rightarrow> Some (RV_ERR_GEN, 0, rg)
           | Some cs \<Rightarrow>
               do {
                 d \<leftarrow> inline_deconstruct n rg (d\<lparr>dc_commands := cs\<rparr>);
                 reg_add (R_constr (c\<lparr>cn_dec := Some d\<rparr>)) rg
               }))"

section \<open>Constraints over sets\<close>

text \<open>\<open>set_params\<close> is a bit set of parameters. \<open>regmap\<close> maps a parameter in it to an extra register.\<close>

fun set_regmap :: "nat \<Rightarrow> nat \<Rightarrow> nat \<Rightarrow> nat \<Rightarrow> int list" where
  "set_regmap 0 i p j = []"
| "set_regmap (Suc n) i p j =
     (if bit p 0 then int j # set_regmap n (i + 1) (p div 2) (j + 1)
      else int i # set_regmap n (i + 1) (p div 2) j)"

fun count_bits :: "nat \<Rightarrow> nat \<Rightarrow> nat" where
  "count_bits 0 p = 0"
| "count_bits (Suc n) p = (if bit p 0 then 1 else 0) + count_bits n (p div 2)"

definition set_each_item :: "int \<Rightarrow> int \<Rightarrow> prg_item" where
  "set_each_item k r = \<lparr>pi_type = SCD_SET_EACH, pi_in = [k], pi_out = [r], pi_name = None, pi_id = - 1\<rparr>"

text \<open>The commands put before a command for the sets that it is the first to use; \<open>p\<close> is the set of
  parameters still unused.\<close>

fun first_uses :: "int list \<Rightarrow> int list \<Rightarrow> nat \<Rightarrow> (prg_item list \<times> nat) option" where
  "first_uses rm [] p = Some ([], p)"
| "first_uses rm (k # ks) p =
     (if k < 0 then first_uses rm ks p
      else do {
        x \<leftarrow> map_reg rm k;
        if x \<noteq> k \<and> bit p (nat k)
        then do { (cs, p) \<leftarrow> first_uses rm ks (unset_bit (nat k) p); Some (set_each_item k x # cs, p) }
        else first_uses rm ks p
      })"

fun map_ins :: "int list \<Rightarrow> int list \<Rightarrow> int list option" where
  "map_ins rm [] = Some []"
| "map_ins rm (k # ks) =
     do { x \<leftarrow> (if k < 0 then Some k else map_reg rm k); xs \<leftarrow> map_ins rm ks; Some (x # xs) }"

fun set_commands :: "int list \<Rightarrow> prg_item list \<Rightarrow> nat \<Rightarrow> prg_item list option" where
  "set_commands rm [] p = Some []"
| "set_commands rm (item # items) p =
     do {
       (cs, p) \<leftarrow> first_uses rm (pi_in item) p;
       ins \<leftarrow> map_ins rm (pi_in item);
       rest \<leftarrow> set_commands rm items p;
       Some (cs @ item\<lparr>pi_in := ins\<rparr> # rest)
     }"

fun mark_sets :: "param_spec list \<Rightarrow> nat \<Rightarrow> param_spec list" where
  "mark_sets [] p = []"
| "mark_sets (s # ss) p = (if bit p 0 then SC_PD_SET else s) # mark_sets ss (p div 2)"

text \<open>\<open>sc_constraint_compile_set_constraint\<close>. \<open>set_params\<close> is copied to an \<open>int\<close>, which must not
  become negative; the number of commands is fixed beforehand, and a set that no command uses would
  leave the last ones uninitialised.\<close>

definition compile_set_constraint :: "constraint_info \<Rightarrow> nat \<Rightarrow> constraint_info option" where
  "compile_set_constraint info p =
     do {
       ensure (p \<noteq> 0 \<and> p < 2 ^ 31);
       ensure (p < 2 ^ length (cn_spec info));
       ensure (\<forall>i \<in> set [0..<length (cn_spec info)]. bit p i \<longrightarrow> cn_spec info ! i = SC_PD_ADDR);
       old \<leftarrow> cn_dec info;
       let extra = count_bits (length (cn_spec info)) p;
       let total = dc_input_cnt old + dc_reg_cnt old + extra;
       let rm = set_regmap total 0 p (dc_input_cnt old + dc_reg_cnt old);
       cs \<leftarrow> set_commands rm (dc_commands old) p;
       ensure (length cs = length (dc_commands old) + extra);
       Some \<lparr>cn_name = None, cn_spec = mark_sets (cn_spec info) p, cn_factory = None,
         cn_dec = Some \<lparr>dc_input_cnt = dc_input_cnt old, dc_reg_cnt = dc_reg_cnt old + extra, dc_commands = cs\<rparr>\<rparr>
     }"

section \<open>Which iterator a constraint gets\<close>

datatype iter_plan =
    Plan_null
  | Plan_factory iter_factory
  | Plan_program deconstruct

text \<open>\<open>is_set\<close> tells of an address whether its segment is \<open>SC_SET_SEG\<close>, \<open>None\<close> if there is no such
  address.\<close>

fun set_params_of :: "(nat \<Rightarrow> bool option) \<Rightarrow> param_spec list \<Rightarrow> cparam list \<Rightarrow> nat \<Rightarrow> nat option" where
  "set_params_of is_set [] prm i = Some 0"
| "set_params_of is_set (s # ss) prm i =
     do {
       b \<leftarrow> (if s = SC_PD_ADDR
            then do { ensure (prm \<noteq> []); a \<leftarrow> p_addr (hd prm); is_set a } else Some False);
       r \<leftarrow> set_params_of is_set ss (tl prm) (i + 1);
       Some (if b then r + 2 ^ i else r)
     }"

definition iterator_plan ::
  "(nat \<Rightarrow> bool option) \<Rightarrow> int \<Rightarrow> cparam list \<Rightarrow> registry \<Rightarrow> (iter_plan \<times> registry) option" where
  "iterator_plan is_set cid prm rg =
     (case get_info cid rg of
        None \<Rightarrow> Some (Plan_null, rg)
      | Some info \<Rightarrow>
          do {
            p \<leftarrow> set_params_of is_set (cn_spec info) prm 0;
            (if p \<noteq> 0 then
               (case map_of (rg_sets rg) (nat cid, p) of
                  Some i \<Rightarrow> do { si \<leftarrow> get_info (int i) rg; d \<leftarrow> cn_dec si; Some (Plan_program d, rg) }
                | None \<Rightarrow>
                    do {
                      si \<leftarrow> compile_set_constraint info p;
                      (rv, i, rg) \<leftarrow> reg_add (R_constr si) rg;
                      ensure (rv = RV_OK);
                      d \<leftarrow> cn_dec si;
                      Some (Plan_program d, rg\<lparr>rg_sets := ((nat cid, p), i) # rg_sets rg\<rparr>)
                    })
             else
               (case cn_factory info of
                  Some f \<Rightarrow> Some (Plan_factory f, rg)
                | None \<Rightarrow> do { d \<leftarrow> cn_dec info; Some (Plan_program d, rg) }))
          })"

text \<open>\<open>sc_constraint_newv\<close>: the parameters of a new constraint from registers; \<open>cnt\<close> is cut to the
  number of parameters, further ones are left uninitialised.\<close>

fun read_regs :: "cparam list \<Rightarrow> int list \<Rightarrow> cparam list option" where
  "read_regs regs [] = Some []"
| "read_regs regs (k # ks) =
     do { ensure (0 \<le> k \<and> nat k < length regs); xs \<leftarrow> read_regs regs ks; Some (regs ! nat k # xs) }"

definition constraint_newv :: "int \<Rightarrow> cparam list \<Rightarrow> int list \<Rightarrow> registry \<Rightarrow> cparam list option" where
  "constraint_newv cid regs ins rg =
     do { info \<leftarrow> get_info cid rg; read_regs regs (take (length (cn_spec info)) ins) }"

definition constraint_newa :: "int \<Rightarrow> cparam list \<Rightarrow> registry \<Rightarrow> cparam list option" where
  "constraint_newa cid regs rg = do { info \<leftarrow> get_info cid rg; Some (take (length (cn_spec info)) regs) }"

end
