(* ===== verification/Constr_Sem.thy ===== *)
theory Constr_Sem
  imports Constr_Prog
begin

text \<open>
  What a constraint program means: a nest of loops. A command that asks a constraint runs the rest of
  the program for every answer, a filter runs it or not, a function runs it with its value, and a
  set runs it for every element. The theory also says which programs are well formed: every register
  is written once, before it is read.
\<close>

section \<open>The meaning of the parts\<close>

text \<open>The answers of constraints, filters, functions and sets, and for which arguments they are
  defined. A function that fails, or whose result lies in a segment that is not opened, gives \<open>None\<close>.\<close>

record csem =
  cs_src :: "int \<Rightarrow> cparam list \<Rightarrow> nat list list"
  cs_filter :: "int \<Rightarrow> cparam list \<Rightarrow> bool"
  cs_func :: "int \<Rightarrow> cparam list \<Rightarrow> cparam option"
  cs_set :: "cparam \<Rightarrow> nat list"
  cs_src_ok :: "int \<Rightarrow> cparam list \<Rightarrow> bool"
  cs_filter_ok :: "int \<Rightarrow> cparam list \<Rightarrow> bool"
  cs_func_ok :: "int \<Rightarrow> cparam list \<Rightarrow> bool"
  cs_set_ok :: "cparam \<Rightarrow> bool"

definition args :: "cparam list \<Rightarrow> int list \<Rightarrow> cparam list" where
  "args r ks = map (\<lambda>k. r ! nat k) ks"

definition tuple_value :: "nat list \<Rightarrow> nat \<Rightarrow> nat" where
  "tuple_value t k = (if k < length t then t ! k else 0)"

fun put_outs :: "int list \<Rightarrow> (nat \<Rightarrow> nat) \<Rightarrow> nat \<Rightarrow> cparam list \<Rightarrow> cparam list" where
  "put_outs [] v k r = r"
| "put_outs (x # xs) v k r = put_outs xs v (k + 1) (if x < 0 then r else r[nat x := P_addr (v k)])"

fun sols :: "csem \<Rightarrow> prg_item list \<Rightarrow> cparam list \<Rightarrow> cparam list list" where
  "sols S [] r = [r]"
| "sols S (c # cs) r =
     (case pi_type c of
        SCD_FILTER \<Rightarrow> if cs_filter S (pi_id c) (args r (pi_in c)) then sols S cs r else []
      | SCD_CONSTR \<Rightarrow>
          concat (map (\<lambda>t. sols S cs (put_outs (pi_out c) (tuple_value t) 0 r)) (cs_src S (pi_id c) (args r (pi_in c))))
      | SCD_SET_EACH \<Rightarrow>
          concat (map (\<lambda>a. sols S cs (r[nat (hd (pi_out c)) := P_addr a])) (cs_set S (r ! nat (hd (pi_in c)))))
      | _ \<Rightarrow>
          (case cs_func S (pi_id c) (args r (pi_in c)) of
             None \<Rightarrow> []
           | Some v \<Rightarrow> sols S cs (r[nat (hd (pi_out c)) := v])))"

text \<open>Nothing is asked that is not defined.\<close>

fun safe :: "csem \<Rightarrow> prg_item list \<Rightarrow> cparam list \<Rightarrow> bool" where
  "safe S [] r = True"
| "safe S (c # cs) r =
     (case pi_type c of
        SCD_FILTER \<Rightarrow> cs_filter_ok S (pi_id c) (args r (pi_in c)) \<and>
          (cs_filter S (pi_id c) (args r (pi_in c)) \<longrightarrow> safe S cs r)
      | SCD_CONSTR \<Rightarrow> cs_src_ok S (pi_id c) (args r (pi_in c)) \<and>
          (\<forall>t \<in> set (cs_src S (pi_id c) (args r (pi_in c))). safe S cs (put_outs (pi_out c) (tuple_value t) 0 r))
      | SCD_SET_EACH \<Rightarrow> cs_set_ok S (r ! nat (hd (pi_in c))) \<and>
          (\<forall>a \<in> set (cs_set S (r ! nat (hd (pi_in c)))). safe S cs (r[nat (hd (pi_out c)) := P_addr a]))
      | _ \<Rightarrow> cs_func_ok S (pi_id c) (args r (pi_in c)) \<and>
          (case cs_func S (pi_id c) (args r (pi_in c)) of
             None \<Rightarrow> True
           | Some v \<Rightarrow> safe S cs (r[nat (hd (pi_out c)) := v])))"

definition addr_of :: "cparam \<Rightarrow> nat" where
  "addr_of v = (case p_addr v of Some a \<Rightarrow> a | None \<Rightarrow> 0)"

definition answer :: "deconstruct \<Rightarrow> cparam list \<Rightarrow> nat list" where
  "answer d r = map addr_of (args r (pi_in (last (dc_commands d))))"

text \<open>\<open>junk\<close> is what the registers hold before they are written.\<close>

definition results :: "csem \<Rightarrow> deconstruct \<Rightarrow> cparam list \<Rightarrow> cparam list \<Rightarrow> nat list list" where
  "results S d prm junk = map (answer d) (sols S (butlast (dc_commands d)) (prm @ junk))"

section \<open>Well-formed programs\<close>

definition item_ok :: "prg_item \<Rightarrow> bool" where
  "item_ok c =
     (case pi_type c of
        SCD_FILTER \<Rightarrow> pi_out c = []
      | SCD_CONSTR \<Rightarrow> True
      | SCD_SET_EACH \<Rightarrow> length (pi_in c) = 1 \<and> length (pi_out c) = 1 \<and> 0 \<le> hd (pi_out c)
      | SCD_FUNC \<Rightarrow> length (pi_out c) = 1 \<and> 0 \<le> hd (pi_out c)
      | SCD_RETURN \<Rightarrow> False)"

abbreviation outs_of :: "prg_item \<Rightarrow> int list" where
  "outs_of c \<equiv> filter (\<lambda>k. 0 \<le> k) (pi_out c)"

text \<open>\<open>D\<close> lists the registers that are written so far, all below \<open>N\<close>.\<close>

fun scoped :: "nat \<Rightarrow> int list \<Rightarrow> prg_item list \<Rightarrow> bool" where
  "scoped N D [] = True"
| "scoped N D (c # cs) =
     (item_ok c \<and> set (pi_in c) \<subseteq> set D \<and> distinct (outs_of c) \<and>
      (\<forall>k \<in> set (outs_of c). k \<notin> set D \<and> k < int N) \<and> scoped N (outs_of c @ D) cs)"

fun defined :: "int list \<Rightarrow> prg_item list \<Rightarrow> int list" where
  "defined D [] = D"
| "defined D (c # cs) = defined (outs_of c @ D) cs"

definition inputs :: "nat \<Rightarrow> int list" where
  "inputs n = map int [0..<n]"

definition wf_dec :: "deconstruct \<Rightarrow> bool" where
  "wf_dec d \<longleftrightarrow> (let cs = dc_commands d; D = inputs (dc_input_cnt d) in
     2 \<le> length cs \<and> pi_type (last cs) = SCD_RETURN \<and>
     scoped (dc_input_cnt d + dc_reg_cnt d) D (butlast cs) \<and>
     set (pi_in (last cs)) \<subseteq> set (defined D (butlast cs)))"

section \<open>Only the written registers matter\<close>

definition agree :: "nat \<Rightarrow> int list \<Rightarrow> cparam list \<Rightarrow> cparam list \<Rightarrow> bool" where
  "agree N D r s \<longleftrightarrow> length r = N \<and> length s = N \<and> (\<forall>k \<in> set D. 0 \<le> k \<and> k < int N \<and> r ! nat k = s ! nat k)"

lemma agree_refl: "length r = N \<Longrightarrow> \<forall>k \<in> set D. 0 \<le> k \<and> k < int N \<Longrightarrow> agree N D r r"
  by (simp add: agree_def)

lemma agreeD: "agree N D r s \<Longrightarrow> k \<in> set D \<Longrightarrow> r ! nat k = s ! nat k"
  "agree N D r s \<Longrightarrow> length r = N" "agree N D r s \<Longrightarrow> length s = N"
  "agree N D r s \<Longrightarrow> k \<in> set D \<Longrightarrow> 0 \<le> k" "agree N D r s \<Longrightarrow> k \<in> set D \<Longrightarrow> k < int N"
  by (auto simp: agree_def)

lemma agree_args: "agree N D r s \<Longrightarrow> set ks \<subseteq> set D \<Longrightarrow> args r ks = args s ks"
  by (auto simp: agree_def args_def)

lemma agree_upd: "agree N D r s \<Longrightarrow> 0 \<le> k \<Longrightarrow> k < int N \<Longrightarrow> agree N (k # D) (r[nat k := v]) (s[nat k := v])"
  by (auto simp: agree_def nth_list_update)

lemma agree_off: "agree N D r s \<Longrightarrow> 0 \<le> k \<Longrightarrow> k \<notin> set D \<Longrightarrow> agree N D (r[nat k := v]) s"
  unfolding agree_def by (metis eq_nat_nat_iff length_list_update nth_list_update_neq)

lemma agree_mono: "agree N D r s \<Longrightarrow> set E \<subseteq> set D \<Longrightarrow> agree N E r s"
  by (auto simp: agree_def)

lemma agree_sym: "agree N D r s \<Longrightarrow> agree N D s r"
  by (auto simp: agree_def)

lemma agree_trans: "agree N D r s \<Longrightarrow> agree N D s t \<Longrightarrow> agree N D r t"
  by (auto simp: agree_def)

lemma agree_put:
  assumes "agree N D r s" "\<forall>k \<in> set (filter (\<lambda>k. 0 \<le> k) ks). k < int N"
  shows "agree N (filter (\<lambda>k. 0 \<le> k) ks @ D) (put_outs ks v j r) (put_outs ks v j s)"
  using assms
proof (induction ks arbitrary: D r s j)
  case (Cons x ks)
  show ?case
  proof (cases "x < 0")
    case False
    then have "agree N (x # D) (r[nat x := P_addr (v j)]) (s[nat x := P_addr (v j)])"
      using Cons.prems by (intro agree_upd) auto
    from Cons.IH [OF this, of "j + 1"] show ?thesis using False Cons.prems(2) by (auto elim: agree_mono)
  qed (use Cons in auto)
qed simp

lemma put_outs_cong: "(\<And>i. j \<le> i \<Longrightarrow> i < j + length ks \<Longrightarrow> u i = v i) \<Longrightarrow> put_outs ks u j r = put_outs ks v j r"
  by (induction ks arbitrary: j r) auto

lemma length_put_outs [simp]: "length (put_outs ks v j r) = length r"
  by (induction ks arbitrary: j r) auto

lemma list_all2_concat: "list_all2 (list_all2 P) xss yss \<Longrightarrow> list_all2 P (concat xss) (concat yss)"
  by (induction xss yss rule: list_all2_induct) (auto intro: list_all2_appendI)

lemma sols_agree:
  assumes "agree N D r s" "scoped N D cs"
  shows "list_all2 (agree N (defined D cs)) (sols S cs r) (sols S cs s)"
  using assms
proof (induction cs arbitrary: D r s)
  case (Cons c cs)
  have a: "args r (pi_in c) = args s (pi_in c)" using Cons.prems agree_args by auto
  have sc: "scoped N (outs_of c @ D) cs" using Cons.prems(2) by simp
  show ?case
  proof (cases "pi_type c")
    case SCD_FILTER
    then have "outs_of c = []" using Cons.prems(2) by (simp add: item_ok_def)
    then show ?thesis using Cons SCD_FILTER a sc by simp
  next
    case SCD_CONSTR
    show ?thesis
      using Cons.prems SCD_CONSTR a sc by (auto intro!: list_all2_concat Cons.IH agree_put simp: list_all2_map1 list_all2_map2 list_all2_same)
  next
    case SCD_SET_EACH
    then obtain i k where io: "pi_in c = [i]" "pi_out c = [k]" "0 \<le> k"
      using Cons.prems(2) by (auto simp: item_ok_def length_Suc_conv)
    then have "r ! nat i = s ! nat i" using Cons.prems by (auto simp: agree_def)
    then show ?thesis
      using Cons.prems SCD_SET_EACH io sc
      by (auto intro!: list_all2_concat Cons.IH agree_upd simp: list_all2_map1 list_all2_map2 list_all2_same)
  next
    case SCD_FUNC
    then obtain k where "pi_out c = [k]" "0 \<le> k"
      using Cons.prems(2) by (auto simp: item_ok_def length_Suc_conv)
    then show ?thesis using Cons SCD_FUNC a sc by (auto intro: agree_upd split: option.split)
  qed (use Cons.prems in \<open>simp add: item_ok_def\<close>)
qed simp

lemma safe_agree:
  assumes "agree N D r s" "scoped N D cs" "safe S cs r"
  shows "safe S cs s"
  using assms
proof (induction cs arbitrary: D r s)
  case (Cons c cs)
  have a: "args r (pi_in c) = args s (pi_in c)" using Cons.prems agree_args by auto
  have sc: "scoped N (outs_of c @ D) cs" using Cons.prems(2) by simp
  show ?case
  proof (cases "pi_type c")
    case SCD_FILTER
    then have "outs_of c = []" using Cons.prems(2) by (simp add: item_ok_def)
    then show ?thesis using Cons SCD_FILTER a sc by auto
  next
    case SCD_CONSTR
    have "safe S cs (put_outs (pi_out c) (tuple_value t) 0 s)" if "safe S cs (put_outs (pi_out c) (tuple_value t) 0 r)" for t
      using Cons.prems sc that by (intro Cons.IH [OF agree_put sc that]) auto
    then show ?thesis using Cons.prems SCD_CONSTR a by auto
  next
    case SCD_SET_EACH
    then obtain i k where io: "pi_in c = [i]" "pi_out c = [k]" "0 \<le> k"
      using Cons.prems(2) by (auto simp: item_ok_def length_Suc_conv)
    then have "r ! nat i = s ! nat i" using Cons.prems by (auto simp: agree_def)
    moreover have "safe S cs (s[nat k := v])" if "safe S cs (r[nat k := v])" for v
      using Cons.prems io sc that by (intro Cons.IH [OF agree_upd _ that]) auto
    ultimately show ?thesis using Cons.prems SCD_SET_EACH io by auto
  next
    case SCD_FUNC
    then obtain k where io: "pi_out c = [k]" "0 \<le> k"
      using Cons.prems(2) by (auto simp: item_ok_def length_Suc_conv)
    moreover have "safe S cs (s[nat k := v])" if "safe S cs (r[nat k := v])" for v
      using Cons.prems io sc that by (intro Cons.IH [OF agree_upd _ that]) auto
    ultimately show ?thesis using Cons.prems SCD_FUNC a by (auto split: option.split)
  qed (use Cons.prems in \<open>simp add: item_ok_def\<close>)
qed simp

lemma results_junk:
  assumes "wf_dec d" "length prm = dc_input_cnt d" "length j1 = dc_reg_cnt d" "length j2 = dc_reg_cnt d"
  shows "results S d prm j1 = results S d prm j2"
proof -
  let ?N = "dc_input_cnt d + dc_reg_cnt d" and ?D = "inputs (dc_input_cnt d)"
  have "agree ?N ?D (prm @ j1) (prm @ j2)"
    using assms(2-4) by (auto simp: agree_def inputs_def nth_append)
  then have "list_all2 (agree ?N (defined ?D (butlast (dc_commands d))))
      (sols S (butlast (dc_commands d)) (prm @ j1)) (sols S (butlast (dc_commands d)) (prm @ j2))"
    using assms(1) by (intro sols_agree) (auto simp: wf_dec_def Let_def)
  moreover have "agree ?N (defined ?D (butlast (dc_commands d))) r s \<Longrightarrow> answer d r = answer d s" for r s
    using assms(1) agree_args [of ?N _ r s] by (auto simp: wf_dec_def Let_def answer_def)
  ultimately have "list_all2 (=) (map (answer d) (sols S (butlast (dc_commands d)) (prm @ j1)))
      (map (answer d) (sols S (butlast (dc_commands d)) (prm @ j2)))"
    by (auto simp: list_all2_map1 list_all2_map2 elim: list_all2_mono)
  then show ?thesis by (simp add: results_def list.rel_eq)
qed

end
