(* ===== verification/Fallback_Iter.thy ===== *)
theory Fallback_Iter
  imports Constr_Sem
begin

text \<open>
  The interpreter of constraint programs (\<open>libsc/libsc/fallback.cpp\<close>): an iterator that runs a program
  by backtracking. Every command that asks a constraint keeps the iterator it got, every set command
  its place in the set; \<open>next\<close> goes back to the last of these that has another answer and forward
  again. What the interpreter calls (the session's iterators, the functions and filters of the
  registry, the references of addresses) are the fields of \<open>cenv\<close>, over a state \<open>'w\<close>.
\<close>

section \<open>The interpreter\<close>

record ('i, 'w) cenv =
  ce_registry :: registry
  ce_new :: "int \<Rightarrow> cparam list \<Rightarrow> 'w \<Rightarrow> ('i \<times> 'w) option"
  ce_next :: "'i \<Rightarrow> 'w \<Rightarrow> ('i \<times> 'w) option"
  ce_over :: "'i \<Rightarrow> bool"
  ce_value :: "'i \<Rightarrow> nat \<Rightarrow> nat"
  ce_delete :: "'i \<Rightarrow> 'w \<Rightarrow> 'w option"
  ce_filter :: "int \<Rightarrow> cparam list \<Rightarrow> 'w \<Rightarrow> (bool \<times> 'w) option"
  ce_func :: "int \<Rightarrow> cparam list \<Rightarrow> 'w \<Rightarrow> (sc_retval \<times> cparam \<times> 'w) option"
  ce_ref :: "nat \<Rightarrow> 'w \<Rightarrow> 'w option"
  ce_unref :: "nat \<Rightarrow> 'w \<Rightarrow> 'w option"
  ce_opened :: "nat \<Rightarrow> 'w \<Rightarrow> bool option"
  ce_set :: "nat \<Rightarrow> 'w \<Rightarrow> nat list option"
  ce_session_ref :: "'w \<Rightarrow> 'w option"
  ce_session_unref :: "'w \<Rightarrow> 'w option"

text \<open>\<open>union iter_part\<close>: null, the iterator, or what is left of the set. Filters and functions are
  looked up by the number in the command.\<close>

datatype 'i part = Part_null | Part_iter 'i | Part_set "nat list"

record 'i fb =
  fb_over :: bool
  fb_dec :: deconstruct
  fb_regs :: "cparam list"
  fb_cur :: "'i part list"

definition SC_ARCH_PAGESIZE :: nat where
  "SC_ARCH_PAGESIZE = 4096"

text \<open>The test whether a register looks like a pointer: \<open>\<ge>\<close> the page size in one place, \<open>>\<close> in two
  others. Addresses lie above the first page.\<close>

fun over_page :: "bool \<Rightarrow> cparam \<Rightarrow> bool" where
  "over_page strict (P_addr a) = (a \<noteq> 0)"
| "over_page strict (P_type t) = (if strict then SC_ARCH_PAGESIZE < unat t else SC_ARCH_PAGESIZE \<le> unat t)"
| "over_page strict (P_int i) = (i < 0 \<or> (if strict then SC_ARCH_PAGESIZE < nat i else SC_ARCH_PAGESIZE \<le> nat i))"
| "over_page strict (P_seg s) = (s \<noteq> 0)"
| "over_page strict (P_flag b) = False"

definition reg_at :: "cparam list \<Rightarrow> int \<Rightarrow> cparam option" where
  "reg_at r k = (if 0 \<le> k \<and> nat k < length r then Some (r ! nat k) else None)"

definition set_reg :: "int \<Rightarrow> cparam \<Rightarrow> cparam list \<Rightarrow> cparam list option" where
  "set_reg k v r = (if 0 \<le> k \<and> nat k < length r then Some (r[nat k := v]) else None)"

fun put_values :: "int list \<Rightarrow> (nat \<Rightarrow> nat) \<Rightarrow> nat \<Rightarrow> cparam list \<Rightarrow> cparam list option" where
  "put_values [] v k r = Some r"
| "put_values (x # xs) v k r =
     (if x < 0 then put_values xs v (k + 1) r
      else do { r \<leftarrow> set_reg x (P_addr (v k)) r; put_values xs v (k + 1) r })"

fun first_out :: "int list \<Rightarrow> int option" where
  "first_out [] = None"
| "first_out (k # ks) = Some k"

text \<open>A command at position \<open>i\<close>: whether to go on, the registers, the part of the command, the state.\<close>

definition cmd_set_each ::
  "('i, 'w) cenv \<Rightarrow> prg_item \<Rightarrow> 'i part \<Rightarrow> cparam list \<Rightarrow> 'w \<Rightarrow> (bool \<times> cparam list \<times> 'i part \<times> 'w) option" where
  "cmd_set_each E c part r w =
     do {
       ensure (length (pi_in c) = 1 \<and> length (pi_out c) = 1);
       v \<leftarrow> reg_at r (hd (pi_in c));
       a \<leftarrow> p_addr v;
       ensure (a \<noteq> 0);
       s \<leftarrow> ce_set E a w;
       (rest, w) \<leftarrow> (case part of
           Part_null \<Rightarrow> Some (s, w)
         | Part_set xs \<Rightarrow>
             do { v \<leftarrow> reg_at r (hd (pi_out c)); b \<leftarrow> p_addr v; w \<leftarrow> ce_unref E b w; Some (xs, w) }
         | Part_iter it \<Rightarrow> None);
       (case rest of
          [] \<Rightarrow> Some (False, r, Part_null, w)
        | x # xs \<Rightarrow>
            do {
              w \<leftarrow> ce_ref E x w;
              r \<leftarrow> set_reg (hd (pi_out c)) (P_addr x) r;
              Some (True, r, Part_set xs, w)
            })
     }"

definition cmd_constr ::
  "('i, 'w) cenv \<Rightarrow> prg_item \<Rightarrow> 'i part \<Rightarrow> cparam list \<Rightarrow> 'w \<Rightarrow> (bool \<times> cparam list \<times> 'i part \<times> 'w) option" where
  "cmd_constr E c part r w =
     do {
       (it, w) \<leftarrow> (case part of
           Part_null \<Rightarrow> do { prm \<leftarrow> constraint_newv (pi_id c) r (pi_in c) (ce_registry E); ce_new E (pi_id c) prm w }
         | Part_iter it \<Rightarrow> ce_next E it w
         | Part_set xs \<Rightarrow> None);
       (if ce_over E it then do { w \<leftarrow> ce_delete E it w; Some (False, r, Part_null, w) }
        else do {
          r \<leftarrow> put_values (pi_out c) (ce_value E it) 0 r;
          Some (True, r, Part_iter it, w)
        })
     }"

definition cmd_func ::
  "('i, 'w) cenv \<Rightarrow> prg_item \<Rightarrow> cparam list \<Rightarrow> 'w \<Rightarrow> (bool \<times> cparam list \<times> 'w) option" where
  "cmd_func E c r w =
     do {
       out \<leftarrow> first_out (pi_out c);
       r \<leftarrow> set_reg out (P_addr 0) r;
       prm \<leftarrow> read_regs r (pi_in c);
       (rv, v, w) \<leftarrow> ce_func E (pi_id c) prm w;
       r \<leftarrow> set_reg out v r;
       (if rv \<noteq> RV_OK then Some (False, r, w)
        else if over_page False v then
          do {
            a \<leftarrow> p_addr v;
            b \<leftarrow> ce_opened E a w;
            (if \<not> b then Some (False, r, w) else do { w \<leftarrow> ce_ref E a w; Some (True, r, w) })
          }
        else Some (True, r, w))
     }"

definition fb_cmd ::
  "('i, 'w) cenv \<Rightarrow> prg_item \<Rightarrow> 'i part \<Rightarrow> cparam list \<Rightarrow> 'w \<Rightarrow> (bool \<times> cparam list \<times> 'i part \<times> 'w) option" where
  "fb_cmd E c part r w =
     (case pi_type c of
        SCD_SET_EACH \<Rightarrow> cmd_set_each E c part r w
      | SCD_CONSTR \<Rightarrow> cmd_constr E c part r w
      | SCD_FILTER \<Rightarrow>
          do { prm \<leftarrow> read_regs r (pi_in c); (b, w) \<leftarrow> ce_filter E (pi_id c) prm w; Some (b, r, part, w) }
      | SCD_FUNC \<Rightarrow> do { (b, r, w) \<leftarrow> cmd_func E c r w; Some (b, r, part, w) }
      | SCD_RETURN \<Rightarrow> None)"

text \<open>The loop at \<open>backward2\<close>, from position \<open>i\<close> for \<open>Suc i\<close>; a function's value is released.\<close>

definition retries :: "prg_item \<Rightarrow> bool" where
  "retries c \<longleftrightarrow> pi_type c = SCD_CONSTR \<or> pi_type c = SCD_SET_EACH"

definition undo :: "('i, 'w) cenv \<Rightarrow> prg_item \<Rightarrow> cparam list \<Rightarrow> 'w \<Rightarrow> 'w option" where
  "undo E c r w =
     (if pi_type c = SCD_FUNC then
        do {
          out \<leftarrow> first_out (pi_out c);
          v \<leftarrow> reg_at r out;
          (if over_page True v then do { a \<leftarrow> p_addr v; ce_unref E a w } else Some w)
        }
      else Some w)"

fun fb_back :: "('i, 'w) cenv \<Rightarrow> prg_item list \<Rightarrow> cparam list \<Rightarrow> nat \<Rightarrow> 'w \<Rightarrow> (nat \<times> 'w) option" where
  "fb_back E cs r 0 w = Some (0, w)"
| "fb_back E cs r (Suc i) w =
     (if retries (cs ! i) then Some (Suc i, w)
      else do { w \<leftarrow> undo E (cs ! i) r w; fb_back E cs r i w })"

text \<open>The loop of \<open>__next\<close>; \<open>k\<close> is \<open>i + 1\<close>, and \<open>n\<close> the fuel.\<close>

fun fb_loop :: "nat \<Rightarrow> ('i, 'w) cenv \<Rightarrow> nat \<Rightarrow> 'i fb \<Rightarrow> 'w \<Rightarrow> ('i fb \<times> 'w) option" where
  "fb_loop 0 E k st w = None"
| "fb_loop (Suc n) E k st w =
     (if k = 0 then Some (st\<lparr>fb_over := True\<rparr>, w)
      else if length (dc_commands (fb_dec st)) \<le> k then Some (st, w)
      else do {
        let i = k - 1;
        (ok, r, part, w) \<leftarrow> fb_cmd E (dc_commands (fb_dec st) ! i) (fb_cur st ! i) (fb_regs st) w;
        let st = st\<lparr>fb_regs := r, fb_cur := (fb_cur st)[i := part]\<rparr>;
        (if ok then fb_loop n E (k + 1) st w
         else do {
           (k, w) \<leftarrow> fb_back E (dc_commands (fb_dec st)) r i w;
           fb_loop n E k st w
         })
      })"

definition fb_go :: "nat \<Rightarrow> ('i, 'w) cenv \<Rightarrow> nat \<Rightarrow> 'i fb \<Rightarrow> 'w \<Rightarrow> ('i fb \<times> 'w) option" where
  "fb_go n E i st w =
     (if 0 < i \<and> pi_type (dc_commands (fb_dec st) ! i) \<noteq> SCD_CONSTR
      then do {
        (k, w) \<leftarrow> fb_back E (dc_commands (fb_dec st)) (fb_regs st) (i + 1) w;
        fb_loop n E k st w
      }
      else fb_loop n E (i + 1) st w)"

definition fb_new ::
  "nat \<Rightarrow> ('i, 'w) cenv \<Rightarrow> deconstruct \<Rightarrow> cparam list \<Rightarrow> cparam list \<Rightarrow> 'w \<Rightarrow> ('i fb \<times> 'w) option" where
  "fb_new n E d prm junk w =
     do {
       w \<leftarrow> ce_session_ref E w;
       ensure (dc_input_cnt d \<le> length prm);
       fb_go n E 0
         \<lparr>fb_over = False, fb_dec = d, fb_regs = take (dc_input_cnt d) prm @ junk,
          fb_cur = replicate (length (dc_commands d)) Part_null\<rparr> w
     }"

definition fb_next :: "nat \<Rightarrow> ('i, 'w) cenv \<Rightarrow> 'i fb \<Rightarrow> 'w \<Rightarrow> (sc_retval \<times> 'i fb \<times> 'w) option" where
  "fb_next n E st w =
     (if fb_over st then Some (RV_ELSE_GEN, st, w)
      else do {
        (st, w) \<leftarrow> fb_go n E (length (dc_commands (fb_dec st)) - 1) st w;
        Some (if fb_over st then RV_ELSE_GEN else RV_OK, st, w)
      })"

definition fb_value :: "'i fb \<Rightarrow> nat \<Rightarrow> nat option" where
  "fb_value st num =
     (let ret = last (dc_commands (fb_dec st)) in
      if fb_over st \<or> length (pi_in ret) \<le> num then Some 0
      else do { v \<leftarrow> reg_at (fb_regs st) (pi_in ret ! num); p_addr v })"

text \<open>The destructor goes through the commands in their order.\<close>

fun fb_release :: "('i, 'w) cenv \<Rightarrow> 'i fb \<Rightarrow> (prg_item \<times> 'i part) list \<Rightarrow> 'w \<Rightarrow> 'w option" where
  "fb_release E st [] w = Some w"
| "fb_release E st ((c, part) # rest) w =
     do {
       w \<leftarrow> (case pi_type c of
           SCD_CONSTR \<Rightarrow> (case part of Part_iter it \<Rightarrow> ce_delete E it w | _ \<Rightarrow> Some w)
         | SCD_SET_EACH \<Rightarrow>
             (case part of
                Part_set _ \<Rightarrow>
                  do { out \<leftarrow> first_out (pi_out c); v \<leftarrow> reg_at (fb_regs st) out; a \<leftarrow> p_addr v; ce_unref E a w }
              | _ \<Rightarrow> Some w)
         | SCD_FUNC \<Rightarrow> if fb_over st then Some w else undo E c (fb_regs st) w
         | _ \<Rightarrow> Some w);
       fb_release E st rest w
     }"

definition fb_delete :: "('i, 'w) cenv \<Rightarrow> 'i fb \<Rightarrow> 'w \<Rightarrow> 'w option" where
  "fb_delete E st w =
     do {
       w \<leftarrow> fb_release E st (zip (dc_commands (fb_dec st)) (fb_cur st)) w;
       ce_session_unref E w
     }"

text \<open>The same loop without fuel, whose value is \<open>None\<close> when it does not return.\<close>

partial_function (option) fb_run :: "('i, 'w) cenv \<Rightarrow> nat \<Rightarrow> 'i fb \<Rightarrow> 'w \<Rightarrow> ('i fb \<times> 'w) option" where
  "fb_run E k st w =
     (if k = 0 then Some (st\<lparr>fb_over := True\<rparr>, w)
      else if length (dc_commands (fb_dec st)) \<le> k then Some (st, w)
      else do {
        (ok, r, part, w) \<leftarrow> fb_cmd E (dc_commands (fb_dec st) ! (k - 1)) (fb_cur st ! (k - 1)) (fb_regs st) w;
        (if ok then fb_run E (k + 1) (st\<lparr>fb_regs := r, fb_cur := (fb_cur st)[k - 1 := part]\<rparr>) w
         else do {
           (j, w) \<leftarrow> fb_back E (dc_commands (fb_dec st)) r (k - 1) w;
           fb_run E j (st\<lparr>fb_regs := r, fb_cur := (fb_cur st)[k - 1 := part]\<rparr>) w
         })
      })"

lemma fb_run_fuel: "fb_loop n E k st w = Some x \<Longrightarrow> fb_run E k st w = Some x"
proof (induction n arbitrary: k st w)
  case (Suc n)
  then show ?case
    by (subst fb_run.simps) (auto simp: Let_def bind_eq_Some_conv split: if_splits)
qed simp

definition fb_start ::
  "('i, 'w) cenv \<Rightarrow> deconstruct \<Rightarrow> cparam list \<Rightarrow> cparam list \<Rightarrow> 'w \<Rightarrow> ('i fb \<times> 'w) option" where
  "fb_start E d prm junk w =
     do {
       w \<leftarrow> ce_session_ref E w;
       ensure (dc_input_cnt d \<le> length prm);
       fb_run E 1
         \<lparr>fb_over = False, fb_dec = d, fb_regs = take (dc_input_cnt d) prm @ junk,
          fb_cur = replicate (length (dc_commands d)) Part_null\<rparr> w
     }"

lemma fb_start_fuel: "fb_new n E d prm junk w = Some x \<Longrightarrow> fb_start E d prm junk w = Some x"
  by (auto simp: fb_new_def fb_start_def fb_go_def bind_eq_Some_conv dest: fb_run_fuel)

text \<open>A client's loop over all answers.\<close>

fun fb_values :: "'i fb \<Rightarrow> nat list \<Rightarrow> nat list option" where
  "fb_values st [] = Some []"
| "fb_values st (k # ks) = do { x \<leftarrow> fb_value st k; xs \<leftarrow> fb_values st ks; Some (x # xs) }"

definition fb_tuple :: "'i fb \<Rightarrow> nat list option" where
  "fb_tuple st = fb_values st [0..<length (pi_in (last (dc_commands (fb_dec st))))]"

fun fb_collect :: "nat \<Rightarrow> ('i, 'w) cenv \<Rightarrow> 'i fb \<Rightarrow> 'w \<Rightarrow> (nat list list \<times> 'w) option" where
  "fb_collect 0 E st w = None"
| "fb_collect (Suc n) E st w =
     (if fb_over st then do { w \<leftarrow> fb_delete E st w; Some ([], w) }
      else do {
        t \<leftarrow> fb_tuple st;
        (_, st, w) \<leftarrow> fb_next n E st w;
        (ts, w) \<leftarrow> fb_collect n E st w;
        Some (t # ts, w)
      })"

end
