(* ===== verification/Fallback_Props.thy ===== *)
theory Fallback_Props
  imports Fallback_Iter
begin

text \<open>
  The interpreter refines the meaning of programs: over any provider of iterators, functions and
  references that keeps its contract, the iterator gives exactly the answers of the program's nest
  of loops, in their order, and gives back what it took. The contract is the locale
  \<open>constraint_provider\<close>; the machine of the interpreter is the step relation \<open>fb_step\<close>.
\<close>

section \<open>More fuel\<close>

definition opt_le :: "'a option \<Rightarrow> 'a option \<Rightarrow> bool" where
  "opt_le x y \<longleftrightarrow> (\<forall>z. x = Some z \<longrightarrow> y = Some z)"

lemma opt_leD: "opt_le x y \<Longrightarrow> x = Some z \<Longrightarrow> y = Some z"
  by (simp add: opt_le_def)

lemma opt_le_refl: "opt_le x x"
  by (simp add: opt_le_def)

lemma opt_le_bind: "opt_le x y \<Longrightarrow> (\<And>z. opt_le (f z) (g z)) \<Longrightarrow> opt_le (Option.bind x f) (Option.bind y g)"
  by (auto simp: opt_le_def bind_Some_iff)

lemma opt_le_if: "opt_le x y \<Longrightarrow> opt_le x' y' \<Longrightarrow> opt_le (if b then x else x') (if b then y else y')"
  by simp

lemma opt_le_prod: "(\<And>a b. opt_le (f a b) (g a b)) \<Longrightarrow> opt_le (case z of (a, b) \<Rightarrow> f a b) (case z of (a, b) \<Rightarrow> g a b)"
  by (cases z) simp

lemma opt_le_let: "(\<And>z. opt_le (f z) (g z)) \<Longrightarrow> opt_le (Let x f) (Let x g)"
  by simp

lemmas opt_le_intros = opt_le_bind opt_le_if opt_le_prod opt_le_let opt_le_refl

section \<open>Steps\<close>

datatype fb_pos = Fwd nat | Back nat

type_synonym ('i, 'w) fb_conf = "fb_pos \<times> cparam list \<times> 'i part list \<times> 'w"

fun reg_addrs :: "cparam list \<Rightarrow> int list \<Rightarrow> nat list option" where
  "reg_addrs r [] = Some []"
| "reg_addrs r (k # ks) = do { v \<leftarrow> reg_at r k; a \<leftarrow> p_addr v; as \<leftarrow> reg_addrs r ks; Some (a # as) }"

definition reg_tuple :: "deconstruct \<Rightarrow> cparam list \<Rightarrow> nat list option" where
  "reg_tuple d r = reg_addrs r (pi_in (last (dc_commands d)))"

inductive fb_step ::
  "('i, 'w) cenv \<Rightarrow> deconstruct \<Rightarrow> ('i, 'w) fb_conf \<Rightarrow> nat list list \<Rightarrow> ('i, 'w) fb_conf \<Rightarrow> bool"
  for E d where
  step_go: "i + 1 < length (dc_commands d) \<Longrightarrow>
    fb_cmd E (dc_commands d ! i) (cur ! i) r w = Some (True, r', part, w') \<Longrightarrow>
    fb_step E d (Fwd i, r, cur, w) [] (Fwd (i + 1), r', cur[i := part], w')"
| step_fail: "i + 1 < length (dc_commands d) \<Longrightarrow>
    fb_cmd E (dc_commands d ! i) (cur ! i) r w = Some (False, r', part, w') \<Longrightarrow>
    fb_step E d (Fwd i, r, cur, w) [] (Back i, r', cur[i := part], w')"
| step_found: "i + 1 = length (dc_commands d) \<Longrightarrow> 0 < i \<Longrightarrow> pi_type (dc_commands d ! i) = SCD_RETURN \<Longrightarrow>
    reg_tuple d r = Some t \<Longrightarrow> fb_step E d (Fwd i, r, cur, w) [t] (Back i, r, cur, w)"
| step_redo: "retries (dc_commands d ! i) \<Longrightarrow> fb_step E d (Back (Suc i), r, cur, w) [] (Fwd i, r, cur, w)"
| step_undo: "\<not> retries (dc_commands d ! i) \<Longrightarrow> undo E (dc_commands d ! i) r w = Some w' \<Longrightarrow>
    fb_step E d (Back (Suc i), r, cur, w) [] (Back i, r, cur, w')"

inductive_cases fb_stepE: "fb_step E d (p, r, cur, w) out s"

inductive fb_steps ::
  "('i, 'w) cenv \<Rightarrow> deconstruct \<Rightarrow> ('i, 'w) fb_conf \<Rightarrow> nat list list \<Rightarrow> ('i, 'w) fb_conf \<Rightarrow> bool"
  for E d where
  steps_refl: "fb_steps E d s [] s"
| steps_step: "fb_step E d s xs s' \<Longrightarrow> fb_steps E d s' ys s'' \<Longrightarrow> fb_steps E d s (xs @ ys) s''"

lemma fb_steps_trans: "fb_steps E d s xs s' \<Longrightarrow> fb_steps E d s' ys s'' \<Longrightarrow> fb_steps E d s (xs @ ys) s''"
  by (induction rule: fb_steps.induct) (auto intro: fb_steps.intros simp: append_assoc)

lemma fb_steps_quiet: "fb_step E d s [] s' \<Longrightarrow> fb_steps E d s' ys s'' \<Longrightarrow> fb_steps E d s ys s''"
  using steps_step [of E d s "[]"] by simp

section \<open>The interpreter makes these steps\<close>

definition fb_at :: "deconstruct \<Rightarrow> cparam list \<Rightarrow> 'i part list \<Rightarrow> 'i fb" where
  "fb_at d r cur = \<lparr>fb_over = False, fb_dec = d, fb_regs = r, fb_cur = cur\<rparr>"

text \<open>What is left to collect from a configuration.\<close>

fun fb_rest :: "nat \<Rightarrow> ('i, 'w) cenv \<Rightarrow> deconstruct \<Rightarrow> ('i, 'w) fb_conf \<Rightarrow> (nat list list \<times> 'w) option" where
  "fb_rest n E d (Fwd i, r, cur, w) =
     do { (st, w) \<leftarrow> fb_loop n E (i + 1) (fb_at d r cur) w; fb_collect n E st w }"
| "fb_rest n E d (Back k, r, cur, w) =
     do {
       (k, w) \<leftarrow> fb_back E (dc_commands d) r k w;
       (st, w) \<leftarrow> fb_loop n E k (fb_at d r cur) w;
       fb_collect n E st w
     }"

lemma fb_loop_mono: "n \<le> m \<Longrightarrow> opt_le (fb_loop n E k st w) (fb_loop m E k st w)"
proof (induction n arbitrary: m k st w)
  case (Suc n)
  then obtain m' where m: "m = Suc m'" "n \<le> m'" by (cases m) auto
  show ?case using Suc.IH [OF m(2)] unfolding m(1) fb_loop.simps by (intro opt_le_intros) (auto simp: Let_def intro!: opt_le_intros)
qed (simp add: opt_le_def)

lemma fb_next_mono: "n \<le> m \<Longrightarrow> opt_le (fb_next n E st w) (fb_next m E st w)"
  unfolding fb_next_def fb_go_def by (intro opt_le_intros fb_loop_mono)

lemma fb_collect_mono: "n \<le> m \<Longrightarrow> opt_le (fb_collect n E st w) (fb_collect m E st w)"
proof (induction n arbitrary: m st w)
  case (Suc n)
  then obtain m' where m: "m = Suc m'" "n \<le> m'" by (cases m) auto
  show ?case using Suc.IH [OF m(2)] fb_next_mono [OF m(2)] unfolding m(1) fb_collect.simps by (intro opt_le_intros)
qed (simp add: opt_le_def)

lemma fb_rest_mono: "n \<le> m \<Longrightarrow> opt_le (fb_rest n E d s) (fb_rest m E d s)"
  by (cases "(n, E, d, s)" rule: fb_rest.cases) (auto intro!: opt_le_intros fb_loop_mono fb_collect_mono)

lemma fb_tuple_at: "fb_tuple (fb_at d r cur) = reg_tuple d r"
proof -
  let ?ks = "pi_in (last (dc_commands d))"
  have "fb_values (fb_at d r cur) [j..<length ?ks] = reg_addrs r (drop j ?ks)" if "j \<le> length ?ks" for j
    using that
  proof (induction "length ?ks - j" arbitrary: j)
    case (Suc m)
    then have j: "j < length ?ks" by simp
    then have "fb_values (fb_at d r cur) [Suc j..<length ?ks] = reg_addrs r (drop (Suc j) ?ks)"
      using Suc.hyps by simp
    then show ?case
      using j by (simp add: upt_conv_Cons fb_value_def Let_def fb_at_def flip: Cons_nth_drop_Suc)
  qed simp
  from this [of 0] show ?thesis by (simp add: reg_tuple_def fb_tuple_def fb_at_def)
qed

lemma fb_rest_step:
  assumes "fb_step E d s xs s'" "fb_rest n E d s' = Some (ys, w)"
  shows "fb_rest (Suc n) E d s = Some (xs @ ys, w)"
  using assms(1)
proof (cases rule: fb_step.cases)
  case (step_go i cur r v r' part v')
  obtain st u where "fb_loop n E (i + 2) (fb_at d r' (cur[i := part])) v' = Some (st, u)" "fb_collect n E st u = Some (ys, w)"
    using assms(2) step_go(3) by (auto simp: bind_Some_iff)
  moreover from this(2) have "fb_collect (Suc n) E st u = Some (ys, w)" by (rule opt_leD [OF fb_collect_mono, rotated]) simp
  ultimately show ?thesis using step_go by (simp add: fb_at_def del: fb_collect.simps)
next
  case (step_fail i cur r v r' part v')
  obtain k u st u' where "fb_back E (dc_commands d) r' i v' = Some (k, u)"
    "fb_loop n E k (fb_at d r' (cur[i := part])) u = Some (st, u')" "fb_collect n E st u' = Some (ys, w)"
    using assms(2) step_fail(3) by (auto simp: bind_Some_iff)
  moreover from this(3) have "fb_collect (Suc n) E st u' = Some (ys, w)" by (rule opt_leD [OF fb_collect_mono, rotated]) simp
  ultimately show ?thesis using step_fail by (simp add: fb_at_def del: fb_collect.simps)
next
  case (step_found i r t cur v)
  have nr: "\<not> retries (dc_commands d ! i)" "undo E (dc_commands d ! i) r u = Some u" for u
    using step_found(6) by (simp_all add: retries_def undo_def)
  obtain k u st u' where *: "fb_back E (dc_commands d) r i v = Some (k, u)"
    "fb_loop n E k (fb_at d r cur) u = Some (st, u')" "fb_collect n E st u' = Some (ys, w)"
    using assms(2) step_found(3) by (auto simp: bind_Some_iff)
  have "length (dc_commands d) - 1 = i" using step_found(4) by simp
  then have "fb_next n E (fb_at d r cur) v = Some (if fb_over st then RV_ELSE_GEN else RV_OK, st, u')"
    using step_found(5,6) nr * by (simp add: fb_next_def fb_go_def fb_at_def)
  then have "fb_collect (Suc n) E (fb_at d r cur) v = Some (t # ys, w)"
    using * step_found(7) by (simp add: fb_tuple_at) (simp add: fb_at_def)
  moreover have "fb_loop (Suc n) E (i + 1) (fb_at d r cur) v = Some (fb_at d r cur, v)"
    using step_found(4) by (auto simp: fb_at_def)
  ultimately show ?thesis using step_found by (simp del: fb_loop.simps fb_collect.simps)
next
  case (step_redo i r cur v)
  then show ?thesis using opt_leD [OF fb_rest_mono [of n "Suc n"] assms(2)] by simp
next
  case (step_undo i r w' w'' cur)
  then show ?thesis using opt_leD [OF fb_rest_mono [of n "Suc n"] assms(2)] by simp
qed

lemma fb_rest_steps:
  assumes "fb_steps E d s xs s'" "fb_rest n E d s' = Some (ys, w)"
  shows "\<exists>m. fb_rest m E d s = Some (xs @ ys, w)"
  using assms
proof (induction rule: fb_steps.induct)
  case (steps_step s xs s' zs s'')
  then obtain m where "fb_rest m E d s' = Some (zs @ ys, w)" by blast
  from fb_rest_step [OF steps_step(1) this] show ?case by auto
qed auto


section \<open>The contract of what the interpreter calls\<close>

text \<open>\<open>ok\<close> is a state in which everything may be asked; \<open>silent\<close> relates states that differ only in
  what calls leave behind and nothing reads; \<open>holds w0 xs it w\<close>: the iterator \<open>it\<close>, made in \<open>w0\<close>, has
  the answers \<open>xs\<close> left in \<open>w\<close>; \<open>live\<close> addresses may be referenced.\<close>

text \<open>The returned registers hold addresses.\<close>

definition readable :: "prg_item \<Rightarrow> cparam list list \<Rightarrow> bool" where
  "readable ret xs \<longleftrightarrow> (\<forall>x \<in> set xs. \<forall>k \<in> set (pi_in ret). p_addr (x ! nat k) \<noteq> None)"

locale constraint_provider =
  fixes E :: "('i, 'w) cenv" and S :: csem and ok :: "'w \<Rightarrow> bool" and silent :: "'w \<Rightarrow> 'w \<Rightarrow> bool"
    and holds :: "'w \<Rightarrow> nat list list \<Rightarrow> 'i \<Rightarrow> 'w \<Rightarrow> bool" and live :: "nat \<Rightarrow> bool"
  assumes silent_refl: "silent w w"
    and silent_sym: "silent w w' \<Longrightarrow> silent w' w"
    and silent_trans: "silent w w' \<Longrightarrow> silent w' w'' \<Longrightarrow> silent w w''"
    and ok_silent: "ok w \<Longrightarrow> silent w w' \<Longrightarrow> ok w'"
    and arity: "cs_src_ok S c as \<Longrightarrow> \<exists>info. get_info c (ce_registry E) = Some info \<and> length as \<le> length (cn_spec info)"
    and new: "ok w \<Longrightarrow> cs_src_ok S c as \<Longrightarrow> \<exists>it w'. ce_new E c as w = Some (it, w') \<and> holds w (cs_src S c as) it w'"
    and over: "holds w0 xs it w \<Longrightarrow> ce_over E it \<longleftrightarrow> xs = []"
    and val: "holds w0 (x # xs) it w \<Longrightarrow> ce_value E it k = tuple_value x k"
    and advance: "holds w0 (x # xs) it w \<Longrightarrow> \<exists>it' w'. ce_next E it w = Some (it', w') \<and> holds w0 xs it' w'"
    and delete: "holds w0 [] it w \<Longrightarrow> \<exists>w'. ce_delete E it w = Some w' \<and> silent w0 w'"
    and holds_ok: "holds w0 xs it w \<Longrightarrow> ok w"
    and holds_silent: "holds w0 xs it w \<Longrightarrow> silent w w' \<Longrightarrow> \<exists>w0'. silent w0 w0' \<and> holds w0' xs it w'"
    and filt: "ok w \<Longrightarrow> cs_filter_ok S c as \<Longrightarrow> \<exists>w'. ce_filter E c as w = Some (cs_filter S c as, w') \<and> silent w w'"
    and func_Some: "ok w \<Longrightarrow> cs_func_ok S c as \<Longrightarrow> cs_func S c as = Some v \<Longrightarrow>
      \<exists>w'. ce_func E c as w = Some (RV_OK, v, w') \<and> silent w w' \<and> over_page True v = over_page False v \<and>
        (over_page False v \<longrightarrow> (\<exists>a. v = P_addr a \<and> live a \<and> ce_opened E a w' = Some True))"
    and func_None: "ok w \<Longrightarrow> cs_func_ok S c as \<Longrightarrow> cs_func S c as = None \<Longrightarrow>
      \<exists>rv v w'. ce_func E c as w = Some (rv, v, w') \<and> silent w w' \<and>
        (rv \<noteq> RV_OK \<or> (\<exists>a. v = P_addr a \<and> a \<noteq> 0 \<and> ce_opened E a w' = Some False))"
    and refs: "ok w \<Longrightarrow> live a \<Longrightarrow> \<exists>w'. ce_ref E a w = Some w' \<and> ok w' \<and>
      (\<forall>w''. silent w' w'' \<longrightarrow> (\<exists>w1. ce_unref E a w'' = Some w1 \<and> silent w w1))"
    and sets: "ok w \<Longrightarrow> cs_set_ok S v \<Longrightarrow> \<exists>a. v = P_addr a \<and> a \<noteq> 0 \<and> ce_set E a w = Some (cs_set S v) \<and>
      (\<forall>x \<in> set (cs_set S v). live x)"
    and session: "ok w \<Longrightarrow> \<exists>w'. ce_session_ref E w = Some w' \<and> ok w' \<and>
      (\<forall>w''. silent w' w'' \<longrightarrow> (\<exists>w1. ce_session_unref E w'' = Some w1 \<and> silent w w1))"
begin

lemma read_args: "set ks \<subseteq> set D \<Longrightarrow> agree N D r s \<Longrightarrow> read_regs r ks = Some (args s ks)"
  by (induction ks) (auto simp: args_def agree_def)

lemma put_values_outs:
  "\<forall>k \<in> set ks. k < int (length r) \<Longrightarrow> put_values ks v j r = Some (put_outs ks v j r)"
  by (induction ks arbitrary: j r) (auto simp: set_reg_def)

lemma put_fresh:
  assumes "agree N D r s" "\<forall>k \<in> set ks. 0 \<le> k \<longrightarrow> k \<notin> set D"
  shows "agree N D (put_outs ks v j r) s"
  using assms
proof (induction ks arbitrary: r j)
  case (Cons x ks)
  show ?case using Cons.prems Cons.IH [of _ "Suc j"] by (cases "x < 0") (simp_all add: agree_off)
qed simp

lemma newv_args:
  assumes "cs_src_ok S c (args s ks)" "set ks \<subseteq> set D" "agree N D r s"
  shows "constraint_newv c r ks (ce_registry E) = Some (args s ks)"
  using arity [OF assms(1)] read_args [OF assms(2,3)] by (auto simp: constraint_newv_def args_def)

definition constr_finish where
  "constr_finish c it r w =
     (if ce_over E it then do { w \<leftarrow> ce_delete E it w; Some (False, r, Part_null, w) }
      else do {
        r \<leftarrow> put_values (pi_out c) (ce_value E it) 0 r;
        Some (True, r, Part_iter it, w)
      })"

lemma run_answers:
  assumes c: "dc_commands d ! i = c" "pi_type c = SCD_CONSTR" "i + 1 < length (dc_commands d)"
    and cur: "length cur = length (dc_commands d)" "cur ! i = Part_null"
    and bound: "\<forall>k \<in> set (pi_out c). k < int N" and fresh: "\<forall>k \<in> set (outs_of c). k \<notin> set D"
    and IH: "\<And>r s' w it. agree N (outs_of c @ D) r s' \<Longrightarrow> safe S cs s' \<Longrightarrow> ok w \<Longrightarrow> readable ret (sols S cs s') \<Longrightarrow>
      \<exists>r' w'. fb_steps E d (Fwd (i + 1), r, cur[i := Part_iter it], w) (map (answer d) (sols S cs s'))
         (Back (i + 1), r', cur[i := Part_iter it], w') \<and> agree N (outs_of c @ D) r' s' \<and> silent w w'"
    and it: "holds w0 ys it w1" "fb_cmd E c part r w = constr_finish c it r w1"
    and ag: "agree N D r s"
    and ys: "\<forall>t \<in> set ys. safe S cs (put_outs (pi_out c) (tuple_value t) 0 s) \<and>
      readable ret (sols S cs (put_outs (pi_out c) (tuple_value t) 0 s))"
  shows "\<exists>r' w'. fb_steps E d (Fwd i, r, cur[i := part], w)
      (concat (map (\<lambda>t. map (answer d) (sols S cs (put_outs (pi_out c) (tuple_value t) 0 s))) ys))
      (Back i, r', cur, w') \<and> agree N D r' s \<and> silent w0 w'"
  using it ag ys
proof (induction ys arbitrary: part r w it w1 w0)
  case Nil
  obtain w' where w': "ce_delete E it w1 = Some w'" "silent w0 w'" using delete [OF Nil.prems(1)] by blast
  have "fb_cmd E (dc_commands d ! i) (cur[i := part] ! i) r w = Some (False, r, Part_null, w')"
    using Nil.prems(2) w'(1) over [OF Nil.prems(1)] c(1,3) cur(1) by (simp add: constr_finish_def)
  from step_fail [OF c(3) this] have "fb_step E d (Fwd i, r, cur[i := part], w) [] (Back i, r, cur, w')"
    using list_update_id [of cur i] cur(2) by simp
  from fb_steps_quiet [OF this steps_refl]
  have "fb_steps E d (Fwd i, r, cur[i := part], w) [] (Back i, r, cur, w')" .
  then show ?case using Nil.prems(3) w'(2) by auto
next
  case (Cons t ys)
  let ?s = "put_outs (pi_out c) (tuple_value t) 0 s"
  let ?r = "put_outs (pi_out c) (tuple_value t) 0 r"
  let ?cur = "cur[i := Part_iter it]"
  have "ce_value E it = tuple_value t" using val [OF Cons.prems(1)] by (simp add: fun_eq_iff)
  then have "constr_finish c it r w1 = Some (True, ?r, Part_iter it, w1)"
    using over [OF Cons.prems(1)] bound agreeD(2) [OF Cons.prems(3)]
    by (simp add: constr_finish_def put_values_outs)
  then have "fb_cmd E (dc_commands d ! i) (cur[i := part] ! i) r w = Some (True, ?r, Part_iter it, w1)"
    using Cons.prems(2) c(1,3) cur(1) by simp
  from step_go [OF c(3) this] have go: "fb_step E d (Fwd i, r, cur[i := part], w) [] (Fwd (i + 1), ?r, ?cur, w1)" by simp
  have ag: "agree N (outs_of c @ D) ?r ?s" using bound by (intro agree_put [OF Cons.prems(3)]) auto
  have sf: "safe S cs ?s" "readable ret (sols S cs ?s)" using Cons.prems(4) by simp_all
  obtain r2 w2 where body: "fb_steps E d (Fwd (i + 1), ?r, ?cur, w1) (map (answer d) (sols S cs ?s)) (Back (i + 1), r2, ?cur, w2)"
    and r2: "agree N (outs_of c @ D) r2 ?s" and w2: "silent w1 w2"
    using IH [OF ag sf(1) holds_ok [OF Cons.prems(1)] sf(2), of it] by (elim exE conjE)
  obtain w0' where w0': "silent w0 w0'" "holds w0' (t # ys) it w2" using holds_silent [OF Cons.prems(1) w2] by blast
  obtain it' w3 where nx: "ce_next E it w2 = Some (it', w3)" "holds w0' ys it' w3" using advance [OF w0'(2)] by blast
  have "agree N D ?s s"
  proof (rule put_fresh)
    show "agree N D s s" using agree_trans [OF agree_sym [OF Cons.prems(3)] Cons.prems(3)] .
    show "\<forall>k \<in> set (pi_out c). 0 \<le> k \<longrightarrow> k \<notin> set D" using fresh by auto
  qed
  moreover have "agree N D r2 ?s" by (rule agree_mono [OF r2]) auto
  ultimately have r2': "agree N D r2 s" by (rule agree_trans [rotated])
  have "fb_cmd E c (Part_iter it) r2 w2 = constr_finish c it' r2 w3"
    using nx(1) c(2) by (simp add: fb_cmd_def cmd_constr_def constr_finish_def)
  from Cons.IH [OF nx(2) this r2'] Cons.prems(4) obtain r' w' where
    rest: "fb_steps E d (Fwd i, r2, ?cur, w2)
      (concat (map (\<lambda>t. map (answer d) (sols S cs (put_outs (pi_out c) (tuple_value t) 0 s))) ys)) (Back i, r', cur, w')"
    and r': "agree N D r' s" and w': "silent w0' w'" by auto
  have "fb_step E d (Back (i + 1), r2, ?cur, w2) [] (Fwd i, r2, ?cur, w2)"
    using c by (simp add: step_redo retries_def)
  from fb_steps_quiet [OF go fb_steps_trans [OF body fb_steps_quiet [OF this rest]]] show ?case
    using r' silent_trans [OF w0'(1) w'] by auto
qed

lemma run_elements:
  assumes c: "dc_commands d ! i = c" "pi_type c = SCD_SET_EACH" "i + 1 < length (dc_commands d)"
    and io: "pi_in c = [k]" "pi_out c = [j]" "0 \<le> j" "j < int N" "j \<notin> set D" "k \<in> set D"
    and cur: "length cur = length (dc_commands d)" "cur ! i = Part_null"
    and set: "cs_set_ok S (s ! nat k)"
    and IH: "\<And>r s' w xs. agree N (j # D) r s' \<Longrightarrow> safe S cs s' \<Longrightarrow> ok w \<Longrightarrow> readable ret (sols S cs s') \<Longrightarrow>
      \<exists>r' w'. fb_steps E d (Fwd (i + 1), r, cur[i := Part_set xs], w) (map (answer d) (sols S cs s'))
         (Back (i + 1), r', cur[i := Part_set xs], w') \<and> agree N (j # D) r' s' \<and> silent w w'"
    and part: "part = Part_set ys \<and> (\<exists>a. r ! nat j = P_addr a \<and> (\<exists>w1. ce_unref E a w = Some w1 \<and> silent w0 w1)) \<or>
      part = Part_null \<and> ys = cs_set S (s ! nat k) \<and> w0 = w"
    and ok: "ok w0" "ok w" and ag: "agree N D r s"
    and ys: "\<forall>a \<in> set ys. live a \<and> safe S cs (s[nat j := P_addr a]) \<and> readable ret (sols S cs (s[nat j := P_addr a]))"
  shows "\<exists>r' w'. fb_steps E d (Fwd i, r, cur[i := part], w)
      (concat (map (\<lambda>a. map (answer d) (sols S cs (s[nat j := P_addr a]))) ys))
      (Back i, r', cur, w') \<and> agree N D r' s \<and> silent w0 w'"
  using part ok ag ys
proof (induction ys arbitrary: part r w w0)
  case Nil
  obtain a where a: "s ! nat k = P_addr a" "a \<noteq> 0" "ce_set E a w = Some (cs_set S (s ! nat k))"
    using sets [OF Nil.prems(3) set] by blast
  have rk: "reg_at r k = Some (P_addr a)" using Nil.prems(4) io(6) a(1) by (auto simp: reg_at_def agree_def)
  have rj: "reg_at r j = Some (r ! nat j)" using Nil.prems(4) io(3,4) by (auto simp: reg_at_def agree_def)
  obtain w1 where w1: "cmd_set_each E c part r w = Some (False, r, Part_null, w1)" "silent w0 w1"
    using Nil.prems(1) a rk rj io(1,2) silent_refl by (auto simp: cmd_set_each_def)
  have "fb_cmd E (dc_commands d ! i) (cur[i := part] ! i) r w = Some (False, r, Part_null, w1)"
    using w1(1) c cur(1) by (simp add: fb_cmd_def)
  from step_fail [OF c(3) this] have "fb_step E d (Fwd i, r, cur[i := part], w) [] (Back i, r, cur, w1)"
    using list_update_id [of cur i] cur(2) by simp
  from fb_steps_quiet [OF this steps_refl] show ?case using Nil.prems(4) w1(2) by auto
next
  case (Cons x ys)
  obtain a where a: "s ! nat k = P_addr a" "a \<noteq> 0" "ce_set E a w = Some (cs_set S (s ! nat k))"
    using sets [OF Cons.prems(3) set] by blast
  have rk: "reg_at r k = Some (P_addr a)" using Cons.prems(4) io(6) a(1) by (auto simp: reg_at_def agree_def)
  have rj: "reg_at r j = Some (r ! nat j)" using Cons.prems(4) io(3,4) by (auto simp: reg_at_def agree_def)
  obtain w1 where w1: "silent w0 w1" "ok w1" "cmd_set_each E c part r w =
      do { w \<leftarrow> ce_ref E x w1; r \<leftarrow> set_reg j (P_addr x) r; Some (True, r, Part_set ys, w) }"
  proof (cases "part = Part_null")
    case True
    then have "cs_set S (s ! nat k) = x # ys" "w0 = w" using Cons.prems(1) by auto
    then show ?thesis using that [of w] True a rk io(1,2) silent_refl Cons.prems(3) by (simp add: cmd_set_each_def)
  next
    case False
    then show ?thesis using Cons.prems(1) that a rk rj io(1,2) ok_silent [OF Cons.prems(2)]
      by (auto simp: cmd_set_each_def)
  qed
  have "live x" using Cons.prems(5) by simp
  then obtain w2 where w2: "ce_ref E x w1 = Some w2" "ok w2"
    "\<And>v. silent w2 v \<Longrightarrow> \<exists>v'. ce_unref E x v = Some v' \<and> silent w1 v'" using refs [OF w1(2)] by blast
  let ?r = "r[nat j := P_addr x]" and ?s = "s[nat j := P_addr x]" and ?cur = "cur[i := Part_set ys]"
  have jN: "nat j < length r" "nat j < length s" using Cons.prems(4) io(3,4) by (auto simp: agree_def)
  have "fb_cmd E (dc_commands d ! i) (cur[i := part] ! i) r w = Some (True, ?r, Part_set ys, w2)"
    using w1(3) w2(1) c cur(1) io(3) jN by (simp add: fb_cmd_def set_reg_def)
  from step_go [OF c(3) this] have go: "fb_step E d (Fwd i, r, cur[i := part], w) [] (Fwd (i + 1), ?r, ?cur, w2)" by simp
  have ag: "agree N (j # D) ?r ?s" by (rule agree_upd [OF Cons.prems(4) io(3,4)])
  have sf: "safe S cs ?s" "readable ret (sols S cs ?s)" using Cons.prems(5) by simp_all
  obtain r3 w3 where body: "fb_steps E d (Fwd (i + 1), ?r, ?cur, w2) (map (answer d) (sols S cs ?s)) (Back (i + 1), r3, ?cur, w3)"
    and r3: "agree N (j # D) r3 ?s" and w3: "silent w2 w3"
    using IH [OF ag sf(1) w2(2) sf(2), of ys] by (elim exE conjE)
  have "agree N D ?s s" by (rule agree_off [OF agree_trans [OF agree_sym [OF Cons.prems(4)] Cons.prems(4)] io(3,5)])
  moreover have "agree N D r3 ?s" by (rule agree_mono [OF r3]) auto
  ultimately have r3': "agree N D r3 s" by (rule agree_trans [rotated])
  have "r3 ! nat j = P_addr x" using agreeD(1) [OF r3, of j] jN by simp
  then have p: "Part_set ys = Part_set ys \<and> (\<exists>a. r3 ! nat j = P_addr a \<and> (\<exists>v. ce_unref E a w3 = Some v \<and> silent w1 v)) \<or>
      Part_set ys = Part_null \<and> ys = cs_set S (s ! nat k) \<and> w1 = w3" using w2(3) [OF w3] by auto
  from Cons.IH [OF p w1(2) ok_silent [OF w2(2) w3] r3'] Cons.prems(5) obtain r' w' where
    rest: "fb_steps E d (Fwd i, r3, ?cur, w3)
      (concat (map (\<lambda>a. map (answer d) (sols S cs (s[nat j := P_addr a]))) ys)) (Back i, r', cur, w')"
    and r': "agree N D r' s" and w': "silent w1 w'" by auto
  have "fb_step E d (Back (i + 1), r3, ?cur, w3) [] (Fwd i, r3, ?cur, w3)"
    using c by (simp add: step_redo retries_def)
  from fb_steps_quiet [OF go fb_steps_trans [OF body fb_steps_quiet [OF this rest]]] show ?case
    using r' silent_trans [OF w1(1) w'] by auto
qed

lemma reg_addrs_answer:
  assumes "agree N D r s" "set ks \<subseteq> set D" "\<forall>k \<in> set ks. p_addr (s ! nat k) \<noteq> None"
  shows "reg_addrs r ks = Some (map addr_of (args s ks))"
  using assms by (induction ks) (auto simp: agree_def reg_at_def args_def addr_of_def)

text \<open>The rest \<open>cs\<close> of a program, run from its first command: it gives all answers and then goes
  back to the command before it.\<close>

lemma run_rest:
  assumes "dc_commands d = pre @ cs @ [ret]" "pi_type ret = SCD_RETURN" "pre @ cs \<noteq> []" "scoped N D cs"
    "set (pi_in ret) \<subseteq> set (defined D cs)" "agree N D r s" "safe S cs s" "ok w" "readable ret (sols S cs s)"
    "length cur = length (dc_commands d)" "\<forall>j. length pre \<le> j \<and> j < length cur \<longrightarrow> cur ! j = Part_null"
  shows "\<exists>r' w'. fb_steps E d (Fwd (length pre), r, cur, w) (map (answer d) (sols S cs s))
      (Back (length pre), r', cur, w') \<and> agree N D r' s \<and> silent w w'"
  using assms
proof (induction cs arbitrary: pre D r s cur w)
  case Nil
  have "reg_tuple d r = Some (answer d s)"
    using reg_addrs_answer [OF Nil.prems(6)] Nil.prems(1,5,9) by (simp add: reg_tuple_def answer_def readable_def)
  then have "fb_step E d (Fwd (length pre), r, cur, w) [answer d s] (Back (length pre), r, cur, w)"
    using Nil.prems(1-3) by (intro step_found) simp_all
  from steps_step [OF this steps_refl] show ?case using Nil.prems(6) silent_refl by auto
next
  case (Cons c cs)
  let ?i = "length pre"
  have c: "dc_commands d ! ?i = c" "?i + 1 < length (dc_commands d)" using Cons.prems(1) by simp_all
  have pre': "dc_commands d = (pre @ [c]) @ cs @ [ret]" using Cons.prems(1) by simp
  have sc: "scoped N (outs_of c @ D) cs" "item_ok c" "set (pi_in c) \<subseteq> set D"
    and fresh: "\<forall>k \<in> set (outs_of c). k \<notin> set D \<and> k < int N" using Cons.prems(4) by simp_all
  have ret: "set (pi_in ret) \<subseteq> set (defined (outs_of c @ D) cs)" using Cons.prems(5) by simp
  note IH = Cons.IH [OF pre' Cons.prems(2) _ sc(1) ret]
  have null: "cur ! ?i = Part_null" using Cons.prems(10,11) c(2) by simp
  have null': "\<forall>j. length (pre @ [c]) \<le> j \<and> j < length (cur[?i := p]) \<longrightarrow> cur[?i := p] ! j = Part_null" for p
    using Cons.prems(11) by (auto simp: nth_list_update)
  have IH': "\<exists>r' w'. fb_steps E d (Fwd (?i + 1), r, cur[?i := p], w) (map (answer d) (sols S cs s'))
         (Back (?i + 1), r', cur[?i := p], w') \<and> agree N (outs_of c @ D) r' s' \<and> silent w w'"
    if "agree N (outs_of c @ D) r s'" "safe S cs s'" "ok w" "readable ret (sols S cs s')" for r s' w p
    using IH [OF _ that _ null'] Cons.prems(10) by simp
  have rd: "read_regs r (pi_in c) = Some (args s (pi_in c))" by (rule read_args [OF sc(3) Cons.prems(6)])
  show ?case
  proof (cases "pi_type c")
    case SCD_FILTER
    have o: "outs_of c = []" using sc(2) SCD_FILTER by (simp add: item_ok_def)
    obtain w1 where w1: "ce_filter E (pi_id c) (args s (pi_in c)) w = Some (cs_filter S (pi_id c) (args s (pi_in c)), w1)" "silent w w1"
      using filt [OF Cons.prems(8)] Cons.prems(7) SCD_FILTER by fastforce
    then have cmd: "fb_cmd E (dc_commands d ! ?i) (cur ! ?i) r w =
        Some (cs_filter S (pi_id c) (args s (pi_in c)), r, Part_null, w1)"
      using SCD_FILTER c(1) rd null by (simp add: fb_cmd_def)
    show ?thesis
    proof (cases "cs_filter S (pi_id c) (args s (pi_in c))")
      case True
      from step_go [OF c(2)] cmd True have go: "fb_step E d (Fwd ?i, r, cur, w) [] (Fwd (?i + 1), r, cur[?i := Part_null], w1)"
        by simp
      have "agree N (outs_of c @ D) r s" "safe S cs s" "readable ret (sols S cs s)"
        using Cons.prems(6,7,9) SCD_FILTER True o by simp_all
      from IH' [OF this(1,2) ok_silent [OF Cons.prems(8) w1(2)] this(3), of Part_null] obtain r' w' where
        r': "fb_steps E d (Fwd (?i + 1), r, cur[?i := Part_null], w1) (map (answer d) (sols S cs s))
          (Back (?i + 1), r', cur[?i := Part_null], w')" "agree N (outs_of c @ D) r' s" "silent w1 w'" by (elim exE conjE)
      have "fb_step E d (Back (?i + 1), r', cur[?i := Part_null], w') [] (Back ?i, r', cur[?i := Part_null], w')"
        using SCD_FILTER c(1) by (simp add: step_undo retries_def undo_def)
      from fb_steps_quiet [OF go fb_steps_trans [OF r'(1) fb_steps_quiet [OF this steps_refl]]]
      have "fb_steps E d (Fwd ?i, r, cur, w) (map (answer d) (sols S (c # cs) s)) (Back ?i, r', cur, w')"
        using SCD_FILTER True list_update_id [of cur ?i] null by simp
      moreover have "agree N D r' s" using r'(2) o by simp
      ultimately show ?thesis using silent_trans [OF w1(2) r'(3)] by blast
    next
      case False
      from step_fail [OF c(2)] cmd False have "fb_step E d (Fwd ?i, r, cur, w) [] (Back ?i, r, cur[?i := Part_null], w1)" by simp
      from fb_steps_quiet [OF this steps_refl] show ?thesis
        using SCD_FILTER False list_update_id [of cur ?i] null w1(2) Cons.prems(6) by auto
    qed
  next
    case SCD_CONSTR
    have src: "cs_src_ok S (pi_id c) (args s (pi_in c))"
      and ys: "\<forall>t \<in> set (cs_src S (pi_id c) (args s (pi_in c))). safe S cs (put_outs (pi_out c) (tuple_value t) 0 s) \<and>
        readable ret (sols S cs (put_outs (pi_out c) (tuple_value t) 0 s))"
      using Cons.prems(7,9) SCD_CONSTR by (auto simp: readable_def)
    obtain it w1 where it: "ce_new E (pi_id c) (args s (pi_in c)) w = Some (it, w1)"
      "holds w (cs_src S (pi_id c) (args s (pi_in c))) it w1" using new [OF Cons.prems(8) src] by blast
    have cmd: "fb_cmd E c Part_null r w = constr_finish c it r w1"
      using SCD_CONSTR it(1) newv_args [OF src sc(3) Cons.prems(6)]
      by (simp add: fb_cmd_def cmd_constr_def constr_finish_def)
    have "\<forall>k \<in> set (pi_out c). k < int N" "\<forall>k \<in> set (outs_of c). k \<notin> set D" using fresh by force+
    from run_answers [OF c(1) SCD_CONSTR c(2) Cons.prems(10) null this IH' it(2) cmd Cons.prems(6) ys]
    show ?thesis using SCD_CONSTR list_update_id [of cur ?i] null by (simp add: map_concat comp_def)
  next
    case SCD_SET_EACH
    then obtain k j where io: "pi_in c = [k]" "pi_out c = [j]" "0 \<le> j"
      using sc(2) by (auto simp: item_ok_def length_Suc_conv)
    then have io': "j < int N" "j \<notin> set D" "k \<in> set D" using fresh sc(3) by auto
    have st: "cs_set_ok S (s ! nat k)" using Cons.prems(7) SCD_SET_EACH io by simp
    have "\<forall>a \<in> set (cs_set S (s ! nat k)). live a \<and> safe S cs (s[nat j := P_addr a]) \<and> readable ret (sols S cs (s[nat j := P_addr a]))"
      using sets [OF Cons.prems(8) st] Cons.prems(7,9) SCD_SET_EACH io by (auto simp: readable_def)
    moreover have "agree N (j # D) r s' \<Longrightarrow> safe S cs s' \<Longrightarrow> ok w \<Longrightarrow> readable ret (sols S cs s') \<Longrightarrow>
      \<exists>r' w'. fb_steps E d (Fwd (?i + 1), r, cur[?i := Part_set xs], w) (map (answer d) (sols S cs s'))
         (Back (?i + 1), r', cur[?i := Part_set xs], w') \<and> agree N (j # D) r' s' \<and> silent w w'" for r s' w xs
      using IH' [of r s' w "Part_set xs"] io by simp
    ultimately show ?thesis
      using run_elements [OF c(1) SCD_SET_EACH c(2) io io' Cons.prems(10) null st,
          where part = Part_null and ys = "cs_set S (s ! nat k)" and w = w and ?w0.0 = w and r = r and cs = cs and ret = ret]
        Cons.prems(6,8) SCD_SET_EACH io list_update_id [of cur ?i] null by (simp add: map_concat comp_def)
  next
    case SCD_FUNC
    then obtain j where io: "pi_out c = [j]" "0 \<le> j"
      using sc(2) by (auto simp: item_ok_def length_Suc_conv)
    then have io': "j < int N" "j \<notin> set D" using fresh by auto
    have jN: "nat j < length r" "nat j < length s" using Cons.prems(6) io(2) io' by (auto simp: agree_def)
    have ag0: "agree N D (r[nat j := v]) s" for v by (rule agree_off [OF Cons.prems(6) io(2) io'(2)])
    note rd0 = read_args [OF sc(3) ag0]
    have fok: "cs_func_ok S (pi_id c) (args s (pi_in c))" using Cons.prems(7) SCD_FUNC by simp
    show ?thesis
    proof (cases "cs_func S (pi_id c) (args s (pi_in c))")
      case None
      obtain rv v w1 where w1: "ce_func E (pi_id c) (args s (pi_in c)) w = Some (rv, v, w1)" "silent w w1"
        "rv \<noteq> RV_OK \<or> (\<exists>a. v = P_addr a \<and> a \<noteq> 0 \<and> ce_opened E a w1 = Some False)"
        using func_None [OF Cons.prems(8) fok None] by blast
      have "fb_cmd E (dc_commands d ! ?i) (cur ! ?i) r w = Some (False, r[nat j := v], Part_null, w1)"
        using w1 SCD_FUNC c(1) rd0 null io jN by (auto simp: fb_cmd_def cmd_func_def set_reg_def)
      from step_fail [OF c(2) this] have "fb_step E d (Fwd ?i, r, cur, w) [] (Back ?i, r[nat j := v], cur[?i := Part_null], w1)" .
      from fb_steps_quiet [OF this steps_refl] show ?thesis
        using SCD_FUNC None list_update_id [of cur ?i] null w1(2) ag0 by auto
    next
      case (Some v)
      obtain w1 where w1: "ce_func E (pi_id c) (args s (pi_in c)) w = Some (RV_OK, v, w1)" "silent w w1"
        "over_page True v = over_page False v"
        "over_page False v \<Longrightarrow> \<exists>a. v = P_addr a \<and> live a \<and> ce_opened E a w1 = Some True"
        using func_Some [OF Cons.prems(8) fok Some] by blast
      have ok1: "ok w1" by (rule ok_silent [OF Cons.prems(8) w1(2)])
      obtain w2 where w2: "fb_cmd E (dc_commands d ! ?i) (cur ! ?i) r w = Some (True, r[nat j := v], Part_null, w2)" "ok w2"
        "\<And>r' u. r' ! nat j = v \<Longrightarrow> length r' = N \<Longrightarrow> silent w2 u \<Longrightarrow> \<exists>u'. undo E c r' u = Some u' \<and> silent w1 u'"
      proof (cases "over_page False v")
        case True
        then obtain a where a: "v = P_addr a" "live a" "ce_opened E a w1 = Some True" using w1(4) by blast
        obtain w2 where w2: "ce_ref E a w1 = Some w2" "ok w2"
          "\<And>u. silent w2 u \<Longrightarrow> \<exists>u'. ce_unref E a u = Some u' \<and> silent w1 u'" using refs [OF ok1 a(2)] by blast
        show ?thesis
        proof (rule that)
          show "fb_cmd E (dc_commands d ! ?i) (cur ! ?i) r w = Some (True, r[nat j := v], Part_null, w2)"
            using w1(1) w2(1) a True SCD_FUNC c(1) rd0 null io jN by (simp add: fb_cmd_def cmd_func_def set_reg_def)
          show "\<exists>u'. undo E c r' u = Some u' \<and> silent w1 u'" if "r' ! nat j = v" "length r' = N" "silent w2 u" for r' u
            using w2(3) [OF that(3)] that(1,2) a(1) True w1(3) SCD_FUNC io io'(1) by (simp add: undo_def reg_at_def nat_less_iff)
        qed (rule w2(2))
      next
        case False
        show ?thesis
        proof (rule that)
          show "fb_cmd E (dc_commands d ! ?i) (cur ! ?i) r w = Some (True, r[nat j := v], Part_null, w1)"
            using w1(1) False SCD_FUNC c(1) rd0 null io jN by (simp add: fb_cmd_def cmd_func_def set_reg_def)
          show "\<exists>u'. undo E c r' u = Some u' \<and> silent w1 u'" if "r' ! nat j = v" "length r' = N" "silent w1 u" for r' u
            using that False w1(3) SCD_FUNC io io'(1) by (simp add: undo_def reg_at_def nat_less_iff)
        qed (rule ok1)
      qed
      let ?s = "s[nat j := v]"
      from step_go [OF c(2) w2(1)] have go: "fb_step E d (Fwd ?i, r, cur, w) [] (Fwd (?i + 1), r[nat j := v], cur[?i := Part_null], w2)" .
      have ag: "agree N (outs_of c @ D) (r[nat j := v]) ?s" using agree_upd [OF Cons.prems(6) io(2) io'(1)] io by simp
      have sf: "safe S cs ?s" "readable ret (sols S cs ?s)" using Cons.prems(7,9) SCD_FUNC Some io by simp_all
      obtain r' w' where
        r': "fb_steps E d (Fwd (?i + 1), r[nat j := v], cur[?i := Part_null], w2) (map (answer d) (sols S cs ?s))
          (Back (?i + 1), r', cur[?i := Part_null], w')" "agree N (outs_of c @ D) r' ?s" "silent w2 w'"
        using IH' [OF ag sf(1) w2(2) sf(2), of Part_null] by (elim exE conjE)
      have "r' ! nat j = v" using agreeD(1) [OF r'(2), of j] io jN by simp
      then obtain u where u: "undo E c r' w' = Some u" "silent w1 u"
        using w2(3) [of r' w'] r'(3) agreeD(2) [OF r'(2)] by blast
      have "fb_step E d (Back (?i + 1), r', cur[?i := Part_null], w') [] (Back ?i, r', cur[?i := Part_null], u)"
        using SCD_FUNC c(1) u(1) by (simp add: step_undo retries_def)
      from fb_steps_quiet [OF go fb_steps_trans [OF r'(1) fb_steps_quiet [OF this steps_refl]]]
      have "fb_steps E d (Fwd ?i, r, cur, w) (map (answer d) (sols S (c # cs) s)) (Back ?i, r', cur, u)"
        using SCD_FUNC Some io list_update_id [of cur ?i] null by simp
      moreover have "agree N D ?s s"
        by (rule agree_off [OF agree_trans [OF agree_sym [OF Cons.prems(6)] Cons.prems(6)] io(2) io'(2)])
      moreover have "agree N D r' ?s" by (rule agree_mono [OF r'(2)]) auto
      ultimately show ?thesis using silent_trans [OF w1(2) u(2)] agree_trans [of N D r' ?s s] by blast
    qed
  qed (use sc(2) in \<open>simp add: item_ok_def\<close>)
qed

text \<open>The whole program: the answers of the nest of loops, in order, and the state as before.\<close>

lemma run_program:
  assumes "wf_dec d" "length prm = dc_input_cnt d" "length junk = dc_reg_cnt d" "ok w"
    and "safe S (butlast (dc_commands d)) (prm @ junk)"
    and "readable (last (dc_commands d)) (sols S (butlast (dc_commands d)) (prm @ junk))"
  shows "\<exists>n w'. (do { (st, w) \<leftarrow> fb_new n E d prm junk w; fb_collect n E st w }) = Some (results S d prm junk, w') \<and> silent w w'"
proof -
  let ?cs = "butlast (dc_commands d)" and ?ret = "last (dc_commands d)"
  let ?N = "dc_input_cnt d + dc_reg_cnt d" and ?D = "inputs (dc_input_cnt d)"
  let ?r = "prm @ junk" and ?cur = "replicate (length (dc_commands d)) Part_null"
  have d: "dc_commands d = [] @ ?cs @ [?ret]" "pi_type ?ret = SCD_RETURN" "[] @ ?cs \<noteq> []" "scoped ?N ?D ?cs"
    "set (pi_in ?ret) \<subseteq> set (defined ?D ?cs)" using assms(1) by (auto simp: wf_dec_def Let_def simp flip: length_greater_0_conv)
  have ag: "agree ?N ?D ?r ?r" using assms(2,3) by (auto simp: agree_def inputs_def)
  obtain w1 where w1: "ce_session_ref E w = Some w1" "ok w1"
    "\<And>v. silent w1 v \<Longrightarrow> \<exists>u. ce_session_unref E v = Some u \<and> silent w u" using session [OF assms(4)] by blast
  obtain r' w2 where r': "fb_steps E d (Fwd 0, ?r, ?cur, w1) (results S d prm junk) (Back 0, r', ?cur, w2)" "silent w1 w2"
    using run_rest [OF d ag assms(5) w1(2) assms(6), of ?cur] by (auto simp: results_def)
  obtain w3 where w3: "ce_session_unref E w2 = Some w3" "silent w w3" using w1(3) [OF r'(2)] by blast
  have rel: "fb_release E st (zip cs (replicate k Part_null)) v = Some v" if "fb_over st" for st cs k v
    using that
  proof (induction cs arbitrary: k)
    case (Cons c cs)
    then show ?case by (cases k) (auto split: item_type.split)
  qed simp
  have "fb_rest 1 E d (Back 0, r', ?cur, w2) = Some ([], w3)"
    using w3(1) rel by (simp add: fb_at_def fb_delete_def)
  from fb_rest_steps [OF r'(1) this] obtain m where "fb_rest m E d (Fwd 0, ?r, ?cur, w1) = Some (results S d prm junk, w3)" by auto
  then show ?thesis using w1(1) w3(2) assms(2)
    by (intro exI [of _ m]) (simp add: fb_new_def fb_go_def fb_at_def)
qed

lemma run_program_fuel:
  assumes "wf_dec d" "length prm = dc_input_cnt d" "length junk = dc_reg_cnt d" "ok w"
    and "safe S (butlast (dc_commands d)) (prm @ junk)"
    and "readable (last (dc_commands d)) (sols S (butlast (dc_commands d)) (prm @ junk))"
  shows "\<exists>N w'. silent w w' \<and> (\<forall>n \<ge> N.
    (do { (st, w) \<leftarrow> fb_new n E d prm junk w; fb_collect n E st w }) = Some (results S d prm junk, w'))"
proof -
  obtain N w' where N: "(do { (st, w) \<leftarrow> fb_new N E d prm junk w; fb_collect N E st w }) = Some (results S d prm junk, w')"
    "silent w w'" using run_program [OF assms] by blast
  have "opt_le (do { (st, w) \<leftarrow> fb_new N E d prm junk w; fb_collect N E st w })
      (do { (st, w) \<leftarrow> fb_new n E d prm junk w; fb_collect n E st w })" if "N \<le> n" for n
    unfolding fb_new_def fb_go_def using that by (intro opt_le_intros fb_loop_mono fb_collect_mono)
  then show ?thesis using N by (auto simp: opt_le_def)
qed

end

end
