(* ===== verification/World_Refs.thy ===== *)
theory World_Refs
  imports Session_Repo "HOL-Library.Multiset"
begin

text \<open>
  References taken by iterators. While iterators stand on arcs, the memory differs from the memory at
  rest only in reference counts and in the error codes that sessions report: \<open>bump h er W\<close> is \<open>W\<close>
  with the references \<open>h\<close> and the error codes \<open>er\<close>. In a quiet memory, where nothing is dead, every
  step of an iterator is a change of \<open>h\<close>, so iterators that are open at the same time do not disturb
  each other.
\<close>

section \<open>A memory with references on it\<close>

datatype ref_key = K_link nat | K_addr nat | K_seg nat | K_session nat

type_synonym held = "ref_key multiset"
type_synonym errors = "nat \<Rightarrow> sc_retval option"

definition bump :: "held \<Rightarrow> errors \<Rightarrow> world \<Rightarrow> world" where
  "bump h er W = W\<lparr>
     st_links := (\<lambda>l. map_option (\<lambda>k. k\<lparr>lk_refcnt := lk_refcnt k + int (count h (K_link l))\<rparr>) (st_links W l)),
     st_segs := (\<lambda>s. map_option (\<lambda>g. g\<lparr>sg_refcnt := sg_refcnt g + int (count h (K_seg s))\<rparr>) (st_segs W s)),
     wd_addrs := (\<lambda>a. map_option (\<lambda>g. g\<lparr>ga_refcnt := ga_refcnt g + int (count h (K_addr a))\<rparr>) (wd_addrs W a)),
     wd_sessions := (\<lambda>x. map_option (\<lambda>s. s\<lparr>ss_refcnt := ss_refcnt s + int (count h (K_session x)),
        ss_error := (case er x of None \<Rightarrow> ss_error s | Some e \<Rightarrow> e)\<rparr>) (wd_sessions W x))\<rparr>"

lemma bump_none: "bump {#} (\<lambda>_. None) W = W"
  by (simp add: bump_def option.map_ident)

lemma bump_sel [simp]:
  "st_els (bump h er W) = st_els W"
  "st_links (bump h er W) l = map_option (\<lambda>k. k\<lparr>lk_refcnt := lk_refcnt k + int (count h (K_link l))\<rparr>) (st_links W l)"
  "st_segs (bump h er W) s = map_option (\<lambda>g. g\<lparr>sg_refcnt := sg_refcnt g + int (count h (K_seg s))\<rparr>) (st_segs W s)"
  "wd_addrs (bump h er W) a = map_option (\<lambda>g. g\<lparr>ga_refcnt := ga_refcnt g + int (count h (K_addr a))\<rparr>) (wd_addrs W a)"
  "wd_sessions (bump h er W) x = map_option (\<lambda>s. s\<lparr>ss_refcnt := ss_refcnt s + int (count h (K_session x)),
        ss_error := (case er x of None \<Rightarrow> ss_error s | Some e \<Rightarrow> e)\<rparr>) (wd_sessions W x)"
  by (simp_all add: bump_def)

definition quiet :: "world \<Rightarrow> bool" where
  "quiet W \<longleftrightarrow> wd_inv W \<and> st_segs W 0 = None \<and> st_links W 0 = None \<and>
     (\<forall>a g. wd_addrs W a = Some g \<longrightarrow> 0 < ga_refcnt g \<and> \<not> ga_dead g \<and> \<not> ga_zombie g \<and>
        (\<forall>x \<in> set (ga_links g). st_segs W (fst x) \<noteq> None)) \<and>
     (\<forall>s g. st_segs W s = Some g \<longrightarrow> 0 < sg_refcnt g) \<and>
     (\<forall>x s. wd_sessions W x = Some s \<longrightarrow> 0 < ss_refcnt s) \<and>
     (\<forall>a. vT Beg W a \<noteq> 0 \<or> vT End W a \<noteq> 0 \<longrightarrow> (\<exists>e. st_els W a = Some e \<and> el_addr e \<noteq> 0))"

lemma quietD:
  assumes "quiet W"
  shows "wd_inv W" "st_segs W 0 = None"
    "wd_addrs W a = Some g \<Longrightarrow> 0 < ga_refcnt g" "wd_addrs W a = Some g \<Longrightarrow> \<not> ga_dead g" "wd_addrs W a = Some g \<Longrightarrow> \<not> ga_zombie g"
    "wd_addrs W a = Some g \<Longrightarrow> x \<in> set (ga_links g) \<Longrightarrow> st_segs W (fst x) \<noteq> None"
    "st_segs W s = Some gs \<Longrightarrow> 0 < sg_refcnt gs" "wd_sessions W y = Some ses \<Longrightarrow> 0 < ss_refcnt ses"
    "vT sd W b \<noteq> 0 \<Longrightarrow> \<exists>e. st_els W b = Some e \<and> el_addr e \<noteq> 0" "st_links W 0 = None"
  using assms unfolding quiet_def by (blast, blast, blast, blast, blast, blast, blast, blast, cases sd, blast, blast, blast)

lemma quiet_gaddr: "quiet W \<Longrightarrow> wd_addrs W a = Some g \<Longrightarrow> gaddr_ok W a g"
  using quietD(1) [of W] by (auto simp: wd_inv_def)

lemma quiet_addr:
  assumes "quiet W" "wd_addrs W a = Some g"
  shows "a \<noteq> 0" "ga_seg g \<noteq> 0" "ga_impl g \<noteq> 0" "st_segs W (ga_seg g) \<noteq> None"
    "\<exists>e. st_els W (ga_impl g) = Some e \<and> el_addr e = a"
    "x \<in> set (ga_links g) \<Longrightarrow> \<exists>e. st_els W (snd x) = Some e \<and> el_addr e = a"
proof -
  note g = quiet_gaddr [OF assms]
  show "a \<noteq> 0" "st_segs W (ga_seg g) \<noteq> None" using g by (simp_all add: gaddr_ok_def)
  then show "ga_seg g \<noteq> 0" using quietD(2) [OF assms(1)] by (cases "ga_seg g = 0") auto
  show e: "\<exists>e. st_els W (ga_impl g) = Some e \<and> el_addr e = a"
    using g quietD(5) [OF assms] by (auto simp: gaddr_ok_def cells_def)
  have "\<not> vD W 0" using quietD(1) [OF assms(1)] adj_invD(8) [of "vD W"] by (auto simp: wd_inv_def store_adj_def adj_ok_def)
  then show "ga_impl g \<noteq> 0" using e by (cases "ga_impl g = 0") (auto simp: vD_def)
  show "x \<in> set (ga_links g) \<Longrightarrow> \<exists>e. st_els W (snd x) = Some e \<and> el_addr e = a"
    using g by (auto simp: gaddr_ok_def cells_def)
qed

section \<open>Taking and giving back a reference\<close>

lemma bump_addr_ref: "wd_addrs W a \<noteq> None \<Longrightarrow> addr_ref a (bump h er W) = Some (bump (add_mset (K_addr a) h) er W)"
  by (auto simp: addr_ref_def upd_addr_def) (auto simp: bump_def intro!: world.equality)

lemma bump_addr_unref:
  assumes "quiet W" "wd_addrs W a \<noteq> None"
  shows "addr_unref a (bump (add_mset (K_addr a) h) er W) = Some (bump h er W)"
proof -
  obtain g where g: "wd_addrs W a = Some g" "0 < ga_refcnt g" using assms quietD(3) [OF assms(1)] by blast
  have "upd_addr a (\<lambda>g. g\<lparr>ga_refcnt := ga_refcnt g - 1\<rparr>) (bump (add_mset (K_addr a) h) er W) = Some (bump h er W)"
    using g(1) by (auto simp: upd_addr_def) (auto simp: bump_def intro!: world.equality)
  then show ?thesis using g by (simp add: addr_unref_def)
qed

lemma bump_seg_ref: "st_segs W s \<noteq> None \<Longrightarrow> seg_ref s (bump h er W) = Some (bump (add_mset (K_seg s) h) er W)"
  by (auto simp: seg_ref_def upd_seg_def) (auto simp: bump_def intro!: world.equality)

lemma bump_seg_unref:
  assumes "quiet W" "st_segs W s \<noteq> None"
  shows "seg_unref s (bump (add_mset (K_seg s) h) er W) = Some (bump h er W)"
proof -
  obtain g where g: "st_segs W s = Some g" "0 < sg_refcnt g" using assms quietD(7) [OF assms(1)] by blast
  then show ?thesis
    by (auto simp: seg_unref_def upd_seg_def) (auto simp: bump_def intro!: world.equality)
qed

lemma bump_link_ref: "st_links W l \<noteq> None \<Longrightarrow> link_ref l (bump h er W) = Some (bump (add_mset (K_link l) h) er W)"
  by (auto simp: link_ref_def) (auto simp: bump_def intro!: world.equality)

lemma bump_link_unref:
  assumes "st_links W l = Some (quiet_link a)"
  shows "link_unref sd e l (bump (add_mset (K_link l) h) er W) = Some (bump h er W)"
  using assms by (auto simp: link_unref_def quiet_link_def) (auto simp: bump_def intro!: world.equality)

lemma bump_session_ref: "wd_sessions W x \<noteq> None \<Longrightarrow> session_ref x (bump h er W) = Some (bump (add_mset (K_session x) h) er W)"
  by (auto simp: session_ref_def upd_session_def) (auto simp: bump_def intro!: world.equality)

lemma bump_session_unref:
  assumes "quiet W" "wd_sessions W x \<noteq> None"
  shows "session_unref x (bump (add_mset (K_session x) h) er W) = Some (bump h er W)"
proof -
  obtain s where s: "wd_sessions W x = Some s" "0 < ss_refcnt s" using assms quietD(8) [OF assms(1)] by blast
  then show ?thesis
    by (auto simp: session_unref_def upd_session_def) (auto simp: bump_def intro!: world.equality)
qed

lemma bump_set_error:
  "wd_sessions W x \<noteq> None \<Longrightarrow> set_error x rv (bump h er W) = Some (bump h (er(x \<mapsto> rv)) W)"
  by (auto simp: set_error_def upd_session_def) (auto simp: bump_def intro!: world.equality)

lemma bump_opened [simp]: "session_opened x s (bump h er W) = session_opened x s W"
  by (auto simp: session_opened_def split: bind_splits)

lemma bump_arc_list [simp]: "arc_list sd e (bump h er W) = arc_list sd e W"
  by (simp add: arc_list_def)

lemma bump_addr_seg [simp]: "addr_seg a (bump h er W) = addr_seg a W"
  by (simp add: addr_seg_def option.map_comp comp_def)

lemma bump_get_addr [simp]: "sg_get_element_addr a (bump h er W) = sg_get_element_addr a W"
  by (simp add: sg_get_element_addr_def)

lemma bump_addr_unref':
  "quiet W \<Longrightarrow> wd_addrs W a \<noteq> None \<Longrightarrow> K_addr a \<in># h \<Longrightarrow> addr_unref a (bump h er W) = Some (bump (h - {#K_addr a#}) er W)"
  using bump_addr_unref [of W a "h - {#K_addr a#}"] by simp

lemma bump_seg_unref':
  "quiet W \<Longrightarrow> st_segs W a \<noteq> None \<Longrightarrow> K_seg a \<in># h \<Longrightarrow> seg_unref a (bump h er W) = Some (bump (h - {#K_seg a#}) er W)"
  using bump_seg_unref [of W a "h - {#K_seg a#}"] by simp

lemma bump_link_unref':
  "st_links W l = Some (quiet_link a) \<Longrightarrow> K_link l \<in># h \<Longrightarrow> link_unref sd e l (bump h er W) = Some (bump (h - {#K_link l#}) er W)"
  using bump_link_unref [of W l a sd e "h - {#K_link l#}"] by simp

section \<open>Iterators over the arcs in one segment\<close>

definition arc_addr :: "world \<Rightarrow> nat \<Rightarrow> nat" where
  "arc_addr W l = (case st_links W l of None \<Rightarrow> 0 | Some k \<Rightarrow> (case st_els W (lk_value k) of None \<Rightarrow> 0 | Some e \<Rightarrow> el_addr e))"

definition place_addrs :: "side \<Rightarrow> world \<Rightarrow> nat \<Rightarrow> nat list" where
  "place_addrs sd W ll = map (arc_addr W) (vA sd W ll)"

definition arc_refs :: "world \<Rightarrow> nat \<Rightarrow> held" where
  "arc_refs W l = {#K_link l, K_addr (arc_addr W l), K_seg (case wd_addrs W (arc_addr W l) of None \<Rightarrow> 0 | Some g \<Rightarrow> ga_seg g)#}"

lemma quiet_arc:
  assumes "quiet W" "l \<in> set (vA sd W e)"
  shows "\<exists>a el g. st_links W l = Some (quiet_link a) \<and> st_els W a = Some el \<and> arc_addr W l = el_addr el \<and> el_addr el \<noteq> 0 \<and>
    wd_addrs W (arc_addr W l) = Some g \<and> \<not> ga_dead g \<and> st_segs W (ga_seg g) \<noteq> None \<and> l \<noteq> 0 \<and> vT sd W a = e \<and> e \<noteq> 0"
proof -
  have inv: "adj_inv (vD W) (vA sd W) (vQ sd W) (vT sd W) (vH sd W) (st_links W)" "wd_inv W"
    using quietD(1) [OF assms(1)] store_adjD(1) by (auto simp: wd_inv_def adj_ok_def)
  obtain a where a: "st_links W l = Some (quiet_link a)" "vT sd W a = e" using adj_invD(3) [OF inv(1) assms(2)] by blast
  have "vD W e" using adj_invD(9) [OF inv(1), of e] assms(2) by (cases "vD W e") auto
  then have e0: "e \<noteq> 0" using adj_invD(8) [OF inv(1)] by (cases "e = 0") auto
  then obtain el where el: "st_els W a = Some el" "el_addr el \<noteq> 0" using quietD(9) [OF assms(1), of sd a] a(2) by auto
  then obtain g where g: "wd_addrs W (el_addr el) = Some g" using inv(2) by (fastforce simp: wd_inv_def cells_def)
  have "l \<noteq> 0" using a(1) quietD(10) [OF assms(1)] by (cases "l = 0") auto
  then show ?thesis using a el g e0 quietD(4) [OF assms(1) g] quiet_addr(4) [OF assms(1) g]
    by (simp add: arc_addr_def quiet_link_def)
qed

lemma bump_ref_arc:
  assumes "quiet W" "l \<in> set (vA sd W e)"
  shows "ref_arc l (arc_addr W l) (bump h er W) = Some (bump (arc_refs W l + h) er W)"
proof -
  obtain a g where a: "st_links W l = Some (quiet_link a)" "wd_addrs W (arc_addr W l) = Some g" "st_segs W (ga_seg g) \<noteq> None"
    using quiet_arc [OF assms] by blast
  then have "addr_seg (arc_addr W l) W = Some (ga_seg g)" by (simp add: addr_seg_def)
  then show ?thesis
    using a by (simp add: ref_arc_def bump_link_ref bump_addr_ref bump_seg_ref arc_refs_def add_mset_commute del: bump_sel)
qed

lemma bump_skip:
  assumes "quiet W" "set ls \<subseteq> set (vA sd W e)"
  shows "skip_links ls (bump h er W) = Some (case ls of [] \<Rightarrow> (0, 0) | l # _ \<Rightarrow> (l, arc_addr W l))"
proof (cases ls)
  case (Cons l ls')
  then obtain a el where "st_links W l = Some (quiet_link a)" "st_els W a = Some el" "arc_addr W l = el_addr el" "el_addr el \<noteq> 0"
    using quiet_arc [OF assms(1), of l sd e] assms(2) by auto
  then show ?thesis using Cons by (simp add: quiet_link_def sg_get_element_addr_def)
qed simp

abbreviation iter_on :: "world \<Rightarrow> side \<Rightarrow> nat \<Rightarrow> nat \<Rightarrow> arc_iter" where
  "iter_on W sd e l \<equiv> \<lparr>ai_side = sd, ai_elem = e, ai_curr = l, ai_addr = arc_addr W l\<rparr>"

definition iter_off :: "side \<Rightarrow> nat \<Rightarrow> arc_iter" where
  "iter_off sd e = \<lparr>ai_side = sd, ai_elem = e, ai_curr = 0, ai_addr = 0\<rparr>"

lemma arc_list_vA: "vA sd W e \<noteq> [] \<Longrightarrow> arc_list sd e W = Some (vA sd W e)"
  by (auto simp: arc_list_def vA_def split: option.splits)

lemma quiet_distinct: "quiet W \<Longrightarrow> distinct (vA sd W e)"
  using quietD(1) [of W] store_adjD(1) [of W sd] adj_invD(1) by (fastforce simp: wd_inv_def adj_ok_def)

lemma bump_arc_next:
  assumes "quiet W" "vA sd W e = pre @ l # rest"
  shows "arc_iter_next (iter_on W sd e l) (bump (arc_refs W l + h) er W) =
    (case rest of
       [] \<Rightarrow> Some (RV_ELSE_GEN, iter_off sd e, bump h er W)
     | k # _ \<Rightarrow> Some (RV_OK, iter_on W sd e k, bump (arc_refs W k + h) er W))"
proof -
  have l: "l \<in> set (vA sd W e)" using assms(2) by simp
  obtain a g where a: "st_links W l = Some (quiet_link a)" "wd_addrs W (arc_addr W l) = Some g" "st_segs W (ga_seg g) \<noteq> None" "l \<noteq> 0"
    using quiet_arc [OF assms(1) l] by blast
  have al: "arc_list sd e W = Some (pre @ l # rest)" using arc_list_vA [of sd W e] assms(2) by simp
  have "l \<notin> set pre" using quiet_distinct [OF assms(1), of sd e] assms(2) by simp
  moreover have "skip_links rest (bump (arc_refs W l + h) er W) = Some (case rest of [] \<Rightarrow> (0, 0) | l # _ \<Rightarrow> (l, arc_addr W l))"
    using assms(2) by (intro bump_skip [OF assms(1), of _ sd e]) auto
  moreover have "rest = k # ks \<Longrightarrow> k \<noteq> 0" for k ks using quiet_arc [OF assms(1), of k sd e] assms(2) by auto
  moreover have "rest = k # ks \<Longrightarrow> ref_arc k (arc_addr W k) (bump h er W) = Some (bump (arc_refs W k + h) er W)" for k ks
    using assms(2) by (intro bump_ref_arc [OF assms(1), of _ sd e]) auto
  moreover have "addr_seg (arc_addr W l) W = Some (ga_seg g)" using a(2) by (simp add: addr_seg_def)
  ultimately show ?thesis
    using a al assms(1)
    by (cases rest) (simp_all add: arc_iter_next_def list_after_append bump_link_unref' bump_seg_unref' bump_addr_unref' arc_refs_def
        iter_off_def del: bump_sel skip_links.simps)
qed

lemma bump_arc_new:
  assumes "quiet W" "st_els W e \<noteq> None"
  shows "arc_iter_new sd e (bump h er W) = (case vA sd W e of
      [] \<Rightarrow> Some (iter_off sd e, bump h er W) | l # _ \<Rightarrow> Some (iter_on W sd e l, bump (arc_refs W l + h) er W))"
proof (cases "vA sd W e")
  case Nil
  then show ?thesis using assms(2) by (auto simp: arc_iter_new_def arc_list_def vA_def iter_off_def)
next
  case (Cons l rest)
  then have l: "l \<in> set (vA sd W e)" by simp
  obtain a el g where a: "st_links W l = Some (quiet_link a)" "st_els W a = Some el" "arc_addr W l = el_addr el" "el_addr el \<noteq> 0"
    "wd_addrs W (arc_addr W l) = Some g" "\<not> ga_dead g" using quiet_arc [OF assms(1) l] by blast
  have "link_addr l (bump h er W) = Some (arc_addr W l)"
    using a(1-3) by (simp add: link_addr_def quiet_link_def sg_get_element_addr_def)
  moreover have "st_links (bump h' er W) l = Some (quiet_link a\<lparr>lk_refcnt := 1 + int (count h' (K_link l))\<rparr>)" for h'
    using a(1) by (simp add: quiet_link_def)
  moreover have "addr_is_dead (arc_addr W l) (bump h' er W) = Some False" for h'
    using a(5,6) by (simp add: addr_is_dead_def)
  ultimately show ?thesis
    using Cons arc_list_vA [of sd W e] bump_ref_arc [OF assms(1) l, of h er] a(3,4)
    by (simp add: arc_iter_new_def quiet_link_def del: bump_sel)
qed

lemma bump_arc_delete:
  assumes "quiet W" "l \<in> set (vA sd W e)"
  shows "arc_iter_delete (iter_on W sd e l) (bump (arc_refs W l + h) er W) = Some (bump h er W)"
proof -
  obtain a g where a: "st_links W l = Some (quiet_link a)" "wd_addrs W (arc_addr W l) = Some g" "st_segs W (ga_seg g) \<noteq> None" "l \<noteq> 0"
    using quiet_arc [OF assms] by blast
  moreover have "addr_seg (arc_addr W l) W = Some (ga_seg g)" using a(2) by (simp add: addr_seg_def)
  ultimately show ?thesis using assms(1)
    by (simp add: arc_iter_delete_def arc_iter_is_over_def bump_link_unref' bump_seg_unref' bump_addr_unref' arc_refs_def del: bump_sel)
qed

section \<open>Iterators over the arcs in all opened segments\<close>

definition links_known :: "nat \<Rightarrow> world \<Rightarrow> (nat \<times> nat) list \<Rightarrow> bool" where
  "links_known ss W ls \<longleftrightarrow> (\<forall>x \<in> set ls. session_opened ss (fst x) W \<noteq> None \<and> st_els W (snd x) \<noteq> None)"

definition arcs_left :: "nat \<Rightarrow> side \<Rightarrow> world \<Rightarrow> (nat \<times> nat) list \<Rightarrow> nat list" where
  "arcs_left ss sd W ls = concat (map (place_addrs sd W) (visible ss W ls))"

text \<open>The iterator \<open>m\<close> in the memory \<open>w\<close>, made in \<open>w0\<close>: the arcs \<open>xs\<close> are left.\<close>

definition meta_holds :: "side \<Rightarrow> nat \<Rightarrow> world \<Rightarrow> world \<Rightarrow> nat list \<Rightarrow> meta_iter \<Rightarrow> world \<Rightarrow> bool" where
  "meta_holds sd ss W w0 xs m w \<longleftrightarrow> mi_session m = ss \<and> wd_addrs W (mi_from m) \<noteq> None \<and> wd_sessions W ss \<noteq> None \<and>
     links_known ss W (mi_links m) \<and>
     (\<exists>h er. w0 = bump h er W \<and>
        (case mi_iter m of
           None \<Rightarrow> xs = [] \<and> w = bump ({#K_addr (mi_from m), K_session ss#} + h) er W
         | Some it \<Rightarrow> (\<exists>ll pre l rest. it = iter_on W sd ll l \<and> vA sd W ll = pre @ l # rest \<and>
             xs = map (arc_addr W) (l # rest) @ arcs_left ss sd W (mi_links m) \<and>
             w = bump (arc_refs W l + ({#K_addr (mi_from m), K_session ss#} + h)) er W)))"

lemma meta_holds_onI:
  assumes "mi_iter m = Some (iter_on W sd ll l)" "vA sd W ll = pre @ l # rest" "mi_session m = ss" "mi_from m = a"
    "wd_addrs W a \<noteq> None" "wd_sessions W ss \<noteq> None" "links_known ss W (mi_links m)"
    "xs = arc_addr W l # map (arc_addr W) rest @ arcs_left ss sd W (mi_links m)"
    "w = bump (arc_refs W l + ({#K_addr a, K_session ss#} + h)) er W"
  shows "meta_holds sd ss W (bump h er W) xs m w"
proof -
  have "\<exists>ll' pre' l' rest'. iter_on W sd ll l = iter_on W sd ll' l' \<and> vA sd W ll' = pre' @ l' # rest' \<and>
      xs = map (arc_addr W) (l' # rest') @ arcs_left ss sd W (mi_links m) \<and>
      w = bump (arc_refs W l' + ({#K_addr (mi_from m), K_session ss#} + h)) er W"
    using assms by (intro exI [of _ ll] exI [of _ pre] exI [of _ l] exI [of _ rest]) simp
  then show ?thesis
    using assms(1,3-7) unfolding meta_holds_def by (intro conjI exI [of _ h] exI [of _ er]) simp_all
qed

lemma bump_again:
  assumes "quiet W" "links_known ss W ls" "ai_curr it = 0" "wd_addrs W from \<noteq> None" "wd_sessions W ss \<noteq> None"
  shows "\<exists>rv ls' it' w'. meta_again sd ss ls it (bump ({#K_addr from, K_session ss#} + h) er W) = Some (rv, ls', it', w') \<and>
    meta_holds sd ss W (bump h er W) (arcs_left ss sd W ls) \<lparr>mi_links = ls', mi_iter = it', mi_from = from, mi_session = ss\<rparr> w'"
  using assms(2,3)
proof (induction ls arbitrary: it)
  case Nil
  then show ?case
    using assms(4,5) by (auto simp: arc_iter_delete_def arc_iter_is_over_def meta_holds_def links_known_def arcs_left_def)
next
  case (Cons x ls)
  obtain s ll where x: "x = (s, ll)" by (cases x)
  have k: "links_known ss W ls" using Cons.prems(1) by (simp add: links_known_def)
  obtain b e where b: "session_opened ss s W = Some b" "st_els W ll = Some e"
    using Cons.prems(1) x by (auto simp: links_known_def)
  show ?case
  proof (cases b)
    case False
    then show ?thesis using Cons.IH [OF k Cons.prems(2)] b(1) x by (simp add: arcs_left_def)
  next
    case True
    show ?thesis
    proof (cases "vA sd W ll")
      case Nil
      have "ai_curr (iter_off sd ll) = 0" by (simp add: iter_off_def)
      from Cons.IH [OF k this] show ?thesis
        using True b x Nil bump_arc_new [OF assms(1), of ll sd] Cons.prems(2)
        by (simp add: arcs_left_def place_addrs_def arc_iter_delete_def arc_iter_is_over_def iter_off_def)
    next
      case (Cons l rest)
      then have "l \<noteq> 0" using quiet_arc [OF assms(1), of l sd ll] by auto
      then show ?thesis
        using True b x Cons bump_arc_new [OF assms(1), of ll sd] \<open>ai_curr it = 0\<close> k assms(4,5)
        by (auto simp: arcs_left_def place_addrs_def arc_iter_delete_def arc_iter_is_over_def intro!: meta_holds_onI)
    qed
  qed
qed

lemma meta_holds_new:
  assumes "quiet W" "wd_addrs W a = Some g" "wd_sessions W ss \<noteq> None" "links_known ss W (ga_links g)"
  shows "\<exists>m w. meta_new sd a ss (bump h er W) = Some (m, w) \<and> mi_from m = a \<and>
    meta_holds sd ss W (bump h er W) (place_addrs sd W (ga_impl g) @ arcs_left ss sd W (ga_links g)) m w"
proof -
  let ?h = "{#K_addr a, K_session ss#} + h"
  have r: "addr_ref a (bump h er W) = Some (bump (add_mset (K_addr a) h) er W)"
    "session_ref ss (bump (add_mset (K_addr a) h) er W) = Some (bump ?h er W)"
    using assms by (simp_all add: bump_addr_ref bump_session_ref add_mset_commute)
  have el: "st_els W (ga_impl g) \<noteq> None" using quiet_addr(5) [OF assms(1,2)] by auto
  show ?thesis
  proof (cases "vA sd W (ga_impl g)")
    case Nil
    have off: "ai_curr (iter_off sd (ga_impl g)) = 0" by (simp add: iter_off_def)
    from bump_again [OF assms(1,4) this, of a sd h er] show ?thesis
      using assms(2,3) r bump_arc_new [OF assms(1) el, of sd ?h er] Nil off
      by (auto simp: meta_new_def arc_iter_is_over_def meta_next_def place_addrs_def)
  next
    case (Cons l rest)
    then have "l \<noteq> 0" using quiet_arc [OF assms(1), of l sd "ga_impl g"] by auto
    then show ?thesis
      using assms(2,3,4) r bump_arc_new [OF assms(1) el, of sd ?h er] Cons
      by (auto simp: meta_new_def arc_iter_is_over_def place_addrs_def intro!: meta_holds_onI)
  qed
qed

lemma meta_holds_over: "meta_holds sd ss W w0 xs m w \<Longrightarrow> meta_is_over m \<longleftrightarrow> xs = []"
  by (auto simp: meta_holds_def meta_is_over_def split: option.splits)

lemma meta_holds_value:
  assumes "quiet W" "meta_holds sd ss W w0 (x # xs) m w"
  shows "meta_value m k = (if k = 0 then mi_from m else if k = 1 then x else 0)"
proof -
  obtain ll pre l rest where "mi_iter m = Some (iter_on W sd ll l)" "vA sd W ll = pre @ l # rest" "x = arc_addr W l"
    using assms(2) by (auto simp: meta_holds_def split: option.splits)
  moreover from this have "l \<noteq> 0" using quiet_arc [OF assms(1), of l sd ll] by auto
  ultimately show ?thesis by (auto simp: meta_value_def arc_iter_value_def arc_iter_is_over_def)
qed

lemma meta_holds_next:
  assumes "quiet W" "meta_holds sd ss W w0 (x # xs) m w"
  shows "\<exists>rv m' w'. meta_next sd m w = Some (rv, m', w') \<and> mi_from m' = mi_from m \<and> meta_holds sd ss W w0 xs m' w'"
proof -
  let ?base = "{#K_addr (mi_from m), K_session ss#}"
  obtain h er ll pre l rest where m: "mi_iter m = Some (iter_on W sd ll l)" "vA sd W ll = pre @ l # rest"
    "x # xs = map (arc_addr W) (l # rest) @ arcs_left ss sd W (mi_links m)" "w0 = bump h er W"
    "w = bump (arc_refs W l + (?base + h)) er W"
    and st: "mi_session m = ss" "wd_addrs W (mi_from m) \<noteq> None" "wd_sessions W ss \<noteq> None" "links_known ss W (mi_links m)"
    using assms(2) by (auto simp: meta_holds_def split: option.splits)
  have l0: "l \<noteq> 0" using quiet_arc [OF assms(1), of l sd ll] m(2) by auto
  note nx = bump_arc_next [OF assms(1) m(2), of "?base + h" er]
  show ?thesis
  proof (cases rest)
    case Nil
    have off: "ai_curr (iter_off sd ll) = 0" by (simp add: iter_off_def)
    from bump_again [OF assms(1) st(4) this st(2,3), of sd h er] obtain rv ls' it' w' where
      ag: "meta_again sd ss (mi_links m) (iter_off sd ll) (bump (?base + h) er W) = Some (rv, ls', it', w')"
      "meta_holds sd ss W (bump h er W) (arcs_left ss sd W (mi_links m)) \<lparr>mi_links = ls', mi_iter = it', mi_from = mi_from m, mi_session = ss\<rparr> w'"
      by (elim exE conjE)
    have eq: "m\<lparr>mi_links := ls', mi_iter := it'\<rparr> = \<lparr>mi_links = ls', mi_iter = it', mi_from = mi_from m, mi_session = ss\<rparr>"
      using st(1) by (cases m) simp
    from ag [folded eq] show ?thesis using m nx Nil l0 off st(1) by (simp add: meta_next_def arc_iter_is_over_def)
  next
    case (Cons k ks)
    then have "k \<noteq> 0" using quiet_arc [OF assms(1), of k sd ll] m(2) by auto
    moreover have "meta_holds sd ss W w0 xs (m\<lparr>mi_iter := Some (iter_on W sd ll k)\<rparr>) (bump (arc_refs W k + (?base + h)) er W)"
      using m st Cons by (auto intro!: meta_holds_onI [of _ _ _ _ _ "pre @ [l]" ks])
    ultimately show ?thesis using m nx Cons l0 by (auto simp: meta_next_def arc_iter_is_over_def)
  qed
qed

text \<open>The iterator can be deleted at any time.\<close>

lemma meta_holds_delete:
  assumes "quiet W" "meta_holds sd ss W w0 xs m w"
  shows "meta_delete m w = Some w0"
proof -
  let ?base = "{#K_addr (mi_from m), K_session ss#}"
  obtain h er where w0: "w0 = bump h er W" "mi_session m = ss" "wd_addrs W (mi_from m) \<noteq> None" "wd_sessions W ss \<noteq> None"
    and w: "(do { w \<leftarrow> (case mi_iter m of None \<Rightarrow> Some w | Some it \<Rightarrow> arc_iter_delete it w); F w }) = F (bump (?base + h) er W)"
    for F :: "world \<Rightarrow> world option"
  proof -
    obtain h er where *: "w0 = bump h er W" "case mi_iter m of
           None \<Rightarrow> xs = [] \<and> w = bump (?base + h) er W
         | Some it \<Rightarrow> (\<exists>ll pre l rest. it = iter_on W sd ll l \<and> vA sd W ll = pre @ l # rest \<and>
             xs = map (arc_addr W) (l # rest) @ arcs_left ss sd W (mi_links m) \<and>
             w = bump (arc_refs W l + (?base + h)) er W)"
      using assms(2) by (auto simp: meta_holds_def)
    have "(case mi_iter m of None \<Rightarrow> Some w | Some it \<Rightarrow> arc_iter_delete it w) = Some (bump (?base + h) er W)"
    proof (cases "mi_iter m")
      case (Some it)
      then obtain ll pre l rest where "it = iter_on W sd ll l" "vA sd W ll = pre @ l # rest" "w = bump (arc_refs W l + (?base + h)) er W"
        using *(2) by auto
      then show ?thesis using Some bump_arc_delete [OF assms(1), of l sd ll "?base + h" er] by simp
    qed (use *(2) in simp)
    then show ?thesis using that * assms(2) by (auto simp: meta_holds_def)
  qed
  show ?thesis
    using w0 bump_session_unref [OF assms(1) w0(4), of h er] bump_addr_unref [OF assms(1) w0(3), of "{#K_session ss#} + h" er]
    by (simp add: meta_delete_def w)
qed

end
