(* ===== verification/Constr_World.thy ===== *)
theory Constr_World
  imports Fallback_Props World_Refs
begin

text \<open>
  Search constraints over the memory. The interpreter asks the session for iterators over the arcs of
  an element (\<open>sc_session::create_iterator\<close> of \<open>sc_core.cpp\<close>) and calls the standard filters and
  functions of \<open>libsc/libsc/std_constraints.cpp.in\<close>, which read the memory through the system
  session. In a quiet memory they keep the contract of \<open>constraint_provider\<close>, so a program gives
  exactly its answers and leaves the memory as it was but for the error codes of sessions.
\<close>

section \<open>Filters and functions\<close>

definition arg :: "cparam list \<Rightarrow> nat \<Rightarrow> cparam option" where
  "arg as k = (if k < length as then Some (as ! k) else None)"

definition filter_check_type :: "nat \<Rightarrow> cparam list \<Rightarrow> world \<Rightarrow> (bool \<times> world) option" where
  "filter_check_type sys as w =
     do {
       x \<leftarrow> arg as 1; m \<leftarrow> p_type x;
       y \<leftarrow> arg as 0; a \<leftarrow> p_addr y;
       (t, w) \<leftarrow> get_type sys a w;
       Some (check_sc_type t m, w)
     }"

definition filter_equal_with_d :: "cparam list \<Rightarrow> world \<Rightarrow> (bool \<times> world) option" where
  "filter_equal_with_d as w =
     do {
       x \<leftarrow> arg as 0; a1 \<leftarrow> p_addr x;
       x \<leftarrow> arg as 1; a2 \<leftarrow> p_addr x;
       x \<leftarrow> arg as 2; d \<leftarrow> p_int x;
       x \<leftarrow> arg as 3; m \<leftarrow> p_type x;
       (if d \<noteq> 0 then Some (a1 = a2, w)
        else do { g \<leftarrow> wd_addrs w a2; t \<leftarrow> sg_get_type (ga_impl g) w; Some (check_sc_type t m, w) })
     }"

definition filter_equal2 :: "cparam list \<Rightarrow> world \<Rightarrow> (bool \<times> world) option" where
  "filter_equal2 as w =
     do { x \<leftarrow> arg as 0; a1 \<leftarrow> p_addr x; x \<leftarrow> arg as 1; a2 \<leftarrow> p_addr x; Some (a1 = a2, w) }"

definition filter_differ :: "cparam list \<Rightarrow> world \<Rightarrow> (bool \<times> world) option" where
  "filter_differ as w =
     do { x \<leftarrow> arg as 0; a1 \<leftarrow> p_addr x; x \<leftarrow> arg as 1; a2 \<leftarrow> p_addr x; Some (a1 \<noteq> a2, w) }"

text \<open>\<open>in_set s e\<close> looks for an arc from \<open>s\<close> to \<open>e\<close>; for a null set both filters
  hold.\<close>

definition filter_is_in_set ::
  "(nat \<Rightarrow> nat \<Rightarrow> world \<Rightarrow> (bool \<times> world) option) \<Rightarrow> cparam list \<Rightarrow> world \<Rightarrow> (bool \<times> world) option" where
  "filter_is_in_set in_set as w =
     do {
       x \<leftarrow> arg as 0; s \<leftarrow> p_addr x; x \<leftarrow> arg as 1; e \<leftarrow> p_addr x;
       (if s = 0 then Some (True, w) else in_set s e w)
     }"

definition filter_not_in_set ::
  "(nat \<Rightarrow> nat \<Rightarrow> world \<Rightarrow> (bool \<times> world) option) \<Rightarrow> cparam list \<Rightarrow> world \<Rightarrow> (bool \<times> world) option" where
  "filter_not_in_set in_set as w =
     do {
       x \<leftarrow> arg as 0; s \<leftarrow> p_addr x; x \<leftarrow> arg as 1; e \<leftarrow> p_addr x;
       (if s = 0 then Some (True, w) else do { (b, w) \<leftarrow> in_set s e w; Some (\<not> b, w) })
     }"

definition world_filter ::
  "(nat \<Rightarrow> nat \<Rightarrow> world \<Rightarrow> (bool \<times> world) option) \<Rightarrow> nat \<Rightarrow> string \<Rightarrow> cparam list \<Rightarrow> world \<Rightarrow> (bool \<times> world) option" where
  "world_filter in_set sys nm as w =
     (if nm = ''check_type'' then filter_check_type sys as w
      else if nm = ''equal2'' then filter_equal2 as w
      else if nm = ''equal_with_d'' then filter_equal_with_d as w
      else if nm = ''is_in_set'' then filter_is_in_set in_set as w
      else if nm = ''not_in_set'' then filter_not_in_set in_set as w
      else if nm = ''differ'' then filter_differ as w
      else None)"

definition func_get_beg :: "nat \<Rightarrow> cparam list \<Rightarrow> world \<Rightarrow> (sc_retval \<times> cparam \<times> world) option" where
  "func_get_beg sys as w =
     do {
       x \<leftarrow> arg as 0; a \<leftarrow> p_addr x;
       (b, w) \<leftarrow> get_beg sys a w;
       Some (if b = 0 then RV_ERR_GEN else RV_OK, P_addr b, w)
     }"

definition func_get_end :: "nat \<Rightarrow> cparam list \<Rightarrow> world \<Rightarrow> (sc_retval \<times> cparam \<times> world) option" where
  "func_get_end sys as w =
     do {
       x \<leftarrow> arg as 0; a \<leftarrow> p_addr x;
       (b, w) \<leftarrow> get_end sys a w;
       Some (if b = 0 then RV_ERR_GEN else RV_OK, P_addr b, w)
     }"

definition world_func :: "nat \<Rightarrow> string \<Rightarrow> cparam list \<Rightarrow> world \<Rightarrow> (sc_retval \<times> cparam \<times> world) option" where
  "world_func sys nm as w =
     (if nm = ''get_beg'' then func_get_beg sys as w
      else if nm = ''get_end'' then func_get_end sys as w
      else if nm = ''get_cpa'' then Some (RV_OK, P_type (SC_CONST OR SC_POS OR SC_ARC_ACCESSORY), w)
      else if nm = ''get_cna'' then Some (RV_OK, P_type (SC_CONST OR SC_NEG OR SC_ARC_ACCESSORY), w)
      else if nm = ''get_0'' then Some (RV_OK, P_int 0, w)
      else None)"

section \<open>The environment of the interpreter\<close>

text \<open>\<open>create_iterator\<close> for the two primitive constraints. The interpreter asks for nothing else: other
  constraints are inlined when a program is registered.\<close>

definition all_side :: "registry \<Rightarrow> int \<Rightarrow> side option" where
  "all_side rg c =
     (if c = find_holder_id_by_name ''all_input'' rg then Some End
      else if c = find_holder_id_by_name ''all_output'' rg then Some Beg
      else None)"

definition create_all :: "registry \<Rightarrow> nat \<Rightarrow> int \<Rightarrow> cparam list \<Rightarrow> world \<Rightarrow> ((side \<times> meta_iter) \<times> world) option" where
  "create_all rg ss c as w =
     do {
       sd \<leftarrow> all_side rg c;
       x \<leftarrow> arg as 0; a \<leftarrow> p_addr x;
       (m, w) \<leftarrow> meta_new sd a ss w;
       Some ((sd, m), w)
     }"

definition world_env ::
  "registry \<Rightarrow> nat \<Rightarrow> nat \<Rightarrow> (nat \<Rightarrow> nat \<Rightarrow> world \<Rightarrow> (bool \<times> world) option) \<Rightarrow> (side \<times> meta_iter, world) cenv" where
  "world_env rg ss sys in_set =
     \<lparr>ce_registry = rg,
      ce_new = create_all rg ss,
      ce_next = (\<lambda>(sd, m) w. do { (_, m, w) \<leftarrow> meta_next sd m w; Some ((sd, m), w) }),
      ce_over = (\<lambda>(sd, m). meta_is_over m),
      ce_value = (\<lambda>(sd, m). meta_value m),
      ce_delete = (\<lambda>(sd, m). meta_delete m),
      ce_filter = (\<lambda>c as w. do { nm \<leftarrow> get_filter c rg; world_filter in_set sys nm as w }),
      ce_func = (\<lambda>c as w. do { nm \<leftarrow> get_function c rg; world_func sys nm as w }),
      ce_ref = addr_ref,
      ce_unref = addr_unref,
      ce_opened = (\<lambda>a w. do { s \<leftarrow> addr_seg a w; session_opened ss s w }),
      ce_set = (\<lambda>_ _. None),
      ce_session_ref = session_ref ss,
      ce_session_unref = session_unref ss\<rparr>"

text \<open>The search for an arc by the filters, an iterator that is deleted after its first answer.\<close>

definition no_set :: "nat \<Rightarrow> nat \<Rightarrow> world \<Rightarrow> (bool \<times> world) option" where
  "no_set s e w = None"

definition find_arc :: "registry \<Rightarrow> nat \<Rightarrow> nat \<Rightarrow> nat \<Rightarrow> world \<Rightarrow> (bool \<times> world) option" where
  "find_arc rg sys s e w =
     do {
       let prm = [P_addr s, P_type (SC_A_CONST OR SC_POS), P_addr e];
       let E = world_env rg sys sys no_set;
       (plan, _) \<leftarrow> iterator_plan (\<lambda>a. map_option (\<lambda>_. False) (wd_addrs w a))
         (find_holder_id_by_name ''std3_faf'' rg) prm rg;
       (case plan of
          Plan_program d \<Rightarrow>
            do {
              (it, w) \<leftarrow> fb_start E d prm (replicate (dc_reg_cnt d) (P_addr (wd_junk w))) w;
              w' \<leftarrow> fb_delete E it w;
              Some (\<not> fb_over it, w')
            }
        | _ \<Rightarrow> None)
     }"

section \<open>What they mean\<close>

definition sees :: "nat \<Rightarrow> world \<Rightarrow> nat \<Rightarrow> bool" where
  "sees ss W a = (case wd_addrs W a of None \<Rightarrow> False | Some g \<Rightarrow> session_opened ss (ga_seg g) W = Some True)"

definition element_of :: "world \<Rightarrow> nat \<Rightarrow> element option" where
  "element_of W a = do { g \<leftarrow> wd_addrs W a; st_els W (ga_impl g) }"

definition type_seen :: "nat \<Rightarrow> world \<Rightarrow> nat \<Rightarrow> sc_type" where
  "type_seen ss W a =
     (if sees ss W a then (case element_of W a of None \<Rightarrow> 0 | Some e \<Rightarrow> el_type e) else word_of_int RV_ERR_GEN)"

definition end_seen :: "side \<Rightarrow> nat \<Rightarrow> world \<Rightarrow> nat \<Rightarrow> nat option" where
  "end_seen sd ss W a =
     do {
       e \<leftarrow> element_of W a;
       t \<leftarrow> st_els W (case sd of Beg \<Rightarrow> el_beg e | End \<Rightarrow> el_end e);
       (if sees ss W a \<and> el_type e AND SC_CONNECTOR_MASK \<noteq> 0 \<and> sees ss W (el_addr t) then Some (el_addr t) else None)
     }"

definition arcs_seen :: "side \<Rightarrow> nat \<Rightarrow> world \<Rightarrow> nat \<Rightarrow> nat list" where
  "arcs_seen sd ss W a =
     (case wd_addrs W a of None \<Rightarrow> [] | Some g \<Rightarrow> place_addrs sd W (ga_impl g) @ arcs_left ss sd W (ga_links g))"

definition arc_from_to :: "nat \<Rightarrow> world \<Rightarrow> sc_type \<Rightarrow> nat \<Rightarrow> nat \<Rightarrow> bool" where
  "arc_from_to ss W t s e =
     (\<exists>x \<in> set (arcs_seen End ss W e). end_seen Beg ss W x = Some s \<and> check_sc_type (type_seen ss W x) t)"

section \<open>The environment in a quiet memory\<close>

definition type_of :: "cparam \<Rightarrow> sc_type" where
  "type_of v = (case p_type v of Some t \<Rightarrow> t | None \<Rightarrow> 0)"

definition int_of :: "cparam \<Rightarrow> int" where
  "int_of v = (case p_int v of Some t \<Rightarrow> t | None \<Rightarrow> 0)"

definition is_addr :: "world \<Rightarrow> cparam \<Rightarrow> bool" where
  "is_addr W v \<longleftrightarrow> (case p_addr v of None \<Rightarrow> False | Some a \<Rightarrow> wd_addrs W a \<noteq> None)"

definition addr_or_null :: "world \<Rightarrow> cparam \<Rightarrow> bool" where
  "addr_or_null W v \<longleftrightarrow> (case p_addr v of None \<Rightarrow> False | Some a \<Rightarrow> a = 0 \<or> wd_addrs W a \<noteq> None)"

text \<open>Answers and conditions of filters and functions; \<open>k\<close> tells whether the search for an arc may be
  used.\<close>

definition filter_means :: "nat \<Rightarrow> world \<Rightarrow> string \<Rightarrow> cparam list \<Rightarrow> bool" where
  "filter_means sys W nm as \<longleftrightarrow>
     (if nm = ''check_type'' then check_sc_type (type_seen sys W (addr_of (as ! 0))) (type_of (as ! 1))
      else if nm = ''equal2'' then addr_of (as ! 0) = addr_of (as ! 1)
      else if nm = ''equal_with_d'' then
        (if int_of (as ! 2) \<noteq> 0 then addr_of (as ! 0) = addr_of (as ! 1)
         else check_sc_type (case element_of W (addr_of (as ! 1)) of None \<Rightarrow> 0 | Some e \<Rightarrow> el_type e) (type_of (as ! 3)))
      else if nm = ''is_in_set'' then
        addr_of (as ! 0) = 0 \<or> arc_from_to sys W (SC_A_CONST OR SC_POS) (addr_of (as ! 0)) (addr_of (as ! 1))
      else if nm = ''not_in_set'' then
        addr_of (as ! 0) = 0 \<or> \<not> arc_from_to sys W (SC_A_CONST OR SC_POS) (addr_of (as ! 0)) (addr_of (as ! 1))
      else addr_of (as ! 0) \<noteq> addr_of (as ! 1))"

definition filter_fit :: "bool \<Rightarrow> world \<Rightarrow> string \<Rightarrow> cparam list \<Rightarrow> bool" where
  "filter_fit k W nm as \<longleftrightarrow>
     (if nm = ''check_type'' then 2 \<le> length as \<and> addr_or_null W (as ! 0) \<and> p_type (as ! 1) \<noteq> None
      else if nm = ''equal2'' \<or> nm = ''differ'' then 2 \<le> length as \<and> p_addr (as ! 0) \<noteq> None \<and> p_addr (as ! 1) \<noteq> None
      else if nm = ''equal_with_d'' then
        4 \<le> length as \<and> p_addr (as ! 0) \<noteq> None \<and> is_addr W (as ! 1) \<and> p_int (as ! 2) \<noteq> None \<and> p_type (as ! 3) \<noteq> None
      else if nm = ''is_in_set'' \<or> nm = ''not_in_set'' then
        2 \<le> length as \<and> addr_or_null W (as ! 0) \<and> p_addr (as ! 1) \<noteq> None \<and>
        (addr_of (as ! 0) \<noteq> 0 \<longrightarrow> k \<and> is_addr W (as ! 1))
      else False)"

definition end_opened :: "side \<Rightarrow> nat \<Rightarrow> nat \<Rightarrow> world \<Rightarrow> nat \<Rightarrow> nat option" where
  "end_opened sd ss sys W a = do { b \<leftarrow> end_seen sd sys W a; if sees ss W b then Some b else None }"

definition func_means :: "nat \<Rightarrow> nat \<Rightarrow> world \<Rightarrow> string \<Rightarrow> cparam list \<Rightarrow> cparam option" where
  "func_means ss sys W nm as =
     (if nm = ''get_beg'' then map_option P_addr (end_opened Beg ss sys W (addr_of (as ! 0)))
      else if nm = ''get_end'' then map_option P_addr (end_opened End ss sys W (addr_of (as ! 0)))
      else if nm = ''get_cpa'' then Some (P_type (SC_CONST OR SC_POS OR SC_ARC_ACCESSORY))
      else if nm = ''get_cna'' then Some (P_type (SC_CONST OR SC_NEG OR SC_ARC_ACCESSORY))
      else Some (P_int 0))"

definition func_fit :: "world \<Rightarrow> string \<Rightarrow> cparam list \<Rightarrow> bool" where
  "func_fit W nm as \<longleftrightarrow>
     (if nm = ''get_beg'' \<or> nm = ''get_end'' then as \<noteq> [] \<and> addr_or_null W (as ! 0)
      else nm = ''get_cpa'' \<or> nm = ''get_cna'' \<or> nm = ''get_0'')"

definition world_sem :: "bool \<Rightarrow> registry \<Rightarrow> nat \<Rightarrow> nat \<Rightarrow> world \<Rightarrow> csem" where
  "world_sem k rg ss sys W =
     \<lparr>cs_src = (\<lambda>c as. case all_side rg c of None \<Rightarrow> []
          | Some sd \<Rightarrow> map (\<lambda>x. [addr_of (as ! 0), x]) (arcs_seen sd ss W (addr_of (as ! 0)))),
      cs_filter = (\<lambda>c as. case get_filter c rg of None \<Rightarrow> False | Some nm \<Rightarrow> filter_means sys W nm as),
      cs_func = (\<lambda>c as. case get_function c rg of None \<Rightarrow> None | Some nm \<Rightarrow> func_means ss sys W nm as),
      cs_set = (\<lambda>_. []),
      cs_src_ok = (\<lambda>c as. all_side rg c \<noteq> None \<and> length as = 1 \<and> is_addr W (as ! 0) \<and>
        (case get_info c rg of None \<Rightarrow> False | Some info \<Rightarrow> 1 \<le> length (cn_spec info))),
      cs_filter_ok = (\<lambda>c as. case get_filter c rg of None \<Rightarrow> False | Some nm \<Rightarrow> filter_fit k W nm as),
      cs_func_ok = (\<lambda>c as. case get_function c rg of None \<Rightarrow> False | Some nm \<Rightarrow> func_fit W nm as),
      cs_set_ok = (\<lambda>_. False)\<rparr>"

section \<open>Error codes do not matter\<close>

definition clear_errors :: "world \<Rightarrow> world" where
  "clear_errors w = w\<lparr>wd_sessions := (\<lambda>x. map_option (\<lambda>s. s\<lparr>ss_error := RV_OK\<rparr>) (wd_sessions w x))\<rparr>"

definition silent :: "world \<Rightarrow> world \<Rightarrow> bool" where
  "silent w w' \<longleftrightarrow> clear_errors w = clear_errors w'"

lemma silent_bump: "silent (bump h er W) (bump h er' W)"
  by (simp add: silent_def clear_errors_def bump_def option.map_comp comp_def)

lemma silent_bumpD:
  assumes "silent (bump h er W) w'"
  shows "\<exists>er'. w' = bump h er' W"
proof -
  have e: "clear_errors w' = clear_errors (bump h er W)" using assms by (simp add: silent_def)
  let ?er = "\<lambda>x. map_option ss_error (wd_sessions w' x)"
  have s: "wd_sessions w' x = wd_sessions (bump h ?er W) x" for x
  proof -
    have "map_option (\<lambda>s. s\<lparr>ss_error := RV_OK\<rparr>) (wd_sessions w' x) =
        map_option (\<lambda>s. s\<lparr>ss_error := RV_OK\<rparr>) (wd_sessions (bump h er W) x)"
      using arg_cong [OF e, of wd_sessions] by (simp add: clear_errors_def fun_eq_iff)
    then show ?thesis
    proof (cases "wd_sessions w' x")
      case (Some s')
      then obtain s where s: "wd_sessions W x = Some s"
        using \<open>map_option _ _ = map_option _ _\<close> by (cases "wd_sessions W x") auto
      have "s'\<lparr>ss_error := RV_OK\<rparr> = s\<lparr>ss_refcnt := ss_refcnt s + int (count h (K_session x)), ss_error := RV_OK\<rparr>"
        using \<open>map_option _ _ = map_option _ _\<close> Some s by simp
      then have "s'\<lparr>ss_error := RV_OK\<rparr>\<lparr>ss_error := ss_error s'\<rparr> =
          s\<lparr>ss_refcnt := ss_refcnt s + int (count h (K_session x)), ss_error := RV_OK\<rparr>\<lparr>ss_error := ss_error s'\<rparr>"
        by (rule arg_cong)
      then show ?thesis using Some s by simp
    qed (use \<open>map_option _ _ = map_option _ _\<close> in auto)
  qed
  have "w' = w'\<lparr>wd_sessions := wd_sessions w'\<rparr>" by simp
  also have "\<dots> = clear_errors w'\<lparr>wd_sessions := wd_sessions w'\<rparr>" by (simp add: clear_errors_def)
  also have "\<dots> = bump h ?er W"
    using s unfolding e by (intro world.equality) (auto simp: clear_errors_def fun_eq_iff bump_def simp del: bump_sel)
  finally show ?thesis by blast
qed

section \<open>Reading a quiet memory\<close>

lemma quiet_element:
  assumes "quiet W" "wd_addrs W a = Some g"
  shows "\<exists>e. st_els W (ga_impl g) = Some e \<and> el_addr e = a \<and> \<not> el_is_link e \<and> element_of W a = Some e"
  using quiet_gaddr [OF assms] quietD(5) [OF assms] assms(2) by (auto simp: gaddr_ok_def cells_def element_of_def)

lemma quiet_opened:
  assumes "quiet W" "wd_sessions W ss \<noteq> None" "st_segs W s \<noteq> None"
  shows "\<exists>b. session_opened ss s W = Some b"
  using quietD(1) [OF assms(1)] assms(2,3) by (fastforce simp: session_opened_def segset_is_set_def wd_inv_def)

lemma sees_known: "sees ss W a \<Longrightarrow> wd_addrs W a \<noteq> None"
  by (auto simp: sees_def split: option.splits)

lemma quiet_sees:
  assumes "quiet W" "wd_sessions W ss \<noteq> None" "wd_addrs W a = Some g"
  shows "session_opened ss (ga_seg g) W = Some (sees ss W a)"
  using quiet_opened [OF assms(1,2)] quiet_addr(4) [OF assms(1,3)] assms(3) by (force simp: sees_def)

lemma not_sees_0: "quiet W \<Longrightarrow> \<not> sees ss W 0"
  using quiet_addr(1) [of W 0] by (auto simp: sees_def split: option.splits)

lemma bump_access:
  assumes "quiet W" "wd_sessions W ss \<noteq> None" "a = 0 \<or> wd_addrs W a \<noteq> None"
  shows "\<exists>er'. access ss a (bump h er W) = Some (if sees ss W a then RV_OK else RV_ERR_GEN, bump h er' W)"
proof (cases "wd_addrs W a")
  case None
  then show ?thesis
    using assms(2,3) not_sees_0 [OF assms(1), of ss] by (auto simp: access_def return_error_def bump_set_error simp del: bump_sel)
next
  case (Some g)
  then have "sees ss W a \<longleftrightarrow> session_opened ss (ga_seg g) W = Some True" by (simp add: sees_def)
  moreover obtain b where "session_opened ss (ga_seg g) W = Some b"
    using quiet_opened [OF assms(1,2)] quiet_addr(4) [OF assms(1) Some] by blast
  moreover have "wd_addrs (bump h er W) a = Some (g\<lparr>ga_refcnt := ga_refcnt g + int (count h (K_addr a))\<rparr>)" using Some by simp
  ultimately show ?thesis
    using Some assms(2) quiet_addr(1-3) [OF assms(1) Some] quietD(4) [OF assms(1) Some]
    by (auto simp: access_def return_error_def bump_set_error simp del: bump_sel(4,5))
qed

lemma bump_get_type:
  assumes "quiet W" "wd_sessions W ss \<noteq> None" "a = 0 \<or> wd_addrs W a \<noteq> None"
  shows "\<exists>er'. get_type ss a (bump h er W) = Some (type_seen ss W a, bump h er' W)"
proof -
  obtain er' where ac: "access ss a (bump h er W) = Some (if sees ss W a then RV_OK else RV_ERR_GEN, bump h er' W)"
    using bump_access [OF assms] by blast
  show ?thesis
  proof (cases "sees ss W a")
    case True
    then obtain g where g: "wd_addrs W a = Some g" using sees_known by blast
    moreover obtain e where "st_els W (ga_impl g) = Some e" "\<not> el_is_link e" "element_of W a = Some e"
      using quiet_element [OF assms(1) g] by blast
    ultimately show ?thesis using True ac assms(2)
      by (auto simp: get_type_def type_seen_def bump_set_error sg_get_type_def)
  qed (use ac in \<open>auto simp: get_type_def type_seen_def\<close>)
qed

lemma quiet_end:
  assumes "quiet W" "vT sd W b \<noteq> 0"
  shows "\<exists>t. st_els W (vT sd W b) = Some t \<and> (el_addr t = 0 \<or> wd_addrs W (el_addr t) \<noteq> None)"
proof -
  have i: "wd_inv W" "store_adj W" using quietD(1) [OF assms(1)] by (auto simp: wd_inv_def)
  have "vD W (vT sd W b)" using store_adjD(1) [OF i(2), of sd] adj_invD(5) [where T = "vT sd W" and a = b, OF _ assms(2)] by (auto simp: adj_ok_def)
  then obtain t where "st_els W (vT sd W b) = Some t" by (auto simp: vD_def)
  then show ?thesis using i(1) by (fastforce simp: wd_inv_def cells_def)
qed

definition get_arc_end :: "side \<Rightarrow> nat \<Rightarrow> nat \<Rightarrow> world \<Rightarrow> (nat \<times> world) option" where
  "get_arc_end sd ss a w = (case sd of Beg \<Rightarrow> get_beg ss a w | End \<Rightarrow> get_end ss a w)"

lemma bump_get_arc_end:
  assumes "quiet W" "wd_sessions W ss \<noteq> None" "a = 0 \<or> wd_addrs W a \<noteq> None"
  shows "\<exists>er'. get_arc_end sd ss a (bump h er W) =
    Some (case end_seen sd ss W a of None \<Rightarrow> 0 | Some b \<Rightarrow> b, bump h er' W)"
proof -
  obtain er1 where ac: "access ss a (bump h er W) = Some (if sees ss W a then RV_OK else RV_ERR_GEN, bump h er1 W)"
    using bump_access [OF assms] by blast
  show ?thesis
  proof (cases "sees ss W a")
    case False
    then have "end_seen sd ss W a = None" by (auto simp: end_seen_def bind_eq_None_conv)
    then show ?thesis using False ac by (cases sd) (auto simp: get_arc_end_def get_beg_def get_end_def)
  next
    case True
    then obtain g where g: "wd_addrs W a = Some g" using sees_known by blast
    obtain e where e: "st_els W (ga_impl g) = Some e" "\<not> el_is_link e" "element_of W a = Some e"
      using quiet_element [OF assms(1) g] by blast
    let ?ll = "vT sd W (ga_impl g)"
    have ll: "?ll = (case sd of Beg \<Rightarrow> el_beg e | End \<Rightarrow> el_end e)" using e(1) by (simp add: vT_def)
    have es: "end_seen sd ss W a = do { t \<leftarrow> st_els W ?ll;
        (if el_type e AND SC_CONNECTOR_MASK \<noteq> 0 \<and> sees ss W (el_addr t) then Some (el_addr t) else None) }"
      using e(3) True by (simp add: end_seen_def ll)
    consider (plain) "el_type e AND SC_CONNECTOR_MASK = 0" | (null) "el_type e AND SC_CONNECTOR_MASK \<noteq> 0" "?ll = 0"
      | (arc) "el_type e AND SC_CONNECTOR_MASK \<noteq> 0" "?ll \<noteq> 0" by blast
    then show ?thesis
    proof cases
      case plain
      then have "end_seen sd ss W a = None" using es by (auto simp: bind_eq_None_conv)
      then show ?thesis using plain True ac g e assms(2)
        by (cases sd) (auto simp: get_arc_end_def get_beg_def get_end_def sg_get_type_def fail_null_def bump_set_error)
    next
      case null
      have "\<not> vD W 0" using quietD(1) [OF assms(1)] adj_invD(8) [of "vD W"] by (auto simp: wd_inv_def store_adj_def adj_ok_def)
      then have "st_els W ?ll = None" using null(2) by (simp add: vD_def)
      then have "end_seen sd ss W a = None" using es by simp
      then show ?thesis using null ll True ac g e
        by (cases sd) (auto simp: get_arc_end_def get_beg_def get_end_def sg_get_type_def sg_get_beg_def sg_get_end_def)
    next
      case arc
      obtain t where t: "st_els W ?ll = Some t" "el_addr t = 0 \<or> wd_addrs W (el_addr t) \<noteq> None"
        using quiet_end [OF assms(1) arc(2)] by blast
      obtain er2 where "access ss (el_addr t) (bump h er1 W) = Some (if sees ss W (el_addr t) then RV_OK else RV_ERR_GEN, bump h er2 W)"
        using bump_access [OF assms(1,2) t(2)] by blast
      then show ?thesis using arc ll True ac g e t es
        by (cases sd) (auto simp: get_arc_end_def get_beg_def get_end_def sg_get_type_def sg_get_beg_def sg_get_end_def sg_get_element_addr_def)
    qed
  qed
qed

section \<open>The contract of the interpreter holds\<close>

definition arc_search_ok :: "(nat \<Rightarrow> nat \<Rightarrow> world \<Rightarrow> (bool \<times> world) option) \<Rightarrow> nat \<Rightarrow> world \<Rightarrow> bool" where
  "arc_search_ok in_set sys W \<longleftrightarrow>
     (\<forall>h er s e. wd_addrs W s \<noteq> None \<longrightarrow> wd_addrs W e \<noteq> None \<longrightarrow>
        (\<exists>er'. in_set s e (bump h er W) = Some (arc_from_to sys W (SC_A_CONST OR SC_POS) s e, bump h er' W)))"

definition world_ok ::
  "bool \<Rightarrow> (nat \<Rightarrow> nat \<Rightarrow> world \<Rightarrow> (bool \<times> world) option) \<Rightarrow> nat \<Rightarrow> nat \<Rightarrow> world \<Rightarrow> world \<Rightarrow> bool" where
  "world_ok k in_set ss sys W w \<longleftrightarrow> quiet W \<and> wd_sessions W ss \<noteq> None \<and> wd_sessions W sys \<noteq> None \<and>
     (k \<longrightarrow> arc_search_ok in_set sys W) \<and> (\<exists>h er. w = bump h er W)"

definition world_holds ::
  "bool \<Rightarrow> (nat \<Rightarrow> nat \<Rightarrow> world \<Rightarrow> (bool \<times> world) option) \<Rightarrow> nat \<Rightarrow> nat \<Rightarrow> world \<Rightarrow> world \<Rightarrow> nat list list \<Rightarrow>
   side \<times> meta_iter \<Rightarrow> world \<Rightarrow> bool" where
  "world_holds k in_set ss sys W w0 ts it w \<longleftrightarrow> world_ok k in_set ss sys W w0 \<and>
     (\<exists>xs. ts = map (\<lambda>x. [mi_from (snd it), x]) xs \<and> meta_holds (fst it) ss W w0 xs (snd it) w)"

lemma world_okD:
  assumes "world_ok k in_set ss sys W w"
  shows "quiet W" "wd_sessions W ss \<noteq> None" "wd_sessions W sys \<noteq> None" "\<exists>h er. w = bump h er W"
  using assms by (auto simp: world_ok_def)

lemma world_ok_bump: "world_ok k in_set ss sys W w \<Longrightarrow> world_ok k in_set ss sys W (bump h er W)"
  by (auto simp: world_ok_def)

lemma links_known_quiet:
  assumes "quiet W" "wd_sessions W ss \<noteq> None" "wd_addrs W a = Some g"
  shows "links_known ss W (ga_links g)"
  using quiet_addr(6) [OF assms(1,3)] quietD(6) [OF assms(1,3)] quiet_opened [OF assms(1,2)]
  by (fastforce simp: links_known_def)

lemma names_cases:
  "(if a then A else if b \<or> c then B else if d then D else if e \<or> f then F else False) \<Longrightarrow> a \<or> b \<or> c \<or> d \<or> e \<or> f"
  by (auto split: if_splits)

lemma world_filter_law:
  assumes "world_ok k in_set ss sys W (bump h er W)" "filter_fit k W nm as"
  shows "\<exists>er'. world_filter in_set sys nm as (bump h er W) = Some (filter_means sys W nm as, bump h er' W)"
proof -
  have q: "quiet W" "wd_sessions W sys \<noteq> None" using assms(1) by (simp_all add: world_ok_def)
  have set: "\<exists>er'. in_set s e (bump h er W) = Some (arc_from_to sys W (SC_A_CONST OR SC_POS) s e, bump h er' W)"
    if "k" "wd_addrs W s \<noteq> None" "wd_addrs W e \<noteq> None" for s e
    using that assms(1) by (auto simp: world_ok_def arc_search_ok_def)
  have a0: "p_addr v = Some a \<Longrightarrow> addr_of v = a" "p_type v = Some t \<Longrightarrow> type_of v = t" "p_int v = Some i \<Longrightarrow> int_of v = i" for v a t i
    by (simp_all add: addr_of_def type_of_def int_of_def)
  have "nm = ''check_type'' \<or> nm = ''equal2'' \<or> nm = ''differ'' \<or> nm = ''equal_with_d'' \<or> nm = ''is_in_set'' \<or> nm = ''not_in_set''"
    using assms(2) unfolding filter_fit_def by (rule names_cases)
  then consider "nm = ''check_type''" | "nm = ''equal2''" | "nm = ''differ''" | "nm = ''equal_with_d''" | "nm = ''is_in_set''"
    | "nm = ''not_in_set''" by argo
  then show ?thesis
  proof cases
    case 1
    then obtain a t where a: "p_addr (as ! 0) = Some a" "p_type (as ! 1) = Some t" "a = 0 \<or> wd_addrs W a \<noteq> None" "2 \<le> length as"
      using assms(2) by (auto simp: filter_fit_def addr_or_null_def split: option.splits)
    then show ?thesis using 1 bump_get_type [OF q a(3), of h er]
      by (auto simp: world_filter_def filter_check_type_def filter_means_def arg_def a0)
  next
    case 2
    then show ?thesis using assms(2)
      by (auto simp: filter_fit_def world_filter_def filter_equal2_def filter_means_def arg_def a0)
  next
    case 3
    then show ?thesis using assms(2)
      by (auto simp: filter_fit_def world_filter_def filter_differ_def filter_means_def arg_def a0)
  next
    case 4
    then obtain a1 a2 d t g where a: "p_addr (as ! 0) = Some a1" "p_addr (as ! 1) = Some a2" "p_int (as ! 2) = Some d"
      "p_type (as ! 3) = Some t" "wd_addrs W a2 = Some g" "4 \<le> length as"
      using assms(2) by (auto simp: filter_fit_def is_addr_def split: option.splits)
    obtain e where "st_els W (ga_impl g) = Some e" "\<not> el_is_link e" "element_of W a2 = Some e"
      using quiet_element [OF q(1) a(5)] by blast
    then show ?thesis using 4 a
      by (auto simp: world_filter_def filter_equal_with_d_def filter_means_def arg_def a0 sg_get_type_def)
  next
    case 5
    then obtain s e where a: "p_addr (as ! 0) = Some s" "p_addr (as ! 1) = Some e" "2 \<le> length as"
      "s \<noteq> 0 \<longrightarrow> k \<and> wd_addrs W s \<noteq> None \<and> wd_addrs W e \<noteq> None"
      using assms(2) by (auto simp: filter_fit_def addr_or_null_def is_addr_def a0 split: option.splits)
    then show ?thesis using 5 set [of s e]
      by (cases "s = 0") (auto simp: world_filter_def filter_is_in_set_def filter_means_def arg_def a0)
  next
    case 6
    then obtain s e where a: "p_addr (as ! 0) = Some s" "p_addr (as ! 1) = Some e" "2 \<le> length as"
      "s \<noteq> 0 \<longrightarrow> k \<and> wd_addrs W s \<noteq> None \<and> wd_addrs W e \<noteq> None"
      using assms(2) by (auto simp: filter_fit_def addr_or_null_def is_addr_def a0 split: option.splits)
    then show ?thesis using 6 set [of s e]
      by (cases "s = 0") (auto simp: world_filter_def filter_not_in_set_def filter_means_def arg_def a0)
  qed
qed

lemma get_function_end:
  "nm = (case sd of Beg \<Rightarrow> ''get_beg'' | End \<Rightarrow> ''get_end'') \<Longrightarrow> world_func sys nm as w =
    (do { x \<leftarrow> arg as 0; a \<leftarrow> p_addr x; (b, w) \<leftarrow> get_arc_end sd sys a w;
      Some (if b = 0 then RV_ERR_GEN else RV_OK, P_addr b, w) })"
  by (cases sd) (simp_all add: world_func_def func_get_beg_def func_get_end_def get_arc_end_def)

lemma end_seen_sees: "end_seen sd ss W a = Some b \<Longrightarrow> sees ss W b"
  by (auto simp: end_seen_def bind_eq_Some_conv split: if_splits)

lemma world_end_law:
  assumes "world_ok k in_set ss sys W (bump h er W)" "p_addr (as ! 0) = Some a" "a = 0 \<or> wd_addrs W a \<noteq> None" "as \<noteq> []"
    "nm = (case sd of Beg \<Rightarrow> ''get_beg'' | End \<Rightarrow> ''get_end'')"
  shows "\<exists>er'. world_func sys nm as (bump h er W) = Some (case end_seen sd sys W a of
      None \<Rightarrow> (RV_ERR_GEN, P_addr 0, bump h er' W) | Some b \<Rightarrow> (RV_OK, P_addr b, bump h er' W))"
proof -
  have q: "quiet W" "wd_sessions W sys \<noteq> None" using assms(1) by (simp_all add: world_ok_def)
  have "end_seen sd sys W a = Some b \<Longrightarrow> b \<noteq> 0" for b
    using end_seen_sees [of sd sys W a b] not_sees_0 [OF q(1), of sys] by (cases "b = 0") auto
  then show ?thesis using bump_get_arc_end [OF q assms(3), of sd h er] assms(2,4)
    by (auto simp: get_function_end [OF assms(5)] arg_def split: option.split)
qed

lemma opened_law:
  assumes "quiet W" "wd_sessions W ss \<noteq> None" "wd_addrs W b \<noteq> None"
  shows "(do { s \<leftarrow> addr_seg b (bump h er W); session_opened ss s (bump h er W) }) = Some (sees ss W b)"
  using quiet_sees [OF assms(1,2)] assms(3) by (auto simp: addr_seg_def)

lemma meta_holds_silent:
  assumes "meta_holds sd ss W w0 xs m w" "silent w w'"
  shows "\<exists>h er er'. w0 = bump h er W \<and> meta_holds sd ss W (bump h er' W) xs m w'"
proof -
  let ?base = "{#K_addr (mi_from m), K_session ss#}"
  obtain h er where h: "w0 = bump h er W" "mi_session m = ss" "wd_addrs W (mi_from m) \<noteq> None" "wd_sessions W ss \<noteq> None"
    "links_known ss W (mi_links m)" "case mi_iter m of
           None \<Rightarrow> xs = [] \<and> w = bump (?base + h) er W
         | Some it \<Rightarrow> (\<exists>ll pre l rest. it = iter_on W sd ll l \<and> vA sd W ll = pre @ l # rest \<and>
             xs = map (arc_addr W) (l # rest) @ arcs_left ss sd W (mi_links m) \<and>
             w = bump (arc_refs W l + (?base + h)) er W)"
    using assms(1) unfolding meta_holds_def by blast
  show ?thesis
  proof (cases "mi_iter m")
    case None
    then obtain er' where "w' = bump (?base + h) er' W" using h(6) assms(2) silent_bumpD by fastforce
    then have "meta_holds sd ss W (bump h er' W) xs m w'" using h None by (auto simp: meta_holds_def)
    then show ?thesis using h(1) by blast
  next
    case (Some it)
    then obtain ll pre l rest where l: "it = iter_on W sd ll l" "vA sd W ll = pre @ l # rest"
      "xs = map (arc_addr W) (l # rest) @ arcs_left ss sd W (mi_links m)" "w = bump (arc_refs W l + (?base + h)) er W"
      using h(6) by auto
    obtain er' where "w' = bump (arc_refs W l + (?base + h)) er' W" using l(4) assms(2) silent_bumpD by fastforce
    then have "meta_holds sd ss W (bump h er' W) xs m w'" using h Some l by (intro meta_holds_onI) auto
    then show ?thesis using h(1) by blast
  qed
qed

lemma end_name: "nm = ''get_beg'' \<or> nm = ''get_end'' \<Longrightarrow> \<exists>sd. nm = (case sd of Beg \<Rightarrow> ''get_beg'' | End \<Rightarrow> ''get_end'')"
  by (elim disjE) (rule exI [of _ Beg] exI [of _ End], simp)+

lemma world_func_Some:
  assumes "world_ok k in_set ss sys W w" "cs_func_ok (world_sem k rg ss sys W) c as" "cs_func (world_sem k rg ss sys W) c as = Some v"
  shows "\<exists>w'. ce_func (world_env rg ss sys in_set) c as w = Some (RV_OK, v, w') \<and> silent w w' \<and>
    over_page True v = over_page False v \<and>
    (over_page False v \<longrightarrow> (\<exists>a. v = P_addr a \<and> wd_addrs W a \<noteq> None \<and> ce_opened (world_env rg ss sys in_set) a w' = Some True))"
proof -
  obtain h er where w: "w = bump h er W" using world_okD(4) [OF assms(1)] by blast
  note ok = assms(1) [unfolded w]
  obtain nm where nm: "get_function c rg = Some nm" "func_fit W nm as" "func_means ss sys W nm as = Some v"
    using assms(2,3) by (auto simp: world_sem_def split: option.splits)
  then consider (arc) sd where "nm = (case sd of Beg \<Rightarrow> ''get_beg'' | End \<Rightarrow> ''get_end'')"
    | (const) "nm = ''get_cpa'' \<or> nm = ''get_cna'' \<or> nm = ''get_0''"
    using end_name [of nm] by (auto simp: func_fit_def split: if_splits)
  then show ?thesis
  proof cases
    case arc
    then obtain a where a: "p_addr (as ! 0) = Some a" "a = 0 \<or> wd_addrs W a \<noteq> None" "as \<noteq> []"
      using nm(2) by (cases sd) (auto simp: func_fit_def addr_or_null_def split: option.splits)
    obtain b where b: "v = P_addr b" "end_seen sd sys W a = Some b" "sees ss W b"
      using nm(3) arc a(1) by (cases sd) (auto simp: func_means_def end_opened_def addr_of_def bind_eq_Some_conv split: if_splits)
    have k: "wd_addrs W b \<noteq> None" by (rule sees_known [OF b(3)])
    obtain er' where "world_func sys nm as (bump h er W) = Some (RV_OK, P_addr b, bump h er' W)"
      using world_end_law [OF ok a arc] b(2) by auto
    then show ?thesis
      using w b nm(1) k opened_law [OF world_okD(1,2) [OF ok] k] silent_bump by (simp add: world_env_def del: bump_sel)
  next
    case const
    then show ?thesis
      by (elim disjE) (use nm(1,3) w in \<open>simp add: func_means_def world_func_def world_env_def silent_def sc_masks SC_ARCH_PAGESIZE_def\<close>,
        use nm(1,3) w in \<open>auto simp: func_means_def world_func_def world_env_def silent_def sc_masks SC_ARCH_PAGESIZE_def\<close>)+
  qed
qed

lemma world_func_None:
  assumes "world_ok k in_set ss sys W w" "cs_func_ok (world_sem k rg ss sys W) c as" "cs_func (world_sem k rg ss sys W) c as = None"
  shows "\<exists>rv v w'. ce_func (world_env rg ss sys in_set) c as w = Some (rv, v, w') \<and> silent w w' \<and>
    (rv \<noteq> RV_OK \<or> (\<exists>a. v = P_addr a \<and> a \<noteq> 0 \<and> ce_opened (world_env rg ss sys in_set) a w' = Some False))"
proof -
  obtain h er where w: "w = bump h er W" using world_okD(4) [OF assms(1)] by blast
  note ok = assms(1) [unfolded w]
  obtain nm where nm: "get_function c rg = Some nm" "func_fit W nm as" "func_means ss sys W nm as = None"
    using assms(2,3) by (auto simp: world_sem_def split: option.splits)
  then have "nm = ''get_beg'' \<or> nm = ''get_end''"
    by (auto simp: func_fit_def func_means_def split: if_splits)
  then obtain sd where arc: "nm = (case sd of Beg \<Rightarrow> ''get_beg'' | End \<Rightarrow> ''get_end'')"
    using end_name by blast
  then obtain a where a: "p_addr (as ! 0) = Some a" "a = 0 \<or> wd_addrs W a \<noteq> None" "as \<noteq> []"
    using nm(2) by (cases sd) (auto simp: func_fit_def addr_or_null_def split: option.splits)
  have n: "end_opened sd ss sys W a = None"
    using nm(3) arc a(1) by (cases sd) (auto simp: func_means_def addr_of_def)
  obtain er' where f: "world_func sys nm as (bump h er W) = Some (case end_seen sd sys W a of
      None \<Rightarrow> (RV_ERR_GEN, P_addr 0, bump h er' W) | Some b \<Rightarrow> (RV_OK, P_addr b, bump h er' W))"
    using world_end_law [OF ok a arc] by blast
  show ?thesis
  proof (cases "end_seen sd sys W a")
    case None
    then show ?thesis using f w nm(1) silent_bump by (simp add: world_env_def)
  next
    case (Some b)
    note see = end_seen_sees [OF Some]
    then have b: "wd_addrs W b \<noteq> None" "b \<noteq> 0" "\<not> sees ss W b"
      using sees_known [OF see] not_sees_0 [OF world_okD(1) [OF ok], of sys] n Some
      by (blast, cases "b = 0", simp, simp, simp add: end_opened_def split: if_splits)
    then show ?thesis
      using f w nm(1) Some opened_law [OF world_okD(1,2) [OF ok] b(1)] silent_bump by (simp add: world_env_def del: bump_sel)
  qed
qed

interpretation wp: constraint_provider "world_env rg ss sys in_set" "world_sem k rg ss sys W" "world_ok k in_set ss sys W" silent
  "world_holds k in_set ss sys W" "\<lambda>a. wd_addrs W a \<noteq> None" for rg ss sys in_set k W
proof unfold_locales
  fix w w' w0 w'' :: world and xs it x c as v a info
  let ?E = "world_env rg ss sys in_set" and ?S = "world_sem k rg ss sys W"
  let ?ok = "world_ok k in_set ss sys W" and ?holds = "world_holds k in_set ss sys W"
  show "silent w w" by (simp add: silent_def)
  show "silent w w' \<Longrightarrow> silent w' w" by (simp add: silent_def)
  show "silent w w' \<Longrightarrow> silent w' w'' \<Longrightarrow> silent w w''" by (simp add: silent_def)
  show "?ok w \<Longrightarrow> silent w w' \<Longrightarrow> ?ok w'"
    using silent_bumpD by (fastforce simp: world_ok_def)
  show "cs_src_ok ?S c as \<Longrightarrow> \<exists>info. get_info c (ce_registry ?E) = Some info \<and> length as \<le> length (cn_spec info)"
    by (auto simp: world_sem_def world_env_def split: option.splits)
  show "\<exists>it w'. ce_new ?E c as w = Some (it, w') \<and> ?holds w (cs_src ?S c as) it w'" if "?ok w" "cs_src_ok ?S c as"
  proof -
    note prem = that
    obtain h er where w: "w = bump h er W" using world_okD(4) [OF prem(1)] by blast
    obtain sd a g where as: "all_side rg c = Some sd" "length as = 1" "p_addr (as ! 0) = Some a" "wd_addrs W a = Some g"
      using prem(2) by (auto simp: world_sem_def is_addr_def split: option.splits)
    have q: "quiet W" "wd_sessions W ss \<noteq> None" using prem(1) by (simp_all add: world_ok_def)
    obtain m w' where "meta_new sd a ss (bump h er W) = Some (m, w')" "mi_from m = a"
      "meta_holds sd ss W (bump h er W) (place_addrs sd W (ga_impl g) @ arcs_left ss sd W (ga_links g)) m w'"
      using meta_holds_new [OF q(1) as(4) q(2) links_known_quiet [OF q as(4)]] by blast
    then show ?thesis using as prem(1) w
      by (intro exI [of _ "(sd, m)"] exI [of _ w'])
        (auto simp: world_env_def create_all_def world_sem_def world_holds_def arg_def addr_of_def arcs_seen_def
          intro!: exI [of _ "place_addrs sd W (ga_impl g) @ arcs_left ss sd W (ga_links g)"])
  qed
  show "?holds w0 xs it w \<Longrightarrow> ce_over ?E it \<longleftrightarrow> xs = []"
    using meta_holds_over by (fastforce simp: world_holds_def world_env_def split: prod.splits)
  show "ce_value ?E it j = tuple_value x j" if "?holds w0 (x # xs) it w" for x xs j
  proof -
    note prem = that
    obtain y ys where y: "x = [mi_from (snd it), y]" "meta_holds (fst it) ss W w0 (y # ys) (snd it) w"
      using prem by (auto simp: world_holds_def Cons_eq_map_conv)
    then show ?thesis using meta_holds_value [OF world_okD(1) y(2), of k in_set ss sys w0 j] prem
      by (cases it) (auto simp: world_holds_def world_env_def tuple_value_def less_Suc_eq numeral_2_eq_2)
  qed
  show "\<exists>it' w'. ce_next ?E it w = Some (it', w') \<and> ?holds w0 xs it' w'" if "?holds w0 (x # xs) it w" for x xs
  proof -
    note prem = that
    obtain y ys where y: "xs = map (\<lambda>x. [mi_from (snd it), x]) ys" "meta_holds (fst it) ss W w0 (y # ys) (snd it) w" "?ok w0"
      using prem by (auto simp: world_holds_def Cons_eq_map_conv)
    then obtain rv m' w' where "meta_next (fst it) (snd it) w = Some (rv, m', w')" "mi_from m' = mi_from (snd it)"
      "meta_holds (fst it) ss W w0 ys m' w'" using meta_holds_next [OF world_okD(1) y(2)] by blast
    then show ?thesis using y by (cases it) (auto simp: world_env_def world_holds_def)
  qed
  show "\<exists>w'. ce_delete ?E it w = Some w' \<and> silent w0 w'" if "?holds w0 [] it w"
    using that meta_holds_delete [OF world_okD(1)] by (cases it) (fastforce simp: world_holds_def world_env_def silent_def)
  show "?ok w" if "?holds w0 xs it w"
    using that by (auto simp: world_holds_def meta_holds_def split: option.splits intro!: world_ok_bump)
  show "\<exists>w0'. silent w0 w0' \<and> ?holds w0' xs it w'" if "?holds w0 xs it w" "silent w w'"
  proof -
    note prem = that
    obtain ys where y: "xs = map (\<lambda>x. [mi_from (snd it), x]) ys" "meta_holds (fst it) ss W w0 ys (snd it) w" "?ok w0"
      using prem(1) by (auto simp: world_holds_def)
    then obtain h er er' where "w0 = bump h er W" "meta_holds (fst it) ss W (bump h er' W) ys (snd it) w'"
      using meta_holds_silent [OF y(2) prem(2)] by blast
    then show ?thesis using y silent_bump world_ok_bump [OF y(3)] unfolding world_holds_def by blast
  qed
  show "\<exists>w'. ce_filter ?E c as w = Some (cs_filter ?S c as, w') \<and> silent w w'" if "?ok w" "cs_filter_ok ?S c as"
  proof -
    note prem = that
    obtain h er where w: "w = bump h er W" using world_okD(4) [OF prem(1)] by blast
    obtain nm where nm: "get_filter c rg = Some nm" "filter_fit k W nm as"
      using prem(2) by (auto simp: world_sem_def split: option.splits)
    then show ?thesis using world_filter_law [of k in_set ss sys W h er nm as] prem(1) w silent_bump
      by (fastforce simp: world_env_def world_sem_def)
  qed
  show "\<exists>w'. ce_ref ?E a w = Some w' \<and> ?ok w' \<and> (\<forall>w''. silent w' w'' \<longrightarrow> (\<exists>w1. ce_unref ?E a w'' = Some w1 \<and> silent w w1))"
    if "?ok w" "wd_addrs W a \<noteq> None"
  proof -
    note prem = that
    obtain h er where w: "w = bump h er W" using world_okD(4) [OF prem(1)] by blast
    show ?thesis unfolding w using bump_addr_ref [OF prem(2), of h er] bump_addr_unref [OF world_okD(1) [OF prem(1)] prem(2)]
      by (auto simp: world_env_def intro: world_ok_bump [OF prem(1)] silent_bump dest!: silent_bumpD)
  qed
  show "\<exists>w'. ce_session_ref ?E w = Some w' \<and> ?ok w' \<and>
      (\<forall>w''. silent w' w'' \<longrightarrow> (\<exists>w1. ce_session_unref ?E w'' = Some w1 \<and> silent w w1))" if "?ok w"
  proof -
    note prem = that
    obtain h er where w: "w = bump h er W" using world_okD(4) [OF prem] by blast
    show ?thesis unfolding w
      using bump_session_ref [OF world_okD(2) [OF prem], of h er] bump_session_unref [OF world_okD(1,2) [OF prem]]
      by (auto simp: world_env_def intro: world_ok_bump [OF prem] silent_bump dest!: silent_bumpD)
  qed
  show "\<exists>a. v = P_addr a \<and> a \<noteq> 0 \<and> ce_set ?E a w = Some (cs_set ?S v) \<and> (\<forall>x\<in>set (cs_set ?S v). wd_addrs W x \<noteq> None)"
    if "?ok w" "cs_set_ok ?S v" using that by (simp add: world_sem_def)
  show "\<exists>w'. ce_func ?E c as w = Some (RV_OK, v, w') \<and> silent w w' \<and> over_page True v = over_page False v \<and>
      (over_page False v \<longrightarrow> (\<exists>a. v = P_addr a \<and> wd_addrs W a \<noteq> None \<and> ce_opened ?E a w' = Some True))"
    if "?ok w" "cs_func_ok ?S c as" "cs_func ?S c as = Some v"
    by (rule world_func_Some [OF that])
  show "\<exists>rv v w'. ce_func ?E c as w = Some (rv, v, w') \<and> silent w w' \<and>
      (rv \<noteq> RV_OK \<or> (\<exists>a. v = P_addr a \<and> a \<noteq> 0 \<and> ce_opened ?E a w' = Some False))"
    if "?ok w" "cs_func_ok ?S c as" "cs_func ?S c as = None"
    by (rule world_func_None [OF that])
qed

end
