(* ===== verification/Std_Constraints.thy ===== *)
theory Std_Constraints
  imports Constr_World
begin

text \<open>
  The standard constraints (\<open>libsc/libsc/std_constraints.cpp.in\<close>): their programs as written there, with
  names for registers, the translation of names to numbers that the generator makes
  (\<open>libsc/utils/gen_constr.pl\<close>), and their registration by \<open>__init_std_constraints\<close>.
\<close>

section \<open>Programs with names\<close>

datatype gen_cmd =
  Constr string "string list" "string list" | Filter string "string list"
  | Func string "string list" "string list" | Return "string list"

record deconstr =
  ds_input :: "string list"
  ds_var :: "string list"
  ds_prg :: "gen_cmd list"

fun get_index :: "string \<Rightarrow> string list \<Rightarrow> nat \<Rightarrow> int" where
  "get_index x [] i = - 1"
| "get_index x (y # ys) i = (if y = x then int i else get_index x ys (i + 1))"

text \<open>\<open>translate_prm\<close>: an empty name is no register, an unknown one makes the generator die.\<close>

definition translate_prm :: "deconstr \<Rightarrow> string \<Rightarrow> int option" where
  "translate_prm d x =
     (if x = [] then Some (- 1)
      else let i = get_index x (ds_input d) 0 in
        if i \<noteq> - 1 then Some i
        else let j = get_index x (ds_var d) 0 in
          if j \<noteq> - 1 then Some (j + int (length (ds_input d))) else None)"

fun translate_prms :: "deconstr \<Rightarrow> string list \<Rightarrow> int list option" where
  "translate_prms d [] = Some []"
| "translate_prms d (x # xs) = do { k \<leftarrow> translate_prm d x; ks \<leftarrow> translate_prms d xs; Some (k # ks) }"

text \<open>The number of a command is filled in later; static data is zero.\<close>

definition translate_cmd :: "deconstr \<Rightarrow> gen_cmd \<Rightarrow> prg_item option" where
  "translate_cmd d c =
     (case c of
        Constr nm is os \<Rightarrow>
          do { i \<leftarrow> translate_prms d is; j \<leftarrow> translate_prms d os;
            Some \<lparr>pi_type = SCD_CONSTR, pi_in = i, pi_out = j, pi_name = Some nm, pi_id = 0\<rparr> }
      | Filter nm is \<Rightarrow>
          do { i \<leftarrow> translate_prms d is;
            Some \<lparr>pi_type = SCD_FILTER, pi_in = i, pi_out = [], pi_name = Some nm, pi_id = 0\<rparr> }
      | Func nm is os \<Rightarrow>
          do { i \<leftarrow> translate_prms d is; j \<leftarrow> translate_prms d os;
            Some \<lparr>pi_type = SCD_FUNC, pi_in = i, pi_out = j, pi_name = Some nm, pi_id = 0\<rparr> }
      | Return is \<Rightarrow>
          do { i \<leftarrow> translate_prms d is;
            Some \<lparr>pi_type = SCD_RETURN, pi_in = i, pi_out = [], pi_name = None, pi_id = 0\<rparr> })"

fun translate_cmds :: "deconstr \<Rightarrow> gen_cmd list \<Rightarrow> prg_item list option" where
  "translate_cmds d [] = Some []"
| "translate_cmds d (c # cs) = do { x \<leftarrow> translate_cmd d c; xs \<leftarrow> translate_cmds d cs; Some (x # xs) }"

definition translate :: "deconstr \<Rightarrow> deconstruct option" where
  "translate d =
     do {
       cs \<leftarrow> translate_cmds d (ds_prg d);
       Some \<lparr>dc_input_cnt = length (ds_input d), dc_reg_cnt = length (ds_var d), dc_commands = cs\<rparr>
     }"

section \<open>The constraints and their programs\<close>

definition std_specs :: "(string \<times> param_spec list) list" where
  "std_specs =
    [(''all_input'', [SC_PD_ADDR]),
     (''all_output'', [SC_PD_ADDR]),
     (''arc_type_input'', [SC_PD_TYPE, SC_PD_ADDR]),
     (''arc_type_output'', [SC_PD_ADDR, SC_PD_TYPE]),
     (''std3_faa'', [SC_PD_ADDR, SC_PD_TYPE, SC_PD_TYPE]),
     (''std3_faf'', [SC_PD_ADDR, SC_PD_TYPE, SC_PD_ADDR]),
     (''std3_aaf'', [SC_PD_TYPE, SC_PD_TYPE, SC_PD_ADDR]),
     (''std3_dfd'', [SC_PD_ADDR_0, SC_PD_INT, SC_PD_TYPE, SC_PD_ADDR, SC_PD_TYPE, SC_PD_ADDR_0, SC_PD_INT, SC_PD_TYPE]),
     (''std5_faaaa'', [SC_PD_ADDR, SC_PD_TYPE, SC_PD_TYPE, SC_PD_TYPE, SC_PD_TYPE]),
     (''std5_faaaf'', [SC_PD_ADDR, SC_PD_TYPE, SC_PD_TYPE, SC_PD_TYPE, SC_PD_ADDR]),
     (''std5_fafaa'', [SC_PD_ADDR, SC_PD_TYPE, SC_PD_ADDR, SC_PD_TYPE, SC_PD_TYPE]),
     (''std5_fafaf'', [SC_PD_ADDR, SC_PD_TYPE, SC_PD_ADDR, SC_PD_TYPE, SC_PD_ADDR]),
     (''std5_aaaaf'', [SC_PD_TYPE, SC_PD_TYPE, SC_PD_TYPE, SC_PD_TYPE, SC_PD_ADDR]),
     (''std5_aafaa'', [SC_PD_TYPE, SC_PD_TYPE, SC_PD_ADDR, SC_PD_TYPE, SC_PD_TYPE]),
     (''std5_aafaf'', [SC_PD_TYPE, SC_PD_TYPE, SC_PD_ADDR, SC_PD_TYPE, SC_PD_ADDR]),
     (''std_ord_bin_conn1'', [SC_PD_ADDR, SC_PD_TYPE, SC_PD_TYPE, SC_PD_TYPE, SC_PD_ADDR, SC_PD_TYPE, SC_PD_TYPE, SC_PD_TYPE, SC_PD_ADDR, SC_PD_TYPE, SC_PD_ADDR]),
     (''std_ord_bin_conn1_def'', [SC_PD_ADDR, SC_PD_TYPE, SC_PD_TYPE, SC_PD_TYPE, SC_PD_ADDR, SC_PD_TYPE, SC_PD_TYPE, SC_PD_TYPE, SC_PD_ADDR]),
     (''std_ord_bin_conn2'', [SC_PD_ADDR, SC_PD_TYPE, SC_PD_TYPE, SC_PD_TYPE, SC_PD_ADDR, SC_PD_TYPE, SC_PD_ADDR, SC_PD_TYPE, SC_PD_ADDR, SC_PD_TYPE, SC_PD_ADDR]),
     (''std3l2_faaaf'', [SC_PD_ADDR, SC_PD_TYPE, SC_PD_TYPE, SC_PD_TYPE, SC_PD_ADDR]),
     (''std5_3_aaaafaf'', [SC_PD_TYPE, SC_PD_TYPE, SC_PD_TYPE, SC_PD_TYPE, SC_PD_ADDR, SC_PD_TYPE, SC_PD_ADDR]),
     (''std_in_set'', [SC_PD_ADDR, SC_PD_TYPE]),
     (''std_sely3_p1'', [SC_PD_ADDR, SC_PD_TYPE, SC_PD_ADDR_0, SC_PD_TYPE, SC_PD_ADDR_0, SC_PD_TYPE]),
     (''std_sely3_u1p2'', [SC_PD_TYPE, SC_PD_ADDR, SC_PD_TYPE, SC_PD_ADDR_0, SC_PD_TYPE]),
     (''std_sely3_u1u2p3'', [SC_PD_TYPE, SC_PD_TYPE, SC_PD_ADDR, SC_PD_TYPE]),
     (''std_sely5_p1'', [SC_PD_ADDR, SC_PD_TYPE, SC_PD_ADDR_0, SC_PD_TYPE, SC_PD_ADDR_0, SC_PD_TYPE, SC_PD_ADDR_0, SC_PD_TYPE, SC_PD_ADDR_0, SC_PD_TYPE]),
     (''std_sely5_u1p2'', [SC_PD_TYPE, SC_PD_ADDR, SC_PD_TYPE, SC_PD_ADDR_0, SC_PD_TYPE, SC_PD_ADDR_0, SC_PD_TYPE, SC_PD_ADDR_0, SC_PD_TYPE]),
     (''std_sely5_u1u2p3'', [SC_PD_TYPE, SC_PD_TYPE, SC_PD_ADDR, SC_PD_TYPE, SC_PD_ADDR_0, SC_PD_TYPE, SC_PD_ADDR_0, SC_PD_TYPE]),
     (''std_sely5_u1u2u3p4'', [SC_PD_TYPE, SC_PD_TYPE, SC_PD_TYPE, SC_PD_ADDR, SC_PD_TYPE, SC_PD_ADDR_0, SC_PD_TYPE]),
     (''std_sely5_u1u2u3u4p5'', [SC_PD_TYPE, SC_PD_TYPE, SC_PD_TYPE, SC_PD_TYPE, SC_PD_ADDR, SC_PD_TYPE]),
     (''std_intersect2'', [SC_PD_ADDR, SC_PD_TYPE, SC_PD_TYPE, SC_PD_TYPE, SC_PD_ADDR]),
     (''std_bin_conn_unord1'', [SC_PD_ADDR, SC_PD_TYPE, SC_PD_TYPE, SC_PD_TYPE, SC_PD_ADDR, SC_PD_TYPE, SC_PD_TYPE]),
     (''std_3l2_5faaaf'', [SC_PD_ADDR, SC_PD_ADDR, SC_PD_ADDR, SC_PD_ADDR, SC_PD_ADDR]),
     (''std_4ln5_faaaaaffa'', [SC_PD_ADDR, SC_PD_ADDR, SC_PD_ADDR]),
     (''std_4l5_faaaaaffa'', [SC_PD_ADDR, SC_PD_ADDR, SC_PD_ADDR]),
     (''std_ord_bin_conn1a'', [SC_PD_ADDR, SC_PD_TYPE, SC_PD_TYPE, SC_PD_TYPE, SC_PD_ADDR, SC_PD_TYPE, SC_PD_TYPE, SC_PD_ADDR, SC_PD_TYPE]),
     (''std_on_segment'', [SC_PD_SEGMENT, SC_PD_BOOLEAN])]"

definition dec_arc_type_input :: deconstr where
  "dec_arc_type_input =
     \<lparr>ds_input = [''t1'', ''e2''], ds_var = [''r1''],
      ds_prg = [
        Constr ''all_input'' [''e2''] ['''', ''r1''], Filter ''check_type'' [''r1'', ''t1''],
        Return [''r1'', ''e2'']
      ]\<rparr>"

definition dec_arc_type_output :: deconstr where
  "dec_arc_type_output =
     \<lparr>ds_input = [''e1'', ''t2''], ds_var = [''r2''],
      ds_prg = [
        Constr ''all_output'' [''e1''] ['''', ''r2''], Filter ''check_type'' [''r2'', ''t2''],
        Return [''e1'', ''r2'']
      ]\<rparr>"

definition dec_std3_faa :: deconstr where
  "dec_std3_faa =
     \<lparr>ds_input = [''e1'', ''t2'', ''t3''], ds_var = [''e2'', ''e3''],
      ds_prg = [
        Constr ''arc_type_output'' [''e1'', ''t2''] ['''', ''e2''], Func ''get_end'' [''e2''] [''e3''],
        Filter ''check_type'' [''e3'', ''t3''], Return [''e1'', ''e2'', ''e3'']
      ]\<rparr>"

definition dec_std3_faf :: deconstr where
  "dec_std3_faf =
     \<lparr>ds_input = [''e1'', ''t2'', ''e3''], ds_var = [''e2'', ''ce1''],
      ds_prg = [
        Constr ''all_input'' [''e3''] ['''', ''e2''], Func ''get_beg'' [''e2''] [''ce1''],
        Filter ''equal2'' [''e1'', ''ce1''], Filter ''check_type'' [''e2'', ''t2''],
        Return [''e1'', ''e2'', ''e3'']
      ]\<rparr>"

definition dec_std3_aaf :: deconstr where
  "dec_std3_aaf =
     \<lparr>ds_input = [''t1'', ''t2'', ''e3''], ds_var = [''e1'', ''e2''],
      ds_prg = [
        Constr ''arc_type_input'' [''t2'', ''e3''] [''e2''], Func ''get_beg'' [''e2''] [''e1''],
        Filter ''check_type'' [''e1'', ''t1''], Return [''e1'', ''e2'', ''e3'']
      ]\<rparr>"

definition dec_std3_dfd :: deconstr where
  "dec_std3_dfd =
     \<lparr>ds_input = [''e1'', ''d1'', ''t1'', ''e2'', ''t2'', ''e3'', ''d3'', ''t3''], ds_var = [''ce1'', ''ce3''],
      ds_prg = [
        Filter ''check_type'' [''e2'', ''t2''], Func ''get_beg'' [''e2''] [''ce1''],
        Filter ''equal_with_d'' [''e1'', ''ce1'', ''d1'', ''t1''], Func ''get_end'' [''e2''] [''ce3''],
        Filter ''equal_with_d'' [''e3'', ''ce3'', ''d3'', ''t3''], Return [''ce1'', ''e2'', ''ce3'']
      ]\<rparr>"

definition dec_std5_faaaa :: deconstr where
  "dec_std5_faaaa =
     \<lparr>ds_input = [''e1'', ''t2'', ''t3'', ''t4'', ''t5''], ds_var = [''e2'', ''e3'', ''e4'', ''e5''],
      ds_prg = [
        Constr ''std3_faa'' [''e1'', ''t2'', ''t3''] ['''', ''e2'', ''e3''],
        Constr ''std3_aaf'' [''t5'', ''t4'', ''e2''] [''e5'', ''e4''],
        Return [''e1'', ''e2'', ''e3'', ''e4'', ''e5'']
      ]\<rparr>"

definition dec_std5_faaaf :: deconstr where
  "dec_std5_faaaf =
     \<lparr>ds_input = [''e1'', ''t2'', ''t3'', ''t4'', ''e5''], ds_var = [''e2'', ''e3'', ''e4'', ''ce5''],
      ds_prg = [
        Constr ''all_output'' [''e1''] ['''', ''e2''], Filter ''check_type'' [''e2'', ''t2''],
        Func ''get_end'' [''e2''] [''e3''], Filter ''check_type'' [''e3'', ''t3''],
        Constr ''all_input'' [''e2''] ['''', ''e4''], Filter ''check_type'' [''e4'', ''t4''],
        Func ''get_beg'' [''e4''] [''ce5''], Filter ''equal2'' [''e5'', ''ce5''],
        Return [''e1'', ''e2'', ''e3'', ''e4'', ''e5'']
      ]\<rparr>"

definition dec_std5_fafaa :: deconstr where
  "dec_std5_fafaa =
     \<lparr>ds_input = [''e1'', ''t2'', ''e3'', ''t4'', ''t5''], ds_var = [''e2'', ''e4'', ''e5''],
      ds_prg = [
        Constr ''std3_faf'' [''e1'', ''t2'', ''e3''] ['''', ''e2''],
        Constr ''std3_aaf'' [''t5'', ''t4'', ''e2''] [''e5'', ''e4''],
        Return [''e1'', ''e2'', ''e3'', ''e4'', ''e5'']
      ]\<rparr>"

definition dec_std5_fafaf :: deconstr where
  "dec_std5_fafaf =
     \<lparr>ds_input = [''e1'', ''t2'', ''e3'', ''t4'', ''e5''], ds_var = [''e2'', ''e4''],
      ds_prg = [
        Constr ''std3_faf'' [''e1'', ''t2'', ''e3''] ['''', ''e2''],
        Constr ''std3_faf'' [''e5'', ''t4'', ''e2''] ['''', ''e4''],
        Return [''e1'', ''e2'', ''e3'', ''e4'', ''e5'']
      ]\<rparr>"

definition dec_std5_aaaaf :: deconstr where
  "dec_std5_aaaaf =
     \<lparr>ds_input = [''t1'', ''t2'', ''t3'', ''t4'', ''e5''], ds_var = [''e1'', ''e2'', ''e3'', ''e4''],
      ds_prg = [
        Constr ''std3_faa'' [''e5'', ''t4'', ''t2''] ['''', ''e4'', ''e2''], Func ''get_beg'' [''e2''] [''e1''],
        Filter ''check_type'' [''e1'', ''t1''], Func ''get_end'' [''e2''] [''e3''],
        Filter ''check_type'' [''e3'', ''t3''], Return [''e1'', ''e2'', ''e3'', ''e4'', ''e5'']
      ]\<rparr>"

definition dec_std5_aafaa :: deconstr where
  "dec_std5_aafaa =
     \<lparr>ds_input = [''t1'', ''t2'', ''e3'', ''t4'', ''t5''], ds_var = [''e1'', ''e2'', ''e4'', ''e5''],
      ds_prg = [
        Constr ''std3_aaf'' [''t1'', ''t2'', ''e3''] [''e1'', ''e2''],
        Constr ''std3_aaf'' [''t5'', ''t4'', ''e2''] [''e5'', ''e4''],
        Return [''e1'', ''e2'', ''e3'', ''e4'', ''e5'']
      ]\<rparr>"

definition dec_std5_aafaf :: deconstr where
  "dec_std5_aafaf =
     \<lparr>ds_input = [''t1'', ''t2'', ''e3'', ''t4'', ''e5''], ds_var = [''e1'', ''e2'', ''ce3'', ''e4''],
      ds_prg = [
        Constr ''std3_aaf'' [''t1'', ''t2'', ''e3''] [''e1'', ''e2''],
        Constr ''std3_faf'' [''e5'', ''t4'', ''e2''] ['''', ''e4''],
        Return [''e1'', ''e2'', ''e3'', ''e4'', ''e5'']
      ]\<rparr>"

definition dec_std_ord_bin_conn1 :: deconstr where
  "dec_std_ord_bin_conn1 =
     \<lparr>ds_input = [''e0'', ''t1'', ''t2'', ''t3'', ''e4'', ''t5'', ''t6'', ''t7'', ''e8'', ''t9'', ''e10''], ds_var = [''e1'', ''e2'', ''e3'', ''e5'', ''e6'', ''e7'', ''e9''],
      ds_prg = [
        Constr ''std3_faa'' [''e0'', ''t1'', ''t2''] ['''', ''e1'', ''e2''],
        Constr ''std5_fafaf'' [''e2'', ''t3'', ''e4'', ''t7'', ''e8''] ['''', ''e3'', '''', ''e7''],
        Constr ''std5_faaaf'' [''e2'', ''t5'', ''t6'', ''t9'', ''e10''] ['''', ''e5'', ''e6'', ''e9''],
        Return [''e0'', ''e1'', ''e2'', ''e3'', ''e4'', ''e5'', ''e6'', ''e7'', ''e8'', ''e9'', ''e10'']
      ]\<rparr>"

definition dec_std_ord_bin_conn1_def :: deconstr where
  "dec_std_ord_bin_conn1_def =
     \<lparr>ds_input = [''e0'', ''t1'', ''t2'', ''t3'', ''e4'', ''t5'', ''t6'', ''t7'', ''e8''], ds_var = [''e1'', ''e2'', ''e3'', ''e5'', ''e6'', ''e7''],
      ds_prg = [
        Constr ''std3_faa'' [''e0'', ''t1'', ''t2''] ['''', ''e1'', ''e2''],
        Constr ''std5_fafaf'' [''e2'', ''t3'', ''e4'', ''t7'', ''e8''] ['''', ''e3'', '''', ''e7''],
        Constr ''std3_faa'' [''e2'', ''t5'', ''t6''] ['''', ''e5'', ''e6''],
        Return [''e0'', ''e1'', ''e2'', ''e3'', ''e4'', ''e5'', ''e6'', ''e7'', ''e8'']
      ]\<rparr>"

definition dec_std_ord_bin_conn2 :: deconstr where
  "dec_std_ord_bin_conn2 =
     \<lparr>ds_input = [''e0'', ''t1'', ''t2'', ''t3'', ''e4'', ''t5'', ''e6'', ''t7'', ''e8'', ''t9'', ''e10''], ds_var = [''e1'', ''e2'', ''e3'', ''e5'', ''e7'', ''e9''],
      ds_prg = [
        Constr ''std5_aafaf'' [''t2'', ''t3'', ''e4'', ''t7'', ''e8''] [''e2'', ''e3'', '''', ''e7''],
        Constr ''std3_faf'' [''e0'', ''t1'', ''e2''] ['''', ''e1''],
        Constr ''std5_fafaf'' [''e2'', ''t5'', ''e6'', ''t9'', ''e10''] ['''', ''e5'', '''', ''e9''],
        Return [''e0'', ''e1'', ''e2'', ''e3'', ''e4'', ''e5'', ''e6'', ''e7'', ''e8'', ''e9'', ''e10'']
      ]\<rparr>"

definition dec_std3l2_faaaf :: deconstr where
  "dec_std3l2_faaaf =
     \<lparr>ds_input = [''e0'', ''t1'', ''t2'', ''t3'', ''e4''], ds_var = [''e1'', ''e2'', ''e3'', ''ce0''],
      ds_prg = [
        Constr ''all_input'' [''e4''] ['''', ''e3''], Func ''get_beg'' [''e3''] [''e2''],
        Constr ''all_input'' [''e2''] ['''', ''e1''], Func ''get_beg'' [''e1''] [''ce0''],
        Filter ''equal2'' [''ce0'', ''e0''], Filter ''check_type'' [''e1'', ''t1''],
        Filter ''check_type'' [''e2'', ''t2''], Filter ''check_type'' [''e3'', ''t3''],
        Return [''e0'', ''e1'', ''e2'', ''e3'', ''e4'']
      ]\<rparr>"

definition dec_std5_3_aaaafaf :: deconstr where
  "dec_std5_3_aaaafaf =
     \<lparr>ds_input = [''t0'', ''t1'', ''t2'', ''t3'', ''e4'', ''t5'', ''e6''], ds_var = [''e0'', ''e1'', ''e2'', ''e3'', ''ce4'', ''e5''],
      ds_prg = [
        Constr ''all_input'' [''e6''] ['''', ''e5''], Filter ''check_type'' [''e5'', ''t5''],
        Func ''get_beg'' [''e5''] [''e2''], Filter ''check_type'' [''e2'', ''t2''],
        Constr ''all_input'' [''e2''] ['''', ''e1''], Filter ''check_type'' [''e1'', ''t1''],
        Func ''get_beg'' [''e1'', ''e0''] [], Filter ''check_type'' [''e0'', ''t0''],
        Constr ''all_input'' [''e1''] ['''', ''e3''], Func ''get_beg'' [''e3''] [''ce4''],
        Filter ''equal2'' [''ce4'', ''e4''], Filter ''check_type'' [''e3'', ''t3''],
        Return [''e0'', ''e1'', ''e2'', ''e3'', ''e4'', ''e5'', ''e6'']
      ]\<rparr>"

definition dec_std_in_set :: deconstr where
  "dec_std_in_set =
     \<lparr>ds_input = [''set'', ''type_mask''], ds_var = [''end'', ''arc_type''],
      ds_prg = [
        Func ''get_cpa'' [] [''arc_type''],
        Constr ''std3_faa'' [''set'', ''arc_type'', ''type_mask''] ['''', '''', ''end''], Return [''end'']
      ]\<rparr>"

definition dec_std_sely3_p1 :: deconstr where
  "dec_std_sely3_p1 =
     \<lparr>ds_input = [''s1'', ''t1'', ''s2'', ''t2'', ''s3'', ''t3''], ds_var = [''e1'', ''e2'', ''e3''],
      ds_prg = [
        Constr ''std_in_set'' [''s1'', ''t1''] [''e1''],
        Constr ''std3_faa'' [''e1'', ''t2'', ''t3''] ['''', ''e2'', ''e3''],
        Filter ''is_in_set'' [''s2'', ''e2''], Filter ''is_in_set'' [''s3'', ''e3''],
        Return [''e1'', ''e2'', ''e3'']
      ]\<rparr>"

definition dec_std_sely3_u1p2 :: deconstr where
  "dec_std_sely3_u1p2 =
     \<lparr>ds_input = [''t1'', ''s2'', ''t2'', ''s3'', ''t3''], ds_var = [''e1'', ''e2'', ''e3''],
      ds_prg = [
        Constr ''std_in_set'' [''s2'', ''t2''] [''e2''], Func ''get_beg'' [''e2''] [''e1''],
        Filter ''check_type'' [''e1'', ''t1''], Func ''get_end'' [''e2''] [''e3''],
        Filter ''check_type'' [''e3'', ''t3''], Filter ''is_in_set'' [''s3'', ''e3''],
        Return [''e1'', ''e2'', ''e3'']
      ]\<rparr>"

definition dec_std_sely3_u1u2p3 :: deconstr where
  "dec_std_sely3_u1u2p3 =
     \<lparr>ds_input = [''t1'', ''t2'', ''s3'', ''t3''], ds_var = [''e1'', ''e2'', ''e3''],
      ds_prg = [
        Constr ''std_in_set'' [''s3'', ''t3''] [''e3''],
        Constr ''std3_aaf'' [''t1'', ''t2'', ''e3''] [''e1'', ''e2''], Return [''e1'', ''e2'', ''e3'']
      ]\<rparr>"

definition dec_std_sely5_p1 :: deconstr where
  "dec_std_sely5_p1 =
     \<lparr>ds_input = [''s1'', ''t1'', ''s2'', ''t2'', ''s3'', ''t3'', ''s4'', ''t4'', ''s5'', ''t5''], ds_var = [''e1'', ''e2'', ''e3'', ''e4'', ''e5''],
      ds_prg = [
        Constr ''std_in_set'' [''s1'', ''t1''] [''e1''],
        Constr ''std5_faaaa'' [''e1'', ''t2'', ''t3'', ''t4'', ''t5''] ['''', ''e2'', ''e3'', ''e4'', ''e5''],
        Filter ''is_in_set'' [''s4'', ''e4''], Filter ''is_in_set'' [''s2'', ''e2''],
        Filter ''is_in_set'' [''s3'', ''e3''], Filter ''is_in_set'' [''s5'', ''e5''],
        Return [''e1'', ''e2'', ''e3'', ''e4'', ''e5'']
      ]\<rparr>"

definition dec_std_sely5_u1p2 :: deconstr where
  "dec_std_sely5_u1p2 =
     \<lparr>ds_input = [''t1'', ''s2'', ''t2'', ''s3'', ''t3'', ''s4'', ''t4'', ''s5'', ''t5''], ds_var = [''e1'', ''e2'', ''e3'', ''e4'', ''e5''],
      ds_prg = [
        Constr ''std_in_set'' [''s2'', ''t2''] [''e2''], Func ''get_beg'' [''e2''] [''e1''],
        Filter ''check_type'' [''e1'', ''t1''], Func ''get_end'' [''e2''] [''e3''],
        Filter ''check_type'' [''e3'', ''t3''], Filter ''is_in_set'' [''s3'', ''e3''],
        Constr ''std3_aaf'' [''t5'', ''t4'', ''e2''] [''e5'', ''e4''], Filter ''is_in_set'' [''s4'', ''e4''],
        Filter ''is_in_set'' [''e5'', ''s5''], Return [''e1'', ''e2'', ''e3'', ''e4'', ''e5'']
      ]\<rparr>"

definition dec_std_sely5_u1u2p3 :: deconstr where
  "dec_std_sely5_u1u2p3 =
     \<lparr>ds_input = [''t1'', ''t2'', ''s3'', ''t3'', ''s4'', ''t4'', ''s5'', ''t5''], ds_var = [''e1'', ''e2'', ''e3'', ''e4'', ''e5''],
      ds_prg = [
        Constr ''std_in_set'' [''s3'', ''t3''] [''e3''],
        Constr ''std3_aaf'' [''t1'', ''t2'', ''e3''] [''e1'', ''e2''],
        Constr ''std3_aaf'' [''t5'', ''t4'', ''e2''] [''e5'', ''e4''], Filter ''is_in_set'' [''s4'', ''e4''],
        Filter ''is_in_set'' [''s5'', ''e5''], Return [''e1'', ''e2'', ''e3'', ''e4'', ''e5'']
      ]\<rparr>"

definition dec_std_sely5_u1u2u3p4 :: deconstr where
  "dec_std_sely5_u1u2u3p4 =
     \<lparr>ds_input = [''t1'', ''t2'', ''t3'', ''s4'', ''t4'', ''s5'', ''t5''], ds_var = [''e1'', ''e2'', ''e3'', ''e4'', ''e5''],
      ds_prg = [
        Constr ''std_in_set'' [''s4'', ''t4''] [''e4''], Func ''get_beg'' [''e4''] [''e5''],
        Filter ''check_type'' [''e5'', ''t5''], Filter ''is_in_set'' [''s5'', ''e5''],
        Func ''get_end'' [''e4''] [''e2''], Filter ''check_type'' [''e2'', ''t2''],
        Func ''get_beg'' [''e2''] [''e1''], Func ''get_end'' [''e2''] [''e3''],
        Filter ''check_type'' [''e1'', ''t1''], Filter ''check_type'' [''e3'', ''t3''],
        Return [''e1'', ''e2'', ''e3'', ''e4'', ''e5'']
      ]\<rparr>"

definition dec_std_sely5_u1u2u3u4p5 :: deconstr where
  "dec_std_sely5_u1u2u3u4p5 =
     \<lparr>ds_input = [''t1'', ''t2'', ''t3'', ''t4'', ''s5'', ''t5''], ds_var = [''e1'', ''e2'', ''e3'', ''e4'', ''e5''],
      ds_prg = [
        Constr ''std_in_set'' [''s5'', ''t5''] [''e5''],
        Constr ''std5_aaaaf'' [''t1'', ''t2'', ''t3'', ''t4'', ''e5''] [''e1'', ''e2'', ''e3'', ''e4''],
        Return [''e1'', ''e2'', ''e3'', ''e4'', ''e5'']
      ]\<rparr>"

definition dec_std_intersect2 :: deconstr where
  "dec_std_intersect2 =
     \<lparr>ds_input = [''e1'', ''t2'', ''t3'', ''t4'', ''e5''], ds_var = [''e2'', ''e3'', ''e4''],
      ds_prg = [
        Constr ''std3_faa'' [''e1'', ''t2'', ''t3''] ['''', ''e2'', ''e3''],
        Constr ''std3_faf'' [''e5'', ''t4'', ''e3''] ['''', ''e4''],
        Return [''e1'', ''e2'', ''e3'', ''e4'', ''e5'']
      ]\<rparr>"

definition dec_std_bin_conn_unord1 :: deconstr where
  "dec_std_bin_conn_unord1 =
     \<lparr>ds_input = [''e0'', ''t1'', ''t2'', ''t3'', ''e4'', ''t5'', ''t6''], ds_var = [''e1'', ''e2'', ''e3'', ''e5'', ''e6''],
      ds_prg = [
        Constr ''std3l2_faaaf'' [''e0'', ''t1'', ''t2'', ''t3'', ''e4''] ['''', ''e1'', ''e2'', ''e3''],
        Constr ''std3_faa'' [''e2'', ''t5'', ''t6''] ['''', ''e5'', ''e6''],
        Return [''e0'', ''e1'', ''e2'', ''e3'', ''e4'', ''e5'', ''e6'']
      ]\<rparr>"

definition dec_std_3l2_5faaaf :: deconstr where
  "dec_std_3l2_5faaaf =
     \<lparr>ds_input = [''el'', ''a1'', ''a2'', ''rel'', ''a3''], ds_var = [''t0'', ''ta'', ''t1'', ''t2'', ''a3'', ''res''],
      ds_prg = [
        Func ''get_0'' [] [''t0''], Func ''get_cpa'' [] [''ta''],
        Constr ''std5_aafaf'' [''t0'', ''ta'', ''el'', ''ta'', ''a1''] [''t1''],
        Constr ''std5_aafaf'' [''t0'', ''ta'', ''t1'', ''ta'', ''a2''] [''t2''],
        Filter ''is_in_set'' [''rel'', ''t2''],
        Constr ''std5_faaaf'' [''t2'', ''ta'', ''t0'', ''ta'', ''a3''] ['''', '''', ''res''],
        Return [''res'', ''t2'', ''t1'']
      ]\<rparr>"

definition dec_std_4ln5_faaaaaffa :: deconstr where
  "dec_std_4ln5_faaaaaffa =
     \<lparr>ds_input = [''e0'', ''e6'', ''e7''], ds_var = [''cpa'', ''e1'', ''e2'', ''e3'', ''e4'', ''e5'', ''cna'', ''t0''],
      ds_prg = [
        Func ''get_cpa'' [] [''cpa''], Func ''get_cna'' [] [''cna''], Func ''get_0'' [] [''t0''],
        Constr ''std3_faa'' [''e0'', ''cpa'', ''t0''] ['''', ''e1'', ''e2''],
        Constr ''std3_faa'' [''e2'', ''cpa'', ''t0''] ['''', ''e3'', ''e4''],
        Constr ''std3_faf'' [''e6'', ''cna'', ''e4''] ['''', ''e5''], Filter ''not_in_set'' [''e7'', ''e3''],
        Return [''e0'', ''e1'', ''e2'', ''e3'', ''e4'', ''e5'', ''e6'']
      ]\<rparr>"

definition dec_std_4l5_faaaaaffa :: deconstr where
  "dec_std_4l5_faaaaaffa =
     \<lparr>ds_input = [''e0'', ''e6'', ''e7''], ds_var = [''e1'', ''e2'', ''e3'', ''e4'', ''e5'', ''tcpa'', ''tcna'', ''t0'', ''e8''],
      ds_prg = [
        Func ''get_cpa'' [] [''tcpa''], Func ''get_cna'' [] [''tcna''], Func ''get_0'' [] [''t0''],
        Constr ''std3_faa'' [''e0'', ''tcpa'', ''t0''] ['''', ''e1'', ''e2''],
        Constr ''std3_faa'' [''e2'', ''tcpa'', ''t0''] ['''', ''e3'', ''e4''],
        Constr ''std3_faf'' [''e6'', ''tcna'', ''e4''] ['''', ''e5''],
        Constr ''std3_faf'' [''e7'', ''tcpa'', ''e3''] ['''', ''e8''],
        Return [''e0'', ''e1'', ''e2'', ''e3'', ''e4'', ''e5'', ''e6'', ''e7'', ''e8'']
      ]\<rparr>"

definition dec_std_ord_bin_conn1a :: deconstr where
  "dec_std_ord_bin_conn1a =
     \<lparr>ds_input = [''e0'', ''t1'', ''t2'', ''t3'', ''e4'', ''t5'', ''t6'', ''e7'', ''t8''], ds_var = [''e1'', ''e2'', ''e3'', ''e5'', ''e6'', ''e8''],
      ds_prg = [
        Constr ''std3_aaf'' [''t2'', ''t3'', ''e4''] [''e2'', ''e3''],
        Constr ''std3_faf'' [''e0'', ''t1'', ''e2''] ['''', ''e1''],
        Constr ''std5_faaaf'' [''e2'', ''t5'', ''t6'', ''t8'', ''e7''] ['''', ''e5'', ''e6'', ''e8''],
        Return [''e0'', ''e1'', ''e2'', ''e3'', ''e4'', ''e5'', ''e6'', ''e7'', ''e8'']
      ]\<rparr>"

section \<open>Registration\<close>

text \<open>The order of \<open>__init_std_constraints\<close>: constraints with their programs and factories.\<close>

definition std_order :: "(string \<times> deconstr option \<times> iter_factory option) list" where
  "std_order =
    [(''all_input'', None, None), (''all_output'', None, None),
     (''arc_type_input'', Some dec_arc_type_input, None), (''arc_type_output'', Some dec_arc_type_output, None),
     (''std3_faa'', Some dec_std3_faa, None), (''std3_faf'', Some dec_std3_faf, None),
     (''std3_aaf'', Some dec_std3_aaf, None), (''std3_dfd'', Some dec_std3_dfd, None),
     (''std5_faaaa'', Some dec_std5_faaaa, None), (''std5_faaaf'', Some dec_std5_faaaf, Some Std5_f_a_a_a_f),
     (''std_on_segment'', None, Some Std_on_segment), (''std5_fafaa'', Some dec_std5_fafaa, None),
     (''std5_fafaf'', Some dec_std5_fafaf, None), (''std5_aaaaf'', Some dec_std5_aaaaf, None),
     (''std5_aafaa'', Some dec_std5_aafaa, None), (''std5_aafaf'', Some dec_std5_aafaf, None),
     (''std_ord_bin_conn1'', Some dec_std_ord_bin_conn1, None),
     (''std_ord_bin_conn1_def'', Some dec_std_ord_bin_conn1_def, None),
     (''std_ord_bin_conn2'', Some dec_std_ord_bin_conn2, None), (''std3l2_faaaf'', Some dec_std3l2_faaaf, None),
     (''std5_3_aaaafaf'', Some dec_std5_3_aaaafaf, None), (''std_in_set'', Some dec_std_in_set, None),
     (''std_sely3_p1'', Some dec_std_sely3_p1, None), (''std_sely3_u1p2'', Some dec_std_sely3_u1p2, None),
     (''std_sely3_u1u2p3'', Some dec_std_sely3_u1u2p3, None), (''std_sely5_p1'', Some dec_std_sely5_p1, None),
     (''std_sely5_u1p2'', Some dec_std_sely5_u1p2, None),
     (''std_sely5_u1u2p3'', Some dec_std_sely5_u1u2p3, None),
     (''std_sely5_u1u2u3p4'', Some dec_std_sely5_u1u2u3p4, None),
     (''std_sely5_u1u2u3u4p5'', Some dec_std_sely5_u1u2u3u4p5, None),
     (''std_intersect2'', Some dec_std_intersect2, None),
     (''std_bin_conn_unord1'', Some dec_std_bin_conn_unord1, None),
     (''std_3l2_5faaaf'', Some dec_std_3l2_5faaaf, None),
     (''std_4ln5_faaaaaffa'', Some dec_std_4ln5_faaaaaffa, None),
     (''std_4l5_faaaaaffa'', Some dec_std_4l5_faaaaaffa, None),
     (''std_ord_bin_conn1a'', Some dec_std_ord_bin_conn1a, None)]"

definition std_functions :: "string list" where
  "std_functions = [''get_beg'', ''get_end'', ''get_cpa'', ''get_cna'', ''get_0'']"

definition std_filters :: "string list" where
  "std_filters = [''check_type'', ''equal2'', ''equal_with_d'', ''is_in_set'', ''not_in_set'', ''differ'']"

text \<open>A registration that does not return zero aborts. The programs are inlined to the depth \<open>4\<close>:
  a constraint is registered after those it asks, whose programs are inlined already.\<close>

fun register_functions :: "string list \<Rightarrow> registry \<Rightarrow> registry option" where
  "register_functions [] rg = Some rg"
| "register_functions (f # fs) rg =
     do { (rv, _, rg) \<leftarrow> register_function f rg; ensure (rv = RV_OK); register_functions fs rg }"

fun register_filters :: "string list \<Rightarrow> registry \<Rightarrow> registry option" where
  "register_filters [] rg = Some rg"
| "register_filters (f # fs) rg =
     do { (rv, _, rg) \<leftarrow> register_filter f rg; ensure (rv = RV_OK); register_filters fs rg }"

definition std_info :: "string \<Rightarrow> deconstr option \<Rightarrow> iter_factory option \<Rightarrow> constraint_info option" where
  "std_info nm d f =
     do {
       spec \<leftarrow> map_of std_specs nm;
       dec \<leftarrow> (case d of None \<Rightarrow> Some None | Some d \<Rightarrow> map_option Some (translate d));
       Some \<lparr>cn_name = Some nm, cn_spec = spec, cn_factory = f, cn_dec = dec\<rparr>
     }"

fun register_constraints :: "(string \<times> deconstr option \<times> iter_factory option) list \<Rightarrow> registry \<Rightarrow> registry option" where
  "register_constraints [] rg = Some rg"
| "register_constraints ((nm, d, f) # cs) rg =
     do {
       info \<leftarrow> std_info nm d f;
       (rv, _, rg) \<leftarrow> register_constraint 4 info rg;
       ensure (rv = RV_OK);
       register_constraints cs rg
     }"

definition init_std_constraints :: "registry option" where
  "init_std_constraints =
     do {
       rg \<leftarrow> register_functions std_functions \<lparr>rg_entries = [], rg_sets = []\<rparr>;
       rg \<leftarrow> register_filters std_filters rg;
       register_constraints std_order rg
     }"

end
