(* ===== verification/Constr_Delete.thy ===== *)
theory Constr_Delete
  imports Constr_World
begin

text \<open>
  Deleting an iterator before its end. At every moment the memory is the memory at rest with the
  references of the iterators that the program holds, of the function values on its path and of its
  session (\<open>holding\<close>). The steps of the interpreter keep this, so the destructor gives everything
  back at any time. The filters \<open>is_in_set\<close> and \<open>not_in_set\<close> rely on it.
\<close>

section \<open>References on references\<close>

lemma bump_bump: "bump k (\<lambda>_. None) (bump h er W) = bump (k + h) er W"
  unfolding bump_def
  by (intro world.equality) (auto simp: option.map_comp comp_def fun_eq_iff ac_simps intro!: option.map_cong session.equality)

lemma bump_cong: "bump h er W = bump h' er' W \<Longrightarrow> bump (k + h) er W = bump (k + h') er' W"
  by (simp flip: bump_bump)

section \<open>What a program holds\<close>

definition iter_good :: "nat \<Rightarrow> world \<Rightarrow> side \<times> meta_iter \<Rightarrow> bool" where
  "iter_good ss W x \<longleftrightarrow> mi_session (snd x) = ss \<and> wd_addrs W (mi_from (snd x)) \<noteq> None \<and> wd_sessions W ss \<noteq> None \<and>
     links_known ss W (mi_links (snd x)) \<and>
     (\<exists>ll l pre rest. mi_iter (snd x) = Some (iter_on W (fst x) ll l) \<and> vA (fst x) W ll = pre @ l # rest)"

definition iter_refs :: "nat \<Rightarrow> world \<Rightarrow> side \<times> meta_iter \<Rightarrow> held" where
  "iter_refs ss W x = (case mi_iter (snd x) of None \<Rightarrow> {#} | Some it \<Rightarrow> arc_refs W (ai_curr it)) +
     {#K_addr (mi_from (snd x)), K_session ss#}"

lemma iter_good_holds:
  assumes "iter_good ss W (sd, m)"
  shows "\<exists>x xs. meta_holds sd ss W (bump h er W) (x # xs) m (bump (iter_refs ss W (sd, m) + h) er W)"
proof -
  obtain ll l pre rest where l: "mi_iter m = Some (iter_on W sd ll l)" "vA sd W ll = pre @ l # rest"
    using assms by (auto simp: iter_good_def)
  have "meta_holds sd ss W (bump h er W) (arc_addr W l # map (arc_addr W) rest @ arcs_left ss sd W (mi_links m)) m
      (bump (iter_refs ss W (sd, m) + h) er W)"
    using assms l by (intro meta_holds_onI) (auto simp: iter_good_def iter_refs_def ac_simps)
  then show ?thesis by blast
qed

lemma meta_holds_good:
  assumes "meta_holds sd ss W (bump h er W) xs m w" "xs \<noteq> []"
  shows "iter_good ss W (sd, m)" "\<exists>er'. w = bump (iter_refs ss W (sd, m) + h) er' W"
proof -
  let ?base = "{#K_addr (mi_from m), K_session ss#}"
  obtain h' er' ll pre l rest where m: "mi_session m = ss" "wd_addrs W (mi_from m) \<noteq> None" "wd_sessions W ss \<noteq> None"
    "links_known ss W (mi_links m)" "bump h er W = bump h' er' W"
    "mi_iter m = Some (iter_on W sd ll l)" "vA sd W ll = pre @ l # rest" "w = bump (arc_refs W l + (?base + h')) er' W"
    using assms by (auto simp: meta_holds_def split: option.splits)
  then show "iter_good ss W (sd, m)" by (auto simp: iter_good_def)
  have "w = bump (iter_refs ss W (sd, m) + h') er' W" using m(6,8) by (simp add: iter_refs_def ac_simps)
  then show "\<exists>er'. w = bump (iter_refs ss W (sd, m) + h) er' W" using bump_cong [OF m(5)] by metis
qed

fun part_refs :: "nat \<Rightarrow> world \<Rightarrow> (side \<times> meta_iter) part \<Rightarrow> held" where
  "part_refs ss W (Part_iter x) = iter_refs ss W x"
| "part_refs ss W _ = {#}"

fun part_good :: "nat \<Rightarrow> world \<Rightarrow> (side \<times> meta_iter) part \<Rightarrow> bool" where
  "part_good ss W (Part_iter x) = iter_good ss W x"
| "part_good ss W Part_null = True"
| "part_good ss W (Part_set _) = False"

definition func_value :: "prg_item \<Rightarrow> cparam list \<Rightarrow> cparam" where
  "func_value c r = r ! nat (hd (pi_out c))"

definition func_refs :: "cparam list \<Rightarrow> prg_item \<Rightarrow> held" where
  "func_refs r c = (if pi_type c = SCD_FUNC \<and> over_page True (func_value c r) then {#K_addr (addr_of (func_value c r))#} else {#})"

definition func_good :: "world \<Rightarrow> cparam list \<Rightarrow> prg_item \<Rightarrow> bool" where
  "func_good W r c \<longleftrightarrow> (pi_type c = SCD_FUNC \<longrightarrow> over_page True (func_value c r) \<longrightarrow>
     p_addr (func_value c r) \<noteq> None \<and> wd_addrs W (addr_of (func_value c r)) \<noteq> None)"

text \<open>The program \<open>cs\<close> before its command \<open>i\<close>, with the references \<open>h\<close> of others.\<close>

definition parts_held :: "nat \<Rightarrow> world \<Rightarrow> (side \<times> meta_iter) part list \<Rightarrow> held" where
  "parts_held ss W cur = sum_list (map (part_refs ss W) cur)"

definition funcs_held :: "cparam list \<Rightarrow> prg_item list \<Rightarrow> held" where
  "funcs_held r cs = sum_list (map (func_refs r) cs)"

definition holding ::
  "nat \<Rightarrow> world \<Rightarrow> held \<Rightarrow> nat \<Rightarrow> prg_item list \<Rightarrow> nat \<Rightarrow> cparam list \<Rightarrow> (side \<times> meta_iter) part list \<Rightarrow> world \<Rightarrow> bool" where
  "holding ss W h N cs i r cur w \<longleftrightarrow> length cur = length cs \<and> length r = N \<and>
     (\<forall>p \<in> set cur. part_good ss W p) \<and> (\<forall>c \<in> set (take i cs). func_good W r c) \<and>
     (\<forall>j < length cs. (i < j \<or> pi_type (cs ! j) \<noteq> SCD_CONSTR) \<longrightarrow> cur ! j = Part_null) \<and>
     (\<exists>er. w = bump (parts_held ss W cur + (funcs_held r (take i cs) + h)) er W)"

lemma parts_held_update:
  assumes "i < length cur"
  shows "parts_held ss W (cur[i := p]) + part_refs ss W (cur ! i) = part_refs ss W p + parts_held ss W cur"
proof -
  have "cur = take i cur @ cur ! i # drop (Suc i) cur" using assms by (rule id_take_nth_drop)
  then have "parts_held ss W cur = parts_held ss W (take i cur) + (part_refs ss W (cur ! i) + parts_held ss W (drop (Suc i) cur))"
    by (metis map_append list.simps(9) parts_held_def sum_list.Cons sum_list_append)
  moreover have "parts_held ss W (cur[i := p]) =
      parts_held ss W (take i cur) + (part_refs ss W p + parts_held ss W (drop (Suc i) cur))"
    using assms by (simp add: upd_conv_take_nth_drop parts_held_def)
  ultimately show ?thesis by (simp add: ac_simps)
qed

text \<open>Registers of different commands differ.\<close>

definition outs_apart :: "prg_item list \<Rightarrow> bool" where
  "outs_apart cs \<longleftrightarrow> (\<forall>i j. j < i \<and> i < length cs \<longrightarrow> set (outs_of (cs ! j)) \<inter> set (outs_of (cs ! i)) = {}) \<and>
     (\<forall>c \<in> set cs. item_ok c)"

lemma scoped_outs: "scoped N D cs \<Longrightarrow> c \<in> set cs \<Longrightarrow> item_ok c \<and> set (outs_of c) \<inter> set D = {} \<and> (\<forall>k \<in> set (outs_of c). k < int N)"
  by (induction cs arbitrary: D) fastforce+

lemma scoped_apart: "scoped N D cs \<Longrightarrow> outs_apart cs"
proof (induction cs arbitrary: D)
  case (Cons c cs)
  have sc: "scoped N (outs_of c @ D) cs" "item_ok c" using Cons.prems by simp_all
  have "set (outs_of ((c # cs) ! j)) \<inter> set (outs_of ((c # cs) ! i)) = {}" if "j < i" "i < length (c # cs)" for i j
  proof (cases j)
    case 0
    then have "cs ! (i - 1) \<in> set cs" "(c # cs) ! i = cs ! (i - 1)" using that by (simp_all add: nth_Cons')
    then show ?thesis using scoped_outs [OF sc(1), of "cs ! (i - 1)"] 0 by auto
  next
    case (Suc j')
    then show ?thesis using Cons.IH [OF sc(1)] that unfolding outs_apart_def by (cases i) auto
  qed
  then show ?case using Cons.IH [OF sc(1)] sc(2) by (simp add: outs_apart_def)
qed (simp add: outs_apart_def)

lemma funcs_same:
  assumes "\<And>c. c \<in> set cs \<Longrightarrow> pi_type c = SCD_FUNC \<Longrightarrow> func_value c r' = func_value c r"
  shows "funcs_held r' cs = funcs_held r cs" "(\<forall>c \<in> set cs. func_good W r' c) = (\<forall>c \<in> set cs. func_good W r c)"
proof -
  have "map (func_refs r') cs = map (func_refs r) cs" using assms by (auto simp: func_refs_def)
  then show "funcs_held r' cs = funcs_held r cs" by (simp only: funcs_held_def)
  show "(\<forall>c \<in> set cs. func_good W r' c) = (\<forall>c \<in> set cs. func_good W r c)" using assms by (auto simp: func_good_def)
qed

section \<open>A step keeps it\<close>

lemma world_env_sel:
  "ce_registry (world_env rg ss sys in_set) = rg"
  "ce_new (world_env rg ss sys in_set) = create_all rg ss"
  "ce_next (world_env rg ss sys in_set) (sd, m) w = (do { (_, m, w) \<leftarrow> meta_next sd m w; Some ((sd, m), w) })"
  "ce_over (world_env rg ss sys in_set) (sd, m) = meta_is_over m"
  "ce_delete (world_env rg ss sys in_set) (sd, m) = meta_delete m"
  "ce_filter (world_env rg ss sys in_set) c as w = (do { nm \<leftarrow> get_filter c rg; world_filter in_set sys nm as w })"
  "ce_func (world_env rg ss sys in_set) c as w = (do { nm \<leftarrow> get_function c rg; world_func sys nm as w })"
  "ce_ref (world_env rg ss sys in_set) = addr_ref" "ce_unref (world_env rg ss sys in_set) = addr_unref"
  "ce_opened (world_env rg ss sys in_set) a w = (do { s \<leftarrow> addr_seg a w; session_opened ss s w })"
  "ce_set (world_env rg ss sys in_set) a w = None"
  "ce_session_ref (world_env rg ss sys in_set) = session_ref ss"
  "ce_session_unref (world_env rg ss sys in_set) = session_unref ss"
  by (simp_all add: world_env_def)

definition search_keeps :: "(nat \<Rightarrow> nat \<Rightarrow> world \<Rightarrow> (bool \<times> world) option) \<Rightarrow> world \<Rightarrow> bool" where
  "search_keeps in_set W \<longleftrightarrow> (\<forall>h er s e b w'. in_set s e (bump h er W) = Some (b, w') \<longrightarrow> (\<exists>er'. w' = bump h er' W))"

lemma access_known: "access ss a w = Some x \<Longrightarrow> a = 0 \<or> wd_addrs w a \<noteq> None"
  by (cases "wd_addrs w a") (auto simp: access_def split: if_splits)

lemma keeps_type:
  assumes "quiet W" "wd_sessions W ss \<noteq> None" "get_type ss a (bump h er W) = Some (t, w')"
  shows "\<exists>er'. w' = bump h er' W"
proof -
  have "a = 0 \<or> wd_addrs W a \<noteq> None"
    using assms(3) access_known [of ss a "bump h er W"] by (auto simp: get_type_def bind_eq_Some_conv)
  from bump_get_type [OF assms(1,2) this, of h er] show ?thesis using assms(3) by auto
qed

lemma keeps_end:
  assumes "quiet W" "wd_sessions W ss \<noteq> None" "get_arc_end sd ss a (bump h er W) = Some (t, w')"
  shows "\<exists>er'. w' = bump h er' W"
proof -
  have "a = 0 \<or> wd_addrs W a \<noteq> None"
    using assms(3) access_known [of ss a "bump h er W"]
    by (cases sd) (auto simp: get_arc_end_def get_beg_def get_end_def bind_eq_Some_conv)
  from bump_get_arc_end [OF assms(1,2) this, of sd h er] show ?thesis using assms(3) by auto
qed

lemma keeps_filter:
  assumes "quiet W" "wd_sessions W sys \<noteq> None" "search_keeps in_set W" "world_filter in_set sys nm as (bump h er W) = Some (b, w')"
  shows "\<exists>er'. w' = bump h er' W"
proof -
  have s: "in_set s e (bump h er W) = Some (c, w') \<Longrightarrow> \<exists>er'. w' = bump h er' W" for s e c
    using assms(3) by (auto simp: search_keeps_def)
  have "filter_check_type sys as (bump h er W) = Some (b, w') \<Longrightarrow> ?thesis"
    using keeps_type [OF assms(1,2), of _ h er] by (fastforce simp: filter_check_type_def bind_eq_Some_conv)
  moreover have "filter_equal2 as (bump h er W) = Some (b, w') \<Longrightarrow> ?thesis" "filter_differ as (bump h er W) = Some (b, w') \<Longrightarrow> ?thesis"
    by (auto simp: filter_equal2_def filter_differ_def bind_eq_Some_conv)
  moreover have "filter_equal_with_d as (bump h er W) = Some (b, w') \<Longrightarrow> ?thesis"
    by (auto simp: filter_equal_with_d_def bind_eq_Some_conv simp del: bump_sel split: if_splits)
  moreover have "filter_is_in_set in_set as (bump h er W) = Some (b, w') \<Longrightarrow> ?thesis"
    by (auto simp: filter_is_in_set_def bind_eq_Some_conv split: if_splits dest: s)
  moreover have "filter_not_in_set in_set as (bump h er W) = Some (b, w') \<Longrightarrow> ?thesis"
    by (auto simp: filter_not_in_set_def bind_eq_Some_conv split: if_splits dest: s)
  ultimately show ?thesis using assms(4) unfolding world_filter_def by (metis option.distinct(1))
qed

lemma keeps_func:
  assumes "quiet W" "wd_sessions W sys \<noteq> None" "world_func sys nm as (bump h er W) = Some (rv, v, w')"
  shows "\<exists>er'. w' = bump h er' W"
proof (cases "nm = ''get_beg'' \<or> nm = ''get_end''")
  case True
  then obtain sd where "nm = (case sd of Beg \<Rightarrow> ''get_beg'' | End \<Rightarrow> ''get_end'')" using end_name by blast
  then show ?thesis using assms(3) keeps_end [OF assms(1,2), of sd _ h er]
    by (fastforce simp: get_function_end bind_eq_Some_conv)
next
  case False
  then show ?thesis using assms(3) by (auto simp: world_func_def split: if_splits)
qed

definition rest_held where
  "rest_held ss W h cs i r cur = parts_held ss W (cur[i := Part_null]) + (funcs_held r (take i cs) + h)"

lemma holding_rest:
  assumes "holding ss W h N cs i r cur w" "i < length cs"
  shows "\<exists>er. w = bump (part_refs ss W (cur ! i) + rest_held ss W h cs i r cur) er W"
proof -
  have "parts_held ss W cur = part_refs ss W (cur ! i) + parts_held ss W (cur[i := Part_null])"
    using parts_held_update [of i cur ss W Part_null] assms by (simp add: holding_def ac_simps)
  then show ?thesis using assms(1) by (auto simp: holding_def rest_held_def ac_simps)
qed

lemma holding_part:
  assumes "holding ss W h N cs i r cur w" "i < length cs"
  shows "part_good ss W (cur ! i)"
  using assms by (simp add: holding_def)

lemma holding_step:
  assumes hold: "holding ss W h N cs i r cur w" "i < length cs"
    and r': "length r' = N" "\<And>c. c \<in> set (take i cs) \<Longrightarrow> pi_type c = SCD_FUNC \<Longrightarrow> func_value c r' = func_value c r"
    and part: "part_good ss W part" "pi_type (cs ! i) \<noteq> SCD_CONSTR \<longrightarrow> part = Part_null"
  shows "w' = bump (part_refs ss W part + rest_held ss W h cs i r cur) er' W \<Longrightarrow> holding ss W h N cs i r' (cur[i := part]) w'"
    and "w' = bump (part_refs ss W part + (func_refs r' (cs ! i) + rest_held ss W h cs i r cur)) er' W \<Longrightarrow> func_good W r' (cs ! i) \<Longrightarrow>
      holding ss W h N cs (Suc i) r' (cur[i := part]) w'"
proof -
  have l: "length cur = length cs" using hold(1) by (simp add: holding_def)
  have p: "parts_held ss W (cur[i := part]) = part_refs ss W part + parts_held ss W (cur[i := Part_null])"
    using parts_held_update [of i "cur[i := Part_null]" ss W part] l hold(2) by simp
  have g: "\<forall>q \<in> set (cur[i := part]). part_good ss W q"
    using hold(1) part(1) set_update_subset_insert [of cur i part] by (auto simp: holding_def)
  have n: "\<forall>j < length cs. (i < j \<or> pi_type (cs ! j) \<noteq> SCD_CONSTR) \<longrightarrow> cur[i := part] ! j = Part_null"
    using hold part(2) l by (auto simp: holding_def nth_list_update)
  note f = funcs_same [of "take i cs" r' r, OF r'(2)]
  show "holding ss W h N cs i r' (cur[i := part]) w'"
    if "w' = bump (part_refs ss W part + rest_held ss W h cs i r cur) er' W"
    using that hold r'(1) p g n f l by (auto simp: holding_def rest_held_def ac_simps)
  have t: "funcs_held r' (take (Suc i) cs) = funcs_held r (take i cs) + func_refs r' (cs ! i)"
    using f(1) hold(2) by (simp add: funcs_held_def take_Suc_conv_app_nth)
  show "holding ss W h N cs (Suc i) r' (cur[i := part]) w'"
    if "w' = bump (part_refs ss W part + (func_refs r' (cs ! i) + rest_held ss W h cs i r cur)) er' W" "func_good W r' (cs ! i)"
  proof -
    have "\<forall>c \<in> set (take (Suc i) cs). func_good W r' c"
      using that(2) hold f(2) by (auto simp: take_Suc_conv_app_nth holding_def)
    moreover have "w' = bump (parts_held ss W (cur[i := part]) + (funcs_held r' (take (Suc i) cs) + h)) er' W"
      using that(1) p t by (simp add: rest_held_def ac_simps)
    ultimately show ?thesis using l r'(1) g n unfolding holding_def by auto
  qed
qed

lemma set_reg_other: "set_reg k v r = Some r' \<Longrightarrow> length r' = length r \<and> nat k < length r \<and> r' ! nat k = v \<and> (\<forall>n. n \<noteq> nat k \<longrightarrow> r' ! n = r ! n)"
  by (auto simp: set_reg_def split: if_splits)

lemma put_values_other:
  "put_values ks v j r = Some r' \<Longrightarrow> length r' = length r \<and> (\<forall>n. (\<forall>k \<in> set ks. 0 \<le> k \<longrightarrow> n \<noteq> nat k) \<longrightarrow> r' ! n = r ! n)"
proof (induction ks arbitrary: j r)
  case (Cons k ks)
  show ?case
  proof (cases "k < 0")
    case False
    then obtain r1 where r1: "set_reg k (P_addr (v j)) r = Some r1" "put_values ks v (j + 1) r1 = Some r'"
      using Cons.prems by (auto simp: bind_eq_Some_conv)
    then show ?thesis using Cons.IH [OF r1(2)] set_reg_other [OF r1(1)] False by auto
  qed (use Cons in auto)
qed simp

lemma others_same:
  assumes apart: "outs_apart (butlast cs)" "Suc i < length cs"
    and r': "\<And>n. (\<forall>k \<in> set (outs_of (cs ! i)). n \<noteq> nat k) \<Longrightarrow> r' ! n = r ! n"
    and c: "c \<in> set (take i cs)" "pi_type c = SCD_FUNC"
  shows "func_value c r' = func_value c r"
proof -
  obtain j where j: "j < i" "c = cs ! j" using c(1) by (auto simp: in_set_conv_nth)
  have b: "butlast cs ! j = cs ! j" "butlast cs ! i = cs ! i" "i < length (butlast cs)" using j apart(2) by (auto simp: nth_butlast)
  have "butlast cs ! j \<in> set (butlast cs)" using j b(3) by (intro nth_mem) simp
  then have "item_ok c" using apart(1) b j by (simp add: outs_apart_def)
  then have k: "length (pi_out c) = 1" "0 \<le> hd (pi_out c)" using c(2) by (simp_all add: item_ok_def)
  then have "hd (pi_out c) \<in> set (outs_of c)" by (cases "pi_out c") auto
  moreover have "set (outs_of (butlast cs ! j)) \<inter> set (outs_of (butlast cs ! i)) = {}"
    using apart(1) b(3) j(1) unfolding outs_apart_def by blast
  then have "set (outs_of c) \<inter> set (outs_of (cs ! i)) = {}" using b(1,2) j(2) by simp
  ultimately have "hd (pi_out c) \<notin> set (outs_of (cs ! i))" by blast
  then have "\<forall>k \<in> set (outs_of (cs ! i)). nat (hd (pi_out c)) \<noteq> nat k" using k(2) by (auto simp: eq_nat_nat_iff)
  then show ?thesis using r' by (simp add: func_value_def)
qed

definition held_next where
  "held_next ss W h N cs i b r cur w \<longleftrightarrow>
     (if b then holding ss W h N cs (Suc i) r cur w else holding ss W h N cs i r cur w \<and> cur ! i = Part_null)"

lemma holding_constr:
  assumes q: "quiet W" "wd_sessions W ss \<noteq> None"
    and hold: "holding ss W h N cs i r cur w" "Suc i < length cs" "outs_apart (butlast cs)" "pi_type (cs ! i) = SCD_CONSTR"
    and cmd: "cmd_constr (world_env rg ss sys in_set) (cs ! i) (cur ! i) r w = Some (b, r', part, w')"
  shows "held_next ss W h N cs i b r' (cur[i := part]) w'"
proof -
  let ?E = "world_env rg ss sys in_set" and ?R = "rest_held ss W h cs i r cur"
  have i: "i < length cs" "i < length cur" using hold(1,2) by (auto simp: holding_def)
  obtain er where w: "w = bump (part_refs ss W (cur ! i) + ?R) er W" using holding_rest [OF hold(1) i(1)] by blast
  obtain it w1 where it:
    "(if ce_over ?E it then do { w \<leftarrow> ce_delete ?E it w1; Some (False, r, Part_null, w) }
      else do { r \<leftarrow> put_values (pi_out (cs ! i)) (ce_value ?E it) 0 r; Some (True, r, Part_iter it, w1) }) = Some (b, r', part, w')"
    and m: "\<exists>xs w0. w0 = bump ?R er W \<and> meta_holds (fst it) ss W w0 xs (snd it) w1"
  proof (cases "cur ! i")
    case Part_null
    then obtain prm it w1 where n: "create_all rg ss (pi_id (cs ! i)) prm w = Some (it, w1)"
      "(if ce_over ?E it then do { w \<leftarrow> ce_delete ?E it w1; Some (False, r, Part_null, w) }
      else do { r \<leftarrow> put_values (pi_out (cs ! i)) (ce_value ?E it) 0 r; Some (True, r, Part_iter it, w1) }) = Some (b, r', part, w')"
      using cmd by (fastforce simp: cmd_constr_def bind_eq_Some_conv world_env_sel)
    then obtain sd a m where a: "meta_new sd a ss w = Some (m, w1)" "it = (sd, m)"
      by (auto simp: create_all_def bind_eq_Some_conv)
    have "wd_addrs W a \<noteq> None"
      using a(1) w by (auto simp: meta_new_def addr_ref_def upd_addr_def bind_eq_Some_conv simp del: bump_sel(5))
    then obtain g where g: "wd_addrs W a = Some g" by blast
    have "w = bump ?R er W" using w Part_null by simp
    then have "\<exists>xs w0. w0 = bump ?R er W \<and> meta_holds sd ss W w0 xs m w1"
      using meta_holds_new [OF q(1) g q(2) links_known_quiet [OF q g], of sd ?R er] a(1) by auto
    then show ?thesis using that [of it w1] n(2) a(2) by auto
  next
    case (Part_iter x)
    obtain sd m where x: "x = (sd, m)" by (cases x)
    have "iter_good ss W (sd, m)" using holding_part [OF hold(1) i(1)] Part_iter x by simp
    from iter_good_holds [OF this, of ?R er] obtain y ys where
      y: "meta_holds sd ss W (bump ?R er W) (y # ys) m w" using w Part_iter x by auto
    from meta_holds_next [OF q(1) y] obtain rv m' w1 where
      n: "meta_next sd m w = Some (rv, m', w1)" "meta_holds sd ss W (bump ?R er W) ys m' w1" by (elim exE conjE)
    have "(if ce_over ?E (sd, m') then do { w \<leftarrow> ce_delete ?E (sd, m') w1; Some (False, r, Part_null, w) }
      else do { r \<leftarrow> put_values (pi_out (cs ! i)) (ce_value ?E (sd, m')) 0 r; Some (True, r, Part_iter (sd, m'), w1) }) = Some (b, r', part, w')"
      using cmd Part_iter x n(1) by (auto simp: cmd_constr_def world_env_sel)
    then show ?thesis using that [of "(sd, m')" w1] n(2) by auto
  next
    case (Part_set xs)
    then show ?thesis using cmd by (simp add: cmd_constr_def)
  qed
  obtain sd mm where it2: "it = (sd, mm)" by (cases it)
  from m it2 obtain xs where xs: "meta_holds sd ss W (bump ?R er W) xs mm w1" by auto
  have ov: "ce_over ?E it \<longleftrightarrow> xs = []" using meta_holds_over [OF xs] it2 by (simp add: world_env_sel)
  have l: "length r = N" using hold(1) by (simp add: holding_def)
  show ?thesis
  proof (cases "xs = []")
    case True
    then have *: "b = False" "r' = r" "part = Part_null" "w' = bump ?R er W"
      using it ov it2 meta_holds_delete [OF q(1) xs] by (auto simp: world_env_sel)
    have "holding ss W h N cs i r (cur[i := Part_null]) w'"
      using * by (intro holding_step(1) [OF hold(1) i(1) l]) auto
    then show ?thesis using * i by (simp add: held_next_def)
  next
    case False
    then obtain v where *: "b" "put_values (pi_out (cs ! i)) v 0 r = Some r'" "part = Part_iter it" "w' = w1"
      using it ov by (auto simp: bind_eq_Some_conv)
    note pv = put_values_other [OF *(2)]
    obtain er' where e: "w1 = bump (iter_refs ss W (sd, mm) + ?R) er' W" using meta_holds_good(2) [OF xs False] by blast
    have same: "c \<in> set (take i cs) \<Longrightarrow> pi_type c = SCD_FUNC \<Longrightarrow> func_value c r' = func_value c r" for c
      using pv by (intro others_same [OF hold(3,2)]) auto
    have "holding ss W h N cs (Suc i) r' (cur[i := part]) w'"
      using * e it2 meta_holds_good(1) [OF xs False] pv l hold(4)
      by (intro holding_step(2) [OF hold(1) i(1) _ same]) (auto simp: func_refs_def func_good_def)
    then show ?thesis using * by (simp add: held_next_def)
  qed
qed

lemma holding_func:
  assumes q: "quiet W" "wd_sessions W sys \<noteq> None"
    and hold: "holding ss W h N cs i r cur w" "Suc i < length cs" "outs_apart (butlast cs)" "pi_type (cs ! i) = SCD_FUNC"
    and cmd: "cmd_func (world_env rg ss sys in_set) (cs ! i) r w = Some (b, r', w')"
  shows "held_next ss W h N cs i b r' (cur[i := cur ! i]) w'"
proof -
  let ?R = "rest_held ss W h cs i r cur"
  have i: "i < length cs" "cur ! i = Part_null" "length r = N" "i < length cur" using hold(1,2,4) by (auto simp: holding_def)
  obtain er where w: "w = bump ?R er W" using holding_rest [OF hold(1) i(1)] i(2) by auto
  have "item_ok (cs ! i)" using hold(2,3) nth_mem [of i "butlast cs"] by (auto simp: outs_apart_def nth_butlast)
  then obtain out where out: "pi_out (cs ! i) = [out]" "0 \<le> out" using hold(4) by (auto simp: item_ok_def length_Suc_conv)
  obtain r1 prm nm rv v w1 where f: "set_reg out (P_addr 0) r = Some r1" "world_func sys nm prm w = Some (rv, v, w1)"
    "set_reg out v r1 = Some r'" and fin: "(if rv \<noteq> RV_OK then Some (False, r', w1)
        else if over_page False v then do { a \<leftarrow> p_addr v; s \<leftarrow> addr_seg a w1; b \<leftarrow> session_opened ss s w1;
            (if \<not> b then Some (False, r', w1) else do { w \<leftarrow> addr_ref a w1; Some (True, r', w) }) }
        else Some (True, r', w1)) = Some (b, r', w')"
    using cmd out(1) by (auto simp: cmd_func_def bind_eq_Some_conv world_env_sel split: if_splits)
  obtain er1 where w1: "w1 = bump ?R er1 W" using keeps_func [OF q f(2) [unfolded w]] by blast
  have r': "length r' = N" "r' ! nat out = v" "n \<noteq> nat out \<Longrightarrow> r' ! n = r ! n" for n
    using set_reg_other [OF f(1)] set_reg_other [OF f(3)] i(3) by auto
  have same: "c \<in> set (take i cs) \<Longrightarrow> pi_type c = SCD_FUNC \<Longrightarrow> func_value c r' = func_value c r" for c
    using r'(3) out by (intro others_same [OF hold(3,2)]) auto
  have fv: "func_value (cs ! i) r' = v" using r'(2) out(1) by (simp add: func_value_def)
  note step = holding_step [OF hold(1) i(1) r'(1) same, of Part_null] 
  have stop: "holding ss W h N cs i r' (cur[i := Part_null]) w1"
    using w1 by (intro step(1)) auto
  have go: "holding ss W h N cs (Suc i) r' (cur[i := Part_null]) w'"
    if "w' = bump (func_refs r' (cs ! i) + ?R) er1 W" "func_good W r' (cs ! i)"
    using that by (intro step(2)) auto
  show ?thesis
  proof (cases "rv = RV_OK \<and> over_page False v")
    case False
    then have "w' = w1" "b = (rv = RV_OK)" using fin by (auto split: if_splits)
    moreover have "\<not> over_page True v" if "\<not> over_page False v" using that by (cases v) auto
    ultimately show ?thesis using False stop go w1 i(2,4) fv hold(4)
      by (auto simp: held_next_def func_refs_def func_good_def nth_list_update split: if_splits)
  next
    case True
    then obtain a s o' where a: "p_addr v = Some a" "addr_seg a w1 = Some s" "session_opened ss s w1 = Some o'"
      "(if \<not> o' then Some (False, r', w1) else do { w \<leftarrow> addr_ref a w1; Some (True, r', w) }) = Some (b, r', w')"
      using fin by (auto simp: bind_eq_Some_conv)
    show ?thesis
    proof (cases o')
      case False
      then have "w' = w1" "\<not> b" using a(4) by auto
      then show ?thesis using stop i(2,4) by (simp add: held_next_def)
    next
      case o: True
      have k: "wd_addrs W a \<noteq> None" using a(2) w1 by (auto simp: addr_seg_def)
      have ov: "over_page True v" using True a(1) by (cases v) (auto simp: SC_ARCH_PAGESIZE_def split: if_splits)
      have "w' = bump (add_mset (K_addr a) ?R) er1 W" "b" using a(4) o bump_addr_ref [OF k, of ?R er1] w1 by auto
      then show ?thesis using go fv ov a(1) k hold(4) i(2)
        by (auto simp: held_next_def func_refs_def func_good_def addr_of_def)
    qed
  qed
qed

lemma holding_cmd:
  assumes q: "quiet W" "wd_sessions W ss \<noteq> None" "wd_sessions W sys \<noteq> None" "search_keeps in_set W"
    and hold: "holding ss W h N cs i r cur w" "Suc i < length cs" "outs_apart (butlast cs)"
    and cmd: "fb_cmd (world_env rg ss sys in_set) (cs ! i) (cur ! i) r w = Some (b, r', part, w')"
  shows "held_next ss W h N cs i b r' (cur[i := part]) w'"
proof (cases "pi_type (cs ! i)")
  case SCD_FILTER
  let ?R = "rest_held ss W h cs i r cur"
  have i: "i < length cs" "cur ! i = Part_null" "length r = N" "i < length cur" using hold(1,2) SCD_FILTER by (auto simp: holding_def)
  obtain er where w: "w = bump ?R er W" using holding_rest [OF hold(1) i(1)] i(2) by auto
  obtain nm prm where f: "world_filter in_set sys nm prm w = Some (b, w')" "r' = r" "part = Part_null"
    using cmd SCD_FILTER i(2) by (auto simp: fb_cmd_def bind_eq_Some_conv world_env_sel)
  obtain er' where w': "w' = bump ?R er' W" using keeps_filter [OF q(1,3,4) f(1) [unfolded w]] by blast
  have "holding ss W h N cs i r (cur[i := Part_null]) w'"
    using w' by (intro holding_step(1) [OF hold(1) i(1,3)]) auto
  moreover have "holding ss W h N cs (Suc i) r (cur[i := Part_null]) w'"
    using w' SCD_FILTER by (intro holding_step(2) [OF hold(1) i(1,3)]) (auto simp: func_refs_def func_good_def)
  ultimately show ?thesis using f i(4) by (simp add: held_next_def)
next
  case SCD_CONSTR
  then show ?thesis using cmd holding_constr [OF q(1,2) hold] by (simp add: fb_cmd_def)
next
  case SCD_FUNC
  then have "part = cur ! i" "cmd_func (world_env rg ss sys in_set) (cs ! i) r w = Some (b, r', w')"
    using cmd by (auto simp: fb_cmd_def bind_eq_Some_conv)
  then show ?thesis using holding_func [OF q(1,3) hold SCD_FUNC] by simp
next
  case SCD_SET_EACH
  then show ?thesis using cmd by (simp add: fb_cmd_def cmd_set_each_def world_env_sel bind_eq_Some_conv)
qed (use cmd in \<open>simp add: fb_cmd_def\<close>)

section \<open>The whole interpreter keeps it\<close>

text \<open>Before going back from position \<open>k\<close>, no command from \<open>k\<close> on holds anything.\<close>

definition backing where
  "backing ss W h N cs k r cur w \<longleftrightarrow> holding ss W h N cs k r cur w \<and> (\<forall>j < length cs. k \<le> j \<longrightarrow> cur ! j = Part_null)"

lemma backing_func:
  assumes "backing ss W h N cs (Suc i) r cur w" "i < length cs"
  shows "func_good W r (cs ! i)"
    "\<exists>er. w = bump (func_refs r (cs ! i) + (parts_held ss W cur + (funcs_held r (take i cs) + h))) er W"
  using assms by (auto simp: backing_def holding_def take_Suc_conv_app_nth funcs_held_def ac_simps)

lemma backing_less:
  assumes "backing ss W h N cs (Suc i) r cur w" "i < length cs"
    and "w' = bump (parts_held ss W cur + (funcs_held r (take i cs) + h)) er W"
  shows "holding ss W h N cs i r cur w'" "pi_type (cs ! i) \<noteq> SCD_CONSTR \<Longrightarrow> backing ss W h N cs i r cur w'"
proof -
  have n: "\<forall>j < length cs. Suc i \<le> j \<or> pi_type (cs ! j) \<noteq> SCD_CONSTR \<longrightarrow> cur ! j = Part_null"
    using assms(1) by (auto simp: backing_def holding_def)
  then show hold: "holding ss W h N cs i r cur w'"
    using assms by (auto simp: backing_def holding_def take_Suc_conv_app_nth)
  show "backing ss W h N cs i r cur w'" if "pi_type (cs ! i) \<noteq> SCD_CONSTR"
    unfolding backing_def using hold n that by (metis Suc_leI le_neq_implies_less)
qed

definition looping where
  "looping ss W h N cs k r cur w \<longleftrightarrow> (case k of 0 \<Rightarrow> backing ss W h N cs 0 r cur w | Suc i \<Rightarrow> holding ss W h N cs i r cur w)"

lemma holding_back:
  assumes "quiet W" "outs_apart (butlast cs)" "pi_type (last cs) = SCD_RETURN" "k \<le> length cs"
    and "backing ss W h N cs k r cur w" "fb_back (world_env rg ss sys in_set) cs r k w = Some (k', w')"
  shows "looping ss W h N cs k' r cur w' \<and> k' \<le> length cs"
  using assms(4-6)
proof (induction k arbitrary: w)
  case (Suc i)
  have i: "i < length cs" using Suc.prems(1) by simp
  obtain er where w: "w = bump (func_refs r (cs ! i) + (parts_held ss W cur + (funcs_held r (take i cs) + h))) er W"
    using backing_func(2) [OF Suc.prems(2) i] by blast
  show ?case
  proof (cases "retries (cs ! i)")
    case True
    then have "holding ss W h N cs i r cur w"
      using w by (intro backing_less(1) [OF Suc.prems(2) i]) (auto simp: retries_def func_refs_def)
    then show ?thesis using True Suc.prems(1,3) by (auto simp: looping_def)
  next
    case False
    then obtain w1 where w1: "undo (world_env rg ss sys in_set) (cs ! i) r w = Some w1"
      "fb_back (world_env rg ss sys in_set) cs r i w1 = Some (k', w')"
      using Suc.prems(3) by (auto simp: bind_eq_Some_conv)
    have "w1 = bump (parts_held ss W cur + (funcs_held r (take i cs) + h)) er W"
    proof (cases "pi_type (cs ! i) = SCD_FUNC \<and> over_page True (func_value (cs ! i) r)")
      case f: True
      then have "i \<noteq> length cs - 1" using assms(3) i last_conv_nth [of cs] by (cases "cs = []") auto
      then have "item_ok (cs ! i)" using i assms(2) nth_mem [of i "butlast cs"] by (auto simp: outs_apart_def nth_butlast)
      then obtain out where out: "pi_out (cs ! i) = [out]" using f by (auto simp: item_ok_def length_Suc_conv)
      obtain a where a: "p_addr (func_value (cs ! i) r) = Some a" "wd_addrs W a \<noteq> None"
        using backing_func(1) [OF Suc.prems(2) i] f by (auto simp: func_good_def addr_of_def)
      have "reg_at r out = Some v \<Longrightarrow> v = func_value (cs ! i) r" for v
        using out by (auto simp: reg_at_def func_value_def split: if_splits)
      then have "addr_unref a w = Some w1"
        using w1(1) f out a by (auto simp: undo_def bind_eq_Some_conv world_env_sel split: if_splits)
      then show ?thesis
        using w f a bump_addr_unref [OF assms(1) a(2)] by (simp add: func_refs_def addr_of_def)
    next
      case False
      then have "w1 = w"
        using w1(1) by (auto simp: undo_def bind_eq_Some_conv reg_at_def func_value_def split: if_splits elim!: first_out.elims)
      then show ?thesis using w False by (simp add: func_refs_def)
    qed
    then have "backing ss W h N cs i r cur w1"
      using False by (intro backing_less(2) [OF Suc.prems(2) i]) (auto simp: retries_def)
    then show ?thesis using Suc.IH w1(2) i by simp
  qed
qed (simp add: looping_def)

definition fb_held :: "nat \<Rightarrow> world \<Rightarrow> held \<Rightarrow> deconstruct \<Rightarrow> (side \<times> meta_iter) fb \<Rightarrow> world \<Rightarrow> bool" where
  "fb_held ss W h d st w \<longleftrightarrow> fb_dec st = d \<and>
     (let cs = dc_commands d; N = dc_input_cnt d + dc_reg_cnt d in
      if fb_over st then backing ss W h N cs 0 (fb_regs st) (fb_cur st) w
      else holding ss W h N cs (length cs - 1) (fb_regs st) (fb_cur st) w)"

lemma wf_dec_apart:
  assumes "wf_dec d"
  shows "outs_apart (butlast (dc_commands d))" "pi_type (last (dc_commands d)) = SCD_RETURN" "2 \<le> length (dc_commands d)"
  using assms scoped_apart by (auto simp: wf_dec_def Let_def)

lemma holding_loop:
  assumes q: "quiet W" "wd_sessions W ss \<noteq> None" "wd_sessions W sys \<noteq> None" "search_keeps in_set W" and d: "wf_dec d"
    and st: "looping ss W h (dc_input_cnt d + dc_reg_cnt d) (dc_commands d) k (fb_regs st) (fb_cur st) w"
      "k \<le> length (dc_commands d)" "fb_dec st = d" "\<not> fb_over st"
    and run: "fb_loop n (world_env rg ss sys in_set) k st w = Some (st', w')"
  shows "fb_held ss W h d st' w'"
  using st run
proof (induction n arbitrary: k st w)
  case (Suc n)
  let ?cs = "dc_commands d" and ?N = "dc_input_cnt d + dc_reg_cnt d" and ?E = "world_env rg ss sys in_set"
  note wf = wf_dec_apart [OF d]
  show ?case
  proof (cases k)
    case 0
    then show ?thesis using Suc.prems by (auto simp: looping_def fb_held_def)
  next
    case k: (Suc i)
    then have hold: "holding ss W h ?N ?cs i (fb_regs st) (fb_cur st) w" using Suc.prems(1) by (simp add: looping_def)
    show ?thesis
    proof (cases "length ?cs \<le> k")
      case True
      then have "i = length ?cs - 1" using k Suc.prems(2) by simp
      then show ?thesis using Suc.prems hold k True by (auto simp: fb_held_def)
    next
      case False
      then obtain b r part w1 where c: "fb_cmd ?E (?cs ! i) (fb_cur st ! i) (fb_regs st) w = Some (b, r, part, w1)"
        "(if b then fb_loop n ?E (k + 1) (st\<lparr>fb_regs := r, fb_cur := (fb_cur st)[i := part]\<rparr>) w1
          else do { (k, w) \<leftarrow> fb_back ?E ?cs r i w1;
            fb_loop n ?E k (st\<lparr>fb_regs := r, fb_cur := (fb_cur st)[i := part]\<rparr>) w }) = Some (st', w')"
        using Suc.prems(3,5) k by (auto simp: bind_eq_Some_conv Let_def cong: if_cong split: if_split)
      have i: "Suc i < length ?cs" using False k by simp
      have nx: "held_next ss W h ?N ?cs i b r ((fb_cur st)[i := part]) w1" by (rule holding_cmd [OF q hold i wf(1) c(1)])
      show ?thesis
      proof (cases b)
        case True
        then show ?thesis using Suc.IH [of "k + 1" "st\<lparr>fb_regs := r, fb_cur := (fb_cur st)[i := part]\<rparr>" w1] nx c(2) i k Suc.prems(3,4)
          by (simp add: held_next_def looping_def)
      next
        case b: False
        then obtain k' w2 where k': "fb_back ?E ?cs r i w1 = Some (k', w2)"
          "fb_loop n ?E k' (st\<lparr>fb_regs := r, fb_cur := (fb_cur st)[i := part]\<rparr>) w2 = Some (st', w')"
          using c(2) by (auto simp: bind_eq_Some_conv)
        have "backing ss W h ?N ?cs i r ((fb_cur st)[i := part]) w1"
          using nx b unfolding held_next_def backing_def holding_def by (metis le_neq_implies_less)
        then have "looping ss W h ?N ?cs k' r ((fb_cur st)[i := part]) w2" "k' \<le> length ?cs"
          using holding_back [OF q(1) wf(1,2) _ _ k'(1)] i by auto
        then show ?thesis using Suc.IH [OF _ _ _ _ k'(2)] Suc.prems(3,4) by simp
      qed
    qed
  qed
qed simp

lemma fb_new_held:
  assumes q: "quiet W" "wd_sessions W ss \<noteq> None" "wd_sessions W sys \<noteq> None" "search_keeps in_set W" and d: "wf_dec d"
    and prm: "length prm = dc_input_cnt d" "length junk = dc_reg_cnt d"
    and run: "fb_new n (world_env rg ss sys in_set) d prm junk (bump h er W) = Some (st, w)"
  shows "fb_held ss W (add_mset (K_session ss) h) d st w"
proof -
  let ?st = "\<lparr>fb_over = False, fb_dec = d, fb_regs = prm @ junk, fb_cur = replicate (length (dc_commands d)) Part_null\<rparr>"
  have "fb_loop n (world_env rg ss sys in_set) 1 ?st (bump (add_mset (K_session ss) h) er W) = Some (st, w)"
    using run bump_session_ref [OF q(2), of h er] prm by (simp add: fb_new_def fb_go_def world_env_sel)
  moreover have "looping ss W (add_mset (K_session ss) h) (dc_input_cnt d + dc_reg_cnt d) (dc_commands d) 1 (fb_regs ?st) (fb_cur ?st)
      (bump (add_mset (K_session ss) h) er W)"
  proof -
    have "parts_held ss W (replicate m Part_null) = {#}" for m by (induction m) (simp_all add: parts_held_def)
    then show ?thesis using prm by (auto simp: looping_def holding_def funcs_held_def)
  qed
  ultimately show ?thesis using wf_dec_apart(3) [OF d] by (intro holding_loop [OF q d, of _ 1 ?st]) auto
qed

lemma fb_next_held:
  assumes q: "quiet W" "wd_sessions W ss \<noteq> None" "wd_sessions W sys \<noteq> None" "search_keeps in_set W" and d: "wf_dec d"
    and st: "fb_held ss W h d st w" "fb_next n (world_env rg ss sys in_set) st w = Some (rv, st', w')"
  shows "fb_held ss W h d st' w'"
proof (cases "fb_over st")
  case False
  let ?cs = "dc_commands d" and ?N = "dc_input_cnt d + dc_reg_cnt d" and ?E = "world_env rg ss sys in_set"
  note wf = wf_dec_apart [OF d]
  have hold: "holding ss W h ?N ?cs (length ?cs - 1) (fb_regs st) (fb_cur st) w" "fb_dec st = d"
    using st(1) False by (simp_all add: fb_held_def Let_def)
  have l: "?cs \<noteq> []" "?cs ! (length ?cs - 1) = last ?cs" using wf(3) last_conv_nth [of ?cs] by (cases "?cs = []", auto)+
  have "length ?cs = Suc (length ?cs - 1)" using l(1) by (cases ?cs) auto
  then have "take (length ?cs) ?cs = take (length ?cs - 1) ?cs @ [last ?cs]"
    using l by (metis append_butlast_last_id butlast_conv_take take_all_iff order_refl)
  then have tk: "funcs_held r (take (length ?cs) ?cs) = funcs_held r (take (length ?cs - 1) ?cs)"
    "(\<forall>c \<in> set (take (length ?cs) ?cs). func_good W r c) = (\<forall>c \<in> set (take (length ?cs - 1) ?cs). func_good W r c)" for r
    using wf(2) by (simp_all only: funcs_held_def map_append sum_list_append set_append ball_Un) (simp_all add: func_refs_def func_good_def)
  have "holding ss W h ?N ?cs (length ?cs) (fb_regs st) (fb_cur st) w"
    unfolding holding_def tk using hold(1) [unfolded holding_def] by (elim conjE, intro conjI) simp_all
  then have b: "backing ss W h ?N ?cs (length ?cs) (fb_regs st) (fb_cur st) w" by (simp add: backing_def)
  obtain k w1 where k: "fb_back ?E ?cs (fb_regs st) (length ?cs) w = Some (k, w1)" "fb_loop n ?E k st w1 = Some (st', w')"
    using st(2) False hold(2) wf(2,3) l by (auto simp: fb_next_def fb_go_def bind_eq_Some_conv Suc_diff_Suc numeral_2_eq_2)
  have "looping ss W h ?N ?cs k (fb_regs st) (fb_cur st) w1" "k \<le> length ?cs"
    using holding_back [OF q(1) wf(1,2) order_refl b k(1)] by auto
  then show ?thesis using holding_loop [OF q d _ _ hold(2) _ k(2)] False by simp
qed (use st in \<open>simp add: fb_next_def\<close>)

text \<open>The destructor goes through the commands; \<open>p\<close> tells which function values are held.\<close>

lemma release_held:
  assumes "quiet W" "length parts = length cs" "\<forall>p \<in> set parts. part_good ss W p"
    and "\<forall>j < length cs. pi_type (cs ! j) \<noteq> SCD_CONSTR \<longrightarrow> parts ! j = Part_null"
    and "fb_over st \<or> (\<forall>c \<in> set cs. func_good W (fb_regs st) c \<and>
      (pi_type c = SCD_FUNC \<longrightarrow> length (pi_out c) = 1 \<and> 0 \<le> hd (pi_out c) \<and> nat (hd (pi_out c)) < length (fb_regs st)))"
  shows "fb_release (world_env rg ss sys in_set) st (zip cs parts)
      (bump (parts_held ss W parts + ((if fb_over st then {#} else funcs_held (fb_regs st) cs) + h)) er W) = Some (bump h er W)"
  using assms(2-5)
proof (induction cs arbitrary: parts)
  case Nil
  then show ?case by (simp add: parts_held_def funcs_held_def)
next
  case (Cons c cs)
  let ?E = "world_env rg ss sys in_set"
  obtain p ps where ps: "parts = p # ps" "length ps = length cs" using Cons.prems(1) by (cases parts) auto
  let ?rest = "parts_held ss W ps + ((if fb_over st then {#} else funcs_held (fb_regs st) cs) + h)"
  let ?f = "if fb_over st then {#} else func_refs (fb_regs st) c"
  have n: "\<forall>j < length cs. pi_type (cs ! j) \<noteq> SCD_CONSTR \<longrightarrow> ps ! j = Part_null"
    using Cons.prems(3) ps(1) by auto
  have IH: "fb_release ?E st (zip cs ps) (bump ?rest er W) = Some (bump h er W)"
    using Cons.IH [OF ps(2) _ n] Cons.prems ps by auto
  have w: "bump (parts_held ss W parts + ((if fb_over st then {#} else funcs_held (fb_regs st) (c # cs)) + h)) er W =
      bump (part_refs ss W p + (?f + ?rest)) er W"
    using ps(1) by (simp add: parts_held_def funcs_held_def ac_simps)
  show ?case
  proof (cases "pi_type c = SCD_CONSTR")
    case True
    then have f: "?f = {#}" by (simp add: func_refs_def)
    show ?thesis
    proof (cases p)
      case Part_null
      then show ?thesis using w IH f True ps(1) by simp
    next
      case (Part_iter x)
      obtain sd m where x: "x = (sd, m)" by (cases x)
      have "iter_good ss W (sd, m)" using Cons.prems(2) ps(1) Part_iter x by simp
      from iter_good_holds [OF this, of ?rest er] obtain y ys where
        "meta_holds sd ss W (bump ?rest er W) (y # ys) m (bump (iter_refs ss W (sd, m) + ?rest) er W)" by (elim exE)
      then show ?thesis using w IH f True ps(1) Part_iter x meta_holds_delete [OF assms(1)] by (simp add: world_env_sel)
    next
      case (Part_set xs)
      then show ?thesis using Cons.prems(2) ps(1) by simp
    qed
  next
    case False
    then have p: "p = Part_null" using Cons.prems(3) ps(1) by auto
    show ?thesis
    proof (cases "pi_type c = SCD_FUNC \<and> \<not> fb_over st")
      case f: True
      then obtain out where out: "pi_out c = [out]" "0 \<le> out" "nat out < length (fb_regs st)" "func_good W (fb_regs st) c"
        using Cons.prems(4) by (auto simp: length_Suc_conv)
      have v: "reg_at (fb_regs st) out = Some (func_value c (fb_regs st))" using out by (simp add: reg_at_def func_value_def)
      have "undo ?E c (fb_regs st) (bump (func_refs (fb_regs st) c + ?rest) er W) = Some (bump ?rest er W)"
        using f out v bump_addr_unref [OF assms(1)]
        by (auto simp: undo_def func_refs_def func_good_def world_env_sel addr_of_def)
      then show ?thesis using w IH f ps(1) p by simp
    next
      case no: False
      then have "?f = {#}" by (auto simp: func_refs_def)
      then show ?thesis using w IH no False ps(1) p by (cases "pi_type c") auto
    qed
  qed
qed

lemma fb_held_delete:
  assumes "quiet W" "wd_sessions W ss \<noteq> None" "wf_dec d" "fb_held ss W (add_mset (K_session ss) h) d st w"
  shows "\<exists>er. fb_delete (world_env rg ss sys in_set) st w = Some (bump h er W)"
proof -
  let ?cs = "dc_commands d" and ?N = "dc_input_cnt d + dc_reg_cnt d" and ?h = "add_mset (K_session ss) h"
  note wf = wf_dec_apart [OF assms(3)]
  obtain i where i: "holding ss W ?h ?N ?cs i (fb_regs st) (fb_cur st) w" "i = (if fb_over st then 0 else length ?cs - 1)" "fb_dec st = d"
    using assms(4) by (auto simp: fb_held_def Let_def backing_def split: if_splits)
  have cs: "?cs = butlast ?cs @ [last ?cs]" "take (length ?cs - 1) ?cs = butlast ?cs"
    using wf(3) by (cases ?cs; simp) (simp add: butlast_conv_take)
  have sc: "scoped ?N (inputs (dc_input_cnt d)) (butlast ?cs)" using assms(3) by (simp add: wf_dec_def Let_def)
  have ok: "fb_over st \<or> (\<forall>c \<in> set ?cs. func_good W (fb_regs st) c \<and>
      (pi_type c = SCD_FUNC \<longrightarrow> length (pi_out c) = 1 \<and> 0 \<le> hd (pi_out c) \<and> nat (hd (pi_out c)) < length (fb_regs st)))"
  proof (cases "fb_over st")
    case False
    have "func_good W (fb_regs st) c \<and>
      (pi_type c = SCD_FUNC \<longrightarrow> length (pi_out c) = 1 \<and> 0 \<le> hd (pi_out c) \<and> nat (hd (pi_out c)) < length (fb_regs st))"
      if "c \<in> set ?cs" for c
    proof (cases "c \<in> set (butlast ?cs)")
      case True
      have g: "func_good W (fb_regs st) c" "length (fb_regs st) = ?N" using i False cs(2) True by (auto simp: holding_def)
      have "item_ok c" "\<forall>k \<in> set (outs_of c). k < int ?N" using scoped_outs [OF sc True] by blast+
      then show ?thesis using g by (cases "pi_out c") (auto simp: item_ok_def)
    next
      case False
      then have "c = last ?cs" using that cs(1) by (metis Un_iff set_append set_ConsD empty_iff list.set(1))
      then show ?thesis using wf(2) by (simp add: func_good_def)
    qed
    then show ?thesis by blast
  qed simp
  have f: "funcs_held (fb_regs st) (take i ?cs) = (if fb_over st then {#} else funcs_held (fb_regs st) ?cs)"
  proof (cases "fb_over st")
    case False
    have "funcs_held (fb_regs st) ?cs = funcs_held (fb_regs st) (butlast ?cs @ [last ?cs])" using cs(1) by simp
    then show ?thesis using i(2) False cs(2) wf(2) by (simp add: funcs_held_def func_refs_def)
  qed (simp add: i(2) funcs_held_def)
  obtain er where w: "w = bump (parts_held ss W (fb_cur st) + ((if fb_over st then {#} else funcs_held (fb_regs st) ?cs) + ?h)) er W"
    using i(1) f by (auto simp: holding_def)
  have "fb_release (world_env rg ss sys in_set) st (zip ?cs (fb_cur st)) w = Some (bump ?h er W)"
    unfolding w using i(1) by (intro release_held [OF assms(1) _ _ _ ok]) (auto simp: holding_def)
  then show ?thesis using i(3) bump_session_unref [OF assms(1,2), of h er] by (auto simp: fb_delete_def world_env_sel)
qed

end
