(* ===== verification/Std_Answers.thy ===== *)
theory Std_Answers
  imports Std_Constraints Constr_Delete "HOL-Library.Code_Target_Nat"
begin

text \<open>
  The answers of the standard constraints of three elements, and of one of five that shows the
  inlining: which triples an iterator over \<open>CONSTR_3_f_a_a\<close>, \<open>CONSTR_3_a_a_f\<close> and \<open>CONSTR_3_f_a_f\<close>
  visits. The first registrations of \<open>__init_std_constraints\<close> are evaluated; the statements hold for
  every registry that starts with them.
\<close>

section \<open>The first registrations\<close>

definition std_core :: "registry option" where
  "std_core =
     do {
       rg \<leftarrow> register_functions std_functions \<lparr>rg_entries = [], rg_sets = []\<rparr>;
       rg \<leftarrow> register_filters std_filters rg;
       register_constraints (take 9 std_order) rg
     }"

abbreviation ask :: "int list \<Rightarrow> int list \<Rightarrow> string \<Rightarrow> int \<Rightarrow> prg_item" where
  "ask is os nm k \<equiv> \<lparr>pi_type = SCD_CONSTR, pi_in = is, pi_out = os, pi_name = Some nm, pi_id = k\<rparr>"

abbreviation check :: "int list \<Rightarrow> string \<Rightarrow> int \<Rightarrow> prg_item" where
  "check is nm k \<equiv> \<lparr>pi_type = SCD_FILTER, pi_in = is, pi_out = [], pi_name = Some nm, pi_id = k\<rparr>"

abbreviation call :: "int list \<Rightarrow> int \<Rightarrow> string \<Rightarrow> int \<Rightarrow> prg_item" where
  "call is out nm k \<equiv> \<lparr>pi_type = SCD_FUNC, pi_in = is, pi_out = [out], pi_name = Some nm, pi_id = k\<rparr>"

abbreviation give :: "int list \<Rightarrow> prg_item" where
  "give is \<equiv> \<lparr>pi_type = SCD_RETURN, pi_in = is, pi_out = [], pi_name = None, pi_id = 0\<rparr>"

definition prog_type_input :: deconstruct where
  "prog_type_input = \<lparr>dc_input_cnt = 2, dc_reg_cnt = 1, dc_commands =
     [ask [1] [- 1, 2] ''all_input'' 11, check [2, 0] ''check_type'' 5, give [2, 1]]\<rparr>"

definition prog_type_output :: deconstruct where
  "prog_type_output = \<lparr>dc_input_cnt = 2, dc_reg_cnt = 1, dc_commands =
     [ask [0] [- 1, 2] ''all_output'' 12, check [2, 1] ''check_type'' 5, give [0, 2]]\<rparr>"

definition prog_3_faa :: deconstruct where
  "prog_3_faa = \<lparr>dc_input_cnt = 3, dc_reg_cnt = 2, dc_commands =
     [ask [0] [- 1, 3] ''all_output'' 12, check [3, 1] ''check_type'' 5,
      call [3] 4 ''get_end'' 1, check [4, 2] ''check_type'' 5, give [0, 3, 4]]\<rparr>"

definition prog_3_faf :: deconstruct where
  "prog_3_faf = \<lparr>dc_input_cnt = 3, dc_reg_cnt = 2, dc_commands =
     [ask [2] [- 1, 3] ''all_input'' 11, call [3] 4 ''get_beg'' 0,
      check [0, 4] ''equal2'' 6, check [3, 1] ''check_type'' 5, give [0, 3, 2]]\<rparr>"

definition prog_3_aaf :: deconstruct where
  "prog_3_aaf = \<lparr>dc_input_cnt = 3, dc_reg_cnt = 2, dc_commands =
     [ask [2] [- 1, 4] ''all_input'' 11, check [4, 1] ''check_type'' 5,
      call [4] 3 ''get_beg'' 0, check [3, 0] ''check_type'' 5, give [3, 4, 2]]\<rparr>"

definition prog_3_dfd :: deconstruct where
  "prog_3_dfd = \<lparr>dc_input_cnt = 8, dc_reg_cnt = 2, dc_commands =
     [check [3, 4] ''check_type'' 5, call [3] 8 ''get_beg'' 0, check [0, 8, 1, 2] ''equal_with_d'' 7,
      call [3] 9 ''get_end'' 1, check [5, 9, 6, 7] ''equal_with_d'' 7, give [8, 3, 9]]\<rparr>"

definition prog_5_faaaa :: deconstruct where
  "prog_5_faaaa = \<lparr>dc_input_cnt = 5, dc_reg_cnt = 4, dc_commands =
     [ask [0] [- 1, 5] ''all_output'' 12, check [5, 1] ''check_type'' 5,
      call [5] 6 ''get_end'' 1, check [6, 2] ''check_type'' 5,
      ask [5] [- 1, 7] ''all_input'' 11, check [7, 3] ''check_type'' 5,
      call [7] 8 ''get_beg'' 0, check [8, 4] ''check_type'' 5, give [0, 5, 6, 7, 8]]\<rparr>"

definition core_info :: "string \<Rightarrow> param_spec list \<Rightarrow> deconstruct option \<Rightarrow> reg_entry" where
  "core_info nm spec d = R_constr \<lparr>cn_name = Some nm, cn_spec = spec, cn_factory = None, cn_dec = d\<rparr>"

definition core_entries :: "reg_entry list" where
  "core_entries =
     [R_func ''get_beg'', R_func ''get_end'', R_func ''get_cpa'', R_func ''get_cna'', R_func ''get_0'',
      R_filter ''check_type'', R_filter ''equal2'', R_filter ''equal_with_d'', R_filter ''is_in_set'',
      R_filter ''not_in_set'', R_filter ''differ'',
      core_info ''all_input'' [SC_PD_ADDR] None, core_info ''all_output'' [SC_PD_ADDR] None,
      core_info ''arc_type_input'' [SC_PD_TYPE, SC_PD_ADDR] (Some prog_type_input),
      core_info ''arc_type_output'' [SC_PD_ADDR, SC_PD_TYPE] (Some prog_type_output),
      core_info ''std3_faa'' [SC_PD_ADDR, SC_PD_TYPE, SC_PD_TYPE] (Some prog_3_faa),
      core_info ''std3_faf'' [SC_PD_ADDR, SC_PD_TYPE, SC_PD_ADDR] (Some prog_3_faf),
      core_info ''std3_aaf'' [SC_PD_TYPE, SC_PD_TYPE, SC_PD_ADDR] (Some prog_3_aaf),
      core_info ''std3_dfd'' [SC_PD_ADDR_0, SC_PD_INT, SC_PD_TYPE, SC_PD_ADDR, SC_PD_TYPE,
        SC_PD_ADDR_0, SC_PD_INT, SC_PD_TYPE] (Some prog_3_dfd),
      core_info ''std5_faaaa'' [SC_PD_ADDR, SC_PD_TYPE, SC_PD_TYPE, SC_PD_TYPE, SC_PD_TYPE] (Some prog_5_faaaa)]"

lemma std_core_entries: "std_core = Some \<lparr>rg_entries = core_entries, rg_sets = []\<rparr>"
  by code_simp

definition has_core :: "registry \<Rightarrow> bool" where
  "has_core rg \<longleftrightarrow> take 20 (rg_entries rg) = core_entries"

section \<open>Registration only adds\<close>

definition reg_ext :: "registry \<Rightarrow> registry \<Rightarrow> bool" where
  "reg_ext rg rg' \<longleftrightarrow> (\<exists>es. rg_entries rg' = rg_entries rg @ es)"

lemma reg_ext_refl: "reg_ext rg rg"
  by (simp add: reg_ext_def)

lemma reg_ext_trans: "reg_ext a b \<Longrightarrow> reg_ext b c \<Longrightarrow> reg_ext a c"
  by (auto simp: reg_ext_def)

lemma reg_add_ext: "reg_add e rg = Some (rv, i, rg') \<Longrightarrow> reg_ext rg rg'"
  by (auto simp: reg_add_def reg_ext_def bind_eq_Some_conv split: option.splits if_splits)

lemma register_constraint_ext: "register_constraint n c rg = Some (rv, i, rg') \<Longrightarrow> reg_ext rg rg'"
  by (auto simp: register_constraint_def bind_eq_Some_conv reg_ext_refl split: option.splits dest: reg_add_ext)

lemma register_constraints_ext: "register_constraints cs rg = Some rg' \<Longrightarrow> reg_ext rg rg'"
proof (induction cs arbitrary: rg)
  case (Cons c cs)
  obtain nm d f where c: "c = (nm, d, f)" by (cases c)
  obtain info rv i rg1 where "register_constraint 4 info rg = Some (rv, i, rg1)" "register_constraints cs rg1 = Some rg'"
    using Cons.prems c by (auto simp: bind_eq_Some_conv)
  then show ?case using Cons.IH reg_ext_trans register_constraint_ext by blast
qed (simp add: reg_ext_refl)

lemma register_constraints_append:
  "register_constraints (xs @ ys) rg = do { rg \<leftarrow> register_constraints xs rg; register_constraints ys rg }"
proof (induction xs arbitrary: rg)
  case (Cons c cs)
  obtain nm d f where "c = (nm, d, f)" by (cases c)
  then show ?case
    by (auto intro!: Option.bind_cong simp: Cons.IH split: prod.split)
qed simp

lemma std_has_core:
  assumes "init_std_constraints = Some rg"
  shows "has_core rg"
proof -
  have e: "register_constraints std_order = (\<lambda>rg. do { rg \<leftarrow> register_constraints (take 9 std_order) rg; register_constraints (drop 9 std_order) rg })"
    using register_constraints_append [of "take 9 std_order" "drop 9 std_order"] by (simp add: fun_eq_iff)
  have "init_std_constraints = do { rg \<leftarrow> std_core; register_constraints (drop 9 std_order) rg }"
    unfolding init_std_constraints_def std_core_def
    by (simp add: e Option.bind_assoc)
  then have "register_constraints (drop 9 std_order) \<lparr>rg_entries = core_entries, rg_sets = []\<rparr> = Some rg"
    using assms unfolding std_core_entries by simp
  from register_constraints_ext [OF this] show ?thesis by (auto simp: reg_ext_def has_core_def core_entries_def)
qed

section \<open>Reading the registry\<close>

lemma has_core_split: "has_core rg \<Longrightarrow> \<exists>es. rg_entries rg = core_entries @ es"
  unfolding has_core_def by (metis append_take_drop_id)

lemma find_name_append: "find_name nm es i \<noteq> - 1 \<Longrightarrow> find_name nm (es @ fs) i = find_name nm es i"
  by (induction es arbitrary: i) auto

lemma core_find:
  assumes "has_core rg" "find_name nm core_entries 0 = k" "k \<noteq> - 1"
  shows "find_holder_id_by_name nm rg = k"
  using has_core_split [OF assms(1)] assms(2,3) find_name_append [of nm core_entries 0]
  by (auto simp: find_holder_id_by_name_def)

lemma core_ids:
  assumes "has_core rg"
  shows "find_holder_id_by_name ''all_input'' rg = 11" "find_holder_id_by_name ''all_output'' rg = 12"
    "find_holder_id_by_name ''std3_faa'' rg = 15" "find_holder_id_by_name ''std3_faf'' rg = 16"
    "find_holder_id_by_name ''std3_aaf'' rg = 17" "find_holder_id_by_name ''std5_faaaa'' rg = 19"
  by (rule core_find [OF assms], simp add: core_entries_def core_info_def, simp)+

lemma core_nth:
  assumes "has_core rg"
  shows "i < 20 \<Longrightarrow> i < length (rg_entries rg) \<and> rg_entries rg ! i = core_entries ! i"
proof -
  have "length core_entries = 20" by (simp add: core_entries_def)
  then show "i < 20 \<Longrightarrow> i < length (rg_entries rg) \<and> rg_entries rg ! i = core_entries ! i"
    using has_core_split [OF assms] by (auto simp: nth_append)
qed

lemma core_lookup:
  assumes "has_core rg"
  shows "get_function 0 rg = Some ''get_beg''" "get_function 1 rg = Some ''get_end''"
    "get_filter 5 rg = Some ''check_type''" "get_filter 6 rg = Some ''equal2''"
    "get_info 11 rg = Some \<lparr>cn_name = Some ''all_input'', cn_spec = [SC_PD_ADDR], cn_factory = None, cn_dec = None\<rparr>"
    "get_info 12 rg = Some \<lparr>cn_name = Some ''all_output'', cn_spec = [SC_PD_ADDR], cn_factory = None, cn_dec = None\<rparr>"
    "get_info 15 rg = Some \<lparr>cn_name = Some ''std3_faa'', cn_spec = [SC_PD_ADDR, SC_PD_TYPE, SC_PD_TYPE], cn_factory = None,
       cn_dec = Some prog_3_faa\<rparr>"
    "get_info 16 rg = Some \<lparr>cn_name = Some ''std3_faf'', cn_spec = [SC_PD_ADDR, SC_PD_TYPE, SC_PD_ADDR], cn_factory = None,
       cn_dec = Some prog_3_faf\<rparr>"
    "get_info 17 rg = Some \<lparr>cn_name = Some ''std3_aaf'', cn_spec = [SC_PD_TYPE, SC_PD_TYPE, SC_PD_ADDR], cn_factory = None,
       cn_dec = Some prog_3_aaf\<rparr>"
    "get_info 19 rg = Some \<lparr>cn_name = Some ''std5_faaaa'', cn_spec = [SC_PD_ADDR, SC_PD_TYPE, SC_PD_TYPE, SC_PD_TYPE, SC_PD_TYPE],
       cn_factory = None, cn_dec = Some prog_5_faaaa\<rparr>"
proof -
  have "rg_entries rg \<noteq> []" using core_nth [OF assms, of 0] by auto
  then show "get_function 0 rg = Some ''get_beg''"
    using core_nth [OF assms, of 0] by (simp add: get_function_def core_entries_def)
qed (use core_nth [OF assms] in \<open>simp_all add: get_function_def get_filter_def get_info_def core_entries_def core_info_def\<close>)

lemma core_side:
  assumes "has_core rg"
  shows "all_side rg 11 = Some End" "all_side rg 12 = Some Beg"
  using core_ids [OF assms] by (simp_all add: all_side_def)

lemma core_programs_ok:
  "wf_dec prog_3_faa" "wf_dec prog_3_faf" "wf_dec prog_3_aaf" "wf_dec prog_3_dfd" "wf_dec prog_5_faaaa"
  by (simp_all add: wf_dec_def Let_def prog_3_faa_def prog_3_faf_def prog_3_aaf_def prog_3_dfd_def prog_5_faaaa_def
      inputs_def item_ok_def upt_rec)

section \<open>A client's loop\<close>

text \<open>\<open>create_iterator\<close> with the constraint \<open>nm\<close>, and the loop over all its answers; the registers that
  are not parameters hold \<open>wd_junk\<close>.\<close>

definition iterate ::
  "nat \<Rightarrow> registry \<Rightarrow> nat \<Rightarrow> nat \<Rightarrow> string \<Rightarrow> cparam list \<Rightarrow> world \<Rightarrow> (nat list list \<times> world) option" where
  "iterate n rg ss sys nm prm w =
     do {
       let E = world_env rg ss sys (find_arc rg sys);
       (plan, _) \<leftarrow> iterator_plan (\<lambda>a. map_option (\<lambda>_. False) (wd_addrs w a)) (find_holder_id_by_name nm rg) prm rg;
       (case plan of
          Plan_program d \<Rightarrow>
            do { (st, w) \<leftarrow> fb_new n E d prm (replicate (dc_reg_cnt d) (P_addr (wd_junk w))) w; fb_collect n E st w }
        | _ \<Rightarrow> None)
     }"

section \<open>The answers\<close>

definition ends_of :: "side \<Rightarrow> nat \<Rightarrow> nat \<Rightarrow> world \<Rightarrow> nat \<Rightarrow> nat list" where
  "ends_of sd ss sys W a = (case end_opened sd ss sys W a of None \<Rightarrow> [] | Some b \<Rightarrow> [b])"

definition fits :: "nat \<Rightarrow> world \<Rightarrow> sc_type \<Rightarrow> nat \<Rightarrow> bool" where
  "fits sys W t a \<longleftrightarrow> check_sc_type (type_seen sys W a) t"

definition answers_3_faa :: "nat \<Rightarrow> nat \<Rightarrow> world \<Rightarrow> nat \<Rightarrow> sc_type \<Rightarrow> sc_type \<Rightarrow> nat list list" where
  "answers_3_faa ss sys W e1 t2 t3 =
     [[e1, e2, e3]. e2 \<leftarrow> arcs_seen Beg ss W e1, fits sys W t2 e2, e3 \<leftarrow> ends_of End ss sys W e2, fits sys W t3 e3]"

definition answers_3_aaf :: "nat \<Rightarrow> nat \<Rightarrow> world \<Rightarrow> sc_type \<Rightarrow> sc_type \<Rightarrow> nat \<Rightarrow> nat list list" where
  "answers_3_aaf ss sys W t1 t2 e3 =
     [[e1, e2, e3]. e2 \<leftarrow> arcs_seen End ss W e3, fits sys W t2 e2, e1 \<leftarrow> ends_of Beg ss sys W e2, fits sys W t1 e1]"

definition answers_3_faf :: "nat \<Rightarrow> nat \<Rightarrow> world \<Rightarrow> nat \<Rightarrow> sc_type \<Rightarrow> nat \<Rightarrow> nat list list" where
  "answers_3_faf ss sys W e1 t2 e3 =
     [[e1, e2, e3]. e2 \<leftarrow> arcs_seen End ss W e3, b \<leftarrow> ends_of Beg ss sys W e2, e1 = b, fits sys W t2 e2]"

definition answers_5_faaaa :: "nat \<Rightarrow> nat \<Rightarrow> world \<Rightarrow> nat \<Rightarrow> sc_type \<Rightarrow> sc_type \<Rightarrow> sc_type \<Rightarrow> sc_type \<Rightarrow> nat list list" where
  "answers_5_faaaa ss sys W e1 t2 t3 t4 t5 =
     [[e1, e2, e3, e4, e5]. e2 \<leftarrow> arcs_seen Beg ss W e1, fits sys W t2 e2, e3 \<leftarrow> ends_of End ss sys W e2, fits sys W t3 e3,
        e4 \<leftarrow> arcs_seen End ss W e2, fits sys W t4 e4, e5 \<leftarrow> ends_of Beg ss sys W e4, fits sys W t5 e5]"

lemma length_2: "length xs = 2 \<Longrightarrow> \<exists>a b. xs = [a, b]"
  by (auto simp: length_Suc_conv numeral_2_eq_2)

lemma sem_core:
  assumes "has_core rg"
  shows "cs_src (world_sem k rg ss sys W) 11 as = map (\<lambda>x. [addr_of (as ! 0), x]) (arcs_seen End ss W (addr_of (as ! 0)))"
    "cs_src (world_sem k rg ss sys W) 12 as = map (\<lambda>x. [addr_of (as ! 0), x]) (arcs_seen Beg ss W (addr_of (as ! 0)))"
    "cs_filter (world_sem k rg ss sys W) 5 as = fits sys W (type_of (as ! 1)) (addr_of (as ! 0))"
    "cs_filter (world_sem k rg ss sys W) 6 as = (addr_of (as ! 0) = addr_of (as ! 1))"
    "cs_func (world_sem k rg ss sys W) 0 as = map_option P_addr (end_opened Beg ss sys W (addr_of (as ! 0)))"
    "cs_func (world_sem k rg ss sys W) 1 as = map_option P_addr (end_opened End ss sys W (addr_of (as ! 0)))"
    "cs_src_ok (world_sem k rg ss sys W) 11 as = (length as = 1 \<and> is_addr W (as ! 0))"
    "cs_src_ok (world_sem k rg ss sys W) 12 as = (length as = 1 \<and> is_addr W (as ! 0))"
    "cs_filter_ok (world_sem k rg ss sys W) 5 as = (2 \<le> length as \<and> addr_or_null W (as ! 0) \<and> p_type (as ! 1) \<noteq> None)"
    "cs_filter_ok (world_sem k rg ss sys W) 6 as = (2 \<le> length as \<and> p_addr (as ! 0) \<noteq> None \<and> p_addr (as ! 1) \<noteq> None)"
    "cs_func_ok (world_sem k rg ss sys W) 0 as = (as \<noteq> [] \<and> addr_or_null W (as ! 0))"
    "cs_func_ok (world_sem k rg ss sys W) 1 as = (as \<noteq> [] \<and> addr_or_null W (as ! 0))"
  by (simp_all add: world_sem_def core_lookup [OF assms] core_side [OF assms] filter_means_def filter_fit_def func_means_def
      func_fit_def fits_def)

lemma cparam_of [simp]: "addr_of (P_addr a) = a" "type_of (P_type t) = t"
  by (simp_all add: addr_of_def type_of_def)

lemmas run_simps = args_def tuple_value_def answer_def ends_of_def map_concat comp_def

lemma results_3_faa:
  assumes "has_core rg" "length junk = 2"
  shows "results (world_sem k rg ss sys W) prog_3_faa [P_addr e1, P_type t2, P_type t3] junk = answers_3_faa ss sys W e1 t2 t3"
proof -
  obtain j1 j2 where j: "junk = [j1, j2]" using length_2 [OF assms(2)] by blast
  show ?thesis
    unfolding results_def answers_3_faa_def j
    by (simp add: prog_3_faa_def sem_core [OF assms(1)] run_simps cong: if_cong option.case_cong)
      (auto intro!: arg_cong [where f = concat] map_cong split: option.split simp: answer_def args_def)
qed

lemma results_3_aaf:
  assumes "has_core rg" "length junk = 2"
  shows "results (world_sem k rg ss sys W) prog_3_aaf [P_type t1, P_type t2, P_addr e3] junk = answers_3_aaf ss sys W t1 t2 e3"
proof -
  obtain j1 j2 where j: "junk = [j1, j2]" using length_2 [OF assms(2)] by blast
  show ?thesis
    unfolding results_def answers_3_aaf_def j
    by (simp add: prog_3_aaf_def sem_core [OF assms(1)] run_simps cong: if_cong option.case_cong)
      (auto intro!: arg_cong [where f = concat] map_cong split: option.split simp: answer_def args_def)
qed

lemma results_3_faf:
  assumes "has_core rg" "length junk = 2"
  shows "results (world_sem k rg ss sys W) prog_3_faf [P_addr e1, P_type t2, P_addr e3] junk = answers_3_faf ss sys W e1 t2 e3"
proof -
  obtain j1 j2 where j: "junk = [j1, j2]" using length_2 [OF assms(2)] by blast
  show ?thesis
    unfolding results_def answers_3_faf_def j
    by (simp add: prog_3_faf_def sem_core [OF assms(1)] run_simps cong: if_cong option.case_cong)
      (auto intro!: arg_cong [where f = concat] map_cong split: option.split simp: answer_def args_def)
qed

lemma results_5_faaaa:
  assumes "has_core rg" "length junk = 4"
  shows "results (world_sem k rg ss sys W) prog_5_faaaa [P_addr e1, P_type t2, P_type t3, P_type t4, P_type t5] junk =
    answers_5_faaaa ss sys W e1 t2 t3 t4 t5"
proof -
  obtain j1 j2 j3 j4 where j: "junk = [j1, j2, j3, j4]" using assms(2) by (auto simp: length_Suc_conv eval_nat_numeral)
  show ?thesis
    unfolding results_def answers_5_faaaa_def j
    by (simp add: prog_5_faaaa_def sem_core [OF assms(1)] run_simps cong: if_cong option.case_cong)
      (auto intro!: arg_cong [where f = concat] map_cong split: option.split simp: answer_def args_def map_concat comp_def)
qed

section \<open>The programs are safe\<close>

lemma arcs_known:
  assumes "quiet W" "x \<in> set (arcs_seen sd ss W a)"
  shows "wd_addrs W x \<noteq> None"
proof -
  have "y \<in> set (place_addrs sd W ll) \<Longrightarrow> wd_addrs W y \<noteq> None" for y ll
    using quiet_arc [OF assms(1)] by (fastforce simp: place_addrs_def)
  then show ?thesis using assms(2) by (auto simp: arcs_seen_def arcs_left_def split: option.splits)
qed

lemma end_known: "end_opened sd ss sys W a = Some b \<Longrightarrow> wd_addrs W b \<noteq> None"
  using sees_known by (auto simp: end_opened_def bind_eq_Some_conv split: if_splits)

lemma is_addr_P [simp]: "is_addr W (P_addr a) = (wd_addrs W a \<noteq> None)" "addr_or_null W (P_addr a) = (a = 0 \<or> wd_addrs W a \<noteq> None)"
  by (auto simp: is_addr_def addr_or_null_def)

lemmas known_intros = arcs_known end_known

lemma safe_3:
  assumes "has_core rg" "quiet W" "length junk = 2"
  shows "wd_addrs W e1 \<noteq> None \<Longrightarrow> safe (world_sem k rg ss sys W) (butlast (dc_commands prog_3_faa)) ([P_addr e1, P_type t2, P_type t3] @ junk)"
    and "wd_addrs W e3 \<noteq> None \<Longrightarrow> safe (world_sem k rg ss sys W) (butlast (dc_commands prog_3_aaf)) ([P_type t1, P_type t2, P_addr e3] @ junk)"
    and "wd_addrs W e3 \<noteq> None \<Longrightarrow> safe (world_sem k rg ss sys W) (butlast (dc_commands prog_3_faf)) ([P_addr e1, P_type t2, P_addr e3] @ junk)"
proof -
  obtain j1 j2 where j: "junk = [j1, j2]" using length_2 [OF assms(3)] by blast
  show "wd_addrs W e1 \<noteq> None \<Longrightarrow> safe (world_sem k rg ss sys W) (butlast (dc_commands prog_3_faa)) ([P_addr e1, P_type t2, P_type t3] @ junk)"
    unfolding j using arcs_known [OF assms(2)] end_known
    by (fastforce simp: prog_3_faa_def sem_core [OF assms(1)] args_def tuple_value_def split: option.split)
  show "wd_addrs W e3 \<noteq> None \<Longrightarrow> safe (world_sem k rg ss sys W) (butlast (dc_commands prog_3_aaf)) ([P_type t1, P_type t2, P_addr e3] @ junk)"
    unfolding j using arcs_known [OF assms(2)] end_known
    by (fastforce simp: prog_3_aaf_def sem_core [OF assms(1)] args_def tuple_value_def split: option.split)
  show "wd_addrs W e3 \<noteq> None \<Longrightarrow> safe (world_sem k rg ss sys W) (butlast (dc_commands prog_3_faf)) ([P_addr e1, P_type t2, P_addr e3] @ junk)"
    unfolding j using arcs_known [OF assms(2)] end_known
    by (fastforce simp: prog_3_faf_def sem_core [OF assms(1)] args_def tuple_value_def split: option.split)
qed

lemma safe_5:
  assumes "has_core rg" "quiet W" "length junk = 4" "wd_addrs W e1 \<noteq> None"
  shows "safe (world_sem k rg ss sys W) (butlast (dc_commands prog_5_faaaa)) ([P_addr e1, P_type t2, P_type t3, P_type t4, P_type t5] @ junk)"
proof -
  obtain j1 j2 j3 j4 where j: "junk = [j1, j2, j3, j4]" using assms(3) by (auto simp: length_Suc_conv eval_nat_numeral)
  show ?thesis
    unfolding j using arcs_known [OF assms(2)] end_known assms(4)
    by (fastforce simp: prog_5_faaaa_def sem_core [OF assms(1)] args_def tuple_value_def split: option.split)
qed

lemma readable_3:
  assumes "has_core rg" "length junk = 2"
  shows "readable (last (dc_commands prog_3_faa)) (sols (world_sem k rg ss sys W) (butlast (dc_commands prog_3_faa)) ([P_addr e1, P_type t2, P_type t3] @ junk))"
    and "readable (last (dc_commands prog_3_aaf)) (sols (world_sem k rg ss sys W) (butlast (dc_commands prog_3_aaf)) ([P_type t1, P_type t2, P_addr e3] @ junk))"
    and "readable (last (dc_commands prog_3_faf)) (sols (world_sem k rg ss sys W) (butlast (dc_commands prog_3_faf)) ([P_addr e1, P_type t2, P_addr e3] @ junk))"
proof -
  obtain j1 j2 where j: "junk = [j1, j2]" using length_2 [OF assms(2)] by blast
  note simps = readable_def sem_core [OF assms(1)] args_def tuple_value_def
  show "readable (last (dc_commands prog_3_faa)) (sols (world_sem k rg ss sys W) (butlast (dc_commands prog_3_faa)) ([P_addr e1, P_type t2, P_type t3] @ junk))"
    unfolding j by (auto simp: prog_3_faa_def simps split: if_splits option.splits dest!: sym [of "Some _"])
  show "readable (last (dc_commands prog_3_aaf)) (sols (world_sem k rg ss sys W) (butlast (dc_commands prog_3_aaf)) ([P_type t1, P_type t2, P_addr e3] @ junk))"
    unfolding j by (auto simp: prog_3_aaf_def simps split: if_splits option.splits dest!: sym [of "Some _"])
  show "readable (last (dc_commands prog_3_faf)) (sols (world_sem k rg ss sys W) (butlast (dc_commands prog_3_faf)) ([P_addr e1, P_type t2, P_addr e3] @ junk))"
    unfolding j by (auto simp: prog_3_faf_def simps split: if_splits option.splits dest!: sym [of "Some _"])
qed

lemma readable_5:
  assumes "has_core rg" "length junk = 4"
  shows "readable (last (dc_commands prog_5_faaaa))
    (sols (world_sem k rg ss sys W) (butlast (dc_commands prog_5_faaaa)) ([P_addr e1, P_type t2, P_type t3, P_type t4, P_type t5] @ junk))"
proof -
  obtain j1 j2 j3 j4 where j: "junk = [j1, j2, j3, j4]" using assms(2) by (auto simp: length_Suc_conv eval_nat_numeral)
  show ?thesis
    unfolding j by (auto simp: prog_5_faaaa_def readable_def sem_core [OF assms(1)] args_def tuple_value_def
        split: if_splits option.splits dest!: sym [of "Some _"])
qed

section \<open>The search for an arc\<close>

lemma plan_program:
  assumes "get_info cid rg = Some info" "cn_factory info = None" "cn_dec info = Some d" "set_params_of is_set (cn_spec info) prm 0 = Some 0"
  shows "iterator_plan is_set cid prm rg = Some (Plan_program d, rg)"
  using assms by (simp add: iterator_plan_def)

lemma quiet_sessions:
  assumes "world_ok k in_set ss sys W w"
  shows "quiet W" "wd_sessions W ss \<noteq> None" "wd_sessions W sys \<noteq> None"
  using assms by (simp_all add: world_ok_def)

lemma end_opened_same: "end_opened sd ss ss W a = end_seen sd ss W a"
  using end_seen_sees [of sd ss W a] by (cases "end_seen sd ss W a") (auto simp: end_opened_def)

lemma answers_arc: "answers_3_faf sys sys W s t e \<noteq> [] \<longleftrightarrow> arc_from_to sys W t s e"
  by (auto simp: answers_3_faf_def arc_from_to_def ends_of_def end_opened_same fits_def split: option.splits if_splits)

lemma find_arc_law:
  assumes "has_core rg" "quiet W" "wd_sessions W sys \<noteq> None" "wd_addrs W s \<noteq> None" "wd_addrs W e \<noteq> None"
  shows "\<exists>er'. find_arc rg sys s e (bump h er W) = Some (arc_from_to sys W (SC_A_CONST OR SC_POS) s e, bump h er' W)"
proof -
  let ?t = "SC_A_CONST OR SC_POS :: sc_type" and ?E = "world_env rg sys sys no_set" and ?S = "world_sem False rg sys sys W"
  let ?prm = "[P_addr s, P_type ?t, P_addr e]" and ?w = "bump h er W"
  let ?junk = "replicate (dc_reg_cnt prog_3_faf) (P_addr (wd_junk ?w))"
  have j: "length ?junk = 2" by (simp add: prog_3_faf_def)
  have ok: "world_ok False no_set sys sys W ?w" using assms(2,3) by (auto simp: world_ok_def)
  have keep: "search_keeps no_set W" by (simp add: search_keeps_def no_set_def)
  obtain N w' where N: "(do { (st, w) \<leftarrow> fb_new N ?E prog_3_faf ?prm ?junk ?w; fb_collect N ?E st w }) =
      Some (results ?S prog_3_faf ?prm ?junk, w')"
    using wp.run_program [OF core_programs_ok(2) _ _ ok safe_3(3) [OF assms(1,2) j assms(5)] readable_3(3) [OF assms(1) j]]
    by (fastforce simp: prog_3_faf_def)
  then obtain st w1 where st: "fb_new N ?E prog_3_faf ?prm ?junk ?w = Some (st, w1)"
    "fb_collect N ?E st w1 = Some (answers_3_faf sys sys W s ?t e, w')"
    using results_3_faf [OF assms(1) j] by (auto simp: bind_eq_Some_conv)
  have ov: "fb_over st \<longleftrightarrow> answers_3_faf sys sys W s ?t e = []"
    using st(2) by (cases N) (auto simp: bind_eq_Some_conv split: if_splits)
  have l: "length ?prm = dc_input_cnt prog_3_faf" "length ?junk = dc_reg_cnt prog_3_faf" by (simp_all add: prog_3_faf_def)
  obtain er' where del: "fb_delete ?E st w1 = Some (bump h er' W)"
    using fb_held_delete [OF assms(2,3) core_programs_ok(2) fb_new_held [OF assms(2,3,3) keep core_programs_ok(2) l st(1)]] by blast
  have plan: "iterator_plan (\<lambda>a. map_option (\<lambda>_. False) (wd_addrs ?w a)) (find_holder_id_by_name ''std3_faf'' rg) ?prm rg =
      Some (Plan_program prog_3_faf, rg)"
    using assms(4,5) core_lookup(8) [OF assms(1)] core_ids(4) [OF assms(1)] by (auto intro!: plan_program)
  show ?thesis
    using fb_start_fuel [OF st(1)] plan del ov answers_arc [of sys W s ?t e]
    by (intro exI [of _ er']) (simp add: find_arc_def Let_def)
qed

lemma find_arc_ok:
  assumes "has_core rg" "quiet W" "wd_sessions W sys \<noteq> None"
  shows "arc_search_ok (find_arc rg sys) sys W"
  using find_arc_law [OF assms] by (simp add: arc_search_ok_def)

section \<open>Iterating\<close>

lemma iterate_program:
  assumes rg: "has_core rg" "get_info (find_holder_id_by_name nm rg) rg = Some info" "cn_factory info = None" "cn_dec info = Some d"
    and W: "quiet W" "wd_sessions W ss \<noteq> None" "wd_sessions W sys \<noteq> None"
    and prm: "length prm = dc_input_cnt d" "set_params_of (\<lambda>a. map_option (\<lambda>_. False) (wd_addrs W a)) (cn_spec info) prm 0 = Some 0"
    and d: "wf_dec d" "\<And>junk. length junk = dc_reg_cnt d \<Longrightarrow> safe (world_sem True rg ss sys W) (butlast (dc_commands d)) (prm @ junk)"
      "\<And>junk. length junk = dc_reg_cnt d \<Longrightarrow>
        readable (last (dc_commands d)) (sols (world_sem True rg ss sys W) (butlast (dc_commands d)) (prm @ junk))"
      "\<And>junk. length junk = dc_reg_cnt d \<Longrightarrow> results (world_sem True rg ss sys W) d prm junk = ts"
  shows "\<exists>N er. \<forall>n \<ge> N. iterate n rg ss sys nm prm W = Some (ts, bump {#} er W)"
proof -
  let ?E = "world_env rg ss sys (find_arc rg sys)" and ?S = "world_sem True rg ss sys W"
  let ?junk = "replicate (dc_reg_cnt d) (P_addr (wd_junk W))"
  have j: "length ?junk = dc_reg_cnt d" by simp
  have ok: "world_ok True (find_arc rg sys) ss sys W W"
    using W find_arc_ok [OF rg(1) W(1,3)] bump_none [of W] by (auto simp: world_ok_def intro: sym)
  obtain N w' where N: "silent W w'" "\<And>n. N \<le> n \<Longrightarrow>
      (do { (st, w) \<leftarrow> fb_new n ?E d prm ?junk W; fb_collect n ?E st w }) = Some (ts, w')"
    using wp.run_program_fuel [OF d(1) prm(1) j ok d(2,3) [OF j]] d(4) [OF j] by auto
  obtain er where "w' = bump {#} er W"
    using N(1) silent_bumpD [of "{#}" "\<lambda>_. None" W w'] by (auto simp: bump_none)
  moreover have "iterate n rg ss sys nm prm W = (do { (st, w) \<leftarrow> fb_new n ?E d prm ?junk W; fb_collect n ?E st w })" for n
    using plan_program [OF rg(2-4) prm(2)] by (simp add: iterate_def Let_def)
  ultimately show ?thesis using N(2) by auto
qed

section \<open>A small memory\<close>

text \<open>An arc (address \<open>9\<close>) from the node \<open>7\<close> to the node \<open>8\<close> in segment \<open>1\<close>, opened in the sessions
  \<open>5\<close> and \<open>6\<close>.\<close>

definition arc_world :: world where
  "arc_world = small_world\<lparr>
     st_els := [2 \<mapsto> (new_element SC_N_CONST TMP_MISSING_IDTF)\<lparr>el_addr := 7, el_output := [11], el_out_qnt := 1\<rparr>,
        3 \<mapsto> (new_element SC_N_CONST TMP_MISSING_IDTF)\<lparr>el_addr := 8, el_input := [12], el_in_qnt := 1\<rparr>,
        4 \<mapsto> (new_element SC_ARC_MAIN TMP_MISSING_IDTF)\<lparr>el_addr := 9, el_beg := 2, el_beg_hint := 11, el_end := 3, el_end_hint := 12\<rparr>],
     st_links := [11 \<mapsto> quiet_link 4, 12 \<mapsto> quiet_link 4]\<rparr>"

lemma arc_world_sel:
  "st_segs arc_world = st_segs small_world" "wd_addrs arc_world = wd_addrs small_world"
  "wd_sessions arc_world = wd_sessions small_world" "st_fresh arc_world = 20"
  by (simp_all add: arc_world_def small_world_def)

lemma arc_world_inv: "wd_inv arc_world"
proof -
  have "store_adj arc_world"
    by (auto simp: store_adj_def adj_ok_def adj_inv_def fresh_ok_def arc_world_def small_world_def view_defs
        new_element_def adj_def quiet_link_def split: side.splits if_splits)
  then show ?thesis
    by (auto simp: wd_inv_def gaddr_ok_def new_gaddr_def links_sorted_def cells_def arc_world_def small_world_def
        new_element_def el_is_link_def new_segment_def SC_MAX_SEGMENTS_def split: if_splits)
qed

lemma arc_world_quiet: "quiet arc_world"
  unfolding quiet_def
  by (auto simp: arc_world_inv arc_world_sel new_gaddr_def new_segment_def new_session_def vT_def)
    (auto simp: arc_world_def new_element_def split: if_splits)

definition core_registry :: registry where
  "core_registry = \<lparr>rg_entries = core_entries, rg_sets = []\<rparr>"

lemma core_registry_has: "has_core core_registry"
  by (simp add: has_core_def core_registry_def core_entries_def)

end
