(* ===== verification/Std_Props.thy ===== *)
theory Std_Props
  imports Std_Answers
begin

text \<open>
  The properties of search constraints over a quiet memory: an iterator gives the answers of its
  program and leaves the memory as it was, it can be deleted at any time, the filters that look for
  arcs decide, and the standard constraints find the right triples and quintuples.
\<close>

section \<open>Deleting at any time\<close>

lemma plan_set_params:
  "iterator_plan is_set cid prm rg \<noteq> None \<Longrightarrow> get_info cid rg = Some info \<Longrightarrow> set_params_of is_set (cn_spec info) prm 0 \<noteq> None"
  by (cases "set_params_of is_set (cn_spec info) prm 0") (simp_all add: iterator_plan_def)

lemma find_arc_keeps:
  assumes "has_core rg" "quiet W" "wd_sessions W sys \<noteq> None"
  shows "search_keeps (find_arc rg sys) W"
proof -
  have known: "wd_addrs W s \<noteq> None \<and> wd_addrs W e \<noteq> None" if "find_arc rg sys s e (bump h er W) = Some x" for s e h er x
  proof -
    let ?is = "\<lambda>a. map_option (\<lambda>_. False) (wd_addrs (bump h er W) a)"
    let ?prm = "[P_addr s, P_type (SC_A_CONST OR SC_POS), P_addr e]"
    have "iterator_plan ?is 16 ?prm rg \<noteq> None"
      using that unfolding find_arc_def Let_def core_ids(4) [OF assms(1)] by (cases "iterator_plan ?is 16 ?prm rg") simp_all
    from plan_set_params [OF this core_lookup(8) [OF assms(1)]]
    have "set_params_of ?is [SC_PD_ADDR, SC_PD_TYPE, SC_PD_ADDR] ?prm 0 \<noteq> None"
      unfolding constraint_info.simps .
    then show ?thesis by (cases "wd_addrs W s"; cases "wd_addrs W e") simp_all
  qed
  show ?thesis
    unfolding search_keeps_def
  proof (intro allI impI)
    fix h er s e b w'
    assume f: "find_arc rg sys s e (bump h er W) = Some (b, w')"
    then have k: "wd_addrs W s \<noteq> None" "wd_addrs W e \<noteq> None" using known by blast+
    from find_arc_law [OF assms this, of h er] show "\<exists>er'. w' = bump h er' W" using f by auto
  qed
qed

text \<open>A client that takes some more answers.\<close>

fun fb_skip :: "nat \<Rightarrow> nat \<Rightarrow> ('i, 'w) cenv \<Rightarrow> 'i fb \<Rightarrow> 'w \<Rightarrow> ('i fb \<times> 'w) option" where
  "fb_skip 0 n E st w = Some (st, w)"
| "fb_skip (Suc m) n E st w = do { (_, st, w) \<leftarrow> fb_next n E st w; fb_skip m n E st w }"

lemma fb_skip_held:
  assumes "quiet W" "wd_sessions W ss \<noteq> None" "wd_sessions W sys \<noteq> None" "search_keeps in_set W" "wf_dec d"
    and "fb_held ss W h d st w" "fb_skip m n (world_env rg ss sys in_set) st w = Some (st', w')"
  shows "fb_held ss W h d st' w'"
  using assms(6,7)
proof (induction m arbitrary: st w)
  case (Suc m)
  then obtain rv st1 w1 where "fb_next n (world_env rg ss sys in_set) st w = Some (rv, st1, w1)"
    "fb_skip m n (world_env rg ss sys in_set) st1 w1 = Some (st', w')" by (auto simp: bind_eq_Some_conv)
  then show ?case using Suc.IH fb_next_held [OF assms(1-5)] Suc.prems(1) by blast
qed simp


lemma arc_world_core: "wd_addrs arc_world 7 \<noteq> None" "wd_addrs arc_world 8 \<noteq> None"
  "wd_sessions arc_world 5 \<noteq> None" "wd_sessions arc_world 6 \<noteq> None"
  by (simp_all add: arc_world_sel)

lemma arc_world_opened: "session_opened 5 1 arc_world = Some True" "session_opened 6 1 arc_world = Some True"
  using small_opened [of 5] small_opened [of 6] by (simp_all add: session_opened_def arc_world_sel)

lemma arc_world_seen:
  "arcs_seen Beg 5 arc_world 7 = [9]" "arcs_seen End ss arc_world 8 = [9]"
  "end_seen End 6 arc_world 9 = Some 8" "end_seen Beg 6 arc_world 9 = Some 7"
  "sees 5 arc_world x \<longleftrightarrow> x \<in> {7, 8, 9}" "sees 6 arc_world x \<longleftrightarrow> x \<in> {7, 8, 9}"
  using arc_world_opened
  by (auto simp: arcs_seen_def end_seen_def sees_def element_of_def arc_world_sel new_gaddr_def place_addrs_def vA_def arc_addr_def
      arcs_left_def arc_world_def new_element_def adj_def quiet_link_def SC_ARC_MAIN_def mask_values split: option.splits if_splits)

lemma arc_world_fits: "fits 6 arc_world 0 8" "fits 6 arc_world 0 9" "fits 6 arc_world SC_ARC_MAIN 9"
proof -
  have "type_seen 6 arc_world 8 = SC_N_CONST" "type_seen 6 arc_world 9 = SC_ARC_MAIN"
    by (simp_all add: type_seen_def arc_world_seen(6), simp_all add: element_of_def arc_world_sel new_gaddr_def)
      (simp_all add: arc_world_def new_element_def)
  moreover have "check_sc_type SC_N_CONST 0" "check_sc_type SC_ARC_MAIN 0" "check_sc_type SC_ARC_MAIN SC_ARC_MAIN" by code_simp+
  ultimately show "fits 6 arc_world 0 8" "fits 6 arc_world 0 9" "fits 6 arc_world SC_ARC_MAIN 9" by (simp_all add: fits_def)
qed

lemma arc_world_answers:
  "answers_3_faa 5 6 arc_world 7 SC_ARC_MAIN 0 = [[7, 9, 8]]"
  "answers_3_aaf 5 6 arc_world 0 SC_ARC_MAIN 8 = (if fits 6 arc_world 0 7 then [[7, 9, 8]] else [])"
  using arc_world_fits arc_world_seen
  by (simp_all add: answers_3_faa_def answers_3_aaf_def ends_of_def end_opened_def)

section \<open>Properties\<close>

text \<open>C10. An iterator over any well-formed constraint program, run over a quiet memory with the
  session's iterators and the standard filters and functions, returns and gives exactly the answers
  of the program's nest of loops, in their order; afterwards the memory is as it was, all references
  given back, but for the error codes of sessions. It holds for all fuel from some bound on.\<close>

theorem program_iteration_complete:
  assumes "has_core rg" "quiet W" "wd_sessions W ss \<noteq> None" "wd_sessions W sys \<noteq> None"
    and "wf_dec d" "length prm = dc_input_cnt d" "length junk = dc_reg_cnt d"
    and "safe (world_sem True rg ss sys W) (butlast (dc_commands d)) (prm @ junk)"
    and "readable (last (dc_commands d)) (sols (world_sem True rg ss sys W) (butlast (dc_commands d)) (prm @ junk))"
  shows "\<exists>N er. \<forall>n \<ge> N.
    (do { (st, w) \<leftarrow> fb_new n (world_env rg ss sys (find_arc rg sys)) d prm junk W;
          fb_collect n (world_env rg ss sys (find_arc rg sys)) st w }) =
    Some (results (world_sem True rg ss sys W) d prm junk, bump {#} er W)"
proof -
  have ok: "world_ok True (find_arc rg sys) ss sys W W"
    using assms(2-4) find_arc_ok [OF assms(1,2,4)] bump_none [of W] by (auto simp: world_ok_def intro: sym)
  obtain N w' where N: "silent W w'" "\<forall>n \<ge> N.
    (do { (st, w) \<leftarrow> fb_new n (world_env rg ss sys (find_arc rg sys)) d prm junk W;
          fb_collect n (world_env rg ss sys (find_arc rg sys)) st w }) =
    Some (results (world_sem True rg ss sys W) d prm junk, w')"
    using wp.run_program_fuel [OF assms(5-7) ok assms(8,9)] by blast
  obtain er where "w' = bump {#} er W"
    using N(1) silent_bumpD [of "{#}" "\<lambda>_. None" W w'] by (auto simp: bump_none)
  then show ?thesis using N(2) by blast
qed

theorem program_iteration_complete_witness:
  "\<exists>n er. (do { (st, w) \<leftarrow> fb_new n (world_env core_registry 5 6 (find_arc core_registry 6)) prog_3_faa
        [P_addr 7, P_type SC_ARC_MAIN, P_type 0] [P_addr 0, P_addr 0] arc_world;
      fb_collect n (world_env core_registry 5 6 (find_arc core_registry 6)) st w }) = Some ([[7, 9, 8]], bump {#} er arc_world)"
proof -
  have j: "length [P_addr 0, P_addr 0] = 2" by simp
  have l: "length [P_addr 7, P_type SC_ARC_MAIN, P_type 0] = dc_input_cnt prog_3_faa" "length [P_addr 0, P_addr 0] = dc_reg_cnt prog_3_faa"
    by (simp_all add: prog_3_faa_def)
  show ?thesis
    using program_iteration_complete [OF core_registry_has arc_world_quiet arc_world_core(3,4) core_programs_ok(1) l
        safe_3(1) [OF core_registry_has arc_world_quiet j arc_world_core(1)] readable_3(1) [OF core_registry_has j]]
      results_3_faa [OF core_registry_has j] arc_world_answers(1) by fastforce
qed

text \<open>C11. A client may delete an iterator over a constraint program at any time: after any number of
  answers, also past the last one, the destructor returns, gives back every reference that the
  iterator still holds, and leaves the memory as it was before the iterator was made, but for the
  error codes of sessions.\<close>

theorem iterator_deletes_any_time:
  assumes "has_core rg" "quiet W" "wd_sessions W ss \<noteq> None" "wd_sessions W sys \<noteq> None"
    and "wf_dec d" "length prm = dc_input_cnt d" "length junk = dc_reg_cnt d"
    and "fb_new n (world_env rg ss sys (find_arc rg sys)) d prm junk W = Some (st, w)"
    and "fb_skip m n (world_env rg ss sys (find_arc rg sys)) st w = Some (st', w')"
  shows "\<exists>er. fb_delete (world_env rg ss sys (find_arc rg sys)) st' w' = Some (bump {#} er W)"
proof -
  note q = assms(2-4) find_arc_keeps [OF assms(1,2,4)]
  have "fb_held ss W (add_mset (K_session ss) {#}) d st w"
    using fb_new_held [OF q assms(5-7), of n rg "{#}" "\<lambda>_. None" st w] assms(8) by (simp add: bump_none)
  from fb_held_delete [OF assms(2,3,5) fb_skip_held [OF q assms(5) this assms(9)]] show ?thesis .
qed

theorem iterator_deletes_any_time_witness:
  "\<exists>n st w er. fb_new n (world_env core_registry 5 6 (find_arc core_registry 6)) prog_3_faa
      [P_addr 7, P_type SC_ARC_MAIN, P_type 0] [P_addr 0, P_addr 0] arc_world = Some (st, w) \<and> \<not> fb_over st \<and>
    fb_delete (world_env core_registry 5 6 (find_arc core_registry 6)) st w = Some (bump {#} er arc_world)"
proof -
  let ?E = "world_env core_registry 5 6 (find_arc core_registry 6)" and ?S = "world_sem True core_registry 5 6 arc_world"
  let ?prm = "[P_addr 7, P_type SC_ARC_MAIN, P_type 0]" and ?junk = "[P_addr 0, P_addr 0]"
  have j: "length ?junk = 2" by simp
  have l: "length ?prm = dc_input_cnt prog_3_faa" "length ?junk = dc_reg_cnt prog_3_faa" by (simp_all add: prog_3_faa_def)
  have ok: "world_ok True (find_arc core_registry 6) 5 6 arc_world arc_world"
    using arc_world_quiet arc_world_core find_arc_ok [OF core_registry_has arc_world_quiet arc_world_core(4)] bump_none [of arc_world]
    by (auto simp: world_ok_def intro: sym)
  obtain n w' where n: "(do { (st, w) \<leftarrow> fb_new n ?E prog_3_faa ?prm ?junk arc_world; fb_collect n ?E st w }) = Some ([[7, 9, 8]], w')"
    using wp.run_program [OF core_programs_ok(1) l ok safe_3(1) [OF core_registry_has arc_world_quiet j arc_world_core(1)]
        readable_3(1) [OF core_registry_has j]] results_3_faa [OF core_registry_has j] arc_world_answers(1) by fastforce
  then obtain st w where st: "fb_new n ?E prog_3_faa ?prm ?junk arc_world = Some (st, w)" "fb_collect n ?E st w = Some ([[7, 9, 8]], w')"
    by (auto simp: bind_eq_Some_conv)
  have "\<not> fb_over st" using st(2) by (cases n) (auto simp: bind_eq_Some_conv split: if_splits)
  moreover have "fb_skip 0 n ?E st w = Some (st, w)" by simp
  ultimately show ?thesis
    using iterator_deletes_any_time [OF core_registry_has arc_world_quiet arc_world_core(3,4) core_programs_ok(1) l st(1)] st(1) by blast
qed

lemma prog_counts:
  "dc_input_cnt prog_3_faa = 3" "dc_reg_cnt prog_3_faa = 2" "dc_input_cnt prog_3_aaf = 3" "dc_reg_cnt prog_3_aaf = 2"
  "dc_input_cnt prog_3_faf = 3" "dc_reg_cnt prog_3_faf = 2" "dc_input_cnt prog_5_faaaa = 5" "dc_reg_cnt prog_5_faaaa = 4"
  by (simp_all add: prog_3_faa_def prog_3_aaf_def prog_3_faf_def prog_5_faaaa_def)

lemma iterate_3_faa:
  assumes "has_core rg" "quiet W" "wd_sessions W ss \<noteq> None" "wd_sessions W sys \<noteq> None" "wd_addrs W e1 \<noteq> None"
  shows "\<exists>N er. \<forall>n \<ge> N. iterate n rg ss sys ''std3_faa'' [P_addr e1, P_type t2, P_type t3] W = Some (answers_3_faa ss sys W e1 t2 t3, bump {#} er W)"
proof -
  have 1: "length junk = dc_reg_cnt prog_3_faa \<Longrightarrow> safe (world_sem True rg ss sys W) (butlast (dc_commands prog_3_faa)) ([P_addr e1, P_type t2, P_type t3] @ junk)" for junk
    by (rule safe_3(1) [OF assms(1,2)]) (use assms in \<open>simp_all add: prog_counts\<close>)
  have 2: "length junk = dc_reg_cnt prog_3_faa \<Longrightarrow> readable (last (dc_commands prog_3_faa))
      (sols (world_sem True rg ss sys W) (butlast (dc_commands prog_3_faa)) ([P_addr e1, P_type t2, P_type t3] @ junk))" for junk
    by (rule readable_3(1) [OF assms(1)]) (simp add: prog_counts)
  have 3: "length junk = dc_reg_cnt prog_3_faa \<Longrightarrow> results (world_sem True rg ss sys W) prog_3_faa [P_addr e1, P_type t2, P_type t3] junk = answers_3_faa ss sys W e1 t2 t3" for junk
    by (rule results_3_faa [OF assms(1)]) (simp add: prog_counts)
  show ?thesis
    by (rule iterate_program [OF assms(1) core_lookup(7) [OF assms(1), folded core_ids(3) [OF assms(1)]] _ _ assms(2-4) _ _ core_programs_ok(1) 1 2 3])
      (use assms(5-) in \<open>auto simp: prog_counts\<close>)
qed

lemma iterate_3_aaf:
  assumes "has_core rg" "quiet W" "wd_sessions W ss \<noteq> None" "wd_sessions W sys \<noteq> None" "wd_addrs W e3 \<noteq> None"
  shows "\<exists>N er. \<forall>n \<ge> N. iterate n rg ss sys ''std3_aaf'' [P_type t1, P_type t2, P_addr e3] W = Some (answers_3_aaf ss sys W t1 t2 e3, bump {#} er W)"
proof -
  have 1: "length junk = dc_reg_cnt prog_3_aaf \<Longrightarrow> safe (world_sem True rg ss sys W) (butlast (dc_commands prog_3_aaf)) ([P_type t1, P_type t2, P_addr e3] @ junk)" for junk
    by (rule safe_3(2) [OF assms(1,2)]) (use assms in \<open>simp_all add: prog_counts\<close>)
  have 2: "length junk = dc_reg_cnt prog_3_aaf \<Longrightarrow> readable (last (dc_commands prog_3_aaf))
      (sols (world_sem True rg ss sys W) (butlast (dc_commands prog_3_aaf)) ([P_type t1, P_type t2, P_addr e3] @ junk))" for junk
    by (rule readable_3(2) [OF assms(1)]) (simp add: prog_counts)
  have 3: "length junk = dc_reg_cnt prog_3_aaf \<Longrightarrow> results (world_sem True rg ss sys W) prog_3_aaf [P_type t1, P_type t2, P_addr e3] junk = answers_3_aaf ss sys W t1 t2 e3" for junk
    by (rule results_3_aaf [OF assms(1)]) (simp add: prog_counts)
  show ?thesis
    by (rule iterate_program [OF assms(1) core_lookup(9) [OF assms(1), folded core_ids(5) [OF assms(1)]] _ _ assms(2-4) _ _ core_programs_ok(3) 1 2 3])
      (use assms(5-) in \<open>auto simp: prog_counts\<close>)
qed

lemma iterate_3_faf:
  assumes "has_core rg" "quiet W" "wd_sessions W ss \<noteq> None" "wd_sessions W sys \<noteq> None" "wd_addrs W e1 \<noteq> None" "wd_addrs W e3 \<noteq> None"
  shows "\<exists>N er. \<forall>n \<ge> N. iterate n rg ss sys ''std3_faf'' [P_addr e1, P_type t2, P_addr e3] W = Some (answers_3_faf ss sys W e1 t2 e3, bump {#} er W)"
proof -
  have 1: "length junk = dc_reg_cnt prog_3_faf \<Longrightarrow> safe (world_sem True rg ss sys W) (butlast (dc_commands prog_3_faf)) ([P_addr e1, P_type t2, P_addr e3] @ junk)" for junk
    by (rule safe_3(3) [OF assms(1,2)]) (use assms in \<open>simp_all add: prog_counts\<close>)
  have 2: "length junk = dc_reg_cnt prog_3_faf \<Longrightarrow> readable (last (dc_commands prog_3_faf))
      (sols (world_sem True rg ss sys W) (butlast (dc_commands prog_3_faf)) ([P_addr e1, P_type t2, P_addr e3] @ junk))" for junk
    by (rule readable_3(3) [OF assms(1)]) (simp add: prog_counts)
  have 3: "length junk = dc_reg_cnt prog_3_faf \<Longrightarrow> results (world_sem True rg ss sys W) prog_3_faf [P_addr e1, P_type t2, P_addr e3] junk = answers_3_faf ss sys W e1 t2 e3" for junk
    by (rule results_3_faf [OF assms(1)]) (simp add: prog_counts)
  show ?thesis
    by (rule iterate_program [OF assms(1) core_lookup(8) [OF assms(1), folded core_ids(4) [OF assms(1)]] _ _ assms(2-4) _ _ core_programs_ok(2) 1 2 3])
      (use assms(5-) in \<open>auto simp: prog_counts\<close>)
qed

lemma iterate_5_faaaa:
  assumes "has_core rg" "quiet W" "wd_sessions W ss \<noteq> None" "wd_sessions W sys \<noteq> None" "wd_addrs W e1 \<noteq> None"
  shows "\<exists>N er. \<forall>n \<ge> N. iterate n rg ss sys ''std5_faaaa'' [P_addr e1, P_type t2, P_type t3, P_type t4, P_type t5] W = Some (answers_5_faaaa ss sys W e1 t2 t3 t4 t5, bump {#} er W)"
proof -
  have 1: "length junk = dc_reg_cnt prog_5_faaaa \<Longrightarrow> safe (world_sem True rg ss sys W) (butlast (dc_commands prog_5_faaaa)) ([P_addr e1, P_type t2, P_type t3, P_type t4, P_type t5] @ junk)" for junk
    by (rule safe_5 [OF assms(1,2)]) (use assms in \<open>simp_all add: prog_counts\<close>)
  have 2: "length junk = dc_reg_cnt prog_5_faaaa \<Longrightarrow> readable (last (dc_commands prog_5_faaaa))
      (sols (world_sem True rg ss sys W) (butlast (dc_commands prog_5_faaaa)) ([P_addr e1, P_type t2, P_type t3, P_type t4, P_type t5] @ junk))" for junk
    by (rule readable_5 [OF assms(1)]) (simp add: prog_counts)
  have 3: "length junk = dc_reg_cnt prog_5_faaaa \<Longrightarrow> results (world_sem True rg ss sys W) prog_5_faaaa [P_addr e1, P_type t2, P_type t3, P_type t4, P_type t5] junk = answers_5_faaaa ss sys W e1 t2 t3 t4 t5" for junk
    by (rule results_5_faaaa [OF assms(1)]) (simp add: prog_counts)
  show ?thesis
    by (rule iterate_program [OF assms(1) core_lookup(10) [OF assms(1), folded core_ids(6) [OF assms(1)]] _ _ assms(2-4) _ _ core_programs_ok(5) 1 2 3])
      (use assms(5-) in \<open>auto simp: prog_counts\<close>)
qed

text \<open>C9. The standard constraints of three elements, and \<open>CONSTR_5_f_a_a_a_a\<close>, whose program is made
  by inlining two of them, find what they are named for: an iterator over \<open>f_a_a\<close> gives the arcs from
  \<open>e1\<close> in the order of its output list and of the opened segments, with their ends, where the arc and
  its end fit the types; over \<open>a_a_f\<close> the arcs to \<open>e3\<close> with their begins; over \<open>f_a_f\<close> the arcs from
  \<open>e1\<close> to \<open>e3\<close>; over \<open>f_a_a_a_a\<close> the arcs from \<open>e1\<close> together with the arcs to them.\<close>

theorem standard_constraints_find:
  assumes "has_core rg" "quiet W" "wd_sessions W ss \<noteq> None" "wd_sessions W sys \<noteq> None"
    and "wd_addrs W e1 \<noteq> None" "wd_addrs W e3 \<noteq> None"
  shows "(\<exists>N er. \<forall>n \<ge> N. iterate n rg ss sys ''std3_faa'' [P_addr e1, P_type t2, P_type t3] W =
      Some (answers_3_faa ss sys W e1 t2 t3, bump {#} er W)) \<and>
    (\<exists>N er. \<forall>n \<ge> N. iterate n rg ss sys ''std3_aaf'' [P_type t1, P_type t2, P_addr e3] W =
      Some (answers_3_aaf ss sys W t1 t2 e3, bump {#} er W)) \<and>
    (\<exists>N er. \<forall>n \<ge> N. iterate n rg ss sys ''std3_faf'' [P_addr e1, P_type t2, P_addr e3] W =
      Some (answers_3_faf ss sys W e1 t2 e3, bump {#} er W)) \<and>
    (\<exists>N er. \<forall>n \<ge> N. iterate n rg ss sys ''std5_faaaa'' [P_addr e1, P_type t2, P_type t3, P_type t4, P_type t5] W =
      Some (answers_5_faaaa ss sys W e1 t2 t3 t4 t5, bump {#} er W))"
  by (intro conjI iterate_3_faa iterate_3_aaf iterate_3_faf iterate_5_faaaa assms)

theorem standard_constraints_find_witness:
  "\<exists>n er. iterate n core_registry 5 6 ''std3_faa'' [P_addr 7, P_type SC_ARC_MAIN, P_type 0] arc_world =
    Some ([[7, 9, 8]], bump {#} er arc_world)"
proof -
  from standard_constraints_find [OF core_registry_has arc_world_quiet arc_world_core(3,4,1,2), of SC_ARC_MAIN 0 0 0 0]
  obtain N er where "\<forall>n \<ge> N. iterate n core_registry 5 6 ''std3_faa'' [P_addr 7, P_type SC_ARC_MAIN, P_type 0] arc_world =
    Some (answers_3_faa 5 6 arc_world 7 SC_ARC_MAIN 0, bump {#} er arc_world)" by blast
  then show ?thesis unfolding arc_world_answers(1) by blast
qed

text \<open>The filters \<open>is_in_set\<close> and \<open>not_in_set\<close> decide whether an accessible positive constant arc
  leads from the set to the element, as the system session sees it; with a null set both accept. The
  iterator they make is given back.\<close>

theorem set_filters_decide:
  assumes "has_core rg" "quiet W" "wd_sessions W sys \<noteq> None" "s = 0 \<or> wd_addrs W s \<noteq> None" "wd_addrs W e \<noteq> None"
  shows "\<exists>er er'.
    world_filter (find_arc rg sys) sys ''is_in_set'' [P_addr s, P_addr e] W =
      Some (s = 0 \<or> arc_from_to sys W (SC_A_CONST OR SC_POS) s e, bump {#} er W) \<and>
    world_filter (find_arc rg sys) sys ''not_in_set'' [P_addr s, P_addr e] W =
      Some (s = 0 \<or> \<not> arc_from_to sys W (SC_A_CONST OR SC_POS) s e, bump {#} er' W)"
proof (cases "s = 0")
  case True
  then show ?thesis
    by (intro exI [of _ "\<lambda>_. None"]) (simp add: world_filter_def filter_is_in_set_def filter_not_in_set_def arg_def bump_none)
next
  case False
  then obtain er where "find_arc rg sys s e W = Some (arc_from_to sys W (SC_A_CONST OR SC_POS) s e, bump {#} er W)"
    using find_arc_law [OF assms(1-3) _ assms(5), of s "{#}" "\<lambda>_. None"] assms(4) by (auto simp: bump_none)
  then show ?thesis using False
    by (intro exI [of _ er]) (simp add: world_filter_def filter_is_in_set_def filter_not_in_set_def arg_def)
qed

theorem set_filters_decide_witness:
  "\<exists>er. world_filter (find_arc core_registry 6) 6 ''is_in_set'' [P_addr 7, P_addr 8] arc_world = Some (True, bump {#} er arc_world)"
proof -
  have "type_seen 6 arc_world 9 = SC_ARC_MAIN"
    by (simp add: type_seen_def arc_world_seen(6), simp add: element_of_def arc_world_sel new_gaddr_def)
      (simp add: arc_world_def new_element_def)
  moreover have "check_sc_type SC_ARC_MAIN (SC_A_CONST OR SC_POS)" by code_simp
  ultimately have "arc_from_to 6 arc_world (SC_A_CONST OR SC_POS) 7 8" by (simp add: arc_from_to_def arc_world_seen)
  then show ?thesis
    using set_filters_decide [OF core_registry_has arc_world_quiet arc_world_core(4) _ arc_world_core(2), of 7] arc_world_core(1)
    by auto
qed

end
