(* ===== verification/Tgf_Map.thy ===== *)
theory Tgf_Map
  imports Sc_Prelude
begin

text \<open>
  \<open>tgfmap.c\<close>: the map from command numbers to the client's identifiers, and back, that a TGF stream
  keeps. It is a balanced tree with parent pointers; here a node is a constructor and the chain of
  parents of the node that the code stands at is a list of steps, the innermost first (the root of
  the list is the dummy node of the code's \<open>map\<close>). The theory proves that insertion keeps the tree
  balanced and refines the update of a map, for every comparison that obeys the laws of the locale
  \<open>map_order\<close>; both comparisons of the code are interpretations of it.
\<close>

section \<open>Trees and the way to a node\<close>

datatype ('k, 'v) map_node = No_node
  | Map_node (nd_left: "('k, 'v) map_node") (nd_key: 'k) (nd_value: 'v) (nd_balance: int) (nd_right: "('k, 'v) map_node")

datatype ('k, 'v) map_step =
    Went_left 'k 'v int "('k, 'v) map_node"
  | Went_right "('k, 'v) map_node" 'k 'v int

fun step_up :: "('k, 'v) map_node \<Rightarrow> ('k, 'v) map_step \<Rightarrow> ('k, 'v) map_node" where
  "step_up t (Went_left k v b r) = Map_node t k v b r"
| "step_up t (Went_right l k v b) = Map_node l k v b t"

definition whole :: "('k, 'v) map_node \<Rightarrow> ('k, 'v) map_step list \<Rightarrow> ('k, 'v) map_node" where
  "whole t path = foldl step_up t path"

lemma whole_simps [simp]: "whole t [] = t" "whole t (s # path) = whole (step_up t s) path"
  by (simp_all add: whole_def)

section \<open>Comparisons\<close>

text \<open>\<open>map_comp_int\<close>: the difference of two \<open>int\<close>s wraps around. \<open>map_comp_ptr\<close>: addresses.\<close>

definition map_comp_int :: "32 word \<Rightarrow> 32 word \<Rightarrow> int" where
  "map_comp_int a b = sint (a - b)"

definition map_comp_ptr :: "32 word \<Rightarrow> 32 word \<Rightarrow> int" where
  "map_comp_ptr a b = (if a > b then 1 else if a = b then 0 else - 1)"

section \<open>Rotations\<close>

text \<open>\<open>map_do_balance\<close>, which returns whether the height became less and the node that takes the
  place of the argument. A branch that dereferences a missing node is \<open>None\<close>.\<close>

fun map_do_balance :: "('k, 'v) map_node \<Rightarrow> (int \<times> ('k, 'v) map_node) option" where
  "map_do_balance No_node = None"
| "map_do_balance (Map_node l k v b r) =
    (if b > 0 then
       (case r of
          No_node \<Rightarrow> None
        | Map_node pl pk pv pb pr \<Rightarrow>
            if pb \<ge> 0 then
              (let nb = (if pb = 0 then 1 else 0) in
                Some (pb, Map_node (Map_node l k v nb pl) pk pv (- nb) pr))
            else
              (case pl of
                 No_node \<Rightarrow> None
               | Map_node ql qk qv qb qr \<Rightarrow>
                   Some (1, Map_node (Map_node l k v (if qb \<le> 0 then 0 else - 1) ql) qk qv 0
                              (Map_node qr pk pv (if qb \<ge> 0 then 0 else 1) pr))))
     else
       (case l of
          No_node \<Rightarrow> None
        | Map_node pl pk pv pb pr \<Rightarrow>
            if pb \<le> 0 then
              (let nb = - (if pb = 0 then 1 else 0) in
                Some (pb, Map_node pl pk pv (- nb) (Map_node pr k v nb r)))
            else
              (case pr of
                 No_node \<Rightarrow> None
               | Map_node ql qk qv qb qr \<Rightarrow>
                   Some (1, Map_node (Map_node pl pk pv (if qb \<le> 0 then 0 else - 1) ql) qk qv 0
                              (Map_node qr k v (if qb \<ge> 0 then 0 else 1) r)))))"

section \<open>Insertion\<close>

text \<open>The loop \<open>do_balance\<close>: the node \<open>p\<close> has become higher. \<open>MAP_BUG\<close>, which aborts when bugs of maps
  are caught, is \<open>None\<close>.\<close>

fun map_rebalance :: "('k, 'v) map_node \<Rightarrow> ('k, 'v) map_step list \<Rightarrow> ('k, 'v) map_node option" where
  "map_rebalance p [] = Some p"
| "map_rebalance p (Went_left k v b r # path) =
    (let b = b - 1; q = Map_node p k v b r in
     do {
       ensure (\<not> b < - 2);
       if b = - 2 then do { (rv, q) \<leftarrow> map_do_balance q; ensure (rv \<noteq> 0); Some (whole q path) }
       else if b \<noteq> 0 then map_rebalance q path
       else Some (whole q path)
     })"
| "map_rebalance p (Went_right l k v b # path) =
    (let b = b + 1; q = Map_node l k v b p in
     do {
       ensure (\<not> b > 2);
       if b = 2 then do { (rv, q) \<leftarrow> map_do_balance q; ensure (rv \<noteq> 0); Some (whole q path) }
       else if b \<noteq> 0 then map_rebalance q path
       else Some (whole q path)
     })"

definition map_node_new :: "'k \<Rightarrow> 'v \<Rightarrow> ('k, 'v) map_node" where
  "map_node_new key v = Map_node No_node key v 0 No_node"

fun map_insert_at :: "('k \<Rightarrow> 'k \<Rightarrow> int) \<Rightarrow> 'k \<Rightarrow> 'v \<Rightarrow> ('k, 'v) map_node \<Rightarrow> ('k, 'v) map_step list \<Rightarrow> (int \<times> ('k, 'v) map_node) option" where
  "map_insert_at cmp key val No_node path = None"
| "map_insert_at cmp key val (Map_node l k v b r) path =
    (let cr = cmp key k in
     if cr = 0 then Some (0, whole (Map_node l k v b r) path)
     else if cr > 0 then
       (if r = No_node then
          (let p = Map_node l k v (b + 1) (map_node_new key val) in
           if b + 1 \<noteq> 0 then map_option (Pair 1) (map_rebalance p path) else Some (1, whole p path))
        else map_insert_at cmp key val r (Went_right l k v b # path))
     else
       (if l = No_node then
          (let p = Map_node (map_node_new key val) k v (b - 1) r in
           if b - 1 \<noteq> 0 then map_option (Pair 1) (map_rebalance p path) else Some (1, whole p path))
        else map_insert_at cmp key val l (Went_left k v b r # path)))"

text \<open>\<open>map_insert\<close>: 1 when the key was entered, 0 when it was there already.\<close>

definition map_insert :: "('k \<Rightarrow> 'k \<Rightarrow> int) \<Rightarrow> 'k \<Rightarrow> 'v \<Rightarrow> ('k, 'v) map_node \<Rightarrow> (int \<times> ('k, 'v) map_node) option" where
  "map_insert cmp key val m =
    (if m = No_node then Some (1, map_node_new key val) else map_insert_at cmp key val m [])"

text \<open>\<open>map_find_node\<close> and \<open>map_find\<close>.\<close>

fun map_find_node :: "('k \<Rightarrow> 'k \<Rightarrow> int) \<Rightarrow> 'k \<Rightarrow> ('k, 'v) map_node \<Rightarrow> ('k, 'v) map_node" where
  "map_find_node cmp key No_node = No_node"
| "map_find_node cmp key (Map_node l k v b r) =
    (let cr = cmp key k in
     if cr = 0 then Map_node l k v b r
     else if cr > 0 then map_find_node cmp key r
     else map_find_node cmp key l)"

definition map_find :: "('k \<Rightarrow> 'k \<Rightarrow> int) \<Rightarrow> 'k \<Rightarrow> ('k, 'v) map_node \<Rightarrow> 'v option" where
  "map_find cmp key m =
    (case map_find_node cmp key m of No_node \<Rightarrow> None | Map_node l k v b r \<Rightarrow> Some v)"

definition tgf_map_in_add :: "(32 word, 'v) map_node \<Rightarrow> 32 word \<Rightarrow> 'v \<Rightarrow> (int \<times> (32 word, 'v) map_node) option" where
  "tgf_map_in_add m key val = map_insert map_comp_int key val m"

definition tgf_map_in_lookup :: "(32 word, 'v) map_node \<Rightarrow> 32 word \<Rightarrow> 'v option" where
  "tgf_map_in_lookup m key = map_find map_comp_int key m"

definition tgf_map_out_add :: "(32 word, 'v) map_node \<Rightarrow> 32 word \<Rightarrow> 'v \<Rightarrow> (int \<times> (32 word, 'v) map_node) option" where
  "tgf_map_out_add m key val = map_insert map_comp_ptr key val m"

definition tgf_map_out_lookup :: "(32 word, 'v) map_node \<Rightarrow> 32 word \<Rightarrow> 'v option" where
  "tgf_map_out_lookup m key = map_find map_comp_ptr key m"

section \<open>Balance\<close>

fun nd_height :: "('k, 'v) map_node \<Rightarrow> nat" where
  "nd_height No_node = 0"
| "nd_height (Map_node l k v b r) = 1 + max (nd_height l) (nd_height r)"

fun nd_size :: "('k, 'v) map_node \<Rightarrow> nat" where
  "nd_size No_node = 0"
| "nd_size (Map_node l k v b r) = nd_size l + 1 + nd_size r"

fun balanced :: "('k, 'v) map_node \<Rightarrow> bool" where
  "balanced No_node = True"
| "balanced (Map_node l k v b r) =
    (b = int (nd_height r) - int (nd_height l) \<and> - 1 \<le> b \<and> b \<le> 1 \<and> balanced l \<and> balanced r)"

fun entries :: "('k, 'v) map_node \<Rightarrow> ('k \<times> 'v) list" where
  "entries No_node = []"
| "entries (Map_node l k v b r) = entries l @ (k, v) # entries r"

text \<open>What a path needs for a balanced node of height \<open>h\<close> at its end to make the whole balanced.\<close>

fun path_ok :: "('k, 'v) map_step list \<Rightarrow> nat \<Rightarrow> bool" where
  "path_ok [] h = True"
| "path_ok (Went_left k v b r # path) h =
    (b = int (nd_height r) - int h \<and> - 1 \<le> b \<and> b \<le> 1 \<and> balanced r \<and> path_ok path (1 + max h (nd_height r)))"
| "path_ok (Went_right l k v b # path) h =
    (b = int h - int (nd_height l) \<and> - 1 \<le> b \<and> b \<le> 1 \<and> balanced l \<and> path_ok path (1 + max (nd_height l) h))"

fun before :: "('k, 'v) map_step list \<Rightarrow> ('k \<times> 'v) list" where
  "before [] = []"
| "before (Went_left k v b r # path) = before path"
| "before (Went_right l k v b # path) = before path @ entries l @ [(k, v)]"

fun after :: "('k, 'v) map_step list \<Rightarrow> ('k \<times> 'v) list" where
  "after [] = []"
| "after (Went_left k v b r # path) = (k, v) # entries r @ after path"
| "after (Went_right l k v b # path) = after path"

lemma entries_whole: "entries (whole t path) = before path @ entries t @ after path"
proof (induction path arbitrary: t)
  case (Cons s path)
  then show ?case by (cases s) simp_all
qed simp

lemma balanced_whole: "balanced t \<Longrightarrow> path_ok path (nd_height t) \<Longrightarrow> balanced (whole t path)"
proof (induction path arbitrary: t)
  case (Cons s path)
  show ?case
  proof (cases s)
    case (Went_left k v b r)
    then show ?thesis using Cons.IH [of "Map_node t k v b r"] Cons.prems by simp
  next
    case (Went_right l k v b)
    then show ?thesis using Cons.IH [of "Map_node l k v b t"] Cons.prems by simp
  qed
qed simp

lemma balanced_height_bound: "balanced t \<Longrightarrow> 2 ^ (nd_height t div 2) \<le> nd_size t + 1"
proof (induction t rule: measure_induct_rule [of nd_height])
  case (less t)
  show ?case
  proof (cases t)
    case (Map_node l k v b r)
    let ?m = "min (nd_height l) (nd_height r)" and ?M = "max (nd_height l) (nd_height r)"
    have m: "?M \<le> ?m + 1" using less.prems Map_node by (simp add: min_def max_def)
    have l: "2 ^ (nd_height l div 2) \<le> nd_size l + 1" and r: "2 ^ (nd_height r div 2) \<le> nd_size r + 1"
      using less Map_node by auto
    have "(1 + ?M) div 2 \<le> ?m div 2 + 1" using m by linarith
    then have a: "(2::nat) ^ ((1 + ?M) div 2) \<le> 2 * 2 ^ (?m div 2)"
      by (metis power_Suc Suc_eq_plus1 one_le_numeral power_increasing)
    have b: "(2::nat) ^ (?m div 2) \<le> 2 ^ (nd_height l div 2)" "(2::nat) ^ (?m div 2) \<le> 2 ^ (nd_height r div 2)"
      by (intro power_increasing div_le_mono; simp)+
    have "(2::nat) ^ ((1 + ?M) div 2) \<le> (nd_size l + 1) + (nd_size r + 1)" using a b l r by linarith
    then show ?thesis using Map_node by simp
  qed simp
qed

section \<open>Insertion keeps the balance\<close>

lemma rotate_right_heavy:
  assumes "balanced l" "balanced r" "nd_height r = nd_height l + 2" "nd_balance r \<noteq> 0" "r \<noteq> No_node"
  shows "\<exists>rv q. map_do_balance (Map_node l k v 2 r) = Some (rv, q) \<and> rv \<noteq> 0 \<and> balanced q \<and> nd_height q = nd_height r \<and>
    entries q = entries l @ (k, v) # entries r"
proof (cases r)
  case r: (Map_node pl pk pv pb pr)
  show ?thesis
  proof (cases "pb \<ge> 0")
    case False
    with assms r obtain ql qk qv qb qr where "pl = Map_node ql qk qv qb qr" by (cases pl) auto
    with assms r False show ?thesis by (auto simp: max_def split: if_splits)
  qed (use assms r in \<open>auto simp: Let_def max_def\<close>)
qed (use assms in simp)

lemma rotate_left_heavy:
  assumes "balanced l" "balanced r" "nd_height l = nd_height r + 2" "nd_balance l \<noteq> 0" "l \<noteq> No_node"
  shows "\<exists>rv q. map_do_balance (Map_node l k v (- 2) r) = Some (rv, q) \<and> rv \<noteq> 0 \<and> balanced q \<and> nd_height q = nd_height l \<and>
    entries q = entries l @ (k, v) # entries r"
proof (cases l)
  case l: (Map_node pl pk pv pb pr)
  show ?thesis
  proof (cases "pb \<le> 0")
    case False
    with assms l obtain ql qk qv qb qr where "pr = Map_node ql qk qv qb qr" by (cases pr) auto
    with assms l False show ?thesis by (auto simp: max_def split: if_splits)
  qed (use assms l in \<open>auto simp: Let_def max_def\<close>)
qed (use assms in simp)

lemma map_rebalance_ok:
  "balanced p \<Longrightarrow> p \<noteq> No_node \<Longrightarrow> nd_balance p \<noteq> 0 \<Longrightarrow> path_ok path (nd_height p - 1) \<Longrightarrow>
    \<exists>t. map_rebalance p path = Some t \<and> balanced t \<and> entries t = before path @ entries p @ after path"
proof (induction path arbitrary: p)
  case (Cons s path)
  have h: "1 \<le> nd_height p" using Cons.prems(2) by (cases p) simp_all
  show ?case
  proof (cases s)
    case s: (Went_left k v b r)
    let ?q = "Map_node p k v (b - 1) r"
    have b: "b - 1 = int (nd_height r) - int (nd_height p)" "- 1 \<le> b" "b \<le> 1" and r: "balanced r"
      and up: "path_ok path (1 + max (nd_height p - 1) (nd_height r))"
      using Cons.prems(4) s h by auto
    consider "b - 1 = - 2" | "b - 1 = - 1" | "b - 1 = 0" using b by linarith
    then show ?thesis
    proof cases
      case 1
      then have hr: "nd_height p = nd_height r + 2" using b by linarith
      obtain rv q where q: "map_do_balance ?q = Some (rv, q)" "rv \<noteq> 0" "balanced q" "nd_height q = nd_height p"
        "entries q = entries p @ (k, v) # entries r"
        using rotate_left_heavy [OF Cons.prems(1) r hr Cons.prems(3,2), of k v] 1 by auto
      have "balanced (whole q path)" by (rule balanced_whole) (use q up hr in simp_all)
      then show ?thesis using s 1 q by (simp add: entries_whole)
    next
      case 2
      then have hr: "nd_height p = nd_height r + 1" using b by linarith
      have "\<exists>t. map_rebalance ?q path = Some t \<and> balanced t \<and> entries t = before path @ entries ?q @ after path"
        by (rule Cons.IH) (use Cons.prems(1) r up hr 2 in \<open>simp_all add: max_def\<close>)
      then show ?thesis using s 2 by simp
    next
      case 3
      then have hr: "nd_height r = nd_height p" using b by linarith
      have "balanced (whole ?q path)" by (rule balanced_whole) (use Cons.prems(1) r up hr 3 in \<open>simp_all add: max.absorb1 max.absorb2\<close>)
      then show ?thesis using s 3 by (simp add: entries_whole)
    qed
  next
    case s: (Went_right l k v b)
    let ?q = "Map_node l k v (b + 1) p"
    have b: "b + 1 = int (nd_height p) - int (nd_height l)" "- 1 \<le> b" "b \<le> 1" and l: "balanced l"
      and up: "path_ok path (1 + max (nd_height l) (nd_height p - 1))"
      using Cons.prems(4) s h by auto
    consider "b + 1 = 2" | "b + 1 = 1" | "b + 1 = 0" using b by linarith
    then show ?thesis
    proof cases
      case 1
      then have hl: "nd_height p = nd_height l + 2" using b by linarith
      obtain rv q where q: "map_do_balance ?q = Some (rv, q)" "rv \<noteq> 0" "balanced q" "nd_height q = nd_height p"
        "entries q = entries l @ (k, v) # entries p"
        using rotate_right_heavy [OF l Cons.prems(1) hl Cons.prems(3,2), of k v] 1 by auto
      have "balanced (whole q path)" by (rule balanced_whole) (use q up hl in simp_all)
      then show ?thesis using s 1 q by (simp add: entries_whole)
    next
      case 2
      then have hl: "nd_height p = nd_height l + 1" using b by linarith
      have "\<exists>t. map_rebalance ?q path = Some t \<and> balanced t \<and> entries t = before path @ entries ?q @ after path"
        by (rule Cons.IH) (use Cons.prems(1) l up hl 2 in \<open>simp_all add: max_def\<close>)
      then show ?thesis using s 2 by simp
    next
      case 3
      then have hl: "nd_height l = nd_height p" using b by linarith
      have "balanced (whole ?q path)" by (rule balanced_whole) (use Cons.prems(1) l up hl 3 in \<open>simp_all add: max.absorb1 max.absorb2\<close>)
      then show ?thesis using s 3 by (simp add: entries_whole)
    qed
  qed
qed simp

text \<open>What an insertion makes of the entries: nothing when the key is among them, else one more entry,
  where every key before it is on the one side of the comparison and every key after it on the other.\<close>

definition inserted :: "('k \<Rightarrow> 'k \<Rightarrow> int) \<Rightarrow> 'k \<Rightarrow> 'v \<Rightarrow> ('k \<times> 'v) list \<Rightarrow> int \<Rightarrow> ('k \<times> 'v) list \<Rightarrow> bool" where
  "inserted cmp key val es rv es' \<longleftrightarrow>
    (rv = 0 \<and> es' = es \<and> (\<exists>k \<in> fst ` set es. cmp key k = 0)) \<or>
    (rv = 1 \<and> (\<exists>es1 es2. es = es1 @ es2 \<and> es' = es1 @ (key, val) # es2 \<and>
      (\<forall>k \<in> fst ` set es1. cmp key k > 0) \<and> (\<forall>k \<in> fst ` set es2. cmp key k < 0)))"

lemma insertedI: "es = es1 @ es2 \<Longrightarrow> es' = es1 @ (key, val) # es2 \<Longrightarrow> \<forall>k \<in> fst ` set es1. cmp key k > 0 \<Longrightarrow>
    \<forall>k \<in> fst ` set es2. cmp key k < 0 \<Longrightarrow> inserted cmp key val es 1 es'"
  by (auto simp: inserted_def)

lemma whole_entered:
  assumes "balanced (Map_node l k v b r)" "path_ok path (nd_height (Map_node l k v b r))" "balanced p"
    and "p = Map_node l k v (b + 1) (map_node_new key val) \<and> r = No_node \<or> p = Map_node (map_node_new key val) k v (b - 1) r \<and> l = No_node"
    and "cnd = (nd_balance p \<noteq> 0)"
  shows "\<exists>t. (if cnd then map_option (Pair 1) (map_rebalance p path) else Some (1, whole p path)) = Some (1, t) \<and>
    balanced t \<and> entries t = before path @ entries p @ after path"
proof (cases cnd)
  case True
  have "nd_height p - 1 = nd_height (Map_node l k v b r)"
    using True assms by (auto simp: map_node_new_def max_def)
  then obtain t where "map_rebalance p path = Some t" "balanced t" "entries t = before path @ entries p @ after path"
    using map_rebalance_ok [of p path] assms True by auto
  then show ?thesis using True by simp
next
  case False
  have "nd_height p = nd_height (Map_node l k v b r)"
    using False assms by (auto simp: map_node_new_def max_def)
  then have "balanced (whole p path)" using balanced_whole assms by metis
  then show ?thesis using False by (simp add: entries_whole)
qed

lemma map_insert_at_ok:
  assumes same: "\<And>a b. cmp a b = 0 \<longleftrightarrow> a = b"
    and less: "\<And>a b. a \<in> S \<Longrightarrow> b \<in> S \<Longrightarrow> cmp a b < 0 \<Longrightarrow> cmp key a < 0 \<Longrightarrow> cmp key b < 0"
    and greater: "\<And>a b. a \<in> S \<Longrightarrow> b \<in> S \<Longrightarrow> cmp a b < 0 \<Longrightarrow> cmp key b > 0 \<Longrightarrow> cmp key a > 0"
  shows "balanced m \<Longrightarrow> path_ok path (nd_height m) \<Longrightarrow> m \<noteq> No_node \<Longrightarrow>
    \<forall>k \<in> fst ` set (before path). cmp key k > 0 \<Longrightarrow> \<forall>k \<in> fst ` set (after path). cmp key k < 0 \<Longrightarrow>
    fst ` set (entries m) \<subseteq> S \<Longrightarrow>
    sorted_wrt (\<lambda>a b. cmp a b < 0) (map fst (entries m)) \<Longrightarrow>
    \<exists>rv t. map_insert_at cmp key val m path = Some (rv, t) \<and> balanced t \<and>
      inserted cmp key val (before path @ entries m @ after path) rv (entries t)"
proof (induction m arbitrary: path)
  case (Map_node l k v b r)
  let ?m = "Map_node l k v b r"
  have l: "balanced l" and r: "balanced r" and b: "b = int (nd_height r) - int (nd_height l)" "- 1 \<le> b" "b \<le> 1"
    using Map_node.prems(1) by simp_all
  have so: "sorted_wrt (\<lambda>a b. cmp a b < 0) (map fst (entries l))" "sorted_wrt (\<lambda>a b. cmp a b < 0) (map fst (entries r))"
    and lk: "\<And>a. a \<in> fst ` set (entries l) \<Longrightarrow> cmp a k < 0" and kr: "\<And>a. a \<in> fst ` set (entries r) \<Longrightarrow> cmp k a < 0"
    using Map_node.prems(7) by (auto simp: sorted_wrt_append image_iff)
  have S: "k \<in> S" "fst ` set (entries l) \<subseteq> S" "fst ` set (entries r) \<subseteq> S" using Map_node.prems(6) by auto
  consider (found) "cmp key k = 0" | (right) "cmp key k > 0" | (left) "cmp key k < 0" by linarith
  then show ?case
  proof cases
    case found
    have "balanced (whole ?m path)" by (rule balanced_whole) (use Map_node.prems in simp_all)
    then show ?thesis using found same by (auto simp: inserted_def entries_whole)
  next
    case right
    have left_of: "\<forall>a \<in> fst ` set (entries l). cmp key a > 0" using greater [OF _ S(1)] lk right S(2) by blast
    show ?thesis
    proof (cases "r = No_node")
      case True
      let ?p = "Map_node l k v (b + 1) (map_node_new key val)"
      have bp: "balanced ?p" using l b True by (auto simp: map_node_new_def)
      from whole_entered [OF Map_node.prems(1,2) bp, of key val "nd_balance ?p \<noteq> 0"] obtain t where
        t: "map_insert_at cmp key val ?m path = Some (1, t)" "balanced t" "entries t = before path @ entries ?p @ after path"
        using True right by (auto simp: Let_def)
      have "inserted cmp key val (before path @ entries ?m @ after path) 1 (entries t)"
        by (rule insertedI [of _ "before path @ entries l @ [(k, v)]" "after path"])
          (use t True right left_of Map_node.prems(4,5) in \<open>auto simp: map_node_new_def\<close>)
      then show ?thesis using t by blast
    next
      case False
      have "\<exists>rv t. map_insert_at cmp key val r (Went_right l k v b # path) = Some (rv, t) \<and> balanced t \<and>
          inserted cmp key val (before (Went_right l k v b # path) @ entries r @ after (Went_right l k v b # path)) rv (entries t)"
        by (rule Map_node.IH(2)) (use Map_node.prems(2,4,5) False right left_of so r b l S in auto)
      then show ?thesis using False right by (simp add: Let_def)
    qed
  next
    case left
    have right_of: "\<forall>a \<in> fst ` set (entries r). cmp key a < 0" using less [OF S(1)] kr left S(3) by blast
    show ?thesis
    proof (cases "l = No_node")
      case True
      let ?p = "Map_node (map_node_new key val) k v (b - 1) r"
      have bp: "balanced ?p" using r b True by (auto simp: map_node_new_def)
      from whole_entered [OF Map_node.prems(1,2) bp, of key val "nd_balance ?p \<noteq> 0"] obtain t where
        t: "map_insert_at cmp key val ?m path = Some (1, t)" "balanced t" "entries t = before path @ entries ?p @ after path"
        using True left by (auto simp: Let_def)
      have "inserted cmp key val (before path @ entries ?m @ after path) 1 (entries t)"
        by (rule insertedI [of _ "before path" "(k, v) # entries r @ after path"])
          (use t True left right_of Map_node.prems(4,5) in \<open>auto simp: map_node_new_def\<close>)
      then show ?thesis using t by blast
    next
      case False
      have "\<exists>rv t. map_insert_at cmp key val l (Went_left k v b r # path) = Some (rv, t) \<and> balanced t \<and>
          inserted cmp key val (before (Went_left k v b r # path) @ entries l @ after (Went_left k v b r # path)) rv (entries t)"
        by (rule Map_node.IH(1)) (use Map_node.prems(2,4,5) False left right_of so r b l S in auto)
      then show ?thesis using False left by (simp add: Let_def)
    qed
  qed
qed simp

section \<open>The contract of the map\<close>

definition in_order :: "('k \<Rightarrow> 'k \<Rightarrow> int) \<Rightarrow> 'k set \<Rightarrow> ('k, 'v) map_node \<Rightarrow> bool" where
  "in_order cmp K m \<longleftrightarrow> sorted_wrt (\<lambda>a b. cmp a b < 0) (map fst (entries m)) \<and> fst ` set (entries m) \<subseteq> K"

definition map_inv :: "('k \<Rightarrow> 'k \<Rightarrow> int) \<Rightarrow> 'k set \<Rightarrow> ('k, 'v) map_node \<Rightarrow> bool" where
  "map_inv cmp K m \<longleftrightarrow> balanced m \<and> in_order cmp K m"

abbreviation map_abs :: "('k, 'v) map_node \<Rightarrow> 'k \<rightharpoonup> 'v" where
  "map_abs m \<equiv> map_of (entries m)"

lemma map_of_middle: "k \<notin> fst ` set es1 \<Longrightarrow> map_of (es1 @ (k, v) # es2) = (map_of (es1 @ es2))(k \<mapsto> v)"
  by (induction es1) (auto simp: fun_upd_twist)

locale map_order =
  fixes cmp :: "'k \<Rightarrow> 'k \<Rightarrow> int" and K :: "'k set"
  assumes same: "cmp a b = 0 \<longleftrightarrow> a = b"
    and swap: "a \<in> K \<Longrightarrow> b \<in> K \<Longrightarrow> cmp a b < 0 \<longleftrightarrow> cmp b a > 0"
    and less_trans: "a \<in> K \<Longrightarrow> b \<in> K \<Longrightarrow> c \<in> K \<Longrightarrow> cmp a b < 0 \<Longrightarrow> cmp b c < 0 \<Longrightarrow> cmp a c < 0"
begin

lemma greater_trans: "a \<in> K \<Longrightarrow> b \<in> K \<Longrightarrow> c \<in> K \<Longrightarrow> cmp a b < 0 \<Longrightarrow> cmp c b > 0 \<Longrightarrow> cmp c a > 0"
  using less_trans [of a b c] swap by blast

lemma insert_ok:
  assumes "map_inv cmp K m" "key \<in> K"
  shows "\<exists>rv t. map_insert cmp key val m = Some (rv, t) \<and> map_inv cmp K t \<and>
    (case map_abs m key of None \<Rightarrow> rv = 1 \<and> map_abs t = (map_abs m)(key \<mapsto> val) | Some _ \<Rightarrow> rv = 0 \<and> map_abs t = map_abs m)"
proof -
  have K: "fst ` set (entries m) \<subseteq> K" and so: "sorted_wrt (\<lambda>a b. cmp a b < 0) (map fst (entries m))"
    using assms(1) by (simp_all add: map_inv_def in_order_def)
  have "\<exists>rv t. map_insert cmp key val m = Some (rv, t) \<and> balanced t \<and> inserted cmp key val (entries m) rv (entries t)"
  proof (cases "m = No_node")
    case True
    then show ?thesis by (auto simp: map_insert_def map_node_new_def inserted_def)
  next
    case False
    have "\<exists>rv t. map_insert_at cmp key val m [] = Some (rv, t) \<and> balanced t \<and>
        inserted cmp key val (before [] @ entries m @ after []) rv (entries t)"
    proof (rule map_insert_at_ok [OF same])
      fix a b assume ab: "a \<in> K" "b \<in> K" "cmp a b < 0"
      show "cmp key a < 0 \<Longrightarrow> cmp key b < 0" by (rule less_trans [OF assms(2) ab(1,2) _ ab(3)])
      show "cmp key b > 0 \<Longrightarrow> cmp key a > 0" by (rule greater_trans [OF ab(1,2) assms(2) ab(3)])
    qed (use assms K so False in \<open>auto simp: map_inv_def\<close>)
    then show ?thesis using False by (simp add: map_insert_def)
  qed
  then obtain rv t where t: "map_insert cmp key val m = Some (rv, t)" "balanced t" "inserted cmp key val (entries m) rv (entries t)"
    by blast
  show ?thesis
  proof (cases "rv = 0")
    case True
    then have "entries t = entries m" "key \<in> fst ` set (entries m)" using t(3) same by (auto simp: inserted_def)
    then show ?thesis using t True assms so K
      by (cases "map_abs m key") (auto simp: map_inv_def in_order_def map_of_eq_None_iff)
  next
    case False
    then obtain es1 es2 where es: "entries m = es1 @ es2" "entries t = es1 @ (key, val) # es2" "rv = 1"
      "\<forall>k \<in> fst ` set es1. cmp key k > 0" "\<forall>k \<in> fst ` set es2. cmp key k < 0"
      using t(3) by (auto simp: inserted_def)
    have new: "key \<notin> fst ` set (entries m)" using es same [of key key] by auto
    then have none: "map_abs m key = None" by (simp add: map_of_eq_None_iff)
    have "map_abs t = (map_abs m)(key \<mapsto> val)" unfolding es(1,2) by (rule map_of_middle) (use new es(1) in auto)
    moreover have "in_order cmp K t"
      using so K es assms(2) swap by (auto simp: in_order_def sorted_wrt_append subset_iff)
    ultimately show ?thesis using t es(3) none by (auto simp: map_inv_def)
  qed
qed

lemma find_sorted:
  "sorted_wrt (\<lambda>a b. cmp a b < 0) (map fst (entries m)) \<Longrightarrow> fst ` set (entries m) \<subseteq> K \<Longrightarrow> key \<in> K \<Longrightarrow>
    map_find cmp key m = map_abs m key"
proof (induction m)
  case (Map_node l k v b r)
  have l: "\<And>a. a \<in> fst ` set (entries l) \<Longrightarrow> cmp a k < 0" and r: "\<And>a. a \<in> fst ` set (entries r) \<Longrightarrow> cmp k a < 0"
    using Map_node.prems(1) by (auto simp: sorted_wrt_append)
  have k: "k \<in> K" using Map_node.prems(2) by auto
  have ih: "map_find cmp key l = map_abs l key" "map_find cmp key r = map_abs r key"
    using Map_node by (auto simp: sorted_wrt_append)
  have in_l: "key \<in> fst ` set (entries l) \<Longrightarrow> cmp key k < 0" and in_r: "key \<in> fst ` set (entries r) \<Longrightarrow> cmp key k > 0"
    using l r swap k Map_node.prems(3) by blast+
  consider "cmp key k = 0" | "cmp key k > 0" | "cmp key k < 0" by linarith
  then show ?case
  proof cases
    case 1
    then have "map_abs l key = None" "key = k" using in_l same [of key k] by (auto simp: map_of_eq_None_iff)
    then show ?thesis using 1 by (simp add: map_find_def map_add_def)
  next
    case 2
    then have "map_abs l key = None" "key \<noteq> k" using in_l same [of key k] by (auto simp: map_of_eq_None_iff)
    then show ?thesis using 2 ih by (simp add: map_find_def map_add_def split: option.splits)
  next
    case 3
    then have "map_abs r key = None" "key \<noteq> k" using in_r same [of key k] by (auto simp: map_of_eq_None_iff)
    then show ?thesis using 3 ih by (simp add: map_find_def map_add_def split: option.splits)
  qed
qed (simp add: map_find_def)

lemma find_node_key: "map_find_node cmp key m = Map_node l k v b r \<Longrightarrow> k = key \<and> (k, v) \<in> set (entries m)"
  by (induction m) (auto simp: Let_def same split: if_splits)

lemma find_ok:
  assumes "map_inv cmp K m"
  shows "map_find cmp key m = map_abs m key"
proof (cases "key \<in> K")
  case True
  then show ?thesis using assms find_sorted by (auto simp: map_inv_def in_order_def)
next
  case False
  then have "key \<notin> fst ` set (entries m)" using assms by (auto simp: map_inv_def in_order_def)
  then have "map_abs m key = None" "key \<notin> fst ` set (entries m)" by (simp_all add: map_of_eq_None_iff)
  moreover have "map_find_node cmp key m = No_node"
    using find_node_key [of key m] calculation by (cases "map_find_node cmp key m") force+
  ultimately show ?thesis by (simp add: map_find_def)
qed

lemma inv_empty: "map_inv cmp K No_node"
  by (simp add: map_inv_def in_order_def)

end

text \<open>Both comparisons obey the laws: addresses always, numbers of commands as long as they are not
  negative.\<close>

interpretation ptr_map: map_order map_comp_ptr UNIV
  by unfold_locales (auto simp: map_comp_ptr_def split: if_splits)

definition index_keys :: "32 word set" where
  "index_keys = {k. 0 \<le> sint k}"

lemma map_comp_int_index: "a \<in> index_keys \<Longrightarrow> b \<in> index_keys \<Longrightarrow> map_comp_int a b = sint a - sint b"
  using sint_lt [of a] sint_lt [of b] by (simp add: index_keys_def map_comp_int_def sint_word_ariths signed_take_bit_int_eq_self)

interpretation int_map: map_order map_comp_int index_keys
proof unfold_locales
  show "map_comp_int a b = 0 \<longleftrightarrow> a = b" for a b by (simp add: map_comp_int_def signed_eq_0_iff)
qed (simp_all add: map_comp_int_index)

text \<open>The number of comparisons of a lookup.\<close>

fun find_steps :: "('k \<Rightarrow> 'k \<Rightarrow> int) \<Rightarrow> 'k \<Rightarrow> ('k, 'v) map_node \<Rightarrow> nat" where
  "find_steps cmp key No_node = 0"
| "find_steps cmp key (Map_node l k v b r) =
    1 + (if cmp key k = 0 then 0 else if cmp key k > 0 then find_steps cmp key r else find_steps cmp key l)"

lemma find_steps_height: "find_steps cmp key m \<le> nd_height m"
  by (induction m) auto

lemma find_steps_bound:
  assumes "balanced m"
  shows "2 ^ (find_steps cmp key m div 2) \<le> nd_size m + 1"
proof -
  have "(2::nat) ^ (find_steps cmp key m div 2) \<le> 2 ^ (nd_height m div 2)"
    by (intro power_increasing div_le_mono find_steps_height) simp
  then show ?thesis using balanced_height_bound [OF assms] by linarith
qed

section \<open>Properties\<close>

text \<open>C28. The maps of a stream refine the update and the lookup of partial functions: entering an
  identifier for a key that is not there adds it and returns 1, for a key that is there it changes
  nothing and returns 0; the tree stays ordered and balanced, no rotation fails, and a lookup, of any
  key, gives what was entered after a number of comparisons that is logarithmic in the number of
  entries. It holds of the map by command numbers, whose comparison subtracts and may wrap around, as
  long as the numbers entered are not negative, and of the map by addresses.\<close>

theorem tgf_map_refines:
  assumes "map_inv map_comp_int index_keys mi" "map_inv map_comp_ptr UNIV mo" "0 \<le> sint index"
  shows "(\<exists>rv mi'. tgf_map_in_add mi index val = Some (rv, mi') \<and> map_inv map_comp_int index_keys mi' \<and>
      (case map_abs mi index of None \<Rightarrow> rv = 1 \<and> map_abs mi' = (map_abs mi)(index \<mapsto> val)
       | Some _ \<Rightarrow> rv = 0 \<and> map_abs mi' = map_abs mi)) \<and>
    (\<exists>rv mo'. tgf_map_out_add mo ptr num = Some (rv, mo') \<and> map_inv map_comp_ptr UNIV mo' \<and>
      (case map_abs mo ptr of None \<Rightarrow> rv = 1 \<and> map_abs mo' = (map_abs mo)(ptr \<mapsto> num)
       | Some _ \<Rightarrow> rv = 0 \<and> map_abs mo' = map_abs mo)) \<and>
    tgf_map_in_lookup mi key = map_abs mi key \<and> tgf_map_out_lookup mo key = map_abs mo key \<and>
    2 ^ (find_steps map_comp_int key mi div 2) \<le> nd_size mi + 1 \<and> 2 ^ (find_steps map_comp_ptr key mo div 2) \<le> nd_size mo + 1"
proof -
  have "index \<in> index_keys" using assms(3) by (simp add: index_keys_def)
  note add = int_map.insert_ok [OF assms(1) this, of val] ptr_map.insert_ok [OF assms(2), of ptr num]
  have b: "balanced mi" "balanced mo" using assms(1,2) by (simp_all add: map_inv_def)
  show ?thesis
    unfolding tgf_map_in_add_def tgf_map_out_add_def tgf_map_in_lookup_def tgf_map_out_lookup_def
    by (intro conjI add find_steps_bound b int_map.find_ok [OF assms(1)] ptr_map.find_ok [OF assms(2)]) simp
qed

theorem tgf_map_refines_witness:
  "\<exists>mi. tgf_map_in_add (Map_node No_node 4 ''four'' 1 (Map_node No_node 9 ''nine'' 0 No_node)) 7 ''seven'' = Some (1, mi) \<and>
    map_abs mi 7 = Some ''seven'' \<and> map_abs mi 4 = Some ''four''"
proof -
  have i: "map_inv map_comp_int index_keys (Map_node No_node 4 ''four'' 1 (Map_node No_node 9 ''nine'' 0 No_node))"
    by (simp add: map_inv_def in_order_def index_keys_def map_comp_int_def)
  have o: "map_inv map_comp_ptr UNIV (No_node :: (32 word, nat) map_node)" by (rule ptr_map.inv_empty)
  show ?thesis using tgf_map_refines [OF i o, of 7 "''seven''" 0 0 0] by auto
qed

end
