(* ===== verification/Tgf_Command.thy ===== *)
theory Tgf_Command
  imports Tgf_Map
begin

text \<open>
  The commands of a TGF stream (\<open>tgf.h\<close>, \<open>tgf.c\<close>): their arguments, the check of a command against
  the table of known ones, and the translation between the client's identifiers and the numbers of
  commands. The machine is the 32-bit one of \<open>tgfmachine.h\<close>: the identifier of a client, a pointer,
  and an \<open>int\<close> share the storage of the argument's union. Also the representation of integers in the
  byte order of a host, and the checksum.
\<close>

section \<open>Bytes\<close>

type_synonym byte = "8 word"

definition bytes16 :: "bool \<Rightarrow> 16 word \<Rightarrow> byte list" where
  "bytes16 be w = (let bs = [ucast w, ucast (drop_bit 8 w)] in if be then rev bs else bs)"

definition bytes32 :: "bool \<Rightarrow> 32 word \<Rightarrow> byte list" where
  "bytes32 be w = (let bs = [ucast w, ucast (drop_bit 8 w), ucast (drop_bit 16 w), ucast (drop_bit 24 w)] in if be then rev bs else bs)"

definition bytes64 :: "bool \<Rightarrow> 64 word \<Rightarrow> byte list" where
  "bytes64 be w = (if be then bytes32 be (ucast (drop_bit 32 w)) @ bytes32 be (ucast w)
                   else bytes32 be (ucast w) @ bytes32 be (ucast (drop_bit 32 w)))"

fun word_le :: "byte list \<Rightarrow> 'a::len word" where
  "word_le [] = 0"
| "word_le (b # bs) = ucast b OR push_bit 8 (word_le bs)"

definition word16_of :: "bool \<Rightarrow> byte list \<Rightarrow> 16 word" where
  "word16_of be bs = word_le (if be then rev bs else bs)"

definition word32_of :: "bool \<Rightarrow> byte list \<Rightarrow> 32 word" where
  "word32_of be bs = word_le (if be then rev bs else bs)"

definition word64_of :: "bool \<Rightarrow> byte list \<Rightarrow> 64 word" where
  "word64_of be bs = word_le (if be then rev bs else bs)"

text \<open>\<open>tgf_ntohs\<close> and \<open>tgf_ntohl\<close>: on a host whose order is the network's they do nothing.\<close>

definition tgf_ntohs :: "bool \<Rightarrow> 16 word \<Rightarrow> 16 word" where
  "tgf_ntohs be w = word16_of True (bytes16 be w)"

definition tgf_ntohl :: "bool \<Rightarrow> 32 word \<Rightarrow> 32 word" where
  "tgf_ntohl be w = word32_of True (bytes32 be w)"

text \<open>\<open>convert_float\<close> converts the two halves of a double and exchanges them.\<close>

definition convert_float :: "bool \<Rightarrow> byte list \<Rightarrow> byte list" where
  "convert_float be bs =
    (let h0 = word32_of be (take 4 bs); h1 = word32_of be (drop 4 bs) in
     bytes32 be (tgf_ntohl be h1) @ bytes32 be (tgf_ntohl be h0))"

definition tgf_update_crc :: "byte \<Rightarrow> byte list \<Rightarrow> byte" where
  "tgf_update_crc crc bs = fold (\<lambda>b c. c XOR b) bs crc"

lemma bytes_lengths [simp]: "length (bytes16 be w) = 2" "length (bytes32 be v) = 4" "length (bytes64 be u) = 8"
  by (simp_all add: bytes16_def bytes32_def bytes64_def Let_def)

lemma word_step: "ucast (ucast w :: byte) OR push_bit 8 (drop_bit 8 w) = (w :: 'a::len word)"
proof (rule bit_word_eqI)
  fix n assume "n < LENGTH('a)"
  then show "bit (ucast (ucast w :: byte) OR push_bit 8 (drop_bit 8 w)) n \<longleftrightarrow> bit w n"
    by (cases "n < 8") (auto simp: bit_simps not_less)
qed

lemma word_le_bytes:
  "word_le [ucast w, ucast (drop_bit 8 w)] = (w :: 16 word)"
  "word_le [ucast v, ucast (drop_bit 8 v), ucast (drop_bit 16 v), ucast (drop_bit 24 v)] = (v :: 32 word)"
  "word_le [ucast u, ucast (drop_bit 8 u), ucast (drop_bit 16 u), ucast (drop_bit 24 u),
     ucast (drop_bit 32 u), ucast (drop_bit 40 u), ucast (drop_bit 48 u), ucast (drop_bit 56 u)] = (u :: 64 word)"
proof -
  have z: "drop_bit 16 w = 0" "drop_bit 32 v = 0" "drop_bit 64 u = 0"
    by (rule bit_word_eqI; simp add: bit_simps)+
  show "word_le [ucast w, ucast (drop_bit 8 w)] = w"
    using word_step [of w] word_step [of "drop_bit 8 w"] by (simp add: z(1))
  show "word_le [ucast v, ucast (drop_bit 8 v), ucast (drop_bit 16 v), ucast (drop_bit 24 v)] = v"
    using word_step [of v] word_step [of "drop_bit 8 v"] word_step [of "drop_bit 16 v"] word_step [of "drop_bit 24 v"]
    by (simp add: z(2))
  show "word_le [ucast u, ucast (drop_bit 8 u), ucast (drop_bit 16 u), ucast (drop_bit 24 u),
     ucast (drop_bit 32 u), ucast (drop_bit 40 u), ucast (drop_bit 48 u), ucast (drop_bit 56 u)] = u"
    using word_step [of u] word_step [of "drop_bit 8 u"] word_step [of "drop_bit 16 u"] word_step [of "drop_bit 24 u"]
      word_step [of "drop_bit 32 u"] word_step [of "drop_bit 40 u"] word_step [of "drop_bit 48 u"] word_step [of "drop_bit 56 u"]
    by (simp add: z(3))
qed

lemma half_bytes:
  "(ucast (drop_bit n (ucast (u :: 64 word) :: 32 word)) :: byte) = ucast (drop_bit n u)" if "n \<le> 24"
  using that by (auto simp: bit_simps intro!: bit_word_eqI)

lemma upper_half_bytes:
  "(ucast (drop_bit n (ucast (drop_bit 32 u :: 64 word) :: 32 word)) :: byte) = ucast (drop_bit (n + 32) u)" if "n \<le> 24"
  using that by (auto simp: bit_simps ac_simps intro!: bit_word_eqI)

lemma bytes64_eq:
  "bytes64 be u =
    (let bs = [ucast u, ucast (drop_bit 8 u), ucast (drop_bit 16 u), ucast (drop_bit 24 u),
      ucast (drop_bit 32 u), ucast (drop_bit 40 u), ucast (drop_bit 48 u), ucast (drop_bit 56 u)] in if be then rev bs else bs)"
  using half_bytes [of 0 u] upper_half_bytes [of 0 u]
  by (simp add: bytes64_def bytes32_def Let_def half_bytes upper_half_bytes)

lemma word16_bytes [simp]: "word16_of be (bytes16 be w) = w"
  by (simp add: word16_of_def bytes16_def Let_def word_le_bytes del: word_le.simps)

lemma word32_bytes [simp]: "word32_of be (bytes32 be w) = w"
  by (simp add: word32_of_def bytes32_def Let_def word_le_bytes del: word_le.simps)

lemma word64_bytes [simp]: "word64_of be (bytes64 be w) = w"
  by (simp add: word64_of_def bytes64_eq Let_def word_le_bytes del: word_le.simps)

text \<open>What a little-endian host makes of the bytes of a big-endian one.\<close>

lemma bytes_rev: "bytes16 False w = rev (bytes16 True w)" "bytes32 False v = rev (bytes32 True v)" "bytes64 False u = rev (bytes64 True u)"
  by (simp_all add: bytes16_def bytes32_def bytes64_eq Let_def)

lemma bytes32_word_le:
  "bytes32 False (word_le [a, b, c, d]) = [a, b, c, d]"
proof -
  have "ucast (word_le [a, b, c, d] :: 32 word) = a" "ucast (drop_bit 8 (word_le [a, b, c, d] :: 32 word)) = b"
    "ucast (drop_bit 16 (word_le [a, b, c, d] :: 32 word)) = c" "ucast (drop_bit 24 (word_le [a, b, c, d] :: 32 word)) = d"
    by (rule bit_word_eqI; auto simp: bit_simps dest: bit_imp_le_length)+
  then show ?thesis by (simp add: bytes32_def Let_def del: word_le.simps)
qed

lemma bytes16_word_le: "bytes16 False (word_le [a, b]) = [a, b]"
proof -
  have "ucast (word_le [a, b] :: 16 word) = a" "ucast (drop_bit 8 (word_le [a, b] :: 16 word)) = b"
    by (rule bit_word_eqI; auto simp: bit_simps dest: bit_imp_le_length)+
  then show ?thesis by (simp add: bytes16_def Let_def del: word_le.simps)
qed

lemma list4: "length xs = 4 \<Longrightarrow> \<exists>a b c d. xs = [a, b, c, d]" and list2: "length xs = 2 \<Longrightarrow> \<exists>a b. xs = [a, b]"
  by (auto simp: numeral_eq_Suc length_Suc_conv)

lemma bytes_word_of [simp]:
  "length bs = 4 \<Longrightarrow> bytes32 be (word32_of be bs) = bs" "length cs = 2 \<Longrightarrow> bytes16 be (word16_of be cs) = cs"
proof -
  have 1: "bytes32 False (word32_of False bs) = bs" if "length bs = 4" for bs
    using list4 [OF that] by (auto simp: word32_of_def bytes32_word_le simp del: word_le.simps)
  have 2: "bytes16 False (word16_of False cs) = cs" if "length cs = 2" for cs
    using list2 [OF that] by (auto simp: word16_of_def bytes16_word_le simp del: word_le.simps)
  show "length bs = 4 \<Longrightarrow> bytes32 be (word32_of be bs) = bs"
    using 1 [of bs] 1 [of "rev bs"] bytes_rev(2) [of "word32_of True bs"] by (cases be) (auto simp: word32_of_def)
  show "length cs = 2 \<Longrightarrow> bytes16 be (word16_of be cs) = cs"
    using 2 [of cs] 2 [of "rev cs"] bytes_rev(1) [of "word16_of True cs"] by (cases be) (auto simp: word16_of_def)
qed

lemma ntoh_other [simp]:
  "tgf_ntohs False (word16_of False (bytes16 True w)) = w"
  "tgf_ntohl False (word32_of False (bytes32 True v)) = v"
  by (simp_all add: tgf_ntohs_def tgf_ntohl_def)

lemma convert_float_other [simp]: "word64_of False (convert_float False (bytes64 True u)) = u"
proof -
  have "convert_float False (bytes64 True u) = bytes64 False u"
    by (simp add: convert_float_def bytes64_def Let_def)
  then show ?thesis by simp
qed

lemma update_crc_append [simp]: "tgf_update_crc crc (xs @ ys) = tgf_update_crc (tgf_update_crc crc xs) ys"
  by (simp add: tgf_update_crc_def)

lemma update_crc_Nil [simp]: "tgf_update_crc crc [] = crc"
  by (simp add: tgf_update_crc_def)

section \<open>Error codes\<close>

abbreviation (input) E_TGF_OK :: int where "E_TGF_OK \<equiv> 0"
abbreviation (input) E_TGF_INVTYPE :: int where "E_TGF_INVTYPE \<equiv> - 1"
abbreviation (input) E_TGF_INVHDR :: int where "E_TGF_INVHDR \<equiv> - 2"
abbreviation (input) E_TGF_INVCRC :: int where "E_TGF_INVCRC \<equiv> - 3"
abbreviation (input) E_TGF_INVARGS :: int where "E_TGF_INVARGS \<equiv> - 4"
abbreviation (input) E_TGF_EOF :: int where "E_TGF_EOF \<equiv> - 5"
abbreviation (input) E_TGF_VER :: int where "E_TGF_VER \<equiv> - 6"
abbreviation (input) E_TGF_NOSPC :: int where "E_TGF_NOSPC \<equiv> - 7"
abbreviation (input) E_TGF_OPNOTSUPP :: int where "E_TGF_OPNOTSUPP \<equiv> - 8"
abbreviation (input) E_TGF_IO :: int where "E_TGF_IO \<equiv> - 9"
abbreviation (input) E_TGF_INVAL :: int where "E_TGF_INVAL \<equiv> - 11"
abbreviation (input) E_TGF_CLNT :: int where "E_TGF_CLNT \<equiv> - 12"
abbreviation (input) E_TGF_CMDFAIL :: int where "E_TGF_CMDFAIL \<equiv> - 14"
abbreviation (input) E_TGF_FEATURE :: int where "E_TGF_FEATURE \<equiv> - 16"

section \<open>Commands\<close>

text \<open>The codes of \<open>tgf_arg_type\<close>. An argument is the tagged union of the code; \<open>Arg_bad\<close> is an argument
  of which only the type was set, whatever its code. \<open>Arg_int64\<close> exists as a type without a value.\<close>

definition TGF_INT32 :: "32 word" where "TGF_INT32 = 0"
definition TGF_INT64 :: "32 word" where "TGF_INT64 = 1"
definition TGF_FLOAT :: "32 word" where "TGF_FLOAT = 2"
definition TGF_DATA :: "32 word" where "TGF_DATA = 3"
definition TGF_SCTYPE :: "32 word" where "TGF_SCTYPE = 4"
definition TGF_INT16 :: "32 word" where "TGF_INT16 = 5"
definition TGF_STRING :: "32 word" where "TGF_STRING = 6"
definition TGF_LAZY_DATA :: "32 word" where "TGF_LAZY_DATA = 7"
definition TGF_ARG_LAST :: "32 word" where "TGF_ARG_LAST = 8"
definition TGF_USERID :: "32 word" where "TGF_USERID = 254"
definition TGF_NONE :: "32 word" where "TGF_NONE = 255"

lemmas arg_codes = TGF_INT32_def TGF_INT64_def TGF_FLOAT_def TGF_DATA_def TGF_SCTYPE_def TGF_INT16_def TGF_STRING_def
  TGF_LAZY_DATA_def TGF_ARG_LAST_def TGF_USERID_def TGF_NONE_def

datatype tgf_argument = Arg_int32 "32 word" | Arg_int64 | Arg_float "64 word" | Arg_data "byte list" | Arg_sctype byte
  | Arg_int16 "32 word" | Arg_string "byte list option" | Arg_lazy_data "byte list option" | Arg_userid "32 word"
  | Arg_bad "32 word"

fun arg_type :: "tgf_argument \<Rightarrow> 32 word" where
  "arg_type (Arg_int32 _) = TGF_INT32"
| "arg_type Arg_int64 = TGF_INT64"
| "arg_type (Arg_float _) = TGF_FLOAT"
| "arg_type (Arg_data _) = TGF_DATA"
| "arg_type (Arg_sctype _) = TGF_SCTYPE"
| "arg_type (Arg_int16 _) = TGF_INT16"
| "arg_type (Arg_string _) = TGF_STRING"
| "arg_type (Arg_lazy_data _) = TGF_LAZY_DATA"
| "arg_type (Arg_userid _) = TGF_USERID"
| "arg_type (Arg_bad ty) = ty"

datatype tgf_cmd_type = TGF_NOP | TGF_GENEL | TGF_DECLARE_SEGMENT | TGF_SWITCH_TO_SEGMENT | TGF_SETBEG | TGF_SETEND
  | TGF_FINDBYIDTF | TGF_ENDOFSTREAM

definition cmd_types :: "tgf_cmd_type list" where
  "cmd_types = [TGF_NOP, TGF_GENEL, TGF_DECLARE_SEGMENT, TGF_SWITCH_TO_SEGMENT, TGF_SETBEG, TGF_SETEND, TGF_FINDBYIDTF, TGF_ENDOFSTREAM]"

fun cmd_code :: "tgf_cmd_type \<Rightarrow> 16 word" where
  "cmd_code TGF_NOP = 0"
| "cmd_code TGF_GENEL = 1"
| "cmd_code TGF_DECLARE_SEGMENT = 2"
| "cmd_code TGF_SWITCH_TO_SEGMENT = 3"
| "cmd_code TGF_SETBEG = 4"
| "cmd_code TGF_SETEND = 5"
| "cmd_code TGF_FINDBYIDTF = 6"
| "cmd_code TGF_ENDOFSTREAM = 7"

definition TGF_CMD_LAST :: "16 word" where "TGF_CMD_LAST = 7"

text \<open>A command; \<open>tc_cnt\<close> says how many arguments its array holds, and the list those of them that were
  initialised.\<close>

record tgf_command =
  tc_type :: tgf_cmd_type
  tc_cnt :: nat
  tc_args :: "tgf_argument list"

definition arg_of :: "tgf_command \<Rightarrow> nat \<Rightarrow> tgf_argument option" where
  "arg_of c k = (if k < length (tc_args c) then Some (tc_args c ! k) else None)"

text \<open>The table \<open>known_cmds\<close>: the least and the greatest number of arguments, and their types.\<close>

definition known_cmds :: "(tgf_cmd_type \<times> nat \<times> nat \<times> 32 word list) list" where
  "known_cmds =
    [(TGF_GENEL, 2, 3, [TGF_STRING, TGF_SCTYPE, TGF_NONE]),
     (TGF_SETBEG, 2, 2, [TGF_USERID, TGF_USERID]),
     (TGF_SETEND, 2, 2, [TGF_USERID, TGF_USERID]),
     (TGF_FINDBYIDTF, 1, 1, [TGF_STRING]),
     (TGF_DECLARE_SEGMENT, 1, 1, [TGF_STRING]),
     (TGF_SWITCH_TO_SEGMENT, 1, 1, [TGF_USERID]),
     (TGF_ENDOFSTREAM, 0, 0, []),
     (TGF_NOP, 0, 0, [])]"

fun find_cmd :: "tgf_cmd_type \<Rightarrow> (tgf_cmd_type \<times> nat \<times> nat \<times> 32 word list) list \<Rightarrow> nat \<Rightarrow> nat" where
  "find_cmd ty [] i = i"
| "find_cmd ty (c # cs) i = (if fst c = ty then i else find_cmd ty cs (i + 1))"

text \<open>\<open>tgf_command_check\<close>. Looking at an argument that was not initialised is \<open>None\<close>.\<close>

fun check_args :: "32 word list \<Rightarrow> nat \<Rightarrow> nat \<Rightarrow> tgf_command \<Rightarrow> bool option" where
  "check_args tys k 0 c = Some True"
| "check_args tys k (Suc n) c =
    do {
      a \<leftarrow> arg_of c k;
      let ty = tys ! k in
      if ty = TGF_USERID \<and> arg_type a = TGF_INT32 then check_args tys (k + 1) n c
      else if ty \<noteq> TGF_NONE \<and> arg_type a \<noteq> ty then Some False
      else check_args tys (k + 1) n c
    }"

definition tgf_command_check :: "tgf_command \<Rightarrow> int option" where
  "tgf_command_check c =
    (let i = find_cmd (tc_type c) known_cmds 0 in
     if i = length known_cmds then Some E_TGF_OPNOTSUPP
     else
       (let (_, args_min, args_max, tys) = known_cmds ! i in
        if tc_cnt c < args_min then Some E_TGF_INVARGS
        else if tc_cnt c > args_max then Some E_TGF_INVARGS
        else do { ok \<leftarrow> check_args tys 0 (tc_cnt c) c; Some (if ok then int i else E_TGF_INVARGS) }))"

definition known_args :: "int \<Rightarrow> 32 word list" where
  "known_args i = snd (snd (snd (known_cmds ! nat i)))"

text \<open>\<open>arg.a_int32\<close> and \<open>arg.a_userid\<close> name the same storage. Reading it when nothing or something
  else was stored there is \<open>None\<close>.\<close>

fun arg_word :: "tgf_argument \<Rightarrow> 32 word option" where
  "arg_word (Arg_int32 w) = Some w"
| "arg_word (Arg_userid w) = Some w"
| "arg_word _ = None"

text \<open>\<open>tgf_command_translate_in\<close> and \<open>tgf_command_translate_out\<close>, which change the arguments in place.\<close>

fun translate_in_args :: "(32 word, 32 word) map_node \<Rightarrow> 32 word list \<Rightarrow> tgf_argument list \<Rightarrow> (int \<times> tgf_argument list) option" where
  "translate_in_args m (ty # tys) (a # as) =
    (if ty \<noteq> TGF_USERID then do { (rv, as) \<leftarrow> translate_in_args m tys as; Some (rv, a # as) }
     else do {
       w \<leftarrow> arg_word a;
       if w = - 1 then do { (rv, as) \<leftarrow> translate_in_args m tys as; Some (rv, a # as) }
       else (case tgf_map_in_lookup m w of
               None \<Rightarrow> Some (E_TGF_CMDFAIL, a # as)
             | Some u \<Rightarrow> do { (rv, as) \<leftarrow> translate_in_args m tys as; Some (rv, Arg_userid u # as) })
     })"
| "translate_in_args m tys as = Some (0, as)"

definition tgf_command_translate_in :: "(32 word, 32 word) map_node \<Rightarrow> tgf_command \<Rightarrow> (int \<times> tgf_command) option" where
  "tgf_command_translate_in m c =
    do {
      i \<leftarrow> tgf_command_check c;
      if i < 0 then Some (i, c)
      else do {
        (rv, as) \<leftarrow> translate_in_args m (known_args i) (tc_args c);
        Some (rv, c\<lparr>tc_args := as\<rparr>)
      }
    }"

fun translate_out_args :: "(32 word, 32 word) map_node \<Rightarrow> 32 word list \<Rightarrow> tgf_argument list \<Rightarrow> (int \<times> tgf_argument list) option" where
  "translate_out_args m (ty # tys) (a # as) =
    (if ty \<noteq> TGF_USERID then do { (rv, as) \<leftarrow> translate_out_args m tys as; Some (rv, a # as) }
     else if arg_type a \<noteq> TGF_USERID then Some (E_TGF_CLNT, a # as)
     else do {
       w \<leftarrow> arg_word a;
       if w = - 1 then do { (rv, as) \<leftarrow> translate_out_args m tys as; Some (rv, Arg_int32 w # as) }
       else (case tgf_map_out_lookup m w of
               None \<Rightarrow> Some (E_TGF_CLNT, a # as)
             | Some i \<Rightarrow> do { (rv, as) \<leftarrow> translate_out_args m tys as; Some (rv, Arg_int32 i # as) })
     })"
| "translate_out_args m tys as = Some (0, as)"

definition tgf_command_translate_out :: "(32 word, 32 word) map_node \<Rightarrow> tgf_command \<Rightarrow> (int \<times> tgf_command) option" where
  "tgf_command_translate_out m c =
    do {
      i \<leftarrow> tgf_command_check c;
      if i < 0 then Some (i, c)
      else do {
        (rv, as) \<leftarrow> translate_out_args m (known_args i) (tc_args c);
        Some (rv, c\<lparr>tc_args := as\<rparr>)
      }
    }"

end
