(* ===== verification/Tgf_Out.thy ===== *)
theory Tgf_Out
  imports Tgf_Command
begin

text \<open>
  \<open>tgfout.c\<close>: writing a TGF stream, into a memory buffer or through a write function. The program is
  built without \<open>USE_ZLIB\<close>, so there is no compression. The bytes between the start of the buffer and
  \<open>text\<close> are a list; \<open>so_base\<close> is the address of the buffer modulo 4 (that of \<open>malloc\<close> is 0). The write
  function \<open>wr\<close> of a stream and the byte order \<open>be\<close> of the host are arguments. A write past the end of
  the buffer, or a loop that makes no progress, is \<open>None\<close>.
\<close>

definition TGF_WRITE_BUFSIZE :: nat where "TGF_WRITE_BUFSIZE = 65536"

type_synonym 'o write_fn = "'o \<Rightarrow> byte list \<Rightarrow> int \<times> 'o"

record 'o tgf_stream_out =
  so_fd :: "'o option"
  so_text :: "byte list"
  so_size :: nat
  so_base :: nat
  so_compression :: "16 word"
  so_cmd_index :: "32 word"
  so_err :: int
  so_hash :: "(32 word, 32 word) map_node"

definition so_room :: "'o tgf_stream_out \<Rightarrow> nat" where
  "so_room s = so_size s - length (so_text s)"

definition tgf_stream_out_new :: "'o tgf_stream_out" where
  "tgf_stream_out_new = \<lparr>so_fd = None, so_text = [], so_size = 0, so_base = 0, so_compression = 0,
     so_cmd_index = 0, so_err = 0, so_hash = No_node\<rparr>"

definition out_fail :: "int \<Rightarrow> 'o tgf_stream_out \<Rightarrow> int \<times> 'o tgf_stream_out" where
  "out_fail e s = (e, s\<lparr>so_err := e\<rparr>)"

text \<open>\<open>tgf_stream_out_flush\<close> and \<open>stream_flush\<close> with the macro \<open>STREAM_FLUSH\<close> that uses it.\<close>

definition out_flush :: "'o write_fn \<Rightarrow> 'o tgf_stream_out \<Rightarrow> int \<times> 'o tgf_stream_out" where
  "out_flush wr s =
    (case so_fd s of
       None \<Rightarrow> (0, s)
     | Some fd \<Rightarrow>
         let (rv, fd) = wr fd (so_text s);
             rv = (if rv < int (length (so_text s)) then E_TGF_NOSPC else rv) in
         (rv, s\<lparr>so_fd := Some fd, so_text := [], so_size := TGF_WRITE_BUFSIZE, so_base := 0, so_err := rv\<rparr>))"

definition stream_flush :: "'o write_fn \<Rightarrow> 'o tgf_stream_out \<Rightarrow> int \<times> 'o tgf_stream_out" where
  "stream_flush wr s =
    (let (rv, s) = out_flush wr s in
     if rv < 0 then out_fail rv s else if rv = 0 then out_fail E_TGF_NOSPC s else (0, s))"

text \<open>\<open>tgf_stream_out_buf\<close>; \<open>base\<close> is the address of the client's buffer modulo 4. \<open>tgf_stream_out_fd\<close>
  and \<open>tgf_stream_out_custom\<close> differ in the write function alone.\<close>

definition tgf_stream_out_buf :: "'o write_fn \<Rightarrow> nat \<Rightarrow> nat \<Rightarrow> 'o tgf_stream_out \<Rightarrow> int \<times> 'o tgf_stream_out" where
  "tgf_stream_out_buf wr base sz s =
    (if sz mod 4 \<noteq> 0 then out_fail E_TGF_INVAL s
     else
       let s = (if so_fd s \<noteq> None then (snd (out_flush wr s))\<lparr>so_fd := None\<rparr> else s) in
       (0, s\<lparr>so_text := [], so_size := sz, so_base := base mod 4, so_err := 0\<rparr>))"

definition tgf_stream_out_custom :: "'o write_fn \<Rightarrow> 'o \<Rightarrow> 'o tgf_stream_out \<Rightarrow> 'o tgf_stream_out" where
  "tgf_stream_out_custom wr fd s =
    (let s = (if so_fd s \<noteq> None then snd (out_flush wr s) else s) in
     s\<lparr>so_fd := Some fd, so_text := [], so_size := TGF_WRITE_BUFSIZE, so_base := 0\<rparr>)"

text \<open>\<open>tgf_write\<close>.\<close>

lemma out_flush_text: "so_fd s \<noteq> None \<Longrightarrow> so_text (snd (out_flush wr s)) = [] \<and> so_size (snd (out_flush wr s)) = TGF_WRITE_BUFSIZE"
  by (auto simp: out_flush_def Let_def split: prod.split)

function write_loop :: "'o write_fn \<Rightarrow> 'o tgf_stream_out \<Rightarrow> byte list \<Rightarrow> int \<Rightarrow> int \<times> 'o tgf_stream_out" where
  "write_loop wr s buf written =
    (let t = min (so_room s) (length buf);
         s' = s\<lparr>so_text := so_text s @ take t buf\<rparr>; rest = drop t buf; written = written + int t in
     if so_room s > 0 \<and> rest = [] then (written, s')
     else if so_fd s = None then out_fail E_TGF_NOSPC s'
     else
       let f = out_flush wr s' in
       if fst f > 0 then write_loop wr (snd f) rest written
       else out_fail E_TGF_IO (snd f))"
  by pat_completeness auto
termination
proof (relation "measure (\<lambda>(wr, s, buf, written). 2 * length buf + (if so_room s = 0 then 1 else 0))")
  fix wr :: "'o write_fn" and s :: "'o tgf_stream_out" and buf :: "byte list" and written t s' rest written' f
  assume a: "t = min (so_room s) (length buf)" "s' = s\<lparr>so_text := so_text s @ take t buf\<rparr>" "rest = drop t buf"
    "\<not> (0 < so_room s \<and> rest = [])" "so_fd s \<noteq> None" "f = out_flush wr s'"
  then have "so_room (snd f) \<noteq> 0" using out_flush_text [of s' wr] by (simp add: so_room_def TGF_WRITE_BUFSIZE_def)
  then show "((wr, snd f, rest, written'), wr, s, buf, written) \<in> measure (\<lambda>(wr, s, buf, written). 2 * length buf + (if so_room s = 0 then 1 else 0))"
    using a by (auto simp: min_def split: if_splits)
qed simp

declare write_loop.simps [simp del]

definition tgf_write :: "'o write_fn \<Rightarrow> 'o tgf_stream_out \<Rightarrow> byte list \<Rightarrow> int \<times> 'o tgf_stream_out" where
  "tgf_write wr s buf = (if buf = [] then out_fail 0 s else write_loop wr s buf 0)"

text \<open>\<open>tgf_allign4_write\<close> does not look at the end of the buffer.\<close>

definition so_pad :: "'o tgf_stream_out \<Rightarrow> nat" where
  "so_pad s = (4 - (so_base s + length (so_text s)) mod 4) mod 4"

definition allign4_write :: "'o tgf_stream_out \<Rightarrow> 'o tgf_stream_out option" where
  "allign4_write s =
    do {
      ensure (so_pad s \<le> so_room s);
      Some (s\<lparr>so_text := so_text s @ replicate (so_pad s) 0\<rparr>)
    }"

text \<open>\<open>tgf_write_allign4\<close>, its loop over words of four bytes. With one to three bytes of room the loop of
  the code would not end.\<close>

function write4_loop :: "'o write_fn \<Rightarrow> 'o tgf_stream_out \<Rightarrow> byte list \<Rightarrow> (int \<times> 'o tgf_stream_out) option" where
  "write4_loop wr s buf =
    (let f = (if so_room s = 0 then stream_flush wr s else (0, s)) in
     if fst f < 0 then Some f
     else
       let s = snd f; n = min (so_room s div 4) (length buf div 4);
           s' = s\<lparr>so_text := so_text s @ take (4 * n) buf\<rparr>; rest = drop (4 * n) buf in
       if rest = [] then Some (0, s')
       else if n = 0 then None
       else write4_loop wr s' rest)"
  by pat_completeness auto
termination by (relation "measure (\<lambda>(wr, s, buf). length buf)") auto

declare write4_loop.simps [simp del]

definition tgf_write_allign4 :: "'o write_fn \<Rightarrow> 'o tgf_stream_out \<Rightarrow> byte list \<Rightarrow> (int \<times> 'o tgf_stream_out) option" where
  "tgf_write_allign4 wr s buf =
    do { s \<leftarrow> allign4_write s; if buf = [] then Some (0, s) else write4_loop wr s buf }"

text \<open>\<open>tgf_write_byte\<close>, \<open>tgf_write_int16\<close>, \<open>tgf_write_int32\<close>: \<open>n\<close> bytes at once, after a flush when there
  is no room for them.\<close>

definition write_fixed :: "'o write_fn \<Rightarrow> 'o tgf_stream_out \<Rightarrow> byte list \<Rightarrow> (int \<times> 'o tgf_stream_out) option" where
  "write_fixed wr s buf =
    (let f = (if so_room s < length buf then stream_flush wr s else (0, s)) in
     if fst f < 0 then Some f
     else do {
       ensure (length buf \<le> so_room (snd f));
       Some (0, (snd f)\<lparr>so_text := so_text (snd f) @ buf\<rparr>)
     })"

definition tgf_write_byte :: "'o write_fn \<Rightarrow> 'o tgf_stream_out \<Rightarrow> byte \<Rightarrow> (int \<times> 'o tgf_stream_out) option" where
  "tgf_write_byte wr s b = write_fixed wr s [b]"

definition tgf_write_int16 :: "'o write_fn \<Rightarrow> bool \<Rightarrow> 'o tgf_stream_out \<Rightarrow> 16 word \<Rightarrow> (int \<times> 'o tgf_stream_out) option" where
  "tgf_write_int16 wr be s i = write_fixed wr s (bytes16 be i)"

definition tgf_write_int32 :: "'o write_fn \<Rightarrow> bool \<Rightarrow> 'o tgf_stream_out \<Rightarrow> 32 word \<Rightarrow> (int \<times> 'o tgf_stream_out) option" where
  "tgf_write_int32 wr be s i = write_fixed wr s (bytes32 be i)"

definition tgf_write_sctype :: "'o write_fn \<Rightarrow> 'o tgf_stream_out \<Rightarrow> byte \<Rightarrow> (int \<times> 'o tgf_stream_out) option" where
  "tgf_write_sctype wr s ty = tgf_write_byte wr s ty"

text \<open>\<open>tgf_write_string\<close> writes no bytes for a null pointer; \<open>strlen\<close> stops at the first zero.
  \<open>tgf_write_data\<close> returns 0 when the length cannot be written.\<close>

definition c_string :: "byte list \<Rightarrow> byte list" where
  "c_string bs = takeWhile (\<lambda>b. b \<noteq> 0) bs"

definition tgf_write_string :: "'o write_fn \<Rightarrow> bool \<Rightarrow> 'o tgf_stream_out \<Rightarrow> byte list option \<Rightarrow> (int \<times> 'o tgf_stream_out) option" where
  "tgf_write_string wr be s str =
    (let buf = (case str of None \<Rightarrow> [] | Some bs \<Rightarrow> c_string bs) in
     do {
       (rv, s) \<leftarrow> tgf_write_int32 wr be s (word_of_nat (length buf));
       if rv < 0 then Some (out_fail rv s) else Some (tgf_write wr s buf)
     })"

definition tgf_write_data :: "'o write_fn \<Rightarrow> bool \<Rightarrow> 'o tgf_stream_out \<Rightarrow> byte list \<Rightarrow> (int \<times> 'o tgf_stream_out) option" where
  "tgf_write_data wr be s buf =
    do {
      (rv, s) \<leftarrow> tgf_write_int32 wr be s (word_of_nat (length buf));
      if rv < 0 then Some (0, s) else Some (tgf_write wr s buf)
    }"

text \<open>\<open>update_crc_argument\<close>. The two bytes of a 16-bit value are the first two in memory of an \<open>int\<close>.\<close>

fun update_crc_argument :: "bool \<Rightarrow> byte \<Rightarrow> tgf_argument \<Rightarrow> int \<times> byte" where
  "update_crc_argument be crc arg =
    (let crc = tgf_update_crc crc (bytes32 be (arg_type arg)) in
     case arg of
       Arg_int32 i \<Rightarrow> (0, tgf_update_crc crc (bytes32 be i))
     | Arg_int16 i \<Rightarrow> (0, tgf_update_crc crc (take 2 (bytes32 be i)))
     | Arg_sctype ty \<Rightarrow> (0, tgf_update_crc crc [ty])
     | Arg_int64 \<Rightarrow> (E_TGF_OPNOTSUPP, crc)
     | Arg_float d \<Rightarrow> (0, tgf_update_crc crc (bytes64 be d))
     | Arg_data bs \<Rightarrow> (0, tgf_update_crc (tgf_update_crc crc (bytes32 be (word_of_nat (length bs)))) bs)
     | Arg_string None \<Rightarrow> (0, crc)
     | Arg_string (Some bs) \<Rightarrow>
         (0, tgf_update_crc (tgf_update_crc crc (bytes32 be (word_of_nat (length (c_string bs))))) (c_string bs))
     | Arg_lazy_data None \<Rightarrow> (0, crc)
     | Arg_lazy_data (Some bs) \<Rightarrow>
         (0, tgf_update_crc (tgf_update_crc crc (bytes32 be (word_of_nat (length (c_string bs))))) (c_string bs))
     | _ \<Rightarrow> (E_TGF_INVARGS, crc))"

declare update_crc_argument.simps [simp del]

definition tgf_write_argument :: "'o write_fn \<Rightarrow> bool \<Rightarrow> 'o tgf_stream_out \<Rightarrow> tgf_argument \<Rightarrow> (int \<times> 'o tgf_stream_out) option" where
  "tgf_write_argument wr be s arg =
    (if arg_type arg > TGF_ARG_LAST then Some (E_TGF_INVARGS, s)
     else do {
       s \<leftarrow> allign4_write s;
       (rv, s) \<leftarrow> tgf_write_int32 wr be s (arg_type arg);
       if rv < 0 then Some (rv, s)
       else
         (case arg of
            Arg_int32 i \<Rightarrow> tgf_write_int32 wr be s i
          | Arg_sctype ty \<Rightarrow> tgf_write_sctype wr s ty
          | Arg_int16 i \<Rightarrow> tgf_write_int16 wr be s (ucast i)
          | Arg_int64 \<Rightarrow> Some (E_TGF_OPNOTSUPP, s)
          | Arg_float d \<Rightarrow> tgf_write_allign4 wr s (bytes64 be d)
          | Arg_string str \<Rightarrow> tgf_write_string wr be s str
          | Arg_lazy_data str \<Rightarrow> tgf_write_string wr be s str
          | Arg_data bs \<Rightarrow> tgf_write_data wr be s bs
          | _ \<Rightarrow> Some (E_TGF_INVAL, s))
     })"

section \<open>Commands\<close>

definition tgf_stream_out_set_compression :: "'o tgf_stream_out \<Rightarrow> 16 word \<Rightarrow> int \<times> 'o tgf_stream_out" where
  "tgf_stream_out_set_compression s compr =
    (if compr \<noteq> 0 then out_fail E_TGF_FEATURE s else out_fail 0 (s\<lparr>so_compression := compr\<rparr>))"

text \<open>The thirteen bytes of the header: signature, minor and major version, byte order, compression,
  a reserved byte, the mode of the checksum, two reserved bytes and the length of the identifier.\<close>

definition header_bytes :: "bool \<Rightarrow> byte \<Rightarrow> 16 word \<Rightarrow> byte \<Rightarrow> byte list" where
  "header_bytes be minor compr id_size =
    [84, 71, 70, minor, 3, (if be then 0 else 1)] @ bytes16 be compr @ [0, 1, 0, 0, id_size]"

definition tgf_stream_out_start :: "'o write_fn \<Rightarrow> bool \<Rightarrow> 'o tgf_stream_out \<Rightarrow> byte list \<Rightarrow> int \<times> 'o tgf_stream_out" where
  "tgf_stream_out_start wr be s tgf_id =
    (let ident = c_string tgf_id;
         id_len = (if length ident > 255 then 255 else length ident);
         minor = (if so_compression s = 0 then 0 else 1);
         s = s\<lparr>so_cmd_index := 0\<rparr>;
         f = tgf_write wr s (header_bytes be minor (so_compression s) (word_of_nat id_len)) in
     if fst f < 0 then out_fail (fst f) (snd f)
     else
       let g = tgf_write wr (snd f) (take id_len ident) in
       if fst g < 0 then out_fail (fst g) (snd g) else g)"

text \<open>\<open>tgf_write_command_hdr\<close>: the type and the count of arguments, 16 bits each.\<close>

definition command_hdr_bytes :: "bool \<Rightarrow> tgf_command \<Rightarrow> byte list" where
  "command_hdr_bytes be c = bytes16 be (cmd_code (tc_type c)) @ bytes16 be (word_of_nat (tc_cnt c))"

definition tgf_write_command_hdr :: "'o write_fn \<Rightarrow> bool \<Rightarrow> 'o tgf_stream_out \<Rightarrow> tgf_command \<Rightarrow> (int \<times> 'o tgf_stream_out) option" where
  "tgf_write_command_hdr wr be s c =
    do {
      (rv, s) \<leftarrow> tgf_write_allign4 wr s (command_hdr_bytes be c);
      if rv < 0 then Some (out_fail rv s) else Some (0, s)
    }"

fun crc_arguments :: "bool \<Rightarrow> byte \<Rightarrow> tgf_argument list \<Rightarrow> int \<times> byte" where
  "crc_arguments be crc [] = (0, crc)"
| "crc_arguments be crc (a # as) =
    (let (rv, crc) = update_crc_argument be crc a in if rv < 0 then (rv, crc) else crc_arguments be crc as)"

fun write_arguments :: "'o write_fn \<Rightarrow> bool \<Rightarrow> 'o tgf_stream_out \<Rightarrow> tgf_argument list \<Rightarrow> (int \<times> 'o tgf_stream_out) option" where
  "write_arguments wr be s [] = Some (0, s)"
| "write_arguments wr be s (a # as) =
    do { (rv, s) \<leftarrow> tgf_write_argument wr be s a; if rv < 0 then Some (rv, s) else write_arguments wr be s as }"

definition tgf_write_translated_command :: "'o write_fn \<Rightarrow> bool \<Rightarrow> 'o tgf_stream_out \<Rightarrow> tgf_command \<Rightarrow> (int \<times> 'o tgf_stream_out) option" where
  "tgf_write_translated_command wr be s c =
    do {
      ensure (tc_cnt c = length (tc_args c));
      let crc = tgf_update_crc 0 (command_hdr_bytes be c); (rv, crc) = crc_arguments be crc (tc_args c) in
      if rv < 0 then Some (out_fail rv s)
      else do {
        (rv, s) \<leftarrow> tgf_write_command_hdr wr be s c;
        if rv < 0 then Some (rv, s)
        else do {
          (rv, s) \<leftarrow> write_arguments wr be s (tc_args c);
          if rv < 0 then Some (rv, s)
          else do { (_, s) \<leftarrow> tgf_write_byte wr s crc; Some (0, s) }
        }
      }
    }"

definition tgf_write_command :: "'o write_fn \<Rightarrow> bool \<Rightarrow> 'o tgf_stream_out \<Rightarrow> tgf_command \<Rightarrow> 32 word \<Rightarrow> (int \<times> 'o tgf_stream_out) option" where
  "tgf_write_command wr be s c cl_id =
    (if so_err s < 0 then Some (so_err s, s)
     else do {
       (added, hash) \<leftarrow> (if cl_id \<noteq> 0 then tgf_map_out_add (so_hash s) cl_id (so_cmd_index s) else Some (1, so_hash s));
       if added = 0 then Some (E_TGF_CLNT, s)
       else do {
         let s = s\<lparr>so_hash := hash, so_cmd_index := so_cmd_index s + 1\<rparr>;
         (rv, c) \<leftarrow> tgf_command_translate_out (so_hash s) c;
         if rv < 0 then Some (out_fail rv s) else tgf_write_translated_command wr be s c
       }
     })"

definition tgf_stream_out_finish :: "'o write_fn \<Rightarrow> bool \<Rightarrow> 'o tgf_stream_out \<Rightarrow> (int \<times> 'o tgf_stream_out) option" where
  "tgf_stream_out_finish wr be s =
    do {
      (rv, s) \<leftarrow> tgf_write_command wr be s \<lparr>tc_type = TGF_ENDOFSTREAM, tc_cnt = 0, tc_args = []\<rparr> 0;
      let (rv, s) = (if rv \<ge> 0 then out_flush wr s else (rv, s)) in
      Some (out_fail rv s)
    }"

definition tgf_stream_out_is_written :: "'o tgf_stream_out \<Rightarrow> 32 word \<Rightarrow> bool" where
  "tgf_stream_out_is_written s user_id = (tgf_map_out_lookup (so_hash s) user_id \<noteq> None)"

end
