(* ===== verification/Tgf_Emit.thy ===== *)
theory Tgf_Emit
  imports Tgf_Out
begin

text \<open>
  What the functions of \<open>tgfout.c\<close> write, as lists of bytes: the format of arguments and commands, and
  that a stream over a write function that takes what it is given, or over a memory buffer with room
  enough, emits it.
\<close>

section \<open>The format\<close>

definition pad4 :: "nat \<Rightarrow> nat" where
  "pad4 n = (4 - n mod 4) mod 4"

lemma pad4_less: "pad4 n < 4"
  by (simp add: pad4_def)

lemma pad4_0: "n mod 4 = 0 \<Longrightarrow> pad4 n = 0"
  by (simp add: pad4_def)

lemma pad4_aligns: "(n + pad4 n) mod 4 = 0"
proof -
  have "n mod 4 = 0 \<or> n mod 4 = 1 \<or> n mod 4 = 2 \<or> n mod 4 = 3" by linarith
  then have "(n mod 4 + pad4 n) mod 4 = 0" by (auto simp: pad4_def)
  then show ?thesis by (simp add: mod_add_left_eq)
qed

fun payload :: "bool \<Rightarrow> tgf_argument \<Rightarrow> byte list" where
  "payload be (Arg_int32 i) = bytes32 be i"
| "payload be (Arg_float d) = bytes64 be d"
| "payload be (Arg_data bs) = bytes32 be (word_of_nat (length bs)) @ bs"
| "payload be (Arg_sctype ty) = [ty]"
| "payload be (Arg_int16 i) = bytes16 be (ucast i)"
| "payload be (Arg_string (Some bs)) = bytes32 be (word_of_nat (length bs)) @ bs"
| "payload be (Arg_lazy_data (Some bs)) = bytes32 be (word_of_nat (length bs)) @ bs"
| "payload be _ = []"

text \<open>The arguments that are written and read back as they are. A 16-bit argument must fit its field, and
  the writer's checksum takes its bytes from the wrong end of the \<open>int\<close> on a big-endian host.\<close>

fun arg_ok :: "bool \<Rightarrow> tgf_argument \<Rightarrow> bool" where
  "arg_ok be (Arg_int32 i) = True"
| "arg_ok be (Arg_float d) = True"
| "arg_ok be (Arg_data bs) = (length bs < 2 ^ 31)"
| "arg_ok be (Arg_sctype ty) = True"
| "arg_ok be (Arg_int16 i) = (\<not> be \<and> i < 65536)"
| "arg_ok be (Arg_string (Some bs)) = (0 \<notin> set bs \<and> length bs < 2 ^ 31)"
| "arg_ok be (Arg_lazy_data (Some bs)) = (0 \<notin> set bs \<and> length bs < 2 ^ 31)"
| "arg_ok be _ = False"

definition enc_arg :: "bool \<Rightarrow> nat \<Rightarrow> tgf_argument \<Rightarrow> byte list" where
  "enc_arg be off a = replicate (pad4 off) 0 @ bytes32 be (arg_type a) @ payload be a"

fun enc_args :: "bool \<Rightarrow> nat \<Rightarrow> tgf_argument list \<Rightarrow> byte list" where
  "enc_args be off [] = []"
| "enc_args be off (a # as) = enc_arg be off a @ enc_args be (off + length (enc_arg be off a)) as"

definition covered :: "bool \<Rightarrow> tgf_command \<Rightarrow> byte list" where
  "covered be c = command_hdr_bytes be c @ concat (map (\<lambda>a. bytes32 be (arg_type a) @ payload be a) (tc_args c))"

definition enc_cmd :: "bool \<Rightarrow> nat \<Rightarrow> tgf_command \<Rightarrow> byte list" where
  "enc_cmd be off c =
    replicate (pad4 off) 0 @ command_hdr_bytes be c @ enc_args be (off + pad4 off + 4) (tc_args c) @ [tgf_update_crc 0 (covered be c)]"

fun enc_cmds :: "bool \<Rightarrow> nat \<Rightarrow> tgf_command list \<Rightarrow> byte list" where
  "enc_cmds be off [] = []"
| "enc_cmds be off (c # cs) = enc_cmd be off c @ enc_cmds be (off + length (enc_cmd be off c)) cs"

definition cmd_ok :: "bool \<Rightarrow> tgf_command \<Rightarrow> bool" where
  "cmd_ok be c \<longleftrightarrow> tc_cnt c = length (tc_args c) \<and> (\<forall>a \<in> set (tc_args c). arg_ok be a)"

lemma length_hdr [simp]: "length (command_hdr_bytes be c) = 4"
  by (simp add: command_hdr_bytes_def)

lemma c_string_id: "0 \<notin> set bs \<Longrightarrow> c_string bs = bs"
  by (auto simp: c_string_def takeWhile_eq_all_conv)

lemma mask_low_bytes: "take 2 (bytes32 False i) = bytes16 False (ucast i)"
proof -
  have "(ucast (drop_bit 8 (ucast i :: 16 word)) :: byte) = ucast (drop_bit 8 i)"
    "(ucast (ucast i :: 16 word) :: byte) = ucast i"
    by (auto simp: bit_simps intro!: bit_word_eqI)
  then show ?thesis by (simp add: bytes32_def bytes16_def Let_def)
qed

lemma crc_argument_ok:
  "arg_ok be a \<Longrightarrow> update_crc_argument be crc a = (0, tgf_update_crc crc (bytes32 be (arg_type a) @ payload be a))"
  by (cases "(be, a)" rule: arg_ok.cases) (auto simp: update_crc_argument.simps Let_def c_string_id mask_low_bytes)

lemma crc_arguments_ok:
  "\<forall>a \<in> set as. arg_ok be a \<Longrightarrow>
    crc_arguments be crc as = (0, tgf_update_crc crc (concat (map (\<lambda>a. bytes32 be (arg_type a) @ payload be a) as)))"
  by (induction as arbitrary: crc) (simp_all add: crc_argument_ok)

section \<open>Streams that take what is written\<close>

text \<open>A write function that takes all the bytes it is given; \<open>content\<close> says what a file holds.\<close>

definition accepts :: "'o write_fn \<Rightarrow> ('o \<Rightarrow> byte list) \<Rightarrow> bool" where
  "accepts wr content \<longleftrightarrow>
    (\<forall>fd bs. fst (wr fd bs) \<ge> int (length bs) \<and> content (snd (wr fd bs)) = content fd @ bs)"

definition flushed :: "('o \<Rightarrow> byte list) \<Rightarrow> 'o tgf_stream_out \<Rightarrow> byte list" where
  "flushed content s = (case so_fd s of None \<Rightarrow> [] | Some fd \<Rightarrow> content fd)"

definition total :: "('o \<Rightarrow> byte list) \<Rightarrow> 'o tgf_stream_out \<Rightarrow> byte list" where
  "total content s = flushed content s @ so_text s"

text \<open>The stream can take \<open>n\<close> more bytes.\<close>

definition can_take :: "('o \<Rightarrow> byte list) \<Rightarrow> nat \<Rightarrow> 'o tgf_stream_out \<Rightarrow> bool" where
  "can_take content n s \<longleftrightarrow> so_base s = 0 \<and>
    (case so_fd s of
       None \<Rightarrow> length (so_text s) + n \<le> so_size s
     | Some fd \<Rightarrow> so_size s = TGF_WRITE_BUFSIZE \<and> length (so_text s) \<le> TGF_WRITE_BUFSIZE \<and> length (content fd) mod 4 = 0)"

definition so_client :: "'o tgf_stream_out \<Rightarrow> (32 word, 32 word) map_node \<times> 32 word \<times> 16 word \<times> bool" where
  "so_client s = (so_hash s, so_cmd_index s, so_compression s, so_fd s = None)"

text \<open>\<open>s'\<close> is \<open>s\<close> after \<open>bs\<close> was written; \<open>n\<close> more bytes can be.\<close>

definition emits :: "('o \<Rightarrow> byte list) \<Rightarrow> nat \<Rightarrow> 'o tgf_stream_out \<Rightarrow> byte list \<Rightarrow> 'o tgf_stream_out \<Rightarrow> bool" where
  "emits content n s bs s' \<longleftrightarrow> can_take content n s' \<and> total content s' = total content s @ bs \<and>
    so_client s' = so_client s \<and> (so_err s \<ge> 0 \<longrightarrow> so_err s' \<ge> 0)"

lemma emits_trans: "emits content m s bs s1 \<Longrightarrow> emits content n s1 cs s2 \<Longrightarrow> emits content n s (bs @ cs) s2"
  by (auto simp: emits_def)

lemma emits_refl: "can_take content n s \<Longrightarrow> emits content n s [] s"
  by (simp add: emits_def)

lemma can_take_less: "can_take content m s \<Longrightarrow> n \<le> m \<Longrightarrow> can_take content n s"
  by (auto simp: can_take_def split: option.splits)

lemma emits_take: "emits content n s bs s' \<Longrightarrow> can_take content n s'"
  by (simp add: emits_def)

lemma emits_total: "emits content n s bs s' \<Longrightarrow> total content s' = total content s @ bs"
  by (simp add: emits_def)

lemma emits_err: "emits content n s bs s' \<Longrightarrow> so_err s \<ge> 0 \<Longrightarrow> so_err s' \<ge> 0"
  by (simp add: emits_def)

lemma total_mod: "can_take content n s \<Longrightarrow> length (total content s) mod 4 = length (so_text s) mod 4"
proof -
  assume "can_take content n s"
  then have "length (flushed content s) mod 4 = 0" by (auto simp: can_take_def flushed_def split: option.splits)
  then show ?thesis unfolding total_def length_append by (metis add_0 mod_add_left_eq)
qed

lemma emits_append_text:
  assumes "can_take content (length bs + n) s" "length bs \<le> so_room s"
  shows "emits content n s bs (s\<lparr>so_text := so_text s @ bs\<rparr>)"
  using assms by (auto simp: emits_def can_take_def total_def flushed_def so_room_def so_client_def split: option.splits)

lemma out_flush_ok:
  assumes "accepts wr content" "can_take content n s" "so_fd s \<noteq> None" "so_text s \<noteq> []" "length (so_text s) mod 4 = 0"
  shows "fst (out_flush wr s) > 0" "emits content n s [] (snd (out_flush wr s))" "so_text (snd (out_flush wr s)) = []"
    "so_room (snd (out_flush wr s)) = TGF_WRITE_BUFSIZE"
proof -
  obtain fd where fd: "so_fd s = Some fd" using assms(3) by blast
  obtain rv fd' where w: "wr fd (so_text s) = (rv, fd')" by fastforce
  have a: "rv \<ge> int (length (so_text s))" "content fd' = content fd @ so_text s"
    using assms(1) w unfolding accepts_def by (metis fst_conv, metis snd_conv)
  then have "rv > 0" using assms(4) by (cases "so_text s") auto
  moreover have "length (content fd') mod 4 = 0"
    using assms(2,5) fd a(2) by (simp add: can_take_def) presburger
  ultimately show "fst (out_flush wr s) > 0" "emits content n s [] (snd (out_flush wr s))" "so_text (snd (out_flush wr s)) = []"
    "so_room (snd (out_flush wr s)) = TGF_WRITE_BUFSIZE"
    using assms(2) a fd w
    by (auto simp: out_flush_def Let_def emits_def can_take_def total_def flushed_def so_client_def so_room_def)
qed

text \<open>A stream has less room than is needed only when its buffer is full.\<close>

lemma room_0_full:
  assumes "can_take content n s" "so_room s < n" "n \<le> 1 \<or> n \<le> 4 \<and> length (so_text s) mod 4 = 0"
  shows "so_fd s \<noteq> None" "so_text s \<noteq> []" "length (so_text s) mod 4 = 0"
proof -
  show fd: "so_fd s \<noteq> None" using assms(1,2) by (cases "so_fd s") (auto simp: can_take_def so_room_def)
  then have le: "so_size s = 65536" "length (so_text s) \<le> 65536" using assms(1) by (auto simp: can_take_def TGF_WRITE_BUFSIZE_def)
  have "length (so_text s) = 65536"
  proof (cases "n \<le> 1")
    case True
    then show ?thesis using le assms(2) by (simp add: so_room_def)
  next
    case False
    then have "length (so_text s) mod 4 = 0" "65536 - length (so_text s) < 4" using assms(2,3) le by (simp_all add: so_room_def)
    then show ?thesis using le(2) by presburger
  qed
  then show "so_text s \<noteq> []" "length (so_text s) mod 4 = 0" by auto
qed

lemma stream_flush_ok:
  assumes "accepts wr content" "can_take content n s" "so_fd s \<noteq> None" "so_text s \<noteq> []" "length (so_text s) mod 4 = 0"
  shows "\<exists>s'. stream_flush wr s = (0, s') \<and> emits content n s [] s' \<and> so_text s' = [] \<and> so_room s' = TGF_WRITE_BUFSIZE"
  using out_flush_ok [OF assms] by (cases "out_flush wr s") (simp add: stream_flush_def)

section \<open>The functions that write\<close>

lemma write_fixed_emits:
  assumes wr: "accepts wr content"
    and pre: "can_take content (length bs + n) s" "length bs \<le> 1 \<or> length bs \<le> 4 \<and> length (total content s) mod 4 = 0"
  shows "\<exists>s'. write_fixed wr s bs = Some (0, s') \<and> emits content n s bs s'"
proof (cases "so_room s < length bs")
  case True
  have ct: "can_take content (length bs) s" using pre(1) can_take_less by (metis le_add1)
  from room_0_full [OF ct True] pre(2) total_mod [OF ct] obtain s1 where
    s1: "stream_flush wr s = (0, s1)" "emits content (length bs + n) s [] s1" "so_text s1 = []" "so_room s1 = TGF_WRITE_BUFSIZE"
    using stream_flush_ok [OF wr pre(1)] by auto
  have room: "length bs \<le> so_room s1" using pre(2) s1(4) by (auto simp: TGF_WRITE_BUFSIZE_def)
  from emits_append_text [OF emits_take [OF s1(2)] this] emits_trans [OF s1(2)]
  have "emits content n s ([] @ bs) (s1\<lparr>so_text := so_text s1 @ bs\<rparr>)" by blast
  then show ?thesis using True s1 room by (simp add: write_fixed_def)
next
  case False
  then show ?thesis using emits_append_text [OF pre(1)] by (simp add: write_fixed_def not_less)
qed

lemma write_loop_emits:
  assumes wr: "accepts wr content"
  shows "can_take content (length bs + n) s \<Longrightarrow> bs \<noteq> [] \<Longrightarrow>
    \<exists>s' k. write_loop wr s bs got = (got + int (length bs), s') \<and> emits content n s bs s'"
proof (induction "2 * length bs + (if so_room s = 0 then 1 else 0)" arbitrary: s bs got rule: less_induct)
  case less
  let ?t = "min (so_room s) (length bs)" and ?rest = "drop (min (so_room s) (length bs)) bs"
  let ?s = "s\<lparr>so_text := so_text s @ take ?t bs\<rparr>"
  have e: "emits content (length ?rest + n) s (take ?t bs) ?s"
    by (rule emits_append_text) (use less.prems in \<open>auto simp: can_take_def split: option.splits\<close>)
  show ?case
  proof (cases "so_room s > 0 \<and> ?rest = []")
    case True
    then have "write_loop wr s bs got = (got + int (length bs), ?s)" by (subst write_loop.simps) (simp add: Let_def)
    then show ?thesis using e True by simp
  next
    case False
    have rest: "?rest \<noteq> []" using False less.prems(2) by (cases "so_room s > 0") auto
    have "so_room s < length bs" using rest by auto
    have fd: "so_fd s \<noteq> None" using less.prems(1) rest by (cases "so_fd s") (auto simp: can_take_def so_room_def)
    have full: "length (so_text ?s) = 65536"
      using less.prems(1) fd rest by (auto simp: can_take_def so_room_def TGF_WRITE_BUFSIZE_def)
    have ne: "so_text ?s \<noteq> []" using full by force
    have md: "length (so_text ?s) mod 4 = 0" unfolding full by simp
    note fl = out_flush_ok [OF wr emits_take [OF e] _ ne md]
    let ?f = "snd (out_flush wr ?s)"
    have dec: "2 * length ?rest + (if so_room ?f = 0 then 1 else 0) < 2 * length bs + (if so_room s = 0 then 1 else 0)"
      using fl(4) fd rest by (auto simp: TGF_WRITE_BUFSIZE_def)
    have "can_take content (length ?rest + n) ?f" using fl(2) fd by (simp add: emits_take)
    from less.hyps [OF dec this rest] obtain s' where
      s': "write_loop wr ?f ?rest (got + int ?t) = (got + int ?t + int (length ?rest), s')" "emits content n ?f ?rest s'" by blast
    have "write_loop wr s bs got = write_loop wr ?f ?rest (got + int ?t)"
      using False fl(1) fd by (subst write_loop.simps) (auto simp: Let_def simp del: drop_eq_Nil drop_eq_Nil2)
    moreover have "emits content n s (take ?t bs @ [] @ ?rest) s'"
      by (intro emits_trans [OF e] emits_trans [OF fl(2)] s'(2)) (use fd in simp)
    ultimately show ?thesis using s'(1) rest by auto
  qed
qed

lemma tgf_write_emits:
  assumes wr: "accepts wr content"
    and pre: "can_take content (length bs + n) s"
  shows "\<exists>s'. tgf_write wr s bs = (int (length bs), s') \<and> emits content n s bs s'"
proof (cases "bs = []")
  case True
  then show ?thesis using pre
    by (auto simp: tgf_write_def out_fail_def emits_def can_take_def total_def flushed_def so_client_def split: option.splits)
next
  case False
  then show ?thesis using write_loop_emits [OF wr pre, of 0] by (auto simp: tgf_write_def)
qed

lemma allign4_emits:
  assumes "can_take content (pad4 (length (total content s)) + n) s"
  shows "\<exists>s'. allign4_write s = Some s' \<and> emits content n s (replicate (pad4 (length (total content s))) 0) s'"
proof -
  have p: "so_pad s = pad4 (length (total content s))"
    using total_mod [OF assms] assms by (simp add: so_pad_def pad4_def can_take_def)
  have "so_pad s \<le> so_room s"
  proof (cases "so_fd s")
    case None
    then have "length (so_text s) + (so_pad s + n) \<le> so_size s" using assms p by (simp add: can_take_def)
    then show ?thesis unfolding so_room_def by arith
  next
    case (Some fd)
    then have "so_size s = 65536" "length (so_text s) \<le> 65536" "so_base s = 0" using assms by (simp_all add: can_take_def TGF_WRITE_BUFSIZE_def)
    moreover have "(length (so_text s) + so_pad s) mod 4 = 0"
      using pad4_aligns [of "length (so_text s)"] total_mod [OF assms] by (simp add: p pad4_def)
    ultimately show ?thesis using pad4_less [of "length (total content s)"] p unfolding so_room_def by presburger
  qed
  then show ?thesis using emits_append_text [of content "replicate (so_pad s) 0" n s] assms p by (simp add: allign4_write_def)
qed

lemma write4_loop_emits:
  assumes wr: "accepts wr content"
  shows "can_take content (length bs + n) s \<Longrightarrow> bs \<noteq> [] \<Longrightarrow> length bs mod 4 = 0 \<Longrightarrow> length (total content s) mod 4 = 0 \<Longrightarrow>
    \<exists>s'. write4_loop wr s bs = Some (0, s') \<and> emits content n s bs s'"
proof (induction "length bs" arbitrary: s bs rule: less_induct)
  case less
  have md: "length (so_text s) mod 4 = 0" using total_mod [OF less.prems(1)] less.prems(4) by simp
  have ct1: "can_take content 1 s" using less.prems(1,2) by (intro can_take_less [OF less.prems(1)]) (cases bs; simp)
  obtain s1 where s1: "(if so_room s = 0 then stream_flush wr s else (0, s)) = (0, s1)" "emits content (length bs + n) s [] s1" "so_room s1 > 0"
  proof (cases "so_room s = 0")
    case True
    then show ?thesis using that stream_flush_ok [OF wr less.prems(1)] room_0_full [OF ct1] by (auto simp: TGF_WRITE_BUFSIZE_def)
  next
    case False
    then show ?thesis using that emits_refl [OF less.prems(1)] by auto
  qed
  have t1: "total content s1 = total content s" using s1(2) by (simp add: emits_def)
  have ct: "can_take content (length bs + n) s1" using s1(2) by (rule emits_take)
  have bl: "length bs \<ge> 4" using less.prems(2,3) by (cases bs) (simp_all, presburger)
  let ?n = "min (so_room s1 div 4) (length bs div 4)"
  have n: "?n > 0"
  proof (cases "so_fd s1")
    case None
    then have "length (so_text s1) + (length bs + n) \<le> so_size s1" using ct by (simp add: can_take_def)
    then have "so_room s1 \<ge> 4" using bl unfolding so_room_def by arith
    then show ?thesis using bl by (simp add: div_greater_zero_iff)
  next
    case (Some fd)
    then have "so_size s1 = 65536" "length (so_text s1) \<le> 65536" using ct by (simp_all add: can_take_def TGF_WRITE_BUFSIZE_def)
    moreover have "length (so_text s1) mod 4 = 0" using total_mod [OF ct] less.prems(4) t1 by simp
    ultimately have "so_room s1 \<ge> 4" using s1(3) unfolding so_room_def by presburger
    then show ?thesis using bl by (simp add: div_greater_zero_iff)
  qed
  let ?a = "take (4 * ?n) bs" and ?rest = "drop (4 * ?n) bs"
  let ?s = "s1\<lparr>so_text := so_text s1 @ ?a\<rparr>"
  have lb: "4 * ?n \<le> length bs" and lr: "4 * ?n \<le> so_room s1"
    using times_div_less_eq_dividend [of 4 "length bs"] times_div_less_eq_dividend [of 4 "so_room s1"] by linarith+
  have la: "length ?a = 4 * ?n" using lb by (simp only: length_take min_absorb2)
  have e: "emits content (length ?rest + n) s1 ?a ?s"
  proof (rule emits_append_text)
    have "length ?a + (length ?rest + n) = length bs + n" using lb by simp
    then show "can_take content (length ?a + (length ?rest + n)) s1" using ct by (simp only:)
    show "length ?a \<le> so_room s1" using la lr by simp
  qed
  have es: "emits content (length ?rest + n) s ?a ?s" using emits_trans [OF s1(2) e] by simp
  have step: "write4_loop wr s bs = (if ?rest = [] then Some (0, ?s) else write4_loop wr ?s ?rest)"
    unfolding write4_loop.simps [of wr s bs] s1(1) Let_def fst_conv snd_conv
    by (simp only: less_irrefl if_False gr_implies_not0 [OF n])
  show ?case
  proof (cases "?rest = []")
    case True
    then have "?a = bs" by (metis append_Nil2 append_take_drop_id)
    then show ?thesis using True step es by auto
  next
    case False
    have a: "length ?rest < length bs" using n bl unfolding length_drop by linarith
    have b: "length ?rest mod 4 = 0"
    proof -
      have "length bs = 4 * ?n + length ?rest" using lb unfolding length_drop by linarith
      then show ?thesis using less.prems(3) mod_mult_self4 by metis
    qed
    have c: "length (total content ?s) mod 4 = 0"
    proof -
      have "length (total content ?s) = length (total content s) + 4 * ?n" using emits_total [OF e] t1 la by (simp only: length_append)
      then show ?thesis using less.prems(4) mod_mult_self2 by metis
    qed
    from less.hyps [OF a emits_take [OF e] False b c] obtain s' where
      "write4_loop wr ?s ?rest = Some (0, s')" "emits content n ?s ?rest s'" by blast
    then show ?thesis using step False emits_trans [OF es] by (metis append_take_drop_id)
  qed
qed

lemma write_counted_emits:
  assumes wr: "accepts wr content"
    and pre: "can_take content (4 + length bs + n) s" "length (total content s) mod 4 = 0"
  shows "\<exists>s1 s2. tgf_write_int32 wr be s (word_of_nat (length bs)) = Some (0, s1) \<and> tgf_write wr s1 bs = (int (length bs), s2) \<and>
    emits content n s (bytes32 be (word_of_nat (length bs)) @ bs) s2"
proof -
  obtain s1 where s1: "tgf_write_int32 wr be s (word_of_nat (length bs)) = Some (0, s1)"
      "emits content (length bs + n) s (bytes32 be (word_of_nat (length bs))) s1"
    using write_fixed_emits [OF wr, of "bytes32 be (word_of_nat (length bs))" "length bs + n" s] pre
    by (auto simp: tgf_write_int32_def add.assoc)
  then show ?thesis using tgf_write_emits [OF wr emits_take [OF s1(2)]] emits_trans [OF s1(2)] by blast
qed

lemma arg_type_range: "arg_ok be a \<Longrightarrow> \<not> arg_type a > TGF_ARG_LAST"
  by (cases "(be, a)" rule: arg_ok.cases) (simp_all add: arg_codes)

lemma write_argument_emits:
  assumes wr: "accepts wr content"
    and pre: "arg_ok be a" "can_take content (length (enc_arg be (length (total content s)) a) + n) s"
  shows "\<exists>rv s'. tgf_write_argument wr be s a = Some (rv, s') \<and> rv \<ge> 0 \<and> emits content n s (enc_arg be (length (total content s)) a) s'"
proof -
  let ?off = "length (total content s)"
  let ?m = "4 + (length (payload be a) + n)"
  obtain s1 where s1: "allign4_write s = Some s1" "emits content ?m s (replicate (pad4 ?off) 0) s1"
    using allign4_emits [of content s ?m] pre(2) by (auto simp: enc_arg_def add.assoc)
  have al: "length (total content s1) mod 4 = 0" using s1(2) pad4_aligns [of ?off] by (simp add: emits_def add.commute)
  obtain s2 where s2: "tgf_write_int32 wr be s1 (arg_type a) = Some (0, s2)"
      "emits content (length (payload be a) + n) s1 (bytes32 be (arg_type a)) s2"
    using write_fixed_emits [OF wr, of "bytes32 be (arg_type a)" "length (payload be a) + n" s1] emits_take [OF s1(2)] al
    by (auto simp: tgf_write_int32_def)
  have al2: "length (total content s2) mod 4 = 0" using s2(2) al by (simp add: emits_def)
  note ct = emits_take [OF s2(2)]
  have "\<exists>rv s'. (case a of
            Arg_int32 i \<Rightarrow> tgf_write_int32 wr be s2 i
          | Arg_sctype ty \<Rightarrow> tgf_write_sctype wr s2 ty
          | Arg_int16 i \<Rightarrow> tgf_write_int16 wr be s2 (ucast i)
          | Arg_int64 \<Rightarrow> Some (E_TGF_OPNOTSUPP, s2)
          | Arg_float d \<Rightarrow> tgf_write_allign4 wr s2 (bytes64 be d)
          | Arg_string str \<Rightarrow> tgf_write_string wr be s2 str
          | Arg_lazy_data str \<Rightarrow> tgf_write_string wr be s2 str
          | Arg_data bs \<Rightarrow> tgf_write_data wr be s2 bs
          | _ \<Rightarrow> Some (E_TGF_INVAL, s2)) = Some (rv, s') \<and> rv \<ge> 0 \<and> emits content n s2 (payload be a) s'"
  proof (cases a)
    case (Arg_int32 i)
    then show ?thesis using write_fixed_emits [OF wr, of "bytes32 be i" n s2] ct al2 by (auto simp: tgf_write_int32_def)
  next
    case (Arg_float d)
    have "pad4 (length (total content s2)) = 0" using al2 by (rule pad4_0)
    then obtain s3 where s3: "allign4_write s2 = Some s3" "emits content (8 + n) s2 [] s3"
      using allign4_emits [of content s2 "8 + n"] ct Arg_float by auto
    have "length (total content s3) mod 4 = 0" using s3(2) al2 by (simp add: emits_def)
    moreover have ne: "bytes64 be d \<noteq> []" by (metis bytes_lengths(3) list.size(3) zero_neq_numeral)
    ultimately obtain s4 where s4: "write4_loop wr s3 (bytes64 be d) = Some (0, s4)" "emits content n s3 (bytes64 be d) s4"
      using write4_loop_emits [OF wr, of "bytes64 be d" n s3] emits_take [OF s3(2)] by auto
    then show ?thesis using ne s3(1) emits_trans [OF s3(2) s4(2)] Arg_float by (simp add: tgf_write_allign4_def)
  next
    case (Arg_data bs)
    then show ?thesis using write_counted_emits [OF wr, of bs n s2 be] ct al2 by (fastforce simp: tgf_write_data_def)
  next
    case (Arg_sctype ty)
    then show ?thesis using write_fixed_emits [OF wr, of "[ty]" n s2] ct by (auto simp: tgf_write_sctype_def tgf_write_byte_def)
  next
    case (Arg_int16 i)
    then show ?thesis using write_fixed_emits [OF wr, of "bytes16 be (ucast i)" n s2] ct al2 by (auto simp: tgf_write_int16_def)
  next
    case (Arg_string str)
    then obtain bs where "str = Some bs" "0 \<notin> set bs" using pre(1) by (cases str) auto
    then show ?thesis using Arg_string write_counted_emits [OF wr, of bs n s2 be] ct al2 by (fastforce simp: tgf_write_string_def c_string_id)
  next
    case (Arg_lazy_data str)
    then obtain bs where "str = Some bs" "0 \<notin> set bs" using pre(1) by (cases str) auto
    then show ?thesis using Arg_lazy_data write_counted_emits [OF wr, of bs n s2 be] ct al2 by (fastforce simp: tgf_write_string_def c_string_id)
  qed (use pre(1) in auto)
  then obtain rv s' where s': "tgf_write_argument wr be s a = Some (rv, s')" "rv \<ge> 0" "emits content n s2 (payload be a) s'"
    using s1(1) s2(1) arg_type_range [OF pre(1)] by (auto simp: tgf_write_argument_def)
  moreover have "emits content n s (enc_arg be ?off a) s'"
    unfolding enc_arg_def by (intro emits_trans [OF s1(2)] emits_trans [OF s2(2)] s'(3))
  ultimately show ?thesis by blast
qed

lemma write_arguments_emits:
  assumes wr: "accepts wr content"
  shows "\<forall>a \<in> set as. arg_ok be a \<Longrightarrow> can_take content (length (enc_args be (length (total content s)) as) + n) s \<Longrightarrow>
    \<exists>s'. write_arguments wr be s as = Some (0, s') \<and> emits content n s (enc_args be (length (total content s)) as) s'"
proof (induction as arbitrary: s)
  case Nil
  then show ?case by (simp add: emits_refl)
next
  case (Cons a as)
  let ?off = "length (total content s)"
  obtain rv s1 where s1: "tgf_write_argument wr be s a = Some (rv, s1)" "rv \<ge> 0"
      "emits content (length (enc_args be (?off + length (enc_arg be ?off a)) as) + n) s (enc_arg be ?off a) s1"
    using write_argument_emits [OF wr, of be a s "length (enc_args be (?off + length (enc_arg be ?off a)) as) + n"] Cons.prems by (auto simp: add.assoc)
  have off: "length (total content s1) = ?off + length (enc_arg be ?off a)" using s1(3) by (simp add: emits_def)
  obtain s2 where "write_arguments wr be s1 as = Some (0, s2)" "emits content n s1 (enc_args be (length (total content s1)) as) s2"
    using Cons.IH [of s1] Cons.prems(1) emits_take [OF s1(3)] off by auto
  then show ?case using s1 emits_trans [OF s1(3)] off by auto
qed

lemma write_command_emits:
  assumes wr: "accepts wr content"
    and pre: "cmd_ok be c" "can_take content (length (enc_cmd be (length (total content s)) c) + n) s"
  shows "\<exists>s'. tgf_write_translated_command wr be s c = Some (0, s') \<and> emits content n s (enc_cmd be (length (total content s)) c) s'"
proof -
  let ?off = "length (total content s)"
  let ?as = "enc_args be (?off + pad4 ?off + 4) (tc_args c)"
  obtain s1 where s1: "allign4_write s = Some s1" "emits content (4 + (length ?as + (1 + n))) s (replicate (pad4 ?off) 0) s1"
    using allign4_emits [of content s "4 + (length ?as + (1 + n))"] pre(2) by (auto simp: enc_cmd_def add.assoc)
  have al: "length (total content s1) mod 4 = 0" using s1(2) pad4_aligns [of ?off] by (simp add: emits_def add.commute)
  have ne: "command_hdr_bytes be c \<noteq> []" by (metis length_hdr list.size(3) zero_neq_numeral)
  obtain s2 where s2: "write4_loop wr s1 (command_hdr_bytes be c) = Some (0, s2)"
      "emits content (length ?as + (1 + n)) s1 (command_hdr_bytes be c) s2"
    using write4_loop_emits [OF wr, of "command_hdr_bytes be c" "length ?as + (1 + n)" s1] emits_take [OF s1(2)] al ne by auto
  have hdr: "tgf_write_command_hdr wr be s c = Some (0, s2)"
    using s1(1) s2(1) ne by (simp add: tgf_write_command_hdr_def tgf_write_allign4_def)
  have off: "length (total content s2) = ?off + pad4 ?off + 4" using s1(2) s2(2) by (simp add: emits_def)
  obtain s3 where s3: "write_arguments wr be s2 (tc_args c) = Some (0, s3)" "emits content (1 + n) s2 ?as s3"
    using write_arguments_emits [OF wr, of "tc_args c" be s2 "1 + n"] pre(1) emits_take [OF s2(2)] off by (auto simp: cmd_ok_def)
  obtain s4 where s4: "tgf_write_byte wr s3 (tgf_update_crc 0 (covered be c)) = Some (0, s4)"
      "emits content n s3 [tgf_update_crc 0 (covered be c)] s4"
    using write_fixed_emits [OF wr, of "[tgf_update_crc 0 (covered be c)]" n s3] emits_take [OF s3(2)] by (auto simp: tgf_write_byte_def)
  have "tgf_write_translated_command wr be s c = Some (0, s4)"
    using pre(1) hdr s3(1) s4(1) by (simp add: tgf_write_translated_command_def cmd_ok_def crc_arguments_ok covered_def)
  moreover have "emits content n s (enc_cmd be ?off c) s4"
    unfolding enc_cmd_def by (intro emits_trans [OF s1(2)] emits_trans [OF s2(2)] emits_trans [OF s3(2)] s4(2))
  ultimately show ?thesis by blast
qed

end
