(* ===== verification/Tgf_In.thy ===== *)
theory Tgf_In
  imports Tgf_Command
begin

text \<open>
  \<open>tgfin.c\<close>: reading a TGF stream, from memory or through a read function. The bytes from \<open>text\<close> to
  \<open>text_end\<close> are a list and \<open>si_pos\<close> is the address of \<open>text\<close>, of which only its remainder modulo 4 is
  looked at. A read function may give fewer bytes than it was asked for: it answers \<open>None\<close> for an
  error, no bytes for the end of the file, else some bytes. The loops that ask it are partial
  functions. A failed assertion and the use of memory that was not set are \<open>None\<close>. After an error of
  the read function the model keeps the bytes that were in the buffer.
\<close>

definition TGF_READ_BUFSIZE :: nat where "TGF_READ_BUFSIZE = 16384"

type_synonym 'i read_fn = "'i \<Rightarrow> nat \<Rightarrow> byte list option \<times> 'i"

text \<open>The header as the reader keeps it (\<open>tgf_header_user\<close>).\<close>

record tgf_header =
  th_signature :: "byte list"
  th_minor_ver :: byte
  th_major_ver :: byte
  th_endianness :: byte
  th_compression :: "16 word"
  th_checksum :: byte
  th_id_size :: byte
  th_tgf_id :: "byte list"

record 'i tgf_stream_in =
  si_fd :: "'i option"
  si_text :: "byte list"
  si_pos :: nat
  si_conv :: bool
  si_crc :: byte
  si_cmd_index :: "32 word"
  si_hdr :: tgf_header
  si_err :: int
  si_hash :: "(32 word, 32 word) map_node"

definition empty_header :: tgf_header where
  "empty_header = \<lparr>th_signature = [], th_minor_ver = 0, th_major_ver = 0, th_endianness = 0, th_compression = 0,
     th_checksum = 0, th_id_size = 0, th_tgf_id = []\<rparr>"

definition tgf_stream_in_new :: "'i tgf_stream_in" where
  "tgf_stream_in_new = \<lparr>si_fd = None, si_text = [], si_pos = 0, si_conv = False, si_crc = 0, si_cmd_index = 0,
     si_hdr = empty_header, si_err = 0, si_hash = No_node\<rparr>"

text \<open>\<open>tgf_stream_in_buf\<close>, with the address of the client's bytes, and \<open>tgf_stream_in_fd\<close> or
  \<open>tgf_stream_in_custom\<close>.\<close>

definition tgf_stream_in_buf :: "nat \<Rightarrow> byte list \<Rightarrow> 'i tgf_stream_in \<Rightarrow> int \<times> 'i tgf_stream_in" where
  "tgf_stream_in_buf start bytes s = (0, s\<lparr>si_fd := None, si_text := bytes, si_pos := start, si_err := 0\<rparr>)"

definition tgf_stream_in_custom :: "'i \<Rightarrow> 'i tgf_stream_in \<Rightarrow> 'i tgf_stream_in" where
  "tgf_stream_in_custom fd s = s\<lparr>si_fd := Some fd, si_text := [], si_pos := 0\<rparr>"

definition in_fail :: "int \<Rightarrow> 'i tgf_stream_in \<Rightarrow> int \<times> 'i tgf_stream_in" where
  "in_fail e s = (e, s\<lparr>si_err := e\<rparr>)"

section \<open>Reading bytes\<close>

text \<open>A call of the read function for at most \<open>n\<close> bytes; more than that would be written past the
  buffer.\<close>

definition ask :: "'i read_fn \<Rightarrow> 'i \<Rightarrow> nat \<Rightarrow> (byte list option \<times> 'i) option" where
  "ask rd fd n =
    do {
      let (r, fd) = rd fd n in
      do { ensure (case r of None \<Rightarrow> True | Some bs \<Rightarrow> length bs \<le> n); Some (r, fd) }
    }"

text \<open>The bytes that the code takes from \<open>text\<close>.\<close>

definition take_text :: "nat \<Rightarrow> 'i tgf_stream_in \<Rightarrow> byte list \<times> 'i tgf_stream_in" where
  "take_text n s = (take n (si_text s), s\<lparr>si_text := drop n (si_text s), si_pos := si_pos s + n\<rparr>)"

definition si_update_crc :: "byte list \<Rightarrow> 'i tgf_stream_in \<Rightarrow> 'i tgf_stream_in" where
  "si_update_crc bs s = s\<lparr>si_crc := tgf_update_crc (si_crc s) bs\<rparr>"

text \<open>\<open>tgf_read\<close>: all the bytes or an error.\<close>

partial_function (option) read_loop :: "'i read_fn \<Rightarrow> 'i tgf_stream_in \<Rightarrow> nat \<Rightarrow> byte list \<Rightarrow> (int \<times> byte list \<times> 'i tgf_stream_in) option" where
  "read_loop rd s sz got =
    (let t = min (length (si_text s)) sz; (bs, s) = take_text t s; s = si_update_crc bs s; got = got @ bs; sz = sz - t in
     if t > 0 \<and> sz = 0 then Some (int (length got), got, s)
     else
       (case si_fd s of
          None \<Rightarrow> Some (E_TGF_EOF, got, s)
        | Some fd \<Rightarrow>
            (let allign = si_pos s mod 4 in
             do {
               (r, fd) \<leftarrow> ask rd fd (TGF_READ_BUFSIZE - allign);
               (case r of
                  None \<Rightarrow> Some (E_TGF_IO, got, s\<lparr>si_fd := Some fd\<rparr>)
                | Some [] \<Rightarrow> Some (E_TGF_EOF, got, s\<lparr>si_fd := None\<rparr>)
                | Some (b # bs) \<Rightarrow> read_loop rd (s\<lparr>si_fd := Some fd, si_text := b # bs, si_pos := allign\<rparr>) sz got)
             })))"

definition tgf_read :: "'i read_fn \<Rightarrow> 'i tgf_stream_in \<Rightarrow> nat \<Rightarrow> (int \<times> byte list \<times> 'i tgf_stream_in) option" where
  "tgf_read rd s sz = (if sz = 0 then Some (0, [], s) else read_loop rd s sz [])"

text \<open>\<open>tgf_fill_buffer\<close>: at least four bytes unless the file ends.\<close>

partial_function (option) fill_more :: "'i read_fn \<Rightarrow> 'i \<Rightarrow> nat \<Rightarrow> byte list \<Rightarrow> (byte list option \<times> 'i) option" where
  "fill_more rd fd allign got =
    (if length got < 4 then
       do {
         (r, fd) \<leftarrow> ask rd fd (TGF_READ_BUFSIZE - length got - allign);
         (case r of
            None \<Rightarrow> Some (None, fd)
          | Some [] \<Rightarrow> Some (Some got, fd)
          | Some (b # bs) \<Rightarrow> fill_more rd fd allign (got @ b # bs))
       }
     else Some (Some got, fd))"

definition tgf_fill_buffer :: "'i read_fn \<Rightarrow> 'i tgf_stream_in \<Rightarrow> (int \<times> 'i tgf_stream_in) option" where
  "tgf_fill_buffer rd s =
    (case si_fd s of
       None \<Rightarrow> Some (E_TGF_EOF, s)
     | Some fd \<Rightarrow>
         do {
           ensure (length (si_text s) < 4);
           let allign = si_pos s mod 4 in
           do {
             (r, fd) \<leftarrow> ask rd fd (TGF_READ_BUFSIZE - length (si_text s) - allign);
             (case r of
                None \<Rightarrow> Some (E_TGF_IO, s\<lparr>si_fd := Some fd\<rparr>)
              | Some [] \<Rightarrow> Some (E_TGF_EOF, s\<lparr>si_fd := Some fd\<rparr>)
              | Some (b # bs) \<Rightarrow>
                  do {
                    (r, fd) \<leftarrow> fill_more rd fd allign (si_text s @ b # bs);
                    Some (case r of
                            None \<Rightarrow> (E_TGF_IO, s\<lparr>si_fd := Some fd\<rparr>)
                          | Some got \<Rightarrow> (int (length got), s\<lparr>si_fd := Some fd, si_text := got, si_pos := allign\<rparr>))
                  })
           }
         })"

text \<open>The first loop of \<open>tgf_read_align4\<close>: pass over the bytes up to the next multiple of four and make
  sure that four bytes follow. When the file ends inside of these bytes, \<open>text\<close> comes to lie behind
  \<open>text_end\<close> and the assertion of the next \<open>tgf_fill_buffer\<close> fails.\<close>

definition si_pad :: "'i tgf_stream_in \<Rightarrow> nat" where
  "si_pad s = (4 - si_pos s mod 4) mod 4"

partial_function (option) align_loop :: "'i read_fn \<Rightarrow> 'i tgf_stream_in \<Rightarrow> (int \<times> 'i tgf_stream_in) option" where
  "align_loop rd s =
    (if si_pad s < length (si_text s) \<and> length (si_text s) - si_pad s > 3 then Some (0, snd (take_text (si_pad s) s))
     else
       let s = (if si_pad s < length (si_text s) then snd (take_text (si_pad s) s) else s) in
       do {
         (t, s) \<leftarrow> tgf_fill_buffer rd s;
         if t < 0 then Some (t, s)
         else do {
           ensure (si_pad s \<le> length (si_text s));
           align_loop rd (snd (take_text (si_pad s) s))
         }
       })"

text \<open>\<open>tgf_read_align4\<close> for one word of four bytes, as all its callers use it: the first loop has left
  them in the buffer, so the second copies them at once.\<close>

definition tgf_read_align4 :: "'i read_fn \<Rightarrow> 'i tgf_stream_in \<Rightarrow> (int \<times> byte list \<times> 'i tgf_stream_in) option" where
  "tgf_read_align4 rd s =
    do {
      (rv, s) \<leftarrow> align_loop rd s;
      if rv < 0 then Some (rv, [], s)
      else let (bs, s) = take_text 4 s in Some (1, bs, si_update_crc bs s)
    }"

definition tgf_read_byte :: "'i read_fn \<Rightarrow> 'i tgf_stream_in \<Rightarrow> (int \<times> 'i tgf_stream_in) option" where
  "tgf_read_byte rd s =
    do {
      (ch, s) \<leftarrow> (if si_text s = [] then tgf_fill_buffer rd s else Some (1, s));
      if ch \<le> 0 then Some (in_fail ch s)
      else let (bs, s) = take_text 1 s in Some (uint (hd bs), si_update_crc bs s)
    }"

text \<open>\<open>tgf_read_int32\<close> and \<open>tgf_read_int16\<close>.\<close>

partial_function (option) need4 :: "'i read_fn \<Rightarrow> 'i tgf_stream_in \<Rightarrow> (int \<times> 'i tgf_stream_in) option" where
  "need4 rd s =
    (if length (si_text s) < 4 then
       do { (rv, s) \<leftarrow> tgf_fill_buffer rd s; if rv < 0 then Some (in_fail rv s) else need4 rd s }
     else Some (0, s))"

definition conv16 :: "bool \<Rightarrow> 'i tgf_stream_in \<Rightarrow> 16 word \<Rightarrow> 16 word" where
  "conv16 be s i = (if si_conv s then tgf_ntohs be i else i)"

definition conv32 :: "bool \<Rightarrow> 'i tgf_stream_in \<Rightarrow> 32 word \<Rightarrow> 32 word" where
  "conv32 be s i = (if si_conv s then tgf_ntohl be i else i)"

definition tgf_read_int32 :: "'i read_fn \<Rightarrow> bool \<Rightarrow> 'i tgf_stream_in \<Rightarrow> (int \<times> 32 word option \<times> 'i tgf_stream_in) option" where
  "tgf_read_int32 rd be s =
    do {
      (rv, s) \<leftarrow> need4 rd s;
      if rv < 0 then Some (rv, None, s)
      else let (bs, s) = take_text 4 s in Some (0, Some (conv32 be s (word32_of be bs)), si_update_crc bs s)
    }"

text \<open>The loop of \<open>tgf_read_int16\<close> runs at most once, since \<open>tgf_fill_buffer\<close> leaves more than two bytes
  or the function returns. The value is read through \<open>conv16\<close>, which is unsigned.\<close>

definition tgf_read_int16 :: "'i read_fn \<Rightarrow> bool \<Rightarrow> 'i tgf_stream_in \<Rightarrow> (int \<times> 32 word option \<times> 'i tgf_stream_in) option" where
  "tgf_read_int16 rd be s =
    do {
      (rv, s) \<leftarrow> (if length (si_text s) < 2 then tgf_fill_buffer rd s else Some (3, s));
      if rv \<le> 2 then (let (rv, s) = in_fail rv s in Some (rv, None, s))
      else let (bs, s) = take_text 2 s in Some (0, Some (ucast (conv16 be s (word16_of be bs))), si_update_crc bs s)
    }"

section \<open>Arguments\<close>

definition tgf_read_sctype :: "'i read_fn \<Rightarrow> 'i tgf_stream_in \<Rightarrow> (int \<times> byte option \<times> 'i tgf_stream_in) option" where
  "tgf_read_sctype rd s =
    do { (rv, s) \<leftarrow> tgf_read_byte rd s; if rv < 0 then Some (rv, None, s) else Some (0, Some (word_of_int rv), s) }"

text \<open>\<open>tgf_read_data\<close> and \<open>tgf_read_string\<close>: a length and as many bytes. The length is an \<open>int\<close>: a
  negative one is a request for an impossible amount of memory, or writes before it, \<open>None\<close> here.\<close>

definition read_counted :: "'i read_fn \<Rightarrow> bool \<Rightarrow> 'i tgf_stream_in \<Rightarrow> (int \<times> byte list option \<times> 'i tgf_stream_in) option" where
  "read_counted rd be s =
    do {
      (rv, w, s) \<leftarrow> tgf_read_int32 rd be s;
      if rv < 0 then Some (rv, None, s)
      else do {
        datasize \<leftarrow> w;
        ensure (0 \<le> sint datasize);
        (rv, bs, s) \<leftarrow> tgf_read rd s (unat datasize);
        Some (rv, if rv < 0 then None else Some bs, s)
      }
    }"

text \<open>\<open>tgf_read_argument\<close>: the argument with the return code; no argument when not even the type could be
  read, \<open>Arg_bad\<close> when only the type could.\<close>

definition with_value :: "32 word \<Rightarrow> ('v \<Rightarrow> tgf_argument) \<Rightarrow> (int \<times> 'v option \<times> 'i tgf_stream_in) option \<Rightarrow> (int \<times> tgf_argument option \<times> 'i tgf_stream_in) option" where
  "with_value ty mk r =
    do { (rv, v, s) \<leftarrow> r; Some (rv, Some (case v of None \<Rightarrow> Arg_bad ty | Some x \<Rightarrow> mk x), s) }"

definition read_float :: "'i read_fn \<Rightarrow> bool \<Rightarrow> 'i tgf_stream_in \<Rightarrow> (int \<times> 64 word option \<times> 'i tgf_stream_in) option" where
  "read_float rd be s =
    do {
      (rv, bs, s) \<leftarrow> tgf_read rd s 8;
      if rv < 0 then Some (rv, None, s)
      else Some (rv, Some (word64_of be (if si_conv s then convert_float be bs else bs)), s)
    }"

definition tgf_read_argument :: "'i read_fn \<Rightarrow> bool \<Rightarrow> 'i tgf_stream_in \<Rightarrow> (int \<times> tgf_argument option \<times> 'i tgf_stream_in) option" where
  "tgf_read_argument rd be s =
    do {
      (rv, bs, s) \<leftarrow> tgf_read_align4 rd s;
      if rv < 0 then Some (rv, None, s)
      else
        let ty = conv32 be s (word32_of be bs) in
        if ty = TGF_INT32 then with_value ty Arg_int32 (tgf_read_int32 rd be s)
        else if ty = TGF_INT64 then Some (E_TGF_OPNOTSUPP, Some (Arg_bad ty), s)
        else if ty = TGF_FLOAT then with_value ty Arg_float (read_float rd be s)
        else if ty = TGF_STRING then with_value ty (\<lambda>b. Arg_string (Some b)) (read_counted rd be s)
        else if ty = TGF_DATA then with_value ty Arg_data (read_counted rd be s)
        else if ty = TGF_SCTYPE then with_value ty Arg_sctype (tgf_read_sctype rd s)
        else if ty = TGF_INT16 then with_value ty Arg_int16 (tgf_read_int16 rd be s)
        else if ty = TGF_LAZY_DATA then with_value ty (\<lambda>b. Arg_lazy_data (Some b)) (read_counted rd be s)
        else Some (E_TGF_INVTYPE, Some (Arg_bad ty), s)
    }"

section \<open>Commands\<close>

text \<open>\<open>tgf_stream_in_start\<close>. Thirteen bytes and the identifier.\<close>

definition parse_header :: "bool \<Rightarrow> byte list \<Rightarrow> tgf_header" where
  "parse_header be bs =
    \<lparr>th_signature = take 3 bs, th_minor_ver = bs ! 3, th_major_ver = bs ! 4, th_endianness = bs ! 5,
     th_compression = word16_of be (take 2 (drop 6 bs)), th_checksum = bs ! 9, th_id_size = bs ! 12, th_tgf_id = []\<rparr>"

definition TGF_HOST_ENDIANNESS :: "bool \<Rightarrow> byte" where
  "TGF_HOST_ENDIANNESS be = (if be then 0 else 1)"

definition tgf_stream_in_start :: "'i read_fn \<Rightarrow> bool \<Rightarrow> 'i tgf_stream_in \<Rightarrow> (int \<times> 'i tgf_stream_in) option" where
  "tgf_stream_in_start rd be s =
    do {
      (t, bs, s) \<leftarrow> tgf_read rd s 13;
      if t < 0 then Some (t, s)
      else
        let h = parse_header be bs; s = s\<lparr>si_hdr := h, si_conv := False\<rparr> in
        if th_signature h \<noteq> [84, 71, 70] then Some (E_TGF_INVHDR, s)
        else if th_major_ver h \<noteq> 3 \<or> (th_minor_ver h \<noteq> 1 \<and> th_minor_ver h \<noteq> 0) then Some (E_TGF_VER, s)
        else do {
          (t, ident, s) \<leftarrow> tgf_read rd s (unat (th_id_size h));
          if t < 0 then Some (t, s)
          else
            let s = s\<lparr>si_hdr := h\<lparr>th_tgf_id := ident\<rparr>, si_conv := (th_endianness h \<noteq> TGF_HOST_ENDIANNESS be),
                      si_cmd_index := 0, si_err := (if th_compression h \<noteq> 0 then E_TGF_FEATURE else 0)\<rparr> in
            Some (si_err s, s)
        }
    }"

definition tgf_read_command_hdr :: "'i read_fn \<Rightarrow> bool \<Rightarrow> 'i tgf_stream_in \<Rightarrow> (int \<times> 16 word \<times> 16 word \<times> 'i tgf_stream_in) option" where
  "tgf_read_command_hdr rd be s =
    do {
      (rv, bs, s) \<leftarrow> tgf_read_align4 rd (s\<lparr>si_crc := 0\<rparr>);
      if rv < 0 then Some (rv, 0, 0, s)
      else
        let ty = conv16 be s (word16_of be (take 2 bs)); cnt = conv16 be s (word16_of be (drop 2 bs)) in
        Some (if ty > TGF_CMD_LAST then E_TGF_OPNOTSUPP else 0, ty, cnt, s)
    }"

text \<open>\<open>__tgf_read_command\<close>: the arguments until one fails, then the byte of the checksum. The error of an
  argument is forgotten unless it was stored in the stream.\<close>

fun read_arguments :: "'i read_fn \<Rightarrow> bool \<Rightarrow> nat \<Rightarrow> 'i tgf_stream_in \<Rightarrow> (tgf_argument list \<times> 'i tgf_stream_in) option" where
  "read_arguments rd be 0 s = Some ([], s)"
| "read_arguments rd be (Suc n) s =
    do {
      (rv, a, s) \<leftarrow> tgf_read_argument rd be s;
      if rv < 0 then Some (case a of None \<Rightarrow> [] | Some a \<Rightarrow> [a], s)
      else do { a \<leftarrow> a; (as, s) \<leftarrow> read_arguments rd be n s; Some (a # as, s) }
    }"

definition read_command_args :: "'i read_fn \<Rightarrow> bool \<Rightarrow> nat \<Rightarrow> 'i tgf_stream_in \<Rightarrow> (tgf_argument list \<times> 'i tgf_stream_in) option" where
  "read_command_args rd be cnt s =
    do {
      (as, s) \<leftarrow> read_arguments rd be cnt (s\<lparr>si_err := 0\<rparr>);
      s \<leftarrow> (if th_checksum (si_hdr s) \<noteq> 0 then do { (_, s) \<leftarrow> tgf_read_byte rd s; Some s } else Some s);
      let s = s\<lparr>si_cmd_index := si_cmd_index s + 1\<rparr> in
      if si_err s < 0 then Some (as, s)
      else if si_crc s \<noteq> 0 \<and> th_checksum (si_hdr s) \<noteq> 0 then Some (as, s\<lparr>si_err := E_TGF_INVCRC\<rparr>)
      else Some (as, s)
    }"

definition tgf_read_command :: "'i read_fn \<Rightarrow> bool \<Rightarrow> 'i tgf_stream_in \<Rightarrow> (int \<times> tgf_command option \<times> 'i tgf_stream_in) option" where
  "tgf_read_command rd be s =
    do {
      (rv, ty, cnt, s) \<leftarrow> tgf_read_command_hdr rd be s;
      if rv < 0 then Some (rv, None, s)
      else do {
        (as, s) \<leftarrow> read_command_args rd be (unat cnt) s;
        let c = \<lparr>tc_type = cmd_types ! unat ty, tc_cnt = unat cnt, tc_args = as\<rparr>; rv = si_err s in
        if rv < 0 then Some (rv, None, s)
        else do { rv \<leftarrow> tgf_command_check c; if rv < 0 then Some (rv, None, s) else Some (0, Some c, s) }
      }
    }"

text \<open>\<open>tgf_stream_in_process_command\<close>: the callback of the client gets the translated command, and
  gives a code and its identifier for the command.\<close>

type_synonym 'x tgf_in_cb = "tgf_command \<Rightarrow> 'x \<Rightarrow> int \<times> 32 word \<times> 'x"

definition tgf_stream_in_process_command :: "'i read_fn \<Rightarrow> bool \<Rightarrow> 'x tgf_in_cb \<Rightarrow> 'i tgf_stream_in \<Rightarrow> 'x \<Rightarrow> (int \<times> 'i tgf_stream_in \<times> 'x) option" where
  "tgf_stream_in_process_command rd be cb s x =
    do {
      (rv, c, s) \<leftarrow> tgf_read_command rd be s;
      (rv, c) \<leftarrow> (case c of None \<Rightarrow> Some (rv, None)
                        | Some c \<Rightarrow> do { (rv, c) \<leftarrow> tgf_command_translate_in (si_hash s) c; Some (rv, Some c) });
      if rv < 0 then Some (rv, s\<lparr>si_err := rv\<rparr>, x)
      else do {
        c \<leftarrow> c;
        let (e, cl_id, x) = cb c x in
        if e \<noteq> 0 then Some (E_TGF_CLNT, s\<lparr>si_err := E_TGF_CLNT\<rparr>, x)
        else do {
          (added, hash) \<leftarrow> (if cl_id \<noteq> 0 then tgf_map_in_add (si_hash s) (si_cmd_index s - 1) cl_id else Some (1, si_hash s));
          let s = s\<lparr>si_hash := hash\<rparr>; rv = (if tc_type c = TGF_ENDOFSTREAM then 1 else 0) in
          if added = 0 then Some (E_TGF_CLNT, s\<lparr>si_err := E_TGF_CLNT\<rparr>, x)
          else Some (rv, s\<lparr>si_err := rv\<rparr>, x)
        }
      }
    }"

partial_function (option) tgf_stream_in_process_all :: "'i read_fn \<Rightarrow> bool \<Rightarrow> 'x tgf_in_cb \<Rightarrow> 'i tgf_stream_in \<Rightarrow> 'x \<Rightarrow> (int \<times> 'i tgf_stream_in \<times> 'x) option" where
  "tgf_stream_in_process_all rd be cb s x =
    do {
      (rv, s, x) \<leftarrow> tgf_stream_in_process_command rd be cb s x;
      if rv \<noteq> 0 then Some (rv, s, x) else tgf_stream_in_process_all rd be cb s x
    }"

end
