(* ===== verification/Tgf_Take.thy ===== *)
theory Tgf_Take
  imports Tgf_In
begin

text \<open>
  What the functions of \<open>tgfin.c\<close> take from a stream: over bytes in memory, or a read function that
  delivers them in pieces of any size, each function returns the bytes at the reader's position, and
  the position moves behind them.
\<close>

text \<open>A read function that delivers certain bytes and then the end of the file, in whatever pieces.\<close>

coinductive delivers :: "'i read_fn \<Rightarrow> 'i \<Rightarrow> byte list \<Rightarrow> bool" for rd where
  delivers_end: "(\<And>n. 0 < n \<Longrightarrow> \<exists>fd'. rd fd n = (Some [], fd') \<and> delivers rd fd' []) \<Longrightarrow> delivers rd fd []"
| delivers_some: "(\<And>n. 0 < n \<Longrightarrow> \<exists>k fd'. rd fd n = (Some (take k bs), fd') \<and> 0 < k \<and> k \<le> n \<and> k \<le> length bs \<and> delivers rd fd' (drop k bs)) \<Longrightarrow>
    bs \<noteq> [] \<Longrightarrow> delivers rd fd bs"

inductive_cases delivers_endE: "delivers rd fd []"

lemma ask_end:
  assumes "delivers rd fd []" "0 < n"
  shows "\<exists>fd'. ask rd fd n = Some (Some [], fd') \<and> delivers rd fd' []"
  using assms(1)
proof (cases rule: delivers.cases)
  case delivers_end
  then obtain fd' where "rd fd n = (Some [], fd')" "delivers rd fd' []" using assms(2) by blast
  then show ?thesis by (simp add: ask_def)
qed simp

lemma ask_some:
  assumes "delivers rd fd bs" "0 < n" "bs \<noteq> []"
  shows "\<exists>b cs rest fd'. ask rd fd n = Some (Some (b # cs), fd') \<and> bs = b # cs @ rest \<and> delivers rd fd' rest"
  using assms(1)
proof (cases rule: delivers.cases)
  case delivers_some
  then obtain k fd' where k: "rd fd n = (Some (take k bs), fd')" "0 < k" "k \<le> n" "k \<le> length bs" "delivers rd fd' (drop k bs)"
    using assms(2) by meson
  obtain b cs where "take k bs = b # cs" using k(2) assms(3) by (cases "take k bs") auto
  moreover have "length (take k bs) \<le> n" using k(3,4) by simp
  ultimately show ?thesis using k append_take_drop_id [of k bs] by (auto simp: ask_def intro!: exI [of _ "drop k bs"])
qed (use assms(3) in simp)

section \<open>Positions\<close>

text \<open>The bytes \<open>bs\<close> are still to be read, and \<open>off\<close> of them were before.\<close>

definition at_bytes :: "'i read_fn \<Rightarrow> 'i tgf_stream_in \<Rightarrow> nat \<Rightarrow> byte list \<Rightarrow> bool" where
  "at_bytes rd s off bs \<longleftrightarrow> si_pos s mod 4 = off mod 4 \<and>
    (\<exists>rest. bs = si_text s @ rest \<and> (case si_fd s of None \<Rightarrow> rest = [] | Some fd \<Rightarrow> delivers rd fd rest))"

text \<open>What reading bytes leaves as it is.\<close>

definition si_client :: "'i tgf_stream_in \<Rightarrow> bool \<times> 32 word \<times> tgf_header \<times> int \<times> (32 word, 32 word) map_node" where
  "si_client s = (si_conv s, si_cmd_index s, si_hdr s, si_err s, si_hash s)"

text \<open>\<open>s'\<close> is \<open>s\<close> after the first \<open>n\<close> bytes were passed, of which \<open>cs\<close> count for the checksum.\<close>

definition passed :: "'i read_fn \<Rightarrow> 'i tgf_stream_in \<Rightarrow> nat \<Rightarrow> nat \<Rightarrow> byte list \<Rightarrow> byte list \<Rightarrow> 'i tgf_stream_in \<Rightarrow> bool" where
  "passed rd s off n bs cs s' \<longleftrightarrow> at_bytes rd s' (off + n) (drop n bs) \<and> si_crc s' = tgf_update_crc (si_crc s) cs \<and> si_client s' = si_client s"

lemma passed_refl: "at_bytes rd s off bs \<Longrightarrow> passed rd s off 0 bs [] s"
  by (simp add: passed_def)

lemma passed_trans:
  "passed rd s off n bs cs s1 \<Longrightarrow> passed rd s1 (off + n) m (drop n bs) ds s2 \<Longrightarrow> passed rd s off (n + m) bs (cs @ ds) s2"
  by (auto simp: passed_def ac_simps)

lemma passed_first: "passed rd s off 0 bs [] s1 \<Longrightarrow> passed rd s1 off n bs ds s2 \<Longrightarrow> passed rd s off n bs ds s2"
  using passed_trans [of rd s off 0 bs "[]" s1 n ds s2] by simp

lemma passed_at: "passed rd s off n bs cs s' \<Longrightarrow> at_bytes rd s' (off + n) (drop n bs)"
  by (simp add: passed_def)

lemma take_text_passed:
  assumes "at_bytes rd s off bs" "n \<le> length (si_text s)"
  shows "fst (take_text n s) = take n bs" "passed rd s off n bs [] (snd (take_text n s))"
    "passed rd s off n bs (take n bs) (si_update_crc (take n bs) (snd (take_text n s)))"
    "si_text (snd (take_text n s)) = drop n (si_text s)" "si_fd (snd (take_text n s)) = si_fd s"
proof -
  obtain rest where r: "bs = si_text s @ rest" "case si_fd s of None \<Rightarrow> rest = [] | Some fd \<Rightarrow> delivers rd fd rest"
    "si_pos s mod 4 = off mod 4" using assms(1) by (auto simp: at_bytes_def)
  have m: "(si_pos s + n) mod 4 = (off + n) mod 4" using r(3) by (metis mod_add_left_eq)
  have d: "drop n bs = drop n (si_text s) @ rest" "take n bs = take n (si_text s)" using r(1) assms(2) by simp_all
  show "fst (take_text n s) = take n bs" "si_text (snd (take_text n s)) = drop n (si_text s)" "si_fd (snd (take_text n s)) = si_fd s"
    using d by (simp_all add: take_text_def)
  show "passed rd s off n bs [] (snd (take_text n s))" "passed rd s off n bs (take n bs) (si_update_crc (take n bs) (snd (take_text n s)))"
    using d m r(2) by (auto simp: passed_def at_bytes_def take_text_def si_client_def si_update_crc_def)
qed

section \<open>Filling the buffer\<close>

lemma fill_more_ok:
  "delivers rd fd rest \<Longrightarrow> allign < 4 \<Longrightarrow>
    \<exists>got' rest' fd'. fill_more rd fd allign got = Some (Some got', fd') \<and> got @ rest = got' @ rest' \<and> delivers rd fd' rest' \<and>
      length got \<le> length got' \<and> min 4 (length (got @ rest)) \<le> length got'"
proof (induction "length rest" arbitrary: rest fd got rule: less_induct)
  case less
  show ?case
  proof (cases "length got < 4")
    case True
    then have n: "0 < TGF_READ_BUFSIZE - length got - allign" using less.prems(2) by (simp add: TGF_READ_BUFSIZE_def)
    show ?thesis
    proof (cases "rest = []")
      case True
      then have "delivers rd fd []" using less.prems(1) by simp
      from ask_end [OF this n] obtain fd' where
        "ask rd fd (TGF_READ_BUFSIZE - length got - allign) = Some (Some [], fd')" "delivers rd fd' []" by blast
      then have "fill_more rd fd allign got = Some (Some got, fd')"
        unfolding fill_more.simps [of rd fd allign got] using \<open>length got < 4\<close> by simp
      then show ?thesis using True \<open>delivers rd fd' []\<close> by auto
    next
      case False
      from ask_some [OF less.prems(1) n False] obtain b cs r fd1 where a:
        "ask rd fd (TGF_READ_BUFSIZE - length got - allign) = Some (Some (b # cs), fd1)" "rest = b # cs @ r" "delivers rd fd1 r" by blast
      have "length r < length rest" using a(2) by simp
      from less.hyps [OF this a(3) less.prems(2), of "got @ b # cs"] obtain got' rest' fd' where
        "fill_more rd fd1 allign (got @ b # cs) = Some (Some got', fd')" "(got @ b # cs) @ r = got' @ rest'" "delivers rd fd' rest'"
        "length (got @ b # cs) \<le> length got'" "min 4 (length ((got @ b # cs) @ r)) \<le> length got'" by blast
      moreover have "fill_more rd fd allign got = fill_more rd fd1 allign (got @ b # cs)"
        unfolding fill_more.simps [of rd fd allign got] using True a(1) by simp
      ultimately show ?thesis using a(2) by auto
    qed
  next
    case False
    then have "fill_more rd fd allign got = Some (Some got, fd)" unfolding fill_more.simps [of rd fd allign got] by simp
    then show ?thesis using less.prems(1) False by auto
  qed
qed

lemma fill_buffer_ok:
  assumes "at_bytes rd s off bs" "length (si_text s) < 4" "length (si_text s) < length bs"
  shows "\<exists>s'. tgf_fill_buffer rd s = Some (int (length (si_text s')), s') \<and> passed rd s off 0 bs [] s' \<and>
    length (si_text s) < length (si_text s') \<and> min 4 (length bs) \<le> length (si_text s')"
proof -
  obtain rest where r: "bs = si_text s @ rest" "case si_fd s of None \<Rightarrow> rest = [] | Some fd \<Rightarrow> delivers rd fd rest"
    "si_pos s mod 4 = off mod 4" using assms(1) by (auto simp: at_bytes_def)
  then have ne: "rest \<noteq> []" using assms(3) by auto
  then obtain fd where fd: "si_fd s = Some fd" "delivers rd fd rest" using r(2) by (auto split: option.splits)
  have n: "0 < TGF_READ_BUFSIZE - length (si_text s) - si_pos s mod 4"
    using assms(2) pos_mod_bound [of 4 "int (si_pos s)"] mod_less_divisor [of 4 "si_pos s"] by (simp add: TGF_READ_BUFSIZE_def)
  from ask_some [OF fd(2) n ne] obtain b cs r1 fd1 where a:
    "ask rd fd (TGF_READ_BUFSIZE - length (si_text s) - si_pos s mod 4) = Some (Some (b # cs), fd1)" "rest = b # cs @ r1" "delivers rd fd1 r1" by blast
  have al: "si_pos s mod 4 < 4" by simp
  from fill_more_ok [OF a(3) al, of "si_text s @ b # cs"] obtain got' rest' fd' where g:
    "fill_more rd fd1 (si_pos s mod 4) (si_text s @ b # cs) = Some (Some got', fd')" "(si_text s @ b # cs) @ r1 = got' @ rest'" "delivers rd fd' rest'"
    "length (si_text s @ b # cs) \<le> length got'" "min 4 (length ((si_text s @ b # cs) @ r1)) \<le> length got'" by blast
  let ?s' = "s\<lparr>si_fd := Some fd', si_text := got', si_pos := si_pos s mod 4\<rparr>"
  have "tgf_fill_buffer rd s = Some (int (length got'), ?s')"
    using fd(1) assms(2) a(1) g(1) by (simp add: tgf_fill_buffer_def Let_def)
  moreover have "passed rd s off 0 bs [] ?s'"
    using r g a(2) by (auto simp: passed_def at_bytes_def si_client_def)
  ultimately show ?thesis using g(4,5) r(1) a(2) by (intro exI [of _ ?s']) auto
qed

section \<open>Values\<close>

text \<open>\<open>pad4\<close> of the format, for the reader.\<close>

definition rpad :: "nat \<Rightarrow> nat" where
  "rpad n = (4 - n mod 4) mod 4"

lemma si_pad_at: "at_bytes rd s off bs \<Longrightarrow> si_pad s = rpad off"
  by (simp add: at_bytes_def si_pad_def rpad_def)

lemma rpad_less: "rpad n < 4"
  by (simp add: rpad_def)

lemma rpad_aligned: "(n + rpad n) mod 4 = 0" "rpad (n + rpad n) = 0"
proof -
  have "n mod 4 = 0 \<or> n mod 4 = 1 \<or> n mod 4 = 2 \<or> n mod 4 = 3" by linarith
  then have "(n mod 4 + rpad n) mod 4 = 0" by (auto simp: rpad_def)
  then show a: "(n + rpad n) mod 4 = 0" by (simp add: mod_add_left_eq)
  show "rpad (n + rpad n) = 0" unfolding rpad_def [of "n + rpad n"] a by simp
qed

lemma at_bytes_text: "at_bytes rd s off bs \<Longrightarrow> length (si_text s) \<le> length bs"
  by (auto simp: at_bytes_def)

text \<open>With four bytes behind the padding, \<open>align_loop\<close> passes over it.\<close>

lemma align_loop_aligned:
  assumes "at_bytes rd s off bs" "rpad off = 0" "4 \<le> length bs"
  shows "\<exists>s'. align_loop rd s = Some (0, s') \<and> passed rd s off 0 bs [] s' \<and> 4 \<le> length (si_text s')"
proof (cases "4 \<le> length (si_text s)")
  case True
  have "align_loop rd s = Some (0, snd (take_text 0 s))"
    unfolding align_loop.simps [of rd s] using True si_pad_at [OF assms(1)] assms(2) by auto
  then show ?thesis using passed_refl [OF assms(1)] True by (simp add: take_text_def)
next
  case False
  then have lt: "length (si_text s) < 4" "length (si_text s) < length bs" using assms(3) by simp_all
  from fill_buffer_ok [OF assms(1) this] obtain s1 where
    s1: "tgf_fill_buffer rd s = Some (int (length (si_text s1)), s1)" "passed rd s off 0 bs [] s1" "4 \<le> length (si_text s1)"
    using assms(3) by auto
  have at: "at_bytes rd s1 off bs" using passed_at [OF s1(2)] by simp
  have "align_loop rd s1 = Some (0, snd (take_text 0 s1))"
    unfolding align_loop.simps [of rd s1] using s1(3) si_pad_at [OF at] assms(2) by auto
  moreover have "align_loop rd s = align_loop rd (snd (take_text 0 s1))"
    unfolding align_loop.simps [of rd s] using lt(1) s1(1) si_pad_at [OF assms(1)] si_pad_at [OF at] assms(2) by (simp add: take_text_def)
  ultimately show ?thesis using s1 by (simp add: take_text_def)
qed

lemma align_loop_ok:
  assumes "at_bytes rd s off bs" "rpad off + 4 \<le> length bs"
  shows "\<exists>s'. align_loop rd s = Some (0, s') \<and> passed rd s off (rpad off) bs [] s' \<and> 4 \<le> length (si_text s')"
proof -
  have pad: "si_pad s = rpad off" by (rule si_pad_at [OF assms(1)])
  have p4: "rpad off < 4" by (rule rpad_less)
  have l4: "4 \<le> length (drop (rpad off) bs)" using assms(2) unfolding length_drop by linarith
  show ?thesis
  proof (cases "rpad off < length (si_text s)")
    case True
    let ?s = "snd (take_text (rpad off) s)"
    note t = take_text_passed [OF assms(1) less_imp_le [OF True]]
    have at: "at_bytes rd ?s (off + rpad off) (drop (rpad off) bs)" by (rule passed_at [OF t(2)])
    show ?thesis
    proof (cases "length (si_text s) - rpad off > 3")
      case big: True
      then have "align_loop rd s = Some (0, ?s)" unfolding align_loop.simps [of rd s] using True pad by simp
      then show ?thesis using t(2,4) big by auto
    next
      case False
      have lt: "length (si_text ?s) < 4" "length (si_text ?s) < length (drop (rpad off) bs)" using False assms(2) t(4) by auto
      from fill_buffer_ok [OF at this] obtain s1 where
        s1: "tgf_fill_buffer rd ?s = Some (int (length (si_text s1)), s1)" "passed rd ?s (off + rpad off) 0 (drop (rpad off) bs) [] s1"
        by blast
      have at1: "at_bytes rd s1 (off + rpad off) (drop (rpad off) bs)" using passed_at [OF s1(2)] by simp
      have "si_pad s1 = 0" using si_pad_at [OF at1] rpad_aligned by simp
      then have "align_loop rd s = align_loop rd (snd (take_text 0 s1))"
        unfolding align_loop.simps [of rd s] using True False pad s1(1) by simp
      also have "snd (take_text 0 s1) = s1" by (simp add: take_text_def)
      finally have eq: "align_loop rd s = align_loop rd s1" .
      obtain s2 where "align_loop rd s1 = Some (0, s2)" "passed rd s1 (off + rpad off) 0 (drop (rpad off) bs) [] s2" "4 \<le> length (si_text s2)"
        using align_loop_aligned [OF at1 rpad_aligned(2) l4] by blast
      moreover have "passed rd s off (rpad off + (0 + 0)) bs ([] @ [] @ []) s2"
        using passed_trans [OF t(2), of 0 "[]" s2] passed_trans [OF s1(2), of 0 "[]" s2] calculation(2) by simp
      ultimately show ?thesis using eq by auto
    qed
  next
    case False
    then have lt: "length (si_text s) < 4" "length (si_text s) < length bs" using p4 assms(2) by linarith+
    from fill_buffer_ok [OF assms(1) this] obtain s1 where
      s1: "tgf_fill_buffer rd s = Some (int (length (si_text s1)), s1)" "passed rd s off 0 bs [] s1" "4 \<le> length (si_text s1)"
      using assms(2) by auto
    have at1: "at_bytes rd s1 off bs" using passed_at [OF s1(2)] by simp
    have p1: "si_pad s1 = rpad off" by (rule si_pad_at [OF at1])
    have le: "rpad off \<le> length (si_text s1)" using p4 s1(3) by linarith
    have eq: "align_loop rd s = align_loop rd (snd (take_text (rpad off) s1))"
      unfolding align_loop.simps [of rd s] using False pad s1(1) p1 le by simp
    note t = take_text_passed [OF at1 le]
    obtain s2 where "align_loop rd (snd (take_text (rpad off) s1)) = Some (0, s2)"
      "passed rd (snd (take_text (rpad off) s1)) (off + rpad off) 0 (drop (rpad off) bs) [] s2" "4 \<le> length (si_text s2)"
      using align_loop_aligned [OF passed_at [OF t(2)] rpad_aligned(2) l4] by blast
    moreover have "passed rd s off (rpad off) bs [] s2"
      using passed_trans [OF s1(2), of "rpad off" "[]" s2] passed_trans [OF t(2), of 0 "[]" s2] calculation(2) by simp
    ultimately show ?thesis using eq by auto
  qed
qed

lemma read_align4_ok:
  assumes "at_bytes rd s off bs" "rpad off + 4 \<le> length bs"
  shows "\<exists>s'. tgf_read_align4 rd s = Some (1, take 4 (drop (rpad off) bs), s') \<and>
    passed rd s off (rpad off + 4) bs (take 4 (drop (rpad off) bs)) s'"
proof -
  obtain s1 where s1: "align_loop rd s = Some (0, s1)" "passed rd s off (rpad off) bs [] s1" "4 \<le> length (si_text s1)"
    using align_loop_ok [OF assms] by blast
  note t = take_text_passed [OF passed_at [OF s1(2)] s1(3)]
  show ?thesis using s1(1) t(1) passed_trans [OF s1(2) t(3)]
    by (cases "take_text 4 s1") (auto simp: tgf_read_align4_def)
qed

lemma read_byte_ok:
  assumes "at_bytes rd s off (b # bs)"
  shows "\<exists>s'. tgf_read_byte rd s = Some (uint b, s') \<and> passed rd s off 1 (b # bs) [b] s'"
proof -
  obtain k s1 where s1: "(if si_text s = [] then tgf_fill_buffer rd s else Some (1, s)) = Some (k, s1)" "k > 0"
    "passed rd s off 0 (b # bs) [] s1" "1 \<le> length (si_text s1)"
  proof (cases "si_text s = []")
    case True
    then show ?thesis using that fill_buffer_ok [OF assms] by fastforce
  next
    case False
    then show ?thesis using that [of 1 s] passed_refl [OF assms] by (cases "si_text s") auto
  qed
  note t = take_text_passed [OF passed_at [OF s1(3)], simplified, OF s1(4)]
  show ?thesis using s1(1,2) t(1) passed_first [OF s1(3) t(3)]
    by (cases "take_text 1 s1") (auto simp: tgf_read_byte_def)
qed

lemma need4_ok:
  assumes "at_bytes rd s off bs" "4 \<le> length bs"
  shows "\<exists>s'. need4 rd s = Some (0, s') \<and> passed rd s off 0 bs [] s' \<and> 4 \<le> length (si_text s')"
proof (cases "length (si_text s) < 4")
  case True
  from fill_buffer_ok [OF assms(1) this] obtain s1 where
    s1: "tgf_fill_buffer rd s = Some (int (length (si_text s1)), s1)" "passed rd s off 0 bs [] s1" "4 \<le> length (si_text s1)"
    using assms(2) True by auto
  then have "need4 rd s1 = Some (0, s1)" unfolding need4.simps [of rd s1] by simp
  moreover have "need4 rd s = need4 rd s1" unfolding need4.simps [of rd s] using True s1(1) by simp
  ultimately show ?thesis using s1 by auto
next
  case False
  then have "need4 rd s = Some (0, s)" unfolding need4.simps [of rd s] by simp
  then show ?thesis using passed_refl [OF assms(1)] False by auto
qed

lemma read_int32_ok:
  assumes "at_bytes rd s off bs" "4 \<le> length bs"
  shows "\<exists>s'. tgf_read_int32 rd be s = Some (0, Some (conv32 be s (word32_of be (take 4 bs))), s') \<and> passed rd s off 4 bs (take 4 bs) s'"
proof -
  obtain s1 where s1: "need4 rd s = Some (0, s1)" "passed rd s off 0 bs [] s1" "4 \<le> length (si_text s1)"
    using need4_ok [OF assms] by blast
  note t = take_text_passed [OF passed_at [OF s1(2)], simplified, OF s1(3)]
  have c: "conv32 be (snd (take_text 4 s1)) w = conv32 be s w" for w
    using t(2) s1(2) by (simp add: passed_def si_client_def conv32_def)
  show ?thesis using s1(1) t(1) c passed_first [OF s1(2) t(3)]
    by (cases "take_text 4 s1") (auto simp: tgf_read_int32_def)
qed

lemma read_int16_ok:
  assumes "at_bytes rd s off bs" "3 \<le> length bs"
  shows "\<exists>s'. tgf_read_int16 rd be s = Some (0, Some (ucast (conv16 be s (word16_of be (take 2 bs)))), s') \<and> passed rd s off 2 bs (take 2 bs) s'"
proof -
  obtain k s1 where s1: "(if length (si_text s) < 2 then tgf_fill_buffer rd s else Some (3, s)) = Some (k, s1)" "k > 2"
    "passed rd s off 0 bs [] s1" "2 \<le> length (si_text s1)"
  proof (cases "length (si_text s) < 2")
    case True
    with fill_buffer_ok [OF assms(1)] assms(2) obtain s1 where
      "tgf_fill_buffer rd s = Some (int (length (si_text s1)), s1)" "passed rd s off 0 bs [] s1" "min 4 (length bs) \<le> length (si_text s1)" by auto
    then show ?thesis using that [of "int (length (si_text s1))" s1] True assms(2) by auto
  next
    case False
    then show ?thesis using that [of 3 s] passed_refl [OF assms(1)] by auto
  qed
  note t = take_text_passed [OF passed_at [OF s1(3)], simplified, OF s1(4)]
  have c: "conv16 be (snd (take_text 2 s1)) w = conv16 be s w" for w
    using t(2) s1(3) by (simp add: passed_def si_client_def conv16_def)
  show ?thesis using s1(1,2) t(1) c passed_first [OF s1(3) t(3)]
    by (cases "take_text 2 s1") (auto simp: tgf_read_int16_def)
qed

lemma read_loop_ok:
  "at_bytes rd s off bs \<Longrightarrow> 0 < n \<Longrightarrow> n \<le> length bs \<Longrightarrow>
    \<exists>s'. read_loop rd s n got = Some (int (length got + n), got @ take n bs, s') \<and> passed rd s off n bs (take n bs) s'"
proof (induction "2 * n + (if si_text s = [] then 1 else 0)" arbitrary: s off bs n got rule: less_induct)
  case less
  let ?t = "min (length (si_text s)) n"
  note t = take_text_passed [OF less.prems(1), of ?t, simplified]
    obtain u where tt: "take_text ?t s = (take ?t bs, u)" using t(1) by (metis prod.collapse)
  let ?s = "si_update_crc (take ?t bs) u"
  show ?case
  proof (cases "n \<le> length (si_text s)")
    case True
    then have "read_loop rd s n got = Some (int (length (got @ take n bs)), got @ take n bs, si_update_crc (take n bs) u)"
      unfolding read_loop.simps [of rd s n got] using tt less.prems(2) by (simp add: Let_def)
    then show ?thesis using t(3) tt True less.prems(3) by auto
  next
    case False
    then have m: "?t = length (si_text s)" by simp
    obtain rest where r: "bs = si_text s @ rest" "case si_fd s of None \<Rightarrow> rest = [] | Some fd \<Rightarrow> delivers rd fd rest"
      using less.prems(1) by (auto simp: at_bytes_def)
    then have ne: "rest \<noteq> []" using False less.prems(3) by auto
    then obtain fd where fd: "si_fd s = Some fd" "delivers rd fd rest" using r(2) by (auto split: option.splits)
    have sf: "si_fd ?s = Some fd" using t(5) fd(1) tt by (simp add: si_update_crc_def)
    let ?al = "si_pos ?s mod 4"
    have "?al < 4" by simp
    then have n0: "0 < TGF_READ_BUFSIZE - ?al" by (simp add: TGF_READ_BUFSIZE_def)
    from ask_some [OF fd(2) n0 ne] obtain b cs r1 fd1 where a:
      "ask rd fd (TGF_READ_BUFSIZE - ?al) = Some (Some (b # cs), fd1)" "rest = b # cs @ r1" "delivers rd fd1 r1" by blast
    let ?s1 = "?s\<lparr>si_fd := Some fd1, si_text := b # cs, si_pos := ?al\<rparr>"
    have p: "passed rd s off ?t bs (take ?t bs) ?s1"
      using t(3) tt r(1) a m by (auto simp: passed_def at_bytes_def si_client_def)
    have at1: "at_bytes rd ?s1 (off + ?t) (drop ?t bs)" by (rule passed_at [OF p])
    have step: "read_loop rd s n got = read_loop rd ?s1 (n - ?t) (got @ take ?t bs)"
      unfolding read_loop.simps [of rd s n got] using tt False sf a(1) by (simp add: Let_def)
    have "2 * (n - ?t) + (if si_text ?s1 = [] then 1 else 0) < 2 * n + (if si_text s = [] then 1 else 0)"
      using False by auto
    moreover have "0 < n - ?t" using False by simp
    moreover have "n - ?t \<le> length (drop ?t bs)" using less.prems(3) unfolding length_drop by (rule diff_le_mono)
    ultimately obtain s' where
      s': "read_loop rd ?s1 (n - ?t) (got @ take ?t bs) = Some (int (length (got @ take ?t bs) + (n - ?t)), (got @ take ?t bs) @ take (n - ?t) (drop ?t bs), s')"
      "passed rd ?s1 (off + ?t) (n - ?t) (drop ?t bs) (take (n - ?t) (drop ?t bs)) s'"
      using less.hyps [OF _ at1] by blast
    have "take ?t bs @ take (n - ?t) (drop ?t bs) = take n bs" using False by (metis m le_add_diff_inverse nat_le_linear take_add)
    moreover have "length (take ?t bs) = ?t" using less.prems(3) by simp
    ultimately show ?thesis using step s' passed_trans [OF p s'(2)] False by auto
  qed
qed

lemma tgf_read_ok:
  assumes "at_bytes rd s off bs" "n \<le> length bs"
  shows "\<exists>s'. tgf_read rd s n = Some (int n, take n bs, s') \<and> passed rd s off n bs (take n bs) s'"
proof (cases "n = 0")
  case True
  then show ?thesis using passed_refl [OF assms(1)] by (simp add: tgf_read_def)
next
  case False
  then show ?thesis using read_loop_ok [OF assms(1) _ assms(2), of "[]"] by (simp add: tgf_read_def)
qed

end
