(* ===== verification/Tgf_Stream.thy ===== *)
theory Tgf_Stream
  imports Tgf_Emit Tgf_Take
begin

text \<open>
  The round trip of TGF: what a client writes, command by command, another client reads back, through
  a file or in memory, whatever pieces the bytes come in, between hosts of the same byte order or from
  a big-endian to a little-endian one. The identifiers of elements that commands refer to are those
  that the reading client gave to the same commands.
\<close>

section \<open>Arguments\<close>

text \<open>The reader converts when its byte order is not the writer's; on a big-endian host the conversion
  does nothing, so it reads its own order only.\<close>

definition hosts_fit :: "bool \<Rightarrow> bool \<Rightarrow> 'i tgf_stream_in \<Rightarrow> bool" where
  "hosts_fit be br s \<longleftrightarrow> (br \<longrightarrow> be) \<and> si_conv s = (be \<noteq> br)"

lemma rpad_pad4: "rpad n = pad4 n"
  by (simp add: rpad_def pad4_def)

lemma conv32_ok: "hosts_fit be br s \<Longrightarrow> conv32 br s (word32_of br (bytes32 be w)) = w"
  by (cases be; cases br) (auto simp: hosts_fit_def conv32_def)

lemma conv16_ok: "hosts_fit be br s \<Longrightarrow> conv16 br s (word16_of br (bytes16 be w)) = w"
  by (cases be; cases br) (auto simp: hosts_fit_def conv16_def)

lemma float_ok: "hosts_fit be br s \<Longrightarrow> word64_of br (if si_conv s then convert_float br (bytes64 be w) else bytes64 be w) = w"
  by (cases be; cases br) (auto simp: hosts_fit_def)

lemma client_hosts: "passed rd s off n bs cs s' \<Longrightarrow> hosts_fit be br s' = hosts_fit be br s"
  by (simp add: passed_def si_client_def hosts_fit_def)

lemma read_counted_ok:
  assumes "at_bytes rd s off (bytes32 be (word_of_nat (length bs)) @ bs @ behind)" "hosts_fit be br s" "length bs < 2 ^ 31"
  shows "\<exists>s'. read_counted rd br s = Some (int (length bs), Some bs, s') \<and>
    passed rd s off (4 + length bs) (bytes32 be (word_of_nat (length bs)) @ bs @ behind) (bytes32 be (word_of_nat (length bs)) @ bs) s'"
proof -
  let ?w = "word_of_nat (length bs) :: 32 word" and ?bs = "bytes32 be (word_of_nat (length bs)) @ bs @ behind"
  obtain s1 where s1: "tgf_read_int32 rd br s = Some (0, Some ?w, s1)" "passed rd s off 4 ?bs (bytes32 be ?w) s1"
    using read_int32_ok [OF assms(1), of br] by (auto simp: conv32_ok [OF assms(2)])
  have u: "unat ?w = length bs" "0 \<le> sint ?w"
    using assms(3) by (simp_all add: unsigned_of_nat signed_of_nat take_bit_nat_eq_self signed_take_bit_int_eq_self)
  obtain s2 where "tgf_read rd s1 (length bs) = Some (int (length bs), bs, s2)" "passed rd s1 (off + 4) (length bs) (drop 4 ?bs) bs s2"
    using tgf_read_ok [OF passed_at [OF s1(2)], of "length bs"] by auto
  then show ?thesis using s1 u passed_trans [OF s1(2)] by (auto simp: read_counted_def)
qed

lemma read_argument_ok:
  assumes "at_bytes rd s off (enc_arg be off a @ behind)" "hosts_fit be br s" "arg_ok be a" "behind \<noteq> []"
  shows "\<exists>rv s'. tgf_read_argument rd br s = Some (rv, Some a, s') \<and> rv \<ge> 0 \<and>
    passed rd s off (length (enc_arg be off a)) (enc_arg be off a @ behind) (bytes32 be (arg_type a) @ payload be a) s'"
proof -
  let ?bs = "enc_arg be off a @ behind" and ?n = "pad4 off + 4"
  have bs: "drop (pad4 off) ?bs = bytes32 be (arg_type a) @ payload be a @ behind" "drop ?n ?bs = payload be a @ behind" by (simp_all add: enc_arg_def)
  have len: "length (enc_arg be off a) = ?n + length (payload be a)" by (simp add: enc_arg_def)
  obtain s1 where s1: "tgf_read_align4 rd s = Some (1, bytes32 be (arg_type a), s1)" "passed rd s off ?n ?bs (bytes32 be (arg_type a)) s1"
    using read_align4_ok [OF assms(1)] bs(1) by (auto simp: rpad_pad4 enc_arg_def)
  have h1: "hosts_fit be br s1" using client_hosts [OF s1(2)] assms(2) by simp
  have at1: "at_bytes rd s1 (off + ?n) (payload be a @ behind)" using passed_at [OF s1(2)] bs(2) by simp
  have ty: "conv32 br s1 (word32_of br (bytes32 be (arg_type a))) = arg_type a" by (rule conv32_ok [OF h1])
  have "\<exists>rv s2. tgf_read_argument rd br s = Some (rv, Some a, s2) \<and> rv \<ge> 0 \<and> passed rd s1 (off + ?n) (length (payload be a)) (payload be a @ behind) (payload be a) s2"
  proof (cases a)
    case (Arg_int32 i)
    then show ?thesis using read_int32_ok [OF at1, of br] s1(1) ty
      by (auto simp: tgf_read_argument_def with_value_def arg_codes conv32_ok [OF h1])
  next
    case (Arg_float d)
    then show ?thesis using tgf_read_ok [OF at1, of 8] s1(1) ty float_ok [OF h1, of d]
      by (auto simp: tgf_read_argument_def with_value_def read_float_def arg_codes client_hosts passed_def si_client_def)
  next
    case (Arg_data bs)
    then show ?thesis using read_counted_ok [of rd s1 "off + ?n" be bs behind br] at1 h1 assms(3) s1(1) ty
      by (auto simp: tgf_read_argument_def with_value_def arg_codes)
  next
    case (Arg_sctype t)
    then show ?thesis using read_byte_ok [of rd s1 "off + ?n" t behind] at1 s1(1) ty
      by (auto simp: tgf_read_argument_def with_value_def arg_codes tgf_read_sctype_def)
  next
    case (Arg_int16 i)
    have "ucast (ucast i :: 16 word) = i"
      using Arg_int16 assms(3) by (intro word_unat_eq_iff [THEN iffD2]) (simp add: unsigned_ucast_eq unsigned_take_bit_eq take_bit_nat_eq_self word_less_nat_alt)
    moreover have "1 \<le> length behind" using assms(4) by (cases behind) auto
    ultimately show ?thesis using Arg_int16 read_int16_ok [OF at1, of br] s1(1) ty
      by (auto simp: tgf_read_argument_def with_value_def arg_codes conv16_ok [OF h1])
  next
    case (Arg_string str)
    then obtain bs where "str = Some bs" "length bs < 2 ^ 31" using assms(3) by (cases str) auto
    then show ?thesis using Arg_string read_counted_ok [of rd s1 "off + ?n" be bs behind br] at1 h1 s1(1) ty
      by (auto simp: tgf_read_argument_def with_value_def arg_codes)
  next
    case (Arg_lazy_data str)
    then obtain bs where "str = Some bs" "length bs < 2 ^ 31" using assms(3) by (cases str) auto
    then show ?thesis using Arg_lazy_data read_counted_ok [of rd s1 "off + ?n" be bs behind br] at1 h1 s1(1) ty
      by (auto simp: tgf_read_argument_def with_value_def arg_codes)
  qed (use assms(3) in auto)
  then show ?thesis using passed_trans [OF s1(2)] bs(2) unfolding len by metis
qed

section \<open>Commands\<close>

lemma read_arguments_ok:
  "at_bytes rd s off (enc_args be off as @ behind) \<Longrightarrow> hosts_fit be br s \<Longrightarrow> \<forall>a \<in> set as. arg_ok be a \<Longrightarrow> behind \<noteq> [] \<Longrightarrow>
    \<exists>s'. read_arguments rd br (length as) s = Some (as, s') \<and>
      passed rd s off (length (enc_args be off as)) (enc_args be off as @ behind)
        (concat (map (\<lambda>a. bytes32 be (arg_type a) @ payload be a) as)) s'"
proof (induction as arbitrary: s off)
  case Nil
  then show ?case using passed_refl by fastforce
next
  case (Cons a as)
  let ?e = "enc_arg be off a"
  let ?rest = "enc_args be (off + length ?e) as"
  have at: "at_bytes rd s off (?e @ ?rest @ behind)" using Cons.prems(1) by simp
  have ne: "?rest @ behind \<noteq> []" using Cons.prems(4) by simp
  have ok: "arg_ok be a" using Cons.prems(3) by simp
  from read_argument_ok [OF at Cons.prems(2) ok ne] obtain rv s1 where
    s1: "tgf_read_argument rd br s = Some (rv, Some a, s1)" "rv \<ge> 0"
      "passed rd s off (length ?e) (?e @ ?rest @ behind) (bytes32 be (arg_type a) @ payload be a) s1" by blast
  have at1: "at_bytes rd s1 (off + length ?e) (?rest @ behind)" using passed_at [OF s1(3)] by simp
  have h1: "hosts_fit be br s1" using client_hosts [OF s1(3)] Cons.prems(2) by simp
  have oks: "\<forall>a \<in> set as. arg_ok be a" using Cons.prems(3) by simp
  from Cons.IH [OF at1 h1 oks Cons.prems(4)] obtain s2 where
    s2: "read_arguments rd br (length as) s1 = Some (as, s2)"
      "passed rd s1 (off + length ?e) (length ?rest) (?rest @ behind) (concat (map (\<lambda>a. bytes32 be (arg_type a) @ payload be a) as)) s2" by blast
  have "passed rd s off (length ?e + length ?rest) (?e @ ?rest @ behind)
      ((bytes32 be (arg_type a) @ payload be a) @ concat (map (\<lambda>a. bytes32 be (arg_type a) @ payload be a) as)) s2"
    by (rule passed_trans [OF s1(3)]) (use s2(2) in simp)
  then show ?case using s1(1,2) s2(1) by simp
qed

lemma cmd_code_known: "cmd_types ! unat (cmd_code ty) = ty" "\<not> cmd_code ty > TGF_CMD_LAST"
  by (cases ty; simp add: cmd_types_def TGF_CMD_LAST_def)+

lemma check_count: "tgf_command_check c = Some i \<Longrightarrow> 0 \<le> i \<Longrightarrow> tc_cnt c \<le> 3"
  by (cases "tc_type c") (auto simp: tgf_command_check_def known_cmds_def split: if_splits)

lemma command_eta: "\<lparr>tc_type = tc_type c, tc_cnt = tc_cnt c, tc_args = tc_args c\<rparr> = c"
  by simp

text \<open>What a stream is after a command was read.\<close>

definition after_command :: "'i tgf_stream_in \<Rightarrow> 'i tgf_stream_in \<Rightarrow> bool" where
  "after_command s s' \<longleftrightarrow> si_conv s' = si_conv s \<and> si_cmd_index s' = si_cmd_index s + 1 \<and> si_hdr s' = si_hdr s \<and>
    si_err s' = 0 \<and> si_hash s' = si_hash s"

lemma read_command_ok:
  assumes "at_bytes rd s off (enc_cmd be off c @ behind)" "hosts_fit be br s" "cmd_ok be c"
    and "tgf_command_check c = Some i" "0 \<le> i" "th_checksum (si_hdr s) \<noteq> 0"
  shows "\<exists>s'. tgf_read_command rd br s = Some (0, Some c, s') \<and> at_bytes rd s' (off + length (enc_cmd be off c)) behind \<and> after_command s s'"
proof -
  let ?crc = "tgf_update_crc 0 (covered be c)" and ?n = "pad4 off + 4"
  let ?as = "enc_args be (off + ?n) (tc_args c)"
  let ?bs = "enc_cmd be off c @ behind" and ?s0 = "s\<lparr>si_crc := 0\<rparr>"
  have bs: "drop (pad4 off) ?bs = command_hdr_bytes be c @ ?as @ [?crc] @ behind" "drop ?n ?bs = ?as @ [?crc] @ behind"
    by (simp_all add: enc_cmd_def add.assoc)
  have at0: "at_bytes rd ?s0 off ?bs" using assms(1) by (simp add: at_bytes_def)
  obtain s1 where s1: "tgf_read_align4 rd ?s0 = Some (1, command_hdr_bytes be c, s1)" "passed rd ?s0 off ?n ?bs (command_hdr_bytes be c) s1"
    using read_align4_ok [OF at0] bs(1) by (auto simp: rpad_pad4 enc_cmd_def)
  have "hosts_fit be br ?s0" using assms(2) by (simp add: hosts_fit_def)
  then have h1: "hosts_fit be br s1" using client_hosts [OF s1(2)] by simp
  have cnt: "unat (word_of_nat (tc_cnt c) :: 16 word) = tc_cnt c"
    using check_count [OF assms(4,5)] by (simp add: unsigned_of_nat take_bit_nat_eq_self)
  have hdr: "tgf_read_command_hdr rd br s = Some (0, cmd_code (tc_type c), word_of_nat (tc_cnt c), s1)"
    using s1(1) conv16_ok [OF h1] cmd_code_known(2) by (simp add: tgf_read_command_hdr_def command_hdr_bytes_def)
  let ?s1 = "s1\<lparr>si_err := 0\<rparr>"
  have at1: "at_bytes rd ?s1 (off + ?n) (?as @ ([?crc] @ behind))"
    using passed_at [OF s1(2)] bs(2) by (simp add: at_bytes_def)
  have h1': "hosts_fit be br ?s1" using h1 by (simp add: hosts_fit_def)
  have oks: "\<forall>a \<in> set (tc_args c). arg_ok be a" "length (tc_args c) = tc_cnt c" using assms(3) by (simp_all add: cmd_ok_def)
  from read_arguments_ok [OF at1 h1' oks(1)] obtain s2 where
    s2: "read_arguments rd br (tc_cnt c) ?s1 = Some (tc_args c, s2)"
      "passed rd ?s1 (off + ?n) (length ?as) (?as @ ([?crc] @ behind)) (concat (map (\<lambda>a. bytes32 be (arg_type a) @ payload be a) (tc_args c))) s2"
    unfolding oks(2) by auto
  have at2: "at_bytes rd s2 (off + ?n + length ?as) (?crc # behind)" using passed_at [OF s2(2)] by simp
  from read_byte_ok [OF this] obtain s3 where
    s3: "tgf_read_byte rd s2 = Some (uint ?crc, s3)" "passed rd s2 (off + ?n + length ?as) 1 (?crc # behind) [?crc] s3" by blast
  have "si_crc s1 = tgf_update_crc 0 (command_hdr_bytes be c)" using s1(2) by (simp add: passed_def)
  then have "si_crc s2 = ?crc" using s2(2) by (simp add: passed_def covered_def)
  then have crc: "si_crc s3 = 0" using s3(2) by (simp add: passed_def tgf_update_crc_def)
  have cl: "si_conv s3 = si_conv s" "si_cmd_index s3 = si_cmd_index s" "si_hdr s3 = si_hdr s" "si_err s3 = 0" "si_hash s3 = si_hash s"
    using s1(2) s2(2) s3(2) by (auto simp: passed_def si_client_def)
  have cl2: "si_hdr s2 = si_hdr s" using s1(2) s2(2) by (auto simp: passed_def si_client_def)
  let ?s = "s3\<lparr>si_cmd_index := si_cmd_index s3 + 1\<rparr>"
  have "read_command_args rd br (tc_cnt c) s1 = Some (tc_args c, ?s)"
    using s2(1) s3(1) cl cl2 crc assms(6) by (simp add: read_command_args_def)
  then have "tgf_read_command rd br s = Some (0, Some c, ?s)"
    using hdr cnt cl assms(4,5) cmd_code_known(1) by (simp add: tgf_read_command_def Let_def command_eta)
  moreover have "at_bytes rd ?s (off + length (enc_cmd be off c)) behind"
  proof -
    have e: "off + length (enc_cmd be off c) = off + ?n + length ?as + 1" by (simp add: enc_cmd_def ac_simps)
    have "at_bytes rd ?s (off + ?n + length ?as + 1) behind" using passed_at [OF s3(2)] by (simp add: at_bytes_def)
    then show ?thesis unfolding e .
  qed
  moreover have "after_command s ?s" using cl by (simp add: after_command_def)
  ultimately show ?thesis by blast
qed

section \<open>The header\<close>

lemma header_length [simp]: "length (header_bytes be minor compr n) = 13"
  by (simp add: header_bytes_def)

lemma parse_header_ok:
  "parse_header br (header_bytes be 0 0 n) =
    \<lparr>th_signature = [84, 71, 70], th_minor_ver = 0, th_major_ver = 3, th_endianness = (if be then 0 else 1),
     th_compression = 0, th_checksum = 1, th_id_size = n, th_tgf_id = []\<rparr>"
proof -
  have z: "bytes16 be 0 = [0, 0]" by (simp add: bytes16_def Let_def)
  have "header_bytes be 0 0 n = [84, 71, 70, 0, 3, (if be then 0 else 1), 0, 0, 0, 1, 0, 0, n]"
    unfolding header_bytes_def z by simp
  then show ?thesis by (simp add: parse_header_def word16_of_def)
qed

lemma in_start_ok:
  assumes "at_bytes rd s 0 (header_bytes be 0 0 (word_of_nat (length ident)) @ ident @ behind)" "length ident \<le> 255" "br \<longrightarrow> be"
  shows "\<exists>s'. tgf_stream_in_start rd br s = Some (0, s') \<and> at_bytes rd s' (13 + length ident) behind \<and> hosts_fit be br s' \<and>
    th_checksum (si_hdr s') = 1 \<and> th_tgf_id (si_hdr s') = ident \<and> si_cmd_index s' = 0 \<and> si_err s' = 0 \<and> si_hash s' = si_hash s"
proof -
  let ?h = "header_bytes be 0 0 (word_of_nat (length ident))"
  obtain s1 where s1: "tgf_read rd s 13 = Some (13, ?h, s1)" "passed rd s 0 13 (?h @ ident @ behind) ?h s1"
    using tgf_read_ok [OF assms(1), of 13] by auto
  let ?h' = "parse_header br ?h"
  let ?s1 = "s1\<lparr>si_hdr := ?h', si_conv := False\<rparr>"
  have at1: "at_bytes rd ?s1 13 (ident @ behind)" using passed_at [OF s1(2)] by (simp add: at_bytes_def)
  have n: "unat (word_of_nat (length ident) :: byte) = length ident" using assms(2) by (simp add: unsigned_of_nat take_bit_nat_eq_self)
  obtain s2 where s2: "tgf_read rd ?s1 (length ident) = Some (int (length ident), ident, s2)"
      "passed rd ?s1 13 (length ident) (ident @ behind) ident s2"
    using tgf_read_ok [OF at1, of "length ident"] by auto
  let ?s = "s2\<lparr>si_hdr := ?h'\<lparr>th_tgf_id := ident\<rparr>, si_conv := (th_endianness ?h' \<noteq> TGF_HOST_ENDIANNESS br), si_cmd_index := 0, si_err := 0\<rparr>"
  have "tgf_stream_in_start rd br s = Some (0, ?s)"
    using s1(1) s2(1) n unfolding tgf_stream_in_start_def by (simp add: parse_header_ok Let_def)
  moreover have "at_bytes rd ?s (13 + length ident) behind" using passed_at [OF s2(2)] by (simp add: at_bytes_def)
  moreover have "si_hash s2 = si_hash s" using s1(2) s2(2) by (auto simp: passed_def si_client_def)
  ultimately show ?thesis using assms(3) by (intro exI [of _ ?s]) (auto simp: parse_header_ok hosts_fit_def TGF_HOST_ENDIANNESS_def)
qed

section \<open>Clients\<close>

text \<open>The references of a command: the arguments at the places where its entry of the table asks for an
  identifier. \<open>- 1\<close> stands for no element.\<close>

definition ref_types :: "tgf_command \<Rightarrow> 32 word list" where
  "ref_types c = known_args (int (find_cmd (tc_type c) known_cmds 0))"

fun ref_arg :: "(32 word \<Rightarrow> tgf_argument) \<Rightarrow> 32 word \<Rightarrow> tgf_argument \<Rightarrow> tgf_argument" where
  "ref_arg f ty (Arg_userid u) = (if ty = TGF_USERID then if u = - 1 then Arg_int32 u else f u else Arg_userid u)"
| "ref_arg f ty a = a"

fun map_refs :: "(32 word \<Rightarrow> tgf_argument) \<Rightarrow> 32 word list \<Rightarrow> tgf_argument list \<Rightarrow> tgf_argument list" where
  "map_refs f (ty # tys) (a # as) = ref_arg f ty a # map_refs f tys as"
| "map_refs f tys as = as"

text \<open>The command as it is written: references are the numbers of commands; and as the reading client
  gets it: references are its own identifiers.\<close>

definition with_numbers :: "(32 word \<Rightarrow> 32 word) \<Rightarrow> tgf_command \<Rightarrow> tgf_command" where
  "with_numbers num c = c\<lparr>tc_args := map_refs (\<lambda>u. Arg_int32 (num u)) (ref_types c) (tc_args c)\<rparr>"

definition renamed :: "(32 word \<Rightarrow> 32 word) \<Rightarrow> tgf_command \<Rightarrow> tgf_command" where
  "renamed ren c = c\<lparr>tc_args := map_refs (\<lambda>u. Arg_userid (ren u)) (ref_types c) (tc_args c)\<rparr>"

text \<open>Commands that a client may write: those the check accepts, with references to elements named by
  earlier commands only and values that fit the format.\<close>

fun args_fit :: "bool \<Rightarrow> 32 word set \<Rightarrow> 32 word list \<Rightarrow> tgf_argument list \<Rightarrow> bool" where
  "args_fit be ids (ty # tys) (a # as) =
    ((if ty = TGF_USERID then \<exists>u. a = Arg_userid u \<and> (u = - 1 \<or> u \<in> ids) else arg_ok be a) \<and> args_fit be ids tys as)"
| "args_fit be ids tys as = (as = [])"

definition cmd_fits :: "bool \<Rightarrow> 32 word set \<Rightarrow> tgf_command \<Rightarrow> bool" where
  "cmd_fits be ids c \<longleftrightarrow> tc_cnt c = length (tc_args c) \<and> (\<exists>i \<ge> 0. tgf_command_check c = Some i) \<and> args_fit be ids (ref_types c) (tc_args c)"

fun client_ok :: "bool \<Rightarrow> 32 word set \<Rightarrow> (tgf_command \<times> 32 word) list \<Rightarrow> bool" where
  "client_ok be ids [] = True"
| "client_ok be ids ((c, cl_id) # cs) =
    (cmd_fits be ids c \<and> cl_id \<notin> ids \<and>
     client_ok be (if cl_id = 0 then ids else insert cl_id ids) cs)"

lemma find_known: "\<exists>k lo hi tys. find_cmd ty known_cmds 0 = k \<and> k < length known_cmds \<and> known_cmds ! k = (ty, lo, hi, tys) \<and> hi = length tys \<and>
    (\<forall>t \<in> set tys. t \<in> {TGF_STRING, TGF_SCTYPE, TGF_NONE, TGF_USERID})"
  by (cases ty) (auto simp: known_cmds_def)

lemma check_index:
  assumes "tgf_command_check c = Some i" "0 \<le> i"
  shows "known_args i = ref_types c" "tc_cnt c \<le> length (ref_types c)"
proof -
  obtain k lo hi tys where k: "find_cmd (tc_type c) known_cmds 0 = k" "k < length known_cmds" "known_cmds ! k = (tc_type c, lo, hi, tys)" "hi = length tys"
    using find_known [of "tc_type c"] by blast
  then have "i = int k" "tc_cnt c \<le> hi" using assms by (auto simp: tgf_command_check_def bind_eq_Some_conv split: if_splits)
  then show "known_args i = ref_types c" "tc_cnt c \<le> length (ref_types c)" using k by (simp_all add: ref_types_def known_args_def)
qed

lemma map_refs_length [simp]: "length (map_refs f tys as) = length as"
  by (induction f tys as rule: map_refs.induct) auto

text \<open>The check does not change when references are replaced.\<close>

lemma map_refs_nth:
  "k < length as \<Longrightarrow> k < length tys \<Longrightarrow> map_refs f tys as ! k = ref_arg f (tys ! k) (as ! k)"
  by (induction f tys as arbitrary: k rule: map_refs.induct) (auto simp: nth_Cons split: nat.splits)

lemma ref_arg_type:
  assumes "f = (\<lambda>u. Arg_int32 (num u)) \<or> f = (\<lambda>u. Arg_userid (num u))"
  shows "(ty = TGF_USERID \<and> arg_type (ref_arg f ty a) = TGF_INT32 \<or> \<not> (ty \<noteq> TGF_NONE \<and> arg_type (ref_arg f ty a) \<noteq> ty)) =
    (ty = TGF_USERID \<and> arg_type a = TGF_INT32 \<or> \<not> (ty \<noteq> TGF_NONE \<and> arg_type a \<noteq> ty))"
  using assms by (cases a) (auto simp: arg_codes)

lemma check_args_step:
  "k < length (tc_args c) \<Longrightarrow> check_args tys k (Suc n) c =
    (if tys ! k = TGF_USERID \<and> arg_type (tc_args c ! k) = TGF_INT32 \<or> \<not> (tys ! k \<noteq> TGF_NONE \<and> arg_type (tc_args c ! k) \<noteq> tys ! k)
     then check_args tys (k + 1) n c else Some False)"
  by (simp add: arg_of_def Let_def)

lemma check_args_refs:
  assumes "f = (\<lambda>u. Arg_int32 (num u)) \<or> f = (\<lambda>u. Arg_userid (num u))"
  shows "k + n \<le> length tys \<Longrightarrow> k + n \<le> length (tc_args c) \<Longrightarrow>
    check_args tys k n (c\<lparr>tc_args := map_refs f tys (tc_args c)\<rparr>) = check_args tys k n c"
proof (induction n arbitrary: k)
  case (Suc n)
  let ?c = "c\<lparr>tc_args := map_refs f tys (tc_args c)\<rparr>"
  have ih: "check_args tys (k + 1) n ?c = check_args tys (k + 1) n c"
    using Suc by simp
  have l: "k < length tys" "k < length (tc_args c)" "k < length (tc_args ?c)" using Suc.prems by simp_all
  have "tc_args ?c ! k = ref_arg f (tys ! k) (tc_args c ! k)" using l by (simp add: map_refs_nth)
  then show ?case unfolding check_args_step [OF l(2)] check_args_step [OF l(3)] ih by (simp only: ref_arg_type [OF assms])
qed simp

lemma command_check_refs:
  assumes "f = (\<lambda>u. Arg_int32 (num u)) \<or> f = (\<lambda>u. Arg_userid (num u))" "tc_cnt c = length (tc_args c)" "tgf_command_check c = Some i" "0 \<le> i"
  shows "tgf_command_check (c\<lparr>tc_args := map_refs f (ref_types c) (tc_args c)\<rparr>) = Some i"
proof -
  obtain k lo hi tys where k: "find_cmd (tc_type c) known_cmds 0 = k" "k < length known_cmds" "known_cmds ! k = (tc_type c, lo, hi, tys)" "hi = length tys"
    using find_known [of "tc_type c"] by blast
  have rt: "ref_types c = tys" using k by (simp add: ref_types_def known_args_def)
  have "tc_cnt c \<le> length tys" using check_index(2) [OF assms(3,4)] rt by simp
  then have "check_args tys 0 (tc_cnt c) (c\<lparr>tc_args := map_refs f tys (tc_args c)\<rparr>) = check_args tys 0 (tc_cnt c) c"
    by (intro check_args_refs [OF assms(1)]) (use assms(2) in simp_all)
  then show ?thesis using assms(3) k unfolding rt tgf_command_check_def by (auto split: if_splits)
qed

section \<open>References\<close>

text \<open>\<open>tgf_command_translate_out\<close> puts the numbers in, and the result can be written;
  \<open>tgf_command_translate_in\<close> puts the identifiers of the reader in.\<close>

lemma translate_out_refs:
  "args_fit be ids tys as \<Longrightarrow> (\<And>u. u \<in> ids \<Longrightarrow> tgf_map_out_lookup m u = Some (num u)) \<Longrightarrow>
    translate_out_args m tys as = Some (0, map_refs (\<lambda>u. Arg_int32 (num u)) tys as)"
proof (induction be ids tys as rule: args_fit.induct)
  case (1 be ids ty tys a as)
  have ih: "translate_out_args m tys as = Some (0, map_refs (\<lambda>u. Arg_int32 (num u)) tys as)"
    using 1 by auto
  show ?case
  proof (cases "ty = TGF_USERID")
    case True
    then obtain u where "a = Arg_userid u" "u = - 1 \<or> u \<in> ids" using "1.prems"(1) by auto
    then show ?thesis using True ih "1.prems"(2) by auto
  next
    case False
    then have "arg_ok be a" using "1.prems"(1) by simp
    moreover from this False have "ref_arg (\<lambda>u. Arg_int32 (num u)) ty a = a" by (cases a) auto
    ultimately show ?thesis using False ih by simp
  qed
qed auto

lemma translate_in_refs:
  "args_fit be ids tys as \<Longrightarrow> (\<And>u. u \<in> ids \<Longrightarrow> num u \<noteq> - 1 \<and> tgf_map_in_lookup m (num u) = Some (ren u)) \<Longrightarrow>
    translate_in_args m tys (map_refs (\<lambda>u. Arg_int32 (num u)) tys as) = Some (0, map_refs (\<lambda>u. Arg_userid (ren u)) tys as)"
proof (induction be ids tys as rule: args_fit.induct)
  case (1 be ids ty tys a as)
  have ih: "translate_in_args m tys (map_refs (\<lambda>u. Arg_int32 (num u)) tys as) = Some (0, map_refs (\<lambda>u. Arg_userid (ren u)) tys as)"
    using 1 by auto
  show ?case
  proof (cases "ty = TGF_USERID")
    case True
    then obtain u where "a = Arg_userid u" "u = - 1 \<or> u \<in> ids" using "1.prems"(1) by auto
    then show ?thesis using True ih "1.prems"(2) by auto
  next
    case False
    then have "arg_ok be a" using "1.prems"(1) by simp
    from this False have "ref_arg (\<lambda>u. Arg_int32 (num u)) ty a = a" "ref_arg (\<lambda>u. Arg_userid (ren u)) ty a = a" by (cases a; simp)+
    then show ?thesis using False ih by simp
  qed
qed auto

lemma refs_ok: "args_fit be ids tys as \<Longrightarrow> \<forall>a \<in> set (map_refs (\<lambda>u. Arg_int32 (num u)) tys as). arg_ok be a"
proof (induction be ids tys as rule: args_fit.induct)
  case (1 be ids ty tys a as)
  then show ?case by (cases "ty = TGF_USERID"; cases a) auto
qed auto

lemma with_numbers_ok:
  assumes "cmd_fits be ids c"
  shows "cmd_ok be (with_numbers num c)" "\<exists>i \<ge> 0. tgf_command_check (with_numbers num c) = Some i"
proof -
  obtain i where i: "i \<ge> 0" "tgf_command_check c = Some i" and cnt: "tc_cnt c = length (tc_args c)" and fit: "args_fit be ids (ref_types c) (tc_args c)"
    using assms(1) by (auto simp: cmd_fits_def)
  show "cmd_ok be (with_numbers num c)" using refs_ok [OF fit] cnt by (simp add: cmd_ok_def with_numbers_def)
  show "\<exists>i \<ge> 0. tgf_command_check (with_numbers num c) = Some i"
    using command_check_refs [OF _ cnt i(2,1), of "\<lambda>u. Arg_int32 (num u)" num] i(1) unfolding with_numbers_def by blast
qed

lemma command_translate_out:
  assumes "cmd_fits be ids c" "\<And>u. u \<in> ids \<Longrightarrow> tgf_map_out_lookup m u = Some (num u)"
  shows "tgf_command_translate_out m c = Some (0, with_numbers num c)"
proof -
  obtain i where i: "i \<ge> 0" "tgf_command_check c = Some i" and cnt: "tc_cnt c = length (tc_args c)" and fit: "args_fit be ids (ref_types c) (tc_args c)"
    using assms(1) by (auto simp: cmd_fits_def)
  show ?thesis
    using i translate_out_refs [OF fit assms(2)] check_index(1) [OF i(2,1)] by (simp add: tgf_command_translate_out_def with_numbers_def)
qed

lemma command_translate_in:
  assumes "cmd_fits be ids c" "\<And>u. u \<in> ids \<Longrightarrow> num u \<noteq> - 1 \<and> tgf_map_in_lookup m (num u) = Some (ren u)"
  shows "tgf_command_translate_in m (with_numbers num c) = Some (0, renamed ren c)"
proof -
  obtain i where i: "i \<ge> 0" "tgf_command_check c = Some i" and cnt: "tc_cnt c = length (tc_args c)" and fit: "args_fit be ids (ref_types c) (tc_args c)"
    using assms(1) by (auto simp: cmd_fits_def)
  have "tgf_command_check (with_numbers num c) = Some i"
    using command_check_refs [OF _ cnt i(2,1), of "\<lambda>u. Arg_int32 (num u)" num] unfolding with_numbers_def by blast
  then show ?thesis using i translate_in_refs [OF fit assms(2)] check_index(1) [OF i(2,1)]
    by (simp add: tgf_command_translate_in_def with_numbers_def renamed_def)
qed

text \<open>The commands that are written for a client's commands, \<open>num\<close> giving the numbers of the elements
  that were named before.\<close>

fun numbered :: "(32 word \<Rightarrow> 32 word) \<Rightarrow> 32 word \<Rightarrow> (tgf_command \<times> 32 word) list \<Rightarrow> tgf_command list" where
  "numbered num k [] = []"
| "numbered num k ((c, cl_id) # cs) = with_numbers num c # numbered (num(cl_id := k)) (k + 1) cs"

text \<open>What the reading client sees: its callback, run on the commands with its own identifiers. It must
  accept every command and name the elements that the writing client named.\<close>

fun replay :: "'x tgf_in_cb \<Rightarrow> (32 word \<Rightarrow> 32 word) \<Rightarrow> (tgf_command \<times> 32 word) list \<Rightarrow> 'x \<Rightarrow> 'x option" where
  "replay cb ren [] x = Some x"
| "replay cb ren ((c, cl_id) # cs) x =
    (let (e, r, x) = cb (renamed ren c) x in
     if e \<noteq> 0 \<or> (cl_id \<noteq> 0 \<and> r = 0) then None else replay cb (ren(cl_id := r)) cs x)"

section \<open>Writing the commands of a client\<close>

fun write_commands :: "'o write_fn \<Rightarrow> bool \<Rightarrow> 'o tgf_stream_out \<Rightarrow> (tgf_command \<times> 32 word) list \<Rightarrow> 'o tgf_stream_out option" where
  "write_commands wr be s [] = Some s"
| "write_commands wr be s ((c, cl_id) # cs) =
    do { (rv, s) \<leftarrow> tgf_write_command wr be s c cl_id; ensure (rv \<ge> 0); write_commands wr be s cs }"

definition end_command :: "tgf_command \<times> 32 word" where
  "end_command = (\<lparr>tc_type = TGF_ENDOFSTREAM, tc_cnt = 0, tc_args = []\<rparr>, 0)"

text \<open>The whole of a client that writes: start, commands, finish.\<close>

definition write_session :: "'o write_fn \<Rightarrow> bool \<Rightarrow> 'o tgf_stream_out \<Rightarrow> byte list \<Rightarrow> (tgf_command \<times> 32 word) list \<Rightarrow> 'o tgf_stream_out option" where
  "write_session wr be s ident cs =
    do {
      (let (rv, s) = tgf_stream_out_start wr be s ident in
       do {
         ensure (rv \<ge> 0);
         s \<leftarrow> write_commands wr be s cs;
         (rv, s) \<leftarrow> tgf_stream_out_finish wr be s;
         ensure (rv \<ge> 0);
         Some s
       })
    }"

lemma write_commands_append: "write_commands wr be s (cs @ ds) = Option.bind (write_commands wr be s cs) (\<lambda>s. write_commands wr be s ds)"
proof (induction cs arbitrary: s)
  case (Cons c cs)
  then show ?case by (cases c) (auto simp: bind_eq_Some_conv intro!: Option.bind_cong split: prod.split)
qed simp

definition names :: "(32 word, 32 word) map_node \<Rightarrow> 32 word set \<Rightarrow> (32 word \<Rightarrow> 32 word) \<Rightarrow> bool" where
  "names m ids num \<longleftrightarrow> map_inv map_comp_ptr UNIV m \<and> (\<forall>u. map_abs m u = (if u \<in> ids then Some (num u) else None))"

lemma names_lookup: "names m ids num \<Longrightarrow> u \<in> ids \<Longrightarrow> tgf_map_out_lookup m u = Some (num u)"
  by (simp add: names_def tgf_map_out_lookup_def ptr_map.find_ok)

lemma names_add:
  assumes "names m ids num" "cl_id \<notin> ids"
  shows "\<exists>m'. tgf_map_out_add m cl_id k = Some (1, m') \<and> names m' (insert cl_id ids) (num(cl_id := k))"
proof -
  have inv: "map_inv map_comp_ptr UNIV m" and a: "map_abs m cl_id = None" using assms by (simp_all add: names_def)
  from ptr_map.insert_ok [OF inv, of cl_id k] a obtain m' where
    "tgf_map_out_add m cl_id k = Some (1, m')" "map_inv map_comp_ptr UNIV m'" "map_abs m' = (map_abs m)(cl_id \<mapsto> k)"
    by (auto simp: tgf_map_out_add_def)
  then show ?thesis using assms(1) by (auto simp: names_def)
qed

text \<open>The state of a stream that has written: \<open>k\<close> commands, with names for \<open>ids\<close>.\<close>

definition writing :: "'o tgf_stream_out \<Rightarrow> 32 word set \<Rightarrow> (32 word \<Rightarrow> 32 word) \<Rightarrow> 32 word \<Rightarrow> bool" where
  "writing s ids num k \<longleftrightarrow> names (so_hash s) ids num \<and> so_cmd_index s = k \<and> so_err s \<ge> 0"

lemma writing_emits: "writing s ids num k \<Longrightarrow> emits content n s bs s' \<Longrightarrow> writing s' ids num k"
  by (auto simp: writing_def emits_def so_client_def)

lemma total_upd [simp]: "total content (s\<lparr>so_hash := h, so_cmd_index := i\<rparr>) = total content s"
  "can_take content n (s\<lparr>so_hash := h, so_cmd_index := i\<rparr>) = can_take content n s"
  by (simp_all add: total_def flushed_def can_take_def split: option.split)

lemma write_command_ok:
  assumes "accepts wr content" "writing s ids num k" "cmd_fits be ids c" "cl_id \<notin> ids" "0 \<notin> ids"
    and "can_take content (length (enc_cmd be (length (total content s)) (with_numbers num c)) + n) s"
  shows "\<exists>s'. tgf_write_command wr be s c cl_id = Some (0, s') \<and>
    total content s' = total content s @ enc_cmd be (length (total content s)) (with_numbers num c) \<and> can_take content n s' \<and>
    (so_fd s' = None) = (so_fd s = None) \<and> writing s' (if cl_id = 0 then ids else insert cl_id ids) (num(cl_id := k)) (k + 1)"
proof -
  have nm: "names (so_hash s) ids num" and k: "so_cmd_index s = k" and err: "so_err s \<ge> 0" using assms(2) by (simp_all add: writing_def)
  let ?ids = "if cl_id = 0 then ids else insert cl_id ids" and ?num = "num(cl_id := k)"
  obtain h where h: "(if cl_id \<noteq> 0 then tgf_map_out_add (so_hash s) cl_id (so_cmd_index s) else Some (1, so_hash s)) = Some (1, h)"
    "names h ?ids ?num"
  proof (cases "cl_id = 0")
    case True
    then have "names (so_hash s) ids ?num" using nm assms(5) by (auto simp: names_def)
    then show ?thesis using that True by auto
  next
    case False
    from names_add [OF nm assms(4)] obtain h' where
      h': "tgf_map_out_add (so_hash s) cl_id k = Some (1, h')" "names h' (insert cl_id ids) ?num" by blast
    show ?thesis by (rule that [of h']) (use False h' k in simp_all)
  qed
  let ?s = "s\<lparr>so_hash := h, so_cmd_index := so_cmd_index s + 1\<rparr>"
  have look: "tgf_map_out_lookup h u = Some (num u)" if "u \<in> ids" for u
    using names_lookup [OF h(2), of u] that assms(4) by auto
  note t = command_translate_out [OF assms(3) look]
  from write_command_emits [OF assms(1) with_numbers_ok(1) [OF assms(3), of num], of ?s n] assms(6) obtain s' where
    s': "tgf_write_translated_command wr be ?s (with_numbers num c) = Some (0, s')"
      "emits content n ?s (enc_cmd be (length (total content s)) (with_numbers num c)) s'" by auto
  have "tgf_write_command wr be s c cl_id = Some (0, s')"
    using err h(1) t s'(1) by (simp add: tgf_write_command_def Let_def)
  moreover have "writing s' ?ids ?num (k + 1)"
    by (rule writing_emits [OF _ s'(2)]) (use h(2) k err in \<open>simp add: writing_def\<close>)
  moreover have "total content s' = total content s @ enc_cmd be (length (total content s)) (with_numbers num c)"
    "can_take content n s'" "(so_fd s' = None) = (so_fd s = None)"
    using s'(2) unfolding emits_def so_client_def by simp_all
  ultimately show ?thesis by (intro exI [of _ s'] conjI)
qed

lemma write_commands_ok:
  "accepts wr content \<Longrightarrow> writing s ids num k \<Longrightarrow> client_ok be ids cs \<Longrightarrow> 0 \<notin> ids \<Longrightarrow>
    can_take content (length (enc_cmds be (length (total content s)) (numbered num k cs)) + n) s \<Longrightarrow>
    \<exists>s'. write_commands wr be s cs = Some s' \<and>
      total content s' = total content s @ enc_cmds be (length (total content s)) (numbered num k cs) \<and> can_take content n s' \<and>
      (so_fd s' = None) = (so_fd s = None) \<and> so_err s' \<ge> 0"
proof (induction cs arbitrary: s ids num k)
  case Nil
  then show ?case by (simp add: writing_def)
next
  case (Cons cc cs)
  obtain c cl_id where cc: "cc = (c, cl_id)" by force
  let ?e = "enc_cmd be (length (total content s)) (with_numbers num c)"
  let ?ids = "if cl_id = 0 then ids else insert cl_id ids" and ?num = "num(cl_id := k)"
  let ?rest = "enc_cmds be (length (total content s) + length ?e) (numbered ?num (k + 1) cs)"
  have fits: "cmd_fits be ids c" "cl_id \<notin> ids" "client_ok be ?ids cs" using Cons.prems(3) cc by simp_all
  have "can_take content (length ?e + (length ?rest + n)) s" using Cons.prems(5) cc by (simp add: add.assoc)
  from write_command_ok [OF Cons.prems(1,2) fits(1,2) Cons.prems(4) this] obtain s1 where
    s1: "tgf_write_command wr be s c cl_id = Some (0, s1)" "total content s1 = total content s @ ?e" "can_take content (length ?rest + n) s1"
      "(so_fd s1 = None) = (so_fd s = None)" "writing s1 ?ids ?num (k + 1)"
    by (elim exE conjE) (rule that)
  have off: "length (total content s1) = length (total content s) + length ?e" using s1(2) by simp
  have z: "0 \<notin> ?ids" using Cons.prems(4) by simp
  have ct: "can_take content (length (enc_cmds be (length (total content s1)) (numbered ?num (k + 1) cs)) + n) s1"
    using s1(3) unfolding off .
  from Cons.IH [OF Cons.prems(1) s1(5) fits(3) z ct] show ?case using cc s1 off by (auto simp del: fun_upd_apply)
qed

lemma client_ok_end: "client_ok be ids cs \<Longrightarrow> 0 \<notin> ids \<Longrightarrow> client_ok be ids (cs @ [end_command])"
proof (induction be ids cs rule: client_ok.induct)
  case (1 be ids)
  have "tgf_command_check (fst end_command) = Some 6" by (simp add: tgf_command_check_def end_command_def known_cmds_def)
  then have "\<exists>i \<ge> 0. tgf_command_check (fst end_command) = Some i" by auto
  then show ?case using 1(2) by (simp add: end_command_def cmd_fits_def ref_types_def known_args_def known_cmds_def)
next
  case (2 be ids c cl_id cs)
  then show ?case by simp
qed

section \<open>Reading the commands of a client\<close>

text \<open>The reader's map after \<open>n\<close> commands: keys are numbers of commands read, and the elements that
  the writing client named have the reading client's identifiers.\<close>

definition links :: "(32 word, 32 word) map_node \<Rightarrow> nat \<Rightarrow> 32 word set \<Rightarrow> (32 word \<Rightarrow> 32 word) \<Rightarrow> (32 word \<Rightarrow> 32 word) \<Rightarrow> bool" where
  "links m n ids num ren \<longleftrightarrow> map_inv map_comp_int index_keys m \<and>
    (\<forall>key \<in> dom (map_abs m). \<exists>j < n. key = word_of_nat j) \<and>
    (\<forall>u \<in> ids. map_abs m (num u) = Some (ren u))"

lemma index_small:
  assumes "n < 2 ^ 31"
  shows "(word_of_nat n :: 32 word) \<in> index_keys" "unat (word_of_nat n :: 32 word) = n" "(word_of_nat n :: 32 word) \<noteq> - 1"
proof -
  show u: "unat (word_of_nat n :: 32 word) = n" using assms by (simp add: unsigned_of_nat take_bit_nat_eq_self)
  show "(word_of_nat n :: 32 word) \<in> index_keys" using assms by (simp add: index_keys_def signed_of_nat signed_take_bit_int_eq_self)
  show "(word_of_nat n :: 32 word) \<noteq> - 1"
  proof
    assume "(word_of_nat n :: 32 word) = - 1"
    then have "n = unat (- 1 :: 32 word)" using u by simp
    then show False using assms by (simp add: unsigned_minus_1_eq_mask mask_eq_exp_minus_1)
  qed
qed

lemma links_lookup:
  assumes "links m n ids num ren" "n < 2 ^ 31" "u \<in> ids"
  shows "num u \<noteq> - 1 \<and> tgf_map_in_lookup m (num u) = Some (ren u)"
proof -
  have a: "map_abs m (num u) = Some (ren u)" and inv: "map_inv map_comp_int index_keys m" using assms by (auto simp: links_def)
  then obtain j where "j < n" "num u = word_of_nat j" using assms(1) unfolding links_def by blast
  then show ?thesis using a index_small(3) [of j] assms(2) int_map.find_ok [OF inv] by (auto simp: tgf_map_in_lookup_def)
qed

lemma links_add:
  assumes "links m n ids num ren" "n < 2 ^ 31" "cl_id \<notin> ids" "r \<noteq> 0"
  shows "\<exists>m'. tgf_map_in_add m (word_of_nat n) r = Some (1, m') \<and>
    links m' (n + 1) (insert cl_id ids) (num(cl_id := word_of_nat n)) (ren(cl_id := r))"
proof -
  have inv: "map_inv map_comp_int index_keys m" and keys: "\<forall>key \<in> dom (map_abs m). \<exists>j < n. key = word_of_nat j"
    and ids: "\<forall>u \<in> ids. map_abs m (num u) = Some (ren u)" using assms(1) by (auto simp: links_def)
  have "(word_of_nat n :: 32 word) \<noteq> word_of_nat j" if "j < n" for j
    using index_small(2) [of n] index_small(2) [of j] that assms(2) by (metis less_irrefl less_trans)
  then have fresh: "map_abs m (word_of_nat n) = None" using keys by (meson domIff)
  from int_map.insert_ok [OF inv index_small(1) [OF assms(2)], of r] fresh obtain m' where
    m': "tgf_map_in_add m (word_of_nat n) r = Some (1, m')" "map_inv map_comp_int index_keys m'" "map_abs m' = (map_abs m)(word_of_nat n \<mapsto> r)"
    by (auto simp: tgf_map_in_add_def)
  have old: "map_abs m' (num u) = Some (ren u)" if "u \<in> ids" for u
    using m'(3) ids fresh that by (cases "num u = word_of_nat n") auto
  have "\<forall>key \<in> dom (map_abs m'). \<exists>j < n + 1. key = word_of_nat j"
    using keys m'(3) by (auto simp: less_Suc_eq)
  moreover have "\<forall>u \<in> insert cl_id ids. map_abs m' ((num(cl_id := word_of_nat n)) u) = Some ((ren(cl_id := r)) u)"
  proof
    fix u assume "u \<in> insert cl_id ids"
    then show "map_abs m' ((num(cl_id := word_of_nat n)) u) = Some ((ren(cl_id := r)) u)"
      using old [of u] by (cases "u = cl_id") (simp add: m'(3), auto)
  qed
  ultimately show ?thesis using m'(1,2) unfolding links_def by blast
qed

lemma links_skip:
  assumes "links m n ids num ren" "0 \<notin> ids"
  shows "links m (n + 1) ids (num(0 := k)) (ren(0 := r))"
  using assms unfolding links_def by (metis (no_types, opaque_lifting) fun_upd_other less_Suc_eq Suc_eq_plus1)

lemma links_insert:
  assumes "links m n ids num ren" "n < 2 ^ 31" "0 \<notin> ids" "cl_id \<notin> ids" "cl_id \<noteq> 0 \<longrightarrow> r \<noteq> 0"
  shows "\<exists>m'. (if r \<noteq> 0 then tgf_map_in_add m (word_of_nat n) r else Some (1, m)) = Some (1, m') \<and>
    links m' (n + 1) (if cl_id = 0 then ids else insert cl_id ids) (num(cl_id := word_of_nat n)) (ren(cl_id := r))"
proof (cases "r = 0")
  case True
  then show ?thesis using links_skip [OF assms(1,3)] assms(5) by auto
next
  case False
  from links_add [OF assms(1,2,4) False] obtain m' where
    m': "tgf_map_in_add m (word_of_nat n) r = Some (1, m')" "links m' (n + 1) (insert cl_id ids) (num(cl_id := word_of_nat n)) (ren(cl_id := r))" by blast
  show ?thesis
  proof (cases "cl_id = 0")
    case True
    then have "links m' (n + 1) ids (num(cl_id := word_of_nat n)) (ren(cl_id := r))" using m'(2) unfolding links_def by simp
    then show ?thesis using m'(1) True False by simp
  qed (use m' False in auto)
qed

text \<open>The state of a stream that is read: \<open>n\<close> commands are.\<close>

definition reading :: "'i read_fn \<Rightarrow> bool \<Rightarrow> bool \<Rightarrow> 'i tgf_stream_in \<Rightarrow> nat \<Rightarrow> byte list \<Rightarrow> nat \<Rightarrow> bool" where
  "reading rd be br s off bs n \<longleftrightarrow> at_bytes rd s off bs \<and> hosts_fit be br s \<and> th_checksum (si_hdr s) \<noteq> 0 \<and> si_cmd_index s = word_of_nat n"

lemma process_command_ok:
  assumes "reading rd be br s off (enc_cmd be off (with_numbers num c) @ behind) n" "links (si_hash s) n ids num ren"
    and "n < 2 ^ 31" "cmd_fits be ids c" "0 \<notin> ids" "cl_id \<notin> ids"
    and "cb (renamed ren c) x = (0, r, x')" "cl_id \<noteq> 0 \<longrightarrow> r \<noteq> 0"
  shows "\<exists>s'. tgf_stream_in_process_command rd br cb s x = Some (if tc_type c = TGF_ENDOFSTREAM then 1 else 0, s', x') \<and>
    reading rd be br s' (off + length (enc_cmd be off (with_numbers num c))) behind (n + 1) \<and>
    links (si_hash s') (n + 1) (if cl_id = 0 then ids else insert cl_id ids) (num(cl_id := word_of_nat n)) (ren(cl_id := r))"
proof -
  have at: "at_bytes rd s off (enc_cmd be off (with_numbers num c) @ behind)" and h: "hosts_fit be br s"
    and ck: "th_checksum (si_hdr s) \<noteq> 0" and ix: "si_cmd_index s = word_of_nat n" using assms(1) by (simp_all add: reading_def)
  obtain i where i: "0 \<le> i" "tgf_command_check (with_numbers num c) = Some i" using with_numbers_ok(2) [OF assms(4)] by blast
  from read_command_ok [OF at h with_numbers_ok(1) [OF assms(4)] i(2,1) ck] obtain s1 where
    s1: "tgf_read_command rd br s = Some (0, Some (with_numbers num c), s1)"
      "at_bytes rd s1 (off + length (enc_cmd be off (with_numbers num c))) behind" "after_command s s1" by blast
  have tr: "tgf_command_translate_in (si_hash s1) (with_numbers num c) = Some (0, renamed ren c)"
    using command_translate_in [OF assms(4) links_lookup [OF assms(2,3)]] s1(3) by (simp add: after_command_def)
  have ix1: "si_cmd_index s1 - 1 = word_of_nat n" "si_hash s1 = si_hash s" using s1(3) ix by (simp_all add: after_command_def)
  from links_insert [OF assms(2,3,5,6,8)] obtain m' where
    m': "(if r \<noteq> 0 then tgf_map_in_add (si_hash s) (word_of_nat n) r else Some (1, si_hash s)) = Some (1, m')"
      "links m' (n + 1) (if cl_id = 0 then ids else insert cl_id ids) (num(cl_id := word_of_nat n)) (ren(cl_id := r))" by blast
  let ?rv = "if tc_type c = TGF_ENDOFSTREAM then 1 else (0::int)"
  let ?s = "s1\<lparr>si_hash := m', si_err := ?rv\<rparr>"
  have ty: "tc_type (renamed ren c) = tc_type c" by (simp add: renamed_def)
  have "tgf_stream_in_process_command rd br cb s x = Some (?rv, ?s, x')"
    using s1(1) tr assms(7) m'(1) ix1 by (cases "r = 0") (auto simp: tgf_stream_in_process_command_def ty Let_def)
  moreover have "reading rd be br ?s (off + length (enc_cmd be off (with_numbers num c))) behind (n + 1)"
    using s1(2,3) h ck ix by (auto simp: reading_def at_bytes_def hosts_fit_def after_command_def)
  ultimately show ?thesis using m'(2) by auto
qed

lemma process_all_ok:
  "reading rd be br s off (enc_cmds be off (numbered num (word_of_nat n) (cs @ [end_command])) @ behind) n \<Longrightarrow>
    links (si_hash s) n ids num ren \<Longrightarrow> n + length cs + 1 < 2 ^ 31 \<Longrightarrow> client_ok be ids (cs @ [end_command]) \<Longrightarrow> 0 \<notin> ids \<Longrightarrow>
    \<forall>c \<in> set cs. tc_type (fst c) \<noteq> TGF_ENDOFSTREAM \<Longrightarrow> replay cb ren (cs @ [end_command]) x = Some x' \<Longrightarrow>
    \<exists>s'. tgf_stream_in_process_all rd br cb s x = Some (1, s', x')"
proof (induction cs arbitrary: s off num n ids ren x)
  case Nil
  obtain c where c: "end_command = (c, 0)" "tc_type c = TGF_ENDOFSTREAM" by (simp add: end_command_def)
  obtain e r x1 where cb: "cb (renamed ren c) x = (e, r, x1)" by (metis prod.exhaust)
  have "replay cb ren [(c, 0)] x = Some x'" using Nil.prems(7) unfolding c(1) by simp
  then have x1: "e = 0" "x1 = x'" using cb by (auto split: if_splits)
  have rdg: "reading rd be br s off (enc_cmd be off (with_numbers num c) @ behind) n" using Nil.prems(1) unfolding c(1) by simp
  have fits: "cmd_fits be ids c" "n < 2 ^ 31" using Nil.prems(3,4) unfolding c(1) by simp_all
  from process_command_ok [OF rdg Nil.prems(2) fits(2,1) Nil.prems(5,5), of cb x r x1] cb x1 c(2) obtain s' where
    "tgf_stream_in_process_command rd br cb s x = Some (1, s', x')" by auto
  then show ?case by (subst tgf_stream_in_process_all.simps) simp
next
  case (Cons cc cs)
  obtain c cl_id where cc: "cc = (c, cl_id)" by force
  obtain e r x1 where cb: "cb (renamed ren c) x = (e, r, x1)" by (metis prod.exhaust)
  let ?e = "enc_cmd be off (with_numbers num c)" and ?ids = "if cl_id = 0 then ids else insert cl_id ids"
  let ?rest = "enc_cmds be (off + length ?e) (numbered (num(cl_id := word_of_nat n)) (word_of_nat (n + 1)) (cs @ [end_command])) @ behind"
  have x1: "e = 0" "cl_id \<noteq> 0 \<longrightarrow> r \<noteq> 0" "replay cb (ren(cl_id := r)) (cs @ [end_command]) x1 = Some x'"
    using Cons.prems(7) cc cb by (auto split: if_splits)
  have rdg: "reading rd be br s off (?e @ ?rest) n" using Cons.prems(1) cc by (simp add: add.commute)
  have fits: "cmd_fits be ids c" "cl_id \<notin> ids" "client_ok be ?ids (cs @ [end_command])" "n < 2 ^ 31"
    "tc_type c \<noteq> TGF_ENDOFSTREAM" "0 \<notin> ?ids" "(n + 1) + length cs + 1 < 2 ^ 31" "\<forall>c \<in> set cs. tc_type (fst c) \<noteq> TGF_ENDOFSTREAM"
    using Cons.prems(3-6) cc by simp_all
  from process_command_ok [OF rdg Cons.prems(2) fits(4,1) Cons.prems(5) fits(2) _ x1(2), of cb x x1] cb x1(1) fits(5) obtain s1 where
    s1: "tgf_stream_in_process_command rd br cb s x = Some (0, s1, x1)" "reading rd be br s1 (off + length ?e) ?rest (n + 1)"
      "links (si_hash s1) (n + 1) ?ids (num(cl_id := word_of_nat n)) (ren(cl_id := r))" by auto
  from Cons.IH [OF s1(2,3) fits(7,3,6,8) x1(3)] obtain s' where
    "tgf_stream_in_process_all rd br cb s1 x1 = Some (1, s', x')" by blast
  then show ?case using s1(1) by (subst tgf_stream_in_process_all.simps) simp
qed

section \<open>Whole streams\<close>

lemma start_ok:
  assumes "accepts wr content" "content fd = []"
  shows "\<exists>s. tgf_stream_out_start wr be (tgf_stream_out_custom wr fd tgf_stream_out_new) tgf_id = (int (length (take 255 (c_string tgf_id))), s) \<and>
    total content s = header_bytes be 0 0 (word_of_nat (length (take 255 (c_string tgf_id)))) @ take 255 (c_string tgf_id) \<and>
    can_take content n s \<and> writing s {} num 0 \<and> so_fd s \<noteq> None"
proof -
  let ?id = "take 255 (c_string tgf_id)"
  let ?h = "header_bytes be 0 0 (word_of_nat (length ?id))"
  let ?s0 = "tgf_stream_out_custom wr fd tgf_stream_out_new"
  have s0: "can_take content m ?s0" "total content ?s0 = []" "so_compression ?s0 = 0" "?s0\<lparr>so_cmd_index := 0\<rparr> = ?s0" "writing ?s0 {} num 0" "so_fd ?s0 \<noteq> None" for m
    using assms(2) ptr_map.inv_empty
    by (simp_all add: tgf_stream_out_custom_def tgf_stream_out_new_def can_take_def total_def flushed_def writing_def names_def)
  obtain s1 where s1: "tgf_write wr ?s0 ?h = (13, s1)" "emits content (length ?id + n) ?s0 ?h s1"
    using tgf_write_emits [OF assms(1) s0(1), where bs = ?h] by fastforce
  obtain s2 where s2: "tgf_write wr s1 ?id = (int (length ?id), s2)" "emits content n s1 ?id s2"
    using tgf_write_emits [OF assms(1) emits_take [OF s1(2)]] by blast
  have e: "emits content n ?s0 (?h @ ?id) s2" by (rule emits_trans [OF s1(2) s2(2)])
  have len: "(if length (c_string tgf_id) > 255 then 255 else length (c_string tgf_id)) = length ?id" by simp
  have tk: "take (length ?id) (c_string tgf_id) = ?id" by (simp add: min_def)
  have "tgf_stream_out_start wr be ?s0 tgf_id = (int (length ?id), s2)"
    unfolding tgf_stream_out_start_def Let_def len tk s0(3,4) using s1(1) s2(1) by simp
  moreover have "writing s2 {} num 0" by (rule writing_emits [OF s0(5) e])
  ultimately show ?thesis using e s0(2,6) by (auto simp: emits_def so_client_def)
qed

lemma finish_flush:
  assumes "accepts wr content" "so_fd s = Some fd"
  shows "\<exists>rv fd'. out_flush wr s = (rv, s\<lparr>so_fd := Some fd', so_text := [], so_size := TGF_WRITE_BUFSIZE, so_base := 0, so_err := rv\<rparr>) \<and>
    rv \<ge> 0 \<and> content fd' = total content s"
proof -
  obtain rv fd' where w: "wr fd (so_text s) = (rv, fd')" by fastforce
  have a: "rv \<ge> int (length (so_text s))" "content fd' = content fd @ so_text s"
    using assms(1) w unfolding accepts_def by (metis fst_conv, metis snd_conv)
  then show ?thesis using w assms(2)
    by (intro exI [of _ rv] exI [of _ fd']) (simp add: out_flush_def total_def flushed_def)
qed

lemma write_session_ok:
  assumes "accepts wr content" "content fd = []" "client_ok be {} cs"
  shows "\<exists>s fd'. write_session wr be (tgf_stream_out_custom wr fd tgf_stream_out_new) tgf_id cs = Some s \<and> so_fd s = Some fd' \<and>
    content fd' = header_bytes be 0 0 (word_of_nat (length (take 255 (c_string tgf_id)))) @ take 255 (c_string tgf_id) @
      enc_cmds be (13 + length (take 255 (c_string tgf_id))) (numbered num 0 (cs @ [end_command]))"
proof -
  let ?id = "take 255 (c_string tgf_id)"
  let ?h = "header_bytes be 0 0 (word_of_nat (length ?id))"
  let ?n = "length (enc_cmds be (13 + length ?id) (numbered num 0 (cs @ [end_command])))"
  obtain s1 where s1: "tgf_stream_out_start wr be (tgf_stream_out_custom wr fd tgf_stream_out_new) tgf_id = (int (length ?id), s1)"
    "total content s1 = ?h @ ?id" "can_take content (?n + 0) s1" "writing s1 {} num 0" "so_fd s1 \<noteq> None"
    using start_ok [OF assms(1,2)] by blast
  have off: "length (total content s1) = 13 + length ?id" using s1(2) by simp
  have ok: "client_ok be {} (cs @ [end_command])" by (rule client_ok_end [OF assms(3)]) simp
  have ct: "can_take content (length (enc_cmds be (length (total content s1)) (numbered num 0 (cs @ [end_command]))) + 0) s1"
    using s1(3) unfolding off .
  have z: "0 \<notin> ({} :: 32 word set)" by simp
  from write_commands_ok [OF assms(1) s1(4) ok z ct] obtain s3 where
    s3: "write_commands wr be s1 (cs @ [end_command]) = Some s3" "(so_fd s3 = None) = (so_fd s1 = None)"
      "total content s3 = total content s1 @ enc_cmds be (13 + length ?id) (numbered num 0 (cs @ [end_command]))"
    unfolding off by (elim exE conjE) (rule that)
  obtain s2 rv where s2: "write_commands wr be s1 cs = Some s2" "tgf_write_command wr be s2 (fst end_command) 0 = Some (rv, s3)" "rv \<ge> 0"
    using s3(1) by (auto simp: write_commands_append bind_eq_Some_conv end_command_def)
  obtain fd3 where "so_fd s3 = Some fd3" using s3(2) s1(5) by auto
  from finish_flush [OF assms(1) this] obtain rv' fd' where
    f: "out_flush wr s3 = (rv', s3\<lparr>so_fd := Some fd', so_text := [], so_size := TGF_WRITE_BUFSIZE, so_base := 0, so_err := rv'\<rparr>)"
      "rv' \<ge> 0" "content fd' = total content s3" by blast
  let ?s = "s3\<lparr>so_fd := Some fd', so_text := [], so_size := TGF_WRITE_BUFSIZE, so_base := 0, so_err := rv'\<rparr>"
  have "tgf_stream_out_finish wr be s2 = Some (rv', ?s)"
    using s2(2,3) f(1) by (simp add: tgf_stream_out_finish_def end_command_def out_fail_def)
  then have "write_session wr be (tgf_stream_out_custom wr fd tgf_stream_out_new) tgf_id cs = Some ?s"
    using s1(1) s2(1) f(2) by (simp add: write_session_def)
  then show ?thesis using f(3) s3(3) s1(2) by auto
qed

section \<open>Properties\<close>

text \<open>C26. A stream that one client writes, another reads: with any write function that takes what it is
  given, the writer of any acceptable sequence of commands succeeds, and with any read function that
  delivers the bytes written, in pieces of any size, the reader gets the identifier of the stream and
  then, one by one, the same commands with references renamed to its own identifiers, and ends with
  the end of the stream. It holds between hosts of one byte order and from a big-endian to a
  little-endian host.\<close>

theorem tgf_stream_roundtrip:
  assumes "accepts wr content" "content fd = []" "client_ok be {} cs" "br \<longrightarrow> be"
    and "length cs + 1 < 2 ^ 31" "\<forall>c \<in> set cs. tc_type (fst c) \<noteq> TGF_ENDOFSTREAM"
    and "replay cb (\<lambda>_. 0) (cs @ [end_command]) x = Some x'"
  shows "\<exists>s fd'. write_session wr be (tgf_stream_out_custom wr fd tgf_stream_out_new) tgf_id cs = Some s \<and> so_fd s = Some fd' \<and>
    (\<forall>(rd :: 'i read_fn) fdr. delivers rd fdr (content fd') \<longrightarrow>
      (\<exists>s1 s2. tgf_stream_in_start rd br (tgf_stream_in_custom fdr tgf_stream_in_new) = Some (0, s1) \<and>
        th_tgf_id (si_hdr s1) = take 255 (c_string tgf_id) \<and>
        tgf_stream_in_process_all rd br cb s1 x = Some (1, s2, x')))"
proof -
  let ?id = "take 255 (c_string tgf_id)"
  let ?cmds = "enc_cmds be (13 + length ?id) (numbered (\<lambda>_. 0) 0 (cs @ [end_command]))"
  obtain s fd' where w: "write_session wr be (tgf_stream_out_custom wr fd tgf_stream_out_new) tgf_id cs = Some s" "so_fd s = Some fd'"
    "content fd' = header_bytes be 0 0 (word_of_nat (length ?id)) @ ?id @ ?cmds"
    using write_session_ok [OF assms(1-3)] by blast
  have "\<exists>s1 s2. tgf_stream_in_start rd br (tgf_stream_in_custom fdr tgf_stream_in_new) = Some (0, s1) \<and>
      th_tgf_id (si_hdr s1) = ?id \<and> tgf_stream_in_process_all rd br cb s1 x = Some (1, s2, x')"
    if "delivers rd fdr (content fd')" for rd :: "'i read_fn" and fdr
  proof -
    have at: "at_bytes rd (tgf_stream_in_custom fdr tgf_stream_in_new) 0 (header_bytes be 0 0 (word_of_nat (length ?id)) @ ?id @ ?cmds)"
      using that w(3) by (simp add: at_bytes_def tgf_stream_in_custom_def)
    have le: "length ?id \<le> 255" by simp
    from in_start_ok [OF at le assms(4)] obtain s1 where
      s1: "tgf_stream_in_start rd br (tgf_stream_in_custom fdr tgf_stream_in_new) = Some (0, s1)" "at_bytes rd s1 (13 + length ?id) ?cmds"
        "hosts_fit be br s1" "th_checksum (si_hdr s1) = 1" "th_tgf_id (si_hdr s1) = ?id" "si_cmd_index s1 = 0" "si_hash s1 = No_node"
      by (auto simp: tgf_stream_in_custom_def tgf_stream_in_new_def)
    have "reading rd be br s1 (13 + length ?id) (enc_cmds be (13 + length ?id) (numbered (\<lambda>_. 0) (word_of_nat 0) (cs @ [end_command])) @ []) 0"
      using s1 by (simp add: reading_def)
    moreover have "links (si_hash s1) 0 {} (\<lambda>_. 0) (\<lambda>_. 0)" using s1(7) int_map.inv_empty by (simp add: links_def)
    moreover have "client_ok be {} (cs @ [end_command])" by (rule client_ok_end [OF assms(3)]) simp
    ultimately obtain s2 where "tgf_stream_in_process_all rd br cb s1 x = Some (1, s2, x')"
      using process_all_ok [of rd be br s1 _ "\<lambda>_. 0" 0 cs "[]" "{}" "\<lambda>_. 0" cb x x'] assms(5-7) by auto
    then show ?thesis using s1(1,5) by blast
  qed
  then show ?thesis using w(1,2) by blast
qed

text \<open>A client that names two nodes and an arc between them, read in pieces of five bytes.\<close>

definition sample_client :: "(tgf_command \<times> 32 word) list" where
  "sample_client =
    [(\<lparr>tc_type = TGF_GENEL, tc_cnt = 2, tc_args = [Arg_string (Some [97]), Arg_sctype 9]\<rparr>, 100),
     (\<lparr>tc_type = TGF_GENEL, tc_cnt = 3, tc_args = [Arg_string (Some []), Arg_sctype 37, Arg_int32 7]\<rparr>, 200),
     (\<lparr>tc_type = TGF_SETBEG, tc_cnt = 2, tc_args = [Arg_userid 200, Arg_userid 100]\<rparr>, 0)]"

definition take_write :: "byte list write_fn" where
  "take_write fd bs = (int (length bs), fd @ bs)"

definition five_read :: "byte list read_fn" where
  "five_read fd n = (Some (take (min n 5) fd), drop (min n 5) fd)"

lemma five_step:
  assumes "0 < n" "fd \<noteq> []"
  shows "\<exists>k fd'. five_read fd n = (Some (take k fd), fd') \<and> 0 < k \<and> k \<le> n \<and> k \<le> length fd \<and> fd' = drop k fd"
  by (rule exI [of _ "min (min n 5) (length fd)"], rule exI [of _ "drop (min n 5) fd"])
    (use assms in \<open>simp add: five_read_def min_def\<close>)

lemma five_delivers: "delivers five_read fd fd"
proof (coinduction arbitrary: fd)
  case delivers
  show ?case
  proof (cases "fd = []")
    case True
    then show ?thesis by (simp add: five_read_def)
  next
    case False
    then show ?thesis
      by (intro disjI2 exI [of _ fd] conjI allI impI refl) (use five_step in \<open>blast+\<close>)
  qed
qed

text \<open>The reading client gives every element the number of commands it got before, plus one, and keeps
  what it got.\<close>

definition sample_cb :: "tgf_command list tgf_in_cb" where
  "sample_cb c x = (0, word_of_nat (length x + 1), x @ [c])"

lemma sample_checks: "map (tgf_command_check \<circ> fst) sample_client = [Some 0, Some 0, Some 1]"
  by code_simp

lemma sample_refs: "map (ref_types \<circ> fst) sample_client = [[TGF_STRING, TGF_SCTYPE, TGF_NONE], [TGF_STRING, TGF_SCTYPE, TGF_NONE],
    [TGF_USERID, TGF_USERID]]"
  by code_simp

lemma sample_ok: "client_ok False {} sample_client"
  using sample_checks sample_refs by (simp add: sample_client_def cmd_fits_def arg_codes)

lemma sample_replay: "\<exists>out. replay sample_cb (\<lambda>_. 0) (sample_client @ [end_command]) [] = Some out \<and>
    tc_args (out ! 2) = [Arg_userid 2, Arg_userid 1]"
  by (simp add: sample_client_def end_command_def sample_cb_def renamed_def ref_types_def known_args_def known_cmds_def arg_codes)

theorem tgf_stream_roundtrip_witness:
  "\<exists>s fd' s1 s2 out. write_session take_write False (tgf_stream_out_custom take_write [] tgf_stream_out_new) [115, 99] sample_client = Some s \<and>
    so_fd s = Some fd' \<and>
    tgf_stream_in_start five_read False (tgf_stream_in_custom fd' tgf_stream_in_new) = Some (0, s1) \<and>
    tgf_stream_in_process_all five_read False sample_cb s1 [] = Some (1, s2, out) \<and> tc_args (out ! 2) = [Arg_userid 2, Arg_userid 1]"
proof -
  obtain out where out: "replay sample_cb (\<lambda>_. 0) (sample_client @ [end_command]) [] = Some out" "tc_args (out ! 2) = [Arg_userid 2, Arg_userid 1]"
    using sample_replay by blast
  have a: "accepts take_write id" by (simp add: accepts_def take_write_def)
  have l: "length sample_client + 1 < 2 ^ 31" "\<forall>c \<in> set sample_client. tc_type (fst c) \<noteq> TGF_ENDOFSTREAM"
    by (simp_all add: sample_client_def)
  have b: "id [] = []" "False \<longrightarrow> False" by simp_all
  from tgf_stream_roundtrip [OF a b(1) sample_ok b(2) l out(1), of "[115, 99]"] obtain s fd' where
    s: "write_session take_write False (tgf_stream_out_custom take_write [] tgf_stream_out_new) [115, 99] sample_client = Some s" "so_fd s = Some fd'"
    "\<forall>rd fdr. delivers rd fdr (id fd') \<longrightarrow>
      (\<exists>s1 s2. tgf_stream_in_start rd False (tgf_stream_in_custom (fdr :: byte list) tgf_stream_in_new) = Some (0, s1) \<and>
        th_tgf_id (si_hdr s1) = take 255 (c_string [115, 99]) \<and> tgf_stream_in_process_all rd False sample_cb s1 [] = Some (1, s2, out))"
    by (elim exE conjE) (rule that)
  have "delivers five_read fd' (id fd')" using five_delivers by simp
  then show ?thesis using s out(2) by blast
qed

end
