(* ===== verification/Tgf_Io.thy ===== *)
theory Tgf_Io
  imports Tgf_Stream Session_Props Sc_Uri
begin

text \<open>
  Segments as TGF streams (\<open>libsc/libsc/tgf_io.cpp\<close>, \<open>tgf_type_conv_tables.cpp\<close>): the commands written
  for the elements of a segment, through \<open>tgf_write_command\<close>, and the callback that executes the
  commands of a stream in a session. A pointer is an identifier of the stream, so addresses are
  taken modulo \<open>2 ^ 32\<close> as everywhere in the model of TGF. Opening and creating the segment of a path
  are parameters.
\<close>

section \<open>The tables of types\<close>

definition tgf2sc_type_table :: "int list" where
  "tgf2sc_type_table =
    [- 1, - 1, - 1, - 1, - 1, - 1, - 1, - 1, - 1, 65, 66, 68, 72, 4688, 96, - 1, - 1, 129, 130, 132, 136, 4752, 160,
     - 1, - 1, 257, 258, 260, 264, 4880, 288, - 1, - 1, - 1, - 1, - 1, - 1, - 1, - 1, - 1, - 1, - 1, 578, - 1, - 1,
     5200, - 1, - 1, - 1, - 1, 642, - 1, - 1, 5264, - 1, - 1, - 1, - 1, 770, - 1, - 1, 5392, - 1, - 1, - 1, - 1, - 1,
     - 1, - 1, - 1, - 1, - 1, - 1, - 1, 1090, - 1, - 1, 6224, - 1, - 1, - 1, - 1, 1154, - 1, - 1, 6288, - 1, - 1,
     - 1, - 1, 1282, - 1, - 1, 6416, - 1, - 1, - 1, - 1, - 1, - 1, - 1, - 1, - 1, - 1, - 1, - 1, 2114, - 1, - 1, - 1,
     - 1, - 1, - 1, - 1, 2178, - 1, - 1, - 1, - 1, - 1, - 1, - 1, 2306, - 1, - 1, - 1, - 1, - 1, - 1, - 1, - 1, - 1,
     - 1, - 1, - 1, - 1, - 1, - 1, 4162, - 1, - 1, 8784, - 1, - 1, - 1, - 1, 4226, - 1, - 1, 8848, - 1, - 1, - 1,
     - 1, 4354, - 1, - 1, 8976, - 1, - 1, - 1, - 1, - 1, - 1, - 1, - 1, - 1, - 1, - 1, - 1, 8258, - 1, - 1, 9296,
     - 1, - 1, - 1, - 1, 8322, - 1, - 1, 9360, - 1, - 1, - 1, - 1, 8450, - 1, - 1, 9488, - 1, - 1, - 1, - 1, - 1,
     - 1, - 1, - 1, - 1, - 1, - 1, - 1, - 1, - 1, - 1, 10320, - 1, - 1, - 1, - 1, - 1, - 1, - 1, 10384, - 1, - 1,
     - 1, - 1, - 1, - 1, - 1, 10512, - 1, - 1, - 1, - 1, - 1, - 1, - 1, - 1, - 1, - 1, - 1, - 1, 16450, - 1, - 1,
     - 1, - 1, - 1, - 1, - 1, 16514, - 1, - 1, - 1, - 1, - 1, - 1, - 1, 16642]"

text \<open>The entries of the other table that are not \<open>- 1\<close>; it has 16643 entries.\<close>

definition sc2tgf_entries :: "(nat \<times> int) list" where
  "sc2tgf_entries =
    [(65, 9), (66, 10), (68, 11), (72, 12), (96, 14), (129, 17), (130, 18), (132, 19), (136, 20), (160, 22),
     (257, 25), (258, 26), (260, 27), (264, 28), (288, 30), (578, 42), (642, 50), (770, 58), (1090, 74), (1154, 82),
     (1282, 90), (2114, 106), (2178, 114), (2306, 122), (4162, 138), (4226, 146), (4354, 154), (4688, 13),
     (4752, 21), (4880, 29), (5200, 45), (5264, 53), (5392, 61), (6224, 77), (6288, 85), (6416, 93), (8258, 170),
     (8322, 178), (8450, 186), (8784, 141), (8848, 149), (8976, 157), (9296, 173), (9360, 181), (9488, 189),
     (10320, 205), (10384, 213), (10512, 221), (16450, 234), (16514, 242), (16642, 250)]"

definition sc2tgf_type_table :: "nat \<Rightarrow> int option" where
  "sc2tgf_type_table n =
     (if n < 16643 then Some (case map_of sc2tgf_entries n of None \<Rightarrow> - 1 | Some v \<Rightarrow> v) else None)"

text \<open>Neither index is checked: reading outside of a table is \<open>None\<close>.\<close>

definition sc_to_tgf_type :: "sc_type \<Rightarrow> int option" where
  "sc_to_tgf_type type = sc2tgf_type_table (unat (type AND SC_POOR_MASK))"

definition tgf_to_sc_type :: "byte \<Rightarrow> sc_type option" where
  "tgf_to_sc_type tgf_type =
     do {
       ensure (unat tgf_type < length tgf2sc_type_table);
       let type = tgf2sc_type_table ! unat tgf_type;
       ensure (0 \<le> type);
       Some (word_of_int type)
     }"

section \<open>Contents and strings\<close>

definition str_bytes :: "string \<Rightarrow> byte list" where
  "str_bytes s = map (\<lambda>c. word_of_nat (of_char c)) s"

definition bytes_str :: "byte list \<Rightarrow> string" where
  "bytes_str bs = map (\<lambda>b. char_of (unat b)) (c_string bs)"

text \<open>\<open>pm_in_get_content\<close>: the branch of lazy data falls into the abort.\<close>

fun pm_in_get_content :: "tgf_argument \<Rightarrow> content option" where
  "pm_in_get_content (Arg_int32 i) = Some (CInt (scast i))"
| "pm_in_get_content (Arg_int16 i) = Some (CInt (scast (ucast i :: 16 word)))"
| "pm_in_get_content (Arg_data bs) = Some (CData bs)"
| "pm_in_get_content (Arg_string (Some bs)) = Some (CString (c_string bs @ [0]))"
| "pm_in_get_content (Arg_float r) = Some (CReal r)"
| "pm_in_get_content _ = None"

text \<open>\<open>fill_cont_argument\<close>: a string is read up to its first zero, which must be there; data that reaches
  the limit is sent as lazy data under the name of the element.\<close>

definition fill_cont_argument :: "content \<Rightarrow> int \<Rightarrow> byte list \<Rightarrow> tgf_argument option" where
  "fill_cont_argument cont lazy_limit idtf =
     (case cont of
        CString bs \<Rightarrow> do { ensure (0 \<in> set bs); Some (Arg_string (Some bs)) }
      | CInt i \<Rightarrow> Some (Arg_int32 (ucast i))
      | CReal r \<Rightarrow> Some (Arg_float r)
      | CData bs \<Rightarrow> Some (if lazy_limit < 0 \<or> int (length bs) < lazy_limit then Arg_data bs else Arg_lazy_data (Some idtf))
      | CLazy bs \<Rightarrow> Some (Arg_lazy_data (Some idtf))
      | CEmpty \<Rightarrow> None)"

section \<open>Reading\<close>

record io_env =
  ie_md5 :: "bytes \<Rightarrow> bytes"
  ie_depth :: nat
  ie_stat :: "string \<Rightarrow> world \<Rightarrow> (sc_retval \<times> world) option"
  ie_open :: "string \<Rightarrow> world \<Rightarrow> (nat \<times> world) option"
  ie_create :: "string \<Rightarrow> world \<Rightarrow> (nat \<times> world) option"

record extra_data =
  ed_session :: nat
  ed_segment :: nat
  ed_free :: nat
  ed_set :: nat

text \<open>An element that is there must fit: the same constancy, and not a node on one side and an arc on
  the other. Its content is replaced by the one that was read.\<close>

definition pm_in_merge_el :: "io_env \<Rightarrow> nat \<Rightarrow> nat \<Rightarrow> sc_type \<Rightarrow> content \<Rightarrow> world \<Rightarrow> (sc_retval \<times> world) option" where
  "pm_in_merge_el E s addr type cont w =
     do {
       (eltype, w) \<leftarrow> get_type s addr w;
       let t = (eltype XOR type) AND (SC_NODE OR SC_ARC_ACCESSORY);
       (if eltype \<noteq> type \<and> ((eltype XOR type) AND SC_CONSTANCY_MASK \<noteq> 0 \<or> t = SC_NODE OR SC_ARC_ACCESSORY)
        then Some (RV_ERR_GEN, w)
        else do {
          (elcont, w) \<leftarrow> get_content s addr w;
          differ \<leftarrow> (if elcont \<noteq> CEmpty \<and> cont \<noteq> CEmpty then map_option Not (content_eq elcont cont) else Some False);
          (rv, w) \<leftarrow> (if differ \<or> (elcont = CEmpty \<and> cont \<noteq> CEmpty) then set_content (ie_md5 E) s addr cont w else Some (RV_OK, w));
          (if rv \<noteq> RV_OK then Some (RV_ERR_GEN, w)
           else do {
             (rv, w) \<leftarrow> (if eltype \<noteq> type \<and> eltype AND SC_SYNTACTIC_MASK = SC_UNDF then change_type s addr type w else Some (RV_OK, w));
             Some (if rv \<noteq> RV_OK then RV_ERR_GEN else RV_OK, w)
           })
        })
     }"

text \<open>The values of a command \<open>TGF_GENEL\<close>.\<close>

definition genel_values :: "tgf_command \<Rightarrow> (string \<times> sc_type \<times> content) option" where
  "genel_values cmd =
     do {
       a0 \<leftarrow> arg_of cmd 0;
       a1 \<leftarrow> arg_of cmd 1;
       str \<leftarrow> (case a0 of Arg_string (Some bs) \<Rightarrow> Some (bytes_str bs) | _ \<Rightarrow> None);
       type \<leftarrow> (case a1 of Arg_sctype b \<Rightarrow> tgf_to_sc_type b | _ \<Rightarrow> None);
       cont \<leftarrow> (if 2 < tc_cnt cmd then do { a2 \<leftarrow> arg_of cmd 2; pm_in_get_content a2 } else Some CEmpty);
       Some (str, type, cont)
     }"

definition new_named :: "io_env \<Rightarrow> nat \<Rightarrow> nat \<Rightarrow> string \<Rightarrow> sc_type \<Rightarrow> content \<Rightarrow> world \<Rightarrow> (nat \<times> world) option" where
  "new_named E s seg str type cont w =
     do {
       (addr, w) \<leftarrow> create_el s seg type w;
       e \<leftarrow> get_error s w;
       ensure (addr \<noteq> 0 \<and> e = RV_OK);
       w \<leftarrow> (if str \<noteq> [] then map_option snd (set_idtf s addr str w) else Some w);
       (rv, w) \<leftarrow> (if cont \<noteq> CEmpty then set_content (ie_md5 E) s addr cont w else Some (RV_OK, w));
       ensure (rv = RV_OK);
       Some (addr, w)
     }"

text \<open>Commands with the type \<open>0x30\<close> make an element of an undefined type.\<close>

definition malformed_el :: "nat \<Rightarrow> nat \<Rightarrow> string \<Rightarrow> world \<Rightarrow> (nat \<times> world) option" where
  "malformed_el s seg str w =
     do {
       (addr, w) \<leftarrow> find_by_idtf s str seg w;
       (if addr \<noteq> 0 then Some (addr, w)
        else do {
          (addr, w) \<leftarrow> create_el s seg (SC_UNDF OR SC_CONST) w;
          ensure (addr \<noteq> 0);
          (rv, w) \<leftarrow> set_idtf s addr str w;
          ensure (rv = RV_OK);
          Some (addr, w)
        })
     }"

definition collect :: "io_env \<Rightarrow> nat \<Rightarrow> nat \<Rightarrow> world \<Rightarrow> world option" where
  "collect E cset addr w =
     (if cset = 0 then Some w
      else do {
        seg \<leftarrow> addr_seg cset w;
        (rv, _, w) \<leftarrow> gen3_f_a_f (ie_depth E) (wd_system w) cset seg (SC_A_CONST OR SC_POS) addr w;
        ensure (rv = RV_OK);
        Some w
      })"

definition pm_reader_genel :: "io_env \<Rightarrow> tgf_command \<Rightarrow> extra_data \<Rightarrow> world \<Rightarrow> (int \<times> nat \<times> world) option" where
  "pm_reader_genel E cmd d w =
     do {
       let s = ed_session d;
       let seg = ed_segment d;
       (addr, w) \<leftarrow>
         (case (arg_of cmd 0, arg_of cmd 1) of
            (Some (Arg_string (Some bs)), Some (Arg_sctype b)) \<Rightarrow>
              if b = 0x30 then malformed_el s seg (bytes_str bs) w
              else do {
                (str, type, cont) \<leftarrow> genel_values cmd;
                (addr, w) \<leftarrow> find_by_idtf s str seg w;
                (if addr \<noteq> 0 then
                   do { (rv, w) \<leftarrow> pm_in_merge_el E s addr type cont w; ensure (rv = RV_OK); Some (addr, w) }
                 else new_named E s seg str type cont w)
              }
          | _ \<Rightarrow> None);
       w \<leftarrow> collect E (ed_set d) addr w;
       Some (0, addr, w)
     }"

definition pm_reader_declare_seg :: "io_env \<Rightarrow> tgf_command \<Rightarrow> extra_data \<Rightarrow> world \<Rightarrow> (int \<times> nat \<times> extra_data \<times> world) option" where
  "pm_reader_declare_seg E cmd d w =
     (case arg_of cmd 0 of
        Some (Arg_string (Some bs)) \<Rightarrow> do {
          let path = bytes_str bs;
          (rv, w) \<leftarrow> ie_stat E path w;
          (if rv = RV_OK then do {
             (seg, w) \<leftarrow> ie_open E path w;
             ensure (seg \<noteq> 0);
             Some (0, seg, d\<lparr>ed_segment := seg\<rparr>, w)
           } else do {
             (seg, w) \<leftarrow> ie_create E path w;
             Some (if seg = 0 then (- 1, 0, d, w) else (0, seg, d\<lparr>ed_segment := seg\<rparr>, w))
           })
        }
      | _ \<Rightarrow> None)"

text \<open>Identifiers and integers share their storage.\<close>

definition userid_arg :: "tgf_command \<Rightarrow> nat \<Rightarrow> nat option" where
  "userid_arg cmd k = (case arg_of cmd k of Some (Arg_userid u) \<Rightarrow> Some (unat u) | Some (Arg_int32 u) \<Rightarrow> Some (unat u) | _ \<Rightarrow> None)"

text \<open>The callback; a command that is not known aborts.\<close>

definition pm_reader_callback :: "io_env \<Rightarrow> tgf_command \<Rightarrow> extra_data \<Rightarrow> world \<Rightarrow> (int \<times> nat \<times> extra_data \<times> world) option" where
  "pm_reader_callback E cmd d w =
     (let finish = (\<lambda>d w. do { e \<leftarrow> get_error (ed_session d) w; Some (e, 0, d, w) }) in
      case tc_type cmd of
        TGF_NOP \<Rightarrow> finish d w
      | TGF_GENEL \<Rightarrow> do { (rv, cl_id, w) \<leftarrow> pm_reader_genel E cmd d w; Some (rv, cl_id, d, w) }
      | TGF_DECLARE_SEGMENT \<Rightarrow> pm_reader_declare_seg E cmd d w
      | TGF_SWITCH_TO_SEGMENT \<Rightarrow> do {
          u \<leftarrow> userid_arg cmd 0;
          (if u = 2 ^ 32 - 1 then finish (d\<lparr>ed_segment := ed_free d\<rparr>) w
           else do { w \<leftarrow> set_error (ed_session d) RV_OK w; finish (d\<lparr>ed_segment := u\<rparr>) w })
        }
      | TGF_SETBEG \<Rightarrow> do {
          a1 \<leftarrow> userid_arg cmd 0; a2 \<leftarrow> userid_arg cmd 1;
          (_, w) \<leftarrow> set_beg (ed_session d) a1 a2 w;
          finish d w
        }
      | TGF_SETEND \<Rightarrow> do {
          a1 \<leftarrow> userid_arg cmd 0; a2 \<leftarrow> userid_arg cmd 1;
          (_, w) \<leftarrow> set_end (ed_session d) a1 a2 w;
          finish d w
        }
      | TGF_ENDOFSTREAM \<Rightarrow> Some (0, 0, d, w)
      | TGF_FINDBYIDTF \<Rightarrow> None)"

text \<open>As the callback of the reading client of a stream: after an abort nothing more is executed.\<close>

definition reader_cb :: "io_env \<Rightarrow> (extra_data \<times> world) option tgf_in_cb" where
  "reader_cb E cmd x =
     (case x of
        None \<Rightarrow> (- 1, 0, None)
      | Some (d, w) \<Rightarrow>
          (case pm_reader_callback E cmd d w of
             None \<Rightarrow> (- 1, 0, None)
           | Some (rv, cl_id, d, w) \<Rightarrow> (rv, word_of_nat cl_id, Some (d, w))))"

definition read_tgf_to ::
  "io_env \<Rightarrow> 'i read_fn \<Rightarrow> bool \<Rightarrow> 'i tgf_stream_in \<Rightarrow> nat \<Rightarrow> nat \<Rightarrow> nat \<Rightarrow> world \<Rightarrow> (sc_retval \<times> 'i tgf_stream_in \<times> world) option" where
  "read_tgf_to E rd be st s seg collect_set w =
     do {
       (rv, st, x) \<leftarrow> tgf_stream_in_process_all rd be (reader_cb E) st
         (Some (\<lparr>ed_session = s, ed_segment = seg, ed_free = seg, ed_set = collect_set\<rparr>, w));
       (_, w) \<leftarrow> x;
       Some (if rv < 0 then RV_ERR_GEN else RV_OK, st, w)
     }"

section \<open>Writing\<close>

definition command :: "tgf_cmd_type \<Rightarrow> tgf_argument list \<Rightarrow> tgf_command" where
  "command ty args = \<lparr>tc_type = ty, tc_cnt = length args, tc_args = args\<rparr>"

text \<open>A pointer as the identifier of a client.\<close>

definition user_id :: "nat \<Rightarrow> 32 word" where
  "user_id p = word_of_nat p"

section \<open>The stream of elements (\<open>sc_tgf_ostream\<close>)\<close>

text \<open>Errors of the stream are printed, and the member returns.\<close>

definition declare_command :: "nat \<Rightarrow> world \<Rightarrow> tgf_command option" where
  "declare_command seg w = map_option (\<lambda>uri. command TGF_DECLARE_SEGMENT [Arg_string (Some (str_bytes uri))]) (get_full_uri seg w)"

definition os_declare :: "'o write_fn \<Rightarrow> bool \<Rightarrow> nat \<Rightarrow> 'o tgf_stream_out \<Rightarrow> world \<Rightarrow> 'o tgf_stream_out option" where
  "os_declare wr be seg out w =
     do { c \<leftarrow> declare_command seg w; (_, out) \<leftarrow> tgf_write_command wr be out c (user_id seg); Some out }"

definition switch_command :: "32 word \<Rightarrow> tgf_command" where
  "switch_command u = command TGF_SWITCH_TO_SEGMENT [Arg_userid u]"

definition os_switch_to :: "'o write_fn \<Rightarrow> bool \<Rightarrow> 32 word \<Rightarrow> 'o tgf_stream_out \<Rightarrow> 'o tgf_stream_out option" where
  "os_switch_to wr be u out = do { (_, out) \<leftarrow> tgf_write_command wr be out (switch_command u) 0; Some out }"

text \<open>Names of the system, which start with \<open>@@\<close>, are written as empty names.\<close>

definition written_name :: "string \<Rightarrow> string \<Rightarrow> string" where
  "written_name idtf idtf_copy = (if length idtf \<le> 2 \<or> take 2 idtf \<noteq> ''@@'' then idtf_copy else [])"

definition genel_command :: "byte \<Rightarrow> string \<Rightarrow> tgf_argument option \<Rightarrow> tgf_command" where
  "genel_command code idtf cont =
     command TGF_GENEL ([Arg_string (Some (str_bytes idtf)), Arg_sctype code] @ (case cont of None \<Rightarrow> [] | Some a \<Rightarrow> [a]))"

definition content_argument :: "content \<Rightarrow> int \<Rightarrow> string \<Rightarrow> tgf_argument option option" where
  "content_argument c lazy_limit idtf =
     (if c = CEmpty then Some None else map_option Some (fill_cont_argument c lazy_limit (str_bytes idtf)))"

text \<open>The name is asked for twice; the first call makes it.\<close>

definition os_gen_el ::
  "'o write_fn \<Rightarrow> bool \<Rightarrow> nat \<Rightarrow> nat \<Rightarrow> bool \<Rightarrow> 'o tgf_stream_out \<Rightarrow> world \<Rightarrow> ('o tgf_stream_out \<times> world) option" where
  "os_gen_el wr be seg ll write_content out w =
     do {
       type \<leftarrow> sg_get_type ll w;
       code \<leftarrow> sc_to_tgf_type type;
       (if code < 0 then Some (out, w)
        else do {
          (idtf, w) \<leftarrow> sg_get_idtf seg ll w;
          (idtf_copy, w) \<leftarrow> sg_get_idtf seg ll w;
          arg \<leftarrow> (if write_content then do { c \<leftarrow> sg_get_content ll w; content_argument c (- 1) idtf_copy } else Some None);
          a \<leftarrow> sg_get_element_addr ll w;
          (_, out) \<leftarrow> tgf_write_command wr be out (genel_command (word_of_int code) (written_name idtf idtf_copy) arg) (user_id a);
          Some (out, w)
        })
     }"

definition end_command_of :: "tgf_cmd_type \<Rightarrow> nat \<Rightarrow> nat \<Rightarrow> tgf_command" where
  "end_command_of ty arc el = command ty [Arg_userid (user_id arc), Arg_userid (user_id el)]"

definition os_set_ends :: "'o write_fn \<Rightarrow> bool \<Rightarrow> nat \<Rightarrow> 'o tgf_stream_out \<Rightarrow> world \<Rightarrow> 'o tgf_stream_out option" where
  "os_set_ends wr be ll out w =
     do {
       addr \<leftarrow> sg_get_element_addr ll w;
       beg_ll \<leftarrow> sg_get_beg ll w;
       end_ll \<leftarrow> sg_get_end ll w;
       b \<leftarrow> (if beg_ll \<noteq> 0 then sg_get_element_addr beg_ll w else Some 0);
       e \<leftarrow> (if end_ll \<noteq> 0 then sg_get_element_addr end_ll w else Some 0);
       (rv, out) \<leftarrow> (if b \<noteq> 0 then tgf_write_command wr be out (end_command_of TGF_SETBEG addr b) 0 else Some (0, out));
       (if rv < 0 then Some out
        else if e \<noteq> 0 then do { (_, out) \<leftarrow> tgf_write_command wr be out (end_command_of TGF_SETEND addr e) 0; Some out }
        else Some out)
     }"

section \<open>The three passes over a segment\<close>

text \<open>\<open>cur\<close> is what the iterator stands on.\<close>

partial_function (option) write1_loop ::
  "'o write_fn \<Rightarrow> bool \<Rightarrow> nat \<Rightarrow> nat \<Rightarrow> 'o tgf_stream_out \<Rightarrow> world \<Rightarrow> ('o tgf_stream_out \<times> world) option" where
  "write1_loop wr be seg cur out w =
     (if cur = 0 then Some (out, w)
      else do {
        (ll, cur) \<leftarrow> seg_iter_next seg cur w;
        l \<leftarrow> sg_is_link ll w;
        (if l then write1_loop wr be seg cur out w
         else do {
           a \<leftarrow> sg_get_element_addr ll w;
           dead \<leftarrow> (if a = 0 then Some True else addr_is_dead a w);
           (if dead then write1_loop wr be seg cur out w
            else do { (out, w) \<leftarrow> os_gen_el wr be seg ll True out w; write1_loop wr be seg cur out w })
         })
      })"

definition write_segment1 ::
  "'o write_fn \<Rightarrow> bool \<Rightarrow> nat \<Rightarrow> bool \<Rightarrow> 'o tgf_stream_out \<Rightarrow> world \<Rightarrow> ('o tgf_stream_out \<times> world) option" where
  "write_segment1 wr be seg need_freeseg out w =
     do {
       out \<leftarrow> (if need_freeseg then Some out else os_declare wr be seg out w);
       cur \<leftarrow> seg_iter_new seg w;
       write1_loop wr be seg cur out w
     }"

text \<open>The targets of links; \<open>cur_seg\<close> is the segment that the stream is in.\<close>

definition write2_one ::
  "io_env \<Rightarrow> 'o write_fn \<Rightarrow> bool \<Rightarrow> nat \<Rightarrow> nat \<Rightarrow> nat \<Rightarrow> 'o tgf_stream_out \<Rightarrow> world \<Rightarrow> (nat \<times> 'o tgf_stream_out \<times> world) option" where
  "write2_one E wr be ll a cur_seg out w =
     do {
       target \<leftarrow> sg_get_link_target ll w;
       dir \<leftarrow> uri_dirname target;
       (target_seg, w) \<leftarrow> ie_open E dir w;
       (if target_seg = 0 then Some (cur_seg, out, w)
        else do {
          out \<leftarrow> (if cur_seg = target_seg then Some out
                  else if \<not> tgf_stream_out_is_written out (user_id target_seg) then os_declare wr be target_seg out w
                  else os_switch_to wr be (user_id target_seg) out);
          g \<leftarrow> wd_addrs w a;
          (out, w) \<leftarrow> os_gen_el wr be (ga_seg g) (ga_impl g) False out w;
          Some (target_seg, out, w)
        })
     }"

partial_function (option) write2_loop ::
  "io_env \<Rightarrow> 'o write_fn \<Rightarrow> bool \<Rightarrow> nat \<Rightarrow> nat \<Rightarrow> nat \<Rightarrow> 'o tgf_stream_out \<Rightarrow> world \<Rightarrow> ('o tgf_stream_out \<times> world) option" where
  "write2_loop E wr be seg cur cur_seg out w =
     (if cur = 0 then Some (out, w)
      else do {
        (ll, cur) \<leftarrow> links_iter_next seg cur w;
        l \<leftarrow> sg_is_link ll w;
        a \<leftarrow> (if l then sg_get_element_addr ll w else Some 0);
        (if \<not> l \<or> a = 0 \<or> tgf_stream_out_is_written out (user_id a) then write2_loop E wr be seg cur cur_seg out w
         else do {
           (cur_seg, out, w) \<leftarrow> write2_one E wr be ll a cur_seg out w;
           write2_loop E wr be seg cur cur_seg out w
         })
      })"

definition write_segment2 ::
  "io_env \<Rightarrow> 'o write_fn \<Rightarrow> bool \<Rightarrow> nat \<Rightarrow> 'o tgf_stream_out \<Rightarrow> world \<Rightarrow> ('o tgf_stream_out \<times> world) option" where
  "write_segment2 E wr be seg out w = do { cur \<leftarrow> links_iter_new seg w; write2_loop E wr be seg cur 0 out w }"

text \<open>The test for a dead address is a conjunction with the test for a null one, so it dereferences null
  and lets dead addresses pass.\<close>

partial_function (option) write3_loop ::
  "'o write_fn \<Rightarrow> bool \<Rightarrow> nat \<Rightarrow> nat \<Rightarrow> 'o tgf_stream_out \<Rightarrow> world \<Rightarrow> 'o tgf_stream_out option" where
  "write3_loop wr be seg cur out w =
     (if cur = 0 then Some out
      else do {
        (ll, cur) \<leftarrow> seg_iter_next seg cur w;
        l \<leftarrow> sg_is_link ll w;
        arc \<leftarrow> (if l then Some False else map_option (\<lambda>ty. ty AND SC_CONNECTOR_MASK \<noteq> 0) (sg_get_type ll w));
        (if \<not> arc then write3_loop wr be seg cur out w
         else do {
           a \<leftarrow> sg_get_element_addr ll w;
           ensure (a \<noteq> 0);
           out \<leftarrow> os_set_ends wr be ll out w;
           write3_loop wr be seg cur out w
         })
      })"

definition write_segment3 :: "'o write_fn \<Rightarrow> bool \<Rightarrow> nat \<Rightarrow> 'o tgf_stream_out \<Rightarrow> world \<Rightarrow> 'o tgf_stream_out option" where
  "write_segment3 wr be seg out w = do { cur \<leftarrow> seg_iter_new seg w; write3_loop wr be seg cur out w }"

definition write_to ::
  "io_env \<Rightarrow> 'o write_fn \<Rightarrow> bool \<Rightarrow> nat \<Rightarrow> bool \<Rightarrow> 'o tgf_stream_out \<Rightarrow> world \<Rightarrow> ('o tgf_stream_out \<times> world) option" where
  "write_to E wr be seg need_freeseg out w =
     do {
       (out, w) \<leftarrow> write_segment1 wr be seg need_freeseg out w;
       (out, w) \<leftarrow> write_segment2 E wr be seg out w;
       out \<leftarrow> write_segment3 wr be seg out w;
       Some (out, w)
     }"

section \<open>Writing elements one by one (\<open>pm_writer\<close>)\<close>

text \<open>\<open>pw_arcs\<close> is the map of arcs whose ends are still to be written, in the order of their addresses.\<close>

record 'o pm_writer =
  pw_stream :: "'o tgf_stream_out"
  pw_sess :: nat
  pw_free :: nat
  pw_cur :: nat
  pw_arcs :: "(nat \<times> nat \<times> nat) list"
  pw_limit :: int

definition pm_writer_new :: "nat \<Rightarrow> 'o tgf_stream_out \<Rightarrow> nat \<Rightarrow> 'o pm_writer" where
  "pm_writer_new session s free =
     \<lparr>pw_stream = s, pw_sess = session, pw_free = free, pw_cur = free, pw_arcs = [], pw_limit = - 1\<rparr>"

text \<open>A command that can not be written aborts.\<close>

definition pw_command :: "'o write_fn \<Rightarrow> bool \<Rightarrow> tgf_command \<Rightarrow> 32 word \<Rightarrow> 'o pm_writer \<Rightarrow> 'o pm_writer option" where
  "pw_command wr be c u p =
     do { (rv, s) \<leftarrow> tgf_write_command wr be (pw_stream p) c u; ensure (0 \<le> rv); Some (p\<lparr>pw_stream := s\<rparr>) }"

definition go_to_segment :: "'o write_fn \<Rightarrow> bool \<Rightarrow> nat \<Rightarrow> 'o pm_writer \<Rightarrow> world \<Rightarrow> 'o pm_writer option" where
  "go_to_segment wr be s p w =
     (if s = pw_free p then pw_command wr be (switch_command (- 1)) 0 p
      else if \<not> tgf_stream_out_is_written (pw_stream p) (user_id s) then
        do { c \<leftarrow> declare_command s w; pw_command wr be c (user_id s) p }
      else pw_command wr be (switch_command (user_id s)) 0 p)"

definition pw_write_el :: "'o write_fn \<Rightarrow> bool \<Rightarrow> nat \<Rightarrow> sc_type \<Rightarrow> content \<Rightarrow> 'o pm_writer \<Rightarrow> world \<Rightarrow> ('o pm_writer \<times> world) option" where
  "pw_write_el wr be el type cont p w =
     do {
       seg \<leftarrow> addr_seg el w;
       p \<leftarrow> (if pw_cur p \<noteq> seg then map_option (\<lambda>p. p\<lparr>pw_cur := seg\<rparr>) (go_to_segment wr be seg p w) else Some p);
       code \<leftarrow> sc_to_tgf_type type;
       ensure (0 \<le> code);
       (idtf, w) \<leftarrow> get_idtf (pw_sess p) el w;
       arg \<leftarrow> content_argument cont (pw_limit p) idtf;
       p \<leftarrow> pw_command wr be (genel_command (word_of_int code) idtf arg) (user_id el) p;
       Some (p, w)
     }"

text \<open>The ends of an arc are written before it; an arc that is its own end never comes back.\<close>

partial_function (option) pw_write ::
  "'o write_fn \<Rightarrow> bool \<Rightarrow> nat \<Rightarrow> 'o pm_writer \<Rightarrow> world \<Rightarrow> (sc_retval \<times> 'o pm_writer \<times> world) option" where
  "pw_write wr be el p w =
     (if tgf_stream_out_is_written (pw_stream p) (user_id el) then Some (RV_OK, p, w)
      else do {
        (type, w) \<leftarrow> get_type (pw_sess p) el w;
        (cont, w) \<leftarrow> get_content (pw_sess p) el w;
        e \<leftarrow> get_error (pw_sess p) w;
        (if e \<noteq> RV_OK then Some (e, p, w)
         else do {
           (p, w) \<leftarrow>
             (if type AND SC_CONNECTOR_MASK = 0 then Some (p, w)
              else do {
                ensure (map_of (pw_arcs p) el = None);
                (b, w) \<leftarrow> get_beg (pw_sess p) el w;
                (d, w) \<leftarrow> get_end (pw_sess p) el w;
                (_, p, w) \<leftarrow> (if b \<noteq> 0 then pw_write wr be b p w else Some (RV_OK, p, w));
                (_, p, w) \<leftarrow> (if d \<noteq> 0 then pw_write wr be d p w else Some (RV_OK, p, w));
                Some (if map_of (pw_arcs p) el = None then p\<lparr>pw_arcs := insort_key fst (el, b, d) (pw_arcs p)\<rparr> else p, w)
              });
           (p, w) \<leftarrow> pw_write_el wr be el type cont p w;
           Some (RV_OK, p, w)
         })
      })"

text \<open>The map is cleared only when all commands could be written.\<close>

fun sync_loop :: "'o write_fn \<Rightarrow> bool \<Rightarrow> (nat \<times> nat \<times> nat) list \<Rightarrow> 'o tgf_stream_out \<Rightarrow> (bool \<times> 'o tgf_stream_out) option" where
  "sync_loop wr be [] s = Some (True, s)"
| "sync_loop wr be ((arc, b, e) # as) s =
     do {
       (rv, s) \<leftarrow> (if b \<noteq> 0 \<and> tgf_stream_out_is_written s (user_id b)
                    then tgf_write_command wr be s (end_command_of TGF_SETBEG arc b) 0 else Some (0, s));
       (if rv < 0 then Some (False, s)
        else do {
          (rv, s) \<leftarrow> (if e \<noteq> 0 \<and> tgf_stream_out_is_written s (user_id e)
                       then tgf_write_command wr be s (end_command_of TGF_SETEND arc e) 0 else Some (0, s));
          (if rv < 0 then Some (False, s) else sync_loop wr be as s)
        })
     }"

definition arc_sync :: "'o write_fn \<Rightarrow> bool \<Rightarrow> 'o pm_writer \<Rightarrow> (sc_retval \<times> 'o pm_writer) option" where
  "arc_sync wr be p =
     do {
       (ok, s) \<leftarrow> sync_loop wr be (pw_arcs p) (pw_stream p);
       Some (if ok then (RV_OK, p\<lparr>pw_stream := s, pw_arcs := []\<rparr>) else (RV_ERR_GEN, p\<lparr>pw_stream := s\<rparr>))
     }"

section \<open>Dumps in memory\<close>

definition tgfout_write_cust :: "byte list write_fn" where
  "tgfout_write_cust mem buf = (int (length buf), mem @ buf)"

definition tgf2mem_dumper_new :: "bool \<Rightarrow> int \<times> byte list tgf_stream_out" where
  "tgf2mem_dumper_new be =
     tgf_stream_out_start tgfout_write_cust be (tgf_stream_out_custom tgfout_write_cust [] tgf_stream_out_new) (str_bytes ''from_PM!'')"

section \<open>What is read is what was written\<close>

lemma entries_match:
  "list_all (\<lambda>(n, v). 0 \<le> v \<and> v < 251 \<and> tgf2sc_type_table ! nat v = int n \<and> n < 16643) sc2tgf_entries"
  by (simp add: sc2tgf_entries_def tgf2sc_type_table_def)

lemma table_length: "length tgf2sc_type_table = 251"
  by (simp add: tgf2sc_type_table_def)

lemma type_back:
  assumes "sc_to_tgf_type ty = Some code" "0 \<le> code"
  shows "tgf_to_sc_type (word_of_int code) = Some (ty AND SC_POOR_MASK)"
proof -
  let ?n = "unat (ty AND SC_POOR_MASK)"
  obtain v where v: "map_of sc2tgf_entries ?n = Some v" "code = v"
    using assms by (auto simp: sc_to_tgf_type_def sc2tgf_type_table_def split: if_splits option.splits)
  then have "(?n, v) \<in> set sc2tgf_entries" by (meson map_of_SomeD)
  then have e: "0 \<le> v" "v < 251" "tgf2sc_type_table ! nat v = int ?n" using entries_match by (auto simp: list_all_iff)
  have "unat (word_of_int v :: byte) = nat v" using e(1,2)
    by (simp add: unat_eq_nat_uint uint_word_of_int_eq take_bit_int_eq_self)
  then show ?thesis using v(2) e by (simp add: tgf_to_sc_type_def table_length)
qed

lemma byte_of_char:
  "unat (word_of_nat (of_char c) :: byte) = of_char c" "(word_of_nat (of_char c) :: byte) = 0 \<longleftrightarrow> c = CHR 0x00"
proof -
  have l: "(of_char c :: nat) < 2 ^ 8" using nat_of_char_less_256 [of c] by simp
  show u: "unat (word_of_nat (of_char c) :: byte) = of_char c" using l by (simp add: unsigned_of_nat take_bit_nat_eq_self)
  have "(word_of_nat (of_char c) :: byte) = 0 \<longleftrightarrow> (of_char c :: nat) = 0" using u by (metis unat_eq_zero)
  also have "\<dots> \<longleftrightarrow> c = CHR 0x00" using of_char_eq_iff [of c "CHR 0x00", where 'a = nat] by simp
  finally show "(word_of_nat (of_char c) :: byte) = 0 \<longleftrightarrow> c = CHR 0x00" .
qed

lemma bytes_of_str: "bytes_str (str_bytes s) = takeWhile (\<lambda>c. c \<noteq> CHR 0x00) s"
  by (induction s) (simp_all add: bytes_str_def str_bytes_def c_string_def byte_of_char)

text \<open>Contents that survive: strings of the usual form, integers of 32 bits, doubles and data.\<close>

fun portable :: "content \<Rightarrow> bool" where
  "portable (CString bs) \<longleftrightarrow> bs \<noteq> [] \<and> last bs = 0 \<and> 0 \<notin> set (butlast bs)"
| "portable (CInt i) \<longleftrightarrow> (scast (ucast i :: 32 word) :: 64 word) = i"
| "portable (CLazy bs) \<longleftrightarrow> False"
| "portable _ \<longleftrightarrow> True"

lemma content_back:
  assumes "content_argument c (- 1) idtf = Some (Some a)" "portable c"
  shows "pm_in_get_content a = Some c"
proof (cases c)
  case (CString bs)
  then have bs: "bs = butlast bs @ [0]" "0 \<notin> set (butlast bs)" using assms(2) append_butlast_last_id [of bs] by auto
  then have "c_string bs = butlast bs" by (simp add: c_string_def) (metis (mono_tags, lifting) bs takeWhile.simps takeWhile_append2 append_Nil2)
  then show ?thesis using assms(1) CString bs(1) by (auto simp: content_argument_def fill_cont_argument_def split: if_splits)
qed (use assms in \<open>auto simp: content_argument_def fill_cont_argument_def\<close>)

text \<open>What the reader takes from the optional third argument.\<close>

definition content_read :: "tgf_argument option \<Rightarrow> content option" where
  "content_read arg = (case arg of None \<Rightarrow> Some CEmpty | Some a \<Rightarrow> pm_in_get_content a)"

lemma content_argument_read:
  assumes "portable c"
  shows "\<exists>arg. content_argument c (- 1) idtf = Some arg \<and> content_read arg = Some c"
proof (cases "c = CEmpty")
  case False
  have "\<exists>a. content_argument c (- 1) idtf = Some (Some a)"
  proof (cases c)
    case (CString bs)
    then have "0 \<in> set bs" using assms last_in_set [of bs] by auto
    then show ?thesis using CString by (simp add: content_argument_def fill_cont_argument_def)
  qed (use assms False in \<open>auto simp: content_argument_def fill_cont_argument_def\<close>)
  then show ?thesis using content_back [OF _ assms] by (auto simp: content_read_def)
qed (simp add: content_argument_def content_read_def)

lemma written_name_chars: "CHR 0x00 \<notin> set idtf \<Longrightarrow> CHR 0x00 \<notin> set (written_name idtf idtf)"
  by (simp add: written_name_def)

lemma genel_command_values:
  assumes "sc_to_tgf_type ty = Some code" "0 \<le> code" "CHR 0x00 \<notin> set idtf" "content_read arg = Some c"
  shows "genel_values (renamed ren (genel_command (word_of_int code) idtf arg)) = Some (idtf, ty AND SC_POOR_MASK, c)"
proof -
  have str: "bytes_str (str_bytes idtf) = idtf" unfolding bytes_of_str using assms(3) by (auto simp: takeWhile_eq_all_conv)
  note ty = type_back [OF assms(1,2)]
  have ref: "ref_arg f t (Arg_string x) = Arg_string x" "ref_arg f t (Arg_sctype b) = Arg_sctype b" for f t x b by simp_all
  have refs: "ref_types (genel_command b s a) = [TGF_STRING, TGF_SCTYPE, TGF_NONE]" for b s a
    by (simp add: ref_types_def genel_command_def command_def known_args_def find_cmd.simps known_cmds_def)
  have none: "ref_arg f TGF_NONE a = a" for f a by (cases a) (simp_all add: TGF_NONE_def TGF_USERID_def)
  show ?thesis
    using str ty none assms(4)
    by (cases arg) (simp_all add: genel_values_def renamed_def refs arg_of_def content_read_def, simp_all add: genel_command_def command_def)
qed

text \<open>Asking for the name again gives the same name and changes nothing.\<close>

lemma get_idtf_again:
  assumes "st_els w ll = Some e" "sg_get_idtf seg ll w = Some (idtf, w1)"
  shows "sg_get_idtf seg ll w1 = Some (idtf, w1) \<and>
    (\<exists>e1. st_els w1 ll = Some e1 \<and> el_is_link e1 = el_is_link e \<and> el_cont e1 = el_cont e \<and> el_addr e1 = el_addr e)"
proof (cases "el_has_idtf e")
  case True
  then show ?thesis using assms by (auto simp: sg_get_idtf_def split: if_splits)
next
  case False
  then obtain e1 where e1: "generate_idtf seg ll w = Some w1" "st_els w1 ll = Some e1" "idtf = el_idtf e1" "\<not> el_is_link e"
    using assms by (auto simp: sg_get_idtf_def bind_Some_iff split: if_splits)
  then obtain str where "e1 = el_set_idtf str e"
    using assms(1) by (auto simp: generate_idtf_def Let_def case_prod_beta upd_seg_def upd_el_def bind_Some_iff)
  moreover have "el_addr (el_set_idtf str e) = el_addr e" for str by (simp add: el_set_idtf_def el_unset_flags_def)
  ultimately show ?thesis using e1 by (simp add: sg_get_idtf_def)
qed

lemma os_gen_el_command:
  assumes "st_els w ll = Some e" "\<not> el_is_link e" "sc_to_tgf_type (el_type e) = Some code" "0 \<le> code"
    and "sg_get_idtf seg ll w = Some (idtf, w1)"
    and "(if wc then content_argument (el_cont e) (- 1) idtf else Some None) = Some arg"
  shows "os_gen_el wr be seg ll wc out w =
    do { (_, out) \<leftarrow> tgf_write_command wr be out (genel_command (word_of_int code) (written_name idtf idtf) arg) (user_id (el_addr e));
      Some (out, w1) }"
proof -
  obtain e1 where e1: "sg_get_idtf seg ll w1 = Some (idtf, w1)" "st_els w1 ll = Some e1" "\<not> el_is_link e1"
    "el_cont e1 = el_cont e" "el_addr e1 = el_addr e"
    using get_idtf_again [OF assms(1,5)] assms(2) by auto
  have "(if wc then do { c \<leftarrow> sg_get_content ll w1; content_argument c (- 1) idtf } else Some None) = Some arg"
    using assms(6) e1 by (simp add: sg_get_content_def cong: if_cong)
  then show ?thesis
    using assms e1 by (simp add: os_gen_el_def sg_get_type_def sg_get_element_addr_def cong: if_cong)
qed

section \<open>Properties\<close>

text \<open>C27. A dumped element is read back as it was. For an element that is no link, whose name has no
  zero character and whose content is portable, \<open>gen_el\<close> writes nothing when the table of types gives
  its type no code; otherwise it writes one command \<open>TGF_GENEL\<close>, for the address of the element, from
  which the reader gets the type up to \<open>SC_POOR_MASK\<close>, the name, or the empty name for a name of the
  system (longer than two characters and beginning with \<open>@@\<close>), and the content when \<open>gen_el\<close> is asked
  to write it, otherwise the empty content, whatever the stream makes of identifiers.\<close>

theorem genel_roundtrip:
  assumes "st_els w ll = Some e" "\<not> el_is_link e" "sc_to_tgf_type (el_type e) = Some code"
    and "sg_get_idtf seg ll w = Some (idtf, w1)" "CHR 0x00 \<notin> set idtf" "portable (el_cont e)"
  shows "if code < 0 then \<forall>(wr :: 'o write_fn) be out. os_gen_el wr be seg ll wc out w = Some (out, w)
    else \<exists>cmd.
      (\<forall>(wr :: 'o write_fn) be out. os_gen_el wr be seg ll wc out w =
        do { (_, out) \<leftarrow> tgf_write_command wr be out cmd (user_id (el_addr e)); Some (out, w1) }) \<and>
      (\<forall>ren. genel_values (renamed ren cmd) =
        Some (if 2 < length idtf \<and> take 2 idtf = ''@@'' then [] else idtf,
          el_type e AND SC_POOR_MASK, if wc then el_cont e else CEmpty))"
proof (cases "code < 0")
  case True
  then show ?thesis using assms(1-3) by (simp add: os_gen_el_def sg_get_type_def)
next
  case False
  obtain arg where arg: "(if wc then content_argument (el_cont e) (- 1) idtf else Some None) = Some arg"
    "content_read arg = Some (if wc then el_cont e else CEmpty)"
    using content_argument_read [OF assms(6), of idtf] by (cases wc) (auto intro: that simp: content_read_def)
  let ?cmd = "genel_command (word_of_int code) (written_name idtf idtf) arg"
  have cmd: "os_gen_el wr be seg ll wc out w =
      do { (_, out) \<leftarrow> tgf_write_command wr be out ?cmd (user_id (el_addr e)); Some (out, w1) }" for wr :: "'o write_fn" and be out
    using os_gen_el_command [OF assms(1,2,3) _ assms(4) arg(1)] False by simp
  have vals: "genel_values (renamed ren ?cmd) =
      Some (written_name idtf idtf, el_type e AND SC_POOR_MASK, if wc then el_cont e else CEmpty)" for ren
    using genel_command_values [OF assms(3) _ _ arg(2)] written_name_chars [OF assms(5)] False by simp
  have name: "(if 2 < length idtf \<and> take 2 idtf = ''@@'' then [] else idtf) = written_name idtf idtf"
    by (auto simp: written_name_def)
  show ?thesis unfolding if_not_P [OF False] name by (intro exI [of _ ?cmd] conjI allI cmd vals)
qed

text \<open>A world with a named node that has a content.\<close>

definition dump_world :: world where
  "dump_world = small_world\<lparr>st_els := (st_els small_world)(2 \<mapsto>
     (new_element SC_N_CONST 0)\<lparr>el_idtf := ''a'', el_cont := CString [104, 105, 0], el_addr := 7\<rparr>)\<rparr>"

theorem genel_roundtrip_witness:
  "\<exists>cmd. (\<forall>(wr :: unit write_fn) be out. os_gen_el wr be 1 2 True out dump_world =
      do { (_, out) \<leftarrow> tgf_write_command wr be out cmd 7; Some (out, dump_world) }) \<and>
    genel_values (renamed (\<lambda>_. 5) cmd) = Some (''a'', SC_N_CONST, CString [104, 105, 0])"
proof -
  let ?e = "(new_element SC_N_CONST 0)\<lparr>el_idtf := ''a'', el_cont := CString [104, 105, 0], el_addr := 7\<rparr>"
  have p: "SC_N_CONST AND SC_POOR_MASK = SC_N_CONST" "unat (SC_N_CONST AND SC_POOR_MASK) = 66" by (simp_all add: sc_masks)
  then have c: "sc_to_tgf_type SC_N_CONST = Some 10" by (simp add: sc_to_tgf_type_def sc2tgf_type_table_def sc2tgf_entries_def)
  have e: "st_els dump_world 2 = Some ?e" "\<not> el_is_link ?e" "el_has_idtf ?e" "el_type ?e = SC_N_CONST"
    "el_cont ?e = CString [104, 105, 0]" "el_addr ?e = 7"
    by (simp_all add: dump_world_def is_link_bit has_idtf_bit new_element_def)
  then have "sg_get_idtf 1 2 dump_world = Some (''a'', dump_world)" by (simp add: sg_get_idtf_def)
  moreover have "CHR 0x00 \<notin> set ''a''" "portable (el_cont ?e)" using e(5) by simp_all
  moreover have "sc_to_tgf_type (el_type ?e) = Some 10" using c e(4) by simp
  ultimately obtain cmd where cmd:
    "\<forall>(wr :: unit write_fn) be out. os_gen_el wr be 1 2 True out dump_world =
      do { (_, out) \<leftarrow> tgf_write_command wr be out cmd (user_id (el_addr ?e)); Some (out, dump_world) }"
    "\<forall>ren. genel_values (renamed ren cmd) = Some (''a'', SC_N_CONST, CString [104, 105, 0])"
    using genel_roundtrip [OF e(1,2), of 10 1 "''a''" dump_world True, where 'o = unit] e(4,5) p(1) by auto
  have u: "user_id (el_addr ?e) = 7" using e(6) by (simp add: user_id_def)
  show ?thesis by (rule exI [of _ cmd], rule conjI, rule cmd(1) [unfolded u], rule cmd(2) [rule_format])
qed

text \<open>The table of types is read outside of its bounds: there are types that \<open>verify_type\<close> accepts as
  they are, so that elements of these types can be created, and that are larger than the table.\<close>

theorem type_outside_table:
  "verify_type (SC_ARC_MAIN OR SC_ABSTRACT) = SC_ARC_MAIN OR SC_ABSTRACT \<and> SC_ARC_MAIN OR SC_ABSTRACT \<noteq> 0 \<and>
   sc_to_tgf_type (SC_ARC_MAIN OR SC_ABSTRACT) = None"
  by (simp add: verify_type_def sc_type_add_default_def sc_isa_def sc_to_tgf_type_def sc2tgf_type_table_def sc_masks)

end
