(* ===== verification/Custom_Iter.thy ===== *)
theory Custom_Iter
  imports Constr_World
begin

text \<open>
  The iterators that are not programs (\<open>libsc/libsc/custom_iters.cpp\<close>): the search for an arc of a
  tuple with a given attribute (\<open>std5_f_a_a_a_f\<close>) and the elements of a segment (\<open>std_on_segment\<close>).
  Both read segments directly and hold references while they stand on an element. In a quiet memory
  they give all their answers, in order, and every reference back.
\<close>

section \<open>The search for an attributed arc\<close>

record std5_iter =
  s5_e1 :: nat
  s5_e2 :: nat
  s5_e3 :: nat
  s5_e4 :: nat
  s5_e5 :: nat
  s5_t2 :: sc_type
  s5_t3 :: sc_type
  s5_t4 :: sc_type
  s5_out :: meta_iter
  s5_in :: "meta_iter option"
  s5_session :: nat
  s5_over :: bool

text \<open>The tests of one round of \<open>e2_loop\<close> and of \<open>e1_loop\<close>, which asks the segments of the arcs; the
  latter stores \<open>e3\<close> before it looks at it.\<close>

definition e4_fits :: "std5_iter \<Rightarrow> world \<Rightarrow> bool option" where
  "e4_fits it w =
     do {
       g \<leftarrow> wd_addrs w (s5_e4 it);
       t \<leftarrow> sg_get_type (ga_impl g) w;
       (if \<not> check_sc_type_raw t (s5_t4 it) then Some False
        else do {
          ll \<leftarrow> sg_get_beg (ga_impl g) w;
          (if ll = 0 then Some False else do { b \<leftarrow> sg_get_element_addr ll w; Some (b = s5_e5 it) })
        })
     }"

definition e2_fits :: "std5_iter \<Rightarrow> world \<Rightarrow> (bool \<times> std5_iter) option" where
  "e2_fits it w =
     do {
       g \<leftarrow> wd_addrs w (s5_e2 it);
       t \<leftarrow> sg_get_type (ga_impl g) w;
       (if \<not> check_sc_type_raw t (s5_t2 it) then Some (False, it)
        else do {
          ll \<leftarrow> sg_get_end (ga_impl g) w;
          (if ll = 0 then Some (False, it)
           else do {
             e3 \<leftarrow> sg_get_element_addr ll w;
             let it = it\<lparr>s5_e3 := e3\<rparr>;
             (if e3 = 0 then Some (False, it)
              else do {
                g3 \<leftarrow> wd_addrs w e3;
                b \<leftarrow> session_opened (s5_session it) (ga_seg g3) w;
                (if \<not> b then Some (False, it)
                 else do { t \<leftarrow> sg_get_type (ga_impl g3) w; Some (check_sc_type_raw t (s5_t3 it), it) })
              })
           })
        })
     }"

partial_function (option) e2_loop :: "std5_iter \<Rightarrow> world \<Rightarrow> (bool \<times> std5_iter \<times> world) option" where
  "e2_loop it w =
     do {
       m \<leftarrow> s5_in it;
       (if meta_is_over m then Some (False, it, w)
        else do {
          let it = it\<lparr>s5_e4 := meta_value m 1\<rparr>;
          b \<leftarrow> e4_fits it w;
          (if b then Some (True, it, w)
           else do { (_, m, w) \<leftarrow> meta_next End m w; e2_loop (it\<lparr>s5_in := Some m\<rparr>) w })
        })
     }"

definition drop_input :: "std5_iter \<Rightarrow> world \<Rightarrow> (std5_iter \<times> world) option" where
  "drop_input it w =
     do {
       m \<leftarrow> s5_in it;
       w \<leftarrow> meta_delete m w;
       w \<leftarrow> addr_unref (s5_e3 it) w;
       Some (it\<lparr>s5_in := None\<rparr>, w)
     }"

definition out_step :: "std5_iter \<Rightarrow> world \<Rightarrow> (std5_iter \<times> world) option" where
  "out_step it w = do { (_, m, w) \<leftarrow> meta_next Beg (s5_out it) w; Some (it\<lparr>s5_out := m\<rparr>, w) }"

partial_function (option) e1_loop :: "std5_iter \<Rightarrow> world \<Rightarrow> (std5_iter \<times> world) option" where
  "e1_loop it w =
     (if meta_is_over (s5_out it) then Some (it\<lparr>s5_over := True\<rparr>, w)
      else do {
        (ok, it) \<leftarrow> e2_fits (it\<lparr>s5_e2 := meta_value (s5_out it) 1\<rparr>) w;
        (if \<not> ok then do { (it, w) \<leftarrow> out_step it w; e1_loop it w }
         else do {
           w \<leftarrow> addr_ref (s5_e3 it) w;
           (m, w) \<leftarrow> meta_new End (s5_e2 it) (s5_session it) w;
           (found, it, w) \<leftarrow> e2_loop (it\<lparr>s5_in := Some m\<rparr>) w;
           (if found then Some (it, w)
            else do {
              (it, w) \<leftarrow> drop_input it w;
              (it, w) \<leftarrow> out_step it w;
              e1_loop it w
            })
         })
      })"

text \<open>The factory with the constructor; \<open>next\<close>, \<open>value\<close>, \<open>is_over\<close> is the field, and the destructor.\<close>

definition std5_f_a_a_a_f :: "nat \<Rightarrow> nat \<Rightarrow> sc_type \<Rightarrow> sc_type \<Rightarrow> sc_type \<Rightarrow> nat \<Rightarrow> world \<Rightarrow> (std5_iter \<times> world) option" where
  "std5_f_a_a_a_f ss e1 t2 t3 t4 e5 w =
     do {
       w \<leftarrow> addr_ref e5 w;
       (m, w) \<leftarrow> meta_new Beg e1 ss w;
       e1_loop \<lparr>s5_e1 = e1, s5_e2 = 0, s5_e3 = 0, s5_e4 = 0, s5_e5 = e5, s5_t2 = sc_type_extend_mask t2,
         s5_t3 = sc_type_extend_mask t3, s5_t4 = sc_type_extend_mask t4, s5_out = m, s5_in = None,
         s5_session = ss, s5_over = False\<rparr> w
     }"

definition std5_next :: "std5_iter \<Rightarrow> world \<Rightarrow> (sc_retval \<times> std5_iter \<times> world) option" where
  "std5_next it w =
     (if s5_over it then Some (RV_ELSE_GEN, it, w)
      else do {
        m \<leftarrow> s5_in it;
        (_, m, w) \<leftarrow> meta_next End m w;
        (found, it, w) \<leftarrow> e2_loop (it\<lparr>s5_in := Some m\<rparr>) w;
        (if found then Some (RV_OK, it, w)
         else do {
           (it, w) \<leftarrow> drop_input it w;
           (it, w) \<leftarrow> out_step it w;
           (it, w) \<leftarrow> e1_loop it w;
           Some (if s5_over it then RV_ELSE_GEN else RV_OK, it, w)
         })
      })"

definition std5_value :: "std5_iter \<Rightarrow> nat \<Rightarrow> nat" where
  "std5_value it num =
     (if s5_over it \<or> 4 < num then 0 else [s5_e1 it, s5_e2 it, s5_e3 it, s5_e4 it, s5_e5 it] ! num)"

definition std5_delete :: "std5_iter \<Rightarrow> world \<Rightarrow> world option" where
  "std5_delete it w =
     do {
       w \<leftarrow> (case s5_in it of None \<Rightarrow> Some w
               | Some m \<Rightarrow> do { w \<leftarrow> addr_unref (s5_e3 it) w; meta_delete m w });
       w \<leftarrow> meta_delete (s5_out it) w;
       addr_unref (s5_e5 it) w
     }"

section \<open>The elements of a segment\<close>

record seg_el_iter =
  si_cursor :: nat
  si_foreign :: bool
  si_session :: nat
  si_val :: nat
  si_seg :: nat

text \<open>The segment's iterator is its cursor; \<open>seg_iter_next\<close> gives the element and the new cursor.\<close>

partial_function (option) on_segment_loop :: "seg_el_iter \<Rightarrow> world \<Rightarrow> (sc_retval \<times> seg_el_iter \<times> world) option" where
  "on_segment_loop it w =
     (if si_cursor it = 0 then Some (RV_ELSE_GEN, it\<lparr>si_val := 0\<rparr>, w)
      else do {
        (a, c) \<leftarrow> seg_iter_next (si_seg it) (si_cursor it) w;
        let it = it\<lparr>si_cursor := c\<rparr>;
        skip \<leftarrow> (if si_foreign it then Some False else sg_is_link a w);
        (if skip then on_segment_loop it w
         else do {
           v \<leftarrow> sg_get_element_addr a w;
           dead \<leftarrow> (if v = 0 then Some True else addr_is_dead v w);
           (if dead then on_segment_loop it w
            else do {
              s \<leftarrow> addr_seg v w;
              ensure (si_foreign it \<or> s = si_seg it);
              w \<leftarrow> addr_ref v w;
              Some (RV_OK, it\<lparr>si_val := v\<rparr>, w)
            })
         })
      })"

definition on_segment_next :: "seg_el_iter \<Rightarrow> world \<Rightarrow> (sc_retval \<times> seg_el_iter \<times> world) option" where
  "on_segment_next it w =
     do {
       w \<leftarrow> (if si_val it \<noteq> 0 then addr_unref (si_val it) w else Some w);
       on_segment_loop it w
     }"

text \<open>The factory with the constructor; no iterator over a segment that is not opened.\<close>

definition std_on_segment :: "nat \<Rightarrow> nat \<Rightarrow> bool \<Rightarrow> world \<Rightarrow> (seg_el_iter option \<times> world) option" where
  "std_on_segment ss s foreign w =
     do {
       b \<leftarrow> session_opened ss s w;
       (if b then
          do {
            c \<leftarrow> seg_iter_new s w;
            w \<leftarrow> session_ref ss w;
            w \<leftarrow> seg_ref s w;
            (_, it, w) \<leftarrow> on_segment_next \<lparr>si_cursor = c, si_foreign = foreign, si_session = ss, si_val = 0, si_seg = s\<rparr> w;
            Some (Some it, w)
          }
        else Some (None, w))
     }"

definition on_segment_value :: "seg_el_iter \<Rightarrow> nat \<Rightarrow> nat" where
  "on_segment_value it num = (if num \<noteq> 0 then 0 else si_val it)"

definition on_segment_delete :: "seg_el_iter \<Rightarrow> world \<Rightarrow> world option" where
  "on_segment_delete it w =
     do {
       w \<leftarrow> (if si_val it \<noteq> 0 then addr_unref (si_val it) w else Some w);
       w \<leftarrow> session_unref (si_session it) w;
       seg_unref (si_seg it) w
     }"

section \<open>What they give\<close>

definition raw_type :: "world \<Rightarrow> nat \<Rightarrow> sc_type" where
  "raw_type W x = (case element_of W x of None \<Rightarrow> 0 | Some e \<Rightarrow> el_type e)"

definition end_of_arc :: "side \<Rightarrow> world \<Rightarrow> nat \<Rightarrow> nat option" where
  "end_of_arc sd W x =
     do { e \<leftarrow> element_of W x; t \<leftarrow> st_els W (case sd of Beg \<Rightarrow> el_beg e | End \<Rightarrow> el_end e); Some (el_addr t) }"

text \<open>The third element, if the arc \<open>e2\<close> passes, and the arcs to it that come from \<open>e5\<close>.\<close>

definition third :: "nat \<Rightarrow> world \<Rightarrow> sc_type \<Rightarrow> sc_type \<Rightarrow> nat \<Rightarrow> nat option" where
  "third ss W t2 t3 e2 =
     do {
       e3 \<leftarrow> end_of_arc End W e2;
       (if check_sc_type_raw (raw_type W e2) t2 \<and> sees ss W e3 \<and> check_sc_type_raw (raw_type W e3) t3 then Some e3 else None)
     }"

definition attributed :: "world \<Rightarrow> sc_type \<Rightarrow> nat \<Rightarrow> nat \<Rightarrow> bool" where
  "attributed W t4 e5 e4 \<longleftrightarrow> check_sc_type_raw (raw_type W e4) t4 \<and> end_of_arc Beg W e4 = Some e5"

definition answers_from :: "nat \<Rightarrow> world \<Rightarrow> nat \<Rightarrow> sc_type \<Rightarrow> sc_type \<Rightarrow> sc_type \<Rightarrow> nat \<Rightarrow> nat list \<Rightarrow> nat list list" where
  "answers_from ss W e1 t2 t3 t4 e5 xs =
     [[e1, e2, e3, e4, e5]. e2 \<leftarrow> xs, e3 \<leftarrow> (case third ss W t2 t3 e2 of None \<Rightarrow> [] | Some e3 \<Rightarrow> [e3]),
        e4 \<leftarrow> filter (attributed W t4 e5) (arcs_seen End ss W e2)]"

definition answers_5_faaaf :: "nat \<Rightarrow> world \<Rightarrow> nat \<Rightarrow> sc_type \<Rightarrow> sc_type \<Rightarrow> sc_type \<Rightarrow> nat \<Rightarrow> nat list list" where
  "answers_5_faaaf ss W e1 t2 t3 t4 e5 =
     answers_from ss W e1 (sc_type_extend_mask t2) (sc_type_extend_mask t3) (sc_type_extend_mask t4) e5 (arcs_seen Beg ss W e1)"

text \<open>What stands in a list of arcs is a connector.\<close>

definition connectors :: "nat \<Rightarrow> world \<Rightarrow> bool" where
  "connectors ss W \<longleftrightarrow> (\<forall>sd a. \<forall>x \<in> set (arcs_seen sd ss W a). raw_type W x AND SC_CONNECTOR_MASK \<noteq> 0)"

section \<open>The tests\<close>

lemma arcs_seen_known:
  assumes "quiet W" "x \<in> set (arcs_seen sd ss W a)"
  shows "\<exists>g. wd_addrs W x = Some g"
proof -
  have "x \<in> arc_addr W ` set (vA sd W ll) \<Longrightarrow> \<exists>g. wd_addrs W x = Some g" for ll using quiet_arc [OF assms(1)] by blast
  then show ?thesis using assms(2) by (fastforce simp: arcs_seen_def place_addrs_def arcs_left_def split: option.splits)
qed

lemma quiet_null: "quiet W \<Longrightarrow> st_els W 0 = None"
  using quietD(1) [of W] adj_invD(8) [of "vD W"] by (auto simp: wd_inv_def store_adj_def adj_ok_def vD_def)

lemma arc_target:
  assumes "quiet W" "element_of W x = Some e" "wd_addrs W x = Some g"
  shows "(case sd of Beg \<Rightarrow> el_beg e | End \<Rightarrow> el_end e) \<noteq> 0 \<Longrightarrow>
    \<exists>t. st_els W (case sd of Beg \<Rightarrow> el_beg e | End \<Rightarrow> el_end e) = Some t \<and> (el_addr t = 0 \<or> wd_addrs W (el_addr t) \<noteq> None)"
  using quiet_end [OF assms(1), of sd "ga_impl g"] assms(2,3) by (simp add: vT_def element_of_def)

lemma e4_fits_ok:
  assumes "quiet W" "wd_addrs W (s5_e4 it) = Some g" "raw_type W (s5_e4 it) AND SC_CONNECTOR_MASK \<noteq> 0"
  shows "e4_fits it (bump h er W) = Some (attributed W (s5_t4 it) (s5_e5 it) (s5_e4 it))"
proof -
  obtain e where e: "st_els W (ga_impl g) = Some e" "\<not> el_is_link e" "element_of W (s5_e4 it) = Some e"
    using quiet_element [OF assms(1,2)] by blast
  show ?thesis
    using assms e arc_target [OF assms(1) e(3) assms(2), of Beg] quiet_null [OF assms(1)]
    by (cases "el_beg e = 0")
      (auto simp: e4_fits_def sg_get_type_def sg_get_beg_def sg_get_element_addr_def attributed_def raw_type_def end_of_arc_def)
qed

lemma e2_fits_ok:
  assumes "quiet W" "wd_sessions W (s5_session it) \<noteq> None" "wd_addrs W (s5_e2 it) = Some g" "raw_type W (s5_e2 it) AND SC_CONNECTOR_MASK \<noteq> 0"
  shows "\<exists>e3. e2_fits it (bump h er W) = Some (third (s5_session it) W (s5_t2 it) (s5_t3 it) (s5_e2 it) \<noteq> None, it\<lparr>s5_e3 := e3\<rparr>) \<and>
    (\<forall>y. third (s5_session it) W (s5_t2 it) (s5_t3 it) (s5_e2 it) = Some y \<longrightarrow> e3 = y)"
proof -
  obtain e where e: "st_els W (ga_impl g) = Some e" "\<not> el_is_link e" "element_of W (s5_e2 it) = Some e"
    using quiet_element [OF assms(1,3)] by blast
  have id: "it = it\<lparr>s5_e3 := s5_e3 it\<rparr>" by simp
  show ?thesis
  proof (cases "check_sc_type_raw (el_type e) (s5_t2 it) \<and> el_end e \<noteq> 0")
    case False
    then show ?thesis using assms e quiet_null [OF assms(1)]
      by (intro exI [of _ "s5_e3 it"]) (auto simp: e2_fits_def sg_get_type_def sg_get_end_def third_def raw_type_def end_of_arc_def)
  next
    case True
    then obtain t where t: "st_els W (el_end e) = Some t" "el_addr t = 0 \<or> wd_addrs W (el_addr t) \<noteq> None"
      using arc_target [OF assms(1) e(3) assms(3), of End] by auto
    have th: "third (s5_session it) W (s5_t2 it) (s5_t3 it) (s5_e2 it) =
        (if sees (s5_session it) W (el_addr t) \<and> check_sc_type_raw (raw_type W (el_addr t)) (s5_t3 it) then Some (el_addr t) else None)"
      using True e t by (simp add: third_def end_of_arc_def raw_type_def)
    show ?thesis
    proof (cases "el_addr t = 0")
      case True': True
      then show ?thesis using True assms e t th not_sees_0 [OF assms(1)]
        by (intro exI [of _ 0]) (auto simp: e2_fits_def sg_get_type_def sg_get_end_def sg_get_element_addr_def raw_type_def)
    next
      case False
      then obtain g3 where g3: "wd_addrs W (el_addr t) = Some g3" using t(2) by auto
      obtain d where d: "st_els W (ga_impl g3) = Some d" "\<not> el_is_link d" "element_of W (el_addr t) = Some d"
        using quiet_element [OF assms(1) g3] by blast
      have "session_opened (s5_session it) (ga_seg g3) (bump h er W) = Some (sees (s5_session it) W (el_addr t))"
        using quiet_sees [OF assms(1,2) g3] by simp
      then show ?thesis using True False assms e t th g3 d
        by (intro exI [of _ "el_addr t"]) (auto simp: e2_fits_def sg_get_type_def sg_get_end_def sg_get_element_addr_def raw_type_def Let_def)
    qed
  qed
qed

section \<open>The loops\<close>

lemma meta_holds_bump: "meta_holds sd ss W w0 xs m w \<Longrightarrow> \<exists>h er. w = bump h er W"
  by (auto simp: meta_holds_def split: option.splits) blast

lemma meta_holds_start: "meta_holds sd ss W w0 xs m w \<Longrightarrow> \<exists>h er. w0 = bump h er W"
  by (auto simp: meta_holds_def)

definition arcs_ok :: "world \<Rightarrow> nat list \<Rightarrow> bool" where
  "arcs_ok W xs \<longleftrightarrow> (\<forall>x \<in> set xs. wd_addrs W x \<noteq> None \<and> raw_type W x AND SC_CONNECTOR_MASK \<noteq> 0)"

lemma arcs_ok_simps [simp]: "arcs_ok W []" "arcs_ok W (x # xs) \<longleftrightarrow> wd_addrs W x \<noteq> None \<and> raw_type W x AND SC_CONNECTOR_MASK \<noteq> 0 \<and> arcs_ok W xs"
  by (auto simp: arcs_ok_def)

lemma arcs_ok_seen: "quiet W \<Longrightarrow> connectors ss W \<Longrightarrow> arcs_ok W (arcs_seen sd ss W a)"
  using arcs_seen_known [of W _ sd ss a] by (auto simp: arcs_ok_def connectors_def)

lemma e2_loop_ok:
  assumes "quiet W"
  shows "meta_holds End (s5_session it) W w0 xs m w \<Longrightarrow> arcs_ok W xs \<Longrightarrow>
    (\<exists>e4 m' w'. let ys = dropWhile (\<lambda>x. \<not> attributed W (s5_t4 it) (s5_e5 it) x) xs in
       e2_loop (it\<lparr>s5_in := Some m\<rparr>) w = Some (ys \<noteq> [], it\<lparr>s5_in := Some m', s5_e4 := e4\<rparr>, w') \<and>
       meta_holds End (s5_session it) W w0 ys m' w' \<and> (ys \<noteq> [] \<longrightarrow> e4 = hd ys))"
proof (induction xs arbitrary: it m w)
  case Nil
  then have "meta_is_over m" using meta_holds_over by blast
  then show ?case using Nil.prems
    by (intro exI [of _ "s5_e4 it"] exI [of _ m] exI [of _ w]) (subst e2_loop.simps, simp)
next
  case (Cons x xs)
  let ?it = "it\<lparr>s5_in := Some m, s5_e4 := x\<rparr>"
  have over: "\<not> meta_is_over m" using meta_holds_over [OF Cons.prems(1)] by simp
  have v: "meta_value m 1 = x" using meta_holds_value [OF assms Cons.prems(1), of 1] by simp
  obtain h er where w: "w = bump h er W" using meta_holds_bump [OF Cons.prems(1)] by blast
  obtain g where g: "wd_addrs W x = Some g" using Cons.prems(2) by auto
  have fit: "e4_fits ?it w = Some (attributed W (s5_t4 it) (s5_e5 it) x)"
    using e4_fits_ok [OF assms, of ?it g h er] g Cons.prems(2) w by simp
  show ?case
  proof (cases "attributed W (s5_t4 it) (s5_e5 it) x")
    case True
    have "e2_loop (it\<lparr>s5_in := Some m\<rparr>) w = Some (True, ?it, w)"
      using over v fit True by (subst e2_loop.simps) simp
    then show ?thesis using True Cons.prems(1) by (intro exI [of _ x] exI [of _ m] exI [of _ w]) simp
  next
    case False
    obtain rv m' w' where nx: "meta_next End m w = Some (rv, m', w')" "meta_holds End (s5_session it) W w0 xs m' w'"
      using meta_holds_next [OF assms Cons.prems(1)] by blast
    let ?it' = "it\<lparr>s5_e4 := x\<rparr>"
    have e: "it\<lparr>s5_in := Some m, s5_e4 := x, s5_in := Some m'\<rparr> = ?it'\<lparr>s5_in := Some m'\<rparr>" by simp
    have "e2_loop (it\<lparr>s5_in := Some m\<rparr>) w = e2_loop (?it'\<lparr>s5_in := Some m'\<rparr>) w'"
      using over v fit False nx(1) by (subst e2_loop.simps) (simp add: e)
    then show ?thesis using Cons.IH [of ?it' m' w'] nx(2) Cons.prems(2) False by (simp add: Let_def)
  qed
qed

text \<open>An iterator with its remaining answers; \<open>w0\<close> is the memory before it was made.\<close>

definition std5_holds :: "world \<Rightarrow> world \<Rightarrow> nat list list \<Rightarrow> std5_iter \<Rightarrow> world \<Rightarrow> bool" where
  "std5_holds W w0 ts it w \<longleftrightarrow>
     (let ss = s5_session it; F = answers_from ss W (s5_e1 it) (s5_t2 it) (s5_t3 it) (s5_t4 it) (s5_e5 it) in
      wd_sessions W ss \<noteq> None \<and> wd_addrs W (s5_e5 it) \<noteq> None \<and>
      (\<exists>h er. w0 = bump h er W \<and>
        (if s5_over it then s5_in it = None \<and> ts = [] \<and> meta_holds Beg ss W (bump (add_mset (K_addr (s5_e5 it)) h) er W) [] (s5_out it) w
         else (\<exists>m ho ero xs ys. s5_in it = Some m \<and> third ss W (s5_t2 it) (s5_t3 it) (s5_e2 it) = Some (s5_e3 it) \<and>
             meta_holds Beg ss W (bump (add_mset (K_addr (s5_e5 it)) h) er W) (s5_e2 it # xs) (s5_out it) (bump ho ero W) \<and>
             meta_holds End ss W (bump (add_mset (K_addr (s5_e3 it)) ho) ero W) (s5_e4 it # ys) m w \<and>
             attributed W (s5_t4 it) (s5_e5 it) (s5_e4 it) \<and> arcs_ok W xs \<and> arcs_ok W (s5_e4 it # ys) \<and>
             ts = map (\<lambda>e4. [s5_e1 it, s5_e2 it, s5_e3 it, e4, s5_e5 it]) (s5_e4 it # filter (attributed W (s5_t4 it) (s5_e5 it)) ys) @ F xs))))"

lemma std5_holdsI:
  assumes "\<not> s5_over it" "wd_sessions W (s5_session it) \<noteq> None" "wd_addrs W (s5_e5 it) \<noteq> None" "w0 = bump h er W" "s5_in it = Some m"
    and "third (s5_session it) W (s5_t2 it) (s5_t3 it) (s5_e2 it) = Some (s5_e3 it)"
    and "meta_holds Beg (s5_session it) W (bump (add_mset (K_addr (s5_e5 it)) h) er W) (s5_e2 it # xs) (s5_out it) (bump ho ero W)"
    and "meta_holds End (s5_session it) W (bump (add_mset (K_addr (s5_e3 it)) ho) ero W) (s5_e4 it # ys) m w"
    and "attributed W (s5_t4 it) (s5_e5 it) (s5_e4 it)" "arcs_ok W xs" "arcs_ok W (s5_e4 it # ys)"
    and "ts = map (\<lambda>e4. [s5_e1 it, s5_e2 it, s5_e3 it, e4, s5_e5 it]) (s5_e4 it # filter (attributed W (s5_t4 it) (s5_e5 it)) ys) @
      answers_from (s5_session it) W (s5_e1 it) (s5_t2 it) (s5_t3 it) (s5_t4 it) (s5_e5 it) xs"
  shows "std5_holds W w0 ts it w"
  unfolding std5_holds_def Let_def if_not_P [OF assms(1)] by (intro conjI exI; fact assms)

lemma filter_dropWhile: "filter P xs = filter P (dropWhile (\<lambda>x. \<not> P x) xs)"
  by (induction xs) auto

lemma dropWhile_hd: "dropWhile (\<lambda>x. \<not> P x) xs = y # ys \<Longrightarrow> P y"
  by (induction xs) (auto split: if_splits)

lemma arcs_ok_dropWhile: "arcs_ok W xs \<Longrightarrow> arcs_ok W (dropWhile P xs)"
  using set_dropWhileD [of _ P xs] by (auto simp: arcs_ok_def)

lemma e1_loop_ok:
  assumes "quiet W" "connectors (s5_session it) W" "wd_sessions W (s5_session it) \<noteq> None" "wd_addrs W (s5_e5 it) \<noteq> None"
    and "w0 = bump h er W"
  shows "meta_holds Beg (s5_session it) W (bump (add_mset (K_addr (s5_e5 it)) h) er W) xs out w \<Longrightarrow> arcs_ok W xs \<Longrightarrow>
    (\<exists>it' w'. e1_loop (it\<lparr>s5_out := out, s5_in := None, s5_over := False\<rparr>) w = Some (it', w') \<and>
      std5_holds W w0 (answers_from (s5_session it) W (s5_e1 it) (s5_t2 it) (s5_t3 it) (s5_t4 it) (s5_e5 it) xs) it' w' \<and>
      s5_session it' = s5_session it)"
  using assms(2-4)
proof (induction xs arbitrary: it out w)
  case Nil
  let ?it = "it\<lparr>s5_out := out, s5_in := None, s5_over := False\<rparr>"
  have "e1_loop ?it w = Some (?it\<lparr>s5_over := True\<rparr>, w)"
    using meta_holds_over [OF Nil.prems(1)] by (subst e1_loop.simps) simp
  then show ?case using Nil.prems assms(5)
    by (intro exI [of _ "?it\<lparr>s5_over := True\<rparr>"] exI [of _ w]) (auto simp: std5_holds_def Let_def answers_from_def)
next
  case (Cons x xs)
  let ?ss = "s5_session it" and ?base = "bump (add_mset (K_addr (s5_e5 it)) h) er W"
  let ?F = "answers_from ?ss W (s5_e1 it) (s5_t2 it) (s5_t3 it) (s5_t4 it) (s5_e5 it)"
  let ?it = "it\<lparr>s5_out := out, s5_in := None, s5_over := False, s5_e2 := x\<rparr>"
  have over: "\<not> meta_is_over out" using meta_holds_over [OF Cons.prems(1)] by simp
  have v: "meta_value out 1 = x" using meta_holds_value [OF assms(1) Cons.prems(1), of 1] by simp
  obtain ho ero where w: "w = bump ho ero W" using meta_holds_bump [OF Cons.prems(1)] by blast
  obtain g where g: "wd_addrs W x = Some g" using Cons.prems(2) by auto
  obtain e3 where fit: "e2_fits ?it w = Some (third ?ss W (s5_t2 it) (s5_t3 it) x \<noteq> None, ?it\<lparr>s5_e3 := e3\<rparr>)"
    and e3: "\<And>y. third ?ss W (s5_t2 it) (s5_t3 it) x = Some y \<Longrightarrow> e3 = y"
    using e2_fits_ok [OF assms(1), of ?it g ho ero] g Cons.prems(2,4) w by auto
  obtain rv out' w2 where nx: "meta_next Beg out w = Some (rv, out', w2)" "meta_holds Beg ?ss W ?base xs out' w2"
    using meta_holds_next [OF assms(1) Cons.prems(1)] by blast
  have step: "out_step i w = Some (i\<lparr>s5_out := out'\<rparr>, w2)" if "s5_out i = out" for i using nx(1) that by (simp add: out_step_def)
  have again: "\<exists>it' w'. e1_loop (i\<lparr>s5_out := out'\<rparr>) w2 = Some (it', w') \<and> std5_holds W w0 (?F xs) it' w' \<and> s5_session it' = ?ss"
    if "s5_in i = None" "\<not> s5_over i" "s5_session i = ?ss" "s5_e1 i = s5_e1 it" "s5_e5 i = s5_e5 it" "s5_t2 i = s5_t2 it"
      "s5_t3 i = s5_t3 it" "s5_t4 i = s5_t4 it" for i
  proof -
    have e: "i\<lparr>s5_out := out'\<rparr> = i\<lparr>s5_out := out', s5_in := None, s5_over := False\<rparr>" using that(1,2) by (cases i) simp
    show ?thesis by (rule Cons.IH [of i out' w2, folded e, unfolded that(3-)]) (use nx(2) Cons.prems(2-) that(3-) in simp_all)
  qed
  show ?case
  proof (cases "third ?ss W (s5_t2 it) (s5_t3 it) x")
    case None
    have "e1_loop (it\<lparr>s5_out := out, s5_in := None, s5_over := False\<rparr>) w = e1_loop (?it\<lparr>s5_e3 := e3, s5_out := out'\<rparr>) w2"
      using over v fit None step [of "?it\<lparr>s5_e3 := e3\<rparr>"] by (subst e1_loop.simps) simp
    moreover have "?F (x # xs) = ?F xs" using None by (simp add: answers_from_def)
    ultimately show ?thesis using again [of "?it\<lparr>s5_e3 := e3\<rparr>"] by simp
  next
    case (Some y)
    then have y: "e3 = y" using e3 by blast
    obtain g3 where g3: "wd_addrs W e3 = Some g3"
      using Some y sees_known by (fastforce simp: third_def split: bind_splits if_splits)
    obtain m wi where m: "meta_new End x ?ss (bump (add_mset (K_addr e3) ho) ero W) = Some (m, wi)"
      "meta_holds End ?ss W (bump (add_mset (K_addr e3) ho) ero W) (arcs_seen End ?ss W x) m wi"
      using meta_holds_new [OF assms(1) g Cons.prems(4) links_known_quiet [OF assms(1) Cons.prems(4) g],
          of End "add_mset (K_addr e3) ho" ero] g by (auto simp: arcs_seen_def)
    have ok: "arcs_ok W (arcs_seen End ?ss W x)" using arcs_ok_seen [OF assms(1) Cons.prems(3)] .
    let ?it3 = "?it\<lparr>s5_e3 := e3\<rparr>" and ?P = "attributed W (s5_t4 it) (s5_e5 it)"
    let ?ys = "dropWhile (\<lambda>x. \<not> ?P x) (arcs_seen End ?ss W x)"
    have "\<exists>e4 m' wj. e2_loop (?it3\<lparr>s5_in := Some m\<rparr>) wi = Some (?ys \<noteq> [], ?it3\<lparr>s5_in := Some m', s5_e4 := e4\<rparr>, wj) \<and>
        meta_holds End ?ss W (bump (add_mset (K_addr e3) ho) ero W) ?ys m' wj \<and> (?ys \<noteq> [] \<longrightarrow> e4 = hd ?ys)"
      using e2_loop_ok [OF assms(1), of ?it3 _ _ m wi] m(2) ok by (simp add: Let_def)
    then obtain e4 m' wj where l: "e2_loop (?it3\<lparr>s5_in := Some m\<rparr>) wi = Some (?ys \<noteq> [], ?it3\<lparr>s5_in := Some m', s5_e4 := e4\<rparr>, wj)"
      "meta_holds End ?ss W (bump (add_mset (K_addr e3) ho) ero W) ?ys m' wj" "?ys \<noteq> [] \<Longrightarrow> e4 = hd ?ys" by blast
    have ref: "addr_ref e3 w = Some (bump (add_mset (K_addr e3) ho) ero W)" using g3 w by (simp add: bump_addr_ref)
    let ?done = "?it3\<lparr>s5_in := Some m', s5_e4 := e4\<rparr>"
    have fx: "?F (x # xs) = map (\<lambda>e4. [s5_e1 it, x, e3, e4, s5_e5 it]) (filter ?P ?ys) @ ?F xs"
      using Some y filter_dropWhile [of ?P "arcs_seen End ?ss W x"] by (simp add: answers_from_def concat_map_singleton)
    have run: "e1_loop (it\<lparr>s5_out := out, s5_in := None, s5_over := False\<rparr>) w =
        (if ?ys \<noteq> [] then Some (?done, wj) else do { (it, w) \<leftarrow> drop_input ?done wj; (it, w) \<leftarrow> out_step it w; e1_loop it w })"
      using over v fit Some ref m(1) l(1) by (subst e1_loop.simps) simp
    show ?thesis
    proof (cases ?ys)
      case Nil
      have "meta_delete m' wj = Some (bump (add_mset (K_addr e3) ho) ero W)" using meta_holds_delete [OF assms(1) l(2)] .
      then have "drop_input ?done wj = Some (?done\<lparr>s5_in := None\<rparr>, w)"
        using bump_addr_unref [OF assms(1), of e3 ho ero] g3 w by (simp add: drop_input_def)
      moreover have "?F (x # xs) = ?F xs" unfolding fx Nil by simp
      moreover have "e1_loop (it\<lparr>s5_out := out, s5_in := None, s5_over := False\<rparr>) w =
          (do { (it, w) \<leftarrow> drop_input ?done wj; (it, w) \<leftarrow> out_step it w; e1_loop it w })" using run unfolding Nil by simp
      ultimately show ?thesis using step [of "?done\<lparr>s5_in := None\<rparr>"] again [of "?done\<lparr>s5_in := None\<rparr>"] by simp
    next
      case (Cons y4 ys)
      have "arcs_ok W (y4 # ys)" "?P y4" using arcs_ok_dropWhile [OF ok, of "\<lambda>x. \<not> ?P x"] dropWhile_hd [OF Cons] Cons by auto
      moreover have "?F (x # xs) = map (\<lambda>e4. [s5_e1 it, x, e3, e4, s5_e5 it]) (y4 # filter ?P ys) @ ?F xs"
        using fx dropWhile_hd [OF Cons] Cons by simp
      ultimately have "std5_holds W w0 (?F (x # xs)) ?done wj"
        by (intro std5_holdsI [where h = h and er = er and ho = ho and ero = ero and xs = xs and ys = ys and m = m'])
          (use Cons.prems assms(5) Some y w l(2,3) Cons in simp_all)
      then show ?thesis using run Cons by (intro exI [of _ ?done] exI [of _ wj]) simp
    qed
  qed
qed

lemma std5_holds_over: "std5_holds W w0 ts it w \<Longrightarrow> s5_over it \<longleftrightarrow> ts = []"
  by (auto simp: std5_holds_def Let_def split: if_splits)

lemma std5_holds_value: "std5_holds W w0 (t # ts) it w \<Longrightarrow> map (std5_value it) [0..<5] = t"
  by (auto simp: std5_holds_def Let_def std5_value_def upt_rec split: if_splits)

lemma std5_next_ok:
  assumes "quiet W" "connectors (s5_session it) W" "std5_holds W w0 (t # ts) it w"
  shows "\<exists>rv it' w'. std5_next it w = Some (rv, it', w') \<and> std5_holds W w0 ts it' w' \<and> s5_session it' = s5_session it"
proof -
  let ?ss = "s5_session it" and ?P = "attributed W (s5_t4 it) (s5_e5 it)"
  let ?F = "answers_from ?ss W (s5_e1 it) (s5_t2 it) (s5_t3 it) (s5_t4 it) (s5_e5 it)"
  have over: "\<not> s5_over it" using std5_holds_over [OF assms(3)] by simp
  obtain h er m ho ero xs ys where st: "wd_sessions W ?ss \<noteq> None" "wd_addrs W (s5_e5 it) \<noteq> None" "w0 = bump h er W"
    "s5_in it = Some m" "third ?ss W (s5_t2 it) (s5_t3 it) (s5_e2 it) = Some (s5_e3 it)"
    and out: "meta_holds Beg ?ss W (bump (add_mset (K_addr (s5_e5 it)) h) er W) (s5_e2 it # xs) (s5_out it) (bump ho ero W)"
    and inp: "meta_holds End ?ss W (bump (add_mset (K_addr (s5_e3 it)) ho) ero W) (s5_e4 it # ys) m w"
    and ok: "arcs_ok W xs" "arcs_ok W (s5_e4 it # ys)"
    and ts: "ts = map (\<lambda>e4. [s5_e1 it, s5_e2 it, s5_e3 it, e4, s5_e5 it]) (filter ?P ys) @ ?F xs"
    using assms(3) over unfolding std5_holds_def Let_def by auto
  obtain rv m1 w1 where n1: "meta_next End m w = Some (rv, m1, w1)"
    "meta_holds End ?ss W (bump (add_mset (K_addr (s5_e3 it)) ho) ero W) ys m1 w1"
    using meta_holds_next [OF assms(1) inp] by blast
  let ?ys = "dropWhile (\<lambda>x. \<not> ?P x) ys"
  have "\<exists>e4 m2 w2. e2_loop (it\<lparr>s5_in := Some m1\<rparr>) w1 = Some (?ys \<noteq> [], it\<lparr>s5_in := Some m2, s5_e4 := e4\<rparr>, w2) \<and>
      meta_holds End ?ss W (bump (add_mset (K_addr (s5_e3 it)) ho) ero W) ?ys m2 w2 \<and> (?ys \<noteq> [] \<longrightarrow> e4 = hd ?ys)"
    using e2_loop_ok [OF assms(1) n1(2)] ok(2) by (simp add: Let_def)
  then obtain e4 m2 w2 where l: "e2_loop (it\<lparr>s5_in := Some m1\<rparr>) w1 = Some (?ys \<noteq> [], it\<lparr>s5_in := Some m2, s5_e4 := e4\<rparr>, w2)"
    "meta_holds End ?ss W (bump (add_mset (K_addr (s5_e3 it)) ho) ero W) ?ys m2 w2" "?ys \<noteq> [] \<Longrightarrow> e4 = hd ?ys" by blast
  let ?it = "it\<lparr>s5_in := Some m2, s5_e4 := e4\<rparr>"
  have run: "std5_next it w = (if ?ys \<noteq> [] then Some (RV_OK, ?it, w2)
      else do { (it, w) \<leftarrow> drop_input ?it w2; (it, w) \<leftarrow> out_step it w; (it, w) \<leftarrow> e1_loop it w;
        Some (if s5_over it then RV_ELSE_GEN else RV_OK, it, w) })"
    using over st(4) n1(1) l(1) by (simp add: std5_next_def)
  show ?thesis
  proof (cases ?ys)
    case Nil
    have "wd_addrs W (s5_e3 it) \<noteq> None" using st(5) sees_known by (fastforce simp: third_def split: bind_splits if_splits)
    moreover have "meta_delete m2 w2 = Some (bump (add_mset (K_addr (s5_e3 it)) ho) ero W)" using meta_holds_delete [OF assms(1) l(2)] .
    ultimately have d: "drop_input ?it w2 = Some (?it\<lparr>s5_in := None\<rparr>, bump ho ero W)"
      using bump_addr_unref [OF assms(1), of "s5_e3 it" ho ero] by (simp add: drop_input_def)
    obtain rv' out' w3 where nx: "meta_next Beg (s5_out it) (bump ho ero W) = Some (rv', out', w3)"
      "meta_holds Beg ?ss W (bump (add_mset (K_addr (s5_e5 it)) h) er W) xs out' w3"
      using meta_holds_next [OF assms(1) out] by blast
    have e: "?it\<lparr>s5_in := None, s5_out := out'\<rparr> = ?it\<lparr>s5_out := out', s5_in := None, s5_over := False\<rparr>" using over by (cases it) simp
    have o: "out_step (?it\<lparr>s5_in := None\<rparr>) (bump ho ero W) = Some (?it\<lparr>s5_out := out', s5_in := None, s5_over := False\<rparr>, w3)"
      using nx(1) over by (cases it) (simp add: out_step_def)
    obtain it' w' where "e1_loop (?it\<lparr>s5_out := out', s5_in := None, s5_over := False\<rparr>) w3 = Some (it', w')"
      "std5_holds W w0 (?F xs) it' w'" "s5_session it' = ?ss"
      using e1_loop_ok [OF assms(1), of ?it w0 h er xs out' w3] assms(2) st nx(2) ok(1) by auto
    moreover have "ts = ?F xs" using ts filter_dropWhile [of ?P ys] Nil by simp
    ultimately show ?thesis using run Nil d o by simp
  next
    case (Cons y4 ys')
    have "arcs_ok W (y4 # ys')" "?P y4" using arcs_ok_dropWhile [of W ys "\<lambda>x. \<not> ?P x"] ok(2) dropWhile_hd [OF Cons] Cons by auto
    moreover have "ts = map (\<lambda>e4. [s5_e1 it, s5_e2 it, s5_e3 it, e4, s5_e5 it]) (y4 # filter ?P ys') @ ?F xs"
      using ts filter_dropWhile [of ?P ys] dropWhile_hd [OF Cons] Cons by simp
    ultimately have "std5_holds W w0 ts ?it w2"
      by (intro std5_holdsI [where h = h and er = er and ho = ho and ero = ero and xs = xs and ys = ys' and m = m2])
        (use over st out ok l(2,3) Cons in simp_all)
    then show ?thesis using run Cons by simp
  qed
qed

text \<open>A reference that was taken before the iterator was made may be given back before it is deleted.\<close>

lemma meta_holds_unref:
  assumes "quiet W" "wd_addrs W a \<noteq> None" "meta_holds sd ss W (bump (add_mset (K_addr a) h) er W) xs m w"
  shows "\<exists>w'. addr_unref a w = Some w' \<and> meta_holds sd ss W (bump h er W) xs m w'"
proof -
  let ?base = "{#K_addr (mi_from m), K_session ss#}"
  obtain h' er' where b: "bump (add_mset (K_addr a) h) er W = bump h' er' W"
    and m: "mi_session m = ss" "wd_addrs W (mi_from m) \<noteq> None" "wd_sessions W ss \<noteq> None" "links_known ss W (mi_links m)"
    and c: "case mi_iter m of
           None \<Rightarrow> xs = [] \<and> w = bump (?base + h') er' W
         | Some it \<Rightarrow> (\<exists>ll pre l rest. it = iter_on W sd ll l \<and> vA sd W ll = pre @ l # rest \<and>
             xs = map (arc_addr W) (l # rest) @ arcs_left ss sd W (mi_links m) \<and>
             w = bump (arc_refs W l + (?base + h')) er' W)"
    using assms(3) unfolding meta_holds_def by blast
  have "wd_addrs (bump (add_mset (K_addr a) h) er W) a = wd_addrs (bump h' er' W) a" using b by simp
  then have "count h' (K_addr a) = Suc (count h (K_addr a))"
    using assms(2) by (cases "wd_addrs W a") (auto dest: arg_cong [of _ _ ga_refcnt])
  then have k: "K_addr a \<in># h'" by (metis count_greater_zero_iff zero_less_Suc)
  then obtain k where k: "h' = add_mset (K_addr a) k" by (metis mset_add)
  have "Some (bump h er W) = Some (bump k er' W)"
    using bump_addr_unref [OF assms(1,2), of h er] bump_addr_unref [OF assms(1,2), of k er'] b k by simp
  then have e: "bump h er W = bump k er' W" by simp
  show ?thesis
  proof (cases "mi_iter m")
    case None
    then have "w = bump (add_mset (K_addr a) (?base + k)) er' W" "xs = []" using c k by simp_all
    then show ?thesis using bump_addr_unref [OF assms(1,2), of "?base + k" er'] None m e unfolding meta_holds_def by auto
  next
    case (Some it)
    then obtain ll pre l rest where it: "it = iter_on W sd ll l" "vA sd W ll = pre @ l # rest"
      "xs = map (arc_addr W) (l # rest) @ arcs_left ss sd W (mi_links m)"
      and w: "w = bump (add_mset (K_addr a) (arc_refs W l + (?base + k))) er' W" using c k by auto
    have "meta_holds sd ss W (bump k er' W) xs m (bump (arc_refs W l + (?base + k)) er' W)"
      by (rule meta_holds_onI [where ll = ll and l = l and pre = pre and rest = rest and a = "mi_from m"]) (use Some it m in simp_all)
    then show ?thesis using bump_addr_unref [OF assms(1,2), of "arc_refs W l + (?base + k)" er'] w e by auto
  qed
qed

lemma std5_delete_ok:
  assumes "quiet W" "std5_holds W w0 ts it w"
  shows "std5_delete it w = Some w0"
proof -
  let ?ss = "s5_session it"
  have outer: "\<exists>w'. meta_delete (s5_out it) w1 = Some w' \<and> addr_unref (s5_e5 it) w' = Some (bump h er W)"
    if "meta_holds Beg ?ss W (bump (add_mset (K_addr (s5_e5 it)) h) er W) xs (s5_out it) w1" "wd_addrs W (s5_e5 it) \<noteq> None" for xs w1 h er
    using meta_holds_delete [OF assms(1) that(1)] bump_addr_unref [OF assms(1) that(2), of h er] by simp
  show ?thesis
  proof (cases "s5_over it")
    case True
    then show ?thesis using assms(2) outer by (fastforce simp: std5_delete_def std5_holds_def Let_def)
  next
    case False
    then obtain h er m ho ero xs ys where m: "w0 = bump h er W" "wd_addrs W (s5_e5 it) \<noteq> None" "s5_in it = Some m"
      "third ?ss W (s5_t2 it) (s5_t3 it) (s5_e2 it) = Some (s5_e3 it)"
      "meta_holds Beg ?ss W (bump (add_mset (K_addr (s5_e5 it)) h) er W) (s5_e2 it # xs) (s5_out it) (bump ho ero W)"
      "meta_holds End ?ss W (bump (add_mset (K_addr (s5_e3 it)) ho) ero W) (s5_e4 it # ys) m w"
      using assms(2) unfolding std5_holds_def Let_def by auto
    have "wd_addrs W (s5_e3 it) \<noteq> None" using m(4) sees_known by (fastforce simp: third_def split: bind_splits if_splits)
    from meta_holds_unref [OF assms(1) this m(6)] obtain w' where
      "addr_unref (s5_e3 it) w = Some w'" "meta_holds End ?ss W (bump ho ero W) (s5_e4 it # ys) m w'" by blast
    moreover from this have "meta_delete m w' = Some (bump ho ero W)" by (blast intro: meta_holds_delete [OF assms(1)])
    ultimately show ?thesis using m(1,3) outer [OF m(5,2)] by (auto simp: std5_delete_def)
  qed
qed

section \<open>The loop of a client\<close>

fun std5_collect :: "nat \<Rightarrow> std5_iter \<Rightarrow> world \<Rightarrow> (nat list list \<times> world) option" where
  "std5_collect 0 it w = None"
| "std5_collect (Suc n) it w =
     (if s5_over it then do { w \<leftarrow> std5_delete it w; Some ([], w) }
      else do {
        (_, it', w) \<leftarrow> std5_next it w;
        (ts, w) \<leftarrow> std5_collect n it' w;
        Some (map (std5_value it) [0..<5] # ts, w)
      })"

lemma std5_collect_ok:
  assumes "quiet W"
  shows "std5_holds W w0 ts it w \<Longrightarrow> connectors (s5_session it) W \<Longrightarrow> length ts < n \<Longrightarrow> std5_collect n it w = Some (ts, w0)"
proof (induction ts arbitrary: it w n)
  case Nil
  then obtain k where "n = Suc k" by (cases n) auto
  then show ?case using std5_holds_over [OF Nil.prems(1)] std5_delete_ok [OF assms Nil.prems(1)] by simp
next
  case (Cons t ts)
  then obtain k where k: "n = Suc k" by (cases n) auto
  obtain rv it' w' where nx: "std5_next it w = Some (rv, it', w')" "std5_holds W w0 ts it' w'" "s5_session it' = s5_session it"
    using std5_next_ok [OF assms Cons.prems(2,1)] by blast
  have "std5_collect k it' w' = Some (ts, w0)" using Cons.IH [OF nx(2)] nx(3) Cons.prems(2,3) k by simp
  then show ?case
    using nx(1) k std5_holds_over [OF Cons.prems(1)] std5_holds_value [OF Cons.prems(1)] by (simp del: upt_Suc)
qed

lemma std5_new_ok:
  assumes "quiet W" "connectors ss W" "wd_sessions W ss \<noteq> None" "wd_addrs W e1 \<noteq> None" "wd_addrs W e5 \<noteq> None"
  shows "\<exists>it w. std5_f_a_a_a_f ss e1 t2 t3 t4 e5 (bump h er W) = Some (it, w) \<and>
    std5_holds W (bump h er W) (answers_5_faaaf ss W e1 t2 t3 t4 e5) it w \<and> s5_session it = ss"
proof -
  obtain g where g: "wd_addrs W e1 = Some g" using assms(4) by blast
  obtain m w where m: "meta_new Beg e1 ss (bump (add_mset (K_addr e5) h) er W) = Some (m, w)"
    "meta_holds Beg ss W (bump (add_mset (K_addr e5) h) er W) (arcs_seen Beg ss W e1) m w"
    using meta_holds_new [OF assms(1) g assms(3) links_known_quiet [OF assms(1,3) g], of Beg "add_mset (K_addr e5) h" er] g
    by (auto simp: arcs_seen_def)
  let ?it = "\<lparr>s5_e1 = e1, s5_e2 = 0, s5_e3 = 0, s5_e4 = 0, s5_e5 = e5, s5_t2 = sc_type_extend_mask t2,
     s5_t3 = sc_type_extend_mask t3, s5_t4 = sc_type_extend_mask t4, s5_out = m, s5_in = None, s5_session = ss, s5_over = False\<rparr>"
  have "?it = ?it\<lparr>s5_out := m, s5_in := None, s5_over := False\<rparr>" by simp
  then show ?thesis
    using e1_loop_ok [OF assms(1), of ?it "bump h er W" h er "arcs_seen Beg ss W e1" m w] assms m arcs_ok_seen [OF assms(1,2)]
    by (simp add: std5_f_a_a_a_f_def bump_addr_ref answers_5_faaaf_def)
qed

section \<open>The elements of a segment\<close>

definition addr_at :: "world \<Rightarrow> nat \<Rightarrow> nat" where
  "addr_at W a = (case st_els W a of None \<Rightarrow> 0 | Some e \<Rightarrow> el_addr e)"

definition on_segment_items :: "bool \<Rightarrow> world \<Rightarrow> nat list \<Rightarrow> nat list" where
  "on_segment_items foreign W as = filter (\<lambda>x. x \<noteq> 0) (map (addr_at W) (filter (\<lambda>a. foreign \<or> \<not> is_link_at W a) as))"

text \<open>Elements that are no links belong to the segment they stand in.\<close>

definition homed :: "nat \<Rightarrow> world \<Rightarrow> bool" where
  "homed s W \<longleftrightarrow> (\<forall>a \<in> set (seg_items s W). \<not> is_link_at W a \<longrightarrow>
     (\<forall>g. wd_addrs W (addr_at W a) = Some g \<longrightarrow> ga_seg g = s))"

lemma bump_seg_items [simp]: "seg_items s (bump h er W) = seg_items s W"
  by (simp add: seg_items_def split: option.split)

lemma bump_link_at [simp]: "is_link_at (bump h er W) = is_link_at W"
  by (simp add: fun_eq_iff is_link_at_def)

lemma bump_seg_listed [simp]: "seg_listed s (bump h er W) \<longleftrightarrow> seg_listed s W"
  by (auto simp: seg_listed_def list_ok_def links_first_def)

lemma bump_is_link [simp]: "sg_is_link a (bump h er W) = sg_is_link a W"
  by (simp add: sg_is_link_def)

definition same_frame :: "seg_el_iter \<Rightarrow> seg_el_iter \<Rightarrow> bool" where
  "same_frame it it' \<longleftrightarrow> si_foreign it' = si_foreign it \<and> si_session it' = si_session it \<and> si_seg it' = si_seg it"

definition lands :: "world \<Rightarrow> nat \<Rightarrow> held \<Rightarrow> errors \<Rightarrow> seg_el_iter \<Rightarrow> nat list \<Rightarrow> seg_el_iter \<Rightarrow> world \<Rightarrow> bool" where
  "lands W s h er it ys it' w' \<longleftrightarrow> same_frame it it' \<and>
     (if on_segment_items (si_foreign it) W ys = [] then w' = bump h er W \<and> si_val it' = 0
      else w' = bump (add_mset (K_addr (si_val it')) h) er W \<and> si_val it' \<noteq> 0 \<and> wd_addrs W (si_val it') \<noteq> None \<and>
        (\<exists>xs' ys'. on_segment_items (si_foreign it) W ys = si_val it' # on_segment_items (si_foreign it) W ys' \<and>
          seg_items s W = xs' @ ys' \<and> si_cursor it' = hd (ys' @ [0])))"

lemma lands_cursor: "lands W s h er (it\<lparr>si_cursor := c\<rparr>) ys it' w' \<longleftrightarrow> lands W s h er it ys it' w'"
  by (simp add: lands_def same_frame_def)

lemma on_segment_loop_ok:
  assumes "quiet W" "seg_listed s W" "homed s W"
  shows "seg_items s W = xs @ ys \<Longrightarrow> si_cursor it = hd (ys @ [0]) \<Longrightarrow> si_seg it = s \<Longrightarrow>
    \<exists>rv it' w'. on_segment_loop it (bump h er W) = Some (rv, it', w') \<and> lands W s h er it ys it' w'"
proof (induction ys arbitrary: xs it)
  case Nil
  then show ?case by (subst on_segment_loop.simps) (simp add: on_segment_items_def same_frame_def lands_def)
next
  case (Cons a ys)
  let ?it = "it\<lparr>si_cursor := hd (ys @ [0])\<rparr>" and ?w = "bump h er W"
  have a: "a \<noteq> 0" "a \<in> set (seg_items s W)" using seg_items_pos [OF assms(2)] Cons.prems(1) by (auto intro: gr0I)
  obtain e where e: "st_els W a = Some e" using assms(2) a(2) by (fastforce simp: seg_listed_def seg_items_def list_ok_def)
  have nx: "seg_iter_next (si_seg it) (si_cursor it) ?w = Some (a, hd (ys @ [0]))"
    using seg_iter_step [of s ?w xs a ys] assms(2) Cons.prems by simp
  have lk: "sg_is_link a W = Some (is_link_at W a)" using e by (simp add: sg_is_link_def is_link_at_def)
  show ?case
  proof (cases "(si_foreign it \<or> \<not> is_link_at W a) \<and> el_addr e \<noteq> 0")
    case False
    then have "on_segment_loop it ?w = on_segment_loop ?it ?w"
      using nx a(1) Cons.prems(2) e lk by (subst on_segment_loop.simps) (auto simp: sg_get_element_addr_def Let_def)
    moreover have "on_segment_items (si_foreign it) W (a # ys) = on_segment_items (si_foreign it) W ys"
      using False e by (auto simp: on_segment_items_def addr_at_def)
    then have "lands W s h er it (a # ys) it' w' \<longleftrightarrow> lands W s h er it ys it' w'" for it' w' by (simp only: lands_def)
    moreover obtain rv it' w' where "on_segment_loop ?it ?w = Some (rv, it', w')" "lands W s h er ?it ys it' w'"
      using Cons.IH [of "xs @ [a]" ?it] Cons.prems by auto
    ultimately show ?thesis unfolding lands_cursor by metis
  next
    case True
    have x: "addr_at W a = el_addr e" using e by (simp add: addr_at_def)
    obtain g where g: "wd_addrs W (el_addr e) = Some g"
      using quietD(1) [OF assms(1)] e True by (fastforce simp: wd_inv_def cells_def)
    have home: "si_foreign it \<or> ga_seg g = si_seg it" using True assms(3) a(2) g x Cons.prems(3) by (auto simp: homed_def)
    have "on_segment_loop it ?w = Some (RV_OK, ?it\<lparr>si_val := el_addr e\<rparr>, bump (add_mset (K_addr (el_addr e)) h) er W)"
      using nx a(1) Cons.prems(2) e lk True g home quietD(4) [OF assms(1) g]
      by (subst on_segment_loop.simps)
        (auto simp: sg_get_element_addr_def addr_is_dead_def addr_seg_def bump_addr_ref)
    moreover have "on_segment_items (si_foreign it) W (a # ys) = el_addr e # on_segment_items (si_foreign it) W ys"
      using True x by (auto simp: on_segment_items_def)
    then have "lands W s h er it (a # ys) (?it\<lparr>si_val := el_addr e\<rparr>) (bump (add_mset (K_addr (el_addr e)) h) er W)"
      using True g Cons.prems(1) by (simp add: lands_def same_frame_def) (rule exI [of _ "xs @ [a]"], rule exI [of _ ys], simp)
    ultimately show ?thesis by blast
  qed
qed

definition on_segment_holds :: "world \<Rightarrow> nat \<Rightarrow> nat \<Rightarrow> bool \<Rightarrow> world \<Rightarrow> nat list \<Rightarrow> seg_el_iter \<Rightarrow> world \<Rightarrow> bool" where
  "on_segment_holds W ss s foreign w0 ts it w \<longleftrightarrow>
     si_session it = ss \<and> si_seg it = s \<and> si_foreign it = foreign \<and>
     (\<exists>h er. w0 = bump h er W \<and>
       (if si_val it = 0 then ts = [] \<and> w = bump ({#K_session ss, K_seg s#} + h) er W
        else wd_addrs W (si_val it) \<noteq> None \<and> w = bump (add_mset (K_addr (si_val it)) ({#K_session ss, K_seg s#} + h)) er W \<and>
          (\<exists>xs ys. seg_items s W = xs @ ys \<and> si_cursor it = hd (ys @ [0]) \<and> ts = si_val it # on_segment_items foreign W ys)))"

lemma on_segment_loop_holds:
  assumes "quiet W" "seg_listed s W" "homed s W" "seg_items s W = xs @ ys"
    and "si_cursor it = hd (ys @ [0])" "si_seg it = s" "si_session it = ss"
  shows "\<exists>rv it' w'. on_segment_loop it (bump ({#K_session ss, K_seg s#} + h) er W) = Some (rv, it', w') \<and>
    on_segment_holds W ss s (si_foreign it) (bump h er W) (on_segment_items (si_foreign it) W ys) it' w'"
proof -
  obtain rv it' w' where l: "on_segment_loop it (bump ({#K_session ss, K_seg s#} + h) er W) = Some (rv, it', w')"
    "lands W s ({#K_session ss, K_seg s#} + h) er it ys it' w'" using on_segment_loop_ok [OF assms(1-6)] by blast
  have "on_segment_holds W ss s (si_foreign it) (bump h er W) (on_segment_items (si_foreign it) W ys) it' w'"
    unfolding on_segment_holds_def
    by (intro conjI exI [of _ h] exI [of _ er]) (use l(2) assms(6,7) in \<open>auto simp: lands_def same_frame_def split: if_splits\<close>)
  then show ?thesis using l(1) by blast
qed

lemma on_segment_next_ok:
  assumes "quiet W" "seg_listed s W" "homed s W" "on_segment_holds W ss s foreign w0 (t # ts) it w"
  shows "on_segment_value it 0 = t \<and> (\<exists>rv it' w'. on_segment_next it w = Some (rv, it', w') \<and> on_segment_holds W ss s foreign w0 ts it' w')"
proof -
  obtain h er xs ys where st: "si_session it = ss" "si_seg it = s" "si_foreign it = foreign" "w0 = bump h er W" "si_val it \<noteq> 0"
    "wd_addrs W (si_val it) \<noteq> None" "w = bump (add_mset (K_addr (si_val it)) ({#K_session ss, K_seg s#} + h)) er W"
    "seg_items s W = xs @ ys" "si_cursor it = hd (ys @ [0])" "t = si_val it" "ts = on_segment_items foreign W ys"
    using assms(4) unfolding on_segment_holds_def by (auto split: if_splits)
  have "on_segment_next it w = on_segment_loop it (bump ({#K_session ss, K_seg s#} + h) er W)"
    using st(5,7) bump_addr_unref [OF assms(1) st(6), of "{#K_session ss, K_seg s#} + h" er] by (simp add: on_segment_next_def)
  then show ?thesis using on_segment_loop_holds [OF assms(1-3) st(8,9,2,1), of h er] st by (auto simp: on_segment_value_def)
qed

lemma on_segment_delete_ok:
  assumes "quiet W" "wd_sessions W ss \<noteq> None" "st_segs W s \<noteq> None" "on_segment_holds W ss s foreign w0 ts it w"
  shows "on_segment_delete it w = Some w0"
proof -
  obtain h er where st: "si_session it = ss" "si_seg it = s" "w0 = bump h er W"
    and "(if si_val it \<noteq> 0 then addr_unref (si_val it) w else Some w) = Some (bump ({#K_session ss, K_seg s#} + h) er W)"
    using assms(4) bump_addr_unref [OF assms(1)] unfolding on_segment_holds_def by (auto split: if_splits)
  then show ?thesis
    using bump_session_unref [OF assms(1,2), of "add_mset (K_seg s) h" er] bump_seg_unref [OF assms(1,3), of h er]
    by (simp add: on_segment_delete_def)
qed

fun on_segment_collect :: "nat \<Rightarrow> seg_el_iter \<Rightarrow> world \<Rightarrow> (nat list \<times> world) option" where
  "on_segment_collect 0 it w = None"
| "on_segment_collect (Suc n) it w =
     (if si_val it = 0 then do { w \<leftarrow> on_segment_delete it w; Some ([], w) }
      else do {
        (_, it', w) \<leftarrow> on_segment_next it w;
        (vs, w) \<leftarrow> on_segment_collect n it' w;
        Some (on_segment_value it 0 # vs, w)
      })"

lemma on_segment_holds_over: "on_segment_holds W ss s foreign w0 ts it w \<Longrightarrow> si_val it = 0 \<longleftrightarrow> ts = []"
  by (auto simp: on_segment_holds_def split: if_splits)

lemma on_segment_collect_ok:
  assumes "quiet W" "seg_listed s W" "homed s W" "wd_sessions W ss \<noteq> None" "st_segs W s \<noteq> None"
  shows "on_segment_holds W ss s foreign w0 ts it w \<Longrightarrow> length ts < n \<Longrightarrow> on_segment_collect n it w = Some (ts, w0)"
proof (induction ts arbitrary: it w n)
  case Nil
  then obtain k where "n = Suc k" by (cases n) auto
  then show ?case using on_segment_holds_over [OF Nil.prems(1)] on_segment_delete_ok [OF assms(1,4,5) Nil.prems(1)] by simp
next
  case (Cons t ts)
  then obtain k where k: "n = Suc k" by (cases n) auto
  have "on_segment_value it 0 = t \<and> (\<exists>rv it' w'. on_segment_next it w = Some (rv, it', w') \<and> on_segment_holds W ss s foreign w0 ts it' w')"
    by (rule on_segment_next_ok [OF assms(1-3) Cons.prems(1)])
  then obtain rv it' w' where nx: "on_segment_value it 0 = t" "on_segment_next it w = Some (rv, it', w')"
    "on_segment_holds W ss s foreign w0 ts it' w'" by blast
  have "on_segment_collect k it' w' = Some (ts, w0)" using Cons.IH [OF nx(3)] Cons.prems(2) k by simp
  then show ?case using nx(1,2) k on_segment_holds_over [OF Cons.prems(1)] by simp
qed

section \<open>Properties\<close>

text \<open>Two nodes \<open>7\<close> and \<open>8\<close> with an arc \<open>9\<close> between them that the attribute \<open>10\<close> marks by the arc \<open>13\<close>.\<close>

definition tuple_world :: world where
  "tuple_world = small_world\<lparr>
     st_els := [2 \<mapsto> (new_element SC_N_CONST TMP_MISSING_IDTF)\<lparr>el_addr := 7, el_output := [11], el_out_qnt := 1\<rparr>,
        3 \<mapsto> (new_element SC_N_CONST TMP_MISSING_IDTF)\<lparr>el_addr := 8, el_input := [12], el_in_qnt := 1\<rparr>,
        4 \<mapsto> (new_element SC_ARC_MAIN TMP_MISSING_IDTF)\<lparr>el_addr := 9, el_beg := 2, el_beg_hint := 11, el_end := 3, el_end_hint := 12,
           el_input := [15], el_in_qnt := 1\<rparr>,
        5 \<mapsto> (new_element SC_N_CONST TMP_MISSING_IDTF)\<lparr>el_addr := 10, el_output := [14], el_out_qnt := 1\<rparr>,
        6 \<mapsto> (new_element SC_ARC_MAIN TMP_MISSING_IDTF)\<lparr>el_addr := 13, el_beg := 5, el_beg_hint := 14, el_end := 4, el_end_hint := 15\<rparr>],
     st_links := [11 \<mapsto> quiet_link 4, 12 \<mapsto> quiet_link 4, 14 \<mapsto> quiet_link 6, 15 \<mapsto> quiet_link 6],
     st_segs := [1 \<mapsto> (new_segment 0 ''s'' ''/'' ''p'')\<lparr>sg_list := [2, 3, 4, 5, 6]\<rparr>],
     wd_addrs := [7 \<mapsto> new_gaddr 1 2 0 0, 8 \<mapsto> new_gaddr 1 3 0 0, 9 \<mapsto> new_gaddr 1 4 0 0, 10 \<mapsto> new_gaddr 1 5 0 0, 13 \<mapsto> new_gaddr 1 6 0 0]\<rparr>"

lemma tuple_world_sel:
  "wd_addrs tuple_world = [7 \<mapsto> new_gaddr 1 2 0 0, 8 \<mapsto> new_gaddr 1 3 0 0, 9 \<mapsto> new_gaddr 1 4 0 0, 10 \<mapsto> new_gaddr 1 5 0 0, 13 \<mapsto> new_gaddr 1 6 0 0]"
  "st_segs tuple_world = [1 \<mapsto> (new_segment 0 ''s'' ''/'' ''p'')\<lparr>sg_list := [2, 3, 4, 5, 6]\<rparr>]"
  "wd_sessions tuple_world = wd_sessions small_world" "st_fresh tuple_world = 20"
  by (simp_all add: tuple_world_def small_world_def)

lemma tuple_world_inv: "wd_inv tuple_world"
proof -
  have "store_adj tuple_world"
    by (auto simp: store_adj_def adj_ok_def adj_inv_def fresh_ok_def tuple_world_def small_world_def view_defs
        new_element_def adj_def quiet_link_def split: side.splits if_splits)
  then show ?thesis
    by (auto simp: wd_inv_def gaddr_ok_def new_gaddr_def links_sorted_def cells_def tuple_world_def small_world_def
        new_element_def el_is_link_def new_segment_def SC_MAX_SEGMENTS_def split: if_splits)
qed

lemma tuple_world_quiet: "quiet tuple_world"
  unfolding quiet_def
  by (auto simp: tuple_world_inv tuple_world_sel new_gaddr_def new_segment_def new_session_def vT_def)
    (auto simp: tuple_world_def new_element_def split: if_splits)

lemma tuple_world_place: "place_addrs sd tuple_world ll =
    (if sd = Beg \<and> ll = 2 \<or> sd = End \<and> ll = 3 then [9] else if sd = Beg \<and> ll = 5 \<or> sd = End \<and> ll = 4 then [13] else [])"
  by (cases sd) (simp_all add: place_addrs_def vA_def arc_addr_def tuple_world_def new_element_def adj_def quiet_link_def)

lemma tuple_world_seen: "arcs_seen Beg 5 tuple_world 7 = [9]" "arcs_seen End 5 tuple_world 9 = [13]"
  "set (arcs_seen sd ss tuple_world a) \<subseteq> {9, 13}"
  by (auto simp: arcs_seen_def arcs_left_def tuple_world_sel tuple_world_place new_gaddr_def split: if_splits)

lemma tuple_world_types: "raw_type tuple_world 8 = SC_N_CONST" "raw_type tuple_world 9 = SC_ARC_MAIN" "raw_type tuple_world 13 = SC_ARC_MAIN"
  "end_of_arc End tuple_world 9 = Some 8" "end_of_arc Beg tuple_world 13 = Some 10"
  by (simp_all add: raw_type_def end_of_arc_def element_of_def tuple_world_sel new_gaddr_def)
    (simp_all add: tuple_world_def new_element_def)

lemma tuple_world_opened: "session_opened 5 1 tuple_world = Some True" "sees 5 tuple_world 8"
proof -
  show o: "session_opened 5 1 tuple_world = Some True"
    using small_opened [of 5] by (simp add: session_opened_def tuple_world_sel new_segment_def)
  then show "sees 5 tuple_world 8" by (simp add: sees_def tuple_world_sel new_gaddr_def)
qed

lemma tuple_world_cells: "is_link_at tuple_world a = False" "seg_items 1 tuple_world = [2, 3, 4, 5, 6]"
  "addr_at tuple_world 2 = 7" "addr_at tuple_world 3 = 8" "addr_at tuple_world 4 = 9" "addr_at tuple_world 5 = 10" "addr_at tuple_world 6 = 13"
  by (simp_all add: is_link_at_def seg_items_def addr_at_def tuple_world_def new_element_def el_is_link_def)

lemma tuple_world_listed: "seg_listed 1 tuple_world" "homed 1 tuple_world"
  "on_segment_items False tuple_world [2, 3, 4, 5, 6] = [7, 8, 9, 10, 13]"
proof -
  have "\<forall>a \<in> {2, 3, 4, 5, 6}. st_els tuple_world a \<noteq> None" by (simp add: tuple_world_def)
  then show "seg_listed 1 tuple_world" by (simp add: seg_listed_def list_ok_def links_first_def tuple_world_sel tuple_world_cells(1))
  show "homed 1 tuple_world" by (simp add: homed_def tuple_world_cells tuple_world_sel new_gaddr_def)
  show "on_segment_items False tuple_world [2, 3, 4, 5, 6] = [7, 8, 9, 10, 13]" by (simp add: on_segment_items_def tuple_world_cells)
qed

lemma tuple_world_answers: "connectors 5 tuple_world" "answers_5_faaaf 5 tuple_world 7 SC_ARC_MAIN 0 SC_ARC_MAIN 10 = [[7, 9, 8, 13, 10]]"
proof -
  have "SC_ARC_MAIN AND SC_CONNECTOR_MASK \<noteq> 0" by code_simp
  then show "connectors 5 tuple_world" using tuple_world_seen(3) tuple_world_types unfolding connectors_def by fastforce
  have "check_sc_type_raw SC_ARC_MAIN (sc_type_extend_mask SC_ARC_MAIN)" "check_sc_type_raw SC_N_CONST (sc_type_extend_mask 0)" by code_simp+
  then show "answers_5_faaaf 5 tuple_world 7 SC_ARC_MAIN 0 SC_ARC_MAIN 10 = [[7, 9, 8, 13, 10]]"
    using tuple_world_opened(2)
    by (simp add: answers_5_faaaf_def answers_from_def tuple_world_seen tuple_world_types third_def attributed_def)
qed

text \<open>C13. The custom iterators are complete over a quiet memory. The iterator behind
  \<open>CONSTR_5_f_a_a_a_f\<close> gives, for every accessible arc from \<open>e1\<close> whose end is in an opened segment
  and fits, the arcs to this arc that come from \<open>e5\<close>, in the order of the lists of arcs; the iterator
  over a segment gives the addresses of its elements in the order of its list, links only when asked
  for. When all answers are taken the memory is as it was before: every reference is given back.\<close>

theorem custom_iterators_complete:
  assumes "quiet W" "wd_sessions W ss \<noteq> None"
    and "connectors ss W" "wd_addrs W e1 \<noteq> None" "wd_addrs W e5 \<noteq> None"
    and "session_opened ss s W = Some True" "seg_listed s W" "homed s W"
  shows "(\<exists>N. \<forall>n \<ge> N. (do { (it, w) \<leftarrow> std5_f_a_a_a_f ss e1 t2 t3 t4 e5 W; std5_collect n it w }) =
      Some (answers_5_faaaf ss W e1 t2 t3 t4 e5, W)) \<and>
    (\<exists>N. \<forall>n \<ge> N. (do { (it, w) \<leftarrow> std_on_segment ss s foreign W; it \<leftarrow> it; on_segment_collect n it w }) =
      Some (on_segment_items foreign W (seg_items s W), W))"
proof (intro conjI)
  let ?A = "answers_5_faaaf ss W e1 t2 t3 t4 e5"
  obtain it w where "std5_f_a_a_a_f ss e1 t2 t3 t4 e5 W = Some (it, w)" "std5_holds W W ?A it w" "s5_session it = ss"
    using std5_new_ok [OF assms(1,3,2,4,5), of t2 t3 t4 "{#}" "\<lambda>_. None"] by (auto simp: bump_none)
  then show "\<exists>N. \<forall>n \<ge> N. (do { (it, w) \<leftarrow> std5_f_a_a_a_f ss e1 t2 t3 t4 e5 W; std5_collect n it w }) = Some (?A, W)"
    using std5_collect_ok [OF assms(1)] assms(3) by (intro exI [of _ "Suc (length ?A)"]) simp
next
  let ?B = "on_segment_items foreign W (seg_items s W)" and ?h = "{#K_session ss, K_seg s#}"
  let ?it = "\<lparr>si_cursor = hd (seg_items s W @ [0]), si_foreign = foreign, si_session = ss, si_val = 0, si_seg = s\<rparr>"
  have sg: "st_segs W s \<noteq> None" using assms(7) by (auto simp: seg_listed_def)
  obtain rv it w where l: "on_segment_loop ?it (bump ?h (\<lambda>_. None) W) = Some (rv, it, w)" "on_segment_holds W ss s foreign W ?B it w"
    using on_segment_loop_holds [OF assms(1,7,8), of "[]" "seg_items s W" ?it ss "{#}" "\<lambda>_. None"] by (auto simp: bump_none)
  have "session_ref ss W = Some (bump {#K_session ss#} (\<lambda>_. None) W)"
    using bump_session_ref [OF assms(2), of "{#}" "\<lambda>_. None"] by (simp add: bump_none)
  moreover have "seg_ref s (bump {#K_session ss#} (\<lambda>_. None) W) = Some (bump ?h (\<lambda>_. None) W)"
    using bump_seg_ref [OF sg, of "{#K_session ss#}"] by (simp add: add_mset_commute)
  ultimately have "std_on_segment ss s foreign W = Some (Some it, w)"
    using assms(6) seg_iter_start [OF assms(7)] l(1) by (simp add: std_on_segment_def on_segment_next_def)
  then show "\<exists>N. \<forall>n \<ge> N. (do { (it, w) \<leftarrow> std_on_segment ss s foreign W; it \<leftarrow> it; on_segment_collect n it w }) = Some (?B, W)"
    using on_segment_collect_ok [OF assms(1,7,8,2) sg l(2)] by (intro exI [of _ "Suc (length ?B)"]) simp
qed

theorem custom_iterators_complete_witness:
  "(\<exists>n. (do { (it, w) \<leftarrow> std5_f_a_a_a_f 5 7 SC_ARC_MAIN 0 SC_ARC_MAIN 10 tuple_world; std5_collect n it w }) =
      Some ([[7, 9, 8, 13, 10]], tuple_world)) \<and>
   (\<exists>n. (do { (it, w) \<leftarrow> std_on_segment 5 1 False tuple_world; it \<leftarrow> it; on_segment_collect n it w }) =
      Some ([7, 8, 9, 10, 13], tuple_world))"
proof -
  have k: "wd_sessions tuple_world 5 \<noteq> None" "wd_addrs tuple_world 7 \<noteq> None" "wd_addrs tuple_world 10 \<noteq> None"
    by (simp_all add: tuple_world_sel)
  show ?thesis
    using custom_iterators_complete [OF tuple_world_quiet k(1) tuple_world_answers(1) k(2,3) tuple_world_opened(1) tuple_world_listed(1,2),
        of SC_ARC_MAIN 0 SC_ARC_MAIN False]
    unfolding tuple_world_answers(2) tuple_world_cells(2) tuple_world_listed(3) by blast
qed

end
