(* ===== verification/Sc_Set.thy ===== *)
theory Sc_Set
  imports Custom_Iter
begin

text \<open>
  Sets kept in the memory (\<open>libsc/libsc/sc_set.cpp\<close>, \<open>sc_set.h\<close>): the members of a set are the ends
  of the arcs from it. Everything is done through a session and its iterators over arcs. Membership
  is decided whichever of the two lists of arcs is searched. A null argument, which \<open>SC_ASSERT\<close>
  refuses, is \<open>None\<close>.
\<close>

section \<open>Loops over the arcs of an element\<close>

text \<open>The loop \<open>for (; !it.is_over(); it.next())\<close> over a \<open>meta_iterator\<close>, whose body tells whether to
  leave the loop, and the iterator's life around it.\<close>

partial_function (option) arcs_loop ::
  "side \<Rightarrow> (nat \<Rightarrow> 'x \<Rightarrow> world \<Rightarrow> (bool \<times> 'x \<times> world) option) \<Rightarrow> meta_iter \<Rightarrow> 'x \<Rightarrow> world \<Rightarrow> ('x \<times> meta_iter \<times> world) option" where
  "arcs_loop sd body m x w =
     (if meta_is_over m then Some (x, m, w)
      else do {
        (stop, x, w) \<leftarrow> body (meta_value m 1) x w;
        (if stop then Some (x, m, w)
         else do { (_, m, w) \<leftarrow> meta_next sd m w; arcs_loop sd body m x w })
      })"

definition each_arc ::
  "side \<Rightarrow> nat \<Rightarrow> nat \<Rightarrow> (nat \<Rightarrow> 'x \<Rightarrow> world \<Rightarrow> (bool \<times> 'x \<times> world) option) \<Rightarrow> 'x \<Rightarrow> world \<Rightarrow> ('x \<times> world) option" where
  "each_arc sd ss a body x w =
     do {
       (m, w) \<leftarrow> meta_new sd a ss w;
       (x, m, w) \<leftarrow> arcs_loop sd body m x w;
       w \<leftarrow> meta_delete m w;
       Some (x, w)
     }"

section \<open>Membership\<close>

definition set_is_empty :: "nat \<Rightarrow> nat \<Rightarrow> world \<Rightarrow> (bool \<times> world) option" where
  "set_is_empty ss st w =
     do {
       ensure (st \<noteq> 0);
       each_arc Beg ss st
         (\<lambda>arc _ w. do { (t, w) \<leftarrow> get_type ss arc w; Some (if sc_isa t SC_POS then (True, False, w) else (False, True, w)) }) True w
     }"

text \<open>The shorter list is searched, by the counters of the two addresses.\<close>

definition set_is_in :: "nat \<Rightarrow> nat \<Rightarrow> nat \<Rightarrow> world \<Rightarrow> (nat \<times> world) option" where
  "set_is_in ss el st w =
     do {
       ensure (el \<noteq> 0 \<and> st \<noteq> 0);
       g \<leftarrow> wd_addrs w el;
       h \<leftarrow> wd_addrs w st;
       (if ga_in_qnt g > ga_out_qnt h then
          each_arc Beg ss st
            (\<lambda>arc _ w. do { (b, w) \<leftarrow> get_end ss arc w; Some (if b = el then (True, arc, w) else (False, 0, w)) }) 0 w
        else
          each_arc End ss el
            (\<lambda>arc _ w. do { (b, w) \<leftarrow> get_beg ss arc w; Some (if b = st then (True, arc, w) else (False, 0, w)) }) 0 w)
     }"

text \<open>The arguments are read up to a null address; the overloads pass two to nine sets and then null.\<close>

fun set_is_in_any_m :: "nat \<Rightarrow> nat \<Rightarrow> nat list \<Rightarrow> world \<Rightarrow> (nat \<times> world) option" where
  "set_is_in_any_m ss el [] w = None"
| "set_is_in_any_m ss el (st # sets) w =
     do {
       ensure (el \<noteq> 0);
       (if st = 0 then Some (0, w)
        else do {
          (arc, w) \<leftarrow> set_is_in ss el st w;
          (if arc \<noteq> 0 then Some (arc, w) else set_is_in_any_m ss el sets w)
        })
     }"

fun set_is_in_all_m :: "nat \<Rightarrow> nat \<Rightarrow> nat list \<Rightarrow> world \<Rightarrow> (bool \<times> world) option" where
  "set_is_in_all_m ss el [] w = None"
| "set_is_in_all_m ss el (st # sets) w =
     do {
       ensure (el \<noteq> 0);
       (if st = 0 then Some (True, w)
        else do {
          (arc, w) \<leftarrow> set_is_in ss el st w;
          (if arc = 0 then Some (False, w) else set_is_in_all_m ss el sets w)
        })
     }"

definition set_is_in_any :: "nat \<Rightarrow> nat \<Rightarrow> nat list \<Rightarrow> world \<Rightarrow> (nat \<times> world) option" where
  "set_is_in_any ss el sets w = set_is_in_any_m ss el (sets @ [0]) w"

definition set_is_in_all :: "nat \<Rightarrow> nat \<Rightarrow> nat list \<Rightarrow> world \<Rightarrow> (bool \<times> world) option" where
  "set_is_in_all ss el sets w = set_is_in_all_m ss el (sets @ [0]) w"

text \<open>\<open>unpack\<close>: the last place of the array where the set stands is marked.\<close>

fun mark_last :: "nat \<Rightarrow> nat list \<Rightarrow> nat \<Rightarrow> bool list \<Rightarrow> bool list" where
  "mark_last st sets 0 rv = rv"
| "mark_last st sets (Suc i) rv = (if sets ! i = st then rv[i := True] else mark_last st sets i rv)"

definition set_unpack :: "nat \<Rightarrow> nat \<Rightarrow> nat list \<Rightarrow> world \<Rightarrow> (bool list \<times> world) option" where
  "set_unpack ss el sets w =
     each_arc End ss el
       (\<lambda>arc rv w. do { (st, w) \<leftarrow> get_beg ss arc w; Some (False, mark_last st sets (length sets) rv, w) })
       (replicate (length sets) False) w"

section \<open>Inclusion and exclusion\<close>

text \<open>A list of arguments ends at a null address. The code ignores what \<open>gen3_f_a_f\<close> returns; \<open>arc\<close>
  keeps its old value when nothing was made. \<open>n\<close> is the depth to which a failed arc is erased.\<close>

fun upto_null :: "nat list \<Rightarrow> nat list" where
  "upto_null [] = []"
| "upto_null (x # xs) = (if x = 0 then [] else x # upto_null xs)"

definition arc_type_in :: "sc_type \<Rightarrow> sc_type" where
  "arc_type_in const_type = SC_ARC_ACCESSORY OR const_type OR SC_POS"

fun include_in_loop :: "nat \<Rightarrow> nat \<Rightarrow> nat \<Rightarrow> nat \<Rightarrow> nat \<Rightarrow> nat list \<Rightarrow> world \<Rightarrow> (nat \<times> world) option" where
  "include_in_loop n ss seg el arc [] w = Some (arc, w)"
| "include_in_loop n ss seg el arc (st # sets) w =
     do {
       (t, w) \<leftarrow> get_type ss st w;
       (_, made, w) \<leftarrow> gen3_f_a_f n ss st seg (arc_type_in (t AND SC_CONSTANCY_MASK)) el w;
       include_in_loop n ss seg el (case made of None \<Rightarrow> arc | Some a \<Rightarrow> a) sets w
     }"

definition set_include_in_v :: "nat \<Rightarrow> nat \<Rightarrow> nat \<Rightarrow> nat \<Rightarrow> nat list \<Rightarrow> world \<Rightarrow> (nat \<times> world) option" where
  "set_include_in_v n ss seg el sets w =
     do { ensure (seg \<noteq> 0 \<and> el \<noteq> 0); include_in_loop n ss seg el 0 (upto_null sets) w }"

definition set_include_in_m :: "nat \<Rightarrow> nat \<Rightarrow> nat \<Rightarrow> nat list \<Rightarrow> world \<Rightarrow> (nat \<times> world) option" where
  "set_include_in_m n ss el sets w = do { s \<leftarrow> addr_seg el w; set_include_in_v n ss s el sets w }"

fun include_loop :: "nat \<Rightarrow> nat \<Rightarrow> nat \<Rightarrow> nat \<Rightarrow> sc_type \<Rightarrow> nat list \<Rightarrow> world \<Rightarrow> world option" where
  "include_loop n ss seg st t [] w = Some w"
| "include_loop n ss seg st t (el # els) w =
     do { (_, _, w) \<leftarrow> gen3_f_a_f n ss st seg t el w; include_loop n ss seg st t els w }"

definition set_include_v :: "nat \<Rightarrow> nat \<Rightarrow> nat \<Rightarrow> nat \<Rightarrow> nat list \<Rightarrow> world \<Rightarrow> world option" where
  "set_include_v n ss seg st els w =
     do {
       ensure (seg \<noteq> 0 \<and> st \<noteq> 0);
       (t, w) \<leftarrow> get_type ss st w;
       include_loop n ss seg st (arc_type_in (t AND SC_CONSTANCY_MASK)) (upto_null els) w
     }"

text \<open>The overloads of \<open>include_in\<close> and \<open>include\<close> for one to nine arguments: those with a segment
  pass their arguments on. Those of \<open>include\<close> without a segment call \<open>include_in_m\<close>, with the set as
  its element and the elements as its sets, and from six arguments on they leave out the fifth.\<close>

definition set_include_in_seg :: "nat \<Rightarrow> nat \<Rightarrow> nat \<Rightarrow> nat \<Rightarrow> nat list \<Rightarrow> world \<Rightarrow> (nat \<times> world) option" where
  "set_include_in_seg n ss seg el sets w = set_include_in_v n ss seg el (sets @ [0]) w"

definition set_include_in :: "nat \<Rightarrow> nat \<Rightarrow> nat \<Rightarrow> nat list \<Rightarrow> world \<Rightarrow> (nat \<times> world) option" where
  "set_include_in n ss el sets w = set_include_in_m n ss el (sets @ [0]) w"

definition set_include_seg :: "nat \<Rightarrow> nat \<Rightarrow> nat \<Rightarrow> nat \<Rightarrow> nat list \<Rightarrow> world \<Rightarrow> world option" where
  "set_include_seg n ss seg st els w = set_include_v n ss seg st (els @ [0]) w"

definition set_include :: "nat \<Rightarrow> nat \<Rightarrow> nat \<Rightarrow> nat list \<Rightarrow> world \<Rightarrow> world option" where
  "set_include n ss st els w =
     do {
       (_, w) \<leftarrow> set_include_in_m n ss st ((if length els < 6 then els else take 4 els @ drop 5 els) @ [0]) w;
       Some w
     }"

definition exclude_body :: "nat \<Rightarrow> nat \<Rightarrow> (nat \<Rightarrow> world \<Rightarrow> (nat \<times> world) option) \<Rightarrow> nat \<Rightarrow> bool \<Rightarrow>
    nat \<Rightarrow> bool \<Rightarrow> world \<Rightarrow> (bool \<times> bool \<times> world) option" where
  "exclude_body n ss far x is_cantor arc rv w =
     do {
       (t, w) \<leftarrow> get_type ss arc w;
       (if \<not> sc_isa t SC_POS then Some (False, rv, w)
        else do {
          (b, w) \<leftarrow> far arc w;
          (if b = x then do { (_, w) \<leftarrow> erase_el n ss arc w; Some (is_cantor, True, w) } else Some (False, rv, w))
        })
     }"

fun exclude_from_loop :: "nat \<Rightarrow> nat \<Rightarrow> nat \<Rightarrow> bool \<Rightarrow> bool \<Rightarrow> nat list \<Rightarrow> world \<Rightarrow> (bool \<times> world) option" where
  "exclude_from_loop n ss el is_cantor rv [] w = Some (rv, w)"
| "exclude_from_loop n ss el is_cantor rv (st # sets) w =
     do {
       g \<leftarrow> wd_addrs w el;
       h \<leftarrow> wd_addrs w st;
       (rv, w) \<leftarrow> (if ga_in_qnt g > ga_out_qnt h then each_arc Beg ss st (exclude_body n ss (get_end ss) el is_cantor) rv w
                   else each_arc End ss el (exclude_body n ss (get_beg ss) st is_cantor) rv w);
       exclude_from_loop n ss el is_cantor rv sets w
     }"

definition set_exclude_from_v :: "nat \<Rightarrow> nat \<Rightarrow> nat \<Rightarrow> bool \<Rightarrow> nat list \<Rightarrow> world \<Rightarrow> (bool \<times> world) option" where
  "set_exclude_from_v n ss el is_cantor sets w =
     do { ensure (el \<noteq> 0); exclude_from_loop n ss el is_cantor False (upto_null sets) w }"

definition set_exclude_from :: "nat \<Rightarrow> nat \<Rightarrow> nat \<Rightarrow> nat list \<Rightarrow> world \<Rightarrow> (bool \<times> world) option" where
  "set_exclude_from n ss el sets w = set_exclude_from_v n ss el True (sets @ [0]) w"

definition set_exclude_multi_from :: "nat \<Rightarrow> nat \<Rightarrow> nat \<Rightarrow> nat list \<Rightarrow> world \<Rightarrow> (bool \<times> world) option" where
  "set_exclude_multi_from n ss el sets w = set_exclude_from_v n ss el False (sets @ [0]) w"

definition set_erase_from :: "nat \<Rightarrow> nat \<Rightarrow> nat \<Rightarrow> world \<Rightarrow> world option" where
  "set_erase_from n ss st w =
     do {
       ensure (st \<noteq> 0);
       (_, w) \<leftarrow> each_arc Beg ss st
         (\<lambda>arc _ w. do {
            (t, w) \<leftarrow> get_type ss arc w;
            (if sc_isa t SC_POS then do { (e, w) \<leftarrow> get_end ss arc w; (_, w) \<leftarrow> erase_el n ss e w; Some (False, (), w) }
             else Some (False, (), w))
          }) () w;
       Some w
     }"

section \<open>Copies\<close>

text \<open>\<open>my_find\<close> in a vector whose keys ascend: \<open>lower_bound\<close>, then the comparison.\<close>

definition my_find :: "(nat \<times> nat) list \<Rightarrow> nat \<Rightarrow> nat" where
  "my_find vec key =
     (case dropWhile (\<lambda>p. fst p < key) vec of [] \<Rightarrow> 0 | p # _ \<Rightarrow> if key \<noteq> fst p then 0 else snd p)"

text \<open>The ends of the copies that stood at \<open>element\<close> move to its copy \<open>c\<close>. The arcs of an element that
  are greater than it are copied later and find the copy themselves.\<close>

definition move_ends :: "side \<Rightarrow> nat \<Rightarrow> (nat \<times> nat) list \<Rightarrow> nat \<Rightarrow> nat \<Rightarrow> world \<Rightarrow> world option" where
  "move_ends sd ss copies element c w =
     do {
       (_, w) \<leftarrow> each_arc sd ss element
         (\<lambda>arc _ w.
            if arc \<ge> element \<or> my_find copies arc = 0 then Some (False, (), w)
            else do {
              (_, w) \<leftarrow> (case sd of End \<Rightarrow> set_end ss (my_find copies arc) c w | Beg \<Rightarrow> set_beg ss (my_find copies arc) c w);
              Some (False, (), w)
            }) () w;
       Some w
     }"

definition copied :: "(nat \<times> nat) list \<Rightarrow> nat \<Rightarrow> nat \<Rightarrow> nat" where
  "copied copies element x = (if x \<noteq> 0 \<and> x \<le> element \<and> my_find copies x \<noteq> 0 then my_find copies x else x)"

definition copy_one ::
  "(bytes \<Rightarrow> bytes) \<Rightarrow> (nat \<Rightarrow> nat \<Rightarrow> world \<Rightarrow> world option) \<Rightarrow> nat \<Rightarrow> nat \<Rightarrow> (nat \<times> nat) list \<Rightarrow> nat \<Rightarrow> world \<Rightarrow>
   ((nat \<times> nat) list \<times> world) option" where
  "copy_one md5 cb ss to copies element w =
     do {
       (t, w) \<leftarrow> get_type ss element w;
       (c, w) \<leftarrow> create_el ss to t w;
       w \<leftarrow> move_ends End ss copies element c w;
       w \<leftarrow> move_ends Beg ss copies element c w;
       let copies = copies @ [(element, c)];
       (t, w) \<leftarrow> get_type ss element w;
       w \<leftarrow> (if sc_isa t SC_CONNECTOR_MASK then
               do {
                 (b, w) \<leftarrow> get_beg ss element w;
                 (e, w) \<leftarrow> get_end ss element w;
                 (_, w) \<leftarrow> set_end ss c (copied copies element e) w;
                 (_, w) \<leftarrow> set_beg ss c (copied copies element b) w;
                 Some w
               }
             else Some w);
       (idtf, w) \<leftarrow> get_idtf ss element w;
       (_, w) \<leftarrow> set_idtf ss c idtf w;
       (cont, w) \<leftarrow> get_content ss element w;
       (_, w) \<leftarrow> set_content md5 ss c cont w;
       w \<leftarrow> cb element c w;
       Some (copies, w)
     }"

text \<open>The elements in their order; the callback may change the memory.\<close>

fun copy_loop ::
  "(bytes \<Rightarrow> bytes) \<Rightarrow> (nat \<Rightarrow> nat \<Rightarrow> world \<Rightarrow> world option) \<Rightarrow> nat \<Rightarrow> nat \<Rightarrow> (nat \<times> nat) list \<Rightarrow> nat list \<Rightarrow> world \<Rightarrow> world option" where
  "copy_loop md5 cb ss to copies [] w = Some w"
| "copy_loop md5 cb ss to copies (element # a_set) w =
     do { (copies, w) \<leftarrow> copy_one md5 cb ss to copies element w; copy_loop md5 cb ss to copies a_set w }"

definition set_copy ::
  "(bytes \<Rightarrow> bytes) \<Rightarrow> (nat \<Rightarrow> nat \<Rightarrow> world \<Rightarrow> world option) \<Rightarrow> nat \<Rightarrow> nat \<Rightarrow> nat set \<Rightarrow> world \<Rightarrow> world option" where
  "set_copy md5 cb ss to a_set w = copy_loop md5 cb ss to [] (sorted_list_of_set a_set) w"

section \<open>Loops that only read\<close>

text \<open>What such a loop computes: \<open>F\<close> gives for an arc whether to stop, and the result so far.\<close>

fun walk :: "(nat \<Rightarrow> 'x \<Rightarrow> bool \<times> 'x) \<Rightarrow> nat list \<Rightarrow> 'x \<Rightarrow> 'x" where
  "walk F [] s = s"
| "walk F (x # xs) s = (if fst (F x s) then snd (F x s) else walk F xs (snd (F x s)))"

definition reads :: "world \<Rightarrow> (nat \<Rightarrow> 'x \<Rightarrow> world \<Rightarrow> (bool \<times> 'x \<times> world) option) \<Rightarrow> (nat \<Rightarrow> 'x \<Rightarrow> bool \<times> 'x) \<Rightarrow> bool" where
  "reads W body F \<longleftrightarrow> (\<forall>x s h er. wd_addrs W x \<noteq> None \<longrightarrow>
     (\<exists>er'. body x s (bump h er W) = Some (fst (F x s), snd (F x s), bump h er' W)))"

lemma silent_trans: "silent a b \<Longrightarrow> silent b c \<Longrightarrow> silent a c"
  by (simp add: silent_def)

lemma arcs_loop_reads:
  assumes "quiet W" "reads W body F"
  shows "meta_holds sd ss W w0 xs m w \<Longrightarrow> \<forall>x \<in> set xs. wd_addrs W x \<noteq> None \<Longrightarrow>
    \<exists>m' w' w0' xs'. arcs_loop sd body m s w = Some (walk F xs s, m', w') \<and> meta_holds sd ss W w0' xs' m' w' \<and> silent w0 w0'"
proof (induction xs arbitrary: m w w0 s)
  case Nil
  then have "meta_is_over m" using meta_holds_over by blast
  then show ?case using Nil.prems(1)
    by (intro exI [of _ m] exI [of _ w] exI [of _ w0] exI [of _ "[]"]) (subst arcs_loop.simps, simp add: silent_def)
next
  case (Cons x xs)
  have over: "\<not> meta_is_over m" using meta_holds_over [OF Cons.prems(1)] by simp
  have v: "meta_value m 1 = x" using meta_holds_value [OF assms(1) Cons.prems(1), of 1] by simp
  obtain h er where w: "w = bump h er W" using meta_holds_bump [OF Cons.prems(1)] by blast
  obtain er' where b: "body x s w = Some (fst (F x s), snd (F x s), bump h er' W)"
    using assms(2) Cons.prems(2) w by (fastforce simp: reads_def)
  have "silent w (bump h er' W)" using silent_bump w by blast
  then obtain h0 er0 er1 where m: "w0 = bump h0 er0 W" "meta_holds sd ss W (bump h0 er1 W) (x # xs) m (bump h er' W)"
    using meta_holds_silent [OF Cons.prems(1)] by blast
  have s0: "silent w0 (bump h0 er1 W)" using m(1) silent_bump by blast
  show ?case
  proof (cases "fst (F x s)")
    case True
    then have "arcs_loop sd body m s w = Some (walk F (x # xs) s, m, bump h er' W)"
      using over v b by (subst arcs_loop.simps) simp
    then show ?thesis using m(2) s0 by blast
  next
    case False
    obtain rv m' w' where nx: "meta_next sd m (bump h er' W) = Some (rv, m', w')" "meta_holds sd ss W (bump h0 er1 W) xs m' w'"
      using meta_holds_next [OF assms(1) m(2)] by blast
    have "arcs_loop sd body m s w = arcs_loop sd body m' (snd (F x s)) w'"
      using over v b False nx(1) by (subst arcs_loop.simps) simp
    then show ?thesis using Cons.IH [OF nx(2), of "snd (F x s)"] Cons.prems(2) False silent_trans [OF s0] by fastforce
  qed
qed

lemma each_arc_reads:
  assumes "quiet W" "wd_sessions W ss \<noteq> None" "wd_addrs W a \<noteq> None" "reads W body F"
  shows "\<exists>er'. each_arc sd ss a body s (bump h er W) = Some (walk F (arcs_seen sd ss W a) s, bump h er' W)"
proof -
  obtain g where g: "wd_addrs W a = Some g" using assms(3) by blast
  obtain m w where m: "meta_new sd a ss (bump h er W) = Some (m, w)"
    "meta_holds sd ss W (bump h er W) (arcs_seen sd ss W a) m w"
    using meta_holds_new [OF assms(1) g assms(2) links_known_quiet [OF assms(1,2) g], of sd h er] g by (auto simp: arcs_seen_def)
  have "\<forall>x \<in> set (arcs_seen sd ss W a). wd_addrs W x \<noteq> None" using arcs_seen_known [OF assms(1)] by fastforce
  then obtain m' w' w0' xs' where l: "arcs_loop sd body m s w = Some (walk F (arcs_seen sd ss W a) s, m', w')"
    "meta_holds sd ss W w0' xs' m' w'" "silent (bump h er W) w0'"
    using arcs_loop_reads [OF assms(1,4) m(2)] by blast
  then show ?thesis using m(1) meta_holds_delete [OF assms(1) l(2)] silent_bumpD [OF l(3)] by (auto simp: each_arc_def)
qed

section \<open>Arcs seen from both ends\<close>

text \<open>Where the ends of an arc stand: an arc is an element itself, and its end is the element or the
  link to the element in the arc's segment.\<close>

definition arcs_placed :: "world \<Rightarrow> bool" where
  "arcs_placed W \<longleftrightarrow> (\<forall>sd a e. st_els W a = Some e \<longrightarrow> vT sd W a \<noteq> 0 \<longrightarrow>
     (\<exists>g t gt. wd_addrs W (el_addr e) = Some g \<and> ga_impl g = a \<and> st_els W (vT sd W a) = Some t \<and>
        wd_addrs W (el_addr t) = Some gt \<and> (vT sd W a = ga_impl gt \<or> (ga_seg g, vT sd W a) \<in> set (ga_links gt))))"

definition member_arc :: "nat \<Rightarrow> world \<Rightarrow> nat \<Rightarrow> nat \<Rightarrow> nat \<Rightarrow> bool" where
  "member_arc ss W st el x \<longleftrightarrow> end_seen Beg ss W x = Some st \<and> end_seen End ss W x = Some el"

lemma arcs_seen_iff:
  "x \<in> set (arcs_seen sd ss W a) \<longleftrightarrow> (\<exists>g ll. wd_addrs W a = Some g \<and> x \<in> set (place_addrs sd W ll) \<and>
     (ll = ga_impl g \<or> (\<exists>s. (s, ll) \<in> set (ga_links g) \<and> session_opened ss s W = Some True)))"
proof -
  have "set (visible ss W ls) = {ll. \<exists>s. (s, ll) \<in> set ls \<and> session_opened ss s W = Some True}" for ls
    by (induction ls) (auto split: if_splits)
  then show ?thesis by (cases "wd_addrs W a") (simp_all add: arcs_seen_def arcs_left_def, blast)
qed

lemma end_seen_iff:
  "end_seen sd ss W x = Some b \<longleftrightarrow> sees ss W x \<and> raw_type W x AND SC_CONNECTOR_MASK \<noteq> 0 \<and> end_of_arc sd W x = Some b \<and> sees ss W b"
  by (auto simp: end_seen_def end_of_arc_def raw_type_def split: bind_splits option.splits if_splits)

lemma seen_has_end:
  assumes "quiet W" "arcs_placed W" "x \<in> set (arcs_seen sd ss W a)"
  shows "end_of_arc sd W x = Some a"
proof -
  obtain g ll l where g: "wd_addrs W a = Some g" "l \<in> set (vA sd W ll)" "x = arc_addr W l" "ll = ga_impl g \<or> (\<exists>s. (s, ll) \<in> set (ga_links g))"
    using assms(3) by (fastforce simp: arcs_seen_iff place_addrs_def)
  obtain t where t: "st_els W ll = Some t" "el_addr t = a"
    using g(4) quiet_addr(5) [OF assms(1) g(1)] quiet_addr(6) [OF assms(1) g(1)] by force
  obtain c e where c: "st_els W c = Some e" "x = el_addr e" "vT sd W c = ll" "ll \<noteq> 0"
    using quiet_arc [OF assms(1) g(2)] g(3) by auto
  then obtain gx where "wd_addrs W x = Some gx" "ga_impl gx = c" using assms(2) unfolding arcs_placed_def by blast
  then show ?thesis using c t by (cases sd) (auto simp: end_of_arc_def element_of_def vT_def)
qed

lemma end_is_seen:
  assumes "quiet W" "arcs_placed W" "end_of_arc sd W x = Some a" "sees ss W x"
  shows "x \<in> set (arcs_seen sd ss W a)"
proof -
  obtain gx where gx: "wd_addrs W x = Some gx" "session_opened ss (ga_seg gx) W = Some True"
    using assms(4) by (auto simp: sees_def split: option.splits)
  obtain e where e: "st_els W (ga_impl gx) = Some e" "el_addr e = x" using quiet_element [OF assms(1) gx(1)] by blast
  let ?ll = "vT sd W (ga_impl gx)"
  obtain t where t: "st_els W ?ll = Some t" "el_addr t = a"
    using assms(3) gx(1) e by (cases sd) (auto simp: end_of_arc_def element_of_def vT_def split: bind_splits)
  then have ll0: "?ll \<noteq> 0" using quiet_null [OF assms(1)] by (metis option.distinct(1))
  then obtain ga where ga: "wd_addrs W a = Some ga" "?ll = ga_impl ga \<or> (ga_seg gx, ?ll) \<in> set (ga_links ga)"
    using assms(2) e t gx(1) unfolding arcs_placed_def by (metis option.inject)
  have inv: "adj_inv (vD W) (vA sd W) (vQ sd W) (vT sd W) (vH sd W) (st_links W)"
    using quietD(1) [OF assms(1)] store_adjD(1) by (auto simp: wd_inv_def adj_ok_def)
  have "vH sd W (ga_impl gx) \<in> set (vA sd W ?ll)" "arc_addr W (vH sd W (ga_impl gx)) = x"
    using adj_invD(6,7) [OF inv ll0] e by (simp_all add: arc_addr_def quiet_link_def)
  then have "x \<in> set (place_addrs sd W ?ll)" by (force simp: place_addrs_def)
  then show ?thesis using ga gx(2) by (auto simp: arcs_seen_iff)
qed

text \<open>So it does not matter from which end an arc is looked for.\<close>

lemma member_from:
  assumes "quiet W" "arcs_placed W"
  shows "sees ss W el \<Longrightarrow> x \<in> set (arcs_seen End ss W el) \<and> end_seen Beg ss W x = Some st \<longleftrightarrow> member_arc ss W st el x"
    "sees ss W st \<Longrightarrow> x \<in> set (arcs_seen Beg ss W st) \<and> end_seen End ss W x = Some el \<longleftrightarrow> member_arc ss W st el x"
  unfolding member_arc_def end_seen_iff by (blast dest: seen_has_end [OF assms] intro: end_is_seen [OF assms])+

section \<open>Membership is decided\<close>

lemma sees_nonzero: "quiet W \<Longrightarrow> sees ss W a \<Longrightarrow> a \<noteq> 0"
  using not_sees_0 [of W ss] by (cases "a = 0") auto

lemma walk_find: "walk (\<lambda>x _. if P x then (True, x) else (False, 0)) xs 0 = (case List.find P xs of None \<Rightarrow> 0 | Some x \<Rightarrow> x)"
  by (induction xs) auto

lemma walk_none: "walk (\<lambda>x _. if P x then (True, False) else (False, True)) xs True \<longleftrightarrow> (\<forall>x \<in> set xs. \<not> P x)"
  by (induction xs) auto

lemma reads_end:
  assumes "quiet W" "wd_sessions W ss \<noteq> None" "y \<noteq> 0"
  shows "reads W (\<lambda>arc _ w. do { (b, w) \<leftarrow> get_arc_end sd ss arc w; Some (if b = y then (True, arc, w) else (False, 0, w)) })
    (\<lambda>x _. if end_seen sd ss W x = Some y then (True, x) else (False, 0))"
  unfolding reads_def
proof (intro allI impI)
  fix x s h er
  assume "wd_addrs W x \<noteq> None"
  then obtain er' where "get_arc_end sd ss x (bump h er W) = Some (case end_seen sd ss W x of None \<Rightarrow> 0 | Some b \<Rightarrow> b, bump h er' W)"
    using bump_get_arc_end [OF assms(1,2), of x] by blast
  then show "\<exists>er'. (do { (b, w) \<leftarrow> get_arc_end sd ss x (bump h er W); Some (if b = y then (True, x, w) else (False, 0, w)) }) =
      Some (fst (if end_seen sd ss W x = Some y then (True, x) else (False, 0)),
        snd (if end_seen sd ss W x = Some y then (True, x) else (False, 0)), bump h er' W)"
    using assms(3) by (auto split: option.split)
qed

lemma reads_positive:
  assumes "quiet W" "wd_sessions W ss \<noteq> None"
  shows "reads W (\<lambda>arc _ w. do { (t, w) \<leftarrow> get_type ss arc w; Some (if sc_isa t SC_POS then (True, False, w) else (False, True, w)) })
    (\<lambda>x _. if sc_isa (type_seen ss W x) SC_POS then (True, False) else (False, True))"
  unfolding reads_def
proof (intro allI impI)
  fix x s h er
  assume "wd_addrs W x \<noteq> None"
  then obtain er' where "get_type ss x (bump h er W) = Some (type_seen ss W x, bump h er' W)"
    using bump_get_type [OF assms, of x] by blast
  then show "\<exists>er'. (do { (t, w) \<leftarrow> get_type ss x (bump h er W); Some (if sc_isa t SC_POS then (True, False, w) else (False, True, w)) }) =
      Some (fst (if sc_isa (type_seen ss W x) SC_POS then (True, False) else (False, True)),
        snd (if sc_isa (type_seen ss W x) SC_POS then (True, False) else (False, True)), bump h er' W)"
    by auto
qed

lemma set_is_in_sees:
  assumes "quiet W" "wd_sessions W ss \<noteq> None" "arcs_placed W" "sees ss W el" "sees ss W st"
  shows "\<exists>x er'. set_is_in ss el st (bump h er W) = Some (x, bump h er' W) \<and>
    (if \<exists>y. member_arc ss W st el y then member_arc ss W st el x else x = 0)"
proof -
  obtain g k where gk: "wd_addrs W el = Some g" "wd_addrs W st = Some k" using sees_known assms(4,5) by blast
  have nz: "el \<noteq> 0" "st \<noteq> 0" using sees_nonzero [OF assms(1)] assms(4,5) by blast+
  have fnd: "if \<exists>y. M y then M (case List.find P xs of None \<Rightarrow> 0 | Some x \<Rightarrow> x) else (case List.find P xs of None \<Rightarrow> 0 | Some x \<Rightarrow> x) = 0"
    if "\<And>x. x \<in> set xs \<and> P x \<longleftrightarrow> M x" for M P and xs :: "nat list"
  proof (cases "List.find P xs")
    case (Some x)
    then have "M x" using that unfolding find_Some_iff by (metis nth_mem)
    then show ?thesis using Some by auto
  next
    case None
    then have "\<not> (\<exists>y. M y)" using that by (auto simp: find_None_iff)
    then show ?thesis using None by simp
  qed
  show ?thesis
  proof (cases "ga_in_qnt g > ga_out_qnt k")
    case True
    obtain er' where "each_arc Beg ss st (\<lambda>arc _ w. do { (b, w) \<leftarrow> get_arc_end End ss arc w; Some (if b = el then (True, arc, w) else (False, 0, w)) }) 0 (bump h er W) =
        Some (walk (\<lambda>x _. if end_seen End ss W x = Some el then (True, x) else (False, 0)) (arcs_seen Beg ss W st) 0, bump h er' W)"
      using each_arc_reads [OF assms(1,2) _ reads_end [OF assms(1,2) nz(1)], of st] gk by blast
    then show ?thesis
      using True gk nz fnd [OF member_from(2) [OF assms(1,3,5), where el = el]] by (auto simp add: set_is_in_def get_arc_end_def walk_find)
  next
    case False
    obtain er' where "each_arc End ss el (\<lambda>arc _ w. do { (b, w) \<leftarrow> get_arc_end Beg ss arc w; Some (if b = st then (True, arc, w) else (False, 0, w)) }) 0 (bump h er W) =
        Some (walk (\<lambda>x _. if end_seen Beg ss W x = Some st then (True, x) else (False, 0)) (arcs_seen End ss W el) 0, bump h er' W)"
      using each_arc_reads [OF assms(1,2) _ reads_end [OF assms(1,2) nz(2)], of el] gk by blast
    then show ?thesis
      using False gk nz fnd [OF member_from(1) [OF assms(1,3,4), where st = st]] by (auto simp add: set_is_in_def get_arc_end_def walk_find)
  qed
qed

lemma set_is_empty_sees:
  assumes "quiet W" "wd_sessions W ss \<noteq> None" "sees ss W st"
  shows "\<exists>er'. set_is_empty ss st (bump h er W) =
    Some (\<forall>x \<in> set (arcs_seen Beg ss W st). \<not> sc_isa (type_seen ss W x) SC_POS, bump h er' W)"
proof -
  have k: "wd_addrs W st \<noteq> None" "st \<noteq> 0" using sees_known sees_nonzero [OF assms(1)] assms(3) by blast+
  show ?thesis
    using each_arc_reads [OF assms(1,2) k(1) reads_positive [OF assms(1,2)], of Beg True h er] k(2) by (auto simp: set_is_empty_def walk_none)
qed

lemma length_mark_last [simp]: "length (mark_last st sets n rv) = length rv"
  by (induction n arbitrary: rv) auto

lemma mark_last_nth:
  "n \<le> length rv \<Longrightarrow> i < length rv \<Longrightarrow>
    mark_last st sets n rv ! i \<longleftrightarrow> rv ! i \<or> i < n \<and> sets ! i = st \<and> (\<forall>j. i < j \<longrightarrow> j < n \<longrightarrow> sets ! j \<noteq> st)"
  by (induction n) (auto simp: nth_list_update less_Suc_eq)

lemma walk_marks:
  assumes "length rv = length sets" "i < length sets"
  shows "walk (\<lambda>x rv. (False, mark_last (b x) sets (length sets) rv)) xs rv ! i \<longleftrightarrow>
    rv ! i \<or> (\<exists>x \<in> set xs. b x = sets ! i) \<and> (\<forall>j. i < j \<longrightarrow> j < length sets \<longrightarrow> sets ! j \<noteq> sets ! i)"
  using assms by (induction xs arbitrary: rv) (auto simp: mark_last_nth)

lemma length_walk_marks:
  "length (walk (\<lambda>x rv. (False, mark_last (b x) sets (length sets) rv)) xs rv) = length rv"
  by (induction xs arbitrary: rv) auto

definition end_or_0 :: "side \<Rightarrow> nat \<Rightarrow> world \<Rightarrow> nat \<Rightarrow> nat" where
  "end_or_0 sd ss W x = (case end_seen sd ss W x of None \<Rightarrow> 0 | Some b \<Rightarrow> b)"

lemma set_unpack_sees:
  assumes "quiet W" "wd_sessions W ss \<noteq> None" "wd_addrs W el \<noteq> None"
  shows "\<exists>er'. set_unpack ss el sets (bump h er W) =
    Some (walk (\<lambda>x rv. (False, mark_last (end_or_0 Beg ss W x) sets (length sets) rv)) (arcs_seen End ss W el) (replicate (length sets) False),
      bump h er' W)"
proof -
  have "reads W (\<lambda>arc rv w. do { (st, w) \<leftarrow> get_beg ss arc w; Some (False, mark_last st sets (length sets) rv, w) })
      (\<lambda>x rv. (False, mark_last (end_or_0 Beg ss W x) sets (length sets) rv))"
    unfolding reads_def
  proof (intro allI impI)
    fix x s h er
    assume "wd_addrs W x \<noteq> None"
    then obtain er' where "get_beg ss x (bump h er W) = Some (end_or_0 Beg ss W x, bump h er' W)"
      using bump_get_arc_end [OF assms(1,2), of x Beg h er] by (auto simp: get_arc_end_def end_or_0_def)
    then show "\<exists>er'. (do { (st, w) \<leftarrow> get_beg ss x (bump h er W); Some (False, mark_last st sets (length sets) s, w) }) =
        Some (fst (False, mark_last (end_or_0 Beg ss W x) sets (length sets) s),
          snd (False, mark_last (end_or_0 Beg ss W x) sets (length sets) s), bump h er' W)" by auto
  qed
  from each_arc_reads [OF assms this] show ?thesis by (simp add: set_unpack_def)
qed

lemma set_is_in_any_m_sees:
  assumes "quiet W" "wd_sessions W ss \<noteq> None" "arcs_placed W" "sees ss W el"
  shows "\<forall>st \<in> set sets. sees ss W st \<Longrightarrow> \<exists>x er'. set_is_in_any_m ss el (sets @ [0]) (bump h er W) = Some (x, bump h er' W) \<and>
    (if \<exists>st \<in> set sets. \<exists>y. member_arc ss W st el y then \<exists>st \<in> set sets. member_arc ss W st el x else x = 0)"
proof (induction sets arbitrary: er)
  case Nil
  then show ?case using sees_nonzero [OF assms(1,4)] by auto
next
  case (Cons st sets)
  have nz: "el \<noteq> 0" "st \<noteq> 0" using sees_nonzero [OF assms(1), of ss] assms(4) Cons.prems by simp_all
  obtain x er' where x: "set_is_in ss el st (bump h er W) = Some (x, bump h er' W)"
    "if \<exists>y. member_arc ss W st el y then member_arc ss W st el x else x = 0"
    using set_is_in_sees [OF assms, of st h er] Cons.prems by auto
  show ?case
  proof (cases "\<exists>y. member_arc ss W st el y")
    case True
    then have "member_arc ss W st el x" using x(2) by simp
    moreover from this have "x \<noteq> 0" using sees_nonzero [OF assms(1), of ss x] by (simp add: member_arc_def end_seen_iff)
    ultimately show ?thesis using x(1) nz by auto
  next
    case False
    then have "x = 0" using x(2) by simp
    moreover obtain y er'' where "set_is_in_any_m ss el (sets @ [0]) (bump h er' W) = Some (y, bump h er'' W)"
      "if \<exists>st \<in> set sets. \<exists>y. member_arc ss W st el y then \<exists>st \<in> set sets. member_arc ss W st el y else y = 0"
      using Cons.IH [of er'] Cons.prems by auto
    ultimately show ?thesis using x(1) nz False by (intro exI [of _ y] exI [of _ er'']) auto
  qed
qed

section \<open>Properties\<close>

text \<open>C14. Sets answer for their arcs. In a quiet memory whose arcs stand at their ends or at the links
  to them, \<open>is_in\<close> gives an arc from the set to the element if a visible one exists and null
  otherwise, whichever list the counters of the two addresses make it search; \<open>is_in_any\<close> gives an arc
  from one of the sets if there is one; \<open>is_empty\<close> holds iff no positive arc leaves the set; \<open>unpack\<close>
  marks, of the sets with an arc to the element, the last place of each. The memory is as it was but
  for the error codes of sessions.\<close>

theorem set_membership_decided:
  assumes "quiet W" "wd_sessions W ss \<noteq> None" "arcs_placed W" "sees ss W el" "sees ss W st"
    and "\<forall>s \<in> set sets. sees ss W s"
  shows "(\<exists>x w. set_is_in ss el st W = Some (x, w) \<and> silent W w \<and>
      (if \<exists>y. member_arc ss W st el y then member_arc ss W st el x else x = 0)) \<and>
    (\<exists>x w. set_is_in_any ss el sets W = Some (x, w) \<and> silent W w \<and>
      (if \<exists>s \<in> set sets. \<exists>y. member_arc ss W s el y then \<exists>s \<in> set sets. member_arc ss W s el x else x = 0)) \<and>
    (\<exists>w. set_is_empty ss st W = Some (\<forall>x \<in> set (arcs_seen Beg ss W st). \<not> sc_isa (type_seen ss W x) SC_POS, w) \<and> silent W w) \<and>
    (\<exists>rv w. set_unpack ss el sets W = Some (rv, w) \<and> silent W w \<and> length rv = length sets \<and>
      (\<forall>i < length sets. rv ! i \<longleftrightarrow> (\<exists>y. member_arc ss W (sets ! i) el y) \<and> (\<forall>j. i < j \<longrightarrow> j < length sets \<longrightarrow> sets ! j \<noteq> sets ! i)))"
proof (intro conjI)
  note W = bump_none [of W, symmetric]
  have sl: "silent W (bump {#} er W)" for er using silent_bump [of "{#}" "\<lambda>_. None" W er] by (simp add: bump_none)
  show "\<exists>x w. set_is_in ss el st W = Some (x, w) \<and> silent W w \<and> (if \<exists>y. member_arc ss W st el y then member_arc ss W st el x else x = 0)"
    using set_is_in_sees [OF assms(1-5), of "{#}" "\<lambda>_. None"] sl unfolding bump_none by blast
  show "\<exists>x w. set_is_in_any ss el sets W = Some (x, w) \<and> silent W w \<and>
      (if \<exists>s \<in> set sets. \<exists>y. member_arc ss W s el y then \<exists>s \<in> set sets. member_arc ss W s el x else x = 0)"
    using set_is_in_any_m_sees [OF assms(1-4,6), of "{#}" "\<lambda>_. None"] sl unfolding bump_none set_is_in_any_def by blast
  show "\<exists>w. set_is_empty ss st W = Some (\<forall>x \<in> set (arcs_seen Beg ss W st). \<not> sc_isa (type_seen ss W x) SC_POS, w) \<and> silent W w"
    using set_is_empty_sees [OF assms(1,2,5), of "{#}" "\<lambda>_. None"] sl unfolding bump_none by blast
  let ?rv = "walk (\<lambda>x rv. (False, mark_last (end_or_0 Beg ss W x) sets (length sets) rv)) (arcs_seen End ss W el) (replicate (length sets) False)"
  obtain w where w: "set_unpack ss el sets W = Some (?rv, w)" "silent W w"
    using set_unpack_sees [OF assms(1,2) sees_known [OF assms(4)], of sets "{#}" "\<lambda>_. None"] sl unfolding bump_none by blast
  have "(\<exists>x \<in> set (arcs_seen End ss W el). end_or_0 Beg ss W x = sets ! i) \<longleftrightarrow> (\<exists>y. member_arc ss W (sets ! i) el y)" if "i < length sets" for i
  proof -
    have "sets ! i \<noteq> 0" using assms(6) that not_sees_0 [OF assms(1), of ss] by (metis nth_mem)
    then have "end_or_0 Beg ss W x = sets ! i \<longleftrightarrow> end_seen Beg ss W x = Some (sets ! i)" for x
      by (auto simp: end_or_0_def split: option.split)
    then show ?thesis using member_from(1) [OF assms(1,3,4), of _ "sets ! i"] by blast
  qed
  then show "\<exists>rv w. set_unpack ss el sets W = Some (rv, w) \<and> silent W w \<and> length rv = length sets \<and>
      (\<forall>i < length sets. rv ! i \<longleftrightarrow> (\<exists>y. member_arc ss W (sets ! i) el y) \<and> (\<forall>j. i < j \<longrightarrow> j < length sets \<longrightarrow> sets ! j \<noteq> sets ! i))"
    using w by (intro exI [of _ ?rv] exI [of _ w]) (simp add: walk_marks length_walk_marks)
qed

lemma tuple_world_vT: "vT sd tuple_world a =
    (if a = 4 then (case sd of Beg \<Rightarrow> 2 | End \<Rightarrow> 3) else if a = 6 then (case sd of Beg \<Rightarrow> 5 | End \<Rightarrow> 4) else 0)"
  by (cases sd) (simp_all add: vT_def tuple_world_def new_element_def)

lemma tuple_world_els: "map_option el_addr (st_els tuple_world a) =
    (if a = 2 then Some 7 else if a = 3 then Some 8 else if a = 4 then Some 9 else if a = 5 then Some 10 else if a = 6 then Some 13 else None)"
  by (simp add: tuple_world_def new_element_def)

lemma tuple_world_placed: "arcs_placed tuple_world"
proof -
  let ?el = "\<lambda>a x. \<exists>t. st_els tuple_world a = Some t \<and> el_addr t = x"
  have el: "?el 2 7" "?el 3 8" "?el 4 9" "?el 5 10" using tuple_world_els [of 2] tuple_world_els [of 3] tuple_world_els [of 4] tuple_world_els [of 5]
    by simp_all
  have ad: "\<exists>g. wd_addrs tuple_world x = Some g \<and> ga_impl g = a"
    if "(x, a) \<in> {(7, 2), (8, 3), (9, 4), (10, 5), (13, 6)}" for x a using that by (auto simp: tuple_world_sel new_gaddr_def)
  have "a = 4 \<and> el_addr e = 9 \<or> a = 6 \<and> el_addr e = 13" if "st_els tuple_world a = Some e" "vT sd tuple_world a \<noteq> 0" for a e sd
    using tuple_world_els [of a] that by (simp add: tuple_world_vT split: if_splits)
  then show ?thesis
    unfolding arcs_placed_def tuple_world_vT using el ad [of 7 2] ad [of 8 3] ad [of 9 4] ad [of 10 5] ad [of 13 6]
    by (fastforce split: side.splits)
qed

lemma tuple_world_sees: "sees 5 tuple_world a \<longleftrightarrow> a \<in> {7, 8, 9, 10, 13}"
  using tuple_world_opened(1) by (simp add: sees_def tuple_world_sel new_gaddr_def)

lemma tuple_world_end: "end_of_arc sd tuple_world x =
    (if x = 9 then Some (case sd of Beg \<Rightarrow> 7 | End \<Rightarrow> 8) else if x = 13 then Some (case sd of Beg \<Rightarrow> 10 | End \<Rightarrow> 9) else None)"
proof -
  have e: "end_of_arc sd tuple_world x = do { g \<leftarrow> wd_addrs tuple_world x; if vD tuple_world (ga_impl g)
      then map_option el_addr (st_els tuple_world (vT sd tuple_world (ga_impl g))) else None }"
    by (cases sd) (auto simp: end_of_arc_def element_of_def vT_def vD_def map_conv_bind_option comp_def split: bind_splits option.splits)
  have "st_els tuple_world 0 = None" by (simp add: tuple_world_def)
  then show ?thesis unfolding e tuple_world_els tuple_world_vT by (cases sd) (simp_all add: tuple_world_sel new_gaddr_def vD_def tuple_world_def)
qed

lemma tuple_world_members: "member_arc 5 tuple_world st el x \<longleftrightarrow> (st, el, x) \<in> {(7, 8, 9), (10, 9, 13)}"
proof -
  have "SC_ARC_MAIN AND SC_CONNECTOR_MASK \<noteq> 0" by code_simp
  then show ?thesis
    by (auto simp: member_arc_def end_seen_iff tuple_world_sees tuple_world_end tuple_world_types split: if_splits)
qed

theorem set_membership_decided_witness:
  "(\<exists>w. set_is_in 5 8 7 tuple_world = Some (9, w) \<and> silent tuple_world w) \<and>
   (\<exists>w. set_is_in_any 5 8 [10, 7] tuple_world = Some (9, w) \<and> silent tuple_world w) \<and>
   (\<exists>rv w. set_unpack 5 8 [10, 7] tuple_world = Some (rv, w) \<and> rv ! 1)"
proof -
  have k: "wd_sessions tuple_world 5 \<noteq> None" "\<forall>s \<in> set [10, 7]. sees 5 tuple_world s" "sees 5 tuple_world 8" "sees 5 tuple_world 7"
    by (simp_all add: tuple_world_sel tuple_world_sees)
  show ?thesis
    using set_membership_decided [OF tuple_world_quiet k(1) tuple_world_placed k(3,4,2)]
    by (auto simp: tuple_world_members nth_Cons')
qed

end
