(* ===== verification/Sc_Search.thy ===== *)
theory Sc_Search
  imports Std_Props Sc_Set
begin

text \<open>
  Searches through a session (\<open>libsc/libsc/sc_utils.cpp\<close>): \<open>create_iterator\<close> for any registered
  constraint, with the iterators behind it, and the functions that take its first answer. The
  parameters \<open>rg\<close>, \<open>ss\<close> and \<open>sys\<close> are the registry, the session and the system session, in which the
  filters and functions of constraints look.
\<close>

section \<open>Iterators of any kind\<close>

datatype world_iter =
    Wi_arcs side meta_iter
  | Wi_program "(side \<times> meta_iter) fb"
  | Wi_std5 std5_iter
  | Wi_segment seg_el_iter

definition wenv :: "registry \<Rightarrow> nat \<Rightarrow> nat \<Rightarrow> (side \<times> meta_iter, world) cenv" where
  "wenv rg ss sys = world_env rg ss sys (find_arc rg sys)"

text \<open>The two factories read their parameters from the constraint.\<close>

definition create_std5 :: "nat \<Rightarrow> cparam list \<Rightarrow> world \<Rightarrow> (world_iter option \<times> world) option" where
  "create_std5 ss prm w =
     do {
       x \<leftarrow> arg prm 0; e1 \<leftarrow> p_addr x;
       x \<leftarrow> arg prm 4; e5 \<leftarrow> p_addr x;
       x \<leftarrow> arg prm 1; t2 \<leftarrow> p_type x;
       x \<leftarrow> arg prm 2; t3 \<leftarrow> p_type x;
       x \<leftarrow> arg prm 3; t4 \<leftarrow> p_type x;
       (it, w) \<leftarrow> std5_f_a_a_a_f ss e1 t2 t3 t4 e5 w;
       Some (Some (Wi_std5 it), w)
     }"

definition create_on_segment :: "nat \<Rightarrow> cparam list \<Rightarrow> world \<Rightarrow> (world_iter option \<times> world) option" where
  "create_on_segment ss prm w =
     do {
       x \<leftarrow> arg prm 0; s \<leftarrow> (case x of P_seg s \<Rightarrow> Some s | _ \<Rightarrow> None);
       x \<leftarrow> arg prm 1; b \<leftarrow> (case x of P_flag b \<Rightarrow> Some b | _ \<Rightarrow> None);
       (it, w) \<leftarrow> std_on_segment ss s b w;
       Some (map_option Wi_segment it, w)
     }"

text \<open>\<open>sc_constraint_create_iterator\<close>: no address is in a \<open>SC_SET_SEG\<close>, so the registry stays as it is.
  A registered constraint that is neither of the primitive two has a factory or a program.\<close>

definition constraint_create_iterator ::
  "registry \<Rightarrow> nat \<Rightarrow> nat \<Rightarrow> int \<Rightarrow> cparam list \<Rightarrow> world \<Rightarrow> (world_iter option \<times> world) option" where
  "constraint_create_iterator rg ss sys c prm w =
     do {
       (plan, _) \<leftarrow> iterator_plan (\<lambda>a. map_option (\<lambda>_. False) (wd_addrs w a)) c prm rg;
       (case plan of
          Plan_null \<Rightarrow> Some (None, w)
        | Plan_factory Std5_f_a_a_a_f \<Rightarrow> create_std5 ss prm w
        | Plan_factory Std_on_segment \<Rightarrow> create_on_segment ss prm w
        | Plan_program d \<Rightarrow>
            do {
              (st, w) \<leftarrow> fb_start (wenv rg ss sys) d prm (replicate (dc_reg_cnt d) (P_addr (wd_junk w))) w;
              Some (Some (Wi_program st), w)
            })
     }"

definition create_iterator ::
  "registry \<Rightarrow> nat \<Rightarrow> nat \<Rightarrow> string \<Rightarrow> cparam list \<Rightarrow> world \<Rightarrow> (world_iter option \<times> world) option" where
  "create_iterator rg ss sys nm prm w =
     (let c = find_holder_id_by_name nm rg in
      case all_side rg c of
        Some sd \<Rightarrow> do { x \<leftarrow> arg prm 0; a \<leftarrow> p_addr x; (m, w) \<leftarrow> meta_new sd a ss w; Some (Some (Wi_arcs sd m), w) }
      | None \<Rightarrow>
          do {
            (it, w) \<leftarrow> constraint_create_iterator rg ss sys c prm w;
            (case it of None \<Rightarrow> do { w \<leftarrow> set_error ss RV_ERR_GEN w; Some (None, w) } | Some i \<Rightarrow> Some (Some i, w))
          })"

fun wi_is_over :: "world_iter \<Rightarrow> bool" where
  "wi_is_over (Wi_arcs sd m) = meta_is_over m"
| "wi_is_over (Wi_program st) = fb_over st"
| "wi_is_over (Wi_std5 it) = s5_over it"
| "wi_is_over (Wi_segment it) = (si_val it = 0)"

fun wi_value :: "world_iter \<Rightarrow> nat \<Rightarrow> nat option" where
  "wi_value (Wi_arcs sd m) k = Some (meta_value m k)"
| "wi_value (Wi_program st) k = fb_value st k"
| "wi_value (Wi_std5 it) k = Some (std5_value it k)"
| "wi_value (Wi_segment it) k = Some (on_segment_value it k)"

text \<open>\<open>next\<close> of a program runs the loop of \<open>fallback.cpp\<close> without fuel.\<close>

definition fb_step :: "('i, 'w) cenv \<Rightarrow> 'i fb \<Rightarrow> 'w \<Rightarrow> ('i fb \<times> 'w) option" where
  "fb_step E st w =
     (if fb_over st then Some (st, w)
      else do {
        let i = length (dc_commands (fb_dec st)) - 1;
        (if 0 < i \<and> pi_type (dc_commands (fb_dec st) ! i) \<noteq> SCD_CONSTR
         then do { (k, w) \<leftarrow> fb_back E (dc_commands (fb_dec st)) (fb_regs st) (i + 1) w; fb_run E k st w }
         else fb_run E (i + 1) st w)
      })"

fun wi_next :: "registry \<Rightarrow> nat \<Rightarrow> nat \<Rightarrow> world_iter \<Rightarrow> world \<Rightarrow> (world_iter \<times> world) option" where
  "wi_next rg ss sys (Wi_arcs sd m) w = do { (_, m, w) \<leftarrow> meta_next sd m w; Some (Wi_arcs sd m, w) }"
| "wi_next rg ss sys (Wi_program st) w = do { (st, w) \<leftarrow> fb_step (wenv rg ss sys) st w; Some (Wi_program st, w) }"
| "wi_next rg ss sys (Wi_std5 it) w = do { (_, it, w) \<leftarrow> std5_next it w; Some (Wi_std5 it, w) }"
| "wi_next rg ss sys (Wi_segment it) w = do { (_, it, w) \<leftarrow> on_segment_next it w; Some (Wi_segment it, w) }"

fun wi_delete :: "registry \<Rightarrow> nat \<Rightarrow> nat \<Rightarrow> world_iter \<Rightarrow> world \<Rightarrow> world option" where
  "wi_delete rg ss sys (Wi_arcs sd m) w = meta_delete m w"
| "wi_delete rg ss sys (Wi_program st) w = fb_delete (wenv rg ss sys) st w"
| "wi_delete rg ss sys (Wi_std5 it) w = std5_delete it w"
| "wi_delete rg ss sys (Wi_segment it) w = on_segment_delete it w"

section \<open>The first answer\<close>

fun wi_values :: "world_iter \<Rightarrow> nat list \<Rightarrow> nat list option" where
  "wi_values it [] = Some []"
| "wi_values it (k # ks) = do { v \<leftarrow> wi_value it k; vs \<leftarrow> wi_values it ks; Some (v # vs) }"

text \<open>The body that all searches share: the values at \<open>ks\<close> of the first answer, nothing stored when
  there is none. The iterator that could not be made is a null pointer, which is dereferenced.\<close>

definition search_first ::
  "registry \<Rightarrow> nat \<Rightarrow> nat \<Rightarrow> string \<Rightarrow> cparam list \<Rightarrow> nat list \<Rightarrow> world \<Rightarrow> (sc_retval \<times> nat list \<times> world) option" where
  "search_first rg ss sys nm prm ks w =
     do {
       (it, w) \<leftarrow> create_iterator rg ss sys nm prm w;
       it \<leftarrow> it;
       (if wi_is_over it then do { w \<leftarrow> wi_delete rg ss sys it w; Some (RV_ERR_GEN, [], w) }
        else do {
          vs \<leftarrow> wi_values it ks;
          w \<leftarrow> wi_delete rg ss sys it w;
          Some (RV_OK, vs, w)
        })
     }"

definition search_oneshot ::
  "registry \<Rightarrow> nat \<Rightarrow> nat \<Rightarrow> string \<Rightarrow> cparam list \<Rightarrow> nat list \<Rightarrow> world \<Rightarrow> (sc_retval \<times> nat list \<times> world) option" where
  "search_oneshot rg ss sys nm prm ks w =
     do { ensure (length ks < 4096 \<and> (\<forall>k \<in> set ks. k < 4096)); search_first rg ss sys nm prm ks w }"

definition search_oneshot_a ::
  "registry \<Rightarrow> nat \<Rightarrow> nat \<Rightarrow> string \<Rightarrow> cparam list \<Rightarrow> nat list \<Rightarrow> world \<Rightarrow> (sc_retval \<times> nat list \<times> world) option" where
  "search_oneshot_a rg ss sys nm prm res w = search_first rg ss sys nm prm res w"

abbreviation CPA :: sc_type where
  "CPA \<equiv> SC_A_CONST OR SC_POS"

definition search_3l2_f_cpa_cna_cpa_f ::
  "registry \<Rightarrow> nat \<Rightarrow> nat \<Rightarrow> nat \<Rightarrow> nat \<Rightarrow> world \<Rightarrow> (sc_retval \<times> nat list \<times> world) option" where
  "search_3l2_f_cpa_cna_cpa_f rg ss sys e1 e5 w =
     search_first rg ss sys ''std3l2_faaaf'' [P_addr e1, P_type CPA, P_type SC_N_CONST, P_type CPA, P_addr e5] [1, 2, 3] w"

definition search_5_f_cpa_cna_cpa_f ::
  "registry \<Rightarrow> nat \<Rightarrow> nat \<Rightarrow> nat \<Rightarrow> nat \<Rightarrow> world \<Rightarrow> (sc_retval \<times> nat list \<times> world) option" where
  "search_5_f_cpa_cna_cpa_f rg ss sys e1 e5 w =
     search_first rg ss sys ''std5_faaaf'' [P_addr e1, P_type CPA, P_type SC_N_CONST, P_type CPA, P_addr e5] [1, 2, 3] w"

definition search_5_f_cpa_a_cpa_f ::
  "registry \<Rightarrow> nat \<Rightarrow> nat \<Rightarrow> nat \<Rightarrow> nat \<Rightarrow> world \<Rightarrow> (sc_retval \<times> nat list \<times> world) option" where
  "search_5_f_cpa_a_cpa_f rg ss sys e1 e5 w =
     search_first rg ss sys ''std5_faaaf'' [P_addr e1, P_type CPA, P_type 0, P_type CPA, P_addr e5] [1, 2, 3] w"

definition search_3_f_cpa_f ::
  "registry \<Rightarrow> nat \<Rightarrow> nat \<Rightarrow> nat \<Rightarrow> nat \<Rightarrow> world \<Rightarrow> (sc_retval \<times> nat list \<times> world) option" where
  "search_3_f_cpa_f rg ss sys e1 e3 w =
     search_first rg ss sys ''std3_faf'' [P_addr e1, P_type CPA, P_addr e3] [1] w"

definition search_3_f_cpa_cna ::
  "registry \<Rightarrow> nat \<Rightarrow> nat \<Rightarrow> nat \<Rightarrow> world \<Rightarrow> (sc_retval \<times> nat list \<times> world) option" where
  "search_3_f_cpa_cna rg ss sys e1 w =
     search_first rg ss sys ''std3_faa'' [P_addr e1, P_type CPA, P_type SC_N_CONST] [1, 2] w"

definition search_3_f_cpa_a ::
  "registry \<Rightarrow> nat \<Rightarrow> nat \<Rightarrow> nat \<Rightarrow> world \<Rightarrow> (sc_retval \<times> nat list \<times> world) option" where
  "search_3_f_cpa_a rg ss sys e1 w =
     search_first rg ss sys ''std3_faa'' [P_addr e1, P_type CPA, P_type 0] [1, 2] w"

text \<open>\<open>delete_oneshot\<close> erases values of the first answer while the iterator stands on it.\<close>

fun erase_values :: "nat \<Rightarrow> nat \<Rightarrow> world_iter \<Rightarrow> nat list \<Rightarrow> world \<Rightarrow> world option" where
  "erase_values n ss it [] w = Some w"
| "erase_values n ss it (k # ks) w =
     do { v \<leftarrow> wi_value it k; (_, w) \<leftarrow> erase_el n ss v w; erase_values n ss it ks w }"

definition delete_oneshot ::
  "nat \<Rightarrow> registry \<Rightarrow> nat \<Rightarrow> nat \<Rightarrow> string \<Rightarrow> cparam list \<Rightarrow> nat list \<Rightarrow> world \<Rightarrow> (sc_retval \<times> world) option" where
  "delete_oneshot n rg ss sys nm prm ks w =
     do {
       (it, w) \<leftarrow> create_iterator rg ss sys nm prm w;
       it \<leftarrow> it;
       (if wi_is_over it then do { w \<leftarrow> wi_delete rg ss sys it w; Some (RV_ERR_GEN, w) }
        else do {
          w \<leftarrow> erase_values n ss it ks w;
          w \<leftarrow> wi_delete rg ss sys it w;
          Some (RV_OK, w)
        })
     }"

text \<open>The loop \<open>sc_for_each\<close>, whose iterator is deleted when the loop is left.\<close>

partial_function (option) wi_loop ::
  "registry \<Rightarrow> nat \<Rightarrow> nat \<Rightarrow> (world_iter \<Rightarrow> 'x \<Rightarrow> world \<Rightarrow> ('x \<times> world) option) \<Rightarrow> world_iter \<Rightarrow> 'x \<Rightarrow> world \<Rightarrow> ('x \<times> world) option" where
  "wi_loop rg ss sys body it x w =
     (if wi_is_over it then do { w \<leftarrow> wi_delete rg ss sys it w; Some (x, w) }
      else do {
        (x, w) \<leftarrow> body it x w;
        (it, w) \<leftarrow> wi_next rg ss sys it w;
        wi_loop rg ss sys body it x w
      })"

definition wi_each ::
  "registry \<Rightarrow> nat \<Rightarrow> nat \<Rightarrow> string \<Rightarrow> cparam list \<Rightarrow> (world_iter \<Rightarrow> 'x \<Rightarrow> world \<Rightarrow> ('x \<times> world) option) \<Rightarrow> 'x \<Rightarrow> world \<Rightarrow> ('x \<times> world) option" where
  "wi_each rg ss sys nm prm body x w =
     do { (it, w) \<leftarrow> create_iterator rg ss sys nm prm w; it \<leftarrow> it; wi_loop rg ss sys body it x w }"

section \<open>The registry that the searches use\<close>

definition prog_5_faaaf :: deconstruct where
  "prog_5_faaaf = \<lparr>dc_input_cnt = 5, dc_reg_cnt = 4, dc_commands =
     [ask [0] [- 1, 5] ''all_output'' 12, check [5, 1] ''check_type'' 5, call [5] 6 ''get_end'' 1,
      check [6, 2] ''check_type'' 5, ask [5] [- 1, 7] ''all_input'' 11, check [7, 3] ''check_type'' 5,
      call [7] 8 ''get_beg'' 0, check [4, 8] ''equal2'' 6, give [0, 5, 6, 7, 4]]\<rparr>"

definition info_5_faaaf :: constraint_info where
  "info_5_faaaf = \<lparr>cn_name = Some ''std5_faaaf'', cn_spec = [SC_PD_ADDR, SC_PD_TYPE, SC_PD_TYPE, SC_PD_TYPE, SC_PD_ADDR],
     cn_factory = Some Std5_f_a_a_a_f, cn_dec = Some prog_5_faaaf\<rparr>"

definition search_registry :: registry where
  "search_registry = \<lparr>rg_entries = core_entries @ [R_constr info_5_faaaf], rg_sets = []\<rparr>"

definition has_search :: "registry \<Rightarrow> bool" where
  "has_search rg \<longleftrightarrow> take 21 (rg_entries rg) = rg_entries search_registry"

lemma search_registry_made:
  "register_constraints [(''std5_faaaf'', Some dec_std5_faaaf, Some Std5_f_a_a_a_f)] \<lparr>rg_entries = core_entries, rg_sets = []\<rparr> =
    Some search_registry"
  by code_simp

lemma std_has_search:
  assumes "init_std_constraints = Some rg"
  shows "has_search rg"
proof -
  let ?x = "[(''std5_faaaf'', Some dec_std5_faaaf, Some Std5_f_a_a_a_f)]"
  have o: "std_order = take 9 std_order @ ?x @ drop 10 std_order" by (simp add: std_order_def)
  have e: "register_constraints std_order = (\<lambda>rg. do { rg \<leftarrow> register_constraints (take 9 std_order) rg; rg \<leftarrow> register_constraints ?x rg;
      register_constraints (drop 10 std_order) rg })"
    by (rule ext, subst o) (simp only: register_constraints_append)
  have "init_std_constraints = do { rg \<leftarrow> std_core; rg \<leftarrow> register_constraints ?x rg; register_constraints (drop 10 std_order) rg }"
    unfolding init_std_constraints_def std_core_def by (simp only: e Option.bind_assoc)
  then have "register_constraints (drop 10 std_order) search_registry = Some rg"
    using assms unfolding std_core_entries by (simp only: Option.bind.bind_lunit search_registry_made)
  from register_constraints_ext [OF this] show ?thesis
    by (auto simp: reg_ext_def has_search_def search_registry_def core_entries_def)
qed

lemma has_search_core:
  assumes "has_search rg"
  shows "has_core rg"
proof -
  have "take 20 (rg_entries rg) = take 20 (take 21 (rg_entries rg))" by simp
  also have "\<dots> = core_entries" using assms unfolding has_search_def by (simp add: search_registry_def core_entries_def)
  finally show ?thesis by (simp add: has_core_def)
qed

lemma has_search_registry: "has_search search_registry"
  by (simp add: has_search_def search_registry_def core_entries_def)

lemma search_lookup:
  assumes "has_search rg"
  shows "find_holder_id_by_name ''std5_faaaf'' rg = 20" "get_info 20 rg = Some info_5_faaaf"
proof -
  have l: "length core_entries = 20" by (simp add: core_entries_def)
  obtain es where e: "rg_entries rg = (core_entries @ [R_constr info_5_faaaf]) @ es"
    using assms unfolding has_search_def search_registry_def by (metis append_take_drop_id registry.select_convs(1))
  have "find_name ''std5_faaaf'' (core_entries @ [R_constr info_5_faaaf]) 0 = 20"
    by (simp add: core_entries_def core_info_def info_5_faaaf_def)
  then show "find_holder_id_by_name ''std5_faaaf'' rg = 20"
    unfolding find_holder_id_by_name_def e by (subst find_name_append) simp_all
  show "get_info 20 rg = Some info_5_faaaf" unfolding get_info_def e using l by (simp add: nth_append)
qed

text \<open>\<open>std3l2_faaaf\<close> is registered later; its program asks for arcs against their direction.\<close>

definition prog_3l2 :: deconstruct where
  "prog_3l2 = \<lparr>dc_input_cnt = 5, dc_reg_cnt = 4, dc_commands =
     [ask [4] [- 1, 7] ''all_input'' 11, call [7] 6 ''get_beg'' 0, ask [6] [- 1, 5] ''all_input'' 11,
      call [5] 8 ''get_beg'' 0, check [8, 0] ''equal2'' 6, check [5, 1] ''check_type'' 5, check [6, 2] ''check_type'' 5,
      check [7, 3] ''check_type'' 5, give [0, 5, 6, 7, 4]]\<rparr>"

definition info_3l2 :: constraint_info where
  "info_3l2 = \<lparr>cn_name = Some ''std3l2_faaaf'', cn_spec = [SC_PD_ADDR, SC_PD_TYPE, SC_PD_TYPE, SC_PD_TYPE, SC_PD_ADDR],
     cn_factory = None, cn_dec = Some prog_3l2\<rparr>"

definition has_3l2 :: "registry \<Rightarrow> bool" where
  "has_3l2 rg \<longleftrightarrow> get_info (find_holder_id_by_name ''std3l2_faaaf'' rg) rg = Some info_3l2"

lemma later_entries:
  "map_option (\<lambda>rg. (length (rg_entries rg), rg_entries rg ! 30, find_holder_id_by_name ''std3l2_faaaf'' rg))
     (register_constraints (drop 9 (take 20 std_order)) \<lparr>rg_entries = core_entries, rg_sets = []\<rparr>) = Some (31, R_constr info_3l2, 30)"
  by code_simp

lemma std_has_3l2:
  assumes "init_std_constraints = Some rg"
  shows "has_3l2 rg"
proof -
  obtain r20 where r20: "register_constraints (drop 9 (take 20 std_order)) \<lparr>rg_entries = core_entries, rg_sets = []\<rparr> = Some r20"
    "length (rg_entries r20) = 31" "rg_entries r20 ! 30 = R_constr info_3l2" "find_name ''std3l2_faaaf'' (rg_entries r20) 0 = 30"
    using later_entries by (auto simp: find_holder_id_by_name_def)
  have o: "std_order = take 9 std_order @ drop 9 (take 20 std_order) @ drop 20 std_order" by (simp add: std_order_def)
  have e: "register_constraints std_order = (\<lambda>rg. do { rg \<leftarrow> register_constraints (take 9 std_order) rg;
      rg \<leftarrow> register_constraints (drop 9 (take 20 std_order)) rg; register_constraints (drop 20 std_order) rg })"
    by (rule ext, subst o) (simp only: register_constraints_append)
  have "init_std_constraints = do { rg \<leftarrow> std_core; rg \<leftarrow> register_constraints (drop 9 (take 20 std_order)) rg;
      register_constraints (drop 20 std_order) rg }"
    unfolding init_std_constraints_def std_core_def by (simp only: e Option.bind_assoc)
  then have "register_constraints (drop 20 std_order) r20 = Some rg"
    using assms unfolding std_core_entries by (simp only: Option.bind.bind_lunit r20(1))
  from register_constraints_ext [OF this] obtain es where es: "rg_entries rg = rg_entries r20 @ es" by (auto simp: reg_ext_def)
  have "find_holder_id_by_name ''std3l2_faaaf'' rg = 30"
    unfolding find_holder_id_by_name_def es using r20(4) by (subst find_name_append) simp_all
  then show ?thesis using r20(2,3) by (simp add: has_3l2_def get_info_def es nth_append)
qed

section \<open>The answers of \<open>std3l2_faaaf\<close>\<close>

definition answers_3l2 :: "nat \<Rightarrow> nat \<Rightarrow> world \<Rightarrow> nat \<Rightarrow> sc_type \<Rightarrow> sc_type \<Rightarrow> sc_type \<Rightarrow> nat \<Rightarrow> nat list list" where
  "answers_3l2 ss sys W e1 t2 t3 t4 e5 =
     [[e1, e2, e3, e4, e5]. e4 \<leftarrow> arcs_seen End ss W e5, e3 \<leftarrow> ends_of Beg ss sys W e4, e2 \<leftarrow> arcs_seen End ss W e3,
        b \<leftarrow> ends_of Beg ss sys W e2, b = e1, fits sys W t2 e2, fits sys W t3 e3, fits sys W t4 e4]"

lemma junk_4: "length junk = dc_reg_cnt prog_3l2 \<Longrightarrow> \<exists>a b c d. junk = [a, b, c, d]"
  by (auto simp: prog_3l2_def length_Suc_conv eval_nat_numeral)

lemma results_3l2:
  assumes "has_core rg" "length junk = dc_reg_cnt prog_3l2"
  shows "results (world_sem k rg ss sys W) prog_3l2 [P_addr e1, P_type t2, P_type t3, P_type t4, P_addr e5] junk =
    answers_3l2 ss sys W e1 t2 t3 t4 e5"
proof -
  obtain j1 j2 j3 j4 where j: "junk = [j1, j2, j3, j4]" using junk_4 [OF assms(2)] by blast
  show ?thesis
    unfolding results_def answers_3l2_def j
    by (simp add: prog_3l2_def sem_core [OF assms(1)] run_simps cong: if_cong option.case_cong)
      (auto intro!: arg_cong [where f = concat] map_cong split: option.split simp: answer_def args_def map_concat comp_def)
qed

lemma safe_3l2:
  assumes "has_core rg" "quiet W" "length junk = dc_reg_cnt prog_3l2" "wd_addrs W e5 \<noteq> None"
  shows "safe (world_sem k rg ss sys W) (butlast (dc_commands prog_3l2)) ([P_addr e1, P_type t2, P_type t3, P_type t4, P_addr e5] @ junk)"
proof -
  obtain j1 j2 j3 j4 where j: "junk = [j1, j2, j3, j4]" using junk_4 [OF assms(3)] by blast
  show ?thesis
    unfolding j using arcs_known [OF assms(2)] end_known assms(4)
    by (fastforce simp: prog_3l2_def sem_core [OF assms(1)] args_def tuple_value_def split: option.split)
qed

lemma readable_3l2:
  assumes "has_core rg" "length junk = dc_reg_cnt prog_3l2"
  shows "readable (last (dc_commands prog_3l2))
    (sols (world_sem k rg ss sys W) (butlast (dc_commands prog_3l2)) ([P_addr e1, P_type t2, P_type t3, P_type t4, P_addr e5] @ junk))"
proof -
  obtain j1 j2 j3 j4 where j: "junk = [j1, j2, j3, j4]" using junk_4 [OF assms(2)] by blast
  show ?thesis
    unfolding j by (auto simp: prog_3l2_def readable_def sem_core [OF assms(1)] args_def tuple_value_def
        split: if_splits option.splits dest!: sym [of "Some _"])
qed

lemma wf_3l2: "wf_dec prog_3l2"
  by (simp add: wf_dec_def Let_def prog_3l2_def inputs_def item_ok_def upt_rec)

section \<open>The searches find the first answer\<close>

definition first_of :: "nat list list \<Rightarrow> nat list \<Rightarrow> sc_retval \<times> nat list" where
  "first_of ts ks = (case ts of [] \<Rightarrow> (RV_ERR_GEN, []) | t # _ \<Rightarrow> (RV_OK, map ((!) t) ks))"

lemma fb_values_tuple:
  assumes "fb_tuple st = Some t" "\<forall>k \<in> set ks. k < length (pi_in (last (dc_commands (fb_dec st))))"
  shows "wi_values (Wi_program st) ks = Some (map ((!) t) ks)"
proof -
  have "fb_values st xs = Some t' \<Longrightarrow> i < length xs \<Longrightarrow> fb_value st (xs ! i) = Some (t' ! i)" for xs t' i
    by (induction xs arbitrary: t' i) (auto simp: bind_eq_Some_conv nth_Cons' split: if_splits)
  then have "k < length (pi_in (last (dc_commands (fb_dec st)))) \<Longrightarrow> fb_value st k = Some (t ! k)" for k
    using assms(1) unfolding fb_tuple_def by (metis add_0 diff_zero length_upt nth_upt)
  then show ?thesis using assms(2) by (induction ks) auto
qed

lemma search_program:
  assumes rg: "has_core rg" "get_info (find_holder_id_by_name nm rg) rg = Some info" "cn_factory info = None" "cn_dec info = Some d"
      "all_side rg (find_holder_id_by_name nm rg) = None"
    and W: "quiet W" "wd_sessions W ss \<noteq> None" "wd_sessions W sys \<noteq> None"
    and prm: "length prm = dc_input_cnt d" "set_params_of (\<lambda>a. map_option (\<lambda>_. False) (wd_addrs W a)) (cn_spec info) prm 0 = Some 0"
    and d: "wf_dec d" "\<And>junk. length junk = dc_reg_cnt d \<Longrightarrow> safe (world_sem True rg ss sys W) (butlast (dc_commands d)) (prm @ junk)"
      "\<And>junk. length junk = dc_reg_cnt d \<Longrightarrow>
        readable (last (dc_commands d)) (sols (world_sem True rg ss sys W) (butlast (dc_commands d)) (prm @ junk))"
      "\<And>junk. length junk = dc_reg_cnt d \<Longrightarrow> results (world_sem True rg ss sys W) d prm junk = ts"
    and ks: "\<forall>k \<in> set ks. k < length (pi_in (last (dc_commands d)))"
  shows "\<exists>er'. search_first rg ss sys nm prm ks (bump h er W) = Some (fst (first_of ts ks), snd (first_of ts ks), bump h er' W)"
proof -
  let ?E = "world_env rg ss sys (find_arc rg sys)" and ?S = "world_sem True rg ss sys W" and ?w = "bump h er W"
  let ?junk = "replicate (dc_reg_cnt d) (P_addr (wd_junk ?w))"
  have j: "length ?junk = dc_reg_cnt d" by simp
  have ok: "world_ok True (find_arc rg sys) ss sys W ?w"
    using W find_arc_ok [OF rg(1) W(1,3)] by (auto simp: world_ok_def)
  have keep: "search_keeps (find_arc rg sys) W" using find_arc_keeps [OF rg(1) W(1,3)] .
  obtain n w' where "(do { (st, w) \<leftarrow> fb_new n ?E d prm ?junk ?w; fb_collect n ?E st w }) = Some (ts, w')"
    using wp.run_program [OF d(1) prm(1) j ok d(2,3) [OF j]] d(4) [OF j] by auto
  then obtain st w1 where st: "fb_new n ?E d prm ?junk ?w = Some (st, w1)" "fb_collect n ?E st w1 = Some (ts, w')"
    by (auto simp: bind_eq_Some_conv)
  have held: "fb_held ss W (add_mset (K_session ss) h) d st w1" using fb_new_held [OF W keep d(1) prm(1) j st(1)] .
  obtain er' where del: "fb_delete ?E st w1 = Some (bump h er' W)" using fb_held_delete [OF W(1,2) d(1) held] by blast
  have dec: "fb_dec st = d" using held by (simp add: fb_held_def)
  have vals: "case ts of [] \<Rightarrow> fb_over st | t # _ \<Rightarrow> \<not> fb_over st \<and> wi_values (Wi_program st) ks = Some (map ((!) t) ks)"
  proof (cases "fb_over st")
    case True
    then have "ts = []" using st(2) by (cases n) (auto simp: bind_eq_Some_conv)
    then show ?thesis using True by simp
  next
    case False
    then obtain t ts' where "ts = t # ts'" "fb_tuple st = Some t" using st(2) by (cases n) (auto simp: bind_eq_Some_conv split: if_splits)
    then show ?thesis using False fb_values_tuple [of st t ks] ks dec by simp
  qed
  have plan: "iterator_plan (\<lambda>a. map_option (\<lambda>_. False) (wd_addrs ?w a)) (find_holder_id_by_name nm rg) prm rg = Some (Plan_program d, rg)"
    by (rule plan_program [OF rg(2-4)]) (use prm(2) in \<open>simp add: option.map_comp comp_def\<close>)
  have "create_iterator rg ss sys nm prm ?w = Some (Some (Wi_program st), w1)"
    using fb_start_fuel [OF st(1)] plan rg(5) by (simp add: create_iterator_def constraint_create_iterator_def wenv_def Let_def)
  then show ?thesis using vals del by (auto simp: search_first_def wenv_def first_of_def split: list.splits)
qed

lemma search_std5:
  assumes "has_search rg" "quiet W" "connectors ss W" "wd_sessions W ss \<noteq> None" "wd_addrs W e1 \<noteq> None" "wd_addrs W e5 \<noteq> None"
    and "\<forall>k \<in> set ks. k < 5"
  shows "search_first rg ss sys ''std5_faaaf'' [P_addr e1, P_type t2, P_type t3, P_type t4, P_addr e5] ks (bump h er W) =
    Some (fst (first_of (answers_5_faaaf ss W e1 t2 t3 t4 e5) ks), snd (first_of (answers_5_faaaf ss W e1 t2 t3 t4 e5) ks), bump h er W)"
proof -
  let ?prm = "[P_addr e1, P_type t2, P_type t3, P_type t4, P_addr e5]" and ?A = "answers_5_faaaf ss W e1 t2 t3 t4 e5"
  obtain it w where it: "std5_f_a_a_a_f ss e1 t2 t3 t4 e5 (bump h er W) = Some (it, w)" "std5_holds W (bump h er W) ?A it w"
    using std5_new_ok [OF assms(2-6), of t2 t3 t4 h er] by blast
  have "iterator_plan (\<lambda>a. map_option (\<lambda>_. False) (wd_addrs (bump h er W) a)) 20 ?prm rg = Some (Plan_factory Std5_f_a_a_a_f, rg)"
    using search_lookup(2) [OF assms(1)] assms(5,6) by (auto simp: iterator_plan_def info_5_faaaf_def)
  then have "constraint_create_iterator rg ss sys 20 ?prm (bump h er W) = Some (Some (Wi_std5 it), w)"
    using it(1) by (simp add: constraint_create_iterator_def create_std5_def arg_def)
  moreover have "all_side rg 20 = None" using core_ids(1,2) [OF has_search_core [OF assms(1)]] by (simp add: all_side_def)
  ultimately have c: "create_iterator rg ss sys ''std5_faaaf'' ?prm (bump h er W) = Some (Some (Wi_std5 it), w)"
    using search_lookup(1) [OF assms(1)] by (simp add: create_iterator_def)
  have v: "wi_values (Wi_std5 it) ks = Some (map ((!) t) ks)" if "?A = t # ts" for t ts
  proof -
    have "map (std5_value it) [0..<5] = t" using std5_holds_value it(2) that by metis
    then have "\<forall>k < 5. std5_value it k = t ! k" by auto
    then show ?thesis using assms(7) by (induction ks) auto
  qed
  show ?thesis
    using c v std5_holds_over [OF it(2)] std5_delete_ok [OF assms(2) it(2)]
    by (auto simp: search_first_def first_of_def split: list.splits)
qed

lemma search_3_faa:
  assumes "has_core rg" "quiet W" "wd_sessions W ss \<noteq> None" "wd_sessions W sys \<noteq> None" "wd_addrs W e1 \<noteq> None" "\<forall>k \<in> set ks. k < 3"
  shows "\<exists>er'. search_first rg ss sys ''std3_faa'' [P_addr e1, P_type t2, P_type t3] ks (bump h er W) =
    Some (fst (first_of (answers_3_faa ss sys W e1 t2 t3) ks), snd (first_of (answers_3_faa ss sys W e1 t2 t3) ks), bump h er' W)"
proof -
  have l: "length junk = dc_reg_cnt prog_3_faa \<Longrightarrow> length junk = 2" for junk :: "cparam list" by (simp add: prog_counts)
  show ?thesis
    by (rule search_program [OF assms(1) core_lookup(7) [OF assms(1), folded core_ids(3) [OF assms(1)]] _ _ _ assms(2-4) _ _ core_programs_ok(1)
        safe_3(1) [OF assms(1,2) l assms(5)] readable_3(1) [OF assms(1) l] results_3_faa [OF assms(1) l]])
      (use assms(5,6) core_ids [OF assms(1)] in \<open>auto simp: prog_counts all_side_def prog_3_faa_def\<close>)
qed

lemma search_3_faf:
  assumes "has_core rg" "quiet W" "wd_sessions W ss \<noteq> None" "wd_sessions W sys \<noteq> None" "wd_addrs W e1 \<noteq> None" "wd_addrs W e3 \<noteq> None"
    and "\<forall>k \<in> set ks. k < 3"
  shows "\<exists>er'. search_first rg ss sys ''std3_faf'' [P_addr e1, P_type t2, P_addr e3] ks (bump h er W) =
    Some (fst (first_of (answers_3_faf ss sys W e1 t2 e3) ks), snd (first_of (answers_3_faf ss sys W e1 t2 e3) ks), bump h er' W)"
proof -
  have l: "length junk = dc_reg_cnt prog_3_faf \<Longrightarrow> length junk = 2" for junk :: "cparam list" by (simp add: prog_counts)
  show ?thesis
    by (rule search_program [OF assms(1) core_lookup(8) [OF assms(1), folded core_ids(4) [OF assms(1)]] _ _ _ assms(2-4) _ _ core_programs_ok(2)
        safe_3(3) [OF assms(1,2) l assms(6)] readable_3(3) [OF assms(1) l] results_3_faf [OF assms(1) l]])
      (use assms(5-7) core_ids [OF assms(1)] in \<open>auto simp: prog_counts all_side_def prog_3_faf_def\<close>)
qed

section \<open>Properties\<close>

lemma search_3l2:
  assumes "has_core rg" "has_3l2 rg" "quiet W" "wd_sessions W ss \<noteq> None" "wd_sessions W sys \<noteq> None"
    and "wd_addrs W e1 \<noteq> None" "wd_addrs W e5 \<noteq> None" "\<forall>k \<in> set ks. k < 5"
  shows "\<exists>er'. search_first rg ss sys ''std3l2_faaaf'' [P_addr e1, P_type t2, P_type t3, P_type t4, P_addr e5] ks (bump h er W) =
    Some (fst (first_of (answers_3l2 ss sys W e1 t2 t3 t4 e5) ks), snd (first_of (answers_3l2 ss sys W e1 t2 t3 t4 e5) ks), bump h er' W)"
proof -
  let ?c = "find_holder_id_by_name ''std3l2_faaaf'' rg"
  have info: "get_info ?c rg = Some info_3l2" using assms(2) by (simp add: has_3l2_def)
  have "?c \<noteq> 11" "?c \<noteq> 12" using info core_lookup(5,6) [OF assms(1)] by (auto simp: info_3l2_def)
  then have side: "all_side rg ?c = None" using core_ids(1,2) [OF assms(1)] by (simp add: all_side_def)
  show ?thesis
    by (rule search_program [OF assms(1) info _ _ side assms(3-5) _ _ wf_3l2
        safe_3l2 [OF assms(1,3) _ assms(7)] readable_3l2 [OF assms(1)] results_3l2 [OF assms(1)]])
      (use assms(6-8) in \<open>auto simp: info_3l2_def prog_3l2_def\<close>)
qed

text \<open>What both general searches do with the first answer.\<close>

definition finds :: "registry \<Rightarrow> nat \<Rightarrow> nat \<Rightarrow> world \<Rightarrow> string \<Rightarrow> cparam list \<Rightarrow> nat list list \<Rightarrow> nat list \<Rightarrow> bool" where
  "finds rg ss sys W nm prm ts ks \<longleftrightarrow>
     (\<exists>w. search_oneshot_a rg ss sys nm prm ks W = Some (fst (first_of ts ks), snd (first_of ts ks), w) \<and> silent W w \<and>
       search_oneshot rg ss sys nm prm ks W =
         (if length ks < 4096 then Some (fst (first_of ts ks), snd (first_of ts ks), w) else None))"

lemma findsI:
  assumes "\<exists>er'. search_first rg ss sys nm prm ks W = Some (fst (first_of ts ks), snd (first_of ts ks), bump {#} er' W)"
    and "\<forall>k \<in> set ks. k < 5"
  shows "finds rg ss sys W nm prm ts ks"
proof -
  have "silent W (bump {#} er W)" for er using silent_bump [of "{#}" "\<lambda>_. None" W er] by (simp add: bump_none)
  moreover have "\<forall>k \<in> set ks. k < 4096" using assms(2) by auto
  ultimately show ?thesis using assms(1) by (auto simp: finds_def search_oneshot_def search_oneshot_a_def)
qed

lemma finds_search:
  "finds rg ss sys W nm prm ts ks \<Longrightarrow>
    \<exists>rv vs w. search_first rg ss sys nm prm ks W = Some (rv, vs, w) \<and> silent W w \<and> (rv, vs) = first_of ts ks"
  by (auto simp: finds_def search_oneshot_a_def)

text \<open>C15. The searches find. Over a quiet memory, in which every arc that
  the session sees at an element has the type of a connector, with the standard constraints registered and the given elements and both
  sessions existing, the six functions \<open>search_3_f_cpa_a\<close>, \<open>search_3_f_cpa_cna\<close>, \<open>search_3_f_cpa_f\<close>,
  \<open>search_5_f_cpa_a_cpa_f\<close>, \<open>search_5_f_cpa_cna_cpa_f\<close> and \<open>search_3l2_f_cpa_cna_cpa_f\<close> answer \<open>RV_OK\<close> with
  the elements of the first answer of their constraint, and \<open>RV_ERR_GEN\<close> with nothing stored when
  there is no answer. So do \<open>search_oneshot_a\<close> and \<open>search_oneshot\<close> for the four constraints behind
  these functions, for any types and any places of the answer, except that \<open>search_oneshot\<close> aborts for
  4096 or more places. The iterator is deleted and the memory is as it was but for the error codes of
  sessions.\<close>

theorem searches_find_first:
  assumes "has_search rg" "has_3l2 rg" "quiet W" "wd_sessions W ss \<noteq> None" "wd_sessions W sys \<noteq> None" "connectors ss W"
    and "wd_addrs W e1 \<noteq> None" "wd_addrs W e3 \<noteq> None"
  shows "(\<exists>rv vs w. search_3_f_cpa_a rg ss sys e1 W = Some (rv, vs, w) \<and> silent W w \<and>
      (rv, vs) = first_of (answers_3_faa ss sys W e1 CPA 0) [1, 2]) \<and>
    (\<exists>rv vs w. search_3_f_cpa_cna rg ss sys e1 W = Some (rv, vs, w) \<and> silent W w \<and>
      (rv, vs) = first_of (answers_3_faa ss sys W e1 CPA SC_N_CONST) [1, 2]) \<and>
    (\<exists>rv vs w. search_3_f_cpa_f rg ss sys e1 e3 W = Some (rv, vs, w) \<and> silent W w \<and>
      (rv, vs) = first_of (answers_3_faf ss sys W e1 CPA e3) [1]) \<and>
    (\<exists>rv vs w. search_5_f_cpa_a_cpa_f rg ss sys e1 e3 W = Some (rv, vs, w) \<and> silent W w \<and>
      (rv, vs) = first_of (answers_5_faaaf ss W e1 CPA 0 CPA e3) [1, 2, 3]) \<and>
    (\<exists>rv vs w. search_5_f_cpa_cna_cpa_f rg ss sys e1 e3 W = Some (rv, vs, w) \<and> silent W w \<and>
      (rv, vs) = first_of (answers_5_faaaf ss W e1 CPA SC_N_CONST CPA e3) [1, 2, 3]) \<and>
    (\<exists>rv vs w. search_3l2_f_cpa_cna_cpa_f rg ss sys e1 e3 W = Some (rv, vs, w) \<and> silent W w \<and>
      (rv, vs) = first_of (answers_3l2 ss sys W e1 CPA SC_N_CONST CPA e3) [1, 2, 3]) \<and>
    (\<forall>t2 t3 ks. (\<forall>k \<in> set ks. k < 3) \<longrightarrow>
      finds rg ss sys W ''std3_faa'' [P_addr e1, P_type t2, P_type t3] (answers_3_faa ss sys W e1 t2 t3) ks \<and>
      finds rg ss sys W ''std3_faf'' [P_addr e1, P_type t2, P_addr e3] (answers_3_faf ss sys W e1 t2 e3) ks) \<and>
    (\<forall>t2 t3 t4 ks. (\<forall>k \<in> set ks. k < 5) \<longrightarrow>
      finds rg ss sys W ''std5_faaaf'' [P_addr e1, P_type t2, P_type t3, P_type t4, P_addr e3] (answers_5_faaaf ss W e1 t2 t3 t4 e3) ks \<and>
      finds rg ss sys W ''std3l2_faaaf'' [P_addr e1, P_type t2, P_type t3, P_type t4, P_addr e3] (answers_3l2 ss sys W e1 t2 t3 t4 e3) ks)"
proof -
  note core = has_search_core [OF assms(1)] and none = bump_none
  have three: "finds rg ss sys W ''std3_faa'' [P_addr e1, P_type t2, P_type t3] (answers_3_faa ss sys W e1 t2 t3) ks"
    "finds rg ss sys W ''std3_faf'' [P_addr e1, P_type t2, P_addr e3] (answers_3_faf ss sys W e1 t2 e3) ks"
    if ks: "\<forall>k \<in> set ks. k < 3" for t2 t3 ks
    using search_3_faa [OF core assms(3-5,7) ks, of t2 t3 "{#}" "\<lambda>_. None"]
      search_3_faf [OF core assms(3-5,7,8) ks, of t2 "{#}" "\<lambda>_. None"] ks
    by (auto simp: none intro!: findsI)
  have same: "\<exists>er'. W = bump {#} er' W" by (rule exI [of _ "\<lambda>_. None"]) (simp add: none)
  have five: "finds rg ss sys W ''std5_faaaf'' [P_addr e1, P_type t2, P_type t3, P_type t4, P_addr e3] (answers_5_faaaf ss W e1 t2 t3 t4 e3) ks"
    "finds rg ss sys W ''std3l2_faaaf'' [P_addr e1, P_type t2, P_type t3, P_type t4, P_addr e3] (answers_3l2 ss sys W e1 t2 t3 t4 e3) ks"
    if ks: "\<forall>k \<in> set ks. k < 5" for t2 t3 t4 ks
    using search_std5 [OF assms(1,3,6,4,7,8) ks, of sys t2 t3 t4 "{#}" "\<lambda>_. None"]
      search_3l2 [OF core assms(2-5,7,8) ks, of t2 t3 t4 "{#}" "\<lambda>_. None"] ks same
    by (auto simp: none intro!: findsI)
  show ?thesis
    unfolding search_3_f_cpa_a_def search_3_f_cpa_cna_def search_3_f_cpa_f_def search_5_f_cpa_a_cpa_f_def
      search_5_f_cpa_cna_cpa_f_def search_3l2_f_cpa_cna_cpa_f_def
    by (intro conjI allI impI finds_search three five) simp_all
qed

lemma tuple_world_cpa: "answers_5_faaaf 5 tuple_world 7 CPA 0 CPA 10 = [[7, 9, 8, 13, 10]]"
proof -
  have "check_sc_type_raw SC_ARC_MAIN (sc_type_extend_mask CPA)" "check_sc_type_raw SC_N_CONST (sc_type_extend_mask 0)" by code_simp+
  then show ?thesis
    using tuple_world_opened(2)
    by (simp add: answers_5_faaaf_def answers_from_def tuple_world_seen tuple_world_types third_def attributed_def)
qed

text \<open>The registry of the witness has the two constraints at the end.\<close>

definition witness_registry :: registry where
  "witness_registry = \<lparr>rg_entries = rg_entries search_registry @ [R_constr info_3l2], rg_sets = []\<rparr>"

lemma witness_registry_has: "has_search witness_registry" "has_3l2 witness_registry"
proof -
  have l: "length (rg_entries search_registry) = 21" by (simp add: search_registry_def core_entries_def)
  then show "has_search witness_registry" by (simp add: has_search_def witness_registry_def)
  have "find_name ''std3l2_faaaf'' (rg_entries witness_registry) 0 = 21"
    by (simp add: witness_registry_def search_registry_def core_entries_def core_info_def info_5_faaaf_def info_3l2_def)
  then show "has_3l2 witness_registry"
    using l by (simp add: has_3l2_def find_holder_id_by_name_def get_info_def witness_registry_def nth_append)
qed

theorem searches_find_first_witness:
  "(\<exists>w. search_5_f_cpa_a_cpa_f witness_registry 5 6 7 10 tuple_world = Some (RV_OK, [9, 8, 13], w) \<and> silent tuple_world w) \<and>
   (\<exists>rv vs w. search_3_f_cpa_a witness_registry 5 6 7 tuple_world = Some (rv, vs, w) \<and> silent tuple_world w) \<and>
   finds witness_registry 5 6 tuple_world ''std5_faaaf'' [P_addr 7, P_type CPA, P_type 0, P_type CPA, P_addr 10] [[7, 9, 8, 13, 10]] [3]"
proof -
  have k: "wd_sessions tuple_world 5 \<noteq> None" "wd_sessions tuple_world 6 \<noteq> None" "wd_addrs tuple_world 7 \<noteq> None" "wd_addrs tuple_world 10 \<noteq> None"
    by (simp_all add: tuple_world_sel)
  have f: "first_of [[7, 9, 8, 13, 10]] [1, 2, 3] = (RV_OK, [9, 8, 13])" by (simp add: first_of_def)
  have i: "\<forall>k \<in> set [3 :: nat]. k < 5" by simp
  note found = searches_find_first [OF witness_registry_has tuple_world_quiet k(1,2) tuple_world_answers(1) k(3,4)]
  then have "finds witness_registry 5 6 tuple_world ''std5_faaaf'' [P_addr 7, P_type CPA, P_type 0, P_type CPA, P_addr 10]
      [[7, 9, 8, 13, 10]] [3]"
    using i unfolding tuple_world_cpa [symmetric] by blast
  then show ?thesis using found unfolding tuple_world_cpa f by blast
qed

end
