(* ===== verification/Sc_Transaction.thy ===== *)
theory Sc_Transaction
  imports Session_Props
begin

text \<open>
  Transactions (\<open>libsc/libsc/sc_transaction.cpp\<close>, \<open>sc_session_proxy.h\<close>): a session that passes
  everything on to its host, remembers the old ends of arcs and the elements it made, and defers
  erasure to \<open>commit\<close>. What it inherits from the proxy is not remembered: \<open>gen3_f_a_f\<close> and
  \<open>gen5_f_a_f_a_f\<close> are the host's. The segments of a host are made and unlinked by functions \<open>make_seg\<close> and
  \<open>unlink\<close>, and \<open>n\<close> is the depth to which the host erases. \<open>commit\<close> and \<open>rollback\<close> delete the
  transaction, so they give only the memory.
\<close>

record trans =
  tr_host :: nat
  tr_erased :: "nat list"
  tr_beg :: "(nat \<times> nat) list"
  tr_end :: "(nat \<times> nat) list"
  tr_gened :: "nat list"
  tr_segs :: "nat list"

definition new_trans :: "nat \<Rightarrow> trans" where
  "new_trans host = \<lparr>tr_host = host, tr_erased = [], tr_beg = [], tr_end = [], tr_gened = [], tr_segs = []\<rparr>"

section \<open>Operations\<close>

definition tr_set_beg :: "trans \<Rightarrow> nat \<Rightarrow> nat \<Rightarrow> world \<Rightarrow> (sc_retval \<times> trans \<times> world) option" where
  "tr_set_beg t addr beg w =
     do {
       (obeg, w) \<leftarrow> get_beg (tr_host t) addr w;
       (rv, w) \<leftarrow> set_beg (tr_host t) addr beg w;
       (if rv \<noteq> RV_OK then do { (_, w) \<leftarrow> set_beg (tr_host t) addr obeg w; Some (rv, t, w) }
        else Some (rv, t\<lparr>tr_beg := tr_beg t @ [(addr, obeg)]\<rparr>, w))
     }"

definition tr_set_end :: "trans \<Rightarrow> nat \<Rightarrow> nat \<Rightarrow> world \<Rightarrow> (sc_retval \<times> trans \<times> world) option" where
  "tr_set_end t addr en w =
     do {
       (oend, w) \<leftarrow> get_end (tr_host t) addr w;
       (rv, w) \<leftarrow> set_end (tr_host t) addr en w;
       (if rv \<noteq> RV_OK then do { (_, w) \<leftarrow> set_end (tr_host t) addr oend w; Some (rv, t, w) }
        else Some (rv, t\<lparr>tr_end := tr_end t @ [(addr, oend)]\<rparr>, w))
     }"

definition tr_create_el :: "trans \<Rightarrow> nat \<Rightarrow> sc_type \<Rightarrow> world \<Rightarrow> (nat \<times> trans \<times> world) option" where
  "tr_create_el t s ty w =
     do {
       (rv, w) \<leftarrow> create_el (tr_host t) s ty w;
       Some (rv, if rv \<noteq> 0 then t\<lparr>tr_gened := tr_gened t @ [rv]\<rparr> else t, w)
     }"

definition tr_erase_el :: "trans \<Rightarrow> nat \<Rightarrow> world \<Rightarrow> (sc_retval \<times> trans \<times> world) option" where
  "tr_erase_el t a w =
     do {
       s \<leftarrow> addr_seg a w;
       b \<leftarrow> session_opened (tr_host t) s w;
       (if \<not> b then Some (RV_ERR_GEN, t, w)
        else do { w \<leftarrow> addr_ref a w; Some (RV_OK, t\<lparr>tr_erased := tr_erased t @ [a]\<rparr>, w) })
     }"

definition tr_create_segment ::
  "(string \<Rightarrow> world \<Rightarrow> (nat \<times> world) option) \<Rightarrow> trans \<Rightarrow> string \<Rightarrow> world \<Rightarrow> (nat \<times> trans \<times> world) option" where
  "tr_create_segment make_seg t uri w =
     do { (rv, w) \<leftarrow> make_seg uri w; Some (rv, if rv \<noteq> 0 then t\<lparr>tr_segs := tr_segs t @ [rv]\<rparr> else t, w) }"

text \<open>From the proxy.\<close>

definition tr_gen3_f_a_f ::
  "nat \<Rightarrow> trans \<Rightarrow> nat \<Rightarrow> nat \<Rightarrow> sc_type \<Rightarrow> nat \<Rightarrow> world \<Rightarrow> (sc_retval \<times> nat option \<times> world) option" where
  "tr_gen3_f_a_f n t e1 seg2 t2 e3 w = gen3_f_a_f n (tr_host t) e1 seg2 t2 e3 w"

definition tr_gen5_f_a_f_a_f ::
  "nat \<Rightarrow> trans \<Rightarrow> nat \<Rightarrow> nat \<Rightarrow> sc_type \<Rightarrow> nat \<Rightarrow> nat \<Rightarrow> sc_type \<Rightarrow> nat \<Rightarrow> world \<Rightarrow>
   (sc_retval \<times> (nat \<times> nat) option \<times> world) option" where
  "tr_gen5_f_a_f_a_f n t e1 seg2 t2 e3 seg4 t4 e5 w = gen5_f_a_f_a_f n (tr_host t) e1 seg2 t2 e3 seg4 t4 e5 w"

definition tr_get_type :: "trans \<Rightarrow> nat \<Rightarrow> world \<Rightarrow> (sc_type \<times> world) option" where
  "tr_get_type t a w = get_type (tr_host t) a w"

definition tr_get_error :: "trans \<Rightarrow> world \<Rightarrow> sc_retval option" where
  "tr_get_error t w = get_error (tr_host t) w"

section \<open>Commit and rollback\<close>

text \<open>The vectors are gone through from the back.\<close>

fun commit_loop :: "nat \<Rightarrow> nat \<Rightarrow> nat list \<Rightarrow> world \<Rightarrow> world option" where
  "commit_loop n host [] w = Some w"
| "commit_loop n host (a # els) w =
     do {
       dead \<leftarrow> addr_is_dead a w;
       w \<leftarrow> (if dead then Some w else map_option snd (erase_el n host a w));
       w \<leftarrow> addr_unref a w;
       commit_loop n host els w
     }"

definition tr_commit :: "nat \<Rightarrow> trans \<Rightarrow> world \<Rightarrow> world option" where
  "tr_commit n t w = commit_loop n (tr_host t) (rev (tr_erased t)) w"

fun restore_begs :: "nat \<Rightarrow> (nat \<times> nat) list \<Rightarrow> world \<Rightarrow> world option" where
  "restore_begs host [] w = Some w"
| "restore_begs host ((arc, b) # ps) w = do { (_, w) \<leftarrow> set_beg host arc b w; restore_begs host ps w }"

fun restore_ends :: "nat \<Rightarrow> (nat \<times> nat) list \<Rightarrow> world \<Rightarrow> world option" where
  "restore_ends host [] w = Some w"
| "restore_ends host ((arc, e) # ps) w = do { (_, w) \<leftarrow> set_end host arc e w; restore_ends host ps w }"

fun erase_gened :: "nat \<Rightarrow> nat \<Rightarrow> nat list \<Rightarrow> world \<Rightarrow> world option" where
  "erase_gened n host [] w = Some w"
| "erase_gened n host (a # els) w = do { (_, w) \<leftarrow> erase_el n host a w; erase_gened n host els w }"

fun unlink_segs :: "(nat \<Rightarrow> world \<Rightarrow> world option) \<Rightarrow> nat list \<Rightarrow> world \<Rightarrow> world option" where
  "unlink_segs unlink [] w = Some w"
| "unlink_segs unlink (s # ss) w = do { w \<leftarrow> unlink s w; unlink_segs unlink ss w }"

definition tr_rollback :: "nat \<Rightarrow> (nat \<Rightarrow> world \<Rightarrow> world option) \<Rightarrow> trans \<Rightarrow> world \<Rightarrow> world option" where
  "tr_rollback n unlink t w =
     do {
       w \<leftarrow> restore_begs (tr_host t) (rev (tr_beg t)) w;
       w \<leftarrow> restore_ends (tr_host t) (rev (tr_end t)) w;
       w \<leftarrow> erase_gened n (tr_host t) (rev (tr_gened t)) w;
       unlink_segs unlink (tr_segs t) w
     }"

section \<open>Ends come back\<close>

lemma near_grown_ready:
  assumes "grown w w'" "near ss w s x" "streams w s = Some False"
  shows "end_ready ss w' s x"
  using near_end_ready [OF grown_near [OF assms(1,2)]] assms(1,3) by (simp add: grown_def)

lemma attached_reads_end:
  assumes "attached End w (ga_impl g) b w'" "arc_ready ss w arc g" "accessible ss w b"
  shows "\<exists>w''. get_end ss arc w' = Some (b, w'') \<and> light w' w''"
proof -
  obtain g' where g': "arc_ready ss w' arc g'" "ga_impl g' = ga_impl g" using attached_arc_ready [OF assms(1,2) refl] by blast
  have "accessible ss w' b" using assms(1,3) grown_accessible [of w w' ss b] by (auto simp: attached_def)
  then have "yields (get_end ss arc w') (\<lambda>(x, v). x = b \<and> light w' v)"
    using assms(1) g' by (intro get_end_wp [where g = g']) (auto simp: arc_ready_def attached_def)
  then show ?thesis by (auto simp: yields_def)
qed

section \<open>Properties\<close>

text \<open>Setting an end back: to an element of the arc's segment, or to none.\<close>

lemma set_back_wp:
  assumes inv: "wd_inv w" "unwatched w" and arc: "arc_ready ss w arc g" and e1: "end_is End w (ga_impl g) e1" "e1 \<noteq> 0"
    and e0: "e0 \<noteq> 0 \<and> end_ready ss w (ga_seg g) e0 \<and> accessible ss w e0 \<or> e0 = 0 \<and> ga_waits g SC_WAIT_ARC_END = []"
  shows "\<exists>w' v. set_end ss arc e0 w = Some (RV_OK, w') \<and> get_end ss arc w' = Some (e0, v) \<and> wd_inv w' \<and>
    vT Beg w' = vT Beg w \<and> (\<forall>k. k \<noteq> ga_impl g \<longrightarrow> vT End w' k = vT End w k)"
proof (cases "e0 = 0")
  case False
  then have "yields (set_end ss arc e0 w) (\<lambda>(rv, w'). rv = RV_OK \<and> attached End w (ga_impl g) e0 w')"
    using e0 inv(2) by (intro set_end_wp [OF inv(1) arc]) auto
  then obtain w' where w': "set_end ss arc e0 w = Some (RV_OK, w')" "attached End w (ga_impl g) e0 w'" by (auto simp: yields_def)
  moreover obtain v where "get_end ss arc w' = Some (e0, v)" using attached_reads_end [OF w'(2) arc] e0 False by blast
  ultimately show ?thesis by (auto simp: attached_def)
next
  case True
  then have free: "ga_waits g SC_WAIT_ARC_END = []" using e0 by blast
  have "vT End w (ga_impl g) \<noteq> 0 \<longrightarrow> end_addr End w (ga_impl g) \<noteq> 0"
    using e1 by (auto simp: end_is_def end_addr_def cells_def)
  then have "yields (set_end ss arc 0 w) (\<lambda>(rv, w'). rv = RV_OK \<and> detached End w (ga_impl g) w')"
    using inv(2) free by (intro set_end_null_wp [OF inv(1) arc]) auto
  then obtain w' where w': "set_end ss arc 0 w = Some (RV_OK, w')" "detached End w (ga_impl g) w'" by (auto simp: yields_def)
  have d: "wd_inv w'" "kept w w'" "vT End w' (ga_impl g) = 0" "\<And>k. type_of w' k = type_of w k"
    using w'(2) by (simp_all add: detached_def)
  have a: "wd_addrs w arc = Some g" "\<not> ga_zombie g" "accessible ss w arc" "conn w (ga_impl g)" using arc by (simp_all add: arc_ready_def)
  obtain g' where g': "wd_addrs w' arc = Some g'" "ga_impl g' = ga_impl g" "\<not> ga_zombie g'"
    using kept_addr [OF d(2) a(1)] a(2) by auto
  have "yields (get_end ss arc w') (\<lambda>(x, v). x = 0)"
    using g' d a(4) kept_accessible [OF d(2) a(3)] by (intro get_end_wp [OF d(1) g'(1,3)]) (auto simp: conn_type end_is_def)
  then show ?thesis using w' True by (auto simp: yields_def detached_def)
qed

text \<open>C16. Rolling back brings an end back. This is for a new transaction in which the end of one arc
  is set: the arc is an accessible connector of a live segment without an event stream, no \<open>_PRE\<close> wait
  can deny, the new end is an accessible element of the arc's segment that is not locked, and the old
  end is another such element, or the arc had no end and no wait for \<open>ARC_END\<close> (with such a wait,
  setting the null end reads through the null address). Then setting the end through the transaction
  succeeds and the arc has the new end; \<open>rollback\<close> succeeds, the arc has its old end again, or none,
  no other end has changed and the invariant of the memory holds.\<close>

theorem transaction_restores_end:
  assumes "wd_inv w" "unwatched w" "arc_ready ss w arc g"
    and "end_is End w (ga_impl g) e0" "near ss w (ga_seg g) e0 \<or> e0 = 0 \<and> ga_waits g SC_WAIT_ARC_END = []"
    and "near ss w (ga_seg g) e1"
  shows "\<exists>t w1 v1 w2 v2. tr_set_end (new_trans ss) arc e1 w = Some (RV_OK, t, w1) \<and> get_end ss arc w1 = Some (e1, v1) \<and>
    tr_rollback n unlink t w1 = Some w2 \<and> get_end ss arc w2 = Some (e0, v2) \<and> wd_inv w2 \<and>
    vT Beg w2 = vT Beg w \<and> (\<forall>k. k \<noteq> ga_impl g \<longrightarrow> vT End w2 k = vT End w k)"
proof -
  have arc: "wd_addrs w arc = Some g" "\<not> ga_zombie g" "accessible ss w arc" "conn w (ga_impl g)" "streams w (ga_seg g) = Some False"
    using assms(3) by (simp_all add: arc_ready_def)
  have acc: "e0 = 0 \<or> accessible ss w e0" "accessible ss w e1" "e1 \<noteq> 0" using assms(5,6) by (auto simp: near_def accessible_def)
  obtain v0 where v0: "get_end ss arc w = Some (e0, v0)" "light w v0"
    using get_end_wp [OF assms(1) arc(1-4) assms(4), of "\<lambda>(x, v). x = e0 \<and> light w v"] acc(1) by (auto simp: yields_def)
  note l = light_keep(1) [OF v0(2) assms(1)] and r = light_ready [OF v0(2)]
  have un: "unwatched v0" using light_unwatched [OF v0(2)] assms(2) by simp
  have "yields (set_end ss arc e1 v0) (\<lambda>(rv, w'). rv = RV_OK \<and> attached End v0 (ga_impl g) e1 w')"
    by (rule set_end_wp [OF l r(1) [OF assms(3)] r(2) [OF near_end_ready [OF assms(6) arc(5)]]]) (use un in auto)
  then obtain w1 where w1: "set_end ss arc e1 v0 = Some (RV_OK, w1)" "attached End v0 (ga_impl g) e1 w1" by (auto simp: yields_def)
  have a1: "attached End w (ga_impl g) e1 w1" using light_attached [OF v0(2) w1(2)] .
  obtain v1 where v1: "get_end ss arc w1 = Some (e1, v1)" using attached_reads_end [OF a1 assms(3) acc(2)] by blast
  obtain g1 where g1: "arc_ready ss w1 arc g1" "ga_impl g1 = ga_impl g" "ga_seg g1 = ga_seg g"
    using attached_arc_ready [OF a1 assms(3) refl] by blast
  have gr: "grown w w1" "wd_inv w1" "unwatched w1" "end_is End w1 (ga_impl g1) e1"
    using a1 assms(2) g1(2) by (auto simp: attached_def grown_def)
  have "ga_waits g1 = ga_waits g" using frame_fields [OF gr(1) arc(1)] g1(1) by (auto simp: arc_ready_def)
  have "e0 \<noteq> 0 \<and> end_ready ss w1 (ga_seg g1) e0 \<and> accessible ss w1 e0 \<or> e0 = 0 \<and> ga_waits g1 SC_WAIT_ARC_END = []"
  proof (rule disjE [OF assms(5)])
    assume n: "near ss w (ga_seg g) e0"
    then have "accessible ss w e0" "e0 \<noteq> 0" by (auto simp: near_def accessible_def)
    then show ?thesis
      using near_grown_ready [OF gr(1) n arc(5)] g1(3) grown_accessible [OF gr(1), of ss e0] by simp
  qed (use \<open>ga_waits g1 = ga_waits g\<close> in simp)
  from set_back_wp [OF gr(2,3) g1(1) gr(4) acc(3) this] obtain w2 v2 where
    w2: "set_end ss arc e0 w1 = Some (RV_OK, w2)" "get_end ss arc w2 = Some (e0, v2)" "wd_inv w2" "vT Beg w2 = vT Beg w1"
      "\<forall>k. k \<noteq> ga_impl g1 \<longrightarrow> vT End w2 k = vT End w1 k" by blast
  have "tr_set_end (new_trans ss) arc e1 w = Some (RV_OK, (new_trans ss)\<lparr>tr_end := [(arc, e0)]\<rparr>, w1)"
    using v0(1) w1(1) by (simp add: tr_set_end_def new_trans_def)
  moreover have "tr_rollback n unlink ((new_trans ss)\<lparr>tr_end := [(arc, e0)]\<rparr>) w1 = Some w2"
    using w2(1) by (simp add: tr_rollback_def new_trans_def)
  moreover have "vT Beg w2 = vT Beg w \<and> (\<forall>k. k \<noteq> ga_impl g \<longrightarrow> vT End w2 k = vT End w k)"
    using a1 w2(4,5) g1(2) by (simp add: attached_def)
  ultimately show ?thesis using v1 w2(2,3) by blast
qed

theorem transaction_restores_end_witness:
  "(\<exists>w0 t w1 w2 v2. set_end 5 9 8 small_world = Some (RV_OK, w0) \<and> tr_set_end (new_trans 5) 9 7 w0 = Some (RV_OK, t, w1) \<and>
    tr_rollback 0 (\<lambda>_. Some) t w1 = Some w2 \<and> get_end 5 9 w2 = Some (8, v2)) \<and>
   (\<exists>t w1 w2 v2. tr_set_end (new_trans 5) 9 7 small_world = Some (RV_OK, t, w1) \<and>
    tr_rollback 0 (\<lambda>_. Some) t w1 = Some w2 \<and> get_end 5 9 w2 = Some (0, v2))"
proof
  let ?g = "new_gaddr 1 4 0 0"
  have n: "near 5 small_world (ga_seg ?g) 8" "near 5 small_world (ga_seg ?g) 7" using small_near by (simp_all add: new_gaddr_def)
  have st: "streams small_world (ga_seg ?g) = Some False" using small_ready(1) by (simp add: arc_ready_def)
  have "yields (set_end 5 9 8 small_world) (\<lambda>(rv, w'). rv = RV_OK \<and> attached End small_world (ga_impl ?g) 8 w')"
    by (rule set_end_wp [OF small_inv small_ready(1) near_end_ready [OF n(1) st]]) (use small_misc(1) in auto)
  then obtain w0 where w0: "set_end 5 9 8 small_world = Some (RV_OK, w0)" and a: "attached End small_world (ga_impl ?g) 8 w0"
    by (auto simp: yields_def)
  obtain g where g: "arc_ready 5 w0 9 g" "ga_impl g = ga_impl ?g" "ga_seg g = ga_seg ?g" using attached_arc_ready [OF a small_ready(1) refl] by blast
  have gr: "grown small_world w0" "wd_inv w0" "unwatched w0" "end_is End w0 (ga_impl g) 8"
    using a g(2) small_misc(1) by (auto simp: attached_def grown_def)
  show "\<exists>w0 t w1 w2 v2. set_end 5 9 8 small_world = Some (RV_OK, w0) \<and> tr_set_end (new_trans 5) 9 7 w0 = Some (RV_OK, t, w1) \<and>
    tr_rollback 0 (\<lambda>_. Some) t w1 = Some w2 \<and> get_end 5 9 w2 = Some (8, v2)"
    using transaction_restores_end [OF gr(2,3) g(1) gr(4), of 7 0 "\<lambda>_. Some"] grown_near [OF gr(1)] n g(3) w0 by metis
  have e: "end_is End small_world (ga_impl ?g) 0" "ga_waits ?g SC_WAIT_ARC_END = []"
    using small_misc(6) by (simp_all add: end_is_def new_gaddr_def)
  show "\<exists>t w1 w2 v2. tr_set_end (new_trans 5) 9 7 small_world = Some (RV_OK, t, w1) \<and>
    tr_rollback 0 (\<lambda>_. Some) t w1 = Some w2 \<and> get_end 5 9 w2 = Some (0, v2)"
    using transaction_restores_end [OF small_inv small_misc(1) small_ready(1) e(1) _ n(2), of 0 "\<lambda>_. Some"] e(2) by blast
qed

end
