(* ===== verification/Sc_Network.thy ===== *)
theory Sc_Network
  imports Sc_Search Sc_Transaction
begin

text \<open>
  Data structures kept in the memory: tuples (\<open>sc_tuple.cpp\<close>), relations (\<open>sc_relation.cpp\<close>), linked
  lists (\<open>sc_list.cpp\<close>), queues (\<open>sc_queue.cpp\<close>) and structures (\<open>sc_struct.cpp\<close>) of \<open>libsc/libsc\<close>.
  They are made of arcs with attributes and read by the searches of \<open>sc_utils.cpp\<close>. Queues change
  inside a transaction. The keynodes are parameters: \<open>na\<close> gives the number attributes.
\<close>

record senv =
  se_rg :: registry
  se_sys :: nat
  se_depth :: nat

section \<open>Tuples\<close>

text \<open>The second result is the arc; both stay null when nothing is found.\<close>

definition tup_at :: "senv \<Rightarrow> nat \<Rightarrow> nat \<Rightarrow> nat \<Rightarrow> world \<Rightarrow> (nat \<times> nat \<times> world) option" where
  "tup_at E ss tuple attr w =
     do {
       (rv, vs, w) \<leftarrow> search_oneshot (se_rg E) ss (se_sys E) ''std5_faaaf''
         [P_addr tuple, P_type 0, P_type 0, P_type 0, P_addr attr] [2, 1] w;
       Some (case vs of [v, a] \<Rightarrow> (v, a, w) | _ \<Rightarrow> (0, 0, w))
     }"

fun create_ord_loop ::
  "senv \<Rightarrow> nat \<Rightarrow> (nat \<Rightarrow> nat) \<Rightarrow> nat \<Rightarrow> nat \<Rightarrow> nat \<Rightarrow> nat list \<Rightarrow> world \<Rightarrow> world option" where
  "create_ord_loop E ss na seg tuple i [] w = Some w"
| "create_ord_loop E ss na seg tuple i (el # els) w =
     do {
       (_, _, w) \<leftarrow> gen5_f_a_f_a_f (se_depth E) ss tuple seg CPA el seg CPA (na (i + 1)) w;
       create_ord_loop E ss na seg tuple (i + 1) els w
     }"

definition tup_create_ord_m :: "senv \<Rightarrow> nat \<Rightarrow> (nat \<Rightarrow> nat) \<Rightarrow> nat \<Rightarrow> nat list \<Rightarrow> world \<Rightarrow> (nat \<times> world) option" where
  "tup_create_ord_m E ss na seg els w =
     do {
       (tuple, w) \<leftarrow> create_el ss seg SC_N_CONST w;
       w \<leftarrow> create_ord_loop E ss na seg tuple 0 (upto_null els) w;
       Some (tuple, w)
     }"

definition tup_create_ord :: "senv \<Rightarrow> nat \<Rightarrow> (nat \<Rightarrow> nat) \<Rightarrow> nat \<Rightarrow> nat list \<Rightarrow> world \<Rightarrow> (nat \<times> world) option" where
  "tup_create_ord E ss na seg els w = tup_create_ord_m E ss na seg (els @ [0]) w"

definition tup_add_in :: "senv \<Rightarrow> nat \<Rightarrow> nat \<Rightarrow> nat \<Rightarrow> nat \<Rightarrow> nat \<Rightarrow> world \<Rightarrow> (sc_retval \<times> world) option" where
  "tup_add_in E ss seg tuple attr el w =
     do {
       (t, w) \<leftarrow> get_type ss tuple w;
       let arc_type = arc_type_in (t AND SC_CONSTANCY_MASK);
       (rv, _, w) \<leftarrow> gen5_f_a_f_a_f (se_depth E) ss tuple seg arc_type el seg arc_type attr w;
       Some (rv, w)
     }"

definition tup_add :: "senv \<Rightarrow> nat \<Rightarrow> nat \<Rightarrow> nat \<Rightarrow> nat \<Rightarrow> world \<Rightarrow> (sc_retval \<times> world) option" where
  "tup_add E ss tuple attr el w = do { s \<leftarrow> addr_seg tuple w; tup_add_in E ss s tuple attr el w }"

definition tup_add_c :: "senv \<Rightarrow> nat \<Rightarrow> nat \<Rightarrow> nat \<Rightarrow> nat \<Rightarrow> world \<Rightarrow> (nat \<times> world) option" where
  "tup_add_c E ss tuple attr el w =
     do {
       s \<leftarrow> addr_seg tuple w;
       (_, made, w) \<leftarrow> gen5_f_a_f_a_f (se_depth E) ss tuple s CPA el s CPA attr w;
       Some (case made of None \<Rightarrow> 0 | Some (a, _) \<Rightarrow> a, w)
     }"

definition tup_unpack_ord2 :: "senv \<Rightarrow> nat \<Rightarrow> (nat \<Rightarrow> nat) \<Rightarrow> nat \<Rightarrow> world \<Rightarrow> (sc_retval \<times> (nat \<times> nat) option \<times> world) option" where
  "tup_unpack_ord2 E ss na tuple w =
     do {
       (rv, v1, w) \<leftarrow> search_5_f_cpa_a_cpa_f (se_rg E) ss (se_sys E) tuple (na 1) w;
       (if rv \<noteq> RV_OK then Some (RV_ERR_GEN, None, w)
        else do {
          (rv, v2, w) \<leftarrow> search_5_f_cpa_a_cpa_f (se_rg E) ss (se_sys E) tuple (na 2) w;
          Some (if rv \<noteq> RV_OK then (RV_ERR_GEN, None, w) else (RV_OK, Some (v1 ! 1, v2 ! 1), w))
        })
     }"

text \<open>The last place of the attribute is the one that gets the value.\<close>

fun store_attr :: "nat \<Rightarrow> nat list \<Rightarrow> nat \<Rightarrow> nat \<Rightarrow> nat list \<Rightarrow> nat list" where
  "store_attr e5 attrs e3 0 rv = rv"
| "store_attr e5 attrs e3 (Suc i) rv = (if attrs ! i = e5 then rv[i := e3] else store_attr e5 attrs e3 i rv)"

definition tup_unpack :: "nat \<Rightarrow> nat \<Rightarrow> nat list \<Rightarrow> world \<Rightarrow> (nat list \<times> world) option" where
  "tup_unpack ss tuple attrs w =
     each_arc Beg ss tuple
       (\<lambda>e2 rv w. do {
          (e3, w) \<leftarrow> get_end ss e2 w;
          (rv, w) \<leftarrow> each_arc End ss e2
            (\<lambda>e4 rv w. do { (e5, w) \<leftarrow> get_beg ss e4 w; Some (False, store_attr e5 attrs e3 (length attrs) rv, w) }) rv w;
          Some (False, rv, w)
        }) (replicate (length attrs) 0) w"

section \<open>Relations\<close>

definition rel_bin_ord_at :: "senv \<Rightarrow> nat \<Rightarrow> nat \<Rightarrow> nat \<Rightarrow> nat \<Rightarrow> nat \<Rightarrow> world \<Rightarrow> (nat \<times> nat \<times> world) option" where
  "rel_bin_ord_at E ss rel val val_attr res_attr w =
     do {
       (_, vs, w) \<leftarrow> search_oneshot (se_rg E) ss (se_sys E) ''std_ord_bin_conn1''
         [P_addr rel, P_type 0, P_type 0, P_type 0, P_addr val, P_type 0, P_type 0, P_type 0, P_addr val_attr, P_type 0, P_addr res_attr]
         [2, 6] w;
       Some (case vs of [tuple, rv] \<Rightarrow> (rv, tuple, w) | _ \<Rightarrow> (0, 0, w))
     }"

definition rel_bin_ord_at_2 :: "senv \<Rightarrow> nat \<Rightarrow> (nat \<Rightarrow> nat) \<Rightarrow> nat \<Rightarrow> nat \<Rightarrow> world \<Rightarrow> (nat \<times> nat \<times> world) option" where
  "rel_bin_ord_at_2 E ss na rel val1 w = rel_bin_ord_at E ss rel val1 (na 1) (na 2) w"

definition rel_bin_ord_at_1 :: "senv \<Rightarrow> nat \<Rightarrow> (nat \<Rightarrow> nat) \<Rightarrow> nat \<Rightarrow> nat \<Rightarrow> world \<Rightarrow> (nat \<times> nat \<times> world) option" where
  "rel_bin_ord_at_1 E ss na rel val2 w = rel_bin_ord_at E ss rel val2 (na 2) (na 1) w"

definition rel_add_ord_tuple :: "senv \<Rightarrow> nat \<Rightarrow> (nat \<Rightarrow> nat) \<Rightarrow> nat \<Rightarrow> nat \<Rightarrow> nat \<Rightarrow> world \<Rightarrow> (nat \<times> world) option" where
  "rel_add_ord_tuple E ss na rel v1 v2 w =
     do {
       s \<leftarrow> addr_seg rel w;
       (tuple, w) \<leftarrow> create_el ss s SC_N_CONST w;
       (_, _, w) \<leftarrow> gen3_f_a_f (se_depth E) ss rel s CPA tuple w;
       (_, _, w) \<leftarrow> gen5_f_a_f_a_f (se_depth E) ss tuple s CPA v1 s CPA (na 1) w;
       (_, _, w) \<leftarrow> gen5_f_a_f_a_f (se_depth E) ss tuple s CPA v2 s CPA (na 2) w;
       Some (tuple, w)
     }"

fun rel_pack :: "senv \<Rightarrow> nat \<Rightarrow> (nat \<Rightarrow> nat) \<Rightarrow> nat \<Rightarrow> (nat \<times> nat) list \<Rightarrow> world \<Rightarrow> world option" where
  "rel_pack E ss na rel [] w = do { ensure (rel \<noteq> 0); Some w }"
| "rel_pack E ss na rel ((a, b) # ps) w =
     do { ensure (rel \<noteq> 0); (_, w) \<leftarrow> rel_add_ord_tuple E ss na rel a b w; rel_pack E ss na rel ps w }"

definition rel_tuples :: "senv \<Rightarrow> nat \<Rightarrow> nat \<Rightarrow> (world_iter \<Rightarrow> 'x \<Rightarrow> world \<Rightarrow> ('x \<times> world) option) \<Rightarrow> 'x \<Rightarrow> world \<Rightarrow> ('x \<times> world) option" where
  "rel_tuples E ss rel body x w =
     do {
       ensure (rel \<noteq> 0);
       (t, w) \<leftarrow> get_type ss rel w;
       wi_each (se_rg E) ss (se_sys E) ''std3_faa'' [P_addr rel, P_type (arc_type_in (t AND SC_CONSTANCY_MASK)), P_type SC_N_CONST] body x w
     }"

definition rel_erase :: "senv \<Rightarrow> nat \<Rightarrow> nat \<Rightarrow> world \<Rightarrow> world option" where
  "rel_erase E ss rel w =
     do {
       (_, w) \<leftarrow> rel_tuples E ss rel
         (\<lambda>it x w. do { v \<leftarrow> wi_value it 2; (_, w) \<leftarrow> erase_el (se_depth E) ss v w; Some (x, w) }) () w;
       (_, w) \<leftarrow> erase_el (se_depth E) ss rel w;
       Some w
     }"

text \<open>\<open>insert\<close> into a \<open>std::map\<close> keeps the pair that is there.\<close>

definition rel_unpack :: "senv \<Rightarrow> nat \<Rightarrow> (nat \<Rightarrow> nat) \<Rightarrow> nat \<Rightarrow> (nat \<Rightarrow> nat option) \<Rightarrow> world \<Rightarrow> ((nat \<Rightarrow> nat option) \<times> world) option" where
  "rel_unpack E ss na rel out_map w =
     rel_tuples E ss rel
       (\<lambda>it out w. do {
          tuple \<leftarrow> wi_value it 2;
          (e1, _, w) \<leftarrow> tup_at E ss tuple (na 1) w;
          (e2, _, w) \<leftarrow> tup_at E ss tuple (na 2) w;
          Some (if out e1 = None then out(e1 \<mapsto> e2) else out, w)
        }) out_map w"

section \<open>Lists\<close>

record list_keys =
  key_value :: nat
  key_next :: nat

text \<open>\<open>create\<close>: an error of \<open>gen5_f_a_f_a_f\<close> aborts. The second branch passes \<open>val\<close>, as the source does.\<close>

definition list_create :: "senv \<Rightarrow> list_keys \<Rightarrow> nat \<Rightarrow> nat \<Rightarrow> nat \<Rightarrow> nat \<Rightarrow> world \<Rightarrow> (nat \<times> world) option" where
  "list_create E K ss seg val next w =
     do {
       (l, w) \<leftarrow> create_el ss seg SC_N_CONST w;
       ensure (l \<noteq> 0);
       w \<leftarrow> (if val \<noteq> 0 then
               do { (rv, _, w) \<leftarrow> gen5_f_a_f_a_f (se_depth E) ss l seg CPA val seg CPA (key_value K) w; ensure (rv = RV_OK); Some w }
             else Some w);
       w \<leftarrow> (if next \<noteq> 0 then
               do { (rv, _, w) \<leftarrow> gen5_f_a_f_a_f (se_depth E) ss l seg CPA val seg CPA (key_next K) w; ensure (rv = RV_OK); Some w }
             else Some w);
       Some (l, w)
     }"

text \<open>\<open>set_next\<close> and \<open>set_value\<close> erase the arc that is there before they make the new one.\<close>

definition list_drop_arc :: "senv \<Rightarrow> nat \<Rightarrow> nat \<Rightarrow> nat \<Rightarrow> world \<Rightarrow> world option" where
  "list_drop_arc E ss l attr w =
     do {
       (rv, vs, w) \<leftarrow> search_oneshot (se_rg E) ss (se_sys E) ''std5_faaaf'' [P_addr l, P_type 0, P_type 0, P_type 0, P_addr attr] [1] w;
       (if rv = RV_OK then map_option snd (erase_el (se_depth E) ss (vs ! 0) w) else Some w)
     }"

definition list_set_next_in :: "senv \<Rightarrow> list_keys \<Rightarrow> nat \<Rightarrow> nat \<Rightarrow> nat \<Rightarrow> nat \<Rightarrow> world \<Rightarrow> (sc_retval \<times> world) option" where
  "list_set_next_in E K ss seg list1 list2 w =
     do {
       w \<leftarrow> list_drop_arc E ss list1 (key_next K) w;
       (rv, _, w) \<leftarrow> gen5_f_a_f_a_f (se_depth E) ss list1 seg CPA list2 seg CPA (key_next K) w;
       Some (rv, w)
     }"

definition list_set_value_in :: "senv \<Rightarrow> list_keys \<Rightarrow> nat \<Rightarrow> nat \<Rightarrow> nat \<Rightarrow> nat \<Rightarrow> world \<Rightarrow> (sc_retval \<times> world) option" where
  "list_set_value_in E K ss seg l val w =
     do {
       w \<leftarrow> list_drop_arc E ss l (key_value K) w;
       (if val \<noteq> 0 then
          do { (rv, _, w) \<leftarrow> gen5_f_a_f_a_f (se_depth E) ss l seg CPA val seg CPA (key_value K) w; Some (rv, w) }
        else Some (RV_OK, w))
     }"

definition list_set_next :: "senv \<Rightarrow> list_keys \<Rightarrow> nat \<Rightarrow> nat \<Rightarrow> nat \<Rightarrow> world \<Rightarrow> (sc_retval \<times> world) option" where
  "list_set_next E K ss l1 l2 w = do { s \<leftarrow> addr_seg l1 w; list_set_next_in E K ss s l1 l2 w }"

definition list_set_value :: "senv \<Rightarrow> list_keys \<Rightarrow> nat \<Rightarrow> nat \<Rightarrow> nat \<Rightarrow> world \<Rightarrow> (sc_retval \<times> world) option" where
  "list_set_value E K ss l v w = do { s \<leftarrow> addr_seg l w; list_set_value_in E K ss s l v w }"

definition found_or_null :: "(sc_retval \<times> nat list \<times> world) \<Rightarrow> nat \<times> world" where
  "found_or_null r = (case r of (_, vs, w) \<Rightarrow> (case vs of [] \<Rightarrow> 0 | v # _ \<Rightarrow> v, w))"

definition list_get_next :: "senv \<Rightarrow> list_keys \<Rightarrow> nat \<Rightarrow> nat \<Rightarrow> world \<Rightarrow> (nat \<times> world) option" where
  "list_get_next E K ss l w =
     map_option found_or_null
       (search_oneshot (se_rg E) ss (se_sys E) ''std5_faaaf'' [P_addr l, P_type 0, P_type 0, P_type 0, P_addr (key_next K)] [2] w)"

definition list_get_prev :: "senv \<Rightarrow> list_keys \<Rightarrow> nat \<Rightarrow> nat \<Rightarrow> world \<Rightarrow> (nat \<times> world) option" where
  "list_get_prev E K ss l w =
     map_option found_or_null
       (search_oneshot (se_rg E) ss (se_sys E) ''std5_aafaf'' [P_type 0, P_type 0, P_addr l, P_type 0, P_addr (key_next K)] [0] w)"

definition list_get_value :: "senv \<Rightarrow> list_keys \<Rightarrow> nat \<Rightarrow> nat \<Rightarrow> world \<Rightarrow> (nat \<times> world) option" where
  "list_get_value E K ss l w =
     map_option found_or_null
       (search_oneshot (se_rg E) ss (se_sys E) ''std5_faaaf'' [P_addr l, P_type 0, P_type 0, P_type 0, P_addr (key_value K)] [2] w)"

partial_function (option) list_erase :: "senv \<Rightarrow> list_keys \<Rightarrow> nat \<Rightarrow> nat \<Rightarrow> world \<Rightarrow> world option" where
  "list_erase E K ss l w =
     do {
       (nxt, w) \<leftarrow> list_get_next E K ss l w;
       (_, w) \<leftarrow> erase_el (se_depth E) ss l w;
       (if nxt \<noteq> 0 then list_erase E K ss nxt w else Some w)
     }"

section \<open>Structures\<close>

text \<open>\<open>find_attr\<close> of \<open>sc_struct.cpp\<close>: the element and its arc; the arc is not initialised when nothing
  is found.\<close>

definition find_attr :: "senv \<Rightarrow> nat \<Rightarrow> nat \<Rightarrow> nat \<Rightarrow> world \<Rightarrow> (nat \<times> nat option \<times> world) option" where
  "find_attr E ss tuple attr w =
     do {
       (_, vs, w) \<leftarrow> search_oneshot (se_rg E) ss (se_sys E) ''std5_faaaf''
         [P_addr tuple, P_type 0, P_type 0, P_type 0, P_addr attr] [2, 1] w;
       Some (case vs of [v, a] \<Rightarrow> (v, Some a, w) | _ \<Rightarrow> (0, None, w))
     }"

text \<open>The fields of a structure are read from the last to the first.\<close>

fun read_fields :: "senv \<Rightarrow> nat \<Rightarrow> nat \<Rightarrow> (nat \<times> nat) list \<Rightarrow> (nat \<Rightarrow> nat) \<Rightarrow> world \<Rightarrow> ((nat \<Rightarrow> nat) \<times> world) option" where
  "read_fields E ss tuple [] str w = Some (str, w)"
| "read_fields E ss tuple ((offset, attr) # fs) str w =
     do { (a, _, w) \<leftarrow> find_attr E ss tuple attr w; read_fields E ss tuple fs (str(offset := a)) w }"

definition struct_unpack :: "senv \<Rightarrow> nat \<Rightarrow> nat \<Rightarrow> (nat \<times> nat) list \<Rightarrow> (nat \<Rightarrow> nat) \<Rightarrow> world \<Rightarrow> ((nat \<Rightarrow> nat) \<times> world) option" where
  "struct_unpack E ss tuple fs str w = read_fields E ss tuple (rev fs) str w"

text \<open>The first \<open>min_cnt\<close> attributes may be missing; the others end at the first that is. An array keeps
  the null that ended it, a vector does not.\<close>

fun attrs_needed :: "senv \<Rightarrow> nat \<Rightarrow> nat \<Rightarrow> nat list \<Rightarrow> world \<Rightarrow> ((nat \<times> nat option) list \<times> world) option" where
  "attrs_needed E ss tuple [] w = Some ([], w)"
| "attrs_needed E ss tuple (a # as) w =
     do { (v, arc, w) \<leftarrow> find_attr E ss tuple a w; (vs, w) \<leftarrow> attrs_needed E ss tuple as w; Some ((v, arc) # vs, w) }"

fun attrs_while :: "senv \<Rightarrow> nat \<Rightarrow> nat \<Rightarrow> nat list \<Rightarrow> world \<Rightarrow> ((nat \<times> nat option) list \<times> world) option" where
  "attrs_while E ss tuple [] w = Some ([], w)"
| "attrs_while E ss tuple (a # as) w =
     do {
       (v, arc, w) \<leftarrow> find_attr E ss tuple a w;
       (if v = 0 then Some ([(v, arc)], w)
        else do { (vs, w) \<leftarrow> attrs_while E ss tuple as w; Some ((v, arc) # vs, w) })
     }"

text \<open>The pairs written to the two arrays and the count returned.\<close>

definition unpack_array_attr_arc ::
  "senv \<Rightarrow> nat \<Rightarrow> nat \<Rightarrow> nat list \<Rightarrow> nat \<Rightarrow> nat \<Rightarrow> world \<Rightarrow> (nat \<times> (nat \<times> nat option) list \<times> world) option" where
  "unpack_array_attr_arc E ss tuple attrs max_cnt min_cnt w =
     do {
       ensure (max min_cnt max_cnt \<le> length attrs);
       (xs, w) \<leftarrow> attrs_needed E ss tuple (take min_cnt attrs) w;
       (ys, w) \<leftarrow> attrs_while E ss tuple (drop min_cnt (take max_cnt attrs)) w;
       Some (min_cnt + length (filter (\<lambda>p. fst p \<noteq> 0) ys), xs @ ys, w)
     }"

definition unpack_array_attr ::
  "senv \<Rightarrow> nat \<Rightarrow> nat \<Rightarrow> nat list \<Rightarrow> nat \<Rightarrow> nat \<Rightarrow> world \<Rightarrow> (nat \<times> nat list \<times> world) option" where
  "unpack_array_attr E ss tuple attrs max_cnt min_cnt w =
     do { (i, ps, w) \<leftarrow> unpack_array_attr_arc E ss tuple attrs max_cnt min_cnt w; Some (i, map fst ps, w) }"

definition unpack_vector_attr ::
  "senv \<Rightarrow> nat \<Rightarrow> nat \<Rightarrow> nat list \<Rightarrow> nat \<Rightarrow> nat \<Rightarrow> world \<Rightarrow> (nat list \<times> world) option" where
  "unpack_vector_attr E ss tuple attrs max_cnt min_cnt w =
     do {
       ensure (max min_cnt max_cnt \<le> length attrs);
       (xs, w) \<leftarrow> attrs_needed E ss tuple (take min_cnt attrs) w;
       (ys, w) \<leftarrow> attrs_while E ss tuple (drop min_cnt (take max_cnt attrs)) w;
       Some (map fst xs @ filter (\<lambda>v. v \<noteq> 0) (map fst ys), w)
     }"

section \<open>Properties\<close>

lemma gen3_to_null:
  assumes "gen3_f_a_f n ss e1 seg2 t2 0 w = Some (rv, made, w')"
  shows "rv \<noteq> RV_OK \<and> made = None"
  using assms
  by (auto simp: gen3_f_a_f_def access_def return_error_def split: Option.bind_splits if_splits)

lemma gen5_to_null:
  assumes "gen5_f_a_f_a_f n ss e1 seg2 t2 0 seg4 t4 e5 w = Some (rv, made, w')"
  shows "rv \<noteq> RV_OK"
proof -
  obtain e c v where g: "gen3_f_a_f n ss e1 seg2 t2 0 w = Some (e, c, v)"
    using assms by (cases "gen3_f_a_f n ss e1 seg2 t2 0 w") (auto simp: gen5_f_a_f_a_f_def)
  from gen3_to_null [OF g] show ?thesis using assms g by (simp add: gen5_f_a_f_a_f_def)
qed

text \<open>A list without a value can not be created in front of another list: the arc that should go to
  the next list goes to the value, so \<open>create\<close> with a null value aborts for every next list.\<close>

theorem list_create_needs_value: "list_create E K ss seg 0 (Suc next) w = None"
proof -
  show ?thesis by (auto simp: list_create_def split: Option.bind_splits dest: gen5_to_null)
qed

end
