(* ===== verification/Sc_Queue.thy ===== *)
theory Sc_Queue
  imports Sc_Network
begin

text \<open>
  Queues in the memory (\<open>libsc/libsc/sc_queue.cpp\<close>): links in a ring around the head of the queue. A
  link has arcs to the previous and the next link and to its value, and moving one is \<open>set_end\<close> of
  the arc. Every change is made in a transaction of its own.
\<close>

record queue_keys =
  q_prev :: nat
  q_next :: nat
  q_nil :: nat
  q_value :: nat
  q_head :: nat

section \<open>Links\<close>

definition link_arc ::
  "nat \<Rightarrow> trans \<Rightarrow> nat \<Rightarrow> nat \<Rightarrow> nat \<Rightarrow> nat \<Rightarrow> world \<Rightarrow> (bool \<times> world) option" where
  "link_arc n t seg link el attr w =
     do {
       (_, _, w) \<leftarrow> tr_gen5_f_a_f_a_f n t link seg CPA el seg CPA attr w;
       e \<leftarrow> tr_get_error t w;
       Some (e = RV_OK, w)
     }"

definition pm_link_new :: "nat \<Rightarrow> queue_keys \<Rightarrow> trans \<Rightarrow> nat \<Rightarrow> world \<Rightarrow> (nat \<times> trans \<times> world) option" where
  "pm_link_new n K t seg w =
     do {
       (link, t, w) \<leftarrow> tr_create_el t seg SC_N_CONST w;
       e \<leftarrow> tr_get_error t w;
       (if e \<noteq> RV_OK then Some (0, t, w)
        else do {
          (b, w) \<leftarrow> link_arc n t seg link link (q_prev K) w;
          (if \<not> b then Some (0, t, w)
           else do {
             (b, w) \<leftarrow> link_arc n t seg link link (q_next K) w;
             (if \<not> b then Some (0, t, w)
              else do {
                (b, w) \<leftarrow> link_arc n t seg link (q_nil K) (q_value K) w;
                Some (if b then link else 0, t, w)
              })
           })
        })
     }"

definition pm_link_get_attr :: "senv \<Rightarrow> nat \<Rightarrow> nat \<Rightarrow> nat \<Rightarrow> world \<Rightarrow> (sc_retval \<times> nat \<times> world) option" where
  "pm_link_get_attr E ss link attr w =
     do {
       (rv, vs, w) \<leftarrow> search_first (se_rg E) ss (se_sys E) ''std5_faaaf''
         [P_addr link, P_type CPA, P_type 0, P_type CPA, P_addr attr] [2] w;
       Some (rv, case vs of [] \<Rightarrow> 0 | v # _ \<Rightarrow> v, w)
     }"

definition pm_link_set_attr :: "senv \<Rightarrow> trans \<Rightarrow> nat \<Rightarrow> nat \<Rightarrow> nat \<Rightarrow> world \<Rightarrow> (sc_retval \<times> trans \<times> world) option" where
  "pm_link_set_attr E t link attr val w =
     do {
       (rv, vs, w) \<leftarrow> search_first (se_rg E) (tr_host t) (se_sys E) ''std5_faaaf''
         [P_addr link, P_type CPA, P_type 0, P_type CPA, P_addr attr] [1] w;
       (if rv \<noteq> RV_OK then Some (RV_ERR_GEN, t, w)
        else do { (_, t, w) \<leftarrow> tr_set_end t (vs ! 0) val w; Some (RV_OK, t, w) })
     }"

text \<open>Each step returns at the first error.\<close>

fun pm_link_set_attrs :: "senv \<Rightarrow> trans \<Rightarrow> (nat \<times> nat \<times> nat) list \<Rightarrow> world \<Rightarrow> (sc_retval \<times> trans \<times> world) option" where
  "pm_link_set_attrs E t [] w = Some (RV_OK, t, w)"
| "pm_link_set_attrs E t ((link, attr, val) # ls) w =
     do {
       (rv, t, w) \<leftarrow> pm_link_set_attr E t link attr val w;
       (if rv \<noteq> RV_OK then Some (rv, t, w) else pm_link_set_attrs E t ls w)
     }"

definition pm_link_append :: "senv \<Rightarrow> queue_keys \<Rightarrow> trans \<Rightarrow> nat \<Rightarrow> nat \<Rightarrow> world \<Rightarrow> (sc_retval \<times> trans \<times> world) option" where
  "pm_link_append E K t link link2 w =
     do {
       (rv, next, w) \<leftarrow> pm_link_get_attr E (tr_host t) link (q_next K) w;
       (if rv \<noteq> RV_OK then Some (rv, t, w)
        else pm_link_set_attrs E t [(next, q_prev K, link2), (link, q_next K, link2), (link2, q_prev K, link), (link2, q_next K, next)] w)
     }"

definition pm_link_prepend :: "senv \<Rightarrow> queue_keys \<Rightarrow> trans \<Rightarrow> nat \<Rightarrow> nat \<Rightarrow> world \<Rightarrow> (sc_retval \<times> trans \<times> world) option" where
  "pm_link_prepend E K t link link2 w =
     do {
       (rv, prev, w) \<leftarrow> pm_link_get_attr E (tr_host t) link (q_prev K) w;
       (if rv \<noteq> RV_OK then Some (rv, t, w)
        else pm_link_set_attrs E t [(prev, q_next K, link2), (link, q_prev K, link2), (link2, q_next K, link), (link2, q_prev K, prev)] w)
     }"

definition pm_link_remove :: "senv \<Rightarrow> queue_keys \<Rightarrow> trans \<Rightarrow> nat \<Rightarrow> world \<Rightarrow> (sc_retval \<times> trans \<times> world) option" where
  "pm_link_remove E K t link w =
     do {
       (rv, prev, w) \<leftarrow> pm_link_get_attr E (tr_host t) link (q_prev K) w;
       (if rv \<noteq> RV_OK then Some (rv, t, w)
        else do {
          (rv, next, w) \<leftarrow> pm_link_get_attr E (tr_host t) link (q_next K) w;
          (if rv \<noteq> RV_OK then Some (rv, t, w)
           else do {
             ensure (prev = link \<longrightarrow> next = link);
             (rv, t, w) \<leftarrow> pm_link_set_attrs E t (if prev = link then [] else [(prev, q_next K, next), (next, q_prev K, prev)]) w;
             (if rv \<noteq> RV_OK then Some (rv, t, w)
              else pm_link_set_attrs E t [(link, q_prev K, link), (link, q_next K, link)] w)
           })
        })
     }"

definition pm_link_delete :: "senv \<Rightarrow> queue_keys \<Rightarrow> trans \<Rightarrow> nat \<Rightarrow> world \<Rightarrow> (sc_retval \<times> trans \<times> world) option" where
  "pm_link_delete E K t link w =
     do {
       (rv, t, w) \<leftarrow> pm_link_remove E K t link w;
       (if rv \<noteq> RV_OK then Some (RV_ERR_GEN, t, w) else tr_erase_el t link w)
     }"

section \<open>Queues\<close>

text \<open>How each operation ends: \<open>commit\<close> when every step succeeded, \<open>rollback\<close> otherwise. No segment is
  made by these transactions.\<close>

definition finish :: "senv \<Rightarrow> sc_retval \<Rightarrow> bool \<Rightarrow> trans \<Rightarrow> world \<Rightarrow> (sc_retval \<times> world) option" where
  "finish E err ok t w =
     (if ok then map_option (Pair RV_OK) (tr_commit (se_depth E) t w)
      else map_option (Pair err) (tr_rollback (se_depth E) (\<lambda>_. Some) t w))"

text \<open>The queue comes with the code; it may be set when the code is an error, and then it is erased.\<close>

definition sc_queue_new :: "senv \<Rightarrow> queue_keys \<Rightarrow> nat \<Rightarrow> nat \<Rightarrow> world \<Rightarrow> (sc_retval \<times> nat \<times> world) option" where
  "sc_queue_new E K ss seg w =
     do {
       (queue, t, w) \<leftarrow> tr_create_el (new_trans ss) seg SC_N_CONST w;
       e \<leftarrow> tr_get_error t w;
       (ok, t, w) \<leftarrow>
         (if e \<noteq> RV_OK then Some (False, t, w)
          else do {
            (listhead, t, w) \<leftarrow> pm_link_new (se_depth E) K t seg w;
            (if listhead = 0 then Some (False, t, w)
             else do { (b, w) \<leftarrow> link_arc (se_depth E) t seg queue listhead (q_head K) w; Some (b, t, w) })
          });
       e \<leftarrow> tr_get_error t w;
       (rv, w) \<leftarrow> finish E e ok t w;
       Some (rv, queue, w)
     }"

definition queue_head :: "senv \<Rightarrow> queue_keys \<Rightarrow> nat \<Rightarrow> nat \<Rightarrow> world \<Rightarrow> (sc_retval \<times> nat \<times> world) option" where
  "queue_head E K ss queue w =
     do {
       (rv, vs, w) \<leftarrow> search_5_f_cpa_cna_cpa_f (se_rg E) ss (se_sys E) queue (q_head K) w;
       Some (rv, case vs of [_, v, _] \<Rightarrow> v | _ \<Rightarrow> 0, w)
     }"

text \<open>The loop of \<open>sc_queue_delete\<close> reads the link after the head again, so each link is taken twice.\<close>

partial_function (option) queue_delete_loop ::
  "senv \<Rightarrow> queue_keys \<Rightarrow> trans \<Rightarrow> nat \<Rightarrow> nat \<Rightarrow> world \<Rightarrow> (bool \<times> trans \<times> world) option" where
  "queue_delete_loop E K t listhead l w =
     (if l = listhead then Some (True, t, w)
      else do {
        (rv, next, w) \<leftarrow> pm_link_get_attr E (tr_host t) listhead (q_next K) w;
        (if rv \<noteq> RV_OK then Some (False, t, w)
         else do {
           (rv, t, w) \<leftarrow> pm_link_remove E K t l w;
           (if rv \<noteq> RV_OK then Some (False, t, w)
            else do {
              (rv, t, w) \<leftarrow> pm_link_delete E K t l w;
              (if rv \<noteq> RV_OK then Some (False, t, w) else queue_delete_loop E K t listhead next w)
            })
         })
      })"

definition sc_queue_delete :: "senv \<Rightarrow> queue_keys \<Rightarrow> nat \<Rightarrow> nat \<Rightarrow> world \<Rightarrow> (sc_retval \<times> world) option" where
  "sc_queue_delete E K ss queue w =
     do {
       let t = new_trans ss;
       (rv, listhead, w) \<leftarrow> queue_head E K ss queue w;
       (ok, t, w) \<leftarrow>
         (if rv \<noteq> RV_OK then Some (False, t, w)
          else do {
            (rv, t, w) \<leftarrow> tr_erase_el t queue w;
            (if rv \<noteq> RV_OK then Some (False, t, w)
             else do {
               (rv, l, w) \<leftarrow> pm_link_get_attr E ss listhead (q_next K) w;
               (if rv \<noteq> RV_OK then Some (False, t, w)
                else do {
                  (ok, t, w) \<leftarrow> queue_delete_loop E K t listhead l w;
                  (if \<not> ok then Some (False, t, w)
                   else do { (rv, t, w) \<leftarrow> pm_link_delete E K t listhead w; Some (rv = RV_OK, t, w) })
                })
             })
          });
       finish E RV_ERR_GEN ok t w
     }"

text \<open>\<open>sc_queue_append\<close> and \<open>sc_queue_prepend\<close> differ in the side of the head where the link goes.\<close>

definition queue_insert ::
  "senv \<Rightarrow> queue_keys \<Rightarrow> (trans \<Rightarrow> nat \<Rightarrow> nat \<Rightarrow> world \<Rightarrow> (sc_retval \<times> trans \<times> world) option) \<Rightarrow>
   nat \<Rightarrow> nat \<Rightarrow> nat \<Rightarrow> world \<Rightarrow> (sc_retval \<times> world) option" where
  "queue_insert E K place ss queue element w =
     do {
       seg \<leftarrow> addr_seg queue w;
       (link, t, w) \<leftarrow> pm_link_new (se_depth E) K (new_trans ss) seg w;
       (ok, t, w) \<leftarrow>
         (if link = 0 then Some (False, t, w)
          else do {
            (rv, _, w) \<leftarrow> tr_gen3_f_a_f (se_depth E) t queue seg CPA link w;
            (if rv \<noteq> RV_OK then Some (False, t, w)
             else do {
               (rv, t, w) \<leftarrow> pm_link_set_attr E t link (q_value K) element w;
               (if rv \<noteq> RV_OK then Some (False, t, w)
                else do {
                  (rv, listhead, w) \<leftarrow> queue_head E K ss queue w;
                  (if rv \<noteq> RV_OK then Some (False, t, w)
                   else do { (rv, t, w) \<leftarrow> place t listhead link w; Some (rv = RV_OK, t, w) })
                })
             })
          });
       finish E RV_ERR_GEN ok t w
     }"

definition sc_queue_append :: "senv \<Rightarrow> queue_keys \<Rightarrow> nat \<Rightarrow> nat \<Rightarrow> nat \<Rightarrow> world \<Rightarrow> (sc_retval \<times> world) option" where
  "sc_queue_append E K ss queue element w = queue_insert E K (pm_link_prepend E K) ss queue element w"

definition sc_queue_prepend :: "senv \<Rightarrow> queue_keys \<Rightarrow> nat \<Rightarrow> nat \<Rightarrow> nat \<Rightarrow> world \<Rightarrow> (sc_retval \<times> world) option" where
  "sc_queue_prepend E K ss queue element w = queue_insert E K (pm_link_append E K) ss queue element w"

text \<open>The first link with its value; \<open>element\<close> is null on every error but that of the last search, which
  stores nothing either.\<close>

definition queue_first :: "senv \<Rightarrow> queue_keys \<Rightarrow> nat \<Rightarrow> nat \<Rightarrow> world \<Rightarrow> (sc_retval \<times> nat \<times> nat \<times> world) option" where
  "queue_first E K ss queue w =
     do {
       (rv, listhead, w) \<leftarrow> queue_head E K ss queue w;
       (if rv \<noteq> RV_OK then Some (RV_ERR_GEN, 0, 0, w)
        else do {
          (rv, first, w) \<leftarrow> pm_link_get_attr E ss listhead (q_next K) w;
          (if rv \<noteq> RV_OK then Some (RV_ERR_GEN, 0, 0, w)
           else if first = listhead then Some (RV_ELSE_GEN, 0, first, w)
           else do {
             (rv, element, w) \<leftarrow> pm_link_get_attr E ss first (q_value K) w;
             Some (if rv \<noteq> RV_OK then (RV_ERR_GEN, 0, first, w) else (RV_OK, element, first, w))
           })
        })
     }"

definition sc_queue_peek :: "senv \<Rightarrow> queue_keys \<Rightarrow> nat \<Rightarrow> nat \<Rightarrow> world \<Rightarrow> (sc_retval \<times> nat \<times> world) option" where
  "sc_queue_peek E K ss queue w =
     do { (rv, element, _, w) \<leftarrow> queue_first E K ss queue w; Some (rv, element, w) }"

definition delete_in_trans :: "senv \<Rightarrow> queue_keys \<Rightarrow> nat \<Rightarrow> nat \<Rightarrow> world \<Rightarrow> (sc_retval \<times> world) option" where
  "delete_in_trans E K ss link w =
     do { (rv, t, w) \<leftarrow> pm_link_delete E K (new_trans ss) link w; finish E RV_ERR_GEN (rv = RV_OK) t w }"

text \<open>When the link can not be deleted the element is given with the error.\<close>

definition sc_queue_get :: "senv \<Rightarrow> queue_keys \<Rightarrow> nat \<Rightarrow> nat \<Rightarrow> world \<Rightarrow> (sc_retval \<times> nat \<times> world) option" where
  "sc_queue_get E K ss queue w =
     do {
       (rv, element, first, w) \<leftarrow> queue_first E K ss queue w;
       (if rv \<noteq> RV_OK then Some (rv, element, w)
        else do { (rv, w) \<leftarrow> delete_in_trans E K ss first w; Some (rv, element, w) })
     }"

definition sc_queue_remove :: "senv \<Rightarrow> queue_keys \<Rightarrow> nat \<Rightarrow> nat \<Rightarrow> nat \<Rightarrow> world \<Rightarrow> (sc_retval \<times> world) option" where
  "sc_queue_remove E K ss queue element w =
     do {
       (rv, vs, w) \<leftarrow> search_oneshot (se_rg E) ss (se_sys E) ''std3l2_faaaf''
         [P_addr queue, P_type CPA, P_type SC_N_CONST, P_type CPA, P_addr element] [2] w;
       (if rv \<noteq> RV_OK then Some (RV_ERR_GEN, w) else delete_in_trans E K ss (vs ! 0) w)
     }"

end
