(* ===== verification/Sc_Merge.thy ===== *)
theory Sc_Merge
  imports Sc_Search
begin

text \<open>
  Moving and merging elements: \<open>__move_element\<close> of \<open>sc_core.cpp\<close>, and from \<open>sc_utils.cpp\<close> the check
  whether the elements of one segment can be glued to those of another, the gluing, the moves of a
  segment and of the neighbourhood of an element, and the merge of two elements. The session is
  \<open>s\<close>, \<open>n\<close> the depth of erasure and \<open>md5\<close> the checksum of contents.
\<close>

section \<open>Types and names\<close>

definition sc_type_is_compatible :: "sc_type \<Rightarrow> sc_type \<Rightarrow> bool" where
  "sc_type_is_compatible one two =
     (let diff = one XOR two in
      if diff AND SC_CONSTANCY_MASK \<noteq> 0 then False
      else if diff AND SC_SYNTACTIC_MASK \<noteq> 0 then diff AND SC_UNDF \<noteq> 0
      else if one AND SC_CONNECTOR_MASK = 0 then True
      else diff AND (SC_PERMANENCY_MASK OR SC_FUZZYNESS_MASK) = 0)"

definition is_identical :: "nat \<Rightarrow> nat \<Rightarrow> nat \<Rightarrow> world \<Rightarrow> (bool \<times> world) option" where
  "is_identical s from to w =
     (if from = to then Some (True, w)
      else do { (a, w) \<leftarrow> get_idtf s from w; (b, w) \<leftarrow> get_idtf s to w; Some (a = b, w) })"

section \<open>Loops over the elements of a segment\<close>

text \<open>The body answers whether the loop is left at once; then the iterator is not deleted here.\<close>

partial_function (option) seg_loop ::
  "(seg_el_iter \<Rightarrow> 'x \<Rightarrow> world \<Rightarrow> (bool \<times> 'x \<times> world) option) \<Rightarrow> seg_el_iter \<Rightarrow> 'x \<Rightarrow> world \<Rightarrow> (bool \<times> 'x \<times> seg_el_iter \<times> world) option" where
  "seg_loop body it x w =
     (if si_val it = 0 then Some (False, x, it, w)
      else do {
        (stop, x, w) \<leftarrow> body it x w;
        (if stop then Some (True, x, it, w)
         else do { (_, it, w) \<leftarrow> on_segment_next it w; seg_loop body it x w })
      })"

text \<open>A segment that is not opened gives a null iterator, which is dereferenced.\<close>

definition over_segment ::
  "nat \<Rightarrow> nat \<Rightarrow> (seg_el_iter \<Rightarrow> 'x \<Rightarrow> world \<Rightarrow> (bool \<times> 'x \<times> world) option) \<Rightarrow> 'x \<Rightarrow> world \<Rightarrow> (bool \<times> 'x \<times> seg_el_iter \<times> world) option" where
  "over_segment s from body x w = do { (it, w) \<leftarrow> std_on_segment s from False w; it \<leftarrow> it; seg_loop body it x w }"

section \<open>The check of a gluing\<close>

datatype error_reason = INCOMPATIBLE_TYPE | DIFFERENT_ARC_TO | DIFFERENT_ARC_FROM | DIFFERENT_CONTENT

text \<open>One end: the code looks at the end of the element that stays, and lets a null end pass.\<close>

definition end_fits :: "(nat \<Rightarrow> nat \<Rightarrow> world \<Rightarrow> (nat \<times> world) option) \<Rightarrow> nat \<Rightarrow> nat \<Rightarrow> nat \<Rightarrow> world \<Rightarrow> (bool \<times> world) option" where
  "end_fits get s from_addr identical w =
     do {
       (e, w) \<leftarrow> get s identical w;
       (from_end, w) \<leftarrow> get s from_addr w;
       (if e = 0 then Some (True, w) else is_identical s from_end e w)
     }"

definition contents_differ :: "content \<Rightarrow> content \<Rightarrow> bool option" where
  "contents_differ a b = (if a \<noteq> CEmpty \<and> b \<noteq> CEmpty then map_option Not (content_eq a b) else Some False)"

definition glue_problem :: "nat \<Rightarrow> nat \<Rightarrow> nat \<Rightarrow> world \<Rightarrow> (error_reason option \<times> world) option" where
  "glue_problem s from_addr identical w =
     do {
       (from_type, w) \<leftarrow> get_type s from_addr w;
       (to_type, w) \<leftarrow> get_type s identical w;
       (if \<not> sc_type_is_compatible from_type to_type then Some (Some INCOMPATIBLE_TYPE, w)
        else do {
          (p, w) \<leftarrow>
            (if to_type AND SC_CONNECTOR_MASK = 0 \<or> from_type AND SC_CONNECTOR_MASK = 0 then Some (None, w)
             else do {
               (b, w) \<leftarrow> end_fits get_end s from_addr identical w;
               (if \<not> b then Some (Some DIFFERENT_ARC_TO, w)
                else do {
                  (b, w) \<leftarrow> end_fits get_beg s from_addr identical w;
                  Some (if b then None else Some DIFFERENT_ARC_FROM, w)
                })
             });
          (if p \<noteq> None then Some (p, w)
           else do {
             (c1, w) \<leftarrow> get_content s from_addr w;
             (c2, w) \<leftarrow> get_content s identical w;
             d \<leftarrow> contents_differ c1 c2;
             Some (if d then Some DIFFERENT_CONTENT else None, w)
           })
        })
     }"

text \<open>\<open>error\<close> and \<open>to_merge\<close> are virtual; \<open>error\<close> answers whether the check goes on (\<open>check_in_progress\<close>).
  The result is false as soon as it does not, and the iterator is lost; otherwise it tells whether
  there was no problem.\<close>

definition glue_check ::
  "(error_reason \<Rightarrow> nat \<Rightarrow> nat \<Rightarrow> 'x \<Rightarrow> bool \<times> 'x) \<Rightarrow> (nat \<Rightarrow> nat \<Rightarrow> 'x \<Rightarrow> 'x) \<Rightarrow> nat \<Rightarrow> nat \<Rightarrow> nat \<Rightarrow> 'x \<Rightarrow> world \<Rightarrow>
   (bool \<times> 'x \<times> world) option" where
  "glue_check err merge s from to x w =
     do {
       (stopped, (ok, x), it, w) \<leftarrow> over_segment s from
         (\<lambda>it (ok, x) w. do {
            let from_addr = on_segment_value it 0;
            (name, w) \<leftarrow> get_idtf s from_addr w;
            (identical, w) \<leftarrow> find_by_idtf s name to w;
            (if identical = 0 then Some (False, (ok, x), w)
             else do {
               (p, w) \<leftarrow> glue_problem s from_addr identical w;
               Some (case p of
                       None \<Rightarrow> (False, (ok, merge from_addr identical x), w)
                     | Some r \<Rightarrow> (let (go_on, x) = err r from_addr identical x in (\<not> go_on, (False, x), w)))
             })
          }) (True, x) w;
       w \<leftarrow> (if stopped then Some w else on_segment_delete it w);
       Some (ok, x, w)
     }"

section \<open>Gluing\<close>

text \<open>The loops that move the arcs of \<open>from_addr\<close> take the arc from the iterator over the segment, not
  from the iterator over the arcs: \<open>value(1)\<close> of the former is null, and nothing is moved.\<close>

definition glue_arcs :: "side \<Rightarrow> nat \<Rightarrow> seg_el_iter \<Rightarrow> nat \<Rightarrow> nat \<Rightarrow> world \<Rightarrow> world option" where
  "glue_arcs sd s it from_addr identical w =
     map_option snd (each_arc sd s from_addr
       (\<lambda>_ _ w. do {
          (_, w) \<leftarrow> (case sd of End \<Rightarrow> set_end s (on_segment_value it 1) identical w
                              | Beg \<Rightarrow> set_beg s (on_segment_value it 1) identical w);
          Some (False, (), w)
        }) () w)"

definition glue_end ::
  "(nat \<Rightarrow> nat \<Rightarrow> world \<Rightarrow> (nat \<times> world) option) \<Rightarrow> (nat \<Rightarrow> nat \<Rightarrow> nat \<Rightarrow> world \<Rightarrow> (sc_retval \<times> world) option) \<Rightarrow>
   nat \<Rightarrow> nat \<Rightarrow> nat \<Rightarrow> world \<Rightarrow> (bool \<times> world) option" where
  "glue_end get set_to s from_addr identical w =
     do {
       (e, w) \<leftarrow> get s identical w;
       (from_end, w) \<leftarrow> get s from_addr w;
       (if e \<noteq> 0 then is_identical s from_end e w
        else do { (_, w) \<leftarrow> set_to s identical from_end w; Some (True, w) })
     }"

text \<open>One element; a null \<open>identical\<close> in the result means that there was nothing to glue it to.\<close>

definition glue_element ::
  "(bytes \<Rightarrow> bytes) \<Rightarrow> nat \<Rightarrow> nat \<Rightarrow> nat \<Rightarrow> seg_el_iter \<Rightarrow> world \<Rightarrow> (bool \<times> nat \<times> world) option" where
  "glue_element md5 n s to it w =
     do {
       let from_addr = on_segment_value it 0;
       (name, w) \<leftarrow> get_idtf s from_addr w;
       (identical, w) \<leftarrow> find_by_idtf s name to w;
       (if identical = 0 then Some (True, 0, w)
        else do {
          (from_type, w) \<leftarrow> get_type s from_addr w;
          (to_type, w) \<leftarrow> get_type s identical w;
          (if \<not> sc_type_is_compatible from_type to_type then Some (False, identical, w)
           else do {
             (c, w) \<leftarrow> get_content s from_addr w;
             (take, w) \<leftarrow>
               (if c = CEmpty then Some (False, w)
                else case c of
                  CLazy _ \<Rightarrow> do { (d, w) \<leftarrow> get_content s identical w; Some (d = CEmpty, w) }
                | _ \<Rightarrow> Some (True, w));
             w \<leftarrow> (if take then map_option snd (set_content md5 s identical c w) else Some w);
             (ok, w) \<leftarrow>
               (if to_type AND SC_SYNTACTIC_MASK = SC_UNDF then do { (_, w) \<leftarrow> change_type s identical from_type w; Some (True, w) }
                else if to_type AND SC_CONNECTOR_MASK \<noteq> 0 \<and> from_type AND SC_CONNECTOR_MASK \<noteq> 0 then do {
                  (ok, w) \<leftarrow> glue_end get_end set_end s from_addr identical w;
                  (if \<not> ok then Some (False, w) else glue_end get_beg set_beg s from_addr identical w)
                }
                else Some (True, w));
             (if \<not> ok then Some (False, identical, w)
              else do {
                w \<leftarrow> glue_arcs End s it from_addr identical w;
                w \<leftarrow> glue_arcs Beg s it from_addr identical w;
                (_, w) \<leftarrow> erase_el n s from_addr w;
                Some (True, identical, w)
              })
           })
        })
     }"

definition glue_identical ::
  "(bytes \<Rightarrow> bytes) \<Rightarrow> nat \<Rightarrow> nat \<Rightarrow> nat \<Rightarrow> nat \<Rightarrow> world \<Rightarrow> (sc_retval \<times> nat \<times> world) option" where
  "glue_identical md5 n s from to w =
     do {
       (stopped, err_el, it, w) \<leftarrow> over_segment s from
         (\<lambda>it _ w. do { (ok, identical, w) \<leftarrow> glue_element md5 n s to it w; Some (\<not> ok, identical, w) }) 0 w;
       w \<leftarrow> on_segment_delete it w;
       Some (if stopped then (RV_ERR_GEN, err_el, w) else (RV_OK, 0, w))
     }"

section \<open>Moving\<close>

text \<open>\<open>sc_type_valid_table\<close> of \<open>valid_table.cpp\<close>: the places of its 513 entries that are not zero. Reading
  behind it is \<open>None\<close>.\<close>

definition sc_type_valid :: "nat list" where
  "sc_type_valid = [65, 66, 68, 137, 138, 140, 145, 146, 148, 161, 162, 164, 257, 258, 260]"

definition validate_type :: "sc_type \<Rightarrow> bool option" where
  "validate_type type = (let i = unat (type AND SC_POOR_MASK) in if i < 513 then Some (i \<in> set sc_type_valid) else None)"

text \<open>The arcs of \<open>a\<close> are given to \<open>b\<close> by the system session.\<close>

definition take_arcs :: "side \<Rightarrow> nat \<Rightarrow> nat \<Rightarrow> world \<Rightarrow> world option" where
  "take_arcs sd a b w =
     map_option snd (each_arc sd (wd_system w) a
       (\<lambda>arc _ w. do {
          (_, w) \<leftarrow> (case sd of End \<Rightarrow> set_end (wd_system w) arc b w | Beg \<Rightarrow> set_beg (wd_system w) arc b w);
          Some (False, (), w)
        }) () w)"

text \<open>The copy of an element in another segment: type, name and content.\<close>

definition move_copy :: "(bytes \<Rightarrow> bytes) \<Rightarrow> nat \<Rightarrow> nat \<Rightarrow> nat \<Rightarrow> world \<Rightarrow> (nat \<times> world) option" where
  "move_copy md5 s addr to w =
     do {
       g \<leftarrow> wd_addrs w addr;
       has_idtf \<leftarrow> map_option (\<lambda>rv. rv \<noteq> RV_OK) (sg_has_erased_idtf (ga_impl g) w);
       (idtf, w) \<leftarrow> (if has_idtf then sg_get_idtf (ga_seg g) (ga_impl g) w else Some ([], w));
       found \<leftarrow> (if has_idtf then sg_find_by_idtf to idtf w else Some 0);
       (if found \<noteq> 0 then fail_null s RV_ERR_GEN w
        else do {
          type \<leftarrow> sg_get_type (ga_impl g) w;
          valid \<leftarrow> validate_type type;
          ensure valid;
          (newll, w) \<leftarrow> sg_gen_el to type w;
          (if newll = 0 then fail_null s RV_ERR_GEN w
           else do {
             (rv, w) \<leftarrow> (if has_idtf then sg_set_idtf to newll idtf w else Some (RV_OK, w));
             ensure (rv = RV_OK);
             cont \<leftarrow> sg_get_content (ga_impl g) w;
             (rv, w) \<leftarrow> sg_set_content md5 to newll cont w;
             ensure (rv = RV_OK);
             (newaddr, w) \<leftarrow> addr_new to newll w;
             w \<leftarrow> sg_set_element_addr newll newaddr w;
             Some (newaddr, w)
           })
        })
     }"

definition move_element :: "(bytes \<Rightarrow> bytes) \<Rightarrow> nat \<Rightarrow> nat \<Rightarrow> nat \<Rightarrow> world \<Rightarrow> (nat \<times> world) option" where
  "move_element md5 s addr to w =
     do {
       (e, w) \<leftarrow> access s addr w;
       b \<leftarrow> (if e \<noteq> RV_OK \<or> to = 0 then Some False else session_opened s to w);
       (if \<not> b then fail_null s RV_ERR_GEN w
        else do {
          (newaddr, w) \<leftarrow> move_copy md5 s addr to w;
          (if newaddr = 0 then Some (0, w)
           else do {
             (_, w) \<leftarrow> addr_activate addr SC_WAIT_DIE [addr] w;
             g \<leftarrow> wd_addrs w addr;
             type \<leftarrow> sg_get_type (ga_impl g) w;
             w \<leftarrow>
               (if type AND SC_CONNECTOR_MASK = 0 then Some w
                else do {
                  (b, w) \<leftarrow> get_beg s addr w;
                  (d, w) \<leftarrow> get_end s addr w;
                  (_, w) \<leftarrow> set_beg s addr 0 w;
                  (_, w) \<leftarrow> set_end s addr 0 w;
                  (_, w) \<leftarrow> set_beg s newaddr b w;
                  (_, w) \<leftarrow> set_end s newaddr d w;
                  Some w
                });
             w \<leftarrow> take_arcs End addr newaddr w;
             w \<leftarrow> take_arcs Beg addr newaddr w;
             g \<leftarrow> wd_addrs w addr;
             str \<leftarrow> has_stream (ga_seg g) w;
             w \<leftarrow> (if str then
                    do { (idtf, w) \<leftarrow> sg_get_idtf (ga_seg g) (ga_impl g) w; put_ev (ga_seg g) (put_erase_el idtf) w }
                  else Some w);
             (_, w) \<leftarrow> erase_idtf s addr w;
             w \<leftarrow> addr_die addr w;
             w \<leftarrow> set_error s RV_OK w;
             Some (newaddr, w)
           })
        })
     }"

definition glue_segment :: "(bytes \<Rightarrow> bytes) \<Rightarrow> nat \<Rightarrow> nat \<Rightarrow> nat \<Rightarrow> world \<Rightarrow> (sc_retval \<times> world) option" where
  "glue_segment md5 s from to w =
     do {
       (_, _, it, w) \<leftarrow> over_segment s from
         (\<lambda>it _ w. do { (a, w) \<leftarrow> move_element md5 s (on_segment_value it 0) to w; ensure (a \<noteq> 0); Some (False, (), w) }) () w;
       w \<leftarrow> on_segment_delete it w;
       Some (RV_OK, w)
     }"

section \<open>Merging\<close>

text \<open>An end of \<open>main\<close> and the same end of \<open>oth\<close> must not be two elements.\<close>

definition ends_clash :: "(nat \<Rightarrow> nat \<Rightarrow> world \<Rightarrow> (nat \<times> world) option) \<Rightarrow> nat \<Rightarrow> nat \<Rightarrow> nat \<Rightarrow> world \<Rightarrow> (bool \<times> world) option" where
  "ends_clash get s main oth w =
     do {
       (el, w) \<leftarrow> get s main w;
       (if el = 0 then Some (False, w)
        else do { (el2, w) \<leftarrow> get s oth w; Some (el2 \<noteq> 0 \<and> el \<noteq> el2, w) })
     }"

text \<open>The type of the merged element, when the two types can be merged.\<close>

definition merged_type :: "sc_type \<Rightarrow> sc_type \<Rightarrow> sc_type option" where
  "merged_type main_type other_type =
     (if main_type AND SC_POOR_MASK = other_type AND SC_POOR_MASK then Some main_type
      else if main_type AND SC_CONSTANCY_MASK \<noteq> other_type AND SC_CONSTANCY_MASK then None
      else if main_type AND SC_SYNTACTIC_MASK = SC_UNDF then Some other_type
      else if other_type AND SC_SYNTACTIC_MASK \<noteq> SC_UNDF then None
      else Some main_type)"

text \<open>The first result is the return code, with the new type and content.\<close>

definition sc_is_mergeable :: "nat \<Rightarrow> nat \<Rightarrow> nat \<Rightarrow> world \<Rightarrow> (sc_retval \<times> sc_type \<times> content \<times> world) option" where
  "sc_is_mergeable s main oth w =
     do {
       (main_type, w) \<leftarrow> get_type s main w;
       (other_type, w) \<leftarrow> get_type s oth w;
       (main_cont, w) \<leftarrow> get_content s main w;
       (other_cont, w) \<leftarrow> get_content s oth w;
       e \<leftarrow> get_error s w;
       (if e \<noteq> RV_OK then Some (RV_ERR_GEN, 0, CEmpty, w)
        else do {
          (clash, w) \<leftarrow>
            (if main_type AND SC_CONNECTOR_MASK = 0 then Some (False, w)
             else do {
               (b, w) \<leftarrow> ends_clash get_beg s main oth w;
               (if b then Some (True, w) else ends_clash get_end s main oth w)
             });
          (if clash then Some (RV_ELSE_GEN, 0, CEmpty, w)
           else case merged_type main_type other_type of
             None \<Rightarrow> Some (RV_ELSE_GEN, 0, CEmpty, w)
           | Some type \<Rightarrow> do {
               differ \<leftarrow> (if main_cont \<noteq> CEmpty \<and> other_cont \<noteq> CEmpty then map_option Not (content_eq other_cont main_cont) else Some False);
               Some (if differ then (RV_ELSE_GEN, 0, CEmpty, w)
                     else (RV_OK, type, if main_cont = CEmpty then other_cont else main_cont, w))
             })
        })
     }"

definition merge_end ::
  "(nat \<Rightarrow> nat \<Rightarrow> world \<Rightarrow> (nat \<times> world) option) \<Rightarrow> (nat \<Rightarrow> nat \<Rightarrow> nat \<Rightarrow> world \<Rightarrow> (sc_retval \<times> world) option) \<Rightarrow>
   nat \<Rightarrow> nat \<Rightarrow> nat \<Rightarrow> world \<Rightarrow> world option" where
  "merge_end get set_to s main oth w =
     do {
       (e, w) \<leftarrow> get s main w;
       (if e \<noteq> 0 then Some w
        else do { (e, w) \<leftarrow> get s oth w; (_, w) \<leftarrow> set_to s main e w; Some w })
     }"

definition sc_merge_elements :: "(bytes \<Rightarrow> bytes) \<Rightarrow> nat \<Rightarrow> nat \<Rightarrow> nat \<Rightarrow> nat \<Rightarrow> world \<Rightarrow> (sc_retval \<times> world) option" where
  "sc_merge_elements md5 n s main oth w =
     do {
       (rv, new_type, new_content, w) \<leftarrow> sc_is_mergeable s main oth w;
       (if rv \<noteq> RV_OK then Some (RV_ELSE_GEN, w)
        else do {
          w \<leftarrow> take_arcs End oth main w;
          w \<leftarrow> take_arcs Beg oth main w;
          (c, w) \<leftarrow> get_content s main w;
          same \<leftarrow> content_eq c new_content;
          w \<leftarrow> (if same then Some w else map_option snd (set_content md5 s main new_content w));
          (t, w) \<leftarrow> get_type s main w;
          w \<leftarrow> (if t = new_type then Some w
                else do {
                  (_, w) \<leftarrow> change_type s main new_type w;
                  e \<leftarrow> get_error s w;
                  ensure (e = RV_OK);
                  Some w
                });
          w \<leftarrow> (if new_type AND SC_CONNECTOR_MASK = 0 then Some w
                else do { w \<leftarrow> merge_end get_beg set_beg s main oth w; merge_end get_end set_end s main oth w });
          (_, w) \<leftarrow> addr_activate oth SC_WAIT_MERGE [oth, main] w;
          (_, w) \<leftarrow> erase_el n s oth w;
          Some (RV_OK, w)
        })
     }"

section \<open>Properties\<close>

lemma set_ends_of_null:
  assumes "wd_sessions W ss \<noteq> None"
  shows "\<exists>er'. set_end ss 0 x (bump h er W) = Some (RV_ERR_GEN, bump h er' W)"
    and "\<exists>er'. set_beg ss 0 x (bump h er W) = Some (RV_ERR_GEN, bump h er' W)"
proof -
  obtain er' where "set_error ss RV_ERR_GEN (bump h er W) = Some (bump h er' W)"
    using bump_set_error [OF assms] by blast
  then show "\<exists>er'. set_end ss 0 x (bump h er W) = Some (RV_ERR_GEN, bump h er' W)"
    "\<exists>er'. set_beg ss 0 x (bump h er W) = Some (RV_ERR_GEN, bump h er' W)"
    by (auto simp: set_end_def set_beg_def access_def return_error_def)
qed

text \<open>C17. Gluing moves no arc. In a quiet memory (live addresses, segments and sessions with
  references, and every arc with an end known by an address), whatever arcs the element has that is
  glued, each of the two loops of \<open>glue_identical\<close>, which a comment there says move the arcs' ends to
  the other element, leaves the memory as it is but for error codes of sessions: the loop sets the end
  of \<open>iter->value(1)\<close> of the iterator over the segment, which is null, and not of the arc.\<close>

theorem glue_moves_no_arc:
  assumes "quiet W" "wd_sessions W ss \<noteq> None" "wd_addrs W a \<noteq> None"
  shows "\<exists>w. glue_arcs sd ss it a b W = Some w \<and> silent W w"
proof -
  let ?body = "\<lambda>_ _ w. do {
          (_, w) \<leftarrow> (case sd of End \<Rightarrow> set_end ss (on_segment_value it 1) b w | Beg \<Rightarrow> set_beg ss (on_segment_value it 1) b w);
          Some (False, (), w)
        }"
  have "reads W ?body (\<lambda>_ _. (False, ()))"
    unfolding reads_def
  proof (intro allI impI)
    fix s :: unit and x h er
    show "\<exists>er'. ?body x s (bump h er W) = Some (fst (False, ()), snd (False, ()), bump h er' W)"
      using set_ends_of_null [OF assms(2), of b h er] by (cases sd) (auto simp: on_segment_value_def)
  qed
  from each_arc_reads [OF assms this, of sd "()" "{#}" "\<lambda>_. None"] obtain er' where
    "each_arc sd ss a ?body () (bump {#} (\<lambda>_. None) W) = Some (walk (\<lambda>_ _. (False, ())) (arcs_seen sd ss W a) (), bump {#} er' W)" by blast
  then show ?thesis using silent_bump [of "{#}" "\<lambda>_. None" W er'] by (simp add: glue_arcs_def bump_none)
qed

theorem glue_moves_no_arc_witness:
  "\<forall>it. \<exists>w. glue_arcs Beg 5 it 7 8 tuple_world = Some w \<and> silent tuple_world w \<and> arcs_seen Beg 5 tuple_world 7 = [9]"
proof -
  have k: "wd_sessions tuple_world 5 \<noteq> None" "wd_addrs tuple_world 7 \<noteq> None" by (simp_all add: tuple_world_sel)
  show ?thesis using glue_moves_no_arc [OF tuple_world_quiet k] tuple_world_seen by (simp del: not_None_eq)
qed

lemma xor_under: "(a XOR b) AND m = 0 \<longleftrightarrow> a AND m = b AND m" for a b m :: sc_type
  by (auto simp: bit_eq_iff bit_simps)

lemma and_subset:
  fixes a b m k :: sc_type
  assumes "a AND m = b AND m" "k AND m = k"
  shows "a AND k = b AND k"
proof -
  have "(x AND m) AND k = x AND k" for x by (simp only: and.assoc and.commute [of m k] assms(2))
  then show ?thesis using assms(1) by metis
qed

text \<open>Which types fit. Compatibility of types is symmetric and reflexive, and types that are in
  conflict in their constancy are never compatible; the merge of two types has the constancy that both
  have, and a merged type is one of the two.\<close>

theorem type_compatibility:
  "sc_type_is_compatible a b = sc_type_is_compatible b a \<and> sc_type_is_compatible a a \<and>
   (sc_type_is_compatible a b \<longrightarrow> a AND SC_CONSTANCY_MASK = b AND SC_CONSTANCY_MASK) \<and>
   (merged_type a b = Some t \<longrightarrow> t \<in> {a, b} \<and> t AND SC_CONSTANCY_MASK = b AND SC_CONSTANCY_MASK)"
proof -
  have sub: "SC_CONNECTOR_MASK AND SC_SYNTACTIC_MASK = SC_CONNECTOR_MASK" "SC_CONSTANCY_MASK AND SC_POOR_MASK = SC_CONSTANCY_MASK"
    by (simp_all add: sc_masks)
  have "a AND SC_CONNECTOR_MASK = b AND SC_CONNECTOR_MASK" if "(a XOR b) AND SC_SYNTACTIC_MASK = 0"
    using that unfolding xor_under by (rule and_subset [OF _ sub(1)])
  then have "sc_type_is_compatible a b = sc_type_is_compatible b a"
    unfolding sc_type_is_compatible_def Let_def xor.commute [of b a] by presburger
  moreover have "sc_type_is_compatible a a" by (simp add: sc_type_is_compatible_def Let_def)
  moreover have "sc_type_is_compatible a b \<longrightarrow> a AND SC_CONSTANCY_MASK = b AND SC_CONSTANCY_MASK"
    by (simp add: sc_type_is_compatible_def Let_def xor_under)
  moreover have "merged_type a b = Some t \<longrightarrow> t \<in> {a, b} \<and> t AND SC_CONSTANCY_MASK = b AND SC_CONSTANCY_MASK"
    using and_subset [OF _ sub(2), of a b] by (auto simp: merged_type_def split: if_splits)
  ultimately show ?thesis by blast
qed

theorem type_compatibility_witness:
  "sc_type_is_compatible 66 65 \<and> merged_type 65 66 = Some 66"
proof -
  have "sc_type_is_compatible 65 66" "merged_type 65 66 = Some 66"
    by (simp_all add: sc_type_is_compatible_def merged_type_def sc_masks)
  then show ?thesis using type_compatibility [of 65 66 66] by simp
qed

end
