(* ===== verification/Sc_Gen.thy ===== *)
theory Sc_Gen
  imports Session_Props
begin

text \<open>
  The generator of constructions (\<open>libsc/libsc/sc_generator.cpp\<close>): a stack of states, the current one
  first. A state remembers the elements before and after the last \<open>arc()\<close>, the pending attributes, the
  set whose members are made, and the sign and the members of the enclosing system. Elements are made
  through a proxy, by default the one that calls the session. Smart addresses are references: what a
  state stores is referenced, and released when it is dropped.
\<close>

section \<open>Proxies\<close>

record gen_proxy =
  px_session :: nat
  px_create_el :: "nat \<Rightarrow> sc_type \<Rightarrow> world \<Rightarrow> (nat \<times> world) option"
  px_erase_el :: "nat \<Rightarrow> world \<Rightarrow> (sc_retval \<times> world) option"
  px_set_beg :: "nat \<Rightarrow> nat \<Rightarrow> world \<Rightarrow> (sc_retval \<times> world) option"
  px_set_end :: "nat \<Rightarrow> nat \<Rightarrow> world \<Rightarrow> (sc_retval \<times> world) option"
  px_set_idtf :: "nat \<Rightarrow> string \<Rightarrow> world \<Rightarrow> (sc_retval \<times> world) option"
  px_set_content :: "nat \<Rightarrow> content \<Rightarrow> world \<Rightarrow> (sc_retval \<times> world) option"
  px_change_type :: "nat \<Rightarrow> sc_type \<Rightarrow> world \<Rightarrow> (sc_retval \<times> world) option"

text \<open>\<open>n\<close> is the depth of erasure and \<open>md5\<close> the checksum of contents.\<close>

definition gen_session_proxy :: "nat \<Rightarrow> (bytes \<Rightarrow> bytes) \<Rightarrow> nat \<Rightarrow> gen_proxy" where
  "gen_session_proxy n md5 ss =
     \<lparr>px_session = ss, px_create_el = create_el ss, px_erase_el = erase_el n ss,
      px_set_beg = set_beg ss, px_set_end = set_end ss, px_set_idtf = set_idtf ss,
      px_set_content = set_content md5 ss, px_change_type = change_type ss\<rparr>"

section \<open>The state\<close>

record attr_struct =
  at_addr :: nat
  at_type :: sc_type
  at_seg :: nat

text \<open>Fields that are written by \<open>arc()\<close> or \<open>enter_system\<close> only, and not initialised before, are options.
  The set of addresses is ordered by the addresses themselves.\<close>

record real_gen_state =
  gs_elements :: "nat list"
  gs_attrs :: "attr_struct list"
  gs_prev_els :: "nat list"
  gs_set :: nat
  gs_sent_arc_type :: "sc_type option"
  gs_sent_seg :: "nat option"
  gs_sys_sign :: nat
  gs_system_set :: "nat list"
  gs_system_segment :: "nat option"
  gs_system_arc_type :: "sc_type option"
  gs_tmp :: "nat list"
  gs_system_context :: bool

definition new_gen_state :: "bool \<Rightarrow> real_gen_state" where
  "new_gen_state is_system =
     \<lparr>gs_elements = [], gs_attrs = [], gs_prev_els = [], gs_set = 0, gs_sent_arc_type = None, gs_sent_seg = None,
      gs_sys_sign = 0, gs_system_set = [], gs_system_segment = None, gs_system_arc_type = None, gs_tmp = [],
      gs_system_context = is_system\<rparr>"

record sc_generator =
  gn_active_segment :: nat
  gn_state :: "real_gen_state list"
  gn_proxy :: gen_proxy
  gn_arc_type :: sc_type
  gn_element_type :: sc_type
  gn_set_arc_type :: sc_type
  gn_system_arc_type :: sc_type
  gn_attr_arc_type :: sc_type

definition new_generator :: "gen_proxy \<Rightarrow> nat \<Rightarrow> sc_generator" where
  "new_generator p seg =
     \<lparr>gn_active_segment = seg, gn_state = [new_gen_state False], gn_proxy = p, gn_arc_type = SC_A_CONST OR SC_POS,
      gn_element_type = SC_N_CONST, gn_set_arc_type = SC_A_CONST OR SC_POS, gn_system_arc_type = SC_A_CONST OR SC_POS,
      gn_attr_arc_type = SC_A_CONST OR SC_POS\<rparr>"

definition set_active_segment :: "nat \<Rightarrow> sc_generator \<Rightarrow> nat \<times> sc_generator" where
  "set_active_segment seg g = (gn_active_segment g, g\<lparr>gn_active_segment := seg\<rparr>)"

definition get_state :: "sc_generator \<Rightarrow> real_gen_state" where
  "get_state g = hd (gn_state g)"

definition put_state :: "real_gen_state \<Rightarrow> sc_generator \<Rightarrow> sc_generator" where
  "put_state st g = g\<lparr>gn_state := st # tl (gn_state g)\<rparr>"

definition push_state :: "bool \<Rightarrow> sc_generator \<Rightarrow> sc_generator" where
  "push_state is_system g = g\<lparr>gn_state := new_gen_state is_system # gn_state g\<rparr>"

section \<open>Smart addresses\<close>

definition smart_ref :: "nat \<Rightarrow> world \<Rightarrow> world option" where
  "smart_ref a w = (if a = 0 then Some w else addr_ref a w)"

definition smart_unref :: "nat \<Rightarrow> world \<Rightarrow> world option" where
  "smart_unref a w = (if a = 0 then Some w else addr_unref a w)"

fun smart_all :: "(nat \<Rightarrow> world \<Rightarrow> world option) \<Rightarrow> nat list \<Rightarrow> world \<Rightarrow> world option" where
  "smart_all f [] w = Some w"
| "smart_all f (a # as) w = do { w \<leftarrow> f a w; smart_all f as w }"

definition system_set_insert :: "nat \<Rightarrow> real_gen_state \<Rightarrow> world \<Rightarrow> (real_gen_state \<times> world) option" where
  "system_set_insert a st w =
     (if a \<in> set (gs_system_set st) then Some (st, w)
      else do { w \<leftarrow> smart_ref a w; Some (st\<lparr>gs_system_set := insort a (gs_system_set st)\<rparr>, w) })"

fun system_set_insert_all :: "nat list \<Rightarrow> real_gen_state \<Rightarrow> world \<Rightarrow> (real_gen_state \<times> world) option" where
  "system_set_insert_all [] st w = Some (st, w)"
| "system_set_insert_all (a # as) st w = do { (st, w) \<leftarrow> system_set_insert a st w; system_set_insert_all as st w }"

text \<open>The destruction of a state; members in the reverse of their declaration.\<close>

definition gen_state_held :: "real_gen_state \<Rightarrow> nat list" where
  "gen_state_held st = gs_tmp st @ gs_system_set st @ [gs_sys_sign st, gs_set st] @ gs_prev_els st @
     map at_addr (gs_attrs st) @ gs_elements st"

definition pop_back_state :: "sc_generator \<Rightarrow> world \<Rightarrow> (sc_generator \<times> world) option" where
  "pop_back_state g w =
     do {
       w \<leftarrow> smart_all smart_unref (gen_state_held (get_state g)) w;
       Some (g\<lparr>gn_state := tl (gn_state g)\<rparr>, w)
     }"

definition push_tmp :: "nat \<Rightarrow> sc_generator \<Rightarrow> world \<Rightarrow> (sc_generator \<times> world) option" where
  "push_tmp a g w =
     do {
       w \<leftarrow> smart_ref a w;
       Some (put_state ((get_state g)\<lparr>gs_tmp := gs_tmp (get_state g) @ [a]\<rparr>) g, w)
     }"

section \<open>Elements and arcs\<close>

definition gen_set_idtf :: "sc_generator \<Rightarrow> nat \<Rightarrow> string \<Rightarrow> world \<Rightarrow> (sc_retval \<times> world) option" where
  "gen_set_idtf g el idtf w = px_set_idtf (gn_proxy g) el idtf w"

definition gen_set_content :: "sc_generator \<Rightarrow> nat \<Rightarrow> content \<Rightarrow> world \<Rightarrow> (sc_retval \<times> world) option" where
  "gen_set_content g el cont w = px_set_content (gn_proxy g) el cont w"

definition gen_change_type :: "sc_generator \<Rightarrow> nat \<Rightarrow> sc_type \<Rightarrow> world \<Rightarrow> (sc_retval \<times> world) option" where
  "gen_change_type g el type w = px_change_type (gn_proxy g) el type w"

text \<open>A null name and the empty one are the same here.\<close>

definition generate_internal :: "sc_generator \<Rightarrow> string \<Rightarrow> sc_type \<Rightarrow> nat \<Rightarrow> world \<Rightarrow> (nat \<times> world) option" where
  "generate_internal g idtf type seg w =
     do {
       let type = (if type = 0 then gn_element_type g else type);
       let seg = (if seg = 0 then gn_active_segment g else seg);
       (el, w) \<leftarrow> px_create_el (gn_proxy g) seg type w;
       (if idtf = [] then Some (el, w)
        else do {
          (rv, w) \<leftarrow> px_set_idtf (gn_proxy g) el idtf w;
          (if rv \<noteq> RV_OK then do { (_, w) \<leftarrow> px_erase_el (gn_proxy g) el w; Some (0, w) }
           else Some (el, w))
        })
     }"

definition generate_find_internal :: "sc_generator \<Rightarrow> string \<Rightarrow> sc_type \<Rightarrow> nat \<Rightarrow> world \<Rightarrow> (nat \<times> world) option" where
  "generate_find_internal g idtf type seg w =
     do {
       let ss = px_session (gn_proxy g);
       let seg = (if seg = 0 then gn_active_segment g else seg);
       (el, w) \<leftarrow> (if idtf \<noteq> [] then find_by_idtf ss idtf seg w else Some (0, w));
       (if el = 0 then generate_internal g idtf type seg w
        else if type = 0 then Some (el, w)
        else do { (t, w) \<leftarrow> get_type ss el w; Some (if type \<noteq> t then 0 else el, w) })
     }"

text \<open>The second result is what is stored through \<open>parc\<close>. The two codes are joined by \<open>||\<close>, so a failure is 1.\<close>

definition gen_gen3_f_a_f ::
  "sc_generator \<Rightarrow> nat \<Rightarrow> nat \<Rightarrow> sc_type \<Rightarrow> nat \<Rightarrow> world \<Rightarrow> (sc_retval \<times> nat option \<times> world) option" where
  "gen_gen3_f_a_f g from seg type to w =
     do {
       (arc, w) \<leftarrow> px_create_el (gn_proxy g) seg type w;
       (if arc = 0 then do { e \<leftarrow> get_error (px_session (gn_proxy g)) w; Some (e, None, w) }
        else do {
          (rv, w) \<leftarrow> px_set_beg (gn_proxy g) arc from w;
          (rv, w) \<leftarrow> (if rv \<noteq> RV_OK then Some (rv, w) else px_set_end (gn_proxy g) arc to w);
          (if rv \<noteq> RV_OK then do { (_, w) \<leftarrow> px_erase_el (gn_proxy g) arc w; Some (1, None, w) }
           else Some (RV_OK, Some arc, w))
        })
     }"

text \<open>An arc, and an arc to it from every pending attribute. What is erased after a failure stays in
  \<open>tmp\<close>.\<close>

fun attr_arcs :: "nat \<Rightarrow> attr_struct list \<Rightarrow> sc_generator \<Rightarrow> world \<Rightarrow> (nat \<times> sc_generator \<times> world) option" where
  "attr_arcs arc [] g w = Some (arc, g, w)"
| "attr_arcs arc (at # ats) g w =
     do {
       (rv, arc4, w) \<leftarrow> gen_gen3_f_a_f g (at_addr at) (at_seg at) (at_type at) arc w;
       (if rv \<noteq> RV_OK then do { (_, w) \<leftarrow> px_erase_el (gn_proxy g) arc w; Some (0, g, w) }
        else do {
          (g, w) \<leftarrow> push_tmp (case arc4 of None \<Rightarrow> 0 | Some a \<Rightarrow> a) g w;
          attr_arcs arc ats g w
        })
     }"

definition internal_gen_arc ::
  "nat \<Rightarrow> nat \<Rightarrow> sc_type \<Rightarrow> nat \<Rightarrow> sc_generator \<Rightarrow> world \<Rightarrow> (nat \<times> sc_generator \<times> world) option" where
  "internal_gen_arc from to type seg g w =
     do {
       (rv, arc, w) \<leftarrow> gen_gen3_f_a_f g from seg type to w;
       (if rv \<noteq> RV_OK then Some (0, g, w)
        else do {
          arc \<leftarrow> arc;
          (g, w) \<leftarrow> push_tmp arc g w;
          attr_arcs arc (gs_attrs (get_state g)) g w
        })
     }"

fun prev_arcs :: "nat list \<Rightarrow> nat \<Rightarrow> sc_generator \<Rightarrow> world \<Rightarrow> (sc_generator \<times> world) option" where
  "prev_arcs [] el g w = Some (g, w)"
| "prev_arcs (p # ps) el g w =
     do {
       type \<leftarrow> gs_sent_arc_type (get_state g);
       seg \<leftarrow> gs_sent_seg (get_state g);
       (_, g, w) \<leftarrow> internal_gen_arc p el type seg g w;
       prev_arcs ps el g w
     }"

definition element_done :: "nat \<Rightarrow> sc_generator \<Rightarrow> world \<Rightarrow> (nat \<times> sc_generator \<times> world) option" where
  "element_done el g w =
     do {
       let st = get_state g;
       (st, w) \<leftarrow> (if gs_sys_sign st \<noteq> 0 then system_set_insert_all (gs_tmp st) st w else Some (st, w));
       w \<leftarrow> smart_all smart_unref (gs_tmp st) w;
       w \<leftarrow> smart_all smart_unref (map at_addr (gs_attrs st)) w;
       w \<leftarrow> smart_ref el w;
       Some (el, put_state (st\<lparr>gs_tmp := [], gs_attrs := [], gs_elements := gs_elements st @ [el]\<rparr>) g, w)
     }"

text \<open>A membership arc that cannot be made leaves \<open>tmp\<close> and the attributes as they are.\<close>

definition gen_element_at :: "nat \<Rightarrow> sc_generator \<Rightarrow> world \<Rightarrow> (nat \<times> sc_generator \<times> world) option" where
  "gen_element_at el g w =
     do {
       (g, w) \<leftarrow> push_tmp el g w;
       (g, w) \<leftarrow> prev_arcs (gs_prev_els (get_state g)) el g w;
       (if gs_set (get_state g) = 0 then element_done el g w
        else do {
          (rv, g, w) \<leftarrow> internal_gen_arc (gs_set (get_state g)) el (gn_set_arc_type g) (gn_active_segment g) g w;
          (if rv = 0 then Some (0, g, w) else element_done el g w)
        })
     }"

definition gen_element_named ::
  "string \<Rightarrow> sc_type \<Rightarrow> nat \<Rightarrow> sc_generator \<Rightarrow> world \<Rightarrow> (nat \<times> sc_generator \<times> world) option" where
  "gen_element_named idtf type segment g w =
     do {
       (el, w) \<leftarrow> generate_find_internal g idtf type segment w;
       (if el = 0 then Some (0, g, w) else gen_element_at el g w)
     }"

definition gen_element :: "nat \<Rightarrow> sc_generator \<Rightarrow> world \<Rightarrow> (nat \<times> sc_generator \<times> world) option" where
  "gen_element el g w = (if el = 0 then gen_element_named [] 0 0 g w else gen_element_at el g w)"

definition gen_attr :: "nat \<Rightarrow> sc_generator \<Rightarrow> world \<Rightarrow> (nat \<times> sc_generator \<times> world) option" where
  "gen_attr el g w =
     do {
       let st = get_state g;
       let at = \<lparr>at_addr = el, at_type = gn_attr_arc_type g, at_seg = gn_active_segment g\<rparr>;
       w \<leftarrow> smart_ref el w;
       let st = st\<lparr>gs_attrs := gs_attrs st @ [at]\<rparr>;
       (st, w) \<leftarrow> (if gs_sys_sign st \<noteq> 0 then system_set_insert el st w else Some (st, w));
       Some (el, put_state st g, w)
     }"

definition gen_attr_named ::
  "string \<Rightarrow> sc_type \<Rightarrow> nat \<Rightarrow> sc_generator \<Rightarrow> world \<Rightarrow> (nat \<times> sc_generator \<times> world) option" where
  "gen_attr_named idtf type segment g w =
     do {
       (el, w) \<leftarrow> generate_find_internal g idtf type segment w;
       (if el = 0 then Some (0, g, w) else gen_attr el g w)
     }"

text \<open>The elements become the previous ones; their references go with them.\<close>

definition gen_arc_step :: "sc_generator \<Rightarrow> world \<Rightarrow> (sc_generator \<times> world) option" where
  "gen_arc_step g w =
     do {
       let st = get_state g;
       w \<leftarrow> smart_all smart_unref (gs_prev_els st) w;
       Some (put_state (st\<lparr>gs_prev_els := gs_elements st, gs_elements := [], gs_sent_arc_type := Some (gn_arc_type g),
               gs_sent_seg := Some (gn_active_segment g)\<rparr>) g, w)
     }"

definition gen_finish :: "sc_generator \<Rightarrow> world \<Rightarrow> (sc_generator \<times> world) option" where
  "gen_finish g w =
     do {
       let st = get_state g;
       w \<leftarrow> smart_all smart_unref (gs_prev_els st) w;
       w \<leftarrow> smart_all smart_unref (gs_elements st) w;
       Some (put_state (st\<lparr>gs_prev_els := [], gs_elements := []\<rparr>) g, w)
     }"

section \<open>Sets and systems\<close>

text \<open>The members of the enclosing system move to the new state. The sign is the argument, also when it
  is null and an element was made for it.\<close>

definition enter_set :: "nat \<Rightarrow> sc_generator \<Rightarrow> world \<Rightarrow> (nat \<times> sc_generator \<times> world) option" where
  "enter_set a_set g w =
     do {
       (_, g, w) \<leftarrow> gen_element a_set g w;
       let old_st = get_state g;
       let g = push_state False (put_state (old_st\<lparr>gs_system_set := []\<rparr>) g);
       w \<leftarrow> smart_ref (gs_sys_sign old_st) w;
       w \<leftarrow> smart_ref a_set w;
       Some (a_set, put_state ((get_state g)\<lparr>gs_sys_sign := gs_sys_sign old_st, gs_system_set := gs_system_set old_st,
                gs_set := a_set\<rparr>) g, w)
     }"

definition enter_set_named :: "string \<Rightarrow> sc_type \<Rightarrow> nat \<Rightarrow> sc_generator \<Rightarrow> world \<Rightarrow> (nat \<times> sc_generator \<times> world) option" where
  "enter_set_named idtf type segment g w =
     do {
       (el, w) \<leftarrow> generate_find_internal g idtf type segment w;
       (if el = 0 then Some (0, g, w) else enter_set el g w)
     }"

text \<open>To leave the last state reads before the beginning of the stack.\<close>

definition leave_set :: "sc_generator \<Rightarrow> world \<Rightarrow> (nat \<times> sc_generator \<times> world) option" where
  "leave_set g w =
     (case gn_state g of
        st # old_st # rest \<Rightarrow>
          do {
            (old_st, w) \<leftarrow>
              (if gs_sys_sign st \<noteq> 0
               then do {
                 w \<leftarrow> smart_all smart_ref (gs_system_set st) w;
                 w \<leftarrow> smart_all smart_unref (gs_system_set old_st) w;
                 Some (old_st\<lparr>gs_system_set := gs_system_set st\<rparr>, w)
               }
               else Some (old_st, w));
            (g, w) \<leftarrow> pop_back_state (g\<lparr>gn_state := st # old_st # rest\<rparr>) w;
            Some (gs_set st, g, w)
          }
      | _ \<Rightarrow> None)"

definition enter_system :: "nat \<Rightarrow> sc_generator \<Rightarrow> world \<Rightarrow> (nat \<times> sc_generator \<times> world) option" where
  "enter_system sys_sign g w =
     do {
       (_, g, w) \<leftarrow> gen_element sys_sign g w;
       let g = push_state True g;
       w \<leftarrow> smart_ref sys_sign w;
       Some (sys_sign, put_state ((get_state g)\<lparr>gs_sys_sign := sys_sign, gs_system_segment := Some (gn_active_segment g),
                gs_system_arc_type := Some (gn_system_arc_type g)\<rparr>) g, w)
     }"

definition enter_system_named :: "string \<Rightarrow> sc_type \<Rightarrow> nat \<Rightarrow> sc_generator \<Rightarrow> world \<Rightarrow> (nat \<times> sc_generator \<times> world) option" where
  "enter_system_named idtf type segment g w =
     do {
       (el, w) \<leftarrow> generate_find_internal g idtf type segment w;
       (if el = 0 then Some (0, g, w) else enter_system el g w)
     }"

text \<open>The members get an arc from the sign. In an enclosing system the arc and the member become members
  too; an arc that could not be made is not initialised there.\<close>

definition system_arc_joins ::
  "nat option \<Rightarrow> nat \<Rightarrow> real_gen_state \<Rightarrow> world \<Rightarrow> (real_gen_state \<times> world) option" where
  "system_arc_joins arc a old_st w =
     (if gs_sys_sign old_st \<noteq> 0
      then do { arc \<leftarrow> arc; (old_st, w) \<leftarrow> system_set_insert arc old_st w; system_set_insert a old_st w }
      else Some (old_st, w))"

fun system_arcs ::
  "sc_generator \<Rightarrow> real_gen_state \<Rightarrow> nat list \<Rightarrow> real_gen_state \<Rightarrow> world \<Rightarrow> (real_gen_state \<times> world) option" where
  "system_arcs g st [] old_st w = Some (old_st, w)"
| "system_arcs g st (a # as) old_st w =
     do {
       seg \<leftarrow> gs_system_segment st;
       at \<leftarrow> gs_system_arc_type st;
       (_, arc, w) \<leftarrow> gen_gen3_f_a_f g (gs_sys_sign st) seg at a w;
       (old_st, w) \<leftarrow> system_arc_joins arc a old_st w;
       system_arcs g st as old_st w
     }"

definition leave_system :: "sc_generator \<Rightarrow> world \<Rightarrow> (nat \<times> sc_generator \<times> world) option" where
  "leave_system g w =
     (case gn_state g of
        st # old_st # rest \<Rightarrow>
          do {
            (old_st, w) \<leftarrow> system_arcs g st (gs_system_set st) old_st w;
            (g, w) \<leftarrow> pop_back_state (g\<lparr>gn_state := st # old_st # rest\<rparr>) w;
            Some (gs_sys_sign st, g, w)
          }
      | _ \<Rightarrow> None)"

primrec leave_loop :: "nat \<Rightarrow> sc_generator \<Rightarrow> world \<Rightarrow> (sc_generator \<times> world) option" where
  "leave_loop 0 g w = Some (g, w)"
| "leave_loop (Suc k) g w =
     do {
       (_, g, w) \<leftarrow> (if gs_system_context (get_state g) then leave_system g w else leave_set g w);
       leave_loop k g w
     }"

definition leave_all :: "sc_generator \<Rightarrow> world \<Rightarrow> (sc_generator \<times> world) option" where
  "leave_all g w = leave_loop (length (gn_state g) - 1) g w"

definition delete_generator :: "sc_generator \<Rightarrow> world \<Rightarrow> world option" where
  "delete_generator g w =
     do {
       (g, w) \<leftarrow> leave_all g w;
       (g, w) \<leftarrow> gen_finish g w;
       (_, w) \<leftarrow> pop_back_state g w;
       Some w
     }"

text \<open>A segment that is given is replaced by the active one; one that is not stays null.\<close>

definition gen_arc :: "nat \<Rightarrow> nat \<Rightarrow> string \<Rightarrow> sc_type \<Rightarrow> nat \<Rightarrow> sc_generator \<Rightarrow> world \<Rightarrow> (nat \<times> sc_generator \<times> world) option" where
  "gen_arc from to idtf type segment g w =
     do {
       let type = (if type = 0 then gn_arc_type g else type);
       let segment = (if segment \<noteq> 0 then gn_active_segment g else segment);
       let ss = px_session (gn_proxy g);
       (el, w) \<leftarrow> find_by_idtf ss idtf segment w;
       (ok, el, w) \<leftarrow>
         (if el \<noteq> 0 then do { (t, w) \<leftarrow> get_type ss el w; Some (type = t, el, w) }
          else do { (el, w) \<leftarrow> px_create_el (gn_proxy g) segment type w; Some (True, el, w) });
       (if \<not> ok then Some (0, g, w)
        else do {
          (_, w) \<leftarrow> px_set_beg (gn_proxy g) el from w;
          (_, w) \<leftarrow> px_set_end (gn_proxy g) el to w;
          gen_element el g w
        })
     }"

section \<open>Blocks\<close>

text \<open>Calls in the brackets of \<open>GEN_SET\<close> and \<open>GEN_SYSTEM\<close>. The first result collects what \<open>element\<close> and
  \<open>attr\<close> answer. What \<open>enter_set\<close> and \<open>enter_system\<close> answer is not looked at.\<close>

datatype gen_step =
    G_element nat
  | G_element_named string sc_type nat
  | G_attr nat
  | G_attr_named string sc_type nat
  | G_arc
  | G_finish
  | G_set nat "gen_step list"
  | G_set_named string "gen_step list"
  | G_system nat "gen_step list"
  | G_system_named string "gen_step list"

fun answered :: "(nat \<times> sc_generator \<times> world) option \<Rightarrow> (nat list \<times> sc_generator \<times> world) option" where
  "answered r = map_option (\<lambda>(a, g, w). ([a], g, w)) r"

fun gen_run :: "gen_step list \<Rightarrow> sc_generator \<Rightarrow> world \<Rightarrow> (nat list \<times> sc_generator \<times> world) option" where
  "gen_run [] g w = Some ([], g, w)"
| "gen_run (G_element el # ps) g w =
     do { (as, g, w) \<leftarrow> answered (gen_element el g w); (bs, g, w) \<leftarrow> gen_run ps g w; Some (as @ bs, g, w) }"
| "gen_run (G_element_named n t s # ps) g w =
     do { (as, g, w) \<leftarrow> answered (gen_element_named n t s g w); (bs, g, w) \<leftarrow> gen_run ps g w; Some (as @ bs, g, w) }"
| "gen_run (G_attr el # ps) g w =
     do { (as, g, w) \<leftarrow> answered (gen_attr el g w); (bs, g, w) \<leftarrow> gen_run ps g w; Some (as @ bs, g, w) }"
| "gen_run (G_attr_named n t s # ps) g w =
     do { (as, g, w) \<leftarrow> answered (gen_attr_named n t s g w); (bs, g, w) \<leftarrow> gen_run ps g w; Some (as @ bs, g, w) }"
| "gen_run (G_arc # ps) g w = do { (g, w) \<leftarrow> gen_arc_step g w; gen_run ps g w }"
| "gen_run (G_finish # ps) g w = do { (g, w) \<leftarrow> gen_finish g w; gen_run ps g w }"
| "gen_run (G_set a qs # ps) g w =
     do { (_, g, w) \<leftarrow> enter_set a g w; (as, g, w) \<leftarrow> gen_run qs g w; (_, g, w) \<leftarrow> leave_set g w;
          (bs, g, w) \<leftarrow> gen_run ps g w; Some (as @ bs, g, w) }"
| "gen_run (G_set_named n qs # ps) g w =
     do { (_, g, w) \<leftarrow> enter_set_named n 0 0 g w; (as, g, w) \<leftarrow> gen_run qs g w; (_, g, w) \<leftarrow> leave_set g w;
          (bs, g, w) \<leftarrow> gen_run ps g w; Some (as @ bs, g, w) }"
| "gen_run (G_system a qs # ps) g w =
     do { (_, g, w) \<leftarrow> enter_system a g w; (as, g, w) \<leftarrow> gen_run qs g w; (_, g, w) \<leftarrow> leave_system g w;
          (bs, g, w) \<leftarrow> gen_run ps g w; Some (as @ bs, g, w) }"
| "gen_run (G_system_named n qs # ps) g w =
     do { (_, g, w) \<leftarrow> enter_system_named n 0 0 g w; (as, g, w) \<leftarrow> gen_run qs g w; (_, g, w) \<leftarrow> leave_system g w;
          (bs, g, w) \<leftarrow> gen_run ps g w; Some (as @ bs, g, w) }"

text \<open>Brackets that are entered by the address of their sign, of systems with one that is not null.\<close>

fun signs_given :: "gen_step list \<Rightarrow> bool" where
  "signs_given [] = True"
| "signs_given (G_set a qs # ps) \<longleftrightarrow> signs_given qs \<and> signs_given ps"
| "signs_given (G_system a qs # ps) \<longleftrightarrow> a \<noteq> 0 \<and> signs_given qs \<and> signs_given ps"
| "signs_given (G_set_named n qs # ps) = False"
| "signs_given (G_system_named n qs # ps) = False"
| "signs_given (p # ps) = signs_given ps"

section \<open>What an operation keeps of the stack\<close>

definition sys_sign :: "sc_generator \<Rightarrow> nat" where
  "sys_sign g = gs_sys_sign (get_state g)"

definition members :: "sc_generator \<Rightarrow> nat set" where
  "members g = set (gs_system_set (get_state g))"

definition carries :: "sc_generator \<Rightarrow> sc_generator \<Rightarrow> bool" where
  "carries g g' \<longleftrightarrow> gn_state g \<noteq> [] \<and> gn_state g' \<noteq> [] \<and> tl (gn_state g') = tl (gn_state g) \<and> sys_sign g' = sys_sign g \<and>
     gs_system_context (get_state g') = gs_system_context (get_state g) \<and>
     (sys_sign g \<noteq> 0 \<longrightarrow> members g \<subseteq> members g')"

lemma put_state_sel [simp]:
  "get_state (put_state st g) = st" "gn_state (put_state st g) = st # tl (gn_state g)"
  "get_state (push_state b g) = new_gen_state b" "gn_state (push_state b g) = new_gen_state b # gn_state g"
  "gn_active_segment (put_state st g) = gn_active_segment g" "gn_active_segment (push_state b g) = gn_active_segment g"
  "gn_system_arc_type (put_state st g) = gn_system_arc_type g" "gn_system_arc_type (push_state b g) = gn_system_arc_type g"
  by (simp_all add: get_state_def put_state_def push_state_def)

lemma carries_refl: "gn_state g \<noteq> [] \<Longrightarrow> carries g g"
  by (simp add: carries_def)

lemma carries_trans [trans]: "carries f g \<Longrightarrow> carries g h \<Longrightarrow> carries f h"
  by (auto simp: carries_def)

lemma carries_put:
  assumes "gn_state g \<noteq> []" "gs_sys_sign st = sys_sign g" "gs_system_context st = gs_system_context (get_state g)"
    and "sys_sign g \<noteq> 0 \<Longrightarrow> members g \<subseteq> set (gs_system_set st)"
  shows "carries g (put_state st g)"
  using assms by (auto simp: carries_def sys_sign_def members_def)

definition tmp_grows :: "sc_generator \<Rightarrow> sc_generator \<Rightarrow> bool" where
  "tmp_grows g g' \<longleftrightarrow> carries g g' \<and> set (gs_tmp (get_state g)) \<subseteq> set (gs_tmp (get_state g'))"

lemma tmp_grows_refl: "gn_state g \<noteq> [] \<Longrightarrow> tmp_grows g g"
  by (simp add: tmp_grows_def carries_refl)

lemma tmp_grows_trans [trans]: "tmp_grows f g \<Longrightarrow> tmp_grows g h \<Longrightarrow> tmp_grows f h"
  by (auto simp: tmp_grows_def intro: carries_trans)

lemma tmp_growsD: "tmp_grows g g' \<Longrightarrow> gn_state g' \<noteq> []" "tmp_grows g g' \<Longrightarrow> carries g g'"
  by (auto simp: tmp_grows_def carries_def)

lemma push_tmp_grows:
  assumes "push_tmp a g w = Some (g', w')" "gn_state g \<noteq> []"
  shows "tmp_grows g g'" "a \<in> set (gs_tmp (get_state g'))"
  using assms by (auto simp: push_tmp_def bind_eq_Some_conv tmp_grows_def sys_sign_def members_def intro!: carries_put)

lemma attr_arcs_grows:
  "attr_arcs arc ats g w = Some (a, g', w') \<Longrightarrow> gn_state g \<noteq> [] \<Longrightarrow> tmp_grows g g'"
proof (induction arc ats g w arbitrary: a g' w' rule: attr_arcs.induct)
  case (2 arc at ats g w)
  from "2.prems" consider "g' = g"
    | x w1 g1 w2 rv where "gen_gen3_f_a_f g (at_addr at) (at_seg at) (at_type at) arc w = Some (rv, x, w1)" "rv = RV_OK"
        "push_tmp (case x of None \<Rightarrow> 0 | Some a \<Rightarrow> a) g w1 = Some (g1, w2)" "attr_arcs arc ats g1 w2 = Some (a, g', w')"
    by (auto simp: bind_eq_Some_conv split: if_splits)
  then show ?case
  proof cases
    case 2
    then have "tmp_grows g g1" using push_tmp_grows(1) "2.prems"(2) by blast
    moreover from this have "tmp_grows g1 g'" using "2.IH" 2 tmp_growsD(1) by simp
    ultimately show ?thesis by (rule tmp_grows_trans)
  qed (use "2.prems" tmp_grows_refl in simp)
qed (simp add: tmp_grows_refl)

lemma internal_gen_arc_grows:
  assumes "internal_gen_arc from to type seg g w = Some (a, g', w')" "gn_state g \<noteq> []"
  shows "tmp_grows g g'"
proof -
  from assms(1) consider "g' = g"
    | x w1 g1 w2 where "push_tmp x g w1 = Some (g1, w2)" "attr_arcs x (gs_attrs (get_state g1)) g1 w2 = Some (a, g', w')"
    by (auto simp: internal_gen_arc_def bind_eq_Some_conv split: if_splits)
  then show ?thesis
  proof cases
    case 2
    then have "tmp_grows g g1" using push_tmp_grows(1) assms(2) by blast
    then show ?thesis using attr_arcs_grows [OF 2(2)] tmp_growsD(1) tmp_grows_trans by blast
  qed (use assms tmp_grows_refl in simp)
qed

lemma prev_arcs_grows:
  "prev_arcs ps el g w = Some (g', w') \<Longrightarrow> gn_state g \<noteq> [] \<Longrightarrow> tmp_grows g g'"
proof (induction ps el g w arbitrary: g' w' rule: prev_arcs.induct)
  case (2 p ps el g w)
  then obtain type seg a g1 w1 where a: "gs_sent_arc_type (get_state g) = Some type" "gs_sent_seg (get_state g) = Some seg"
    "internal_gen_arc p el type seg g w = Some (a, g1, w1)" "prev_arcs ps el g1 w1 = Some (g', w')"
    by (auto simp: bind_eq_Some_conv)
  have 1: "tmp_grows g g1" using internal_gen_arc_grows [OF a(3)] "2.prems" by simp
  then have "tmp_grows g1 g'" using "2.IH" [OF a(1,2)] a tmp_growsD(1) by auto
  with 1 show ?case by (rule tmp_grows_trans)
qed (simp add: tmp_grows_refl)

section \<open>Members\<close>

lemma system_set_insert_sel:
  assumes "system_set_insert a st w = Some (st', w')"
  shows "set (gs_system_set st') = insert a (set (gs_system_set st))" "st' = st\<lparr>gs_system_set := gs_system_set st'\<rparr>"
  using assms by (auto simp: system_set_insert_def bind_eq_Some_conv set_insort_key split: if_splits)

lemma system_set_insert_all_sel:
  "system_set_insert_all as st w = Some (st', w') \<Longrightarrow>
   set (gs_system_set st') = set as \<union> set (gs_system_set st) \<and> st' = st\<lparr>gs_system_set := gs_system_set st'\<rparr>"
proof (induction as st w arbitrary: st' w' rule: system_set_insert_all.induct)
  case (2 a as st w)
  then obtain st1 w1 where 1: "system_set_insert a st w = Some (st1, w1)" "system_set_insert_all as st1 w1 = Some (st', w')"
    by (auto simp: bind_eq_Some_conv)
  obtain x where x: "st1 = st\<lparr>gs_system_set := x\<rparr>" using system_set_insert_sel(2) [OF 1(1)] by blast
  obtain y where y: "st' = st1\<lparr>gs_system_set := y\<rparr>" using "2.IH" [OF 1(1) refl 1(2)] by blast
  show ?case using "2.IH" [OF 1(1) refl 1(2)] system_set_insert_sel(1) [OF 1(1)] x y by auto
qed simp

text \<open>What an answer adds to the enclosing system.\<close>

definition takes_in :: "sc_generator \<Rightarrow> nat list \<Rightarrow> sc_generator \<Rightarrow> bool" where
  "takes_in g as g' \<longleftrightarrow> carries g g' \<and> (sys_sign g \<noteq> 0 \<longrightarrow> set as - {0} \<subseteq> members g')"

lemma takes_in_Nil: "takes_in g [] g' \<longleftrightarrow> carries g g'"
  by (simp add: takes_in_def)

lemma takes_in_zero: "gn_state g \<noteq> [] \<Longrightarrow> takes_in g [0] g"
  by (simp add: takes_in_def carries_refl)

lemma takes_in_append: "takes_in f as g \<Longrightarrow> takes_in g bs h \<Longrightarrow> takes_in f (as @ bs) h"
  by (auto simp: takes_in_def carries_def)

lemma takes_in_state: "takes_in g as g' \<Longrightarrow> gn_state g' \<noteq> []" "takes_in g as g' \<Longrightarrow> carries g g'"
  by (auto simp: takes_in_def carries_def)

lemma element_done_takes_in:
  assumes "element_done el g w = Some (a, g', w')" "gn_state g \<noteq> []" "el \<in> set (gs_tmp (get_state g))"
  shows "takes_in g [a] g'"
proof -
  let ?st = "get_state g"
  obtain st w1 where st: "(if gs_sys_sign ?st \<noteq> 0 then system_set_insert_all (gs_tmp ?st) ?st w else Some (?st, w)) = Some (st, w1)"
    using assms(1) unfolding element_done_def Let_def bind_eq_Some_conv by (metis surj_pair)
  have a: "a = el" "g' = put_state (st\<lparr>gs_tmp := [], gs_attrs := [], gs_elements := gs_elements st @ [el]\<rparr>) g"
    using assms(1) unfolding element_done_def Let_def st by (auto simp: bind_eq_Some_conv)
  obtain x where x: "st = ?st\<lparr>gs_system_set := x\<rparr>" "sys_sign g \<noteq> 0 \<Longrightarrow> set x = set (gs_tmp ?st) \<union> members g"
  proof (cases "sys_sign g = 0")
    case True
    then have "st = ?st\<lparr>gs_system_set := gs_system_set ?st\<rparr>" using st by (simp add: sys_sign_def)
    then show ?thesis using True that by blast
  next
    case False
    then have "system_set_insert_all (gs_tmp ?st) ?st w = Some (st, w1)" using st by (simp add: sys_sign_def)
    from system_set_insert_all_sel [OF this] show ?thesis using that [of "gs_system_set st"] by (simp add: members_def)
  qed
  have "carries g g'" unfolding a(2) using assms(2) x by (intro carries_put) (auto simp: sys_sign_def)
  then show ?thesis using a x assms(3) by (auto simp: takes_in_def members_def)
qed

lemma gen_element_at_takes_in:
  assumes "gen_element_at el g w = Some (a, g', w')" "gn_state g \<noteq> []"
  shows "takes_in g [a] g'"
proof -
  obtain g0 w0 where 0: "push_tmp el g w = Some (g0, w0)"
    using assms(1) by (cases "push_tmp el g w") (auto simp: gen_element_at_def)
  obtain g1 w1 where 1: "prev_arcs (gs_prev_els (get_state g0)) el g0 w0 = Some (g1, w1)"
    using assms(1) 0 by (cases "prev_arcs (gs_prev_els (get_state g0)) el g0 w0") (auto simp: gen_element_at_def)
  have r: "(if gs_set (get_state g1) = 0 then element_done el g1 w1
        else do {
          (rv, g, w) \<leftarrow> internal_gen_arc (gs_set (get_state g1)) el (gn_set_arc_type g1) (gn_active_segment g1) g1 w1;
          (if rv = 0 then Some (0, g, w) else element_done el g w)
        }) = Some (a, g', w')"
    using assms(1) unfolding gen_element_at_def 0 by (simp only: 1 bind.simps prod.case)
  have t0: "tmp_grows g g0" "el \<in> set (gs_tmp (get_state g0))" using push_tmp_grows [OF 0 assms(2)] by auto
  have t01: "tmp_grows g0 g1" by (rule prev_arcs_grows [OF 1 tmp_growsD(1) [OF t0(1)]])
  have t1: "tmp_grows g g1" by (rule tmp_grows_trans [OF t0(1) t01])
  have el1: "el \<in> set (gs_tmp (get_state g1))" using t0(2) t01 unfolding tmp_grows_def by blast
  have fin: "takes_in g [a] g'" if "tmp_grows g1 g2" "element_done el g2 w2 = Some (a, g', w')" for g2 w2
  proof -
    have "tmp_grows g g2" using t1 that(1) by (rule tmp_grows_trans)
    then have "takes_in g [] g2" "gn_state g2 \<noteq> []" by (simp_all add: takes_in_Nil tmp_growsD)
    moreover have "el \<in> set (gs_tmp (get_state g2))" using el1 that(1) unfolding tmp_grows_def by blast
    ultimately show ?thesis using takes_in_append [of g "[]" g2 "[a]" g'] element_done_takes_in [OF that(2)] by simp
  qed
  show ?thesis
  proof (cases "gs_set (get_state g1) = 0")
    case True
    then show ?thesis using r fin [OF tmp_grows_refl [OF tmp_growsD(1) [OF t1]]] by simp
  next
    case False
    then obtain rv g2 w2 where i: "internal_gen_arc (gs_set (get_state g1)) el (gn_set_arc_type g1) (gn_active_segment g1) g1 w1 = Some (rv, g2, w2)"
      "(if rv = 0 then Some (0, g2, w2) else element_done el g2 w2) = Some (a, g', w')"
      using r by (auto simp: bind_eq_Some_conv)
    have t: "tmp_grows g1 g2" using internal_gen_arc_grows [OF i(1)] tmp_growsD(1) [OF t1] by simp
    show ?thesis
    proof (cases "rv = 0")
      case True
      then have "a = 0" "g' = g2" using i(2) by auto
      then show ?thesis using tmp_growsD(2) [OF tmp_grows_trans [OF t1 t]] by (simp add: takes_in_def)
    next
      case False
      then show ?thesis using i(2) fin [OF t] by simp
    qed
  qed
qed

lemma gen_element_named_takes_in:
  assumes "gen_element_named n t s g w = Some (a, g', w')" "gn_state g \<noteq> []"
  shows "takes_in g [a] g'"
  using assms gen_element_at_takes_in takes_in_zero
  by (auto simp: gen_element_named_def bind_eq_Some_conv split: if_splits)

lemma gen_element_takes_in:
  assumes "gen_element el g w = Some (a, g', w')" "gn_state g \<noteq> []"
  shows "takes_in g [a] g'"
  using assms gen_element_at_takes_in gen_element_named_takes_in by (auto simp: gen_element_def split: if_splits)

lemma gen_attr_takes_in:
  assumes "gen_attr el g w = Some (a, g', w')" "gn_state g \<noteq> []"
  shows "takes_in g [a] g'"
proof -
  let ?st = "(get_state g)\<lparr>gs_attrs := gs_attrs (get_state g) @ [\<lparr>at_addr = el, at_type = gn_attr_arc_type g, at_seg = gn_active_segment g\<rparr>]\<rparr>"
  from assms(1) obtain st w1 w2 where a: "a = el" "g' = put_state st g"
    and st: "(if gs_sys_sign ?st \<noteq> 0 then system_set_insert el ?st w1 else Some (?st, w1)) = Some (st, w2)"
    by (auto simp: gen_attr_def bind_eq_Some_conv Let_def)
  obtain x where x: "st = ?st\<lparr>gs_system_set := x\<rparr>" "sys_sign g \<noteq> 0 \<Longrightarrow> set x = insert el (members g)"
  proof (cases "sys_sign g = 0")
    case True
    then have "?st = st" using st by (simp add: sys_sign_def)
    then have "st = ?st\<lparr>gs_system_set := gs_system_set ?st\<rparr>" by simp
    then show ?thesis using True that by blast
  next
    case False
    then show ?thesis
      using st system_set_insert_sel [of el ?st w1 st w2] that [of "gs_system_set st"] by (simp add: members_def sys_sign_def)
  qed
  have "carries g g'" unfolding a(2) using assms(2) x by (intro carries_put) (auto simp: sys_sign_def)
  then show ?thesis using a x by (auto simp: takes_in_def members_def)
qed

lemma gen_attr_named_takes_in:
  assumes "gen_attr_named n t s g w = Some (a, g', w')" "gn_state g \<noteq> []"
  shows "takes_in g [a] g'"
  using assms gen_attr_takes_in takes_in_zero
  by (auto simp: gen_attr_named_def bind_eq_Some_conv split: if_splits)

lemma gen_arc_step_carries: "gen_arc_step g w = Some (g', w') \<Longrightarrow> gn_state g \<noteq> [] \<Longrightarrow> carries g g'"
  by (auto simp: gen_arc_step_def bind_eq_Some_conv Let_def sys_sign_def members_def intro!: carries_put)

lemma gen_finish_carries: "gen_finish g w = Some (g', w') \<Longrightarrow> gn_state g \<noteq> [] \<Longrightarrow> carries g g'"
  by (auto simp: gen_finish_def bind_eq_Some_conv Let_def sys_sign_def members_def intro!: carries_put)

section \<open>Brackets\<close>

lemma pop_back_state_tl: "pop_back_state g w = Some (g', w') \<Longrightarrow> gn_state g' = tl (gn_state g)"
  by (auto simp: pop_back_state_def bind_eq_Some_conv)

lemma get_state_Cons: "gn_state g = st # r \<Longrightarrow> get_state g = st"
  by (simp add: get_state_def)

lemma enter_set_state:
  assumes "enter_set x g w = Some (a, g', w')" "gn_state g \<noteq> []"
  obtains g1 where "carries g g1" "sys_sign g' = sys_sign g1" "members g' = members g1" "\<not> gs_system_context (get_state g')"
    "gn_state g' = get_state g' # (get_state g1)\<lparr>gs_system_set := []\<rparr> # tl (gn_state g1)"
proof -
  obtain b g1 w1 where 1: "gen_element x g w = Some (b, g1, w1)"
    and g': "g' = put_state ((new_gen_state False)\<lparr>gs_sys_sign := gs_sys_sign (get_state g1), gs_system_set := gs_system_set (get_state g1),
                gs_set := x\<rparr>) (push_state False (put_state ((get_state g1)\<lparr>gs_system_set := []\<rparr>) g1))"
    using assms(1) by (auto simp: enter_set_def Let_def bind_eq_Some_conv)
  have "carries g g1" using gen_element_takes_in [OF 1 assms(2)] by (rule takes_in_state(2))
  then show ?thesis by (rule that) (simp_all add: g' sys_sign_def members_def new_gen_state_def)
qed

lemma set_block_takes_in:
  assumes e: "enter_set x g w = Some (a, g1, w1)" "gn_state g \<noteq> []"
    and b: "takes_in g1 as g2" and l: "leave_set g2 w2 = Some (c, g3, w3)"
  shows "takes_in g as g3"
proof -
  obtain g0 where g0: "carries g g0" "sys_sign g1 = sys_sign g0" "members g1 = members g0"
    "gn_state g1 = get_state g1 # (get_state g0)\<lparr>gs_system_set := []\<rparr> # tl (gn_state g0)"
    using enter_set_state [OF e] by metis
  have t: "tl (gn_state g2) = (get_state g0)\<lparr>gs_system_set := []\<rparr> # tl (gn_state g0)" "gn_state g2 \<noteq> []"
    using b g0(4) by (metis takes_in_state(2) carries_def list.sel(3), simp add: takes_in_state(1))
  then have g2: "gn_state g2 = get_state g2 # (get_state g0)\<lparr>gs_system_set := []\<rparr> # tl (gn_state g0)"
    by (metis get_state_def list.collapse)
  have c: "sys_sign g2 = sys_sign g0" "sys_sign g0 \<noteq> 0 \<Longrightarrow> members g0 \<subseteq> members g2" "sys_sign g0 \<noteq> 0 \<Longrightarrow> set as - {0} \<subseteq> members g2"
    using b g0(2,3) by (auto simp: takes_in_def carries_def)
  obtain x where g3: "gn_state g3 = (get_state g0)\<lparr>gs_system_set := x\<rparr> # tl (gn_state g0)"
    and x: "sys_sign g0 \<noteq> 0 \<Longrightarrow> set x = members g2"
  proof (cases "sys_sign g0 = 0")
    case True
    then show ?thesis
      using l c(1) that [of "[]"] pop_back_state_tl by (fastforce simp: leave_set_def g2 sys_sign_def bind_eq_Some_conv)
  next
    case False
    then show ?thesis
      using l c(1) that [of "gs_system_set (get_state g2)"] pop_back_state_tl
      by (fastforce simp: leave_set_def g2 sys_sign_def members_def bind_eq_Some_conv)
  qed
  have g3': "get_state g3 = (get_state g0)\<lparr>gs_system_set := x\<rparr>" using g3 by (rule get_state_Cons)
  have m: "sys_sign g3 = sys_sign g0" "members g3 = set x" "gs_system_context (get_state g3) = gs_system_context (get_state g0)"
    by (simp_all add: sys_sign_def members_def g3')
  have g03: "carries g0 g3"
    unfolding carries_def m using g0(1) c(2) x by (simp add: g3 carries_def)
  have "sys_sign g = sys_sign g0" using g0(1) by (simp add: carries_def)
  then show ?thesis unfolding takes_in_def m using carries_trans [OF g0(1) g03] c(3) x by simp
qed

lemma system_arc_joins_sel:
  assumes "system_arc_joins arc a old w = Some (old', w')"
  shows "old' = old\<lparr>gs_system_set := gs_system_set old'\<rparr> \<and> set (gs_system_set old) \<subseteq> set (gs_system_set old') \<and>
    (gs_sys_sign old \<noteq> 0 \<longrightarrow> a \<in> set (gs_system_set old'))"
proof (cases "gs_sys_sign old = 0")
  case False
  then obtain b o1 w1 where 1: "system_set_insert b old w = Some (o1, w1)" "system_set_insert a o1 w1 = Some (old', w')"
    using assms by (auto simp: system_arc_joins_def bind_eq_Some_conv)
  obtain x y where "o1 = old\<lparr>gs_system_set := x\<rparr>" "old' = o1\<lparr>gs_system_set := y\<rparr>"
    using system_set_insert_sel(2) [OF 1(1)] system_set_insert_sel(2) [OF 1(2)] by blast
  then show ?thesis using system_set_insert_sel(1) [OF 1(1)] system_set_insert_sel(1) [OF 1(2)] by auto
qed (use assms in \<open>simp add: system_arc_joins_def\<close>)

lemma system_arcs_sel:
  "system_arcs g st as old w = Some (old', w') \<Longrightarrow>
   old' = old\<lparr>gs_system_set := gs_system_set old'\<rparr> \<and> set (gs_system_set old) \<subseteq> set (gs_system_set old') \<and>
   (gs_sys_sign old \<noteq> 0 \<longrightarrow> set as \<subseteq> set (gs_system_set old'))"
proof (induction as arbitrary: old w)
  case (Cons a as)
  then obtain arc w1 old1 w2 where j: "system_arc_joins arc a old w1 = Some (old1, w2)"
    and r: "system_arcs g st as old1 w2 = Some (old', w')"
    by (auto simp: bind_eq_Some_conv)
  obtain x y where "old1 = old\<lparr>gs_system_set := x\<rparr>" "old' = old1\<lparr>gs_system_set := y\<rparr>"
    using system_arc_joins_sel [OF j] Cons.IH [OF r] by blast
  then show ?case using system_arc_joins_sel [OF j] Cons.IH [OF r] by auto
qed simp

lemma system_block_takes_in:
  assumes e: "enter_system x g w = Some (a, g1, w1)" "gn_state g \<noteq> []" "x \<noteq> 0"
    and b: "takes_in g1 as g2" and l: "leave_system g2 w2 = Some (c, g3, w3)"
  shows "takes_in g as g3"
proof -
  obtain b' g0 w0 where 0: "gen_element x g w = Some (b', g0, w0)"
    and g1: "get_state g1 = (new_gen_state True)\<lparr>gs_sys_sign := x, gs_system_segment := Some (gn_active_segment g0),
                gs_system_arc_type := Some (gn_system_arc_type g0)\<rparr>" "tl (gn_state g1) = gn_state g0"
    using e(1) by (auto simp: enter_system_def Let_def bind_eq_Some_conv)
  have g0: "carries g g0" using gen_element_takes_in [OF 0 e(2)] by (rule takes_in_state(2))
  have n0: "gn_state g0 = get_state g0 # tl (gn_state g0)" using g0 unfolding carries_def get_state_def by (metis list.collapse)
  have "tl (gn_state g2) = gn_state g0" "gn_state g2 \<noteq> []" using b g1(2) by (simp_all add: takes_in_def carries_def)
  then have g2: "gn_state g2 = get_state g2 # get_state g0 # tl (gn_state g0)"
    using n0 by (metis get_state_def list.collapse)
  have "set as - {0} \<subseteq> members g2" using b e(3) by (simp add: takes_in_def sys_sign_def g1(1))
  obtain old w4 g4 where o: "system_arcs g2 (get_state g2) (gs_system_set (get_state g2)) (get_state g0) w2 = Some (old, w4)"
    and p: "pop_back_state (g2\<lparr>gn_state := get_state g2 # old # tl (gn_state g0)\<rparr>) w4 = Some (g3, w3)"
    using l unfolding leave_system_def g2 by (auto simp: bind_eq_Some_conv)
  have g3: "gn_state g3 = old # tl (gn_state g0)" using pop_back_state_tl [OF p] by simp
  note s = system_arcs_sel [OF o]
  then obtain y where y: "old = (get_state g0)\<lparr>gs_system_set := y\<rparr>" by blast
  have m: "sys_sign g3 = sys_sign g0" "members g3 = set y" "gs_system_context (get_state g3) = gs_system_context (get_state g0)"
    by (simp_all add: sys_sign_def members_def get_state_Cons [OF g3] y)
  have "members g0 \<subseteq> set y" "sys_sign g0 \<noteq> 0 \<longrightarrow> members g2 \<subseteq> set y"
    using s by (simp_all add: y members_def sys_sign_def)
  then have "takes_in g0 as g3"
    using n0 \<open>set as - {0} \<subseteq> members g2\<close> by (auto simp: takes_in_def carries_def m g3)
  then show ?thesis using takes_in_append [of g "[]" g0 as g3] g0 by (simp add: takes_in_Nil)
qed

lemma takes_in_then:
  "takes_in g as g1 \<Longrightarrow> (gn_state g1 \<noteq> [] \<Longrightarrow> takes_in g1 bs g') \<Longrightarrow> takes_in g (as @ bs) g'"
  using takes_in_append takes_in_state(1) by blast

lemma enter_state: 
  "enter_set x g w = Some (a, g1, w1) \<Longrightarrow> gn_state g1 \<noteq> []" "enter_system x g w = Some (a, g1, w1) \<Longrightarrow> gn_state g1 \<noteq> []"
  by (auto simp: enter_set_def enter_system_def Let_def bind_eq_Some_conv)

lemma gen_run_takes_in:
  "gen_run ps g w = Some (as, g', w') \<Longrightarrow> gn_state g \<noteq> [] \<Longrightarrow> signs_given ps \<Longrightarrow> takes_in g as g'"
proof (induction ps g w arbitrary: as g' w' rule: gen_run.induct)
  case (6 ps g w)
  then obtain g1 w1 where r: "gen_arc_step g w = Some (g1, w1)" "gen_run ps g1 w1 = Some (as, g', w')" by (auto simp: bind_eq_Some_conv)
  then have "takes_in g [] g1" using gen_arc_step_carries "6.prems" by (simp add: takes_in_Nil)
  then show ?case using takes_in_then [of g "[]" g1 as g'] "6.IH" r "6.prems" by simp
next
  case (7 ps g w)
  then obtain g1 w1 where r: "gen_finish g w = Some (g1, w1)" "gen_run ps g1 w1 = Some (as, g', w')" by (auto simp: bind_eq_Some_conv)
  then have "takes_in g [] g1" using gen_finish_carries "7.prems" by (simp add: takes_in_Nil)
  then show ?case using takes_in_then [of g "[]" g1 as g'] "7.IH" r "7.prems" by simp
next
  case (8 x qs ps g w)
  then obtain a g1 w1 bs g2 w2 c g3 w3 cs where r: "enter_set x g w = Some (a, g1, w1)" "gen_run qs g1 w1 = Some (bs, g2, w2)"
    "leave_set g2 w2 = Some (c, g3, w3)" "gen_run ps g3 w3 = Some (cs, g', w')" "as = bs @ cs"
    by (auto simp: bind_eq_Some_conv)
  have "takes_in g1 bs g2" using "8.IH"(1) [OF r(1) refl refl r(2)] enter_state(1) [OF r(1)] "8.prems" by simp
  then have "takes_in g bs g3" using set_block_takes_in [OF r(1) "8.prems"(2) _ r(3)] by simp
  then show ?case unfolding r(5) using "8.IH"(2) [OF r(1) refl refl r(2) refl refl r(3) refl refl r(4)] "8.prems"
    by (intro takes_in_then) simp_all
next
  case (10 x qs ps g w)
  then obtain a g1 w1 bs g2 w2 c g3 w3 cs where r: "enter_system x g w = Some (a, g1, w1)" "gen_run qs g1 w1 = Some (bs, g2, w2)"
    "leave_system g2 w2 = Some (c, g3, w3)" "gen_run ps g3 w3 = Some (cs, g', w')" "as = bs @ cs"
    by (auto simp: bind_eq_Some_conv)
  have "takes_in g1 bs g2" using "10.IH"(1) [OF r(1) refl refl r(2)] enter_state(2) [OF r(1)] "10.prems" by simp
  then have "takes_in g bs g3" using system_block_takes_in [OF r(1) "10.prems"(2) _ _ r(3)] "10.prems"(3) by simp
  then show ?case unfolding r(5) using "10.IH"(2) [OF r(1) refl refl r(2) refl refl r(3) refl refl r(4)] "10.prems"
    by (intro takes_in_then) simp_all
qed (auto simp: bind_eq_Some_conv takes_in_Nil carries_refl
       intro!: takes_in_then intro: gen_element_takes_in gen_element_named_takes_in gen_attr_takes_in gen_attr_named_takes_in)

text \<open>C18. A system holds everything that is generated in it. When a block of calls that returns runs
  inside a system, and the sets and systems that are entered in it, nested or not, are entered by the
  address of their sign, which for a system is not null, then every element that \<open>element\<close> or \<open>attr\<close>
  answers in it, but the null address, is among the members the system has collected; no earlier
  member is lost, and the sign and the context of the system and the states below it are those that
  were entered. Brackets entered by a name and systems with a null sign are not covered: there the
  state of the outer system can be lost.\<close>

theorem system_holds_block:
  assumes "gen_run ps g w = Some (as, g', w')" "signs_given ps" "gn_state g = st # below" "gs_sys_sign st \<noteq> 0"
  shows "\<exists>st'. gn_state g' = st' # below \<and> gs_sys_sign st' = gs_sys_sign st \<and> gs_system_context st' = gs_system_context st \<and>
    set (gs_system_set st) \<union> (set as - {0}) \<subseteq> set (gs_system_set st')"
proof -
  have "takes_in g as g'" using gen_run_takes_in [OF assms(1)] assms(2,3) by simp
  moreover have "gn_state g' = get_state g' # tl (gn_state g')"
    using takes_in_state(1) [OF calculation] by (simp add: get_state_def)
  moreover have "get_state g = st" using assms(3) by (rule get_state_Cons)
  ultimately show ?thesis
    using assms(3,4) by (intro exI [of _ "get_state g'"]) (auto simp: takes_in_def carries_def sys_sign_def members_def)
qed

definition demo_proxy :: gen_proxy where
  "demo_proxy = (gen_session_proxy 0 id 5)
     \<lparr>px_create_el := (\<lambda>_ _ w. Some (9, w)), px_set_beg := (\<lambda>_ _ w. Some (RV_OK, w)), px_set_end := (\<lambda>_ _ w. Some (RV_OK, w))\<rparr>"

definition demo_gen :: sc_generator where
  "demo_gen = (new_generator demo_proxy 1)\<lparr>gn_state := [(new_gen_state True)\<lparr>gs_sys_sign := 8\<rparr>, new_gen_state False]\<rparr>"

definition demo_block :: "gen_step list" where
  "demo_block = [G_element 7, G_arc, G_set 8 [G_attr 7, G_element 8]]"

lemma demo_block_runs: "\<exists>g w. gen_run demo_block demo_gen small_world = Some ([7, 7, 8], g, w)"
  by (simp add: demo_block_def demo_gen_def demo_proxy_def new_generator_def gen_element_def gen_element_at_def element_done_def
      gen_attr_def gen_arc_step_def enter_set_def leave_set_def internal_gen_arc_def gen_gen3_f_a_f_def push_tmp_def pop_back_state_def
      get_state_def put_state_def push_state_def new_gen_state_def gen_state_held_def system_set_insert_def smart_ref_def smart_unref_def
      addr_ref_def addr_unref_def upd_addr_def small_world_def new_gaddr_def)

theorem system_holds_block_witness:
  "\<exists>g w st. gen_run demo_block demo_gen small_world = Some ([7, 7, 8], g, w) \<and> gn_state g = [st, new_gen_state False] \<and>
     {7, 8} \<subseteq> set (gs_system_set st)"
proof -
  obtain g w where r: "gen_run demo_block demo_gen small_world = Some ([7, 7, 8], g, w)" using demo_block_runs by blast
  have d: "signs_given demo_block" "gn_state demo_gen = (new_gen_state True)\<lparr>gs_sys_sign := 8\<rparr> # [new_gen_state False]"
    "gs_sys_sign ((new_gen_state True)\<lparr>gs_sys_sign := 8\<rparr>) \<noteq> 0"
    by (simp_all add: demo_block_def demo_gen_def)
  from system_holds_block [OF r d] show ?thesis using r by auto
qed

section \<open>Errors\<close>

text \<open>Without a segment, \<open>gen_arc\<close> makes no arc and looks at no name: it reports an error and generates
  a node.\<close>

lemma gen_arc_default_segment:
  assumes "gn_proxy g = gen_session_proxy n md5 ss"
  shows "gen_arc from to idtf type 0 g w = do { w \<leftarrow> set_error ss RV_ERR_GEN w; gen_element 0 g w }"
proof -
  have "set_error ss e w1 = Some w2 \<Longrightarrow> set_error ss e w2 = Some w2" for e w1 w2
    by (auto simp: set_error_def upd_session_def bind_eq_Some_conv)
  then show ?thesis
    by (cases "set_error ss RV_ERR_GEN w")
      (simp_all add: assms gen_arc_def gen_session_proxy_def find_by_idtf_def create_el_def set_beg_def set_end_def access_def
        fail_null_def return_error_def)
qed

text \<open>A bracket whose sign is not generated enters nothing, and leaves the state around it.\<close>

lemma failed_bracket_leaves_outer:
  assumes "enter_set_named n 0 0 g w = Some (0, g1, w1)"
  shows "gen_run [G_set_named n []] g w = map_option (\<lambda>(_, g, w). ([], g, w)) (leave_set g w1)"
proof -
  have "g1 = g" using assms by (auto simp: enter_set_named_def enter_set_def Let_def bind_eq_Some_conv split: if_splits)
  then show ?thesis using assms by (cases "leave_set g w1") auto
qed

end
