(* ===== verification/Pm_Sched.thy ===== *)
theory Pm_Sched
  imports Sc_Network
begin

text \<open>
  The scheduler of processes (\<open>libpm/libpm/pm_sched.cpp\<close>): three queues of agents that are served in
  turn, agents that sleep in the memory under \<open>SLEEPING\<close>, hooks that wake them, and the step that takes
  an agent from its queue, puts it at the end and runs it. An agent runs on a context of the machine:
  \<open>context_call\<close> and \<open>context_recall\<close> come back when the agent has returned or when it has called
  \<open>context_switchback\<close>, and the code of agents is arbitrary, so these are parameters, with the
  keynodes and the segment of the scheduler. They act on the whole state, since an agent may call the
  scheduler.
\<close>

datatype sched_class = Sched_kernel | Sched_system | Sched_normal

record activity =
  ac_main :: bool
  ac_added :: bool
  ac_ctx :: nat

text \<open>A context of 0 is the null pointer; \<open>pm_ctxs\<close> counts the contexts that were allocated.\<close>

record pm =
  pm_world :: world
  pm_acts :: "nat \<Rightarrow> activity option"
  pm_queue :: "sched_class \<Rightarrow> nat list"
  pm_turn :: sched_class
  pm_quit :: bool
  pm_next_run :: "nat list"
  pm_current :: nat
  pm_default :: nat
  pm_ctxs :: nat

text \<open>\<open>pe_call\<close> and \<open>pe_recall\<close> give the code that \<open>activate\<close> returned with, or nothing when the agent
  has switched back; \<open>pe_switch\<close> is a switch back, seen from the agent.\<close>

record pm_env =
  pe_senv :: senv
  pe_num :: "nat \<Rightarrow> nat"
  pe_classes :: nat
  pe_class :: "sched_class \<Rightarrow> nat"
  pe_sleeping :: nat
  pe_hooks :: nat
  pe_seg :: nat
  pe_run :: "nat \<Rightarrow> nat list \<Rightarrow> pm \<Rightarrow> (sc_retval \<times> pm) option"
  pe_call :: "nat \<Rightarrow> nat \<Rightarrow> pm \<Rightarrow> (sc_retval option \<times> pm) option"
  pe_recall :: "nat \<Rightarrow> nat \<Rightarrow> pm \<Rightarrow> (sc_retval option \<times> pm) option"
  pe_switch :: "pm \<Rightarrow> pm option"

abbreviation pm_sys :: "pm \<Rightarrow> nat" where
  "pm_sys p \<equiv> wd_system (pm_world p)"

definition in_world :: "(world \<Rightarrow> ('x \<times> world) option) \<Rightarrow> pm \<Rightarrow> ('x \<times> pm) option" where
  "in_world f p = do { (x, w) \<leftarrow> f (pm_world p); Some (x, p\<lparr>pm_world := w\<rparr>) }"

definition locked :: "(pm \<Rightarrow> ('x \<times> pm) option) \<Rightarrow> pm \<Rightarrow> ('x \<times> pm) option" where
  "locked f p =
     do {
       (x, p) \<leftarrow> f (p\<lparr>pm_world := (pm_world p)\<lparr>wd_event_lock := wd_event_lock (pm_world p) + 1\<rparr>\<rparr>);
       Some (x, p\<lparr>pm_world := (pm_world p)\<lparr>wd_event_lock := wd_event_lock (pm_world p) - 1\<rparr>\<rparr>)
     }"

definition agent_activity :: "nat \<Rightarrow> pm \<Rightarrow> nat option" where
  "agent_activity a p = map_option ga_activity (wd_addrs (pm_world p) a)"

definition upd_activity :: "nat \<Rightarrow> (activity \<Rightarrow> activity) \<Rightarrow> pm \<Rightarrow> pm option" where
  "upd_activity x f p = do { ac \<leftarrow> pm_acts p x; Some (p\<lparr>pm_acts := (pm_acts p)(x \<mapsto> f ac)\<rparr>) }"

definition upd_queue :: "sched_class \<Rightarrow> (nat list \<Rightarrow> nat list) \<Rightarrow> pm \<Rightarrow> pm" where
  "upd_queue c f p = p\<lparr>pm_queue := (pm_queue p)(c := f (pm_queue p c))\<rparr>"

text \<open>\<open>activate\<close> of the system session.\<close>

definition pm_activate :: "pm_env \<Rightarrow> nat \<Rightarrow> nat list \<Rightarrow> pm \<Rightarrow> (sc_retval \<times> pm) option" where
  "pm_activate E a prms p =
     do {
       (e, p) \<leftarrow> in_world (access (pm_sys p) a) p;
       (if e \<noteq> RV_OK then Some (e, p)
        else do {
          (_, p) \<leftarrow> in_world (return_error (pm_sys p) RV_OK) p;
          x \<leftarrow> agent_activity a p;
          (if x = 0 then Some (RV_OK, p) else pe_run E x (a # prms) p)
        })
     }"

section \<open>Adding and removing agents\<close>

definition context_alloc :: "pm \<Rightarrow> nat \<times> pm" where
  "context_alloc p = (pm_ctxs p + 1, p\<lparr>pm_ctxs := pm_ctxs p + 1\<rparr>)"

definition pm_sched_init :: "pm_env \<Rightarrow> (string \<Rightarrow> pm \<Rightarrow> (nat \<times> pm) option) \<Rightarrow> nat \<Rightarrow> pm \<Rightarrow> (sc_retval \<times> nat \<times> pm) option" where
  "pm_sched_init E create_segment system p =
     do {
       let (ctx, p) = context_alloc (p\<lparr>pm_ctxs := 0\<rparr>);
       (seg, p) \<leftarrow> create_segment ''/proc/sched'' (p\<lparr>pm_default := ctx\<rparr>);
       (_, p) \<leftarrow> in_world (\<lambda>w. do {
         (_, _, w) \<leftarrow> gen3_f_a_f (se_depth (pe_senv E)) system (pe_classes E) seg CPA (pe_class E Sched_kernel) w;
         (_, _, w) \<leftarrow> gen3_f_a_f (se_depth (pe_senv E)) system (pe_classes E) seg CPA (pe_class E Sched_system) w;
         (_, _, w) \<leftarrow> gen3_f_a_f (se_depth (pe_senv E)) system (pe_classes E) seg CPA (pe_class E Sched_normal) w;
         Some ((), w) }) p;
       Some (RV_OK, seg, p)
     }"

definition class_of :: "pm_env \<Rightarrow> nat \<Rightarrow> sched_class option" where
  "class_of E c =
     (if c = pe_class E Sched_kernel then Some Sched_kernel
      else if c = pe_class E Sched_system then Some Sched_system
      else if c = pe_class E Sched_normal then Some Sched_normal
      else None)"

text \<open>The class with the arc to the agent.\<close>

definition search_class :: "pm_env \<Rightarrow> nat \<Rightarrow> nat \<Rightarrow> world \<Rightarrow> ((nat \<times> nat) option \<times> world) option" where
  "search_class E ss agent w =
     do {
       (rv, vs, w) \<leftarrow> search_3l2_f_cpa_cna_cpa_f (se_rg (pe_senv E)) ss (se_sys (pe_senv E)) (pe_classes E) agent w;
       Some (if rv \<noteq> RV_OK then None else Some (vs ! 1, vs ! 2), w)
     }"

definition pm_sched_get_sched_class :: "pm_env \<Rightarrow> nat \<Rightarrow> pm \<Rightarrow> (nat \<times> pm) option" where
  "pm_sched_get_sched_class E agent p =
     do {
       (found, p) \<leftarrow> in_world (search_class E (pm_sys p) agent) p;
       Some (case found of None \<Rightarrow> 0 | Some (c, _) \<Rightarrow> c, p)
     }"

definition pm_sched_add_agent :: "pm_env \<Rightarrow> nat \<Rightarrow> nat \<Rightarrow> pm \<Rightarrow> (sc_retval \<times> pm) option" where
  "pm_sched_add_agent E agent sched_class =
     locked (\<lambda>p. do {
       x \<leftarrow> agent_activity agent p;
       (if x = 0 then Some (RV_ERR_GEN, p)
        else do {
          ac \<leftarrow> pm_acts p x;
          (if ac_added ac then Some (RV_OK, p)
           else do {
             (c, p) \<leftarrow> pm_sched_get_sched_class E agent p;
             (if c \<noteq> 0 then Some (RV_ERR_GEN, p)
              else case class_of E sched_class of
                None \<Rightarrow> Some (RV_ERR_GEN, p)
              | Some sub \<Rightarrow> do {
                  (rv, p) \<leftarrow> in_world (\<lambda>w. do {
                    (rv, _, w) \<leftarrow> gen3_f_a_f (se_depth (pe_senv E)) (wd_system w) sched_class (pe_seg E) CPA agent w; Some (rv, w) }) p;
                  (if rv \<noteq> RV_OK then Some (RV_ERR_GEN, p)
                   else do {
                     let p = upd_queue sub (\<lambda>q. q @ [agent]) p;
                     x \<leftarrow> agent_activity agent p;
                     p \<leftarrow> upd_activity x (\<lambda>ac. ac\<lparr>ac_added := True\<rparr>) p;
                     Some (RV_OK, p)
                   })
                })
           })
        })
     })"

text \<open>The agent must have an activity. An agent that counts as added but has no class aborts.\<close>

definition sched_remove_agent :: "pm_env \<Rightarrow> trans \<Rightarrow> nat \<Rightarrow> pm \<Rightarrow> ((sc_retval \<times> nat \<times> trans) \<times> pm) option" where
  "sched_remove_agent E t agent =
     locked (\<lambda>p. do {
       x \<leftarrow> agent_activity agent p;
       ensure (x \<noteq> 0);
       ac \<leftarrow> pm_acts p x;
       (if \<not> ac_added ac then Some ((RV_ERR_GEN, 0, t), p)
        else do {
          (found, p) \<leftarrow> in_world (search_class E (tr_host t) agent) p;
          (c, arc) \<leftarrow> found;
          (case class_of E c of
             None \<Rightarrow> Some ((RV_ERR_GEN, c, t), p)
           | Some sub \<Rightarrow> do {
               let p = upd_queue sub (removeAll agent) p;
               (t, p) \<leftarrow> in_world (\<lambda>w. do { (_, t, w) \<leftarrow> tr_erase_el t arc w; Some (t, w) }) p;
               Some ((RV_OK, c, t), p)
             })
        })
     })"

text \<open>How the operations end; their transactions make no segment.\<close>

definition pm_finish :: "pm_env \<Rightarrow> bool \<Rightarrow> trans \<Rightarrow> pm \<Rightarrow> (sc_retval \<times> pm) option" where
  "pm_finish E ok t =
     in_world (\<lambda>w.
       if ok then map_option (Pair RV_OK) (tr_commit (se_depth (pe_senv E)) t w)
       else map_option (Pair RV_ERR_GEN) (tr_rollback (se_depth (pe_senv E)) (\<lambda>_. Some) t w))"

definition pm_sched_remove_agent :: "pm_env \<Rightarrow> nat \<Rightarrow> pm \<Rightarrow> (sc_retval \<times> pm) option" where
  "pm_sched_remove_agent E agent =
     locked (\<lambda>p. do {
       ((rv, _, t), p) \<leftarrow> sched_remove_agent E (new_trans (pm_sys p)) agent p;
       pm_finish E (rv = RV_OK) t p
     })"

section \<open>Sleep\<close>

text \<open>A tuple of a relation: its sign is added to the set \<open>rel\<close>, then the arcs with their attributes.
  The first error ends the sequence.\<close>

fun tuple_arcs :: "nat \<Rightarrow> trans \<Rightarrow> nat \<Rightarrow> nat \<Rightarrow> (nat \<times> nat) list \<Rightarrow> world \<Rightarrow> (bool \<times> world) option" where
  "tuple_arcs n t seg tuple [] w = Some (True, w)"
| "tuple_arcs n t seg tuple ((el, attr) # ps) w =
     do {
       (rv, _, w) \<leftarrow> tr_gen5_f_a_f_a_f n t tuple seg CPA el seg CPA attr w;
       (if rv \<noteq> RV_OK then Some (False, w) else tuple_arcs n t seg tuple ps w)
     }"

definition new_tuple ::
  "nat \<Rightarrow> trans \<Rightarrow> nat \<Rightarrow> nat \<Rightarrow> (nat \<times> nat) list \<Rightarrow> world \<Rightarrow> ((bool \<times> nat \<times> trans) \<times> world) option" where
  "new_tuple n t seg rel ps w =
     do {
       (tuple, t, w) \<leftarrow> tr_create_el t seg SC_N_CONST w;
       (if tuple = 0 then Some ((False, tuple, t), w)
        else do {
          (rv, _, w) \<leftarrow> tr_gen3_f_a_f n t rel seg CPA tuple w;
          (if rv \<noteq> RV_OK then Some ((False, tuple, t), w)
           else do { (b, w) \<leftarrow> tuple_arcs n t seg tuple ps w; Some ((b, tuple, t), w) })
        })
     }"

text \<open>The queue is a list of the program, so a rollback does not bring the agent back to it.\<close>

definition pm_sched_put_to_sleep :: "pm_env \<Rightarrow> nat \<Rightarrow> pm \<Rightarrow> (sc_retval \<times> pm) option" where
  "pm_sched_put_to_sleep E agent =
     locked (\<lambda>p. do {
       ((rv, c, t), p) \<leftarrow> sched_remove_agent E (new_trans (pm_sys p)) agent p;
       ((ok, _, t), p) \<leftarrow>
         (if rv \<noteq> RV_OK then Some ((False, 0, t), p)
          else in_world (new_tuple (se_depth (pe_senv E)) t (pe_seg E) (pe_sleeping E) [(agent, pe_num E 1), (c, pe_num E 2)]) p);
       (rv, p) \<leftarrow> pm_finish E ok t p;
       (if \<not> ok then Some (rv, p)
        else do {
          x \<leftarrow> agent_activity agent p;
          p \<leftarrow> upd_activity x (\<lambda>ac. ac\<lparr>ac_added := False\<rparr>) p;
          Some (RV_OK, p)
        })
     })"

definition pm_sched_is_sleeping :: "pm_env \<Rightarrow> nat \<Rightarrow> pm \<Rightarrow> (bool \<times> pm) option" where
  "pm_sched_is_sleeping E agent p =
     do {
       ensure (agent \<noteq> 0);
       (v, p) \<leftarrow> in_world (\<lambda>w. do {
         (v, _, w) \<leftarrow> rel_bin_ord_at_2 (pe_senv E) (wd_system w) (pe_num E) (pe_sleeping E) agent w; Some (v, w) }) p;
       Some (v \<noteq> 0, p)
     }"

definition pm_sched_put_to_sleep_and_switch :: "pm_env \<Rightarrow> nat \<Rightarrow> pm \<Rightarrow> (sc_retval \<times> pm) option" where
  "pm_sched_put_to_sleep_and_switch E agent p =
     do {
       (rv, p) \<leftarrow> pm_sched_put_to_sleep E agent p;
       (if rv \<noteq> RV_OK then Some (rv, p) else do { p \<leftarrow> pe_switch E p; Some (RV_OK, p) })
     }"

text \<open>The tuple of \<open>rel\<close> that has the agent.\<close>

definition search_tuple :: "pm_env \<Rightarrow> nat \<Rightarrow> nat \<Rightarrow> world \<Rightarrow> (nat option \<times> world) option" where
  "search_tuple E rel agent w =
     do {
       (rv, vs, w) \<leftarrow> search_oneshot (se_rg (pe_senv E)) (wd_system w) (se_sys (pe_senv E)) ''std3l2_faaaf''
         [P_addr rel, P_type CPA, P_type SC_N_CONST, P_type CPA, P_addr agent] [2] w;
       Some (if rv \<noteq> RV_OK then None else Some (vs ! 0), w)
     }"

text \<open>One hook succeeds: the result is a success.\<close>

definition run_hooks :: "pm_env \<Rightarrow> nat \<Rightarrow> nat \<Rightarrow> pm \<Rightarrow> (bool \<times> pm) option" where
  "run_hooks E tuple agent p =
     do {
       ((flag, p), w) \<leftarrow> wi_each (se_rg (pe_senv E)) (pm_sys p) (se_sys (pe_senv E)) ''std5_faaaf''
         [P_addr tuple, P_type CPA, P_type 0, P_type CPA, P_addr (pe_num E 2)]
         (\<lambda>it (flag, p) w. do {
            hook \<leftarrow> wi_value it 2;
            (if hook = 0 then Some ((flag, p), w)
             else do {
               (rv, p) \<leftarrow> pm_activate E hook [agent] (p\<lparr>pm_world := w\<rparr>);
               Some ((flag \<or> rv = RV_OK, p), pm_world p)
             })
          }) (False, p) (pm_world p);
       Some (flag, p\<lparr>pm_world := w\<rparr>)
     }"

definition pm_sched_wakeup :: "pm_env \<Rightarrow> nat \<Rightarrow> pm \<Rightarrow> (sc_retval \<times> pm) option" where
  "pm_sched_wakeup E agent =
     locked (\<lambda>p. do {
       (tuple, p) \<leftarrow> in_world (search_tuple E (pe_sleeping E) agent) p;
       (case tuple of
          None \<Rightarrow> do {
            (hooks, p) \<leftarrow> in_world (search_tuple E (pe_hooks E) agent) p;
            (case hooks of
               None \<Rightarrow> Some (RV_ERR_GEN, p)
             | Some tuple \<Rightarrow> do { (flag, p) \<leftarrow> run_hooks E tuple agent p; Some (if flag then RV_OK else RV_ERR_GEN, p) })
          }
        | Some tuple \<Rightarrow> do {
            ((rv, vs), p) \<leftarrow> in_world (\<lambda>w. do {
              (rv, vs, w) \<leftarrow> search_5_f_cpa_cna_cpa_f (se_rg (pe_senv E)) (wd_system w) (se_sys (pe_senv E)) tuple (pe_num E 2) w;
              Some ((rv, vs), w) }) p;
            ensure (rv = RV_OK);
            (rv, p) \<leftarrow> pm_sched_add_agent E agent (vs ! 1) p;
            (if rv \<noteq> RV_OK then Some (RV_ERR_GEN, p)
             else do { (_, p) \<leftarrow> in_world (\<lambda>w. erase_el (se_depth (pe_senv E)) (wd_system w) tuple w) p; Some (RV_OK, p) })
          })
     })"

definition pm_sched_set_wakeup_hook :: "pm_env \<Rightarrow> nat \<Rightarrow> nat \<Rightarrow> pm \<Rightarrow> (sc_retval \<times> pm) option" where
  "pm_sched_set_wakeup_hook E agent hook =
     locked (\<lambda>p. do {
       (tuple, p) \<leftarrow> in_world (search_tuple E (pe_hooks E) agent) p;
       ((ok, tuple, t), p) \<leftarrow>
         (case tuple of
            Some tuple \<Rightarrow> Some ((True, tuple, new_trans (pm_sys p)), p)
          | None \<Rightarrow> in_world (new_tuple (se_depth (pe_senv E)) (new_trans (pm_sys p)) (pe_seg E) (pe_hooks E) [(agent, pe_num E 1)]) p);
       (ok, p) \<leftarrow>
         (if \<not> ok then Some (False, p)
          else in_world (tuple_arcs (se_depth (pe_senv E)) t (pe_seg E) tuple [(hook, pe_num E 2)]) p);
       pm_finish E ok t p
     })"

text \<open>The first search passes a pointer where the number of the value is expected: when it finds a
  tuple its behaviour is undefined, and when it does not the hook is an error.\<close>

definition pm_sched_remove_wakeup_hook :: "pm_env \<Rightarrow> nat \<Rightarrow> nat \<Rightarrow> pm \<Rightarrow> (sc_retval \<times> pm) option" where
  "pm_sched_remove_wakeup_hook E agent hook =
     locked (\<lambda>p. do {
       (tuple, p) \<leftarrow> in_world (search_tuple E (pe_hooks E) agent) p;
       ensure (tuple = None);
       Some (RV_ERR_GEN, p)
     })"

section \<open>Running agents\<close>

fun get_next_turn :: "sched_class \<Rightarrow> sched_class" where
  "get_next_turn Sched_kernel = Sched_system"
| "get_next_turn Sched_system = Sched_normal"
| "get_next_turn Sched_normal = Sched_kernel"

definition sched_queue_get :: "sched_class \<Rightarrow> pm \<Rightarrow> nat option \<times> pm" where
  "sched_queue_get c p = (case pm_queue p c of [] \<Rightarrow> (None, p) | a # q \<Rightarrow> (Some a, upd_queue c (\<lambda>_. q) p))"

definition activater :: "sc_retval \<Rightarrow> nat" where
  "activater rv = (if rv \<noteq> RV_OK then 2 else 1)"

definition activate_agent :: "pm_env \<Rightarrow> nat \<Rightarrow> pm \<Rightarrow> (sc_retval \<times> pm) option" where
  "activate_agent E agent p =
     do {
       x \<leftarrow> agent_activity agent p;
       (if x = 0 then Some (RV_OK, p)
        else do {
          ac \<leftarrow> pm_acts p x;
          (if ac_main ac then pm_activate E agent [] p
           else do {
             let p = p\<lparr>pm_current := agent\<rparr>;
             (if ac_ctx ac \<noteq> 0 then do {
                w \<leftarrow> addr_ref agent (pm_world p);
                (r, p) \<leftarrow> pe_recall E (ac_ctx ac) agent (p\<lparr>pm_world := w\<rparr>);
                p \<leftarrow> (if r = None then Some p
                      else do {
                        dead \<leftarrow> addr_is_dead agent (pm_world p);
                        (if dead then Some p
                         else do { x \<leftarrow> agent_activity agent p; upd_activity x (\<lambda>ac. ac\<lparr>ac_ctx := 0\<rparr>) p })
                      });
                w \<leftarrow> addr_unref agent (pm_world p);
                Some (RV_OK, p\<lparr>pm_world := w\<rparr>)
              } else do {
                (r, p) \<leftarrow> pe_call E (pm_default p) agent p;
                (case r of
                   None \<Rightarrow> do {
                     x \<leftarrow> agent_activity agent p;
                     p \<leftarrow> upd_activity x (\<lambda>ac. ac\<lparr>ac_ctx := pm_default p\<rparr>) p;
                     let (ctx, p) = context_alloc p;
                     Some (RV_OK, p\<lparr>pm_default := ctx\<rparr>)
                   }
                 | Some rv \<Rightarrow> Some (if activater rv = 1 then RV_OK else RV_ERR_GEN, p\<lparr>pm_current := 0\<rparr>))
              })
           })
        })
     }"

text \<open>An agent goes to the end of its queue before it runs, and leaves the queue of the turn when it
  gives an error.\<close>

definition run_quant :: "pm_env \<Rightarrow> nat \<Rightarrow> pm \<Rightarrow> pm option" where
  "run_quant E agent p =
     do {
       (rv, p) \<leftarrow> activate_agent E agent (upd_queue (pm_turn p) (\<lambda>q. q @ [agent]) p);
       Some (if rv \<noteq> RV_OK then upd_queue (pm_turn p) (removeAll agent) p else p)
     }"

text \<open>The loop of \<open>pm_sched_main\<close> is left only at the normal queue.\<close>

partial_function (option) pm_sched_main :: "pm_env \<Rightarrow> pm \<Rightarrow> pm option" where
  "pm_sched_main E p =
     (let p = p\<lparr>pm_turn := get_next_turn (pm_turn p)\<rparr> in
      case sched_queue_get (pm_turn p) p of
        (Some agent, p) \<Rightarrow> do { p \<leftarrow> run_quant E agent p; pm_sched_main E p }
      | (None, p) \<Rightarrow> if pm_turn p = Sched_normal \<and> pm_quit p then Some p else pm_sched_main E p)"

text \<open>The loop over \<open>next_run_list\<close>; the code of an agent is ignored.\<close>

partial_function (option) run_next_list :: "pm_env \<Rightarrow> pm \<Rightarrow> pm option" where
  "run_next_list E p =
     (case pm_next_run p of
        [] \<Rightarrow> Some p
      | a # _ \<Rightarrow> do {
          (_, p) \<leftarrow> activate_agent E a p;
          ensure (pm_next_run p \<noteq> []);
          run_next_list E (p\<lparr>pm_next_run := tl (pm_next_run p)\<rparr>)
        })"

text \<open>The attempts to take an agent from the queues after the turn.\<close>

fun sched_pick :: "nat \<Rightarrow> pm \<Rightarrow> nat option \<times> pm" where
  "sched_pick 0 p = (None, p)"
| "sched_pick (Suc n) p =
     (let p = p\<lparr>pm_turn := get_next_turn (pm_turn p)\<rparr> in
      case sched_queue_get (pm_turn p) p of
        (Some agent, p) \<Rightarrow> (Some agent, p)
      | (None, p) \<Rightarrow> sched_pick n p)"

definition pm_sched_do_step :: "pm_env \<Rightarrow> pm \<Rightarrow> (bool \<times> pm) option" where
  "pm_sched_do_step E p =
     (if pm_quit p then Some (False, p)
      else case sched_pick 3 p of
        (None, p) \<Rightarrow> Some (False, p)
      | (Some agent, p) \<Rightarrow> do { p \<leftarrow> run_quant E agent p; p \<leftarrow> run_next_list E p; Some (True, p) })"

definition pm_sched_this_next :: "nat \<Rightarrow> pm \<Rightarrow> pm" where
  "pm_sched_this_next agent p = p\<lparr>pm_next_run := pm_next_run p @ [agent]\<rparr>"

definition pm_sched_quit :: "pm \<Rightarrow> pm" where
  "pm_sched_quit p = p\<lparr>pm_quit := True\<rparr>"

end
