(* ===== verification/Pm_Live.thy ===== *)
theory Pm_Live
  imports Pm_Sched
begin

text \<open>
  Liveness of the scheduler of \<open>libpm/libpm/pm_sched.cpp\<close>: an agent that waits in a queue is taken after
  a number of steps that its place in the queue bounds, whatever the other agents do to the memory and
  to the ends of the queues.
\<close>

section \<open>Sane states\<close>

definition sound_agent :: "pm \<Rightarrow> nat \<Rightarrow> bool" where
  "sound_agent p a \<longleftrightarrow> (\<exists>g. wd_addrs (pm_world p) a = Some g \<and> 0 < ga_refcnt g \<and>
     access (pm_sys p) a (pm_world p) \<noteq> None \<and> (ga_activity g \<noteq> 0 \<longrightarrow> pm_acts p (ga_activity g) \<noteq> None))"

definition sane :: "pm \<Rightarrow> bool" where
  "sane p \<longleftrightarrow> pm_next_run p = [] \<and> \<not> pm_quit p \<and> (\<forall>c. \<forall>a \<in> set (pm_queue p c). sound_agent p a)"

text \<open>The agent is not behind the place where it was.\<close>

definition keeps_place :: "nat \<Rightarrow> sched_class \<Rightarrow> pm \<Rightarrow> pm \<Rightarrow> bool" where
  "keeps_place a c p p' \<longleftrightarrow> (\<forall>q r. pm_queue p c = q @ a # r \<longrightarrow> (\<exists>q' r'. pm_queue p' c = q' @ a # r' \<and> length q' \<le> length q))"

text \<open>What is asked of the code of the other agents with respect to the agent \<open>a\<close>: it comes back, to a
  sane state in the same turn, and it does not push \<open>a\<close> back. They may add and remove each other.\<close>

definition behaves :: "nat \<Rightarrow> sched_class \<Rightarrow> pm \<Rightarrow> pm \<Rightarrow> bool" where
  "behaves a c p p' \<longleftrightarrow> sane p' \<and> pm_turn p' = pm_turn p \<and> keeps_place a c p p'"

definition has_activity :: "pm \<Rightarrow> nat \<Rightarrow> bool" where
  "has_activity p b \<longleftrightarrow> (\<exists>g. wd_addrs (pm_world p) b = Some g \<and> pm_acts p (ga_activity g) \<noteq> None)"

definition referred :: "pm \<Rightarrow> nat \<Rightarrow> bool" where
  "referred p b \<longleftrightarrow> (\<exists>g. wd_addrs (pm_world p) b = Some g \<and> 1 < ga_refcnt g)"

definition tame :: "pm_env \<Rightarrow> nat \<Rightarrow> sched_class \<Rightarrow> bool" where
  "tame E a c \<longleftrightarrow>
     (\<forall>x b prms p. sane p \<and> b \<noteq> a \<longrightarrow> (\<exists>rv p'. pe_run E x (b # prms) p = Some (rv, p') \<and> behaves a c p p')) \<and>
     (\<forall>ctx b p. sane p \<and> b \<noteq> a \<longrightarrow> (\<exists>r p'. pe_call E ctx b p = Some (r, p') \<and> behaves a c p p' \<and> (r = None \<longrightarrow> has_activity p' b))) \<and>
     (\<forall>ctx b p. sane p \<and> b \<noteq> a \<and> referred p b \<longrightarrow>
        (\<exists>r p'. pe_recall E ctx b p = Some (r, p') \<and> behaves a c p p' \<and> referred p' b \<and> (r \<noteq> None \<longrightarrow> has_activity p' b)))"

lemma tameD:
  assumes "tame E a c" "sane p" "b \<noteq> a"
  shows tame_run: "\<exists>rv p'. pe_run E x (b # prms) p = Some (rv, p') \<and> behaves a c p p'"
    and tame_call: "\<exists>r p'. pe_call E ctx b p = Some (r, p') \<and> behaves a c p p' \<and> (r = None \<longrightarrow> has_activity p' b)"
    and tame_recall: "referred p b \<Longrightarrow> \<exists>r p'. pe_recall E ctx b p = Some (r, p') \<and> behaves a c p p' \<and> referred p' b \<and>
      (r \<noteq> None \<longrightarrow> has_activity p' b)"
  using assms unfolding tame_def by blast+

section \<open>What the scheduler itself does keeps states sane\<close>

definition near_world :: "world \<Rightarrow> world \<Rightarrow> bool" where
  "near_world w w' \<longleftrightarrow> st_segs w' = st_segs w \<and> wd_system w' = wd_system w \<and>
     (\<forall>s. map_option ss_opened (wd_sessions w' s) = map_option ss_opened (wd_sessions w s)) \<and>
     (\<forall>a. map_option (\<lambda>g. (ga_seg g, ga_impl g, ga_dead g, ga_activity g)) (wd_addrs w' a) =
          map_option (\<lambda>g. (ga_seg g, ga_impl g, ga_dead g, ga_activity g)) (wd_addrs w a))"

lemma session_opened_near:
  assumes "near_world w w'"
  shows "session_opened ss s w' = session_opened ss s w"
proof -
  have "map_option ss_opened (wd_sessions w' ss) = map_option ss_opened (wd_sessions w ss)" "st_segs w' = st_segs w"
    using assms by (simp_all add: near_world_def)
  then show ?thesis by (cases "wd_sessions w ss"; cases "wd_sessions w' ss") (simp_all add: session_opened_def)
qed

lemma return_error_some: "return_error ss rv w \<noteq> None \<longleftrightarrow> wd_sessions w ss \<noteq> None"
  by (cases "wd_sessions w ss") (simp_all add: return_error_def set_error_def upd_session_def)

lemma access_session:
  assumes "access ss a w \<noteq> None"
  shows "wd_sessions w ss \<noteq> None"
proof
  assume "wd_sessions w ss = None"
  then have "return_error ss rv w = None" for rv by (simp add: return_error_def set_error_def upd_session_def)
  then show False using assms by (simp add: access_def split: if_splits Option.bind_splits)
qed

lemma access_opened:
  assumes "wd_addrs w a = Some g" "session_opened ss (ga_seg g) w = Some b"
  shows "access ss a w \<noteq> None"
proof -
  have "wd_sessions w ss \<noteq> None" using assms(2) by (cases "wd_sessions w ss") (simp_all add: session_opened_def)
  then have "return_error ss rv w \<noteq> None" for rv using return_error_some by blast
  then show ?thesis using assms by (simp add: access_def del: not_None_eq)
qed

lemma access_near:
  assumes "near_world w w'" "access ss a w \<noteq> None"
  shows "access ss a w' \<noteq> None"
proof -
  have s: "wd_sessions w' ss = None \<longleftrightarrow> wd_sessions w ss = None" and
    g: "map_option (\<lambda>g. (ga_seg g, ga_impl g, ga_dead g, ga_activity g)) (wd_addrs w' a) =
      map_option (\<lambda>g. (ga_seg g, ga_impl g, ga_dead g, ga_activity g)) (wd_addrs w a)"
    using assms(1) by (auto simp: near_world_def) (metis map_option_is_None)+
  note o = session_opened_near [OF assms(1)]
  have r: "return_error ss rv w' \<noteq> None \<longleftrightarrow> return_error ss rv w \<noteq> None" for rv by (simp only: return_error_some s)
  show ?thesis
  proof (cases "a = 0")
    case True
    then show ?thesis using assms(2) r by (simp add: access_def)
  next
    case False
    then obtain k where k: "wd_addrs w a = Some k" using assms(2) by (cases "wd_addrs w a") (auto simp: access_def)
    then obtain k' where k': "wd_addrs w' a = Some k'" "ga_seg k' = ga_seg k" "ga_impl k' = ga_impl k" "ga_dead k' = ga_dead k"
      using g by auto
    show ?thesis
    proof (cases "ga_dead k \<or> ga_seg k = 0 \<or> ga_impl k = 0")
      case True
      then have "access ss a v = return_error ss RV_ERR_GEN v" if "wd_addrs v a = Some k \<or> wd_addrs v a = Some k'" for v
        using that False k' by (auto simp: access_def)
      then show ?thesis using assms(2) k k'(1) r by simp
    next
      case not: False
      obtain b where "session_opened ss (ga_seg k) w = Some b"
        using assms(2) False k not by (cases "session_opened ss (ga_seg k) w") (simp_all add: access_def)
      then have "access ss a w = return_error ss (if b then RV_OK else RV_ERR_GEN) w"
        "access ss a w' = return_error ss (if b then RV_OK else RV_ERR_GEN) w'"
        using False k k' not o by (simp_all add: access_def)
      then show ?thesis using assms(2) r by simp
    qed
  qed
qed

lemma near_sound:
  assumes "near_world (pm_world p) (pm_world p')" "sound_agent p a"
    and "dom (pm_acts p) \<subseteq> dom (pm_acts p')"
    and "\<And>g. wd_addrs (pm_world p') a = Some g \<Longrightarrow> 0 < ga_refcnt g"
  shows "sound_agent p' a"
proof -
  obtain g where g: "wd_addrs (pm_world p) a = Some g" "access (pm_sys p) a (pm_world p) \<noteq> None"
    "ga_activity g \<noteq> 0 \<longrightarrow> pm_acts p (ga_activity g) \<noteq> None" using assms(2) by (auto simp: sound_agent_def)
  have "map_option (\<lambda>g. (ga_seg g, ga_impl g, ga_dead g, ga_activity g)) (wd_addrs (pm_world p') a) =
      map_option (\<lambda>g. (ga_seg g, ga_impl g, ga_dead g, ga_activity g)) (wd_addrs (pm_world p) a)"
    using assms(1) by (simp add: near_world_def)
  then obtain g' where g': "wd_addrs (pm_world p') a = Some g'" "ga_activity g' = ga_activity g" using g(1) by auto
  have "pm_sys p' = pm_sys p" using assms(1) by (simp add: near_world_def)
  then have "access (pm_sys p') a (pm_world p') \<noteq> None" using access_near [OF assms(1) g(2)] by simp
  then show ?thesis using g(3) g' assms(3,4) by (auto simp: sound_agent_def)
qed

lemma near_refl [simp]: "near_world w w" by (simp add: near_world_def)

lemma near_error:
  assumes "return_error ss rv w = Some (e, w')"
  shows "near_world w w'" "wd_addrs w' = wd_addrs w" "e = rv"
  using assms by (auto simp: return_error_def set_error_def upd_session_def near_world_def split: Option.bind_splits)

lemma near_access:
  assumes "access ss a w = Some (e, w')"
  shows "near_world w w'" "wd_addrs w' = wd_addrs w"
  using assms near_error by (auto simp: access_def split: if_splits Option.bind_splits)

lemma near_count:
  assumes "wd_addrs w a = Some g"
  shows "near_world w (w\<lparr>wd_addrs := (wd_addrs w)(a \<mapsto> g\<lparr>ga_refcnt := n\<rparr>)\<rparr>)"
  using assms by (simp add: near_world_def)

text \<open>A step that keeps the queues, the turn and what \<open>sane\<close> reads.\<close>

definition idle :: "pm \<Rightarrow> pm \<Rightarrow> bool" where
  "idle p p' \<longleftrightarrow> near_world (pm_world p) (pm_world p') \<and> pm_queue p' = pm_queue p \<and> pm_turn p' = pm_turn p \<and>
     pm_next_run p' = pm_next_run p \<and> pm_quit p' = pm_quit p \<and> dom (pm_acts p) \<subseteq> dom (pm_acts p') \<and>
     (\<forall>b g g'. wd_addrs (pm_world p) b = Some g \<and> 0 < ga_refcnt g \<and> wd_addrs (pm_world p') b = Some g' \<longrightarrow> 0 < ga_refcnt g')"

lemma idle_sane:
  assumes "idle p p'" "sane p"
  shows "sane p'"
proof -
  have "sound_agent p' b" if sb: "sound_agent p b" for b
  proof (rule near_sound [OF _ sb])
    fix g' assume g': "wd_addrs (pm_world p') b = Some g'"
    obtain g where "wd_addrs (pm_world p) b = Some g" "0 < ga_refcnt g" using sb by (auto simp: sound_agent_def)
    then show "0 < ga_refcnt g'" using assms(1) g' by (auto simp: idle_def)
  qed (use assms(1) in \<open>simp_all add: idle_def\<close>)
  then show ?thesis using assms by (simp add: idle_def sane_def)
qed

lemma keeps_place_eq: "pm_queue p' c = pm_queue p c \<Longrightarrow> keeps_place a c p p'"
  by (auto simp: keeps_place_def)

lemma keeps_place_trans: "keeps_place a c p p' \<Longrightarrow> keeps_place a c p' p'' \<Longrightarrow> keeps_place a c p p''"
  unfolding keeps_place_def by (meson le_trans)

lemma idle_behaves: "idle p p' \<Longrightarrow> sane p \<Longrightarrow> behaves a c p p'"
  using idle_sane [of p p'] keeps_place_eq [of p' c p a] by (simp add: behaves_def idle_def)

lemma behaves_refl: "sane p \<Longrightarrow> behaves a c p p"
  using keeps_place_eq [of p c p a] by (simp add: behaves_def)

lemma behaves_trans: "behaves a c p p' \<Longrightarrow> behaves a c p' p'' \<Longrightarrow> behaves a c p p''"
  using keeps_place_trans by (auto simp: behaves_def)

lemma idle_world:
  assumes "near_world (pm_world p) w" "wd_addrs w = wd_addrs (pm_world p)"
  shows "idle p (p\<lparr>pm_world := w\<rparr>)"
  using assms by (auto simp: idle_def)

section \<open>Running one agent\<close>

lemma pm_activate_behaves:
  assumes "tame E a c" "sane p" "sound_agent p b" "b \<noteq> a"
  shows "\<exists>rv p'. pm_activate E b prms p = Some (rv, p') \<and> behaves a c p p'"
proof -
  obtain g where g: "wd_addrs (pm_world p) b = Some g" "access (pm_sys p) b (pm_world p) \<noteq> None"
    using assms(3) by (auto simp: sound_agent_def)
  then obtain e w1 where w1: "access (pm_sys p) b (pm_world p) = Some (e, w1)" by auto
  note n1 = near_access [OF w1]
  let ?p = "p\<lparr>pm_world := w1\<rparr>"
  have i1: "idle p ?p" by (rule idle_world [OF n1])
  show ?thesis
  proof (cases "e = RV_OK")
    case False
    then show ?thesis using w1 idle_behaves [OF i1 assms(2)] by (simp add: pm_activate_def in_world_def)
  next
    case True
    have sys: "wd_system w1 = pm_sys p" using n1 by (simp add: near_world_def)
    have "wd_sessions (pm_world p) (pm_sys p) \<noteq> None" by (rule access_session [OF g(2)])
    then have "wd_sessions w1 (pm_sys p) \<noteq> None" using n1(1) by (metis map_option_is_None near_world_def)
    then obtain w2 where w2: "return_error (pm_sys p) RV_OK w1 = Some (RV_OK, w2)"
      by (auto simp: return_error_def set_error_def upd_session_def)
    note n2 = near_error [OF w2]
    let ?q = "p\<lparr>pm_world := w2\<rparr>"
    have i2: "idle ?p ?q" using idle_world [of ?p w2] n2 by simp
    have s: "behaves a c p ?q" using behaves_trans [OF idle_behaves [OF i1 assms(2)] idle_behaves [OF i2 idle_sane [OF i1 assms(2)]]] .
    have act: "agent_activity b ?q = Some (ga_activity g)" using g n1(2) n2(2) by (simp add: agent_activity_def)
    obtain rv p' where r: "pe_run E (ga_activity g) (b # prms) ?q = Some (rv, p')" "behaves a c ?q p'"
      using tame_run [OF assms(1) _ assms(4)] s unfolding behaves_def by blast
    show ?thesis
      using w1 w2 act r behaves_trans [OF s r(2)] s sys True by (auto simp: pm_activate_def in_world_def)
  qed
qed

text \<open>Steps that only touch the activities, the current agent and the contexts.\<close>

lemma upd_activity_idle:
  assumes "has_activity p b"
  shows "\<exists>x p'. agent_activity b p = Some x \<and> upd_activity x f p = Some p' \<and> idle p p' \<and> pm_world p' = pm_world p"
  using assms by (auto simp: has_activity_def agent_activity_def upd_activity_def idle_def)

lemma addr_ref_idle:
  assumes "sound_agent p b"
  shows "\<exists>w. addr_ref b (pm_world p) = Some w \<and> idle p (p\<lparr>pm_world := w\<rparr>) \<and> referred (p\<lparr>pm_world := w\<rparr>) b"
proof -
  obtain g where g: "wd_addrs (pm_world p) b = Some g" "0 < ga_refcnt g" using assms by (auto simp: sound_agent_def)
  then show ?thesis using near_count [OF g(1)] by (auto simp: addr_ref_def upd_addr_def idle_def referred_def)
qed

lemma addr_unref_idle:
  assumes "referred p b"
  shows "\<exists>w. addr_unref b (pm_world p) = Some w \<and> idle p (p\<lparr>pm_world := w\<rparr>)"
proof -
  obtain g where g: "wd_addrs (pm_world p) b = Some g" "1 < ga_refcnt g" using assms by (auto simp: referred_def)
  then show ?thesis using near_count [OF g(1)] by (auto simp: addr_unref_def upd_addr_def idle_def)
qed

lemma activate_agent_behaves:
  assumes "tame E a c" "sane p" "sound_agent p b" "b \<noteq> a"
  shows "\<exists>rv p'. activate_agent E b p = Some (rv, p') \<and> behaves a c p p'"
proof -
  obtain g where g: "wd_addrs (pm_world p) b = Some g" "ga_activity g \<noteq> 0 \<longrightarrow> pm_acts p (ga_activity g) \<noteq> None"
    using assms(3) by (auto simp: sound_agent_def)
  have act: "agent_activity b p = Some (ga_activity g)" using g by (simp add: agent_activity_def)
  note refl = behaves_refl [OF assms(2)]
  show ?thesis
  proof (cases "ga_activity g = 0")
    case True
    then show ?thesis using act refl by (simp add: activate_agent_def)
  next
    case False
    then obtain ac where ac: "pm_acts p (ga_activity g) = Some ac" using g by auto
    let ?p = "p\<lparr>pm_current := b\<rparr>"
    have i0: "idle p ?p" by (auto simp: idle_def)
    note b0 = idle_behaves [OF i0 assms(2), where a = a and c = c]
    have s0: "sane ?p" "sound_agent ?p b" using idle_sane [OF i0 assms(2)] assms(3) by (simp_all add: sound_agent_def)
    consider (main) "ac_main ac" | (recall) "\<not> ac_main ac" "ac_ctx ac \<noteq> 0" | (call) "\<not> ac_main ac" "ac_ctx ac = 0" by blast
    then show ?thesis
    proof cases
      case main
      then show ?thesis using pm_activate_behaves [OF assms, of "[]"] act ac False by (auto simp: activate_agent_def)
    next
      case recall
      obtain w where w: "addr_ref b (pm_world ?p) = Some w" "idle ?p (?p\<lparr>pm_world := w\<rparr>)" "referred (?p\<lparr>pm_world := w\<rparr>) b"
        using addr_ref_idle [OF s0(2)] by blast
      obtain r p1 where r: "pe_recall E (ac_ctx ac) b (?p\<lparr>pm_world := w\<rparr>) = Some (r, p1)" "behaves a c (?p\<lparr>pm_world := w\<rparr>) p1"
        "referred p1 b" "r \<noteq> None \<longrightarrow> has_activity p1 b"
        using tame_recall [OF assms(1) idle_sane [OF w(2) s0(1)] assms(4) w(3)] by blast
      have "\<exists>p2. (if r = None then Some p1
                      else do {
                        dead \<leftarrow> addr_is_dead b (pm_world p1);
                        (if dead then Some p1
                         else do { x \<leftarrow> agent_activity b p1; upd_activity x (\<lambda>ac. ac\<lparr>ac_ctx := 0\<rparr>) p1 })
                      }) = Some p2 \<and> idle p1 p2 \<and> pm_world p2 = pm_world p1"
      proof (cases "r = None")
        case True
        then show ?thesis by (auto simp: idle_def)
      next
        case False
        then have h: "has_activity p1 b" using r(4) by simp
        then obtain d where "addr_is_dead b (pm_world p1) = Some d" by (auto simp: has_activity_def addr_is_dead_def)
        then show ?thesis using False upd_activity_idle [OF h, of "\<lambda>ac. ac\<lparr>ac_ctx := 0\<rparr>"]
          by (cases d) (auto simp: idle_def)
      qed
      then obtain p2 where p2: "(if r = None then Some p1
                      else do {
                        dead \<leftarrow> addr_is_dead b (pm_world p1);
                        (if dead then Some p1
                         else do { x \<leftarrow> agent_activity b p1; upd_activity x (\<lambda>ac. ac\<lparr>ac_ctx := 0\<rparr>) p1 })
                      }) = Some p2" "idle p1 p2" "pm_world p2 = pm_world p1" by blast
      then obtain w3 where w3: "addr_unref b (pm_world p2) = Some w3" "idle p2 (p2\<lparr>pm_world := w3\<rparr>)"
        using addr_unref_idle [of p2 b] r(3) by (auto simp: referred_def)
      have s1: "sane p1" using r(2) by (simp add: behaves_def)
      note b = behaves_trans [OF b0 behaves_trans [OF idle_behaves [OF w(2) s0(1)] behaves_trans [OF r(2)
            behaves_trans [OF idle_behaves [OF p2(2) s1] idle_behaves [OF w3(2) idle_sane [OF p2(2) s1]]]]]]
      then show ?thesis using recall act ac False w(1) r(1) p2(1) w3(1)
        by (simp add: activate_agent_def Let_def)
    next
      case call
      obtain r p1 where r: "pe_call E (pm_default p) b ?p = Some (r, p1)" "behaves a c ?p p1" "r = None \<longrightarrow> has_activity p1 b"
        using tame_call [OF assms(1) s0(1) assms(4)] by blast
      have s1: "sane p1" using r(2) by (simp add: behaves_def)
      note b1 = behaves_trans [OF b0 r(2)]
      show ?thesis
      proof (cases r)
        case None
        then obtain x p2 where p2: "agent_activity b p1 = Some x" "upd_activity x (\<lambda>ac. ac\<lparr>ac_ctx := pm_default p1\<rparr>) p1 = Some p2" "idle p1 p2"
          using r(3) upd_activity_idle [of p1 b] by blast
        have "idle p2 (p2\<lparr>pm_ctxs := n, pm_default := m\<rparr>)" for n m by (auto simp: idle_def)
        from behaves_trans [OF b1 behaves_trans [OF idle_behaves [OF p2(3) s1] idle_behaves [OF this idle_sane [OF p2(3) s1]]]]
        show ?thesis using call act ac False r(1) None p2 by (simp add: activate_agent_def Let_def context_alloc_def)
      next
        case (Some rv)
        have "idle p1 (p1\<lparr>pm_current := 0\<rparr>)" by (auto simp: idle_def)
        from behaves_trans [OF b1 idle_behaves [OF this s1]]
        show ?thesis using call act ac False r(1) Some by (simp add: activate_agent_def Let_def)
      qed
    qed
  qed
qed

section \<open>Taking agents\<close>

fun turns :: "nat \<Rightarrow> sched_class \<Rightarrow> sched_class" where
  "turns 0 c = c"
| "turns (Suc n) c = turns n (get_next_turn c)"

text \<open>How many turns until the class \<open>c\<close> is served.\<close>

definition until_turn :: "sched_class \<Rightarrow> sched_class \<Rightarrow> nat" where
  "until_turn t c = (if get_next_turn t = c then 1 else if turns 2 t = c then 2 else 3)"

lemma until_turn_next:
  "until_turn t c = Suc n \<Longrightarrow> get_next_turn t \<noteq> c \<Longrightarrow> until_turn (get_next_turn t) c = n \<and> 0 < n"
  by (cases t; cases c) (auto simp: until_turn_def numeral_2_eq_2)

lemma until_turn_bounds: "0 < until_turn t c" "until_turn t c \<le> 3" "until_turn c c = 3"
  by (cases t; cases c; simp add: until_turn_def numeral_2_eq_2)+

text \<open>A pick finds an agent of the class \<open>c\<close> or of a class served before it.\<close>

lemma sched_pick_found:
  assumes "pm_queue p c \<noteq> []" "until_turn (pm_turn p) c \<le> n"
  shows "\<exists>b q p'. sched_pick n p = (Some b, p') \<and> pm_queue p (pm_turn p') = b # q \<and>
    p' = p\<lparr>pm_turn := pm_turn p', pm_queue := (pm_queue p)(pm_turn p' := q)\<rparr> \<and>
    (pm_turn p' \<noteq> c \<longrightarrow> until_turn (pm_turn p') c < until_turn (pm_turn p) c)"
  using assms
proof (induction n arbitrary: p)
  case 0
  then show ?case using until_turn_bounds(1) [of "pm_turn p" c] by simp
next
  case (Suc n)
  let ?t = "get_next_turn (pm_turn p)" and ?p = "p\<lparr>pm_turn := get_next_turn (pm_turn p)\<rparr>"
  show ?case
  proof (cases "pm_queue p ?t")
    case (Cons b q)
    have "?t \<noteq> c \<longrightarrow> until_turn ?t c < until_turn (pm_turn p) c"
      using until_turn_next [of "pm_turn p" c "until_turn (pm_turn p) c - 1"] until_turn_bounds(1) [of "pm_turn p" c] by auto
    then show ?thesis using Cons by (simp add: sched_queue_get_def upd_queue_def fun_upd_def)
  next
    case Nil
    then have c: "?t \<noteq> c" using Suc.prems(1) by auto
    then have "until_turn ?t c < until_turn (pm_turn p) c"
      using until_turn_next [of "pm_turn p" c "until_turn (pm_turn p) c - 1"] until_turn_bounds(1) [of "pm_turn p" c] by auto
    then show ?thesis using Suc.IH [of ?p] Suc.prems Nil by (auto simp: sched_queue_get_def)
  qed
qed

definition next_agent :: "pm \<Rightarrow> nat option" where
  "next_agent p = fst (sched_pick 3 p)"

fun do_steps :: "pm_env \<Rightarrow> nat \<Rightarrow> pm \<Rightarrow> pm option" where
  "do_steps E 0 p = Some p"
| "do_steps E (Suc n) p = do { (b, p) \<leftarrow> pm_sched_do_step E p; ensure b; do_steps E n p }"

lemma keeps_place_remove:
  assumes "b \<noteq> a"
  shows "keeps_place a c p (upd_queue d (removeAll b) p)"
  unfolding keeps_place_def
proof (intro allI impI)
  fix q r
  assume "pm_queue p c = q @ a # r"
  then show "\<exists>q' r'. pm_queue (upd_queue d (removeAll b) p) c = q' @ a # r' \<and> length q' \<le> length q"
    using assms by (cases "c = d") (auto simp: upd_queue_def removeAll_filter_not_eq)
qed

text \<open>One step: the agent is the next one, or a step brings it nearer.\<close>

lemma do_step_nearer:
  assumes "tame E a c" "sane p" "pm_queue p c = q @ a # r"
  shows "next_agent p = Some a \<or> (\<exists>p' q' r'. pm_sched_do_step E p = Some (True, p') \<and> sane p' \<and> pm_queue p' c = q' @ a # r' \<and>
    3 * length q' + until_turn (pm_turn p') c < 3 * length q + until_turn (pm_turn p) c)"
proof (cases "next_agent p = Some a")
  case False
  obtain b s p1 where p1: "sched_pick 3 p = (Some b, p1)" "pm_queue p (pm_turn p1) = b # s"
    "p1 = p\<lparr>pm_turn := pm_turn p1, pm_queue := (pm_queue p)(pm_turn p1 := s)\<rparr>"
    "pm_turn p1 \<noteq> c \<longrightarrow> until_turn (pm_turn p1) c < until_turn (pm_turn p) c"
    using sched_pick_found [of p c 3] assms(3) until_turn_bounds(2) by auto
  have ba: "b \<noteq> a" using False p1(1) by (simp add: next_agent_def)
  let ?d = "pm_turn p1"
  let ?p = "upd_queue ?d (\<lambda>q. q @ [b]) p1"
  have qs: "pm_queue ?p x = (if x = ?d then s @ [b] else pm_queue p x)" for x
    by (subst p1(3)) (simp add: upd_queue_def)
  have fields: "pm_world ?p = pm_world p" "pm_acts ?p = pm_acts p" "pm_next_run ?p = pm_next_run p" "pm_quit ?p = pm_quit p" "pm_turn ?p = ?d"
    by (subst p1(3), simp add: upd_queue_def)+
  have sound: "sound_agent ?p x = sound_agent p x" for x using fields by (simp add: sound_agent_def)
  have "set (pm_queue ?p x) = set (pm_queue p x)" for x using qs [of x] p1(2) by auto
  then have s0: "sane ?p" using assms(2) sound fields(3,4) by (simp add: sane_def)
  have "b \<in> set (pm_queue ?p ?d)" by (simp add: qs)
  then have sb: "sound_agent ?p b" using s0 unfolding sane_def by blast
  obtain q1 r1 where q1: "pm_queue ?p c = q1 @ a # r1" "3 * length q1 + until_turn ?d c < 3 * length q + until_turn (pm_turn p) c"
  proof (cases "c = ?d")
    case True
    then obtain u where "q = b # u" "s = u @ a # r" using assms(3) p1(2) ba by (cases q) auto
    then show ?thesis using that [of u "r @ [b]"] qs [of c] True until_turn_bounds(1) [of "pm_turn p" c] until_turn_bounds(3) [of c] by auto
  next
    case False
    then show ?thesis using that [of q r] qs [of c] assms(3) p1(4) by auto
  qed
  obtain rv p2 where p2: "activate_agent E b ?p = Some (rv, p2)" "behaves a c ?p p2"
    using activate_agent_behaves [OF assms(1) s0 sb ba] by blast
  let ?p3 = "if rv \<noteq> RV_OK then upd_queue (pm_turn p2) (removeAll b) p2 else p2"
  have k: "keeps_place a c ?p ?p3"
    using p2(2) keeps_place_trans [OF _ keeps_place_remove [OF ba]] by (simp add: behaves_def)
  have s3: "sane ?p3" using p2(2) by (auto simp: behaves_def sane_def upd_queue_def sound_agent_def split: if_splits)
  have t3: "pm_turn ?p3 = ?d" using p2(2) fields by (simp add: behaves_def upd_queue_def)
  obtain q3 r3 where q3: "pm_queue ?p3 c = q3 @ a # r3" "length q3 \<le> length q1" using k q1(1) unfolding keeps_place_def by blast
  have "run_quant E b p1 = Some ?p3" using p2(1) by (simp add: run_quant_def)
  moreover have "run_next_list E ?p3 = Some ?p3" using s3 by (subst run_next_list.simps) (simp add: sane_def)
  moreover have "\<not> pm_quit p" using assms(2) by (simp add: sane_def)
  ultimately have "pm_sched_do_step E p = Some (True, ?p3)" using p1(1) by (simp add: pm_sched_do_step_def)
  moreover have "3 * length q3 + until_turn (pm_turn ?p3) c < 3 * length q + until_turn (pm_turn p) c"
    using q1(2) q3(2) t3 by simp
  ultimately show ?thesis using s3 q3(1) by blast
qed simp

section \<open>Properties\<close>

text \<open>C19. An agent gets its turn when the others behave. The scheduler is not asked to stop, nothing
  waits in \<open>next_run_list\<close>, and every agent in a queue is sound: its address has a reference and can be
  asked for access, and its activity exists. The code of every other agent, started in such a state,
  comes back to such a state in the same turn, so it asks for no stop and leaves nothing in
  \<open>next_run_list\<close> (no \<open>pm_sched_this_next\<close>, not even of itself), keeps its own reference and activity
  where the scheduler needs them, and does not push the agent back in its queue. Then the agent with
  \<open>k\<close> others before it in its queue is the next one to run after at most \<open>3 * k + 2\<close> steps of the
  scheduler; none of these steps finds all queues empty.\<close>

theorem agent_gets_its_turn:
  assumes "tame E a c" "sane p" "pm_queue p c = q @ a # r"
  shows "\<exists>n p'. n \<le> 3 * length q + 2 \<and> do_steps E n p = Some p' \<and> next_agent p' = Some a"
proof -
  have "\<exists>n p'. n < 3 * length q + until_turn (pm_turn p) c \<and> do_steps E n p = Some p' \<and> next_agent p' = Some a"
    using assms(2,3)
  proof (induction "3 * length q + until_turn (pm_turn p) c" arbitrary: p q r rule: less_induct)
    case less
    show ?case
    proof (cases "next_agent p = Some a")
      case True
      then show ?thesis using until_turn_bounds(1) [of "pm_turn p" c] by (intro exI [of _ 0]) auto
    next
      case False
      then obtain p1 q1 r1 where s: "pm_sched_do_step E p = Some (True, p1)" "sane p1" "pm_queue p1 c = q1 @ a # r1"
        "3 * length q1 + until_turn (pm_turn p1) c < 3 * length q + until_turn (pm_turn p) c"
        using do_step_nearer [OF assms(1) less.prems] by blast
      obtain n p' where "n < 3 * length q1 + until_turn (pm_turn p1) c" "do_steps E n p1 = Some p'" "next_agent p' = Some a"
        using less.hyps [OF s(4,2,3)] by blast
      then show ?thesis using s(1,4) by (intro exI [of _ "Suc n"] exI [of _ p']) auto
    qed
  qed
  then obtain n p' where n: "n < 3 * length q + until_turn (pm_turn p) c" "do_steps E n p = Some p'" "next_agent p' = Some a" by blast
  have "n \<le> 3 * length q + 2" using n(1) until_turn_bounds(2) [of "pm_turn p" c] by linarith
  then show ?thesis using n(2,3) by blast
qed

lemma session_opened_addrs: "session_opened ss s (w\<lparr>wd_addrs := f\<rparr>) = session_opened ss s w"
  by (simp add: session_opened_def)

definition demo_env :: pm_env where
  "demo_env = \<lparr>pe_senv = \<lparr>se_rg = search_registry, se_sys = 6, se_depth = 0\<rparr>, pe_num = (\<lambda>_. 0), pe_classes = 0, pe_class = (\<lambda>_. 0),
     pe_sleeping = 0, pe_hooks = 0, pe_seg = 0, pe_run = (\<lambda>_ _ p. Some (RV_OK, p)), pe_call = (\<lambda>_ _ p. Some (Some RV_OK, p)),
     pe_recall = (\<lambda>_ _ p. Some (None, p)), pe_switch = Some\<rparr>"

definition demo_pm :: pm where
  "demo_pm = \<lparr>pm_world = small_world\<lparr>wd_addrs := (\<lambda>a. map_option (\<lambda>g. g\<lparr>ga_activity := 1\<rparr>) (wd_addrs small_world a))\<rparr>,
     pm_acts = [1 \<mapsto> \<lparr>ac_main = False, ac_added = True, ac_ctx = 0\<rparr>],
     pm_queue = (\<lambda>c. if c = Sched_normal then [7, 8] else []), pm_turn = Sched_normal, pm_quit = False, pm_next_run = [],
     pm_current = 0, pm_default = 1, pm_ctxs = 1\<rparr>"

theorem agent_gets_its_turn_witness:
  "\<exists>n p'. n \<le> 5 \<and> do_steps demo_env n demo_pm = Some p' \<and> next_agent p' = Some 8"
proof -
  have e: "pe_run demo_env = (\<lambda>_ _ p. Some (RV_OK, p))" "pe_call demo_env = (\<lambda>_ _ p. Some (Some RV_OK, p))"
    "pe_recall demo_env = (\<lambda>_ _ p. Some (None, p))" by (simp_all add: demo_env_def)
  have t: "tame demo_env 8 Sched_normal"
    unfolding tame_def e using behaves_refl by (intro conjI allI impI exI conjI [OF refl]) auto
  have o: "session_opened 6 1 (pm_world demo_pm) = Some True"
    unfolding demo_pm_def pm.simps session_opened_addrs by (rule small_opened) simp
  have "access 6 a (pm_world demo_pm) \<noteq> None" if ab: "a \<in> {7, 8}" for a
  proof -
    obtain g where "wd_addrs small_world a = Some g" "ga_seg g = 1" using ab by (auto simp: new_gaddr_def)
    then have g: "wd_addrs (pm_world demo_pm) a = Some (g\<lparr>ga_activity := 1\<rparr>)" "ga_seg (g\<lparr>ga_activity := 1\<rparr>) = 1"
      by (simp_all add: demo_pm_def)
    show ?thesis by (rule access_opened [OF g(1)]) (use g(2) o in simp)
  qed
  moreover have "pm_sys demo_pm = 6" by (simp add: demo_pm_def small_world_def)
  ultimately have "sane demo_pm"
    by (auto simp: sane_def sound_agent_def) (auto simp: demo_pm_def new_gaddr_def)
  then show ?thesis
    using agent_gets_its_turn [OF t, of demo_pm "[7]" "[]"] by (simp add: demo_pm_def)
qed

text \<open>C40. \<open>pm_sched_main\<close> does not stop on request. Whatever the agents do, it returns only when a stop has
  been asked for and it has come to the normal queue and found it empty; the request alone, which ends
  \<open>pm_sched_do_step\<close>, is not enough.\<close>

theorem main_stops_only_idle:
  "(pm_sched_main E p = Some p' \<longrightarrow> pm_quit p' \<and> pm_turn p' = Sched_normal \<and> pm_queue p' Sched_normal = []) \<and>
   (pm_quit p \<longrightarrow> pm_sched_do_step E p = Some (False, p))"
proof -
  have "pm_quit p' \<and> pm_turn p' = Sched_normal \<and> pm_queue p' Sched_normal = []" if "pm_sched_main E p = Some p'"
    using that
  proof (rule pm_sched_main.raw_induct [rotated])
    fix main :: "pm_env \<Rightarrow> pm \<Rightarrow> pm option" and E p p'
    assume IH: "\<And>E p p'. main E p = Some p' \<Longrightarrow> pm_quit p' \<and> pm_turn p' = Sched_normal \<and> pm_queue p' Sched_normal = []"
    assume "(let p = p\<lparr>pm_turn := get_next_turn (pm_turn p)\<rparr> in
      case sched_queue_get (pm_turn p) p of
        (Some agent, p) \<Rightarrow> do { p \<leftarrow> run_quant E agent p; main E p }
      | (None, p) \<Rightarrow> if pm_turn p = Sched_normal \<and> pm_quit p then Some p else main E p) = Some p'"
    then show "pm_quit p' \<and> pm_turn p' = Sched_normal \<and> pm_queue p' Sched_normal = []"
      using IH by (auto simp: sched_queue_get_def Let_def split: list.splits if_splits Option.bind_splits)
  qed
  then show ?thesis by (simp add: pm_sched_do_step_def)
qed

theorem main_stops_only_idle_witness:
  "\<exists>p'. pm_sched_main demo_env (demo_pm\<lparr>pm_quit := True, pm_queue := (\<lambda>_. [])\<rparr>) = Some p' \<and> pm_quit p' \<and> pm_turn p' = Sched_normal"
proof -
  let ?p = "demo_pm\<lparr>pm_quit := True, pm_queue := (\<lambda>_. [])\<rparr>"
  have "pm_sched_main demo_env ?p = Some (?p\<lparr>pm_turn := Sched_normal\<rparr>)"
    by (subst pm_sched_main.simps, subst pm_sched_main.simps, subst pm_sched_main.simps) (simp add: demo_pm_def sched_queue_get_def)
  then show ?thesis using main_stops_only_idle [of demo_env ?p] by blast
qed

end
