(* ===== verification/Spec2Isabelle.thy ===== *)
theory Spec2Isabelle
  imports Session_Errors Session_Repo Safe_List Std_Props Tgf_Io Sc_Queue Sc_Merge Sc_Gen Pm_Live
begin

text \<open>
  Verification of the memory of sc-core (\<open>libsc/libsc\<close>), the in-memory semantic network that the
  rest of the repository is built on, of its stream format (\<open>libtgf\<close>) and of the scheduler of agents.

  \<^bold>\<open>The program.\<close> Elements (nodes, arcs, links) live in segments; a segment is an implementation
  of the interface of \<open>sc_segment.h\<close>, here the in-memory one of \<open>tmp_segment.cpp\<close>. A global address
  (\<open>sc_addr.h\<close>) is the handle of an element: it counts references, knows the links that stand for
  the element in other segments, caches the numbers of its arcs, and holds the waits (event
  handlers) attached to it. A session (\<open>session_base\<close> in \<open>sc_core.cpp\<close>) is what a client calls:
  every operation checks that the session has the element's segment open, asks the \<open>_PRE\<close> waits
  whether one denies the operation, changes the segment, keeps the counters and links of the
  addresses, tells the segment's event stream and activates the waits.

  \<^bold>\<open>The theories.\<close>
  \<^item> \<open>Sc_Prelude\<close>: return codes, \<open>None\<close> as the outcome of a failed assertion or of an invalid
    dereference, generic lemmas.
  \<^item> \<open>Sc_Types\<close>: the type masks of \<open>sc_types.h\<close> and \<open>verify_type\<close>.
  \<^item> \<open>Seg_Table\<close> (\<open>segtable.h\<close>): the table of segments and the bit sets of opened segments.
  \<^item> \<open>List_Head\<close> (\<open>sc_list_head.h\<close>): the pointer rings and that they implement lists.
  \<^item> \<open>Sc_Event\<close> (\<open>sc_event.h\<close>): the holder of waits and the activation loop over its rings.
  \<^item> \<open>Sc_Content\<close>, \<open>Content_Index\<close>: contents, their comparison, and the index by checksum.
  \<^item> \<open>Event_Fifo\<close> (\<open>event_stream.h\<close>): the ring buffer of events.
  \<^item> \<open>Safe_List\<close> (\<open>safe_list_p.h\<close>): the list with iterators that survive deletion.
  \<^item> \<open>Tmp_Segment\<close> (\<open>tmp_segment.cpp\<close>): the objects and operations of a segment.
    \<open>Segment_Adj\<close> proves the invariant of the ends of arcs, \<open>Segment_Names\<close> that of identifiers,
    contents and the order of elements; the locale \<open>seg_cursor\<close> is the contract of the segment's
    iterators, interpreted for both of them.
  \<^item> \<open>Sc_Addr\<close>: the world of addresses, waits and sessions, and the iterators over arcs.
  \<^item> \<open>Sc_Session\<close>: the operations of \<open>session_base\<close>, \<open>normal_session\<close> and \<open>sc_system_session\<close>.
    \<open>Session_Inv\<close> holds the frames, the weakest-precondition rules (\<open>yields\<close>) and the invariant
    \<open>wd_inv\<close>; \<open>Session_Ends\<close> the contracts of the operations on the ends of arcs; \<open>Session_Props\<close>
    those of creation and of the changes of types, with the properties; \<open>Session_Errors\<close> two paths
    on which the session fails.
  \<^item> \<open>Segment_Life\<close>: the destruction of a segment and the release of its addresses. \<open>Meta_Iter\<close>
    (\<open>base_iterators_p.h\<close>): the iterator over the arcs of an element in all opened segments.
  \<^item> \<open>Sc_Uri\<close> (\<open>string_util.h\<close>): names and directories of URIs, and their normal form.
  \<^item> \<open>Tmp_Repo\<close> (\<open>tmp_repo.cpp\<close>): the tree of directories and segments in memory; \<open>Repo_Props\<close>
    proves that looking up a path walks it and what creation does to every other path.
  \<^item> \<open>Session_Repo\<close>: the part of \<open>sc_core.cpp\<close> between sessions and repositories: URIs of segments,
    their signs in \<open>META\<close>, opening, closing, unlinking, the current directory, and loading.
  \<^item> \<open>Constr_Prog\<close> (\<open>sc_constraint.cpp\<close>): programs of search constraints, the registry of constraints,
    functions and filters, registration, the inlining of nested programs, programs over sets, and the
    plan of \<open>create_iterator\<close>. \<open>Fallback_Iter\<close> (\<open>fallback.cpp\<close>): the interpreter of such programs, over
    an environment of iterators, functions and filters; its loop is modelled without fuel
    (\<open>fb_run\<close>). \<open>Constr_Sem\<close> states what a program means, a nest of loops without any state, and
    \<open>Fallback_Props\<close> proves, in the locale \<open>constraint_provider\<close> of the laws of an environment, that the
    interpreter computes it and gives every reference back.
  \<^item> \<open>World_Refs\<close> and \<open>Constr_World\<close>: the environment that \<open>std_constraints.cpp.in\<close> and
    \<open>session_base::create_iterator\<close> provide over the world of sessions, with the interpretation of the
    locale on it; \<open>Constr_Delete\<close>: deleting an iterator before its end.
  \<^item> \<open>Std_Constraints\<close> (\<open>std_constraints.cpp.in\<close>, \<open>gen_constr.pl\<close>): all standard constraints, their
    translation and the initial registration. \<open>Std_Answers\<close> evaluates the registration and computes
    the answers of the core constraints, \<open>Std_Props\<close> holds the properties.
  \<^item> \<open>Custom_Iter\<close> (\<open>custom_iters.cpp\<close>): the two iterators that are not programs, an arc of a tuple with
    a given attribute and the elements of a segment. \<open>Sc_Set\<close> (\<open>sc_set.cpp\<close>, \<open>sc_set.h\<close>): the sets kept in
    the memory; membership is decided from either end of an arc.
  \<^item> \<open>Sc_Search\<close> (\<open>sc_utils.cpp\<close>): \<open>create_iterator\<close> with the registry of the library, the searches for
    one answer, with their programs taken from the evaluated registration, and the loop over an iterator.
    \<open>Sc_Transaction\<close> (\<open>sc_transaction.cpp\<close>): sessions that can
    be rolled back. \<open>Sc_Network\<close> and \<open>Sc_Queue\<close>: tuples, relations, lists, structures and queues, made of
    arcs with attributes and read by searches.
  \<^item> \<open>Sc_Merge\<close>: moving an element to another segment, gluing segments, merging elements.
    \<open>Tgf_Io\<close> (\<open>tgf_io.cpp\<close>): segments as commands of a stream, written and executed, with the tables that
    translate types; it is the client of the reader and writer of \<open>libtgf\<close>.
  \<^item> \<open>Sc_Gen\<close>: the generator of constructions, a stack of states (\<open>real_gen_state\<close>, the current one
    first) that makes elements through a proxy; a system holds what is generated in a block whose brackets are
    entered by the address of their sign.
  \<^item> \<open>Pm_Sched\<close> (\<open>libpm/libpm/pm_sched.cpp\<close>): the scheduler of agents, with their code and the contexts of
    the machine as parameters on its whole state; \<open>Pm_Live\<close> proves that an agent in a queue gets its turn
    when the others behave (\<open>tame\<close>): the measure is the place in the queue and the distance of the turn.
  \<^item> \<open>Tgf_Map\<close> (\<open>tgfmap.c\<close>): the balanced tree from command numbers to identifiers, its insertion
    proved in the locale \<open>map_order\<close> of comparisons, interpreted for both of the code's.
    \<open>Tgf_Command\<close> (\<open>tgf.h\<close>, \<open>tgf.c\<close>): the commands of a stream; \<open>Tgf_Out\<close> (\<open>tgfout.c\<close>) writes and
    \<open>Tgf_In\<close> (\<open>tgfin.c\<close>) reads streams. \<open>Tgf_Emit\<close> states the format of a stream as bytes and proves that
    the writer emits it, \<open>Tgf_Take\<close> that the reader takes it from any read function that \<open>delivers\<close>
    these bytes in pieces, and \<open>Tgf_Stream\<close> that the callback of the reading client gets the commands
    that were written, between hosts of both byte orders.

  \<^bold>\<open>Conventions.\<close> Objects are numbers, \<open>0\<close> is the null pointer, and the maps of the store and the
  world say which exist. An operation returns \<open>None\<close> where the code aborts, fails an assertion or
  dereferences a pointer to no object, and every return code is a value. So is the head of a list that is
  read as an element: the iterator over the links of a segment does it where no other element follows
  them. Integers of the code keep
  their width where the code can overflow them (types, flags, counters of addresses); reference
  counts are integers. Loops over rings whose callbacks may change them take fuel; the theorem
  \<open>waits_activate_refines\<close> shows that more fuel than the ring is long is enough. \<open>erase_el\<close>
  recurses through arcs of arcs and takes fuel for the depth. The fuel of the interpreter of constraint
  programs bounds one call of \<open>next\<close>; its properties say that from some fuel on the result is the
  same, and inlining takes fuel for the depth of nesting, of which \<open>Std_Answers\<close> gives enough.

  \<^bold>\<open>Not modelled.\<close> Allocation failure, locking (every operation is one step), repositories on
  disk, the iteration over sets of search constraints (programs over sets
  are compiled, not run over the world; \<open>scan_new_events\<close> takes the triples it finds as a parameter),
  the compression of streams (\<open>USE_ZLIB\<close>), the
  interpreters of the processing machine (agents are parameters of its scheduler) and the compilers. Handlers of waits are modelled
  by their answer and a log entry: they do not call back into the memory. The checksum \<open>md5\<close> of the
  content index is a parameter of which nothing is assumed: the properties say that the search finds
  the elements whose bytes have the same checksum, and that these have the same bytes where the
  checksum tells the contents of the segment apart.
\<close>

end
